(* ===== verification/Prelude.thy ===== *)
theory Prelude
  imports Main "HOL-Library.Word"
begin

text \<open>
  The vocabulary every component theory shares: Python exceptions as values of a
  sum type with a bind and two loop combinators, byte strings as lists of 8-bit
  words, Python's slicing and indexing (negative indices and clamping included),
  little-endian integers as \<^verbatim>\<open>int.from_bytes\<close> and \<^verbatim>\<open>struct.unpack_from\<close> read
  them, and ASCII text.

  A Python integer is an \<^typ>\<open>int\<close>; offsets and sizes are integers too, because
  the guards of the source compare differences such as \<^verbatim>\<open>len(data) - size\<close> that
  may be negative.  A raised exception carries the fixed part of its message; the
  interpolated context, names and numbers are presentation and are left out.
\<close>

unbundle bit_operations_syntax

section \<open>Exceptions as values\<close>

datatype py_error =
    ByteIdentityError string
  | FormatError string
  | ValueError string
  | IndexError
  | KeyError
  | TypeError
  | StructError
  | UnicodeDecodeError
  | AssertionError

type_synonym 'a result = "py_error + 'a"

definition rbind :: "'a result \<Rightarrow> ('a \<Rightarrow> 'b result) \<Rightarrow> 'b result" where
  "rbind m f = (case m of Inl e \<Rightarrow> Inl e | Inr x \<Rightarrow> f x)"

text \<open>\<^verbatim>\<open>require(condition, message)\<close> followed by the rest of the function.\<close>

definition require :: "bool \<Rightarrow> string \<Rightarrow> 'a result \<Rightarrow> 'a result" where
  "require c msg k = (if c then k else Inl (ByteIdentityError msg))"

text \<open>An explicit \<^verbatim>\<open>if not condition: raise error\<close> followed by the rest.\<close>

definition raise_unless :: "bool \<Rightarrow> py_error \<Rightarrow> 'a result \<Rightarrow> 'a result" where
  "raise_unless c e k = (if c then k else Inl e)"

text \<open>A comprehension and a loop whose bodies may raise.\<close>

primrec rmap :: "('a \<Rightarrow> 'b result) \<Rightarrow> 'a list \<Rightarrow> 'b list result" where
  "rmap f [] = Inr []"
| "rmap f (x # xs) = rbind (f x) (\<lambda>y. rbind (rmap f xs) (\<lambda>ys. Inr (y # ys)))"

primrec rfold :: "('s \<Rightarrow> 'a \<Rightarrow> 's result) \<Rightarrow> 's \<Rightarrow> 'a list \<Rightarrow> 's result" where
  "rfold f s [] = Inr s"
| "rfold f s (x # xs) = rbind (f s x) (\<lambda>t. rfold f t xs)"

section \<open>Python sequences\<close>

abbreviation len :: "'a list \<Rightarrow> int" where
  "len xs \<equiv> int (length xs)"

text \<open>\<^verbatim>\<open>range(a, b)\<close>.\<close>

definition pyrange :: "int \<Rightarrow> int \<Rightarrow> int list" where
  "pyrange a b = [a..b - 1]"

text \<open>\<^verbatim>\<open>enumerate(xs)\<close>.\<close>

definition enumerate_int :: "'a list \<Rightarrow> (int \<times> 'a) list" where
  "enumerate_int xs = zip (pyrange 0 (len xs)) xs"

text \<open>\<^verbatim>\<open>xs[a:b]\<close>: a negative bound counts from the end, both are clamped.\<close>

definition slice_bound :: "int \<Rightarrow> int \<Rightarrow> int" where
  "slice_bound n i = (if i < 0 then max 0 (n + i) else min i n)"

definition pslice :: "'a list \<Rightarrow> int \<Rightarrow> int \<Rightarrow> 'a list" where
  "pslice xs a b =
     (let s = slice_bound (len xs) a; e = slice_bound (len xs) b
      in take (nat (e - s)) (drop (nat s) xs))"

text \<open>\<^verbatim>\<open>xs[a:]\<close>.\<close>

definition slice_from :: "'a list \<Rightarrow> int \<Rightarrow> 'a list" where
  "slice_from xs a = drop (nat (slice_bound (len xs) a)) xs"

text \<open>\<^verbatim>\<open>xs[i]\<close>.\<close>

definition item :: "'a list \<Rightarrow> int \<Rightarrow> 'a result" where
  "item xs i =
     (let j = (if i < 0 then len xs + i else i)
      in if 0 \<le> j \<and> j < len xs then Inr (xs ! nat j) else Inl IndexError)"

text \<open>\<^verbatim>\<open>d[k]\<close> on a dictionary kept as an association list in insertion order.\<close>

definition dict_item :: "('k \<times> 'v) list \<Rightarrow> 'k \<Rightarrow> 'v result" where
  "dict_item d k = (case map_of d k of None \<Rightarrow> Inl KeyError | Some v \<Rightarrow> Inr v)"

text \<open>\<^verbatim>\<open>d[k] = v\<close>: an existing key keeps its place in the iteration order.\<close>

fun dict_set :: "('k \<times> 'v) list \<Rightarrow> 'k \<Rightarrow> 'v \<Rightarrow> ('k \<times> 'v) list" where
  "dict_set [] k v = [(k, v)]"
| "dict_set ((k', v') # d) k v =
     (if k' = k then (k, v) # d else (k', v') # dict_set d k v)"

section \<open>Bytes and little-endian integers\<close>

type_synonym byte = "8 word"
type_synonym bytes = "byte list"

abbreviation byte_int :: "byte \<Rightarrow> int" where
  "byte_int b \<equiv> uint b"

text \<open>\<^verbatim>\<open>data[i]\<close> on a byte string.\<close>

definition byte_at :: "bytes \<Rightarrow> int \<Rightarrow> int result" where
  "byte_at data i = rbind (item data i) (\<lambda>b. Inr (byte_int b))"

text \<open>\<^verbatim>\<open>int.from_bytes(data, "little")\<close>, unsigned and signed.\<close>

primrec from_bytes :: "bytes \<Rightarrow> int" where
  "from_bytes [] = 0"
| "from_bytes (b # bs) = byte_int b + 256 * from_bytes bs"

definition from_bytes_signed :: "bytes \<Rightarrow> int" where
  "from_bytes_signed bs =
     (let v = from_bytes bs; w = 8 * length bs
      in if bs \<noteq> [] \<and> 2 ^ (w - 1) \<le> v then v - 2 ^ w else v)"

text \<open>\<^verbatim>\<open>int.to_bytes(n, "little")\<close> for a non-negative value that fits.\<close>

primrec to_bytes :: "nat \<Rightarrow> int \<Rightarrow> bytes" where
  "to_bytes 0 v = []"
| "to_bytes (Suc n) v = word_of_int v # to_bytes n (v div 256)"

text \<open>
  \<^verbatim>\<open>struct.unpack_from\<close> of one little-endian unsigned field of the given width; it
  raises \<^verbatim>\<open>struct.error\<close> when the buffer is too short.  A negative offset counts
  from the end of the buffer and raises when the field would not fit.
\<close>

definition unpack_uint :: "nat \<Rightarrow> bytes \<Rightarrow> int \<Rightarrow> int result" where
  "unpack_uint w data off =
     (let start = (if off < 0 then len data + off else off)
      in if 0 \<le> start \<and> start + int w \<le> len data
         then Inr (from_bytes (pslice data start (start + int w)))
         else Inl StructError)"

definition unpack_u16 :: "bytes \<Rightarrow> int \<Rightarrow> int result" where
  "unpack_u16 = unpack_uint 2"

definition unpack_u32 :: "bytes \<Rightarrow> int \<Rightarrow> int result" where
  "unpack_u32 = unpack_uint 4"

section \<open>Text\<close>

text \<open>
  A string holds code points below 256; every text of the modelled readers comes
  from an ASCII decoding.
\<close>

definition ascii_decode :: "bytes \<Rightarrow> string result" where
  "ascii_decode bs =
     (if list_all (\<lambda>b. byte_int b < 128) bs
      then Inr (map (\<lambda>b. char_of (unat b)) bs) else Inl UnicodeDecodeError)"

definition bytes_of_string :: "string \<Rightarrow> bytes" where
  "bytes_of_string s = map (\<lambda>c. of_nat (of_char c)) s"

text \<open>\<^verbatim>\<open>bytes.rstrip(b"\0")\<close>, \<^verbatim>\<open>bytes.isdigit()\<close> and \<^verbatim>\<open>int(digits)\<close>.\<close>

definition rstrip_nul :: "bytes \<Rightarrow> bytes" where
  "rstrip_nul bs = rev (dropWhile (\<lambda>b. b = 0) (rev bs))"

definition is_digit_byte :: "byte \<Rightarrow> bool" where
  "is_digit_byte b = (48 \<le> byte_int b \<and> byte_int b \<le> 57)"

definition bytes_isdigit :: "bytes \<Rightarrow> bool" where
  "bytes_isdigit bs = (bs \<noteq> [] \<and> list_all is_digit_byte bs)"

definition int_of_digits :: "bytes \<Rightarrow> int" where
  "int_of_digits bs = foldl (\<lambda>n b. 10 * n + (byte_int b - 48)) 0 bs"

text \<open>
  \<^verbatim>\<open>str.isdigit()\<close>: below code point 256 the digits are 0 to 9 and the three
  superscripts at 178, 179 and 185.
\<close>

definition str_isdigit :: "string \<Rightarrow> bool" where
  "str_isdigit s =
     (s \<noteq> [] \<and>
      list_all (\<lambda>c. let n = (of_char c :: nat)
                    in 48 \<le> n \<and> n \<le> 57 \<or> n = 178 \<or> n = 179 \<or> n = 185) s)"

fun starts_with :: "'a list \<Rightarrow> 'a list \<Rightarrow> bool" where
  "starts_with xs [] = True"
| "starts_with [] (p # ps) = False"
| "starts_with (x # xs) (p # ps) = (x = p \<and> starts_with xs ps)"

text \<open>\<^verbatim>\<open>data.find(byte, start, stop)\<close> for one byte and in-range bounds; -1 when absent.\<close>

fun find_from :: "bytes \<Rightarrow> byte \<Rightarrow> int \<Rightarrow> int" where
  "find_from [] x i = - 1"
| "find_from (b # bs) x i = (if b = x then i else find_from bs x (i + 1))"

definition bytes_find :: "bytes \<Rightarrow> byte \<Rightarrow> int \<Rightarrow> int \<Rightarrow> int" where
  "bytes_find data x start stop = find_from (pslice data start stop) x start"

text \<open>The lexicographic order Python uses on strings and on tuples of them.\<close>

fun str_less_eq :: "string \<Rightarrow> string \<Rightarrow> bool" where
  "str_less_eq [] t = True"
| "str_less_eq (c # s) [] = False"
| "str_less_eq (c # s) (d # t) =
     (if (of_char c :: nat) < of_char d then True
      else if (of_char d :: nat) < of_char c then False else str_less_eq s t)"

text \<open>\<^verbatim>\<open>sorted(xs)\<close> for a total preorder: a stable insertion sort.\<close>

fun insert_by :: "('a \<Rightarrow> 'a \<Rightarrow> bool) \<Rightarrow> 'a \<Rightarrow> 'a list \<Rightarrow> 'a list" where
  "insert_by le x [] = [x]"
| "insert_by le x (y # ys) = (if le x y then x # y # ys else y # insert_by le x ys)"

definition sort_by :: "('a \<Rightarrow> 'a \<Rightarrow> bool) \<Rightarrow> 'a list \<Rightarrow> 'a list" where
  "sort_by le xs = foldr (insert_by le) xs []"

section \<open>The collections and lemmas the components share\<close>

named_theorems reader_defs \<open>definitions of the byte-level readers\<close>
named_theorems slice_facts \<open>lengths and contents of Python slices\<close>

lemma rbind_Inr [simp]: "rbind (Inr x) f = f x"
  by (simp add: rbind_def)

lemma rbind_Inl [simp]: "rbind (Inl e) f = Inl e"
  by (simp add: rbind_def)

lemma rbind_eq_Inr [simp]: "rbind m f = Inr y \<longleftrightarrow> (\<exists>x. m = Inr x \<and> f x = Inr y)"
  by (cases m) (auto simp: rbind_def)

lemma rbind_eq_Inl: "rbind m f = Inl e \<longleftrightarrow> m = Inl e \<or> (\<exists>x. m = Inr x \<and> f x = Inl e)"
  by (cases m) (auto simp: rbind_def)

lemma rbind_assoc: "rbind (rbind m f) g = rbind m (\<lambda>x. rbind (f x) g)"
  by (cases m) auto

lemma rbind_cong [fundef_cong]:
  "m = m' \<Longrightarrow> (\<And>x. m' = Inr x \<Longrightarrow> f x = g x) \<Longrightarrow> rbind m f = rbind m' g"
  by (cases m') auto

lemma require_cong [fundef_cong]:
  "c = c' \<Longrightarrow> msg = msg' \<Longrightarrow> (c' \<Longrightarrow> k = k') \<Longrightarrow> require c msg k = require c' msg' k'"
  by (auto simp: require_def)

lemma raise_unless_cong [fundef_cong]:
  "c = c' \<Longrightarrow> e = e' \<Longrightarrow> (c' \<Longrightarrow> k = k') \<Longrightarrow> raise_unless c e k = raise_unless c' e' k'"
  by (auto simp: raise_unless_def)

lemma require_eq_Inr [simp]: "require c msg k = Inr y \<longleftrightarrow> c \<and> k = Inr y"
  by (auto simp: require_def)

lemma require_eq_Inl:
  "require c msg k = Inl e \<longleftrightarrow> (if c then k = Inl e else e = ByteIdentityError msg)"
  by (auto simp: require_def)

lemma require_True [simp]: "require True msg k = k"
  by (simp add: require_def)

lemma require_False [simp]: "require False msg k = Inl (ByteIdentityError msg)"
  by (simp add: require_def)

lemma raise_unless_eq_Inr [simp]: "raise_unless c e k = Inr y \<longleftrightarrow> c \<and> k = Inr y"
  by (auto simp: raise_unless_def)

lemma raise_unless_simps [simp]:
  "raise_unless True e k = k" "raise_unless False e k = Inl e"
  by (simp_all add: raise_unless_def)

lemmas result_inl = rbind_eq_Inl require_eq_Inl

lemma pyrange_nat: "pyrange 0 (int n) = map int [0..<n]"
  by (auto simp: pyrange_def intro!: nth_equalityI)

lemma rmap_eq_Inr: "rmap f xs = Inr ys \<longleftrightarrow> list_all2 (\<lambda>x y. f x = Inr y) xs ys"
  by (induction xs arbitrary: ys) (auto simp: list_all2_Cons1)

lemma rmap_length: "rmap f xs = Inr ys \<Longrightarrow> length ys = length xs"
  by (auto simp: rmap_eq_Inr dest: list_all2_lengthD)

lemma rmap_in_set: "rmap f xs = Inr ys \<Longrightarrow> y \<in> set ys \<Longrightarrow> \<exists>x \<in> set xs. f x = Inr y"
  by (auto simp: rmap_eq_Inr list_all2_conv_all_nth in_set_conv_nth) (metis nth_mem)

lemma rmap_member: "rmap f xs = Inr ys \<Longrightarrow> x \<in> set xs \<Longrightarrow> \<exists>y \<in> set ys. f x = Inr y"
  by (induction xs arbitrary: ys) auto

lemma rmap_all_exist: "(\<And>x. x \<in> set xs \<Longrightarrow> \<exists>y. f x = Inr y) \<Longrightarrow> \<exists>ys. rmap f xs = Inr ys"
proof (induction xs)
  case (Cons x xs)
  then obtain y ys where "f x = Inr y" "rmap f xs = Inr ys" by fastforce
  then show ?case by simp
qed simp

lemma rmap_nth: "rmap f xs = Inr ys \<Longrightarrow> i < length xs \<Longrightarrow> f (xs ! i) = Inr (ys ! i)"
  by (auto simp: rmap_eq_Inr list_all2_conv_all_nth)

lemma rmap_cong_set:
  "(\<And>x. x \<in> set xs \<Longrightarrow> f x = g x) \<Longrightarrow> rmap f xs = rmap g xs"
  by (induction xs) auto

lemma rmap_all_Inr: "(\<And>x. x \<in> set xs \<Longrightarrow> f x = Inr (g x)) \<Longrightarrow> rmap f xs = Inr (map g xs)"
  by (induction xs) auto

lemma rmap_map_eq:
  "rmap f xs = Inr ys \<Longrightarrow> (\<And>x y. f x = Inr y \<Longrightarrow> g y = h x) \<Longrightarrow> map g ys = map h xs"
  by (induction xs arbitrary: ys) auto

lemma rfold_append: "rfold f s (xs @ ys) = rbind (rfold f s xs) (\<lambda>t. rfold f t ys)"
  by (induction xs arbitrary: s) (auto simp: rbind_assoc)

lemma rfold_unit: "rfold f () xs = Inr () \<Longrightarrow> x \<in> set xs \<Longrightarrow> f () x = Inr ()"
  by (induction xs) auto

text \<open>The invariant rule of a loop that may raise.\<close>

lemma rfold_invariant:
  assumes "rfold f s xs = Inr t" and "P s"
    and "\<And>s x t. P s \<Longrightarrow> x \<in> set xs \<Longrightarrow> f s x = Inr t \<Longrightarrow> P t"
  shows "P t"
  using assms
proof (induction xs arbitrary: s)
  case Nil
  then show ?case by simp
next
  case (Cons x xs)
  from Cons.prems(1) obtain u where u: "f s x = Inr u" "rfold f u xs = Inr t" by auto
  have "P u" by (rule Cons.prems(3) [OF Cons.prems(2) _ u(1)]) simp
  then show ?case by (rule Cons.IH [OF u(2)]) (rule Cons.prems(3), auto)
qed

lemma length_pyrange [simp]: "length (pyrange a b) = nat (b - a)"
  by (simp add: pyrange_def)

lemma set_pyrange [simp]: "set (pyrange a b) = {a..<b}"
  by (auto simp: pyrange_def)

lemma nth_pyrange [simp]: "i < nat (b - a) \<Longrightarrow> pyrange a b ! i = a + int i"
  by (simp add: pyrange_def)

lemma distinct_pyrange [simp]: "distinct (pyrange a b)"
  by (simp add: pyrange_def)

lemma pslice_nonneg:
  "0 \<le> a \<Longrightarrow> 0 \<le> b \<Longrightarrow> pslice xs a b = take (nat (b - a)) (drop (nat a) xs)"
  by (auto simp: pslice_def slice_bound_def Let_def min_def nat_diff_distrib)

lemma length_pslice [slice_facts]:
  "0 \<le> a \<Longrightarrow> a \<le> b \<Longrightarrow> b \<le> len xs \<Longrightarrow> length (pslice xs a b) = nat (b - a)"
  by (simp add: pslice_nonneg)

lemma pslice_append [slice_facts]:
  assumes "0 \<le> a" "a \<le> b" "b \<le> c"
  shows "pslice xs a b @ pslice xs b c = pslice xs a c"
proof -
  have "nat (c - a) = nat (b - a) + nat (c - b)" and "nat b = nat a + nat (b - a)"
    using assms by linarith+
  then show ?thesis using assms by (simp add: pslice_nonneg take_add add.commute)
qed

lemma pslice_pslice:
  "0 \<le> a \<Longrightarrow> 0 \<le> x \<Longrightarrow> x \<le> y \<Longrightarrow> a + y \<le> b \<Longrightarrow> b \<le> len xs \<Longrightarrow>
     pslice (pslice xs a b) x y = pslice xs (a + x) (a + y)"
  by (auto simp: pslice_nonneg take_drop min_def nat_diff_distrib nat_add_distrib add.commute)

lemma pslice_all [simp]: "pslice xs 0 (len xs) = xs"
  by (simp add: pslice_nonneg)

lemma pslice_empty [simp]: "pslice xs a a = []"
  by (simp add: pslice_def Let_def)

lemma pslice_cong:
  assumes "length xs = length ys" "0 \<le> a" "a \<le> b"
    and "\<And>p. nat a \<le> p \<Longrightarrow> p < nat b \<Longrightarrow> p < length xs \<Longrightarrow> xs ! p = ys ! p"
  shows "pslice xs a b = pslice ys a b"
proof -
  have "take (nat (b - a)) (drop (nat a) xs) = take (nat (b - a)) (drop (nat a) ys)"
    by (rule nth_equalityI) (use assms in \<open>auto simp: nat_diff_distrib\<close>)
  then show ?thesis using assms by (simp add: pslice_nonneg)
qed

lemma length_pslice_le: "length (pslice xs a b) \<le> length xs"
  unfolding pslice_def Let_def length_take length_drop min_def by (auto split: if_splits)

lemma byte_int_less [simp]: "byte_int b < 256"
  using uint_lt2p [of b] by simp

lemma from_bytes_nonneg [simp]: "0 \<le> from_bytes bs"
  by (induction bs) auto

lemma from_bytes_less: "from_bytes bs < 256 ^ length bs"
proof (induction bs)
  case Nil
  then show ?case by simp
next
  case (Cons b bs)
  have "byte_int b + 256 * from_bytes bs < 256 * (1 + from_bytes bs)"
    using byte_int_less [of b] by (simp only: distrib_left)
  also have "\<dots> \<le> 256 * 256 ^ length bs" using Cons by simp
  finally show ?case by simp
qed

lemma length_to_bytes [simp]: "length (to_bytes n v) = n"
  by (induction n arbitrary: v) auto

lemma from_bytes_signed_bounds:
  assumes "bs \<noteq> []"
  shows "- (2 ^ (8 * length bs - 1)) \<le> from_bytes_signed bs"
    "from_bytes_signed bs < 2 ^ (8 * length bs - 1)"
proof -
  have "(256 :: int) ^ length bs = 2 ^ (8 * length bs)"
    by (simp add: power_mult)
  moreover have "(2 :: int) ^ (8 * length bs) = 2 * 2 ^ (8 * length bs - 1)"
    using assms by (metis Suc_pred' length_greater_0_conv nat_0_less_mult_iff power_Suc zero_less_numeral)
  ultimately show "- (2 ^ (8 * length bs - 1)) \<le> from_bytes_signed bs"
    "from_bytes_signed bs < 2 ^ (8 * length bs - 1)"
    using from_bytes_less [of bs] from_bytes_nonneg [of bs] assms
    by (auto simp: from_bytes_signed_def Let_def simp del: from_bytes_nonneg)
qed

lemma from_to_bytes: "0 \<le> v \<Longrightarrow> v < 256 ^ n \<Longrightarrow> from_bytes (to_bytes n v) = v"
proof (induction n arbitrary: v)
  case 0
  then show ?case by simp
next
  case (Suc n)
  have "v div 256 < 256 ^ n" using Suc.prems by auto
  then have "from_bytes (to_bytes n (v div 256)) = v div 256"
    using Suc by (simp add: pos_imp_zdiv_nonneg_iff)
  then show ?case by (simp add: uint_word_of_int)
qed

lemma to_from_bytes: "to_bytes (length bs) (from_bytes bs) = bs"
proof (induction bs)
  case Nil
  then show ?case by simp
next
  case (Cons b bs)
  have "(byte_int b + 256 * from_bytes bs) div 256 = from_bytes bs"
    using byte_int_less [of b] by simp
  moreover have "word_of_int (byte_int b + 256 * from_bytes bs) = b"
  proof -
    have "(256 :: byte) = 0" by simp
    then show ?thesis by (simp only: of_int_add of_int_mult of_int_numeral) simp
  qed
  ultimately show ?case using Cons by simp
qed

lemma from_bytes_inj: "length a = length b \<Longrightarrow> from_bytes a = from_bytes b \<Longrightarrow> a = b"
  by (metis to_from_bytes)

lemma unpack_uint_Inr:
  "0 \<le> off \<Longrightarrow> unpack_uint w data off = Inr v \<longleftrightarrow>
     off + int w \<le> len data \<and> v = from_bytes (pslice data off (off + int w))"
  by (auto simp: unpack_uint_def Let_def)

lemma unpack_uint_bounds: "unpack_uint w data off = Inr v \<Longrightarrow> 0 \<le> v \<and> v < 256 ^ w"
proof -
  assume "unpack_uint w data off = Inr v"
  then obtain s where s: "0 \<le> s" "s + int w \<le> len data" "v = from_bytes (pslice data s (s + int w))"
    by (auto simp: unpack_uint_def Let_def split: if_splits)
  then have "length (pslice data s (s + int w)) = w" by (simp add: length_pslice)
  then show ?thesis using s(3) from_bytes_less [of "pslice data s (s + int w)"] by simp
qed

lemma byte_at_bounds: "byte_at data i = Inr v \<Longrightarrow> 0 \<le> v \<and> v < 256"
  by (auto simp: byte_at_def)

lemma starts_with_append [simp]: "starts_with (p @ xs) p"
  by (induction p) auto

lemma starts_with_iff: "starts_with xs p \<longleftrightarrow> (\<exists>ys. xs = p @ ys)"
  by (induction xs p rule: starts_with.induct) auto

lemma set_insert_by [simp]: "set (insert_by le x xs) = insert x (set xs)"
  by (induction xs) auto

lemma set_sort_by [simp]: "set (sort_by le xs) = set xs"
  by (induction xs) (auto simp: sort_by_def)

lemma length_insert_by [simp]: "length (insert_by le x xs) = Suc (length xs)"
  by (induction xs) auto

lemma length_sort_by [simp]: "length (sort_by le xs) = length xs"
  by (induction xs) (auto simp: sort_by_def)

lemma distinct_insert_by [simp]: "distinct (insert_by le x xs) = distinct (x # xs)"
  by (induction xs) auto

lemma sort_by_Cons: "sort_by le (x # xs) = insert_by le x (sort_by le xs)"
  by (simp add: sort_by_def)

lemma sort_by_Nil [simp]: "sort_by le [] = []"
  by (simp add: sort_by_def)

lemma distinct_sort_by [simp]: "distinct (sort_by le xs) = distinct xs"
  by (induction xs) (auto simp: sort_by_Cons)

lemma map_insert_by:
  "map f (insert_by (\<lambda>a b. le (f a) (f b)) x xs) = insert_by le (f x) (map f xs)"
  by (induction xs) auto

lemma map_sort_by: "map f (sort_by (\<lambda>a b. le (f a) (f b)) xs) = sort_by le (map f xs)"
  by (induction xs) (auto simp: sort_by_Cons map_insert_by)

lemma insert_by_sorted:
  assumes "\<And>a b. le a b \<or> le b a" and "\<And>a b c. le a b \<Longrightarrow> le b c \<Longrightarrow> le a c"
    and "sorted_wrt le xs"
  shows "sorted_wrt le (insert_by le x xs)"
  using assms(3)
proof (induction xs)
  case (Cons y ys)
  then show ?case using assms(1) [of x y] assms(2) by (auto dest: assms(2))
qed simp

lemma sort_by_sorted:
  assumes "\<And>a b. le a b \<or> le b a" and "\<And>a b c. le a b \<Longrightarrow> le b c \<Longrightarrow> le a c"
  shows "sorted_wrt le (sort_by le xs)"
proof (induction xs)
  case (Cons x xs)
  show ?case unfolding sort_by_Cons
    by (rule insert_by_sorted) (use assms Cons in blast)+
qed simp

lemma sort_by_id: "sorted_wrt le xs \<Longrightarrow> sort_by le xs = xs"
proof (induction xs)
  case (Cons x xs)
  then show ?case by (cases xs) (auto simp: sort_by_Cons)
qed simp

lemma str_less_eq_total: "str_less_eq a b \<or> str_less_eq b a"
  by (induction a b rule: str_less_eq.induct) auto

lemma str_less_eq_trans: "str_less_eq a b \<Longrightarrow> str_less_eq b c \<Longrightarrow> str_less_eq a c"
proof (induction a b arbitrary: c rule: str_less_eq.induct)
  case (3 x s y t)
  then show ?case by (cases c) (auto split: if_splits)
qed auto

lemma sort_str_sorted: "sorted_wrt str_less_eq (sort_by str_less_eq xs)"
  by (rule sort_by_sorted) (rule str_less_eq_total, rule str_less_eq_trans)

lemma sort_str_idem [simp]: "sort_by str_less_eq (sort_by str_less_eq xs) = sort_by str_less_eq xs"
  by (rule sort_by_id) (rule sort_str_sorted)

lemma map_of_dict_set [simp]: "map_of (dict_set d k v) = (map_of d)(k \<mapsto> v)"
  by (induction d k v rule: dict_set.induct) auto

lemma map_of_map_values: "map_of (map (\<lambda>(k, v). (k, f v)) d) k = map_option f (map_of d k)"
  by (induction d) auto

lemma str_less_eq_antisym: "str_less_eq a b \<Longrightarrow> str_less_eq b a \<Longrightarrow> a = b"
  by (induction a b rule: str_less_eq.induct) (auto split: if_splits elim: str_less_eq.elims)

lemma str_less_eq_refl [simp]: "str_less_eq a a"
  by (induction a) auto

lemma dict_set_keys: "fst ` set (dict_set d k v) = insert k (fst ` set d)"
  by (induction d k v rule: dict_set.induct) auto

lemma dict_set_distinct: "distinct (map fst d) \<Longrightarrow> distinct (map fst (dict_set d k v))"
  by (induction d k v rule: dict_set.induct) (auto simp: dict_set_keys)

lemma map_fst_dict_set:
  "map fst (dict_set d k v) = (if k \<in> fst ` set d then map fst d else map fst d @ [k])"
  by (induction d k v rule: dict_set.induct) auto

end
