(* ===== verification/Ia32_Decode.thy ===== *)
theory Ia32_Decode
  imports Prelude
begin

text \<open>
  The fail-closed instruction-length decoder of \<^verbatim>\<open>src/reprobit/ia32_decode.py\<close>: the
  two opcode tables as partial functions built by the same sequence of updates, the
  prefix loop, the operand loop and the final bounds.  The theorems show that a
  decoded length is between 1 and 15 and inside the buffer, and that the decoder
  reads no byte beyond the length it returns, so that accepted instructions form a
  prefix code and an instruction stream has one segmentation.
\<close>

section \<open>Opcode tables\<close>

datatype operand = M | Ib | Iz | Jb | Jz | Iw | Ov | Ap | F6 | F7

type_synonym opcode_table = "int \<Rightarrow> operand list option"

definition table_range :: "int \<Rightarrow> int \<Rightarrow> operand list \<Rightarrow> opcode_table \<Rightarrow> opcode_table" where
  "table_range a b v t = (\<lambda>opcode. if a \<le> opcode \<and> opcode < b then Some v else t opcode)"

definition table_set :: "int list \<Rightarrow> operand list \<Rightarrow> opcode_table \<Rightarrow> opcode_table" where
  "table_set ops v t = (\<lambda>opcode. if opcode \<in> set ops then Some v else t opcode)"

definition arithmetic_block :: "int \<Rightarrow> opcode_table \<Rightarrow> opcode_table" where
  "arithmetic_block base t =
     table_set [base + 5] [Iz] (table_set [base + 4] [Ib]
       (table_set [base, base + 1, base + 2, base + 3] [M] t))"

definition one_byte_table :: opcode_table where
  "one_byte_table =
     foldl (\<lambda>t f. f t) (fold arithmetic_block [0, 8, 16, 24, 32, 40, 48, 56] (\<lambda>_. None))
      [table_set [6, 7, 14, 22, 23, 30, 31, 39, 47, 55, 63] [],
       table_range 64 98 [],
       table_set [98, 99] [M], table_set [104] [Iz], table_set [105] [M, Iz],
       table_set [106] [Ib], table_set [107] [M, Ib],
       table_range 108 112 [],
       table_range 112 128 [Jb],
       table_set [128, 130, 131] [M, Ib], table_set [129] [M, Iz],
       table_range 132 144 [M],
       table_range 144 154 [],
       table_set [154] [Ap],
       table_range 155 160 [],
       table_range 160 164 [Ov],
       table_range 164 168 [],
       table_set [168] [Ib], table_set [169] [Iz],
       table_range 170 176 [],
       table_range 176 184 [Ib],
       table_range 184 192 [Iz],
       table_set [192, 193] [M, Ib], table_set [194] [Iw], table_set [195] [],
       table_set [196, 197] [M], table_set [198] [M, Ib], table_set [199] [M, Iz],
       table_set [200] [Iw, Ib], table_set [201] [], table_set [202] [Iw],
       table_set [203, 204] [], table_set [205] [Ib], table_set [206, 207] [],
       table_range 208 212 [M],
       table_set [212, 213] [Ib], table_set [215] [],
       table_range 216 224 [M],
       table_range 224 228 [Jb],
       table_range 228 232 [Ib],
       table_set [232, 233] [Jz], table_set [234] [Ap], table_set [235] [Jb],
       table_range 236 240 [],
       table_set [244, 245] [], table_set [246] [M, F6], table_set [247] [M, F7],
       table_range 248 254 [],
       table_set [254, 255] [M]]"

definition two_byte_table :: opcode_table where
  "two_byte_table =
     foldl (\<lambda>t f. f t) (\<lambda>_. None)
      [table_set [0, 1, 2, 3, 13, 24, 31] [M],
       table_set [6, 8, 9, 11, 48, 49, 50, 51, 119, 160, 161, 162, 168, 169, 170] [],
       table_range 16 24 [M],
       table_range 32 36 [M],
       table_range 40 48 [M],
       table_range 64 112 [M],
       table_range 112 116 [M, Ib],
       table_range 116 119 [M],
       table_set [126, 127] [M],
       table_range 128 144 [Jz],
       table_range 144 160 [M],
       table_set [163] [M], table_set [164] [M, Ib], table_set [165] [M],
       table_set [171] [M], table_set [172] [M, Ib], table_set [173, 174, 175] [M],
       table_range 176 184 [M],
       table_set [185] [M], table_set [186] [M, Ib],
       table_range 187 194 [M],
       table_set [194] [M, Ib], table_set [195] [M], table_set [196, 197, 198] [M, Ib],
       table_set [199] [M],
       table_range 200 208 [],
       table_range 208 256 [M]]"

definition prefixes :: "int list" where
  "prefixes = [0x26, 0x2E, 0x36, 0x3E, 0x64, 0x65, 0x66, 0xF0, 0xF2, 0xF3]"

section \<open>The decoder\<close>

text \<open>
  The prefix loop, over the bytes from the cursor on.  It returns the cursor at the
  first byte that is no prefix, and whether 0x66 was seen.
\<close>

fun prefix_loop :: "bytes \<Rightarrow> int \<Rightarrow> bool \<Rightarrow> int list \<Rightarrow> (int \<times> bool) result" where
  "prefix_loop [] cursor operand_size_16 seen = Inr (cursor, operand_size_16)"
| "prefix_loop (b # rest) cursor operand_size_16 seen =
     (if byte_int b \<in> set prefixes
      then require (byte_int b \<notin> set seen) ''unsupported repeated instruction prefix''
             (prefix_loop rest (cursor + 1) (operand_size_16 \<or> byte_int b = 0x66)
                (byte_int b # seen))
      else Inr (cursor, operand_size_16))"

text \<open>The ModRM branch: mode and r/m select a SIB byte and a displacement.\<close>

definition modrm_operand :: "bytes \<Rightarrow> int \<Rightarrow> (int \<times> int) result" where
  "modrm_operand encoded cursor =
     require (cursor < len encoded) ''instruction lacks ModRM''
      (rbind (byte_at encoded cursor) (\<lambda>modrm.
        let cursor = cursor + 1; mode = drop_bit 6 modrm; rm = modrm AND 7
        in rbind
            (if mode \<noteq> 3 \<and> rm = 4
             then require (cursor < len encoded) ''instruction lacks SIB''
                    (rbind (byte_at encoded cursor) (\<lambda>sib.
                      Inr (if mode = 0 \<and> sib AND 7 = 5 then cursor + 1 + 4 else cursor + 1)))
             else Inr (if mode = 0 \<and> rm = 5 then cursor + 4 else cursor))
            (\<lambda>cursor. Inr (if mode = 1 then cursor + 1 else if mode = 2 then cursor + 4
                            else cursor, modrm))))"

text \<open>One pass of the operand loop; the state is the cursor and the last ModRM byte.\<close>

fun operand_step :: "bytes \<Rightarrow> bool \<Rightarrow> int \<times> int \<Rightarrow> operand \<Rightarrow> (int \<times> int) result" where
  "operand_step encoded op16 (cursor, modrm) M = modrm_operand encoded cursor"
| "operand_step encoded op16 (cursor, modrm) F6 =
     Inr (if drop_bit 3 modrm AND 7 \<in> {0, 1} then cursor + 1 else cursor, modrm)"
| "operand_step encoded op16 (cursor, modrm) F7 =
     Inr (if drop_bit 3 modrm AND 7 \<in> {0, 1} then cursor + (if op16 then 2 else 4) else cursor,
          modrm)"
| "operand_step encoded op16 (cursor, modrm) Ib = Inr (cursor + 1, modrm)"
| "operand_step encoded op16 (cursor, modrm) Jb = Inr (cursor + 1, modrm)"
| "operand_step encoded op16 (cursor, modrm) Iw = Inr (cursor + 2, modrm)"
| "operand_step encoded op16 (cursor, modrm) Iz = Inr (cursor + (if op16 then 2 else 4), modrm)"
| "operand_step encoded op16 (cursor, modrm) Jz = Inr (cursor + (if op16 then 2 else 4), modrm)"
| "operand_step encoded op16 (cursor, modrm) Ov = Inr (cursor + 4, modrm)"
| "operand_step encoded op16 (cursor, modrm) Ap = Inr (cursor + 6, modrm)"

text \<open>The opcode after the prefixes: its operands and the cursor behind it.\<close>

definition decode_opcode :: "bytes \<Rightarrow> int \<Rightarrow> (operand list \<times> int) result" where
  "decode_opcode encoded cursor =
     rbind (byte_at encoded cursor) (\<lambda>opcode.
       if opcode = 0x0F
       then require (cursor + 1 < len encoded) ''truncated two-byte opcode''
              (rbind (byte_at encoded (cursor + 1)) (\<lambda>opcode2.
                case two_byte_table opcode2 of
                  None \<Rightarrow> Inl (ByteIdentityError ''unsupported two-byte opcode'')
                | Some operands \<Rightarrow> Inr (operands, cursor + 2)))
       else (case one_byte_table opcode of
               None \<Rightarrow> Inl (ByteIdentityError ''unsupported instruction opcode'')
             | Some operands \<Rightarrow> Inr (operands, cursor + 1)))"

definition supported_ia32_instruction_length :: "bytes \<Rightarrow> int result" where
  "supported_ia32_instruction_length encoded =
     require (encoded \<noteq> []) ''instruction encoding is missing''
      (rbind (prefix_loop encoded 0 False []) (\<lambda>(cursor, op16).
        require (cursor < len encoded) ''unsupported or truncated prefix''
         (require (cursor \<le> 4) ''unsupported instruction prefix run''
           (rbind (decode_opcode encoded cursor) (\<lambda>(operands, cursor).
             rbind (rfold (operand_step encoded op16) (cursor, 0) operands) (\<lambda>(cursor, modrm).
               require (cursor \<le> len encoded) ''supported instruction is truncated''
                (require (cursor \<le> 15) ''instruction exceeds 15 bytes'' (Inr cursor))))))))"

section \<open>Bounds and locality\<close>

text \<open>
  Two buffers that agree on their first n bytes; every read below n then gives the
  same byte, and every bounds check below n passes in both.
\<close>

definition agree :: "int \<Rightarrow> bytes \<Rightarrow> bytes \<Rightarrow> bool" where
  "agree n e e' \<longleftrightarrow> n \<le> len e \<and> n \<le> len e' \<and> take (nat n) e = take (nat n) e'"

lemma agree_take: "0 \<le> n \<Longrightarrow> n \<le> len e \<Longrightarrow> agree n e (take (nat n) e @ r)"
  by (auto simp: agree_def min_def)

lemma agree_byte_at: "agree n e e' \<Longrightarrow> 0 \<le> i \<Longrightarrow> i < n \<Longrightarrow> byte_at e' i = byte_at e i"
proof -
  assume a: "agree n e e'" and i: "0 \<le> i" "i < n"
  then have lt: "nat i < nat n" by simp
  have "e ! nat i = take (nat n) e ! nat i" using lt by simp
  also have "\<dots> = take (nat n) e' ! nat i" using a by (simp add: agree_def)
  also have "\<dots> = e' ! nat i" using lt by simp
  finally have "e' ! nat i = e ! nat i" by simp
  moreover have "i < len e" "i < len e'" using a i by (simp_all add: agree_def)
  ultimately show ?thesis using i by (simp add: byte_at_def item_def)
qed

lemma modrm_operand_progress:
  "modrm_operand e c = Inr (c', m') \<Longrightarrow> c + 1 \<le> c'"
  by (auto simp: modrm_operand_def Let_def split: if_splits)

lemma operand_step_progress:
  "operand_step e op16 (c, m) t = Inr (c', m') \<Longrightarrow> c \<le> c'"
  by (cases t) (auto dest: modrm_operand_progress split: if_splits)

lemma operands_progress:
  "rfold (operand_step e op16) (c, m) ts = Inr (c', m') \<Longrightarrow> c \<le> c'"
proof (induction ts arbitrary: c m)
  case Nil
  then show ?case by simp
next
  case (Cons t ts)
  from Cons.prems obtain d k where st: "operand_step e op16 (c, m) t = Inr (d, k)"
    and rest: "rfold (operand_step e op16) (d, k) ts = Inr (c', m')" by auto
  from operand_step_progress [OF st] Cons.IH [OF rest] show ?case by simp
qed

lemma modrm_operand_local:
  assumes "modrm_operand e c = Inr (c', m')" "agree n e e'" "c' \<le> n" "0 \<le> c"
  shows "modrm_operand e' c = Inr (c', m')"
proof -
  have n: "c + 1 \<le> n" using assms modrm_operand_progress by fastforce
  from assms obtain mr where mr: "byte_at e c = Inr mr" by (auto simp: modrm_operand_def)
  have mr': "byte_at e' c = Inr mr" using agree_byte_at [OF assms(2), of c] n assms(4) mr by simp
  have c': "c < len e" "c < len e'" using n assms(2) by (auto simp: agree_def)
  show ?thesis
  proof (cases "drop_bit 6 mr \<noteq> 3 \<and> mr AND 7 = 4")
    case True
    then obtain sib where "byte_at e (c + 1) = Inr sib" "c + 1 < len e" and
      le: "c + 2 \<le> c'"
      using assms(1) c' mr by (auto simp: modrm_operand_def Let_def split: if_splits)
    then have "byte_at e' (c + 1) = Inr sib" "c + 1 < len e'"
      using agree_byte_at [OF assms(2), of "c + 1"] assms(2-4) by (auto simp: agree_def)
    with True assms(1) mr mr' c' \<open>byte_at e (c + 1) = Inr sib\<close> \<open>c + 1 < len e\<close>
    show ?thesis unfolding modrm_operand_def Let_def by (auto split del: if_split)
  next
    case False
    with assms(1) mr mr' c' show ?thesis by (auto simp: modrm_operand_def Let_def)
  qed
qed

lemma operand_step_local:
  assumes "operand_step e op16 (c, m) t = Inr (c', m')" "agree n e e'" "c' \<le> n" "0 \<le> c"
  shows "operand_step e' op16 (c, m) t = Inr (c', m')"
  using assms(1) by (cases t) (auto intro: modrm_operand_local [OF _ assms(2-4)] split del: if_split)

lemma operands_local:
  assumes "rfold (operand_step e op16) (c, m) ts = Inr (c', m')" "agree n e e'" "c' \<le> n" "0 \<le> c"
  shows "rfold (operand_step e' op16) (c, m) ts = Inr (c', m')"
  using assms
proof (induction ts arbitrary: c m)
  case Nil
  then show ?case by simp
next
  case (Cons t ts)
  from Cons.prems(1) obtain d k where st: "operand_step e op16 (c, m) t = Inr (d, k)"
    and rest: "rfold (operand_step e op16) (d, k) ts = Inr (c', m')" by auto
  have le: "c \<le> d" "d \<le> c'"
    using operand_step_progress [OF st] operands_progress [OF rest] by simp_all
  with Cons.prems(3,4) have d: "d \<le> n" "0 \<le> d" by simp_all
  have "operand_step e' op16 (c, m) t = Inr (d, k)"
    by (rule operand_step_local [OF st Cons.prems(2) d(1) Cons.prems(4)])
  with Cons.IH [OF rest Cons.prems(2,3) d(2)] show ?case by simp
qed

lemma decode_opcode_cursor:
  "decode_opcode e c = Inr (ops, c') \<Longrightarrow> c + 1 \<le> c' \<and> c' \<le> c + 2"
  by (auto simp: decode_opcode_def split: if_splits option.splits)

lemma decode_opcode_local:
  assumes "decode_opcode e c = Inr (ops, c')" "agree n e e'" "c' \<le> n" "0 \<le> c"
  shows "decode_opcode e' c = Inr (ops, c')"
proof -
  have n: "c + 1 \<le> n" using assms decode_opcode_cursor by fastforce
  then have same: "byte_at e' c = byte_at e c" using agree_byte_at [OF assms(2)] assms(4) by simp
  from assms obtain oc where oc: "byte_at e c = Inr oc" by (auto simp: decode_opcode_def)
  show ?thesis
  proof (cases "oc = 0x0F")
    case True
    with assms(1) oc have "c + 2 \<le> n" using assms(3)
      by (auto simp: decode_opcode_def split: option.splits)
    then have "byte_at e' (c + 1) = byte_at e (c + 1)" "c + 1 < len e'"
      using agree_byte_at [OF assms(2)] assms(2,4) by (auto simp: agree_def)
    with True assms(1) oc same show ?thesis by (auto simp: decode_opcode_def)
  next
    case False
    with assms(1) oc same show ?thesis by (simp add: decode_opcode_def)
  qed
qed

lemma prefix_loop_cursor:
  "prefix_loop e c op16 seen = Inr (c', op') \<Longrightarrow> c \<le> c' \<and> c' \<le> c + len e"
  by (induction e c op16 seen rule: prefix_loop.induct) (auto split: if_splits)

lemma prefix_loop_local:
  "prefix_loop e c op16 seen = Inr (c', op') \<Longrightarrow> c' < c + len e \<Longrightarrow>
   prefix_loop (take (nat (c' - c) + 1) e @ r) c op16 seen = Inr (c', op')"
proof (induction e c op16 seen rule: prefix_loop.induct)
  case (1 c op16 seen)
  then show ?case by simp
next
  case (2 b rest c op16 seen)
  show ?case
  proof (cases "byte_int b \<in> set prefixes")
    case True
    with 2 have p: "prefix_loop rest (c + 1) (op16 \<or> byte_int b = 102) (byte_int b # seen) = Inr (c', op')"
      and new: "byte_int b \<notin> set seen" by auto
    then have "c + 1 \<le> c'" by (auto dest: prefix_loop_cursor)
    then have "nat (c' - c) + 1 = Suc (nat (c' - (c + 1)) + 1)" by linarith
    with True new 2 p show ?thesis by simp
  next
    case False
    with 2 show ?thesis by simp
  qed
qed

lemma supported_length_cases:
  assumes "supported_ia32_instruction_length e = Inr n"
  obtains c op16 ops c2 m where
    "e \<noteq> []" "prefix_loop e 0 False [] = Inr (c, op16)" "0 \<le> c" "c < len e" "c \<le> 4"
    "decode_opcode e c = Inr (ops, c2)" "c + 1 \<le> c2"
    "rfold (operand_step e op16) (c2, 0) ops = Inr (n, m)" "c2 \<le> n" "n \<le> len e" "n \<le> 15"
proof -
  from assms obtain c op16 ops c2 m where
    "e \<noteq> []" and p: "prefix_loop e 0 False [] = Inr (c, op16)" and "c < len e" "c \<le> 4"
    and d: "decode_opcode e c = Inr (ops, c2)"
    and o: "rfold (operand_step e op16) (c2, 0) ops = Inr (n, m)" and "n \<le> len e" "n \<le> 15"
    by (auto simp: supported_ia32_instruction_length_def split: prod.splits)
  moreover have "0 \<le> c" using prefix_loop_cursor [OF p] by simp
  moreover have "c + 1 \<le> c2" using decode_opcode_cursor [OF d] by simp
  moreover have "c2 \<le> n" using operands_progress [OF o] .
  ultimately show ?thesis using that by blast
qed

lemma supported_length_bounds:
  "supported_ia32_instruction_length e = Inr n \<Longrightarrow> 1 \<le> n \<and> n \<le> 15 \<and> n \<le> len e"
  by (erule supported_length_cases) auto

lemma prefix_loop_agree:
  assumes "prefix_loop e 0 False [] = Inr (c, op16)" "0 \<le> c" "c < n" "agree n e e'"
  shows "prefix_loop e' 0 False [] = Inr (c, op16)"
proof -
  from assms have lt: "c < len e" by (simp add: agree_def)
  have le: "nat c + 1 \<le> nat n" using assms by linarith
  have "take (nat c + 1) e' = take (nat c + 1) (take (nat n) e')" using le by (simp add: min_def)
  also have "\<dots> = take (nat c + 1) (take (nat n) e)" using assms(4) by (simp add: agree_def)
  also have "\<dots> = take (nat c + 1) e" using le by (simp add: min_def)
  finally have "e' = take (nat c + 1) e @ drop (nat c + 1) e'" by (metis append_take_drop_id)
  with prefix_loop_local [OF assms(1), of "drop (nat c + 1) e'"] lt show ?thesis by simp
qed

lemma supported_length_local:
  assumes "supported_ia32_instruction_length e = Inr n" "agree n e e'"
  shows "supported_ia32_instruction_length e' = Inr n"
proof -
  from assms(1) obtain c op16 ops c2 m where
    p: "prefix_loop e 0 False [] = Inr (c, op16)" "0 \<le> c" "c \<le> 4" and
    d: "decode_opcode e c = Inr (ops, c2)" "c + 1 \<le> c2" and
    o: "rfold (operand_step e op16) (c2, 0) ops = Inr (n, m)" "c2 \<le> n" "n \<le> 15"
    by (rule supported_length_cases)
  have n: "n \<le> len e'" using assms(2) by (simp add: agree_def)
  have "prefix_loop e' 0 False [] = Inr (c, op16)"
    by (rule prefix_loop_agree [OF p(1,2) _ assms(2)]) (use d o in simp)
  moreover have "decode_opcode e' c = Inr (ops, c2)"
    using decode_opcode_local [OF d(1) assms(2)] o p by simp
  moreover have "rfold (operand_step e' op16) (c2, 0) ops = Inr (n, m)"
    using operands_local [OF o(1) assms(2)] d p by simp
  moreover have "e' \<noteq> []" "c < len e'" using n p d o by auto
  ultimately show ?thesis
    using p o n by (simp add: supported_ia32_instruction_length_def)
qed

section \<open>Prefix codes\<close>

text \<open>
  What the clients of a length decoder rely on: a decoded length is positive and in
  range, and it depends on the decoded bytes only.  Such a decoder segments a byte
  stream in one way.
\<close>

definition complete_encoding :: "(bytes \<Rightarrow> int result) \<Rightarrow> bytes \<Rightarrow> bool" where
  "complete_encoding decode e \<longleftrightarrow> decode e = Inr (len e)"

locale length_decoder =
  fixes decode :: "bytes \<Rightarrow> int result"
  assumes decode_range: "decode e = Inr n \<Longrightarrow> 1 \<le> n \<and> n \<le> len e"
    and decode_local: "decode e = Inr n \<Longrightarrow> agree n e e' \<Longrightarrow> decode e' = Inr n"
begin

lemma complete_nonempty: "complete_encoding decode e \<Longrightarrow> e \<noteq> []"
  using decode_range by (fastforce simp: complete_encoding_def)

lemma complete_in_stream: "complete_encoding decode e \<Longrightarrow> decode (e @ r) = Inr (len e)"
  unfolding complete_encoding_def by (rule decode_local, assumption) (simp add: agree_def)

lemma prefix_free:
  assumes "complete_encoding decode a" "complete_encoding decode b" "a @ r = b @ s"
  shows "a = b \<and> r = s"
proof -
  have "decode (a @ r) = Inr (len a)" "decode (b @ s) = Inr (len b)"
    using assms complete_in_stream by blast+
  with assms(3) have "length a = length b" by simp
  with assms(3) show ?thesis by simp
qed

lemma unique_segmentation:
  assumes "list_all (complete_encoding decode) xs" "list_all (complete_encoding decode) ys"
    and "concat xs = concat ys"
  shows "xs = ys"
  using assms
proof (induction xs arbitrary: ys)
  case Nil
  then show ?case using complete_nonempty by (cases ys) auto
next
  case (Cons x xs)
  then obtain y ys' where ys: "ys = y # ys'"
    using complete_nonempty by (cases ys) auto
  then have "x = y" "concat xs = concat ys'"
    using prefix_free [of x y "concat xs" "concat ys'"] Cons.prems by auto
  with Cons ys show ?case by simp
qed

lemma take_complete:
  assumes "decode e = Inr n"
  shows "complete_encoding decode (take (nat n) e)"
proof -
  have "0 \<le> n" "n \<le> len e" using decode_range [OF assms] by auto
  then have "agree n e (take (nat n) e)" using agree_take [of n e "[]"] by simp
  with assms \<open>0 \<le> n\<close> \<open>n \<le> len e\<close> show ?thesis
    by (auto simp: complete_encoding_def min_def dest: decode_local)
qed

end

interpretation ia32: length_decoder supported_ia32_instruction_length
  by unfold_locales (auto dest: supported_length_bounds intro: supported_length_local)

section \<open>Walking a body\<close>

text \<open>
  The decoding loop of the body walks: from a cursor, decode instruction after
  instruction until the end offset is reached or passed.  The result is the list of
  instruction starts and lengths.
\<close>

function decode_run :: "bytes \<Rightarrow> int \<Rightarrow> int \<Rightarrow> (int \<times> int) list result" where
  "decode_run body cursor stop =
     (if cursor < stop
      then rbind (supported_ia32_instruction_length (slice_from body cursor)) (\<lambda>length.
             rbind (decode_run body (cursor + length) stop) (\<lambda>rest.
               Inr ((cursor, length) # rest)))
      else Inr [])"
  by pat_completeness auto
termination
  by (relation "measure (\<lambda>(body, cursor, stop). nat (stop - cursor))")
     (auto dest: supported_length_bounds)

declare decode_run.simps [simp del]

text \<open>The instructions of a whole buffer, as the walk cuts them.\<close>

definition instructions :: "bytes \<Rightarrow> bytes list result" where
  "instructions w =
     rbind (decode_run w 0 (len w)) (\<lambda>spans. Inr (map (\<lambda>(c, n). pslice w c (c + n)) spans))"

primrec spans_from :: "int \<Rightarrow> bytes list \<Rightarrow> (int \<times> int) list" where
  "spans_from c [] = []"
| "spans_from c (x # xs) = (c, len x) # spans_from (c + len x) xs"

lemma slice_from_append [simp]: "slice_from (pre @ xs) (len pre) = xs"
  by (simp add: slice_from_def slice_bound_def)

lemma decode_run_concat:
  "list_all (complete_encoding supported_ia32_instruction_length) xs \<Longrightarrow>
   decode_run (pre @ concat xs) (len pre) (len pre + len (concat xs)) = Inr (spans_from (len pre) xs)"
proof (induction xs arbitrary: pre)
  case Nil
  then show ?case by (simp add: decode_run.simps)
next
  case (Cons x xs)
  then have ne: "x \<noteq> []" and d: "supported_ia32_instruction_length (x @ concat xs) = Inr (len x)"
    using ia32.complete_nonempty ia32.complete_in_stream by auto
  have "decode_run ((pre @ x) @ concat xs) (len (pre @ x)) (len (pre @ x) + len (concat xs))
        = Inr (spans_from (len (pre @ x)) xs)"
    by (rule Cons.IH) (use Cons.prems in simp)
  moreover have "len pre < len pre + len (concat (x # xs))" using ne by (cases x) simp_all
  ultimately show ?case
    using d by (subst decode_run.simps) (simp add: add.assoc)
qed

lemma spans_from_slices:
  "map (\<lambda>(c, n). pslice (pre @ concat xs) c (c + n)) (spans_from (len pre) xs) = xs"
proof (induction xs arbitrary: pre)
  case Nil
  then show ?case by simp
next
  case (Cons x xs)
  have "pslice (pre @ concat (x # xs)) (len pre) (len pre + len x) = x"
    by (simp add: pslice_nonneg)
  with Cons.IH [of "pre @ x"] show ?case by simp
qed

lemma instructions_concat:
  "list_all (complete_encoding supported_ia32_instruction_length) xs \<Longrightarrow>
   instructions (concat xs) = Inr xs"
  using decode_run_concat [of xs "[]"] spans_from_slices [of "[]" xs]
  by (simp add: instructions_def)

lemma decode_run_spans:
  assumes "decode_run body c stop = Inr sp" "0 \<le> c" "c \<le> stop"
  shows "\<exists>xs. list_all (complete_encoding supported_ia32_instruction_length) xs \<and>
           sp = spans_from c xs \<and> concat xs = pslice body c (c + len (concat xs)) \<and>
           stop \<le> c + len (concat xs) \<and> (c < stop \<longrightarrow> c + len (concat xs) \<le> len body)"
  using assms
proof (induction body c stop arbitrary: sp rule: decode_run.induct)
  case (1 body c stop)
  show ?case
  proof (cases "c < stop")
    case False
    with "1.prems" show ?thesis
      by (intro exI [of _ "[]"]) (simp add: decode_run.simps)
  next
    case True
    from "1.prems"(1) True obtain n rest where
      n: "supported_ia32_instruction_length (slice_from body c) = Inr n" and
      rest: "decode_run body (c + n) stop = Inr rest" and sp: "sp = (c, n) # rest"
      by (subst (asm) decode_run.simps) auto
    have nb: "1 \<le> n" "n \<le> len (slice_from body c)" using supported_length_bounds [OF n] by auto
    then have cb: "c < len body" and fr: "slice_from body c = drop (nat c) body"
      using "1.prems"(2) by (auto simp: slice_from_def slice_bound_def min_def split: if_splits)
    with nb have nl: "c + n \<le> len body" using "1.prems"(2) by auto
    let ?x = "take (nat n) (drop (nat c) body)"
    have x: "complete_encoding supported_ia32_instruction_length ?x" "len ?x = n"
      using ia32.take_complete [OF n] nb nl "1.prems"(2) fr by auto
    have xs: "?x = pslice body c (c + n)" using "1.prems"(2) nb by (simp add: pslice_nonneg)
    show ?thesis
    proof (cases "c + n \<le> stop")
      case False
      then have "rest = []" using rest by (simp add: decode_run.simps)
      then show ?thesis
        using x xs sp False nl by (intro exI [of _ "[?x]"]) simp
    next
      case le: True
      from "1.IH" [OF True n rest _ le] nb "1.prems"(2) obtain ys where
        ys: "list_all (complete_encoding supported_ia32_instruction_length) ys"
          "rest = spans_from (c + n) ys"
          "concat ys = pslice body (c + n) (c + n + len (concat ys))"
          "stop \<le> c + n + len (concat ys)"
          "c + n < stop \<longrightarrow> c + n + len (concat ys) \<le> len body" by auto
      have "?x @ concat ys = pslice body c (c + n + len (concat ys))"
        using ys(3) xs pslice_append [of c "c + n" "c + n + len (concat ys)" body] nb "1.prems"(2)
        by simp
      moreover have "c + n + len (concat ys) \<le> len body"
      proof (cases "c + n < stop")
        case False
        then have "rest = []" using rest by (simp add: decode_run.simps)
        with ys(2) have "ys = []" by (cases ys) auto
        with nl show ?thesis by simp
      qed (use ys(5) in simp)
      moreover have "len (concat (?x # ys)) = n + len (concat ys)" using x(2) by simp
      ultimately show ?thesis
        using x sp ys by (intro exI [of _ "?x # ys"]) (simp add: add.assoc del: length_concat)
    qed
  qed
qed

text \<open>
  C12.  Every length the decoder accepts lies between 1 and 15 bytes and inside the
  buffer, so that the decoding loops make progress and never read past the body.
\<close>

theorem ia32_length_bounds:
  assumes "supported_ia32_instruction_length encoded = Inr n"
  shows "1 \<le> n \<and> n \<le> 15 \<and> n \<le> len encoded"
  using supported_length_bounds [OF assms] by auto

text \<open>
  The decoder is fail-closed about what follows: an accepted length depends on the
  bytes of that instruction alone, whatever bytes come after them.
\<close>

lemma ia32_length_local:
  assumes "supported_ia32_instruction_length encoded = Inr n"
  shows "supported_ia32_instruction_length (take (nat n) encoded @ tail) = Inr n"
  by (rule supported_length_local [OF assms])
     (use supported_length_bounds [OF assms] in \<open>simp add: agree_take\<close>)

text \<open>
  C13.  An instruction stream has one segmentation: two lists of complete supported
  instructions with the same bytes are the same list, and the decoding walk over those
  bytes returns exactly that list.
\<close>

theorem ia32_unique_segmentation:
  assumes "list_all (complete_encoding supported_ia32_instruction_length) xs"
    and "list_all (complete_encoding supported_ia32_instruction_length) ys"
    and "concat xs = concat ys"
  shows "xs = ys \<and> instructions (concat xs) = Inr xs"
  using ia32.unique_segmentation [OF assms] instructions_concat [OF assms(1)] by blast

text \<open>Witnesses: \<^verbatim>\<open>mov edx, [esp+20]\<close> followed by \<^verbatim>\<open>ret\<close>.\<close>

theorem ia32_length_bounds_witness:
  "supported_ia32_instruction_length [0x8B, 0x54, 0x24, 0x14, 0xC3] = Inr 4 \<and> (4::int) \<le> 15"
proof -
  have h: "supported_ia32_instruction_length [0x8B, 0x54, 0x24, 0x14, 0xC3] = Inr 4" by code_simp
  show ?thesis using h ia32_length_bounds [OF h] by simp
qed

theorem ia32_unique_segmentation_witness:
  "instructions [0x33, 0xFF, 0x8B, 0x54, 0x24, 0x14] = Inr [[0x33, 0xFF], [0x8B, 0x54, 0x24, 0x14]]"
proof -
  have h: "list_all (complete_encoding supported_ia32_instruction_length)
             [[0x33, 0xFF], [0x8B, 0x54, 0x24, 0x14]]"
    by code_simp
  show ?thesis using ia32_unique_segmentation [OF h h refl] by simp
qed

end
