(* ===== verification/Ia32_Commute.thy ===== *)
theory Ia32_Commute
  imports Ia32_Decode
begin

text \<open>
  The commuting-pair certificate of \<^verbatim>\<open>src/reprobit/classic/ia32.py\<close>: the closed
  decoder of the two admitted opcodes (\<^verbatim>\<open>mov r32, r/m32\<close> and \<^verbatim>\<open>xor r32, r/m32\<close>),
  the register read and write sets it reports, and the independence check on a pair.
  The abstract specification is a small IA-32 semantics of those two opcodes over
  registers, flags and memory; the theorems show that the reported sets bound what an
  instruction reads and writes, and that an accepted pair leaves the same state in
  either order.
\<close>

section \<open>The closed decoder\<close>

definition ia32_general_registers :: "string list" where
  "ia32_general_registers =
     [''eax'', ''ecx'', ''edx'', ''ebx'', ''esp'', ''ebp'', ''esi'', ''edi'']"

text \<open>The opcode table: name, whether the destination is read, whether flags are written.\<close>

definition ia32_commutable_opcodes :: "int \<Rightarrow> (string \<times> bool \<times> bool) option" where
  "ia32_commutable_opcodes opcode =
     (if opcode = 139 then Some (''mov_r32_rm32'', False, False)
      else if opcode = 51 then Some (''xor_r32_rm32'', True, True) else None)"

text \<open>The decoded facts; the two sets are kept as lists without an order.\<close>

record commutable =
  reads :: "string list"
  writes :: "string list"
  reads_memory :: bool
  writes_memory :: bool

abbreviation register_name :: "int \<Rightarrow> string" where
  "register_name i \<equiv> ia32_general_registers ! nat i"

text \<open>The address registers of a memory operand and the cursor behind its SIB and disp32.\<close>

definition commutable_operand :: "bytes \<Rightarrow> int \<Rightarrow> int \<Rightarrow> (string list \<times> int) result" where
  "commutable_operand encoded md rm =
     (if md = 3 then Inr ([register_name rm], 2)
      else if rm = 4
      then require (len encoded > 2) ''SIB byte is missing''
             (rbind (byte_at encoded 2) (\<lambda>sib.
               let index = drop_bit 3 sib AND 7; base = sib AND 7;
                   index_reads = (if index \<noteq> 4 then [register_name index] else [])
               in Inr (if base = 5 \<and> md = 0 then (index_reads, 3 + 4)
                       else (index_reads @ [register_name base], 3))))
      else if rm = 5 \<and> md = 0 then Inr ([], 2 + 4)
      else Inr ([register_name rm], 2))"

definition decode_commutable_ia32_instruction :: "bytes \<Rightarrow> commutable result" where
  "decode_commutable_ia32_instruction encoded =
     require (len encoded \<ge> 2) ''commutable instruction is too short''
      (rbind (byte_at encoded 0) (\<lambda>opcode.
        case ia32_commutable_opcodes opcode of
          None \<Rightarrow> Inl (ByteIdentityError ''opcode is outside the commutable instruction subset'')
        | Some (_, reads_destination, writes_flags) \<Rightarrow>
            rbind (byte_at encoded 1) (\<lambda>modrm.
              let md = drop_bit 6 modrm; reg = drop_bit 3 modrm AND 7; rm = modrm AND 7
              in rbind (commutable_operand encoded md rm) (\<lambda>(address_reads, cursor).
                let cursor = (if md = 1 then cursor + 1 else if md = 2 then cursor + 4 else cursor)
                in require (cursor = len encoded) ''commutable instruction encoding is not exact''
                    (Inr \<lparr>reads = (if reads_destination then [register_name reg] else [])
                                   @ address_reads,
                          writes = register_name reg # (if writes_flags then [''flags''] else []),
                          reads_memory = (md \<noteq> 3), writes_memory = False\<rparr>)))))"

text \<open>The receipt of an accepted pair: the four sorted sets.\<close>

record independence =
  first_reads :: "string list"
  first_writes :: "string list"
  second_reads :: "string list"
  second_writes :: "string list"

definition sorted_names :: "string list \<Rightarrow> string list" where
  "sorted_names xs = sort_by str_less_eq (remdups xs)"

definition require_commuting_ia32_instruction_pair ::
    "bytes \<Rightarrow> bytes \<Rightarrow> independence result" where
  "require_commuting_ia32_instruction_pair first second =
     rbind (decode_commutable_ia32_instruction first) (\<lambda>a.
     rbind (decode_commutable_ia32_instruction second) (\<lambda>b.
       require (\<not> (writes_memory a \<or> writes_memory b)) ''a commuting instruction writes memory''
        (require (set (writes a) \<inter> set (writes b) = {})
          ''commuting instructions write the same location''
          (require (set (reads a) \<inter> set (writes b) = {} \<and> set (reads b) \<inter> set (writes a) = {})
            ''commuting instructions carry a register dependency''
            (Inr \<lparr>first_reads = sorted_names (reads a), first_writes = sorted_names (writes a),
                  second_reads = sorted_names (reads b),
                  second_writes = sorted_names (writes b)\<rparr>)))))"

section \<open>A semantics of the admitted opcodes\<close>

datatype gpr = EAX | ECX | EDX | EBX | ESP | EBP | ESI | EDI

definition gprs :: "gpr list" where
  "gprs = [EAX, ECX, EDX, EBX, ESP, EBP, ESI, EDI]"

text \<open>The register a three-bit field names.\<close>

definition gpr_of :: "int \<Rightarrow> gpr" where
  "gpr_of i = gprs ! nat i"

text \<open>The architectural state the two opcodes can observe or change.\<close>

record machine =
  regs :: "gpr \<Rightarrow> 32 word"
  eflags :: "32 word"
  memory :: "32 word \<Rightarrow> byte"

definition load32 :: "machine \<Rightarrow> 32 word \<Rightarrow> 32 word" where
  "load32 s a = word_of_int (from_bytes [memory s a, memory s (a + 1), memory s (a + 2),
                                         memory s (a + 3)])"

definition field32 :: "bytes \<Rightarrow> nat \<Rightarrow> 32 word" where
  "field32 e at = word_of_int (from_bytes (take 4 (drop at e)))"

text \<open>The displacement behind the ModRM or SIB byte: none, sign-extended byte, or 32 bits.\<close>

definition displacement :: "bytes \<Rightarrow> int \<Rightarrow> nat \<Rightarrow> 32 word" where
  "displacement e md at =
     (if md = 1 then word_of_int (from_bytes_signed (take 1 (drop at e)))
      else if md = 2 then field32 e at else 0)"

definition effective_address :: "bytes \<Rightarrow> machine \<Rightarrow> 32 word" where
  "effective_address e s =
     (let modrm = byte_int (e ! 1); md = drop_bit 6 modrm; rm = modrm AND 7
      in if rm = 4
         then let sib = byte_int (e ! 2); scale = nat (drop_bit 6 sib);
                  index = drop_bit 3 sib AND 7; base = sib AND 7;
                  scaled = (if index = 4 then 0 else push_bit scale (regs s (gpr_of index)))
              in if base = 5 \<and> md = 0 then scaled + field32 e 3
                 else scaled + regs s (gpr_of base) + displacement e md 3
         else if rm = 5 \<and> md = 0 then field32 e 2
         else regs s (gpr_of rm) + displacement e md 2)"

definition source_value :: "bytes \<Rightarrow> machine \<Rightarrow> 32 word" where
  "source_value e s =
     (let modrm = byte_int (e ! 1)
      in if drop_bit 6 modrm = 3 then regs s (gpr_of (modrm AND 7))
         else load32 s (effective_address e s))"

text \<open>
  \<^verbatim>\<open>mov\<close> loads the source into the destination; \<^verbatim>\<open>xor\<close> combines it with the
  destination and sets the flags from the result.  The flag image is a parameter: the
  theorems hold for every one.
\<close>

definition exec_commutable :: "(32 word \<Rightarrow> 32 word) \<Rightarrow> bytes \<Rightarrow> machine \<Rightarrow> machine" where
  "exec_commutable fl e s =
     (let d = gpr_of (drop_bit 3 (byte_int (e ! 1)) AND 7); v = source_value e s
      in if byte_int (e ! 0) = 139 then s\<lparr>regs := (regs s)(d := v)\<rparr>
         else s\<lparr>regs := (regs s)(d := regs s d XOR v), eflags := fl (regs s d XOR v)\<rparr>)"

text \<open>What can be observed of a state: one value per register, the flags, the memory.\<close>

datatype location = LReg gpr | LFlags | LMemory

datatype observation = VWord "32 word" | VMemory "32 word \<Rightarrow> byte"

fun observe :: "machine \<Rightarrow> location \<Rightarrow> observation" where
  "observe s (LReg r) = VWord (regs s r)"
| "observe s LFlags = VWord (eflags s)"
| "observe s LMemory = VMemory (memory s)"

fun gpr_name :: "gpr \<Rightarrow> string" where
  "gpr_name EAX = ''eax''" | "gpr_name ECX = ''ecx''" | "gpr_name EDX = ''edx''"
| "gpr_name EBX = ''ebx''" | "gpr_name ESP = ''esp''" | "gpr_name EBP = ''ebp''"
| "gpr_name ESI = ''esi''" | "gpr_name EDI = ''edi''"

text \<open>The locations the decoded name sets stand for.\<close>

definition named_locations :: "string list \<Rightarrow> location set" where
  "named_locations names =
     {LReg r | r. gpr_name r \<in> set names} \<union> (if ''flags'' \<in> set names then {LFlags} else {})"

definition decodes_commutable :: "bytes \<Rightarrow> bool" where
  "decodes_commutable e \<longleftrightarrow> (\<exists>d. decode_commutable_ia32_instruction e = Inr d)"

definition reported_reads :: "bytes \<Rightarrow> location set" where
  "reported_reads e = (case decode_commutable_ia32_instruction e of Inl _ \<Rightarrow> {}
     | Inr d \<Rightarrow> named_locations (reads d) \<union> (if reads_memory d then {LMemory} else {}))"

definition reported_writes :: "bytes \<Rightarrow> location set" where
  "reported_writes e = (case decode_commutable_ia32_instruction e of Inl _ \<Rightarrow> {}
     | Inr d \<Rightarrow> named_locations (writes d) \<union> (if writes_memory d then {LMemory} else {}))"

section \<open>Machines with read and write sets\<close>

text \<open>
  The interface between an instruction semantics and a commutation argument: an
  instruction changes only what it writes, and what it writes depends only on what it
  reads.  Two instructions with disjoint footprints then commute, and an instruction
  moves across a block it is independent of.
\<close>

locale footprint_machine =
  fixes exec :: "'i \<Rightarrow> 's \<Rightarrow> 's"
    and view :: "'s \<Rightarrow> 'l \<Rightarrow> 'v"
    and rds wrs :: "'i \<Rightarrow> 'l set"
    and admitted :: "'i \<Rightarrow> bool"
  assumes view_ext: "(\<And>l. view s l = view t l) \<Longrightarrow> s = t"
    and frame: "admitted i \<Longrightarrow> l \<notin> wrs i \<Longrightarrow> view (exec i s) l = view s l"
    and footprint: "admitted i \<Longrightarrow> (\<And>l. l \<in> rds i \<Longrightarrow> view s l = view t l) \<Longrightarrow> k \<in> wrs i \<Longrightarrow>
                    view (exec i s) k = view (exec i t) k"
begin

lemma commute:
  assumes "admitted i" "admitted j" "wrs i \<inter> wrs j = {}" "rds i \<inter> wrs j = {}" "rds j \<inter> wrs i = {}"
  shows "exec i (exec j s) = exec j (exec i s)"
proof (rule view_ext)
  fix l
  consider (i) "l \<in> wrs i" "l \<notin> wrs j" | (j) "l \<in> wrs j" "l \<notin> wrs i" | (n) "l \<notin> wrs i" "l \<notin> wrs j"
    using assms(3) by blast
  then show "view (exec i (exec j s)) l = view (exec j (exec i s)) l"
  proof cases
    case i
    have "view (exec i (exec j s)) l = view (exec i s) l"
      by (rule footprint [OF assms(1) _ i(1)]) (use assms(2,4) frame in blast)
    also have "\<dots> = view (exec j (exec i s)) l" using frame [OF assms(2) i(2)] by simp
    finally show ?thesis .
  next
    case j
    have "view (exec j (exec i s)) l = view (exec j s) l"
      by (rule footprint [OF assms(2) _ j(1)]) (use assms(1,5) frame in blast)
    also have "\<dots> = view (exec i (exec j s)) l" using frame [OF assms(1) j(2)] by simp
    finally show ?thesis by simp
  next
    case n
    then show ?thesis using frame assms(1,2) by simp
  qed
qed

end

lemma gprs_nth: "0 \<le> i \<Longrightarrow> i < 8 \<Longrightarrow> gpr_name (gpr_of i) = register_name i"
proof -
  assume "0 \<le> i" "i < 8"
  then have "i \<in> {0, 1, 2, 3, 4, 5, 6, 7}" by auto
  then show ?thesis by (auto simp: gpr_of_def gprs_def ia32_general_registers_def)
qed

lemma gpr_name_inj: "gpr_name r = gpr_name q \<longleftrightarrow> r = q"
  by (cases r; cases q) auto

lemma gpr_name_not_flags: "gpr_name r \<noteq> ''flags''"
  by (cases r) auto

lemma and_seven_range: "0 \<le> (x AND 7 :: int)" "(x AND 7 :: int) < 8"
  using AND_upper2' [of 7 x] by auto

lemma name_of_field: "register_name (x AND 7) = gpr_name (gpr_of (x AND 7))"
  using gprs_nth and_seven_range by simp

lemma decode_commutable_cases:
  assumes "decode_commutable_ia32_instruction e = Inr d"
  obtains opcode modrm name rd wf ar c where
    "2 \<le> length e" "opcode = byte_int (e ! 0)" "modrm = byte_int (e ! 1)"
    "ia32_commutable_opcodes opcode = Some (name, rd, wf)"
    "commutable_operand e (drop_bit 6 modrm) (modrm AND 7) = Inr (ar, c)"
    "reads d = (if rd then [gpr_name (gpr_of (drop_bit 3 modrm AND 7))] else []) @ ar"
    "writes d = gpr_name (gpr_of (drop_bit 3 modrm AND 7)) # (if wf then [''flags''] else [])"
    "reads_memory d = (drop_bit 6 modrm \<noteq> 3)" "\<not> writes_memory d"
proof -
  have two: "2 \<le> length e" using assms by (simp add: decode_commutable_ia32_instruction_def)
  then have at: "byte_at e 0 = Inr (byte_int (e ! 0))" "byte_at e 1 = Inr (byte_int (e ! 1))"
    by (auto simp: byte_at_def item_def Let_def)
  show ?thesis
    using assms two unfolding decode_commutable_ia32_instruction_def at Let_def
    by (auto simp: name_of_field split: option.splits prod.splits intro: that)
qed

lemma load32_cong: "memory s = memory t \<Longrightarrow> load32 s a = load32 t a"
  by (simp add: load32_def)

lemma named_reg: "LReg r \<in> named_locations names \<longleftrightarrow> gpr_name r \<in> set names"
  by (auto simp: named_locations_def)

lemma effective_address_cong:
  assumes "commutable_operand e (drop_bit 6 (byte_int (e ! 1))) (byte_int (e ! 1) AND 7) = Inr (ar, c)"
    and "drop_bit 6 (byte_int (e ! 1)) \<noteq> 3"
    and "\<And>r. gpr_name r \<in> set ar \<Longrightarrow> regs s r = regs t r"
  shows "effective_address e s = effective_address e t"
proof (cases "byte_int (e ! 1) AND 7 = 4")
  case True
  then have "byte_at e 2 = Inr (byte_int (e ! 2))"
    using assms(1,2) by (auto simp: commutable_operand_def byte_at_def item_def Let_def split: if_splits)
  with True assms show ?thesis
    by (auto simp: commutable_operand_def effective_address_def Let_def name_of_field
             split: if_splits)
next
  case False
  with assms show ?thesis
    by (auto simp: commutable_operand_def effective_address_def Let_def name_of_field
             split: if_splits)
qed

lemma source_value_cong:
  assumes "commutable_operand e (drop_bit 6 (byte_int (e ! 1))) (byte_int (e ! 1) AND 7) = Inr (ar, c)"
    and "\<And>r. gpr_name r \<in> set ar \<Longrightarrow> regs s r = regs t r"
    and "drop_bit 6 (byte_int (e ! 1)) \<noteq> 3 \<Longrightarrow> memory s = memory t"
  shows "source_value e s = source_value e t"
proof (cases "drop_bit 6 (byte_int (e ! 1)) = 3")
  case True
  with assms(1,2) show ?thesis
    by (auto simp: source_value_def commutable_operand_def Let_def name_of_field)
next
  case False
  then show ?thesis
    using effective_address_cong [OF assms(1) False assms(2)] load32_cong [OF assms(3)]
    by (simp add: source_value_def Let_def)
qed

lemma observe_ext: "(\<And>l. observe s l = observe t l) \<Longrightarrow> s = t"
proof -
  assume o: "\<And>l. observe s l = observe t l"
  have "regs s r = regs t r" for r using o [of "LReg r"] by simp
  moreover have "eflags s = eflags t" "memory s = memory t" using o [of LFlags] o [of LMemory] by auto
  ultimately show ?thesis by (simp add: ext)
qed

lemma exec_commutable_frame:
  assumes "decodes_commutable e" "l \<notin> reported_writes e"
  shows "observe (exec_commutable fl e s) l = observe s l"
proof -
  from assms(1) obtain d where d: "decode_commutable_ia32_instruction e = Inr d"
    by (auto simp: decodes_commutable_def)
  then show ?thesis
  proof (rule decode_commutable_cases)
    fix opcode modrm name rd wf ar c
    assume a: "opcode = byte_int (e ! 0)" "modrm = byte_int (e ! 1)"
      "ia32_commutable_opcodes opcode = Some (name, rd, wf)"
      "writes d = gpr_name (gpr_of (drop_bit 3 modrm AND 7)) # (if wf then [''flags''] else [])"
    then have w: "l \<noteq> LReg (gpr_of (drop_bit 3 modrm AND 7))" "wf \<Longrightarrow> l \<noteq> LFlags"
      using assms(2) d by (auto simp: reported_writes_def named_locations_def)
    show ?thesis
      using a w by (cases l) (auto simp: exec_commutable_def Let_def ia32_commutable_opcodes_def
                                   split: if_splits)
  qed
qed

lemma exec_commutable_footprint:
  assumes "decodes_commutable e" "\<And>l. l \<in> reported_reads e \<Longrightarrow> observe s l = observe t l"
    and "k \<in> reported_writes e"
  shows "observe (exec_commutable fl e s) k = observe (exec_commutable fl e t) k"
proof -
  from assms(1) obtain d where d: "decode_commutable_ia32_instruction e = Inr d"
    by (auto simp: decodes_commutable_def)
  then show ?thesis
  proof (rule decode_commutable_cases)
    fix opcode modrm name rd wf ar c
    assume a: "opcode = byte_int (e ! 0)" "modrm = byte_int (e ! 1)"
      "ia32_commutable_opcodes opcode = Some (name, rd, wf)"
      "commutable_operand e (drop_bit 6 modrm) (modrm AND 7) = Inr (ar, c)"
      "reads d = (if rd then [gpr_name (gpr_of (drop_bit 3 modrm AND 7))] else []) @ ar"
      "writes d = gpr_name (gpr_of (drop_bit 3 modrm AND 7)) # (if wf then [''flags''] else [])"
      "reads_memory d = (drop_bit 6 modrm \<noteq> 3)" "\<not> writes_memory d"
    have regs: "regs s r = regs t r" if "gpr_name r \<in> set (reads d)" for r
      using assms(2) [of "LReg r"] that d by (simp add: reported_reads_def named_reg)
    have "memory s = memory t" if "drop_bit 6 modrm \<noteq> 3"
      using assms(2) [of LMemory] that d a(7) by (simp add: reported_reads_def)
    then have v: "source_value e s = source_value e t"
      using source_value_cong [of e ar c s t] a(2,4,5) regs by simp
    have dst: "rd \<Longrightarrow> regs s (gpr_of (drop_bit 3 modrm AND 7)) = regs t (gpr_of (drop_bit 3 modrm AND 7))"
      using regs a(5) by simp
    have k: "k = LReg (gpr_of (drop_bit 3 modrm AND 7)) \<or> (wf \<and> k = LFlags)"
      using assms(3) d a(6,8) gpr_name_not_flags
      by (auto simp: reported_writes_def named_locations_def gpr_name_inj split: if_splits)
    with a(1-3) v dst show ?thesis
      by (auto simp: exec_commutable_def Let_def ia32_commutable_opcodes_def split: if_splits)
  qed
qed

interpretation commutable: footprint_machine
  "exec_commutable fl" observe reported_reads reported_writes decodes_commutable for fl
  by unfold_locales
     (rule observe_ext, assumption | rule exec_commutable_frame, assumption+ |
      rule exec_commutable_footprint, assumption+)+

section \<open>Accepted pairs commute\<close>

lemma named_locations_disjoint:
  "set xs \<inter> set ys = {} \<Longrightarrow> named_locations xs \<inter> named_locations ys = {}"
  by (auto simp: named_locations_def split: if_splits)

lemma commuting_pair_Inr:
  assumes "require_commuting_ia32_instruction_pair first second = Inr r"
  shows "decodes_commutable first" and "decodes_commutable second"
    and "reported_writes first \<inter> reported_writes second = {}"
    and "reported_reads first \<inter> reported_writes second = {}"
    and "reported_reads second \<inter> reported_writes first = {}"
proof -
  from assms obtain a b where
    d: "decode_commutable_ia32_instruction first = Inr a"
       "decode_commutable_ia32_instruction second = Inr b" and
    ind: "\<not> writes_memory a" "\<not> writes_memory b" "set (writes a) \<inter> set (writes b) = {}"
         "set (reads a) \<inter> set (writes b) = {}" "set (reads b) \<inter> set (writes a) = {}"
    by (auto simp: require_commuting_ia32_instruction_pair_def)
  show "decodes_commutable first" "decodes_commutable second"
    using d by (auto simp: decodes_commutable_def)
  have mem: "LMemory \<notin> named_locations names" for names
    by (auto simp: named_locations_def)
  show "reported_writes first \<inter> reported_writes second = {}"
    "reported_reads first \<inter> reported_writes second = {}"
    "reported_reads second \<inter> reported_writes first = {}"
    using d ind mem named_locations_disjoint
    by (simp_all add: reported_reads_def reported_writes_def Int_Un_distrib2)
qed

lemma commuting_pair_exec:
  assumes "require_commuting_ia32_instruction_pair first second = Inr r"
  shows "exec_commutable fl first (exec_commutable fl second s)
         = exec_commutable fl second (exec_commutable fl first s)"
  using commuting_pair_Inr [OF assms] by (rule commutable.commute)

text \<open>The closed decoder and the length decoder read the same instruction.\<close>

lemma commutable_operand_modrm:
  assumes "commutable_operand e (drop_bit 6 m) (m AND 7) = Inr (ar, c)" "byte_at e 1 = Inr m"
    and "2 \<le> length e"
  shows "modrm_operand e 1 =
           Inr (if drop_bit 6 m = 1 then c + 1 else if drop_bit 6 m = 2 then c + 4 else c, m)"
  using assms by (auto simp: commutable_operand_def modrm_operand_def Let_def split: if_splits)

lemma commutable_not_prefix:
  "ia32_commutable_opcodes (byte_int b) \<noteq> None \<Longrightarrow>
   byte_int b \<notin> set prefixes \<and> byte_int b \<noteq> 15 \<and> one_byte_table (byte_int b) = Some [M]"
proof -
  assume "ia32_commutable_opcodes (byte_int b) \<noteq> None"
  then have "byte_int b = 139 \<or> byte_int b = 51"
    by (auto simp: ia32_commutable_opcodes_def split: if_splits)
  moreover have "one_byte_table 139 = Some [M]" "one_byte_table 51 = Some [M]" by code_simp+
  ultimately show ?thesis by (auto simp: prefixes_def)
qed

lemma commutable_supported_length:
  assumes d: "decode_commutable_ia32_instruction e = Inr d" and short: "len e \<le> 15"
  shows "supported_ia32_instruction_length e = Inr (len e)"
proof -
  obtain b0 b1 rest where e: "e = b0 # b1 # rest"
    using d by (cases e; cases "tl e") (auto simp: decode_commutable_ia32_instruction_def)
  have at: "byte_at e 0 = Inr (byte_int b0)" "byte_at e 1 = Inr (byte_int b1)"
    by (auto simp: e byte_at_def item_def Let_def)
  obtain ar c where op: "ia32_commutable_opcodes (byte_int b0) \<noteq> None"
    and ar: "commutable_operand e (drop_bit 6 (byte_int b1)) (byte_int b1 AND 7) = Inr (ar, c)"
    and exact: "(if drop_bit 6 (byte_int b1) = 1 then c + 1
                 else if drop_bit 6 (byte_int b1) = 2 then c + 4 else c) = len e"
    using d unfolding decode_commutable_ia32_instruction_def at
    by (auto simp: Let_def split: option.splits)
  have mo: "modrm_operand e 1 = Inr (len e, byte_int b1)"
    using commutable_operand_modrm [OF ar at(2)] exact by (simp add: e)
  note o = commutable_not_prefix [OF op]
  have "prefix_loop e 0 False [] = Inr (0, False)" using o by (simp add: e)
  moreover have "decode_opcode e 0 = Inr ([M], 1)" using o at by (simp add: decode_opcode_def)
  ultimately show ?thesis
    using mo short by (simp add: supported_ia32_instruction_length_def e)
qed

lemma commutable_operand_cursor: "commutable_operand e md rm = Inr (ar, c) \<Longrightarrow> c \<le> 7"
  by (auto simp: commutable_operand_def Let_def split: if_splits)

lemma decode_commutable_short:
  assumes "decode_commutable_ia32_instruction e = Inr d"
  shows "len e \<le> 15"
proof -
  from assms obtain md rm ar c where "commutable_operand e md rm = Inr (ar, c)"
    and "(if md = 1 then c + 1 else if md = 2 then c + 4 else c) = len e"
    unfolding decode_commutable_ia32_instruction_def Let_def
    by (auto split: option.splits simp del: if_split_asm split del: if_split)
  then show ?thesis by (auto dest: commutable_operand_cursor split: if_splits)
qed

text \<open>
  C1.  An accepted commuting pair may be exchanged without effect: whatever the flag
  image of \<^verbatim>\<open>xor\<close>, executing the two instructions in either order from any state
  leaves the same registers, flags and memory.
\<close>

theorem commuting_pair_sound:
  assumes "require_commuting_ia32_instruction_pair first second = Inr receipt"
  shows "exec_commutable fl second (exec_commutable fl first s)
         = exec_commutable fl first (exec_commutable fl second s)"
  using commuting_pair_exec [OF assms] by simp

theorem commuting_pair_sound_witness:
  "let s0 = \<lparr>regs = (\<lambda>_. 0), eflags = 0, memory = (\<lambda>_. 0)\<rparr> in
   exec_commutable id [0x8B, 0x54, 0x24, 0x14] (exec_commutable id [0x33, 0xFF] s0)
   = exec_commutable id [0x33, 0xFF] (exec_commutable id [0x8B, 0x54, 0x24, 0x14] s0)"
proof -
  have h: "require_commuting_ia32_instruction_pair [0x33, 0xFF] [0x8B, 0x54, 0x24, 0x14]
     = Inr \<lparr>first_reads = [''edi''], first_writes = [''edi'', ''flags''],
            second_reads = [''esp''], second_writes = [''edx'']\<rparr>"
    by code_simp
  show ?thesis unfolding Let_def by (rule commuting_pair_sound [OF h])
qed

text \<open>
  C11.  The two decoders agree: an encoding the closed commutable decoder accepts is one
  complete instruction of the length decoder, so an exchanged pair keeps its
  instruction boundaries.
\<close>

theorem commutable_decoder_agrees:
  assumes "decode_commutable_ia32_instruction e = Inr d"
  shows "supported_ia32_instruction_length e = Inr (len e)"
proof (rule commutable_supported_length [OF assms])
  show "len e \<le> 15"
    using assms by (rule decode_commutable_short)
qed

theorem commutable_decoder_agrees_witness:
  "supported_ia32_instruction_length [0x8B, 0x54, 0x24, 0x14] = Inr 4"
proof -
  have h: "decode_commutable_ia32_instruction [0x8B, 0x54, 0x24, 0x14]
      = Inr \<lparr>reads = [''esp''], writes = [''edx''], reads_memory = True, writes_memory = False\<rparr>"
    by code_simp
  show ?thesis using commutable_decoder_agrees [OF h] by simp
qed

end
