(* ===== verification/Json_Values.thy ===== *)
theory Json_Values
  imports Prelude
begin

text \<open>
  Dynamically typed declaration documents and the validation primitives of
  \<^verbatim>\<open>src/reprobit/classic/foundation.py\<close>: the closed key sets, exact integers,
  SHA-256 spellings, type-strict equality, compiler-local symbol names, and the
  worklist that refuses an embedded byte payload anywhere in a declaration.  The
  worklist is shown equal to a structural predicate on the whole document.

  A document is a finite tree.  The worklist of the source also remembers the identity
  of visited containers so that it ends on cyclic values; on a tree that memory never
  changes the verdict, so it has no counterpart here.  A float is its 64-bit pattern.
\<close>

datatype py_key = KStr string | KOther int

datatype py_value =
    VNone
  | VBool bool
  | VInt int
  | VFloat "64 word"
  | VStr string
  | VBytes bytes
  | VList "py_value list"
  | VTuple "py_value list"
  | VDict "(py_key \<times> py_value) list"

text \<open>\<^verbatim>\<open>document.get(name)\<close>: absent keys give None.\<close>

definition dict_get :: "(py_key \<times> py_value) list \<Rightarrow> string \<Rightarrow> py_value" where
  "dict_get d k = (case map_of d (KStr k) of None \<Rightarrow> VNone | Some v \<Rightarrow> v)"

definition has_key :: "(py_key \<times> py_value) list \<Rightarrow> string \<Rightarrow> bool" where
  "has_key d k = (KStr k \<in> fst ` set d)"

section \<open>Symbols the compiler numbers\<close>

definition local_symbol_kind :: "string \<Rightarrow> string option" where
  "local_symbol_kind name =
     (if length name > 2 \<and> name ! 0 = CHR ''$'' \<and> name ! 1 \<in> {CHR ''L'', CHR ''T''}
         \<and> str_isdigit (drop 2 name)
      then Some [name ! 1]
      else if starts_with name ''$done$'' \<and> str_isdigit (drop 6 name) then Some ''done''
      else None)"

text \<open>\<^verbatim>\<open>name.rpartition("$S")\<close>: base and serial around the last separator.\<close>

fun rpartition_static :: "string \<Rightarrow> (string \<times> string) option" where
  "rpartition_static [] = None"
| "rpartition_static (c # cs) =
     (case rpartition_static cs of
        Some (base, serial) \<Rightarrow> Some (c # base, serial)
      | None \<Rightarrow> (if starts_with (c # cs) ''$S'' then Some ([], drop 2 (c # cs)) else None))"

definition declared_symbol_kind :: "string \<Rightarrow> string option" where
  "declared_symbol_kind name =
     (case local_symbol_kind name of
        Some kind \<Rightarrow> Some kind
      | None \<Rightarrow> (case rpartition_static name of
                   Some (base, serial) \<Rightarrow>
                     (if base \<noteq> [] \<and> str_isdigit serial then Some (''S:'' @ base) else None)
                 | None \<Rightarrow> None))"

section \<open>Closed key sets, exact integers, digests\<close>

definition dict_keys :: "(py_key \<times> py_value) list \<Rightarrow> py_key list" where
  "dict_keys d = map fst d"

definition exact_keys :: "(py_key \<times> py_value) list \<Rightarrow> string list \<Rightarrow> unit result" where
  "exact_keys value allowed =
     require (list_all (\<lambda>k. k \<in> KStr ` set allowed) (dict_keys value)) ''has unknown keys'' (Inr ())"

definition exact_audit_keys ::
    "(py_key \<times> py_value) list \<Rightarrow> string list \<Rightarrow> string list \<Rightarrow> unit result" where
  "exact_audit_keys value expected optional =
     (let unknown = filter (\<lambda>k. k \<notin> KStr ` set expected) (dict_keys value);
          missing = filter (\<lambda>k. \<not> has_key value k \<and> k \<notin> set optional) expected
      in require (unknown = [] \<and> missing = []) ''schema differs'' (Inr ()))"

definition is_lower_hex :: "char \<Rightarrow> bool" where
  "is_lower_hex c = (let n = (of_char c :: nat) in 48 \<le> n \<and> n \<le> 57 \<or> 97 \<le> n \<and> n \<le> 102)"

definition require_sha :: "py_value \<Rightarrow> string result" where
  "require_sha v =
     (case v of
        VStr s \<Rightarrow> require (length s = 64 \<and> list_all is_lower_hex s)
                    ''must be a lowercase SHA-256'' (Inr s)
      | _ \<Rightarrow> Inl (ByteIdentityError ''must be a lowercase SHA-256''))"

definition require_exact_int :: "py_value \<Rightarrow> int option \<Rightarrow> int option \<Rightarrow> int result" where
  "require_exact_int v minimum maximum =
     (case v of
        VInt number \<Rightarrow>
          require (case minimum of None \<Rightarrow> True | Some m \<Rightarrow> number \<ge> m) ''is below its minimum''
           (require (case maximum of None \<Rightarrow> True | Some m \<Rightarrow> number \<le> m) ''exceeds its maximum''
             (Inr number))
      | _ \<Rightarrow> Inl (ByteIdentityError ''must be an exact JSON integer''))"

definition is_identifier :: "py_value \<Rightarrow> bool" where
  "is_identifier v =
     (case v of
        VStr (c # s) \<Rightarrow>
          (let lower = (\<lambda>n. 97 \<le> n \<and> n \<le> (122 :: nat))
           in lower (of_char c) \<and> length s \<le> 127 \<and>
              list_all (\<lambda>d. lower (of_char d) \<or> 48 \<le> (of_char d :: nat) \<and> of_char d \<le> (57 :: nat)
                            \<or> d \<in> {CHR ''.'', CHR ''_'', CHR ''-''}) s)
      | _ \<Rightarrow> False)"

section \<open>Type-strict equality\<close>

definition float_is_nan :: "64 word \<Rightarrow> bool" where
  "float_is_nan w = (drop_bit 52 (w AND 0x7FF0000000000000) = 0x7FF \<and> w AND 0xFFFFFFFFFFFFF \<noteq> 0)"

definition float_equal :: "64 word \<Rightarrow> 64 word \<Rightarrow> bool" where
  "float_equal a b =
     (\<not> float_is_nan a \<and> \<not> float_is_nan b \<and>
      (a = b \<or> a AND 0x7FFFFFFFFFFFFFFF = 0 \<and> b AND 0x7FFFFFFFFFFFFFFF = 0))"

text \<open>
  Equality that never treats bool, int and float as interchangeable.  Dictionaries are
  equal when they have the same keys with equal values; lists elementwise.  A tuple,
  which JSON never holds, falls through to Python's own equality and is compared here
  as one value.
\<close>

function exact_json_equal :: "py_value \<Rightarrow> py_value \<Rightarrow> bool" where
  "exact_json_equal (VDict l) (VDict r) =
     (set (map fst l) = set (map fst r) \<and>
      list_all (\<lambda>(k, v). case map_of r k of None \<Rightarrow> False | Some w \<Rightarrow> exact_json_equal v w) l)"
| "exact_json_equal (VList l) (VList r) =
     (length l = length r \<and> list_all (\<lambda>(a, b). exact_json_equal a b) (zip l r))"
| "exact_json_equal (VFloat a) r = (case r of VFloat b \<Rightarrow> float_equal a b | _ \<Rightarrow> False)"
| "exact_json_equal VNone r = (r = VNone)"
| "exact_json_equal (VBool b) r = (r = VBool b)"
| "exact_json_equal (VInt n) r = (r = VInt n)"
| "exact_json_equal (VStr s) r = (r = VStr s)"
| "exact_json_equal (VBytes s) r = (r = VBytes s)"
| "exact_json_equal (VTuple t) r = (r = VTuple t)"
| "exact_json_equal (VList l) VNone = False"
| "exact_json_equal (VList l) (VBool b) = False"
| "exact_json_equal (VList l) (VInt n) = False"
| "exact_json_equal (VList l) (VFloat f) = False"
| "exact_json_equal (VList l) (VStr s) = False"
| "exact_json_equal (VList l) (VBytes s) = False"
| "exact_json_equal (VList l) (VTuple t) = False"
| "exact_json_equal (VList l) (VDict d) = False"
| "exact_json_equal (VDict l) VNone = False"
| "exact_json_equal (VDict l) (VBool b) = False"
| "exact_json_equal (VDict l) (VInt n) = False"
| "exact_json_equal (VDict l) (VFloat f) = False"
| "exact_json_equal (VDict l) (VStr s) = False"
| "exact_json_equal (VDict l) (VBytes s) = False"
| "exact_json_equal (VDict l) (VTuple t) = False"
| "exact_json_equal (VDict l) (VList d) = False"
  by pat_completeness auto
termination
proof (relation "measure (\<lambda>(l, r). size l)", goal_cases)
  case 1
  then show ?case by simp
next
  case (2 l r z k v w)
  then have "(k, v) \<in> set l" by simp
  then have "size v < size_list (size_prod (\<lambda>_. 0) size) l + 1"
    by (induction l) auto
  then show ?case by simp
next
  case (3 l r z a b)
  then have "a \<in> set l" by (auto dest: set_zip_leftD)
  then have "size a < size_list size l + 1" by (induction l) auto
  then show ?case by simp
qed

section \<open>Payload-free declarations\<close>

definition forbidden_declaration_payload_keys :: "string list" where
  "forbidden_declaration_payload_keys =
     [''body'', ''bytes'', ''oracle_body'', ''oracle_bytes'', ''oracle_payload'', ''payload'',
      ''reference_body'', ''reference_bytes'', ''reference_payload'', ''retail_body'',
      ''retail_bytes'', ''retail_payload'', ''target_body'', ''target_bytes'', ''target_payload'']"

definition ends_with :: "string \<Rightarrow> string \<Rightarrow> bool" where
  "ends_with s suffix = starts_with (rev s) (rev suffix)"

definition forbidden_key :: "string \<Rightarrow> bool" where
  "forbidden_key key =
     (key \<in> set forbidden_declaration_payload_keys \<or> ends_with key ''_bytes''
      \<or> ends_with key ''_payload'' \<or> ends_with key ''_body'')"

text \<open>The key loop of one dictionary.\<close>

primrec check_keys :: "py_key list \<Rightarrow> unit result" where
  "check_keys [] = Inr ()"
| "check_keys (k # ks) =
     (case k of
        KOther _ \<Rightarrow> Inl (ByteIdentityError ''has a non-string key'')
      | KStr key \<Rightarrow> require (\<not> forbidden_key key) ''is an embedded payload field'' (check_keys ks))"

lemma rev_sum_sizes: "(\<Sum>v \<leftarrow> rev xs. f v) = (\<Sum>v \<leftarrow> xs. f v :: nat)"
  by (simp add: sum_list_rev flip: rev_map)

lemma list_sum_sizes:
  "(\<Sum>v \<leftarrow> xs. Suc (size v)) \<le> Suc (size_list size (xs :: py_value list))"
  by (induction xs) auto

lemma dict_sum_sizes:
  "sum_list (map ((\<lambda>v. Suc (size v)) \<circ> snd) d)
     \<le> Suc (size_list (size_prod (\<lambda>_. 0) size) (d :: (py_key \<times> py_value) list))"
  by (induction d) auto

text \<open>The worklist; its head is the end of the Python list \<^verbatim>\<open>pending\<close>.\<close>

function payload_walk :: "py_value list \<Rightarrow> unit result" where
  "payload_walk [] = Inr ()"
| "payload_walk (current # pending) =
     (case current of
        VBytes _ \<Rightarrow> Inl (ByteIdentityError ''embeds a byte payload'')
      | VDict d \<Rightarrow> rbind (check_keys (dict_keys d)) (\<lambda>_. payload_walk (rev (map snd d) @ pending))
      | VList xs \<Rightarrow> payload_walk (rev xs @ pending)
      | VTuple xs \<Rightarrow> payload_walk (rev xs @ pending)
      | _ \<Rightarrow> payload_walk pending)"
  by pat_completeness auto
termination
  by (relation "measure (\<lambda>pending. \<Sum>v \<leftarrow> pending. size v + 1)")
     (auto simp: rev_sum_sizes dict_sum_sizes list_sum_sizes less_Suc_eq_le)

declare payload_walk.simps [simp del]

definition require_payload_free_declaration :: "py_value \<Rightarrow> unit result" where
  "require_payload_free_declaration value = payload_walk [value]"

text \<open>The specification: no byte value and no payload key anywhere in the tree.\<close>

fun payload_free :: "py_value \<Rightarrow> bool" where
  "payload_free (VBytes _) = False"
| "payload_free (VDict d) =
     (list_all (\<lambda>k. \<exists>s. k = KStr s \<and> \<not> forbidden_key s) (map fst d) \<and>
      list_all payload_free (map snd d))"
| "payload_free (VList xs) = list_all payload_free xs"
| "payload_free (VTuple xs) = list_all payload_free xs"
| "payload_free _ = True"

lemma check_keys_iff:
  "check_keys ks = Inr () \<longleftrightarrow> list_all (\<lambda>k. \<exists>s. k = KStr s \<and> \<not> forbidden_key s) ks"
  by (induction ks) (auto split: py_key.splits)

lemma payload_walk_iff: "payload_walk vs = Inr () \<longleftrightarrow> list_all payload_free vs"
proof (induction vs rule: payload_walk.induct)
  case 1
  then show ?case by (simp add: payload_walk.simps)
next
  case (2 current pending)
  then show ?case
    by (cases current) (auto simp: payload_walk.simps check_keys_iff dict_keys_def list_all_iff)
qed

text \<open>
  C14.  The payload worklist accepts a declaration exactly when no byte value and no
  payload-named or non-string key occurs anywhere in the whole document tree.
\<close>

theorem payload_free_declaration_iff:
  "require_payload_free_declaration value = Inr () \<longleftrightarrow> payload_free value"
  by (simp add: require_payload_free_declaration_def payload_walk_iff)

end
