(* ===== verification/Ia32_Ranges.thy ===== *)
theory Ia32_Ranges
  imports Ia32_Commute Json_Values
begin

text \<open>
  The declaration validators of \<^verbatim>\<open>src/reprobit/classic/ia32.py\<close>: hybrid ranges in two
  independent compiler artifacts, same-offset mosaic ranges, the two-instruction
  self-permutation, and declared relocation semantics.  A declaration enters as an
  untyped document and leaves as a typed record; every guard of the source is a branch.
  The digest function is a parameter.

  The theorems show that accepted ranges are sorted, disjoint and inside the body, and
  that the moves of an accepted self-permutation rewrite the window to code with the
  same effect.
\<close>

section \<open>Shared pieces\<close>

definition require_supported_complete_ia32_instruction :: "bytes \<Rightarrow> int result" where
  "require_supported_complete_ia32_instruction encoded =
     rbind (supported_ia32_instruction_length encoded) (\<lambda>length.
       require (length = len encoded)
         ''encoding is not one complete supported IA-32 instruction'' (Inr length))"

text \<open>\<^verbatim>\<open>isinstance(value, list) and all(type(v) is int for v in value)\<close>.\<close>

definition exact_int_list :: "py_value \<Rightarrow> int list option" where
  "exact_int_list v =
     (case v of
        VList xs \<Rightarrow> those (map (\<lambda>x. case x of VInt n \<Rightarrow> Some n | _ \<Rightarrow> None) xs)
      | _ \<Rightarrow> None)"

text \<open>\<^verbatim>\<open>kind in frozenset\<close>: an unhashable kind raises TypeError.\<close>

definition kind_in :: "py_value \<Rightarrow> string list \<Rightarrow> bool result" where
  "kind_in v kinds =
     (case v of
        VStr s \<Rightarrow> Inr (s \<in> set kinds)
      | VList _ \<Rightarrow> Inl TypeError
      | VDict _ \<Rightarrow> Inl TypeError
      | _ \<Rightarrow> Inr False)"

definition as_dict :: "py_value \<Rightarrow> (py_key \<times> py_value) list option" where
  "as_dict v = (case v of VDict d \<Rightarrow> Some d | _ \<Rightarrow> None)"

definition require_dict :: "py_value \<Rightarrow> (py_key \<times> py_value) list result" where
  "require_dict v =
     (case v of VDict d \<Rightarrow> Inr d | _ \<Rightarrow> Inl (ByteIdentityError ''must be an object''))"

section \<open>Hybrid ranges in two artifacts\<close>

record hybrid_range =
  hr_kind :: string
  target_start :: int
  target_end :: int
  target_sha256 :: string
  instruction_donor_start :: int
  instruction_donor_end :: int
  instruction_donor_sha256 :: string

definition cross_tu_instruction_hybrid_range_keys :: "string list" where
  "cross_tu_instruction_hybrid_range_keys =
     [''kind'', ''target_start'', ''target_end'', ''target_sha256'',
      ''instruction_donor_start'', ''instruction_donor_end'', ''instruction_donor_sha256'']"

text \<open>The loop body; the state is the two previous ends and the normalized ranges.\<close>

definition hybrid_range_step ::
    "int \<Rightarrow> int \<Rightarrow> string \<Rightarrow> bool \<Rightarrow> int \<times> int \<times> hybrid_range list \<Rightarrow> py_value
     \<Rightarrow> (int \<times> int \<times> hybrid_range list) result" where
  "hybrid_range_step target_body_length instruction_donor_body_length range_kind same_offsets st v =
     (case st of (previous_target_end, previous_source_end, normalized) \<Rightarrow>
      rbind (require_dict v) (\<lambda>it.
      rbind (exact_audit_keys it cross_tu_instruction_hybrid_range_keys []) (\<lambda>_.
      require (dict_get it ''kind'' = VStr range_kind) ''kind differs'' (
      rbind (require_exact_int (dict_get it ''target_start'') (Some 0)
               (Some (target_body_length - 1))) (\<lambda>ts.
      rbind (require_exact_int (dict_get it ''target_end'') (Some 1)
               (Some target_body_length)) (\<lambda>te.
      rbind (require_exact_int (dict_get it ''instruction_donor_start'') (Some 0)
               (Some (instruction_donor_body_length - 1))) (\<lambda>ss.
      rbind (require_exact_int (dict_get it ''instruction_donor_end'') (Some 1)
               (Some instruction_donor_body_length)) (\<lambda>se.
      require (1 \<le> te - ts \<and> te - ts = se - ss \<and> se - ss \<le> 15)
        ''is not one equal-width x86 instruction'' (
      require (ts \<ge> previous_target_end \<and> ss \<ge> previous_source_end)
        ''is unsorted or overlapping'' (
      require (same_offsets \<longrightarrow> (ts, te) = (ss, se)) ''source-aware hybrid offsets differ'' (
      rbind (require_sha (dict_get it ''target_sha256'')) (\<lambda>target_digest.
      rbind (require_sha (dict_get it ''instruction_donor_sha256'')) (\<lambda>donor_digest.
      require (target_digest \<noteq> donor_digest) ''does not change compiler output'' (
        Inr (te, se, normalized @ [\<lparr>hr_kind = range_kind, target_start = ts, target_end = te,
          target_sha256 = target_digest, instruction_donor_start = ss,
          instruction_donor_end = se, instruction_donor_sha256 = donor_digest\<rparr>])))))))))))))))"

definition validate_cross_tu_instruction_hybrid_ranges ::
    "py_value \<Rightarrow> int \<Rightarrow> int \<Rightarrow> string \<Rightarrow> bool \<Rightarrow> hybrid_range list result" where
  "validate_cross_tu_instruction_hybrid_ranges value target_body_length
       instruction_donor_body_length range_kind same_offsets =
     (case value of
        VList items \<Rightarrow>
          require (1 \<le> len items \<and> len items \<le> 64) ''must contain 1..64 instruction ranges''
           (rbind (rfold (hybrid_range_step target_body_length instruction_donor_body_length
                            range_kind same_offsets) (0, 0, []) items)
             (\<lambda>(_, _, normalized). Inr normalized))
      | _ \<Rightarrow> Inl (ByteIdentityError ''must contain 1..64 instruction ranges''))"

section \<open>Same-offset mosaic ranges\<close>

record mosaic_range =
  mr_kind :: string
  mr_start :: int
  mr_end :: int
  seed_sha256 :: string
  donor_sha256 :: string
  mr_donor :: "string option"
  relocation_reseat :: "(int list \<times> int list) option"
  instruction_lengths :: "(int list \<times> int list) option"

definition instruction_mosaic_range_keys :: "string list" where
  "instruction_mosaic_range_keys =
     [''kind'', ''start'', ''end'', ''seed_sha256'', ''donor_sha256'', ''donor'',
      ''relocation_reseat'', ''seed_relocation_offsets'', ''donor_relocation_offsets'']"

definition instruction_mosaic_range_optional_keys :: "string list" where
  "instruction_mosaic_range_optional_keys =
     [''donor'', ''relocation_reseat'', ''seed_relocation_offsets'', ''donor_relocation_offsets'']"

definition instruction_mosaic_sequence_range_keys :: "string list" where
  "instruction_mosaic_sequence_range_keys =
     instruction_mosaic_range_keys @ [''seed_instruction_lengths'', ''donor_instruction_lengths'']"

definition single_kind :: string where
  "single_kind = ''same_offset_complete_x86_instruction_v1''"

definition sequence_kind :: string where
  "sequence_kind = ''same_offset_complete_x86_instruction_sequence_v1''"

text \<open>One \<^verbatim>\<open>relocation_offsets\<close> list: 1..16 strictly increasing operands inside the range.\<close>

definition relocation_offsets :: "py_value \<Rightarrow> int \<Rightarrow> int \<Rightarrow> int list result" where
  "relocation_offsets v start stop =
     (case exact_int_list v of
        Some values \<Rightarrow>
          require (1 \<le> len values \<and> len values \<le> 16
                   \<and> list_all (\<lambda>x. start \<le> x \<and> x + 4 \<le> stop) values
                   \<and> sorted_wrt (<) values)
            ''relocation_offsets differ'' (Inr values)
      | None \<Rightarrow> Inl (ByteIdentityError ''relocation_offsets differ''))"

definition reseat_declaration ::
    "(py_key \<times> py_value) list \<Rightarrow> int \<Rightarrow> int \<Rightarrow> (int list \<times> int list) option result" where
  "reseat_declaration it start stop =
     (let reseat_keys = [''relocation_reseat'', ''seed_relocation_offsets'',
                         ''donor_relocation_offsets'']
      in if list_ex (has_key it) reseat_keys
         then require (dict_get it ''relocation_reseat'' = VBool True
                       \<and> list_all (has_key it) reseat_keys)
                ''relocation reseat declaration is incomplete''
               (rbind (relocation_offsets (dict_get it ''seed_relocation_offsets'') start stop) (\<lambda>s.
                rbind (relocation_offsets (dict_get it ''donor_relocation_offsets'') start stop) (\<lambda>d.
                require (length s = length d \<and> s \<noteq> d)
                  ''relocation reseat does not move a relocation operand'' (Inr (Some (s, d))))))
         else Inr None)"

text \<open>One \<^verbatim>\<open>instruction_lengths\<close> list: a partition of the range into 1..64 instructions.\<close>

definition lengths_declaration :: "py_value \<Rightarrow> int \<Rightarrow> int list result" where
  "lengths_declaration v width =
     (case exact_int_list v of
        Some lengths \<Rightarrow>
          require (lengths \<noteq> [] \<and> len lengths \<le> 64
                   \<and> list_all (\<lambda>x. 1 \<le> x \<and> x \<le> 15) lengths \<and> sum_list lengths = width)
            ''instruction_lengths differ'' (Inr lengths)
      | None \<Rightarrow> Inl (ByteIdentityError ''instruction_lengths differ''))"

definition mosaic_range_step ::
    "int \<Rightarrow> int \<times> mosaic_range list \<Rightarrow> py_value \<Rightarrow> (int \<times> mosaic_range list) result" where
  "mosaic_range_step body_length st v =
     (case st of (previous_end, normalized) \<Rightarrow>
      rbind (require_dict v) (\<lambda>it.
      let kind = dict_get it ''kind'' in
      rbind (if kind = VStr single_kind
             then exact_audit_keys it instruction_mosaic_range_keys
                    instruction_mosaic_range_optional_keys
             else if kind = VStr sequence_kind
             then exact_audit_keys it instruction_mosaic_sequence_range_keys
                    instruction_mosaic_range_optional_keys
             else Inl (ByteIdentityError ''kind differs'')) (\<lambda>_.
      rbind (require_exact_int (dict_get it ''start'') (Some 0) (Some (body_length - 1))) (\<lambda>start.
      rbind (require_exact_int (dict_get it ''end'') (Some 1) (Some body_length)) (\<lambda>stop.
      require (start < stop \<and> stop - start \<le> (if kind = VStr single_kind then 15 else 64))
        ''is not a bounded x86 instruction range'' (
      require (start \<ge> previous_end) ''is unsorted or overlapping'' (
      rbind (require_sha (dict_get it ''seed_sha256'')) (\<lambda>seed_sha.
      rbind (require_sha (dict_get it ''donor_sha256'')) (\<lambda>donor_sha.
      require (seed_sha \<noteq> donor_sha) ''does not move compiler state'' (
      rbind (if has_key it ''donor''
             then require (is_identifier (dict_get it ''donor'')) ''donor is invalid''
                    (Inr (case dict_get it ''donor'' of VStr s \<Rightarrow> Some s | _ \<Rightarrow> None))
             else Inr None) (\<lambda>donor_id.
      rbind (reseat_declaration it start stop) (\<lambda>reseat.
      rbind (if kind = VStr sequence_kind
             then rbind (lengths_declaration (dict_get it ''seed_instruction_lengths'')
                           (stop - start)) (\<lambda>s.
                  rbind (lengths_declaration (dict_get it ''donor_instruction_lengths'')
                           (stop - start)) (\<lambda>d. Inr (Some (s, d))))
             else Inr None) (\<lambda>lengths.
        Inr (stop, normalized @ [\<lparr>
          mr_kind = (if kind = VStr single_kind then single_kind else sequence_kind),
          mr_start = start, mr_end = stop, seed_sha256 = seed_sha, donor_sha256 = donor_sha,
          mr_donor = donor_id, relocation_reseat = reseat,
          instruction_lengths = lengths\<rparr>]))))))))))))))"

definition validate_instruction_mosaic_ranges ::
    "py_value \<Rightarrow> int \<Rightarrow> mosaic_range list result" where
  "validate_instruction_mosaic_ranges value body_length =
     (case value of
        VList items \<Rightarrow>
          require (1 \<le> len items \<and> len items \<le> 64) ''must contain 1..64 instruction ranges''
           (rbind (rfold (mosaic_range_step body_length) (0, []) items)
             (\<lambda>(_, normalized). Inr normalized))
      | _ \<Rightarrow> Inl (ByteIdentityError ''must contain 1..64 instruction ranges''))"

section \<open>Accepted ranges are sorted, disjoint and bounded\<close>

text \<open>
  The geometry a list of half-open ranges must have to be spliced independently of the
  order of application.
\<close>

definition ranges_in_body :: "int \<Rightarrow> (int \<times> int) list \<Rightarrow> bool" where
  "ranges_in_body n rs \<longleftrightarrow>
     sorted_wrt (\<lambda>a b. snd a \<le> fst b) rs \<and> (\<forall>(a, b) \<in> set rs. 0 \<le> a \<and> a < b \<and> b \<le> n)"

lemma ranges_in_body_snoc:
  assumes "ranges_in_body n rs" "\<forall>r \<in> set rs. snd r \<le> p" "p \<le> a" "0 \<le> a" "a < b" "b \<le> n"
  shows "ranges_in_body n (rs @ [(a, b)])"
  using assms by (fastforce simp: ranges_in_body_def sorted_wrt_append)

lemma require_exact_int_Inr:
  "require_exact_int v (Some lo) (Some hi) = Inr n \<longleftrightarrow> v = VInt n \<and> lo \<le> n \<and> n \<le> hi"
  by (auto simp: require_exact_int_def split: py_value.splits)

text \<open>What one accepted item adds to the state of the mosaic loop.\<close>

lemma mosaic_range_step_Inr:
  assumes "mosaic_range_step n (p, rs) v = Inr (q, rs')"
  obtains r where "rs' = rs @ [r]" "q = mr_end r" "p \<le> mr_start r" "0 \<le> mr_start r"
    "mr_start r < mr_end r" "mr_end r \<le> n" "mr_end r - mr_start r \<le> 64"
    "seed_sha256 r \<noteq> donor_sha256 r"
    "mr_kind r = single_kind \<longrightarrow> mr_end r - mr_start r \<le> 15"
    "\<And>s d. instruction_lengths r = Some (s, d) \<Longrightarrow>
       sum_list s = mr_end r - mr_start r \<and> sum_list d = mr_end r - mr_start r"
proof -
  have ne: "single_kind \<noteq> sequence_kind" by (simp add: single_kind_def sequence_kind_def)
  have ld: "lengths_declaration v w = Inr xs \<Longrightarrow> sum_list xs = w" for v w xs
    by (auto simp: lengths_declaration_def split: option.splits)
  from assms show ?thesis
    unfolding mosaic_range_step_def Let_def
    by (auto simp: require_exact_int_Inr ne split: if_splits intro!: that dest!: ld)
qed

lemma hybrid_range_step_Inr:
  assumes "hybrid_range_step n m k same (p, q, rs) v = Inr (p', q', rs')"
  obtains r where "rs' = rs @ [r]" "p' = target_end r" "q' = instruction_donor_end r"
    "p \<le> target_start r" "q \<le> instruction_donor_start r"
    "0 \<le> target_start r" "target_start r < target_end r" "target_end r \<le> n"
    "0 \<le> instruction_donor_start r" "instruction_donor_start r < instruction_donor_end r"
    "instruction_donor_end r \<le> m"
    "target_end r - target_start r = instruction_donor_end r - instruction_donor_start r"
    "target_end r - target_start r \<le> 15"
  using assms
  by (auto simp: hybrid_range_step_def require_exact_int_Inr intro!: that)

lemma mosaic_loop_geometry:
  assumes "rfold (mosaic_range_step n) (0, []) items = Inr (q, rs)"
  shows "ranges_in_body n (map (\<lambda>r. (mr_start r, mr_end r)) rs) \<and> (\<forall>r \<in> set rs. mr_end r \<le> q)
         \<and> (\<forall>r \<in> set rs. seed_sha256 r \<noteq> donor_sha256 r \<and> mr_end r - mr_start r \<le> 64)"
proof -
  let ?P = "\<lambda>(q, rs). ranges_in_body n (map (\<lambda>r. (mr_start r, mr_end r)) rs) \<and>
              (\<forall>r \<in> set rs. mr_end r \<le> q) \<and>
              (\<forall>r \<in> set rs. seed_sha256 r \<noteq> donor_sha256 r \<and> mr_end r - mr_start r \<le> 64)"
  have "?P (q, rs)"
  proof (rule rfold_invariant [OF assms])
    show "?P (0, [])" by (simp add: ranges_in_body_def)
  next
    fix st v st'
    assume inv: "?P st" and step: "mosaic_range_step n st v = Inr st'"
    obtain p rs where st: "st = (p, rs)" by force
    obtain p' rs' where st': "st' = (p', rs')" by force
    from step [unfolded st st'] show "?P st'"
    proof (rule mosaic_range_step_Inr)
      fix r
      assume r: "rs' = rs @ [r]" "p' = mr_end r" "p \<le> mr_start r" "0 \<le> mr_start r"
        "mr_start r < mr_end r" "mr_end r \<le> n" "mr_end r - mr_start r \<le> 64"
        "seed_sha256 r \<noteq> donor_sha256 r"
      have "ranges_in_body n (map (\<lambda>r. (mr_start r, mr_end r)) rs @ [(mr_start r, mr_end r)])"
        using inv r by (intro ranges_in_body_snoc [where p = p]) (auto simp: st)
      then show "?P st'" using inv r by (fastforce simp: st st')
    qed
  qed
  then show ?thesis by simp
qed

lemma rfold_mosaic_length:
  assumes "rfold (mosaic_range_step n) (p, acc) items = Inr (q, rs)"
  shows "length rs = length acc + length items"
  using assms
proof (induction items arbitrary: p acc)
  case Nil
  then show ?case by simp
next
  case (Cons v items)
  from Cons.prems obtain p' acc' where s: "mosaic_range_step n (p, acc) v = Inr (p', acc')"
    and r: "rfold (mosaic_range_step n) (p', acc') items = Inr (q, rs)" by auto
  from s have "length acc' = Suc (length acc)" by (rule mosaic_range_step_Inr) simp
  with Cons.IH [OF r] show ?case by simp
qed

lemma hybrid_loop_geometry:
  assumes "rfold (hybrid_range_step n m k same) (0, 0, []) items = Inr (p, q, rs)"
  shows "ranges_in_body n (map (\<lambda>r. (target_start r, target_end r)) rs)
         \<and> ranges_in_body m (map (\<lambda>r. (instruction_donor_start r, instruction_donor_end r)) rs)
         \<and> (\<forall>r \<in> set rs. target_end r \<le> p \<and> instruction_donor_end r \<le> q \<and>
              target_end r - target_start r = instruction_donor_end r - instruction_donor_start r \<and>
              target_end r - target_start r \<le> 15)"
proof -
  let ?P = "\<lambda>(p, q, rs). ranges_in_body n (map (\<lambda>r. (target_start r, target_end r)) rs)
         \<and> ranges_in_body m (map (\<lambda>r. (instruction_donor_start r, instruction_donor_end r)) rs)
         \<and> (\<forall>r \<in> set rs. target_end r \<le> p \<and> instruction_donor_end r \<le> q \<and>
              target_end r - target_start r = instruction_donor_end r - instruction_donor_start r \<and>
              target_end r - target_start r \<le> 15)"
  have "?P (p, q, rs)"
  proof (rule rfold_invariant [OF assms])
    show "?P (0, 0, [])" by (simp add: ranges_in_body_def)
  next
    fix st v st'
    assume inv: "?P st" and step: "hybrid_range_step n m k same st v = Inr st'"
    obtain p q rs where st: "st = (p, q, rs)" using prod_cases3 by blast
    obtain p' q' rs' where st': "st' = (p', q', rs')" using prod_cases3 by blast
    from step [unfolded st st'] show "?P st'"
    proof (rule hybrid_range_step_Inr)
      fix r
      assume r: "rs' = rs @ [r]" "p' = target_end r" "q' = instruction_donor_end r"
        "p \<le> target_start r" "q \<le> instruction_donor_start r"
        "0 \<le> target_start r" "target_start r < target_end r" "target_end r \<le> n"
        "0 \<le> instruction_donor_start r" "instruction_donor_start r < instruction_donor_end r"
        "instruction_donor_end r \<le> m"
        "target_end r - target_start r = instruction_donor_end r - instruction_donor_start r"
        "target_end r - target_start r \<le> 15"
      have "ranges_in_body n (map (\<lambda>r. (target_start r, target_end r)) rs
              @ [(target_start r, target_end r)])"
        using inv r by (intro ranges_in_body_snoc [where p = p]) (auto simp: st)
      moreover have "ranges_in_body m
          (map (\<lambda>r. (instruction_donor_start r, instruction_donor_end r)) rs
           @ [(instruction_donor_start r, instruction_donor_end r)])"
        using inv r by (intro ranges_in_body_snoc [where p = q]) (auto simp: st)
      ultimately show "?P st'" using inv r by (fastforce simp: st st')
    qed
  qed
  then show ?thesis unfolding case_prod_conv .
qed

section \<open>The two-instruction self-permutation\<close>

definition ordinary_fpo_self_permutation_kind :: string where
  "ordinary_fpo_self_permutation_kind = ''commuting_xor_zero_stack_load_v1''"

definition independent_pair_self_permutation_kind :: string where
  "independent_pair_self_permutation_kind = ''commuting_independent_register_write_pair_v1''"

record move =
  mv_target_start :: int
  mv_target_end :: int
  mv_target_sha256 :: string
  mv_donor_start :: int
  mv_donor_end :: int
  mv_donor_sha256 :: string

record self_permutation =
  sp_kind :: string
  commuting_pair_independence :: independence
  source_window :: "int \<times> int"
  target_window :: "int \<times> int"
  source_instruction_lengths :: "int list"
  target_instruction_lengths :: "int list"
  moves :: "move list"
  expected_changed_offsets :: "int list"
  expected_linker_payload_count :: int
  expected_digests :: "string list"

definition self_permutation_keys :: "string list" where
  "self_permutation_keys =
     [''kind'', ''source_start'', ''source_end'', ''target_start'', ''target_end'',
      ''source_instruction_lengths'', ''target_instruction_lengths'', ''moves'',
      ''expected_changed_offsets'', ''expected_function_multiset_sha256'',
      ''expected_comdat_multiset_sha256'', ''expected_section_shape_sha256'',
      ''expected_linker_payload_count'', ''expected_linker_payload_sha256'']"

definition self_permutation_window ::
    "(py_key \<times> py_value) list \<Rightarrow> string \<Rightarrow> int \<Rightarrow> (int \<times> int) result" where
  "self_permutation_window document role body_length =
     rbind (require_exact_int (dict_get document (role @ ''_start'')) (Some 0)
              (Some (body_length - 1))) (\<lambda>start.
     rbind (require_exact_int (dict_get document (role @ ''_end'')) (Some 1)
              (Some body_length)) (\<lambda>stop.
     require (start < stop) ''range is empty'' (Inr (start, stop))))"

definition pair_lengths :: "py_value \<Rightarrow> int \<Rightarrow> int list result" where
  "pair_lengths v width =
     (case exact_int_list v of
        Some lengths \<Rightarrow>
          require (len lengths = 2 \<and> list_all (\<lambda>x. 1 \<le> x \<and> x \<le> 15) lengths
                   \<and> sum_list lengths = width) ''instruction_lengths differs'' (Inr lengths)
      | None \<Rightarrow> Inl (ByteIdentityError ''instruction_lengths differs''))"

definition move_interval ::
    "(py_key \<times> py_value) list \<Rightarrow> string \<Rightarrow> int \<times> int \<Rightarrow> (int \<times> int) result" where
  "move_interval mv prefix outer =
     rbind (require_exact_int (dict_get mv (prefix @ ''_start'')) (Some (fst outer))
              (Some (snd outer - 1))) (\<lambda>start.
     rbind (require_exact_int (dict_get mv (prefix @ ''_end'')) (Some (fst outer + 1))
              (Some (snd outer))) (\<lambda>stop.
     require (start < stop) ''interval is empty'' (Inr (start, stop))))"

text \<open>One move: equal widths, one digest, and the donor bytes are one instruction.\<close>

definition validate_move ::
    "(bytes \<Rightarrow> string) \<Rightarrow> bytes \<Rightarrow> int \<times> int \<Rightarrow> int \<times> int \<Rightarrow> py_value \<Rightarrow> move result" where
  "validate_move sha256 body source target v =
     rbind (require_dict v) (\<lambda>mv.
     rbind (exact_audit_keys mv [''target_start'', ''target_end'', ''target_sha256'',
              ''donor_start'', ''donor_end'', ''donor_sha256''] []) (\<lambda>_.
     rbind (move_interval mv ''target'' target) (\<lambda>(ts, te).
     rbind (move_interval mv ''donor'' source) (\<lambda>(ds, de).
     require (te - ts = de - ds) ''source/target widths differ'' (
     rbind (require_sha (dict_get mv ''target_sha256'')) (\<lambda>target_sha.
     rbind (require_sha (dict_get mv ''donor_sha256'')) (\<lambda>donor_sha.
     require (target_sha = donor_sha) ''does not copy one exact donor instruction'' (
     let donor_raw = pslice body ds de in
     require (sha256 donor_raw = donor_sha) ''differs from the fresh donor artifact'' (
     rbind (require_supported_complete_ia32_instruction donor_raw) (\<lambda>_.
       Inr \<lparr>mv_target_start = ts, mv_target_end = te, mv_target_sha256 = target_sha,
            mv_donor_start = ds, mv_donor_end = de, mv_donor_sha256 = donor_sha\<rparr>))))))))))"

text \<open>The partition check of one role: the moves, sorted by start, tile the window.\<close>

definition require_partition ::
    "(move \<Rightarrow> int) \<Rightarrow> (move \<Rightarrow> int) \<Rightarrow> int \<times> int \<Rightarrow> int list \<Rightarrow> move list \<Rightarrow> unit result" where
  "require_partition start_of end_of window declared ms =
     rbind (rfold (\<lambda>(cursor, lengths) mv.
              require (start_of mv = cursor) ''partition is overlapping or gapped''
                (Inr (end_of mv, lengths @ [end_of mv - start_of mv])))
            (fst window, []) (sort_by (\<lambda>a b. start_of a \<le> start_of b) ms)) (\<lambda>(cursor, lengths).
       require (cursor = snd window \<and> lengths = declared)
         ''partition differs from its declaration'' (Inr ()))"

definition donor_spans :: "move list \<Rightarrow> (int \<times> int) list" where
  "donor_spans ms = map (\<lambda>mv. (mv_donor_start mv, mv_donor_end mv)) ms"

definition by_donor_start :: "move list \<Rightarrow> move list" where
  "by_donor_start ms = sort_by (\<lambda>a b. mv_donor_start a \<le> mv_donor_start b) ms"

text \<open>The closed encodings of the older kind: \<^verbatim>\<open>xor edi, edi\<close> and \<^verbatim>\<open>mov edx, [esp+20]\<close>.\<close>

definition require_closed_encodings :: "bytes \<Rightarrow> bytes \<Rightarrow> unit result" where
  "require_closed_encodings first second =
     require (first = [0x33, 0xFF])
       ''first source instruction is not the closed XOR-zero encoding''
      (let zero_modrm = byte_int (first ! 1); zero_reg = drop_bit 3 zero_modrm AND 7
       in require (drop_bit 6 zero_modrm = 3 \<and> zero_modrm AND 7 = zero_reg)
            ''XOR does not zero exactly one register''
           (require (second = [0x8B, 0x54, 0x24, 0x14])
              ''second source instruction is not the closed stack-load encoding'' (Inr ())))"

text \<open>
  The changed offsets; a list that holds anything but integers is refused, where the
  source may already raise TypeError while sorting it.
\<close>

definition changed_offsets :: "py_value \<Rightarrow> int \<Rightarrow> int list result" where
  "changed_offsets v body_length =
     (case exact_int_list v of
        Some offsets \<Rightarrow>
          require (offsets \<noteq> [] \<and> sorted_wrt (<) offsets
                   \<and> list_all (\<lambda>x. 0 \<le> x \<and> x < body_length) offsets)
            ''expected_changed_offsets differs'' (Inr offsets)
      | None \<Rightarrow> Inl (ByteIdentityError ''expected_changed_offsets differs''))"

definition require_two_moves :: "py_value \<Rightarrow> py_value list result" where
  "require_two_moves v =
     (case v of
        VList vs \<Rightarrow> require (len vs = 2) ''moves must contain exactly two instructions'' (Inr vs)
      | _ \<Rightarrow> Inl (ByteIdentityError ''moves must contain exactly two instructions''))"

definition validate_instruction_self_permutation ::
    "(bytes \<Rightarrow> string) \<Rightarrow> py_value \<Rightarrow> bytes \<Rightarrow> self_permutation result" where
  "validate_instruction_self_permutation sha256 value body =
     require (body \<noteq> []) ''donor body is missing'' (
     rbind (require_dict value) (\<lambda>document.
     rbind (exact_audit_keys document self_permutation_keys []) (\<lambda>_.
     rbind (kind_in (dict_get document ''kind'')
              [ordinary_fpo_self_permutation_kind, independent_pair_self_permutation_kind]) (\<lambda>known.
     require known ''kind differs'' (
     rbind (self_permutation_window document ''source'' (len body)) (\<lambda>source.
     rbind (self_permutation_window document ''target'' (len body)) (\<lambda>target.
     require (source = target) ''self-permutation windows differ'' (
     let width = snd source - fst source in
     rbind (pair_lengths (dict_get document ''source_instruction_lengths'') width) (\<lambda>source_lengths.
     rbind (pair_lengths (dict_get document ''target_instruction_lengths'') width) (\<lambda>target_lengths.
     rbind (require_two_moves (dict_get document ''moves'')) (\<lambda>vs.
     rbind (rmap (validate_move sha256 body source target) vs) (\<lambda>normalized_moves.
     rbind (require_partition mv_target_start mv_target_end target target_lengths
              normalized_moves) (\<lambda>_.
     rbind (require_partition mv_donor_start mv_donor_end source source_lengths
              normalized_moves) (\<lambda>_.
     require (donor_spans normalized_moves = rev (donor_spans (by_donor_start normalized_moves)))
       ''target order is not the exact two-instruction reversal'' (
     let source_order = by_donor_start normalized_moves;
         first = pslice body (mv_donor_start (source_order ! 0)) (mv_donor_end (source_order ! 0));
         second = pslice body (mv_donor_start (source_order ! 1)) (mv_donor_end (source_order ! 1))
     in
     rbind (if dict_get document ''kind'' = VStr ordinary_fpo_self_permutation_kind
            then require_closed_encodings first second else Inr ()) (\<lambda>_.
     rbind (require_commuting_ia32_instruction_pair first second) (\<lambda>independence.
     rbind (require_exact_int (dict_get document ''expected_linker_payload_count'') (Some 0) None)
       (\<lambda>payload_count.
     rbind (changed_offsets (dict_get document ''expected_changed_offsets'') (len body)) (\<lambda>offsets.
     rbind (rmap (\<lambda>name. require_sha (dict_get document name))
              [''expected_function_multiset_sha256'', ''expected_comdat_multiset_sha256'',
               ''expected_section_shape_sha256'', ''expected_linker_payload_sha256'']) (\<lambda>digests.
       Inr \<lparr>sp_kind = (if dict_get document ''kind'' = VStr ordinary_fpo_self_permutation_kind
                       then ordinary_fpo_self_permutation_kind
                       else independent_pair_self_permutation_kind),
            commuting_pair_independence = independence, source_window = source,
            target_window = target, source_instruction_lengths = source_lengths,
            target_instruction_lengths = target_lengths, moves = normalized_moves,
            expected_changed_offsets = offsets, expected_linker_payload_count = payload_count,
            expected_digests = digests\<rparr>))))))))))))))))))))"

text \<open>
  The composer's loop over accepted moves (\<^verbatim>\<open>src/reprobit/classic/composition_mosaic.py\<close>):
  each donor instruction is checked against both digests and written at its target.
\<close>

definition splice :: "'a list \<Rightarrow> int \<Rightarrow> int \<Rightarrow> 'a list \<Rightarrow> 'a list" where
  "splice xs a b ys = take (nat a) xs @ ys @ drop (nat b) xs"

definition apply_move :: "(bytes \<Rightarrow> string) \<Rightarrow> bytes \<Rightarrow> bytes \<Rightarrow> move \<Rightarrow> bytes result" where
  "apply_move sha256 donor_body buffer mv =
     (let donor_instruction = pslice donor_body (mv_donor_start mv) (mv_donor_end mv) in
      require (sha256 donor_instruction = mv_donor_sha256 mv) ''donor instruction drifted''
       (require (sha256 donor_instruction = mv_target_sha256 mv)
          ''target instruction differs from its donor''
         (Inr (splice buffer (mv_target_start mv) (mv_target_end mv) donor_instruction))))"

definition apply_moves ::
    "(bytes \<Rightarrow> string) \<Rightarrow> bytes \<Rightarrow> bytes \<Rightarrow> move list \<Rightarrow> bytes result" where
  "apply_moves sha256 donor_body buffer ms = rfold (apply_move sha256 donor_body) buffer ms"

section \<open>Declared relocation semantics\<close>

record declared_relocation =
  dr_offset :: int
  dr_type :: int
  dr_addend :: int
  dr_target :: string
  dr_target_section :: int
  dr_target_value :: int
  dr_target_type :: int
  dr_target_storage :: int

definition relocation_fields :: "declared_relocation \<Rightarrow> int list" where
  "relocation_fields r = [dr_offset r, dr_type r, dr_addend r, dr_target_section r,
     dr_target_value r, dr_target_type r, dr_target_storage r]"

definition declared_target_matches :: "string \<Rightarrow> string \<Rightarrow> bool" where
  "declared_target_matches record_target expected_target =
     (record_target = expected_target \<or>
      (declared_symbol_kind record_target \<noteq> None
       \<and> declared_symbol_kind record_target = declared_symbol_kind expected_target))"

text \<open>The receipt holds the relocation count and the constant number of oracle bytes read.\<close>

definition require_declared_relocation_semantics ::
    "declared_relocation list \<Rightarrow> declared_relocation list \<Rightarrow> (int \<times> int) result" where
  "require_declared_relocation_semantics donor_rows oracle =
     require (length donor_rows = length oracle)
       ''relocation count differs from its declared semantics''
      (rbind (rmap (\<lambda>(record, expected).
                require (declared_target_matches (dr_target record) (dr_target expected)
                         \<and> relocation_fields record = relocation_fields expected)
                  ''differs from its declared COFF semantics'' (Inr ()))
              (zip donor_rows oracle))
        (\<lambda>_. Inr (len donor_rows, 0)))"

section \<open>What an accepted self-permutation does\<close>

text \<open>Running a window: cut it into instructions and execute them in order.\<close>

definition exec_window :: "(32 word \<Rightarrow> 32 word) \<Rightarrow> bytes \<Rightarrow> machine \<Rightarrow> machine result" where
  "exec_window fl w s = rbind (instructions w) (\<lambda>is. Inr (fold (exec_commutable fl) is s))"

lemma sort_by_two: "sort_by le [x, y] = (if le x y then [x, y] else [y, x])"
  by (simp add: sort_by_def)

lemma require_partition_two:
  assumes "require_partition st en (a, b) ls [m0, m1] = Inr ()"
  shows "st m0 = a \<and> en m0 = st m1 \<and> en m1 = b \<or> st m1 = a \<and> en m1 = st m0 \<and> en m0 = b"
  using assms by (auto simp: require_partition_def sort_by_two split: if_splits)

lemma validate_move_Inr:
  assumes "validate_move sha body (a, b) (c, d) v = Inr mv"
  shows "a \<le> mv_donor_start mv" "mv_donor_start mv < mv_donor_end mv" "mv_donor_end mv \<le> b"
    "c \<le> mv_target_start mv" "mv_target_start mv < mv_target_end mv" "mv_target_end mv \<le> d"
    "mv_target_end mv - mv_target_start mv = mv_donor_end mv - mv_donor_start mv"
    "complete_encoding supported_ia32_instruction_length
       (pslice body (mv_donor_start mv) (mv_donor_end mv))"
  using assms
  by (auto simp: validate_move_def move_interval_def require_exact_int_Inr Let_def
        complete_encoding_def require_supported_complete_ia32_instruction_def split: prod.splits)

lemma require_two_moves_Inr: "require_two_moves v = Inr vs \<Longrightarrow> length vs = 2"
  by (auto simp: require_two_moves_def split: py_value.splits)

text \<open>The shape of an accepted permutation: two moves, the later donor first.\<close>

lemma self_permutation_shape:
  assumes "validate_instruction_self_permutation sha value body = Inr sp"
  obtains m0 m1 a b receipt where
    "moves sp = [m0, m1]" "source_window sp = (a, b)" "target_window sp = (a, b)"
    "0 \<le> a" "a < b" "b \<le> len body"
    "\<exists>v. validate_move sha body (a, b) (a, b) v = Inr m0"
    "\<exists>v. validate_move sha body (a, b) (a, b) v = Inr m1"
    "\<exists>ls. require_partition mv_target_start mv_target_end (a, b) ls [m0, m1] = Inr ()"
    "\<exists>ls. require_partition mv_donor_start mv_donor_end (a, b) ls [m0, m1] = Inr ()"
    "donor_spans [m0, m1] = rev (donor_spans (by_donor_start [m0, m1]))"
    "require_commuting_ia32_instruction_pair
       (pslice body (mv_donor_start (by_donor_start [m0, m1] ! 0))
                    (mv_donor_end (by_donor_start [m0, m1] ! 0)))
       (pslice body (mv_donor_start (by_donor_start [m0, m1] ! 1))
                    (mv_donor_end (by_donor_start [m0, m1] ! 1))) = Inr receipt"
proof -
  from assms obtain document w sl tl vs ms receipt where
    win: "self_permutation_window document ''target'' (len body) = Inr w" and
    sp: "source_window sp = w" "target_window sp = w" "moves sp = ms" and
    vs: "length vs = 2" "rmap (validate_move sha body w w) vs = Inr ms" and
    pt: "require_partition mv_target_start mv_target_end w tl ms = Inr ()" and
    pd: "require_partition mv_donor_start mv_donor_end w sl ms = Inr ()" and
    rv: "donor_spans ms = rev (donor_spans (by_donor_start ms))" and
    cp: "require_commuting_ia32_instruction_pair
       (pslice body (mv_donor_start (by_donor_start ms ! 0)) (mv_donor_end (by_donor_start ms ! 0)))
       (pslice body (mv_donor_start (by_donor_start ms ! 1)) (mv_donor_end (by_donor_start ms ! 1)))
       = Inr receipt"
    unfolding validate_instruction_self_permutation_def Let_def
    by (auto dest: require_two_moves_Inr split del: if_split)
  obtain a b where w: "w = (a, b)" by force
  have ab: "0 \<le> a" "a < b" "b \<le> len body"
    using win by (auto simp: w self_permutation_window_def require_exact_int_Inr)
  obtain v0 v1 where v: "vs = [v0, v1]"
    using vs(1) by (auto simp: length_Suc_conv eval_nat_numeral)
  with vs(2) obtain m0 m1 where m: "ms = [m0, m1]"
    "validate_move sha body w w v0 = Inr m0" "validate_move sha body w w v1 = Inr m1" by auto
  show ?thesis
    by (rule that [of m0 m1 a b receipt])
       (use sp ab pt pd rv cp m w in \<open>auto intro: exI\<close>)
qed

lemma length_splice:
  "0 \<le> a \<Longrightarrow> a \<le> b \<Longrightarrow> b \<le> len xs \<Longrightarrow> len ys = b - a \<Longrightarrow> length (splice xs a b ys) = length xs"
  by (simp add: splice_def)

lemma splice_twice:
  assumes "0 \<le> a" "a \<le> m" "m \<le> b" "b \<le> len xs" "len x = m - a" "len y = b - m"
  shows "splice (splice xs a m x) m b y = take (nat a) xs @ x @ y @ drop (nat b) xs"
    and "splice (splice xs m b y) a m x = take (nat a) xs @ x @ y @ drop (nat b) xs"
proof -
  have n: "nat m = nat a + length x" "nat b = nat m + length y" "nat a \<le> length xs"
    "nat m \<le> length xs" using assms by linarith+
  then show "splice (splice xs a m x) m b y = take (nat a) xs @ x @ y @ drop (nat b) xs"
    by (simp add: splice_def add.commute)
  show "splice (splice xs m b y) a m x = take (nat a) xs @ x @ y @ drop (nat b) xs"
    using n assms by (simp add: splice_def min_def)
qed

text \<open>
  The composed window is the donor's two instructions, in one order or the other, and
  nothing outside the window changes.
\<close>

lemma self_permutation_bytes:
  assumes v: "validate_instruction_self_permutation sha value body = Inr sp"
    and app: "apply_moves sha body buffer (moves sp) = Inr result"
    and l: "length buffer = length body" and w: "target_window sp = (a, b)"
  obtains first second receipt where
    "pslice body a b = first @ second"
    "require_commuting_ia32_instruction_pair first second = Inr receipt"
    "complete_encoding supported_ia32_instruction_length first"
    "complete_encoding supported_ia32_instruction_length second"
    "result = take (nat a) buffer @ second @ first @ drop (nat b) buffer
     \<or> result = take (nat a) buffer @ first @ second @ drop (nat b) buffer"
    "0 \<le> a" "a < b" "b \<le> len body" "len first + len second = b - a"
  using v
proof (rule self_permutation_shape)
  fix m0 m1 a' b' receipt
  assume ms: "moves sp = [m0, m1]" and w': "target_window sp = (a', b')"
    and ab: "0 \<le> a'" "a' < b'" "b' \<le> len body"
    and v0: "\<exists>v. validate_move sha body (a', b') (a', b') v = Inr m0"
    and v1: "\<exists>v. validate_move sha body (a', b') (a', b') v = Inr m1"
    and pt: "\<exists>ls. require_partition mv_target_start mv_target_end (a', b') ls [m0, m1] = Inr ()"
    and pd: "\<exists>ls. require_partition mv_donor_start mv_donor_end (a', b') ls [m0, m1] = Inr ()"
    and rv: "donor_spans [m0, m1] = rev (donor_spans (by_donor_start [m0, m1]))"
    and cp: "require_commuting_ia32_instruction_pair
       (pslice body (mv_donor_start (by_donor_start [m0, m1] ! 0))
                    (mv_donor_end (by_donor_start [m0, m1] ! 0)))
       (pslice body (mv_donor_start (by_donor_start [m0, m1] ! 1))
                    (mv_donor_end (by_donor_start [m0, m1] ! 1))) = Inr receipt"
  have eq: "a' = a" "b' = b" using w w' by auto
  note mv0 = v0 [THEN exE] and mv1 = v1 [THEN exE]
  from v0 v1 obtain x0 x1 where
    x0: "validate_move sha body (a', b') (a', b') x0 = Inr m0" and
    x1: "validate_move sha body (a', b') (a', b') x1 = Inr m1" by blast
  note b0 = validate_move_Inr [OF x0] and b1 = validate_move_Inr [OF x1]
  from pd obtain ls where "require_partition mv_donor_start mv_donor_end (a', b') ls [m0, m1] = Inr ()"
    by blast
  note pd' = require_partition_two [OF this]
  from pt obtain lt where "require_partition mv_target_start mv_target_end (a', b') lt [m0, m1] = Inr ()"
    by blast
  note pt' = require_partition_two [OF this]
  have lt: "mv_donor_start m1 < mv_donor_start m0"
    using rv pd' b0(2) b1(2) by (auto simp: donor_spans_def by_donor_start_def sort_by_two split: if_splits)
  then have so: "by_donor_start [m0, m1] = [m1, m0]" by (simp add: by_donor_start_def sort_by_two)
  have d: "mv_donor_start m1 = a" "mv_donor_end m1 = mv_donor_start m0" "mv_donor_end m0 = b"
    using pd' lt b0(2) b1(2) eq by auto
  let ?f = "pslice body (mv_donor_start m1) (mv_donor_end m1)"
  let ?s = "pslice body (mv_donor_start m0) (mv_donor_end m0)"
  have win: "pslice body a b = ?f @ ?s"
    using pslice_append [of a "mv_donor_start m0" b body] d b0(2) b1(2) ab eq by simp
  have lens: "len ?f = mv_donor_end m1 - mv_donor_start m1" "len ?s = mv_donor_end m0 - mv_donor_start m0"
    using b0 b1 ab by (simp_all add: length_pslice)
  have res: "result = splice (splice buffer (mv_target_start m0) (mv_target_end m0) ?s)
                 (mv_target_start m1) (mv_target_end m1) ?f"
    using app ms by (auto simp: apply_moves_def apply_move_def Let_def)
  have "result = take (nat a) buffer @ ?s @ ?f @ drop (nat b) buffer
     \<or> result = take (nat a) buffer @ ?f @ ?s @ drop (nat b) buffer"
    using pt'
  proof
    assume t: "mv_target_start m0 = a' \<and> mv_target_end m0 = mv_target_start m1 \<and> mv_target_end m1 = b'"
    then have "result = take (nat a) buffer @ ?s @ ?f @ drop (nat b) buffer"
      unfolding res
      using splice_twice(1) [of a "mv_target_start m1" b buffer ?s ?f] b0 b1 ab lens l eq by simp
    then show ?thesis by simp
  next
    assume t: "mv_target_start m1 = a' \<and> mv_target_end m1 = mv_target_start m0 \<and> mv_target_end m0 = b'"
    then have "result = take (nat a) buffer @ ?f @ ?s @ drop (nat b) buffer"
      unfolding res
      using splice_twice(2) [of a "mv_target_start m0" b buffer ?f ?s] b0 b1 ab lens l eq by simp
    then show ?thesis by simp
  qed
  then show ?thesis
    using that win cp so b0(8) b1(8) ab eq lens d by simp
qed

lemma exec_window_pair:
  assumes "complete_encoding supported_ia32_instruction_length x"
    "complete_encoding supported_ia32_instruction_length y"
  shows "exec_window fl (x @ y) s = Inr (exec_commutable fl y (exec_commutable fl x s))"
  using instructions_concat [of "[x, y]"] assms by (simp add: exec_window_def)

text \<open>
  C2.  A self-permutation the validator accepts is semantically neutral: the composed
  window runs to the same state as the window of the fresh donor, from every state, and
  every byte outside the window keeps its value.
\<close>

theorem self_permutation_sound:
  assumes "validate_instruction_self_permutation sha value body = Inr sp"
    and "apply_moves sha body buffer (moves sp) = Inr result"
    and "length buffer = length body" and "target_window sp = (a, b)"
  shows "exec_window fl (pslice result a b) s = exec_window fl (pslice body a b) s
         \<and> (\<exists>t. exec_window fl (pslice result a b) s = Inr t)
         \<and> length result = length buffer
         \<and> take (nat a) result = take (nat a) buffer \<and> drop (nat b) result = drop (nat b) buffer"
  using assms
proof (rule self_permutation_bytes)
  fix first second receipt
  assume win: "pslice body a b = first @ second"
    and cp: "require_commuting_ia32_instruction_pair first second = Inr receipt"
    and c: "complete_encoding supported_ia32_instruction_length first"
      "complete_encoding supported_ia32_instruction_length second"
    and res: "result = take (nat a) buffer @ second @ first @ drop (nat b) buffer
     \<or> result = take (nat a) buffer @ first @ second @ drop (nat b) buffer"
    and ab: "0 \<le> a" "a < b" "b \<le> len body" and lens: "len first + len second = b - a"
  have la: "nat a \<le> length buffer" "nat b = nat a + length first + length second"
    "nat (b - a) = length first + length second"
    using ab lens assms(3) by linarith+
  then have "pslice result a b = second @ first \<or> pslice result a b = first @ second"
    using res ab by (auto simp: pslice_nonneg)
  moreover have "exec_window fl (second @ first) s = exec_window fl (first @ second) s"
    using exec_window_pair c commuting_pair_exec [OF cp] by simp
  ultimately have "exec_window fl (pslice result a b) s = exec_window fl (pslice body a b) s
         \<and> (\<exists>t. exec_window fl (pslice result a b) s = Inr t)"
    using win c exec_window_pair by auto
  moreover have "length result = length buffer" "take (nat a) result = take (nat a) buffer"
    "drop (nat b) result = drop (nat b) buffer"
    using res la ab assms(3) by auto
  ultimately show ?thesis by blast
qed

text \<open>
  A concrete declaration: \<^verbatim>\<open>xor edi, edi\<close> then \<^verbatim>\<open>mov edx, [esp+20]\<close> exchanged, with a
  constant digest function.  The flag selects the targets of the two moves.
\<close>

definition example_sha :: string where
  "example_sha = replicate 64 (CHR ''a'')"

definition example_body :: bytes where
  "example_body = [0x33, 0xFF, 0x8B, 0x54, 0x24, 0x14]"

definition example_move :: "int \<Rightarrow> int \<Rightarrow> int \<Rightarrow> int \<Rightarrow> py_value" where
  "example_move ts te ds de = VDict
     [(KStr ''target_start'', VInt ts), (KStr ''target_end'', VInt te),
      (KStr ''target_sha256'', VStr example_sha), (KStr ''donor_start'', VInt ds),
      (KStr ''donor_end'', VInt de), (KStr ''donor_sha256'', VStr example_sha)]"

definition example_permutation :: "bool \<Rightarrow> py_value" where
  "example_permutation swap = VDict
     [(KStr ''kind'', VStr independent_pair_self_permutation_kind),
      (KStr ''source_start'', VInt 0), (KStr ''source_end'', VInt 6),
      (KStr ''target_start'', VInt 0), (KStr ''target_end'', VInt 6),
      (KStr ''source_instruction_lengths'', VList [VInt 2, VInt 4]),
      (KStr ''target_instruction_lengths'',
       VList (if swap then [VInt 4, VInt 2] else [VInt 2, VInt 4])),
      (KStr ''moves'', VList (if swap then [example_move 0 4 2 6, example_move 4 6 0 2]
                             else [example_move 2 6 2 6, example_move 0 2 0 2])),
      (KStr ''expected_changed_offsets'', VList [VInt 0]),
      (KStr ''expected_function_multiset_sha256'', VStr example_sha),
      (KStr ''expected_comdat_multiset_sha256'', VStr example_sha),
      (KStr ''expected_section_shape_sha256'', VStr example_sha),
      (KStr ''expected_linker_payload_count'', VInt 0),
      (KStr ''expected_linker_payload_sha256'', VStr example_sha)]"

lemma example_permutation_accepted:
  "map_sum id target_window
     (validate_instruction_self_permutation (\<lambda>_. example_sha) (example_permutation True) example_body)
   = Inr (0, 6)"
  by code_simp

lemma example_permutation_applied:
  "rbind (validate_instruction_self_permutation (\<lambda>_. example_sha) (example_permutation True) example_body)
     (\<lambda>sp. apply_moves (\<lambda>_. example_sha) example_body example_body (moves sp))
   = Inr [0x8B, 0x54, 0x24, 0x14, 0x33, 0xFF]"
  "rbind (validate_instruction_self_permutation (\<lambda>_. example_sha) (example_permutation False) example_body)
     (\<lambda>sp. apply_moves (\<lambda>_. example_sha) example_body example_body (moves sp))
   = Inr example_body"
  by code_simp+

theorem self_permutation_sound_witness:
  "exec_window id [0x8B, 0x54, 0x24, 0x14, 0x33, 0xFF]
     \<lparr>regs = (\<lambda>_. 7), eflags = 0, memory = (\<lambda>_. 1)\<rparr>
   = exec_window id example_body \<lparr>regs = (\<lambda>_. 7), eflags = 0, memory = (\<lambda>_. 1)\<rparr>"
proof -
  obtain sp where sp: "validate_instruction_self_permutation (\<lambda>_. example_sha)
      (example_permutation True) example_body = Inr sp" "target_window sp = (0, 6)"
    using example_permutation_accepted
    by (cases "validate_instruction_self_permutation (\<lambda>_. example_sha)
                 (example_permutation True) example_body") auto
  then have app: "apply_moves (\<lambda>_. example_sha) example_body example_body (moves sp)
      = Inr [0x8B, 0x54, 0x24, 0x14, 0x33, 0xFF]"
    using example_permutation_applied(1) by simp
  have sl: "pslice [0x8B, 0x54, 0x24, 0x14, 0x33, 0xFF :: byte] 0 6 = [0x8B, 0x54, 0x24, 0x14, 0x33, 0xFF]"
    "pslice example_body 0 6 = example_body"
    by code_simp+
  show ?thesis
    using self_permutation_sound [OF sp(1) app _ sp(2), of id
        "\<lparr>regs = (\<lambda>_. 7), eflags = 0, memory = (\<lambda>_. 1)\<rparr>"] sl by simp
qed

text \<open>The declaration that lists two adjacent instructions in reverse and leaves both in place.\<close>

definition identity_move :: "int \<Rightarrow> int \<Rightarrow> string \<Rightarrow> py_value" where
  "identity_move s e digest = VDict
     [(KStr ''target_start'', VInt s), (KStr ''target_end'', VInt e),
      (KStr ''target_sha256'', VStr digest), (KStr ''donor_start'', VInt s),
      (KStr ''donor_end'', VInt e), (KStr ''donor_sha256'', VStr digest)]"

definition identity_declaration :: "(bytes \<Rightarrow> string) \<Rightarrow> int \<Rightarrow> bytes \<Rightarrow> bytes \<Rightarrow> py_value" where
  "identity_declaration sha a first second =
     (let b = a + len first; c = b + len second; digest = VStr (sha first)
      in VDict
     [(KStr ''kind'', VStr independent_pair_self_permutation_kind),
      (KStr ''source_start'', VInt a), (KStr ''source_end'', VInt c),
      (KStr ''target_start'', VInt a), (KStr ''target_end'', VInt c),
      (KStr ''source_instruction_lengths'', VList [VInt (len first), VInt (len second)]),
      (KStr ''target_instruction_lengths'', VList [VInt (len first), VInt (len second)]),
      (KStr ''moves'', VList [identity_move b c (sha second), identity_move a b (sha first)]),
      (KStr ''expected_changed_offsets'', VList [VInt a]),
      (KStr ''expected_function_multiset_sha256'', digest),
      (KStr ''expected_comdat_multiset_sha256'', digest),
      (KStr ''expected_section_shape_sha256'', digest),
      (KStr ''expected_linker_payload_count'', VInt 0),
      (KStr ''expected_linker_payload_sha256'', digest)])"

lemma identity_move_accepted:
  assumes "a \<le> s" "s < e" "e \<le> c" "require_sha (VStr (sha (pslice body s e))) = Inr (sha (pslice body s e))"
    and "require_supported_complete_ia32_instruction (pslice body s e) = Inr n"
  shows "validate_move sha body (a, c) (a, c) (identity_move s e (sha (pslice body s e)))
    = Inr \<lparr>mv_target_start = s, mv_target_end = e, mv_target_sha256 = sha (pslice body s e),
        mv_donor_start = s, mv_donor_end = e, mv_donor_sha256 = sha (pslice body s e)\<rparr>"
  using assms
  by (simp add: validate_move_def identity_move_def require_dict_def exact_audit_keys_def dict_keys_def has_key_def
      move_interval_def require_exact_int_def dict_get_def Let_def)

text \<open>
  C15.  The reversal check of the validator constrains the order in which the two moves
  are listed, not their targets.  For every two adjacent commuting instructions of a body, the
  declaration that puts both back where they came from is accepted, under any digest with 64
  lower-case hexadecimal digits, and applying its moves returns the body unchanged, although the
  validator promises the exact reversal of the two.
\<close>

theorem self_permutation_accepts_identity:
  assumes body: "body = before @ first @ second @ behind"
    and pair: "require_commuting_ia32_instruction_pair first second = Inr receipt"
    and n: "require_supported_complete_ia32_instruction first = Inr n" "require_supported_complete_ia32_instruction second = Inr m"
    and digest: "\<forall>bs. require_sha (VStr (sha bs)) = Inr (sha bs)"
  shows "\<exists>sp. validate_instruction_self_permutation sha (identity_declaration sha (len before) first second) body = Inr sp
    \<and> apply_moves sha body body (moves sp) = Inr body"
proof -
  let ?a = "len before" and ?b = "len before + len first" and ?c = "len before + len first + len second"
  have l: "1 \<le> len first" "len first \<le> 15" "1 \<le> len second" "len second \<le> 15"
    using n supported_length_bounds by (fastforce simp: require_supported_complete_ia32_instruction_def)+
  have s: "pslice body ?a ?b = first" "pslice body ?b ?c = second"
    by (simp_all add: body pslice_nonneg)
  have c: "?c \<le> len body" by (simp add: body)
  have some: "first \<noteq> []" "second \<noteq> []" using l by auto
  define D where "D = (case identity_declaration sha ?a first second of VDict d \<Rightarrow> d | _ \<Rightarrow> [])"
  have D: "identity_declaration sha ?a first second = VDict D" by (simp add: D_def identity_declaration_def Let_def)
  note get = D_def identity_declaration_def Let_def dict_get_def
  define M2 where "M2 = \<lparr>mv_target_start = ?b, mv_target_end = ?c, mv_target_sha256 = sha second,
    mv_donor_start = ?b, mv_donor_end = ?c, mv_donor_sha256 = sha second\<rparr>"
  define M1 where "M1 = \<lparr>mv_target_start = ?a, mv_target_end = ?b, mv_target_sha256 = sha first,
    mv_donor_start = ?a, mv_donor_end = ?b, mv_donor_sha256 = sha first\<rparr>"
  have moves: "validate_move sha body (?a, ?c) (?a, ?c) (identity_move ?b ?c (sha second)) = Inr M2"
    "validate_move sha body (?a, ?c) (?a, ?c) (identity_move ?a ?b (sha first)) = Inr M1"
    using identity_move_accepted [of ?a ?b ?c ?c sha body m, unfolded s] identity_move_accepted [of ?a ?a ?b ?c sha body n, unfolded s]
      some digest n by (simp_all add: M1_def M2_def)
  have order: "by_donor_start [M2, M1] = [M1, M2]"
    using some by (simp add: by_donor_start_def sort_by_def M1_def M2_def)
  have sorted: "sort_by (\<lambda>x y. mv_target_start x \<le> mv_target_start y) [M2, M1] = [M1, M2]"
    "sort_by (\<lambda>x y. mv_donor_start x \<le> mv_donor_start y) [M2, M1] = [M1, M2]"
    using some by (simp_all add: sort_by_def M1_def M2_def)
  have parts: "require_partition mv_target_start mv_target_end (?a, ?c) [len first, len second] [M2, M1] = Inr ()"
    "require_partition mv_donor_start mv_donor_end (?a, ?c) [len first, len second] [M2, M1] = Inr ()"
    by (simp_all add: require_partition_def sorted) (simp_all add: M1_def M2_def)
  have windows: "self_permutation_window D ''source'' (len body) = Inr (?a, ?c)"
    "self_permutation_window D ''target'' (len body) = Inr (?a, ?c)"
    using l c by (simp_all add: self_permutation_window_def require_exact_int_def get)
  have lengths: "pair_lengths (VList [VInt (len first), VInt (len second)]) (len first + len second) = Inr [len first, len second]"
    using l by (simp add: pair_lengths_def exact_int_list_def)
  have keys: "exact_audit_keys D self_permutation_keys [] = Inr ()"
    by (simp add: exact_audit_keys_def self_permutation_keys_def dict_keys_def has_key_def D_def identity_declaration_def Let_def)
  have fields: "dict_get D ''kind'' = VStr independent_pair_self_permutation_kind"
    "dict_get D ''source_instruction_lengths'' = VList [VInt (len first), VInt (len second)]"
    "dict_get D ''target_instruction_lengths'' = VList [VInt (len first), VInt (len second)]"
    "dict_get D ''moves'' = VList [identity_move ?b ?c (sha second), identity_move ?a ?b (sha first)]"
    "dict_get D ''expected_changed_offsets'' = VList [VInt ?a]" "dict_get D ''expected_linker_payload_count'' = VInt 0"
    "dict_get D ''expected_function_multiset_sha256'' = VStr (sha first)"
    "dict_get D ''expected_comdat_multiset_sha256'' = VStr (sha first)"
    "dict_get D ''expected_section_shape_sha256'' = VStr (sha first)"
    "dict_get D ''expected_linker_payload_sha256'' = VStr (sha first)"
    by (simp_all add: get)
  have offsets: "changed_offsets (VList [VInt ?a]) (len body) = Inr [?a]"
    using l c by (simp add: changed_offsets_def exact_int_list_def)
  have kinds: "independent_pair_self_permutation_kind \<noteq> ordinary_fpo_self_permutation_kind"
    by (simp add: independent_pair_self_permutation_kind_def ordinary_fpo_self_permutation_kind_def)
  have ends: "donor_spans [M2, M1] = rev (donor_spans [M1, M2])" by (simp add: donor_spans_def)
  have raws: "pslice body (mv_donor_start M1) (mv_donor_end M1) = first" "pslice body (mv_donor_start M2) (mv_donor_end M2) = second"
    using s by (simp_all add: M1_def M2_def)
  have ne: "body \<noteq> []" using some body by simp
  have "\<exists>sp. validate_instruction_self_permutation sha (VDict D) body = Inr sp \<and> moves sp = [M2, M1]"
    using ne kinds digest pair
    by (simp add: validate_instruction_self_permutation_def require_dict_def keys fields kind_in_def windows lengths
        require_two_moves_def moves parts order ends raws Let_def offsets require_exact_int_def)
  moreover have "apply_moves sha body body [M2, M1] = Inr body"
    by (simp add: apply_moves_def apply_move_def raws Let_def) (simp add: M1_def M2_def splice_def body)
  ultimately show ?thesis unfolding D by metis
qed

theorem self_permutation_accepts_identity_witness:
  "\<exists>sp. validate_instruction_self_permutation (\<lambda>_. example_sha) (identity_declaration (\<lambda>_. example_sha) 0
       [0x33, 0xFF] [0x8B, 0x54, 0x24, 0x14]) example_body = Inr sp
    \<and> apply_moves (\<lambda>_. example_sha) example_body example_body (moves sp) = Inr example_body"
proof -
  have b: "example_body = [] @ [0x33, 0xFF] @ [0x8B, 0x54, 0x24, 0x14] @ []" by (simp add: example_body_def)
  have p: "require_commuting_ia32_instruction_pair [0x33, 0xFF] [0x8B, 0x54, 0x24, 0x14]
      = Inr (projr (require_commuting_ia32_instruction_pair [0x33, 0xFF] [0x8B, 0x54, 0x24, 0x14]))" by code_simp
  have n: "require_supported_complete_ia32_instruction [0x33, 0xFF] = Inr 2"
    "require_supported_complete_ia32_instruction [0x8B, 0x54, 0x24, 0x14] = Inr 4" by code_simp+
  have "require_sha (VStr example_sha) = Inr example_sha" by code_simp
  then show ?thesis
    using self_permutation_accepts_identity [OF b p n, of "\<lambda>_. example_sha"] by simp
qed

section \<open>Properties of accepted ranges\<close>

text \<open>
  Accepted same-offset mosaic ranges are 1 to 64 sorted, pairwise disjoint,
  non-empty ranges inside the body, each at most 64 bytes wide and each changing the
  pinned digest.
\<close>

lemma mosaic_ranges_geometry:
  assumes "validate_instruction_mosaic_ranges value body_length = Inr rs"
  shows "ranges_in_body body_length (map (\<lambda>r. (mr_start r, mr_end r)) rs)
         \<and> 1 \<le> length rs \<and> length rs \<le> 64
         \<and> (\<forall>r \<in> set rs. seed_sha256 r \<noteq> donor_sha256 r \<and> mr_end r - mr_start r \<le> 64)"
proof -
  from assms obtain items q where items: "1 \<le> len items" "len items \<le> 64"
    and fold: "rfold (mosaic_range_step body_length) (0, []) items = Inr (q, rs)"
    by (auto simp: validate_instruction_mosaic_ranges_def split: py_value.splits)
  have "length rs = length items" using rfold_mosaic_length [OF fold] by simp
  with items mosaic_loop_geometry [OF fold] show ?thesis by auto
qed

definition example_mosaic :: py_value where
  "example_mosaic = VList
     [VDict [(KStr ''kind'', VStr single_kind), (KStr ''start'', VInt 0), (KStr ''end'', VInt 2),
             (KStr ''seed_sha256'', VStr example_sha),
             (KStr ''donor_sha256'', VStr (replicate 64 (CHR ''b'')))],
      VDict [(KStr ''kind'', VStr sequence_kind), (KStr ''start'', VInt 2), (KStr ''end'', VInt 6),
             (KStr ''seed_sha256'', VStr example_sha),
             (KStr ''donor_sha256'', VStr (replicate 64 (CHR ''b''))),
             (KStr ''donor'', VStr ''donor-1''),
             (KStr ''seed_instruction_lengths'', VList [VInt 4]),
             (KStr ''donor_instruction_lengths'', VList [VInt 2, VInt 2])]]"

text \<open>
  Accepted hybrid ranges are sorted and disjoint in both artifacts at once, pair
  equal widths of at most 15 bytes, and stay inside both bodies.
\<close>

lemma hybrid_ranges_geometry:
  assumes "validate_cross_tu_instruction_hybrid_ranges value n m kind same = Inr rs"
  shows "ranges_in_body n (map (\<lambda>r. (target_start r, target_end r)) rs)
         \<and> ranges_in_body m (map (\<lambda>r. (instruction_donor_start r, instruction_donor_end r)) rs)
         \<and> (\<forall>r \<in> set rs.
              target_end r - target_start r = instruction_donor_end r - instruction_donor_start r
              \<and> target_end r - target_start r \<le> 15)"
proof -
  from assms obtain items p q where
    "rfold (hybrid_range_step n m kind same) (0, 0, []) items = Inr (p, q, rs)"
    by (auto simp: validate_cross_tu_instruction_hybrid_ranges_def split: py_value.splits)
  from hybrid_loop_geometry [OF this] show ?thesis by blast
qed

definition example_hybrid :: py_value where
  "example_hybrid = VList
     [VDict [(KStr ''kind'', VStr ''k''), (KStr ''target_start'', VInt 1),
             (KStr ''target_end'', VInt 3), (KStr ''target_sha256'', VStr example_sha),
             (KStr ''instruction_donor_start'', VInt 4), (KStr ''instruction_donor_end'', VInt 6),
             (KStr ''instruction_donor_sha256'', VStr (replicate 64 (CHR ''b'')))]]"

end
