(* ===== verification/Coff_Format.thy ===== *)
theory Coff_Format
  imports Json_Values
begin

text \<open>
  The strict i386 COFF reader of \<^verbatim>\<open>src/reprobit/coff_format.py\<close>: the object with its
  section and symbol tables, names from the string table, section-definition
  auxiliaries, relocation rows, the object-local COMDAT index, and the compatibility
  checks that admit a donor section beside a seed section.

  Sections and symbols, dictionaries in the source, are records; a section is compared
  by value where the source compares object identity.  The digest of a metadata closure
  is a parameter applied to the closure the code builds.
\<close>

section \<open>Unpacking\<close>

datatype field = U nat | S nat

fun field_width :: "field \<Rightarrow> int" where
  "field_width (U w) = int w"
| "field_width (S w) = int w"

definition calcsize :: "field list \<Rightarrow> int" where
  "calcsize fmt = sum_list (map field_width fmt)"

fun unpack_fields :: "field list \<Rightarrow> bytes \<Rightarrow> int \<Rightarrow> int list" where
  "unpack_fields [] data off = []"
| "unpack_fields (U w # fs) data off =
     from_bytes (pslice data off (off + int w)) # unpack_fields fs data (off + int w)"
| "unpack_fields (S w # fs) data off =
     from_bytes_signed (pslice data off (off + int w)) # unpack_fields fs data (off + int w)"

definition coff_unpack :: "field list \<Rightarrow> bytes \<Rightarrow> int \<Rightarrow> int list result" where
  "coff_unpack fmt data off =
     require (0 \<le> off \<and> off \<le> len data - calcsize fmt) ''is outside the COFF file''
       (Inr (unpack_fields fmt data off))"

section \<open>The object\<close>

record coff_section =
  sec_number :: int
  sec_header_offset :: int
  sec_name :: string
  sec_raw_size :: int
  sec_raw_offset :: int
  sec_relocation_offset :: int
  sec_relocation_count :: int
  sec_line_offset :: int
  sec_line_count :: int
  sec_characteristics :: int

record coff_symbol =
  sym_index :: int
  sym_name :: string
  sym_value :: int
  sym_section :: int
  sym_type :: int
  sym_storage :: int
  sym_aux_count :: int

record coff_object =
  co_data :: bytes
  co_machine :: int
  co_section_count :: int
  co_timestamp :: int
  co_symbol_offset :: int
  co_symbol_count :: int
  co_characteristics :: int
  co_string_offset :: int
  co_string_end :: int
  co_sections :: "coff_section list"
  co_symbols :: "(int \<times> coff_symbol) list"

text \<open>\<^verbatim>\<open>_string\<close>: a NUL-terminated ASCII name of the string table.\<close>

definition coff_string :: "bytes \<Rightarrow> int \<Rightarrow> int \<Rightarrow> int \<Rightarrow> string result" where
  "coff_string data string_offset string_end relative =
     require (4 \<le> relative \<and> relative < string_end - string_offset) ''string offset is invalid''
      (let absolute = string_offset + relative; stop = bytes_find data 0 absolute string_end
       in require (stop \<ge> 0) ''is not NUL-terminated'' (ascii_decode (pslice data absolute stop)))"

definition coff_section_name :: "bytes \<Rightarrow> int \<Rightarrow> int \<Rightarrow> bytes \<Rightarrow> string result" where
  "coff_section_name data string_offset string_end raw =
     (if starts_with raw [0x2F]
      then let digits = rstrip_nul (drop 1 raw)
           in require (bytes_isdigit digits) ''long COFF section name is invalid''
                (coff_string data string_offset string_end (int_of_digits digits))
      else ascii_decode (rstrip_nul raw))"

definition coff_symbol_name :: "bytes \<Rightarrow> int \<Rightarrow> int \<Rightarrow> bytes \<Rightarrow> string result" where
  "coff_symbol_name data string_offset string_end raw =
     (if pslice raw 0 4 = [0, 0, 0, 0]
      then rbind (coff_unpack [U 4] raw 4) (\<lambda>v.
             coff_string data string_offset string_end (v ! 0))
      else ascii_decode (rstrip_nul raw))"

text \<open>The checks on one section header: raw data, relocation table, line table.\<close>

definition section_header_ok :: "int \<Rightarrow> int \<Rightarrow> int list \<Rightarrow> unit result" where
  "section_header_ok file_size table_end v =
     (let raw_size = v ! 2; raw_offset = v ! 3; relocation_offset = v ! 4; line_offset = v ! 5;
          relocation_count = v ! 6; line_count = v ! 7; characteristics = v ! 8
      in rbind
          (if raw_size \<noteq> 0 \<and> characteristics AND 0x80 = 0
           then require (raw_offset \<ge> table_end \<and> raw_offset \<le> file_size - raw_size)
                  ''raw data is invalid'' (Inr ())
           else if raw_size \<noteq> 0
           then require (raw_offset = 0) ''uninitialized raw pointer is invalid'' (Inr ())
           else require (raw_offset = 0 \<or> raw_offset \<ge> table_end)
                  ''empty raw pointer is invalid'' (Inr ())) (\<lambda>_.
         rbind
          (if relocation_count \<noteq> 0
           then require (relocation_offset \<ge> table_end
                         \<and> relocation_offset \<le> file_size - relocation_count * 10)
                  ''relocation table is invalid'' (Inr ())
           else Inr ()) (\<lambda>_.
          if line_count \<noteq> 0
          then require (line_offset \<ge> table_end \<and> line_offset \<le> file_size - line_count * 6)
                 ''line table is invalid'' (Inr ())
          else Inr ())))"

definition parse_section :: "bytes \<Rightarrow> int \<Rightarrow> int \<Rightarrow> int \<Rightarrow> int \<Rightarrow> coff_section result" where
  "parse_section data string_offset string_end table_end index =
     (let header_offset = 20 + index * 40
      in rbind (coff_section_name data string_offset string_end
                  (pslice data header_offset (header_offset + 8))) (\<lambda>name.
         rbind (coff_unpack [U 4, U 4, U 4, U 4, U 4, U 4, U 2, U 2, U 4] data
                  (header_offset + 8)) (\<lambda>v.
         rbind (section_header_ok (len data) table_end v) (\<lambda>_.
           Inr \<lparr>sec_number = index + 1, sec_header_offset = header_offset, sec_name = name,
                sec_raw_size = v ! 2, sec_raw_offset = v ! 3, sec_relocation_offset = v ! 4,
                sec_relocation_count = v ! 6, sec_line_offset = v ! 5, sec_line_count = v ! 7,
                sec_characteristics = v ! 8\<rparr>))))"

lemma unpack_U_nonneg:
  "0 \<le> unpack_fields (map U ws) data off ! i" if "i < length ws"
  using that by (induction ws arbitrary: off i) (auto simp: nth_Cons split: nat.splits)

definition symbol_fields :: "field list" where
  "symbol_fields = [U 4, S 2, U 2, U 1, U 1]"

lemma symbol_aux_nonneg: "coff_unpack symbol_fields data off = Inr v \<Longrightarrow> 0 \<le> v ! 4"
  by (auto simp: coff_unpack_def symbol_fields_def)

text \<open>The symbol loop: each record skips its own auxiliary records.\<close>

function parse_symbols ::
    "bytes \<Rightarrow> int \<Rightarrow> int \<Rightarrow> int \<Rightarrow> int \<Rightarrow> int \<Rightarrow> (int \<times> coff_symbol) list result" where
  "parse_symbols data string_offset string_end symbol_offset symbol_count symbol_index =
     (if symbol_index < symbol_count
      then let off = symbol_offset + symbol_index * 18
           in rbind (coff_symbol_name data string_offset string_end (pslice data off (off + 8))) (\<lambda>name.
              rbind (coff_unpack symbol_fields data (off + 8)) (\<lambda>v.
              require (symbol_index + v ! 4 < symbol_count) ''auxiliary records are truncated'' (
              rbind (parse_symbols data string_offset string_end symbol_offset symbol_count
                       (symbol_index + 1 + v ! 4)) (\<lambda>rest.
                Inr ((symbol_index,
                      \<lparr>sym_index = symbol_index, sym_name = name, sym_value = v ! 0,
                       sym_section = v ! 1, sym_type = v ! 2, sym_storage = v ! 3,
                       sym_aux_count = v ! 4\<rparr>) # rest)))))
      else Inr [])"
  by pat_completeness auto
termination
  by (relation "measure (\<lambda>(_, _, _, _, count, index). nat (count - index))")
     (auto dest: symbol_aux_nonneg)

declare parse_symbols.simps [simp del]

text \<open>\<^verbatim>\<open>CoffObject.__init__\<close>.\<close>

definition coff_parse :: "bytes \<Rightarrow> coff_object result" where
  "coff_parse data =
     require (len data \<ge> 20) ''COFF header is truncated'' (
     rbind (coff_unpack [U 2, U 2, U 4, U 4, U 4, U 2, U 2] data 0) (\<lambda>h.
     let machine = h ! 0; section_count = h ! 1; timestamp = h ! 2; symbol_offset = h ! 3;
         symbol_count = h ! 4; optional_size = h ! 5; characteristics = h ! 6
     in
     require (machine = 0x14C) ''only i386 COFF objects are supported'' (
     require (optional_size = 0) ''COFF optional headers are unsupported'' (
     require (0 < section_count \<and> section_count < 65536) ''COFF section count is invalid'' (
     require (symbol_count > 0) ''COFF object has no symbol table'' (
     let string_offset = symbol_offset + symbol_count * 18 in
     rbind (coff_unpack [U 4] data string_offset) (\<lambda>sz.
     let string_size = sz ! 0 in
     require (string_size \<ge> 4 \<and> string_offset \<le> len data - string_size)
       ''COFF string table is invalid'' (
     let string_end = string_offset + string_size in
     require (string_end = len data) ''bytes after the COFF string table are unsupported'' (
     let table_end = 20 + section_count * 40 in
     require (table_end \<le> len data) ''COFF section table is truncated'' (
     rbind (rmap (parse_section data string_offset string_end table_end)
              (pyrange 0 section_count)) (\<lambda>sections.
     require (symbol_offset \<ge> table_end \<and> symbol_offset \<le> len data - symbol_count * 18)
       ''COFF symbol table is invalid'' (
     rbind (parse_symbols data string_offset string_end symbol_offset symbol_count 0) (\<lambda>symbols.
       Inr \<lparr>co_data = data, co_machine = machine, co_section_count = section_count,
            co_timestamp = timestamp, co_symbol_offset = symbol_offset,
            co_symbol_count = symbol_count, co_characteristics = characteristics,
            co_string_offset = string_offset, co_string_end = string_end,
            co_sections = sections, co_symbols = symbols\<rparr>)))))))))))))"

text \<open>\<^verbatim>\<open>function_section\<close>: the COMDAT text section of the one definition of a function.\<close>

definition function_section :: "coff_object \<Rightarrow> string \<Rightarrow> coff_section result" where
  "function_section coff mangled =
     (let matches = filter (\<lambda>s. sym_name s = mangled \<and> sym_section s > 0 \<and> sym_value s = 0
                              \<and> sym_type s = 0x20 \<and> sym_storage s \<in> {2, 3})
                      (map snd (co_symbols coff))
      in require (length matches = 1) ''expected one definition''
          (rbind (item (co_sections coff) (sym_section (matches ! 0) - 1)) (\<lambda>section.
            require (starts_with (sec_name section) ''.text'') ''is not text''
             (require (sec_characteristics section AND 0x1000 \<noteq> 0) ''is not COMDAT''
               (Inr section)))))"

definition coff_body :: "coff_object \<Rightarrow> coff_section \<Rightarrow> bytes" where
  "coff_body coff section =
     (if sec_raw_size section = 0 \<or> sec_characteristics section AND 0x80 \<noteq> 0 then []
      else pslice (co_data coff) (sec_raw_offset section)
             (sec_raw_offset section + sec_raw_size section))"

definition coff_table :: "coff_object \<Rightarrow> coff_section \<Rightarrow> string \<Rightarrow> bytes result" where
  "coff_table coff section kind =
     (let read = (\<lambda>start size. if size \<noteq> 0 then pslice (co_data coff) start (start + size) else [])
      in if kind = ''relocations''
         then Inr (read (sec_relocation_offset section) (sec_relocation_count section * 10))
         else if kind = ''lines''
         then Inr (read (sec_line_offset section) (sec_line_count section * 6))
         else Inl (ByteIdentityError ''unknown COFF table kind''))"

definition coff_auxiliary :: "coff_object \<Rightarrow> int \<Rightarrow> coff_symbol \<Rightarrow> bytes result" where
  "coff_auxiliary coff symbol_index symbol =
     require (sym_aux_count symbol \<ge> 1) ''has no auxiliary''
      (let off = co_symbol_offset coff + (symbol_index + 1) * 18
       in Inr (pslice (co_data coff) off (off + 18)))"

section \<open>Section definitions and relocations\<close>

record section_definition =
  sd_symbol_index :: int
  sd_raw :: bytes
  sd_length :: int
  sd_relocations :: int
  sd_lines :: int
  sd_checksum :: int
  sd_associated :: int
  sd_selection :: int

definition definition_of_auxiliary :: "int \<Rightarrow> bytes \<Rightarrow> section_definition result" where
  "definition_of_auxiliary index aux =
     rbind (byte_at aux 14) (\<lambda>selection.
       Inr \<lparr>sd_symbol_index = index, sd_raw = aux, sd_length = from_bytes (pslice aux 0 4),
            sd_relocations = from_bytes (pslice aux 4 6), sd_lines = from_bytes (pslice aux 6 8),
            sd_checksum = from_bytes (pslice aux 8 12),
            sd_associated = from_bytes (pslice aux 12 14)
                            OR push_bit 16 (from_bytes (pslice aux 16 18)),
            sd_selection = selection\<rparr>)"

definition section_definitions :: "coff_object \<Rightarrow> (int \<times> section_definition) list result" where
  "section_definitions coff =
     rfold (\<lambda>result (index, symbol).
        if \<not> (0 < sym_section symbol \<and> sym_section symbol \<le> len (co_sections coff)
              \<and> sym_storage symbol = 3 \<and> sym_aux_count symbol \<ge> 1)
        then Inr result
        else rbind (item (co_sections coff) (sym_section symbol - 1)) (\<lambda>section.
               if sym_name symbol \<noteq> sec_name section then Inr result
               else rbind (coff_auxiliary coff index symbol) (\<lambda>aux.
                    rbind (definition_of_auxiliary index aux) (\<lambda>d.
                      Inr (dict_set result (sec_number section) d)))))
       [] (co_symbols coff)"

record relocation =
  rel_ordinal :: int
  rel_offset :: int
  rel_symbol_index :: int
  rel_type :: int
  rel_width :: int
  rel_addend :: int
  rel_target :: string
  rel_target_section :: int
  rel_target_value :: int
  rel_target_type :: int
  rel_target_storage :: int

definition relocation_widths :: "int \<Rightarrow> int option" where
  "relocation_widths t = map_of [(6, 4), (7, 4), (10, 2), (11, 4), (20, 4)] t"

definition relocation_row :: "coff_object \<Rightarrow> coff_section \<Rightarrow> int \<Rightarrow> relocation result" where
  "relocation_row coff section ordinal =
     rbind (coff_unpack [U 4, U 4, U 2] (co_data coff)
              (sec_relocation_offset section + ordinal * 10)) (\<lambda>v.
     case map_of (co_symbols coff) (v ! 1) of
       None \<Rightarrow> Inl (ByteIdentityError ''references auxiliary data'')
     | Some target \<Rightarrow>
        (case relocation_widths (v ! 2) of
           None \<Rightarrow> Inl (ByteIdentityError ''unsupported i386 relocation'')
         | Some width \<Rightarrow>
             require (v ! 0 \<le> sec_raw_size section - width) ''escapes raw data''
              (let operand = sec_raw_offset section + v ! 0
               in Inr \<lparr>rel_ordinal = ordinal, rel_offset = v ! 0, rel_symbol_index = v ! 1,
                       rel_type = v ! 2, rel_width = width,
                       rel_addend = from_bytes (pslice (co_data coff) operand (operand + width)),
                       rel_target = sym_name target, rel_target_section = sym_section target,
                       rel_target_value = sym_value target, rel_target_type = sym_type target,
                       rel_target_storage = sym_storage target\<rparr>)))"

definition detailed_relocations :: "coff_object \<Rightarrow> coff_section \<Rightarrow> relocation list result" where
  "detailed_relocations coff section =
     rmap (relocation_row coff section) (pyrange 0 (sec_relocation_count section))"

section \<open>The object-local index\<close>

record coff_index =
  ix_coff :: coff_object
  ix_definitions :: "(int \<times> section_definition) list"
  ix_associated :: "(int \<times> (string \<times> coff_section) list) list"

definition associated_step ::
    "(int \<times> section_definition) list \<Rightarrow> (int \<times> (string \<times> coff_section) list) list
     \<Rightarrow> coff_section \<Rightarrow> (int \<times> (string \<times> coff_section) list) list result" where
  "associated_step definitions associated section =
     (case map_of definitions (sec_number section) of
        None \<Rightarrow> Inr associated
      | Some d \<Rightarrow>
          if sd_selection d \<noteq> 5 then Inr associated
          else let by_name = (case map_of associated (sd_associated d) of None \<Rightarrow> [] | Some b \<Rightarrow> b)
               in require (sec_name section \<notin> fst ` set by_name)
                    ''duplicate associated COMDAT section''
                    (Inr (dict_set associated (sd_associated d)
                            (by_name @ [(sec_name section, section)]))))"

text \<open>\<^verbatim>\<open>CoffMetadataIndex.__init__\<close>; the relocation cache holds only computed results.\<close>

definition metadata_index :: "coff_object \<Rightarrow> coff_index result" where
  "metadata_index coff =
     rbind (section_definitions coff) (\<lambda>definitions.
     rbind (rfold (associated_step definitions) [] (co_sections coff)) (\<lambda>associated.
       Inr \<lparr>ix_coff = coff, ix_definitions = definitions,
            ix_associated = map (\<lambda>(primary, children).
               (primary, sort_by (\<lambda>a b. str_less_eq (fst a) (fst b)) children)) associated\<rparr>))"

definition index_require_section :: "coff_index \<Rightarrow> coff_section \<Rightarrow> int result" where
  "index_require_section ix section =
     (let number = sec_number section; secs = co_sections (ix_coff ix)
      in require (0 < number \<and> number \<le> len secs \<and> secs ! nat (number - 1) = section)
           ''COFF metadata index received a section from another object'' (Inr number))"

definition index_associated :: "coff_index \<Rightarrow> coff_section \<Rightarrow> (string \<times> coff_section) list result" where
  "index_associated ix primary =
     rbind (index_require_section ix primary) (\<lambda>number.
       Inr (case map_of (ix_associated ix) number of None \<Rightarrow> [] | Some children \<Rightarrow> children))"

definition index_relocations :: "coff_index \<Rightarrow> coff_section \<Rightarrow> relocation list result" where
  "index_relocations ix section =
     rbind (index_require_section ix section) (\<lambda>_. detailed_relocations (ix_coff ix) section)"

text \<open>The consumers take an optional index, which must belong to the object.\<close>

definition associated_names ::
    "coff_object \<Rightarrow> coff_section \<Rightarrow> coff_index option \<Rightarrow> string list result" where
  "associated_names coff section index =
     (case index of
        Some ix \<Rightarrow> require (ix_coff ix = coff) ''COFF metadata index belongs to another object''
                    (rbind (index_associated ix section) (\<lambda>children. Inr (map fst children)))
      | None \<Rightarrow>
          rbind (section_definitions coff) (\<lambda>definitions.
            Inr (sort_by str_less_eq
                  (map sec_name (filter (\<lambda>s. case map_of definitions (sec_number s) of
                       None \<Rightarrow> False
                     | Some d \<Rightarrow> sd_selection d = 5 \<and> sd_associated d = sec_number section)
                   (co_sections coff))))))"

definition definitions_of ::
    "coff_object \<Rightarrow> coff_index option \<Rightarrow> (int \<times> section_definition) list result" where
  "definitions_of coff index =
     (case index of Some ix \<Rightarrow> Inr (ix_definitions ix) | None \<Rightarrow> section_definitions coff)"

type_synonym comdat_id = "string \<times> int \<times> int \<times> string \<times> int \<times> string list"

definition comdat_identity ::
    "coff_object \<Rightarrow> coff_section \<Rightarrow> coff_index option \<Rightarrow> comdat_id result" where
  "comdat_identity coff section index =
     require (case index of Some ix \<Rightarrow> ix_coff ix = coff | None \<Rightarrow> True)
       ''COFF metadata index belongs to another object''
      (rbind (definitions_of coff index) (\<lambda>definitions.
        case map_of definitions (sec_number section) of
          None \<Rightarrow> Inl (ByteIdentityError ''is not a primary COMDAT'')
        | Some d \<Rightarrow>
            require (sd_selection d \<notin> {0, 5}) ''is not a primary COMDAT''
             (let owners = filter (\<lambda>s. sym_section s = sec_number section \<and> sym_value s = 0
                             \<and> sym_name s \<noteq> sec_name section \<and> sym_storage s \<in> {2, 3})
                             (map snd (co_symbols coff));
                  external = filter (\<lambda>s. sym_storage s = 2) owners;
                  owners = (if external \<noteq> [] then external else owners)
              in require (length owners = 1) ''has no unique owner''
                  (rbind (associated_names coff section index) (\<lambda>names.
                    Inr (sym_name (owners ! 0), sym_type (owners ! 0), sym_storage (owners ! 0),
                         sec_name section, sd_selection d, names))))))"

section \<open>Compatibility of a seed and a donor section\<close>

definition relocations_of ::
    "coff_object \<Rightarrow> coff_section \<Rightarrow> coff_index option \<Rightarrow> relocation list result" where
  "relocations_of coff section index =
     (case index of Some ix \<Rightarrow> index_relocations ix section
                  | None \<Rightarrow> detailed_relocations coff section)"

definition compatible_row ::
    "coff_object \<Rightarrow> coff_object \<Rightarrow> coff_index option \<Rightarrow> coff_index option
     \<Rightarrow> relocation \<times> relocation \<Rightarrow> unit result" where
  "compatible_row seed donor seed_index donor_index rows =
     (case rows of (s, d) \<Rightarrow>
      require (rel_offset s = rel_offset d \<and> rel_type s = rel_type d \<and> rel_width s = rel_width d
               \<and> rel_addend s = rel_addend d) ''geometry differs'' (
      let same_name = (rel_target s = rel_target d);
          seed_kind = local_symbol_kind (rel_target s);
          donor_kind = local_symbol_kind (rel_target d)
      in
      require (same_name \<or> (seed_kind \<noteq> None \<and> seed_kind = donor_kind))
        ''changes symbol identity'' (
      require (rel_target_value s = rel_target_value d \<and> rel_target_type s = rel_target_type d
               \<and> rel_target_storage s = rel_target_storage d) ''target structure differs'' (
      if rel_target_section s = rel_target_section d then Inr ()
      else
        require (same_name \<and> seed_kind = None \<and> rel_target_section s > 0
                 \<and> rel_target_section d > 0) ''changes target seat'' (
        rbind (item (co_sections seed) (rel_target_section s - 1)) (\<lambda>seed_target.
        rbind (item (co_sections donor) (rel_target_section d - 1)) (\<lambda>donor_target.
        rbind (comdat_identity seed seed_target seed_index) (\<lambda>a.
        rbind (comdat_identity donor donor_target donor_index) (\<lambda>b.
          require (a = b) ''reseats a different COMDAT'' (Inr ()))))))))))"

definition require_mosaic_relocation_compatibility ::
    "coff_object \<Rightarrow> coff_section \<Rightarrow> coff_object \<Rightarrow> coff_section
     \<Rightarrow> coff_index option \<Rightarrow> coff_index option \<Rightarrow> unit result" where
  "require_mosaic_relocation_compatibility seed seed_section donor donor_section
       seed_index donor_index =
     require (case seed_index of Some ix \<Rightarrow> ix_coff ix = seed | None \<Rightarrow> True)
       ''seed COFF metadata index differs'' (
     require (case donor_index of Some ix \<Rightarrow> ix_coff ix = donor | None \<Rightarrow> True)
       ''donor COFF metadata index differs'' (
     rbind (relocations_of seed seed_section seed_index) (\<lambda>left.
     rbind (relocations_of donor donor_section donor_index) (\<lambda>right.
     require (length left = length right) ''relocation counts differ'' (
     rbind (rmap (compatible_row seed donor seed_index donor_index) (zip left right)) (\<lambda>_.
       Inr ()))))))"

definition child_step ::
    "(int \<times> section_definition) list \<Rightarrow> int \<Rightarrow> (string \<times> coff_section) list \<Rightarrow> coff_section
     \<Rightarrow> (string \<times> coff_section) list result" where
  "child_step definitions primary_number result section =
     (case map_of definitions (sec_number section) of
        None \<Rightarrow> Inr result
      | Some d \<Rightarrow>
          if sd_selection d \<noteq> 5 \<or> sd_associated d \<noteq> primary_number then Inr result
          else require (sec_name section \<notin> fst ` set result)
                 ''duplicate associated COMDAT section''
                 (Inr (result @ [(sec_name section, section)])))"

definition associated_sections ::
    "coff_object \<Rightarrow> coff_section \<Rightarrow> coff_index option \<Rightarrow> (string \<times> coff_section) list result" where
  "associated_sections coff primary index =
     (case index of
        Some ix \<Rightarrow> require (ix_coff ix = coff) ''COFF metadata index belongs to another object''
                     (index_associated ix primary)
      | None \<Rightarrow>
          rbind (section_definitions coff) (\<lambda>definitions.
            rfold (child_step definitions (sec_number primary)) [] (co_sections coff)))"

text \<open>Relocation operands are zeroed; a slice assignment of the same width.\<close>

definition blank_relocation :: "bytes \<Rightarrow> relocation \<Rightarrow> bytes" where
  "blank_relocation body r =
     take (nat (rel_offset r)) body @ replicate (nat (rel_width r)) 0
       @ drop (nat (rel_offset r + rel_width r)) body"

definition normalized_section_body ::
    "coff_object \<Rightarrow> coff_section \<Rightarrow> coff_index option \<Rightarrow> bytes result" where
  "normalized_section_body coff section index =
     rbind (relocations_of coff section index) (\<lambda>rows.
       Inr (foldl blank_relocation (coff_body coff section) rows))"

definition compatible_child ::
    "coff_object \<Rightarrow> coff_object \<Rightarrow> coff_index option \<Rightarrow> coff_index option
     \<Rightarrow> (int \<times> section_definition) list \<Rightarrow> (int \<times> section_definition) list
     \<Rightarrow> coff_section \<Rightarrow> coff_section \<Rightarrow> unit result" where
  "compatible_child left right left_index right_index left_definitions right_definitions l r =
     rbind (dict_item left_definitions (sec_number l)) (\<lambda>ld.
     rbind (dict_item right_definitions (sec_number r)) (\<lambda>rd.
     require (sec_raw_size l = sec_raw_size r \<and> sec_relocation_count l = sec_relocation_count r
              \<and> sec_line_count l = sec_line_count r
              \<and> sec_characteristics l = sec_characteristics r) ''geometry differs'' (
     require (sd_length ld = sd_length rd \<and> sd_relocations ld = sd_relocations rd
              \<and> sd_lines ld = sd_lines rd \<and> sd_checksum ld = sd_checksum rd
              \<and> sd_selection ld = sd_selection rd) ''definition differs'' (
     rbind (normalized_section_body left l left_index) (\<lambda>lb.
     rbind (normalized_section_body right r right_index) (\<lambda>rb.
     require (lb = rb) ''content differs'' (
     rbind (coff_table left l ''lines'') (\<lambda>ll.
     rbind (coff_table right r ''lines'') (\<lambda>rl.
     require (ll = rl) ''line metadata differs'' (
       require_mosaic_relocation_compatibility left l right r left_index right_index))))))))))"

definition require_associated_comdat_compatibility ::
    "coff_object \<Rightarrow> coff_section \<Rightarrow> coff_object \<Rightarrow> coff_section
     \<Rightarrow> coff_index option \<Rightarrow> coff_index option \<Rightarrow> unit result" where
  "require_associated_comdat_compatibility left left_primary right right_primary
       left_index right_index =
     rbind (associated_sections left left_primary left_index) (\<lambda>left_children.
     rbind (associated_sections right right_primary right_index) (\<lambda>right_children.
     require (sort_by str_less_eq (map fst left_children)
              = sort_by str_less_eq (map fst right_children)) ''associated COMDAT names differ'' (
     rbind (definitions_of left left_index) (\<lambda>left_definitions.
     rbind (definitions_of right right_index) (\<lambda>right_definitions.
     rbind (rmap (\<lambda>name.
         rbind (dict_item left_children name) (\<lambda>l.
         rbind (dict_item right_children name) (\<lambda>r.
           compatible_child left right left_index right_index left_definitions
             right_definitions l r)))
       (sort_by str_less_eq (map fst left_children))) (\<lambda>_. Inr ()))))))"

text \<open>
  The metadata closure that is hashed.  SHA-256 and the canonical JSON encoder are
  parameters of the definition.
\<close>

record closure_child =
  cc_name :: string
  cc_section_number :: int
  cc_raw_size :: int
  cc_relocation_count :: int
  cc_line_count :: int
  cc_characteristics :: int
  cc_selection :: int
  cc_associated :: int
  cc_body :: string
  cc_relocations :: string
  cc_lines :: string

record metadata_closure =
  mc_target_lines :: string
  mc_target_relocations :: string
  mc_children :: "closure_child list"

definition coff_mosaic_metadata_digest ::
    "(bytes \<Rightarrow> string) \<Rightarrow> (metadata_closure \<Rightarrow> bytes) \<Rightarrow> coff_object \<Rightarrow> coff_section
     \<Rightarrow> coff_index option \<Rightarrow> string result" where
  "coff_mosaic_metadata_digest sha256 canonical_json coff primary index =
     rbind (definitions_of coff index) (\<lambda>definitions.
     rbind (associated_sections coff primary index) (\<lambda>associated.
     rbind (rmap (\<lambda>name.
         rbind (dict_item associated name) (\<lambda>child.
         rbind (dict_item definitions (sec_number child)) (\<lambda>d.
         rbind (coff_table coff child ''relocations'') (\<lambda>relocations.
         rbind (coff_table coff child ''lines'') (\<lambda>lines.
           Inr \<lparr>cc_name = name, cc_section_number = sec_number child,
                cc_raw_size = sec_raw_size child, cc_relocation_count = sec_relocation_count child,
                cc_line_count = sec_line_count child,
                cc_characteristics = sec_characteristics child, cc_selection = sd_selection d,
                cc_associated = sd_associated d, cc_body = sha256 (coff_body coff child),
                cc_relocations = sha256 relocations, cc_lines = sha256 lines\<rparr>)))))
       (sort_by str_less_eq (map fst associated))) (\<lambda>children.
     rbind (coff_table coff primary ''lines'') (\<lambda>target_lines.
     rbind (coff_table coff primary ''relocations'') (\<lambda>target_relocations.
       Inr (sha256 (canonical_json
         \<lparr>mc_target_lines = sha256 target_lines,
          mc_target_relocations = sha256 target_relocations, mc_children = children\<rparr>)))))))"

section \<open>The layout of a parsed object\<close>

fun symbol_chain :: "int \<Rightarrow> int \<Rightarrow> (int \<times> coff_symbol) list \<Rightarrow> bool" where
  "symbol_chain i count [] = (i = count)"
| "symbol_chain i count ((k, s) # rest) =
     (k = i \<and> sym_index s = k \<and> 0 \<le> sym_aux_count s \<and> i + sym_aux_count s < count
      \<and> symbol_chain (i + 1 + sym_aux_count s) count rest)"

definition section_inside :: "coff_object \<Rightarrow> coff_section \<Rightarrow> bool" where
  "section_inside coff s =
     (let table_end = 20 + co_section_count coff * 40; n = len (co_data coff)
      in 0 \<le> sec_raw_size s \<and> 0 \<le> sec_raw_offset s
         \<and> 0 \<le> sec_relocation_count s \<and> 0 \<le> sec_line_count s
         \<and> (sec_raw_size s \<noteq> 0 \<and> sec_characteristics s AND 0x80 = 0 \<longrightarrow>
              table_end \<le> sec_raw_offset s \<and> sec_raw_offset s + sec_raw_size s \<le> n)
         \<and> (sec_relocation_count s \<noteq> 0 \<longrightarrow>
              table_end \<le> sec_relocation_offset s
              \<and> sec_relocation_offset s + sec_relocation_count s * 10 \<le> n)
         \<and> (sec_line_count s \<noteq> 0 \<longrightarrow>
              table_end \<le> sec_line_offset s \<and> sec_line_offset s + sec_line_count s * 6 \<le> n))"

definition coff_layout :: "coff_object \<Rightarrow> bool" where
  "coff_layout coff =
     (co_string_end coff = len (co_data coff)
      \<and> co_string_offset coff = co_symbol_offset coff + co_symbol_count coff * 18
      \<and> co_string_offset coff + 4 \<le> co_string_end coff
      \<and> 20 + co_section_count coff * 40 \<le> co_symbol_offset coff
      \<and> 0 < co_symbol_count coff
      \<and> map sec_number (co_sections coff) = pyrange 1 (co_section_count coff + 1)
      \<and> list_all (section_inside coff) (co_sections coff)
      \<and> symbol_chain 0 (co_symbol_count coff) (co_symbols coff))"

section \<open>Lemmas\<close>

lemma coff_unpack_Inr [simp]:
  "coff_unpack fmt data off = Inr v \<longleftrightarrow>
     0 \<le> off \<and> off + calcsize fmt \<le> len data \<and> v = unpack_fields fmt data off"
  by (auto simp: coff_unpack_def)

lemma parse_symbols_chain:
  assumes "parse_symbols data so se off count i = Inr syms" and "i \<le> count"
  shows "symbol_chain i count syms"
  using assms
proof (induction data so se off count i arbitrary: syms rule: parse_symbols.induct)
  case (1 data so se off count i)
  show ?case
  proof (cases "i < count")
    case False
    then show ?thesis using "1.prems" by (simp add: parse_symbols.simps)
  next
    case True
    from "1.prems"(1) [unfolded parse_symbols.simps [of data so se off count i]] True
    obtain name v rest where
      name: "coff_symbol_name data so se (pslice data (off + i * 18) (off + i * 18 + 8)) = Inr name"
      and v: "coff_unpack symbol_fields data (off + i * 18 + 8) = Inr v"
      and aux: "i + v ! 4 < count"
      and rest: "parse_symbols data so se off count (i + 1 + v ! 4) = Inr rest"
      and syms: "syms = (i, \<lparr>sym_index = i, sym_name = name, sym_value = v ! 0,
                       sym_section = v ! 1, sym_type = v ! 2, sym_storage = v ! 3,
                       sym_aux_count = v ! 4\<rparr>) # rest"
      by (auto simp: Let_def simp del: coff_unpack_Inr)
    have "symbol_chain (i + 1 + v ! 4) count rest"
      using "1.IH" [OF True refl name v aux rest] aux by simp
    then show ?thesis using syms aux symbol_aux_nonneg [OF v] by simp
  qed
qed

lemma parse_section_number: "parse_section data so se te i = Inr s \<Longrightarrow> sec_number s = i + 1"
  by (auto simp: parse_section_def Let_def simp del: coff_unpack_Inr)

definition header_fields :: "field list" where
  "header_fields = [U 4, U 4, U 4, U 4, U 4, U 4, U 2, U 2, U 4]"

lemma header_nonneg:
  "coff_unpack header_fields data off = Inr v \<Longrightarrow> i < 9 \<Longrightarrow> 0 \<le> v ! i"
  using unpack_U_nonneg [of i "[4, 4, 4, 4, 4, 4, 2, 2, 4]" data off]
  by (simp add: header_fields_def)

lemma parse_section_inside:
  assumes "parse_section (co_data coff) so se (20 + co_section_count coff * 40) i = Inr s"
  shows "section_inside coff s"
proof -
  from assms obtain name v where
    v: "coff_unpack header_fields (co_data coff) (20 + i * 40 + 8) = Inr v"
    and ok: "section_header_ok (len (co_data coff)) (20 + co_section_count coff * 40) v = Inr ()"
    and s: "s = \<lparr>sec_number = i + 1, sec_header_offset = 20 + i * 40, sec_name = name,
                sec_raw_size = v ! 2, sec_raw_offset = v ! 3, sec_relocation_offset = v ! 4,
                sec_relocation_count = v ! 6, sec_line_offset = v ! 5, sec_line_count = v ! 7,
                sec_characteristics = v ! 8\<rparr>"
    by (auto simp: parse_section_def Let_def header_fields_def simp del: coff_unpack_Inr)
  have nonneg: "0 \<le> v ! 2" "0 \<le> v ! 3" "0 \<le> v ! 6" "0 \<le> v ! 7"
    using header_nonneg [OF v] by simp_all
  show ?thesis using ok nonneg unfolding s section_inside_def section_header_ok_def Let_def
    by (auto split: if_splits)
qed

lemma pyrange_shift: "map (\<lambda>i. i + 1) (pyrange 0 n) = pyrange 1 (n + 1)"
  by (rule nth_equalityI) auto

lemma coff_parse_parts:
  assumes "coff_parse data = Inr coff"
  obtains sz where
    "co_data coff = data" and "co_machine coff = 0x14C" and
    "co_string_offset coff = co_symbol_offset coff + co_symbol_count coff * 18" and
    "co_string_end coff = co_string_offset coff + sz" and "4 \<le> sz" and
    "co_string_end coff = len data" and
    "20 + co_section_count coff * 40 \<le> co_symbol_offset coff" and
    "0 < co_section_count coff" and "0 < co_symbol_count coff" and
    "rmap (parse_section data (co_string_offset coff) (co_string_end coff)
       (20 + co_section_count coff * 40)) (pyrange 0 (co_section_count coff))
     = Inr (co_sections coff)" and
    "parse_symbols data (co_string_offset coff) (co_string_end coff) (co_symbol_offset coff)
       (co_symbol_count coff) 0 = Inr (co_symbols coff)"
  using assms unfolding coff_parse_def Let_def rbind_eq_Inr require_eq_Inr sum.inject
  by (elim exE conjE, hypsubst) (rule that, simp_all only: coff_object.simps)

lemma coff_parse_data: "coff_parse data = Inr coff \<Longrightarrow> co_data coff = data"
  by (erule coff_parse_parts)

lemma parsed_layout: "coff_parse data = Inr coff \<Longrightarrow> coff_layout coff"
proof (erule coff_parse_parts)
  fix sz
  assume parts: "co_data coff = data"
    "co_string_offset coff = co_symbol_offset coff + co_symbol_count coff * 18"
    "co_string_end coff = co_string_offset coff + sz" "4 \<le> sz" "co_string_end coff = len data"
    "20 + co_section_count coff * 40 \<le> co_symbol_offset coff"
    "0 < co_section_count coff" "0 < co_symbol_count coff"
    and secs: "rmap (parse_section data (co_string_offset coff) (co_string_end coff)
       (20 + co_section_count coff * 40)) (pyrange 0 (co_section_count coff))
     = Inr (co_sections coff)"
    and syms: "parse_symbols data (co_string_offset coff) (co_string_end coff)
       (co_symbol_offset coff) (co_symbol_count coff) 0 = Inr (co_symbols coff)"
  have "map sec_number (co_sections coff) = map (\<lambda>i. i + 1) (pyrange 0 (co_section_count coff))"
    by (rule rmap_map_eq [OF secs]) (rule parse_section_number)
  moreover have "list_all (section_inside coff) (co_sections coff)"
    using rmap_in_set [OF secs] parts(1) by (auto simp: list_all_iff dest: parse_section_inside)
  moreover have "symbol_chain 0 (co_symbol_count coff) (co_symbols coff)"
    using parse_symbols_chain [OF syms] parts(8) by simp
  ultimately show ?thesis using parts by (simp add: coff_layout_def pyrange_shift)
qed

lemma symbol_chain_keys: "symbol_chain i n syms \<Longrightarrow> (k, s) \<in> set syms \<Longrightarrow> i \<le> k \<and> k < n"
  by (induction i n syms rule: symbol_chain.induct) fastforce+

lemma symbol_chain_distinct: "symbol_chain i n syms \<Longrightarrow> distinct (map fst syms)"
proof (induction i n syms rule: symbol_chain.induct)
  case (2 i n k s rest)
  then have "symbol_chain (i + 1 + sym_aux_count s) n rest" "k = i" "0 \<le> sym_aux_count s" by auto
  then have "k \<notin> fst ` set rest" using symbol_chain_keys by force
  then show ?case using 2 by simp
qed simp

lemma symbol_chain_cover:
  "symbol_chain i n syms \<Longrightarrow> i \<le> k \<Longrightarrow> k < n \<Longrightarrow>
     \<exists>!p. p \<in> set syms \<and> fst p \<le> k \<and> k \<le> fst p + sym_aux_count (snd p)"
proof (induction i n syms rule: symbol_chain.induct)
  case (2 i n j s rest)
  then have chain: "symbol_chain (i + 1 + sym_aux_count s) n rest" and j: "j = i" by auto
  have later: "i + 1 + sym_aux_count s \<le> fst p" if "p \<in> set rest" for p
    using symbol_chain_keys [OF chain, of "fst p" "snd p"] that by simp
  show ?case
  proof (cases "k \<le> i + sym_aux_count s")
    case True
    then have "p \<in> set ((j, s) # rest) \<and> fst p \<le> k \<and> k \<le> fst p + sym_aux_count (snd p)
                 \<longleftrightarrow> p = (j, s)" for p
      using later [of p] j "2.prems" by auto
    then show ?thesis by auto
  next
    case False
    then have "\<exists>!p. p \<in> set rest \<and> fst p \<le> k \<and> k \<le> fst p + sym_aux_count (snd p)"
      using "2.IH" chain "2.prems" by simp
    moreover have "p \<in> set ((j, s) # rest) \<and> fst p \<le> k \<and> k \<le> fst p + sym_aux_count (snd p)
                 \<longleftrightarrow> p \<in> set rest \<and> fst p \<le> k \<and> k \<le> fst p + sym_aux_count (snd p)" for p
      using False j by auto
    ultimately show ?thesis by simp
  qed
qed simp

lemma parsed_section_inside:
  "coff_parse data = Inr coff \<Longrightarrow> s \<in> set (co_sections coff) \<Longrightarrow> section_inside coff s"
  by (drule parsed_layout) (simp add: coff_layout_def list_all_iff)

lemma coff_body_length:
  assumes "section_inside coff s"
  shows "len (coff_body coff s) = (if sec_characteristics s AND 0x80 = 0 then sec_raw_size s else 0)"
  using assms by (auto simp: coff_body_def section_inside_def Let_def slice_facts)

lemma relocation_widths_bounds:
  "relocation_widths t = Some w \<Longrightarrow> 0 < w \<and> w \<le> 4"
  by (auto simp: relocation_widths_def split: if_splits)

definition row_sound :: "coff_object \<Rightarrow> coff_section \<Rightarrow> relocation \<Rightarrow> bool" where
  "row_sound coff s r =
     (0 \<le> rel_offset r \<and> relocation_widths (rel_type r) = Some (rel_width r)
      \<and> rel_offset r + rel_width r \<le> sec_raw_size s
      \<and> (\<exists>t. map_of (co_symbols coff) (rel_symbol_index r) = Some t
            \<and> rel_target r = sym_name t \<and> rel_target_section r = sym_section t
            \<and> rel_target_value r = sym_value t \<and> rel_target_type r = sym_type t
            \<and> rel_target_storage r = sym_storage t))"

lemma relocation_row_sound:
  assumes "relocation_row coff s i = Inr r"
  shows "row_sound coff s r \<and> rel_ordinal r = i
    \<and> rel_addend r = from_bytes (pslice (co_data coff) (sec_raw_offset s + rel_offset r)
                       (sec_raw_offset s + rel_offset r + rel_width r))"
proof -
  define v where "v = unpack_fields [U 4, U 4, U 2] (co_data coff) (sec_relocation_offset s + i * 10)"
  have "0 \<le> v ! 0" by (simp add: v_def)
  then show ?thesis
    using assms unfolding relocation_row_def row_sound_def rbind_eq_Inr coff_unpack_Inr
    by (auto simp: Let_def v_def [symmetric] split: option.splits)
qed

lemma detailed_relocations_rows:
  assumes "detailed_relocations coff s = Inr rows" and "r \<in> set rows"
  shows "row_sound coff s r"
  using rmap_in_set [OF assms [unfolded detailed_relocations_def]] relocation_row_sound by blast

section \<open>Blanking the relocation operands\<close>

lemma length_blank [simp]:
  "0 \<le> rel_offset r \<Longrightarrow> 0 \<le> rel_width r \<Longrightarrow> rel_offset r + rel_width r \<le> len body \<Longrightarrow>
     length (blank_relocation body r) = length body"
  by (simp add: blank_relocation_def min_def) linarith

lemma nth_blank:
  assumes "0 \<le> rel_offset r" "0 \<le> rel_width r" "rel_offset r + rel_width r \<le> len body"
    and "k < length body"
  shows "blank_relocation body r ! k =
           (if rel_offset r \<le> int k \<and> int k < rel_offset r + rel_width r then 0 else body ! k)"
proof -
  obtain a w where aw: "rel_offset r = int a" "rel_width r = int w"
    using assms(1,2) by (metis nonneg_int_cases)
  then have "a + w \<le> length body" using assms(3) by simp
  then show ?thesis using assms(4)
    by (auto simp: blank_relocation_def aw nth_append min_def nat_int_add)
qed

lemma foldl_blank:
  assumes "\<And>r. r \<in> set rows \<Longrightarrow>
      0 \<le> rel_offset r \<and> 0 \<le> rel_width r \<and> rel_offset r + rel_width r \<le> len body"
  shows "length (foldl blank_relocation body rows) = length body \<and>
    (\<forall>k < length body. foldl blank_relocation body rows ! k =
       (if \<exists>r \<in> set rows. rel_offset r \<le> int k \<and> int k < rel_offset r + rel_width r
        then 0 else body ! k))"
  using assms
proof (induction rows arbitrary: body)
  case Nil
  then show ?case by simp
next
  case (Cons r rows)
  have r: "0 \<le> rel_offset r" "0 \<le> rel_width r" "rel_offset r + rel_width r \<le> len body"
    using Cons.prems [of r] by auto
  have "length (foldl blank_relocation (blank_relocation body r) rows) = length body \<and>
    (\<forall>k < length body. foldl blank_relocation (blank_relocation body r) rows ! k =
       (if \<exists>r \<in> set rows. rel_offset r \<le> int k \<and> int k < rel_offset r + rel_width r
        then 0 else blank_relocation body r ! k))"
    using Cons.IH [of "blank_relocation body r"] Cons.prems r by simp
  then show ?case using nth_blank [OF r] by auto
qed

section \<open>A sample object\<close>

text \<open>
  A 230-byte object: a COMDAT \<^verbatim>\<open>.text\<close> with one call relocation, and an associated
  \<^verbatim>\<open>.debug$F\<close>.
\<close>

definition sample_coff :: bytes where
  "sample_coff =
     [76, 1, 2, 0, 0, 0, 0, 0, 118, 0, 0, 0, 6, 0, 0, 0, 0, 0,
      0, 0, 46, 116, 101, 120, 116, 0, 0, 0, 0, 0, 0, 0, 0, 0, 0, 0,
      6, 0, 0, 0, 100, 0, 0, 0, 106, 0, 0, 0, 0, 0, 0, 0, 1, 0,
      0, 0, 32, 16, 80, 96, 46, 100, 101, 98, 117, 103, 36, 70, 0, 0, 0, 0,
      0, 0, 0, 0, 2, 0, 0, 0, 116, 0, 0, 0, 0, 0, 0, 0, 0, 0,
      0, 0, 0, 0, 0, 0, 72, 16, 16, 66, 232, 0, 0, 0, 0, 195, 1, 0,
      0, 0, 5, 0, 0, 0, 20, 0, 7, 9, 46, 116, 101, 120, 116, 0, 0, 0,
      0, 0, 0, 0, 1, 0, 0, 0, 3, 1, 6, 0, 0, 0, 1, 0, 0, 0,
      0, 0, 0, 0, 0, 0, 1, 0, 0, 0, 95, 102, 0, 0, 0, 0, 0, 0,
      0, 0, 0, 0, 1, 0, 32, 0, 2, 0, 46, 100, 101, 98, 117, 103, 36, 70,
      0, 0, 0, 0, 2, 0, 0, 0, 3, 1, 2, 0, 0, 0, 0, 0, 0, 0,
      0, 0, 0, 0, 1, 0, 5, 0, 0, 0, 95, 103, 0, 0, 0, 0, 0, 0,
      0, 0, 0, 0, 0, 0, 32, 0, 2, 0, 4, 0, 0, 0]"

definition sample_text :: coff_section where
  "sample_text =
     \<lparr>sec_number = 1, sec_header_offset = 20, sec_name = ''.text'', sec_raw_size = 6,
      sec_raw_offset = 100, sec_relocation_offset = 106, sec_relocation_count = 1,
      sec_line_offset = 0, sec_line_count = 0, sec_characteristics = 0x60501020\<rparr>"

definition sample_debug :: coff_section where
  "sample_debug =
     \<lparr>sec_number = 2, sec_header_offset = 60, sec_name = ''.debug$F'', sec_raw_size = 2,
      sec_raw_offset = 116, sec_relocation_offset = 0, sec_relocation_count = 0,
      sec_line_offset = 0, sec_line_count = 0, sec_characteristics = 0x42101048\<rparr>"

definition sample_symbol :: "int \<Rightarrow> string \<Rightarrow> int \<Rightarrow> int \<Rightarrow> int \<Rightarrow> int \<Rightarrow> int \<times> coff_symbol" where
  "sample_symbol i name sect ty storage aux =
     (i, \<lparr>sym_index = i, sym_name = name, sym_value = 0, sym_section = sect, sym_type = ty,
          sym_storage = storage, sym_aux_count = aux\<rparr>)"

definition sample_object :: coff_object where
  "sample_object =
     \<lparr>co_data = sample_coff, co_machine = 0x14C, co_section_count = 2, co_timestamp = 0,
      co_symbol_offset = 118, co_symbol_count = 6, co_characteristics = 0,
      co_string_offset = 226, co_string_end = 230,
      co_sections = [sample_text, sample_debug],
      co_symbols = [sample_symbol 0 ''.text'' 1 0 3 1, sample_symbol 2 ''_f'' 1 0x20 2 0,
                    sample_symbol 3 ''.debug$F'' 2 0 3 1, sample_symbol 5 ''_g'' 0 0x20 2 0]\<rparr>"

lemma sample_parse: "coff_parse sample_coff = Inr sample_object"
  by code_simp

definition sample_row :: relocation where
  "sample_row =
     \<lparr>rel_ordinal = 0, rel_offset = 1, rel_symbol_index = 5, rel_type = 20, rel_width = 4,
      rel_addend = 0, rel_target = ''_g'', rel_target_section = 0, rel_target_value = 0,
      rel_target_type = 0x20, rel_target_storage = 2\<rparr>"

lemma sample_rows: "detailed_relocations sample_object sample_text = Inr [sample_row]"
  by code_simp

lemma sample_sections: "sample_text \<in> set (co_sections sample_object)"
  by (simp add: sample_object_def)

section \<open>Properties of the reader\<close>

text \<open>
  C16.  Every object the strict COFF reader accepts is laid out inside its own bytes:
  the section table ends before the symbol table, the string table follows the symbols
  and ends the file, sections are numbered from one in order, each raw-data, relocation
  and line table lies between the section table and the end of the file, and every
  record of the symbol table belongs to exactly one symbol, as its own record or as one
  of its auxiliaries.
\<close>

theorem coff_parse_layout:
  assumes "coff_parse data = Inr coff"
  shows "coff_layout coff \<and> co_data coff = data \<and> distinct (map fst (co_symbols coff)) \<and>
    (\<forall>k. 0 \<le> k \<and> k < co_symbol_count coff \<longrightarrow>
      (\<exists>!p. p \<in> set (co_symbols coff) \<and> fst p \<le> k \<and> k \<le> fst p + sym_aux_count (snd p)))"
proof -
  have layout: "coff_layout coff" by (rule parsed_layout [OF assms])
  then have chain: "symbol_chain 0 (co_symbol_count coff) (co_symbols coff)"
    by (simp add: coff_layout_def)
  show ?thesis
    using layout coff_parse_data [OF assms] symbol_chain_distinct [OF chain]
      symbol_chain_cover [OF chain] by blast
qed

theorem coff_parse_layout_witness:
  "coff_layout sample_object \<and>
   (\<exists>!p. p \<in> set (co_symbols sample_object) \<and> fst p \<le> 4 \<and> 4 \<le> fst p + sym_aux_count (snd p))"
proof -
  have "co_symbol_count sample_object = 6" by (simp add: sample_object_def)
  then show ?thesis using coff_parse_layout [OF sample_parse] by simp
qed

text \<open>
  C17.  The relocation rows of a section of a parsed object: one row per table entry in
  table order, each operand inside the section, each target a primary record of the
  symbol table (never an auxiliary), and, when the section holds initialized data, the
  addend is the little-endian value of the operand bytes of the section's body.
\<close>

theorem detailed_relocations_sound:
  assumes "coff_parse data = Inr coff" and "s \<in> set (co_sections coff)"
    and "detailed_relocations coff s = Inr rows"
  shows "map rel_ordinal rows = pyrange 0 (sec_relocation_count s) \<and>
    (\<forall>r \<in> set rows. row_sound coff s r) \<and>
    (sec_characteristics s AND 0x80 = 0 \<longrightarrow>
      (\<forall>r \<in> set rows. rel_addend r =
         from_bytes (pslice (coff_body coff s) (rel_offset r) (rel_offset r + rel_width r))))"
proof (intro conjI ballI impI)
  have "map rel_ordinal rows = map id (pyrange 0 (sec_relocation_count s))"
    by (rule rmap_map_eq [OF assms(3) [unfolded detailed_relocations_def]])
       (simp add: relocation_row_sound)
  then show "map rel_ordinal rows = pyrange 0 (sec_relocation_count s)" by simp
next
  fix r assume r: "r \<in> set rows"
  then show sound: "row_sound coff s r" by (rule detailed_relocations_rows [OF assms(3)])
  assume init: "sec_characteristics s AND 0x80 = 0"
  obtain i where i: "relocation_row coff s i = Inr r"
    using rmap_in_set [OF assms(3) [unfolded detailed_relocations_def] r] by blast
  have width: "0 < rel_width r" using sound relocation_widths_bounds by (auto simp: row_sound_def)
  have "coff_body coff s = pslice (co_data coff) (sec_raw_offset s) (sec_raw_offset s + sec_raw_size s)"
    and "0 \<le> sec_raw_offset s" and "sec_raw_offset s + sec_raw_size s \<le> len (co_data coff)"
    using parsed_section_inside [OF assms(1,2)] init sound width
    by (auto simp: coff_body_def section_inside_def row_sound_def Let_def)
  then show "rel_addend r =
      from_bytes (pslice (coff_body coff s) (rel_offset r) (rel_offset r + rel_width r))"
    using relocation_row_sound [OF i] sound width
    by (simp add: pslice_pslice row_sound_def add.assoc)
qed

theorem detailed_relocations_sound_witness:
  "map rel_ordinal [sample_row] = pyrange 0 (sec_relocation_count sample_text) \<and>
   row_sound sample_object sample_text sample_row \<and>
   rel_addend sample_row = from_bytes (pslice (coff_body sample_object sample_text) 1 5)"
proof -
  have "sec_characteristics sample_text AND 0x80 = 0" "rel_offset sample_row = 1"
    "rel_width sample_row = 4" by (simp_all add: sample_text_def sample_row_def)
  then show ?thesis
    using detailed_relocations_sound [OF sample_parse sample_sections sample_rows] by simp
qed

text \<open>
  Normalizing an initialized section keeps its size, zeroes exactly the bytes some
  relocation operand covers, and leaves every other byte of the body as it is.
\<close>

lemma normalized_body_exact:
  assumes "coff_parse data = Inr coff" and "s \<in> set (co_sections coff)"
    and "sec_characteristics s AND 0x80 = 0"
    and "detailed_relocations coff s = Inr rows"
  shows "\<exists>body. normalized_section_body coff s None = Inr body \<and> len body = sec_raw_size s \<and>
    (\<forall>k < length body. body ! k =
      (if \<exists>r \<in> set rows. rel_offset r \<le> int k \<and> int k < rel_offset r + rel_width r
       then 0 else coff_body coff s ! k))"
proof -
  have len: "len (coff_body coff s) = sec_raw_size s"
    using coff_body_length [OF parsed_section_inside [OF assms(1,2)]] assms(3) by simp
  have "0 \<le> rel_offset r \<and> 0 \<le> rel_width r \<and> rel_offset r + rel_width r \<le> len (coff_body coff s)"
    if "r \<in> set rows" for r
    using detailed_relocations_rows [OF assms(4) that] relocation_widths_bounds len
    by (fastforce simp: row_sound_def)
  from foldl_blank [OF this] show ?thesis
    using assms(4) len by (simp add: normalized_section_body_def relocations_of_def)
qed

end
