(* ===== verification/Coff_Index.thy ===== *)
theory Coff_Index
  imports Coff_Format
begin

text \<open>
  The COMDAT metadata index of \<^verbatim>\<open>coff_format.py\<close> against the direct scans it replaces.
  The locale states what the compatibility checks rely on when they are handed an
  optional index; it is interpreted for no index and for the index the constructor
  builds, and the checks are proved to give the same answer either way.
\<close>

definition same_children ::
    "(string \<times> coff_section) list result \<Rightarrow> (string \<times> coff_section) list result \<Rightarrow> bool" where
  "same_children a b =
     (case (a, b) of
        (Inl e, Inl f) \<Rightarrow> e = f
      | (Inr xs, Inr ys) \<Rightarrow>
          map_of xs = map_of ys \<and>
          sort_by str_less_eq (map fst xs) = sort_by str_less_eq (map fst ys) \<and>
          snd ` set ys \<subseteq> snd ` set xs \<and> snd ` set xs \<subseteq> snd ` set ys
      | _ \<Rightarrow> False)"

locale metadata_source =
  fixes admits :: "coff_object \<Rightarrow> coff_index option \<Rightarrow> bool"
  assumes source_coff: "admits coff ix \<Longrightarrow> (case ix of Some i \<Rightarrow> ix_coff i = coff | None \<Rightarrow> True)"
    and source_definitions: "admits coff ix \<Longrightarrow> definitions_of coff ix = section_definitions coff"
    and source_rows: "admits coff ix \<Longrightarrow> s \<in> set (co_sections coff) \<Longrightarrow>
          relocations_of coff s ix = detailed_relocations coff s"
    and source_names: "admits coff ix \<Longrightarrow> s \<in> set (co_sections coff) \<Longrightarrow>
          associated_names coff s ix = associated_names coff s None"
    and source_children: "admits coff ix \<Longrightarrow> s \<in> set (co_sections coff) \<Longrightarrow>
          same_children (associated_sections coff s ix) (associated_sections coff s None)"
begin

lemma comdat_identity_same:
  assumes "admits coff ix" "s \<in> set (co_sections coff)"
  shows "comdat_identity coff s ix = comdat_identity coff s None"
proof -
  have "definitions_of coff ix = definitions_of coff None"
    using source_definitions [OF assms(1)] by (simp add: definitions_of_def)
  then show ?thesis
    using source_coff [OF assms(1)] source_names [OF assms]
    by (simp only: comdat_identity_def option.case)
qed

lemma item_in_set: "item xs i = Inr x \<Longrightarrow> x \<in> set xs"
  by (auto simp: item_def Let_def split: if_splits)

lemma compatible_row_same:
  assumes "admits a i" "admits b j"
  shows "compatible_row a b i j = compatible_row a b None None"
proof -
  have "rbind (item (co_sections a) n) (\<lambda>s. rbind (item (co_sections b) m) (\<lambda>t.
          rbind (comdat_identity a s i) (\<lambda>x. rbind (comdat_identity b t j) (f x))))
      = rbind (item (co_sections a) n) (\<lambda>s. rbind (item (co_sections b) m) (\<lambda>t.
          rbind (comdat_identity a s None) (\<lambda>x. rbind (comdat_identity b t None) (f x))))"
    for n m and f :: "comdat_id \<Rightarrow> comdat_id \<Rightarrow> unit result"
    by (intro rbind_cong refl)
       (simp_all add: comdat_identity_same [OF assms(1)] comdat_identity_same [OF assms(2)]
         item_in_set)
  then show ?thesis by (intro ext) (simp only: compatible_row_def)
qed

lemma relocation_compatibility_same:
  assumes "admits a i" "admits b j" "s \<in> set (co_sections a)" "t \<in> set (co_sections b)"
  shows "require_mosaic_relocation_compatibility a s b t i j
         = require_mosaic_relocation_compatibility a s b t None None"
  using source_coff [OF assms(1)] source_coff [OF assms(2)]
    source_rows [OF assms(1,3)] source_rows [OF assms(2,4)] compatible_row_same [OF assms(1,2)]
  by (simp only: require_mosaic_relocation_compatibility_def option.case relocations_of_def
        [of _ _ None])

lemma compatible_child_same:
  assumes "admits a i" "admits b j" "s \<in> set (co_sections a)" "t \<in> set (co_sections b)"
  shows "compatible_child a b i j da db s t = compatible_child a b None None da db s t"
  using source_rows [OF assms(1,3)] source_rows [OF assms(2,4)]
    relocation_compatibility_same [OF assms]
  by (simp only: compatible_child_def normalized_section_body_def relocations_of_def [of _ _ None]
        option.case)

lemma children_are_sections:
  assumes "associated_sections coff s None = Inr children" and "(name, c) \<in> set children"
  shows "c \<in> set (co_sections coff)"
proof -
  define P where "P result \<longleftrightarrow> snd ` set result \<subseteq> set (co_sections coff)"
    for result :: "(string \<times> coff_section) list"
  from assms(1) obtain ds where
    "rfold (child_step ds (sec_number s)) [] (co_sections coff) = Inr children"
    by (auto simp: associated_sections_def)
  then have "P children"
    by (rule rfold_invariant [where P = P]) (auto simp: P_def child_step_def split: option.splits if_splits)
  then show ?thesis using assms(2) by (force simp: P_def)
qed

lemma associated_compatibility_same:
  assumes "admits a i" "admits b j" "s \<in> set (co_sections a)" "t \<in> set (co_sections b)"
  shows "require_associated_comdat_compatibility a s b t i j
         = require_associated_comdat_compatibility a s b t None None"
proof (cases "associated_sections a s None")
  case (Inl e)
  then have "associated_sections a s i = Inl e"
    using source_children [OF assms(1,3)] by (auto simp: same_children_def split: sum.splits)
  then show ?thesis using Inl by (simp add: require_associated_comdat_compatibility_def)
next
  case left: (Inr xs)
  then obtain xs' where left': "associated_sections a s i = Inr xs'"
    and l: "map_of xs' = map_of xs"
      "sort_by str_less_eq (map fst xs') = sort_by str_less_eq (map fst xs)"
    using source_children [OF assms(1,3)] by (auto simp: same_children_def split: sum.splits)
  show ?thesis
  proof (cases "associated_sections b t None")
    case (Inl e)
    then have "associated_sections b t j = Inl e"
      using source_children [OF assms(2,4)] by (auto simp: same_children_def split: sum.splits)
    then show ?thesis using Inl left left' by (simp add: require_associated_comdat_compatibility_def)
  next
    case right: (Inr ys)
    then obtain ys' where right': "associated_sections b t j = Inr ys'"
      and r: "map_of ys' = map_of ys"
        "sort_by str_less_eq (map fst ys') = sort_by str_less_eq (map fst ys)"
      using source_children [OF assms(2,4)] by (auto simp: same_children_def split: sum.splits)
    have child: "rbind (dict_item xs' name) (\<lambda>l. rbind (dict_item ys' name) (\<lambda>r.
                  compatible_child a b i j da db l r))
               = rbind (dict_item xs name) (\<lambda>l. rbind (dict_item ys name) (\<lambda>r.
                  compatible_child a b None None da db l r))" for name da db
      using children_are_sections [OF left] children_are_sections [OF right]
        compatible_child_same [OF assms(1,2)]
      by (auto simp: dict_item_def l r split: option.splits dest!: map_of_SomeD)
    have defs: "definitions_of a i = definitions_of a None" "definitions_of b j = definitions_of b None"
      using source_definitions [OF assms(1)] source_definitions [OF assms(2)]
      by (simp_all add: definitions_of_def)
    show ?thesis
      by (simp only: require_associated_comdat_compatibility_def left left' right right' rbind_Inr
            child defs l r)
  qed
qed

end

interpretation direct: metadata_source "\<lambda>coff ix. ix = None"
  by unfold_locales
     (auto simp: definitions_of_def relocations_of_def same_children_def split: sum.splits)

section \<open>The index\<close>

text \<open>The children of a primary section, as a list comprehension.\<close>

definition associated_to :: "(int \<times> section_definition) list \<Rightarrow> int \<Rightarrow> coff_section \<Rightarrow> bool" where
  "associated_to ds p s =
     (case map_of ds (sec_number s) of
        None \<Rightarrow> False | Some d \<Rightarrow> sd_selection d = 5 \<and> sd_associated d = p)"

definition children_of ::
    "(int \<times> section_definition) list \<Rightarrow> int \<Rightarrow> coff_section list \<Rightarrow> (string \<times> coff_section) list" where
  "children_of ds p secs = map (\<lambda>s. (sec_name s, s)) (filter (associated_to ds p) secs)"

definition lookup_children :: "(int \<times> 'a list) list \<Rightarrow> int \<Rightarrow> 'a list" where
  "lookup_children assoc p = (case map_of assoc p of None \<Rightarrow> [] | Some c \<Rightarrow> c)"

lemma children_of_snoc:
  "children_of ds p (secs @ [s]) =
     children_of ds p secs @ (if associated_to ds p s then [(sec_name s, s)] else [])"
  by (simp add: children_of_def)

lemma lookup_dict_set [simp]:
  "lookup_children (dict_set a k v) p = (if p = k then v else lookup_children a p)"
  by (simp add: lookup_children_def)

lemma associated_step_cases:
  assumes "associated_step ds mid s = Inr assoc"
  obtains (skip) "assoc = mid" "\<And>q. \<not> associated_to ds q s"
  | (add) k where "\<And>q. associated_to ds q s \<longleftrightarrow> q = k"
      "sec_name s \<notin> fst ` set (lookup_children mid k)"
      "assoc = dict_set mid k (lookup_children mid k @ [(sec_name s, s)])"
proof (cases "map_of ds (sec_number s)")
  case None
  then show ?thesis using assms skip by (simp add: associated_step_def associated_to_def)
next
  case (Some d)
  show ?thesis
  proof (cases "sd_selection d = 5")
    case False
    then show ?thesis using assms skip Some by (simp add: associated_step_def associated_to_def)
  next
    case True
    then show ?thesis using assms Some add [of "sd_associated d"]
      by (auto simp: associated_step_def associated_to_def lookup_children_def Let_def)
  qed
qed

lemma associated_fold:
  "rfold (associated_step ds) [] secs = Inr assoc \<Longrightarrow>
     lookup_children assoc p = children_of ds p secs
     \<and> distinct (map fst (children_of ds p secs))"
proof (induction secs arbitrary: assoc p rule: rev_induct)
  case Nil
  then show ?case by (simp add: lookup_children_def children_of_def)
next
  case (snoc s secs)
  from snoc.prems obtain mid where mid: "rfold (associated_step ds) [] secs = Inr mid"
    and last: "associated_step ds mid s = Inr assoc" by (auto simp: rfold_append)
  note IH = snoc.IH [OF mid]
  from last show ?case
  proof (cases rule: associated_step_cases)
    case skip
    then show ?thesis using IH [of p] by (simp add: children_of_snoc)
  next
    case (add k)
    then show ?thesis using IH [of p] by (auto simp: children_of_snoc)
  qed
qed

lemma direct_children_fold:
  "distinct (map fst (children_of ds p secs)) \<Longrightarrow>
     rfold (child_step ds p) [] secs = Inr (children_of ds p secs)"
proof (induction secs rule: rev_induct)
  case Nil
  then show ?case by (simp add: children_of_def)
next
  case (snoc s secs)
  then have "rfold (child_step ds p) [] secs = Inr (children_of ds p secs)"
    by (simp add: children_of_snoc)
  moreover have "child_step ds p (children_of ds p secs) s = Inr (children_of ds p (secs @ [s]))"
    using snoc.prems by (auto simp: children_of_snoc child_step_def associated_to_def
          split: option.splits if_splits)
  ultimately show ?case by (simp add: rfold_append)
qed

definition indexed_source :: "coff_object \<Rightarrow> coff_index option \<Rightarrow> bool" where
  "indexed_source coff ix \<longleftrightarrow>
     ix = None \<or> coff_layout coff \<and> (\<exists>i. ix = Some i \<and> metadata_index coff = Inr i)"

lemma section_at_number:
  assumes "coff_layout coff" "s \<in> set (co_sections coff)"
  shows "0 < sec_number s \<and> sec_number s \<le> len (co_sections coff)
         \<and> co_sections coff ! nat (sec_number s - 1) = s"
proof -
  obtain k where k: "k < length (co_sections coff)" "s = co_sections coff ! k"
    using assms(2) by (auto simp: in_set_conv_nth)
  have numbers: "map sec_number (co_sections coff) = pyrange 1 (co_section_count coff + 1)"
    using assms(1) by (simp add: coff_layout_def)
  then have "length (co_sections coff) = nat (co_section_count coff)"
    by (metis length_map length_pyrange add_diff_cancel_right')
  moreover have "sec_number s = pyrange 1 (co_section_count coff + 1) ! k"
    using k numbers by (metis nth_map)
  ultimately have "sec_number s = 1 + int k" using k(1) by simp
  then show ?thesis using k by simp
qed

lemma index_section_ok:
  assumes "coff_layout (ix_coff i)" "s \<in> set (co_sections (ix_coff i))"
  shows "index_require_section i s = Inr (sec_number s)"
  using section_at_number [OF assms] by (simp add: index_require_section_def Let_def)

lemma indexed_children:
  assumes "coff_layout coff" "metadata_index coff = Inr i" "s \<in> set (co_sections coff)"
  obtains ds where "section_definitions coff = Inr ds" and "ix_definitions i = ds"
    and "ix_coff i = coff"
    and "distinct (map fst (children_of ds (sec_number s) (co_sections coff)))"
    and "index_associated i s = Inr (sort_by (\<lambda>a b. str_less_eq (fst a) (fst b))
           (children_of ds (sec_number s) (co_sections coff)))"
proof -
  from assms(2) obtain ds assoc where d: "section_definitions coff = Inr ds"
    and fold: "rfold (associated_step ds) [] (co_sections coff) = Inr assoc"
    and i: "i = \<lparr>ix_coff = coff, ix_definitions = ds,
            ix_associated = map (\<lambda>(primary, children).
               (primary, sort_by (\<lambda>a b. str_less_eq (fst a) (fst b)) children)) assoc\<rparr>"
    by (auto simp: metadata_index_def)
  note children = associated_fold [OF fold, of "sec_number s"]
  have "index_associated i s = Inr (sort_by (\<lambda>a b. str_less_eq (fst a) (fst b))
           (lookup_children assoc (sec_number s)))"
    using index_section_ok [of i s] assms(1,3)
    by (simp add: index_associated_def i map_of_map_values lookup_children_def split: option.splits)
  then show ?thesis using that [OF d] children i by simp
qed

lemma indexed_laws:
  assumes "coff_layout coff" "metadata_index coff = Inr i" "s \<in> set (co_sections coff)"
  shows "associated_names coff s (Some i) = associated_names coff s None"
    and "same_children (associated_sections coff s (Some i)) (associated_sections coff s None)"
    and "relocations_of coff s (Some i) = detailed_relocations coff s"
proof -
  obtain ds where d: "section_definitions coff = Inr ds" "ix_coff i = coff"
    and dist: "distinct (map fst (children_of ds (sec_number s) (co_sections coff)))"
    and assoc: "index_associated i s = Inr (sort_by (\<lambda>a b. str_less_eq (fst a) (fst b))
           (children_of ds (sec_number s) (co_sections coff)))"
    by (rule indexed_children [OF assms]) blast
  have names: "map fst (children_of ds (sec_number s) (co_sections coff))
        = map sec_name (filter (associated_to ds (sec_number s)) (co_sections coff))"
    by (simp add: children_of_def)
  show "associated_names coff s (Some i) = associated_names coff s None"
    using d assoc names
    by (simp add: associated_names_def map_sort_by associated_to_def [abs_def])
  show "relocations_of coff s (Some i) = detailed_relocations coff s"
    using index_section_ok [of i s] assms(1,3) d(2)
    by (simp add: relocations_of_def index_relocations_def)
  have "map_of (sort_by (\<lambda>a b. str_less_eq (fst a) (fst b))
             (children_of ds (sec_number s) (co_sections coff)))
        = map_of (children_of ds (sec_number s) (co_sections coff))"
    using dist by (subst map_of_inject_set) (simp_all add: map_sort_by)
  then show "same_children (associated_sections coff s (Some i)) (associated_sections coff s None)"
    using d assoc direct_children_fold [OF dist]
    by (simp add: same_children_def associated_sections_def map_sort_by)
qed

interpretation indexed: metadata_source indexed_source
proof (unfold_locales, goal_cases)
  case (1 coff ix)
  then show ?case by (auto simp: indexed_source_def metadata_index_def)
next
  case (2 coff ix)
  then show ?case by (auto simp: indexed_source_def metadata_index_def definitions_of_def)
next
  case (3 coff ix s)
  then show ?case using direct.source_rows indexed_laws(3) by (auto simp: indexed_source_def)
next
  case (4 coff ix s)
  then show ?case using indexed_laws(1) by (auto simp: indexed_source_def)
next
  case (5 coff ix s)
  then show ?case using direct.source_children indexed_laws(2)
    by (auto simp: indexed_source_def)
qed

definition sample_index :: coff_index where
  "sample_index = (case metadata_index sample_object of Inr i \<Rightarrow> i)"

lemma sample_metadata_index: "metadata_index sample_object = Inr sample_index"
proof -
  have "\<not> isl (metadata_index sample_object)" by code_simp
  then show ?thesis by (auto simp: sample_index_def split: sum.splits)
qed

text \<open>
  C18.  The compatibility checks give the same verdict, error included, whether they
  consult the metadata indexes of the two objects or rescan them: the relocation check
  and the associated-COMDAT check, for any sections of parsed objects.
\<close>

theorem compatibility_index_equivalence:
  assumes "coff_parse da = Inr a" "metadata_index a = Inr i" "s \<in> set (co_sections a)"
    and "coff_parse db = Inr b" "metadata_index b = Inr j" "t \<in> set (co_sections b)"
  shows "require_mosaic_relocation_compatibility a s b t (Some i) (Some j)
           = require_mosaic_relocation_compatibility a s b t None None
     \<and> require_associated_comdat_compatibility a s b t (Some i) (Some j)
           = require_associated_comdat_compatibility a s b t None None
     \<and> comdat_identity a s (Some i) = comdat_identity a s None"
proof -
  have "indexed_source a (Some i)" "indexed_source b (Some j)"
    using assms parsed_layout by (auto simp: indexed_source_def)
  then show ?thesis
    using assms(3,6) indexed.relocation_compatibility_same indexed.associated_compatibility_same
      indexed.comdat_identity_same by blast
qed

theorem compatibility_index_equivalence_witness:
  "require_associated_comdat_compatibility sample_object sample_text sample_object sample_text
     (Some sample_index) (Some sample_index) = Inr ()"
proof -
  have "require_associated_comdat_compatibility sample_object sample_text
          sample_object sample_text None None = Inr ()" by code_simp
  then show ?thesis
    using compatibility_index_equivalence [OF sample_parse sample_metadata_index sample_sections
        sample_parse sample_metadata_index sample_sections] by simp
qed

lemma compatible_row_sym:
  "compatible_row a b i j (r, q) = Inr () \<longleftrightarrow> compatible_row b a j i (q, r) = Inr ()"
  by (auto simp: compatible_row_def Let_def) (metis option.simps(3))+

lemma compatible_row_refl:
  "compatible_row a a i i (r, r) = Inr ()"
  by (simp add: compatible_row_def)

lemma rmap_unit_iff: "(\<exists>ys. rmap f xs = Inr (ys :: unit list)) \<longleftrightarrow> (\<forall>x \<in> set xs. f x = Inr ())"
  by (induction xs) auto

lemma relocation_compatibility_iff:
  "require_mosaic_relocation_compatibility a s b t None None = Inr () \<longleftrightarrow>
     (\<exists>left right. detailed_relocations a s = Inr left \<and> detailed_relocations b t = Inr right
        \<and> length left = length right
        \<and> (\<forall>p \<in> set (zip left right). compatible_row a b None None p = Inr ()))"
  by (simp add: require_mosaic_relocation_compatibility_def relocations_of_def rmap_unit_iff)

lemma zip_swap_all:
  "(\<forall>p \<in> set (zip xs ys). P p) \<longleftrightarrow> (\<forall>p \<in> set (zip ys xs). P (snd p, fst p))"
  by (subst zip_commute) auto

text \<open>
  Relocation compatibility does not depend on which section is called the seed: it
  is symmetric, and every section whose relocation table reads is compatible with itself.
\<close>

lemma relocation_compatibility_symmetric:
  "(require_mosaic_relocation_compatibility a s b t None None = Inr () \<longleftrightarrow>
    require_mosaic_relocation_compatibility b t a s None None = Inr ()) \<and>
   (require_mosaic_relocation_compatibility a s a s None None = Inr () \<longleftrightarrow>
    (\<exists>rows. detailed_relocations a s = Inr rows))"
proof
  have "(\<forall>p \<in> set (zip xs ys). compatible_row a b None None p = Inr ()) \<longleftrightarrow>
        (\<forall>p \<in> set (zip ys xs). compatible_row b a None None p = Inr ())" for xs ys
    by (subst zip_swap_all) (simp add: compatible_row_sym [of a b])
  then show "require_mosaic_relocation_compatibility a s b t None None = Inr () \<longleftrightarrow>
    require_mosaic_relocation_compatibility b t a s None None = Inr ()"
    unfolding relocation_compatibility_iff by metis
  show "require_mosaic_relocation_compatibility a s a s None None = Inr () \<longleftrightarrow>
    (\<exists>rows. detailed_relocations a s = Inr rows)"
    unfolding relocation_compatibility_iff
    by (auto simp: zip_same_conv_map compatible_row_refl)
qed

end
