(* ===== verification/Classic_Coff.thy ===== *)
theory Classic_Coff
  imports Coff_Index Ia32_Decode "HOL-Library.Multiset"
begin

text \<open>
  The COFF questions of the classic composition algorithms
  (\<^verbatim>\<open>src/reprobit/classic/coff.py\<close>): unique symbols and children, the census of
  functions and COMDAT identities, the two topology gates that admit a donor object
  beside a seed object; and, from \<^verbatim>\<open>classic/ia32.py\<close>, the walk that certifies ranges
  against the compiler's line table.

  A \<^verbatim>\<open>Counter\<close> is the list of its elements, read up to their order; the code only
  subtracts counters, counts, filters for a single element and sorts.  The gates take
  the declared expectations as a record of the fields they read.
\<close>

section \<open>Counters\<close>

text \<open>\<^verbatim>\<open>(a - b).elements()\<close>: every element of the second removes one of the first.\<close>

definition counter_minus :: "'a list \<Rightarrow> 'a list \<Rightarrow> 'a list" where
  "counter_minus a b = foldl (\<lambda>acc x. remove1 x acc) a b"

section \<open>Symbols and sections\<close>

definition unique_symbol ::
    "coff_object \<Rightarrow> (coff_symbol \<Rightarrow> bool) \<Rightarrow> (int \<times> coff_symbol) result" where
  "unique_symbol coff predicate =
     (let matches = filter (\<lambda>(_, symbol). predicate symbol) (co_symbols coff)
      in require (length matches = 1) ''expected one'' (Inr (matches ! 0)))"

definition function_symbol ::
    "coff_object \<Rightarrow> string \<Rightarrow> int \<Rightarrow> (int \<times> coff_symbol) result" where
  "function_symbol coff mangled section_number =
     unique_symbol coff (\<lambda>s. sym_name s = mangled \<and> sym_section s = section_number
       \<and> sym_value s = 0 \<and> sym_type s = 32 \<and> sym_storage s \<in> {2, 3})"

definition section_symbol :: "coff_object \<Rightarrow> coff_section \<Rightarrow> (int \<times> coff_symbol) result" where
  "section_symbol coff section =
     unique_symbol coff (\<lambda>s. sym_name s = sec_name section \<and> sym_section s = sec_number section
       \<and> sym_storage s = 3 \<and> sym_aux_count s \<ge> 1)"

definition comdat_primary_section :: "coff_object \<Rightarrow> string \<Rightarrow> coff_section result" where
  "comdat_primary_section coff name =
     (let matches = filter (\<lambda>s. sym_name s = name \<and> sym_section s > 0 \<and> sym_value s = 0
                              \<and> sym_storage s \<in> {2, 3}) (map snd (co_symbols coff))
      in require (length matches = 1) ''expected one definition''
          (rbind (item (co_sections coff) (sym_section (matches ! 0) - 1)) (\<lambda>section.
           require (sec_characteristics section AND 4096 \<noteq> 0) ''is not in a COMDAT section''
            (rbind (section_definitions coff) (\<lambda>definitions.
              require (case map_of definitions (sec_number section) of
                         None \<Rightarrow> False | Some d \<Rightarrow> sd_selection d \<noteq> 5) ''is not a COMDAT primary''
               (Inr section))))))"

definition is_child ::
    "(int \<times> section_definition) list \<Rightarrow> int \<Rightarrow> coff_section \<Rightarrow> bool" where
  "is_child definitions parent section =
     (case map_of definitions (sec_number section) of
        None \<Rightarrow> False | Some d \<Rightarrow> sd_selection d = 5 \<and> sd_associated d = parent)"

definition classic_associated_sections ::
    "coff_object \<Rightarrow> (int \<times> section_definition) list \<Rightarrow> int \<Rightarrow> (int \<times> string) list" where
  "classic_associated_sections coff definitions parent =
     map (\<lambda>s. (sec_number s, sec_name s)) (filter (is_child definitions parent) (co_sections coff))"

text \<open>\<^verbatim>\<open>function_multiset\<close>; a symbol that names no section raises.\<close>

definition function_multiset :: "coff_object \<Rightarrow> string list result" where
  "function_multiset coff =
     rbind (rmap (\<lambda>s.
        if sym_type s = 32 \<and> sym_section s > 0 \<and> sym_value s = 0 \<and> sym_storage s \<in> {2, 3}
        then rbind (item (co_sections coff) (sym_section s - 1)) (\<lambda>section.
               Inr (if starts_with (sec_name section) ''.text'' \<and> sec_raw_size section > 0
                    then [sym_name s] else []))
        else Inr []) (map snd (co_symbols coff))) (\<lambda>names. Inr (concat names))"

section \<open>The COMDAT census\<close>

record census_index =
  ci_definitions :: "(int \<times> section_definition) list"
  ci_owners :: "(int \<times> coff_symbol list) list"
  ci_associated :: "(int \<times> string list) list"

text \<open>\<^verbatim>\<open>d.setdefault(k, []).append(x)\<close>.\<close>

definition dict_append :: "('k \<times> 'v list) list \<Rightarrow> 'k \<Rightarrow> 'v \<Rightarrow> ('k \<times> 'v list) list" where
  "dict_append d k x = dict_set d k ((case map_of d k of None \<Rightarrow> [] | Some xs \<Rightarrow> xs) @ [x])"

definition owners_by_section :: "coff_symbol list \<Rightarrow> (int \<times> coff_symbol list) list" where
  "owners_by_section symbols =
     foldl (\<lambda>d s. if sym_value s = 0 \<and> sym_storage s \<in> {2, 3} then dict_append d (sym_section s) s
                  else d) [] symbols"

definition names_by_parent ::
    "(int \<times> section_definition) list \<Rightarrow> coff_section list \<Rightarrow> (int \<times> string list) list" where
  "names_by_parent definitions sections =
     foldl (\<lambda>d s. case map_of definitions (sec_number s) of
                    None \<Rightarrow> d
                  | Some q \<Rightarrow> if sd_selection q = 5 then dict_append d (sd_associated q) (sec_name s)
                             else d) [] sections"

definition comdat_census_index :: "coff_object \<Rightarrow> census_index result" where
  "comdat_census_index coff =
     rbind (section_definitions coff) (\<lambda>definitions.
       Inr \<lparr>ci_definitions = definitions,
            ci_owners = owners_by_section (map snd (co_symbols coff)),
            ci_associated = map (\<lambda>(p, names). (p, sort_by str_less_eq names))
                              (names_by_parent definitions (co_sections coff))\<rparr>)"

definition get_list :: "('k \<times> 'v list) list \<Rightarrow> 'k \<Rightarrow> 'v list" where
  "get_list d k = (case map_of d k of None \<Rightarrow> [] | Some xs \<Rightarrow> xs)"

definition comdat_primary_identity :: "coff_object \<Rightarrow> coff_section \<Rightarrow> comdat_id result" where
  "comdat_primary_identity coff section =
     rbind (comdat_census_index coff) (\<lambda>ix.
     case map_of (ci_definitions ix) (sec_number section) of
       None \<Rightarrow> Inl (ByteIdentityError ''is not a primary COMDAT'')
     | Some d \<Rightarrow>
         require (sd_selection d \<notin> {0, 5}) ''is not a primary COMDAT''
          (let owners = filter (\<lambda>s. sym_name s \<noteq> sec_name section)
                          (get_list (ci_owners ix) (sec_number section));
               external = filter (\<lambda>s. sym_storage s = 2) owners;
               owners = (if external \<noteq> [] then external else owners)
           in require (length owners = 1) ''has no unique owner''
               (Inr (sym_name (owners ! 0), sym_type (owners ! 0), sym_storage (owners ! 0),
                     sec_name section, sd_selection d,
                     get_list (ci_associated ix) (sec_number section)))))"

definition comdat_primary_identity_multiset :: "coff_object \<Rightarrow> comdat_id list result" where
  "comdat_primary_identity_multiset coff =
     rbind (comdat_census_index coff) (\<lambda>ix.
       rmap (comdat_primary_identity coff)
         (filter (\<lambda>s. case map_of (ci_definitions ix) (sec_number s) of
                        None \<Rightarrow> False | Some d \<Rightarrow> sd_selection d \<notin> {0, 5}) (co_sections coff)))"

section \<open>The topology gates\<close>

record extraction_declaration =
  xd_seed_section_count :: int
  xd_donor_section_count :: int
  xd_seed_only_functions :: "string list"

record extraction_receipt =
  xr_seed_section_count :: int
  xr_donor_section_count :: int
  xr_seed_only_functions :: "string list"
  xr_seed_comdat_count :: int
  xr_donor_comdat_count :: int

definition require_target_closure_extraction_topology ::
    "coff_object \<Rightarrow> coff_object \<Rightarrow> extraction_declaration \<Rightarrow> extraction_receipt result" where
  "require_target_closure_extraction_topology seed donor f =
     require (len (co_sections seed) = xd_seed_section_count f) ''seed section count changed'' (
     require (len (co_sections donor) = xd_donor_section_count f) ''donor section count changed'' (
     require (length (co_sections seed) > length (co_sections donor))
       ''donor is not a strict section subset'' (
     rbind (function_multiset seed) (\<lambda>seed_functions.
     rbind (function_multiset donor) (\<lambda>donor_functions.
     require (counter_minus donor_functions seed_functions = [])
       ''donor adds functions absent from the seed'' (
     let seed_only = sort_by str_less_eq (counter_minus seed_functions donor_functions) in
     require (seed_only = xd_seed_only_functions f) ''seed-only function set differs'' (
     require (seed_only \<noteq> []) ''target-closure extraction declares no omitted function'' (
     rbind (comdat_primary_identity_multiset seed) (\<lambda>seed_comdats.
     rbind (comdat_primary_identity_multiset donor) (\<lambda>donor_comdats.
     require (counter_minus donor_comdats seed_comdats = [])
       ''donor adds or exchanges a COMDAT group'' (
     let omitted = counter_minus seed_comdats donor_comdats in
     require (sort_by str_less_eq (map fst omitted) = seed_only)
       ''omitted COMDAT groups differ from the declared seed-only functions'' (
       Inr \<lparr>xr_seed_section_count = len (co_sections seed),
            xr_donor_section_count = len (co_sections donor),
            xr_seed_only_functions = seed_only, xr_seed_comdat_count = len seed_comdats,
            xr_donor_comdat_count = len donor_comdats\<rparr>))))))))))))"

text \<open>\<^verbatim>\<open>_comdat_child_closure\<close> and \<^verbatim>\<open>_comdat_child\<close>.\<close>

definition comdat_child_closure ::
    "coff_object \<Rightarrow> coff_section \<Rightarrow> (int \<times> string list) result" where
  "comdat_child_closure coff primary =
     rbind (section_definitions coff) (\<lambda>definitions.
       let children = sort_by str_less_eq
             (map sec_name (filter (is_child definitions (sec_number primary)) (co_sections coff)))
       in Inr (len children, children))"

definition comdat_child :: "coff_object \<Rightarrow> coff_section \<Rightarrow> string \<Rightarrow> coff_section result" where
  "comdat_child coff primary name =
     rbind (section_definitions coff) (\<lambda>definitions.
       let matches = filter (\<lambda>s. sec_name s = name \<and> is_child definitions (sec_number primary) s)
                       (co_sections coff)
       in require (length matches = 1) ''expected one child'' (Inr (matches ! 0)))"

record closure_pin =
  cp_section_number :: int
  cp_seed_sha256 :: string
  cp_donor_sha256 :: string

record source_declaration =
  sc_seed_section_count :: int
  sc_donor_section_count :: int
  sc_mangled :: string
  sc_section_number :: int
  sc_seed_body_sha256 :: string
  sc_xdata :: closure_pin
  sc_debug :: closure_pin
  sc_relocation_count :: int
  sc_line_count :: int

record source_receipt =
  sr_seed_section_count :: int
  sr_donor_section_count :: int
  sr_donor_only_function_count :: int

definition pinned_child ::
    "(bytes \<Rightarrow> string) \<Rightarrow> coff_object \<Rightarrow> coff_section \<Rightarrow> coff_object \<Rightarrow> coff_section
     \<Rightarrow> string \<times> closure_pin \<Rightarrow> unit result" where
  "pinned_child sha256 seed sp donor dp entry =
     (case entry of (name, pin) \<Rightarrow>
      rbind (comdat_child seed sp name) (\<lambda>left.
      rbind (comdat_child donor dp name) (\<lambda>right.
        require (sec_number left = sec_number right \<and> sec_number right = cp_section_number pin
                 \<and> sha256 (coff_body seed left) = cp_seed_sha256 pin
                 \<and> sha256 (coff_body donor right) = cp_donor_sha256 pin)
          ''pinned closure changed'' (Inr ()))))"

definition require_source_target_closure_topology ::
    "(bytes \<Rightarrow> string) \<Rightarrow> coff_object \<Rightarrow> coff_object \<Rightarrow> source_declaration
     \<Rightarrow> source_receipt result" where
  "require_source_target_closure_topology sha256 seed donor f =
     require (len (co_sections seed) = sc_seed_section_count f
              \<and> len (co_sections donor) = sc_donor_section_count f) ''section census changed'' (
     rbind (function_section seed (sc_mangled f)) (\<lambda>sp.
     rbind (function_section donor (sc_mangled f)) (\<lambda>dp.
     require (sec_number sp = sec_number dp \<and> sec_number dp = sc_section_number f)
       ''target section seat changed'' (
     rbind (comdat_primary_identity_multiset seed) (\<lambda>seed_comdats.
     rbind (comdat_primary_identity_multiset donor) (\<lambda>donor_comdats.
     let seed_id = filter (\<lambda>i. fst i = sc_mangled f) seed_comdats;
         donor_id = filter (\<lambda>i. fst i = sc_mangled f) donor_comdats
     in
     require (length seed_id = length donor_id \<and> length donor_id = 1 \<and> seed_id = donor_id)
       ''target is not the same mangled COMDAT'' (
     require (sha256 (coff_body seed sp) = sc_seed_body_sha256 f)
       ''seed target body changed'' (
     rbind (rmap (pinned_child sha256 seed sp donor dp)
              [(''.xdata$x'', sc_xdata f), (''.debug$S'', sc_debug f)]) (\<lambda>_.
     require (sec_relocation_count sp = sec_relocation_count dp
              \<and> sec_relocation_count dp = sc_relocation_count f
              \<and> sec_line_count sp = sec_line_count dp \<and> sec_line_count dp = sc_line_count f)
       ''target relocation/line census changed'' (
     rbind (function_multiset donor) (\<lambda>donor_functions.
     rbind (function_multiset seed) (\<lambda>seed_functions.
       Inr \<lparr>sr_seed_section_count = len (co_sections seed),
            sr_donor_section_count = len (co_sections donor),
            sr_donor_only_function_count =
              len (counter_minus donor_functions seed_functions)\<rparr>))))))))))))"

definition coff_table_bytes :: "coff_object \<Rightarrow> coff_section \<Rightarrow> string \<Rightarrow> bytes" where
  "coff_table_bytes coff section kind =
     (let (start, size) =
        (if kind = ''relocations''
         then (sec_relocation_offset section, sec_relocation_count section * 10)
         else (sec_line_offset section, sec_line_count section * 6))
      in if size \<noteq> 0 then pslice (co_data coff) start (start + size) else [])"

definition coff_marker :: "coff_object \<Rightarrow> string \<Rightarrow> int \<Rightarrow> (int \<times> coff_symbol) result" where
  "coff_marker coff name section_number =
     (let matches = filter (\<lambda>(_, s). sym_name s = name \<and> sym_section s = section_number
                              \<and> sym_storage s = 101 \<and> sym_aux_count s \<ge> 1) (co_symbols coff)
      in require (length matches = 1) ''expected one marker'' (Inr (matches ! 0)))"

definition coff_section_symbol :: "coff_object \<Rightarrow> coff_section \<Rightarrow> (int \<times> coff_symbol) result" where
  "coff_section_symbol coff section =
     (let matches = filter (\<lambda>(_, s). sym_name s = sec_name section
                              \<and> sym_section s = sec_number section
                              \<and> sym_storage s = 3 \<and> sym_aux_count s \<ge> 1) (co_symbols coff)
      in require (length matches = 1) ''expected one section definition symbol''
           (Inr (matches ! 0)))"

section \<open>Line-certified instruction boundaries\<close>

text \<open>
  A declared range: the integer fields and the list fields its dictionary carries.
\<close>

record range_item =
  ri_ints :: "(string \<times> int) list"
  ri_lists :: "(string \<times> int list) list"

text \<open>\<^verbatim>\<open>while cursor < end\<close>: the decoded instruction starts and lengths.\<close>

function certified_walk :: "bytes \<Rightarrow> int \<Rightarrow> int \<Rightarrow> (int \<times> int) list result" where
  "certified_walk body cursor stop =
     (if cursor < stop
      then rbind (supported_ia32_instruction_length (slice_from body cursor)) (\<lambda>length.
           require (cursor + length \<le> len body) ''decoded instruction escapes the COMDAT'' (
           rbind (certified_walk body (cursor + length) stop) (\<lambda>rest.
             Inr ((cursor, length) # rest))))
      else Inr [])"
  by pat_completeness auto
termination
  by (relation "measure (\<lambda>(body, cursor, stop). nat (stop - cursor))")
     (auto dest: supported_length_bounds)

declare certified_walk.simps [simp del]

definition line_row :: "bytes \<Rightarrow> int \<Rightarrow> int \<times> int list \<Rightarrow> int \<Rightarrow> (int \<times> int list) result" where
  "line_row line_bytes body_length state index =
     (case state of (previous, line_offsets) \<Rightarrow>
      rbind (coff_unpack [U 4, U 2] line_bytes (index * 6)) (\<lambda>v.
        require (v ! 1 \<noteq> 0 \<and> previous \<le> v ! 0 \<and> v ! 0 < body_length)
          ''compiler line boundary is invalid'' (Inr (v ! 0, line_offsets @ [v ! 0]))))"

definition certify_range ::
    "bytes \<Rightarrow> int list \<Rightarrow> string \<Rightarrow> range_item \<Rightarrow> int result" where
  "certify_range body line_offsets role it =
     (let prefixed = role \<in> {''target'', ''instruction_donor''}
      in
      rbind (dict_item (ri_ints it) (if prefixed then role @ ''_start'' else ''start'')) (\<lambda>start.
      rbind (dict_item (ri_ints it) (if prefixed then role @ ''_end'' else ''end'')) (\<lambda>stop.
      let anchors = filter (\<lambda>offset. offset \<le> start) line_offsets in
      require (anchors \<noteq> []) ''has no preceding compiler line boundary'' (
      let cursor = Max (set anchors) in
      rbind (certified_walk body cursor stop) (\<lambda>spans.
      let boundaries = cursor # map (\<lambda>(c, n). c + n) spans;
          in_range_lengths = map snd (filter (\<lambda>(c, n). start \<le> c \<and> c + n \<le> stop) spans)
      in
      require (start \<in> set boundaries \<and> stop \<in> set boundaries)
        ''is not one containing-stream IA-32 instruction boundary'' (
      require (case map_of (ri_lists it) (role @ ''_instruction_lengths'') of
                 None \<Rightarrow> True | Some declared \<Rightarrow> in_range_lengths = declared)
        ''decoded instruction partition differs'' (
        Inr (len spans))))))))"

definition require_coff_line_certified_ia32_boundaries ::
    "coff_object \<Rightarrow> coff_section \<Rightarrow> bytes \<Rightarrow> range_item list \<Rightarrow> string \<Rightarrow> string \<Rightarrow> int result" where
  "require_coff_line_certified_ia32_boundaries coff section body ranges role mangled =
     require (role \<in> {''target'', ''instruction_donor'', ''seed'', ''donor''})
       ''IA-32 range role differs'' (
     let line_bytes = coff_table_bytes coff section ''lines'' in
     require (len line_bytes = sec_line_count section * 6 \<and> length line_bytes \<ge> 12)
       ''compiler line-boundary certificate is missing'' (
     rbind (coff_unpack [U 4, U 2] line_bytes 0) (\<lambda>sentinel.
     rbind (function_symbol coff mangled (sec_number section)) (\<lambda>(function_index, _).
     require (sentinel ! 1 = 0 \<and> sentinel ! 0 = function_index) ''compiler line sentinel differs'' (
     rbind (rfold (line_row line_bytes (len body)) (- 1, [])
              (pyrange 1 (sec_line_count section))) (\<lambda>(_, line_offsets).
     require (line_offsets \<noteq> []) ''compiler line boundaries are absent'' (
     rbind (rmap (certify_range body line_offsets role) ranges) (\<lambda>counts.
       Inr (sum_list counts)))))))))"

section \<open>Lemmas\<close>

lemma mset_insert_by [simp]: "mset (insert_by le x xs) = add_mset x (mset xs)"
  by (induction xs) auto

lemma mset_sort_by [simp]: "mset (sort_by le xs) = mset xs"
  by (induction xs) (auto simp: sort_by_def)

lemma mset_counter_minus: "mset (counter_minus a b) = mset a - mset b"
  unfolding counter_minus_def by (induction b arbitrary: a) (auto simp: diff_union_swap2)

lemma counter_minus_empty: "counter_minus a b = [] \<longleftrightarrow> mset a \<subseteq># mset b"
  using mset_counter_minus [of a b] by (metis Diff_eq_empty_iff_mset mset_zero_iff)

lemma get_list_append [simp]:
  "get_list (dict_append d k x) q = (if q = k then get_list d k @ [x] else get_list d q)"
  by (simp add: get_list_def dict_append_def)

lemma group_fold:
  "get_list (foldl (\<lambda>d x. if P x then dict_append d (key x) (val x) else d) d xs) q =
     get_list d q @ map val (filter (\<lambda>x. P x \<and> key x = q) xs)"
  by (induction xs arbitrary: d) auto

lemma get_list_Nil [simp]: "get_list [] q = []"
  by (simp add: get_list_def)

lemma get_list_map_values:
  "f [] = [] \<Longrightarrow> get_list (map (\<lambda>(k, v). (k, f v)) d) q = f (get_list d q)"
  by (simp add: get_list_def map_of_map_values split: option.splits)

lemma owners_of_section:
  "get_list (owners_by_section symbols) q =
     filter (\<lambda>s. (sym_value s = 0 \<and> sym_storage s \<in> {2, 3}) \<and> sym_section s = q) symbols"
  unfolding owners_by_section_def by (subst group_fold) simp

lemma names_of_parent:
  "get_list (names_by_parent ds sections) q = map sec_name (filter (is_child ds q) sections)"
proof -
  have "names_by_parent ds sections =
     foldl (\<lambda>d s. if (case map_of ds (sec_number s) of None \<Rightarrow> False | Some e \<Rightarrow> sd_selection e = 5)
                  then dict_append d (sd_associated (the (map_of ds (sec_number s)))) (sec_name s)
                  else d) [] sections"
    unfolding names_by_parent_def
    by (intro foldl_cong refl ext) (auto split: option.splits)
  also have "get_list \<dots> q = map sec_name (filter (is_child ds q) sections)"
    unfolding group_fold get_list_Nil append_Nil
    by (intro arg_cong [where f = "map sec_name"] filter_cong refl)
       (auto simp: is_child_def split: option.splits)
  finally show ?thesis .
qed

lemma census_index_Inr:
  "comdat_census_index coff = Inr ix \<longleftrightarrow>
     (\<exists>ds. section_definitions coff = Inr ds \<and> ix =
        \<lparr>ci_definitions = ds, ci_owners = owners_by_section (map snd (co_symbols coff)),
         ci_associated = map (\<lambda>(p, names). (p, sort_by str_less_eq names))
                           (names_by_parent ds (co_sections coff))\<rparr>)"
  by (auto simp: comdat_census_index_def)

lemma primary_identity_direct:
  "comdat_primary_identity coff section = comdat_identity coff section None"
proof (cases "section_definitions coff")
  case (Inl e)
  then show ?thesis
    by (simp add: comdat_primary_identity_def comdat_census_index_def comdat_identity_def
        definitions_of_def)
next
  case (Inr ds)
  have owners: "filter (\<lambda>s. sym_name s \<noteq> sec_name section)
        (filter (\<lambda>s. (sym_value s = 0 \<and> sym_storage s \<in> {2, 3}) \<and> sym_section s = sec_number section)
          symbols)
      = filter (\<lambda>s. sym_section s = sec_number section \<and> sym_value s = 0
           \<and> sym_name s \<noteq> sec_name section \<and> sym_storage s \<in> {2, 3}) symbols" for symbols
    unfolding filter_filter by (rule filter_cong) auto
  have names: "get_list (map (\<lambda>(p, names). (p, sort_by str_less_eq names))
          (names_by_parent ds (co_sections coff))) (sec_number section)
      = sort_by str_less_eq (map sec_name (filter (\<lambda>s. case map_of ds (sec_number s) of
                       None \<Rightarrow> False
                     | Some d \<Rightarrow> sd_selection d = 5 \<and> sd_associated d = sec_number section)
                   (co_sections coff)))"
    by (subst get_list_map_values) (simp_all add: names_of_parent is_child_def [abs_def])
  show ?thesis
    unfolding comdat_primary_identity_def comdat_census_index_def comdat_identity_def
      definitions_of_def associated_names_def option.case Inr rbind_Inr require_True
      census_index.simps owners_of_section owners names ..
qed

lemma identity_multiset_direct:
  "comdat_primary_identity_multiset coff =
     rbind (section_definitions coff) (\<lambda>ds.
       rmap (\<lambda>s. comdat_identity coff s None)
         (filter (\<lambda>s. case map_of ds (sec_number s) of
                        None \<Rightarrow> False | Some d \<Rightarrow> sd_selection d \<notin> {0, 5}) (co_sections coff)))"
  unfolding comdat_primary_identity_multiset_def comdat_census_index_def
  by (simp add: rbind_assoc primary_identity_direct [abs_def])

section \<open>Properties\<close>

text \<open>
  The census-indexed COMDAT identity of the composition algorithms is the identity
  the object reader computes by scanning, errors included, for every section of every
  object, and so is the census over all primary sections.
\<close>

lemma comdat_identity_agrees:
  "comdat_primary_identity coff section = comdat_identity coff section None
   \<and> comdat_primary_identity_multiset coff =
       rbind (section_definitions coff) (\<lambda>ds.
         rmap (\<lambda>s. comdat_identity coff s None)
           (filter (\<lambda>s. case map_of ds (sec_number s) of
                          None \<Rightarrow> False | Some d \<Rightarrow> sd_selection d \<notin> {0, 5}) (co_sections coff)))"
  using primary_identity_direct identity_multiset_direct by blast

text \<open>
  C19.  A donor admitted by the target-closure extraction gate carries strictly less than
  its seed: the seed's functions are the donor's functions plus exactly the declared
  omitted ones, at least one; the seed's COMDAT groups are the donor's groups plus groups
  whose owners are exactly those functions; and the donor has fewer sections.
\<close>

theorem target_closure_extraction_sound:
  assumes "require_target_closure_extraction_topology seed donor f = Inr receipt"
  shows "\<exists>sf df sc dc omitted.
     function_multiset seed = Inr sf \<and> function_multiset donor = Inr df \<and>
     comdat_primary_identity_multiset seed = Inr sc \<and>
     comdat_primary_identity_multiset donor = Inr dc \<and>
     mset sf = mset df + mset (xd_seed_only_functions f) \<and>
     mset sc = mset dc + mset omitted \<and>
     mset (map fst omitted) = mset (xd_seed_only_functions f) \<and>
     xd_seed_only_functions f \<noteq> [] \<and>
     length (co_sections donor) < length (co_sections seed)"
proof -
  from assms obtain sf df sc dc where r:
    "function_multiset seed = Inr sf" "function_multiset donor = Inr df"
    "comdat_primary_identity_multiset seed = Inr sc"
    "comdat_primary_identity_multiset donor = Inr dc"
    "counter_minus df sf = []" "counter_minus dc sc = []"
    "sort_by str_less_eq (counter_minus sf df) = xd_seed_only_functions f"
    "sort_by str_less_eq (map fst (counter_minus sc dc)) = xd_seed_only_functions f"
    "xd_seed_only_functions f \<noteq> []" "length (co_sections donor) < length (co_sections seed)"
    by (auto simp: require_target_closure_extraction_topology_def Let_def)
  have "mset sf = mset df + mset (xd_seed_only_functions f)"
    using r(5,7) by (auto simp: counter_minus_empty mset_counter_minus simp flip: r(7))
  moreover have "mset sc = mset dc + mset (counter_minus sc dc)"
    using r(6) by (simp add: counter_minus_empty mset_counter_minus)
  moreover have "mset (map fst (counter_minus sc dc)) = mset (xd_seed_only_functions f)"
    by (simp flip: r(8))
  ultimately show ?thesis using r by blast
qed

definition sample_donor :: coff_object where
  "sample_donor = sample_object
     \<lparr>co_sections := [sample_debug\<lparr>sec_number := 1\<rparr>], co_symbols := [sample_symbol 5 ''_g'' 0 0x20 2 0]\<rparr>"

theorem target_closure_extraction_sound_witness:
  "\<exists>sf df. function_multiset sample_object = Inr sf \<and> function_multiset sample_donor = Inr df \<and>
     mset sf = mset df + mset [''_f'']"
proof -
  have "\<not> isl (require_target_closure_extraction_topology sample_object sample_donor
      \<lparr>xd_seed_section_count = 2, xd_donor_section_count = 1,
       xd_seed_only_functions = [''_f'']\<rparr>)" by code_simp
  then obtain receipt where "require_target_closure_extraction_topology sample_object sample_donor
      \<lparr>xd_seed_section_count = 2, xd_donor_section_count = 1,
       xd_seed_only_functions = [''_f'']\<rparr> = Inr receipt" by (metis isl_def sum.exhaust)
  from target_closure_extraction_sound [OF this] show ?thesis by auto
qed

subsection \<open>The certified walk\<close>

lemma certified_walk_run:
  "certified_walk body c stop = Inr sp \<Longrightarrow> decode_run body c stop = Inr sp"
proof (induction body c stop arbitrary: sp rule: certified_walk.induct)
  case (1 body c stop)
  show ?case
  proof (cases "c < stop")
    case False
    then show ?thesis using "1.prems" by (simp add: certified_walk.simps decode_run.simps)
  next
    case True
    from "1.prems" True obtain n rest where
      n: "supported_ia32_instruction_length (slice_from body c) = Inr n" "c + n \<le> len body" and
      rest: "certified_walk body (c + n) stop = Inr rest" and sp: "sp = (c, n) # rest"
      by (subst (asm) certified_walk.simps) auto
    have "decode_run body (c + n) stop = Inr rest" by (rule "1.IH" [OF True n rest])
    then show ?thesis using True n sp by (subst decode_run.simps) simp
  qed
qed

lemma spans_from_append:
  "spans_from c (xs @ ys) = spans_from c xs @ spans_from (c + len (concat xs)) ys"
  by (induction xs arbitrary: c) (auto simp: add.assoc)

lemma spans_boundary:
  "b \<in> set (c # map (\<lambda>(s, n). s + n) (spans_from c xs)) \<Longrightarrow>
     \<exists>k \<le> length xs. b = c + len (concat (take k xs))"
proof (induction xs arbitrary: c)
  case Nil
  then show ?case by simp
next
  case (Cons x xs)
  show ?case
  proof (cases "b = c")
    case True
    then show ?thesis by (intro exI [of _ 0]) simp
  next
    case False
    then have "b \<in> set ((c + len x) # map (\<lambda>(s, n). s + n) (spans_from (c + len x) xs))"
      using Cons.prems by auto
    from Cons.IH [OF this] obtain k where "k \<le> length xs"
      "b = c + len x + len (concat (take k xs))" by auto
    then show ?thesis by (intro exI [of _ "Suc k"]) simp
  qed
qed

lemma spans_from_before:
  "list_all (\<lambda>x. x \<noteq> []) xs \<Longrightarrow> (s, n) \<in> set (spans_from c xs) \<Longrightarrow>
     c \<le> s \<and> 0 < n \<and> s + n \<le> c + len (concat xs)"
proof (induction xs arbitrary: c)
  case (Cons x xs)
  then show ?case using Cons.IH [of "c + len x"] by fastforce
qed simp

lemma in_range_spans:
  assumes "list_all (\<lambda>x. x \<noteq> []) (pre @ mid)"
  shows "filter (\<lambda>(s, n). c + len (concat pre) \<le> s \<and> s + n \<le> c + len (concat (pre @ mid)))
           (spans_from c (pre @ mid)) = spans_from (c + len (concat pre)) mid"
proof -
  have "filter (\<lambda>(s, n). c + len (concat pre) \<le> s \<and> s + n \<le> c + len (concat (pre @ mid)))
          (spans_from c pre) = []"
    using spans_from_before [of pre _ _ c] assms by (fastforce simp: filter_empty_conv)
  moreover have "filter (\<lambda>(s, n). c + len (concat pre) \<le> s \<and> s + n \<le> c + len (concat (pre @ mid)))
          (spans_from (c + len (concat pre)) mid) = spans_from (c + len (concat pre)) mid"
    using spans_from_before [of mid _ _ "c + len (concat pre)"] assms
    by (fastforce simp: filter_id_conv)
  ultimately show ?thesis by (simp add: spans_from_append)
qed

lemma map_snd_spans [simp]: "map snd (spans_from c xs) = map len xs"
  by (induction xs arbitrary: c) auto

lemma decode_run_starts:
  "decode_run body c stop = Inr sp \<Longrightarrow> (s, n) \<in> set sp \<Longrightarrow> s < stop"
proof (induction body c stop arbitrary: sp rule: decode_run.induct)
  case (1 body c stop)
  show ?case
  proof (cases "c < stop")
    case False
    then show ?thesis using "1.prems" by (simp add: decode_run.simps)
  next
    case True
    from "1.prems"(1) True obtain m rest where
      m: "supported_ia32_instruction_length (slice_from body c) = Inr m" and
      rest: "decode_run body (c + m) stop = Inr rest" and sp: "sp = (c, m) # rest"
      by (subst (asm) decode_run.simps) auto
    then show ?thesis using "1.prems"(2) "1.IH" [OF True m rest] True by auto
  qed
qed

text \<open>What a certified range is: whole instructions from a line boundary, through the range.\<close>

definition certified_span :: "bytes \<Rightarrow> int \<Rightarrow> int \<Rightarrow> int \<Rightarrow> int list \<Rightarrow> bool" where
  "certified_span body anchor start stop lengths \<longleftrightarrow>
     (\<exists>pre mid. list_all (complete_encoding supported_ia32_instruction_length) (pre @ mid)
        \<and> concat pre = pslice body anchor start \<and> concat mid = pslice body start stop
        \<and> anchor + len (concat pre) = start \<and> start + len (concat mid) = stop
        \<and> stop \<le> len body \<and> lengths = map len mid)"

lemma certified_walk_span:
  assumes walk: "certified_walk body c stop = Inr sp" and c: "0 \<le> c" "c \<le> len body"
    and b: "start \<in> set (c # map (\<lambda>(s, n). s + n) sp)" "stop \<in> set (c # map (\<lambda>(s, n). s + n) sp)"
  shows "certified_span body c start stop
           (map snd (filter (\<lambda>(s, n). start \<le> s \<and> s + n \<le> stop) sp))"
proof (cases "c < stop")
  case False
  then have "sp = []" using walk by (simp add: certified_walk.simps)
  then show ?thesis using b c unfolding certified_span_def
    by (intro exI [of _ "[]"]) simp
next
  case True
  note run = certified_walk_run [OF walk]
  from decode_run_spans [OF run c(1)] True obtain xs where
    xs: "list_all (complete_encoding supported_ia32_instruction_length) xs"
      "sp = spans_from c xs" "concat xs = pslice body c (c + len (concat xs))"
      "c + len (concat xs) \<le> len body" by auto
  from spans_boundary [of stop c xs] b(2) xs(2) obtain k where
    k: "k \<le> length xs" "stop = c + len (concat (take k xs))" by auto
  have "drop k xs = []"
  proof (cases "drop k xs")
    case (Cons y ys)
    then have "(stop, len y) \<in> set (spans_from c (take k xs @ y # ys))"
      by (simp add: spans_from_append k(2) del: append_take_drop_id)
    then have "(stop, len y) \<in> set sp" using Cons xs(2) by (metis append_take_drop_id)
    from decode_run_starts [OF run this] show ?thesis by simp
  qed simp
  then have stop: "stop = c + len (concat xs)" using k by simp
  from spans_boundary [of start c xs] b(1) xs(2) obtain j where
    j: "start = c + len (concat (take j xs))" by auto
  let ?pre = "take j xs" and ?mid = "drop j xs"
  have cc: "concat ?pre @ concat ?mid = concat xs" by (simp flip: concat_append)
  then have stop': "stop = start + len (concat ?mid)"
    using stop j by (metis add.assoc length_append of_nat_add)
  have pre: "concat ?pre = pslice body c start"
  proof -
    have "concat ?pre = take (length (concat ?pre)) (pslice body c (c + len (concat xs)))"
      by (metis cc xs(3) append_eq_conv_conj)
    then show ?thesis using c j stop' stop by (simp add: pslice_nonneg del: length_concat)
  qed
  have mid: "concat ?mid = pslice body start stop"
  proof -
    have "pslice body c start @ pslice body start stop = pslice body c stop"
      using c j stop' by (intro pslice_append) auto
    then show ?thesis using cc pre stop xs(3) by (metis same_append_eq)
  qed
  have "list_all (\<lambda>x. x \<noteq> []) xs" using xs(1) by (auto simp: list_all_iff dest: ia32.complete_nonempty)
  then have "filter (\<lambda>(s, n). start \<le> s \<and> s + n \<le> stop) sp = spans_from start ?mid"
    using in_range_spans [of ?pre ?mid c] stop j xs(2) by (simp del: length_concat)
  then have lengths: "map snd (filter (\<lambda>(s, n). start \<le> s \<and> s + n \<le> stop) sp) = map len ?mid"
    by simp
  have "list_all (complete_encoding supported_ia32_instruction_length) (?pre @ ?mid)"
    using xs(1) by simp
  moreover have "stop \<le> len body" using xs(4) stop by blast
  ultimately show ?thesis unfolding certified_span_def
    using pre mid j [symmetric] stop' [symmetric] lengths by blast
qed

lemma line_rows_bounds:
  assumes "rfold (line_row lines n) (- 1, []) rows = Inr (p, offsets)" and "o' \<in> set offsets"
  shows "0 \<le> o' \<and> o' < n"
proof -
  define P where "P st \<longleftrightarrow> (\<forall>x \<in> set (snd st). 0 \<le> x \<and> x < n)" for st :: "int \<times> int list"
  have "P (p, offsets)"
    by (rule rfold_invariant [OF assms(1), where P = P]) (auto simp: P_def line_row_def)
  then show ?thesis using assms(2) by (simp add: P_def)
qed

text \<open>The keys of the range bounds for a role.\<close>

definition range_bounds :: "string \<Rightarrow> range_item \<Rightarrow> (int \<times> int) result" where
  "range_bounds role it =
     (let prefixed = role \<in> {''target'', ''instruction_donor''}
      in rbind (dict_item (ri_ints it) (if prefixed then role @ ''_start'' else ''start'')) (\<lambda>start.
         rbind (dict_item (ri_ints it) (if prefixed then role @ ''_end'' else ''end'')) (\<lambda>stop.
           Inr (start, stop))))"

lemma certify_range_sound:
  assumes "certify_range body offsets role it = Inr n"
    and "\<And>x. x \<in> set offsets \<Longrightarrow> 0 \<le> x \<and> x < len body"
  shows "\<exists>start stop anchor lengths. range_bounds role it = Inr (start, stop)
     \<and> anchor \<in> set offsets \<and> (\<forall>x \<in> set offsets. x \<le> start \<longrightarrow> x \<le> anchor)
     \<and> certified_span body anchor start stop lengths
     \<and> (\<forall>declared. map_of (ri_lists it) (role @ ''_instruction_lengths'') = Some declared
           \<longrightarrow> declared = lengths)"
proof -
  from assms(1) obtain start stop sp where
    bounds: "range_bounds role it = Inr (start, stop)"
    and anchors: "filter (\<lambda>x. x \<le> start) offsets \<noteq> []"
    and walk: "certified_walk body (Max (set (filter (\<lambda>x. x \<le> start) offsets))) stop = Inr sp"
    and ends: "start \<in> set (Max (set (filter (\<lambda>x. x \<le> start) offsets)) # map (\<lambda>(s, n). s + n) sp)"
      "stop \<in> set (Max (set (filter (\<lambda>x. x \<le> start) offsets)) # map (\<lambda>(s, n). s + n) sp)"
    and lengths: "case map_of (ri_lists it) (role @ ''_instruction_lengths'') of None \<Rightarrow> True
      | Some d \<Rightarrow> map snd (filter (\<lambda>(c, n). start \<le> c \<and> c + n \<le> stop) sp) = d"
    unfolding certify_range_def range_bounds_def Let_def rbind_eq_Inr require_eq_Inr by blast
  let ?a = "Max (set (filter (\<lambda>x. x \<le> start) offsets))"
  have "?a \<in> set (filter (\<lambda>x. x \<le> start) offsets)" using anchors by (intro Max_in) (simp_all only: finite_set set_empty not_False_eq_True)
  then have a: "?a \<in> set offsets" "0 \<le> ?a" "?a \<le> len body" using assms(2) by force+
  have "\<forall>x \<in> set offsets. x \<le> start \<longrightarrow> x \<le> ?a" by simp
  then show ?thesis
    using bounds a(1) certified_walk_span [OF walk a(2,3) ends] lengths
    by (intro exI [of _ start] exI [of _ stop] exI [of _ ?a] exI) (auto split: option.splits)
qed

text \<open>
  The code offsets the compiler's line table of a section names: the first four bytes of each
  six-byte row after the sentinel.
\<close>

definition line_boundaries :: "coff_object \<Rightarrow> coff_section \<Rightarrow> int set" where
  "line_boundaries coff section =
     (\<lambda>i. from_bytes (pslice (coff_table_bytes coff section ''lines'') (6 * i) (6 * i + 4)))
       ` {1..<sec_line_count section}"

lemma line_rows_offsets:
  assumes "rfold (line_row lines n) (p, acc) rows = Inr (q, offsets)"
  shows "offsets = acc @ map (\<lambda>i. from_bytes (pslice lines (6 * i) (6 * i + 4))) rows"
  using assms
proof (induction rows arbitrary: p acc)
  case (Cons i rows)
  let ?x = "from_bytes (pslice lines (i * 6) (i * 6 + 4))"
  obtain s where s: "line_row lines n (p, acc) i = Inr s" "rfold (line_row lines n) s rows = Inr (q, offsets)"
    using Cons.prems by auto
  have "s = (?x, acc @ [?x])" using s(1) by (auto simp: line_row_def)
  then have "rfold (line_row lines n) (?x, acc @ [?x]) rows = Inr (q, offsets)" using s(2) by simp
  from Cons.IH [OF this] show ?case by (simp add: mult.commute)
qed simp

text \<open>
  C20.  Ranges certified against the compiler's line table are instruction-aligned: for
  every range of an accepted call, the last code offset of the section's line table at or
  before the range start begins a
  sequence of complete supported instructions that reaches the range start exactly and
  then the range end exactly, inside the body, and declared instruction lengths, when
  present, are the lengths of the instructions of the range.
\<close>

theorem line_certified_ranges_aligned:
  assumes "require_coff_line_certified_ia32_boundaries coff section body ranges role mangled = Inr n"
    and "it \<in> set ranges"
  shows "\<exists>start stop anchor lengths. range_bounds role it = Inr (start, stop) \<and> 0 \<le> anchor
     \<and> anchor \<in> line_boundaries coff section
     \<and> (\<forall>x \<in> line_boundaries coff section. x \<le> start \<longrightarrow> x \<le> anchor)
     \<and> certified_span body anchor start stop lengths
     \<and> (\<forall>declared. map_of (ri_lists it) (role @ ''_instruction_lengths'') = Some declared
           \<longrightarrow> declared = lengths)"
proof -
  from assms(1) obtain p offsets counts where
    rows: "rfold (line_row (coff_table_bytes coff section ''lines'') (len body)) (- 1, []) (pyrange 1 (sec_line_count section))
             = Inr (p, offsets)"
    and counts: "rmap (certify_range body offsets role) ranges = Inr counts"
    unfolding require_coff_line_certified_ia32_boundaries_def Let_def rbind_eq_Inr require_eq_Inr
    by (auto simp del: coff_unpack_Inr)
  have offsets: "set offsets = line_boundaries coff section"
    using line_rows_offsets [OF rows] by (simp add: line_boundaries_def)
  obtain k where "certify_range body offsets role it = Inr k"
    using counts assms(2) by (auto simp: rmap_eq_Inr list_all2_conv_all_nth in_set_conv_nth)
  from certify_range_sound [OF this line_rows_bounds [OF rows]]
  show ?thesis using line_rows_bounds [OF rows] offsets by metis
qed

text \<open>Lines at offsets 0 and 2 of \<^verbatim>\<open>xor edi,edi; mov edx,[esp+20]; ret\<close>.\<close>

definition lined_object :: coff_object where
  "lined_object = sample_object
     \<lparr>co_data := [2, 0, 0, 0, 0, 0,  0, 0, 0, 0, 1, 0,  2, 0, 0, 0, 2, 0]\<rparr>"

definition lined_section :: coff_section where
  "lined_section = sample_text\<lparr>sec_line_offset := 0, sec_line_count := 3\<rparr>"

definition lined_item :: range_item where
  "lined_item = \<lparr>ri_ints = [(''start'', 2), (''end'', 6)],
                 ri_lists = [(''seed_instruction_lengths'', [4])]\<rparr>"

theorem line_certified_ranges_aligned_witness:
  "certified_span [0x33, 0xFF, 0x8B, 0x54, 0x24, 0x14, 0xC3] 2 2 6 [4]"
proof -
  have accepted: "require_coff_line_certified_ia32_boundaries lined_object lined_section
      [0x33, 0xFF, 0x8B, 0x54, 0x24, 0x14, 0xC3] [lined_item] ''seed'' ''_f'' = Inr 1"
    by code_simp
  have "range_bounds ''seed'' lined_item = Inr (2, 6)"
    "map_of (ri_lists lined_item) (''seed'' @ ''_instruction_lengths'') = Some [4]"
    by code_simp+
  moreover have "line_boundaries lined_object lined_section = {0, 2}" by code_simp
  ultimately show ?thesis
    using line_certified_ranges_aligned [OF accepted, of lined_item] by auto
qed

end
