(* ===== verification/Small_Msf.thy ===== *)
theory Small_Msf
  imports Prelude
begin

text \<open>
  The SmallMSF container of PDB 2.00 (\<^verbatim>\<open>src/reprobit/small_msf.py\<close>): the stream table,
  the header with its directory and free-page map, the ownership check that accounts for
  every page of the file, and the translation of a logical stream range into the physical
  byte ranges that hold it.  The sets of pages are duplicate-free lists.  \<^verbatim>\<open>math.ceil\<close> of
  a quotient by a power of two is exact for the 32-bit sizes of the format.
\<close>

section \<open>The stream table\<close>

record small_msf_stream =
  sms_size :: int
  sms_pages :: "int list"

record small_msf_stream_table =
  smt_streams :: "small_msf_stream option list"
  smt_pointer_offsets :: "int list"

definition msf_u16 :: "bytes \<Rightarrow> int \<Rightarrow> int result" where
  "msf_u16 data off = require (0 \<le> off \<and> off \<le> len data - 2) ''is truncated'' (unpack_u16 data off)"

definition msf_u32 :: "bytes \<Rightarrow> int \<Rightarrow> int result" where
  "msf_u32 data off = require (0 \<le> off \<and> off \<le> len data - 4) ''is truncated'' (unpack_u32 data off)"

definition small_msf_page_size :: int where
  "small_msf_page_size = 1024"

definition deleted_stream_size :: int where
  "deleted_stream_size = 0xFFFFFFFF"

definition data_page_min :: int where
  "data_page_min = 17"

text \<open>\<^verbatim>\<open>math.ceil(size / page_size)\<close> for a non-negative size.\<close>

definition pages_for :: "int \<Rightarrow> int \<Rightarrow> int" where
  "pages_for n page_size = (n + page_size - 1) div page_size"

definition stream_step ::
    "bytes \<Rightarrow> int \<Rightarrow> small_msf_stream option list \<times> int list \<times> int \<Rightarrow> int
     \<Rightarrow> (small_msf_stream option list \<times> int list \<times> int) result" where
  "stream_step data page_count state stream_number =
     (case state of (streams, pointer_offsets, cursor) \<Rightarrow>
      let descriptor = 4 + stream_number * 8 in
      rbind (msf_u32 data descriptor) (\<lambda>n.
      let pointer_offsets = pointer_offsets @ [descriptor + 4] in
      if n = deleted_stream_size then Inr (streams @ [None], pointer_offsets, cursor)
      else
        require (n \<le> page_count * small_msf_page_size) ''is larger than the file'' (
        let number = pages_for n small_msf_page_size in
        require (cursor \<le> len data - number * 2) ''page list is truncated'' (
        rbind (rmap (\<lambda>index. msf_u16 data (cursor + index * 2)) (pyrange 0 number)) (\<lambda>pages.
        require (list_all (\<lambda>page. page < page_count) pages) ''references an invalid page'' (
        require (distinct pages) ''repeats a page'' (
          Inr (streams @ [Some \<lparr>sms_size = n, sms_pages = pages\<rparr>], pointer_offsets,
               cursor + number * 2))))))))"

definition parse_small_msf_stream_table :: "bytes \<Rightarrow> int \<Rightarrow> small_msf_stream_table result" where
  "parse_small_msf_stream_table data page_count =
     require (len data \<ge> 4) ''header is truncated'' (
     rbind (msf_u16 data 0) (\<lambda>stream_count.
     rbind (msf_u16 data 2) (\<lambda>reserved.
     require (reserved = 0) ''is not canonical'' (
     require (0 < stream_count \<and> stream_count \<le> 0x1000) ''stream count is unsupported'' (
     let descriptor_end = 4 + stream_count * 8 in
     require (descriptor_end \<le> len data) ''descriptors are truncated'' (
     rbind (rfold (stream_step data page_count) ([], [], descriptor_end)
              (pyrange 0 stream_count)) (\<lambda>(streams, pointer_offsets, cursor).
     require (cursor = len data) ''has trailing or missing page data'' (
       Inr \<lparr>smt_streams = streams, smt_pointer_offsets = pointer_offsets\<rparr>))))))))"

section \<open>The file\<close>

definition small_msf_magic :: bytes where
  "small_msf_magic =
     bytes_of_string ''Microsoft C/C++ program database 2.00'' @ [13, 10, 26, 0x4A, 0x47, 0, 0]"

record small_msf =
  msf_data :: bytes
  msf_page_size :: int
  msf_fpm_page :: int
  msf_page_count :: int
  msf_fpm_pages :: "int list"
  msf_reserved_pages :: "int list"
  msf_directory_size :: int
  msf_directory_pages :: "int list"
  msf_directory :: small_msf_stream_table
  msf_free_pages :: "int list"
  msf_current_page_owners :: "(int \<times> int) list"

definition msf_streams :: "small_msf \<Rightarrow> small_msf_stream option list" where
  "msf_streams msf = smt_streams (msf_directory msf)"

definition read_pages :: "bytes \<Rightarrow> int \<Rightarrow> int list \<Rightarrow> int \<Rightarrow> bytes" where
  "read_pages data page_size pages n =
     pslice (concat (map (\<lambda>page. pslice data (page * page_size) ((page + 1) * page_size)) pages)) 0 n"

definition parse_free_pages :: "bytes \<Rightarrow> int \<Rightarrow> int list \<Rightarrow> int \<Rightarrow> int list result" where
  "parse_free_pages data page_size fpm_pages page_count =
     (let fpm = read_pages data page_size fpm_pages (8 * page_size)
      in rbind (rmap (\<lambda>page. rbind (byte_at fpm (page div 8)) (\<lambda>b.
              Inr (if b AND push_bit (nat (page mod 8)) 1 \<noteq> 0 then [page] else [])))
           (pyrange 0 page_count)) (\<lambda>rows. Inr (concat rows)))"

text \<open>\<^verbatim>\<open>_validate_current_page_ownership\<close>: the claims of one page, then of the streams.\<close>

definition own_page ::
    "int list \<Rightarrow> int list \<Rightarrow> int \<Rightarrow> (int \<times> int) list \<Rightarrow> int \<Rightarrow> (int \<times> int) list result" where
  "own_page structural free_pages stream_number owner page =
     require (page \<notin> set structural) ''aliases a structural page'' (
     require (page \<notin> fst ` set owner) ''belongs to multiple streams'' (
     require (page \<notin> set free_pages \<or> stream_number = 0) ''is marked free'' (
       Inr (owner @ [(page, stream_number)]))))"

definition own_stream ::
    "int list \<Rightarrow> int list \<Rightarrow> (int \<times> int) list \<Rightarrow> int \<times> small_msf_stream option
     \<Rightarrow> (int \<times> int) list result" where
  "own_stream structural free_pages owner entry =
     (case entry of
        (_, None) \<Rightarrow> Inr owner
      | (stream_number, Some stream) \<Rightarrow>
          rfold (own_page structural free_pages stream_number) owner (sms_pages stream))"

definition validate_current_page_ownership ::
    "int list \<Rightarrow> int list \<Rightarrow> small_msf_stream option list \<Rightarrow> int list \<Rightarrow> int
     \<Rightarrow> (int \<times> int) list result" where
  "validate_current_page_ownership reserved_pages directory_pages streams free_pages page_count =
     (let structural = reserved_pages @ directory_pages in
      require (list_all (\<lambda>page. page \<notin> set free_pages) structural)
        ''SmallMSF marks a structural page free'' (
      rbind (rfold (own_stream structural free_pages) [] (enumerate_int streams)) (\<lambda>owner.
      rbind (item streams 0) (\<lambda>zero.
      case zero of
        None \<Rightarrow> Inl (ByteIdentityError ''SmallMSF stream 0 is deleted'')
      | Some stream_zero \<Rightarrow>
          require (list_all (\<lambda>page. page \<in> set free_pages) (sms_pages stream_zero))
            ''SmallMSF stream 0 container page is not free'' (
          require (list_all (\<lambda>page. page \<in> set directory_pages \<or> page \<in> fst ` set owner
                                    \<or> page \<in> set free_pages) (pyrange data_page_min page_count))
            ''SmallMSF data page has no owner'' (
            Inr owner))))))"

text \<open>\<^verbatim>\<open>SmallMsf.__init__\<close>.\<close>

definition small_msf_parse :: "bytes \<Rightarrow> small_msf result" where
  "small_msf_parse data =
     require (pslice data 0 (len small_msf_magic) = small_msf_magic) ''unsupported PDB/MSF magic'' (
     require (len data \<ge> small_msf_page_size) ''SmallMSF header page is truncated'' (
     rbind (msf_u32 data 44) (\<lambda>page_size.
     require (page_size = small_msf_page_size)
       ''only 1 KiB-page PDB 2.00 SmallMSF files are supported'' (
     rbind (msf_u16 data 48) (\<lambda>fpm_page.
     rbind (msf_u16 data 50) (\<lambda>page_count.
     require (data_page_min < page_count \<and> page_count \<le> 0xFFFF)
       ''SmallMSF page count is unsupported'' (
     require (len data = page_count * page_size)
       ''SmallMSF file size does not match its page count'' (
     require (fpm_page \<in> {1, 9}) ''SmallMSF active FPM bank is invalid'' (
     let fpm_pages = pyrange fpm_page (fpm_page + 8);
         reserved_pages = pyrange 0 data_page_min
     in
     rbind (msf_u32 data 52) (\<lambda>directory_size.
     require (directory_size \<ge> 4) ''SmallMSF directory is truncated'' (
     let directory_page_count = pages_for directory_size page_size in
     require (60 + directory_page_count * 2 \<le> page_size)
       ''SmallMSF directory page list exceeds the header page'' (
     rbind (rmap (\<lambda>index. msf_u16 data (60 + index * 2)) (pyrange 0 directory_page_count))
       (\<lambda>directory_pages.
     require (list_all (\<lambda>page. page < page_count) directory_pages)
       ''SmallMSF directory references an invalid page'' (
     require (distinct directory_pages) ''SmallMSF directory repeats a page'' (
     require (list_all (\<lambda>page. page \<notin> set reserved_pages) directory_pages)
       ''SmallMSF directory aliases a structural page'' (
     let directory_bytes = read_pages data page_size directory_pages directory_size in
     rbind (parse_small_msf_stream_table directory_bytes page_count) (\<lambda>directory.
     rbind (parse_free_pages data page_size fpm_pages page_count) (\<lambda>free_pages.
     rbind (validate_current_page_ownership reserved_pages directory_pages
              (smt_streams directory) free_pages page_count) (\<lambda>owner.
       Inr \<lparr>msf_data = data, msf_page_size = page_size, msf_fpm_page = fpm_page,
            msf_page_count = page_count, msf_fpm_pages = fpm_pages,
            msf_reserved_pages = reserved_pages, msf_directory_size = directory_size,
            msf_directory_pages = directory_pages, msf_directory = directory,
            msf_free_pages = free_pages, msf_current_page_owners = owner\<rparr>)))))))))))))))))))"

definition require_stream :: "small_msf \<Rightarrow> int \<Rightarrow> small_msf_stream result" where
  "require_stream msf stream_number =
     require (0 \<le> stream_number \<and> stream_number < len (msf_streams msf))
       ''references missing stream'' (
     rbind (item (msf_streams msf) stream_number) (\<lambda>stream.
     case stream of None \<Rightarrow> Inl (ByteIdentityError ''references deleted stream'')
                  | Some s \<Rightarrow> Inr s))"

definition read_stream :: "small_msf \<Rightarrow> int \<Rightarrow> bytes result" where
  "read_stream msf stream_number =
     rbind (require_stream msf stream_number) (\<lambda>stream.
       Inr (read_pages (msf_data msf) (msf_page_size msf) (sms_pages stream) (sms_size stream)))"

text \<open>
  The loop of \<^verbatim>\<open>_logical_ranges\<close>.  The source tests \<^verbatim>\<open>while remaining\<close>; the remaining
  size starts positive and is never taken below zero.
\<close>

function logical_ranges_loop :: "int \<Rightarrow> int list \<Rightarrow> int \<Rightarrow> int \<Rightarrow> (int \<times> int) list result" where
  "logical_ranges_loop page_size pages cursor remaining =
     (if 0 < remaining \<and> 0 < page_size
      then let page_index = cursor div page_size; within_page = cursor mod page_size;
               number = min remaining (page_size - within_page)
           in rbind (item pages page_index) (\<lambda>page.
              let absolute = page * page_size + within_page in
              rbind (logical_ranges_loop page_size pages (cursor + number) (remaining - number)) (\<lambda>rest.
                Inr ((absolute, absolute + number) # rest)))
      else Inr [])"
  by pat_completeness auto
termination
  by (relation "measure (\<lambda>(_, _, _, remaining). nat remaining)")
     (auto simp: min_def)

declare logical_ranges_loop.simps [simp del]

definition logical_ranges ::
    "small_msf \<Rightarrow> int list \<Rightarrow> int \<Rightarrow> int \<Rightarrow> int \<Rightarrow> (int \<times> int) list result" where
  "logical_ranges msf pages logical_size off n =
     require (n > 0) ''range is empty'' (
     require (0 \<le> off \<and> off \<le> logical_size - n) ''range exceeds its stream'' (
       logical_ranges_loop (msf_page_size msf) pages off n))"

definition stream_ranges :: "small_msf \<Rightarrow> int \<Rightarrow> int \<Rightarrow> int \<Rightarrow> (int \<times> int) list result" where
  "stream_ranges msf stream_number off n =
     rbind (require_stream msf stream_number) (\<lambda>stream.
       logical_ranges msf (sms_pages stream) (sms_size stream) off n)"

definition directory_ranges :: "small_msf \<Rightarrow> int \<Rightarrow> int \<Rightarrow> (int \<times> int) list result" where
  "directory_ranges msf off n =
     logical_ranges msf (msf_directory_pages msf) (msf_directory_size msf) off n"

definition unreferenced_free_pages :: "small_msf \<Rightarrow> int list" where
  "unreferenced_free_pages msf =
     (let roots = msf_reserved_pages msf @ msf_directory_pages msf
                    @ map fst (msf_current_page_owners msf)
      in filter (\<lambda>page. page \<notin> set roots) (sort (msf_free_pages msf)))"

section \<open>Lemmas on the stream table\<close>

definition stream_ok :: "int \<Rightarrow> small_msf_stream \<Rightarrow> bool" where
  "stream_ok page_count s =
     (0 \<le> sms_size s \<and> sms_size s \<le> page_count * small_msf_page_size
      \<and> len (sms_pages s) = pages_for (sms_size s) small_msf_page_size
      \<and> distinct (sms_pages s) \<and> list_all (\<lambda>p. 0 \<le> p \<and> p < page_count) (sms_pages s))"

definition stream_ok_opt :: "int \<Rightarrow> small_msf_stream option \<Rightarrow> bool" where
  "stream_ok_opt page_count s = (case s of None \<Rightarrow> True | Some t \<Rightarrow> stream_ok page_count t)"

definition stream_pages :: "small_msf_stream option \<Rightarrow> int list" where
  "stream_pages s = (case s of None \<Rightarrow> [] | Some t \<Rightarrow> sms_pages t)"

lemma msf_u16_Inr [simp]:
  "msf_u16 data off = Inr v \<longleftrightarrow>
     0 \<le> off \<and> off + 2 \<le> len data \<and> v = from_bytes (pslice data off (off + 2))"
  by (auto simp: msf_u16_def unpack_u16_def unpack_uint_Inr)

lemma msf_u32_Inr [simp]:
  "msf_u32 data off = Inr v \<longleftrightarrow>
     0 \<le> off \<and> off + 4 \<le> len data \<and> v = from_bytes (pslice data off (off + 4))"
  by (auto simp: msf_u32_def unpack_u32_def unpack_uint_Inr)

lemma pages_for_nonneg: "0 \<le> n \<Longrightarrow> 0 \<le> pages_for n small_msf_page_size"
  by (simp add: pages_for_def small_msf_page_size_def)

lemma msf_u16_nonneg: "msf_u16 data off = Inr v \<Longrightarrow> 0 \<le> v"
  by simp

lemma stream_step_Inr:
  assumes "stream_step data page_count (streams, pointers, cursor) k = Inr (streams', pointers', cursor')"
  obtains s where "streams' = streams @ [s]" and "pointers' = pointers @ [4 + k * 8 + 4]"
    and "cursor' = cursor + 2 * len (stream_pages s)" and "stream_ok_opt page_count s"
proof -
  let ?n = "from_bytes (pslice data (4 + k * 8) (4 + k * 8 + 4))"
  show ?thesis
  proof (cases "?n = deleted_stream_size")
    case True
    then show ?thesis using assms that [of None]
      by (auto simp: stream_step_def Let_def stream_ok_opt_def stream_pages_def)
  next
    case False
    from assms False obtain pages where
      rows: "rmap (\<lambda>i. msf_u16 data (cursor + i * 2)) (pyrange 0 (pages_for ?n small_msf_page_size))
              = Inr pages"
      and ok: "list_all (\<lambda>p. p < page_count) pages" "distinct pages"
        "?n \<le> page_count * small_msf_page_size"
      and eq: "streams' = streams @ [Some \<lparr>sms_size = ?n, sms_pages = pages\<rparr>]"
        "pointers' = pointers @ [4 + k * 8 + 4]"
        "cursor' = cursor + pages_for ?n small_msf_page_size * 2"
      by (auto simp: stream_step_def Let_def simp del: msf_u16_Inr)
    have "len pages = pages_for ?n small_msf_page_size"
      using rmap_length [OF rows] by (simp add: pages_for_nonneg)
    moreover have "\<forall>p \<in> set pages. 0 \<le> p"
      using rmap_in_set [OF rows] msf_u16_nonneg by blast
    ultimately show ?thesis using eq ok that
      by (auto simp: stream_ok_opt_def stream_ok_def stream_pages_def list_all_iff)
  qed
qed

definition table_shape ::
    "int \<Rightarrow> int \<Rightarrow> small_msf_stream option list \<times> int list \<times> int \<Rightarrow> bool" where
  "table_shape page_count start st =
     (case st of (streams, pointers, cursor) \<Rightarrow>
        length pointers = length streams \<and> list_all (stream_ok_opt page_count) streams
        \<and> cursor = start + 2 * sum_list (map (\<lambda>s. len (stream_pages s)) streams))"

lemma stream_step_shape:
  "table_shape pc d st \<Longrightarrow> stream_step data pc st k = Inr st' \<Longrightarrow> table_shape pc d st'"
  by (cases st; cases st') (auto simp: table_shape_def elim!: stream_step_Inr)

lemma stream_fold_length:
  "rfold (stream_step data pc) st ks = Inr st' \<Longrightarrow> length (fst st') = length (fst st) + length ks"
proof (induction ks arbitrary: st)
  case (Cons k ks)
  from Cons.prems obtain mid where mid: "stream_step data pc st k = Inr mid"
    "rfold (stream_step data pc) mid ks = Inr st'" by auto
  have "length (fst mid) = Suc (length (fst st))"
    using mid(1) by (cases st; cases mid) (auto elim!: stream_step_Inr)
  then show ?case using Cons.IH [OF mid(2)] by simp
qed simp

lemma stream_table_parsed:
  assumes "parse_small_msf_stream_table data page_count = Inr t"
  shows "list_all (stream_ok_opt page_count) (smt_streams t)
    \<and> 0 < length (smt_streams t) \<and> length (smt_streams t) \<le> 0x1000
    \<and> len (smt_streams t) = from_bytes (pslice data 0 2)
    \<and> length (smt_pointer_offsets t) = length (smt_streams t)
    \<and> len data = 4 + 8 * len (smt_streams t)
        + 2 * sum_list (map (\<lambda>s. len (stream_pages s)) (smt_streams t))"
proof -
  let ?n = "from_bytes (pslice data 0 2)"
  from assms obtain pointers where
    fold: "rfold (stream_step data page_count) ([], [], 4 + ?n * 8) (pyrange 0 ?n)
             = Inr (smt_streams t, pointers, len data)"
    and n: "0 < ?n" "?n \<le> 0x1000" and p: "smt_pointer_offsets t = pointers"
    by (auto simp: parse_small_msf_stream_table_def Let_def)
  have "table_shape page_count (4 + ?n * 8) (smt_streams t, pointers, len data)"
    by (rule rfold_invariant [OF fold]) (simp add: table_shape_def, rule stream_step_shape)
  moreover have "length (smt_streams t) = nat ?n" using stream_fold_length [OF fold] by simp
  ultimately show ?thesis using n p by (simp add: table_shape_def nat_le_iff)
qed

section \<open>Lemmas on page ownership\<close>

definition claims_of :: "int \<times> small_msf_stream option \<Rightarrow> (int \<times> int) list" where
  "claims_of entry = map (\<lambda>p. (p, fst entry)) (stream_pages (snd entry))"

definition claim_ok :: "int list \<Rightarrow> int list \<Rightarrow> int \<times> int \<Rightarrow> bool" where
  "claim_ok structural free c =
     (fst c \<notin> set structural \<and> (fst c \<in> set free \<longrightarrow> snd c = 0))"

lemma own_page_Inr:
  "own_page st fr k owner p = Inr owner' \<longleftrightarrow>
     claim_ok st fr (p, k) \<and> p \<notin> fst ` set owner \<and> owner' = owner @ [(p, k)]"
  by (auto simp: own_page_def claim_ok_def)

lemma own_pages_Inr:
  "rfold (own_page st fr k) owner pages = Inr owner' \<Longrightarrow>
     owner' = owner @ map (\<lambda>p. (p, k)) pages
     \<and> (distinct (map fst owner) \<longrightarrow> distinct (map fst owner'))
     \<and> list_all (claim_ok st fr) (map (\<lambda>p. (p, k)) pages)"
proof (induction pages arbitrary: owner)
  case (Cons p pages)
  from Cons.prems have p: "claim_ok st fr (p, k)" "p \<notin> fst ` set owner"
    and rest: "rfold (own_page st fr k) (owner @ [(p, k)]) pages = Inr owner'"
    by (auto simp: own_page_Inr)
  note IH = Cons.IH [OF rest]
  show ?case
  proof (intro conjI impI)
    show "owner' = owner @ map (\<lambda>p. (p, k)) (p # pages)" using IH by simp
    show "distinct (map fst owner')" if "distinct (map fst owner)"
    proof -
      have "distinct (map fst (owner @ [(p, k)]))" using p that by simp
      then show ?thesis using IH by blast
    qed
    show "list_all (claim_ok st fr) (map (\<lambda>p. (p, k)) (p # pages))" using IH p by simp
  qed
qed simp

lemma own_streams_Inr:
  "rfold (own_stream st fr) owner entries = Inr owner' \<Longrightarrow>
     owner' = owner @ concat (map claims_of entries)
     \<and> (distinct (map fst owner) \<longrightarrow> distinct (map fst owner'))
     \<and> list_all (claim_ok st fr) (concat (map claims_of entries))"
proof (induction entries arbitrary: owner)
  case (Cons e entries)
  from Cons.prems obtain mid where mid: "own_stream st fr owner e = Inr mid"
    and rest: "rfold (own_stream st fr) mid entries = Inr owner'" by auto
  have m: "mid = owner @ claims_of e \<and> (distinct (map fst owner) \<longrightarrow> distinct (map fst mid))
        \<and> list_all (claim_ok st fr) (claims_of e)"
    using mid own_pages_Inr
    by (cases e; cases "snd e") (auto simp: own_stream_def claims_of_def stream_pages_def)
  note IH = Cons.IH [OF rest]
  show ?case
  proof (intro conjI impI)
    show "owner' = owner @ concat (map claims_of (e # entries))" using IH m by simp
    show "distinct (map fst owner')" if "distinct (map fst owner)" using IH m that by blast
    show "list_all (claim_ok st fr) (concat (map claims_of (e # entries)))" using IH m by simp
  qed
qed simp

lemma enumerate_int_set:
  "(k, x) \<in> set (enumerate_int xs) \<longleftrightarrow> 0 \<le> k \<and> k < len xs \<and> x = xs ! nat k"
  by (auto simp: enumerate_int_def set_zip) (metis int_nat_eq nat_less_iff nth_pyrange diff_zero nat_int add_0)

definition owned_by :: "small_msf_stream option list \<Rightarrow> int \<Rightarrow> int \<Rightarrow> bool" where
  "owned_by streams p k \<longleftrightarrow> 0 \<le> k \<and> k < len streams \<and> p \<in> set (stream_pages (streams ! nat k))"

lemma ownership_parsed:
  assumes "validate_current_page_ownership reserved directory streams free page_count = Inr owner"
  shows "(\<forall>p k. (p, k) \<in> set owner \<longleftrightarrow> owned_by streams p k) \<and> distinct (map fst owner)
    \<and> (\<forall>p k. owned_by streams p k \<longrightarrow>
          p \<notin> set reserved \<and> p \<notin> set directory \<and> (p \<in> set free \<longleftrightarrow> k = 0))
    \<and> (\<forall>p \<in> set reserved \<union> set directory. p \<notin> set free)
    \<and> (\<forall>p. 17 \<le> p \<and> p < page_count \<longrightarrow> p \<in> set directory \<or> p \<in> fst ` set owner \<or> p \<in> set free)
    \<and> (\<exists>s. streams \<noteq> [] \<and> streams ! 0 = Some s)"
proof -
  from assms obtain zero where
    fold: "rfold (own_stream (reserved @ directory) free) [] (enumerate_int streams) = Inr owner"
    and structural: "list_all (\<lambda>p. p \<notin> set free) (reserved @ directory)"
    and zero: "streams \<noteq> []" "streams ! 0 = Some zero" "list_all (\<lambda>p. p \<in> set free) (sms_pages zero)"
    and rest: "list_all (\<lambda>p. p \<in> set directory \<or> p \<in> fst ` set owner \<or> p \<in> set free)
                 (pyrange 17 page_count)"
    by (auto simp: validate_current_page_ownership_def Let_def item_def data_page_min_def
        split: option.splits if_splits)
  note o = own_streams_Inr [OF fold, simplified]
  have owner: "(p, k) \<in> set owner \<longleftrightarrow> owned_by streams p k" for p k
  proof -
    have "(p, k) \<in> set owner \<longleftrightarrow> (\<exists>e \<in> set (enumerate_int streams). (p, k) \<in> set (claims_of e))"
      using o by simp
    also have "\<dots> \<longleftrightarrow> owned_by streams p k"
      by (auto simp: enumerate_int_set claims_of_def owned_by_def
          intro!: bexI [of _ "(k, streams ! nat k)"])
    finally show ?thesis .
  qed
  have "claim_ok (reserved @ directory) free (p, k)" if "owned_by streams p k" for p k
    using that owner o by (auto simp: list_all_iff)
  moreover have "p \<in> set free" if "owned_by streams p 0" for p
    using that zero by (auto simp: owned_by_def stream_pages_def list_all_iff)
  ultimately show ?thesis
    using o owner structural rest zero(1,2) by (auto simp: claim_ok_def list_all_iff)
qed

section \<open>Lemmas on logical ranges\<close>

lemma concat_blocks_drop:
  "\<forall>x \<in> set xs. length x = n \<Longrightarrow> drop (i * n) (concat xs) = concat (drop i xs)"
proof (induction i arbitrary: xs)
  case (Suc i)
  then show ?case by (cases xs) auto
qed simp

lemma concat_block_slice:
  assumes "\<forall>x \<in> set xs. length x = n" "i < length xs" "0 \<le> a" "a \<le> b" "b \<le> int n"
  shows "pslice (concat xs) (int (i * n) + a) (int (i * n) + b) = pslice (xs ! i) a b"
proof -
  have "nat (int (i * n) + a) = nat a + i * n"
    using assms(3) by (simp add: nat_add_distrib del: of_nat_mult)
  then have "drop (nat (int (i * n) + a)) (concat xs) = drop (nat a) (concat (drop i xs))"
    using concat_blocks_drop [OF assms(1), of i] by (simp flip: drop_drop)
  moreover have "drop i xs = xs ! i # drop (Suc i) xs" using assms(2) by (rule Cons_nth_drop_Suc [symmetric])
  moreover have "length (xs ! i) = n" using assms(1,2) by simp
  ultimately show ?thesis using assms(3-5) by (simp add: pslice_nonneg)
qed

lemma length_concat_blocks: "\<forall>x \<in> set xs. length x = n \<Longrightarrow> length (concat xs) = length xs * n"
  by (induction xs) auto

definition page_bytes :: "bytes \<Rightarrow> int \<Rightarrow> int \<Rightarrow> bytes" where
  "page_bytes data page_size page = pslice data (page * page_size) ((page + 1) * page_size)"

definition pages_inside :: "bytes \<Rightarrow> int \<Rightarrow> int list \<Rightarrow> bool" where
  "pages_inside data page_size pages \<longleftrightarrow>
     (\<forall>p \<in> set pages. 0 \<le> p \<and> (p + 1) * page_size \<le> len data)"

definition range_bytes :: "bytes \<Rightarrow> (int \<times> int) list \<Rightarrow> bytes" where
  "range_bytes data ranges = concat (map (\<lambda>(a, b). pslice data a b) ranges)"

lemma page_bytes_length:
  "0 < page_size \<Longrightarrow> pages_inside data page_size pages \<Longrightarrow>
     \<forall>x \<in> set (map (page_bytes data page_size) pages). length x = nat page_size"
  by (auto simp: pages_inside_def page_bytes_def length_pslice distrib_right)

lemma page_slice:
  assumes "0 < page_size" "pages_inside data page_size pages" "0 \<le> cursor" "0 \<le> n"
    and "cursor div page_size < len pages" "cursor mod page_size + n \<le> page_size"
  shows "pslice (concat (map (page_bytes data page_size) pages)) cursor (cursor + n) =
    pslice data (pages ! nat (cursor div page_size) * page_size + cursor mod page_size)
      (pages ! nat (cursor div page_size) * page_size + cursor mod page_size + n)"
proof -
  define i a where "i = nat (cursor div page_size)" and "a = cursor mod page_size"
  have i: "i < length pages" and a: "0 \<le> a"
    using assms by (auto simp: i_def a_def nat_less_iff pos_imp_zdiv_nonneg_iff)
  have "int (i * nat page_size) = cursor div page_size * page_size"
    using assms(1,3) by (simp add: i_def pos_imp_zdiv_nonneg_iff)
  then have c: "cursor = int (i * nat page_size) + a" unfolding a_def by presburger
  have p: "0 \<le> pages ! i" "(pages ! i + 1) * page_size \<le> len data"
    using assms(2) i by (auto simp: pages_inside_def)
  have "pslice (concat (map (page_bytes data page_size) pages)) cursor (cursor + n) =
        pslice (page_bytes data page_size (pages ! i)) a (a + n)"
    unfolding c add.assoc
    using concat_block_slice [OF page_bytes_length [OF assms(1,2)], of i a "a + n"]
      i a assms(1,4,6) unfolding a_def [symmetric] by (simp del: of_nat_mult)
  also have "\<dots> = pslice data (pages ! i * page_size + a) (pages ! i * page_size + (a + n))"
    unfolding page_bytes_def using a p assms(1,4,6) unfolding a_def [symmetric]
    by (intro pslice_pslice) (auto simp: distrib_right)
  finally show ?thesis by (simp add: add.assoc i_def a_def)
qed

lemma logical_ranges_bytes:
  assumes "0 < page_size" "pages_inside data page_size pages"
    and "0 \<le> cursor" "0 \<le> remaining" "cursor + remaining \<le> len pages * page_size"
  shows "\<exists>rs. logical_ranges_loop page_size pages cursor remaining = Inr rs
     \<and> range_bytes data rs = pslice (concat (map (page_bytes data page_size) pages))
                                cursor (cursor + remaining)"
  using assms
proof (induction page_size pages cursor remaining rule: logical_ranges_loop.induct)
  case (1 page_size pages cursor remaining)
  show ?case
  proof (cases "remaining = 0")
    case True
    then show ?thesis by (simp add: logical_ranges_loop.simps range_bytes_def)
  next
    case False
    define i n where "i = cursor div page_size"
      and "n = min remaining (page_size - cursor mod page_size)"
    have pos: "0 < remaining \<and> 0 < page_size" using False "1.prems" by simp
    have within: "0 \<le> cursor mod page_size" "cursor mod page_size < page_size" using pos by simp_all
    have n: "0 < n" "n \<le> remaining" "cursor mod page_size + n \<le> page_size"
      using pos within by (auto simp: n_def)
    have "0 \<le> i" using pos "1.prems"(3) by (simp add: i_def pos_imp_zdiv_nonneg_iff)
    moreover have "i < len pages"
    proof -
      have "cursor < len pages * page_size" using pos "1.prems"(5) by linarith
      moreover have "i * page_size \<le> cursor"
        using within(1) div_mult_mod_eq [of cursor page_size] unfolding i_def by linarith
      ultimately have "i * page_size < len pages * page_size" by linarith
      then show ?thesis using pos mult_less_cancel_right_pos by blast
    qed
    ultimately have item: "item pages i = Inr (pages ! nat i)" by (simp add: item_def)
    let ?abs = "pages ! nat i * page_size + cursor mod page_size"
    from "1.IH" [OF pos i_def refl n_def item refl] "1.prems" n obtain rs where
      rs: "logical_ranges_loop page_size pages (cursor + n) (remaining - n) = Inr rs"
        "range_bytes data rs = pslice (concat (map (page_bytes data page_size) pages))
           (cursor + n) (cursor + remaining)" by auto
    have "logical_ranges_loop page_size pages cursor remaining = Inr ((?abs, ?abs + n) # rs)"
      using pos item rs(1) by (subst logical_ranges_loop.simps) (simp add: i_def n_def Let_def)
    moreover have "range_bytes data ((?abs, ?abs + n) # rs) =
        pslice (concat (map (page_bytes data page_size) pages)) cursor (cursor + remaining)"
    proof -
      have "pslice data ?abs (?abs + n) =
          pslice (concat (map (page_bytes data page_size) pages)) cursor (cursor + n)"
        using page_slice [of page_size data pages cursor n] "1.prems" n \<open>i < len pages\<close>
        by (simp add: i_def)
      then show ?thesis using rs(2) "1.prems"(3) n
        by (simp add: range_bytes_def pslice_append)
    qed
    ultimately show ?thesis by blast
  qed
qed

section \<open>The parsed file\<close>

lemma small_msf_parse_parts:
  assumes "small_msf_parse data = Inr msf"
  shows "msf_data msf = data \<and> msf_page_size msf = 1024 \<and> len data = msf_page_count msf * 1024
    \<and> 17 < msf_page_count msf
    \<and> msf_reserved_pages msf = pyrange 0 17
    \<and> distinct (msf_directory_pages msf)
    \<and> list_all (\<lambda>p. 17 \<le> p \<and> p < msf_page_count msf) (msf_directory_pages msf)
    \<and> len (msf_directory_pages msf) = pages_for (msf_directory_size msf) 1024
    \<and> parse_small_msf_stream_table
        (read_pages data 1024 (msf_directory_pages msf) (msf_directory_size msf)) (msf_page_count msf)
      = Inr (msf_directory msf)
    \<and> parse_free_pages data 1024 (msf_fpm_pages msf) (msf_page_count msf) = Inr (msf_free_pages msf)
    \<and> validate_current_page_ownership (msf_reserved_pages msf) (msf_directory_pages msf)
        (msf_streams msf) (msf_free_pages msf) (msf_page_count msf)
      = Inr (msf_current_page_owners msf)"
proof -
  from assms obtain fpm count n dirs table free owner where
    c: "17 < count" "len data = count * 1024"
    and n: "msf_u32 data 52 = Inr n"
    and rows: "rmap (\<lambda>i. msf_u16 data (60 + i * 2)) (pyrange 0 (pages_for n 1024)) = Inr dirs"
    and dirs: "list_all (\<lambda>p. p < count) dirs" "distinct dirs"
      "list_all (\<lambda>p. p \<notin> set (pyrange 0 17)) dirs"
    and table: "parse_small_msf_stream_table (read_pages data 1024 dirs n) count = Inr table"
    and free: "parse_free_pages data 1024 (pyrange fpm (fpm + 8)) count = Inr free"
    and owner: "validate_current_page_ownership (pyrange 0 17) dirs (smt_streams table) free count
      = Inr owner"
    and msf: "msf = \<lparr>msf_data = data, msf_page_size = 1024, msf_fpm_page = fpm,
            msf_page_count = count, msf_fpm_pages = pyrange fpm (fpm + 8),
            msf_reserved_pages = pyrange 0 17, msf_directory_size = n,
            msf_directory_pages = dirs, msf_directory = table,
            msf_free_pages = free, msf_current_page_owners = owner\<rparr>"
    unfolding small_msf_parse_def Let_def rbind_eq_Inr require_eq_Inr small_msf_page_size_def
      data_page_min_def sum.inject by blast
  have "0 \<le> n" using n by simp
  then have len: "len dirs = pages_for n 1024"
    using rmap_length [OF rows] pages_for_nonneg [of n] by (simp add: small_msf_page_size_def)
  have "\<forall>p \<in> set dirs. 0 \<le> p" using rmap_in_set [OF rows] msf_u16_nonneg by blast
  then have "list_all (\<lambda>p. 17 \<le> p \<and> p < count) dirs"
    using dirs by (auto simp: list_all_iff)
  then show ?thesis using c dirs table free owner len by (simp add: msf msf_streams_def)
qed

lemma parsed_streams_ok:
  "small_msf_parse data = Inr msf \<Longrightarrow> list_all (stream_ok_opt (msf_page_count msf)) (msf_streams msf)"
  by (drule small_msf_parse_parts) (auto dest!: stream_table_parsed simp: msf_streams_def)

lemma free_pages_range:
  assumes "parse_free_pages data n fpm count = Inr free"
  shows "\<forall>p \<in> set free. 0 \<le> p \<and> p < count"
  using assms rmap_in_set
  by (fastforce simp: parse_free_pages_def Let_def split: if_splits)

lemma pages_for_covers: "0 \<le> n \<Longrightarrow> n \<le> pages_for n 1024 * 1024"
  using div_mult_mod_eq [of "n + 1024 - 1" 1024] pos_mod_bound [of 1024 "n + 1024 - 1"]
  unfolding pages_for_def by linarith

section \<open>A sample container\<close>

text \<open>
  Twenty pages: the header, a free-page map, the directory on page 17, stream 0 on page
  18 (marked free) and stream 1 on page 19.
\<close>

definition sample_content :: "nat \<Rightarrow> bytes" where
  "sample_content i =
     (if i = 0 then small_msf_magic @
        [0, 4, 0, 0, 1, 0, 20, 0, 24, 0, 0, 0, 0, 0, 0, 0, 17, 0]
      else if i = 1 then [0, 0, 4]
      else if i = 17 then [2, 0, 0, 0, 10, 0, 0, 0, 0, 0, 0, 0, 5, 0, 0, 0, 0, 0, 0, 0, 18, 0, 19, 0]
      else if i = 19 then [104, 101, 108, 108, 111]
      else [])"

definition sample_page :: "nat \<Rightarrow> bytes" where
  "sample_page i = sample_content i @ replicate (1024 - length (sample_content i)) 0"

definition sample_msf_data :: bytes where
  "sample_msf_data = concat (map sample_page [0..<20])"

definition sample_table :: small_msf_stream_table where
  "sample_table =
     \<lparr>smt_streams = [Some \<lparr>sms_size = 10, sms_pages = [18]\<rparr>, Some \<lparr>sms_size = 5, sms_pages = [19]\<rparr>],
      smt_pointer_offsets = [8, 16]\<rparr>"

definition sample_msf :: small_msf where
  "sample_msf =
     \<lparr>msf_data = sample_msf_data, msf_page_size = 1024, msf_fpm_page = 1, msf_page_count = 20,
      msf_fpm_pages = pyrange 1 9, msf_reserved_pages = pyrange 0 17, msf_directory_size = 24,
      msf_directory_pages = [17], msf_directory = sample_table, msf_free_pages = [18],
      msf_current_page_owners = [(18, 0), (19, 1)]\<rparr>"

lemma length_magic: "length small_msf_magic = 44"
  by (simp add: small_msf_magic_def bytes_of_string_def)

lemma sample_content_short: "length (sample_content i) \<le> 1024"
  by (simp add: sample_content_def length_magic)

lemma sample_pages_length: "\<forall>x \<in> set (map sample_page [0..<20]). length x = 1024"
  using sample_content_short by (auto simp: sample_page_def)

lemma sample_length: "len sample_msf_data = 20480"
  using length_concat_blocks [OF sample_pages_length] by (simp add: sample_msf_data_def)

lemma sample_slice:
  assumes "i < 20" "0 \<le> a" "a \<le> b" "b \<le> len (sample_content i)"
  shows "pslice sample_msf_data (int i * 1024 + a) (int i * 1024 + b) = pslice (sample_content i) a b"
proof -
  have "pslice sample_msf_data (int i * 1024 + a) (int i * 1024 + b) = pslice (sample_page i) a b"
    using concat_block_slice [OF sample_pages_length, of i a b] assms sample_content_short [of i]
    by (simp add: sample_msf_data_def del: upt_rec_numeral)
  also have "\<dots> = pslice (sample_content i) a b"
    using assms by (simp add: sample_page_def pslice_nonneg)
  finally show ?thesis .
qed

lemmas sample_header = sample_slice [of 0, simplified]

lemma sample_fields:
  "pslice sample_msf_data 0 44 = small_msf_magic"
  "msf_u32 sample_msf_data 44 = Inr 1024" "msf_u16 sample_msf_data 48 = Inr 1"
  "msf_u16 sample_msf_data 50 = Inr 20" "msf_u32 sample_msf_data 52 = Inr 24"
  "msf_u16 sample_msf_data 60 = Inr 17"
  using sample_header [of 0 44] sample_header [of 44 48] sample_header [of 48 50]
    sample_header [of 50 52] sample_header [of 52 56] sample_header [of 60 62]
  by (simp_all add: sample_length sample_content_def length_magic pslice_nonneg)

lemma sample_directory: "read_pages sample_msf_data 1024 [17] 24 = sample_content 17"
proof -
  have "pslice sample_msf_data 17408 18432 = sample_page 17"
    using concat_block_slice [OF sample_pages_length, of 17 0 1024]
    by (simp add: sample_msf_data_def pslice_nonneg sample_page_def sample_content_def
        del: upt_rec_numeral)
  then show ?thesis
    by (simp add: read_pages_def pslice_nonneg sample_page_def) (simp add: sample_content_def)
qed

lemma sample_free_pages: "parse_free_pages sample_msf_data 1024 (pyrange 1 9) 20 = Inr [18]"
proof -
  define fpm where "fpm = read_pages sample_msf_data 1024 (pyrange 1 9) 8192"
  have "pslice sample_msf_data 1024 2048 = sample_page 1"
    using concat_block_slice [OF sample_pages_length, of 1 0 1024]
    by (simp add: sample_msf_data_def pslice_nonneg sample_page_def sample_content_def
        del: upt_rec_numeral)
  moreover have "pyrange 1 9 = 1 # pyrange 2 9" by code_simp
  ultimately obtain rest where fpm: "fpm = [0, 0, 4] @ rest"
    by (simp add: fpm_def read_pages_def pslice_nonneg sample_page_def sample_content_def)
  have b: "byte_at fpm 0 = Inr 0" "byte_at fpm 1 = Inr 0" "byte_at fpm 2 = Inr 4"
    by (simp_all add: byte_at_def item_def fpm)
  have range: "pyrange 0 20 = [0, 1, 2, 3, 4, 5, 6, 7, 8, 9, 10, 11, 12, 13, 14, 15, 16, 17, 18, 19]"
    by code_simp
  show ?thesis
    by (simp add: parse_free_pages_def fpm_def [symmetric] range b)
qed

lemma sample_table_parse:
  "parse_small_msf_stream_table (sample_content 17) 20 = Inr sample_table"
  by code_simp

lemma sample_ownership:
  "validate_current_page_ownership (pyrange 0 17) [17] (smt_streams sample_table) [18] 20
     = Inr [(18, 0), (19, 1)]"
  by code_simp

lemma sample_msf_parse: "small_msf_parse sample_msf_data = Inr sample_msf"
proof -
  have dirs: "pages_for 24 1024 = 1" "pyrange 0 (1 :: int) = [0]" "pyrange 1 (1 + 8) = pyrange 1 9"
    by (simp_all add: pages_for_def pyrange_def)
  show ?thesis
    unfolding small_msf_parse_def Let_def small_msf_page_size_def data_page_min_def
    using sample_fields sample_length sample_directory sample_table_parse sample_free_pages
      sample_ownership
    by (simp add: dirs length_magic sample_msf_def del: msf_u16_Inr msf_u32_Inr)
qed

section \<open>Properties\<close>

text \<open>
  An accepted stream table is consumed exactly: its header count, its descriptors
  and the page lists of its live streams account for every byte, and each live stream has
  just the pages its size needs, all distinct and inside the file.
\<close>

lemma stream_table_exact:
  assumes "parse_small_msf_stream_table data page_count = Inr t"
  shows "list_all (stream_ok_opt page_count) (smt_streams t)
    \<and> 0 < length (smt_streams t) \<and> len (smt_streams t) = from_bytes (pslice data 0 2)
    \<and> length (smt_pointer_offsets t) = length (smt_streams t)
    \<and> len data = 4 + 8 * len (smt_streams t)
        + 2 * sum_list (map (\<lambda>s. len (stream_pages s)) (smt_streams t))"
  using stream_table_parsed [OF assms] by blast

text \<open>
  C27.  Every page of an accepted PDB container has exactly one role: reserved, directory,
  owned by a stream, or free and unreferenced.  An owned page belongs to exactly one
  stream; its free bit is set exactly when that stream is stream 0; and stream 0 exists.
\<close>

theorem small_msf_page_roles:
  assumes "small_msf_parse data = Inr msf" and "0 \<le> p" and "p < msf_page_count msf"
  shows "length (filter id [p < 17, p \<in> set (msf_directory_pages msf),
       p \<in> fst ` set (msf_current_page_owners msf), p \<in> set (unreferenced_free_pages msf)]) = 1
    \<and> (p \<in> fst ` set (msf_current_page_owners msf) \<longrightarrow>
         (\<exists>!k. owned_by (msf_streams msf) p k)
         \<and> (p \<in> set (msf_free_pages msf) \<longleftrightarrow> owned_by (msf_streams msf) p 0))
    \<and> (\<exists>s. msf_streams msf \<noteq> [] \<and> msf_streams msf ! 0 = Some s)"
proof -
  note parts = small_msf_parse_parts [OF assms(1)]
  then have own: "validate_current_page_ownership (msf_reserved_pages msf) (msf_directory_pages msf)
        (msf_streams msf) (msf_free_pages msf) (msf_page_count msf)
      = Inr (msf_current_page_owners msf)" by blast
  note o = ownership_parsed [OF own]
  let ?D = "p \<in> set (msf_directory_pages msf)" and ?F = "p \<in> set (msf_free_pages msf)"
    and ?O = "p \<in> fst ` set (msf_current_page_owners msf)"
  have R: "p \<in> set (msf_reserved_pages msf) \<longleftrightarrow> p < 17" using parts assms(2) by simp
  have U: "p \<in> set (unreferenced_free_pages msf) \<longleftrightarrow> ?F \<and> \<not> p < 17 \<and> \<not> ?D \<and> \<not> ?O"
    using R by (auto simp: unreferenced_free_pages_def Let_def)
  have D: "?D \<Longrightarrow> \<not> p < 17" using parts by (auto simp: list_all_iff)
  have "?O \<longleftrightarrow> (\<exists>k. (p, k) \<in> set (msf_current_page_owners msf))" by force
  then have O: "?O \<longleftrightarrow> (\<exists>k. owned_by (msf_streams msf) p k)" using o by blast
  have O': "?O \<Longrightarrow> \<not> p < 17 \<and> \<not> ?D" using O o R by blast
  have cover: "\<not> p < 17 \<Longrightarrow> ?D \<or> ?O \<or> ?F" using o assms(3) by auto
  have one: "owned_by (msf_streams msf) p k \<Longrightarrow> owned_by (msf_streams msf) p j \<Longrightarrow> k = j" for k j
    using o by (metis eq_key_imp_eq_value)
  have "(\<exists>!k. owned_by (msf_streams msf) p k) \<and> (?F \<longleftrightarrow> owned_by (msf_streams msf) p 0)" if ?O
    using that O one o by metis
  then show ?thesis using U D O' cover o by (cases "p < 17"; cases ?D; cases ?O; cases ?F) simp_all
qed

theorem small_msf_page_roles_witness:
  "(\<exists>!k. owned_by (msf_streams sample_msf) 19 k)"
proof -
  have c: "(19 :: int) < msf_page_count sample_msf" by (simp add: sample_msf_def)
  have "19 \<in> fst ` set (msf_current_page_owners sample_msf)" by (simp add: sample_msf_def)
  then show ?thesis using small_msf_page_roles [OF sample_msf_parse _ c] by simp
qed

lemma require_stream_ok:
  assumes "small_msf_parse data = Inr msf" "require_stream msf k = Inr s"
  shows "stream_ok (msf_page_count msf) s"
proof -
  from assms(2) have "0 \<le> k" "k < len (msf_streams msf)" "msf_streams msf ! nat k = Some s"
    by (auto simp: require_stream_def item_def Let_def split: option.splits if_splits)
  then have "Some s \<in> set (msf_streams msf)" by (metis nat_less_iff nth_mem)
  then show ?thesis using parsed_streams_ok [OF assms(1)]
    by (auto simp: list_all_iff stream_ok_opt_def)
qed

text \<open>
  C28.  The physical ranges of a logical stream range hold exactly its bytes: for a stream
  of an accepted container, the translation succeeds on every non-empty range inside the
  stream and on no other, and reading the ranges in order gives the slice that reading
  the whole stream and cutting it would give.
\<close>

theorem stream_ranges_refine_read:
  assumes "small_msf_parse data = Inr msf" and "require_stream msf k = Inr s"
  shows "\<exists>content. read_stream msf k = Inr content \<and> len content = sms_size s \<and>
    (if 0 < n \<and> 0 \<le> off \<and> off + n \<le> sms_size s
     then \<exists>rs. stream_ranges msf k off n = Inr rs \<and> range_bytes data rs = pslice content off (off + n)
     else isl (stream_ranges msf k off n))"
proof -
  note parts = small_msf_parse_parts [OF assms(1)]
  let ?flat = "concat (map (page_bytes data 1024) (sms_pages s))"
  have ok: "stream_ok (msf_page_count msf) s" by (rule require_stream_ok [OF assms])
  have inside: "pages_inside data 1024 (sms_pages s)"
    using ok parts by (auto simp: stream_ok_def pages_inside_def list_all_iff)
  have pos: "0 \<le> sms_size s" using ok by (simp add: stream_ok_def)
  have cover: "sms_size s \<le> len (sms_pages s) * 1024"
    using ok pages_for_covers [OF pos] by (simp add: stream_ok_def small_msf_page_size_def)
  have flat: "len ?flat = len (sms_pages s) * 1024"
    using length_concat_blocks [OF page_bytes_length [OF _ inside]] by simp
  have read: "read_stream msf k = Inr (pslice ?flat 0 (sms_size s))"
    using assms(2) parts by (simp add: read_stream_def read_pages_def page_bytes_def [abs_def])
  have "len (pslice ?flat 0 (sms_size s)) = sms_size s"
    using pos cover flat by (simp add: length_pslice)
  moreover have "if 0 < n \<and> 0 \<le> off \<and> off + n \<le> sms_size s
     then \<exists>rs. stream_ranges msf k off n = Inr rs
            \<and> range_bytes data rs = pslice (pslice ?flat 0 (sms_size s)) off (off + n)
     else isl (stream_ranges msf k off n)"
  proof (cases "0 < n \<and> 0 \<le> off \<and> off + n \<le> sms_size s")
    case True
    then have "pslice (pslice ?flat 0 (sms_size s)) off (off + n) = pslice ?flat off (off + n)"
      using pslice_pslice [of 0 off "off + n" "sms_size s" ?flat] cover flat by simp
    moreover have "\<exists>rs. logical_ranges_loop 1024 (sms_pages s) off n = Inr rs
        \<and> range_bytes data rs = pslice ?flat off (off + n)"
      by (rule logical_ranges_bytes) (use True inside cover in auto)
    ultimately show ?thesis
      using True assms(2) parts by (simp add: stream_ranges_def logical_ranges_def)
  next
    case False
    then show ?thesis
      using assms(2) by (auto simp: stream_ranges_def logical_ranges_def require_def)
  qed
  ultimately show ?thesis using read by blast
qed

theorem stream_ranges_refine_read_witness:
  "\<exists>content rs. read_stream sample_msf 1 = Inr content \<and> stream_ranges sample_msf 1 1 3 = Inr rs
     \<and> range_bytes sample_msf_data rs = pslice content 1 4"
proof -
  have "require_stream sample_msf 1 = Inr \<lparr>sms_size = 5, sms_pages = [19]\<rparr>"
    by (simp add: require_stream_def msf_streams_def sample_msf_def sample_table_def item_def)
  from stream_ranges_refine_read [OF sample_msf_parse this, of 3 1] show ?thesis by auto
qed

end
