(* ===== verification/Pe32.thy ===== *)
theory Pe32
  imports Prelude
begin

text \<open>
  PE32 header geometry (\<^verbatim>\<open>src/reprobit/pe32.py\<close>): the shared header invariants, the
  translations between image addresses and file offsets, and the walk of the
  base-relocation directory.
\<close>

section \<open>Sections and headers\<close>

record pe32_section =
  ps_header_offset :: int
  ps_raw_descriptor :: bytes
  ps_raw_name :: bytes
  ps_virtual_size :: int
  ps_virtual_address :: int
  ps_raw_size :: int
  ps_raw_offset :: int
  ps_characteristics :: int

definition raw_end :: "pe32_section \<Rightarrow> int" where
  "raw_end s = ps_raw_offset s + ps_raw_size s"

definition backs_rva :: "pe32_section \<Rightarrow> int \<Rightarrow> int \<Rightarrow> bool" where
  "backs_rva s rva n =
     (let delta = rva - ps_virtual_address s in delta \<ge> 0 \<and> delta \<le> ps_raw_size s - n)"

definition holds_offset :: "pe32_section \<Rightarrow> int \<Rightarrow> int \<Rightarrow> bool" where
  "holds_offset s off n = (ps_raw_offset s \<le> off \<and> off + n \<le> raw_end s)"

record pe32_headers =
  ph_data :: bytes
  ph_pe_offset :: int
  ph_machine :: int
  ph_section_count :: int
  ph_optional_offset :: int
  ph_optional_size :: int
  ph_sections :: "pe32_section list"

definition section_table_offset :: "pe32_headers \<Rightarrow> int" where
  "section_table_offset h = ph_optional_offset h + ph_optional_size h"

definition optional_field :: "pe32_headers \<Rightarrow> int \<Rightarrow> int result" where
  "optional_field h off =
     require (off \<ge> 0 \<and> off + 4 \<le> ph_optional_size h) ''PE32 optional header lacks field''
       (unpack_u32 (ph_data h) (ph_optional_offset h + off))"

definition directory_count :: "pe32_headers \<Rightarrow> int result" where
  "directory_count h = optional_field h 92"

definition data_directory :: "pe32_headers \<Rightarrow> int \<Rightarrow> (int \<times> int) result" where
  "data_directory h index =
     rbind (if 0 \<le> index then rbind (directory_count h) (\<lambda>n. Inr (index < n)) else Inr False) (\<lambda>ok.
     require ok ''PE image lacks directory'' (
     let at = 96 + index * 8 in
     rbind (optional_field h at) (\<lambda>rva.
     rbind (optional_field h (at + 4)) (\<lambda>n. Inr (rva, n)))))"

definition section_for_rva :: "pe32_headers \<Rightarrow> int \<Rightarrow> int \<Rightarrow> pe32_section result" where
  "section_for_rva h rva n =
     require (n \<ge> 0) ''has a negative size'' (
     let matches = filter (\<lambda>s. backs_rva s rva n) (ph_sections h) in
     require (length matches = 1) ''does not map uniquely to raw data'' (Inr (matches ! 0)))"

definition rva_to_offset :: "pe32_headers \<Rightarrow> int \<Rightarrow> int \<Rightarrow> int result" where
  "rva_to_offset h rva n =
     rbind (section_for_rva h rva n) (\<lambda>s. Inr (ps_raw_offset s + rva - ps_virtual_address s))"

definition offset_to_rva :: "pe32_headers \<Rightarrow> int \<Rightarrow> int \<Rightarrow> int result" where
  "offset_to_rva h off n =
     (let matches = filter (\<lambda>s. holds_offset s off n) (ph_sections h)
      in require (length matches = 1) ''file range does not map uniquely to a PE section''
          (let s = matches ! 0 in Inr (ps_virtual_address s + off - ps_raw_offset s)))"

section \<open>Parsing\<close>

text \<open>One row of the section table; the slice is a whole row because the table fits.\<close>

definition parse_pe_section :: "bytes \<Rightarrow> int \<Rightarrow> int \<Rightarrow> pe32_section result" where
  "parse_pe_section data table index =
     (let header = table + index * 40; raw = pslice data header (header + 40)
      in
      rbind (unpack_u32 raw 8) (\<lambda>virtual_size.
      rbind (unpack_u32 raw 12) (\<lambda>virtual_address.
      rbind (unpack_u32 raw 16) (\<lambda>raw_size.
      rbind (unpack_u32 raw 20) (\<lambda>raw_offset.
      rbind (unpack_u32 raw 36) (\<lambda>characteristics.
      require (raw_size = 0 \<or> raw_offset \<le> len data - raw_size) ''raw data extends past EOF'' (
        Inr \<lparr>ps_header_offset = header, ps_raw_descriptor = raw, ps_raw_name = pslice raw 0 8,
             ps_virtual_size = virtual_size, ps_virtual_address = virtual_address,
             ps_raw_size = raw_size, ps_raw_offset = raw_offset,
             ps_characteristics = characteristics\<rparr>)))))))"

fun pair_less_eq :: "int \<times> int \<Rightarrow> int \<times> int \<Rightarrow> bool" where
  "pair_less_eq (a, b) (c, d) = (a < c \<or> a = c \<and> b \<le> d)"

fun adjacent_disjoint :: "(int \<times> int) list \<Rightarrow> bool" where
  "adjacent_disjoint (l # r # rest) = (snd l \<le> fst r \<and> adjacent_disjoint (r # rest))"
| "adjacent_disjoint _ = True"

definition occupied :: "pe32_section list \<Rightarrow> (int \<times> int) list" where
  "occupied sections =
     sort_by pair_less_eq
       (map (\<lambda>s. (ps_raw_offset s, raw_end s)) (filter (\<lambda>s. ps_raw_size s \<noteq> 0) sections))"

definition parse_pe32_headers :: "bytes \<Rightarrow> int \<Rightarrow> bool \<Rightarrow> pe32_headers result" where
  "parse_pe32_headers data minimum_optional_size require_i386 =
     (let minimum_optional_size = max minimum_optional_size 32 in
      require (len data \<ge> 64 \<and> pslice data 0 2 = [0x4D, 0x5A]) ''missing DOS MZ header'' (
      rbind (unpack_u32 data 0x3C) (\<lambda>pe.
      require (64 \<le> pe \<and> pe \<le> len data - 24 \<and> pslice data pe (pe + 4) = [0x50, 0x45, 0, 0])
        ''missing PE signature'' (
      rbind (unpack_u16 data (pe + 4)) (\<lambda>machine.
      rbind (unpack_u16 data (pe + 6)) (\<lambda>section_count.
      rbind (unpack_u16 data (pe + 20)) (\<lambda>optional_size.
      require (\<not> require_i386 \<or> machine = 0x14C) ''only i386 PE images are supported'' (
      require (0 < section_count \<and> section_count \<le> 96) ''invalid PE section count'' (
      let optional = pe + 24 in
      require (optional_size \<ge> minimum_optional_size \<and> optional + optional_size \<le> len data)
        ''invalid PE32 optional header'' (
      rbind (unpack_u16 data optional) (\<lambda>magic.
      require (magic = 0x10B) ''only PE32 images are supported'' (
      let table = optional + optional_size in
      require (table + section_count * 40 \<le> len data) ''section table extends past EOF'' (
      rbind (rmap (parse_pe_section data table) (pyrange 0 section_count)) (\<lambda>sections.
      require (adjacent_disjoint (occupied sections)) ''PE sections overlap in the file'' (
        Inr \<lparr>ph_data = data, ph_pe_offset = pe, ph_machine = machine,
             ph_section_count = section_count, ph_optional_offset = optional,
             ph_optional_size = optional_size, ph_sections = sections\<rparr>)))))))))))))))"

section \<open>The base-relocation walk\<close>

definition relocation_entry ::
    "pe32_headers \<Rightarrow> bytes \<Rightarrow> int \<Rightarrow> int list \<Rightarrow> int \<Rightarrow> int list result" where
  "relocation_entry headers data page_rva sites entry_offset =
     rbind (unpack_u16 data entry_offset) (\<lambda>value.
     let kind = drop_bit 12 value; page_offset = value AND 0x0FFF in
     if kind = 3
     then rbind (rva_to_offset headers (page_rva + page_offset) 4) (\<lambda>site.
          require (site \<notin> set sites) ''duplicate HIGHLOW base-relocation site''
            (Inr (sites @ [site])))
     else Inr sites)"

text \<open>\<^verbatim>\<open>range(a, b, 2)\<close>.\<close>

definition pyrange2 :: "int \<Rightarrow> int \<Rightarrow> int list" where
  "pyrange2 a b = map (\<lambda>i. a + 2 * i) (pyrange 0 ((b - a + 1) div 2))"

function relocation_blocks ::
    "pe32_headers \<Rightarrow> bytes \<Rightarrow> int \<Rightarrow> int \<Rightarrow> int list \<Rightarrow> int list result" where
  "relocation_blocks headers data stop cursor sites =
     (if cursor < stop
      then require (cursor \<le> stop - 8) ''base-relocation block header is truncated'' (
           rbind (unpack_u32 data cursor) (\<lambda>page_rva.
           rbind (unpack_u32 data (cursor + 4)) (\<lambda>block_size.
           require (page_rva mod 0x1000 = 0) ''base-relocation page is not aligned'' (
           require (block_size \<ge> 8 \<and> block_size mod 4 = 0) ''invalid base-relocation block'' (
           require (block_size \<le> stop - cursor) ''base-relocation block extends past directory'' (
           rbind (rfold (relocation_entry headers data page_rva) sites
                    (pyrange2 (cursor + 8) (cursor + block_size))) (\<lambda>sites'.
             relocation_blocks headers data stop (cursor + block_size) sites')))))))
      else require (cursor = stop) ''base-relocation directory was not consumed'' (Inr sites))"
  by pat_completeness auto
termination
  by (relation "measure (\<lambda>(_, _, stop, cursor, _). nat (stop - cursor))") auto

declare relocation_blocks.simps [simp del]

definition pe32_highlow_relocation_offsets :: "bytes \<Rightarrow> int list result" where
  "pe32_highlow_relocation_offsets data =
     rbind (parse_pe32_headers data 144 True) (\<lambda>headers.
     rbind (data_directory headers 5) (\<lambda>(reloc_rva, reloc_size).
     if reloc_rva = 0 \<and> reloc_size = 0 then Inr []
     else
       require (reloc_rva \<noteq> 0 \<and> reloc_size \<ge> 8) ''base-relocation directory is malformed'' (
       rbind (rva_to_offset headers reloc_rva reloc_size) (\<lambda>start.
         relocation_blocks headers data (start + reloc_size) start []))))"

section \<open>Lemmas\<close>

definition section_in_file :: "bytes \<Rightarrow> pe32_section \<Rightarrow> bool" where
  "section_in_file data s \<longleftrightarrow>
     0 \<le> ps_raw_size s \<and> 0 \<le> ps_raw_offset s \<and> 0 \<le> ps_virtual_address s
     \<and> (ps_raw_size s \<noteq> 0 \<longrightarrow> raw_end s \<le> len data)"

definition raw_disjoint :: "pe32_section \<Rightarrow> pe32_section \<Rightarrow> bool" where
  "raw_disjoint s t \<longleftrightarrow> ps_raw_size s = 0 \<or> ps_raw_size t = 0
     \<or> raw_end s \<le> ps_raw_offset t \<or> raw_end t \<le> ps_raw_offset s"

lemma unpack_u32_bounds: "unpack_u32 data off = Inr v \<Longrightarrow> 0 \<le> v \<and> v < 2 ^ 32"
  using unpack_uint_bounds [of 4 data off v] by (simp add: unpack_u32_def)

lemma parse_pe_section_in_file: "parse_pe_section data table i = Inr s \<Longrightarrow> section_in_file data s"
  by (auto simp: parse_pe_section_def Let_def section_in_file_def raw_end_def dest: unpack_u32_bounds)

lemma adjacent_disjoint_all:
  assumes "adjacent_disjoint xs" "\<forall>x \<in> set xs. fst x \<le> snd x"
  shows "sorted_wrt (\<lambda>a b. snd a \<le> fst b) xs"
  using assms
proof (induction xs rule: adjacent_disjoint.induct)
  case (1 l r rest)
  then have "sorted_wrt (\<lambda>a b. snd a \<le> fst b) (r # rest)" by simp
  moreover from this have "snd l \<le> fst b" if "b \<in> set rest" for b
    using 1 that by force
  ultimately show ?case using 1 by auto
qed auto

lemma sorted_wrt_insert_sym:
  assumes "\<And>a b. Q a b \<longleftrightarrow> Q b a"
  shows "sorted_wrt Q (insert_by le x xs) \<longleftrightarrow> sorted_wrt Q (x # xs)"
  using assms by (induction xs) auto

lemma sorted_wrt_sort_sym:
  assumes "\<And>a b. Q a b \<longleftrightarrow> Q b a"
  shows "sorted_wrt Q (sort_by le xs) \<longleftrightarrow> sorted_wrt Q xs"
proof (induction xs)
  case (Cons x xs)
  then show ?case
    using sorted_wrt_insert_sym [of Q, OF assms] by (simp add: sort_by_Cons)
qed simp

lemma occupied_disjoint:
  assumes "adjacent_disjoint (occupied sections)" "\<forall>s \<in> set sections. 0 \<le> ps_raw_size s"
  shows "sorted_wrt raw_disjoint sections"
proof -
  let ?Q = "\<lambda>a b :: int \<times> int. snd a \<le> fst b \<or> snd b \<le> fst a"
  let ?pairs = "\<lambda>xs. map (\<lambda>s. (ps_raw_offset s, raw_end s)) (filter (\<lambda>s. ps_raw_size s \<noteq> 0) xs)"
  have "\<forall>x \<in> set (occupied sections). fst x \<le> snd x"
    using assms(2) by (auto simp: occupied_def raw_end_def)
  then have "sorted_wrt (\<lambda>a b. snd a \<le> fst b) (occupied sections)"
    by (rule adjacent_disjoint_all [OF assms(1)])
  then have "sorted_wrt ?Q (occupied sections)" by (rule sorted_wrt_mono_rel [rotated]) simp
  then have "sorted_wrt ?Q (?pairs sections)"
    unfolding occupied_def by (subst (asm) sorted_wrt_sort_sym) auto
  then show ?thesis by (induction sections) (auto simp: raw_disjoint_def split: if_splits)
qed

lemma filter_unique:
  "sorted_wrt (\<lambda>a b. \<not> (P a \<and> P b)) xs \<Longrightarrow> x \<in> set xs \<Longrightarrow> P x \<Longrightarrow> filter P xs = [x]"
  by (induction xs) (auto simp: filter_empty_conv)

definition headers_ok :: "pe32_headers \<Rightarrow> bool" where
  "headers_ok h \<longleftrightarrow> (\<forall>s \<in> set (ph_sections h). section_in_file (ph_data h) s)
     \<and> sorted_wrt raw_disjoint (ph_sections h)"

lemma parsed_headers_ok:
  assumes "parse_pe32_headers data m i = Inr h"
  shows "headers_ok h \<and> ph_data h = data \<and> len (ph_sections h) = ph_section_count h
    \<and> 0 < ph_section_count h \<and> ph_section_count h \<le> 96
    \<and> section_table_offset h + ph_section_count h * 40 \<le> len data"
proof -
  from assms obtain pe machine count optional_size sections where
    rows: "rmap (parse_pe_section data (pe + 24 + optional_size)) (pyrange 0 count) = Inr sections"
    and ok: "adjacent_disjoint (occupied sections)" "0 < count" "count \<le> 96"
      "pe + 24 + optional_size + count * 40 \<le> len data"
    and h: "h = \<lparr>ph_data = data, ph_pe_offset = pe, ph_machine = machine,
             ph_section_count = count, ph_optional_offset = pe + 24,
             ph_optional_size = optional_size, ph_sections = sections\<rparr>"
    unfolding parse_pe32_headers_def Let_def rbind_eq_Inr require_eq_Inr sum.inject by blast
  have inside: "\<forall>s \<in> set sections. section_in_file data s"
    using rmap_in_set [OF rows] parse_pe_section_in_file by blast
  then have "sorted_wrt raw_disjoint sections"
    using occupied_disjoint [OF ok(1)] by (simp add: section_in_file_def)
  then show ?thesis
    using inside ok rmap_length [OF rows] by (simp add: h headers_ok_def section_table_offset_def)
qed

lemma holds_unique:
  assumes "headers_ok h" "s \<in> set (ph_sections h)" "holds_offset s off n" "0 < n"
  shows "filter (\<lambda>t. holds_offset t off n) (ph_sections h) = [s]"
proof (rule filter_unique)
  show "sorted_wrt (\<lambda>a b. \<not> (holds_offset a off n \<and> holds_offset b off n)) (ph_sections h)"
    by (rule sorted_wrt_mono_rel [of _ raw_disjoint])
       (use assms(1,4) in \<open>auto simp: headers_ok_def raw_disjoint_def holds_offset_def raw_end_def\<close>)
qed (use assms in auto)

lemma section_for_rva_Inr:
  assumes "section_for_rva h rva n = Inr s"
  shows "s \<in> set (ph_sections h) \<and> backs_rva s rva n
    \<and> filter (\<lambda>t. backs_rva t rva n) (ph_sections h) = [s] \<and> 0 \<le> n"
proof -
  from assms have one: "length (filter (\<lambda>t. backs_rva t rva n) (ph_sections h)) = 1"
    and s: "s = filter (\<lambda>t. backs_rva t rva n) (ph_sections h) ! 0" and n: "0 \<le> n"
    by (auto simp: section_for_rva_def Let_def)
  then have "filter (\<lambda>t. backs_rva t rva n) (ph_sections h) = [s]"
    by (cases "filter (\<lambda>t. backs_rva t rva n) (ph_sections h)") auto
  then show ?thesis using n filter_eq_ConsD [of _ _ s "[]"] by fastforce
qed

lemma rva_to_offset_holds:
  assumes "rva_to_offset h rva n = Inr off"
  shows "\<exists>s \<in> set (ph_sections h). backs_rva s rva n \<and> holds_offset s off n
     \<and> off = ps_raw_offset s + rva - ps_virtual_address s \<and> 0 \<le> n"
  using assms section_for_rva_Inr [of h rva n]
  by (fastforce simp: rva_to_offset_def backs_rva_def holds_offset_def raw_end_def Let_def)

section \<open>A sample image\<close>

definition sample_pe :: bytes where
  "sample_pe =
     [77, 90, 0, 0, 0, 0, 0, 0, 0, 0, 0, 0, 0, 0, 0, 0, 0, 0, 0, 0, 0, 0, 0, 0,
      0, 0, 0, 0, 0, 0, 0, 0, 0, 0, 0, 0, 0, 0, 0, 0, 0, 0, 0, 0, 0, 0, 0, 0,
      0, 0, 0, 0, 0, 0, 0, 0, 0, 0, 0, 0, 64, 0, 0, 0, 80, 69, 0, 0, 76, 1, 2, 0,
      0, 0, 0, 0, 0, 0, 0, 0, 0, 0, 0, 0, 144, 0, 0, 0, 11, 1, 0, 0, 0, 0, 0, 0,
      0, 0, 0, 0, 0, 0, 0, 0, 0, 0, 0, 0, 0, 0, 0, 0, 0, 0, 0, 0, 0, 0, 0, 0,
      0, 0, 0, 0, 0, 0, 0, 0, 0, 0, 0, 0, 0, 0, 0, 0, 0, 0, 0, 0, 0, 0, 0, 0,
      0, 0, 0, 0, 0, 0, 0, 0, 0, 0, 0, 0, 0, 0, 0, 0, 0, 0, 0, 0, 0, 0, 0, 0,
      0, 0, 0, 0, 0, 0, 0, 0, 0, 0, 0, 0, 6, 0, 0, 0, 0, 0, 0, 0, 0, 0, 0, 0,
      0, 0, 0, 0, 0, 0, 0, 0, 0, 0, 0, 0, 0, 0, 0, 0, 0, 0, 0, 0, 0, 0, 0, 0,
      0, 0, 0, 0, 0, 0, 0, 0, 0, 32, 0, 0, 12, 0, 0, 0, 46, 116, 101, 120, 116, 0, 0, 0,
      8, 0, 0, 0, 0, 16, 0, 0, 8, 0, 0, 0, 56, 1, 0, 0, 0, 0, 0, 0, 0, 0, 0, 0,
      0, 0, 0, 0, 0, 0, 0, 0, 46, 114, 101, 108, 111, 99, 0, 0, 12, 0, 0, 0, 0, 32, 0, 0,
      12, 0, 0, 0, 64, 1, 0, 0, 0, 0, 0, 0, 0, 0, 0, 0, 0, 0, 0, 0, 0, 0, 0, 0,
      1, 2, 3, 4, 5, 6, 7, 8, 0, 16, 0, 0, 12, 0, 0, 0, 2, 48, 0, 0]"

definition pe_accepted :: "pe32_headers result \<Rightarrow> bool" where
  "pe_accepted r = (case r of Inl _ \<Rightarrow> False | Inr h \<Rightarrow> rva_to_offset h 0x1002 4 = Inr 314)"

lemma sample_pe_parse: "pe_accepted (parse_pe32_headers sample_pe 144 True)"
  by code_simp

section \<open>Properties\<close>

text \<open>
  The headers the PE reader accepts describe a real layout: between one and 96
  sections, their table inside the file, every non-empty raw range inside the file, and
  the raw ranges pairwise disjoint.
\<close>

lemma pe32_headers_geometry:
  assumes "parse_pe32_headers data minimum require_i386 = Inr h"
  shows "headers_ok h \<and> ph_data h = data \<and> len (ph_sections h) = ph_section_count h
    \<and> 0 < ph_section_count h \<and> ph_section_count h \<le> 96
    \<and> section_table_offset h + ph_section_count h * 40 \<le> len data"
  by (rule parsed_headers_ok [OF assms])

text \<open>
  C33.  Address translation is invertible on accepted images: when a non-empty address
  range translates to a file offset, that file range lies in one section inside the file
  and translates back to the same address.
\<close>

theorem pe32_rva_round_trip:
  assumes "parse_pe32_headers data minimum require_i386 = Inr h"
    and "rva_to_offset h rva n = Inr off" and "0 < n"
  shows "0 \<le> off \<and> off + n \<le> len data \<and> offset_to_rva h off n = Inr rva"
proof -
  from rva_to_offset_holds [OF assms(2)] obtain s where
    s: "s \<in> set (ph_sections h)" "backs_rva s rva n" "holds_offset s off n"
      "off = ps_raw_offset s + rva - ps_virtual_address s" by auto
  have ok: "headers_ok h" "ph_data h = data" using parsed_headers_ok [OF assms(1)] by auto
  have in_file: "section_in_file data s" using ok s(1) by (auto simp: headers_ok_def)
  have "filter (\<lambda>t. holds_offset t off n) (ph_sections h) = [s]"
    by (rule holds_unique [OF ok(1) s(1,3) assms(3)])
  then have "offset_to_rva h off n = Inr rva" using s(4) by (simp add: offset_to_rva_def)
  moreover have "0 \<le> off \<and> off + n \<le> len data"
    using s(2,3) in_file assms(3)
    by (auto simp: section_in_file_def holds_offset_def backs_rva_def raw_end_def Let_def)
  ultimately show ?thesis by simp
qed

theorem pe32_rva_round_trip_witness:
  "\<exists>h. parse_pe32_headers sample_pe 144 True = Inr h \<and> offset_to_rva h 314 4 = Inr 0x1002"
proof -
  obtain h where h: "parse_pe32_headers sample_pe 144 True = Inr h" "rva_to_offset h 0x1002 4 = Inr 314"
    using sample_pe_parse by (auto simp: pe_accepted_def split: sum.splits)
  then show ?thesis using pe32_rva_round_trip [OF h] by auto
qed

definition sites_ok :: "pe32_headers \<Rightarrow> int list \<Rightarrow> bool" where
  "sites_ok h sites \<longleftrightarrow> distinct sites \<and>
     (\<forall>x \<in> set sites. \<exists>s \<in> set (ph_sections h). holds_offset s x 4)"

lemma relocation_entry_sites:
  "sites_ok h sites \<Longrightarrow> relocation_entry h data page sites e = Inr sites' \<Longrightarrow> sites_ok h sites'"
  using rva_to_offset_holds [of h]
  by (fastforce simp: relocation_entry_def Let_def sites_ok_def split: if_splits)

lemma relocation_blocks_sites:
  assumes "relocation_blocks h data stop cursor sites = Inr result" "sites_ok h sites"
  shows "sites_ok h result"
  using assms
proof (induction h data stop cursor sites rule: relocation_blocks.induct)
  case (1 h data stop cursor sites)
  show ?case
  proof (cases "cursor < stop")
    case False
    then show ?thesis using "1.prems" by (simp add: relocation_blocks.simps)
  next
    case True
    from "1.prems"(1) [unfolded relocation_blocks.simps [of h data stop cursor]] True
    obtain page block sites' where
      g: "cursor \<le> stop - 8" "unpack_u32 data cursor = Inr page"
        "unpack_u32 data (cursor + 4) = Inr block" "page mod 0x1000 = 0"
        "8 \<le> block \<and> block mod 4 = 0" "block \<le> stop - cursor"
      and fold: "rfold (relocation_entry h data page) sites
             (pyrange2 (cursor + 8) (cursor + block)) = Inr sites'"
      and rest: "relocation_blocks h data stop (cursor + block) sites' = Inr result"
      by auto
    have "sites_ok h sites'"
      by (rule rfold_invariant [where P = "sites_ok h", OF fold "1.prems"(2)])
         (rule relocation_entry_sites)
    then show ?thesis by (rule "1.IH" [OF True g fold rest])
  qed
qed

text \<open>
  The base-relocation walk returns each HIGHLOW operand once, and every operand it
  returns is four bytes of one section's raw data inside the file.
\<close>

lemma highlow_offsets_sound:
  assumes "pe32_highlow_relocation_offsets data = Inr sites"
  shows "distinct sites \<and> (\<forall>x \<in> set sites. 0 \<le> x \<and> x + 4 \<le> len data) \<and>
    (\<exists>h. parse_pe32_headers data 144 True = Inr h \<and>
      (\<forall>x \<in> set sites. length (filter (\<lambda>s. holds_offset s x 4) (ph_sections h)) = 1))"
proof -
  from assms obtain h where h: "parse_pe32_headers data 144 True = Inr h"
    and "sites = [] \<or> (\<exists>stop start. relocation_blocks h data stop start [] = Inr sites)"
    by (auto simp: pe32_highlow_relocation_offsets_def split: if_splits)
  then have ok: "sites_ok h sites" using relocation_blocks_sites by (auto simp: sites_ok_def)
  have hok: "headers_ok h" "ph_data h = data" using parsed_headers_ok [OF h] by auto
  have "length (filter (\<lambda>s. holds_offset s x 4) (ph_sections h)) = 1 \<and> 0 \<le> x \<and> x + 4 \<le> len data"
    if x: "x \<in> set sites" for x
  proof -
    obtain s where s: "s \<in> set (ph_sections h)" "holds_offset s x 4"
      using ok x unfolding sites_ok_def by blast
    moreover have "section_in_file data s" using hok s(1) by (auto simp: headers_ok_def)
    ultimately show ?thesis using holds_unique [OF hok(1) s]
      by (auto simp: section_in_file_def holds_offset_def raw_end_def)
  qed
  then show ?thesis using ok h by (auto simp: sites_ok_def)
qed

end
