(* ===== verification/Intervention_Metadata.thy ===== *)
theory Intervention_Metadata
  imports Prelude
begin

text \<open>
  The closed catalogue of \<^verbatim>\<open>src/reprobit/intervention_metadata.py\<close>: cost classes, classic
  recipe families, their roles, cost classes and runtime coverage.
\<close>

datatype cost_class =
    StateCarrier
  | GeneratedSupplier
  | LinkOrdering
  | EqualBodyDonor
  | StructuralDonor
  | CrossTuOrOverlay
  | SemanticRewrite
  | BinarySurgery
  | OracleInstall

definition cost_classes :: "cost_class list" where
  "cost_classes =
     [StateCarrier, GeneratedSupplier, LinkOrdering, EqualBodyDonor,
      StructuralDonor, CrossTuOrOverlay, SemanticRewrite, BinarySurgery,
      OracleInstall]"

datatype classic_recipe_family =
    DeclarationShape
  | DonorSourceOverlay
  | ForwardDeclarationRun
  | PadShape
  | ExternRunPair
  | ForwardRunWithShape
  | DeclarationRunTriple
  | PrefixForwardAfterIncludesExtern
  | EqualBodyStrict
  | EqualBodyEhStructuralLocal
  | SameSlotResize
  | EqualBodyEhRelocLayout
  | RetailExactRelocDivergent
  | RetailExactDonorRewriting
  | RetailExactInstructionMosaic
  | RetailExactRegisterBijection
  | RetailExactSourceEqualBody
  | RetailExactComposedRewriting
  | RetailExactSourceTargetClosure
  | RetailExactWebRecolour
  | RetailExactCrossTuCompleteTargetResize
  | RetailExactRegisterBijectionReencoding
  | RetailExactSameTuInstructionHybridResize
  | RetailExactSimulatedElision
  | SourceOverlayGraph
  | ArchiveAdmission
  | ImageMetadata
  | ImageLinkOrder
  | ImageBinaryRepack

definition classic_recipe_families :: "classic_recipe_family list" where
  "classic_recipe_families =
     [DeclarationShape, DonorSourceOverlay, ForwardDeclarationRun, PadShape,
      ExternRunPair, ForwardRunWithShape, DeclarationRunTriple, PrefixForwardAfterIncludesExtern,
      EqualBodyStrict, EqualBodyEhStructuralLocal, SameSlotResize, EqualBodyEhRelocLayout,
      RetailExactRelocDivergent, RetailExactDonorRewriting, RetailExactInstructionMosaic, RetailExactRegisterBijection,
      RetailExactSourceEqualBody, RetailExactComposedRewriting, RetailExactSourceTargetClosure, RetailExactWebRecolour,
      RetailExactCrossTuCompleteTargetResize, RetailExactRegisterBijectionReencoding, RetailExactSameTuInstructionHybridResize, RetailExactSimulatedElision,
      SourceOverlayGraph, ArchiveAdmission, ImageMetadata, ImageLinkOrder,
      ImageBinaryRepack]"

text \<open>The serialized names.\<close>

primrec family_value :: "classic_recipe_family \<Rightarrow> string" where
  "family_value DeclarationShape = ''declaration_shape''"
| "family_value DonorSourceOverlay = ''donor_source_overlay''"
| "family_value ForwardDeclarationRun = ''forward_declaration_run''"
| "family_value PadShape = ''pad_shape''"
| "family_value ExternRunPair = ''extern_run_pair''"
| "family_value ForwardRunWithShape = ''forward_run_with_shape''"
| "family_value DeclarationRunTriple = ''declaration_run_triple''"
| "family_value PrefixForwardAfterIncludesExtern = ''prefix_forward_after_includes_extern''"
| "family_value EqualBodyStrict = ''equal_body_strict''"
| "family_value EqualBodyEhStructuralLocal = ''equal_body_eh_structural_local''"
| "family_value SameSlotResize = ''same_slot_resize''"
| "family_value EqualBodyEhRelocLayout = ''equal_body_eh_reloc_layout''"
| "family_value RetailExactRelocDivergent = ''retail_exact_reloc_divergent''"
| "family_value RetailExactDonorRewriting = ''retail_exact_donor_rewriting''"
| "family_value RetailExactInstructionMosaic = ''retail_exact_instruction_mosaic''"
| "family_value RetailExactRegisterBijection = ''retail_exact_register_bijection''"
| "family_value RetailExactSourceEqualBody = ''retail_exact_source_equal_body''"
| "family_value RetailExactComposedRewriting = ''retail_exact_composed_rewriting''"
| "family_value RetailExactSourceTargetClosure = ''retail_exact_source_target_closure''"
| "family_value RetailExactWebRecolour = ''retail_exact_web_recolour''"
| "family_value RetailExactCrossTuCompleteTargetResize = ''retail_exact_cross_tu_complete_target_resize''"
| "family_value RetailExactRegisterBijectionReencoding = ''retail_exact_register_bijection_reencoding''"
| "family_value RetailExactSameTuInstructionHybridResize = ''retail_exact_same_tu_instruction_hybrid_resize''"
| "family_value RetailExactSimulatedElision = ''retail_exact_simulated_elision''"
| "family_value SourceOverlayGraph = ''source_overlay_graph''"
| "family_value ArchiveAdmission = ''archive_admission''"
| "family_value ImageMetadata = ''image_metadata''"
| "family_value ImageLinkOrder = ''image_link_order''"
| "family_value ImageBinaryRepack = ''image_binary_repack''"

datatype classic_recipe_role = RoleFunction | RoleDonor | RoleProject

datatype family_execution_mode =
    ModeSourceOverlay
  | ModeDonorCompile
  | ModeCleanCandidate
  | ModeLinkOrPostlink
  | ModeQuarantineOnly
  | ModeUnsupported

record family_coverage =
  fc_mode :: family_execution_mode
  fc_implemented :: bool
  fc_detail :: string

record recipe_metadata =
  rm_role :: "classic_recipe_role option"
  rm_cost_class :: "cost_class option"
  rm_coverage :: family_coverage

definition metadata_of ::
    "classic_recipe_role option \<Rightarrow> cost_class option \<Rightarrow> family_coverage \<Rightarrow> recipe_metadata" where
  "metadata_of role cost coverage =
     \<lparr>rm_role = role, rm_cost_class = cost, rm_coverage = coverage\<rparr>"

definition donor_coverage :: family_coverage where
  "donor_coverage =
     \<lparr>fc_mode = ModeDonorCompile, fc_implemented = True,
      fc_detail = ''closed declaration or donor-private overlay renderer is implemented''\<rparr>"

definition function_coverage :: family_coverage where
  "function_coverage =
     \<lparr>fc_mode = ModeCleanCandidate, fc_implemented = True,
      fc_detail = ''oracle-free classic candidate producer is dispatchable''\<rparr>"

definition project_coverage :: family_coverage where
  "project_coverage =
     \<lparr>fc_mode = ModeLinkOrPostlink, fc_implemented = True,
      fc_detail = ''closed candidate-only terminal declaration is dispatchable''\<rparr>"

definition overlay_coverage :: family_coverage where
  "overlay_coverage =
     \<lparr>fc_mode = ModeSourceOverlay, fc_implemented = True,
      fc_detail = ''pinned source copy plus closed declarative generators; opaque legacy anchors fail''\<rparr>"

definition quarantine_coverage :: family_coverage where
  "quarantine_coverage =
     \<lparr>fc_mode = ModeQuarantineOnly, fc_implemented = False,
      fc_detail = ''must be represented and executed by the quarantined simulated-elision composer''\<rparr>"

definition unimplemented_coverage :: family_coverage where
  "unimplemented_coverage =
     \<lparr>fc_mode = ModeLinkOrPostlink, fc_implemented = False,
      fc_detail = ''typed declaration is preserved but the terminal producer is not implemented''\<rparr>"

primrec classic_recipe_metadata :: "classic_recipe_family \<Rightarrow> recipe_metadata" where
  "classic_recipe_metadata DeclarationShape =
     metadata_of (Some RoleDonor) (Some StateCarrier) donor_coverage"
| "classic_recipe_metadata DonorSourceOverlay =
     metadata_of (Some RoleDonor) (Some CrossTuOrOverlay) donor_coverage"
| "classic_recipe_metadata ForwardDeclarationRun =
     metadata_of (Some RoleDonor) (Some StateCarrier) donor_coverage"
| "classic_recipe_metadata PadShape =
     metadata_of (Some RoleDonor) (Some GeneratedSupplier) donor_coverage"
| "classic_recipe_metadata ExternRunPair =
     metadata_of (Some RoleDonor) (Some StateCarrier) donor_coverage"
| "classic_recipe_metadata ForwardRunWithShape =
     metadata_of (Some RoleDonor) (Some GeneratedSupplier) donor_coverage"
| "classic_recipe_metadata DeclarationRunTriple =
     metadata_of (Some RoleDonor) (Some StateCarrier) donor_coverage"
| "classic_recipe_metadata PrefixForwardAfterIncludesExtern =
     metadata_of (Some RoleDonor) (Some StateCarrier) donor_coverage"
| "classic_recipe_metadata EqualBodyStrict =
     metadata_of (Some RoleFunction) (Some EqualBodyDonor) function_coverage"
| "classic_recipe_metadata EqualBodyEhStructuralLocal =
     metadata_of (Some RoleFunction) (Some StructuralDonor) function_coverage"
| "classic_recipe_metadata SameSlotResize =
     metadata_of (Some RoleFunction) (Some StructuralDonor) function_coverage"
| "classic_recipe_metadata EqualBodyEhRelocLayout =
     metadata_of (Some RoleFunction) (Some StructuralDonor) function_coverage"
| "classic_recipe_metadata RetailExactRelocDivergent =
     metadata_of (Some RoleFunction) (Some CrossTuOrOverlay) function_coverage"
| "classic_recipe_metadata RetailExactDonorRewriting =
     metadata_of (Some RoleFunction) (Some SemanticRewrite) function_coverage"
| "classic_recipe_metadata RetailExactInstructionMosaic =
     metadata_of (Some RoleFunction) (Some BinarySurgery) function_coverage"
| "classic_recipe_metadata RetailExactRegisterBijection =
     metadata_of (Some RoleFunction) (Some SemanticRewrite) function_coverage"
| "classic_recipe_metadata RetailExactSourceEqualBody =
     metadata_of (Some RoleFunction) (Some CrossTuOrOverlay) function_coverage"
| "classic_recipe_metadata RetailExactComposedRewriting =
     metadata_of (Some RoleFunction) (Some SemanticRewrite) function_coverage"
| "classic_recipe_metadata RetailExactSourceTargetClosure =
     metadata_of (Some RoleFunction) (Some CrossTuOrOverlay) function_coverage"
| "classic_recipe_metadata RetailExactWebRecolour =
     metadata_of (Some RoleFunction) (Some SemanticRewrite) function_coverage"
| "classic_recipe_metadata RetailExactCrossTuCompleteTargetResize =
     metadata_of (Some RoleFunction) (Some CrossTuOrOverlay) function_coverage"
| "classic_recipe_metadata RetailExactRegisterBijectionReencoding =
     metadata_of (Some RoleFunction) (Some SemanticRewrite) function_coverage"
| "classic_recipe_metadata RetailExactSameTuInstructionHybridResize =
     metadata_of (Some RoleFunction) (Some BinarySurgery) function_coverage"
| "classic_recipe_metadata RetailExactSimulatedElision =
     metadata_of (None) (None) quarantine_coverage"
| "classic_recipe_metadata SourceOverlayGraph =
     metadata_of (Some RoleProject) (Some CrossTuOrOverlay) overlay_coverage"
| "classic_recipe_metadata ArchiveAdmission =
     metadata_of (None) (Some LinkOrdering) unimplemented_coverage"
| "classic_recipe_metadata ImageMetadata =
     metadata_of (Some RoleProject) (Some GeneratedSupplier) project_coverage"
| "classic_recipe_metadata ImageLinkOrder =
     metadata_of (Some RoleProject) (Some LinkOrdering) project_coverage"
| "classic_recipe_metadata ImageBinaryRepack =
     metadata_of (Some RoleProject) (Some BinarySurgery) project_coverage"

definition classic_recipe_families_by_role :: "classic_recipe_role \<Rightarrow> classic_recipe_family list" where
  "classic_recipe_families_by_role role =
     filter (\<lambda>family. rm_role (classic_recipe_metadata family) = Some role) classic_recipe_families"

definition classic_recipe_family_role :: "classic_recipe_family \<Rightarrow> classic_recipe_role option" where
  "classic_recipe_family_role family = rm_role (classic_recipe_metadata family)"

text \<open>\<^verbatim>\<open>str.capitalize\<close> of an ASCII string, and the label of a family.\<close>

definition upper_char :: "char \<Rightarrow> char" where
  "upper_char c = (let n = of_char c in if 97 \<le> n \<and> n \<le> (122 :: nat) then char_of (n - 32) else c)"

definition lower_char :: "char \<Rightarrow> char" where
  "lower_char c = (let n = of_char c in if 65 \<le> n \<and> n \<le> (90 :: nat) then char_of (n + 32) else c)"

fun capitalize :: "string \<Rightarrow> string" where
  "capitalize [] = []"
| "capitalize (c # cs) = upper_char c # map lower_char cs"

definition classic_recipe_family_label :: "classic_recipe_family \<Rightarrow> string" where
  "classic_recipe_family_label family =
     capitalize (map (\<lambda>c. if c = CHR ''_'' then CHR '' '' else c) (family_value family))
       @ '' adjustment''"

section \<open>Properties of the catalogue\<close>

lemma families_complete: "set classic_recipe_families = UNIV"
proof -
  have "f \<in> set classic_recipe_families" for f
    by (cases f) (simp_all add: classic_recipe_families_def)
  then show ?thesis by auto
qed

lemma cost_classes_complete: "set cost_classes = UNIV"
proof -
  have "c \<in> set cost_classes" for c by (cases c) (simp_all add: cost_classes_def)
  then show ?thesis by auto
qed

lemma cost_classes_distinct: "distinct cost_classes"
  by (simp add: cost_classes_def)

lemma inj_by_enumeration: "distinct (map f classic_recipe_families) \<Longrightarrow> inj f"
  by (simp add: distinct_map families_complete)

lemma all_by_enumeration: "list_all P classic_recipe_families \<Longrightarrow> P f"
  by (simp add: list_all_iff families_complete)

lemma family_values_distinct: "distinct (map family_value classic_recipe_families)"
  by code_simp

lemma family_labels_distinct: "distinct (map classic_recipe_family_label classic_recipe_families)"
  by code_simp

lemma roles_are_costed:
  "list_all (\<lambda>f. rm_role (classic_recipe_metadata f) = None
      \<or> rm_cost_class (classic_recipe_metadata f) \<noteq> None
        \<and> fc_implemented (rm_coverage (classic_recipe_metadata f))) classic_recipe_families"
  by code_simp

lemma uncosted_families:
  "list_all (\<lambda>f. (rm_cost_class (classic_recipe_metadata f) = None) = (f = RetailExactSimulatedElision))
     classic_recipe_families"
  by code_simp

text \<open>
  The catalogue is closed and consistent: serialized family names and labels are
  unambiguous, each family with a role has a cost class and an implemented runtime, the
  only family with no cost class is the quarantined simulated elision, and the families
  of the three roles are disjoint.
\<close>

theorem recipe_catalogue_consistent:
  "inj family_value \<and> inj classic_recipe_family_label \<and>
   (\<forall>f. rm_role (classic_recipe_metadata f) \<noteq> None \<longrightarrow>
        rm_cost_class (classic_recipe_metadata f) \<noteq> None
        \<and> fc_implemented (rm_coverage (classic_recipe_metadata f))) \<and>
   (\<forall>f. rm_cost_class (classic_recipe_metadata f) = None \<longleftrightarrow> f = RetailExactSimulatedElision) \<and>
   (\<forall>r q. r \<noteq> q \<longrightarrow>
        set (classic_recipe_families_by_role r) \<inter> set (classic_recipe_families_by_role q) = {})"
proof (intro conjI allI impI)
  show "inj family_value" by (rule inj_by_enumeration [OF family_values_distinct])
  show "inj classic_recipe_family_label" by (rule inj_by_enumeration [OF family_labels_distinct])
next
  fix f assume "rm_role (classic_recipe_metadata f) \<noteq> None"
  then show "rm_cost_class (classic_recipe_metadata f) \<noteq> None"
    "fc_implemented (rm_coverage (classic_recipe_metadata f))"
    using all_by_enumeration [OF roles_are_costed, of f] by auto
next
  fix f show "rm_cost_class (classic_recipe_metadata f) = None \<longleftrightarrow> f = RetailExactSimulatedElision"
    by (rule all_by_enumeration [OF uncosted_families])
next
  fix r q :: classic_recipe_role assume "r \<noteq> q"
  then show "set (classic_recipe_families_by_role r) \<inter> set (classic_recipe_families_by_role q) = {}"
    by (auto simp: classic_recipe_families_by_role_def)
qed

end
