(* ===== verification/Cost_Model.thy ===== *)
theory Cost_Model
  imports Intervention_Metadata Json_Values Complex_Main
begin

text \<open>
  The intervention cost model of \<^verbatim>\<open>src/reprobit/costs.py\<close>: weights and classification, the
  chargeable units of an intervention, the cost row with its validator, the attribution of
  direct and shared costs to functions, and the breakdown with its validator.  A
  \<^verbatim>\<open>Fraction\<close> is a rational; a default dictionary is an association list read with
  zero for absent keys.  The kind-specific fields of an intervention that costs never
  read are one opaque value, because conflicting definitions are compared whole; the
  authority digest of an intervention is a parameter.
\<close>

section \<open>Scopes and interventions\<close>

record scope =
  sc_target :: string
  sc_translation_unit :: "string option"
  sc_function :: "string option"

record intervention =
  iv_id :: string
  iv_kind :: string
  iv_family :: "classic_recipe_family option"
  iv_scope :: scope
  iv_beneficiaries :: "scope list"
  iv_parameters :: "(string \<times> py_value) list"
  iv_rest :: py_value

datatype cost_unit_kind =
  UnitIntervention | SourceOverlayEdit | GeneratedTranslationUnit | LinkAdmission

definition cost_unit_kinds :: "cost_unit_kind list" where
  "cost_unit_kinds = [UnitIntervention, SourceOverlayEdit, GeneratedTranslationUnit, LinkAdmission]"

section \<open>Weights, classes, units\<close>

primrec cost_weight :: "cost_class \<Rightarrow> int" where
  "cost_weight StateCarrier = 1"
| "cost_weight GeneratedSupplier = 5"
| "cost_weight LinkOrdering = 10"
| "cost_weight EqualBodyDonor = 25"
| "cost_weight StructuralDonor = 50"
| "cost_weight CrossTuOrOverlay = 100"
| "cost_weight SemanticRewrite = 250"
| "cost_weight BinarySurgery = 500"
| "cost_weight OracleInstall = 10000"

definition kind_classes :: "(string \<times> cost_class) list" where
  "kind_classes =
     [(''state_carrier'', StateCarrier), (''generated_supplier'', GeneratedSupplier),
      (''metadata_normalization'', GeneratedSupplier), (''link_ordering'', LinkOrdering),
      (''equal_body_donor'', EqualBodyDonor), (''structural_donor'', StructuralDonor),
      (''cross_tu_donor'', CrossTuOrOverlay), (''semantic_rewrite'', SemanticRewrite),
      (''binary_surgery'', BinarySurgery), (''legacy.oracle_install'', OracleInstall)]"

definition classic_class :: "classic_recipe_family \<Rightarrow> cost_class result" where
  "classic_class family =
     (case rm_cost_class (classic_recipe_metadata family) of
        None \<Rightarrow> Inl KeyError | Some c \<Rightarrow> Inr c)"

text \<open>A classic recipe is the intervention that carries a family.\<close>

definition classify :: "intervention \<Rightarrow> cost_class result" where
  "classify iv =
     (case iv_family iv of
        Some family \<Rightarrow> classic_class family
      | None \<Rightarrow> dict_item kind_classes (iv_kind iv))"

definition classify_record :: "string \<Rightarrow> classic_recipe_family option \<Rightarrow> cost_class result" where
  "classify_record kind family =
     (if kind = ''classic_recipe''
      then (case family of
              None \<Rightarrow> Inl (ValueError ''classic-recipe cost record lacks its family'')
            | Some f \<Rightarrow> (case rm_cost_class (classic_recipe_metadata f) of
                          None \<Rightarrow> Inl (ValueError ''classic recipe family is not costable'')
                        | Some c \<Rightarrow> Inr c))
      else if family \<noteq> None
      then Inl (ValueError ''only classic-recipe cost records may name a family'')
      else (case map_of kind_classes kind of
              None \<Rightarrow> Inl (ValueError ''unknown intervention cost kind'')
            | Some c \<Rightarrow> Inr c))"

definition weight :: "intervention \<Rightarrow> int result" where
  "weight iv = rbind (classify iv) (\<lambda>c. Inr (cost_weight c))"

definition is_overlay_graph :: "intervention \<Rightarrow> bool" where
  "is_overlay_graph iv = (iv_family iv = Some SourceOverlayGraph)"

text \<open>The number of operations of one overlay output.\<close>

definition output_ops :: "py_value \<Rightarrow> int result" where
  "output_ops output =
     (case (case output of VDict d \<Rightarrow> dict_get d ''ops'' | _ \<Rightarrow> VNone) of
        VList ops \<Rightarrow> raise_unless (ops \<noteq> []) (ValueError ''has no ops'') (Inr (len ops))
      | _ \<Rightarrow> Inl (ValueError ''lacks typed ops''))"

text \<open>The normalized counts: kinds with nothing to charge are dropped.\<close>

definition overlay_counts :: "int \<Rightarrow> int \<Rightarrow> int \<Rightarrow> (cost_unit_kind \<times> int) list" where
  "overlay_counts edits generated admissions =
     filter (\<lambda>(_, n). n \<noteq> 0)
       [(SourceOverlayEdit, edits), (GeneratedTranslationUnit, generated),
        (LinkAdmission, admissions)]"

definition graph_units ::
    "int \<Rightarrow> (py_key \<times> py_value) list \<Rightarrow> (cost_unit_kind \<times> int) list result" where
  "graph_units edits graph =
     (case dict_get graph ''generated_tus'' of
        VList generated \<Rightarrow>
          (case dict_get graph ''link_admissions'' of
             VList admissions \<Rightarrow>
               let normalized = overlay_counts edits (len generated) (len admissions)
               in raise_unless (normalized \<noteq> []) (ValueError ''has no chargeable units'')
                    (Inr normalized)
           | _ \<Rightarrow> Inl (ValueError ''graph lacks typed action lists''))
      | _ \<Rightarrow> Inl (ValueError ''graph lacks typed action lists''))"

definition overlay_units :: "(string \<times> py_value) list \<Rightarrow> (cost_unit_kind \<times> int) list result" where
  "overlay_units parameters =
     (case (map_of (rev parameters) ''outputs'', map_of (rev parameters) ''graph'') of
        (Some (VList outputs), Some (VDict graph)) \<Rightarrow>
          rbind (rmap output_ops outputs) (\<lambda>edits. graph_units (sum_list edits) graph)
      | _ \<Rightarrow> Inl (ValueError ''lacks typed outputs or graph''))"

definition unit_counts :: "intervention \<Rightarrow> (cost_unit_kind \<times> int) list result" where
  "unit_counts iv =
     (if \<not> is_overlay_graph iv then Inr [(UnitIntervention, 1)]
      else overlay_units (iv_parameters iv))"

section \<open>Rows\<close>

record cost_unit_charge =
  cu_kind :: cost_unit_kind
  cu_count :: int
  cu_unit_cost :: int
  cu_cost :: int

record intervention_cost =
  ic_intervention_id :: string
  ic_authority_digest :: string
  ic_kind :: string
  ic_family :: "classic_recipe_family option"
  ic_cost_class :: cost_class
  ic_cost :: int
  ic_scope :: scope
  ic_beneficiaries :: "scope list"
  ic_units :: "cost_unit_charge list"

definition cost_unit_charge_valid :: "cost_unit_charge \<Rightarrow> unit result" where
  "cost_unit_charge_valid u =
     raise_unless (0 < cu_count u \<and> 0 \<le> cu_unit_cost u \<and> 0 \<le> cu_cost u) (ValueError ''field bound'') (
     raise_unless (cu_cost u = cu_count u * cu_unit_cost u)
       (ValueError ''cost-unit total must equal count times unit cost'') (Inr ()))"

definition function_key :: "scope \<Rightarrow> (string \<times> string \<times> string) result" where
  "function_key s =
     (case (sc_translation_unit s, sc_function s) of
        (Some tu, Some f) \<Rightarrow> Inr (sc_target s, tu, f)
      | _ \<Rightarrow> Inl AssertionError)"

text \<open>Python's order on tuples of strings.\<close>

fun key_less_eq :: "string \<times> string \<times> string \<Rightarrow> string \<times> string \<times> string \<Rightarrow> bool" where
  "key_less_eq (a, b, c) (d, e, f) =
     (if a \<noteq> d then str_less_eq a d else if b \<noteq> e then str_less_eq b e else str_less_eq c f)"

definition beneficiary_key :: "scope \<Rightarrow> scope \<Rightarrow> (string \<times> string \<times> string) result" where
  "beneficiary_key owner b =
     (case (sc_function b, sc_translation_unit b) of
        (Some f, Some tu) \<Rightarrow>
          raise_unless (sc_target b = sc_target owner)
            (ValueError ''cost beneficiary must remain within its intervention target'') (
          raise_unless (sc_translation_unit owner = None \<or> Some tu = sc_translation_unit owner)
            (ValueError ''cost beneficiary must remain within its intervention TU'') (
            Inr (sc_target b, tu, f)))
      | _ \<Rightarrow> Inl (ValueError ''cost beneficiary must name a function scope''))"

definition beneficiaries_valid :: "scope \<Rightarrow> scope list \<Rightarrow> unit result" where
  "beneficiaries_valid owner beneficiaries =
     raise_unless (sc_function owner = None \<or> beneficiaries = [])
       (ValueError ''direct intervention cost cannot declare shared beneficiaries'') (
     rbind (rmap (beneficiary_key owner) beneficiaries) (\<lambda>keys.
     raise_unless (keys = sort_by key_less_eq keys \<and> distinct keys)
       (ValueError ''cost beneficiaries must be unique and canonical'') (Inr ())))"

definition units_valid :: "string \<Rightarrow> classic_recipe_family option \<Rightarrow> cost_unit_charge list \<Rightarrow> unit result" where
  "units_valid kind family units =
     (let kinds = map cu_kind units in
      raise_unless (kinds = filter (\<lambda>k. k \<in> set kinds) cost_unit_kinds \<and> distinct kinds)
        (ValueError ''intervention cost units must be unique and canonical'') (
      if kind = ''classic_recipe'' \<and> family = Some SourceOverlayGraph
      then raise_unless (units \<noteq> [] \<and> list_all (\<lambda>u. cu_kind u \<in>
               {SourceOverlayEdit, GeneratedTranslationUnit, LinkAdmission}) units)
             (ValueError ''source-overlay cost record has invalid typed units'') (Inr ())
      else raise_unless (case units of [u] \<Rightarrow> cu_kind u = UnitIntervention \<and> cu_count u = 1 | _ \<Rightarrow> False)
             (ValueError ''ordinary intervention cost requires one intervention unit'') (Inr ())))"

text \<open>\<^verbatim>\<open>InterventionCost.is_canonical_current_model\<close>.\<close>

definition intervention_cost_valid :: "intervention_cost \<Rightarrow> unit result" where
  "intervention_cost_valid r =
     rbind (classify_record (ic_kind r) (ic_family r)) (\<lambda>expected_class.
     raise_unless (ic_cost_class r = expected_class)
       (ValueError ''intervention cost class differs from its canonical mapping'') (
     raise_unless (list_all (\<lambda>u. cu_unit_cost u = cost_weight (ic_cost_class r)) (ic_units r))
       (ValueError ''intervention unit cost differs from its canonical class weight'') (
     raise_unless (ic_cost r = sum_list (map cu_cost (ic_units r)))
       (ValueError ''intervention cost must equal its typed-unit costs'') (
     rbind (units_valid (ic_kind r) (ic_family r) (ic_units r)) (\<lambda>_.
       beneficiaries_valid (ic_scope r) (ic_beneficiaries r))))))"

text \<open>\<^verbatim>\<open>calculate_intervention_cost\<close>; constructing a row validates it.\<close>

definition unit_charge :: "int \<Rightarrow> cost_unit_kind \<times> int \<Rightarrow> cost_unit_charge" where
  "unit_charge unit_cost entry =
     \<lparr>cu_kind = fst entry, cu_count = snd entry, cu_unit_cost = unit_cost,
      cu_cost = snd entry * unit_cost\<rparr>"

definition charged_units :: "(cost_unit_kind \<times> int) list \<Rightarrow> (cost_unit_kind \<times> int) list" where
  "charged_units counts =
     filter (\<lambda>(_, n). n \<noteq> 0)
       (map (\<lambda>k. (k, case map_of counts k of None \<Rightarrow> 0 | Some n \<Rightarrow> n)) cost_unit_kinds)"

definition calculate_intervention_cost ::
    "(intervention \<Rightarrow> string) \<Rightarrow> intervention \<Rightarrow> intervention_cost result" where
  "calculate_intervention_cost authority iv =
     rbind (classify iv) (\<lambda>cost_class.
     rbind (weight iv) (\<lambda>unit_cost.
     rbind (unit_counts iv) (\<lambda>counts.
     let units = map (unit_charge unit_cost) (charged_units counts);
         row = \<lparr>ic_intervention_id = iv_id iv, ic_authority_digest = authority iv,
                ic_kind = iv_kind iv, ic_family = iv_family iv, ic_cost_class = cost_class,
                ic_cost = sum_list (map cu_cost units), ic_scope = iv_scope iv,
                ic_beneficiaries = iv_beneficiaries iv, ic_units = units\<rparr>
     in
     rbind (rmap cost_unit_charge_valid units) (\<lambda>_.
     rbind (intervention_cost_valid row) (\<lambda>_. Inr row)))))"

section \<open>Attribution to functions\<close>

type_synonym fkey = "string \<times> string \<times> string"

definition dd_get :: "('k \<times> 'v :: zero) list \<Rightarrow> 'k \<Rightarrow> 'v" where
  "dd_get d k = (case map_of d k of None \<Rightarrow> 0 | Some v \<Rightarrow> v)"

definition dd_add :: "('k \<times> 'v :: monoid_add) list \<Rightarrow> 'k \<Rightarrow> 'v \<Rightarrow> ('k \<times> 'v) list" where
  "dd_add d k v = dict_set d k (dd_get d k + v)"

record attribution =
  at_direct :: "(fkey \<times> int) list"
  at_allocated :: "(fkey \<times> rat) list"
  at_exposure :: "(fkey \<times> int) list"
  at_scopes :: "(fkey \<times> scope) list"
  at_unallocated :: int

definition allocate :: "int \<Rightarrow> rat \<Rightarrow> attribution \<Rightarrow> scope \<Rightarrow> attribution result" where
  "allocate cost share a s =
     rbind (function_key s) (\<lambda>key.
       Inr (a\<lparr>at_scopes := dict_set (at_scopes a) key s,
              at_allocated := dd_add (at_allocated a) key share,
              at_exposure := dd_add (at_exposure a) key cost\<rparr>))"

definition attribute :: "attribution \<Rightarrow> intervention_cost \<Rightarrow> attribution result" where
  "attribute a r =
     (if sc_function (ic_scope r) \<noteq> None
      then rbind (function_key (ic_scope r)) (\<lambda>key.
             Inr (a\<lparr>at_scopes := dict_set (at_scopes a) key (ic_scope r),
                    at_direct := dd_add (at_direct a) key (ic_cost r)\<rparr>))
      else if ic_beneficiaries r = []
      then Inr (a\<lparr>at_unallocated := at_unallocated a + ic_cost r\<rparr>)
      else rfold (allocate (ic_cost r) (of_int (ic_cost r) / of_nat (length (ic_beneficiaries r)))) a
             (ic_beneficiaries r))"

record function_cost =
  fn_scope :: scope
  fn_direct_cost :: int
  fn_allocated_shared_cost :: "int \<times> int"
  fn_exposure_cost :: int

definition empty_attribution :: attribution where
  "empty_attribution =
     \<lparr>at_direct = [], at_allocated = [], at_exposure = [], at_scopes = [], at_unallocated = 0\<rparr>"

text \<open>\<^verbatim>\<open>RationalCost.from_fraction\<close> and \<^verbatim>\<open>as_fraction\<close>: the reduced numerator and denominator.\<close>

definition from_fraction :: "rat \<Rightarrow> int \<times> int" where
  "from_fraction q = quotient_of q"

definition as_fraction :: "int \<times> int \<Rightarrow> rat" where
  "as_fraction r = of_int (fst r) / of_int (snd r)"

definition rational_cost_valid :: "int \<times> int \<Rightarrow> bool" where
  "rational_cost_valid r = (0 \<le> fst r \<and> 0 < snd r \<and> from_fraction (as_fraction r) = r)"

definition function_row :: "attribution \<Rightarrow> fkey \<times> scope \<Rightarrow> function_cost" where
  "function_row a entry =
     \<lparr>fn_scope = snd entry, fn_direct_cost = dd_get (at_direct a) (fst entry),
      fn_allocated_shared_cost = from_fraction (dd_get (at_allocated a) (fst entry)),
      fn_exposure_cost = dd_get (at_exposure a) (fst entry)\<rparr>"

definition derive_function_costs ::
    "intervention_cost list \<Rightarrow> (function_cost list \<times> int) result" where
  "derive_function_costs rows =
     rbind (rfold attribute empty_attribution rows) (\<lambda>a.
       Inr (map (function_row a)
              (sort_by (\<lambda>x y. key_less_eq (fst x) (fst y)) (at_scopes a)),
            at_unallocated a))"

section \<open>The breakdown\<close>

record class_cost =
  cc_cost_class :: cost_class
  cc_interventions :: int
  cc_cost :: int
  cc_units :: int

record target_cost =
  tc_target :: string
  tc_interventions :: int
  tc_cost :: int
  tc_units :: int

record cost_breakdown =
  cb_project_total :: int
  cb_unallocated_shared_cost :: int
  cb_by_class :: "class_cost list"
  cb_by_target :: "target_cost list"
  cb_by_function :: "function_cost list"
  cb_interventions :: "intervention_cost list"

definition unit_count :: "intervention_cost \<Rightarrow> int" where
  "unit_count r = sum_list (map cu_count (ic_units r))"

text \<open>The validator's running triple of interventions, units and cost per key.\<close>

definition expected_step ::
    "(intervention_cost \<Rightarrow> 'k) \<Rightarrow> ('k \<times> int \<times> int \<times> int) list \<Rightarrow> intervention_cost
     \<Rightarrow> ('k \<times> int \<times> int \<times> int) list" where
  "expected_step key d r =
     (let (n, u, c) = (case map_of d (key r) of None \<Rightarrow> (0, 0, 0) | Some t \<Rightarrow> t)
      in dict_set d (key r) (n + 1, u + unit_count r, c + ic_cost r))"

definition expected_by_class :: "intervention_cost list \<Rightarrow> class_cost list" where
  "expected_by_class rows =
     (let d = foldl (expected_step ic_cost_class) [] rows
      in concat (map (\<lambda>c. case map_of d c of
              None \<Rightarrow> []
            | Some (n, u, k) \<Rightarrow> [\<lparr>cc_cost_class = c, cc_interventions = n, cc_cost = k, cc_units = u\<rparr>])
          cost_classes))"

definition expected_by_target :: "intervention_cost list \<Rightarrow> target_cost list" where
  "expected_by_target rows =
     (let d = foldl (expected_step (\<lambda>r. sc_target (ic_scope r))) [] rows
      in map (\<lambda>(t, n, u, k). \<lparr>tc_target = t, tc_interventions = n, tc_cost = k, tc_units = u\<rparr>)
           (sort_by (\<lambda>x y. str_less_eq (fst x) (fst y)) d))"

text \<open>\<^verbatim>\<open>CostBreakdown.is_complete_and_canonical\<close>.\<close>

definition cost_breakdown_valid :: "cost_breakdown \<Rightarrow> unit result" where
  "cost_breakdown_valid b =
     (let ids = map ic_intervention_id (cb_interventions b) in
      raise_unless (ids = sort_by str_less_eq ids \<and> distinct ids)
        (ValueError ''cost interventions must be unique and canonical'') (
      raise_unless (cb_project_total b = sum_list (map ic_cost (cb_interventions b)))
        (ValueError ''project cost differs from typed intervention costs'') (
      raise_unless (cb_by_class b = expected_by_class (cb_interventions b))
        (ValueError ''cost-by-class totals differ from typed intervention costs'') (
      raise_unless (cb_by_target b = expected_by_target (cb_interventions b))
        (ValueError ''cost-by-target totals differ from typed intervention costs'') (
      rbind (derive_function_costs (cb_interventions b)) (\<lambda>(functions, unallocated).
      raise_unless (cb_by_function b = functions)
        (ValueError ''function costs differ from typed intervention attribution'') (
      raise_unless (cb_unallocated_shared_cost b = unallocated)
        (ValueError ''unallocated shared cost differs from typed interventions'') (Inr ()))))))))"

text \<open>
  \<^verbatim>\<open>calculate_cost\<close>: one row per identifier, then the views.  Two definitions of an identifier
  are compared by the equality of the schema's models, which the validation library provides:
  it is the argument \<open>same\<close>.  The error names the identifier (an identifier has no quote in it).
\<close>

definition conflicting_definitions :: "string \<Rightarrow> py_error" where
  "conflicting_definitions name =
     ValueError (''intervention id '' @ [CHR 0x27] @ name @ [CHR 0x27] @ '' has conflicting definitions'')"

definition unique_step ::
    "(intervention \<Rightarrow> intervention \<Rightarrow> bool) \<Rightarrow> (string \<times> intervention) list \<Rightarrow> intervention \<Rightarrow>
     (string \<times> intervention) list result" where
  "unique_step same unique iv =
     raise_unless (case map_of unique (iv_id iv) of None \<Rightarrow> True | Some previous \<Rightarrow> same previous iv)
       (conflicting_definitions (iv_id iv))
       (Inr (dict_set unique (iv_id iv) iv))"

definition tally ::
    "(intervention_cost \<Rightarrow> 'k) \<Rightarrow> (intervention_cost \<Rightarrow> int) \<Rightarrow> intervention_cost list
     \<Rightarrow> ('k \<times> int) list" where
  "tally key val rows = foldl (\<lambda>d r. dd_add d (key r) (val r)) [] rows"

definition by_class_view :: "intervention_cost list \<Rightarrow> class_cost list" where
  "by_class_view rows =
     (let class_counts = tally ic_cost_class (\<lambda>_. 1) rows;
          class_unit_counts = tally ic_cost_class unit_count rows;
          class_costs = tally ic_cost_class ic_cost rows
      in map (\<lambda>c. \<lparr>cc_cost_class = c, cc_interventions = dd_get class_counts c,
                    cc_cost = dd_get class_costs c, cc_units = dd_get class_unit_counts c\<rparr>)
           (filter (\<lambda>c. dd_get class_counts c \<noteq> 0) cost_classes))"

definition by_target_view :: "intervention_cost list \<Rightarrow> target_cost list" where
  "by_target_view rows =
     (let target = (\<lambda>r. sc_target (ic_scope r));
          target_counts = tally target (\<lambda>_. 1) rows;
          target_unit_counts = tally target unit_count rows;
          target_costs = tally target ic_cost rows
      in map (\<lambda>t. \<lparr>tc_target = t, tc_interventions = dd_get target_counts t,
                    tc_cost = dd_get target_costs t, tc_units = dd_get target_unit_counts t\<rparr>)
           (sort_by str_less_eq (map fst target_costs)))"

definition calculate_cost ::
    "(intervention \<Rightarrow> intervention \<Rightarrow> bool) \<Rightarrow> (intervention \<Rightarrow> string) \<Rightarrow> intervention list \<Rightarrow>
     cost_breakdown result" where
  "calculate_cost same authority interventions =
     rbind (rfold (unique_step same) [] interventions) (\<lambda>unique.
     rbind (rmap (calculate_intervention_cost authority)
              (sort_by (\<lambda>a b. str_less_eq (iv_id a) (iv_id b)) (map snd unique))) (\<lambda>item_costs.
     rbind (derive_function_costs item_costs) (\<lambda>(by_function, unallocated_shared).
     let b = \<lparr>cb_project_total = sum_list (map ic_cost item_costs),
              cb_unallocated_shared_cost = unallocated_shared,
              cb_by_class = by_class_view item_costs, cb_by_target = by_target_view item_costs,
              cb_by_function = by_function, cb_interventions = item_costs\<rparr>
     in rbind (cost_breakdown_valid b) (\<lambda>_. Inr b))))"

section \<open>Lemmas on tallies\<close>

lemma dd_get_add [simp]:
  "dd_get (dd_add d k v) q = (if q = k then dd_get d k + v else dd_get d q)"
  by (simp add: dd_get_def dd_add_def)

lemma dd_get_Nil [simp]: "dd_get [] k = 0"
  by (simp add: dd_get_def)

lemma dd_add_keys: "map fst (dd_add d k v) = (if k \<in> fst ` set d then map fst d else map fst d @ [k])"
  by (simp add: dd_add_def map_fst_dict_set)

lemma tally_get_from:
  "dd_get (foldl (\<lambda>d r. dd_add d (key r) (val r)) d rows) k =
     dd_get d k + sum_list (map val (filter (\<lambda>r. key r = k) rows))"
  for val :: "'a \<Rightarrow> 'b :: comm_monoid_add"
  by (induction rows arbitrary: d) (auto simp: add.assoc)

lemma tally_get: "dd_get (tally key val rows) k = sum_list (map val (filter (\<lambda>r. key r = k) rows))"
  by (simp add: tally_def tally_get_from)

definition keys_in_order :: "'k list \<Rightarrow> 'k list \<Rightarrow> 'k list" where
  "keys_in_order = foldl (\<lambda>ks k. if k \<in> set ks then ks else ks @ [k])"

lemma tally_keys_from:
  "map fst (foldl (\<lambda>d r. dd_add d (key r) (val r)) d rows) = keys_in_order (map fst d) (map key rows)"
  by (induction rows arbitrary: d) (auto simp: keys_in_order_def dd_add_keys)

lemma tally_keys: "map fst (tally key val rows) = keys_in_order [] (map key rows)"
  by (simp add: tally_def tally_keys_from)

lemma expected_keys_from:
  "map fst (foldl (expected_step key) d rows) = keys_in_order (map fst d) (map key rows)"
  by (induction rows arbitrary: d)
     (auto simp: keys_in_order_def expected_step_def map_fst_dict_set split: prod.splits)

lemma keys_in_order_set: "set (keys_in_order acc ks) = set acc \<union> set ks"
  unfolding keys_in_order_def by (induction ks arbitrary: acc) auto

lemma keys_in_order_distinct: "distinct acc \<Longrightarrow> distinct (keys_in_order acc ks)"
  unfolding keys_in_order_def by (induction ks arbitrary: acc) auto

definition triple :: "(intervention_cost \<Rightarrow> 'k) \<Rightarrow> intervention_cost list \<Rightarrow> 'k \<Rightarrow> int \<times> int \<times> int" where
  "triple key rows k =
     (let rs = filter (\<lambda>r. key r = k) rows
      in (len rs, sum_list (map unit_count rs), sum_list (map ic_cost rs)))"

lemma expected_lookup:
  "map_of (foldl (expected_step key) [] rows) k =
     (if k \<in> key ` set rows then Some (triple key rows k) else None)"
proof (induction rows rule: rev_induct)
  case (snoc r rows)
  show ?case
  proof (cases "k = key r")
    case False
    then show ?thesis using snoc
      by (auto simp: expected_step_def triple_def split: prod.splits)
  next
    case True
    have "triple key rows k = (0, 0, 0)" if "k \<notin> key ` set rows"
    proof -
      have "filter (\<lambda>r. key r = k) rows = []" using that by (auto simp: filter_empty_conv)
      then show ?thesis by (simp add: triple_def)
    qed
    then show ?thesis using snoc True
      by (auto simp: expected_step_def triple_def Let_def split: prod.splits)
  qed
qed simp

lemma tally_triple:
  "dd_get (tally key (\<lambda>_. 1) rows) k = fst (triple key rows k)"
  "dd_get (tally key unit_count rows) k = fst (snd (triple key rows k))"
  "dd_get (tally key ic_cost rows) k = snd (snd (triple key rows k))"
  by (simp_all add: tally_get triple_def Let_def sum_list_triv)

lemma concat_map_filter:
  "(\<And>x. x \<in> set xs \<Longrightarrow> f x = (if P x then [g x] else [])) \<Longrightarrow>
     concat (map f xs) = map g (filter P xs)"
  by (induction xs) auto

lemma triple_zero: "fst (triple key rows k) = 0 \<longleftrightarrow> k \<notin> key ` set rows"
  by (auto simp: triple_def Let_def filter_empty_conv)

lemma by_class_agrees: "by_class_view rows = expected_by_class rows"
  unfolding by_class_view_def expected_by_class_def Let_def expected_lookup tally_triple triple_zero
  by (rule concat_map_filter [symmetric]) (auto split: prod.splits)

lemma by_target_agrees: "by_target_view rows = expected_by_target rows"
proof -
  let ?key = "\<lambda>r. sc_target (ic_scope r)"
  let ?d = "foldl (expected_step ?key) [] rows"
  have keys: "map fst ?d = map fst (tally ?key ic_cost rows)"
    by (simp add: expected_keys_from tally_keys)
  have entry: "e = (fst e, triple ?key rows (fst e))" if "e \<in> set ?d" for e
  proof -
    have "distinct (map fst ?d)" by (simp add: expected_keys_from keys_in_order_distinct)
    then have "map_of ?d (fst e) = Some (snd e)" using that by (simp add: map_of_eq_Some_iff)
    then show ?thesis by (cases e) (auto simp: expected_lookup split: if_splits)
  qed
  let ?row = "\<lambda>t. \<lparr>tc_target = t, tc_interventions = fst (triple ?key rows t),
      tc_cost = snd (snd (triple ?key rows t)), tc_units = fst (snd (triple ?key rows t))\<rparr>"
  have "expected_by_target rows = map (\<lambda>e. ?row (fst e)) (sort_by (\<lambda>x y. str_less_eq (fst x) (fst y)) ?d)"
    unfolding expected_by_target_def Let_def
  proof (rule map_cong [OF refl])
    fix e assume "e \<in> set (sort_by (\<lambda>x y. str_less_eq (fst x) (fst y)) ?d)"
    then have "snd e = triple ?key rows (fst e)" using entry [of e] by (metis set_sort_by snd_conv)
    then show "(case e of (t, n, u, k) \<Rightarrow>
        \<lparr>tc_target = t, tc_interventions = n, tc_cost = k, tc_units = u\<rparr>) = ?row (fst e)"
      by (cases "triple ?key rows (fst e)"; cases e) auto
  qed
  also have "\<dots> = map ?row (map fst (sort_by (\<lambda>x y. str_less_eq (fst x) (fst y)) ?d))" by simp
  also have "\<dots> = by_target_view rows"
    unfolding map_sort_by keys by_target_view_def Let_def tally_triple ..
  finally show ?thesis ..
qed

section \<open>Conservation\<close>

definition attributed :: "attribution \<Rightarrow> fkey \<Rightarrow> rat" where
  "attributed a k = of_int (dd_get (at_direct a) k) + dd_get (at_allocated a) k"

definition attributed_total :: "attribution \<Rightarrow> rat" where
  "attributed_total a =
     (\<Sum>k \<in> fst ` set (at_scopes a). attributed a k) + of_int (at_unallocated a)"

text \<open>Every function with a charge has a scope, and amounts are never negative.\<close>

definition attribution_ok :: "attribution \<Rightarrow> bool" where
  "attribution_ok a \<longleftrightarrow> distinct (map fst (at_scopes a))
     \<and> (\<forall>k. k \<notin> fst ` set (at_scopes a) \<longrightarrow>
            dd_get (at_direct a) k = 0 \<and> dd_get (at_allocated a) k = 0)
     \<and> (\<forall>k. 0 \<le> dd_get (at_direct a) k \<and> 0 \<le> dd_get (at_allocated a) k
            \<and> dd_get (at_allocated a) k \<le> of_int (dd_get (at_exposure a) k))
     \<and> (\<forall>k s. (k, s) \<in> set (at_scopes a) \<longrightarrow> function_key s = Inr k)"

lemma sum_insert_charge:
  fixes f g :: "'k \<Rightarrow> rat"
  assumes "finite K" "\<And>q. q \<noteq> k \<Longrightarrow> g q = f q" "g k = f k + v" "k \<notin> K \<Longrightarrow> f k = 0"
  shows "sum g (insert k K) = sum f K + v"
proof -
  have "sum g (K - {k}) = sum f (K - {k})" by (rule sum.cong) (use assms(2) in auto)
  moreover have "sum g (insert k K) = g k + sum g (K - {k})"
    using assms(1) by (metis finite_insert insertI1 insert_Diff_single sum.insert_remove)
  moreover have "sum f K = f k + sum f (K - {k})"
    using assms(1,4) by (cases "k \<in> K") (auto simp: sum.remove)
  ultimately show ?thesis using assms(3) by simp
qed

lemma dict_set_member:
  "distinct (map fst d) \<Longrightarrow> (q, w) \<in> set (dict_set d k v) \<longleftrightarrow>
     (if q = k then w = v else (q, w) \<in> set d)"
  by (induction d k v rule: dict_set.induct) (auto, force+)

lemma charge_function:
  assumes ok: "attribution_ok a" and key: "function_key s = Inr k"
    and d: "0 \<le> d" "0 \<le> share" "share \<le> of_int e"
    and direct: "\<And>q. dd_get (at_direct b) q = (if q = k then dd_get (at_direct a) q + d else dd_get (at_direct a) q)"
    and alloc: "\<And>q. dd_get (at_allocated b) q = (if q = k then dd_get (at_allocated a) q + share else dd_get (at_allocated a) q)"
    and expo: "\<And>q. dd_get (at_exposure b) q = (if q = k then dd_get (at_exposure a) q + e else dd_get (at_exposure a) q)"
    and rest: "at_scopes b = dict_set (at_scopes a) k s" "at_unallocated b = at_unallocated a"
  shows "attribution_ok b \<and> attributed_total b = attributed_total a + of_int d + share"
proof
  have dist: "distinct (map fst (at_scopes a))"
    and zero: "\<And>q. q \<notin> fst ` set (at_scopes a) \<Longrightarrow> dd_get (at_direct a) q = 0 \<and> dd_get (at_allocated a) q = 0"
    and pos: "\<And>q. 0 \<le> dd_get (at_direct a) q" "\<And>q. 0 \<le> dd_get (at_allocated a) q"
      "\<And>q. dd_get (at_allocated a) q \<le> of_int (dd_get (at_exposure a) q)"
    and scopes: "\<And>q t. (q, t) \<in> set (at_scopes a) \<Longrightarrow> function_key t = Inr q"
    using ok unfolding attribution_ok_def by blast+
  show "attribution_ok b"
    unfolding attribution_ok_def
  proof (intro conjI allI impI)
    show "distinct (map fst (at_scopes b))" using dist rest by (simp add: dict_set_distinct)
    fix q
    show "dd_get (at_direct b) q = 0" "dd_get (at_allocated b) q = 0" if "q \<notin> fst ` set (at_scopes b)"
      using zero [of q] that by (simp_all add: rest dict_set_keys direct alloc)
    show "0 \<le> dd_get (at_direct b) q" "0 \<le> dd_get (at_allocated b) q"
      using pos(1,2) [of q] d by (auto simp: direct alloc)
    show "dd_get (at_allocated b) q \<le> of_int (dd_get (at_exposure b) q)"
      using pos(3) [of q] d(3) by (auto simp: alloc expo intro: add_mono)
    show "function_key t = Inr q" if "(q, t) \<in> set (at_scopes b)" for t
      using that scopes [of q t] key dist unfolding rest
      by (simp add: dict_set_member split: if_splits)
  qed
  have "sum (attributed b) (insert k (fst ` set (at_scopes a))) =
        sum (attributed a) (fst ` set (at_scopes a)) + (of_int d + share)"
    by (rule sum_insert_charge)
       (use zero [of k] in \<open>simp_all add: attributed_def direct alloc\<close>)
  then show "attributed_total b = attributed_total a + of_int d + share"
    by (simp add: attributed_total_def rest dict_set_keys)
qed

lemma allocate_step:
  assumes "attribution_ok a" "allocate cost share a s = Inr b" "0 \<le> share" "share \<le> of_int cost"
  shows "attribution_ok b \<and> attributed_total b = attributed_total a + share"
proof -
  from assms(2) obtain k where k: "function_key s = Inr k"
    and b: "b = a\<lparr>at_scopes := dict_set (at_scopes a) k s,
              at_allocated := dd_add (at_allocated a) k share,
              at_exposure := dd_add (at_exposure a) k cost\<rparr>"
    by (auto simp: allocate_def)
  have "attribution_ok b \<and> attributed_total b = attributed_total a + of_int 0 + share"
    by (rule charge_function [OF assms(1) k _ assms(3,4)]) (simp_all add: b)
  then show ?thesis by simp
qed

lemma allocate_all:
  assumes "attribution_ok a" "rfold (allocate cost share) a ss = Inr b"
    and "0 \<le> share" "share \<le> of_int cost"
  shows "attribution_ok b \<and> attributed_total b = attributed_total a + of_nat (length ss) * share"
  using assms(1,2)
proof (induction ss arbitrary: a)
  case (Cons s ss)
  from Cons.prems(2) obtain m where m: "allocate cost share a s = Inr m"
    "rfold (allocate cost share) m ss = Inr b" by auto
  have "attribution_ok m \<and> attributed_total m = attributed_total a + share"
    by (rule allocate_step [OF Cons.prems(1) m(1) assms(3,4)])
  then show ?case using Cons.IH [OF _ m(2)] by (simp add: algebra_simps)
qed simp

lemma attribute_step:
  assumes "attribution_ok a" "attribute a r = Inr b" "0 \<le> ic_cost r"
  shows "attribution_ok b \<and> attributed_total b = attributed_total a + of_int (ic_cost r)"
proof (cases "sc_function (ic_scope r) = None")
  case False
  then obtain k where k: "function_key (ic_scope r) = Inr k"
    and b: "b = a\<lparr>at_scopes := dict_set (at_scopes a) k (ic_scope r),
                    at_direct := dd_add (at_direct a) k (ic_cost r)\<rparr>"
    using assms(2) by (auto simp: attribute_def)
  have "attribution_ok b \<and> attributed_total b = attributed_total a + of_int (ic_cost r) + 0"
    by (rule charge_function [OF assms(1) k assms(3), of 0 0]) (simp_all add: b)
  then show ?thesis by simp
next
  case shared: True
  show ?thesis
  proof (cases "ic_beneficiaries r = []")
    case True
    then have b: "b = a\<lparr>at_unallocated := at_unallocated a + ic_cost r\<rparr>"
      using shared assms(2) by (simp add: attribute_def)
    then show ?thesis using assms(1)
      by (simp add: attribution_ok_def attributed_total_def attributed_def [abs_def])
  next
    case False
    let ?n = "of_nat (length (ic_beneficiaries r)) :: rat"
    let ?share = "of_int (ic_cost r) / ?n"
    have n: "1 \<le> ?n" using False by (cases "ic_beneficiaries r") simp_all
    have "?share \<le> of_int (ic_cost r)"
      using n assms(3) by (simp add: divide_le_eq mult_le_cancel_left1)
    moreover have "0 \<le> ?share" using assms(3) by simp
    moreover have "rfold (allocate (ic_cost r) ?share) a (ic_beneficiaries r) = Inr b"
      using shared False assms(2) by (simp add: attribute_def)
    ultimately have "attribution_ok b \<and> attributed_total b = attributed_total a + ?n * ?share"
      using allocate_all [OF assms(1)] by blast
    then show ?thesis using False by simp
  qed
qed

lemma attribute_all:
  assumes "attribution_ok a" "rfold attribute a rows = Inr b" "\<forall>r \<in> set rows. 0 \<le> ic_cost r"
  shows "attribution_ok b
    \<and> attributed_total b = attributed_total a + of_int (sum_list (map ic_cost rows))"
  using assms
proof (induction rows arbitrary: a)
  case (Cons r rows)
  from Cons.prems(2) obtain m where m: "attribute a r = Inr m" "rfold attribute m rows = Inr b"
    by auto
  have "attribution_ok m \<and> attributed_total m = attributed_total a + of_int (ic_cost r)"
    using attribute_step [OF Cons.prems(1) m(1)] Cons.prems(3) by simp
  then show ?case using Cons.IH [OF _ m(2)] Cons.prems(3) by simp
qed simp

lemma empty_attribution_ok: "attribution_ok empty_attribution \<and> attributed_total empty_attribution = 0"
  by (simp add: attribution_ok_def attributed_total_def empty_attribution_def)

lemma sum_by_key:
  fixes f :: "'a \<Rightarrow> int"
  assumes "distinct ks" "key ` set rows \<subseteq> set ks"
  shows "sum_list (map (\<lambda>k. sum_list (map f (filter (\<lambda>r. key r = k) rows))) ks) = sum_list (map f rows)"
  using assms(2)
proof (induction rows)
  case (Cons r rows)
  have "sum_list (map (\<lambda>k. if key r = k then f r else 0) ks) = f r"
    using assms(1) Cons.prems by (simp add: sum_list_distinct_conv_sum_set)
  moreover have "sum_list (map (\<lambda>k. sum_list (map f (filter (\<lambda>q. key q = k) (r # rows)))) ks) =
      sum_list (map (\<lambda>k. (if key r = k then f r else 0)
                         + sum_list (map f (filter (\<lambda>q. key q = k) rows))) ks)"
    by (intro arg_cong [where f = sum_list] map_cong refl) simp
  ultimately show ?case using Cons by (simp add: sum_list_addf)
qed (simp add: sum_list_0)

lemma class_costs_total: "sum_list (map cc_cost (by_class_view rows)) = sum_list (map ic_cost rows)"
proof -
  let ?ks = "filter (\<lambda>c. c \<in> ic_cost_class ` set rows) cost_classes"
  have "map cc_cost (by_class_view rows) =
      map (\<lambda>c. sum_list (map ic_cost (filter (\<lambda>r. ic_cost_class r = c) rows))) ?ks"
    by (simp add: by_class_view_def tally_triple triple_zero) (simp add: triple_def Let_def)
  then show ?thesis
    using sum_by_key [of ?ks ic_cost_class rows ic_cost] cost_classes_distinct cost_classes_complete
    by simp
qed

lemma target_costs_total: "sum_list (map tc_cost (by_target_view rows)) = sum_list (map ic_cost rows)"
proof -
  let ?key = "\<lambda>r. sc_target (ic_scope r)"
  let ?ks = "sort_by str_less_eq (map fst (tally ?key ic_cost rows))"
  have "map tc_cost (by_target_view rows) =
      map (\<lambda>t. sum_list (map ic_cost (filter (\<lambda>r. ?key r = t) rows))) ?ks"
    by (simp add: by_target_view_def Let_def tally_get)
  moreover have "distinct ?ks" "?key ` set rows \<subseteq> set ?ks"
    by (simp_all add: tally_keys keys_in_order_distinct keys_in_order_set)
  ultimately show ?thesis using sum_by_key [of ?ks ?key rows ic_cost] by metis
qed

lemma from_fraction_reduced:
  assumes "0 \<le> q"
  shows "rational_cost_valid (from_fraction q) \<and> as_fraction (from_fraction q) = q"
proof -
  obtain n d where nd: "quotient_of q = (n, d)" by fastforce
  then have q: "q = of_int n / of_int d" and "0 < d"
    by (auto dest: quotient_of_div quotient_of_denom_pos)
  moreover from this assms have "0 \<le> n" by (simp add: zero_le_divide_iff)
  ultimately show ?thesis
    using nd by (simp add: rational_cost_valid_def from_fraction_def as_fraction_def q [symmetric])
qed

lemma derived_rows:
  assumes "derive_function_costs rows = Inr (fs, unallocated)" "\<forall>r \<in> set rows. 0 \<le> ic_cost r"
  shows "of_int (sum_list (map ic_cost rows)) =
      sum_list (map (\<lambda>f. of_int (fn_direct_cost f) + as_fraction (fn_allocated_shared_cost f)) fs)
        + of_int unallocated
    \<and> (\<forall>f \<in> set fs. rational_cost_valid (fn_allocated_shared_cost f)
        \<and> as_fraction (fn_allocated_shared_cost f) \<le> of_int (fn_exposure_cost f))"
proof -
  from assms(1) obtain a where a: "rfold attribute empty_attribution rows = Inr a"
    and fs: "fs = map (function_row a) (sort_by (\<lambda>x y. key_less_eq (fst x) (fst y)) (at_scopes a))"
    and u: "unallocated = at_unallocated a"
    by (auto simp: derive_function_costs_def)
  have "attribution_ok empty_attribution" and zero: "attributed_total empty_attribution = 0"
    using empty_attribution_ok by auto
  from attribute_all [OF this(1) a assms(2)] have ok: "attribution_ok a"
    and total: "attributed_total a = of_int (sum_list (map ic_cost rows))" using zero by auto
  have pos: "0 \<le> dd_get (at_allocated a) k"
    "dd_get (at_allocated a) k \<le> of_int (dd_get (at_exposure a) k)" for k
    using ok unfolding attribution_ok_def by blast+
  have dist: "distinct (map fst (at_scopes a))" using ok unfolding attribution_ok_def by blast
  let ?es = "sort_by (\<lambda>x y. key_less_eq (fst x) (fst y)) (at_scopes a)"
  have "sum_list (map (\<lambda>f. of_int (fn_direct_cost f) + as_fraction (fn_allocated_shared_cost f)) fs)
      = sum_list (map (attributed a) (map fst ?es))"
    using from_fraction_reduced [OF pos(1)]
    by (simp add: fs function_row_def attributed_def o_def)
  also have "\<dots> = sum (attributed a) (set (map fst ?es))"
    by (rule sum_list_distinct_conv_sum_set) (simp add: dist map_sort_by)
  also have "set (map fst ?es) = fst ` set (at_scopes a)" by simp
  finally show ?thesis
    using total u from_fraction_reduced [OF pos(1)] pos(2)
    by (auto simp: attributed_total_def fs function_row_def)
qed

section \<open>Deduplication\<close>

definition unique_ok :: "(string \<times> intervention) list \<Rightarrow> bool" where
  "unique_ok u \<longleftrightarrow> distinct (map fst u) \<and> (\<forall>e \<in> set u. fst e = iv_id (snd e))"

text \<open>The definitions a list gives for an identifier, and the last of them.\<close>

definition definitions_of :: "intervention list \<Rightarrow> string \<Rightarrow> intervention list" where
  "definitions_of ivs k = filter (\<lambda>iv. iv_id iv = k) ivs"

definition last_definition :: "intervention list \<Rightarrow> string \<Rightarrow> intervention option" where
  "last_definition ivs k = (if definitions_of ivs k = [] then None else Some (last (definitions_of ivs k)))"

definition agreeing :: "(intervention \<Rightarrow> intervention \<Rightarrow> bool) \<Rightarrow> intervention list \<Rightarrow> bool" where
  "agreeing same ivs \<longleftrightarrow> (\<forall>k. successively same (definitions_of ivs k))"

lemma last_definition_member: "last_definition ivs k = Some iv \<Longrightarrow> iv \<in> set ivs \<and> iv_id iv = k"
  using last_in_set [of "definitions_of ivs k"]
  by (auto simp: last_definition_def definitions_of_def split: if_splits)

lemma definitions_of_snoc: "definitions_of (ivs @ [iv]) k = definitions_of ivs k @ (if iv_id iv = k then [iv] else [])"
  by (simp add: definitions_of_def)

lemma agreeing_snoc:
  "agreeing same (ivs @ [iv]) \<longleftrightarrow> agreeing same ivs
    \<and> (case last_definition ivs (iv_id iv) of None \<Rightarrow> True | Some previous \<Rightarrow> same previous iv)"
  unfolding agreeing_def definitions_of_snoc
  by (auto simp: last_definition_def successively_append_iff)

text \<open>The dictionary holds the last definition of every identifier, or two definitions disagree.\<close>

lemma unique_rows:
  "case rfold (unique_step same) [] ivs of
      Inl e \<Rightarrow> (\<exists>k. e = conflicting_definitions k) \<and> \<not> agreeing same ivs
    | Inr u \<Rightarrow> unique_ok u \<and> map_of u = last_definition ivs \<and> agreeing same ivs"
proof (induction ivs rule: rev_induct)
  case Nil
  show ?case by (auto simp: unique_ok_def last_definition_def definitions_of_def agreeing_def)
next
  case (snoc iv ivs)
  show ?case
  proof (cases "rfold (unique_step same) [] ivs")
    case (Inl e)
    then show ?thesis using snoc.IH by (simp add: rfold_append agreeing_snoc)
  next
    case (Inr u)
    then have u: "unique_ok u" "map_of u = last_definition ivs" "agreeing same ivs" using snoc.IH by simp_all
    let ?ok = "case last_definition ivs (iv_id iv) of None \<Rightarrow> True | Some previous \<Rightarrow> same previous iv"
    have v: "unique_ok (dict_set u (iv_id iv) iv)"
      using u(1) dict_set_distinct [of u "iv_id iv" iv]
      by (auto simp: unique_ok_def dict_set_member split: if_splits)
    have "(last_definition ivs)(iv_id iv \<mapsto> iv) = last_definition (ivs @ [iv])"
      by (auto simp: last_definition_def definitions_of_snoc)
    moreover have "rfold (unique_step same) [] (ivs @ [iv]) = rbind (unique_step same u iv) Inr"
      by (simp add: rfold_append Inr)
    moreover have "unique_step same u iv
        = (if ?ok then Inr (dict_set u (iv_id iv) iv) else Inl (conflicting_definitions (iv_id iv)))"
      by (simp add: unique_step_def u(2))
    ultimately show ?thesis
      using u v by (cases ?ok) (auto simp: agreeing_snoc)
  qed
qed

lemma unique_members:
  assumes "unique_ok u" "map_of u = last_definition ivs"
  shows "snd ` set u \<subseteq> set ivs" "fst ` set u = iv_id ` set ivs"
    "iv \<in> snd ` set u \<Longrightarrow> last_definition ivs (iv_id iv) = Some iv"
proof -
  have l: "last_definition ivs (fst e) = Some (snd e)" "iv_id (snd e) = fst e" if "e \<in> set u" for e
    using assms that by (auto simp: unique_ok_def) (metis map_of_is_SomeI prod.collapse)
  show "snd ` set u \<subseteq> set ivs" using l last_definition_member by blast
  show "iv \<in> snd ` set u \<Longrightarrow> last_definition ivs (iv_id iv) = Some iv" using l by auto
  have "k \<in> fst ` set u \<longleftrightarrow> k \<in> iv_id ` set ivs" for k
  proof -
    have "k \<in> fst ` set u \<longleftrightarrow> last_definition ivs k \<noteq> None"
      unfolding assms(2) [symmetric] by (metis map_of_eq_None_iff)
    also have "\<dots> \<longleftrightarrow> k \<in> iv_id ` set ivs"
      by (auto simp: last_definition_def definitions_of_def filter_empty_conv)
    finally show ?thesis .
  qed
  then show "fst ` set u = iv_id ` set ivs" by blast
qed

section \<open>Rows and breakdowns are accepted\<close>

lemma calculated_row:
  assumes "calculate_intervention_cost authority iv = Inr r"
  shows "0 \<le> ic_cost r \<and> ic_intervention_id r = iv_id iv \<and> ic_scope r = iv_scope iv
    \<and> ic_beneficiaries r = iv_beneficiaries iv \<and> intervention_cost_valid r = Inr ()
    \<and> classify iv = Inr (ic_cost_class r)
    \<and> ic_cost r = unit_count r * cost_weight (ic_cost_class r)"
proof -
  from assms obtain c counts us where c: "classify iv = Inr c" "unit_counts iv = Inr counts"
    and units: "rmap cost_unit_charge_valid (map (unit_charge (cost_weight c)) (charged_units counts)) = Inr us"
    and r: "r = \<lparr>ic_intervention_id = iv_id iv, ic_authority_digest = authority iv,
                ic_kind = iv_kind iv, ic_family = iv_family iv, ic_cost_class = c,
                ic_cost = sum_list (map cu_cost (map (unit_charge (cost_weight c)) (charged_units counts))),
                ic_scope = iv_scope iv, ic_beneficiaries = iv_beneficiaries iv,
                ic_units = map (unit_charge (cost_weight c)) (charged_units counts)\<rparr>"
    and valid: "intervention_cost_valid r = Inr ()"
    by (auto simp: calculate_intervention_cost_def weight_def Let_def)
  have "0 \<le> cu_cost u" if u: "u \<in> set (ic_units r)" for u
  proof -
    obtain y where "cost_unit_charge_valid u = Inr y"
      using rmap_member [OF units, of u] u r by auto
    then show ?thesis by (simp add: cost_unit_charge_valid_def)
  qed
  then have "0 \<le> sum_list (map cu_cost (ic_units r))" by (intro sum_list_nonneg) auto
  then have "0 \<le> ic_cost r" by (simp add: r)
  moreover have "ic_cost r = unit_count r * cost_weight c"
    by (simp add: r unit_count_def unit_charge_def o_def sum_list_mult_const)
  ultimately show ?thesis using c(1) valid by (simp add: r)
qed

lemma ids_sorted:
  assumes "rmap (calculate_intervention_cost authority)
     (sort_by (\<lambda>a b. str_less_eq (iv_id a) (iv_id b)) (map snd u)) = Inr rows" and "unique_ok u"
  shows "map ic_intervention_id rows = sort_by str_less_eq (map fst u)"
proof -
  have "map ic_intervention_id rows =
      map iv_id (sort_by (\<lambda>a b. str_less_eq (iv_id a) (iv_id b)) (map snd u))"
    by (rule rmap_map_eq [OF assms(1)]) (simp add: calculated_row)
  also have "\<dots> = sort_by str_less_eq (map iv_id (map snd u))" by (rule map_sort_by)
  also have "map iv_id (map snd u) = map fst u" using assms(2) by (auto simp: unique_ok_def)
  finally show ?thesis .
qed

text \<open>The breakdown the calculation builds always passes its own validator.\<close>

lemma built_breakdown_valid:
  assumes "derive_function_costs rows = Inr (fs, un)"
    and "map ic_intervention_id rows = sort_by str_less_eq ids" "distinct ids"
  shows "cost_breakdown_valid
    \<lparr>cb_project_total = sum_list (map ic_cost rows), cb_unallocated_shared_cost = un,
     cb_by_class = by_class_view rows, cb_by_target = by_target_view rows,
     cb_by_function = fs, cb_interventions = rows\<rparr> = Inr ()"
  using assms by (simp add: cost_breakdown_valid_def by_class_agrees by_target_agrees)

lemma calculate_cost_Inr:
  assumes "calculate_cost same authority ivs = Inr b"
  obtains u where "unique_ok u" "map_of u = last_definition ivs"
    and "rmap (calculate_intervention_cost authority)
          (sort_by (\<lambda>a c. str_less_eq (iv_id a) (iv_id c)) (map snd u)) = Inr (cb_interventions b)"
    and "derive_function_costs (cb_interventions b) = Inr (cb_by_function b, cb_unallocated_shared_cost b)"
    and "cb_project_total b = sum_list (map ic_cost (cb_interventions b))"
    and "cb_by_class b = by_class_view (cb_interventions b)"
    and "cb_by_target b = by_target_view (cb_interventions b)"
  using assms unique_rows [of same ivs] by (auto simp: calculate_cost_def Let_def)

text \<open>
  The interventions that can be charged: a family exactly on classic recipes, a translation
  unit under every function and canonical beneficiaries, as the schema demands, and a known
  class and chargeable units.
\<close>

definition scope_valid :: "scope \<Rightarrow> bool" where
  "scope_valid s = (sc_function s = None \<or> sc_translation_unit s \<noteq> None)"

definition intervention_valid :: "intervention \<Rightarrow> bool" where
  "intervention_valid iv =
     ((iv_kind iv = ''classic_recipe'') = (iv_family iv \<noteq> None) \<and> scope_valid (iv_scope iv)
      \<and> beneficiaries_valid (iv_scope iv) (iv_beneficiaries iv) = Inr ()
      \<and> \<not> isl (classify iv) \<and> \<not> isl (unit_counts iv))"

lemma classify_agrees:
  assumes "(iv_kind iv = ''classic_recipe'') = (iv_family iv \<noteq> None)" "classify iv = Inr c"
  shows "classify_record (iv_kind iv) (iv_family iv) = Inr c"
  using assms
  by (auto simp: classify_def classify_record_def classic_class_def dict_item_def split: option.splits)

lemma output_ops_pos: "output_ops v = Inr n \<Longrightarrow> 0 < n"
  by (auto simp: output_ops_def split: py_value.splits)

lemma graph_units_Inr:
  "graph_units edits graph = Inr counts \<Longrightarrow>
     \<exists>g a. counts = overlay_counts edits (int g) (int a) \<and> counts \<noteq> []"
  by (auto simp: graph_units_def Let_def split: py_value.splits)

lemma overlay_units_Inr:
  assumes "overlay_units ps = Inr counts"
  obtains e g a where "0 \<le> e" "0 \<le> g" "0 \<le> a" "counts = overlay_counts e g a" "counts \<noteq> []"
proof -
  from assms obtain outputs edits graph where
    edits: "rmap output_ops outputs = Inr edits"
    and graph: "graph_units (sum_list edits) graph = Inr counts"
    unfolding overlay_units_def by (auto split: option.splits py_value.splits)
  have "\<forall>n \<in> set edits. 0 \<le> n" using rmap_in_set [OF edits] output_ops_pos by fastforce
  then have "0 \<le> sum_list edits" by (simp add: sum_list_nonneg)
  moreover obtain g a where "counts = overlay_counts (sum_list edits) (int g) (int a)" "counts \<noteq> []"
    using graph_units_Inr [OF graph] by blast
  ultimately show ?thesis using that [of "sum_list edits" "int g" "int a"] by simp
qed

lemma charged_overlay: "charged_units (overlay_counts e g a) = overlay_counts e g a"
  by (simp add: charged_units_def overlay_counts_def cost_unit_kinds_def)

lemma unit_counts_shape:
  assumes "unit_counts iv = Inr counts"
  shows "list_all (\<lambda>e. 0 < snd e) (charged_units counts)
    \<and> map fst (charged_units counts)
        = filter (\<lambda>k. k \<in> set (map fst (charged_units counts))) cost_unit_kinds
    \<and> distinct (map fst (charged_units counts))
    \<and> (if is_overlay_graph iv
       then charged_units counts \<noteq> []
         \<and> list_all (\<lambda>e. fst e \<in> {SourceOverlayEdit, GeneratedTranslationUnit, LinkAdmission})
             (charged_units counts)
       else charged_units counts = [(UnitIntervention, 1)])"
proof (cases "is_overlay_graph iv")
  case False
  then have "counts = [(UnitIntervention, 1)]" using assms by (simp add: unit_counts_def)
  then have "charged_units counts = [(UnitIntervention, 1)]"
    by (simp add: charged_units_def cost_unit_kinds_def)
  then show ?thesis using False by (simp add: cost_unit_kinds_def)
next
  case True
  then have "overlay_units (iv_parameters iv) = Inr counts" using assms by (simp add: unit_counts_def)
  then obtain e g a where nn: "0 \<le> e" "0 \<le> g" "0 \<le> a"
    and counts: "counts = overlay_counts e g a" and ne: "counts \<noteq> []" by (rule overlay_units_Inr)
  have charged: "charged_units counts = counts" unfolding counts by (rule charged_overlay)
  have "list_all (\<lambda>e. 0 < snd e) counts \<and> map fst counts = filter (\<lambda>k. k \<in> set (map fst counts)) cost_unit_kinds
      \<and> distinct (map fst counts)
      \<and> list_all (\<lambda>e. fst e \<in> {SourceOverlayEdit, GeneratedTranslationUnit, LinkAdmission}) counts"
    using nn unfolding counts overlay_counts_def
    by (cases "e = 0"; cases "g = 0"; cases "a = 0") (simp_all add: cost_unit_kinds_def)
  then show ?thesis unfolding charged if_P [OF True] using ne by blast
qed

lemma cost_weight_pos: "0 < cost_weight c"
  by (cases c) simp_all

lemma rmap_unit: "(\<And>x. x \<in> set xs \<Longrightarrow> f x = Inr ()) \<Longrightarrow> \<exists>ys. rmap f xs = Inr ys"
  by (induction xs) auto

lemma calculated_row_exists:
  assumes "intervention_valid iv"
  shows "\<exists>r. calculate_intervention_cost authority iv = Inr r"
proof -
  from assms obtain c counts where c: "classify iv = Inr c" and counts: "unit_counts iv = Inr counts"
    and ben: "beneficiaries_valid (iv_scope iv) (iv_beneficiaries iv) = Inr ()"
    and kind: "(iv_kind iv = ''classic_recipe'') = (iv_family iv \<noteq> None)"
    unfolding intervention_valid_def by (cases "classify iv"; cases "unit_counts iv") auto
  note shape = unit_counts_shape [OF counts]
  let ?units = "map (unit_charge (cost_weight c)) (charged_units counts)"
  have "\<exists>us. rmap cost_unit_charge_valid ?units = Inr us"
    using shape cost_weight_pos [of c]
    by (intro rmap_unit) (auto simp: cost_unit_charge_valid_def unit_charge_def list_all_iff)
  moreover have kinds: "map cu_kind ?units = map fst (charged_units counts)"
    by (simp add: unit_charge_def)
  have "units_valid (iv_kind iv) (iv_family iv) ?units = Inr ()"
  proof (cases "is_overlay_graph iv")
    case True
    then have "iv_kind iv = ''classic_recipe'' \<and> iv_family iv = Some SourceOverlayGraph"
      using kind by (simp add: is_overlay_graph_def)
    then show ?thesis using shape True unfolding units_valid_def Let_def kinds
      by (auto simp: unit_charge_def list_all_iff intro!: filter_cong)
  next
    case False
    then show ?thesis using shape unfolding units_valid_def Let_def kinds
      by (auto simp: unit_charge_def is_overlay_graph_def cost_unit_kinds_def)
  qed
  ultimately show ?thesis
    using c counts ben classify_agrees [OF kind c]
    by (simp add: calculate_intervention_cost_def weight_def Let_def intervention_cost_valid_def
        unit_charge_def list_all_iff)
qed

lemma beneficiaries_have_keys:
  assumes "beneficiaries_valid owner bs = Inr ()" "b \<in> set bs"
  shows "\<exists>k. function_key b = Inr k"
proof -
  from assms(1) obtain ks where "rmap (beneficiary_key owner) bs = Inr ks"
    by (auto simp: beneficiaries_valid_def)
  from rmap_member [OF this assms(2)] show ?thesis
    by (auto simp: beneficiary_key_def function_key_def split: option.splits)
qed

lemma allocate_exists:
  "(\<And>s. s \<in> set ss \<Longrightarrow> \<exists>k. function_key s = Inr k) \<Longrightarrow> \<exists>b. rfold (allocate cost share) a ss = Inr b"
proof (induction ss arbitrary: a)
  case (Cons s ss)
  then obtain k where "function_key s = Inr k" by force
  then obtain m where m: "allocate cost share a s = Inr m" by (simp add: allocate_def)
  obtain b where "rfold (allocate cost share) m ss = Inr b" using Cons.IH [of m] Cons.prems by auto
  then show ?case using m by simp
qed simp

definition row_attributable :: "intervention_cost \<Rightarrow> bool" where
  "row_attributable r \<longleftrightarrow> scope_valid (ic_scope r)
     \<and> beneficiaries_valid (ic_scope r) (ic_beneficiaries r) = Inr ()"

lemma attribute_exists:
  assumes "row_attributable r"
  shows "\<exists>b. attribute a r = Inr b"
proof -
  have direct: "\<exists>k. function_key (ic_scope r) = Inr k" if "sc_function (ic_scope r) \<noteq> None"
    using that assms by (auto simp: row_attributable_def scope_valid_def function_key_def)
  have "\<exists>b. rfold (allocate cost share) a (ic_beneficiaries r) = Inr b" for cost share
    using assms beneficiaries_have_keys by (intro allocate_exists) (auto simp: row_attributable_def)
  then show ?thesis using direct by (auto simp: attribute_def)
qed

lemma derive_exists:
  assumes "\<forall>r \<in> set rows. row_attributable r"
  shows "\<exists>fs un. derive_function_costs rows = Inr (fs, un)"
proof -
  have "\<exists>b. rfold attribute a rows = Inr b" for a
    using assms
  proof (induction rows arbitrary: a)
    case (Cons r rows)
    obtain m where "attribute a r = Inr m" using attribute_exists Cons.prems by fastforce
    then show ?case using Cons.IH [of m] Cons.prems by auto
  qed simp
  then show ?thesis by (simp add: derive_function_costs_def)
qed

lemma calculate_cost_exists:
  assumes "\<forall>iv \<in> set ivs. intervention_valid iv" "agreeing same ivs"
  shows "\<exists>b. calculate_cost same authority ivs = Inr b"
proof -
  obtain u where u: "rfold (unique_step same) [] ivs = Inr u" "unique_ok u" "snd ` set u \<subseteq> set ivs"
    using unique_rows [of same ivs] unique_members(1) assms(2) by (auto split: sum.splits)
  let ?sorted = "sort_by (\<lambda>a b. str_less_eq (iv_id a) (iv_id b)) (map snd u)"
  have "\<exists>r. calculate_intervention_cost authority iv = Inr r" if "iv \<in> set ?sorted" for iv
    using that assms(1) u(3) by (intro calculated_row_exists) auto
  then obtain rows where rows: "rmap (calculate_intervention_cost authority) ?sorted = Inr rows"
    using rmap_all_exist [of ?sorted "calculate_intervention_cost authority"] by blast
  have "row_attributable r" if r: "r \<in> set rows" for r
  proof -
    obtain iv where iv: "iv \<in> set ivs" "calculate_intervention_cost authority iv = Inr r"
      using rmap_in_set [OF rows r] u(3) by auto
    then show ?thesis
      using calculated_row [OF iv(2)] assms(1) by (simp add: row_attributable_def intervention_valid_def)
  qed
  then obtain fs un where d: "derive_function_costs rows = Inr (fs, un)" using derive_exists by blast
  have "distinct (map fst u)" using u(2) by (simp add: unique_ok_def)
  note valid = built_breakdown_valid [OF d ids_sorted [OF rows u(2)] this]
  show ?thesis using u(1) rows d valid by (simp add: calculate_cost_def Let_def)
qed

section \<open>Properties\<close>

text \<open>
  C34.  Cost is conserved in every view: the project total is the direct cost plus the
  allocated shared cost over all functions plus the unallocated shared cost, with exact
  fractions; it is also the sum of the class view and of the target view.  Allocated
  amounts are reduced fractions and never exceed the exposure of the function.
\<close>

theorem cost_conservation:
  assumes "calculate_cost same authority ivs = Inr b"
  shows "of_int (cb_project_total b) =
      sum_list (map (\<lambda>f. of_int (fn_direct_cost f) + as_fraction (fn_allocated_shared_cost f))
        (cb_by_function b)) + of_int (cb_unallocated_shared_cost b)
    \<and> cb_project_total b = sum_list (map cc_cost (cb_by_class b))
    \<and> cb_project_total b = sum_list (map tc_cost (cb_by_target b))
    \<and> (\<forall>f \<in> set (cb_by_function b). rational_cost_valid (fn_allocated_shared_cost f)
        \<and> as_fraction (fn_allocated_shared_cost f) \<le> of_int (fn_exposure_cost f))"
proof -
  obtain u where u: "unique_ok u" "map_of u = last_definition ivs"
    and rows: "rmap (calculate_intervention_cost authority)
        (sort_by (\<lambda>a c. str_less_eq (iv_id a) (iv_id c)) (map snd u)) = Inr (cb_interventions b)"
    and fs: "derive_function_costs (cb_interventions b)
        = Inr (cb_by_function b, cb_unallocated_shared_cost b)"
    and total: "cb_project_total b = sum_list (map ic_cost (cb_interventions b))"
    and views: "cb_by_class b = by_class_view (cb_interventions b)"
      "cb_by_target b = by_target_view (cb_interventions b)"
    by (rule calculate_cost_Inr [OF assms])
  have "\<forall>r \<in> set (cb_interventions b). 0 \<le> ic_cost r"
    using rmap_in_set [OF rows] calculated_row by blast
  from derived_rows [OF fs this] show ?thesis
    by (simp add: total views class_costs_total target_costs_total)
qed

text \<open>
  C35.  No intervention is charged twice.  The ledger of an accepted calculation has exactly one
  row per identifier, in identifier order, however often and in whatever order the
  interventions are listed: the row of the last definition listed for it, which costs its number
  of chargeable units times the weight of its class.  This holds whatever equality the
  definitions of an identifier are compared with, and every two successive definitions of an
  identifier are equal under it.
\<close>

theorem ledger_rows:
  assumes "calculate_cost same authority ivs = Inr b"
  shows "agreeing same ivs
    \<and> distinct (map ic_intervention_id (cb_interventions b))
    \<and> sorted_wrt str_less_eq (map ic_intervention_id (cb_interventions b))
    \<and> set (map ic_intervention_id (cb_interventions b)) = iv_id ` set ivs
    \<and> (\<forall>r \<in> set (cb_interventions b). \<exists>iv. last_definition ivs (ic_intervention_id r) = Some iv
         \<and> calculate_intervention_cost authority iv = Inr r \<and> classify iv = Inr (ic_cost_class r)
         \<and> ic_cost r = unit_count r * cost_weight (ic_cost_class r))"
proof -
  obtain u where u: "unique_ok u" "map_of u = last_definition ivs"
    and rows: "rmap (calculate_intervention_cost authority)
        (sort_by (\<lambda>a c. str_less_eq (iv_id a) (iv_id c)) (map snd u)) = Inr (cb_interventions b)"
    by (rule calculate_cost_Inr [OF assms])
  have ids: "map ic_intervention_id (cb_interventions b) = sort_by str_less_eq (map fst u)"
    by (rule ids_sorted [OF rows u(1)])
  have "\<exists>iv. last_definition ivs (ic_intervention_id r) = Some iv
         \<and> calculate_intervention_cost authority iv = Inr r \<and> classify iv = Inr (ic_cost_class r)
         \<and> ic_cost r = unit_count r * cost_weight (ic_cost_class r)"
    if r: "r \<in> set (cb_interventions b)" for r
  proof -
    obtain iv where "iv \<in> snd ` set u" "calculate_intervention_cost authority iv = Inr r"
      using rmap_in_set [OF rows r] by auto
    then show ?thesis using calculated_row unique_members(3) [OF u, of iv] by metis
  qed
  moreover have "agreeing same ivs"
    using assms unique_rows [of same ivs] by (auto simp: calculate_cost_def split: sum.splits)
  ultimately show ?thesis
    using ids u(1) unique_members(2) [OF u] sort_str_sorted [of "map fst u"] by (simp add: unique_ok_def)
qed

text \<open>
  Costing succeeds exactly when the definitions agree: for interventions that can be
  charged, the calculation returns a breakdown, accepted by the validators of every row and
  of the breakdown itself, unless two successive definitions of an identifier differ, and then
  it is refused with an error that names an identifier.
\<close>

lemma calculate_cost_total:
  assumes "\<forall>iv \<in> set ivs. intervention_valid iv"
  shows "if agreeing same ivs then \<exists>b. calculate_cost same authority ivs = Inr b
         else \<exists>k. calculate_cost same authority ivs = Inl (conflicting_definitions k)"
proof (cases "agreeing same ivs")
  case True
  then show ?thesis using calculate_cost_exists [OF assms] by simp
next
  case False
  then obtain k where "rfold (unique_step same) [] ivs = Inl (conflicting_definitions k)"
    using unique_rows [of same ivs] by (auto split: sum.splits)
  then show ?thesis using False by (auto simp: calculate_cost_def)
qed


section \<open>Witnesses\<close>

text \<open>A function-scoped state carrier and a source overlay shared by two functions.\<close>

definition sample_scope :: "string option \<Rightarrow> scope" where
  "sample_scope f =
     \<lparr>sc_target = ''game'', sc_translation_unit = (if f = None then None else Some ''main''),
      sc_function = f\<rparr>"

definition sample_carrier :: intervention where
  "sample_carrier =
     \<lparr>iv_id = ''carrier'', iv_kind = ''state_carrier'', iv_family = None,
      iv_scope = sample_scope (Some ''f''), iv_beneficiaries = [], iv_parameters = [],
      iv_rest = VNone\<rparr>"

definition sample_overlay :: intervention where
  "sample_overlay =
     \<lparr>iv_id = ''overlay'', iv_kind = ''classic_recipe'', iv_family = Some SourceOverlayGraph,
      iv_scope = sample_scope None,
      iv_beneficiaries = [sample_scope (Some ''f''), sample_scope (Some ''g'')],
      iv_parameters =
        [(''graph'', VDict [(KStr ''generated_tus'', VList []), (KStr ''link_admissions'', VList [VNone])]),
         (''outputs'', VList [VDict [(KStr ''ops'', VList [VNone, VNone])]])],
      iv_rest = VNone\<rparr>"

lemma sample_interventions_valid: "\<forall>iv \<in> set [sample_overlay, sample_carrier]. intervention_valid iv"
proof -
  have "intervention_valid sample_overlay" "intervention_valid sample_carrier" by code_simp+
  then show ?thesis by simp
qed

lemma sample_agreeing: "agreeing (=) [sample_overlay, sample_carrier, sample_overlay]"
  by (simp add: agreeing_def definitions_of_def sample_overlay_def sample_carrier_def)

lemma sample_cost_exists: "\<exists>b. calculate_cost (=) (\<lambda>_. []) [sample_overlay, sample_carrier, sample_overlay] = Inr b"
  by (rule calculate_cost_exists [OF _ sample_agreeing]) (use sample_interventions_valid in simp)

theorem cost_conservation_witness:
  "\<exists>b. calculate_cost (=) (\<lambda>_. []) [sample_overlay, sample_carrier, sample_overlay] = Inr b
     \<and> cb_project_total b = sum_list (map cc_cost (cb_by_class b))"
  using sample_cost_exists cost_conservation by blast

theorem ledger_rows_witness:
  "\<exists>b. calculate_cost (=) (\<lambda>_. []) [sample_overlay, sample_carrier, sample_overlay] = Inr b
     \<and> distinct (map ic_intervention_id (cb_interventions b))
     \<and> set (map ic_intervention_id (cb_interventions b)) = {iv_id sample_overlay, iv_id sample_carrier}"
  using sample_cost_exists ledger_rows [of "(=)" "\<lambda>_. []" "[sample_overlay, sample_carrier, sample_overlay]"] by fastforce

end
