(* ===== verification/Register_Semantics.thy ===== *)
theory Register_Semantics
  imports Ia32_Commute
begin

text \<open>
  The closed register semantics of \<^verbatim>\<open>src/reprobit/classic/register_semantics.py\<close>: the
  table of admitted instruction forms, the decoder that reports the register fields,
  operands and control flow of one instruction, the body walk over it, and the argument
  registers of decorated callees.

  Sets of registers and of liveness atoms are sets of names.  The forms are association
  lists in the order the source fills its tables.
\<close>

section \<open>Names and atoms\<close>

definition register_names :: "string list" where
  "register_names = [''eax'', ''ecx'', ''edx'', ''ebx'', ''esp'', ''ebp'', ''esi'', ''edi'']"

definition call_clobbered :: "string set" where
  "call_clobbered = {''eax'', ''ecx'', ''edx''}"

definition return_live :: "string set" where
  "return_live = {''eax'', ''ebx'', ''esi'', ''edi'', ''ebp'', ''esp''}"

definition external_transfer_live :: "string set" where
  "external_transfer_live = set register_names"

definition byte_addressable :: "string list" where
  "byte_addressable = [''eax'', ''ecx'', ''edx'', ''ebx'']"

definition register_atoms_of :: "string \<Rightarrow> string set" where
  "register_atoms_of name =
     (if name \<in> set byte_addressable then {name @ ''.l'', name @ ''.h'', name @ ''.u''}
      else {name @ ''.w''})"

definition register_atoms :: "string set \<Rightarrow> string set" where
  "register_atoms names = (\<Union>name \<in> names. register_atoms_of name)"

section \<open>Instruction forms\<close>

record bijection_form =
  bf_modrm :: bool
  bf_reg :: "string option"
  bf_reg_read :: bool
  bf_reg_write :: bool
  bf_rm_read :: bool
  bf_rm_write :: bool
  bf_ext_no_write :: "int set"
  bf_ext_write :: "int set"
  bf_ext_allowed :: "int list option"
  bf_ext_implicit :: "(int \<times> string set \<times> string set \<times> string set) list"
  bf_ext_flow :: "(int \<times> string) list"
  bf_implicit_frozen :: "string set"
  bf_opreg :: "string option"
  bf_reads :: "string set"
  bf_writes :: "string set"
  bf_flow :: string
  bf_displacement :: int
  bf_width :: int
  bf_rm_width :: "int option"
  bf_x87 :: bool
  bf_size16_ok :: bool
  bf_size16_ext :: "int list option"
  bf_string_memory :: "(bool \<times> bool) option"

definition plain_form :: bijection_form where
  "plain_form =
     \<lparr>bf_modrm = False, bf_reg = None, bf_reg_read = False, bf_reg_write = False,
      bf_rm_read = False, bf_rm_write = False, bf_ext_no_write = {}, bf_ext_write = {},
      bf_ext_allowed = None, bf_ext_implicit = [], bf_ext_flow = [], bf_implicit_frozen = {},
      bf_opreg = None, bf_reads = {}, bf_writes = {}, bf_flow = ''fall'', bf_displacement = 0,
      bf_width = 32, bf_rm_width = None, bf_x87 = False, bf_size16_ok = False,
      bf_size16_ext = None, bf_string_memory = None\<rparr>"

text \<open>A ModRM form: register-field role, its reads and writes, the r/m reads and writes.\<close>

definition modrm_form :: "string \<Rightarrow> bool \<Rightarrow> bool \<Rightarrow> bool \<Rightarrow> bool \<Rightarrow> bijection_form" where
  "modrm_form reg reg_read reg_write rm_read rm_write =
     plain_form\<lparr>bf_modrm := True, bf_reg := Some reg, bf_reg_read := reg_read,
       bf_reg_write := reg_write, bf_rm_read := rm_read, bf_rm_write := rm_write\<rparr>"

definition sized16 :: "bijection_form \<Rightarrow> bijection_form" where
  "sized16 f = f\<lparr>bf_size16_ok := True\<rparr>"

definition byte_wide :: "bijection_form \<Rightarrow> bijection_form" where
  "byte_wide f = f\<lparr>bf_width := 8\<rparr>"

definition every :: "int list \<Rightarrow> bijection_form \<Rightarrow> (int \<times> bijection_form) list" where
  "every opcodes f = map (\<lambda>opcode. (opcode, f)) opcodes"

definition stack_form :: "bijection_form \<Rightarrow> bijection_form" where
  "stack_form f = f\<lparr>bf_reads := {''esp''}, bf_writes := {''esp''}\<rparr>"

definition frozen_form :: "string set \<Rightarrow> string set \<Rightarrow> string set \<Rightarrow> bijection_form" where
  "frozen_form rds wrs frz =
     plain_form\<lparr>bf_reads := rds, bf_writes := wrs, bf_implicit_frozen := frz\<rparr>"

definition muldiv :: "string set \<times> string set \<times> string set" where
  "muldiv = ({''eax'', ''edx''}, {''eax'', ''edx''}, {''eax'', ''edx''})"

definition bijection_base :: "(int \<times> bijection_form) list" where
  "bijection_base =
     [(49, sized16 (modrm_form ''gpr'' True False True True)),
      (51, sized16 (modrm_form ''gpr'' True True True False))]
     @ every [57, 59, 133] (sized16 (modrm_form ''gpr'' True False True False))
     @ every [3, 11, 27, 35, 43] (sized16 (modrm_form ''gpr'' True True True False))
     @ [(137, sized16 (modrm_form ''gpr'' True False False True)),
        (139, sized16 (modrm_form ''gpr'' False True True False)),
        (141, modrm_form ''gpr'' False True False False)]
     @ every [131, 129] (sized16 (modrm_form ''ext'' False False True True)\<lparr>bf_ext_no_write := {7}\<rparr>)
     @ [(199, sized16 (modrm_form ''ext'' False False False True)\<lparr>bf_ext_allowed := Some [0]\<rparr>)]
     @ every [56, 58, 132] (byte_wide (modrm_form ''gpr'' True False True False))
     @ [(136, byte_wide (modrm_form ''gpr'' True False False True)),
        (138, byte_wide (modrm_form ''gpr'' False True True False)),
        (26, byte_wide (modrm_form ''gpr'' True True True False)),
        (128, byte_wide (modrm_form ''ext'' False False True True)\<lparr>bf_ext_no_write := {7}\<rparr>),
        (198, byte_wide (modrm_form ''ext'' False False False True)\<lparr>bf_ext_allowed := Some [0]\<rparr>),
        (246, byte_wide (modrm_form ''ext'' False False True True)
                \<lparr>bf_ext_no_write := {0}, bf_ext_allowed := Some [0, 2, 3]\<rparr>),
        (254, byte_wide (modrm_form ''ext'' False False True True)\<lparr>bf_ext_allowed := Some [0, 1]\<rparr>),
        (60, frozen_form {''eax''} {} {''eax''}),
        (153, frozen_form {''eax''} {''edx''} {''eax'', ''edx''}),
        (247, modrm_form ''ext'' False False True True
                \<lparr>bf_ext_no_write := {0, 4, 5, 6, 7}, bf_ext_allowed := Some [0, 2, 3, 4, 5, 6, 7],
                 bf_ext_implicit := [(4, muldiv), (5, muldiv), (6, muldiv), (7, muldiv)]\<rparr>)]
     @ every (pyrange 64 80) (sized16 plain_form\<lparr>bf_opreg := Some ''readwrite''\<rparr>)
     @ every (pyrange 80 88) (stack_form plain_form\<lparr>bf_opreg := Some ''read''\<rparr>)
     @ every (pyrange 88 96) (stack_form plain_form\<lparr>bf_opreg := Some ''write''\<rparr>)
     @ every (pyrange 184 192) (sized16 plain_form\<lparr>bf_opreg := Some ''write''\<rparr>)
     @ [(5, frozen_form {''eax''} {''eax''} {''eax''}), (161, frozen_form {} {''eax''} {''eax''}),
        (163, frozen_form {''eax''} {} {''eax''})]
     @ every [104, 106] (stack_form plain_form)
     @ every (pyrange 112 128) (plain_form\<lparr>bf_flow := ''jcc'', bf_displacement := 1\<rparr>)
     @ [(235, plain_form\<lparr>bf_flow := ''jmp'', bf_displacement := 1\<rparr>),
        (233, plain_form\<lparr>bf_flow := ''jmp'', bf_displacement := 4\<rparr>),
        (232, plain_form\<lparr>bf_flow := ''call'', bf_displacement := 4, bf_reads := {''esp''},
                         bf_writes := call_clobbered\<rparr>),
        (255, sized16 (modrm_form ''ext'' False False True False)
                \<lparr>bf_ext_allowed := Some [0, 1, 2, 4], bf_ext_write := {0, 1},
                 bf_size16_ext := Some [0, 1], bf_flow := ''call'',
                 bf_ext_flow := [(0, ''fall''), (1, ''fall''), (2, ''call''), (4, ''exit'')],
                 bf_ext_implicit := [(2, {''esp''}, call_clobbered, {}),
                                     (4, set register_names, {}, {})]\<rparr>)]
     @ every [194, 195] (plain_form\<lparr>bf_flow := ''ret'', bf_reads := return_live\<rparr>)
     @ every (pyrange 216 224) (modrm_form ''ext'' False False False False\<lparr>bf_x87 := True\<rparr>)"

definition shift_digits :: "int list" where
  "shift_digits = [0, 1, 4, 5, 7]"

definition shift_form :: bijection_form where
  "shift_form = modrm_form ''ext'' False False True True\<lparr>bf_ext_allowed := Some shift_digits\<rparr>"

definition bijection_widening :: "(int \<times> bijection_form) list" where
  "bijection_widening =
     [(144, plain_form)]
     @ every [8, 16, 24, 32, 40, 48] (byte_wide (modrm_form ''gpr'' True False True True))
     @ every [2, 10, 18, 34, 42, 50] (byte_wide (modrm_form ''gpr'' True True True False))
     @ every [1, 9, 17, 25, 33, 41] (sized16 (modrm_form ''gpr'' True False True True))
     @ [(19, sized16 (modrm_form ''gpr'' True True True False))]
     @ every [4, 12, 20, 28, 36, 44, 52, 168] (byte_wide (frozen_form {''eax''} {} {''eax''}))
     @ every [13, 21, 29, 37, 45, 53] (frozen_form {''eax''} {''eax''} {''eax''})
     @ every [61, 169] (sized16 (frozen_form {''eax''} {} {''eax''}))
     @ every (pyrange 176 184) (byte_wide plain_form\<lparr>bf_opreg := Some ''write''\<rparr>)
     @ every [192, 208] (byte_wide shift_form)
     @ every [193, 209] (sized16 shift_form)
     @ [(210, byte_wide shift_form\<lparr>bf_reads := {''ecx''}, bf_implicit_frozen := {''ecx''}\<rparr>),
        (211, sized16 shift_form\<lparr>bf_reads := {''ecx''}, bf_implicit_frozen := {''ecx''}\<rparr>)]"

definition bijection_forms :: "(int \<times> bijection_form) list" where
  "bijection_forms = bijection_base @ bijection_widening"

definition bijection_two_byte_forms :: "(int \<times> bijection_form) list" where
  "bijection_two_byte_forms =
     every (pyrange 128 144) (plain_form\<lparr>bf_flow := ''jcc'', bf_displacement := 4\<rparr>)
     @ every [183, 191] (modrm_form ''gpr'' False True True False)
     @ every [182, 190] (modrm_form ''gpr'' False True True False\<lparr>bf_rm_width := Some 8\<rparr>)
     @ [(175, modrm_form ''gpr'' True True True False)]
     @ every (pyrange 144 160)
         (byte_wide (modrm_form ''ext'' False False False True)\<lparr>bf_ext_allowed := Some [0]\<rparr>)"

definition string_form :: "string set \<Rightarrow> string set \<Rightarrow> bool \<Rightarrow> bool \<Rightarrow> bijection_form" where
  "string_form rds wrs memory_read memory_write =
     plain_form\<lparr>bf_reads := rds, bf_writes := wrs, bf_implicit_frozen := rds \<union> wrs,
       bf_string_memory := Some (memory_read, memory_write)\<rparr>"

definition repeated_string_forms :: "((int \<times> int) \<times> bijection_form) list" where
  "repeated_string_forms =
     (let move = string_form {''ecx'', ''esi'', ''edi''} {''ecx'', ''esi'', ''edi''} True True;
          store = string_form {''eax'', ''ecx'', ''edi''} {''ecx'', ''edi''} False True;
          scan = string_form {''eax'', ''ecx'', ''edi''} {''ecx'', ''edi''} True False;
          cmp = string_form {''ecx'', ''esi'', ''edi''} {''ecx'', ''esi'', ''edi''} True False
      in [((243, 164), move), ((243, 165), move), ((243, 170), store), ((243, 171), store),
          ((242, 174), scan), ((242, 175), scan), ((243, 174), scan), ((243, 175), scan),
          ((242, 166), cmp), ((242, 167), cmp), ((243, 166), cmp), ((243, 167), cmp)])"

definition bijection_form_for :: "int \<Rightarrow> bijection_form option" where
  "bijection_form_for opcode =
     (if opcode AND 65280 = 3840 then map_of bijection_two_byte_forms (opcode AND 255)
      else map_of bijection_forms opcode)"

section \<open>Argument registers of a decorated callee\<close>

datatype msvc_reading = No_Reading | Thunk | Reading "string set"

definition msvc_call_argument_registers_table :: "(char \<times> string set) list" where
  "msvc_call_argument_registers_table =
     [(CHR ''A'', {}), (CHR ''B'', {}), (CHR ''C'', {}), (CHR ''D'', {}),
      (CHR ''E'', {''ecx''}), (CHR ''F'', {''ecx''}), (CHR ''G'', {}), (CHR ''H'', {}),
      (CHR ''I'', {''ecx'', ''edx''}), (CHR ''J'', {''ecx'', ''edx''})]"

text \<open>The calling-convention letter at the cursor.\<close>

definition msvc_convention :: "string \<Rightarrow> nat \<Rightarrow> msvc_reading" where
  "msvc_convention symbol cursor =
     (if length symbol \<le> cursor then No_Reading
      else case map_of msvc_call_argument_registers_table (symbol ! cursor) of
             None \<Rightarrow> No_Reading | Some registers \<Rightarrow> Reading registers)"

text \<open>The function-class letter at the cursor and what follows it.\<close>

definition msvc_function_class :: "string \<Rightarrow> nat \<Rightarrow> msvc_reading" where
  "msvc_function_class symbol cursor =
     (if length symbol \<le> cursor then No_Reading
      else let letter = symbol ! cursor; cursor = cursor + 1
        in if letter \<in> set ''GHOPWX''
           then if cursor + 2 < length symbol \<and> str_isdigit [symbol ! cursor]
                     \<and> symbol ! (cursor + 1) \<in> set ''ABCD''
                     \<and> symbol ! (cursor + 2) \<in> fst ` set msvc_call_argument_registers_table
                then Thunk else No_Reading
           else if letter \<in> set ''ABEFIJMNQRUV''
           then if length symbol \<le> cursor \<or> symbol ! cursor \<notin> set ''ABCD'' then No_Reading
                else msvc_convention symbol (cursor + 1)
           else if letter \<notin> set ''CDKLST'' \<union> set ''YZ'' then No_Reading
           else msvc_convention symbol cursor)"

definition msvc_reading_at :: "string \<Rightarrow> nat \<Rightarrow> msvc_reading" where
  "msvc_reading_at symbol index =
     (if pslice symbol (int index) (int index + 2) = ''@@''
      then msvc_function_class symbol (index + 2)
      else if symbol ! index = CHR ''@'' \<and> symbol ! (index + 1) \<in> set ''YZ''
      then msvc_function_class symbol (index + 1)
      else No_Reading)"

text \<open>The loop over the positions, with the set of readings found so far.\<close>

fun msvc_readings :: "string \<Rightarrow> nat list \<Rightarrow> string set list \<Rightarrow> string set list option" where
  "msvc_readings symbol [] readings = Some readings"
| "msvc_readings symbol (index # rest) readings =
     (case msvc_reading_at symbol index of
        No_Reading \<Rightarrow> msvc_readings symbol rest readings
      | Thunk \<Rightarrow> None
      | Reading registers \<Rightarrow> msvc_readings symbol rest (List.insert registers readings))"

definition msvc_call_argument_registers :: "string option \<Rightarrow> string set option" where
  "msvc_call_argument_registers symbol_value =
     (case symbol_value of None \<Rightarrow> None
      | Some symbol \<Rightarrow>
          if \<not> starts_with symbol ''?'' then None
          else if \<not> starts_with (rev symbol) ''Z'' then None
          else case msvc_readings symbol [0..<length symbol - 1] [] of
                 Some [registers] \<Rightarrow> Some registers
               | _ \<Rightarrow> None)"

section \<open>Decoding one instruction\<close>

text \<open>A relocation record as the body walks look it up: \<^verbatim>\<open>row.get("width")\<close> and \<^verbatim>\<open>row.get("target")\<close>.\<close>

record relocation_target =
  rr_width :: "int option"
  rr_target :: "string option"

record memory_operand =
  mo_base :: "string option"
  mo_index :: "string option"
  mo_scale :: int
  mo_displacement :: int
  mo_absolute :: bool
  mo_width :: int
  mo_read :: bool
  mo_write :: bool
  mo_unknown :: bool

record modrm_encoding =
  en_modrm_at :: int
  en_mode :: int
  en_rm :: int
  en_reg :: int
  en_sib_at :: "int option"
  en_displacement_at :: "int option"
  en_displacement_size :: int
  en_absolute :: bool

record bijection_instruction =
  bi_offset :: int
  bi_length :: int
  bi_opcode :: int
  bi_fields :: "(int \<times> int) list"
  bi_reads :: "string set"
  bi_writes :: "string set"
  bi_flow :: string
  bi_target :: "int option"
  bi_frozen :: "string set"
  bi_memory :: "memory_operand option"
  bi_encoding :: "modrm_encoding option"
  bi_indirect :: bool
  bi_read_atoms :: "string set"
  bi_write_atoms :: "string set"

text \<open>The accumulators of the decoder: its fields list and its five sets.\<close>

record operands =
  op_fields :: "(int \<times> int) list"
  op_reads :: "string set"
  op_writes :: "string set"
  op_frozen :: "string set"
  op_read_atoms :: "string set"
  op_write_atoms :: "string set"

definition register_of_field :: "int \<Rightarrow> string" where
  "register_of_field value = register_names ! nat value"

definition add_field :: "bool \<Rightarrow> int \<Rightarrow> int \<Rightarrow> operands \<Rightarrow> operands" where
  "add_field c at shift ops = (if c then ops\<lparr>op_fields := op_fields ops @ [(at, shift)]\<rparr> else ops)"

definition touched_name :: "int \<Rightarrow> int \<Rightarrow> string" where
  "touched_name width value = (if width = 8 then register_of_field (value AND 3) else register_of_field value)"

definition touched_atoms :: "int \<Rightarrow> int \<Rightarrow> string set" where
  "touched_atoms width value =
     (let name = touched_name width value
      in if width = 8 then {name @ (if value < 4 then ''.l'' else ''.h'')}
         else if width = 16 \<and> name \<in> set byte_addressable then {name @ ''.l'', name @ ''.h''}
         else register_atoms_of name)"

definition touch :: "int \<Rightarrow> int \<Rightarrow> bool \<Rightarrow> bool \<Rightarrow> operands \<Rightarrow> operands" where
  "touch width value is_read is_write ops =
     (let name = touched_name width value; atoms = touched_atoms width value;
          kills = width = 32 \<or> name \<in> set byte_addressable
      in ops\<lparr>op_frozen := op_frozen ops \<union> (if width = 8 then {name} else {}),
             op_reads := op_reads ops \<union> (if is_read \<or> is_write \<and> width \<noteq> 32 then {name} else {}),
             op_writes := op_writes ops \<union> (if is_write \<and> width = 32 then {name} else {}),
             op_read_atoms := op_read_atoms ops \<union> (if is_read then atoms else {})
               \<union> (if is_write \<and> \<not> kills then atoms else {}),
             op_write_atoms := op_write_atoms ops \<union> (if is_write \<and> kills then atoms else {})\<rparr>)"

text \<open>A base or index register of an address: a rewritable field that is read whole.\<close>

definition address_register :: "int \<Rightarrow> int \<Rightarrow> int \<Rightarrow> operands \<Rightarrow> operands" where
  "address_register at shift value ops =
     (let ops = add_field True at shift ops; name = register_of_field value
      in ops\<lparr>op_reads := op_reads ops \<union> {name},
             op_read_atoms := op_read_atoms ops \<union> register_atoms_of name\<rparr>)"

text \<open>The prefix scan over the bytes of the instruction, from its first byte.\<close>

fun bijection_prefixes ::
    "bytes \<Rightarrow> int \<Rightarrow> bool \<Rightarrow> bool \<Rightarrow> int option \<Rightarrow> (int \<times> bool \<times> int option) result" where
  "bijection_prefixes [] cursor segment size16 repeat = Inl IndexError"
| "bijection_prefixes (b # rest) cursor segment size16 repeat =
     (if byte_int b \<notin> set prefixes then Inr (cursor, size16, repeat)
      else let next = (\<lambda>segment size16 repeat.
             require (rest \<noteq> []) ''instruction is only prefixes''
               (bijection_prefixes rest (cursor + 1) segment size16 repeat))
        in if byte_int b \<in> {38, 46, 54, 62, 100, 101}
           then require (\<not> segment) ''repeated segment prefix'' (next True size16 repeat)
           else if byte_int b = 102
           then require (\<not> size16) ''repeated operand-size prefix'' (next segment True repeat)
           else if byte_int b \<in> {242, 243}
           then require (repeat = None) ''repeated repeat prefix''
                  (next segment size16 (Some (byte_int b)))
           else Inl (ByteIdentityError ''prefixed instructions are outside the register-bijection table''))"

text \<open>The form of an opcode: the string table under a repeat prefix, the closed table otherwise.\<close>

definition bijection_lookup :: "int \<Rightarrow> bool \<Rightarrow> int option \<Rightarrow> bijection_form result" where
  "bijection_lookup opcode size16 repeat =
     (case repeat of
        Some prefix \<Rightarrow>
          (case map_of repeated_string_forms (prefix, opcode) of
             None \<Rightarrow> Inl (ByteIdentityError ''repeat prefix is outside the register-bijection table'')
           | Some form \<Rightarrow>
               require (\<not> size16) ''operand-size prefix on a repeated string operation'' (Inr form))
      | None \<Rightarrow>
          (case bijection_form_for opcode of
             None \<Rightarrow> Inl (ByteIdentityError ''opcode is outside the register-bijection table'')
           | Some form \<Rightarrow> Inr form))"

text \<open>The opcode after the prefixes, its cursor, its form and its operand width.\<close>

definition bijection_opcode ::
    "bytes \<Rightarrow> int \<Rightarrow> bool \<Rightarrow> int option \<Rightarrow> (int \<times> int \<times> bijection_form \<times> int) result" where
  "bijection_opcode encoded cursor size16 repeat =
     rbind (byte_at encoded cursor) (\<lambda>first.
     rbind (if first = 15
            then require (cursor + 1 < len encoded) ''truncated two-byte opcode''
                   (rbind (byte_at encoded (cursor + 1)) (\<lambda>b. Inr (3840 OR b, cursor + 2)))
            else Inr (first, cursor + 1)) (\<lambda>(opcode, cursor).
     rbind (bijection_lookup opcode size16 repeat) (\<lambda>form.
     require (size16 \<longrightarrow> bf_size16_ok form \<and> bf_width form = 32)
       ''operand-size prefix is outside the register-bijection table for this opcode''
       (Inr (opcode, cursor, form, if size16 then 16 else bf_width form)))))"

text \<open>The implicit operands an opcode extension adds.\<close>

definition extension_operands :: "bijection_form \<Rightarrow> int \<Rightarrow> operands \<Rightarrow> operands" where
  "extension_operands form digit ops =
     (case map_of (bf_ext_implicit form) digit of
        None \<Rightarrow> ops
      | Some (extra_reads, extra_writes, extra_frozen) \<Rightarrow>
          ops\<lparr>op_reads := op_reads ops \<union> extra_reads, op_writes := op_writes ops \<union> extra_writes,
              op_frozen := op_frozen ops \<union> extra_frozen,
              op_read_atoms := op_read_atoms ops \<union> register_atoms (extra_reads \<union> extra_frozen),
              op_write_atoms := op_write_atoms ops \<union> register_atoms extra_writes\<rparr>)"

text \<open>The register field of the ModRM byte: a register operand or an opcode extension.\<close>

definition modrm_register_field ::
    "bijection_form \<Rightarrow> int \<Rightarrow> int \<Rightarrow> int \<Rightarrow> operands \<Rightarrow> (operands \<times> bool \<times> string option) result" where
  "modrm_register_field form width modrm_at register_field ops =
     (if bf_reg form = Some ''gpr''
      then Inr (touch width register_field (bf_reg_read form) (bf_reg_write form)
                  (add_field (width \<noteq> 8) modrm_at 3 ops), bf_rm_write form, None)
      else require (bf_reg form = Some ''ext'') ''ModRM register field role is undeclared''
        (require (case bf_ext_allowed form of None \<Rightarrow> True | Some digits \<Rightarrow> register_field \<in> set digits)
           ''ModRM extension is outside the register-bijection table''
        (require (width \<noteq> 16 \<or> (case bf_size16_ext form of None \<Rightarrow> True
                                | Some digits \<Rightarrow> register_field \<in> set digits))
           ''operand-size prefix on this extension is outside the register-bijection table''
        (let rm_write = (if register_field \<in> bf_ext_no_write form then False else bf_rm_write form);
             rm_write = (if register_field \<in> bf_ext_write form then True else rm_write);
             ops = extension_operands form register_field ops
         in Inr (ops, rm_write, map_of (bf_ext_flow form) register_field)))))"

text \<open>
  The address of a memory operand: base, index, scale and whether it is absolute, with
  the SIB position and the cursor behind the SIB byte.
\<close>

definition memory_address ::
    "bytes \<Rightarrow> int \<Rightarrow> int \<Rightarrow> int \<Rightarrow> int \<Rightarrow> int \<Rightarrow> operands \<Rightarrow>
     (operands \<times> string option \<times> string option \<times> int \<times> bool \<times> int option \<times> int) result" where
  "memory_address encoded offset cursor modrm_at mode rm ops =
     (if rm = 4
      then require (cursor < len encoded) ''instruction lacks SIB''
        (rbind (byte_at encoded cursor) (\<lambda>sib.
          let sib_at = offset + cursor; cursor = cursor + 1;
              base = sib AND 7; index = drop_bit 3 sib AND 7;
              scale = push_bit (nat (drop_bit 6 sib)) 1;
              absolute = (mode = 0 \<and> base = 5);
              ops = (if absolute then ops else address_register sib_at 0 base ops);
              ops = (if index \<noteq> 4 then address_register sib_at 3 index ops else ops)
          in Inr (ops, if absolute then None else Some (register_of_field base),
                  if index \<noteq> 4 then Some (register_of_field index) else None,
                  scale, absolute, Some sib_at, cursor)))
      else if \<not> (mode = 0 \<and> rm = 5)
      then Inr (address_register modrm_at 0 rm ops, Some (register_of_field rm), None, 1, False,
                None, cursor)
      else Inr (ops, None, None, 1, True, None, cursor))"

text \<open>The displacement after the address: its position, its size and its signed value.\<close>

definition memory_displacement ::
    "bytes \<Rightarrow> int \<Rightarrow> int \<Rightarrow> int \<Rightarrow> bool \<Rightarrow> (int option \<times> int \<times> int) result" where
  "memory_displacement encoded offset cursor mode absolute =
     (if mode = 1
      then require (cursor < len encoded) ''instruction lacks its disp8''
             (Inr (Some (offset + cursor), 1, from_bytes_signed (pslice encoded cursor (cursor + 1))))
      else if mode = 2 \<or> absolute
      then require (cursor + 4 \<le> len encoded) ''instruction lacks its disp32''
             (Inr (Some (offset + cursor), 4, from_bytes_signed (pslice encoded cursor (cursor + 4))))
      else Inr (None, 0, 0))"

definition modrm_memory ::
    "bijection_form \<Rightarrow> int \<Rightarrow> bool \<Rightarrow> string option \<Rightarrow> string option \<Rightarrow> int \<Rightarrow> int \<Rightarrow> bool \<Rightarrow>
     memory_operand option" where
  "modrm_memory form width rm_write base index scale disp absolute =
     (if bf_rm_read form \<or> rm_write \<or> bf_x87 form
      then Some \<lparr>mo_base = base, mo_index = index, mo_scale = scale,
                 mo_displacement = disp, mo_absolute = absolute,
                 mo_width = max (width div 8) 1, mo_read = bf_rm_read form \<or> bf_x87 form,
                 mo_write = rm_write, mo_unknown = False\<rparr>
      else None)"

text \<open>The register operand a mode-3 ModRM names, x87 forms apart.\<close>

definition modrm_direct ::
    "bijection_form \<Rightarrow> int \<Rightarrow> int \<Rightarrow> int \<Rightarrow> int \<Rightarrow> int \<Rightarrow> bool \<Rightarrow> operands \<Rightarrow> operands" where
  "modrm_direct form opcode width modrm_at modrm rm rm_write ops =
     (if bf_x87 form
      then if opcode = 223 \<and> modrm = 224
           then ops\<lparr>op_write_atoms := op_write_atoms ops \<union> {''eax.l'', ''eax.h''},
                    op_frozen := op_frozen ops \<union> {''eax''}\<rparr>
           else ops
      else let rm_field_width = (case bf_rm_width form of None \<Rightarrow> width
                                 | Some w \<Rightarrow> if w = 0 then width else w)
        in touch rm_field_width rm (bf_rm_read form) rm_write
             (add_field (rm_field_width \<noteq> 8) modrm_at 0 ops))"

text \<open>The whole ModRM branch; the last result is the ModRM byte.\<close>

definition bijection_modrm ::
    "bijection_form \<Rightarrow> int \<Rightarrow> int \<Rightarrow> bytes \<Rightarrow> int \<Rightarrow> int \<Rightarrow> operands \<Rightarrow>
     (operands \<times> memory_operand option \<times> modrm_encoding \<times> string option \<times> int) result" where
  "bijection_modrm form opcode width encoded offset cursor ops =
     require (cursor < len encoded) ''instruction lacks ModRM''
      (rbind (byte_at encoded cursor) (\<lambda>modrm.
        let modrm_at = offset + cursor; cursor = cursor + 1; mode = drop_bit 6 modrm;
            rm = modrm AND 7; register_field = drop_bit 3 modrm AND 7;
            finish = (\<lambda>ops memory sib_at displacement_at displacement_size absolute flow.
              require (bf_reg form \<noteq> Some ''gpr'' \<or> \<not> (bf_reg_write form \<and> bf_rm_write form))
                ''instruction form writes two operands''
                (Inr (ops, memory,
                      \<lparr>en_modrm_at = modrm_at, en_mode = mode, en_rm = rm, en_reg = register_field,
                       en_sib_at = sib_at, en_displacement_at = displacement_at,
                       en_displacement_size = displacement_size, en_absolute = absolute\<rparr>,
                      flow, modrm)))
        in rbind (modrm_register_field form width modrm_at register_field ops)
             (\<lambda>(ops, rm_write, flow).
               if mode = 3
               then finish (modrm_direct form opcode width modrm_at modrm rm rm_write ops)
                      None None None 0 False flow
               else rbind (memory_address encoded offset cursor modrm_at mode rm ops)
                 (\<lambda>(ops, base, index, scale, absolute, sib_at, cursor).
                    rbind (memory_displacement encoded offset cursor mode absolute)
                      (\<lambda>(displacement_at, displacement_size, disp).
                         finish ops
                           (modrm_memory form width rm_write base index scale disp absolute)
                           sib_at displacement_at displacement_size absolute flow)))))"

text \<open>Control flow: relocated transfers, branch targets and what a callee reads.\<close>

definition read_more :: "string set \<Rightarrow> operands \<Rightarrow> operands" where
  "read_more extra ops = ops\<lparr>op_reads := op_reads ops \<union> extra,
                             op_read_atoms := op_read_atoms ops \<union> register_atoms extra\<rparr>"

definition exit_operands :: "operands \<Rightarrow> operands" where
  "exit_operands ops = ops\<lparr>op_reads := external_transfer_live, op_writes := {},
     op_read_atoms := register_atoms external_transfer_live, op_write_atoms := {}\<rparr>"

definition bijection_flow ::
    "bijection_form \<Rightarrow> string option \<Rightarrow> bytes \<Rightarrow> int \<Rightarrow> int \<Rightarrow> (int \<Rightarrow> relocation_target option) \<Rightarrow>
     operands \<Rightarrow> (operands \<times> string \<times> int option) result" where
  "bijection_flow form flow_override encoded offset count relocations ops =
     (let flow = (case flow_override of None \<Rightarrow> bf_flow form | Some member_flow \<Rightarrow> member_flow);
          width_bytes = bf_displacement form
      in if flow \<in> {''jcc'', ''jmp'', ''call''} \<and> width_bytes \<noteq> 0
         then let row = relocations (offset + count - width_bytes);
                  external = (case row of None \<Rightarrow> False | Some r \<Rightarrow> rr_width r = Some width_bytes);
                  relative = from_bytes_signed (slice_from encoded (count - width_bytes));
                  target = (if external then None else Some (offset + count + relative))
              in if external \<and> flow = ''jmp'' then Inr (exit_operands ops, ''exit'', None)
                 else if external \<and> flow = ''jcc''
                 then Inl (ByteIdentityError ''a relocated conditional branch is outside the register-bijection table'')
                 else if flow = ''call''
                 then let argument = (if external
                                      then msvc_call_argument_registers (Option.bind row rr_target)
                                      else None);
                          extra = (case argument of None \<Rightarrow> call_clobbered | Some a \<Rightarrow> a)
                      in Inr (read_more extra ops, flow, None)
                 else Inr (ops, flow, target)
         else if flow = ''call'' then Inr (read_more call_clobbered ops, flow, None)
         else Inr (ops, flow, None))"

text \<open>The implicit memory span of a repeated string operation.\<close>

definition string_operand :: "bool \<times> bool \<Rightarrow> memory_operand" where
  "string_operand rw =
     \<lparr>mo_base = None, mo_index = None, mo_scale = 1, mo_displacement = 0, mo_absolute = False,
      mo_width = 0, mo_read = fst rw, mo_write = snd rw, mo_unknown = True\<rparr>"

text \<open>\<^verbatim>\<open>xor r, r\<close>: the register is defined and not read.\<close>

definition zeroing :: "int \<Rightarrow> bijection_form \<Rightarrow> int \<Rightarrow> int \<Rightarrow> operands \<Rightarrow> operands" where
  "zeroing opcode form width modrm ops =
     (if opcode \<in> {49, 51} \<and> bf_modrm form \<and> width = 32 \<and> drop_bit 6 modrm = 3
         \<and> modrm AND 7 = drop_bit 3 modrm AND 7
      then let zeroed = register_of_field (modrm AND 7)
           in ops\<lparr>op_reads := op_reads ops - {zeroed}, op_writes := op_writes ops \<union> {zeroed},
                  op_read_atoms := op_read_atoms ops - register_atoms_of zeroed,
                  op_write_atoms := op_write_atoms ops \<union> register_atoms_of zeroed\<rparr>
      else ops)"

definition form_operands :: "bijection_form \<Rightarrow> operands" where
  "form_operands form =
     \<lparr>op_fields = [], op_reads = bf_reads form, op_writes = bf_writes form,
      op_frozen = bf_implicit_frozen form,
      op_read_atoms = register_atoms (bf_reads form) \<union> register_atoms (bf_implicit_frozen form),
      op_write_atoms = register_atoms (bf_writes form)\<rparr>"

definition opcode_register :: "bijection_form \<Rightarrow> int \<Rightarrow> int \<Rightarrow> int \<Rightarrow> operands \<Rightarrow> operands" where
  "opcode_register form width opcode_at opcode ops =
     (case bf_opreg form of None \<Rightarrow> ops
      | Some role \<Rightarrow>
          touch width (opcode AND 7) (role \<in> {''read'', ''readwrite''}) (role \<in> {''write'', ''readwrite''})
            (add_field (width \<noteq> 8) opcode_at 0 ops))"

text \<open>The explicit operands of a form, with the ModRM byte or 0 when there is none.\<close>

definition bijection_explicit ::
    "bijection_form \<Rightarrow> int \<Rightarrow> int \<Rightarrow> bytes \<Rightarrow> int \<Rightarrow> int \<Rightarrow> operands \<Rightarrow>
     (operands \<times> memory_operand option \<times> modrm_encoding option \<times> string option \<times> int) result" where
  "bijection_explicit form opcode width encoded offset cursor ops =
     (if bf_modrm form
      then rbind (bijection_modrm form opcode width encoded offset cursor ops)
             (\<lambda>(ops, memory, encoding, flow, modrm). Inr (ops, memory, Some encoding, flow, modrm))
      else Inr (ops, None, None, None, 0))"

definition bijection_result ::
    "int \<Rightarrow> int \<Rightarrow> int \<Rightarrow> bijection_form \<Rightarrow> memory_operand option \<Rightarrow> modrm_encoding option \<Rightarrow>
     string option \<Rightarrow> operands \<Rightarrow> string \<Rightarrow> int option \<Rightarrow> bijection_instruction" where
  "bijection_result offset count opcode form mem encoding flow_override ops flow target =
     \<lparr>bi_offset = offset, bi_length = count, bi_opcode = opcode,
      bi_fields = op_fields ops, bi_reads = op_reads ops, bi_writes = op_writes ops,
      bi_flow = flow, bi_target = target, bi_frozen = op_frozen ops,
      bi_memory = (case bf_string_memory form of None \<Rightarrow> mem
                   | Some rw \<Rightarrow> Some (string_operand rw)),
      bi_encoding = encoding,
      bi_indirect = ((case flow_override of None \<Rightarrow> bf_flow form | Some f \<Rightarrow> f) = ''exit''
                     \<and> bf_modrm form),
      bi_read_atoms = op_read_atoms ops, bi_write_atoms = op_write_atoms ops\<rparr>"

definition decode_ia32_bijection_instruction ::
    "bytes \<Rightarrow> int \<Rightarrow> (int \<Rightarrow> relocation_target option) \<Rightarrow> bijection_instruction result" where
  "decode_ia32_bijection_instruction body offset relocations =
     require (0 \<le> offset \<and> offset < len body) ''instruction offset is out of range''
      (rbind (supported_ia32_instruction_length (slice_from body offset)) (\<lambda>count.
       let encoded = pslice body offset (offset + count)
       in require (len encoded = count) ''instruction is truncated''
        (rbind (bijection_prefixes encoded 0 False False None) (\<lambda>(prefixed, size16, repeat).
         rbind (bijection_opcode encoded prefixed size16 repeat) (\<lambda>(opcode, cursor, form, width).
         rbind (bijection_explicit form opcode width encoded offset cursor
                  (opcode_register form width (offset + prefixed) opcode (form_operands form)))
           (\<lambda>(ops, mem, encoding, flow_override, modrm).
         rbind (bijection_flow form flow_override encoded offset count relocations ops)
           (\<lambda>(ops, flow, target).
         Inr (bijection_result offset count opcode form mem encoding flow_override
                (zeroing opcode form width modrm ops) flow target))))))))"

lemma decode_bijection_cases:
  assumes "decode_ia32_bijection_instruction body offset relocations = Inr i"
  obtains count encoded prefixed size16 repeat opcode cursor form width ops mem encoding
      flow_override modrm ops' flow target
  where "0 \<le> offset" "offset < len body"
    "supported_ia32_instruction_length (slice_from body offset) = Inr count"
    "encoded = pslice body offset (offset + count)" "len encoded = count"
    "bijection_prefixes encoded 0 False False None = Inr (prefixed, size16, repeat)"
    "bijection_opcode encoded prefixed size16 repeat = Inr (opcode, cursor, form, width)"
    "bijection_explicit form opcode width encoded offset cursor
       (opcode_register form width (offset + prefixed) opcode (form_operands form))
     = Inr (ops, mem, encoding, flow_override, modrm)"
    "bijection_flow form flow_override encoded offset count relocations ops
     = Inr (ops', flow, target)"
    "i = bijection_result offset count opcode form mem encoding flow_override
           (zeroing opcode form width modrm ops') flow target"
  using assms
  by (clarsimp simp: decode_ia32_bijection_instruction_def Let_def split: prod.split_asm)

lemma decode_bijection_length:
  assumes "decode_ia32_bijection_instruction body offset relocations = Inr i"
  shows "bi_offset i = offset \<and> 0 \<le> offset \<and> offset < len body \<and>
    supported_ia32_instruction_length (slice_from body offset) = Inr (bi_length i) \<and>
    1 \<le> bi_length i \<and> bi_length i \<le> 15 \<and> offset + bi_length i \<le> len body"
proof -
  from assms obtain count opcode form mem encoding flow_override ops flow target where
    i: "i = bijection_result offset count opcode form mem encoding flow_override ops flow target"
    and o: "0 \<le> offset" "offset < len body"
    and c: "supported_ia32_instruction_length (slice_from body offset) = Inr count"
    by (blast elim: decode_bijection_cases)
  show ?thesis
    using o c supported_length_bounds [OF c]
    by (simp add: i bijection_result_def slice_from_def slice_bound_def)
qed

section \<open>Decoding a body\<close>

function bijection_run ::
    "bytes \<Rightarrow> int \<Rightarrow> (int \<Rightarrow> relocation_target option) \<Rightarrow> bijection_instruction list result" where
  "bijection_run code offset relocations =
     (if offset < len code
      then rbind (decode_ia32_bijection_instruction code offset relocations) (\<lambda>instruction.
             rbind (bijection_run code (offset + bi_length instruction) relocations) (\<lambda>rest.
               Inr (instruction # rest)))
      else Inr [])"
  by pat_completeness auto
termination
  by (relation "measure (\<lambda>(code, offset, relocations). nat (len code - offset))")
     (auto dest: decode_bijection_length)

declare bijection_run.simps [simp del]

text \<open>A direct branch targets an instruction boundary of the body.\<close>

definition require_boundary :: "int list \<Rightarrow> unit \<Rightarrow> bijection_instruction \<Rightarrow> unit result" where
  "require_boundary starts u i =
     (case bi_target i of None \<Rightarrow> Inr ()
      | Some target \<Rightarrow>
          require (target \<in> set starts)
            ''branch does not target an instruction boundary in this body'' (Inr ()))"

definition decode_ia32_bijection_body ::
    "bytes \<Rightarrow> (int \<Rightarrow> relocation_target option) \<Rightarrow> int option \<Rightarrow> bijection_instruction list result" where
  "decode_ia32_bijection_body body relocations code_length =
     require (body \<noteq> []) ''body is empty''
      (let limit = (case code_length of None \<Rightarrow> len body | Some l \<Rightarrow> l)
       in require (0 < limit \<and> limit \<le> len body) ''code length is out of range''
        (let code = pslice body 0 limit
         in rbind (bijection_run code 0 relocations) (\<lambda>insns.
            require (sum_list (map bi_length insns) = len code)
              ''body does not decode to exhaustion''
            (rbind (if limit < len body
                    then rbind (item insns (- 1)) (\<lambda>final.
                           require (bi_flow final \<in> {''ret'', ''jmp'', ''exit''})
                             ''code falls through into the body's data tail'' (Inr ()))
                    else Inr ()) (\<lambda>_.
             rbind (rfold (require_boundary (map bi_offset insns)) () insns) (\<lambda>_.
             Inr insns))))))"

section \<open>What the decoder reports is well formed\<close>

definition all_atoms :: "string set" where
  "all_atoms = register_atoms (set register_names)"

definition operands_ok :: "int \<Rightarrow> int \<Rightarrow> operands \<Rightarrow> bool" where
  "operands_ok lo hi ops =
     (op_reads ops \<subseteq> set register_names \<and> op_writes ops \<subseteq> set register_names
      \<and> op_frozen ops \<subseteq> set register_names
      \<and> op_read_atoms ops \<subseteq> all_atoms \<and> op_write_atoms ops \<subseteq> all_atoms
      \<and> (\<forall>(at, shift) \<in> set (op_fields ops). lo \<le> at \<and> at < hi \<and> shift \<in> {0, 3}))"

definition form_ok :: "bijection_form \<Rightarrow> bool" where
  "form_ok form =
     (bf_reads form \<subseteq> set register_names \<and> bf_writes form \<subseteq> set register_names
      \<and> bf_implicit_frozen form \<subseteq> set register_names
      \<and> list_all (\<lambda>(digit, rds, wrs, frz). rds \<union> wrs \<union> frz \<subseteq> set register_names)
          (bf_ext_implicit form)
      \<and> bf_width form \<in> {8, 32}
      \<and> (bf_flow form \<in> {''jcc'', ''jmp''} \<longrightarrow> bf_displacement form \<noteq> 0)
      \<and> list_all (\<lambda>(digit, flow). flow \<notin> {''jcc'', ''jmp''}) (bf_ext_flow form))"

lemma all_forms_ok:
  "list_all (form_ok \<circ> snd) bijection_forms"
  "list_all (form_ok \<circ> snd) bijection_two_byte_forms"
  "list_all (form_ok \<circ> snd) repeated_string_forms"
  by code_simp+

lemma map_of_form_ok: "map_of fs k = Some f \<Longrightarrow> list_all (form_ok \<circ> snd) fs \<Longrightarrow> form_ok f"
  by (auto simp: list_all_iff dest!: map_of_SomeD)

lemma bijection_lookup_form_ok:
  assumes "bijection_lookup opcode size16 repeat = Inr form"
  shows "form_ok form"
proof -
  have "form_ok f" if "bijection_form_for k = Some f" for k f
    using that all_forms_ok by (auto simp: bijection_form_for_def split: if_splits intro: map_of_form_ok)
  then show ?thesis
    using assms map_of_form_ok [OF _ all_forms_ok(3)]
    by (auto simp: bijection_lookup_def split: option.splits)
qed

lemma bijection_opcode_form_ok:
  assumes "bijection_opcode encoded cursor size16 repeat = Inr (opcode, cursor', form, width)"
  shows "form_ok form" "cursor < cursor'"
  using assms
  by (auto simp: bijection_opcode_def split: if_splits dest: bijection_lookup_form_ok)

lemma register_atoms_mono: "A \<subseteq> B \<Longrightarrow> register_atoms A \<subseteq> register_atoms B"
  by (auto simp: register_atoms_def)

lemma register_atoms_all: "A \<subseteq> set register_names \<Longrightarrow> register_atoms A \<subseteq> all_atoms"
  by (simp add: all_atoms_def register_atoms_mono)

lemma atoms_of_all: "name \<in> set register_names \<Longrightarrow> register_atoms_of name \<subseteq> all_atoms"
  by (auto simp: all_atoms_def register_atoms_def)

lemma register_name_in: "0 \<le> v \<Longrightarrow> v < 8 \<Longrightarrow> register_of_field v \<in> set register_names"
  unfolding register_of_field_def by (rule nth_mem) (simp add: register_names_def)

lemma and7_bounds: "0 \<le> v AND (7 :: int)" "v AND (7 :: int) < 8"
  using AND_upper2 [of 7 v] by simp_all

lemma and3_bounds: "0 \<le> v AND (3 :: int)" "v AND (3 :: int) < 8"
  using AND_upper2 [of 3 v] by simp_all

lemma touched_name_in: "0 \<le> v \<Longrightarrow> v < 8 \<Longrightarrow> touched_name width v \<in> set register_names"
  by (auto simp: touched_name_def intro!: register_name_in and3_bounds)

lemma small_digit: "0 \<le> w \<Longrightarrow> w \<le> 3 \<Longrightarrow> w \<in> {0, 1, 2, 3 :: int}"
  by auto

lemma touched_atoms_subset:
  assumes "0 \<le> v" "v < 8"
  shows "touched_atoms width v \<subseteq> register_atoms_of (touched_name width v)"
proof (cases "width = 8")
  case True
  have "v AND 3 \<in> {0, 1, 2, 3}"
    using AND_upper2 [of 3 v] and3_bounds(1) [of v] by (intro small_digit) simp_all
  then have "register_of_field (v AND 3) \<in> set byte_addressable"
    by (auto simp: register_of_field_def register_names_def byte_addressable_def)
  then show ?thesis
    using True by (simp add: touched_atoms_def touched_name_def register_atoms_of_def)
qed (auto simp: touched_atoms_def Let_def register_atoms_of_def)

lemma touched_atoms_all: "0 \<le> v \<Longrightarrow> v < 8 \<Longrightarrow> touched_atoms width v \<subseteq> all_atoms"
  using touched_atoms_subset touched_name_in atoms_of_all by blast

text \<open>Every accumulator update keeps the operands well formed.\<close>

lemma add_field_ok [simp]:
  "operands_ok lo hi ops \<Longrightarrow> lo \<le> at \<Longrightarrow> at < hi \<Longrightarrow> shift \<in> {0, 3} \<Longrightarrow>
   operands_ok lo hi (add_field c at shift ops)"
  by (auto simp: add_field_def operands_ok_def)

lemma touch_ok [simp]:
  assumes "operands_ok lo hi ops" "0 \<le> v" "v < 8"
  shows "operands_ok lo hi (touch width v r w ops)"
  using assms touched_name_in [of v width] touched_atoms_all [of v width]
  by (auto simp: touch_def operands_ok_def Let_def)

lemma address_register_ok [simp]:
  assumes "operands_ok lo hi ops" "0 \<le> v" "v < 8" "lo \<le> at" "at < hi" "shift \<in> {0, 3}"
  shows "operands_ok lo hi (address_register at shift v ops)"
  using assms register_name_in [of v] atoms_of_all [of "register_of_field v"]
  by (auto simp: address_register_def add_field_def operands_ok_def Let_def)

lemma address_register_reads [simp]:
  "op_reads (address_register at shift v ops) = insert (register_of_field v) (op_reads ops)"
  by (simp add: address_register_def add_field_def Let_def)

lemma form_operands_ok [simp]: "form_ok form \<Longrightarrow> operands_ok lo hi (form_operands form)"
  using register_atoms_all
  by (auto simp: form_operands_def operands_ok_def form_ok_def)

lemma opcode_register_ok [simp]:
  "operands_ok lo hi ops \<Longrightarrow> lo \<le> at \<Longrightarrow> at < hi \<Longrightarrow>
   operands_ok lo hi (opcode_register form width at opcode ops)"
  by (simp add: opcode_register_def and7_bounds split: option.split)

lemma modrm_direct_ok [simp]:
  "operands_ok lo hi ops \<Longrightarrow> 0 \<le> rm \<Longrightarrow> rm < 8 \<Longrightarrow> lo \<le> at \<Longrightarrow> at < hi \<Longrightarrow>
   operands_ok lo hi (modrm_direct form opcode width at modrm rm rm_write ops)"
  by (auto simp: modrm_direct_def Let_def)
     (auto simp: operands_ok_def all_atoms_def register_atoms_def register_names_def
        register_atoms_of_def byte_addressable_def)

lemma extension_operands_ok [simp]:
  assumes "operands_ok lo hi ops" "form_ok form"
  shows "operands_ok lo hi (extension_operands form digit ops)"
proof (cases "map_of (bf_ext_implicit form) digit")
  case None
  then show ?thesis using assms by (simp add: extension_operands_def)
next
  case (Some extra)
  obtain rds wrs frz where extra: "extra = (rds, wrs, frz)" by (cases extra)
  have sub: "rds \<union> wrs \<union> frz \<subseteq> set register_names"
    using map_of_SomeD [OF Some] assms(2) by (auto simp: extra form_ok_def list_all_iff)
  then have "register_atoms (rds \<union> frz) \<subseteq> all_atoms" "register_atoms wrs \<subseteq> all_atoms"
    using register_atoms_all by simp_all
  then show ?thesis
    using assms(1) sub Some by (simp add: extra extension_operands_def operands_ok_def)
qed

lemma modrm_register_field_ok:
  assumes "modrm_register_field form width at field ops = Inr (ops', rm_write, flow)"
    and "operands_ok lo hi ops" "form_ok form" "0 \<le> field" "field < 8" "lo \<le> at" "at < hi"
  shows "operands_ok lo hi ops'"
  using assms by (auto simp: modrm_register_field_def Let_def split: if_splits)

lemma memory_address_ok:
  assumes "memory_address encoded offset cursor at mode rm ops
      = Inr (ops', base, index, scale, absolute, sib_at, cursor')"
    and "operands_ok offset (offset + len encoded) ops" "0 \<le> rm" "rm < 8"
    and "offset \<le> at" "at < offset + len encoded" "0 \<le> cursor"
  shows "operands_ok offset (offset + len encoded) ops'"
    "base \<noteq> None \<longrightarrow> the base \<in> op_reads ops'" "index \<noteq> None \<longrightarrow> the index \<in> op_reads ops'"
    "cursor \<le> cursor'"
  using assms
  by (auto simp: memory_address_def Let_def and7_bounds split: if_splits)

lemma memory_displacement_bounds:
  assumes "memory_displacement encoded offset cursor mode absolute = Inr (at, width, disp)" "0 \<le> cursor"
  shows "- (2 ^ 31) \<le> disp" "disp < 2 ^ 31"
proof -
  have signed: "- (2 ^ 31) \<le> from_bytes_signed bs \<and> from_bytes_signed bs < 2 ^ 31"
    if "length bs = 1 \<or> length bs = 4" for bs
    using from_bytes_signed_bounds [of bs] that by (cases "bs = []") auto
  show "- (2 ^ 31) \<le> disp" "disp < 2 ^ 31"
    using assms signed by (auto simp: memory_displacement_def length_pslice split: if_splits)
qed

definition memory_ok :: "string set \<Rightarrow> memory_operand \<Rightarrow> bool" where
  "memory_ok rds m =
     ((mo_base m \<noteq> None \<longrightarrow> the (mo_base m) \<in> rds) \<and> (mo_index m \<noteq> None \<longrightarrow> the (mo_index m) \<in> rds)
      \<and> (mo_unknown m \<or> mo_width m \<in> {1, 2, 4})
      \<and> - (2 ^ 31) \<le> mo_displacement m \<and> mo_displacement m < 2 ^ 31)"

lemma modrm_memory_ok:
  assumes "modrm_memory form width w base index scale disp absolute = Some m"
    and "width \<in> {8, 16, 32}" "base \<noteq> None \<longrightarrow> the base \<in> rds" "index \<noteq> None \<longrightarrow> the index \<in> rds"
    and "- (2 ^ 31) \<le> disp" "disp < 2 ^ 31"
  shows "memory_ok rds m"
  using assms by (auto simp: modrm_memory_def memory_ok_def split: if_splits)

lemma addressed_memory_ok:
  assumes a: "memory_address encoded offset cursor at mode rm ops
      = Inr (ops', base, index, scale, absolute, sib_at, cursor')"
    and d: "memory_displacement encoded offset cursor' mode absolute = Inr (disp_at, disp_size, disp)"
    and m: "modrm_memory form width w base index scale disp absolute = Some mo"
    and ok: "operands_ok offset (offset + len encoded) ops" "0 \<le> rm" "rm < 8"
      "offset \<le> at" "at < offset + len encoded" "0 \<le> cursor"
    and w: "width \<in> {8, 16, 32}"
  shows "memory_ok (op_reads ops') mo"
proof -
  note address = memory_address_ok [OF a ok]
  show ?thesis
    using modrm_memory_ok [OF m w address(2,3)] memory_displacement_bounds [OF d] address(4) ok
    by simp
qed

lemma bijection_modrm_ok:
  assumes m: "bijection_modrm form opcode width encoded offset cursor ops
      = Inr (ops', mem, encoding, flow, modrm)"
    and ops: "operands_ok offset (offset + len encoded) ops" and f: "form_ok form"
    and c: "0 \<le> cursor" and w: "width \<in> {8, 16, 32}"
  shows "operands_ok offset (offset + len encoded) ops'"
    "mem = Some mo \<Longrightarrow> memory_ok (op_reads ops') mo \<and> drop_bit 6 modrm \<noteq> 3"
proof -
  note field_ok = modrm_register_field_ok [OF _ ops f and7_bounds]
  from m have at: "cursor < len encoded"
    by (simp add: bijection_modrm_def)
  show "operands_ok offset (offset + len encoded) ops'"
    using m at c
    by (auto simp: bijection_modrm_def Let_def and7_bounds split: if_splits
        dest!: field_ok intro: memory_address_ok(1) modrm_direct_ok)
  show "memory_ok (op_reads ops') mo \<and> drop_bit 6 modrm \<noteq> 3" if "mem = Some mo"
    using m at c that
    by (clarsimp simp: bijection_modrm_def Let_def and7_bounds split: if_splits)
       (erule addressed_memory_ok [OF _ _ _ _ and7_bounds _ _ _ w];
        (assumption | simp add: field_ok)+)
qed

lemma msvc_convention_registers:
  "msvc_convention symbol cursor = Reading registers \<Longrightarrow> registers \<subseteq> {''ecx'', ''edx''}"
  by (auto simp: msvc_convention_def msvc_call_argument_registers_table_def
      split: if_splits option.splits)

lemma msvc_reading_registers:
  "msvc_reading_at symbol index = Reading registers \<Longrightarrow> registers \<subseteq> {''ecx'', ''edx''}"
  by (auto simp: msvc_reading_at_def msvc_function_class_def Let_def split: if_splits
      dest!: msvc_convention_registers)

lemma msvc_readings_registers:
  "msvc_readings symbol ks acc = Some out \<Longrightarrow> \<forall>r \<in> set acc. r \<subseteq> {''ecx'', ''edx''} \<Longrightarrow>
   \<forall>r \<in> set out. r \<subseteq> {''ecx'', ''edx''}"
proof (induction ks arbitrary: acc)
  case (Cons k ks)
  show ?case
  proof (cases "msvc_reading_at symbol k")
    case (Reading rs)
    then show ?thesis
      using Cons.IH [of "List.insert rs acc"] Cons.prems msvc_reading_registers [OF Reading] by simp
  qed (use Cons in simp_all)
qed simp

lemma msvc_registers: "msvc_call_argument_registers symbol = Some rs \<Longrightarrow> rs \<subseteq> {''ecx'', ''edx''}"
  by (fastforce simp: msvc_call_argument_registers_def split: option.splits if_splits list.splits
      dest!: msvc_readings_registers)

lemma read_more_ok [simp]:
  "operands_ok lo hi ops \<Longrightarrow> extra \<subseteq> set register_names \<Longrightarrow> operands_ok lo hi (read_more extra ops)"
  using register_atoms_all [of extra] by (auto simp: operands_ok_def read_more_def)

lemma exit_operands_ok [simp]: "operands_ok lo hi ops \<Longrightarrow> operands_ok lo hi (exit_operands ops)"
  by (simp add: operands_ok_def exit_operands_def external_transfer_live_def register_atoms_all)

lemma call_clobbered_names [simp]: "call_clobbered \<subseteq> set register_names"
  by (simp add: call_clobbered_def register_names_def)

lemma argument_names:
  "msvc_call_argument_registers symbol = Some rs \<Longrightarrow> rs \<subseteq> set register_names"
  using msvc_registers [of symbol rs] by (auto simp: register_names_def)

lemma bijection_flow_operands:
  assumes "bijection_flow form flow_override encoded offset count relocations ops
      = Inr (ops', flow, target)"
  obtains "ops' = ops" | "ops' = exit_operands ops"
    | extra where "ops' = read_more extra ops" "extra \<subseteq> set register_names"
  using assms argument_names
  by (auto simp: bijection_flow_def Let_def split: if_splits option.splits)

lemma bijection_flow_ok:
  assumes "bijection_flow form flow_override encoded offset count relocations ops
      = Inr (ops', flow, target)"
    and "operands_ok lo hi ops"
  shows "operands_ok lo hi ops'" "op_reads ops \<subseteq> op_reads ops'"
proof -
  consider "ops' = ops" | "ops' = exit_operands ops"
    | extra where "ops' = read_more extra ops" "extra \<subseteq> set register_names"
    by (rule bijection_flow_operands [OF assms(1)])
  then have "operands_ok lo hi ops' \<and> op_reads ops \<subseteq> op_reads ops'"
  proof cases
    case 2
    then show ?thesis
      using assms(2) by (auto simp: exit_operands_def external_transfer_live_def operands_ok_def
          all_atoms_def)
  next
    case 3
    then show ?thesis
      using assms(2) read_more_ok [of lo hi ops extra] by (simp add: read_more_def)
  qed (use assms(2) in simp)
  then show "operands_ok lo hi ops'" "op_reads ops \<subseteq> op_reads ops'" by simp_all
qed

lemma zeroing_ok:
  assumes "operands_ok lo hi ops"
  shows "operands_ok lo hi (zeroing opcode form width modrm ops)"
  using assms register_name_in [OF and7_bounds, of modrm]
    atoms_of_all [OF register_name_in [OF and7_bounds, of modrm]]
  by (auto simp: zeroing_def operands_ok_def Let_def)

lemma prefixes_cursor:
  "bijection_prefixes bs cursor segment size16 repeat = Inr (cursor', size16', repeat') \<Longrightarrow>
   cursor \<le> cursor' \<and> cursor' < cursor + len bs"
proof (induction bs arbitrary: cursor segment size16 repeat)
  case (Cons b bs)
  then show ?case
    by (auto simp: Let_def split: if_splits dest!: Cons.IH)
qed simp

lemma opcode_width:
  "bijection_opcode encoded cursor size16 repeat = Inr (opcode, cursor', form, width) \<Longrightarrow>
   width \<in> {8, 16, 32}"
  using bijection_opcode_form_ok(1) by (fastforce simp: bijection_opcode_def form_ok_def split: if_splits)

definition instruction_ok :: "bijection_instruction \<Rightarrow> bool" where
  "instruction_ok i =
     (bi_reads i \<union> bi_writes i \<union> bi_frozen i \<subseteq> set register_names
      \<and> bi_read_atoms i \<union> bi_write_atoms i \<subseteq> all_atoms
      \<and> (\<forall>(at, shift) \<in> set (bi_fields i).
           bi_offset i \<le> at \<and> at < bi_offset i + bi_length i \<and> shift \<in> {0, 3})
      \<and> (case bi_memory i of None \<Rightarrow> True | Some m \<Rightarrow> memory_ok (bi_reads i) m))"

lemma string_memory_ok [simp]: "memory_ok rds (string_operand rw)"
  by (simp add: memory_ok_def string_operand_def)

lemma decode_bijection_ok:
  assumes "decode_ia32_bijection_instruction body offset relocations = Inr i"
  shows "instruction_ok i"
proof -
  from assms obtain count encoded prefixed size16 repeat opcode cursor form width ops mem encoding
      flow_override modrm ops' flow target where
    "0 \<le> offset" "offset < len body"
      "supported_ia32_instruction_length (slice_from body offset) = Inr count"
      "encoded = pslice body offset (offset + count)"
    and n: "len encoded = count"
    and p: "bijection_prefixes encoded 0 False False None = Inr (prefixed, size16, repeat)"
    and o: "bijection_opcode encoded prefixed size16 repeat = Inr (opcode, cursor, form, width)"
    and e: "bijection_explicit form opcode width encoded offset cursor
       (opcode_register form width (offset + prefixed) opcode (form_operands form))
       = Inr (ops, mem, encoding, flow_override, modrm)"
    and f: "bijection_flow form flow_override encoded offset count relocations ops
       = Inr (ops', flow, target)"
    and i: "i = bijection_result offset count opcode form mem encoding flow_override
           (zeroing opcode form width modrm ops') flow target"
    by (rule decode_bijection_cases)
  let ?ok = "operands_ok offset (offset + len encoded)"
  note form = bijection_opcode_form_ok [OF o]
  note pre = prefixes_cursor [OF p]
  have start: "?ok (opcode_register form width (offset + prefixed) opcode (form_operands form))"
    using form pre by simp
  have ops: "?ok ops" "mem = Some mo \<Longrightarrow> memory_ok (op_reads ops) mo \<and> drop_bit 6 modrm \<noteq> 3" for mo
    using e start form pre bijection_modrm_ok [OF _ start form(1) _ opcode_width [OF o]]
    by (auto simp: bijection_explicit_def split: if_splits)
  have ok: "?ok (zeroing opcode form width modrm ops')"
    by (rule zeroing_ok) (rule bijection_flow_ok(1) [OF f ops(1)])
  have mem: "memory_ok (op_reads (zeroing opcode form width modrm ops')) mo" if "mem = Some mo" for mo
    using ops(2) [OF that] bijection_flow_ok(2) [OF f ops(1)]
    by (auto simp: zeroing_def memory_ok_def)
  show ?thesis
    using ok mem n by (auto simp: i bijection_result_def instruction_ok_def operands_ok_def
        split: option.splits)
qed

text \<open>A reported direct branch always has a target.\<close>

lemma bijection_flow_target:
  assumes f: "bijection_flow form flow_override encoded offset count relocations ops
      = Inr (ops', flow, target)"
    and ok: "form_ok form" and o: "flow_override \<noteq> Some ''jcc''" "flow_override \<noteq> Some ''jmp''"
    and j: "flow \<in> {''jcc'', ''jmp''}"
  shows "target \<noteq> None"
  using assms
  by (auto simp: bijection_flow_def form_ok_def Let_def split: if_splits option.splits)

lemma extension_flow:
  assumes "bijection_explicit form opcode width encoded offset cursor ops
      = Inr (ops', mem, encoding, flow, modrm)" and ok: "form_ok form"
  shows "flow \<noteq> Some ''jcc''" "flow \<noteq> Some ''jmp''"
proof -
  have "modrm_register_field form width at digit ops = Inr (ops1, w, flow1) \<Longrightarrow>
      flow1 \<noteq> Some ''jcc'' \<and> flow1 \<noteq> Some ''jmp''" for at digit ops1 w flow1
    using ok
    by (auto simp: modrm_register_field_def form_ok_def list_all_iff Let_def split: if_splits
        dest!: map_of_SomeD)
  then show "flow \<noteq> Some ''jcc''" "flow \<noteq> Some ''jmp''"
    using assms(1)
    by (fastforce simp: bijection_explicit_def bijection_modrm_def Let_def split: if_splits)+
qed

lemma decode_bijection_target:
  assumes "decode_ia32_bijection_instruction body offset relocations = Inr i"
    and "bi_flow i \<in> {''jcc'', ''jmp''}"
  shows "bi_target i \<noteq> None"
  using assms(1)
proof (rule decode_bijection_cases)
  fix count encoded prefixed size16 repeat opcode cursor form width ops mem encoding
    flow_override modrm ops' flow target
  assume o: "bijection_opcode encoded prefixed size16 repeat = Inr (opcode, cursor, form, width)"
    and e: "bijection_explicit form opcode width encoded offset cursor
       (opcode_register form width (offset + prefixed) opcode (form_operands form))
       = Inr (ops, mem, encoding, flow_override, modrm)"
    and f: "bijection_flow form flow_override encoded offset count relocations ops
       = Inr (ops', flow, target)"
    and i: "i = bijection_result offset count opcode form mem encoding flow_override
           (zeroing opcode form width modrm ops') flow target"
  show ?thesis
    using bijection_flow_target [OF f bijection_opcode_form_ok(1) [OF o]
        extension_flow [OF e bijection_opcode_form_ok(1) [OF o]]] assms(2)
    by (simp add: i bijection_result_def)
qed

section \<open>Bodies\<close>

lemma bijection_run_ok:
  "bijection_run code offset relocations = Inr insns \<Longrightarrow> 0 \<le> offset \<Longrightarrow>
   (\<forall>i \<in> set insns. decode_ia32_bijection_instruction code (bi_offset i) relocations = Inr i)
   \<and> (\<forall>k < length insns. bi_offset (insns ! k) = offset + sum_list (map bi_length (take k insns)))
   \<and> (offset \<le> len code \<longrightarrow> sum_list (map bi_length insns) = len code - offset)"
proof (induction code offset relocations arbitrary: insns rule: bijection_run.induct)
  case (1 code offset relocations)
  show ?case
  proof (cases "offset < len code")
    case False
    then show ?thesis
      using "1.prems" by (simp add: bijection_run.simps [of code offset])
  next
    case True
    then obtain i rest where
      d: "decode_ia32_bijection_instruction code offset relocations = Inr i"
      and r: "bijection_run code (offset + bi_length i) relocations = Inr rest"
      and insns: "insns = i # rest"
      using "1.prems" by (auto simp: bijection_run.simps [of code offset])
    note facts = decode_bijection_length [OF d]
    show ?thesis
      using "1.IH" [OF True d r] facts d by (auto simp: insns nth_Cons split: nat.splits)
  qed
qed

text \<open>
  The decoded instructions of an accepted body tile its code: they follow one another
  without gap or overlap from 0 to the code length, and every branch target is the start
  of one of them.
\<close>

lemma require_boundary_all:
  "rfold (require_boundary starts) u insns = Inr v \<Longrightarrow> i \<in> set insns \<Longrightarrow> bi_target i = Some t \<Longrightarrow>
   t \<in> set starts"
  by (induction insns arbitrary: u) (auto simp: require_boundary_def)

lemma item_last: "xs \<noteq> [] \<Longrightarrow> item xs (- 1) = Inr (last xs)"
  by (cases xs rule: rev_cases) (simp_all add: item_def Let_def nat_diff_distrib nth_append)

lemma bijection_body_cases:
  assumes "decode_ia32_bijection_body body relocations code_length = Inr insns"
  obtains limit where "limit = (case code_length of None \<Rightarrow> len body | Some l \<Rightarrow> l)"
    "0 < limit" "limit \<le> len body" "bijection_run (pslice body 0 limit) 0 relocations = Inr insns"
    "\<And>i t. i \<in> set insns \<Longrightarrow> bi_target i = Some t \<Longrightarrow> t \<in> bi_offset ` set insns"
    "limit < len body \<Longrightarrow> bi_flow (last insns) \<in> {''ret'', ''jmp'', ''exit''}"
    "insns \<noteq> []"
proof -
  define limit where "limit = (case code_length of None \<Rightarrow> len body | Some l \<Rightarrow> l)"
  have l: "0 < limit" "limit \<le> len body"
    and r: "bijection_run (pslice body 0 limit) 0 relocations = Inr insns"
    and n: "sum_list (map bi_length insns) = len (pslice body 0 limit)"
    and t: "limit < len body \<Longrightarrow>
      \<exists>i. item insns (- 1) = Inr i \<and> bi_flow i \<in> {''ret'', ''jmp'', ''exit''}"
    and b: "rfold (require_boundary (map bi_offset insns)) () insns = Inr ()"
    using assms unfolding decode_ia32_bijection_body_def Let_def limit_def [symmetric]
    by (auto split: if_splits)
  have ne: "insns \<noteq> []"
    using n l by (auto simp: length_pslice)
  have target: "t \<in> bi_offset ` set insns" if "i \<in> set insns" "bi_target i = Some t" for i t
    using require_boundary_all [OF b that] by simp
  have final: "bi_flow (last insns) \<in> {''ret'', ''jmp'', ''exit''}" if "limit < len body"
    using t [OF that] item_last [OF ne] by auto
  show ?thesis
    by (rule that [OF limit_def l r target final ne])
qed

text \<open>The facts of one instruction of an accepted body.\<close>

lemma body_instruction:
  assumes b: "decode_ia32_bijection_body body relocations code_length = Inr insns"
    and k: "k < length insns"
  shows "instruction_ok (insns ! k)" "1 \<le> bi_length (insns ! k)"
    and "bi_offset (insns ! k) = sum_list (map bi_length (take k insns))"
    and "bi_offset (insns ! k) + bi_length (insns ! k) \<le> len body"
    and "\<exists>code. decode_ia32_bijection_instruction code (bi_offset (insns ! k)) relocations = Inr (insns ! k)"
proof -
  obtain limit where l: "limit \<le> len body" "0 < limit"
    and r: "bijection_run (pslice body 0 limit) 0 relocations = Inr insns"
    using bijection_body_cases [OF b] by metis
  note run = bijection_run_ok [OF r order_refl]
  have d: "decode_ia32_bijection_instruction (pslice body 0 limit) (bi_offset (insns ! k)) relocations
      = Inr (insns ! k)"
    using run nth_mem [OF k] by blast
  have le: "len (pslice body 0 limit) \<le> len body"
    using l by (simp add: length_pslice)
  show "instruction_ok (insns ! k)" using decode_bijection_ok [OF d] .
  show "1 \<le> bi_length (insns ! k)" using decode_bijection_length [OF d] by simp
  show "bi_offset (insns ! k) = sum_list (map bi_length (take k insns))" using run k by simp
  show "bi_offset (insns ! k) + bi_length (insns ! k) \<le> len body"
    using decode_bijection_length [OF d] le by linarith
  show "\<exists>code. decode_ia32_bijection_instruction code (bi_offset (insns ! k)) relocations = Inr (insns ! k)"
    using d by blast
qed

section \<open>Properties\<close>

text \<open>
  C25.  What the register decoder reports of an instruction is well formed: the span it gives
  is the one the length decoder gives and lies inside the body, the registers and atoms it
  names exist, every rewritable register field lies inside the instruction at bit 0 or 3, and
  the base and index of a memory operand are among the registers the instruction reads.
\<close>

theorem bijection_decode_well_formed:
  assumes "decode_ia32_bijection_instruction body offset relocations = Inr i"
  shows "bi_offset i = offset
    \<and> supported_ia32_instruction_length (slice_from body offset) = Inr (bi_length i)
    \<and> 1 \<le> bi_length i \<and> offset + bi_length i \<le> len body
    \<and> bi_reads i \<union> bi_writes i \<union> bi_frozen i \<subseteq> set register_names
    \<and> bi_read_atoms i \<union> bi_write_atoms i \<subseteq> register_atoms (set register_names)
    \<and> (\<forall>(at, shift) \<in> set (bi_fields i).
         offset \<le> at \<and> at < offset + bi_length i \<and> shift \<in> {0, 3})
    \<and> (\<forall>m. bi_memory i = Some m \<longrightarrow> memory_ok (bi_reads i) m)"
  using decode_bijection_length [OF assms] decode_bijection_ok [OF assms]
  by (auto simp: instruction_ok_def all_atoms_def)

text \<open>
  C26.  An accepted body is tiled by its decoded instructions: each starts where the previous
  one ends, together they cover exactly the code length, every branch target is the start of
  one of them, and code that is followed by data does not fall through into it.
\<close>

theorem bijection_body_tiled:
  assumes "decode_ia32_bijection_body body relocations code_length = Inr insns"
  shows "\<exists>limit. limit = (case code_length of None \<Rightarrow> len body | Some l \<Rightarrow> l)
    \<and> 0 < limit \<and> limit \<le> len body
    \<and> (\<forall>k < length insns. bi_offset (insns ! k) = sum_list (map bi_length (take k insns))
         \<and> decode_ia32_bijection_instruction (pslice body 0 limit) (bi_offset (insns ! k)) relocations
           = Inr (insns ! k))
    \<and> sum_list (map bi_length insns) = limit
    \<and> (\<forall>i \<in> set insns. \<forall>t. bi_target i = Some t \<longrightarrow> t \<in> bi_offset ` set insns)
    \<and> (limit < len body \<longrightarrow> bi_flow (last insns) \<in> {''ret'', ''jmp'', ''exit''})"
  using assms
proof (rule bijection_body_cases)
  fix limit
  assume limit: "limit = (case code_length of None \<Rightarrow> len body | Some l \<Rightarrow> l)"
    "0 < limit" "limit \<le> len body"
    and r: "bijection_run (pslice body 0 limit) 0 relocations = Inr insns"
    and t: "\<And>i t. i \<in> set insns \<Longrightarrow> bi_target i = Some t \<Longrightarrow> t \<in> bi_offset ` set insns"
    and f: "limit < len body \<Longrightarrow> bi_flow (last insns) \<in> {''ret'', ''jmp'', ''exit''}"
  note run = bijection_run_ok [OF r order_refl]
  have d: "decode_ia32_bijection_instruction (pslice body 0 limit) (bi_offset (insns ! k)) relocations
      = Inr (insns ! k)" if "k < length insns" for k
    using run nth_mem [OF that] by blast
  have total: "sum_list (map bi_length insns) = limit"
    using run limit by (simp add: length_pslice)
  show ?thesis
    by (intro exI [of _ limit] conjI allI impI ballI)
      (use limit run d t f total in simp_all)
qed

theorem bijection_decode_well_formed_witness:
  "bi_memory (projr (decode_ia32_bijection_instruction [0x8B, 0x54, 0x24, 0x14] 0 (\<lambda>_. None)))
   = Some \<lparr>mo_base = Some ''esp'', mo_index = None, mo_scale = 1, mo_displacement = 20,
      mo_absolute = False, mo_width = 4, mo_read = True, mo_write = False, mo_unknown = False\<rparr>
   \<and> bi_reads (projr (decode_ia32_bijection_instruction [0x8B, 0x54, 0x24, 0x14] 0 (\<lambda>_. None)))
     \<subseteq> set register_names"
proof -
  have d: "decode_ia32_bijection_instruction [0x8B, 0x54, 0x24, 0x14] 0 (\<lambda>_. None) =
    Inr (projr (decode_ia32_bijection_instruction [0x8B, 0x54, 0x24, 0x14] 0 (\<lambda>_. None)))"
    by code_simp
  have "bi_memory (projr (decode_ia32_bijection_instruction [0x8B, 0x54, 0x24, 0x14] 0 (\<lambda>_. None)))
   = Some \<lparr>mo_base = Some ''esp'', mo_index = None, mo_scale = 1, mo_displacement = 20,
      mo_absolute = False, mo_width = 4, mo_read = True, mo_write = False, mo_unknown = False\<rparr>"
    by code_simp
  then show ?thesis
    using bijection_decode_well_formed [OF d] by blast
qed

theorem bijection_body_tiled_witness:
  "sum_list (map bi_length
     (projr (decode_ia32_bijection_body [0x74, 0x01, 0x90, 0xC3] (\<lambda>_. None) None))) = 4"
proof -
  have d: "decode_ia32_bijection_body [0x74, 0x01, 0x90, 0xC3] (\<lambda>_. None) None =
    Inr (projr (decode_ia32_bijection_body [0x74, 0x01, 0x90, 0xC3] (\<lambda>_. None) None))"
    by code_simp
  show ?thesis
    using bijection_body_tiled [OF d] by auto
qed

end
