(* ===== verification/Schedule_Dependence.thy ===== *)
theory Schedule_Dependence
  imports Register_Semantics
begin

text \<open>
  Dependence facts of an instruction-schedule window, from
  \<^verbatim>\<open>src/reprobit/classic/scheduling_dependence.py\<close>: the closed flag table, the stack
  deltas and the displacement rebases a moved push forces, the facts of one instruction,
  the dependence graph of a window, the stack-frontier checks and the two projections of
  the strict graph.
\<close>

section \<open>Tables\<close>

definition schedule_flag_effects :: "(int \<times> bool \<times> bool) list" where
  "schedule_flag_effects =
     map (\<lambda>opcode. (opcode, False, False)) [136, 137, 138, 139, 141, 198, 199]
     @ map (\<lambda>index. (184 + index, False, False)) (pyrange 0 8)
     @ map (\<lambda>opcode. (opcode, False, True)) [3, 11, 35, 43, 49, 51, 56, 57, 58, 59, 128, 129, 131, 132, 133]
     @ map (\<lambda>index. (64 + index, False, True)) (pyrange 0 8)
     @ map (\<lambda>index. (72 + index, False, True)) (pyrange 0 8)
     @ map (\<lambda>opcode. (opcode, True, True)) [26, 27]
     @ [(246, False, True)]
     @ map (\<lambda>index. (80 + index, False, False)) (pyrange 0 8)
     @ [(0x6A, False, False)]"

definition register_push_opcodes :: "int list" where
  "register_push_opcodes = pyrange 0x50 0x58"

definition stack_push_opcodes :: "int list" where
  "stack_push_opcodes = register_push_opcodes @ [0x6A]"

definition stack_slot_bytes :: int where
  "stack_slot_bytes = 4"

definition instruction_bytes :: "bytes \<Rightarrow> bijection_instruction \<Rightarrow> bytes" where
  "instruction_bytes body i = pslice body (bi_offset i) (bi_offset i + bi_length i)"

section \<open>Stack deltas and ESP-relative operands\<close>

definition ia32_schedule_stack_delta :: "bytes \<Rightarrow> bijection_instruction \<Rightarrow> int option" where
  "ia32_schedule_stack_delta body i =
     (let raw = instruction_bytes body i; opcode = bi_opcode i
      in if opcode \<in> set register_push_opcodes \<and> len raw = 1 \<and> byte_int (raw ! 0) = opcode
         then Some (- stack_slot_bytes)
         else if opcode = 0x6A \<and> len raw = 2 \<and> byte_int (raw ! 0) = 0x6A
         then Some (- stack_slot_bytes)
         else if len raw = 3 \<and> pslice raw 0 2 = [0x83, 0xC4]
         then let amount = from_bytes_signed (slice_from raw 2)
              in if 0 < amount \<and> amount mod stack_slot_bytes = 0 then Some amount else None
         else None)"

text \<open>
  The ESP-relative displacement: none, an ESP base without displacement bytes, or the
  byte offset, the size and the signed value.
\<close>

datatype esp_displacement = No_Esp | No_Displacement | Esp_Displacement int int int

definition ia32_esp_relative_displacement ::
    "bytes \<Rightarrow> bijection_instruction \<Rightarrow> esp_displacement result" where
  "ia32_esp_relative_displacement body i =
     (case bi_encoding i of
        None \<Rightarrow> Inr No_Esp
      | Some e \<Rightarrow>
          if en_mode e = 3 \<or> en_absolute e then Inr No_Esp
          else (case en_sib_at e of
                  None \<Rightarrow> Inr No_Esp
                | Some sib_at \<Rightarrow>
                    rbind (byte_at body sib_at) (\<lambda>sib.
                      if sib AND 7 \<noteq> 4 then Inr No_Esp
                      else if en_mode e = 0 then Inr No_Displacement
                      else case en_displacement_at e of
                             None \<Rightarrow> Inr No_Displacement
                           | Some at \<Rightarrow>
                               if en_displacement_size e = 0 then Inr No_Displacement
                               else Inr (Esp_Displacement at (en_displacement_size e)
                                 (from_bytes_signed (pslice body at (at + en_displacement_size e)))))))"

text \<open>One register field: fine unless it names ESP anywhere but in the SIB base.\<close>

definition esp_field_ok :: "bytes \<Rightarrow> modrm_encoding option \<Rightarrow> int \<times> int \<Rightarrow> bool result" where
  "esp_field_ok body encoding field =
     rbind (byte_at body (fst field)) (\<lambda>b.
       Inr (register_of_field (drop_bit (nat (snd field)) b AND 7) \<noteq> ''esp''
            \<or> (case encoding of None \<Rightarrow> False
               | Some e \<Rightarrow> en_sib_at e = Some (fst field) \<and> snd field = 0)))"

fun all_fields :: "('a \<Rightarrow> bool result) \<Rightarrow> 'a list \<Rightarrow> bool result" where
  "all_fields f [] = Inr True"
| "all_fields f (x # xs) = rbind (f x) (\<lambda>ok. if ok then all_fields f xs else Inr False)"

definition ia32_esp_used_only_as_a_base :: "bytes \<Rightarrow> bijection_instruction \<Rightarrow> bool result" where
  "ia32_esp_used_only_as_a_base body i =
     rbind (ia32_esp_relative_displacement body i) (\<lambda>found.
       case found of
         Esp_Displacement at width value \<Rightarrow> all_fields (esp_field_ok body (bi_encoding i)) (bi_fields i)
       | _ \<Rightarrow> Inr False)"

text \<open>\<^verbatim>\<open>position = {source: index for index, source in enumerate(order)}\<close>.\<close>

definition order_position :: "int list \<Rightarrow> int \<Rightarrow> int option" where
  "order_position order = map_of (rev (map (\<lambda>(index, source). (source, index)) (enumerate_int order)))"

definition position_of :: "int list \<Rightarrow> int \<Rightarrow> int result" where
  "position_of order k = (case order_position order k of None \<Rightarrow> Inl KeyError | Some p \<Rightarrow> Inr p)"

text \<open>The stack updates of a window, as source index and delta.\<close>

definition schedule_updates ::
    "bytes \<Rightarrow> bijection_instruction list \<Rightarrow> bool \<Rightarrow> (int \<times> int) list" where
  "schedule_updates body inside private_stack_object =
     concat (map (\<lambda>(index, i).
       case ia32_schedule_stack_delta body i of
         None \<Rightarrow> []
       | Some delta \<Rightarrow>
           if private_stack_object \<or> bi_opcode i \<in> set register_push_opcodes
           then [(index, delta)] else []) (enumerate_int inside))"

definition source_delta :: "(int \<times> int) list \<Rightarrow> int \<Rightarrow> int" where
  "source_delta updates index = sum_list (map snd (filter (\<lambda>(update, delta). update < index) updates))"

definition target_delta :: "(int \<times> int) list \<Rightarrow> int list \<Rightarrow> int \<Rightarrow> int result" where
  "target_delta updates order index =
     rbind (rmap (\<lambda>(update, delta).
              rbind (position_of order update) (\<lambda>p.
              rbind (position_of order index) (\<lambda>q. Inr (if p < q then delta else 0)))) updates)
       (\<lambda>deltas. Inr (sum_list deltas))"

text \<open>A stack-adjustment row: source index, byte offset, old value, new value.\<close>

definition adjustment_step ::
    "bytes \<Rightarrow> (int \<times> int) list \<Rightarrow> int list \<Rightarrow> (int \<times> int \<times> int \<times> int) list \<Rightarrow>
     int \<times> bijection_instruction \<Rightarrow> (int \<times> int \<times> int \<times> int) list result" where
  "adjustment_step body updates order rows indexed =
     (case indexed of (index, i) \<Rightarrow>
       rbind (ia32_esp_relative_displacement body i) (\<lambda>found.
         if found = No_Esp then Inr rows
         else rbind (target_delta updates order index) (\<lambda>target.
           let delta = source_delta updates index - target
           in if delta = 0 then Inr rows
              else case found of
                     Esp_Displacement at width value \<Rightarrow>
                       require (- (2 ^ nat (8 * width - 1)) \<le> value + delta
                                \<and> value + delta \<le> 2 ^ nat (8 * width - 1) - 1)
                         ''adjusting the ESP displacement would overflow its field''
                         (Inr (rows @ [(index, at, value, value + delta)]))
                   | _ \<Rightarrow> Inl (ByteIdentityError
                            ''the instruction has an ESP base with no displacement byte''))))"

definition ia32_schedule_stack_adjustments ::
    "bytes \<Rightarrow> bijection_instruction list \<Rightarrow> int list \<Rightarrow> bool \<Rightarrow>
     (int \<times> int \<times> int \<times> int) list result" where
  "ia32_schedule_stack_adjustments body inside order private_stack_object =
     (let updates = schedule_updates body inside private_stack_object
      in if updates = [] then Inr []
         else rbind (rfold (adjustment_step body updates order) [] (enumerate_int inside))
                (\<lambda>rows. Inr (sort_key fst rows)))"

section \<open>Facts of one instruction\<close>

record schedule_fact =
  sf_offset :: int
  sf_length :: int
  sf_opcode :: int
  sf_reads :: "string set"
  sf_writes :: "string set"
  sf_reads_flags :: bool
  sf_writes_flags :: bool
  sf_memory :: "memory_operand option"

definition push_memory :: memory_operand where
  "push_memory = \<lparr>mo_base = Some ''esp'', mo_index = None, mo_scale = 1, mo_displacement = - 4,
     mo_absolute = False, mo_width = 4, mo_read = False, mo_write = True, mo_unknown = False\<rparr>"

definition require_closed_operand :: "memory_operand \<Rightarrow> 'a result \<Rightarrow> 'a result" where
  "require_closed_operand m k =
     require (\<not> mo_unknown m) ''a repeated string operation has an unknown memory extent''
      (require (\<not> mo_absolute m) ''an absolute memory operand cannot be disambiguated''
        (require (mo_index m = None) ''an indexed memory operand cannot be disambiguated''
          (require (mo_base m \<noteq> None) ''a memory operand without a base register cannot be disambiguated'' k)))"

definition ia32_schedule_instruction_facts :: "bijection_instruction \<Rightarrow> schedule_fact result" where
  "ia32_schedule_instruction_facts i =
     (case map_of schedule_flag_effects (bi_opcode i) of
        None \<Rightarrow> Inl (ByteIdentityError ''opcode is outside the instruction-schedule table'')
      | Some (reads_flags, writes_flags) \<Rightarrow>
          require (bi_flow i = ''fall'')
            ''a control-transfer instruction is outside the instruction-schedule table''
           (rbind (if bi_opcode i \<in> set stack_push_opcodes
                   then require (bi_memory i = None)
                          ''a register push also reports an explicit memory operand''
                          (Inr (Some push_memory))
                   else Inr (bi_memory i)) (\<lambda>mem.
            let fact = \<lparr>sf_offset = bi_offset i, sf_length = bi_length i, sf_opcode = bi_opcode i,
                        sf_reads = bi_reads i, sf_writes = bi_writes i,
                        sf_reads_flags = reads_flags, sf_writes_flags = writes_flags,
                        sf_memory = mem\<rparr>
            in case mem of None \<Rightarrow> Inr fact | Some m \<Rightarrow> require_closed_operand m (Inr fact))))"

definition ia32_memory_provably_disjoint :: "memory_operand \<Rightarrow> memory_operand \<Rightarrow> bool" where
  "ia32_memory_provably_disjoint l r =
     (if mo_absolute l \<or> mo_absolute r then False
      else if mo_index l \<noteq> None \<or> mo_index r \<noteq> None then False
      else if mo_base l = None \<or> mo_base l \<noteq> mo_base r then False
      else mo_displacement l + mo_width l \<le> mo_displacement r
           \<or> mo_displacement r + mo_width r \<le> mo_displacement l)"

fun segment_override_scan :: "bytes \<Rightarrow> bool" where
  "segment_override_scan [] = False"
| "segment_override_scan (b # bs) =
     (if byte_int b \<in> {38, 46, 54, 62, 100, 101} then True
      else if byte_int b = 102 then segment_override_scan bs else False)"

definition ia32_schedule_has_segment_override :: "bytes \<Rightarrow> bijection_instruction \<Rightarrow> bool" where
  "ia32_schedule_has_segment_override body i = segment_override_scan (instruction_bytes body i)"

section \<open>The dependence graph of a window\<close>

type_synonym dependence_edge = "int \<times> int \<times> string list"

definition esp_compensation ::
    "bytes option \<Rightarrow> bool \<Rightarrow> int set option \<Rightarrow> int \<times> bijection_instruction \<Rightarrow> bool result" where
  "esp_compensation body stack_adjusted adjusted_instructions indexed =
     (case body of
        None \<Rightarrow> Inr False
      | Some img \<Rightarrow>
          if \<not> stack_adjusted then Inr False
          else rbind (ia32_esp_used_only_as_a_base img (snd indexed)) (\<lambda>only_base.
                 Inr (only_base \<and> (case adjusted_instructions of None \<Rightarrow> True
                                   | Some adjusted \<Rightarrow> fst indexed \<in> adjusted))))"

definition is_stack_operation :: "bytes option \<Rightarrow> bool \<Rightarrow> bijection_instruction \<Rightarrow> bool" where
  "is_stack_operation body private_stack_object i =
     (case body of
        None \<Rightarrow> False
      | Some img \<Rightarrow>
          (private_stack_object \<or> bi_opcode i \<in> set register_push_opcodes)
          \<and> ia32_schedule_stack_delta img i \<noteq> None)"

definition register_reasons :: "string set \<Rightarrow> schedule_fact \<Rightarrow> schedule_fact \<Rightarrow> string list" where
  "register_reasons discharged f g =
     (let first_reads = sf_reads f - discharged; first_writes = sf_writes f - discharged;
          second_reads = sf_reads g - discharged; second_writes = sf_writes g - discharged
      in (if first_writes \<inter> second_reads \<noteq> {} then [''register_raw''] else [])
         @ (if first_reads \<inter> second_writes \<noteq> {} then [''register_war''] else [])
         @ (if first_writes \<inter> second_writes \<noteq> {} then [''register_waw''] else []))"

definition flag_reasons :: "schedule_fact \<Rightarrow> schedule_fact \<Rightarrow> string list" where
  "flag_reasons f g =
     (if sf_writes_flags f \<and> sf_reads_flags g then [''flags_raw''] else [])
     @ (if sf_reads_flags f \<and> sf_writes_flags g then [''flags_war''] else [])
     @ (if sf_writes_flags f \<and> sf_writes_flags g then [''flags_waw''] else [])"

definition depth_opcodes :: "bool \<Rightarrow> int list" where
  "depth_opcodes private_stack_object =
     (if private_stack_object then stack_push_opcodes else register_push_opcodes)"

text \<open>An operand in the stack space of the window entry.\<close>

definition canonical_operand :: "bool \<Rightarrow> schedule_fact list \<Rightarrow> memory_operand \<Rightarrow> nat \<Rightarrow> memory_operand" where
  "canonical_operand private_stack_object facts m index =
     m\<lparr>mo_displacement := mo_displacement m - 4 * int (length
         (filter (\<lambda>f. sf_opcode f \<in> set (depth_opcodes private_stack_object)) (take index facts)))\<rparr>"

definition canonical_disjoint ::
    "bool \<Rightarrow> bool \<Rightarrow> schedule_fact list \<Rightarrow> nat \<Rightarrow> nat \<Rightarrow> memory_operand \<Rightarrow> memory_operand \<Rightarrow> bool" where
  "canonical_disjoint private_stack_object adjusted_body facts l r one two =
     (adjusted_body \<and> mo_base one = Some ''esp'' \<and> mo_base two = Some ''esp''
      \<and> list_all (\<lambda>f. sf_opcode f \<in> set (depth_opcodes private_stack_object) \<or> ''esp'' \<notin> sf_writes f) facts
      \<and> ia32_memory_provably_disjoint (canonical_operand private_stack_object facts one l)
          (canonical_operand private_stack_object facts two r))"

definition window_written :: "schedule_fact list \<Rightarrow> string set" where
  "window_written facts = \<Union> (set (map sf_writes facts))"

definition base_written :: "schedule_fact list \<Rightarrow> memory_operand \<Rightarrow> bool" where
  "base_written facts m = (case mo_base m of None \<Rightarrow> False | Some b \<Rightarrow> b \<in> window_written facts)"

definition memory_reasons :: "bool \<Rightarrow> bool \<Rightarrow> schedule_fact list \<Rightarrow> nat \<Rightarrow> nat \<Rightarrow> string list" where
  "memory_reasons private_stack_object adjusted_body facts l r =
     (case (sf_memory (facts ! l), sf_memory (facts ! r)) of
        (Some one, Some two) \<Rightarrow>
          if (mo_write one \<or> mo_write two)
             \<and> \<not> canonical_disjoint private_stack_object adjusted_body facts l r one two
             \<and> (base_written facts one \<or> base_written facts two
                \<or> \<not> ia32_memory_provably_disjoint one two)
          then [''memory''] else []
      | _ \<Rightarrow> [])"

definition pair_reasons ::
    "bool \<Rightarrow> bool \<Rightarrow> schedule_fact list \<Rightarrow> bool list \<Rightarrow> bool list \<Rightarrow> nat \<Rightarrow> nat \<Rightarrow> string list" where
  "pair_reasons private_stack_object adjusted_body facts compensated stack_ops l r =
     (let discharged = (if stack_ops ! l \<and> compensated ! r \<or> stack_ops ! r \<and> compensated ! l
                        then {''esp''} else {})
      in register_reasons discharged (facts ! l) (facts ! r) @ flag_reasons (facts ! l) (facts ! r)
         @ memory_reasons private_stack_object adjusted_body facts l r)"

definition window_edges ::
    "bool \<Rightarrow> bool \<Rightarrow> schedule_fact list \<Rightarrow> bool list \<Rightarrow> bool list \<Rightarrow> dependence_edge list" where
  "window_edges private_stack_object adjusted_body facts compensated stack_ops =
     concat (map (\<lambda>l. concat (map (\<lambda>r.
         let reasons = pair_reasons private_stack_object adjusted_body facts compensated stack_ops l r
         in if reasons = [] then [] else [(int l, int r, sort_by str_less_eq reasons)])
       [Suc l..<length facts])) [0..<length facts])"

text \<open>An ESP displacement below ESP, where a push of the window writes.\<close>

definition require_above_esp :: "bytes \<Rightarrow> unit \<Rightarrow> bijection_instruction \<Rightarrow> unit result" where
  "require_above_esp body u i =
     rbind (ia32_esp_relative_displacement body i) (\<lambda>found.
       case found of
         Esp_Displacement at width value \<Rightarrow>
           require (0 \<le> value) ''the ESP displacement is below ESP, where a push in this window writes'' (Inr ())
       | _ \<Rightarrow> Inr ())"

definition esp_operand_beside_push :: "schedule_fact list \<Rightarrow> bool" where
  "esp_operand_beside_push facts =
     list_ex (\<lambda>f. sf_opcode f \<notin> set stack_push_opcodes
       \<and> (case sf_memory f of None \<Rightarrow> False | Some m \<Rightarrow> mo_base m = Some ''esp'')) facts"

definition require_push_window ::
    "bijection_instruction list \<Rightarrow> schedule_fact list \<Rightarrow> bytes option \<Rightarrow> bool \<Rightarrow> unit result" where
  "require_push_window insns facts body stack_adjusted =
     (if list_ex (\<lambda>f. sf_opcode f \<in> set stack_push_opcodes) facts
      then require (\<not> esp_operand_beside_push facts \<or> stack_adjusted)
             ''a push shares the window with an esp-relative memory operand''
            (if stack_adjusted
             then (case body of
                     None \<Rightarrow> Inl (ByteIdentityError ''a stack-adjusted window needs its body'')
                   | Some img \<Rightarrow> rfold (require_above_esp img) () insns)
             else Inr ())
      else Inr ())"

definition ia32_schedule_dependence_edges ::
    "bijection_instruction list \<Rightarrow> bytes option \<Rightarrow> bool \<Rightarrow> bool \<Rightarrow> int set option \<Rightarrow>
     (schedule_fact list \<times> dependence_edge list) result" where
  "ia32_schedule_dependence_edges insns body stack_adjusted private_stack_object adjusted_instructions =
     rbind (rmap ia32_schedule_instruction_facts insns) (\<lambda>facts.
     require (case body of None \<Rightarrow> True
              | Some img \<Rightarrow> \<not> list_ex (\<lambda>i. bi_memory i \<noteq> None
                                \<and> ia32_schedule_has_segment_override img i) insns)
       ''an explicit memory instruction has a segment override'' (
     rbind (require_push_window insns facts body stack_adjusted) (\<lambda>_.
     rbind (rmap (esp_compensation body stack_adjusted adjusted_instructions) (enumerate_int insns))
       (\<lambda>compensated.
     require (\<not> stack_adjusted \<or> body \<noteq> None) ''a stack-adjusted window needs its body'' (
       Inr (facts, window_edges private_stack_object (stack_adjusted \<and> body \<noteq> None) facts compensated
              (map (is_stack_operation body private_stack_object) insns)))))))"

section \<open>The stack frontier\<close>

definition stack_frontier_theorem :: string where
  "stack_frontier_theorem = ''msvc-4.20-win32-register-push-stack-frontier-v1''"

definition private_stack_object_theorem :: string where
  "private_stack_object_theorem = ''msvc-4.20-win32-private-stack-object-frontier-v1''"

text \<open>
  The compiler identity a theorem is scoped to: the digest of the toolchain lock it was
  issued from.  Its target is a constant of the class.
\<close>

record msvc420_compiler_identity =
  toolchain_lock_digest :: string

definition msvc420_win32_i386_target :: string where
  "msvc420_win32_i386_target = ''msvc-4.20-win32-i386''"

definition identity_target :: "msvc420_compiler_identity \<Rightarrow> string" where
  "identity_target identity = msvc420_win32_i386_target"

definition canonical_identity :: "msvc420_compiler_identity option \<Rightarrow> bool" where
  "canonical_identity identity =
     (case identity of None \<Rightarrow> False | Some i \<Rightarrow> identity_target i = msvc420_win32_i386_target)"

definition frontier_step ::
    "bytes \<Rightarrow> bool \<Rightarrow> unit \<Rightarrow> bijection_instruction \<times> schedule_fact \<Rightarrow> unit result" where
  "frontier_step img stack_adjusted u pair =
     (case pair of (i, row) \<Rightarrow>
       if sf_opcode row \<in> set stack_push_opcodes
       then require (bi_length i = 1 \<and> 0 \<le> bi_offset i \<and> bi_offset i < len img
                     \<and> byte_at img (bi_offset i) = Inr (sf_opcode row))
              ''the stack-frontier theorem only admits an unprefixed 32-bit register PUSH'' (Inr ())
       else require (''esp'' \<notin> sf_writes row)
              ''a non-PUSH instruction changes ESP inside a stack-frontier window''
             (if ''esp'' \<notin> sf_reads row then Inr ()
              else rbind (ia32_esp_used_only_as_a_base img i) (\<lambda>direct.
                if direct
                then rbind (ia32_esp_relative_displacement img i) (\<lambda>found.
                  require stack_adjusted
                    ''the ESP-derived address has no exact stack-adjustment declaration''
                   (require (case found of Esp_Displacement at width value \<Rightarrow> 0 \<le> value | _ \<Rightarrow> False)
                      ''the ESP-derived address is not a nonnegative directly encoded displacement''
                      (Inr ())))
                else require (sf_memory row = None)
                  ''an explicit memory instruction uses ESP as more than its directly adjusted base''
                  (Inr ()))))"

definition require_ia32_schedule_stack_frontier ::
    "string \<Rightarrow> bijection_instruction list \<Rightarrow> schedule_fact list \<Rightarrow> bytes option \<Rightarrow> bool \<Rightarrow> unit result" where
  "require_ia32_schedule_stack_frontier theorem_marker insns facts body stack_adjusted =
     require (theorem_marker = stack_frontier_theorem) ''stack-frontier theorem differs''
      (case body of
         None \<Rightarrow> Inl (ByteIdentityError ''the stack-frontier theorem needs its body'')
       | Some img \<Rightarrow>
           require (list_ex (\<lambda>f. sf_opcode f \<in> set stack_push_opcodes) facts)
             ''the stack-frontier theorem names no register PUSH''
            (rbind (rfold (frontier_step img stack_adjusted) () (zip insns facts)) (\<lambda>_.
             raise_unless (length insns = length facts) (ValueError ''zip() argument lengths differ'')
               (Inr ()))))"

text \<open>One step of the taint walk over an order: the registers derived from ESP.\<close>

definition address_registers :: "memory_operand option \<Rightarrow> string set" where
  "address_registers mem =
     (case mem of None \<Rightarrow> {}
      | Some m \<Rightarrow> set_option (mo_base m) \<union> set_option (mo_index m))"

definition taint_step :: "schedule_fact list \<Rightarrow> string set \<Rightarrow> int \<Rightarrow> string set result" where
  "taint_step facts tainted position =
     rbind (item facts position) (\<lambda>fact.
       let mem = (if sf_opcode fact \<in> set stack_push_opcodes then None else sf_memory fact);
           addresses = address_registers mem;
           written = sf_writes fact - {''esp''};
           reads_tainted_value = ((sf_reads fact \<inter> tainted) - addresses \<noteq> {})
       in require ((addresses \<inter> tainted) - {''esp''} = {})
            ''an ESP-derived register becomes an explicit memory address''
            (Inr ((tainted - written) \<union> (if reads_tainted_value then written else {}))))"

definition require_ia32_schedule_stack_frontier_taint ::
    "schedule_fact list \<Rightarrow> int list \<Rightarrow> unit result" where
  "require_ia32_schedule_stack_frontier_taint facts order =
     rbind (rfold (taint_step facts) {''esp''} order) (\<lambda>_. Inr ())"

definition ia32_schedule_stack_frontier_pair ::
    "schedule_fact list \<Rightarrow> int \<Rightarrow> int \<Rightarrow> (int \<times> int) option result" where
  "ia32_schedule_stack_frontier_pair facts l r =
     rbind (item facts l) (\<lambda>f. rbind (item facts r) (\<lambda>g.
       let left_push = (sf_opcode f \<in> set stack_push_opcodes);
           right_push = (sf_opcode g \<in> set stack_push_opcodes)
       in if left_push = right_push then Inr None
          else let (push, explicit, other) = (if left_push then (l, r, g) else (r, l, f))
               in Inr (case sf_memory other of
                         None \<Rightarrow> None
                       | Some m \<Rightarrow> if mo_base m \<noteq> Some ''esp'' then Some (push, explicit) else None)))"

text \<open>A memory dependence the theorem discharges: the source pair, the push and the explicit access.\<close>

record discharged_pair =
  dp_left :: int
  dp_right :: int
  dp_stack :: int
  dp_stack_offset :: int
  dp_object :: int
  dp_object_offset :: int
  dp_memory :: "memory_operand option"
  dp_crosses :: bool

definition order_crosses :: "int list \<Rightarrow> int \<Rightarrow> int \<Rightarrow> bool result" where
  "order_crosses order l r =
     rbind (position_of order l) (\<lambda>p. rbind (position_of order r) (\<lambda>q.
       Inr ((l < r) \<noteq> (p < q))))"

definition retain_edge :: "dependence_edge list \<Rightarrow> int \<Rightarrow> int \<Rightarrow> string list \<Rightarrow> dependence_edge list" where
  "retain_edge projected l r strict_reasons =
     (let reasons = filter (\<lambda>reason. reason \<noteq> ''memory'') strict_reasons
      in if reasons = [] then projected else projected @ [(l, r, reasons)])"

definition frontier_project ::
    "schedule_fact list \<Rightarrow> int list \<Rightarrow> dependence_edge list \<times> discharged_pair list \<Rightarrow> dependence_edge \<Rightarrow>
     (dependence_edge list \<times> discharged_pair list) result" where
  "frontier_project facts order s edge =
     (case (s, edge) of ((projected, discharged), (l, r, strict_reasons)) \<Rightarrow>
       rbind (order_crosses order l r) (\<lambda>crossed.
       rbind (ia32_schedule_stack_frontier_pair facts l r) (\<lambda>push_pair.
         case push_pair of
           None \<Rightarrow> Inr (projected @ [(l, r, strict_reasons)], discharged)
         | Some (push, explicit) \<Rightarrow>
             if \<not> crossed \<or> ''memory'' \<notin> set strict_reasons
             then Inr (projected @ [(l, r, strict_reasons)], discharged)
             else rbind (item facts push) (\<lambda>f. rbind (item facts explicit) (\<lambda>g.
               Inr (retain_edge projected l r strict_reasons,
                    discharged @ [\<lparr>dp_left = l, dp_right = r, dp_stack = push,
                      dp_stack_offset = sf_offset f, dp_object = explicit,
                      dp_object_offset = sf_offset g, dp_memory = sf_memory g,
                      dp_crosses = crossed\<rparr>]))))))"

definition ia32_schedule_stack_frontier_projection ::
    "bijection_instruction list \<Rightarrow> schedule_fact list \<Rightarrow> dependence_edge list \<Rightarrow> int list \<Rightarrow> string \<Rightarrow>
     bytes option \<Rightarrow> msvc420_compiler_identity option \<Rightarrow> bool \<Rightarrow>
     (dependence_edge list \<times> discharged_pair list) result" where
  "ia32_schedule_stack_frontier_projection insns facts strict_edges order theorem_marker body identity
     stack_adjusted =
     require (canonical_identity identity)
       ''the stack-frontier theorem requires canonical MSVC 4.20 Win32 i386 compiler evidence'' (
     rbind (require_ia32_schedule_stack_frontier theorem_marker insns facts body stack_adjusted) (\<lambda>_.
     rbind (require_ia32_schedule_stack_frontier_taint facts (pyrange 0 (len facts))) (\<lambda>_.
     rbind (require_ia32_schedule_stack_frontier_taint facts order) (\<lambda>_.
     rbind (rfold (frontier_project facts order) ([], []) strict_edges) (\<lambda>(projected, discharged).
     require (discharged \<noteq> []) ''the stack-frontier theorem has no moved PUSH-memory crossing''
       (Inr (projected, discharged)))))))"

section \<open>The private stack object\<close>

definition require_known_update ::
    "bytes \<Rightarrow> unit \<Rightarrow> bijection_instruction \<times> schedule_fact \<Rightarrow> unit result" where
  "require_known_update body u pair =
     (case pair of (i, row) \<Rightarrow>
       require (bi_flow i = ''fall'') ''the private-stack/object window contains a control transfer''
        (if ''esp'' \<in> sf_writes row
         then require (ia32_schedule_stack_delta body i \<noteq> None)
                ''the private-stack/object window has an unknown ESP update'' (Inr ())
         else Inr ()))"

definition esp_based :: "memory_operand option \<Rightarrow> bool" where
  "esp_based mem = (case mem of None \<Rightarrow> False | Some m \<Rightarrow> mo_base m = Some ''esp'')"

definition stack_object_pair :: "memory_operand option \<Rightarrow> memory_operand option \<Rightarrow> bool" where
  "stack_object_pair one two = (one \<noteq> None \<and> two \<noteq> None \<and> esp_based one \<noteq> esp_based two)"

definition closed_object :: "memory_operand option \<Rightarrow> bool" where
  "closed_object mem =
     (case mem of None \<Rightarrow> False
      | Some m \<Rightarrow> mo_base m \<noteq> None \<and> mo_base m \<noteq> Some ''esp'' \<and> mo_index m = None \<and> \<not> mo_absolute m)"

definition private_project ::
    "schedule_fact list \<Rightarrow> int list \<Rightarrow> dependence_edge list \<times> discharged_pair list \<Rightarrow> dependence_edge \<Rightarrow>
     (dependence_edge list \<times> discharged_pair list) result" where
  "private_project facts order s edge =
     (case (s, edge) of ((projected, discharged), (l, r, strict_reasons)) \<Rightarrow>
       rbind (order_crosses order l r) (\<lambda>crossed.
       rbind (item facts l) (\<lambda>f. rbind (item facts r) (\<lambda>g.
         if \<not> crossed \<or> \<not> stack_object_pair (sf_memory f) (sf_memory g) \<or> ''memory'' \<notin> set strict_reasons
         then Inr (projected @ [(l, r, strict_reasons)], discharged)
         else let (stack, sf, object, og) =
                (if esp_based (sf_memory f) then (l, f, r, g) else (r, g, l, f))
           in require (closed_object (sf_memory og)) ''a projected object operand has no closed base''
                (Inr (retain_edge projected l r strict_reasons,
                      discharged @ [\<lparr>dp_left = l, dp_right = r, dp_stack = stack,
                        dp_stack_offset = sf_offset sf, dp_object = object,
                        dp_object_offset = sf_offset og, dp_memory = None,
                        dp_crosses = True\<rparr>]))))))"

text \<open>One stack dependence an adjustment rebases.\<close>

record stack_rebase =
  sr_left :: int
  sr_right :: int
  sr_reason :: string
  sr_stack :: int
  sr_operand :: int
  sr_delta :: int
  sr_adjustment :: "int \<times> int \<times> int \<times> int"

definition rebase_step ::
    "bytes \<Rightarrow> int list \<Rightarrow> int \<times> int \<times> int \<times> int \<Rightarrow> int \<times> stack_rebase list \<Rightarrow>
     int \<times> bijection_instruction \<Rightarrow> (int \<times> stack_rebase list) result" where
  "rebase_step body order adjustment s indexed =
     (case (s, indexed) of ((contribution, rebases), (stack, i)) \<Rightarrow>
       let operand = fst adjustment in
       case ia32_schedule_stack_delta body i of
         None \<Rightarrow> Inr s
       | Some delta \<Rightarrow>
           if stack = operand then Inr s
           else rbind (order_crosses order stack operand) (\<lambda>crossed.
             if \<not> crossed then Inr s
             else Inr (contribution + (if stack < operand then delta else - delta),
                       rebases @ [\<lparr>sr_left = min stack operand, sr_right = max stack operand,
                         sr_reason = (if stack < operand then ''register_raw'' else ''register_war''),
                         sr_stack = stack, sr_operand = operand, sr_delta = delta,
                         sr_adjustment = adjustment\<rparr>])))"

definition rebase_adjustment ::
    "bytes \<Rightarrow> bijection_instruction list \<Rightarrow> int list \<Rightarrow> stack_rebase list \<Rightarrow>
     int \<times> int \<times> int \<times> int \<Rightarrow> stack_rebase list result" where
  "rebase_adjustment body insns order rebases adjustment =
     (case adjustment of (operand, at, old_value, new_value) \<Rightarrow>
       rbind (rfold (rebase_step body order adjustment) (0, rebases) (enumerate_int insns))
         (\<lambda>(contribution, rebases).
           require (contribution = new_value - old_value)
             ''exact stack dependency crossings do not derive the displacement rebase'' (Inr rebases)))"

definition ia32_schedule_private_stack_object_projection ::
    "bijection_instruction list \<Rightarrow> schedule_fact list \<Rightarrow> dependence_edge list \<Rightarrow> int list \<Rightarrow> string \<Rightarrow>
     bytes \<Rightarrow> msvc420_compiler_identity option \<Rightarrow> (int \<times> int \<times> int \<times> int) list \<Rightarrow>
     (dependence_edge list \<times> discharged_pair list \<times> stack_rebase list) result" where
  "ia32_schedule_private_stack_object_projection insns facts strict_edges order theorem_marker body
     identity stack_adjustments =
     require (theorem_marker = private_stack_object_theorem) ''private-stack/object theorem differs'' (
     require (canonical_identity identity)
       ''the private-stack/object theorem requires canonical MSVC 4.20 Win32 i386 compiler evidence'' (
     rbind (rfold (require_known_update body) () (zip insns facts)) (\<lambda>_.
     raise_unless (length insns = length facts) (ValueError ''zip() argument lengths differ'') (
     rbind (rfold (private_project facts order) ([], []) strict_edges) (\<lambda>(projected, discharged).
     require (discharged \<noteq> [])
       ''the private-stack/object theorem discharges no moved memory crossing'' (
     rbind (rfold (rebase_adjustment body insns order) [] stack_adjustments) (\<lambda>rebases.
       Inr (projected, discharged, rebases))))))))"

section \<open>Topological orders\<close>

definition require_forward_edge :: "int list \<Rightarrow> unit \<Rightarrow> dependence_edge \<Rightarrow> unit result" where
  "require_forward_edge order u edge =
     (case edge of (l, r, reasons) \<Rightarrow>
       rbind (position_of order l) (\<lambda>p. rbind (position_of order r) (\<lambda>q.
         require (p < q) ''the target order moves an instruction before one it depends on'' (Inr ()))))"

definition require_topological_instruction_order ::
    "int \<Rightarrow> dependence_edge list \<Rightarrow> int list \<Rightarrow> unit result" where
  "require_topological_instruction_order count edges order =
     require (sort order = pyrange 0 count) ''the target order is not a permutation of the window''
      (rbind (rfold (require_forward_edge order) () edges) (\<lambda>_.
       require (order \<noteq> pyrange 0 count) ''the declared order does not reorder the window'' (Inr ())))"

section \<open>Rebased displacements\<close>

lemma order_position_index:
  "order_position order k = Some p \<Longrightarrow> 0 \<le> p \<and> p < len order \<and> order ! nat p = k"
  unfolding order_position_def
  by (drule map_of_SomeD) (auto simp: enumerate_int_def pyrange_nat set_zip)

lemma order_position_nth:
  assumes "distinct order" "p < length order"
  shows "order_position order (order ! p) = Some (int p)"
proof -
  let ?pairs = "map (\<lambda>(index, source). (source, index)) (enumerate_int order)"
  have nth: "?pairs ! k = (order ! k, int k)" "k < length ?pairs" if "k < length order" for k
    using that by (simp_all add: enumerate_int_def pyrange_nat)
  have "map fst ?pairs = order"
    by (rule nth_equalityI) (use nth in \<open>auto simp: enumerate_int_def pyrange_nat\<close>)
  then have "distinct (map fst (rev ?pairs))"
    using assms(1) by (simp add: rev_map [symmetric])
  moreover have "(order ! p, int p) \<in> set (rev ?pairs)"
    using nth [OF assms(2)] nth_mem [of p ?pairs] by simp
  ultimately show ?thesis
    unfolding order_position_def by (rule map_of_is_SomeI)
qed

text \<open>What the loop appends for one instruction.\<close>

definition adjustment_row ::
    "bytes \<Rightarrow> (int \<times> int) list \<Rightarrow> int list \<Rightarrow> int \<times> bijection_instruction \<Rightarrow>
     int \<times> int \<times> int \<times> int \<Rightarrow> bool" where
  "adjustment_row body updates order indexed row =
     (case (indexed, row) of ((index, i), (k, at, old_value, new_value)) \<Rightarrow>
        \<exists>width target. ia32_esp_relative_displacement body i = Inr (Esp_Displacement at width old_value)
          \<and> target_delta updates order index = Inr target
          \<and> k = index \<and> new_value \<noteq> old_value
          \<and> new_value + target = old_value + source_delta updates index
          \<and> - (2 ^ nat (8 * width - 1)) \<le> new_value \<and> new_value < 2 ^ nat (8 * width - 1))"

lemma adjustment_step_cases:
  assumes "adjustment_step body updates order rows (index, i) = Inr rows'"
  obtains (none) "rows' = rows" "ia32_esp_relative_displacement body i = Inr No_Esp"
  | (same) "rows' = rows" "target_delta updates order index = Inr (source_delta updates index)"
  | (rebased) row where "rows' = rows @ [row]" "adjustment_row body updates order (index, i) row"
proof -
  obtain found where f: "ia32_esp_relative_displacement body i = Inr found"
    using assms by (auto simp: adjustment_step_def)
  show thesis
  proof (cases "found = No_Esp \<or> target_delta updates order index = Inr (source_delta updates index)")
    case True
    then have "rows' = rows"
      using assms f by (auto simp: adjustment_step_def Let_def split: if_splits)
    then show thesis
      using True f none same by blast
  next
    case False
    then obtain at width old_value target where
      e: "found = Esp_Displacement at width old_value"
      and t: "target_delta updates order index = Inr target" "target \<noteq> source_delta updates index"
      and r: "rows' = rows @ [(index, at, old_value, old_value + (source_delta updates index - target))]"
      and b: "- (2 ^ nat (8 * width - 1)) \<le> old_value + (source_delta updates index - target)"
        "old_value + (source_delta updates index - target) < 2 ^ nat (8 * width - 1)"
      using assms f by (cases found) (auto simp: adjustment_step_def Let_def split: if_splits)
    show thesis
      by (rule rebased [OF r]) (use e t b f in \<open>simp add: adjustment_row_def\<close>)
  qed
qed

text \<open>The instructions without a row keep their address as they are.\<close>

definition keeps_address :: "bytes \<Rightarrow> (int \<times> int) list \<Rightarrow> int list \<Rightarrow> int \<times> bijection_instruction \<Rightarrow> bool" where
  "keeps_address body updates order indexed \<longleftrightarrow>
     ia32_esp_relative_displacement body (snd indexed) = Inr No_Esp
     \<or> target_delta updates order (fst indexed) = Inr (source_delta updates (fst indexed))"

lemma adjustment_loop:
  assumes "rfold (adjustment_step body updates order) rows xs = Inr rows'" "distinct (map fst xs)"
  shows "\<exists>new. rows' = rows @ new \<and> fst ` set new \<subseteq> fst ` set xs \<and> distinct (map fst new)
    \<and> (\<forall>x \<in> set xs. keeps_address body updates order x \<and> fst x \<notin> fst ` set new
         \<or> (\<exists>row \<in> set new. fst row = fst x \<and> adjustment_row body updates order x row))"
  using assms
proof (induction xs arbitrary: rows)
  case Nil
  then show ?case by simp
next
  case (Cons x xs)
  obtain index i where x: "x = (index, i)" by (cases x)
  obtain rows1 where s1: "adjustment_step body updates order rows (index, i) = Inr rows1"
    and s2: "rfold (adjustment_step body updates order) rows1 xs = Inr rows'"
    using Cons.prems(1) by (auto simp: x)
  have d: "distinct (map fst xs)" "index \<notin> fst ` set xs"
    using Cons.prems(2) by (auto simp: x)
  obtain new where new: "rows' = rows1 @ new" "fst ` set new \<subseteq> fst ` set xs" "distinct (map fst new)"
    "\<forall>x \<in> set xs. keeps_address body updates order x \<and> fst x \<notin> fst ` set new
         \<or> (\<exists>row \<in> set new. fst row = fst x \<and> adjustment_row body updates order x row)"
    using Cons.IH [OF s2 d(1)] by blast
  have fresh: "index \<notin> fst ` set new" using d new by blast
  from s1 show ?case
  proof (cases rule: adjustment_step_cases)
    case none
    then show ?thesis
      using new fresh x by (intro exI [of _ new]) (auto simp: keeps_address_def)
  next
    case same
    then show ?thesis
      using new fresh x by (intro exI [of _ new]) (auto simp: keeps_address_def)
  next
    case (rebased row)
    have k: "fst row = index"
      using rebased(2) by (auto simp: adjustment_row_def split: prod.splits)
    have other: "fst y \<noteq> index" if "y \<in> set xs" for y
      using d(2) that by (metis image_eqI)
    show ?thesis
    proof (intro exI [of _ "row # new"] conjI ballI)
      show "rows' = rows @ row # new" using new(1) rebased(1) by simp
      show "fst ` set (row # new) \<subseteq> fst ` set (x # xs)" using new(2) k x by auto
      show "distinct (map fst (row # new))" using new(3) fresh k by auto
      fix y assume "y \<in> set (x # xs)"
      then consider "y = x" | "y \<in> set xs" by auto
      then show "keeps_address body updates order y \<and> fst y \<notin> fst ` set (row # new)
         \<or> (\<exists>row \<in> set (row # new). fst row = fst y \<and> adjustment_row body updates order y row)"
      proof cases
        case 1
        then show ?thesis using rebased(2) k x by auto
      next
        case 2
        then show ?thesis using new(4) other [OF 2] k by auto
      qed
    qed
  qed
qed

text \<open>The displacement an instruction has after the adjustments.\<close>

definition adjusted_value :: "(int \<times> int \<times> int \<times> int) list \<Rightarrow> int \<Rightarrow> int \<Rightarrow> int" where
  "adjusted_value rows index value =
     (case map_of rows index of None \<Rightarrow> value | Some (at, old_value, new_value) \<Rightarrow> new_value)"

lemma stack_adjustments_rows:
  assumes "ia32_schedule_stack_adjustments body inside order private = Inr rows"
  shows "distinct (map fst rows)"
    "k < length inside \<Longrightarrow>
      keeps_address body (schedule_updates body inside private) order (int k, inside ! k)
        \<and> int k \<notin> fst ` set rows
      \<or> (\<exists>row \<in> set rows. fst row = int k
           \<and> adjustment_row body (schedule_updates body inside private) order (int k, inside ! k) row)"
proof -
  let ?u = "schedule_updates body inside private"
  have e: "map fst (enumerate_int inside) = map int [0..<length inside]"
    by (simp add: enumerate_int_def pyrange_nat)
  have mem: "(int k, inside ! k) \<in> set (enumerate_int inside)" if "k < length inside" for k
    using that by (force simp: enumerate_int_def pyrange_nat set_zip)
  let ?P = "\<lambda>rs x. keeps_address body ?u order x \<and> fst x \<notin> fst ` set rs
      \<or> (\<exists>row \<in> set rs. fst row = fst x \<and> adjustment_row body ?u order x row)"
  have all: "distinct (map fst rows) \<and> (\<forall>x \<in> set (enumerate_int inside). ?P rows x)"
  proof (cases "?u = []")
    case True
    then show ?thesis
      using assms by (simp add: ia32_schedule_stack_adjustments_def keeps_address_def target_delta_def
          source_delta_def)
  next
    case False
    then obtain rows0 where r: "rfold (adjustment_step body ?u order) [] (enumerate_int inside) = Inr rows0"
      and rows: "rows = sort_key fst rows0"
      using assms by (auto simp: ia32_schedule_stack_adjustments_def Let_def)
    have "distinct (map fst (enumerate_int inside))"
      unfolding e by (simp add: distinct_map)
    from adjustment_loop [OF r this] have d: "distinct (map fst rows0)"
      and rest: "\<forall>x \<in> set (enumerate_int inside). ?P rows0 x"
      by auto
    have "distinct (map fst rows)"
      using d by (simp add: rows distinct_map)
    moreover have "set rows = set rows0"
      by (simp add: rows)
    ultimately show ?thesis
      using rest by simp
  qed
  then show "distinct (map fst rows)" by blast
  assume "k < length inside"
  then show "keeps_address body ?u order (int k, inside ! k) \<and> int k \<notin> fst ` set rows
      \<or> (\<exists>row \<in> set rows. fst row = int k \<and> adjustment_row body ?u order (int k, inside ! k) row)"
    using bspec [OF conjunct2 [OF all] mem] by simp
qed

lemma stack_adjustments_range:
  assumes "ia32_schedule_stack_adjustments body inside order private = Inr rows"
  shows "fst ` set rows \<subseteq> int ` {..<length inside}"
proof (cases "schedule_updates body inside private = []")
  case False
  then obtain rows0 where r: "rfold (adjustment_step body (schedule_updates body inside private) order) []
      (enumerate_int inside) = Inr rows0" and rows: "rows = sort_key fst rows0"
    using assms by (auto simp: ia32_schedule_stack_adjustments_def Let_def)
  have e: "map fst (enumerate_int inside) = map int [0..<length inside]"
    by (simp add: enumerate_int_def pyrange_nat)
  then have "fst ` set (enumerate_int inside) = int ` {..<length inside}"
    by (metis atLeast_upt set_map)
  then show ?thesis
    using adjustment_loop [OF r] e by (auto simp: rows distinct_map)
qed (use assms in \<open>simp add: ia32_schedule_stack_adjustments_def\<close>)

section \<open>ESP along an order\<close>

text \<open>
  The ESP change of an instruction, read off its bytes: a register push takes a slot; in a
  private window so does a push of a byte, and \<^verbatim>\<open>add esp, n\<close> with a positive multiple of the
  slot as a signed byte gives \<open>n\<close> back.
\<close>

definition esp_change :: "bool \<Rightarrow> bytes \<Rightarrow> int" where
  "esp_change private raw =
     (case map byte_int raw of
        [b] \<Rightarrow> if 0x50 \<le> b \<and> b \<le> 0x57 then - 4 else 0
      | [b, n] \<Rightarrow> if private \<and> b = 0x6A then - 4 else 0
      | [b, m, n] \<Rightarrow>
          if private \<and> b = 0x83 \<and> m = 0xC4 \<and> 0 < n \<and> n < 128 \<and> 4 dvd n then n else 0
      | _ \<Rightarrow> 0)"

text \<open>ESP when an order that starts with \<open>esp\<close> reaches instruction \<open>k\<close>.\<close>

primrec esp_reaching :: "(int \<Rightarrow> int) \<Rightarrow> int list \<Rightarrow> int \<Rightarrow> int \<Rightarrow> int" where
  "esp_reaching change [] k esp = esp"
| "esp_reaching change (j # order) k esp =
     (if j = k then esp else esp_reaching change order k (esp + change j))"

definition window_change :: "bytes \<Rightarrow> bijection_instruction list \<Rightarrow> bool \<Rightarrow> int \<Rightarrow> int" where
  "window_change body inside private j = esp_change private (instruction_bytes body (inside ! nat j))"

lemma unprefixed_opcode:
  assumes d: "decode_ia32_bijection_instruction body offset relocations = Inr i"
    and b: "instruction_bytes body i = b # rest" "byte_int b \<notin> set prefixes" "byte_int b \<noteq> 15"
  shows "bi_opcode i = byte_int b"
  using d
proof (rule decode_bijection_cases)
  fix count encoded prefixed size16 repeat opcode cursor form width ops mem encoding
    flow_override modrm ops' flow target
  assume e: "encoded = pslice body offset (offset + count)"
    and p: "bijection_prefixes encoded 0 False False None = Inr (prefixed, size16, repeat)"
    and o: "bijection_opcode encoded prefixed size16 repeat = Inr (opcode, cursor, form, width)"
    and i: "i = bijection_result offset count opcode form mem encoding flow_override
           (zeroing opcode form width modrm ops') flow target"
  have "encoded = b # rest" using b(1) by (simp add: e i bijection_result_def instruction_bytes_def)
  then show ?thesis
    using p o b(2,3) by (auto simp: i bijection_result_def bijection_opcode_def byte_at_def item_def Let_def)
qed

lemma stack_delta_shapes:
  "instruction_bytes body i = [] \<Longrightarrow> ia32_schedule_stack_delta body i = None"
  "instruction_bytes body i = [b] \<Longrightarrow> ia32_schedule_stack_delta body i =
     (if bi_opcode i \<in> set register_push_opcodes \<and> byte_int b = bi_opcode i then Some (- 4) else None)"
  "instruction_bytes body i = [b, c] \<Longrightarrow> ia32_schedule_stack_delta body i =
     (if bi_opcode i = 0x6A \<and> byte_int b = 0x6A then Some (- 4) else None)"
  "instruction_bytes body i = [b, m, n] \<Longrightarrow> ia32_schedule_stack_delta body i =
     (if b = 0x83 \<and> m = 0xC4 \<and> 0 < from_bytes_signed [n] \<and> from_bytes_signed [n] mod 4 = 0
      then Some (from_bytes_signed [n]) else None)"
  "instruction_bytes body i = b # m # n # x # rest \<Longrightarrow> ia32_schedule_stack_delta body i = None"
  by (simp_all add: ia32_schedule_stack_delta_def stack_slot_bytes_def Let_def
      pslice_def slice_bound_def slice_from_def)

lemma schedule_delta_change:
  assumes d: "decode_ia32_bijection_instruction body offset relocations = Inr i"
  shows "(case ia32_schedule_stack_delta body i of None \<Rightarrow> 0
     | Some delta \<Rightarrow> if private \<or> bi_opcode i \<in> set register_push_opcodes then delta else 0)
    = esp_change private (instruction_bytes body i)"
proof -
  let ?raw = "instruction_bytes body i"
  have push: "k \<in> set register_push_opcodes \<longleftrightarrow> 0x50 \<le> k \<and> k \<le> 0x57" for k
    by (auto simp: register_push_opcodes_def pyrange_def)
  have op: "bi_opcode i = byte_int b"
    if "?raw = b # rest" "0x50 \<le> byte_int b \<and> byte_int b \<le> 0x57 \<or> byte_int b = 0x6A \<or> byte_int b = 0x83" for b rest
    using unprefixed_opcode [OF d that(1)] that(2) by (auto simp: prefixes_def)
  consider "?raw = []" | b where "?raw = [b]" | b c where "?raw = [b, c]" | b m n where "?raw = [b, m, n]"
    | b m n x rest where "?raw = b # m # n # x # rest"
    by (metis list.exhaust)
  then show ?thesis
  proof cases
    case 1
    then show ?thesis by (simp add: stack_delta_shapes(1) esp_change_def)
  next
    case (2 b)
    have "byte_int b \<noteq> bi_opcode i \<Longrightarrow> \<not> (80 \<le> byte_int b \<and> byte_int b \<le> 87)" using op [OF 2] by auto
    then show ?thesis unfolding stack_delta_shapes(2) [OF 2] by (auto simp: 2 esp_change_def push)
  next
    case (3 b c)
    have "bi_opcode i \<noteq> 106 \<Longrightarrow> byte_int b \<noteq> 106" using op [OF 3] by auto
    then show ?thesis unfolding stack_delta_shapes(3) [OF 3] by (auto simp: 3 esp_change_def push)
  next
    case (4 b m n)
    have s: "from_bytes_signed [n] = (if byte_int n < 128 then byte_int n else byte_int n - 256)"
      by (simp add: from_bytes_signed_def Let_def)
    have w: "b = 131 \<longleftrightarrow> byte_int b = 131" "m = 196 \<longleftrightarrow> byte_int m = 196"
      by (simp_all add: word_uint_eq_iff)
    have o: "byte_int b = 131 \<Longrightarrow> bi_opcode i = 131" using op [OF 4] by auto
    have c: "0 < from_bytes_signed [n] \<and> from_bytes_signed [n] mod 4 = 0 \<longleftrightarrow> 0 < byte_int n \<and> byte_int n < 128 \<and> 4 dvd byte_int n"
      using byte_int_less [of n] by (cases "byte_int n < 128") (simp_all add: s mod_eq_0_iff_dvd del: byte_int_less)
    show ?thesis
    proof (cases "byte_int b = 131 \<and> byte_int m = 196 \<and> 0 < byte_int n \<and> byte_int n < 128 \<and> 4 dvd byte_int n")
      case True
      then have "ia32_schedule_stack_delta body i = Some (byte_int n)"
        using stack_delta_shapes(4) [OF 4] c w by (simp add: s)
      then show ?thesis using True o by (simp add: 4 esp_change_def push)
    next
      case False
      then have "ia32_schedule_stack_delta body i = None"
        using stack_delta_shapes(4) [OF 4] c w by simp
      then show ?thesis using False by (auto simp: 4 esp_change_def)
    qed
  next
    case 5
    then show ?thesis by (simp add: stack_delta_shapes(5) esp_change_def)
  qed
qed

text \<open>A sum over the updates is a sum over the window.\<close>

lemma sum_list_concat_map: "sum_list (map g (concat (map f xs))) = (\<Sum>x \<leftarrow> xs. sum_list (map g (f x)))"
  by (induction xs) simp_all

lemma sum_updates:
  assumes d: "\<forall>i \<in> set inside. \<exists>offset. decode_ia32_bijection_instruction body offset relocations = Inr i"
  shows "sum_list (map (\<lambda>(update, delta). if P update then delta else 0) (schedule_updates body inside private))
    = (\<Sum>j < length inside. if P (int j) then window_change body inside private (int j) else 0)"
proof -
  let ?f = "\<lambda>(index, i). case ia32_schedule_stack_delta body i of None \<Rightarrow> []
       | Some delta \<Rightarrow> if private \<or> bi_opcode i \<in> set register_push_opcodes then [(index, delta)] else []"
  let ?g = "\<lambda>(update, delta). if P update then delta else 0 :: int"
  have e: "enumerate_int inside = map (\<lambda>j. (int j, inside ! j)) [0..<length inside]"
    by (rule nth_equalityI) (simp_all add: enumerate_int_def pyrange_nat)
  have one: "sum_list (map ?g (?f (int j, inside ! j)))
      = (if P (int j) then window_change body inside private (int j) else 0)" if j: "j < length inside" for j
  proof -
    obtain offset where "decode_ia32_bijection_instruction body offset relocations = Inr (inside ! j)"
      using bspec [OF d nth_mem [OF j]] by blast
    from schedule_delta_change [OF this, of "private"] show ?thesis
      by (cases "ia32_schedule_stack_delta body (inside ! j)") (auto simp: window_change_def split: if_splits)
  qed
  have "sum_list (map ?g (schedule_updates body inside private))
      = sum_list (map (\<lambda>j. sum_list (map ?g (?f (int j, inside ! j)))) [0..<length inside])"
    unfolding schedule_updates_def e map_map sum_list_concat_map by (simp add: comp_def)
  also have "\<dots> = sum_list (map (\<lambda>j. if P (int j) then window_change body inside private (int j) else 0)
      [0..<length inside])"
    using one by (intro arg_cong [of _ _ sum_list] map_cong) auto
  also have "\<dots> = (\<Sum>j < length inside. if P (int j) then window_change body inside private (int j) else 0)"
    by (simp add: interv_sum_list_conv_sum_set_nat atLeast0LessThan)
  finally show ?thesis .
qed

lemma esp_reaching_sum:
  "distinct order \<Longrightarrow> esp_reaching change order k esp = esp + (\<Sum>j \<in> set (takeWhile (\<lambda>j. j \<noteq> k) order). change j)"
proof (induction order arbitrary: esp)
  case (Cons j order)
  have "j \<notin> set (takeWhile (\<lambda>j. j \<noteq> k) order)" using Cons.prems set_takeWhileD by fastforce
  then have "(\<Sum>i \<in> insert j (set (takeWhile (\<lambda>j. j \<noteq> k) order)). change i)
      = change j + (\<Sum>i \<in> set (takeWhile (\<lambda>j. j \<noteq> k) order). change i)"
    by (rule sum.insert [OF finite_set])
  moreover have "set (takeWhile (\<lambda>j. j \<noteq> k) (j # order))
      = (if j = k then {} else insert j (set (takeWhile (\<lambda>j. j \<noteq> k) order)))" by auto
  moreover have "esp_reaching change order k (esp + change j)
      = esp + change j + (\<Sum>i \<in> set (takeWhile (\<lambda>j. j \<noteq> k) order). change i)"
    using Cons by simp
  ultimately show ?case by (simp del: takeWhile.simps)
qed simp

lemma takeWhile_before:
  assumes d: "distinct order" and q: "q < length order"
  shows "set (takeWhile (\<lambda>j. j \<noteq> order ! q) order) = {order ! p | p. p < q}"
proof -
  have "takeWhile (\<lambda>j. j \<noteq> order ! q) order = take q order"
    using d q by (intro takeWhile_eq_take_P_nth) (auto simp: nth_eq_iff_index_eq)
  moreover have "set (take q order) = (!) order ` {..<q}"
    using q nth_image [of q order] by (simp add: lessThan_atLeast0)
  ultimately show ?thesis by auto
qed

lemma esp_reaching_source:
  assumes "k < length inside"
    and "\<forall>i \<in> set inside. \<exists>offset. decode_ia32_bijection_instruction body offset relocations = Inr i"
  shows "esp_reaching (window_change body inside private) (pyrange 0 (len inside)) (int k) esp
    = esp + source_delta (schedule_updates body inside private) (int k)"
proof -
  let ?c = "window_change body inside private" and ?n = "length inside"
  have d: "distinct (map int [0..<?n])" by (simp add: distinct_map)
  have "map int [0..<?n] ! p = int p" if "p < k" for p using assms(1) that by simp
  then have "{map int [0..<?n] ! p | p. p < k} = int ` {..<k}" by force
  then have "set (takeWhile (\<lambda>j. j \<noteq> int k) (map int [0..<?n])) = int ` {..<k}"
    using takeWhile_before [OF d, of k] assms(1) by simp
  then have "esp_reaching ?c (pyrange 0 (len inside)) (int k) esp = esp + (\<Sum>j < k. ?c (int j))"
    using esp_reaching_sum [OF d] by (simp add: pyrange_nat sum.reindex)
  also have "(\<Sum>j < k. ?c (int j)) = (\<Sum>j < ?n. if int j < int k then ?c (int j) else 0)"
    using assms(1) by (intro sum.mono_neutral_cong_left) auto
  also have "\<dots> = source_delta (schedule_updates body inside private) (int k)"
    unfolding source_delta_def sum_list_map_filter' using sum_updates [OF assms(2), of "\<lambda>u. u < int k" "private"]
    by (simp add: case_prod_unfold)
  finally show ?thesis .
qed

lemma stack_adjustments_deltas:
  assumes a: "ia32_schedule_stack_adjustments body inside order private = Inr rows"
    and k: "k < length inside"
    and d: "ia32_esp_relative_displacement body (inside ! k) = Inr found" "found \<noteq> No_Esp"
  shows "\<exists>target. target_delta (schedule_updates body inside private) order (int k) = Inr target
    \<and> (case found of
         Esp_Displacement at width value \<Rightarrow>
           adjusted_value rows (int k) value + target
             = value + source_delta (schedule_updates body inside private) (int k)
           \<and> (adjusted_value rows (int k) value \<noteq> value \<longrightarrow>
                - (2 ^ nat (8 * width - 1)) \<le> adjusted_value rows (int k) value
                \<and> adjusted_value rows (int k) value < 2 ^ nat (8 * width - 1))
       | _ \<Rightarrow> target = source_delta (schedule_updates body inside private) (int k))"
proof -
  let ?u = "schedule_updates body inside private"
  note rows = stack_adjustments_rows [OF a]
  from rows(2) [OF k] show ?thesis
  proof
    assume "keeps_address body ?u order (int k, inside ! k) \<and> int k \<notin> fst ` set rows"
    then have "target_delta ?u order (int k) = Inr (source_delta ?u (int k))"
      and "map_of rows (int k) = None"
      using d by (auto simp: keeps_address_def map_of_eq_None_iff)
    then show ?thesis
      by (simp add: adjusted_value_def split: esp_displacement.splits)
  next
    assume "\<exists>row \<in> set rows. fst row = int k
        \<and> adjustment_row body ?u order (int k, inside ! k) row"
    then obtain at old_value new_value where row: "(int k, at, old_value, new_value) \<in> set rows"
      and r: "adjustment_row body ?u order (int k, inside ! k) (int k, at, old_value, new_value)"
      by (metis prod.collapse)
    have "map_of rows (int k) = Some (at, old_value, new_value)"
      by (rule map_of_is_SomeI [OF rows(1) row])
    then show ?thesis
      using r d by (auto simp: adjusted_value_def adjustment_row_def)
  qed
qed

text \<open>Positions in a permutation of the window.\<close>

lemma permutation_position:
  assumes s: "sort order = pyrange 0 (int n)" and k: "k < n"
  shows "\<exists>q < n. order ! q = int k \<and> order_position order (int k) = Some (int q)"
    and "distinct order" and "length order = n"
proof -
  show d: "distinct order" by (metis s distinct_map distinct_sort distinct_upt inj_on_of_nat pyrange_nat)
  show l: "length order = n" by (metis s length_map length_sort length_upt minus_nat.diff_0 pyrange_nat)
  have "int k \<in> set (sort order)" unfolding s pyrange_nat using k by simp
  then obtain q where "q < n" "order ! q = int k" by (auto simp: in_set_conv_nth l)
  then show "\<exists>q < n. order ! q = int k \<and> order_position order (int k) = Some (int q)"
    using order_position_nth [OF d, of q] l by auto
qed

lemma target_delta_sum:
  assumes "target_delta updates order index = Inr target" "order_position order index = Some q"
  shows "target = sum_list (map (\<lambda>(update, delta).
    if (case order_position order update of None \<Rightarrow> False | Some p \<Rightarrow> p < q) then delta else 0) updates)"
proof -
  obtain deltas where r: "rmap (\<lambda>(update, delta). rbind (position_of order update) (\<lambda>p.
      rbind (position_of order index) (\<lambda>q. Inr (if p < q then delta else 0)))) updates = Inr deltas"
    and t: "target = sum_list deltas"
    using assms(1) by (auto simp: target_delta_def)
  have "deltas = map (\<lambda>(update, delta).
      if (case order_position order update of None \<Rightarrow> False | Some p \<Rightarrow> p < q) then delta else 0) updates"
    using r unfolding rmap_eq_Inr
    by (induction rule: list_all2_induct) (auto simp: position_of_def assms(2) split: option.splits)
  then show ?thesis using t by simp
qed

lemma esp_reaching_target:
  assumes s: "sort order = pyrange 0 (len inside)" and k: "k < length inside"
    and d: "\<forall>i \<in> set inside. \<exists>offset. decode_ia32_bijection_instruction body offset relocations = Inr i"
    and t: "target_delta (schedule_updates body inside private) order (int k) = Inr target"
  shows "esp_reaching (window_change body inside private) order (int k) esp = esp + target"
proof -
  let ?c = "window_change body inside private" and ?n = "length inside"
  note perm = permutation_position [OF s]
  obtain q where q: "q < ?n" "order ! q = int k" "order_position order (int k) = Some (int q)"
    using perm(1) [OF k] by blast
  let ?P = "\<lambda>u. case order_position order u of None \<Rightarrow> False | Some p \<Rightarrow> p < int q"
  have l: "distinct order" "length order = ?n" using perm(2,3) [OF k] by blast+
  have in_window: "{order ! p | p. p < q} = int ` {j. j < ?n \<and> ?P (int j)}"
  proof (intro equalityI subsetI)
    fix x assume "x \<in> {order ! p | p. p < q}"
    then obtain p where p: "x = order ! p" "p < q" by blast
    then have "x \<in> set (sort order)" using l(2) q(1) by simp
    then obtain j where j: "x = int j" "j < ?n" unfolding s pyrange_nat by auto
    moreover have "order_position order x = Some (int p)" using order_position_nth [OF l(1), of p] p q(1) l(2) by simp
    ultimately show "x \<in> int ` {j. j < ?n \<and> ?P (int j)}" using p(2) by auto
  next
    fix x assume "x \<in> int ` {j. j < ?n \<and> ?P (int j)}"
    then obtain j where j: "x = int j" "j < ?n" "?P (int j)" by blast
    from perm(1) [OF j(2)] obtain p where p: "order ! p = int j" "order_position order (int j) = Some (int p)" by blast
    then have "p < q" using j(3) by simp
    then show "x \<in> {order ! p | p. p < q}" using j(1) p(1) by (intro CollectI exI [of _ p]) simp
  qed
  have "esp_reaching ?c order (int k) esp = esp + (\<Sum>j \<in> {order ! p | p. p < q}. ?c j)"
    using esp_reaching_sum [OF l(1)] takeWhile_before [OF l(1), of q] q l(2) by simp
  also have "(\<Sum>j \<in> {order ! p | p. p < q}. ?c j) = (\<Sum>j \<in> {j. j < ?n \<and> ?P (int j)}. ?c (int j))"
    unfolding in_window by (simp add: sum.reindex)
  also have "\<dots> = (\<Sum>j < ?n. if ?P (int j) then ?c (int j) else 0)"
    by (intro sum.mono_neutral_cong_left) auto
  also have "\<dots> = target"
    unfolding target_delta_sum [OF t q(3)] by (rule sum_updates [OF d, symmetric])
  finally show ?thesis .
qed

section \<open>Properties\<close>

text \<open>
  C10.  The stack adjustments of a window keep every ESP-relative address.  Let the decoded
  instructions of the window run in the target order, a permutation of the source order, from
  any ESP, which each instruction changes as its bytes say: a register push takes four bytes,
  and in a window under the private-stack/object theorem so does a push of a byte, while
  \<^verbatim>\<open>add esp, n\<close> with a positive multiple of four in a signed byte gives \<open>n\<close> back.  (No other
  change of ESP is counted, by the code or here.)  When an order reaches an instruction with an
  ESP displacement, the displacement it gets names the address its old displacement names when
  the source order reaches it, and a displacement that changes still fits its field; an ESP
  operand without a displacement is reached with the same ESP in both orders.
\<close>

theorem stack_adjustments_exact:
  assumes a: "ia32_schedule_stack_adjustments body inside order private = Inr rows"
    and d: "\<forall>i \<in> set inside. \<exists>offset. decode_ia32_bijection_instruction body offset relocations = Inr i"
    and s: "sort order = pyrange 0 (len inside)" and k: "k < length inside"
    and f: "ia32_esp_relative_displacement body (inside ! k) = Inr found"
  shows "case found of
      No_Esp \<Rightarrow> True
    | No_Displacement \<Rightarrow>
        esp_reaching (window_change body inside private) order (int k) esp
        = esp_reaching (window_change body inside private) (pyrange 0 (len inside)) (int k) esp
    | Esp_Displacement at width value \<Rightarrow>
        esp_reaching (window_change body inside private) order (int k) esp + adjusted_value rows (int k) value
        = esp_reaching (window_change body inside private) (pyrange 0 (len inside)) (int k) esp + value
        \<and> (adjusted_value rows (int k) value = value
           \<or> - (2 ^ nat (8 * width - 1)) \<le> adjusted_value rows (int k) value
             \<and> adjusted_value rows (int k) value < 2 ^ nat (8 * width - 1))"
proof (cases "found = No_Esp")
  case False
  from stack_adjustments_deltas [OF a k f False] obtain target where
    t: "target_delta (schedule_updates body inside private) order (int k) = Inr target"
    and r: "case found of
         Esp_Displacement at width value \<Rightarrow>
           adjusted_value rows (int k) value + target
             = value + source_delta (schedule_updates body inside private) (int k)
           \<and> (adjusted_value rows (int k) value \<noteq> value \<longrightarrow>
                - (2 ^ nat (8 * width - 1)) \<le> adjusted_value rows (int k) value
                \<and> adjusted_value rows (int k) value < 2 ^ nat (8 * width - 1))
       | _ \<Rightarrow> target = source_delta (schedule_updates body inside private) (int k)" by blast
  show ?thesis
    using r unfolding esp_reaching_target [OF s k d t] esp_reaching_source [OF k d]
    by (auto split: esp_displacement.splits)
qed simp

theorem stack_adjustments_exact_witness:
  "esp_reaching (window_change [0x50, 0x8B, 0x54, 0x24, 0x14]
      (map (\<lambda>offset. projr (decode_ia32_bijection_instruction [0x50, 0x8B, 0x54, 0x24, 0x14] offset (\<lambda>_. None))) [0, 1])
      False) [1, 0] 1 1000 + 16
   = esp_reaching (window_change [0x50, 0x8B, 0x54, 0x24, 0x14]
      (map (\<lambda>offset. projr (decode_ia32_bijection_instruction [0x50, 0x8B, 0x54, 0x24, 0x14] offset (\<lambda>_. None))) [0, 1])
      False) [0, 1] 1 1000 + 20"
proof -
  let ?body = "[0x50, 0x8B, 0x54, 0x24, 0x14] :: bytes"
  let ?inside = "map (\<lambda>offset. projr (decode_ia32_bijection_instruction ?body offset (\<lambda>_. None))) [0, 1]"
  have a: "ia32_schedule_stack_adjustments ?body ?inside [1, 0] False = Inr [(1, 4, 20, 16)]"
    by code_simp
  have d: "\<forall>i \<in> set ?inside. \<exists>offset. decode_ia32_bijection_instruction ?body offset (\<lambda>_. None) = Inr i"
  proof -
    have "list_all (\<lambda>offset. decode_ia32_bijection_instruction ?body offset (\<lambda>_. None)
        = Inr (projr (decode_ia32_bijection_instruction ?body offset (\<lambda>_. None)))) [0, 1]"
      by code_simp
    then show ?thesis by auto
  qed
  have s: "sort [1, 0] = pyrange 0 (len ?inside)" by code_simp
  have f: "ia32_esp_relative_displacement ?body (?inside ! 1) = Inr (Esp_Displacement 4 1 20)"
    by code_simp
  have v: "adjusted_value [(1, 4, 20, 16)] 1 20 = 16" and p: "pyrange 0 2 = [0, 1]"
    by code_simp+
  show ?thesis
    using stack_adjustments_exact [OF a d s _ f, of 1000] by (simp add: p v)
qed

end
