(* ===== verification/Schedule_Soundness.thy ===== *)
theory Schedule_Soundness
  imports Schedule_Dependence
begin

text \<open>
  Why an accepted instruction order is safe: instructions whose dependence facts are true
  of their semantics reach the same machine state in every order that the dependence graph
  of \<^verbatim>\<open>ia32_schedule_dependence_edges\<close> allows and
  \<^verbatim>\<open>require_topological_instruction_order\<close> accepts.
\<close>

section \<open>Reordering commuting steps\<close>

definition run :: "('i \<Rightarrow> 's \<Rightarrow> 's) \<Rightarrow> 'i list \<Rightarrow> 's \<Rightarrow> 's" where
  "run step order s = foldl (\<lambda>s i. step i s) s order"

lemma run_Nil [simp]: "run step [] s = s"
  by (simp add: run_def)

lemma run_Cons [simp]: "run step (i # is) s = run step is (step i s)"
  by (simp add: run_def)

lemma run_append [simp]: "run step (is @ js) s = run step js (run step is s)"
  by (simp add: run_def)

lemma run_cong: "(\<And>i. i \<in> set is \<Longrightarrow> f i = g i) \<Longrightarrow> run f is s = run g is s"
  by (induction "is" arbitrary: s) simp_all

lemma run_map: "run step (map f is) s = run (\<lambda>i. step (f i)) is s"
  by (induction "is" arbitrary: s) simp_all

lemma run_past:
  assumes "\<And>a s. a \<in> set as \<Longrightarrow> step a (step x s) = step x (step a s)"
  shows "run step as (step x s) = step x (run step as s)"
  using assms by (induction as arbitrary: s) simp_all

text \<open>The elements of a list in the order of their first occurrence.\<close>

definition before :: "'a list \<Rightarrow> 'a \<Rightarrow> 'a \<Rightarrow> bool" where
  "before xs a b \<longleftrightarrow> (\<exists>us vs ws. xs = us @ a # vs @ b # ws)"

lemma before_Cons: "before xs a b \<Longrightarrow> before (x # xs) a b"
  unfolding before_def by (metis append_Cons)

lemma before_head: "b \<in> set xs \<Longrightarrow> before (a # xs) a b"
  unfolding before_def by (metis append_Nil split_list)

lemma before_insert: "before (us @ vs) a b \<Longrightarrow> before (us @ x # vs) a b"
  unfolding before_def by (auto simp: append_eq_append_conv2 append_eq_Cons_conv Cons_eq_append_conv)
    (metis append.assoc append_Cons)+

lemma reorder:
  assumes "distinct xs" "distinct ys" "set ys = set xs"
    and "\<And>a b s. before xs a b \<Longrightarrow> before ys b a \<Longrightarrow> step a (step b s) = step b (step a s)"
  shows "run step ys s = run step xs s"
  using assms
proof (induction xs arbitrary: ys s)
  case Nil
  then show ?case by simp
next
  case (Cons x xs)
  then obtain us vs where ys: "ys = us @ x # vs"
    by (metis list.set_intros(1) split_list)
  have past: "step a (step x t) = step x (step a t)" if "a \<in> set us" for a t
  proof -
    have "a \<noteq> x" "a \<in> set (x # xs)" using that Cons.prems(2,3) ys by auto
    then have "a \<in> set xs" by simp
    moreover have "before ys a x"
      using that unfolding ys before_def by (metis append.assoc append_Cons split_list)
    ultimately show ?thesis
      using Cons.prems(4) [of x a t] before_head by metis
  qed
  have rest: "run step (us @ vs) t = run step xs t" for t
  proof (rule Cons.IH)
    show "distinct xs" "distinct (us @ vs)"
      using Cons.prems(1,2) ys by auto
    have "x \<notin> set us \<union> set vs" "x \<notin> set xs"
      using Cons.prems(1,2) ys by auto
    moreover have "insert x (set us \<union> set vs) = insert x (set xs)"
      using Cons.prems(3) ys by auto
    ultimately show "set (us @ vs) = set xs"
      using insert_ident [of x] by simp
    fix a b s assume "before xs a b" "before (us @ vs) b a"
    then show "step a (step b s) = step b (step a s)"
      using Cons.prems(4) before_Cons [of xs a b x] before_insert [of us vs b a x] ys by blast
  qed
  have "run step ys s = run step vs (step x (run step us s))"
    by (simp add: ys)
  also have "\<dots> = run step (us @ vs) (step x s)"
    using run_past [of us step x s] past by simp
  also have "\<dots> = run step (x # xs) s"
    using rest by simp
  finally show ?case .
qed

section \<open>Steps that respect their facts\<close>

definition operand_span :: "memory_operand \<Rightarrow> machine \<Rightarrow> 32 word set" where
  "operand_span m s =
     {regs s r + word_of_int k | r k. mo_base m = Some (gpr_name r)
        \<and> mo_displacement m \<le> k \<and> k < mo_displacement m + mo_width m}"

definition fact_span :: "schedule_fact \<Rightarrow> machine \<Rightarrow> 32 word set" where
  "fact_span f s = (case sf_memory f of None \<Rightarrow> {} | Some m \<Rightarrow> operand_span m s)"

definition loads :: "schedule_fact \<Rightarrow> bool" where
  "loads f = (case sf_memory f of None \<Rightarrow> False | Some m \<Rightarrow> mo_read m)"

definition stores :: "schedule_fact \<Rightarrow> bool" where
  "stores f = (case sf_memory f of None \<Rightarrow> False | Some m \<Rightarrow> mo_write m)"

text \<open>The inputs two states share: the registers read, the flags if read, the cells loaded.\<close>

definition same_inputs :: "schedule_fact \<Rightarrow> machine \<Rightarrow> machine \<Rightarrow> bool" where
  "same_inputs f s t \<longleftrightarrow>
     (\<forall>r. gpr_name r \<in> sf_reads f \<longrightarrow> regs s r = regs t r)
     \<and> (sf_reads_flags f \<longrightarrow> eflags s = eflags t)
     \<and> (loads f \<longrightarrow> (\<forall>a \<in> fact_span f s. memory s a = memory t a))"

text \<open>
  A step respects a fact when it changes only the registers, flags and cells the fact
  names, and what it puts there depends only on the inputs the fact names.
\<close>

definition obeys :: "schedule_fact \<Rightarrow> (machine \<Rightarrow> machine) \<Rightarrow> bool" where
  "obeys f step \<longleftrightarrow>
     (\<forall>s r. gpr_name r \<notin> sf_writes f \<longrightarrow> regs (step s) r = regs s r)
     \<and> (\<forall>s. \<not> sf_writes_flags f \<longrightarrow> eflags (step s) = eflags s)
     \<and> (\<forall>s a. \<not> (stores f \<and> a \<in> fact_span f s) \<longrightarrow> memory (step s) a = memory s a)
     \<and> (\<forall>s t. same_inputs f s t \<longrightarrow>
          (\<forall>r. gpr_name r \<in> sf_writes f \<longrightarrow> regs (step s) r = regs (step t) r)
          \<and> (sf_writes_flags f \<longrightarrow> eflags (step s) = eflags (step t))
          \<and> (stores f \<longrightarrow> (\<forall>a \<in> fact_span f s. memory (step s) a = memory (step t) a)))"

text \<open>What the decoder guarantees of a fact, and that its operand does not wrap around.\<close>

definition fact_ok :: "schedule_fact \<Rightarrow> bool" where
  "fact_ok f =
     (case sf_memory f of None \<Rightarrow> True
      | Some m \<Rightarrow> (\<exists>b \<in> sf_reads f. mo_base m = Some b)
          \<and> - (2 ^ 31) \<le> mo_displacement m \<and> mo_displacement m + mo_width m \<le> 2 ^ 31)"

lemma fact_span_cong:
  assumes "fact_ok f" "\<And>r. gpr_name r \<in> sf_reads f \<Longrightarrow> regs s r = regs t r"
  shows "fact_span f s = fact_span f t"
  using assms by (fastforce simp: fact_span_def operand_span_def fact_ok_def split: option.splits)

text \<open>Two displacements inside the signed 32-bit range never meet modulo \<open>2\<^sup>3\<^sup>2\<close>.\<close>

lemma disjoint_displacements:
  fixes j k :: int
  assumes "(word_of_int j :: 32 word) = word_of_int k"
    "- (2 ^ 31) \<le> j" "j < 2 ^ 31" "- (2 ^ 31) \<le> k" "k < 2 ^ 31"
  shows "j = k"
proof -
  have "j mod 2 ^ 32 = k mod 2 ^ 32"
    using assms(1) by (simp add: word_of_int_eq_iff take_bit_eq_mod)
  then have "2 ^ 32 dvd j - k"
    by (simp only: mod_eq_dvd_iff)
  then have "j - k = 0 \<or> \<bar>2 ^ 32\<bar> \<le> \<bar>j - k\<bar>"
    using dvd_imp_le_int by blast
  then show ?thesis
    using assms(2-5) by auto
qed

lemma spans_disjoint:
  assumes d: "ia32_memory_provably_disjoint l r"
    and l: "- (2 ^ 31) \<le> mo_displacement l" "mo_displacement l + mo_width l \<le> 2 ^ 31"
    and r: "- (2 ^ 31) \<le> mo_displacement r" "mo_displacement r + mo_width r \<le> 2 ^ 31"
  shows "operand_span l s \<inter> operand_span r s = {}"
proof -
  have False if a: "a \<in> operand_span l s" "a \<in> operand_span r s" for a
  proof -
    obtain p j where j: "a = regs s p + word_of_int j" "mo_base l = Some (gpr_name p)"
      "mo_displacement l \<le> j" "j < mo_displacement l + mo_width l"
      using a(1) by (auto simp: operand_span_def)
    obtain q k where k: "a = regs s q + word_of_int k" "mo_base r = Some (gpr_name q)"
      "mo_displacement r \<le> k" "k < mo_displacement r + mo_width r"
      using a(2) by (auto simp: operand_span_def)
    have "p = q"
      using d j(2) k(2) gpr_name_inj
      by (auto simp: ia32_memory_provably_disjoint_def split: if_splits)
    then have "(word_of_int j :: 32 word) = word_of_int k"
      using j(1) k(1) by simp
    then have "j = k"
      by (rule disjoint_displacements) (use j k l r in linarith)+
    then show False
      using d j k by (auto simp: ia32_memory_provably_disjoint_def split: if_splits)
  qed
  then show ?thesis by blast
qed

section \<open>Pairs without an edge commute\<close>

text \<open>What the absence of reasons says of two facts.\<close>

definition independent :: "schedule_fact \<Rightarrow> schedule_fact \<Rightarrow> bool" where
  "independent f g =
     (sf_writes f \<inter> sf_reads g = {} \<and> sf_reads f \<inter> sf_writes g = {} \<and> sf_writes f \<inter> sf_writes g = {}
      \<and> \<not> (sf_writes_flags f \<and> sf_reads_flags g) \<and> \<not> (sf_reads_flags f \<and> sf_writes_flags g)
      \<and> \<not> (sf_writes_flags f \<and> sf_writes_flags g)
      \<and> (\<forall>m n. sf_memory f = Some m \<longrightarrow> sf_memory g = Some n \<longrightarrow> mo_write m \<or> mo_write n \<longrightarrow>
           ia32_memory_provably_disjoint m n))"

lemma provably_disjoint_sym: "ia32_memory_provably_disjoint l r = ia32_memory_provably_disjoint r l"
  by (auto simp: ia32_memory_provably_disjoint_def)

lemma independent_sym:
  assumes "independent f g"
  shows "independent g f"
proof -
  have "ia32_memory_provably_disjoint n m"
    if "sf_memory g = Some n" "sf_memory f = Some m" "mo_write n \<or> mo_write m" for m n
    using assms that provably_disjoint_sym [of m n] unfolding independent_def by auto
  then show ?thesis
    using assms unfolding independent_def by blast
qed

lemma independent_cells:
  assumes i: "independent f g" and ok: "fact_ok f" "fact_ok g" and st: "stores f \<or> stores g"
  shows "fact_span f s \<inter> fact_span g s = {}"
proof (cases "sf_memory f = None \<or> sf_memory g = None")
  case True
  then show ?thesis by (auto simp: fact_span_def)
next
  case False
  then obtain m n where mn: "sf_memory f = Some m" "sf_memory g = Some n" by auto
  then have "ia32_memory_provably_disjoint m n"
    using i st by (auto simp: independent_def stores_def)
  then show ?thesis
    using spans_disjoint ok mn by (simp add: fact_span_def fact_ok_def)
qed

text \<open>After a step that is independent of it, an instruction still has its inputs and its cells.\<close>

lemma keeps_inputs:
  assumes i: "independent f g" and ok: "fact_ok f" "fact_ok g" and r: "obeys g step"
  shows "same_inputs f (step s) s" "fact_span f (step s) = fact_span f s"
proof -
  have regs: "regs (step s) p = regs s p" if "gpr_name p \<in> sf_reads f" for p
    using i r that by (auto simp: independent_def obeys_def)
  show span: "fact_span f (step s) = fact_span f s"
    using fact_span_cong [OF ok(1) regs] .
  have "memory (step s) a = memory s a" if "a \<in> fact_span f s" for a
    using independent_cells [OF i ok, of s] r that unfolding obeys_def by blast
  then show "same_inputs f (step s) s"
    using regs span i r by (auto simp: same_inputs_def independent_def obeys_def)
qed

lemma independent_commute:
  assumes i: "independent f g" and ok: "fact_ok f" "fact_ok g"
    and f: "obeys f step" and g: "obeys g step'"
  shows "step (step' s) = step' (step s)"
proof -
  note fg = keeps_inputs [OF i ok g] and gf = keeps_inputs [OF independent_sym [OF i] ok(2,1) f]
  have regs: "regs (step (step' s)) r = regs (step' (step s)) r" for r
  proof (cases "gpr_name r \<in> sf_writes f")
    case True
    then have "gpr_name r \<notin> sf_writes g" using i by (auto simp: independent_def)
    then show ?thesis using True f g fg(1) [of s] unfolding obeys_def by metis
  next
    case False
    then show ?thesis using f g gf(1) [of s] unfolding obeys_def by metis
  qed
  have flags: "eflags (step (step' s)) = eflags (step' (step s))"
  proof (cases "sf_writes_flags f")
    case True
    then have "\<not> sf_writes_flags g" using i by (auto simp: independent_def)
    then show ?thesis using True f g fg(1) [of s] unfolding obeys_def by metis
  next
    case False
    then show ?thesis using f g gf(1) [of s] unfolding obeys_def by metis
  qed
  have mem: "memory (step (step' s)) a = memory (step' (step s)) a" for a
  proof (cases "stores f \<and> a \<in> fact_span f s")
    case True
    then have "\<not> (stores g \<and> a \<in> fact_span g s)"
      using independent_cells [OF i ok, of s] by blast
    then show ?thesis using True f g fg [of s] gf(2) [of s] unfolding obeys_def by metis
  next
    case False
    then show ?thesis using f g gf [of s] fg(2) [of s] unfolding obeys_def by metis
  qed
  show ?thesis
    using regs flags mem by (simp add: ext)
qed

section \<open>Reading the graph\<close>

lemma pair_reasons_independent:
  assumes "pair_reasons private False facts compensated stack_ops l r = []"
    and "\<not> (stack_ops ! l \<and> compensated ! r)" "\<not> (stack_ops ! r \<and> compensated ! l)"
  shows "independent (facts ! l) (facts ! r)"
  using assms
  by (auto simp: pair_reasons_def register_reasons_def flag_reasons_def memory_reasons_def
      canonical_disjoint_def independent_def Let_def split: if_splits option.splits)

lemma window_edges_complete:
  assumes "l < r" "r < length facts"
    and "pair_reasons private adjusted facts compensated stack_ops l r \<noteq> []"
  shows "\<exists>reasons. (int l, int r, reasons)
    \<in> set (window_edges private adjusted facts compensated stack_ops)"
  using assms by (force simp: window_edges_def Let_def intro!: bexI [of _ l])

lemma topological_order_facts:
  assumes "require_topological_instruction_order (int n) edges order = Inr ()"
  shows "distinct order" "set order = int ` {..<n}" "length order = n"
    "\<And>l r reasons. (l, r, reasons) \<in> set edges \<Longrightarrow>
       \<exists>p q. order_position order l = Some p \<and> order_position order r = Some q \<and> p < q"
proof -
  have s: "sort order = map int [0..<n]"
    and e: "rfold (require_forward_edge order) () edges = Inr ()"
    using assms
    by (auto simp: require_topological_instruction_order_def pyrange_nat)
  show "distinct order"
    using s by (metis distinct_map distinct_sort distinct_upt inj_on_of_nat)
  show "set order = int ` {..<n}"
    using s by (metis atLeast_upt set_map set_sort)
  show "length order = n"
    using s by (metis length_map length_sort length_upt minus_nat.diff_0)
  show "\<exists>p q. order_position order l = Some p \<and> order_position order r = Some q \<and> p < q"
    if "(l, r, reasons) \<in> set edges" for l r reasons
    using e that
    by (induction edges)
       (auto simp: require_forward_edge_def position_of_def split: option.splits)
qed

lemma order_position_before:
  assumes d: "distinct order" and b: "before order x y"
  shows "\<exists>p q. order_position order x = Some p \<and> order_position order y = Some q \<and> p < q"
proof -
  obtain us vs ws where o: "order = us @ x # vs @ y # ws"
    using b unfolding before_def by blast
  let ?p = "length us" and ?q = "length us + Suc (length vs)"
  have at: "order ! ?p = x" "order ! ?q = y" "?p < length order" "?q < length order"
    by (simp_all add: o nth_append)
  have "order_position order x = Some (int ?p)" "order_position order y = Some (int ?q)"
    using order_position_nth [OF d at(3)] order_position_nth [OF d at(4)] at(1,2) by simp_all
  then show ?thesis by auto
qed

lemma before_range: "before (map int [0..<n]) a b \<Longrightarrow> \<exists>l r. a = int l \<and> b = int r \<and> l < r \<and> r < n"
proof -
  assume "before (map int [0..<n]) a b"
  then obtain us vs ws where o: "map int [0..<n] = us @ a # vs @ b # ws"
    unfolding before_def by blast
  let ?p = "length us" and ?q = "length us + Suc (length vs)"
  have "length (map int [0..<n]) = length (us @ a # vs @ b # ws)" by (simp only: o)
  then have q: "?q < n" by simp
  moreover have "map int [0..<n] ! ?p = a" "map int [0..<n] ! ?q = b"
    by (simp_all add: o nth_append)
  ultimately have "a = int ?p" "b = int ?q" by simp_all
  then show ?thesis using q by (intro exI [of _ ?p] exI [of _ ?q]) simp
qed

section \<open>Facts of decoded instructions\<close>

lemma push_reads_esp:
  assumes d: "decode_ia32_bijection_instruction body offset relocations = Inr i"
    and p: "bi_opcode i \<in> set stack_push_opcodes" and f: "bi_flow i = ''fall''"
  shows "''esp'' \<in> bi_reads i"
  using d
proof (rule decode_bijection_cases)
  fix count encoded prefixed size16 repeat opcode cursor form width ops mem encoding
    flow_override modrm ops' flow target
  assume o: "bijection_opcode encoded prefixed size16 repeat = Inr (opcode, cursor, form, width)"
    and e: "bijection_explicit form opcode width encoded offset cursor
       (opcode_register form width (offset + prefixed) opcode (form_operands form))
       = Inr (ops, mem, encoding, flow_override, modrm)"
    and fl: "bijection_flow form flow_override encoded offset count relocations ops
       = Inr (ops', flow, target)"
    and i: "i = bijection_result offset count opcode form mem encoding flow_override
           (zeroing opcode form width modrm ops') flow target"
  have op: "opcode \<in> {80, 81, 82, 83, 84, 85, 86, 87, 106}"
    using p by (simp add: i bijection_result_def stack_push_opcodes_def register_push_opcodes_def
        pyrange_def upto.simps)
  have "list_all (\<lambda>(prefix, k). k \<notin> {80, 81, 82, 83, 84, 85, 86, 87, 106}) (map fst repeated_string_forms)"
    by code_simp
  then have norep: "map_of repeated_string_forms (prefix, opcode) = None" for prefix
    using op by (auto simp: list_all_iff map_of_eq_None_iff)
  have "list_all (\<lambda>k. case bijection_form_for k of None \<Rightarrow> False
      | Some f \<Rightarrow> ''esp'' \<in> bf_reads f \<and> \<not> bf_modrm f) [80, 81, 82, 83, 84, 85, 86, 87, 106]"
    by code_simp
  then have "bijection_form_for opcode = Some g \<Longrightarrow> ''esp'' \<in> bf_reads g \<and> \<not> bf_modrm g" for g
    using op by (auto split: option.splits)
  then have form: "''esp'' \<in> bf_reads form" "\<not> bf_modrm form"
    using o norep by (auto simp: bijection_opcode_def bijection_lookup_def split: option.splits)
  have "op_reads (opcode_register form width (offset + prefixed) opcode (form_operands form))
      \<supseteq> bf_reads form"
    by (auto simp: opcode_register_def touch_def add_field_def form_operands_def Let_def
        split: option.splits)
  then have "''esp'' \<in> op_reads ops"
    using e form by (auto simp: bijection_explicit_def)
  then have "''esp'' \<in> op_reads ops'"
    by (cases rule: bijection_flow_operands [OF fl])
      (auto simp: exit_operands_def external_transfer_live_def register_names_def read_more_def)
  then show ?thesis
    using op by (auto simp: i bijection_result_def zeroing_def)
qed

lemma decoded_fact_ok:
  assumes d: "decode_ia32_bijection_instruction body offset relocations = Inr i"
    and f: "ia32_schedule_instruction_facts i = Inr f"
    and w: "\<And>m. sf_memory f = Some m \<Longrightarrow> mo_displacement m + mo_width m \<le> 2 ^ 31"
  shows "fact_ok f"
proof (cases "sf_memory f")
  case None
  then show ?thesis by (simp add: fact_ok_def)
next
  case (Some m)
  have base: "mo_base m \<noteq> None" and rd: "sf_reads f = bi_reads i" and flow: "bi_flow i = ''fall''"
    using f Some
    by (auto simp: ia32_schedule_instruction_facts_def require_closed_operand_def Let_def
        split: option.splits if_splits)
  have "memory_ok (bi_reads i) m"
  proof (cases "bi_opcode i \<in> set stack_push_opcodes")
    case True
    then have "m = push_memory"
      using f Some by (auto simp: ia32_schedule_instruction_facts_def require_closed_operand_def
          Let_def split: option.splits)
    then show ?thesis
      using push_reads_esp [OF d True flow] by (simp add: memory_ok_def push_memory_def)
  next
    case False
    then have "bi_memory i = Some m"
      using f Some by (auto simp: ia32_schedule_instruction_facts_def require_closed_operand_def
          Let_def split: option.splits)
    then show ?thesis
      using decode_bijection_ok [OF d] by (simp add: instruction_ok_def)
  qed
  then show ?thesis
    using w [OF Some] Some base rd by (auto simp: fact_ok_def memory_ok_def)
qed

section \<open>Properties\<close>

text \<open>
  C3.  An accepted reordering is safe.  Take the decoded instructions of a window without
  declared stack adjustments, their strict dependence graph and a target order that the
  topological check accepts.  If every instruction obeys its dependence fact and no operand
  wraps around the address space, running the instructions in the target order reaches the
  same registers, flags and memory as running them in the source order, from every state.
\<close>

theorem schedule_order_sound:
  assumes dec: "\<forall>i \<in> set insns. decode_ia32_bijection_instruction body (bi_offset i) relocations = Inr i"
    and e: "ia32_schedule_dependence_edges insns (Some body) False private adjusted = Inr (facts, edges)"
    and t: "require_topological_instruction_order (len insns) edges order = Inr ()"
    and obey: "\<forall>k < length insns. obeys (facts ! k) (step k)"
    and wrap: "\<forall>f \<in> set facts. \<forall>m. sf_memory f = Some m \<longrightarrow> mo_displacement m + mo_width m \<le> 2 ^ 31"
  shows "run step (map nat order) s = run step [0..<length insns] s"
proof -
  obtain compensated stack_ops where facts: "rmap ia32_schedule_instruction_facts insns = Inr facts"
    and comp: "rmap (esp_compensation (Some body) False adjusted) (enumerate_int insns) = Inr compensated"
    and edges: "edges = window_edges private False facts compensated stack_ops"
    using e by (auto simp: ia32_schedule_dependence_edges_def)
  have n: "length facts = length insns" "length compensated = length insns"
    using rmap_length [OF facts] rmap_length [OF comp] by (simp_all add: enumerate_int_def pyrange_nat)
  have nc: "\<not> compensated ! k" if "k < length insns" for k
    using rmap_nth [OF comp, of k] that
    by (simp add: enumerate_int_def pyrange_nat esp_compensation_def)
  have ok: "fact_ok (facts ! k)" if k: "k < length insns" for k
  proof (rule decoded_fact_ok)
    show "decode_ia32_bijection_instruction body (bi_offset (insns ! k)) relocations = Inr (insns ! k)"
      using dec k by simp
    show "ia32_schedule_instruction_facts (insns ! k) = Inr (facts ! k)"
      using rmap_nth [OF facts k] .
    have "facts ! k \<in> set facts" using k n by simp
    then show "mo_displacement m + mo_width m \<le> 2 ^ 31" if "sf_memory (facts ! k) = Some m" for m
      using wrap that by blast
  qed
  have "run (step \<circ> nat) order s = run (step \<circ> nat) (map int [0..<length insns]) s"
  proof (rule reorder)
    show "distinct (map int [0..<length insns])" by (simp add: distinct_map)
    show "distinct order" "set order = set (map int [0..<length insns])"
      using topological_order_facts(1,2) [OF t] by (auto simp: lessThan_atLeast0)
    fix a b t'
    assume ab: "before (map int [0..<length insns]) a b" "before order b a"
    obtain l r where lr: "a = int l" "b = int r" "l < r" "r < length insns"
      using before_range [OF ab(1)] by blast
    have "(a, b, reasons) \<notin> set edges" for reasons
      using topological_order_facts(4) [OF t, of a b reasons] order_position_before [OF _ ab(2)]
        topological_order_facts(1) [OF t] by fastforce
    then have "pair_reasons private False facts compensated stack_ops l r = []"
      using window_edges_complete [of l r facts "private" False compensated stack_ops] lr n edges by auto
    then have "independent (facts ! l) (facts ! r)"
      by (rule pair_reasons_independent) (use nc lr in auto)
    then show "(step \<circ> nat) a ((step \<circ> nat) b t') = (step \<circ> nat) b ((step \<circ> nat) a t')"
      using independent_commute [of "facts ! l" "facts ! r" "step l" "step r" t'] ok obey lr by simp
  qed
  then show ?thesis
    by (simp add: run_map comp_def)
qed

section \<open>Byte operands\<close>

text \<open>The opcodes of the schedule table whose operands are bytes.\<close>

definition byte_opcodes :: "int list" where
  "byte_opcodes = [26, 56, 58, 128, 132, 136, 138, 198, 246]"

lemma byte_form:
  assumes "opcode \<in> set byte_opcodes"
  shows "\<exists>form. bijection_form_for opcode = Some form \<and> bf_width form = 8 \<and> bf_writes form = {} \<and> bf_modrm form
    \<and> bf_opreg form = None \<and> \<not> bf_x87 form \<and> bf_rm_width form = None \<and> bf_ext_implicit form = []"
    and "map_of repeated_string_forms (prefix, opcode) = None"
proof -
  have "list_all (\<lambda>k. case bijection_form_for k of None \<Rightarrow> False
      | Some form \<Rightarrow> bf_width form = 8 \<and> bf_writes form = {} \<and> bf_modrm form
    \<and> bf_opreg form = None \<and> \<not> bf_x87 form \<and> bf_rm_width form = None \<and> bf_ext_implicit form = []) byte_opcodes"
    by code_simp
  then show "\<exists>form. bijection_form_for opcode = Some form \<and> bf_width form = 8 \<and> bf_writes form = {} \<and> bf_modrm form
    \<and> bf_opreg form = None \<and> \<not> bf_x87 form \<and> bf_rm_width form = None \<and> bf_ext_implicit form = []"
    using assms by (auto simp: list_all_iff split: option.splits)
  have "list_all (\<lambda>(prefix, k). k \<notin> set byte_opcodes) (map fst repeated_string_forms)"
    by code_simp
  then show "map_of repeated_string_forms (prefix, opcode) = None"
    using assms by (auto simp: list_all_iff map_of_eq_None_iff)
qed

lemma touch_byte_writes [simp]: "op_writes (touch 8 value is_read is_write ops) = op_writes ops"
  by (simp add: touch_def Let_def)

lemma add_field_writes [simp]: "op_writes (add_field c at shift ops) = op_writes ops"
  by (simp add: add_field_def)

lemma memory_address_writes:
  "memory_address encoded offset cursor modrm_at mode rm ops = Inr (ops', rest) \<Longrightarrow> op_writes ops' = op_writes ops"
  by (auto simp: memory_address_def address_register_def Let_def split: if_splits)

text \<open>The decoder reports no register as written by an instruction on bytes.\<close>

lemma byte_writes_nothing:
  assumes d: "decode_ia32_bijection_instruction body offset relocations = Inr i"
    and op: "bi_opcode i \<in> set byte_opcodes"
  shows "bi_writes i = {}"
  using d
proof (rule decode_bijection_cases)
  fix count encoded prefixed size16 repeat opcode cursor form width ops mem encoding
    flow_override modrm ops' flow target
  assume o: "bijection_opcode encoded prefixed size16 repeat = Inr (opcode, cursor, form, width)"
    and e: "bijection_explicit form opcode width encoded offset cursor
       (opcode_register form width (offset + prefixed) opcode (form_operands form))
       = Inr (ops, mem, encoding, flow_override, modrm)"
    and fl: "bijection_flow form flow_override encoded offset count relocations ops
       = Inr (ops', flow, target)"
    and i: "i = bijection_result offset count opcode form mem encoding flow_override
           (zeroing opcode form width modrm ops') flow target"
  have opcode: "opcode \<in> set byte_opcodes" using op by (simp add: i bijection_result_def)
  note form = byte_form [OF opcode]
  have w: "bijection_form_for opcode = Some form" "width = 8"
    using o form by (auto simp: bijection_opcode_def bijection_lookup_def split: option.splits if_splits)
  have f: "bf_writes form = {}" "bf_modrm form" "bf_opreg form = None" "\<not> bf_x87 form" "bf_rm_width form = None"
    "bf_ext_implicit form = []" using form w by auto
  let ?start = "opcode_register form 8 (offset + prefixed) opcode (form_operands form)"
  have start: "op_writes ?start = {}" by (simp add: opcode_register_def form_operands_def f)
  have field: "op_writes ops1 = {}" if "modrm_register_field form 8 at register_field ?start = Inr (ops1, rest)"
    for at register_field ops1 rest
    using that start f(6)
    by (auto simp: modrm_register_field_def extension_operands_def Let_def split: if_splits)
  have "op_writes ops = {}"
    using e f unfolding w(2)
    by (auto simp: bijection_explicit_def bijection_modrm_def modrm_direct_def Let_def split: if_splits
        dest!: field memory_address_writes)
  then have "op_writes ops' = {}"
    by (cases rule: bijection_flow_operands [OF fl]) (auto simp: exit_operands_def read_more_def)
  then show ?thesis by (simp add: i bijection_result_def zeroing_def w(2))
qed

lemma schedule_fact_writes: "ia32_schedule_instruction_facts i = Inr f \<Longrightarrow> sf_writes f = bi_writes i"
  by (auto simp: ia32_schedule_instruction_facts_def require_closed_operand_def Let_def
      split: option.splits prod.splits if_splits)

lemma window_edge_reasons:
  assumes "(a, b, reasons) \<in> set (window_edges private adjusted facts compensated stack_ops)"
  shows "\<exists>l r. a = int l \<and> b = int r \<and> l < r \<and> r < length facts
    \<and> set reasons = set (pair_reasons private adjusted facts compensated stack_ops l r)"
  using assms by (auto simp: window_edges_def Let_def split: if_splits)

text \<open>
  C38.  A write of a byte register is invisible to the dependence graph.  An instruction on
  bytes is decoded as writing no register, so no edge out of it says that a later instruction
  reads or rewrites what it wrote, and no edge into it says that it rewrites what an earlier
  instruction reads or writes.  Only its reads, its flags and its memory operand order it:
  \<^verbatim>\<open>mov edx, eax\<close> may run before the \<^verbatim>\<open>mov al, [ecx]\<close> that precedes it.
\<close>

theorem schedule_narrow_write_unordered:
  assumes e: "ia32_schedule_dependence_edges insns body stack_adjusted private adjusted = Inr (facts, edges)"
    and d: "decode_ia32_bijection_instruction code offset relocations = Inr (insns ! k)"
    and k: "k < length insns" "bi_opcode (insns ! k) \<in> set byte_opcodes"
  shows "(\<forall>r reasons. (int k, r, reasons) \<in> set edges \<longrightarrow> ''register_raw'' \<notin> set reasons \<and> ''register_waw'' \<notin> set reasons)
    \<and> (\<forall>l reasons. (l, int k, reasons) \<in> set edges \<longrightarrow> ''register_war'' \<notin> set reasons \<and> ''register_waw'' \<notin> set reasons)"
proof -
  obtain compensated stack_ops where facts: "rmap ia32_schedule_instruction_facts insns = Inr facts"
    and edges: "edges = window_edges private (stack_adjusted \<and> body \<noteq> None) facts compensated stack_ops"
    using e by (auto simp: ia32_schedule_dependence_edges_def)
  have "ia32_schedule_instruction_facts (insns ! k) = Inr (facts ! k)" using rmap_nth [OF facts k(1)] .
  then have w: "sf_writes (facts ! k) = {}"
    using byte_writes_nothing [OF d k(2)] schedule_fact_writes by simp
  show ?thesis
    unfolding edges
    by (auto dest!: window_edge_reasons
        simp: w pair_reasons_def register_reasons_def flag_reasons_def memory_reasons_def Let_def split: option.splits if_splits)
qed

theorem schedule_narrow_write_unordered_witness:
  "\<exists>facts. ia32_schedule_dependence_edges
      (map (\<lambda>offset. projr (decode_ia32_bijection_instruction [0x8A, 0x01, 0x8B, 0xC8] offset (\<lambda>_. None))) [0, 2])
      (Some [0x8A, 0x01, 0x8B, 0xC8]) False False None = Inr (facts, [(0, 1, [''register_war''])])
    \<and> ''register_raw'' \<notin> set [''register_war'']"
proof -
  let ?code = "[0x8A, 0x01, 0x8B, 0xC8] :: bytes"
  let ?insns = "map (\<lambda>offset. projr (decode_ia32_bijection_instruction ?code offset (\<lambda>_. None))) [0, 2]"
  have d: "decode_ia32_bijection_instruction ?code 0 (\<lambda>_. None) = Inr (?insns ! 0)" by code_simp
  have o: "bi_opcode (?insns ! 0) \<in> set byte_opcodes" by code_simp
  have l: "0 < length ?insns" by simp
  have "map_sum id snd (ia32_schedule_dependence_edges ?insns (Some ?code) False False None)
      = Inr [(0, 1, [''register_war''])]"
    by code_simp
  then obtain facts where e: "ia32_schedule_dependence_edges ?insns (Some ?code) False False None
      = Inr (facts, [(0, 1, [''register_war''])])"
    by (cases "ia32_schedule_dependence_edges ?insns (Some ?code) False False None") auto
  have "(int 0, 1, [''register_war'']) \<in> set [(0, 1, [''register_war''])]" by simp
  then have "''register_raw'' \<notin> set [''register_war'']"
    using schedule_narrow_write_unordered [OF e d l o] by blast
  then show ?thesis using e by blast
qed

text \<open>With \<^verbatim>\<open>mov edx, eax\<close> as the second instruction there is no edge at all, and the swap is accepted.\<close>

lemma byte_load_swap_accepted:
  "rbind (rmap (\<lambda>offset. decode_ia32_bijection_instruction [0x8A, 0x01, 0x8B, 0xD0] offset (\<lambda>_. None)) [0, 2])
     (\<lambda>insns. rbind (ia32_schedule_dependence_edges insns (Some [0x8A, 0x01, 0x8B, 0xD0]) False False None)
       (\<lambda>(facts, edges). rbind (require_topological_instruction_order 2 edges [1, 0])
         (\<lambda>_. Inr (map sf_writes facts, edges))))
   = Inr ([{}, {''edx''}], [])"
  by code_simp

text \<open>
  The alias rule compares displacements as integers: two operands whose spans overlap
  after the 32-bit wrap-around are declared disjoint.
\<close>

lemma disjointness_ignores_wrap_around:
  "ia32_memory_provably_disjoint (push_memory\<lparr>mo_displacement := - (2 ^ 31)\<rparr>)
     (push_memory\<lparr>mo_displacement := 2 ^ 31 - 1\<rparr>)
   \<and> operand_span (push_memory\<lparr>mo_displacement := - (2 ^ 31)\<rparr>) s
     \<inter> operand_span (push_memory\<lparr>mo_displacement := 2 ^ 31 - 1\<rparr>) s \<noteq> {}"
  (is "?disjoint \<and> operand_span ?low s \<inter> operand_span ?high s \<noteq> {}")
proof
  show ?disjoint
    by (simp add: ia32_memory_provably_disjoint_def push_memory_def)
  let ?a = "regs s ESP + word_of_int (- (2 ^ 31))"
  have "?a = regs s ESP + word_of_int (2 ^ 31)"
    by simp
  then have "?a \<in> operand_span ?high s"
    unfolding operand_span_def push_memory_def mem_Collect_eq
    by (intro exI [of _ ESP] exI [of _ "2 ^ 31"]) simp
  moreover have "?a \<in> operand_span ?low s"
    unfolding operand_span_def push_memory_def mem_Collect_eq
    by (intro exI [of _ ESP] exI [of _ "- (2 ^ 31)"]) simp
  ultimately show "operand_span ?low s \<inter> operand_span ?high s \<noteq> {}" by blast
qed

text \<open>A window of two instructions that obey their facts: a stack load and a zeroing XOR.\<close>

abbreviation witness_body :: bytes where
  "witness_body \<equiv> [0x8B, 0x54, 0x24, 0x14, 0x33, 0xFF]"

definition witness_window :: "bijection_instruction list" where
  "witness_window = map (\<lambda>offset. projr (decode_ia32_bijection_instruction witness_body offset (\<lambda>_. None))) [0, 4]"

definition load_fact :: schedule_fact where
  "load_fact = \<lparr>sf_offset = 0, sf_length = 4, sf_opcode = 139, sf_reads = {''esp''}, sf_writes = {''edx''},
     sf_reads_flags = False, sf_writes_flags = False,
     sf_memory = Some \<lparr>mo_base = Some ''esp'', mo_index = None, mo_scale = 1, mo_displacement = 20,
       mo_absolute = False, mo_width = 4, mo_read = True, mo_write = False, mo_unknown = False\<rparr>\<rparr>"

definition zero_fact :: schedule_fact where
  "zero_fact = \<lparr>sf_offset = 4, sf_length = 2, sf_opcode = 51, sf_reads = {}, sf_writes = {''edi''},
     sf_reads_flags = False, sf_writes_flags = True, sf_memory = None\<rparr>"

definition witness_step :: "nat \<Rightarrow> machine \<Rightarrow> machine" where
  "witness_step k = exec_commutable (\<lambda>_. 0) (if k = 0 then [0x8B, 0x54, 0x24, 0x14] else [0x33, 0xFF])"

lemma witness_edges:
  "ia32_schedule_dependence_edges witness_window (Some witness_body) False False None
   = Inr ([load_fact, zero_fact], [])"
  by code_simp

lemma witness_load: "witness_step 0 s =
    s\<lparr>regs := (regs s)(EDX := load32 s (regs s ESP + 20))\<rparr>"
  by (simp add: witness_step_def exec_commutable_def source_value_def effective_address_def
      displacement_def gpr_of_def gprs_def from_bytes_signed_def Let_def)

lemma witness_zero: "witness_step (Suc k) s = s\<lparr>regs := (regs s)(EDI := 0), eflags := 0\<rparr>"
  by (simp add: witness_step_def exec_commutable_def source_value_def gpr_of_def gprs_def Let_def)

lemma load_cells: "regs s ESP + 20 + word_of_int j \<in> fact_span load_fact s" if "0 \<le> j" "j < 4"
  using that unfolding fact_span_def load_fact_def operand_span_def
  by (auto intro!: exI [of _ ESP] exI [of _ "20 + j"])

lemma load_obeys: "obeys load_fact (witness_step 0)"
proof -
  have "load32 s (regs s ESP + 20) = load32 t (regs t ESP + 20)" if "same_inputs load_fact s t" for s t
  proof -
    have r: "regs s ESP = regs t ESP"
      and m: "a \<in> fact_span load_fact s \<Longrightarrow> memory s a = memory t a" for a
      using that by (auto simp: same_inputs_def load_fact_def loads_def)
    have "memory s (regs s ESP + 20 + word_of_int j) = memory t (regs s ESP + 20 + word_of_int j)"
      if "0 \<le> j" "j < 4" for j
      using m load_cells [OF that] by blast
    from this [of 0] this [of 1] this [of 2] this [of 3] show ?thesis
      using r by (simp add: load32_def)
  qed
  then show ?thesis
    by (simp add: obeys_def witness_load stores_def)
       (auto simp: load_fact_def gpr_name_inj [of _ EDX, simplified] split: if_splits)
qed

lemma zero_obeys: "obeys zero_fact (witness_step 1)"
  using witness_zero [of 0]
  by (auto simp: obeys_def zero_fact_def stores_def gpr_name_inj [of _ EDI, simplified])

theorem schedule_order_sound_witness:
  "\<forall>s. run witness_step [1, 0] s = run witness_step [0, 1] s"
proof
  fix s
  have d: "\<forall>i \<in> set witness_window.
      decode_ia32_bijection_instruction witness_body (bi_offset i) (\<lambda>_. None) = Inr i"
    by code_simp
  have t: "require_topological_instruction_order (len witness_window) [] [1, 0] = Inr ()"
    by code_simp
  have n: "length witness_window = 2" by (simp add: witness_window_def)
  have o: "\<forall>k < length witness_window. obeys ([load_fact, zero_fact] ! k) (witness_step k)"
    using load_obeys zero_obeys n by (auto simp: less_Suc_eq numeral_2_eq_2)
  have "run witness_step (map nat [1, 0]) s = run witness_step [0..<length witness_window] s"
    by (rule schedule_order_sound [OF d witness_edges t o]) (simp add: load_fact_def zero_fact_def)
  then show "run witness_step [1, 0] s = run witness_step [0, 1] s"
    by (simp add: n numeral_2_eq_2)
qed

end
