(* ===== verification/Register_Liveness.thy ===== *)
theory Register_Liveness
  imports Register_Semantics
begin

text \<open>
  Backward liveness of \<^verbatim>\<open>src/reprobit/classic/register_semantics.py\<close>
  (\<^verbatim>\<open>_ia32_backward_liveness\<close>, \<^verbatim>\<open>_ia32_live_out\<close>, \<^verbatim>\<open>_register_bijection_live_sets\<close>):
  the round-robin iteration over the control-flow graph with its round budget, and the
  proof that the budget always suffices and that the answer is exactly the set of atoms
  some path reads before it writes them.
\<close>

section \<open>The iteration\<close>

definition ia32_live_out :: "string set list \<Rightarrow> int list list \<Rightarrow> int \<Rightarrow> string set result" where
  "ia32_live_out live successors index =
     rbind (item successors index) (\<lambda>edges.
     rbind (rmap (item live) edges) (\<lambda>sets. Inr (\<Union> (set sets))))"

definition liveness_visit ::
    "bijection_instruction list \<Rightarrow> int list list \<Rightarrow> (int \<Rightarrow> string set option) \<Rightarrow>
     string set list \<times> bool \<Rightarrow> int \<Rightarrow> (string set list \<times> bool) result" where
  "liveness_visit insns successors blind s index =
     (case s of (live, changed) \<Rightarrow>
       rbind (item insns index) (\<lambda>i.
       rbind (ia32_live_out live successors index) (\<lambda>out.
       let hidden = (case blind index of None \<Rightarrow> {} | Some atoms \<Rightarrow> atoms);
           value = (out - bi_write_atoms i) \<union> (bi_read_atoms i - hidden)
       in rbind (item live index) (\<lambda>old.
          if value \<noteq> old then Inr (live[nat index := value], True) else Inr (live, changed)))))"

definition liveness_round ::
    "bijection_instruction list \<Rightarrow> int list list \<Rightarrow> (int \<Rightarrow> string set option) \<Rightarrow>
     string set list \<Rightarrow> (string set list \<times> bool) result" where
  "liveness_round insns successors blind live =
     rfold (liveness_visit insns successors blind) (live, False)
       (rev (pyrange 0 (len insns)))"

text \<open>The budgeted loop; running out of rounds is the error branch of its \<^verbatim>\<open>else\<close>.\<close>

primrec liveness_rounds ::
    "nat \<Rightarrow> bijection_instruction list \<Rightarrow> int list list \<Rightarrow> (int \<Rightarrow> string set option) \<Rightarrow>
     string set list \<Rightarrow> string set list result" where
  "liveness_rounds 0 insns successors blind live =
     Inl (ByteIdentityError ''liveness did not converge'')"
| "liveness_rounds (Suc budget) insns successors blind live =
     rbind (liveness_round insns successors blind live) (\<lambda>(live, changed).
       if changed then liveness_rounds budget insns successors blind live else Inr live)"

definition ia32_backward_liveness ::
    "bijection_instruction list \<Rightarrow> int list list \<Rightarrow> (int \<Rightarrow> string set option) \<Rightarrow>
     string set list result" where
  "ia32_backward_liveness insns successors blind =
     liveness_rounds (length insns * 20 + 20) insns successors blind
       (map (\<lambda>_. {}) insns)"

text \<open>\<^verbatim>\<open>index_of\<close>: a later instruction with the same offset replaces an earlier one.\<close>

definition index_of :: "bijection_instruction list \<Rightarrow> int \<Rightarrow> int option" where
  "index_of insns =
     map_of (rev (map (\<lambda>(index, i). (bi_offset i, index)) (enumerate_int insns)))"

definition flow_successors ::
    "bijection_instruction list \<Rightarrow> int \<times> bijection_instruction \<Rightarrow> int list result" where
  "flow_successors insns indexed =
     (case indexed of (index, i) \<Rightarrow>
       rbind (if bi_flow i \<in> {''fall'', ''jcc'', ''call''}
              then if index + 1 < len insns then Inr [index + 1]
                   else require (bi_flow i \<noteq> ''fall'') ''body falls off its end'' (Inr [])
              else Inr []) (\<lambda>edges.
       if bi_flow i \<in> {''jcc'', ''jmp''}
       then (case Option.bind (bi_target i) (index_of insns) of
               None \<Rightarrow> Inl KeyError | Some j \<Rightarrow> Inr (edges @ [j]))
       else Inr edges))"

definition register_bijection_live_sets ::
    "bijection_instruction list \<Rightarrow> (string set list \<times> int list list) result" where
  "register_bijection_live_sets insns =
     rbind (rmap (flow_successors insns) (enumerate_int insns)) (\<lambda>successors.
     rbind (ia32_backward_liveness insns successors (\<lambda>_. None)) (\<lambda>live.
     Inr (live, successors)))"

section \<open>Specification: atoms some path reads before writing\<close>

inductive exposed ::
    "bijection_instruction list \<Rightarrow> int list list \<Rightarrow> (int \<Rightarrow> string set option) \<Rightarrow> string \<Rightarrow> nat \<Rightarrow> bool"
  for insns successors blind atom where
  reads: "i < length insns \<Longrightarrow> atom \<in> bi_read_atoms (insns ! i) \<Longrightarrow>
    \<forall>hidden. blind (int i) = Some hidden \<longrightarrow> atom \<notin> hidden \<Longrightarrow>
    exposed insns successors blind atom i"
| passes: "i < length insns \<Longrightarrow> j \<in> set (successors ! i) \<Longrightarrow>
    exposed insns successors blind atom (nat j) \<Longrightarrow>
    atom \<notin> bi_write_atoms (insns ! i) \<Longrightarrow>
    exposed insns successors blind atom i"

definition flow_graph :: "bijection_instruction list \<Rightarrow> int list list \<Rightarrow> bool" where
  "flow_graph insns successors =
     (length successors = length insns
      \<and> list_all (list_all (\<lambda>e. 0 \<le> e \<and> e < len insns)) successors)"

section \<open>Convergence\<close>

definition visible_reads ::
    "bijection_instruction list \<Rightarrow> (int \<Rightarrow> string set option) \<Rightarrow> nat \<Rightarrow> string set" where
  "visible_reads insns blind i =
     bi_read_atoms (insns ! i) - (case blind (int i) of None \<Rightarrow> {} | Some atoms \<Rightarrow> atoms)"

definition transfer ::
    "bijection_instruction list \<Rightarrow> int list list \<Rightarrow> (int \<Rightarrow> string set option) \<Rightarrow>
     string set list \<Rightarrow> nat \<Rightarrow> string set" where
  "transfer insns successors blind live i =
     ((\<Union>e \<in> set (successors ! i). live ! nat e) - bi_write_atoms (insns ! i))
     \<union> visible_reads insns blind i"

lemma item_int [simp]: "i < length xs \<Longrightarrow> item xs (int i) = Inr (xs ! i)"
  by (simp add: item_def)

lemma item_in_range: "0 \<le> e \<Longrightarrow> e < len xs \<Longrightarrow> item xs e = Inr (xs ! nat e)"
  by (simp add: item_def)

lemma live_out_graph:
  assumes g: "flow_graph insns successors" and i: "i < length insns"
    and l: "length live = length insns"
  shows "ia32_live_out live successors (int i) = Inr (\<Union>e \<in> set (successors ! i). live ! nat e)"
proof -
  have ok: "list_all (\<lambda>e. 0 \<le> e \<and> e < len live) (successors ! i)"
    using g i l by (simp add: flow_graph_def list_all_length)
  have "rmap (item live) es = Inr (map (\<lambda>e. live ! nat e) es)"
    if "list_all (\<lambda>e. 0 \<le> e \<and> e < len live) es" for es
    using that by (induction es) (simp_all add: item_in_range rbind_def)
  then show ?thesis
    using g i ok by (simp add: ia32_live_out_def flow_graph_def)
qed

lemma visit_graph:
  assumes g: "flow_graph insns successors" and i: "i < length insns"
    and l: "length live = length insns"
  shows "liveness_visit insns successors blind (live, changed) (int i) =
    Inr (if transfer insns successors blind live i = live ! i then (live, changed)
         else (live[i := transfer insns successors blind live i], True))"
  using assms
  by (simp add: liveness_visit_def live_out_graph transfer_def visible_reads_def Let_def)

text \<open>The iteration stays below its own transfer function, inside the atoms, and below the specification.\<close>

definition ascending ::
    "string set \<Rightarrow> bijection_instruction list \<Rightarrow> int list list \<Rightarrow> (int \<Rightarrow> string set option) \<Rightarrow>
     string set list \<Rightarrow> bool" where
  "ascending atoms insns successors blind live =
     (length live = length insns
      \<and> (\<forall>i < length live. live ! i \<subseteq> transfer insns successors blind live i
           \<and> live ! i \<subseteq> atoms \<inter> {a. exposed insns successors blind a i}))"

lemma flow_graph_edge:
  assumes "flow_graph insns successors" "i < length insns" "e \<in> set (successors ! i)"
  shows "nat e < length insns"
proof -
  have "successors ! i \<in> set successors"
    using assms by (simp add: flow_graph_def)
  then have "0 \<le> e \<and> e < len insns"
    using assms unfolding flow_graph_def list_all_iff by blast
  then show ?thesis by auto
qed

lemma transfer_mono:
  assumes "flow_graph insns successors" "i < length insns"
    and "\<And>j. j < length insns \<Longrightarrow> live ! j \<subseteq> live' ! j"
  shows "transfer insns successors blind live i
    \<subseteq> transfer insns successors blind live' i"
  unfolding transfer_def using assms(3) flow_graph_edge [OF assms(1,2)] by blast

lemma transfer_sound:
  assumes a: "ascending atoms insns successors blind live"
    and g: "flow_graph insns successors" and i: "i < length insns"
    and r: "\<And>j. j < length insns \<Longrightarrow> bi_read_atoms (insns ! j) \<subseteq> atoms"
  shows "transfer insns successors blind live i
    \<subseteq> atoms \<inter> {a. exposed insns successors blind a i}"
proof
  fix x assume x: "x \<in> transfer insns successors blind live i"
  have edge: "nat e < length live" if "e \<in> set (successors ! i)" for e
    using a flow_graph_edge [OF g i that] by (simp add: ascending_def)
  from x consider (read) "x \<in> visible_reads insns blind i"
    | (pass) e where "e \<in> set (successors ! i)" "x \<in> live ! nat e"
        "x \<notin> bi_write_atoms (insns ! i)"
    by (auto simp: transfer_def)
  then show "x \<in> atoms \<inter> {a. exposed insns successors blind a i}"
  proof cases
    case read
    then show ?thesis
      using r [OF i] i by (auto simp: visible_reads_def intro!: exposed.reads split: option.splits)
  next
    case pass
    then show ?thesis
      using a edge [OF pass(1)] i unfolding ascending_def by (blast intro: exposed.passes)
  qed
qed

lemma ascending_visit:
  assumes a: "ascending atoms insns successors blind live"
    and g: "flow_graph insns successors" and i: "i < length insns"
    and r: "\<And>j. j < length insns \<Longrightarrow> bi_read_atoms (insns ! j) \<subseteq> atoms"
  shows "ascending atoms insns successors blind (live[i := transfer insns successors blind live i])"
    (is "ascending _ _ _ _ ?live'")
proof -
  have l: "length live = length insns"
    using a by (simp add: ascending_def)
  have up: "live ! j \<subseteq> ?live' ! j" if "j < length insns" for j
    using a that l by (cases "j = i") (simp_all add: ascending_def)
  have mono: "transfer insns successors blind live j \<subseteq> transfer insns successors blind ?live' j"
    if "j < length insns" for j
    using that by (rule transfer_mono [OF g]) (rule up)
  have "?live' ! j \<subseteq> transfer insns successors blind ?live' j
      \<and> ?live' ! j \<subseteq> atoms \<inter> {a. exposed insns successors blind a j}"
    if j: "j < length insns" for j
  proof (cases "j = i")
    case True
    then show ?thesis
      using mono [OF j] transfer_sound [OF a g i r] i l by simp
  next
    case False
    have "live ! j \<subseteq> transfer insns successors blind live j"
      "live ! j \<subseteq> atoms \<inter> {a. exposed insns successors blind a j}"
      using a j l unfolding ascending_def by simp_all
    moreover have "?live' ! j = live ! j"
      using False by simp
    ultimately show ?thesis
      using mono [OF j] by (simp only: subset_trans)
  qed
  then show ?thesis
    using l by (simp add: ascending_def)
qed

definition atom_count :: "string set list \<Rightarrow> nat" where
  "atom_count live = sum_list (map card live)"

lemma weight_update:
  assumes "i < length live" "live ! i \<subset> v" "finite v"
  shows "atom_count live < atom_count (live[i := v])"
proof -
  have "atom_count (live[i := v]) + card (live ! i) = atom_count live + card v"
    using assms(1)
  proof (induction live arbitrary: i)
    case (Cons x xs)
    then show ?case by (cases i) (simp_all add: atom_count_def)
  qed simp
  moreover have "card (live ! i) < card v"
    using assms by (intro psubset_card_mono) simp_all
  ultimately show ?thesis by linarith
qed

lemma weight_bound:
  assumes "ascending atoms insns successors blind live" "finite atoms"
  shows "atom_count live \<le> length insns * card atoms"
proof -
  have "\<forall>x \<in> set live. card x \<le> card atoms"
    using assms by (fastforce simp: ascending_def in_set_conv_nth intro: card_mono)
  then have "atom_count live \<le> length live * card atoms"
    by (induction live) (auto simp: atom_count_def)
  then show ?thesis
    using assms by (simp add: ascending_def)
qed

lemma ascending_grows:
  assumes a: "ascending atoms insns successors blind live" and fin: "finite atoms"
    and g: "flow_graph insns successors" and i: "i < length insns"
    and r: "\<And>j. j < length insns \<Longrightarrow> bi_read_atoms (insns ! j) \<subseteq> atoms"
    and c: "transfer insns successors blind live i \<noteq> live ! i"
  shows "atom_count live < atom_count (live[i := transfer insns successors blind live i])"
proof (rule weight_update)
  show "i < length live" using a i by (simp add: ascending_def)
  show "live ! i \<subset> transfer insns successors blind live i"
    using a i c by (auto simp: ascending_def)
  show "finite (transfer insns successors blind live i)"
    using transfer_sound [OF a g i r] fin by (meson finite_subset le_inf_iff)
qed

text \<open>One round, over any list of positions.\<close>

lemma visits_progress:
  assumes g: "flow_graph insns successors" and fin: "finite atoms"
    and r: "\<And>j. j < length insns \<Longrightarrow> bi_read_atoms (insns ! j) \<subseteq> atoms"
    and a: "ascending atoms insns successors blind live"
    and ks: "\<forall>k \<in> set ks. k < length insns"
  shows "\<exists>live' changed'.
    rfold (liveness_visit insns successors blind) (live, changed) (map int ks) = Inr (live', changed')
    \<and> ascending atoms insns successors blind live' \<and> atom_count live \<le> atom_count live'
    \<and> (changed' \<longrightarrow> changed \<or> atom_count live < atom_count live')
    \<and> (\<not> changed' \<longrightarrow> live' = live \<and> \<not> changed
         \<and> (\<forall>k \<in> set ks. transfer insns successors blind live k = live ! k))"
  using a ks
proof (induction ks arbitrary: live changed)
  case Nil
  then show ?case by simp
next
  case (Cons k ks)
  have k: "k < length insns" and l: "length live = length insns"
    using Cons.prems by (auto simp: ascending_def)
  show ?case
  proof (cases "transfer insns successors blind live k = live ! k")
    case True
    then show ?thesis
      using Cons.IH [of live changed] Cons.prems visit_graph [OF g k l, of blind changed]
      by auto
  next
    case False
    define live1 where "live1 = live[k := transfer insns successors blind live k]"
    have "atom_count live < atom_count live1"
      unfolding live1_def by (rule ascending_grows [OF Cons.prems(1) fin g k r False])
    moreover have "ascending atoms insns successors blind live1"
      unfolding live1_def by (rule ascending_visit [OF Cons.prems(1) g k r])
    ultimately show ?thesis
      using Cons.IH [of live1 True] Cons.prems False visit_graph [OF g k l, of blind changed]
      by (auto simp: live1_def)
  qed
qed

lemma round_progress:
  assumes "flow_graph insns successors" "finite atoms"
    "\<And>j. j < length insns \<Longrightarrow> bi_read_atoms (insns ! j) \<subseteq> atoms"
    "ascending atoms insns successors blind live"
  shows "\<exists>live' changed. liveness_round insns successors blind live = Inr (live', changed)
    \<and> ascending atoms insns successors blind live'
    \<and> (changed \<longrightarrow> atom_count live < atom_count live')
    \<and> (\<not> changed \<longrightarrow> live' = live
         \<and> (\<forall>k < length insns. transfer insns successors blind live k = live ! k))"
proof -
  have "rev (pyrange 0 (len insns)) = map int (rev [0..<length insns])"
    by (simp add: pyrange_nat rev_map)
  then show ?thesis
    using visits_progress [OF assms, of "rev [0..<length insns]" False]
    unfolding liveness_round_def by auto
qed

lemma rounds_converge:
  assumes g: "flow_graph insns successors" and fin: "finite atoms"
    and r: "\<And>j. j < length insns \<Longrightarrow> bi_read_atoms (insns ! j) \<subseteq> atoms"
    and a: "ascending atoms insns successors blind live"
    and b: "length insns * card atoms < atom_count live + budget"
  shows "\<exists>live'. liveness_rounds budget insns successors blind live = Inr live'
    \<and> ascending atoms insns successors blind live'
    \<and> (\<forall>k < length insns. transfer insns successors blind live' k = live' ! k)"
  using a b
proof (induction budget arbitrary: live)
  case 0
  then show ?case using weight_bound [OF 0(1) fin] by simp
next
  case (Suc budget)
  obtain live' changed where *: "liveness_round insns successors blind live = Inr (live', changed)"
    "ascending atoms insns successors blind live'"
    "changed \<longrightarrow> atom_count live < atom_count live'"
    "\<not> changed \<longrightarrow> live' = live
       \<and> (\<forall>k < length insns. transfer insns successors blind live k = live ! k)"
    using round_progress [OF g fin r Suc.prems(1)] by blast
  show ?case
  proof (cases changed)
    case True
    then show ?thesis
      using Suc.IH [OF *(2)] Suc.prems(2) * by simp
  next
    case False
    then show ?thesis using * by simp
  qed
qed

text \<open>A fixpoint below the specification is the specification.\<close>

lemma fixpoint_exact:
  assumes a: "ascending atoms insns successors blind live"
    and f: "\<forall>k < length insns. transfer insns successors blind live k = live ! k"
    and g: "flow_graph insns successors" and i: "i < length insns"
  shows "x \<in> live ! i \<longleftrightarrow> exposed insns successors blind x i"
proof
  assume "x \<in> live ! i"
  then show "exposed insns successors blind x i"
    using a i by (auto simp: ascending_def)
next
  assume "exposed insns successors blind x i"
  then show "x \<in> live ! i"
  proof (induction rule: exposed.induct)
    case (reads i)
    then have "x \<in> transfer insns successors blind live i"
      by (auto simp: transfer_def visible_reads_def split: option.splits)
    then show ?case using f reads by simp
  next
    case (passes i j)
    then have "x \<in> transfer insns successors blind live i"
      unfolding transfer_def by blast
    then show ?case using f passes by simp
  qed
qed

lemma backward_liveness_exact:
  assumes g: "flow_graph insns successors" and fin: "finite atoms" and c: "card atoms \<le> 20"
    and r: "\<And>j. j < length insns \<Longrightarrow> bi_read_atoms (insns ! j) \<subseteq> atoms"
  shows "\<exists>live. ia32_backward_liveness insns successors blind = Inr live
    \<and> length live = length insns
    \<and> (\<forall>i < length insns. \<forall>x. x \<in> live ! i \<longleftrightarrow> exposed insns successors blind x i)"
proof -
  let ?start = "map (\<lambda>_. {}) insns"
  have a: "ascending atoms insns successors blind ?start"
    by (simp add: ascending_def)
  have "length insns * card atoms \<le> length insns * 20"
    using c by simp
  then have b: "length insns * card atoms < atom_count ?start + (length insns * 20 + 20)"
    by linarith
  obtain live where "ia32_backward_liveness insns successors blind = Inr live"
    "ascending atoms insns successors blind live"
    "\<forall>k < length insns. transfer insns successors blind live k = live ! k"
    using rounds_converge [OF g fin r a b] unfolding ia32_backward_liveness_def by blast
  moreover from this have "length live = length insns"
    by (simp add: ascending_def)
  ultimately show ?thesis
    using fixpoint_exact [OF _ _ g] by blast
qed

section \<open>The control-flow graph of a decoded body\<close>

lemma set_enumerate_int: "set (enumerate_int xs) = {(int k, xs ! k) | k. k < length xs}"
  by (force simp: enumerate_int_def pyrange_def set_zip)

lemma index_of_range: "index_of insns t = Some j \<Longrightarrow> 0 \<le> j \<and> j < len insns"
  unfolding index_of_def by (drule map_of_SomeD) (auto simp: set_enumerate_int)

lemma index_of_total:
  assumes "t \<in> bi_offset ` set insns"
  shows "index_of insns t \<noteq> None"
proof -
  obtain k where "k < length insns" "t = bi_offset (insns ! k)"
    using assms by (auto simp: in_set_conv_nth)
  then have "(int k, insns ! k) \<in> set (enumerate_int insns)"
    by (auto simp: set_enumerate_int)
  then show ?thesis
    unfolding index_of_def map_of_eq_None_iff using \<open>t = _\<close> by force
qed

lemma flow_successors_total:
  assumes b: "decode_ia32_bijection_body body relocations code_length = Inr insns"
    and k: "k < length insns" and f: "bi_flow (insns ! k) = ''fall'' \<Longrightarrow> Suc k < length insns"
  shows "\<exists>edges. flow_successors insns (int k, insns ! k) = Inr edges
    \<and> (\<forall>e \<in> set edges. 0 \<le> e \<and> e < len insns)"
  using b
proof (rule bijection_body_cases)
  fix limit
  assume r: "bijection_run (pslice body 0 limit) 0 relocations = Inr insns"
    and t: "\<And>i t. i \<in> set insns \<Longrightarrow> bi_target i = Some t \<Longrightarrow> t \<in> bi_offset ` set insns"
  have "\<exists>j. Option.bind (bi_target (insns ! k)) (index_of insns) = Some j \<and> 0 \<le> j \<and> j < len insns"
    if j: "bi_flow (insns ! k) \<in> {''jcc'', ''jmp''}"
  proof -
    obtain target where target: "bi_target (insns ! k) = Some target"
      using decode_bijection_target [OF _ j] bijection_run_ok [OF r order_refl] nth_mem [OF k]
      by blast
    then obtain j where "index_of insns target = Some j"
      using index_of_total [OF t [OF nth_mem [OF k] target]] by auto
    then show ?thesis
      using target index_of_range by simp
  qed
  then show ?thesis
    using f k by (auto simp: flow_successors_def)
qed

lemma live_sets_graph:
  assumes b: "decode_ia32_bijection_body body relocations code_length = Inr insns"
    and f: "bi_flow (last insns) \<noteq> ''fall''"
  obtains successors where
    "rmap (flow_successors insns) (enumerate_int insns) = Inr successors"
    "flow_graph insns successors"
    "\<forall>k < length insns. flow_successors insns (int k, insns ! k) = Inr (successors ! k)"
proof -
  have total: "\<exists>edges. flow_successors insns (int k, insns ! k) = Inr edges
      \<and> (\<forall>e \<in> set edges. 0 \<le> e \<and> e < len insns)" if k: "k < length insns" for k
  proof (rule flow_successors_total [OF b k])
    assume "bi_flow (insns ! k) = ''fall''"
    then have "insns ! k \<noteq> last insns" using f by auto
    then have "k \<noteq> length insns - 1" using k by (cases insns) (auto simp: last_conv_nth)
    then show "Suc k < length insns" using k by simp
  qed
  have "\<exists>successors. rmap (flow_successors insns) (enumerate_int insns) = Inr successors"
  proof (rule rmap_all_exist)
    fix x assume "x \<in> set (enumerate_int insns)"
    then obtain k where "k < length insns" "x = (int k, insns ! k)"
      unfolding set_enumerate_int by blast
    then show "\<exists>y. flow_successors insns x = Inr y" using total by blast
  qed
  then obtain successors where
    s: "rmap (flow_successors insns) (enumerate_int insns) = Inr successors" ..
  have l: "length successors = length insns" and
    nth: "\<forall>k < length insns. flow_successors insns (int k, insns ! k) = Inr (successors ! k)"
    using rmap_length [OF s] rmap_nth [OF s]
    by (simp_all add: enumerate_int_def pyrange_def)
  have "\<forall>e \<in> set (successors ! k). 0 \<le> e \<and> e < len insns" if "k < length insns" for k
    using total [OF that] nth that by auto
  then have "flow_graph insns successors"
    using l by (simp add: flow_graph_def list_all_length [of _ successors]) (simp add: list_all_iff)
  then show thesis
    using that s nth by blast
qed

lemma finite_all_atoms: "finite all_atoms" "card all_atoms \<le> 20"
proof -
  have eq: "all_atoms = {''eax.l'', ''eax.h'', ''eax.u'', ''ecx.l'', ''ecx.h'', ''ecx.u'',
      ''edx.l'', ''edx.h'', ''edx.u'', ''ebx.l'', ''ebx.h'', ''ebx.u'',
      ''esp.w'', ''ebp.w'', ''esi.w'', ''edi.w''}"
    by (auto simp: all_atoms_def register_atoms_def register_atoms_of_def register_names_def
        byte_addressable_def)
  show "finite all_atoms" unfolding eq by simp
  show "card all_atoms \<le> 20" unfolding eq by simp
qed

section \<open>Properties\<close>

lemma rmap_fails_last: "\<forall>x \<in> set xs. \<exists>y. f x = Inr y \<Longrightarrow> f z = Inl e \<Longrightarrow> rmap f (xs @ [z]) = Inl e"
  by (induction xs) auto

lemma live_sets_fall:
  assumes b: "decode_ia32_bijection_body body relocations code_length = Inr insns" and f: "bi_flow (last insns) = ''fall''"
  shows "register_bijection_live_sets insns = Inl (ByteIdentityError ''body falls off its end'')"
proof -
  have ne: "insns \<noteq> []" using b by (rule bijection_body_cases)
  define n where "n = length insns - 1"
  have n: "length insns = Suc n" "last insns = insns ! n" using ne by (simp_all add: n_def last_conv_nth)
  have e: "enumerate_int insns = map (\<lambda>k. (int k, insns ! k)) [0..<n] @ [(int n, last insns)]"
    by (rule nth_equalityI) (auto simp: enumerate_int_def n nth_append less_Suc_eq pyrange_def nat_add_distrib)
  have "\<forall>x \<in> set (map (\<lambda>k. (int k, insns ! k)) [0..<n]). \<exists>y. flow_successors insns x = Inr y"
  proof -
    have "\<exists>y. flow_successors insns (int k, insns ! k) = Inr y" if "k < n" for k
      using flow_successors_total [OF b, of k] n(1) that by auto
    then show ?thesis by auto
  qed
  moreover have "flow_successors insns (int n, last insns) = Inl (ByteIdentityError ''body falls off its end'')"
    using f n(1) by (simp add: flow_successors_def)
  ultimately have "rmap (flow_successors insns) (enumerate_int insns) = Inl (ByteIdentityError ''body falls off its end'')"
    unfolding e by (rule rmap_fails_last)
  then show ?thesis by (simp add: register_bijection_live_sets_def)
qed

lemma live_sets_exact:
  assumes b: "decode_ia32_bijection_body body relocations code_length = Inr insns"
    and f: "bi_flow (last insns) \<noteq> ''fall''"
  shows "\<exists>live successors. register_bijection_live_sets insns = Inr (live, successors)
    \<and> length live = length insns
    \<and> (\<forall>k < length insns. flow_successors insns (int k, insns ! k) = Inr (successors ! k))
    \<and> (\<forall>k < length insns. \<forall>atom.
         atom \<in> live ! k \<longleftrightarrow> exposed insns successors (\<lambda>_. None) atom k)"
proof -
  obtain successors where s: "rmap (flow_successors insns) (enumerate_int insns) = Inr successors"
    and g: "flow_graph insns successors"
    and n: "\<forall>k < length insns. flow_successors insns (int k, insns ! k) = Inr (successors ! k)"
    using live_sets_graph [OF assms] .
  have r: "bi_read_atoms (insns ! k) \<subseteq> all_atoms" if "k < length insns" for k
    using body_instruction(1) [OF b that] by (simp add: instruction_ok_def)
  obtain live where "ia32_backward_liveness insns successors (\<lambda>_. None) = Inr live"
    "length live = length insns"
    "\<forall>k < length insns. \<forall>atom. atom \<in> live ! k \<longleftrightarrow> exposed insns successors (\<lambda>_. None) atom k"
    using backward_liveness_exact [OF g finite_all_atoms r, of "\<lambda>_. None"] by blast
  then show ?thesis
    using s n by (auto simp: register_bijection_live_sets_def)
qed

text \<open>
  C23.  Liveness of a decoded body is refused exactly when the body ends in an instruction that
  falls through, with the error that the body falls off its end; of every other body it
  converges within the round budget and is exact: the control-flow graph it walks has one edge
  list per instruction, and an atom is reported live before an instruction if and only if some
  path from there reads it before writing it.
\<close>

theorem register_liveness_exact:
  assumes "decode_ia32_bijection_body body relocations code_length = Inr insns"
  shows "if bi_flow (last insns) = ''fall''
    then register_bijection_live_sets insns = Inl (ByteIdentityError ''body falls off its end'')
    else \<exists>live successors. register_bijection_live_sets insns = Inr (live, successors)
      \<and> length live = length insns
      \<and> (\<forall>k < length insns. flow_successors insns (int k, insns ! k) = Inr (successors ! k))
      \<and> (\<forall>k < length insns. \<forall>atom.
           atom \<in> live ! k \<longleftrightarrow> exposed insns successors (\<lambda>_. None) atom k)"
  using live_sets_fall [OF assms] live_sets_exact [OF assms] by simp

theorem register_liveness_exact_witness:
  "\<exists>live successors. register_bijection_live_sets
     (projr (decode_ia32_bijection_body [0x74, 0x01, 0x90, 0xC3] (\<lambda>_. None) None))
     = Inr (live, successors) \<and> length live = 3"
proof -
  have d: "decode_ia32_bijection_body [0x74, 0x01, 0x90, 0xC3] (\<lambda>_. None) None =
    Inr (projr (decode_ia32_bijection_body [0x74, 0x01, 0x90, 0xC3] (\<lambda>_. None) None))"
    by code_simp
  have f: "bi_flow (last (projr (decode_ia32_bijection_body [0x74, 0x01, 0x90, 0xC3] (\<lambda>_. None) None)))
      \<noteq> ''fall''"
    by code_simp
  have "length (projr (decode_ia32_bijection_body [0x74, 0x01, 0x90, 0xC3] (\<lambda>_. None) None)) = 3"
    by code_simp
  then show ?thesis
    using register_liveness_exact [OF d] f by auto
qed

end
