(* ===== verification/Register_Webs.thy ===== *)
theory Register_Webs
  imports Register_Liveness
begin

text \<open>
  Register webs, from \<^verbatim>\<open>src/reprobit/classic/scheduling_webs.py\<close>: the complete
  control-flow graph of a body, the uses a definition reaches and the definitions that
  reach a use.  The three traversals are instances of one stack search.
\<close>

section \<open>The stack search\<close>

text \<open>
  Pop an index, skip it when it was seen, mark it and push what it expands to.  The head of
  the list is the top of the Python stack.  Every traversal indexes a list of \<open>n\<close> entries
  with the popped index, so an index outside it is an \<^verbatim>\<open>IndexError\<close>.
\<close>

function search :: "nat \<Rightarrow> (int \<Rightarrow> int list result) \<Rightarrow> int list \<Rightarrow> int list \<Rightarrow> int list result" where
  "search n expand [] seen = Inr seen"
| "search n expand (index # stack) seen =
     (if index \<in> set seen then search n expand stack seen
      else if \<not> (- int n \<le> index \<and> index < int n) then Inl IndexError
      else rbind (expand index) (\<lambda>pushed. search n expand (rev pushed @ stack) (index # seen)))"
  by pat_completeness auto
termination
proof (relation "measures [\<lambda>(n, expand, stack, seen). card ({- int n..<int n} - set seen),
    \<lambda>(n, expand, stack, seen). length stack]")
  fix n expand index stack seen pushed
  assume "\<not> index \<in> set seen" "\<not> \<not> (- int n \<le> index \<and> index < int n)"
  then have "index \<in> {- int n..<int n} - set seen" by simp
  then have "card ({- int n..<int n} - set seen - {index}) < card ({- int n..<int n} - set seen)"
    by (intro card_Diff1_less) simp_all
  moreover have "{- int n..<int n} - set (index # seen) = {- int n..<int n} - set seen - {index}"
    by auto
  ultimately have "card ({- int n..<int n} - set (index # seen)) < card ({- int n..<int n} - set seen)"
    by (simp only:)
  then show "((n, expand, rev pushed @ stack, index # seen), n, expand, index # stack, seen)
      \<in> measures [\<lambda>(n, expand, stack, seen). card ({- int n..<int n} - set seen),
          \<lambda>(n, expand, stack, seen). length stack]"
    by simp
qed simp_all

text \<open>What a search visits: the indices reachable from its stack.\<close>

inductive visited :: "(int \<Rightarrow> int list result) \<Rightarrow> int list \<Rightarrow> int \<Rightarrow> bool"
  for expand stack where
  on_stack: "k \<in> set stack \<Longrightarrow> visited expand stack k"
| expanded: "visited expand stack k \<Longrightarrow> expand k = Inr pushed \<Longrightarrow> j \<in> set pushed \<Longrightarrow>
    visited expand stack j"

inductive_cases visitedE: "visited expand stack k"

text \<open>The search adds exactly what it reaches, and everything it adds has an expansion.\<close>

lemma search_invariant:
  assumes "search n expand stack seen = Inr out"
    and "\<forall>k \<in> set seen. \<exists>pushed. expand k = Inr pushed \<and> set pushed \<subseteq> set seen \<union> set stack"
  shows "set seen \<union> set stack \<subseteq> set out
    \<and> (\<forall>k \<in> set out. \<exists>pushed. expand k = Inr pushed \<and> set pushed \<subseteq> set out)
    \<and> (\<forall>k \<in> set out. k \<in> set seen \<or> visited expand stack k)"
  using assms
proof (induction n expand stack seen arbitrary: out rule: search.induct)
  case (1 n expand seen)
  then show ?case by auto
next
  case (2 n expand index stack seen)
  have weaken: "visited expand stack k \<Longrightarrow> visited expand (index # stack) k" for k
    by (induction rule: visited.induct) (auto intro: visited.intros)
  show ?case
  proof (cases "index \<in> set seen")
    case True
    then show ?thesis
      using "2.IH"(1) [OF True] "2.prems" weaken by (auto simp: insert_absorb)
  next
    case False
    then have r: "- int n \<le> index \<and> index < int n"
      using "2.prems"(1) by (auto split: if_splits)
    then obtain pushed where m: "expand index = Inr pushed"
      and s: "search n expand (rev pushed @ stack) (index # seen) = Inr out"
      using "2.prems"(1) False by auto
    have "\<forall>k \<in> set (index # seen). \<exists>pushed'. expand k = Inr pushed'
        \<and> set pushed' \<subseteq> set (index # seen) \<union> set (rev pushed @ stack)"
      using "2.prems"(2) m by fastforce
    then have ih: "set (index # seen) \<union> set (rev pushed @ stack) \<subseteq> set out"
      "\<forall>k \<in> set out. \<exists>pushed. expand k = Inr pushed \<and> set pushed \<subseteq> set out"
      "\<forall>k \<in> set out. k \<in> set (index # seen) \<or> visited expand (rev pushed @ stack) k"
      using "2.IH"(2) [OF False] r m s by auto
    have up: "visited expand (rev pushed @ stack) k \<Longrightarrow> visited expand (index # stack) k" for k
    proof (induction rule: visited.induct)
      case (on_stack k)
      have "visited expand (index # stack) index" by (simp add: visited.on_stack)
      then show ?case
        using on_stack m visited.expanded [of expand "index # stack" index pushed k]
        by (auto intro: visited.on_stack)
    qed (auto intro: visited.intros)
    have "visited expand (index # stack) index" by (simp add: visited.on_stack)
    then have "\<forall>k \<in> set out. k \<in> set seen \<or> visited expand (index # stack) k"
      using ih(3) up by (metis set_ConsD)
    then show ?thesis
      using ih(1,2) by auto
  qed
qed

lemma search_exact:
  assumes "search n expand stack [] = Inr out"
  shows "k \<in> set out \<longleftrightarrow> visited expand stack k"
    and "k \<in> set out \<Longrightarrow> \<exists>pushed. expand k = Inr pushed"
proof -
  note inv = search_invariant [OF assms]
  show "k \<in> set out \<longleftrightarrow> visited expand stack k"
  proof
    show "k \<in> set out \<Longrightarrow> visited expand stack k" using inv by auto
    assume "visited expand stack k"
    then show "k \<in> set out"
    proof (induction rule: visited.induct)
      case (on_stack k)
      then show ?case using inv by auto
    next
      case (expanded k pushed j)
      then show ?case using inv by fastforce
    qed
  qed
  show "k \<in> set out \<Longrightarrow> \<exists>pushed. expand k = Inr pushed" using inv by auto
qed

text \<open>A search over indices in range fails only where an expansion fails.\<close>

lemma search_total:
  assumes "\<And>k. visited expand stack k \<Longrightarrow> 0 \<le> k \<and> k < int n \<and> (\<exists>pushed. expand k = Inr pushed)"
  shows "\<exists>out. search n expand stack seen = Inr out"
  using assms
proof (induction n expand stack seen rule: search.induct)
  case (2 n expand index stack seen)
  have top: "visited expand (index # stack) index" by (simp add: visited.on_stack)
  have less: "visited expand stack k \<Longrightarrow> visited expand (index # stack) k" for k
    by (induction rule: visited.induct) (auto intro: visited.intros)
  show ?case
  proof (cases "index \<in> set seen")
    case True
    then show ?thesis using "2.IH"(1) [OF True] "2.prems" less by auto
  next
    case False
    obtain pushed where m: "expand index = Inr pushed" and r: "0 \<le> index" "index < int n" using "2.prems" [OF top] by auto
    have up: "visited expand (rev pushed @ stack) k \<Longrightarrow> visited expand (index # stack) k" for k
    proof (induction rule: visited.induct)
      case (on_stack k)
      then show ?case using visited.expanded [OF top m, of k] by (auto intro: visited.on_stack)
    qed (auto intro: visited.intros)
    show ?thesis using "2.IH"(2) [OF False _ m] "2.prems" up False r m by auto
  qed
qed simp

section \<open>The control-flow graph\<close>

definition web_edges ::
    "bijection_instruction list \<Rightarrow> int list option \<Rightarrow> int \<times> bijection_instruction \<Rightarrow> int list result" where
  "web_edges insns internal_targets indexed =
     (case indexed of (index, i) \<Rightarrow>
       rbind (if bi_flow i \<in> {''fall'', ''jcc'', ''call''}
              then if index + 1 < len insns then Inr [index + 1]
                   else require (bi_flow i \<noteq> ''fall'') ''body falls off its end'' (Inr [])
              else Inr []) (\<lambda>edges.
       rbind (case bi_target i of
                None \<Rightarrow> Inr edges
              | Some target \<Rightarrow>
                  if bi_flow i \<in> {''jcc'', ''jmp''}
                  then (case index_of insns target of
                          None \<Rightarrow> Inl KeyError | Some j \<Rightarrow> Inr (edges @ [j]))
                  else Inr edges) (\<lambda>edges.
       if bi_indirect i
       then (case internal_targets of
               None \<Rightarrow> Inl (ByteIdentityError ''a computed jump requires the relocated in-body target set'')
             | Some targets \<Rightarrow>
                 Inr (edges @ concat (map (\<lambda>t. case index_of insns t of None \<Rightarrow> [] | Some j \<Rightarrow> [j])
                                       (sort targets))))
       else Inr edges)))"

text \<open>\<^verbatim>\<open>internal_targets\<close> and \<^verbatim>\<open>entry_offsets\<close> are sets; they come as lists without repetition.\<close>

definition ia32_web_control_flow ::
    "bijection_instruction list \<Rightarrow> int list option \<Rightarrow> int list option \<Rightarrow> int list list result" where
  "ia32_web_control_flow insns internal_targets entry_offsets =
     rbind (rmap (web_edges insns internal_targets) (enumerate_int insns)) (\<lambda>edge_lists.
     let successors = map (\<lambda>edges. sort (remdups edges)) edge_lists;
         entries = (case entry_offsets of None \<Rightarrow> []
           | Some offsets \<Rightarrow> concat (map (\<lambda>t. case index_of insns t of None \<Rightarrow> [] | Some j \<Rightarrow> [j])
                               (sort offsets)))
     in rbind (search (length successors) (item successors) (rev (0 # entries)) []) (\<lambda>seen.
        require (list_all (\<lambda>index. index \<in> set seen) (pyrange 0 (len insns)))
          ''an instruction is unreachable from the entry, so the control-flow graph is incomplete''
          (Inr successors)))"

definition predecessor_step ::
    "int list list \<Rightarrow> int \<times> int list \<Rightarrow> int list list result" where
  "predecessor_step predecessors indexed =
     (case indexed of (index, edges) \<Rightarrow>
       rfold (\<lambda>ps edge. rbind (item ps edge) (\<lambda>old.
         Inr (ps[nat (if edge < 0 then len ps + edge else edge) := old @ [index]])))
         predecessors edges)"

definition ia32_web_predecessors :: "int list list \<Rightarrow> int list list result" where
  "ia32_web_predecessors successors =
     rfold predecessor_step (map (\<lambda>_. []) successors) (enumerate_int successors)"

section \<open>Webs\<close>

text \<open>Forward: stop at a full redefinition, refuse a partial one.\<close>

definition forward_expand ::
    "bijection_instruction list \<Rightarrow> int list list \<Rightarrow> string set \<Rightarrow> int \<Rightarrow> int list result" where
  "forward_expand insns successors atoms index =
     rbind (item insns index) (\<lambda>i.
       if atoms \<inter> bi_write_atoms i \<noteq> {}
       then require (atoms \<subseteq> bi_write_atoms i)
              ''the instruction partially redefines the web's register inside its range'' (Inr [])
       else item successors index)"

definition ia32_web_reached_uses ::
    "bijection_instruction list \<Rightarrow> int list list \<Rightarrow> int list \<Rightarrow> string set \<Rightarrow>
     (int list \<times> int list) result" where
  "ia32_web_reached_uses insns successors definitions atoms =
     rbind (rmap (item successors) definitions) (\<lambda>starts.
     rbind (search (length insns) (forward_expand insns successors atoms) (rev (concat starts)) [])
       (\<lambda>interior.
     rbind (rmap (item insns) interior) (\<lambda>items.
       Inr (map fst (filter (\<lambda>(k, i). atoms \<inter> bi_read_atoms i \<noteq> {}) (zip interior items)), interior))))"

text \<open>
  Backward: a predecessor that defines the register ends the walk, one that does not is
  walked further; the entry and an index without predecessors are refused.
\<close>

definition split_predecessor ::
    "bijection_instruction list \<Rightarrow> string set \<Rightarrow> int list \<times> int list \<Rightarrow> int \<Rightarrow> (int list \<times> int list) result" where
  "split_predecessor insns atoms s previous =
     (case s of (reaching, pushed) \<Rightarrow>
       rbind (item insns previous) (\<lambda>i.
         if atoms \<inter> bi_write_atoms i \<noteq> {}
         then require (atoms \<subseteq> bi_write_atoms i)
                ''the instruction partially defines the web's register''
                (Inr (reaching @ [previous], pushed))
         else Inr (reaching, pushed @ [previous])))"

definition backward_split ::
    "bijection_instruction list \<Rightarrow> int list list \<Rightarrow> int list \<Rightarrow> string set \<Rightarrow> int \<Rightarrow>
     (int list \<times> int list) result" where
  "backward_split insns predecessors uses atoms index =
     require (index \<noteq> 0 \<or> index \<in> set uses)
       ''the function's entry reaches a declared use'' (
     rbind (item predecessors index) (\<lambda>previous.
     rbind (rfold (split_predecessor insns atoms) ([], []) previous) (\<lambda>(reaching, pushed).
     require (previous \<noteq> [] \<or> index \<in> set uses)
       ''an instruction has no predecessor, so a use is reached by no definition''
       (Inr (reaching, pushed)))))"

definition backward_expand ::
    "bijection_instruction list \<Rightarrow> int list list \<Rightarrow> int list \<Rightarrow> string set \<Rightarrow> int \<Rightarrow> int list result" where
  "backward_expand insns predecessors uses atoms index =
     rbind (backward_split insns predecessors uses atoms index) (\<lambda>(reaching, pushed). Inr pushed)"

definition ia32_web_reaching_definitions ::
    "bijection_instruction list \<Rightarrow> int list list \<Rightarrow> int list \<Rightarrow> string set \<Rightarrow>
     (int list \<times> int list) result" where
  "ia32_web_reaching_definitions insns predecessors uses atoms =
     rbind (search (length predecessors) (backward_expand insns predecessors uses atoms) (rev uses) [])
       (\<lambda>seen.
     rbind (rmap (backward_split insns predecessors uses atoms) seen) (\<lambda>splits.
       Inr (concat (map fst splits), seen)))"

section \<open>Properties\<close>

text \<open>
  The positions between a set of definitions and the next full redefinition: the successors
  of a definition, and the successors of every such position that leaves the atoms alone.
\<close>

inductive between ::
    "bijection_instruction list \<Rightarrow> int list list \<Rightarrow> int list \<Rightarrow> string set \<Rightarrow> int \<Rightarrow> bool"
  for insns successors definitions atoms where
  after_definition: "d \<in> set definitions \<Longrightarrow> item successors d = Inr edges \<Longrightarrow> e \<in> set edges \<Longrightarrow>
    between insns successors definitions atoms e"
| after_neutral: "between insns successors definitions atoms k \<Longrightarrow> item insns k = Inr i \<Longrightarrow>
    atoms \<inter> bi_write_atoms i = {} \<Longrightarrow> item successors k = Inr edges \<Longrightarrow> e \<in> set edges \<Longrightarrow>
    between insns successors definitions atoms e"

lemma between_visited:
  assumes s: "rmap (item successors) definitions = Inr starts"
  shows "visited (forward_expand insns successors atoms) (rev (concat starts)) k
    \<longleftrightarrow> between insns successors definitions atoms k"
proof
  assume "visited (forward_expand insns successors atoms) (rev (concat starts)) k"
  then show "between insns successors definitions atoms k"
  proof (induction rule: visited.induct)
    case (on_stack k)
    then obtain edges where "edges \<in> set starts" "k \<in> set edges" by auto
    then show ?case
      using rmap_in_set [OF s] by (metis between.after_definition)
  next
    case (expanded k pushed j)
    then show ?case
      by (auto simp: forward_expand_def split: if_splits intro: between.after_neutral)
  qed
next
  assume "between insns successors definitions atoms k"
  then show "visited (forward_expand insns successors atoms) (rev (concat starts)) k"
  proof (induction rule: between.induct)
    case (after_definition d edges e)
    then have "edges \<in> set starts"
      using rmap_member [OF s after_definition(1)] by auto
    then show ?case
      using after_definition by (auto intro!: visited.on_stack)
  next
    case (after_neutral k i edges e)
    then show ?case
      by (auto simp: forward_expand_def intro!: visited.expanded [of _ _ k edges e])
  qed
qed

text \<open>What an accepted traversal says.\<close>

lemma reached_uses_exact:
  assumes "ia32_web_reached_uses insns successors definitions atoms = Inr (reached, interior)"
  shows "\<forall>k. k \<in> set interior \<longleftrightarrow> between insns successors definitions atoms k"
    "\<forall>k. k \<in> set reached \<longleftrightarrow>
         between insns successors definitions atoms k
         \<and> (\<exists>i. item insns k = Inr i \<and> atoms \<inter> bi_read_atoms i \<noteq> {})"
    "\<forall>k. between insns successors definitions atoms k \<longrightarrow>
         (\<exists>i. item insns k = Inr i
            \<and> (atoms \<inter> bi_write_atoms i = {} \<or> atoms \<subseteq> bi_write_atoms i))"
proof -
  obtain starts items where s: "rmap (item successors) definitions = Inr starts"
    and v: "search (length insns) (forward_expand insns successors atoms) (rev (concat starts)) []
      = Inr interior"
    and i: "rmap (item insns) interior = Inr items"
    and r: "reached = map fst (filter (\<lambda>(k, i). atoms \<inter> bi_read_atoms i \<noteq> {}) (zip interior items))"
    using assms by (auto simp: ia32_web_reached_uses_def)
  have int: "k \<in> set interior \<longleftrightarrow> between insns successors definitions atoms k" for k
    using search_exact(1) [OF v] between_visited [OF s] by blast
  have l: "length items = length interior" using rmap_length [OF i] .
  have pair: "(k, j) \<in> set (zip interior items) \<longleftrightarrow> k \<in> set interior \<and> item insns k = Inr j" for k j
    using rmap_nth [OF i] l by (fastforce simp: set_zip in_set_conv_nth)
  have reached: "k \<in> set reached \<longleftrightarrow> k \<in> set interior
      \<and> (\<exists>i. item insns k = Inr i \<and> atoms \<inter> bi_read_atoms i \<noteq> {})" for k
    unfolding r using pair by force
  have "\<exists>i. item insns k = Inr i \<and> (atoms \<inter> bi_write_atoms i = {} \<or> atoms \<subseteq> bi_write_atoms i)"
    if "k \<in> set interior" for k
    using search_exact(2) [OF v that] by (auto simp: forward_expand_def split: if_splits)
  then show "\<forall>k. k \<in> set interior \<longleftrightarrow> between insns successors definitions atoms k"
    "\<forall>k. k \<in> set reached \<longleftrightarrow>
         between insns successors definitions atoms k
         \<and> (\<exists>i. item insns k = Inr i \<and> atoms \<inter> bi_read_atoms i \<noteq> {})"
    "\<forall>k. between insns successors definitions atoms k \<longrightarrow>
         (\<exists>i. item insns k = Inr i
            \<and> (atoms \<inter> bi_write_atoms i = {} \<or> atoms \<subseteq> bi_write_atoms i))"
    using int reached by blast+
qed

lemma between_range:
  assumes g: "flow_graph insns successors" and b: "between insns successors definitions atoms k"
    and d: "\<forall>d \<in> set definitions. 0 \<le> d \<and> d < len insns"
  shows "0 \<le> k \<and> k < len insns"
  using b
proof (induction rule: between.induct)
  case (after_definition d' edges e)
  then have "0 \<le> d'" "d' < len insns" using d by auto
  then have "edges \<in> set successors"
    using after_definition(2) g by (auto simp: item_in_range flow_graph_def)
  then show ?case using g after_definition(3) by (auto simp: flow_graph_def list_all_iff)
next
  case (after_neutral k i edges e)
  then have "edges \<in> set successors" using g by (auto simp: item_in_range flow_graph_def)
  then show ?case using g after_neutral by (auto simp: flow_graph_def list_all_iff)
qed

lemma reached_uses_total:
  assumes g: "flow_graph insns successors" and d: "\<forall>d \<in> set definitions. 0 \<le> d \<and> d < len insns"
    and p: "\<forall>k. between insns successors definitions atoms k \<longrightarrow>
         atoms \<inter> bi_write_atoms (insns ! nat k) = {} \<or> atoms \<subseteq> bi_write_atoms (insns ! nat k)"
  shows "\<exists>r. ia32_web_reached_uses insns successors definitions atoms = Inr r"
proof -
  have at: "item insns k = Inr (insns ! nat k)" "item successors k = Inr (successors ! nat k)" if "0 \<le> k" "k < len insns" for k
    using that g by (auto simp: item_in_range flow_graph_def)
  obtain starts where s: "rmap (item successors) definitions = Inr starts"
    using rmap_all_exist [of definitions "item successors"] d at(2) by blast
  have ok: "0 \<le> k \<and> k < len insns \<and> (\<exists>pushed. forward_expand insns successors atoms k = Inr pushed)"
    if "visited (forward_expand insns successors atoms) (rev (concat starts)) k" for k
  proof -
    have b: "between insns successors definitions atoms k" using that between_visited [OF s] by blast
    have r: "0 \<le> k" "k < len insns" using between_range [OF g b d] by auto
    have "atoms \<inter> bi_write_atoms (insns ! nat k) = {} \<or> atoms \<subseteq> bi_write_atoms (insns ! nat k)" using p b by blast
    then show ?thesis using r at [OF r] by (auto simp: forward_expand_def)
  qed
  obtain interior where v: "search (length insns) (forward_expand insns successors atoms) (rev (concat starts)) [] = Inr interior"
    using search_total [OF ok] by blast
  have "\<exists>i. item insns k = Inr i" if "k \<in> set interior" for k
  proof -
    have "0 \<le> k" "k < len insns" using ok search_exact(1) [OF v] that by blast+
    then show ?thesis using at(1) by blast
  qed
  then obtain items where "rmap (item insns) interior = Inr items" using rmap_all_exist [of interior "item insns"] by blast
  then show ?thesis using s v by (simp add: ia32_web_reached_uses_def)
qed

text \<open>
  C24.  The forward half of a web certificate is exact, and it comes to an answer whenever there
  is one.  Over a control-flow graph and definitions that index it, the traversal returns if and
  only if no position some path reaches from a declared definition before the register is fully
  redefined redefines it only in part; what it returns are precisely these positions, and the
  reached uses are precisely those of them that read the register.
\<close>

theorem web_reached_uses_exact:
  assumes g: "flow_graph insns successors" and d: "\<forall>d \<in> set definitions. 0 \<le> d \<and> d < len insns"
  shows "((\<exists>r. ia32_web_reached_uses insns successors definitions atoms = Inr r) \<longleftrightarrow>
      (\<forall>k. between insns successors definitions atoms k \<longrightarrow>
         atoms \<inter> bi_write_atoms (insns ! nat k) = {} \<or> atoms \<subseteq> bi_write_atoms (insns ! nat k)))
    \<and> (\<forall>reached interior. ia32_web_reached_uses insns successors definitions atoms = Inr (reached, interior) \<longrightarrow>
        (\<forall>k. k \<in> set interior \<longleftrightarrow> between insns successors definitions atoms k)
        \<and> (\<forall>k. k \<in> set reached \<longleftrightarrow>
             between insns successors definitions atoms k \<and> atoms \<inter> bi_read_atoms (insns ! nat k) \<noteq> {}))"
proof -
  let ?run = "ia32_web_reached_uses insns successors definitions atoms"
  let ?b = "between insns successors definitions atoms"
  let ?whole = "\<lambda>k. atoms \<inter> bi_write_atoms (insns ! nat k) = {} \<or> atoms \<subseteq> bi_write_atoms (insns ! nat k)"
  have at: "item insns k = Inr (insns ! nat k)" if "?b k" for k
    using between_range [OF g that d] by (simp add: item_in_range)
  have w: "?whole k" if "?run = Inr (reached, interior)" "?b k" for reached interior k
    using reached_uses_exact(3) [OF that(1), rule_format, OF that(2)] at [OF that(2)] by auto
  have u: "k \<in> set reached \<longleftrightarrow> ?b k \<and> atoms \<inter> bi_read_atoms (insns ! nat k) \<noteq> {}"
    if "?run = Inr (reached, interior)" for reached interior k
    using reached_uses_exact(2) [OF that, rule_format, of k] at [of k] by auto
  have i: "(\<exists>r. ?run = Inr r) \<longleftrightarrow> (\<forall>k. ?b k \<longrightarrow> ?whole k)"
    using w reached_uses_total [OF g d] by (metis surj_pair)
  show ?thesis
    using i u reached_uses_exact(1) by simp
qed

theorem web_reached_uses_exact_witness:
  "between
     (projr (decode_ia32_bijection_body [0xB8, 1, 0, 0, 0, 0x8B, 0xC8, 0xC3] (\<lambda>_. None) None))
     [[1], [2], []] [0] (register_atoms {''eax''}) 1"
proof -
  let ?insns = "projr (decode_ia32_bijection_body [0xB8, 1, 0, 0, 0, 0x8B, 0xC8, 0xC3] (\<lambda>_. None) None)"
  have "ia32_web_reached_uses ?insns [[1], [2], []] [0] (register_atoms {''eax''}) = Inr ([2, 1], [2, 1])"
    by code_simp
  moreover have "flow_graph ?insns [[1], [2], []]" "\<forall>d \<in> set [0]. 0 \<le> d \<and> d < len ?insns" by code_simp+
  ultimately show ?thesis using web_reached_uses_exact [of ?insns "[[1], [2], []]" "[0]" "register_atoms {''eax''}"] by auto
qed

end
