(* ===== verification/Schedule_Apply.thy ===== *)
theory Schedule_Apply
  imports Schedule_Dependence Register_Webs "HOL-Library.List_Lexorder"
begin

text \<open>
  Applying an instruction schedule to a function body, from
  \<^verbatim>\<open>src/reprobit/classic/scheduling_apply.py\<close>: the walk that finds instruction
  boundaries and interior branch targets, the relocation reseat, and the rewriting of each
  declared window with all its checks on the image.

  A window is a record of the fields the certificate validator has already typed, so the
  payload scan of the raw declaration, which comes first in the code, is not repeated here
  (it is the subject of Declaration validation in \<^verbatim>\<open>Json_Values\<close>).  The report keeps the
  fields later checks read; counts and operand listings of the report are left out.  The
  boundary proof of the private-stack/object theorem lives in another module; it is the
  argument \<open>boundary\<close> and may refuse.
\<close>

section \<open>Walking a body\<close>

definition interior_prefixes :: "int list" where
  "interior_prefixes = [38, 46, 54, 62, 100, 101, 102]"

definition terminal_opcodes :: "int list" where
  "terminal_opcodes = [194, 195, 202, 203, 233, 235]"

text \<open>The position of the first byte of an instruction that is no interior prefix.\<close>

fun skip_interior :: "bytes \<Rightarrow> int \<Rightarrow> int result" where
  "skip_interior [] cursor = Inl (ByteIdentityError ''instruction is only prefixes'')"
| "skip_interior (b # bs) cursor =
     (if byte_int b \<in> set interior_prefixes then skip_interior bs (cursor + 1) else Inr cursor)"

text \<open>The width of a direct displacement, and whether the instruction is a computed jump.\<close>

definition branch_shape :: "bytes \<Rightarrow> int \<Rightarrow> int \<Rightarrow> (int \<times> bool) result" where
  "branch_shape code cursor stop =
     rbind (byte_at code cursor) (\<lambda>opcode.
       if 112 \<le> opcode \<and> opcode < 128 \<or> opcode \<in> {235, 224, 225, 226, 227} then Inr (1, False)
       else if opcode \<in> {233, 232} then Inr (4, False)
       else if opcode = 15 \<and> cursor + 1 < stop
       then rbind (byte_at code (cursor + 1)) (\<lambda>second.
              Inr (if 128 \<le> second \<and> second \<le> 143 then 4 else 0, False))
       else if opcode = 255
       then require (cursor + 1 < stop) ''FF form lacks its ModRM''
              (rbind (byte_at code (cursor + 1)) (\<lambda>modrm.
                let extension = drop_bit 3 modrm AND 7
                in require (extension \<notin> {3, 5}) ''a far jump makes the window's entry set unknowable''
                     (Inr (0, extension = 4))))
       else Inr (0, False))"

type_synonym relocation_map = "(int \<times> relocation_target) list"

text \<open>The branch target of one instruction, unless a relocation owns its displacement.\<close>

definition branch_target :: "bytes \<Rightarrow> relocation_map \<Rightarrow> int \<Rightarrow> int \<Rightarrow> int list" where
  "branch_target code relocations stop width =
     (if width = 0 then []
      else let displacement_at = stop - width
           in if (case map_of relocations displacement_at of
                    None \<Rightarrow> True | Some row \<Rightarrow> rr_width row \<noteq> Some width)
              then [stop + from_bytes_signed (pslice code displacement_at stop)] else [])"

text \<open>The loop: spans, branch targets and offsets of computed jumps.\<close>

function walk_from ::
    "bytes \<Rightarrow> relocation_map \<Rightarrow> int \<Rightarrow> ((int \<times> int) list \<times> int list \<times> int list) result" where
  "walk_from code relocations offset =
     (if offset < len code
      then rbind (supported_ia32_instruction_length (slice_from code offset)) (\<lambda>count.
           rbind (skip_interior (pslice code offset (offset + count)) offset) (\<lambda>cursor.
           rbind (branch_shape code cursor (offset + count)) (\<lambda>(width, jump).
           rbind (walk_from code relocations (offset + count)) (\<lambda>(spans, targets, computed).
             Inr ((offset, count) # spans,
                  branch_target code relocations (offset + count) width @ targets,
                  (if jump then [offset] else []) @ computed)))))
      else Inr ([], [], []))"
  by pat_completeness auto
termination
  by (relation "measure (\<lambda>(code, relocations, offset). nat (len code - offset))")
     (auto dest: supported_length_bounds)

declare walk_from.simps [simp del]

definition walk_end :: "(int \<times> int) list \<Rightarrow> int" where
  "walk_end spans = sum_list (map snd spans)"

text \<open>The last instruction before a data tail transfers control.\<close>

definition require_terminal :: "bytes \<Rightarrow> (int \<times> int) list \<Rightarrow> unit result" where
  "require_terminal code spans =
     rbind (item spans (- 1)) (\<lambda>(last_at, count).
     rbind (skip_interior (pslice code last_at (last_at + count)) last_at) (\<lambda>cursor.
     rbind (byte_at code cursor) (\<lambda>opcode.
     rbind (if opcode = 255
            then rbind (byte_at code (cursor + 1)) (\<lambda>modrm. Inr (drop_bit 3 modrm AND 7 = 4))
            else Inr (opcode \<in> set terminal_opcodes)) (\<lambda>terminal.
     require terminal ''code falls through into the body's data tail'' (Inr ())))))"

definition ia32_schedule_body_walk ::
    "bytes \<Rightarrow> relocation_map \<Rightarrow> int option \<Rightarrow> int list option \<Rightarrow>
     ((int \<times> int) list \<times> int list) result" where
  "ia32_schedule_body_walk body relocations code_length internal_targets =
     require (body \<noteq> []) ''body is empty''
      (let limit = (case code_length of None \<Rightarrow> len body | Some l \<Rightarrow> l)
       in require (0 < limit \<and> limit \<le> len body) ''code length is out of range''
        (let code = pslice body 0 limit
         in rbind (walk_from code relocations 0) (\<lambda>(spans, targets, computed).
            require (walk_end spans = len code) ''body does not decode to exhaustion''
            (require (list_all (\<lambda>t. t \<in> fst ` set spans) targets)
               ''a branch target is not an instruction boundary of this body''
            (rbind (if limit < len body then require_terminal code spans else Inr ()) (\<lambda>_.
             if computed = [] then Inr (spans, targets)
             else case internal_targets of
                    None \<Rightarrow> Inl (ByteIdentityError
                      ''a computed jump makes the window's entry set unknowable'')
                  | Some internal \<Rightarrow>
                      require (list_all (\<lambda>t. \<not> (t < limit \<and> t \<notin> fst ` set spans)) internal)
                        ''the relocated in-body target is not an instruction boundary of this body''
                        (Inr (spans, targets @ internal))))))))"

section \<open>Windows\<close>

record schedule_window =
  sw_start :: int
  sw_end :: int
  sw_target_order :: "int list"
  sw_relocation_reseat :: "(int \<times> int) list option"
  sw_stack_adjustments :: "(int \<times> int \<times> int \<times> int) list option"
  sw_theorem :: "string option"
  sw_expected_edges :: "dependence_edge list"
  sw_source_lengths :: "int list"

record window_detail =
  wd_start :: int
  wd_end :: int
  wd_reseat :: "(int \<times> int) list"
  wd_stack :: "(int \<times> int \<times> int \<times> int) list"
  wd_pieces :: "bytes list"
  wd_order :: "int list"
  wd_edges :: "dependence_edge list"

text \<open>Where each instruction of the window lands.\<close>

definition seat_step ::
    "int list \<Rightarrow> int \<times> (int \<times> int) list \<Rightarrow> int \<Rightarrow> (int \<times> (int \<times> int) list) result" where
  "seat_step lengths s position =
     (case s of (cursor, seated) \<Rightarrow>
       rbind (item lengths position) (\<lambda>count.
         Inr (cursor + count, dict_set seated position cursor)))"

definition reseat_step ::
    "int \<Rightarrow> int \<Rightarrow> (int \<times> int) list \<Rightarrow> (int \<times> int) list \<Rightarrow> (int \<times> int) list \<Rightarrow>
     int \<times> relocation_target \<Rightarrow> (int \<times> int) list result" where
  "reseat_step start stop inside seated rows record =
     (case record of (offset, row) \<Rightarrow>
       case rr_width row of
         None \<Rightarrow> Inl KeyError
       | Some width \<Rightarrow>
           if offset + width \<le> start \<or> offset \<ge> stop
           then require (\<not> (start < offset + width \<and> offset < stop))
                  ''a relocation straddles the window boundary'' (Inr rows)
           else require (start \<le> offset \<and> offset + width \<le> stop)
                  ''a relocation straddles the window boundary''
             (case find (\<lambda>(index, at, count). at \<le> offset \<and> offset + width \<le> at + count)
                     (enumerate_int inside) of
                None \<Rightarrow> Inl (ByteIdentityError ''the relocation straddles an instruction boundary'')
              | Some (position, at, count) \<Rightarrow>
                  rbind (dict_item seated position) (\<lambda>seat.
                    Inr (rows @ [(offset, seat + (offset - at))]))))"

definition window_reseat ::
    "schedule_window \<Rightarrow> (int \<times> int) list \<Rightarrow> int list \<Rightarrow> relocation_map \<Rightarrow> (int \<times> int) list result" where
  "window_reseat w inside relocation_offsets relocations =
     (let start = sw_start w; stop = sw_end w;
          overlapping = filter (\<lambda>offset. offset \<in> set relocation_offsets) (pyrange start stop)
      in case sw_relocation_reseat w of
           None \<Rightarrow> require (overlapping = []) ''a relocation operand lies inside the window'' (Inr [])
         | Some declared \<Rightarrow>
             require (overlapping \<noteq> [])
               ''a relocation reseat is declared but no relocation operand lies inside the window''
              (require (relocations \<noteq> []) ''a relocation reseat needs the relocation records''
                (rbind (rfold (seat_step (map snd inside)) (start, []) (sw_target_order w)) (\<lambda>(_, seated).
                 rbind (rfold (reseat_step start stop inside seated) [] (sort_key fst relocations)) (\<lambda>rows.
                 require (rows = declared)
                   ''the measured relocation reseat differs from its declaration'' (Inr rows))))))"

text \<open>The instructions of the window, decoded again under the relocations.\<close>

definition window_inside ::
    "bytes \<Rightarrow> int \<Rightarrow> relocation_map \<Rightarrow> (int \<times> int) list \<Rightarrow> int list \<Rightarrow> int list \<Rightarrow> int \<Rightarrow>
     schedule_window \<Rightarrow> bijection_instruction list result" where
  "window_inside body limit relocations spans targets external_entries previous_end w =
     (let start = sw_start w; stop = sw_end w; boundaries = map fst spans @ [limit];
          inside = filter (\<lambda>(at, count). start \<le> at \<and> at < stop) spans
      in require (start \<ge> previous_end) ''windows are unsorted or overlapping'' (
         require (stop \<le> limit) ''the window reaches into the body's data tail'' (
         require (start \<in> set boundaries \<and> stop \<in> set boundaries \<and> start < stop)
           ''the window does not span whole instructions'' (
         require (inside \<noteq> [] \<and> fst (last inside) + snd (last inside) = stop)
           ''the window does not end on an instruction boundary'' (
         require (len inside \<ge> 2) ''a window needs at least two instructions'' (
         rbind (rmap (\<lambda>(at, count). decode_ia32_bijection_instruction body at (map_of relocations)) inside)
           (\<lambda>insns.
         require (insns \<noteq> [] \<and> bi_offset (last insns) + bi_length (last insns) = stop)
           ''the decoded window does not end on the window boundary'' (
         require (list_all (\<lambda>t. \<not> (start < t \<and> t < stop)) targets)
           ''a branch targets the window interior'' (
         require (list_all (\<lambda>t. \<not> (start < t \<and> t < stop)) external_entries)
           ''a derived external entry targets the window interior'' (
         Inr insns))))))))))"

text \<open>The edges the target order must respect: the strict graph or one of its projections.\<close>

definition window_projection ::
    "(bijection_instruction list \<Rightarrow> discharged_pair list \<Rightarrow> unit result) \<Rightarrow> bytes \<Rightarrow>
     msvc420_compiler_identity option \<Rightarrow> schedule_window \<Rightarrow> bijection_instruction list \<Rightarrow>
     schedule_fact list \<Rightarrow> dependence_edge list \<Rightarrow> (int \<times> int \<times> int \<times> int) list \<Rightarrow>
     dependence_edge list result" where
  "window_projection boundary body identity w insns facts strict_edges stack =
     (case sw_theorem w of
        None \<Rightarrow> Inr strict_edges
      | Some marker \<Rightarrow>
          if marker = stack_frontier_theorem
          then rbind (ia32_schedule_stack_frontier_projection insns facts strict_edges
                        (sw_target_order w) marker (Some body) identity
                        (sw_stack_adjustments w \<noteq> None)) (\<lambda>(edges, discharged). Inr edges)
          else rbind (ia32_schedule_private_stack_object_projection insns facts strict_edges
                        (sw_target_order w) marker body identity stack) (\<lambda>(edges, discharged, rebases).
               rbind (boundary insns discharged) (\<lambda>_. Inr edges)))"

definition private_window :: "schedule_window \<Rightarrow> bool" where
  "private_window w = (sw_theorem w = Some private_stack_object_theorem)"

definition window_order ::
    "(bijection_instruction list \<Rightarrow> discharged_pair list \<Rightarrow> unit result) \<Rightarrow> bytes \<Rightarrow>
     msvc420_compiler_identity option \<Rightarrow> schedule_window \<Rightarrow> bijection_instruction list \<Rightarrow>
     ((int \<times> int \<times> int \<times> int) list \<times> dependence_edge list) result" where
  "window_order boundary body identity w insns =
     (let order = sw_target_order w
      in rbind (ia32_schedule_stack_adjustments body insns order (private_window w)) (\<lambda>stack.
         rbind (ia32_schedule_dependence_edges insns (Some body) (stack \<noteq> [] \<or> private_window w)
                  (private_window w)
                  (if private_window w then Some (fst ` set stack) else None)) (\<lambda>(facts, strict_edges).
         rbind (case sw_stack_adjustments w of
                  None \<Rightarrow> require (stack = [])
                    ''the permutation moves a push past an ESP-relative operand but declares no stack adjustment''
                    (Inr ())
                | Some declared \<Rightarrow> require (stack = declared)
                    ''the measured stack adjustment differs from its declaration'' (Inr ())) (\<lambda>_.
         rbind (window_projection boundary body identity w insns facts strict_edges stack) (\<lambda>edges.
         require (edges = sw_expected_edges w)
           ''the measured dependence DAG differs from its declaration'' (
         rbind (require_topological_instruction_order (len insns) edges order) (\<lambda>_.
         Inr (stack, edges))))))))"

text \<open>Writing one signed displacement into the bytes of its instruction.\<close>

definition signed_bytes :: "nat \<Rightarrow> int \<Rightarrow> bytes" where
  "signed_bytes width value = to_bytes width (value mod 256 ^ width)"

definition rebase_piece ::
    "bytes \<Rightarrow> bijection_instruction list \<Rightarrow> bytes list \<Rightarrow> int \<times> int \<times> int \<times> int \<Rightarrow> bytes list result" where
  "rebase_piece body insns pieces row =
     (case row of (index, at, old_value, new_value) \<Rightarrow>
       rbind (item insns index) (\<lambda>i.
       rbind (ia32_esp_relative_displacement body i) (\<lambda>found.
         case found of
           Esp_Displacement at' width value \<Rightarrow>
             rbind (item pieces index) (\<lambda>piece.
               let local = at - bi_offset i
               in Inr (pieces[nat index := pslice piece 0 local @ signed_bytes (nat width) new_value
                                            @ slice_from piece (local + width)]))
         | _ \<Rightarrow> Inl TypeError)))"

text \<open>The span of the rewritten displacement inside its instruction.\<close>

definition adjusted_span ::
    "bytes \<Rightarrow> bijection_instruction list \<Rightarrow> (int \<times> int \<times> int \<times> int) list \<Rightarrow> int \<Rightarrow> int list" where
  "adjusted_span body insns rows index =
     (case map_of rows index of
        None \<Rightarrow> []
      | Some (at, old_value, new_value) \<Rightarrow>
          (case ia32_esp_relative_displacement body (insns ! nat index) of
             Inr (Esp_Displacement at' width value) \<Rightarrow>
               pyrange (at - bi_offset (insns ! nat index)) (at - bi_offset (insns ! nat index) + width)
           | _ \<Rightarrow> []))"

definition changed_positions :: "bytes \<Rightarrow> bytes \<Rightarrow> int list" where
  "changed_positions before_piece after_piece =
     filter (\<lambda>p. before_piece ! nat p \<noteq> after_piece ! nat p) (pyrange 0 (len before_piece))"

fun piece_spans :: "bytes list \<Rightarrow> int list \<Rightarrow> int \<Rightarrow> (int \<times> int) list result" where
  "piece_spans pieces [] cursor = Inr []"
| "piece_spans pieces (source # order) cursor =
     rbind (item pieces source) (\<lambda>piece.
     rbind (piece_spans pieces order (cursor + len piece)) (\<lambda>rest.
       Inr ((cursor, len piece) # rest)))"

definition window_pieces ::
    "bytes \<Rightarrow> schedule_window \<Rightarrow> bijection_instruction list \<Rightarrow> (int \<times> int \<times> int \<times> int) list \<Rightarrow>
     (bytes list \<times> bytes) result" where
  "window_pieces body w insns stack =
     (let original = map (instruction_bytes body) insns; order = sw_target_order w
      in require (map len original = sw_source_lengths w)
           ''the window's instruction partition differs from its declaration'' (
         rbind (rfold (rebase_piece body insns) original stack) (\<lambda>pieces.
         require (list_all (\<lambda>k. changed_positions (original ! nat k) (pieces ! nat k)
                                = adjusted_span body insns stack k) (pyrange 0 (len original)))
           ''the instruction changed outside its declared ESP displacement'' (
         rbind (rmap (item pieces) order) (\<lambda>reordered_pieces.
         let reordered = concat reordered_pieces
         in rbind (piece_spans pieces order 0) (\<lambda>spans.
            require (sort pieces = sort (map (\<lambda>(at, count). pslice reordered at (at + count)) spans))
              ''the reordering is not a permutation of the window's own instructions'' (
            require (len reordered = sw_end w - sw_start w)
              ''the reordering changed the window length'' (Inr (pieces, reordered)))))))))"

definition window_step ::
    "(bijection_instruction list \<Rightarrow> discharged_pair list \<Rightarrow> unit result) \<Rightarrow> bytes \<Rightarrow> int \<Rightarrow>
     relocation_map \<Rightarrow> int list \<Rightarrow> (int \<times> int) list \<Rightarrow> int list \<Rightarrow> int list \<Rightarrow>
     msvc420_compiler_identity option \<Rightarrow> int \<times> bytes \<times> window_detail list \<Rightarrow> schedule_window \<Rightarrow>
     (int \<times> bytes \<times> window_detail list) result" where
  "window_step boundary body limit relocations relocation_offsets spans targets external_entries identity s w =
     (case s of (previous_end, img, detail) \<Rightarrow>
       rbind (window_inside body limit relocations spans targets external_entries previous_end w) (\<lambda>insns.
       rbind (window_reseat w (map (\<lambda>i. (bi_offset i, bi_length i)) insns) relocation_offsets relocations)
         (\<lambda>reseat.
       rbind (window_order boundary body identity w insns) (\<lambda>(stack, edges).
       rbind (window_pieces body w insns stack) (\<lambda>(pieces, reordered).
         Inr (sw_end w, pslice img 0 (sw_start w) @ reordered @ slice_from img (sw_end w),
              detail @ [\<lparr>wd_start = sw_start w, wd_end = sw_end w, wd_reseat = reseat, wd_stack = stack,
                wd_pieces = sort pieces, wd_order = sw_target_order w, wd_edges = edges\<rparr>]))))))"

section \<open>The image\<close>

definition in_window :: "schedule_window list \<Rightarrow> int \<Rightarrow> bool" where
  "in_window windows offset = list_ex (\<lambda>w. sw_start w \<le> offset \<and> offset < sw_end w) windows"

definition moved_relocations :: "relocation_map \<Rightarrow> (int \<times> int) list \<Rightarrow> relocation_map" where
  "moved_relocations relocations moved =
     fold (\<lambda>(offset, row) image. dict_set image
        (case map_of (rev moved) offset of None \<Rightarrow> offset | Some seat \<Rightarrow> seat) row) relocations []"

definition window_in_image :: "bytes \<Rightarrow> (int \<times> int) list \<Rightarrow> window_detail \<Rightarrow> bool" where
  "window_in_image img image_spans d =
     (wd_pieces d = sort (map (\<lambda>(at, count). pslice img at (at + count))
        (filter (\<lambda>(at, count). wd_start d \<le> at \<and> at < wd_end d) image_spans)))"

definition known_markers :: "schedule_window list \<Rightarrow> bool" where
  "known_markers windows =
     list_all (\<lambda>w. case sw_theorem w of None \<Rightarrow> True
       | Some marker \<Rightarrow> marker \<in> {stack_frontier_theorem, private_stack_object_theorem}) windows"

text \<open>The whole-body evidence the private-stack/object theorem needs: decode and control flow.\<close>

definition frontier_evidence ::
    "bytes \<Rightarrow> relocation_map \<Rightarrow> int option \<Rightarrow> int list option \<Rightarrow> int list \<Rightarrow> schedule_window list \<Rightarrow>
     (bijection_instruction list \<times> int list list) option result" where
  "frontier_evidence body relocations code_length internal_targets external_entries windows =
     (if list_ex private_window windows
      then rbind (decode_ia32_bijection_body body (map_of relocations) code_length) (\<lambda>insns.
           rbind (ia32_web_control_flow insns internal_targets (Some external_entries)) (\<lambda>successors.
           Inr (Some (insns, successors))))
      else Inr None)"

definition apply_instruction_schedule ::
    "((bijection_instruction list \<times> int list list) option \<Rightarrow> bijection_instruction list \<Rightarrow>
      discharged_pair list \<Rightarrow> unit result) \<Rightarrow> bytes \<Rightarrow>
     schedule_window list \<Rightarrow> int list \<Rightarrow> relocation_map \<Rightarrow> int option \<Rightarrow> int list option \<Rightarrow> int list \<Rightarrow>
     msvc420_compiler_identity option \<Rightarrow> (bytes \<times> window_detail list \<times> int list) result" where
  "apply_instruction_schedule boundary body windows relocation_offsets relocations code_length
     internal_targets external_entries identity =
     (let limit = (case code_length of None \<Rightarrow> len body | Some l \<Rightarrow> l);
          marked = list_ex (\<lambda>w. sw_theorem w \<noteq> None) windows
      in require (known_markers windows) ''stack_frontier_theorem differs from the supported exact marker'' (
         require (marked \<longrightarrow> canonical_identity identity)
           ''the stack-frontier theorem requires canonical MSVC 4.20 Win32 i386 compiler evidence'' (
         rbind (ia32_schedule_body_walk body relocations code_length internal_targets) (\<lambda>(spans, targets).
         rbind (frontier_evidence body relocations code_length internal_targets external_entries windows)
           (\<lambda>evidence.
         rbind (rfold (window_step (boundary evidence) body limit relocations relocation_offsets spans targets
                  external_entries identity) (0, body, []) windows) (\<lambda>(_, img, detail).
         require (len img = len body) ''the reordering changed the body length'' (
         require (img \<noteq> body) ''the reordering moves nothing'' (
         let moved = concat (map wd_reseat detail);
             image_relocations = (if moved = [] then relocations else moved_relocations relocations moved)
         in require (len image_relocations = len relocations) ''the reseat collides two relocation records'' (
            rbind (ia32_schedule_body_walk img image_relocations code_length internal_targets)
              (\<lambda>(image_spans, _).
            require (filter (\<lambda>(at, count). \<not> in_window windows at) image_spans
                     = filter (\<lambda>(at, count). \<not> in_window windows at) spans)
              ''the image moved an instruction boundary outside a declared window'' (
            require (list_all (window_in_image img image_spans) detail)
              ''a window is not the same instruction multiset in the image'' (
            let changed = changed_positions body img
            in require (list_all (in_window windows) changed)
                 ''the image changed a byte outside a declared window''
                 (Inr (img, detail, changed))))))))))))))"

section \<open>What the windows leave behind\<close>

lemma window_step_cases:
  assumes "window_step boundary body limit relocations offsets spans targets entries identity
      (previous_end, img, detail) w = Inr (stop, img', detail')"
  obtains insns stack edges pieces reordered where
    "previous_end \<le> sw_start w" "sw_start w < sw_end w" "sw_end w \<le> limit" "stop = sw_end w"
    "window_inside body limit relocations spans targets entries previous_end w = Inr insns"
    "window_order boundary body identity w insns = Inr (stack, edges)"
    "window_pieces body w insns stack = Inr (pieces, reordered)"
    "len reordered = sw_end w - sw_start w"
    "img' = pslice img 0 (sw_start w) @ reordered @ slice_from img (sw_end w)"
proof -
  obtain insns reseat stack edges pieces reordered where
    i: "window_inside body limit relocations spans targets entries previous_end w = Inr insns"
    and o: "window_order boundary body identity w insns = Inr (stack, edges)"
    and p: "window_pieces body w insns stack = Inr (pieces, reordered)"
    and r: "stop = sw_end w" "img' = pslice img 0 (sw_start w) @ reordered @ slice_from img (sw_end w)"
    using assms by (auto simp: window_step_def)
  have "previous_end \<le> sw_start w" "sw_start w < sw_end w" "sw_end w \<le> limit"
    using i by (auto simp: window_inside_def Let_def)
  moreover have "len reordered = sw_end w - sw_start w"
    using p by (auto simp: window_pieces_def Let_def)
  ultimately show thesis
    using that i o p r by blast
qed

text \<open>The region before a window and behind it after the slice assignment.\<close>

lemma replaced_slice:
  assumes "0 \<le> a" "a \<le> b" "b \<le> len img" "len mid = b - a"
  shows "length (pslice img 0 a @ mid @ slice_from img b) = length img"
    "k < length img \<Longrightarrow> (pslice img 0 a @ mid @ slice_from img b) ! k =
       (if int k < a then img ! k else if int k < b then mid ! (k - nat a) else img ! k)"
proof -
  obtain m n where ab: "a = int m" "b = int n"
    using assms by (metis nonneg_int_cases order_trans)
  have p: "pslice img 0 a = take m img" "slice_from img b = drop n img"
    using assms by (simp_all add: ab pslice_nonneg slice_from_def slice_bound_def)
  have l: "m \<le> n" "n \<le> length img" "length mid = n - m"
    using assms by (auto simp: ab)
  show "length (pslice img 0 a @ mid @ slice_from img b) = length img"
    using l by (simp add: p)
  show "(pslice img 0 a @ mid @ slice_from img b) ! k =
       (if int k < a then img ! k else if int k < b then mid ! (k - nat a) else img ! k)"
    if "k < length img"
    unfolding p using that l by (auto simp: ab nth_append)
qed

definition window_done ::
    "(bijection_instruction list \<Rightarrow> discharged_pair list \<Rightarrow> unit result) \<Rightarrow> bytes \<Rightarrow> int \<Rightarrow> relocation_map \<Rightarrow>
     (int \<times> int) list \<Rightarrow> msvc420_compiler_identity option \<Rightarrow> bytes \<Rightarrow> schedule_window \<Rightarrow> bool" where
  "window_done boundary body limit relocations spans identity img w \<longleftrightarrow>
     (\<exists>insns stack edges pieces reordered targets entries previous_end.
        window_inside body limit relocations spans targets entries previous_end w = Inr insns
        \<and> window_order boundary body identity w insns = Inr (stack, edges)
        \<and> window_pieces body w insns stack = Inr (pieces, reordered)
        \<and> len reordered = sw_end w - sw_start w
        \<and> (\<forall>k < length reordered. img ! (nat (sw_start w) + k) = reordered ! k))"

lemma windows_fold:
  assumes "rfold (window_step boundary body limit relocations offsets spans targets entries identity)
      (previous_end, img, detail) windows = Inr (stop, img', detail')"
    and "0 \<le> previous_end" "limit \<le> len body" "length img = length body"
  shows "length img' = length body \<and> previous_end \<le> stop
    \<and> (\<forall>k < length body. int k < previous_end \<or> \<not> in_window windows (int k) \<longrightarrow> img' ! k = img ! k)
    \<and> (\<forall>w \<in> set windows. previous_end \<le> sw_start w \<and> sw_start w < sw_end w \<and> sw_end w \<le> limit
         \<and> window_done boundary body limit relocations spans identity img' w)"
  using assms
proof (induction windows arbitrary: previous_end img detail)
  case Nil
  then show ?case by simp
next
  case (Cons w ws)
  obtain stop1 img1 detail1 where
    s1: "window_step boundary body limit relocations offsets spans targets entries identity
      (previous_end, img, detail) w = Inr (stop1, img1, detail1)"
    and s2: "rfold (window_step boundary body limit relocations offsets spans targets entries identity)
      (stop1, img1, detail1) ws = Inr (stop, img', detail')"
    using Cons.prems(1) by auto
  from s1 obtain insns stack edges pieces reordered where
    w: "previous_end \<le> sw_start w" "sw_start w < sw_end w" "sw_end w \<le> limit" "stop1 = sw_end w"
    and i: "window_inside body limit relocations spans targets entries previous_end w = Inr insns"
    and o: "window_order boundary body identity w insns = Inr (stack, edges)"
    and p: "window_pieces body w insns stack = Inr (pieces, reordered)"
    and r: "len reordered = sw_end w - sw_start w"
      "img1 = pslice img 0 (sw_start w) @ reordered @ slice_from img (sw_end w)"
    by (rule window_step_cases)
  have b: "0 \<le> sw_start w" "sw_start w \<le> sw_end w" "sw_end w \<le> len img"
    using w Cons.prems by auto
  note slice = replaced_slice [OF b r(1), folded r(2)]
  have ih: "length img' = length body" "stop1 \<le> stop"
    "\<forall>k < length body. int k < stop1 \<or> \<not> in_window ws (int k) \<longrightarrow> img' ! k = img1 ! k"
    "\<forall>w \<in> set ws. stop1 \<le> sw_start w \<and> sw_start w < sw_end w \<and> sw_end w \<le> limit
         \<and> window_done boundary body limit relocations spans identity img' w"
    using Cons.IH [OF s2] w b Cons.prems slice(1) by auto
  have here: "img' ! (nat (sw_start w) + k) = reordered ! k" if k: "k < length reordered" for k
  proof -
    have "int (nat (sw_start w) + k) < sw_end w" "nat (sw_start w) + k < length body"
      using k r(1) b Cons.prems by auto
    then show ?thesis
      using ih(3) slice(2) [of "nat (sw_start w) + k"] w b Cons.prems by simp
  qed
  have rest: "img' ! k = img ! k" if k: "k < length body" "int k < previous_end \<or> \<not> in_window (w # ws) (int k)" for k
  proof -
    have out: "int k < sw_start w \<or> sw_end w \<le> int k"
      using k w by (auto simp: in_window_def)
    moreover have "img' ! k = img1 ! k"
      using ih(3) k w by (auto simp: in_window_def)
    ultimately show ?thesis
      using slice(2) [of k] k Cons.prems b by auto
  qed
  have "window_done boundary body limit relocations spans identity img' w"
    unfolding window_done_def using i o p r(1) here by blast
  then show ?case
    using ih w rest by (auto simp: order_trans)
qed

lemma rebase_pieces_none: "rfold (rebase_piece body insns) original [] = Inr original"
  by simp

lemma window_pieces_order:
  assumes "window_pieces body w insns stack = Inr (pieces, reordered)"
    and "set (sw_target_order w) \<subseteq> int ` {..<length pieces}"
  shows "reordered = concat (map (\<lambda>k. pieces ! nat k) (sw_target_order w))"
    "stack = [] \<Longrightarrow> pieces = map (instruction_bytes body) insns"
    "rfold (rebase_piece body insns) (map (instruction_bytes body) insns) stack = Inr pieces"
proof -
  obtain rp where r: "rmap (item pieces) (sw_target_order w) = Inr rp" "reordered = concat rp"
    and f: "rfold (rebase_piece body insns) (map (instruction_bytes body) insns) stack = Inr pieces"
    using assms(1) by (auto simp: window_pieces_def Let_def)
  have "item pieces k = Inr (pieces ! nat k)" if "k \<in> set (sw_target_order w)" for k
    using assms(2) that by (auto simp: item_in_range)
  then have "rmap (item pieces) (sw_target_order w) = Inr (map (\<lambda>k. pieces ! nat k) (sw_target_order w))"
    by (rule rmap_all_Inr)
  then show "reordered = concat (map (\<lambda>k. pieces ! nat k) (sw_target_order w))"
    using r by simp
  show "rfold (rebase_piece body insns) (map (instruction_bytes body) insns) stack = Inr pieces"
    by (rule f)
  show "stack = [] \<Longrightarrow> pieces = map (instruction_bytes body) insns"
    using f by simp
qed

lemma rebase_piece_length:
  assumes "rebase_piece body insns pieces row = Inr pieces'"
  shows "length pieces' = length pieces"
proof -
  obtain index at old_value new_value where row: "row = (index, at, old_value, new_value)" by (cases row)
  obtain i found where "item insns index = Inr i" "ia32_esp_relative_displacement body i = Inr found"
    using assms by (auto simp: rebase_piece_def row)
  then show ?thesis
    using assms by (cases found) (auto simp: rebase_piece_def row Let_def)
qed

lemma rebase_pieces_length:
  "rfold (rebase_piece body insns) pieces stack = Inr pieces' \<Longrightarrow> length pieces' = length pieces"
proof (induction stack arbitrary: pieces)
  case (Cons row stack)
  then obtain pieces1 where "rebase_piece body insns pieces row = Inr pieces1"
    "rfold (rebase_piece body insns) pieces1 stack = Inr pieces'" by auto
  moreover from this(1) have "length pieces1 = length pieces"
    by (rule rebase_piece_length)
  ultimately show ?case using Cons.IH by simp
qed simp

lemma topological_members:
  assumes "require_topological_instruction_order (int n) edges order = Inr ()"
  shows "set order = int ` {..<n}"
proof -
  have "sort order = map int [0..<n]"
    using assms by (auto simp: require_topological_instruction_order_def pyrange_nat)
  then show ?thesis
    by (metis atLeast_upt set_map set_sort)
qed

section \<open>The instructions of a window\<close>

text \<open>Spans that follow one another from \<open>a\<close> to \<open>b\<close>.\<close>

fun chained :: "int \<Rightarrow> (int \<times> int) list \<Rightarrow> int \<Rightarrow> bool" where
  "chained a [] b = (a = b)"
| "chained a ((at, count) # spans) b = (at = a \<and> 0 < count \<and> chained (a + count) spans b)"

text \<open>Instructions that follow one another from \<open>a\<close> to \<open>b\<close>, each as decoded where it stands.\<close>

fun decoded_from ::
    "bytes \<Rightarrow> (int \<Rightarrow> relocation_target option) \<Rightarrow> int \<Rightarrow> bijection_instruction list \<Rightarrow> int \<Rightarrow> bool" where
  "decoded_from body relocations a [] b = (a = b)"
| "decoded_from body relocations a (i # insns) b =
     (decode_ia32_bijection_instruction body a relocations = Inr i
      \<and> decoded_from body relocations (a + bi_length i) insns b)"

lemma chained_le: "chained a spans b \<Longrightarrow> a \<le> b \<and> (\<forall>at \<in> fst ` set spans. a \<le> at)"
  by (induction a spans b rule: chained.induct) force+

lemma walk_chained:
  assumes "walk_from code relocations offset = Inr (spans, targets, computed)" "offset \<le> len code"
  shows "chained offset spans (len code)
    \<and> (\<forall>(at, count) \<in> set spans. supported_ia32_instruction_length (slice_from code at) = Inr count)"
  using assms
proof (induction code relocations offset arbitrary: spans targets computed rule: walk_from.induct)
  case (1 code relocations offset)
  show ?case
  proof (cases "offset < len code")
    case True
    then obtain count cursor shape spans' targets' computed' where
      l: "supported_ia32_instruction_length (slice_from code offset) = Inr count"
      and s: "skip_interior (pslice code offset (offset + count)) offset = Inr cursor"
      and b: "branch_shape code cursor (offset + count) = Inr shape"
      and w: "walk_from code relocations (offset + count) = Inr (spans', targets', computed')"
      and spans: "spans = (offset, count) # spans'"
      using 1(2) by (subst (asm) walk_from.simps) (auto split: prod.splits)
    have c: "0 < count" "offset + count \<le> len code"
      using supported_length_bounds [OF l] True by (auto simp: slice_from_def slice_bound_def split: if_splits)
    obtain width jump where "shape = (width, jump)" by (cases shape)
    from 1(1) [OF True l s b [unfolded this] refl w c(2)] show ?thesis using c(1) l spans by simp
  next
    case False
    then show ?thesis using 1(2,3) by (subst (asm) walk_from.simps) simp
  qed
qed

lemma chained_part:
  assumes "chained a spans b" "start \<in> fst ` set spans \<union> {b}" "stop \<in> fst ` set spans \<union> {b}" "start \<le> stop"
  shows "chained start (filter (\<lambda>(at, count). start \<le> at \<and> at < stop) spans) stop"
  using assms
proof (induction a spans b arbitrary: start rule: chained.induct)
  case (2 a at count spans b)
  have c: "at = a" "0 < count" "chained (a + count) spans b" using 2(2) by auto
  note le = chained_le [OF c(3)]
  show ?case
  proof (cases "start = a")
    case True
    show ?thesis
    proof (cases "stop = a")
      case True
      then have "filter (\<lambda>(at, count). start \<le> at \<and> at < stop) spans = []"
        using le c(2) by (fastforce simp: filter_empty_conv)
      then show ?thesis using True \<open>start = a\<close> c(1) by simp
    next
      case False
      then have stop: "stop \<in> fst ` set spans \<union> {b}" using 2(4) c(1) by auto
      then have "a + count \<le> stop" using le by auto
      moreover have "a + count \<in> fst ` set spans \<union> {b}" using c(3) by (cases spans) auto
      ultimately have "chained (a + count) (filter (\<lambda>(at, count'). a + count \<le> at \<and> at < stop) spans) stop"
        using 2(1) [OF c(3) _ stop] by blast
      moreover have "filter (\<lambda>(at, count'). a + count \<le> at \<and> at < stop) spans
          = filter (\<lambda>(at, count). start \<le> at \<and> at < stop) spans"
        using le c(2) True by (intro filter_cong) auto
      ultimately show ?thesis using True c \<open>a + count \<le> stop\<close> by simp
    qed
  next
    case False
    then have s: "start \<in> fst ` set spans \<union> {b}" using 2(3) c(1) by auto
    then have "a < start" using le c(2) by auto
    then have "stop \<in> fst ` set spans \<union> {b}" using 2(4,5) c(1) by auto
    with 2(1) [OF c(3) s this 2(5)] \<open>a < start\<close> c(1) show ?thesis by simp
  qed
qed auto

lemma decoded_chained:
  assumes "chained a spans b" "length insns = length spans"
    and "\<forall>k < length spans. decode_ia32_bijection_instruction body (fst (spans ! k)) relocations = Inr (insns ! k)
           \<and> bi_length (insns ! k) = snd (spans ! k)"
  shows "decoded_from body relocations a insns b"
  using assms
proof (induction a spans b arbitrary: insns rule: chained.induct)
  case (2 a at count spans b)
  obtain i rest where i: "insns = i # rest" using 2(3) by (cases insns) auto
  have "decoded_from body relocations (a + count) rest b"
    using 2(2) i 2(3) by (intro 2(1)) (use 2(4) i in \<open>auto dest: spec [of _ "Suc _"]\<close>)
  then show ?case using 2(2) spec [OF 2(4), of 0] i by simp
qed simp

text \<open>The length of an instruction of the code is its length in the whole body.\<close>

lemma code_length_in_body:
  assumes l: "supported_ia32_instruction_length (slice_from (pslice body 0 limit) at) = Inr count"
    and b: "0 \<le> at" "0 \<le> limit" "limit \<le> len body"
  shows "supported_ia32_instruction_length (slice_from body at) = Inr count"
proof (rule supported_length_local [OF l])
  have c: "1 \<le> count" "count \<le> len (slice_from (pslice body 0 limit) at)" using supported_length_bounds [OF l] by auto
  have e: "slice_from (pslice body 0 limit) at = take (nat limit - nat at) (drop (nat at) body)"
    using b by (simp add: pslice_nonneg slice_from_def slice_bound_def drop_take min_def)
  have f: "slice_from body at = drop (nat at) body" if "at \<le> len body"
    using b that by (simp add: slice_from_def slice_bound_def)
  have "count \<le> int (nat limit - nat at)" using c(2) unfolding e by simp
  then have "nat count \<le> nat limit - nat at" by simp
  moreover have "at \<le> len body" using c b unfolding e by auto
  ultimately show "agree count (slice_from (pslice body 0 limit) at) (slice_from body at)"
    using c unfolding e f [OF \<open>at \<le> len body\<close>] by (simp add: agree_def min_def split: if_splits)
qed

lemma body_walk_cases:
  assumes walk: "ia32_schedule_body_walk body relocations code_length internal_targets = Inr (spans, targets')"
  obtains targets computed where "0 < (case code_length of None \<Rightarrow> len body | Some l \<Rightarrow> l)"
    "(case code_length of None \<Rightarrow> len body | Some l \<Rightarrow> l) \<le> len body"
    "walk_from (pslice body 0 (case code_length of None \<Rightarrow> len body | Some l \<Rightarrow> l)) relocations 0
      = Inr (spans, targets, computed)"
proof -
  let ?limit = "case code_length of None \<Rightarrow> len body | Some l \<Rightarrow> l"
  obtain spans0 targets computed where limit: "0 < ?limit" "?limit \<le> len body"
    and w: "walk_from (pslice body 0 ?limit) relocations 0 = Inr (spans0, targets, computed)"
    and r: "(if computed = [] then Inr (spans0, targets)
             else case internal_targets of
                    None \<Rightarrow> Inl (ByteIdentityError ''a computed jump makes the window's entry set unknowable'')
                  | Some internal \<Rightarrow>
                      require (list_all (\<lambda>t. \<not> (t < ?limit \<and> t \<notin> fst ` set spans0)) internal)
                        ''the relocated in-body target is not an instruction boundary of this body''
                        (Inr (spans0, targets @ internal))) = Inr (spans, targets')"
    using walk unfolding ia32_schedule_body_walk_def Let_def by (auto split: prod.split_asm)
  have "spans0 = spans" using r by (cases "computed = []"; cases internal_targets) auto
  then show thesis using that limit w by blast
qed

lemma window_decoded:
  assumes walk: "ia32_schedule_body_walk body relocations code_length internal_targets = Inr (spans, targets')"
    and inside: "window_inside body (case code_length of None \<Rightarrow> len body | Some l \<Rightarrow> l) relocations spans targets
      entries previous_end w = Inr insns"
  shows "decoded_from body (map_of relocations) (sw_start w) insns (sw_end w)"
proof -
  let ?limit = "case code_length of None \<Rightarrow> len body | Some l \<Rightarrow> l"
  let ?in = "filter (\<lambda>(at, count). sw_start w \<le> at \<and> at < sw_end w) spans"
  obtain targets0 computed where limit: "0 < ?limit" "?limit \<le> len body"
    and w: "walk_from (pslice body 0 ?limit) relocations 0 = Inr (spans, targets0, computed)"
    by (rule body_walk_cases [OF walk])
  have len: "len (pslice body 0 ?limit) = ?limit" using limit by (simp add: pslice_nonneg)
  have walked: "chained 0 spans ?limit"
    "\<forall>(at, count) \<in> set spans. supported_ia32_instruction_length (slice_from (pslice body 0 ?limit) at) = Inr count"
    using walk_chained [OF w] unfolding len using limit by auto
  have b: "sw_start w \<in> fst ` set spans \<union> {?limit}" "sw_end w \<in> fst ` set spans \<union> {?limit}" "sw_start w \<le> sw_end w"
    and r: "rmap (\<lambda>(at, count). decode_ia32_bijection_instruction body at (map_of relocations)) ?in = Inr insns"
    using inside by (auto simp: window_inside_def Let_def image_iff)
  have all: "list_all2 (\<lambda>(at, count) i. decode_ia32_bijection_instruction body at (map_of relocations) = Inr i) ?in insns"
    using r unfolding rmap_eq_Inr by (simp add: case_prod_unfold)
  show ?thesis
  proof (rule decoded_chained [OF chained_part [OF walked(1) b]])
    show "length insns = length ?in" using all by (simp add: list_all2_lengthD)
    show "\<forall>k < length ?in. decode_ia32_bijection_instruction body (fst (?in ! k)) (map_of relocations) = Inr (insns ! k)
        \<and> bi_length (insns ! k) = snd (?in ! k)"
    proof (intro allI impI)
      fix k assume k: "k < length ?in"
      have d: "decode_ia32_bijection_instruction body (fst (?in ! k)) (map_of relocations) = Inr (insns ! k)"
        using list_all2_nthD [OF all k] by (simp add: case_prod_unfold)
      have "?in ! k \<in> set spans" using nth_mem [OF k] by auto
      then have "supported_ia32_instruction_length (slice_from (pslice body 0 ?limit) (fst (?in ! k))) = Inr (snd (?in ! k))"
        and "0 \<le> fst (?in ! k)"
        using walked(2) chained_le [OF walked(1)] by auto
      from code_length_in_body [OF this] limit decode_bijection_length [OF d] d
      show "decode_ia32_bijection_instruction body (fst (?in ! k)) (map_of relocations) = Inr (insns ! k)
        \<and> bi_length (insns ! k) = snd (?in ! k)" by simp
    qed
  qed
qed

text \<open>The bytes of an instruction with its ESP displacement rewritten as a row says.\<close>

definition rebased_bytes :: "bytes \<Rightarrow> bijection_instruction \<Rightarrow> (int \<times> int \<times> int) option \<Rightarrow> bytes" where
  "rebased_bytes body i row =
     (let raw = instruction_bytes body i
      in case row of
           None \<Rightarrow> raw
         | Some (at, old_value, new_value) \<Rightarrow>
             (case ia32_esp_relative_displacement body i of
                Inr (Esp_Displacement at' width value) \<Rightarrow>
                  pslice raw 0 (at - bi_offset i) @ signed_bytes (nat width) new_value
                    @ slice_from raw (at - bi_offset i + width)
              | _ \<Rightarrow> raw))"

lemma rebase_pieces_exact:
  assumes "rfold (rebase_piece body insns) pieces rows = Inr pieces'" "distinct (map fst rows)"
    and "fst ` set rows \<subseteq> int ` {..<length insns}" "length pieces = length insns"
    and "\<forall>k < length insns. int k \<in> fst ` set rows \<longrightarrow> pieces ! k = instruction_bytes body (insns ! k)"
  shows "\<forall>k < length insns. pieces' ! k =
    (case map_of rows (int k) of None \<Rightarrow> pieces ! k | Some row \<Rightarrow> rebased_bytes body (insns ! k) (Some row))"
  using assms
proof (induction rows arbitrary: pieces)
  case (Cons row rows)
  obtain index at old_value new_value where row: "row = (index, at, old_value, new_value)" by (cases row)
  obtain n where n: "index = int n" "n < length insns" using Cons.prems(3) row by auto
  obtain pieces1 where p1: "rebase_piece body insns pieces row = Inr pieces1"
    and f: "rfold (rebase_piece body insns) pieces1 rows = Inr pieces'" using Cons.prems(1) by auto
  have raw: "pieces ! n = instruction_bytes body (insns ! n)" using Cons.prems(5) n row by auto
  have e: "pieces1 = pieces[n := rebased_bytes body (insns ! n) (Some (at, old_value, new_value))]"
  proof -
    have i: "item insns index = Inr (insns ! n)" "item pieces index = Inr (pieces ! n)"
      using n Cons.prems(4) by (simp_all add: item_in_range)
    obtain found where "ia32_esp_relative_displacement body (insns ! n) = Inr found"
      using p1 i by (auto simp: rebase_piece_def row)
    then show ?thesis
      using p1 i n(1) by (cases found) (simp_all add: rebase_piece_def row rebased_bytes_def raw Let_def)
  qed
  have fresh: "int n \<notin> fst ` set rows" using Cons.prems(2) row n by auto
  have "\<forall>k < length insns. pieces' ! k =
      (case map_of rows (int k) of None \<Rightarrow> pieces1 ! k | Some row \<Rightarrow> rebased_bytes body (insns ! k) (Some row))"
  proof (rule Cons.IH [OF f])
    show "\<forall>k < length insns. int k \<in> fst ` set rows \<longrightarrow> pieces1 ! k = instruction_bytes body (insns ! k)"
    proof (intro allI impI)
      fix k assume k: "k < length insns" "int k \<in> fst ` set rows"
      then have "k \<noteq> n" using fresh by auto
      then show "pieces1 ! k = instruction_bytes body (insns ! k)" using Cons.prems(5) k by (simp add: e)
    qed
  qed (use Cons.prems e in auto)
  moreover have "map_of rows (int n) = None" using fresh by (simp add: map_of_eq_None_iff)
  ultimately show ?case
    using n Cons.prems(4) by (auto simp: e row nth_list_update split: option.split)
qed simp

lemma window_order_facts:
  assumes "window_order boundary body identity w insns = Inr (stack, edges)"
  shows "require_topological_instruction_order (len insns) (sw_expected_edges w) (sw_target_order w) = Inr ()"
    "sort (sw_target_order w) = pyrange 0 (len insns)"
    "ia32_schedule_stack_adjustments body insns (sw_target_order w) (private_window w) = Inr stack"
    "stack = (case sw_stack_adjustments w of None \<Rightarrow> [] | Some declared \<Rightarrow> declared)"
proof -
  show t: "require_topological_instruction_order (len insns) (sw_expected_edges w) (sw_target_order w) = Inr ()"
    "ia32_schedule_stack_adjustments body insns (sw_target_order w) (private_window w) = Inr stack"
    using assms by (auto simp: window_order_def Let_def)
  show "sort (sw_target_order w) = pyrange 0 (len insns)"
    using t(1) by (auto simp: require_topological_instruction_order_def)
  show "stack = (case sw_stack_adjustments w of None \<Rightarrow> [] | Some declared \<Rightarrow> declared)"
    using assms by (auto simp: window_order_def Let_def split: option.splits)
qed

lemma window_bytes:
  assumes o: "window_order boundary body identity w insns = Inr (stack, edges)"
    and p: "window_pieces body w insns stack = Inr (pieces, reordered)"
  shows "reordered = concat (map (\<lambda>k. rebased_bytes body (insns ! nat k) (map_of stack k)) (sw_target_order w))"
proof -
  note order = window_order_facts [OF o]
  have l: "length pieces = length insns"
    using rebase_pieces_length [of body insns "map (instruction_bytes body) insns" stack pieces] p
    by (auto simp: window_pieces_def Let_def)
  have m: "set (sw_target_order w) = int ` {..<length insns}" by (rule topological_members [OF order(1)])
  note pieces = window_pieces_order [OF p, unfolded l m, OF order_refl]
  have each: "pieces ! k = rebased_bytes body (insns ! k) (map_of stack (int k))" if "k < length insns" for k
    using rebase_pieces_exact [OF pieces(3) stack_adjustments_rows(1) [OF order(3)] stack_adjustments_range [OF order(3)]]
      that by (auto simp: rebased_bytes_def split: option.splits)
  show ?thesis
    unfolding pieces(1) using m each by (intro arg_cong [of _ _ concat] map_cong) auto
qed

lemma decoded_from_le: "decoded_from body relocations a insns b \<Longrightarrow> a \<le> b"
  by (induction insns arbitrary: a) (auto dest!: decode_bijection_length, fastforce)

lemma decoded_from_unique:
  assumes "decoded_from body relocations a insns b" "decoded_from body relocations a insns' b"
  shows "insns = insns'"
  using assms
proof (induction insns arbitrary: a insns')
  case Nil
  then show ?case
    by (cases insns') (use decoded_from_le decode_bijection_length in fastforce)+
next
  case (Cons i insns)
  then show ?case
    by (cases insns') (use decoded_from_le decode_bijection_length in fastforce)+
qed

text \<open>The rewritten displacement of an accepted window differs from the old one in every byte.\<close>

lemma rebase_changes_field:
  assumes p: "window_pieces body w insns stack = Inr (pieces, reordered)"
    and o: "window_order boundary body identity w insns = Inr (stack, edges)"
    and row: "map_of stack (int k) = Some (at, old_value, new_value)" and k: "k < length insns"
    and d: "ia32_esp_relative_displacement body (insns ! k) = Inr (Esp_Displacement at' width value)"
    and j: "j < nat width"
  shows "instruction_bytes body (insns ! k) ! nat (at - bi_offset (insns ! k) + int j) \<noteq> signed_bytes (nat width) new_value ! j"
    and "0 \<le> at - bi_offset (insns ! k)"
    and "at - bi_offset (insns ! k) + int j < len (instruction_bytes body (insns ! k))"
proof -
  let ?raw = "instruction_bytes body (insns ! k)" and ?local = "at - bi_offset (insns ! k)"
  note order = window_order_facts [OF o]
  have f: "rfold (rebase_piece body insns) (map (instruction_bytes body) insns) stack = Inr pieces"
    and c: "list_all (\<lambda>k. changed_positions (map (instruction_bytes body) insns ! nat k) (pieces ! nat k)
        = adjusted_span body insns stack k) (pyrange 0 (len insns))"
    using p by (auto simp: window_pieces_def Let_def)
  have piece: "pieces ! k = rebased_bytes body (insns ! k) (Some (at, old_value, new_value))"
    using rebase_pieces_exact [OF f stack_adjustments_rows(1) [OF order(3)] stack_adjustments_range [OF order(3)]]
      row k by simp
  have "changed_positions ?raw (pieces ! k) = pyrange ?local (?local + width)"
    using c k row d by (auto simp: list_all_iff pyrange_nat adjusted_span_def dest: bspec [of _ _ "int k"])
  then have changed: "q \<in> set (changed_positions ?raw (pieces ! k)) \<longleftrightarrow> ?local \<le> q \<and> q < ?local + width" for q
    by (auto simp: pyrange_def)
  have first: "?local \<in> set (changed_positions ?raw (pieces ! k))" and pos: "?local + int j \<in> set (changed_positions ?raw (pieces ! k))"
    using j unfolding changed by simp_all
  have b: "0 \<le> ?local" "?local < len ?raw" "?local + int j < len ?raw"
    using first pos by (auto simp: changed_positions_def pyrange_def)
  show "0 \<le> ?local" "?local + int j < len ?raw" by fact+
  have pre: "length (pslice ?raw 0 ?local) = nat ?local" using b by (simp add: pslice_nonneg)
  have n: "nat (?local + int j) = nat ?local + j" using b by simp
  have s: "length (signed_bytes (nat width) new_value) = nat width" by (simp add: signed_bytes_def)
  have "pieces ! k ! nat (?local + int j) = signed_bytes (nat width) new_value ! j"
    unfolding n using pre j s by (simp add: piece rebased_bytes_def d nth_append Let_def)
  moreover have "?raw ! nat (?local + int j) \<noteq> pieces ! k ! nat (?local + int j)"
    using pos by (simp add: changed_positions_def)
  ultimately show "?raw ! nat (?local + int j) \<noteq> signed_bytes (nat width) new_value ! j" by simp
qed

lemma decoded_from_offset:
  assumes "decoded_from body relocations a insns b" "k < length insns" "0 \<le> a"
  shows "0 \<le> bi_offset (insns ! k) \<and> 1 \<le> bi_length (insns ! k)
    \<and> bi_offset (insns ! k) + bi_length (insns ! k) \<le> len body"
  using assms
proof (induction insns arbitrary: a k)
  case (Cons i insns)
  then show ?case using decode_bijection_length [of body a relocations i] by (cases k) auto
qed simp

text \<open>Every window of an accepted schedule passed the checks on its own instructions.\<close>

lemma accepted_window:
  assumes a: "apply_instruction_schedule boundary body windows offsets relocations code_length internal_targets entries
      identity = Inr r" and w: "w \<in> set windows"
    and d: "decoded_from body (map_of relocations) (sw_start w) insns (sw_end w)"
  shows "\<exists>evidence stack edges pieces reordered.
    window_pieces body w insns stack = Inr (pieces, reordered)
    \<and> window_order (boundary evidence) body identity w insns = Inr (stack, edges)
    \<and> 0 \<le> sw_start w"
proof -
  let ?limit = "case code_length of None \<Rightarrow> len body | Some l \<Rightarrow> l"
  obtain img detail changed where r: "r = (img, detail, changed)" by (cases r)
  obtain spans targets evidence stop where
    walk: "ia32_schedule_body_walk body relocations code_length internal_targets = Inr (spans, targets)"
    and f: "rfold (window_step (boundary evidence) body ?limit relocations offsets spans targets entries
        identity) (0, body, []) windows = Inr (stop, img, detail)"
    using a by (auto simp: apply_instruction_schedule_def Let_def r)
  have limit: "?limit \<le> len body"
    using walk by (auto simp: ia32_schedule_body_walk_def Let_def)
  note fold = windows_fold [OF f order_refl limit refl]
  obtain insns' stack edges pieces reordered targets' entries' previous_end where
    i: "window_inside body ?limit relocations spans targets' entries' previous_end w = Inr insns'"
    and o: "window_order (boundary evidence) body identity w insns' = Inr (stack, edges)"
    and p: "window_pieces body w insns' stack = Inr (pieces, reordered)"
    using fold w by (auto simp: window_done_def)
  have "insns' = insns" using decoded_from_unique [OF window_decoded [OF walk i] d] .
  moreover have "0 \<le> sw_start w" using fold w by auto
  ultimately show ?thesis using o p by blast
qed

section \<open>Properties\<close>

text \<open>
  C9.  What an accepted schedule does to a body.  The image has the length of the body, differs
  from it, and differs only inside declared windows.  Each window is the concatenation of its
  own instructions, decoded one after the other from its start to its end under the given
  relocations, in the declared target order, which is a permutation of them that passes the
  topological check on the declared dependence edges.  An instruction keeps its bytes, except
  that the rows of the computed stack adjustments, which are the declared ones, rewrite their
  ESP displacement.
\<close>

theorem schedule_image_exact:
  assumes a: "apply_instruction_schedule boundary body windows offsets relocations code_length
      internal_targets entries identity = Inr (img, detail, changed)"
  shows "length img = length body \<and> img \<noteq> body
    \<and> (\<forall>k < length body. \<not> in_window windows (int k) \<longrightarrow> img ! k = body ! k)
    \<and> (\<forall>w \<in> set windows. \<exists>insns stack.
         0 \<le> sw_start w \<and> sw_start w < sw_end w \<and> sw_end w \<le> len body
         \<and> decoded_from body (map_of relocations) (sw_start w) insns (sw_end w)
         \<and> sort (sw_target_order w) = pyrange 0 (len insns)
         \<and> require_topological_instruction_order (len insns) (sw_expected_edges w) (sw_target_order w) = Inr ()
         \<and> ia32_schedule_stack_adjustments body insns (sw_target_order w) (private_window w) = Inr stack
         \<and> stack = (case sw_stack_adjustments w of None \<Rightarrow> [] | Some declared \<Rightarrow> declared)
         \<and> pslice img (sw_start w) (sw_end w)
             = concat (map (\<lambda>k. rebased_bytes body (insns ! nat k) (map_of stack k)) (sw_target_order w)))"
proof -
  let ?limit = "case code_length of None \<Rightarrow> len body | Some l \<Rightarrow> l"
  obtain spans targets evidence stop where
    walk: "ia32_schedule_body_walk body relocations code_length internal_targets = Inr (spans, targets)"
    and f: "rfold (window_step (boundary evidence) body ?limit relocations offsets spans targets entries
        identity) (0, body, []) windows = Inr (stop, img, detail)"
    and ne: "img \<noteq> body"
    using a by (auto simp: apply_instruction_schedule_def Let_def)
  have limit: "?limit \<le> len body"
    using walk by (auto simp: ia32_schedule_body_walk_def Let_def)
  note fold = windows_fold [OF f order_refl limit refl]
  have "\<exists>insns stack.
         0 \<le> sw_start w \<and> sw_start w < sw_end w \<and> sw_end w \<le> len body
         \<and> decoded_from body (map_of relocations) (sw_start w) insns (sw_end w)
         \<and> sort (sw_target_order w) = pyrange 0 (len insns)
         \<and> require_topological_instruction_order (len insns) (sw_expected_edges w) (sw_target_order w) = Inr ()
         \<and> ia32_schedule_stack_adjustments body insns (sw_target_order w) (private_window w) = Inr stack
         \<and> stack = (case sw_stack_adjustments w of None \<Rightarrow> [] | Some declared \<Rightarrow> declared)
         \<and> pslice img (sw_start w) (sw_end w)
             = concat (map (\<lambda>k. rebased_bytes body (insns ! nat k) (map_of stack k)) (sw_target_order w))"
    if w: "w \<in> set windows" for w
  proof -
    have b: "0 \<le> sw_start w" "sw_start w < sw_end w" "sw_end w \<le> len body"
      using fold limit w by auto
    obtain insns stack edges pieces reordered targets' entries' previous_end where
      i: "window_inside body ?limit relocations spans targets' entries' previous_end w = Inr insns"
      and o: "window_order (boundary evidence) body identity w insns = Inr (stack, edges)"
      and p: "window_pieces body w insns stack = Inr (pieces, reordered)"
      and r: "len reordered = sw_end w - sw_start w"
        "\<forall>k < length reordered. img ! (nat (sw_start w) + k) = reordered ! k"
      using fold w by (auto simp: window_done_def)
    note order = window_order_facts [OF o]
    have "pslice img (sw_start w) (sw_end w) = reordered"
      using b r fold by (intro nth_equalityI) (auto simp: pslice_nonneg)
    then show ?thesis
      using b window_decoded [OF walk i] order window_bytes [OF o p] by (intro exI [of _ insns] exI [of _ stack]) simp
  qed
  then show ?thesis
    using fold ne by simp
qed

text \<open>
  C40.  A displacement is rebased only if all its bytes change.  The check that an instruction
  changed only inside its ESP displacement compares the changed bytes with the whole field, so a
  schedule is refused as soon as one declared stack adjustment leaves one byte of its
  displacement field as it was, as every adjustment of a four-byte displacement does whose old
  and new value share their high byte.
\<close>

theorem wide_rebase_refused:
  assumes "w \<in> set windows" "sw_stack_adjustments w = Some rows" "(int k, at, old_value, new_value) \<in> set rows"
    and "decoded_from body (map_of relocations) (sw_start w) insns (sw_end w)"
    and "ia32_esp_relative_displacement body (insns ! k) = Inr (Esp_Displacement at width old_value)"
    and "j < nat width" "body ! nat (at + int j) = signed_bytes (nat width) new_value ! j"
  shows "apply_instruction_schedule boundary body windows offsets relocations code_length internal_targets entries
    identity \<noteq> Inr r"
proof
  assume a: "apply_instruction_schedule boundary body windows offsets relocations code_length internal_targets entries
    identity = Inr r"
  obtain pieces reordered stack edges evidence where
    p: "window_pieces body w insns stack = Inr (pieces, reordered)"
    and o: "window_order (boundary evidence) body identity w insns = Inr (stack, edges)"
    and s: "0 \<le> sw_start w"
    using accepted_window [OF a assms(1,4)] by blast
  note order = window_order_facts [OF o]
  have stack: "stack = rows" using order(4) assms(2) by simp
  have row: "map_of stack (int k) = Some (at, old_value, new_value)"
    using stack_adjustments_rows(1) [OF order(3)] assms(3) unfolding stack by (rule map_of_is_SomeI)
  have k: "k < length insns" using stack_adjustments_range [OF order(3)] assms(3) unfolding stack by force
  note c = rebase_changes_field [OF p o row k assms(5,6)]
  have "instruction_bytes body (insns ! k) ! nat (at - bi_offset (insns ! k) + int j) = body ! nat (at + int j)"
    using c(2,3) decoded_from_offset [OF assms(4) k s]
    by (auto simp: instruction_bytes_def pslice_nonneg intro!: arg_cong [of _ _ "(!) body"])
  then show False using c(1) assms(7) by simp
qed

theorem wide_rebase_refused_witness:
  "\<forall>r. apply_instruction_schedule (\<lambda>_ _ _. Inr ()) [0x50, 0x8B, 0x94, 0x24, 0x14, 0x01, 0, 0, 0xC3]
     [\<lparr>sw_start = 0, sw_end = 8, sw_target_order = [1, 0], sw_relocation_reseat = None,
       sw_stack_adjustments = Some [(1, 4, 0x114, 0x110)], sw_theorem = None, sw_expected_edges = [],
       sw_source_lengths = [1, 7]\<rparr>] [] [] None None [] None \<noteq> Inr r"
proof -
  let ?body = "[0x50, 0x8B, 0x94, 0x24, 0x14, 0x01, 0, 0, 0xC3] :: bytes"
  let ?insns = "map (\<lambda>offset. projr (decode_ia32_bijection_instruction ?body offset (map_of []))) [0, 1]"
  have d: "decoded_from ?body (map_of []) 0 ?insns 8" by code_simp
  have e: "ia32_esp_relative_displacement ?body (?insns ! 1) = Inr (Esp_Displacement 4 4 0x114)" by code_simp
  have b: "?body ! nat (4 + int 1) = signed_bytes (nat 4) 0x110 ! 1" by code_simp
  let ?w = "\<lparr>sw_start = 0, sw_end = 8, sw_target_order = [1, 0], sw_relocation_reseat = None,
       sw_stack_adjustments = Some [(1, 4, 0x114, 0x110)], sw_theorem = None, sw_expected_edges = [],
       sw_source_lengths = [1, 7]\<rparr>"
  have m: "?w \<in> set [?w]" "sw_stack_adjustments ?w = Some [(1, 4, 0x114, 0x110)]"
    "(int 1, 4, 0x114, 0x110) \<in> set [(1, 4, 0x114, 0x110)]" "1 < nat 4"
    and d: "decoded_from ?body (map_of []) (sw_start ?w) ?insns (sw_end ?w)" using d by simp_all
  show ?thesis by (intro allI wide_rebase_refused [OF m(1-3) d e m(4) b])
qed

theorem schedule_image_exact_witness:
  "length ([0x33, 0xFF, 0x8B, 0x54, 0x24, 0x14, 0xC3] :: bytes) = 7
   \<and> \<not> in_window [\<lparr>sw_start = 0, sw_end = 6, sw_target_order = [1, 0], sw_relocation_reseat = None,
         sw_stack_adjustments = None, sw_theorem = None, sw_expected_edges = [],
         sw_source_lengths = [4, 2]\<rparr>] 6
   \<and> ([0x33, 0xFF, 0x8B, 0x54, 0x24, 0x14, 0xC3] :: bytes) ! 6 = 0xC3"
proof -
  let ?body = "[0x8B, 0x54, 0x24, 0x14, 0x33, 0xFF, 0xC3] :: bytes"
  let ?w = "\<lparr>sw_start = 0, sw_end = 6, sw_target_order = [1, 0], sw_relocation_reseat = None,
         sw_stack_adjustments = None, sw_theorem = None, sw_expected_edges = [],
         sw_source_lengths = [4, 2]\<rparr>"
  have a: "apply_instruction_schedule (\<lambda>_ _ _. Inr ()) ?body [?w] [] [] None None [] None
     = Inr ([0x33, 0xFF, 0x8B, 0x54, 0x24, 0x14, 0xC3],
            [\<lparr>wd_start = 0, wd_end = 6, wd_reseat = [], wd_stack = [],
              wd_pieces = [[0x33, 0xFF], [0x8B, 0x54, 0x24, 0x14]], wd_order = [1, 0], wd_edges = []\<rparr>],
            [0, 1, 2, 3, 4, 5])"
    by code_simp
  have "\<not> in_window [?w] 6"
    by (simp add: in_window_def)
  then show ?thesis
    using schedule_image_exact [OF a] by auto
qed

end
