(* ===== verification/Dependency_Queue.thy ===== *)
theory Dependency_Queue
  imports Prelude "HOL-Library.List_Lexorder" "HOL-Library.Product_Lexorder" "HOL-Library.Char_ord"
begin

text \<open>
  The ready queue of the producer schedulers, \<^verbatim>\<open>src/reprobit/dag_queue.py\<close>: a
  \<^verbatim>\<open>TopologicalSorter\<close> of the standard library behind a heap that releases ready nodes
  in a stable order.  The sorter is translated operation by operation; the binary heap is
  the sorted list of its entries, because only the smallest entry is ever observed.

  A set of predecessors is a duplicate-free list, and the dictionary of dependencies an
  association list.  Below code point 256 the case folding is that of Latin-1; the micro
  sign, whose folding lies above, is left as it is.
\<close>

section \<open>Topological sorter\<close>

type_synonym dependency_graph = "(string \<times> string list) list"

text \<open>
  A node carries its count of unfinished predecessors, or \<open>-1\<close> once it was handed out and
  \<open>-2\<close> once it is done, and its successors.
\<close>

record sorter =
  ts_nodes :: "(string \<times> int \<times> string list) list"
  ts_ready :: "string list"
  ts_npassedout :: int
  ts_nfinished :: int

definition node_info :: "(string \<times> int \<times> string list) list \<Rightarrow> string \<Rightarrow> int \<times> string list" where
  "node_info d node = (case map_of d node of None \<Rightarrow> (0, []) | Some entry \<Rightarrow> entry)"

definition add_successor ::
    "string \<Rightarrow> (string \<times> int \<times> string list) list \<Rightarrow> string \<Rightarrow> (string \<times> int \<times> string list) list" where
  "add_successor node d parent =
     dict_set d parent (fst (node_info d parent), snd (node_info d parent) @ [node])"

definition sorter_add ::
    "(string \<times> int \<times> string list) list \<Rightarrow> string \<times> string list \<Rightarrow> (string \<times> int \<times> string list) list" where
  "sorter_add d row =
     (case row of (node, parents) \<Rightarrow>
       foldl (add_successor node)
         (dict_set d node (fst (node_info d node) + len parents, snd (node_info d node))) parents)"

text \<open>
  The search for a cycle: nodes none of whose predecessors is left are removed, round after
  round; what remains after as many rounds as there are nodes holds a cycle.
\<close>

fun peel :: "nat \<Rightarrow> dependency_graph \<Rightarrow> dependency_graph" where
  "peel 0 g = g"
| "peel (Suc n) g = peel n (filter (\<lambda>(node, parents). \<exists>p \<in> set parents. p \<in> fst ` set g) g)"

definition has_cycle :: "dependency_graph \<Rightarrow> bool" where
  "has_cycle g = (peel (length g) g \<noteq> [])"

definition sorter_prepare :: "dependency_graph \<Rightarrow> sorter result" where
  "sorter_prepare g =
     (let nodes = foldl sorter_add [] g
      in raise_unless (\<not> has_cycle g) (ValueError ''dependency graph contains a cycle'')
           (Inr \<lparr>ts_nodes = nodes,
                 ts_ready = map fst (filter (\<lambda>(node, count, _). count = 0) nodes),
                 ts_npassedout = 0, ts_nfinished = 0\<rparr>))"

definition hand_out ::
    "(string \<times> int \<times> string list) list \<Rightarrow> string \<Rightarrow> (string \<times> int \<times> string list) list" where
  "hand_out d node = dict_set d node (-1, snd (node_info d node))"

definition sorter_get_ready :: "sorter \<Rightarrow> string list \<times> sorter" where
  "sorter_get_ready t =
     (ts_ready t, t\<lparr>ts_nodes := foldl hand_out (ts_nodes t) (ts_ready t), ts_ready := [],
        ts_npassedout := ts_npassedout t + len (ts_ready t)\<rparr>)"

definition release ::
    "(string \<times> int \<times> string list) list \<times> string list \<Rightarrow> string \<Rightarrow>
     (string \<times> int \<times> string list) list \<times> string list" where
  "release s successor =
     (case s of (d, ready) \<Rightarrow>
       let count = fst (node_info d successor) - 1
       in (dict_set d successor (count, snd (node_info d successor)),
           if count = 0 then ready @ [successor] else ready))"

definition sorter_done :: "sorter \<Rightarrow> string \<Rightarrow> sorter result" where
  "sorter_done t node =
     (case map_of (ts_nodes t) node of
        None \<Rightarrow> Inl (ValueError ''node was not added using add()'')
      | Some (stat, successors) \<Rightarrow>
          raise_unless (stat < 0) (ValueError ''node was not passed out'') (
          raise_unless (stat \<noteq> -2) (ValueError ''node was already marked done'') (
          let (d, ready) = foldl release
                (dict_set (ts_nodes t) node (-2, successors), ts_ready t) successors
          in Inr (t\<lparr>ts_nodes := d, ts_ready := ready, ts_nfinished := ts_nfinished t + 1\<rparr>))))"

definition sorter_is_active :: "sorter \<Rightarrow> bool" where
  "sorter_is_active t = (ts_nfinished t < ts_npassedout t \<or> ts_ready t \<noteq> [])"

section \<open>The queue\<close>

definition casefold_char :: "char \<Rightarrow> string" where
  "casefold_char c =
     (let n = (of_char c :: nat)
      in if 65 \<le> n \<and> n \<le> 90 \<or> 192 \<le> n \<and> n \<le> 222 \<and> n \<noteq> 215 then [char_of (n + 32)]
         else if n = 223 then ''ss'' else [c])"

definition casefold :: "string \<Rightarrow> string" where
  "casefold s = concat (map casefold_char s)"

record dependency_queue =
  dq_sorter :: sorter
  dq_ready :: "(string \<times> string) list"

definition collect_ready :: "dependency_queue \<Rightarrow> dependency_queue" where
  "collect_ready q =
     (case sorter_get_ready (dq_sorter q) of (nodes, t) \<Rightarrow>
       \<lparr>dq_sorter = t, dq_ready = foldl (\<lambda>h node. insort (casefold node, node) h) (dq_ready q) nodes\<rparr>)"

definition queue_graph :: "(string \<times> string list) list \<Rightarrow> string list \<Rightarrow> dependency_graph" where
  "queue_graph dependencies completed =
     map (\<lambda>(node, parents). (node, remdups (filter (\<lambda>p. p \<notin> set completed) parents))) dependencies"

definition dependency_queue_init ::
    "(string \<times> string list) list \<Rightarrow> string list \<Rightarrow> dependency_queue result" where
  "dependency_queue_init dependencies completed =
     (let graph = queue_graph dependencies completed
      in raise_unless (list_all (\<lambda>(_, parents). set parents \<subseteq> fst ` set graph) graph)
           (ValueError ''dependency graph has unknown predecessors'')
           (rbind (sorter_prepare graph) (\<lambda>t. Inr (collect_ready \<lparr>dq_sorter = t, dq_ready = []\<rparr>))))"

definition take_ready :: "dependency_queue \<Rightarrow> int \<Rightarrow> string list \<times> dependency_queue" where
  "take_ready q capacity =
     (let count = nat (min capacity (len (dq_ready q)))
      in (map snd (take count (dq_ready q)), q\<lparr>dq_ready := drop count (dq_ready q)\<rparr>))"

definition queue_finish :: "dependency_queue \<Rightarrow> string \<Rightarrow> dependency_queue result" where
  "queue_finish q node =
     rbind (sorter_done (dq_sorter q) node) (\<lambda>t. Inr (collect_ready (q\<lparr>dq_sorter := t\<rparr>)))"

definition queue_active :: "dependency_queue \<Rightarrow> bool" where
  "queue_active q = sorter_is_active (dq_sorter q)"

section \<open>Cycles\<close>

abbreviation graph_nodes :: "dependency_graph \<Rightarrow> string set" where
  "graph_nodes g \<equiv> fst ` set g"

definition parents_of :: "dependency_graph \<Rightarrow> string \<Rightarrow> string set" where
  "parents_of g node = (case map_of g node of None \<Rightarrow> {} | Some ps \<Rightarrow> set ps)"

definition graph_ok :: "dependency_graph \<Rightarrow> bool" where
  "graph_ok g \<longleftrightarrow> distinct (map fst g)
     \<and> (\<forall>(node, parents) \<in> set g. distinct parents \<and> set parents \<subseteq> graph_nodes g)"

text \<open>The relation whose acyclicity the queue asks for.\<close>

definition depends_on :: "dependency_graph \<Rightarrow> (string \<times> string) set" where
  "depends_on g = {(p, node). \<exists>parents. (node, parents) \<in> set g \<and> p \<in> set parents}"

lemma parents_of_row: "graph_ok g \<Longrightarrow> (node, parents) \<in> set g \<Longrightarrow> parents_of g node = set parents"
  by (auto simp: parents_of_def graph_ok_def)

lemma parents_in_graph: "graph_ok g \<Longrightarrow> parents_of g node \<subseteq> graph_nodes g"
  by (fastforce simp: parents_of_def graph_ok_def split: option.splits dest: map_of_SomeD)

lemma peel_empty_minimal:
  assumes "peel n g = []" "S \<subseteq> graph_nodes g" "S \<noteq> {}"
  shows "\<exists>node \<in> S. \<forall>parents. (node, parents) \<in> set g \<longrightarrow> set parents \<inter> S = {}"
  using assms
proof (induction n g arbitrary: S rule: peel.induct)
  case (1 g) then show ?case by auto
next
  case (2 n g)
  let ?g = "filter (\<lambda>(node, parents). \<exists>p \<in> set parents. p \<in> graph_nodes g) g"
  show ?case
  proof (cases "\<exists>node \<in> S. \<forall>parents. (node, parents) \<in> set g \<longrightarrow> set parents \<inter> graph_nodes g = {}")
    case True
    then obtain node where "node \<in> S"
      "\<And>parents. (node, parents) \<in> set g \<Longrightarrow> set parents \<inter> graph_nodes g = {}" by meson
    then have "\<forall>parents. (node, parents) \<in> set g \<longrightarrow> set parents \<inter> S = {}" using 2(3) by fast
    then show ?thesis using \<open>node \<in> S\<close> by (rule bexI)
  next
    case False
    have T: "S \<subseteq> graph_nodes ?g"
    proof
      fix node assume "node \<in> S"
      then obtain parents where r: "(node, parents) \<in> set g" "set parents \<inter> graph_nodes g \<noteq> {}"
        using False by meson
      then obtain p where "p \<in> set parents" "p \<in> graph_nodes g" by blast
      then have "(node, parents) \<in> set ?g" using r(1) by auto
      then show "node \<in> graph_nodes ?g" by (rule rev_image_eqI) simp
    qed
    have e: "peel n ?g = []" using 2(2) by (simp only: peel.simps)
    obtain node where n: "node \<in> S" "\<And>parents. (node, parents) \<in> set ?g \<Longrightarrow> set parents \<inter> S = {}"
      using 2(1) [OF e T 2(4)] by meson
    have "set parents \<inter> S = {}" if r: "(node, parents) \<in> set g" for parents
    proof (rule ccontr)
      assume "set parents \<inter> S \<noteq> {}"
      moreover then obtain p where "p \<in> set parents" "p \<in> graph_nodes g" using 2(3) by blast
      then have "(node, parents) \<in> set ?g" using r by auto
      ultimately show False using n(2) by simp
    qed
    then show ?thesis using n(1) by blast
  qed
qed

lemma finite_depends_on: "finite (depends_on g)"
proof (rule finite_subset)
  show "depends_on g \<subseteq> (\<Union>row \<in> set g. set (snd row)) \<times> graph_nodes g"
    by (force simp: depends_on_def)
qed simp

lemma peel_acyclic_empty:
  assumes "acyclic (depends_on g)" "length g \<le> n"
  shows "peel n g = []"
  using assms
proof (induction n g rule: peel.induct)
  case (1 g) then show ?case by simp
next
  case (2 n g)
  let ?g = "filter (\<lambda>(node, parents). \<exists>p \<in> set parents. p \<in> graph_nodes g) g"
  have sub: "depends_on ?g \<subseteq> depends_on g" by (auto simp: depends_on_def)
  then have a: "acyclic (depends_on ?g)" using 2(2) by (rule acyclic_subset [rotated])
  have "length ?g \<le> n"
  proof (cases "g = []")
    case False
    have "finite (depends_on g)"
      by (rule finite_depends_on)
    then have "wf (depends_on g)" using 2(2) by (rule finite_acyclic_wf)
    then obtain node where n: "node \<in> graph_nodes g" "\<And>p. (p, node) \<in> depends_on g \<Longrightarrow> p \<notin> graph_nodes g"
      using False by (metis wfE_min image_is_empty set_empty ex_in_conv)
    then obtain parents where r: "(node, parents) \<in> set g" by auto
    then have "\<not> (\<exists>p \<in> set parents. p \<in> graph_nodes g)" using n(2) by (auto simp: depends_on_def)
    then have "length ?g < length g" using r by (intro length_filter_less [of "(node, parents)"]) auto
    then show ?thesis using 2(3) by simp
  qed simp
  then show ?case using 2(1) a by simp
qed

lemma no_minimal_cycle:
  assumes "\<And>S. S \<subseteq> graph_nodes g \<Longrightarrow> S \<noteq> {} \<Longrightarrow>
    \<exists>node \<in> S. \<forall>parents. (node, parents) \<in> set g \<longrightarrow> set parents \<inter> S = {}"
  shows "acyclic (depends_on g)"
proof -
  have "wf (depends_on g)"
  proof (rule wfI_min)
    fix node and S :: "string set" assume s: "node \<in> S"
    show "\<exists>z \<in> S. \<forall>y. (y, z) \<in> depends_on g \<longrightarrow> y \<notin> S"
    proof (cases "S \<subseteq> graph_nodes g")
      case True
      then show ?thesis using assms [of S] s unfolding depends_on_def by blast
    next
      case False
      then show ?thesis by (force simp: depends_on_def)
    qed
  qed
  then show ?thesis by (rule wf_acyclic)
qed

lemma has_cycle_iff: "has_cycle g \<longleftrightarrow> \<not> acyclic (depends_on g)"
  using peel_acyclic_empty [of g "length g"] no_minimal_cycle [of g] peel_empty_minimal [of "length g" g]
  by (auto simp: has_cycle_def)

section \<open>The sorter refines a ready set\<close>

text \<open>
  The abstract state is a pair of sets: the nodes handed out and the nodes done.  The ready
  nodes are those not handed out whose predecessors are all done.
\<close>

definition successors_of :: "dependency_graph \<Rightarrow> string \<Rightarrow> string list" where
  "successors_of g node = map fst (filter (\<lambda>(_, parents). node \<in> set parents) g)"

definition node_count :: "dependency_graph \<Rightarrow> string set \<Rightarrow> string set \<Rightarrow> string \<Rightarrow> int" where
  "node_count g passed finished node =
     (if node \<in> finished then -2 else if node \<in> passed then -1
      else int (card (parents_of g node - finished)))"

definition ready_set :: "dependency_graph \<Rightarrow> string set \<Rightarrow> string set \<Rightarrow> string set" where
  "ready_set g passed finished =
     {node \<in> graph_nodes g. node \<notin> passed \<and> parents_of g node \<subseteq> finished}"

definition sorter_abs :: "dependency_graph \<Rightarrow> sorter \<Rightarrow> string set \<Rightarrow> string set \<Rightarrow> bool" where
  "sorter_abs g t passed finished \<longleftrightarrow>
     distinct (map fst (ts_nodes t)) \<and> fst ` set (ts_nodes t) = graph_nodes g
     \<and> (\<forall>node \<in> graph_nodes g.
          node_info (ts_nodes t) node = (node_count g passed finished node, successors_of g node))
     \<and> finished \<subseteq> passed \<and> passed \<subseteq> graph_nodes g
     \<and> (\<forall>node \<in> passed. parents_of g node \<subseteq> finished)
     \<and> distinct (ts_ready t) \<and> set (ts_ready t) = ready_set g passed finished
     \<and> ts_npassedout t = int (card passed) \<and> ts_nfinished t = int (card finished)"

lemma node_info_dict_set [simp]:
  "node_info (dict_set d k v) node = (if node = k then v else node_info d node)"
  by (simp add: node_info_def)

lemma map_of_node_info: "node \<in> fst ` set d \<Longrightarrow> map_of d node = Some (node_info d node)"
  by (auto simp: node_info_def dest: weak_map_of_SomeI split: option.split)

lemma fold_add_successor:
  "distinct parents \<Longrightarrow> node_info (foldl (add_successor m) d parents) n
     = (if n \<in> set parents then (fst (node_info d n), snd (node_info d n) @ [m]) else node_info d n)"
  by (induction parents arbitrary: d) (auto simp: add_successor_def)

lemma fold_add_successor_keys:
  "fst ` set (foldl (add_successor m) d parents) = fst ` set d \<union> set parents"
  by (induction parents arbitrary: d) (auto simp: add_successor_def dict_set_keys)

lemma fold_add_successor_distinct:
  "distinct (map fst d) \<Longrightarrow> distinct (map fst (foldl (add_successor m) d parents))"
  by (induction parents arbitrary: d) (auto simp: add_successor_def dict_set_distinct)

lemma sorter_add_keys: "fst ` set (sorter_add d row) = insert (fst row) (fst ` set d) \<union> set (snd row)"
  by (cases row) (simp add: sorter_add_def fold_add_successor_keys dict_set_keys)

lemma sorter_add_info:
  "distinct parents \<Longrightarrow> node_info (sorter_add d (m, parents)) n
     = (fst (node_info d n) + (if n = m then len parents else 0),
        snd (node_info d n) @ (if n \<in> set parents then [m] else []))"
  by (simp add: sorter_add_def fold_add_successor)

lemma sorter_nodes:
  assumes "distinct (map fst g)" "\<forall>(m, parents) \<in> set g. distinct parents"
  shows "node_info (foldl sorter_add [] g) n
    = (case map_of g n of None \<Rightarrow> 0 | Some parents \<Rightarrow> len parents, successors_of g n)"
  using assms
proof (induction g arbitrary: n rule: rev_induct)
  case Nil
  then show ?case by (simp add: node_info_def successors_of_def)
next
  case (snoc row g)
  obtain m parents where r: "row = (m, parents)" by fastforce
  have i: "node_info (foldl sorter_add [] g) k
    = (case map_of g k of None \<Rightarrow> 0 | Some parents \<Rightarrow> len parents, successors_of g k)" for k
    using snoc by auto
  have "map_of g m = None" "distinct parents"
    using snoc.prems r by (auto simp: map_of_eq_None_iff)
  then show ?case
    by (auto simp: r sorter_add_info i successors_of_def map_add_def split: option.split)
qed

lemma sorter_nodes_keys:
  "fst ` set (foldl sorter_add d g) = fst ` set d \<union> graph_nodes g \<union> (\<Union>row \<in> set g. set (snd row))"
  by (induction g arbitrary: d) (simp_all add: sorter_add_keys Un_ac)

lemma sorter_nodes_distinct:
  "distinct (map fst d) \<Longrightarrow> distinct (map fst (foldl sorter_add d g))"
  by (induction g arbitrary: d)
     (auto simp: sorter_add_def split: prod.split intro: fold_add_successor_distinct dict_set_distinct)

lemma sorter_prepare_abs:
  assumes g: "graph_ok g" and t: "sorter_prepare g = Inr t"
  shows "sorter_abs g t {} {}"
proof -
  let ?d = "foldl sorter_add [] g"
  have keys: "fst ` set ?d = graph_nodes g"
    using g unfolding sorter_nodes_keys graph_ok_def by force
  have dist: "distinct (map fst ?d)"
    by (simp add: sorter_nodes_distinct)
  have info: "node_info ?d n = (node_count g {} {} n, successors_of g n)" if n: "n \<in> graph_nodes g" for n
  proof -
    obtain parents where r: "(n, parents) \<in> set g" using n by auto
    then have "map_of g n = Some parents" "distinct parents"
      using g by (auto simp: graph_ok_def)
    then show ?thesis
      using sorter_nodes [of g n] g
      by (auto simp: node_count_def parents_of_def distinct_card graph_ok_def)
  qed
  have t': "t = \<lparr>ts_nodes = ?d, ts_ready = map fst (filter (\<lambda>(node, count, _). count = 0) ?d),
      ts_npassedout = 0, ts_nfinished = 0\<rparr>"
    using t by (auto simp: sorter_prepare_def raise_unless_def Let_def split: if_splits)
  have "finite (parents_of g n)" for n by (simp add: parents_of_def split: option.split)
  then have count: "fst (node_info ?d n) = 0 \<longleftrightarrow> parents_of g n = {}" if "n \<in> graph_nodes g" for n
    using info [OF that] by (simp add: node_count_def)
  have "n \<in> set (ts_ready t) \<longleftrightarrow> n \<in> ready_set g {} {}" for n
  proof -
    have "n \<in> set (ts_ready t) \<longleftrightarrow> n \<in> graph_nodes g \<and> fst (node_info ?d n) = 0"
      unfolding t' keys [symmetric] using dist
      by (force simp: node_info_def image_iff)
    then show ?thesis using count by (auto simp: ready_set_def)
  qed
  moreover have "distinct (ts_ready t)"
    using dist by (simp add: t' distinct_map_filter)
  ultimately show ?thesis
    using keys dist info by (auto simp: sorter_abs_def t')
qed

lemma fold_hand_out:
  "node_info (foldl hand_out d nodes) n = (if n \<in> set nodes then (-1, snd (node_info d n)) else node_info d n)"
  by (induction nodes arbitrary: d) (auto simp: hand_out_def)

lemma fold_hand_out_keys:
  "set nodes \<subseteq> fst ` set d \<Longrightarrow> map fst (foldl hand_out d nodes) = map fst d"
proof (induction nodes arbitrary: d)
  case (Cons node nodes)
  have "map fst (hand_out d node) = map fst d" using Cons.prems by (simp add: hand_out_def map_fst_dict_set)
  then show ?case using Cons by (metis foldl_Cons list.set_map set_subset_Cons subset_trans)
qed simp

lemma map_fst_keys: "map fst d = map fst e \<Longrightarrow> fst ` set d = fst ` set e"
  by (metis list.set_map)

lemma finite_parents: "finite (parents_of g node)"
  by (simp add: parents_of_def split: option.split)

lemma get_ready_abs:
  assumes a: "sorter_abs g t passed finished"
  shows "sorter_abs g (snd (sorter_get_ready t)) (passed \<union> ready_set g passed finished) finished"
proof -
  let ?R = "ready_set g passed finished"
  have r: "set (ts_ready t) = ?R" "distinct (ts_ready t)" and k: "fst ` set (ts_nodes t) = graph_nodes g"
    and info: "\<And>n. n \<in> graph_nodes g \<Longrightarrow>
      node_info (ts_nodes t) n = (node_count g passed finished n, successors_of g n)"
    and sub: "finished \<subseteq> passed" "passed \<subseteq> graph_nodes g" and p: "ts_npassedout t = int (card passed)"
    using a by (auto simp: sorter_abs_def)
  have R: "?R \<subseteq> graph_nodes g" "?R \<inter> passed = {}" by (auto simp: ready_set_def)
  have keys: "map fst (foldl hand_out (ts_nodes t) (ts_ready t)) = map fst (ts_nodes t)"
    using r(1) R(1) k by (intro fold_hand_out_keys) simp
  have c: "card (passed \<union> ?R) = card passed + length (ts_ready t)"
    using R sub(2) r distinct_card [of "ts_ready t"] by (subst card_Un_disjoint) (auto intro: finite_subset)
  have i: "node_info (foldl hand_out (ts_nodes t) (ts_ready t)) n
      = (node_count g (passed \<union> ?R) finished n, successors_of g n)" if "n \<in> graph_nodes g" for n
    using info [OF that] R sub by (auto simp: fold_hand_out r(1) node_count_def)
  have e: "ready_set g (passed \<union> ?R) finished = {}" by (auto simp: ready_set_def)
  show ?thesis
    using a i keys c p R e k
    by (auto simp: sorter_abs_def sorter_get_ready_def map_fst_keys [OF keys] ready_set_def)
qed

lemma fold_release:
  "distinct succ \<Longrightarrow> foldl release (d, ready) succ = (d', ready') \<Longrightarrow>
     (\<forall>n. node_info d' n = (if n \<in> set succ then (fst (node_info d n) - 1, snd (node_info d n)) else node_info d n))
     \<and> ready' = ready @ filter (\<lambda>n. fst (node_info d n) = 1) succ"
proof (induction succ arbitrary: d ready)
  case (Cons m succ)
  obtain d1 r1 where s: "release (d, ready) m = (d1, r1)" by fastforce
  then have d1: "node_info d1 n = (if n = m then (fst (node_info d n) - 1, snd (node_info d n)) else node_info d n)"
    and r1: "r1 = (if fst (node_info d m) = 1 then ready @ [m] else ready)" for n
    by (auto simp: release_def Let_def)
  have f: "filter (\<lambda>n. fst (node_info d1 n) = 1) succ = filter (\<lambda>n. fst (node_info d n) = 1) succ"
    using Cons.prems(1) by (intro filter_cong) (auto simp: d1)
  have "foldl release (d1, r1) succ = (d', ready')" using Cons.prems(2) s by simp
  then show ?case
    using Cons.IH [of d1 r1] Cons.prems(1) f by (auto simp: d1 r1)
qed simp

lemma fold_release_keys:
  "set succ \<subseteq> fst ` set d \<Longrightarrow> map fst (fst (foldl release (d, ready) succ)) = map fst d"
proof (induction succ arbitrary: d ready)
  case (Cons m succ)
  obtain d1 r1 where s: "release (d, ready) m = (d1, r1)" by fastforce
  then have "map fst d1 = map fst d"
    using Cons.prems by (clarsimp simp: release_def Let_def map_fst_dict_set) (force simp: image_iff)
  then show ?case
    using Cons.IH [of d1 r1] Cons.prems map_fst_keys [of d1 d] s by simp
qed simp

lemma set_successors: "graph_ok g \<Longrightarrow> set (successors_of g n) = {m \<in> graph_nodes g. n \<in> parents_of g m}"
  by (force simp: successors_of_def parents_of_row image_iff)

lemma distinct_successors: "graph_ok g \<Longrightarrow> distinct (successors_of g n)"
  by (simp add: successors_of_def graph_ok_def distinct_map_filter)

lemma count_one_less:
  assumes "node \<in> parents_of g m" "node \<notin> finished"
  shows "int (card (parents_of g m - insert node finished)) = int (card (parents_of g m - finished)) - 1"
proof -
  have "node \<in> parents_of g m - finished" using assms by auto
  then have "card (parents_of g m - finished - {node}) = card (parents_of g m - finished) - 1"
    and "0 < card (parents_of g m - finished)"
    using finite_parents [of g m] by (auto simp: card_gt_0_iff card_Diff_singleton)
  moreover have "parents_of g m - finished - {node} = parents_of g m - insert node finished" by auto
  ultimately show ?thesis by simp
qed

text \<open>Only a successor of the finished node can become ready.\<close>

lemma ready_after_done:
  assumes "ready_set g passed finished = {}" "m \<in> ready_set g passed (insert node finished)"
  shows "m \<in> graph_nodes g" "node \<in> parents_of g m" "m \<notin> passed"
    "parents_of g m \<subseteq> insert node finished"
proof -
  have "m \<notin> ready_set g passed finished" using assms(1) by simp
  then show "node \<in> parents_of g m" using assms(2) unfolding ready_set_def by blast
qed (use assms(2) in \<open>simp_all add: ready_set_def\<close>)

lemma done_abs:
  assumes g: "graph_ok g" and a: "sorter_abs g t passed finished"
    and n: "node \<in> passed" "node \<notin> finished" and r: "ts_ready t = []"
  shows "\<exists>t'. sorter_done t node = Inr t' \<and> sorter_abs g t' passed (insert node finished)"
proof -
  let ?s = "successors_of g node" and ?F = "insert node finished"
  have k: "fst ` set (ts_nodes t) = graph_nodes g" "distinct (map fst (ts_nodes t))"
    and info: "\<And>m. m \<in> graph_nodes g \<Longrightarrow>
      node_info (ts_nodes t) m = (node_count g passed finished m, successors_of g m)"
    and sub: "finished \<subseteq> passed" "passed \<subseteq> graph_nodes g"
      "\<And>m. m \<in> passed \<Longrightarrow> parents_of g m \<subseteq> finished"
    and counts: "ts_npassedout t = int (card passed)" "ts_nfinished t = int (card finished)"
    and empty: "ready_set g passed finished = {}"
    using a r by (auto simp: sorter_abs_def)
  have ng: "node \<in> graph_nodes g" using n(1) sub(2) by auto
  have m: "map_of (ts_nodes t) node = Some (-1, ?s)"
    using map_of_node_info [of node "ts_nodes t"] info [OF ng] n k(1) ng by (simp add: node_count_def)
  let ?d0 = "dict_set (ts_nodes t) node (-2, ?s)"
  obtain d ready where f: "foldl release (?d0, []) ?s = (d, ready)" by fastforce
  have succ: "set ?s = {m \<in> graph_nodes g. node \<in> parents_of g m}" by (rule set_successors [OF g])
  have out: "m \<notin> passed" if "m \<in> set ?s" for m
    using that sub(3) n(2) unfolding succ by auto
  have d0: "map fst ?d0 = map fst (ts_nodes t)" using ng k(1) by (simp add: map_fst_dict_set)
  have keys: "map fst d = map fst (ts_nodes t)"
    using fold_release_keys [of ?s ?d0 "[]"] f d0 k(1) map_fst_keys [OF d0] succ by auto
  have card: "int (card (parents_of g m - ?F)) = int (card (parents_of g m - finished)) - 1"
    if "m \<in> set ?s" for m
    using that n(2) unfolding succ by (intro count_one_less) auto
  have other: "node_count g passed ?F m = node_count g passed finished m"
    if "m \<in> graph_nodes g" "m \<noteq> node" "m \<notin> set ?s" for m
  proof -
    have "parents_of g m - ?F = parents_of g m - finished" using that unfolding succ by auto
    then show ?thesis using that by (simp add: node_count_def)
  qed
  note rel = fold_release [OF distinct_successors [OF g] f]
  have di: "node_info d m = (node_count g passed ?F m, successors_of g m)" if "m \<in> graph_nodes g" for m
    using rel that info [OF that] other [OF that] card [of m] out [of m] n sub(1)
    by (auto simp: node_count_def)
  have ready: "ready = filter (\<lambda>m. fst (node_info ?d0 m) = 1) ?s" using rel by simp
  have one: "fst (node_info ?d0 m) = 1 \<longleftrightarrow> parents_of g m \<subseteq> ?F" if s: "m \<in> set ?s" for m
  proof -
    have "m \<noteq> node" "m \<notin> finished" "m \<in> graph_nodes g" using s out n(1) sub(1) succ by auto
    then have "fst (node_info ?d0 m) = int (card (parents_of g m - ?F)) + 1"
      using info card [OF s] out [OF s] by (simp add: node_count_def)
    then show ?thesis using finite_parents [of g m] by (simp add: card_eq_0_iff)
  qed
  have "m \<in> set ready \<longleftrightarrow> m \<in> ready_set g passed ?F" for m
  proof
    assume m: "m \<in> set ready"
    then have s: "m \<in> set ?s" by (simp add: ready)
    then have "m \<in> graph_nodes g" unfolding succ by simp
    then show "m \<in> ready_set g passed ?F"
      using one [OF s] out [OF s] m by (simp add: ready ready_set_def)
  next
    assume "m \<in> ready_set g passed ?F"
    note m = ready_after_done [OF empty this]
    then have "m \<in> set ?s" unfolding succ by simp
    then show "m \<in> set ready" using one m(4) by (simp add: ready)
  qed
  then have "set ready = ready_set g passed ?F" by (rule set_eqI)
  moreover have "distinct ready" using distinct_successors [OF g] by (simp add: ready)
  moreover have "card ?F = card finished + 1"
    using n(2) sub finite_subset [of finished] finite_subset [of passed "graph_nodes g"] by (metis Suc_eq_plus1 card_insert_disjoint finite_imageI finite_set)
  ultimately have "sorter_abs g (t\<lparr>ts_nodes := d, ts_ready := ready, ts_nfinished := ts_nfinished t + 1\<rparr>) passed ?F"
    using a keys di n(1) map_fst_keys [OF keys] by (auto simp: sorter_abs_def)
  then show ?thesis
    using m f r by (simp add: sorter_done_def raise_unless_def)
qed

section \<open>The queue over the sorter\<close>

definition released :: "dependency_graph \<Rightarrow> string set \<Rightarrow> string set" where
  "released g finished = {node \<in> graph_nodes g. parents_of g node \<subseteq> finished}"

text \<open>What the queue promises: its heap holds exactly the released nodes not taken yet.\<close>

definition queue_abs :: "dependency_graph \<Rightarrow> dependency_queue \<Rightarrow> string set \<Rightarrow> string set \<Rightarrow> bool" where
  "queue_abs g q taken finished \<longleftrightarrow>
     sorter_abs g (dq_sorter q) (released g finished) finished
     \<and> distinct (dq_ready q) \<and> sorted (dq_ready q)
     \<and> set (dq_ready q) = (\<lambda>node. (casefold node, node)) ` (released g finished - taken)
     \<and> finished \<subseteq> taken \<and> taken \<subseteq> released g finished"

lemma ready_released: "passed \<union> ready_set g passed finished = passed \<union> released g finished"
  by (auto simp: ready_set_def released_def)

lemma fold_insort_key:
  fixes f :: "'a \<Rightarrow> 'b :: linorder"
  assumes "inj f" "distinct nodes" "distinct h" "sorted h" "set h \<inter> f ` set nodes = {}"
  shows "distinct (foldl (\<lambda>h x. insort (f x) h) h nodes) \<and> sorted (foldl (\<lambda>h x. insort (f x) h) h nodes)
    \<and> set (foldl (\<lambda>h x. insort (f x) h) h nodes) = set h \<union> f ` set nodes"
  using assms(2-)
proof (induction nodes arbitrary: h)
  case (Cons x nodes)
  have "f x \<notin> f ` set nodes" using Cons.prems(1) assms(1) by (auto dest: injD)
  then show ?case
    using Cons.IH [of "insort (f x) h"] Cons.prems by (auto simp: distinct_insort sorted_insort set_insort_key)
qed simp

lemma inj_heap_entry: "inj (\<lambda>node. (casefold node, node))"
  by (simp add: inj_def)

lemma collect_ready_abs:
  assumes s: "sorter_abs g t passed finished" and sub: "passed \<subseteq> released g finished"
    and h: "distinct h" "sorted h" "set h = (\<lambda>node. (casefold node, node)) ` (passed - taken)"
    and t: "finished \<subseteq> taken" "taken \<subseteq> passed"
  shows "queue_abs g (collect_ready \<lparr>dq_sorter = t, dq_ready = h\<rparr>) taken finished"
proof -
  have r: "set (ts_ready t) = ready_set g passed finished" "distinct (ts_ready t)"
    using s by (auto simp: sorter_abs_def)
  have p: "passed \<union> ready_set g passed finished = released g finished"
    using sub by (auto simp: ready_released)
  have "set h \<inter> (\<lambda>node. (casefold node, node)) ` set (ts_ready t) = {}"
    by (auto simp: h(3) r(1) ready_set_def)
  note f = fold_insort_key [OF inj_heap_entry r(2) h(1,2) this]
  have "released g finished - taken = (passed - taken) \<union> ready_set g passed finished"
    using p t by (auto simp: ready_set_def)
  then have "set (dq_ready (collect_ready \<lparr>dq_sorter = t, dq_ready = h\<rparr>))
      = (\<lambda>node. (casefold node, node)) ` (released g finished - taken)"
    using f by (simp add: collect_ready_def sorter_get_ready_def h(3) r(1) image_Un)
  moreover have "sorter_abs g (dq_sorter (collect_ready \<lparr>dq_sorter = t, dq_ready = h\<rparr>)) (released g finished) finished"
    using get_ready_abs [OF s] p by (simp add: collect_ready_def sorter_get_ready_def)
  ultimately show ?thesis
    using f t sub by (auto simp: queue_abs_def collect_ready_def sorter_get_ready_def)
qed

lemma queue_graph_ok:
  assumes "distinct (map fst deps)"
    "list_all (\<lambda>(_, parents). set parents \<subseteq> fst ` set (queue_graph deps done)) (queue_graph deps done)"
  shows "graph_ok (queue_graph deps done)"
proof -
  have "map fst (queue_graph deps done) = map fst deps" by (simp add: queue_graph_def case_prod_unfold)
  moreover have "distinct parents" if "(n, parents) \<in> set (queue_graph deps done)" for n parents
    using that by (auto simp: queue_graph_def)
  ultimately show ?thesis
    using assms unfolding graph_ok_def list_all_iff by auto
qed

lemma queue_init_abs:
  assumes d: "distinct (map fst deps)" and q: "dependency_queue_init deps completed = Inr q"
  shows "graph_ok (queue_graph deps completed) \<and> acyclic (depends_on (queue_graph deps completed))
    \<and> queue_abs (queue_graph deps completed) q {} {}"
proof -
  let ?g = "queue_graph deps completed"
  obtain t where t: "sorter_prepare ?g = Inr t" "q = collect_ready \<lparr>dq_sorter = t, dq_ready = []\<rparr>"
    and l: "list_all (\<lambda>(_, parents). set parents \<subseteq> fst ` set ?g) ?g"
    using q by (auto simp: dependency_queue_init_def Let_def raise_unless_def split: if_splits)
  have g: "graph_ok ?g" by (rule queue_graph_ok [OF d l])
  have "\<not> has_cycle ?g" using t(1) by (auto simp: sorter_prepare_def Let_def raise_unless_def split: if_splits)
  moreover have "queue_abs ?g q {} {}"
    unfolding t(2) using sorter_prepare_abs [OF g t(1)] by (rule collect_ready_abs) auto
  ultimately show ?thesis using g by (simp add: has_cycle_iff)
qed

lemma Diff_Diff_eq: "A - B - C = A - (B \<union> C)"
  by auto

lemma take_ready_abs:
  assumes q: "queue_abs g q taken finished" and t: "take_ready q capacity = (nodes, q')"
  shows "queue_abs g q' (taken \<union> set nodes) finished \<and> distinct nodes
    \<and> set nodes \<subseteq> released g finished - taken
    \<and> sorted (map (\<lambda>node. (casefold node, node)) nodes)
    \<and> (len (dq_ready q) \<le> capacity \<longrightarrow> set nodes = released g finished - taken)"
proof -
  let ?e = "\<lambda>node. (casefold node, node)" and ?c = "nat (min capacity (len (dq_ready q)))"
  let ?h = "dq_ready q"
  have h: "distinct ?h" "sorted ?h" "set ?h = ?e ` (released g finished - taken)"
    using q by (auto simp: queue_abs_def)
  have n: "nodes = map snd (take ?c ?h)" and q': "q' = q\<lparr>dq_ready := drop ?c ?h\<rparr>"
    using t by (auto simp: take_ready_def Let_def)
  have "map ?e nodes = map id (take ?c ?h)"
    unfolding n map_map using h(3) by (intro map_cong refl) (auto dest!: in_set_takeD)
  then have e: "map ?e nodes = take ?c ?h" by simp
  then have d: "distinct (map ?e nodes @ drop ?c ?h)" using h(1) by simp
  have "set (map ?e nodes @ drop ?c ?h) = set ?h" by (simp only: e append_take_drop_id)
  then have s: "?e ` set nodes \<union> set (drop ?c ?h) = ?e ` (released g finished - taken)"
    using h(3) by simp
  have sub: "set nodes \<subseteq> released g finished - taken"
    using s inj_image_subset_iff [OF inj_heap_entry] by blast
  have "?e ` set nodes \<inter> set (drop ?c ?h) = {}" using d by simp
  then have "set (drop ?c ?h) = ?e ` (released g finished - taken) - ?e ` set nodes"
    using s by blast
  then have "set (drop ?c ?h) = ?e ` (released g finished - (taken \<union> set nodes))"
    by (simp only: image_set_diff [OF inj_heap_entry, symmetric] Diff_Diff_eq)
  moreover have "sorted (map ?e nodes)" unfolding e using h(2) by (rule sorted_wrt_take)
  moreover have "set nodes = released g finished - taken" if c: "len ?h \<le> capacity"
  proof -
    have "?c = length ?h" using c by simp
    then have "set (drop ?c ?h) = {}" by simp
    then show ?thesis using s inj_image_eq_iff [OF inj_heap_entry] by simp
  qed
  ultimately show ?thesis
    using q d sub h(2) by (auto simp: queue_abs_def q' distinct_map sorted_wrt_drop)
qed

lemma queue_finish_abs:
  assumes g: "graph_ok g" and q: "queue_abs g q taken finished" and n: "node \<in> taken" "node \<notin> finished"
  shows "\<exists>q'. queue_finish q node = Inr q' \<and> queue_abs g q' taken (insert node finished)"
proof -
  let ?P = "released g finished"
  have s: "sorter_abs g (dq_sorter q) ?P finished" and h: "distinct (dq_ready q)" "sorted (dq_ready q)"
      "set (dq_ready q) = (\<lambda>node. (casefold node, node)) ` (?P - taken)"
    and t: "finished \<subseteq> taken" "taken \<subseteq> ?P"
    using q by (auto simp: queue_abs_def)
  have "ready_set g ?P finished = {}" by (auto simp: ready_set_def released_def)
  then have "ts_ready (dq_sorter q) = []" using s by (simp add: sorter_abs_def)
  then obtain t' where d: "sorter_done (dq_sorter q) node = Inr t'" "sorter_abs g t' ?P (insert node finished)"
    using done_abs [OF g s] n t(2) by blast
  have "?P \<subseteq> released g (insert node finished)" by (auto simp: released_def)
  from collect_ready_abs [OF d(2) this h] have
    "queue_abs g (collect_ready \<lparr>dq_sorter = t', dq_ready = dq_ready q\<rparr>) taken (insert node finished)"
    using t n(1) by auto
  then show ?thesis using d(1) by (cases q) (simp add: queue_finish_def)
qed

text \<open>In an acyclic graph something is always released: the queue cannot starve.\<close>

lemma released_progress:
  assumes a: "acyclic (depends_on g)" "graph_ok g" and n: "graph_nodes g - finished \<noteq> {}"
  shows "released g finished - finished \<noteq> {}"
proof -
  have w: "wf (depends_on g)" using finite_depends_on a(1) by (rule finite_acyclic_wf)
  obtain node where m: "node \<in> graph_nodes g - finished"
    "\<And>p. (p, node) \<in> depends_on g \<Longrightarrow> p \<notin> graph_nodes g - finished"
    using n wfE_min [OF w] by (metis ex_in_conv)
  have "p \<in> finished" if p: "p \<in> parents_of g node" for p
  proof -
    have "(p, node) \<in> depends_on g"
      using p by (auto simp: parents_of_def depends_on_def split: option.splits dest: map_of_SomeD)
    then show ?thesis using m(2) parents_in_graph [OF a(2)] p by blast
  qed
  then show ?thesis using m(1) by (auto simp: released_def)
qed

section \<open>The contract of a ready source\<close>

text \<open>
  What a scheduler relies on: a source over a graph is in a state described by the nodes
  taken from it and the nodes reported finished; taking with enough capacity yields exactly
  the nodes whose predecessors are finished and that were not taken; reporting a taken node
  is accepted once; and as long as a node is unfinished some unfinished node is releasable.
\<close>

locale ready_source =
  fixes nodes :: "'g \<Rightarrow> 'n set" and parents :: "'g \<Rightarrow> 'n \<Rightarrow> 'n set"
    and represents :: "'g \<Rightarrow> 'q \<Rightarrow> 'n set \<Rightarrow> 'n set \<Rightarrow> bool"
    and take_from :: "'q \<Rightarrow> int \<Rightarrow> 'n list \<times> 'q" and report :: "'q \<Rightarrow> 'n \<Rightarrow> 'q result"
  assumes taken_released: "represents g q taken finished \<Longrightarrow> taken \<subseteq> {n \<in> nodes g. parents g n \<subseteq> finished}"
    and finished_taken: "represents g q taken finished \<Longrightarrow> finished \<subseteq> taken"
    and take_law: "represents g q taken finished \<Longrightarrow> int (card (nodes g)) \<le> capacity \<Longrightarrow>
      take_from q capacity = (ns, q') \<Longrightarrow>
      represents g q' (taken \<union> set ns) finished \<and> distinct ns
      \<and> set ns = {n \<in> nodes g. parents g n \<subseteq> finished} - taken"
    and report_law: "represents g q taken finished \<Longrightarrow> n \<in> taken \<Longrightarrow> n \<notin> finished \<Longrightarrow>
      \<exists>q'. report q n = Inr q' \<and> represents g q' taken (insert n finished)"
    and progress: "represents g q taken finished \<Longrightarrow> nodes g - finished \<noteq> {} \<Longrightarrow>
      {n \<in> nodes g. parents g n \<subseteq> finished} - finished \<noteq> {}"
begin

lemma taken_nodes: "represents g q taken finished \<Longrightarrow> n \<in> taken \<Longrightarrow> n \<in> nodes g \<and> parents g n \<subseteq> finished"
  using taken_released by fastforce

text \<open>When every taken node is finished, a full take starves only if the graph is done.\<close>

lemma starvation_free:
  assumes r: "represents g q finished finished" and c: "int (card (nodes g)) \<le> capacity"
    and t: "take_from q capacity = (ns, q')" and n: "nodes g - finished \<noteq> {}"
  shows "ns \<noteq> []"
  using take_law [OF r c t] progress [OF r n] by force

lemma report_all:
  assumes "represents g q taken finished" "set ns \<subseteq> taken - finished" "distinct ns"
  shows "\<exists>q'. rfold report q ns = Inr q' \<and> represents g q' taken (finished \<union> set ns)"
  using assms
proof (induction ns arbitrary: q finished)
  case (Cons n ns)
  obtain q1 where q1: "report q n = Inr q1" "represents g q1 taken (insert n finished)"
    using report_law [OF Cons.prems(1), of n] Cons.prems(2) by auto
  have "set ns \<subseteq> taken - insert n finished" using Cons.prems(2,3) by auto
  from Cons.IH [OF q1(2) this] show ?case using q1(1) Cons.prems(3) by auto
qed auto

end

definition queue_represents :: "dependency_graph \<Rightarrow> dependency_queue \<Rightarrow> string set \<Rightarrow> string set \<Rightarrow> bool" where
  "queue_represents g q taken finished \<longleftrightarrow>
     graph_ok g \<and> acyclic (depends_on g) \<and> queue_abs g q taken finished"

lemma queue_ready_bound:
  assumes "queue_abs g q taken finished"
  shows "length (dq_ready q) \<le> card (graph_nodes g)"
proof -
  have "length (dq_ready q) = card (set (dq_ready q))"
    using assms by (metis queue_abs_def distinct_card)
  also have "\<dots> = card (released g finished - taken)"
    using assms by (simp add: queue_abs_def card_image inj_on_subset [OF inj_heap_entry])
  also have "\<dots> \<le> card (graph_nodes g)"
    by (intro card_mono) (auto simp: released_def)
  finally show ?thesis .
qed

interpretation dq: ready_source graph_nodes parents_of queue_represents take_ready queue_finish
proof
  fix g q taken finished capacity ns q'
  assume r: "queue_represents g q taken finished" and "int (card (graph_nodes g)) \<le> capacity"
    and t: "take_ready q capacity = (ns, q')"
  then have "len (dq_ready q) \<le> capacity"
    using queue_ready_bound by (fastforce simp: queue_represents_def)
  then show "queue_represents g q' (taken \<union> set ns) finished \<and> distinct ns
      \<and> set ns = {n \<in> graph_nodes g. parents_of g n \<subseteq> finished} - taken"
    using take_ready_abs [OF _ t, of g taken finished] r
    unfolding queue_represents_def released_def by blast
next
  fix g q taken finished
  assume r: "queue_represents g q taken finished"
  show "\<exists>q'. queue_finish q n = Inr q' \<and> queue_represents g q' taken (insert n finished)"
    if "n \<in> taken" "n \<notin> finished" for n
    using queue_finish_abs [OF _ _ that] r by (simp add: queue_represents_def)
  show "{n \<in> graph_nodes g. parents_of g n \<subseteq> finished} - finished \<noteq> {}" if "graph_nodes g - finished \<noteq> {}"
    using released_progress [OF _ _ that] r by (simp add: queue_represents_def released_def)
qed (auto simp: queue_represents_def queue_abs_def released_def)

end
