(* ===== verification/Task_Scheduler.thy ===== *)
theory Task_Scheduler
  imports Dependency_Queue
begin

text \<open>
  The task scheduler of \<^verbatim>\<open>src/reprobit/scheduler.py\<close>: validation of a task graph, the
  dispatch of ready tasks under a worker and a resource ceiling, and the loop that waits
  for running tasks.  A worker thread is the environment: each wait returns some non-empty
  set of finished tasks with an arbitrary outcome each, so the loop is a step relation and
  the theorems hold for every interleaving.  What a task does (its workspace on disk, its
  command, the cancellation token it may observe) is that outcome.
\<close>

section \<open>Tasks\<close>

record task_spec =
  task_id :: string
  task_dependencies :: "string list"
  task_resource_class :: string

definition nul_free :: "string \<Rightarrow> bool" where
  "nul_free s = (CHR 0x00 \<notin> set s)"

definition task_spec_valid :: "task_spec \<Rightarrow> task_spec result" where
  "task_spec_valid t =
     raise_unless (task_id t \<noteq> [] \<and> nul_free (task_id t) \<and> length (task_id t) \<le> 256)
       (ValueError ''task ID must be a bounded NUL-free string'') (
     raise_unless (task_id t \<notin> set (task_dependencies t)) (ValueError ''task depends on itself'') (
     raise_unless (distinct (task_dependencies t)) (ValueError ''task repeats a dependency'') (
     raise_unless (list_all (\<lambda>d. d \<noteq> [] \<and> nul_free d) (task_dependencies t))
       (ValueError ''task dependencies must be non-empty NUL-free strings'') (
     raise_unless (task_resource_class t \<noteq> [] \<and> nul_free (task_resource_class t))
       (ValueError ''resource class must be a non-empty NUL-free string'')
       (Inr t)))))"

text \<open>The directory name of a task workspace; the digest of the identifier is an argument.\<close>

definition slug_char :: "char \<Rightarrow> bool" where
  "slug_char c =
     (let n = (of_char c :: nat)
      in 65 \<le> n \<and> n \<le> 90 \<or> 97 \<le> n \<and> n \<le> 122 \<or> 48 \<le> n \<and> n \<le> 57 \<or> c \<in> set ''_.-'')"

function slug_replace :: "string \<Rightarrow> string" where
  "slug_replace [] = []"
| "slug_replace (c # cs) =
     (if slug_char c then c # slug_replace cs
      else ''-'' @ slug_replace (dropWhile (\<lambda>d. \<not> slug_char d) cs))"
  by pat_completeness auto
termination
  by (relation "measure length") (auto simp: le_imp_less_Suc length_dropWhile_le)

definition strip_dots :: "string \<Rightarrow> string" where
  "strip_dots s =
     (let edge = (\<lambda>c. c \<in> set ''.-'')
      in rev (dropWhile edge (rev (dropWhile edge s))))"

definition workspace_name :: "(string \<Rightarrow> string) \<Rightarrow> string \<Rightarrow> string" where
  "workspace_name sha256_hex identifier =
     (let stripped = take 48 (strip_dots (slug_replace identifier));
          slug = (if stripped = [] then ''task'' else stripped)
      in slug @ ''-'' @ take 12 (sha256_hex identifier))"

section \<open>Outcomes and errors\<close>

datatype task_failure =
    ProcessCancelled string
  | TaskError string
  | QueueError py_error

datatype 'r task_outcome = Returned 'r | Raised task_failure

datatype 'r scheduler_error =
    SchedulerError string "(string \<times> task_failure) list" "(string \<times> 'r) list" "string list"
  | UncaughtError py_error

definition add_task :: "(string \<times> task_spec) list \<Rightarrow> task_spec \<Rightarrow> (string \<times> task_spec) list option" where
  "add_task by_id t = (if task_id t \<in> fst ` set by_id then None else Some (dict_set by_id (task_id t) t))"

fun index_tasks :: "(string \<times> task_spec) list \<Rightarrow> task_spec list \<Rightarrow> (string \<times> task_spec) list option" where
  "index_tasks by_id [] = Some by_id"
| "index_tasks by_id (t # ts) =
     (case add_task by_id t of None \<Rightarrow> None | Some by_id' \<Rightarrow> index_tasks by_id' ts)"

definition task_graph :: "(string \<times> task_spec) list \<Rightarrow> (string \<times> string list) list" where
  "task_graph by_id = map (\<lambda>(_, t). (task_id t, task_dependencies t)) by_id"

definition scheduler_validate ::
    "task_spec list \<Rightarrow> 'r scheduler_error + (string \<times> task_spec) list" where
  "scheduler_validate tasks =
     (case index_tasks [] tasks of
        None \<Rightarrow> Inl (SchedulerError ''duplicate task ID'' [] [] [])
      | Some by_id \<Rightarrow>
          if \<not> list_all (\<lambda>(_, t). set (task_dependencies t) \<subseteq> fst ` set by_id) by_id
          then Inl (SchedulerError ''task has unknown dependencies'' [] [] [])
          else case dependency_queue_init (task_graph by_id) [] of
                 Inl (ValueError message) \<Rightarrow> Inl (SchedulerError message [] [] [])
               | Inl e \<Rightarrow> Inl (UncaughtError e)
               | Inr _ \<Rightarrow> Inr by_id)"

section \<open>The scheduler\<close>

record task_scheduler =
  sd_max_workers :: int
  sd_resource_limits :: "(string \<times> int) list"

definition scheduler_valid :: "task_scheduler \<Rightarrow> bool" where
  "scheduler_valid c =
     (0 < sd_max_workers c \<and> list_all (\<lambda>(name, limit). name \<noteq> [] \<and> 0 < limit) (sd_resource_limits c))"

record 'r scheduler_state =
  ss_pending :: "string set"
  ss_queue :: dependency_queue
  ss_ready :: "string list"
  ss_completed :: "(string \<times> 'r) list"
  ss_failures :: "(string \<times> task_failure) list"
  ss_running :: "string list"
  ss_active :: "(string \<times> int) list"

definition active_count :: "(string \<times> int) list \<Rightarrow> string \<Rightarrow> int" where
  "active_count active class = (case map_of active class of None \<Rightarrow> 0 | Some n \<Rightarrow> n)"

definition class_limit :: "task_scheduler \<Rightarrow> string \<Rightarrow> int" where
  "class_limit c class =
     (case map_of (sd_resource_limits c) class of None \<Rightarrow> sd_max_workers c | Some limit \<Rightarrow> limit)"

definition has_capacity :: "task_scheduler \<Rightarrow> (string \<times> int) list \<Rightarrow> task_spec \<Rightarrow> bool" where
  "has_capacity c active t =
     (active_count active (task_resource_class t) < class_limit c (task_resource_class t))"

text \<open>
  The inner loop: pop the smallest ready task while a worker is free; start it, or set it
  aside when its resource class is full.  What is left of the heap and the tasks set aside
  are the ready tasks of the next round.
\<close>

fun start_ready ::
    "task_scheduler \<Rightarrow> (string \<times> task_spec) list \<Rightarrow> string list \<Rightarrow> string list \<Rightarrow> 'r scheduler_state \<Rightarrow>
     (string list \<times> string list \<times> 'r scheduler_state) result" where
  "start_ready c by_id [] deferred s = Inr ([], deferred, s)"
| "start_ready c by_id (identifier # ready) deferred s =
     (if len (ss_running s) < sd_max_workers c
      then rbind (dict_item by_id identifier) (\<lambda>t.
           if \<not> has_capacity c (ss_active s) t
           then start_ready c by_id ready (deferred @ [identifier]) s
           else if task_id t \<notin> ss_pending s then Inl KeyError
           else start_ready c by_id ready deferred
                  (s\<lparr>ss_pending := ss_pending s - {task_id t},
                     ss_active := dict_set (ss_active s) (task_resource_class t)
                       (active_count (ss_active s) (task_resource_class t) + 1),
                     ss_running := ss_running s @ [task_id t]\<rparr>))
      else Inr (identifier # ready, deferred, s))"

definition push_all :: "string list \<Rightarrow> string list \<Rightarrow> string list" where
  "push_all heap new_items = foldl (\<lambda>h x. insort x h) heap new_items"

definition dispatch ::
    "task_scheduler \<Rightarrow> (string \<times> task_spec) list \<Rightarrow> 'r scheduler_state \<Rightarrow> 'r scheduler_state result" where
  "dispatch c by_id s =
     (if ss_failures s \<noteq> [] then Inr s
      else case take_ready (ss_queue s) (len by_id) of (nodes, q) \<Rightarrow>
        rbind (start_ready c by_id (push_all (ss_ready s) nodes) [] (s\<lparr>ss_queue := q\<rparr>))
          (\<lambda>(left, deferred, s'). Inr (s'\<lparr>ss_ready := push_all left deferred\<rparr>)))"

text \<open>What a finished task does to the state; a refusal of the queue counts as a failure of the task.\<close>

definition settle_task ::
    "(string \<times> task_spec) list \<Rightarrow> 'r scheduler_state \<Rightarrow> string \<times> 'r task_outcome \<Rightarrow>
     'r scheduler_state result" where
  "settle_task by_id s row =
     (case row of (identifier, what) \<Rightarrow>
       rbind (dict_item by_id identifier) (\<lambda>t.
       rbind (dict_item (ss_active s) (task_resource_class t)) (\<lambda>n.
         let s1 = s\<lparr>ss_running := remove1 identifier (ss_running s),
                    ss_active := dict_set (ss_active s) (task_resource_class t) (n - 1)\<rparr>
         in case what of
              Raised e \<Rightarrow> Inr (s1\<lparr>ss_failures := dict_set (ss_failures s1) identifier e\<rparr>)
            | Returned r \<Rightarrow>
                let s2 = s1\<lparr>ss_completed := dict_set (ss_completed s1) identifier r\<rparr>
                in case queue_finish (ss_queue s2) identifier of
                     Inl e \<Rightarrow> Inr (s2\<lparr>ss_failures := dict_set (ss_failures s2) identifier (QueueError e)\<rparr>)
                   | Inr q \<Rightarrow> Inr (s2\<lparr>ss_queue := q\<rparr>))))"

definition settle ::
    "(string \<times> task_spec) list \<Rightarrow> 'r scheduler_state \<Rightarrow> (string \<times> 'r task_outcome) list \<Rightarrow>
     'r scheduler_state result" where
  "settle by_id s finished = rfold (settle_task by_id) s (sort_key fst finished)"

definition scheduler_start :: "(string \<times> task_spec) list \<Rightarrow> 'r scheduler_state result" where
  "scheduler_start by_id =
     rbind (dependency_queue_init (task_graph by_id) []) (\<lambda>q.
       Inr \<lparr>ss_pending = fst ` set by_id, ss_queue = q, ss_ready = [], ss_completed = [],
            ss_failures = [], ss_running = [], ss_active = []\<rparr>)"

text \<open>The loop condition, and the set of results one wait may return.\<close>

definition in_loop :: "'r scheduler_state \<Rightarrow> bool" where
  "in_loop s = (ss_pending s \<noteq> {} \<or> ss_running s \<noteq> [])"

definition wait_returns :: "'r scheduler_state \<Rightarrow> (string \<times> 'r task_outcome) list \<Rightarrow> bool" where
  "wait_returns s finished \<longleftrightarrow>
     finished \<noteq> [] \<and> distinct (map fst finished) \<and> fst ` set finished \<subseteq> set (ss_running s)"

definition scheduler_round ::
    "task_scheduler \<Rightarrow> (string \<times> task_spec) list \<Rightarrow> 'r scheduler_state \<Rightarrow>
     (string \<times> 'r task_outcome) list \<Rightarrow> 'r scheduler_state result" where
  "scheduler_round c by_id s finished = rbind (dispatch c by_id s) (\<lambda>s1. settle by_id s1 finished)"

inductive scheduler_step ::
    "task_scheduler \<Rightarrow> (string \<times> task_spec) list \<Rightarrow> 'r scheduler_state \<Rightarrow> 'r scheduler_state \<Rightarrow> bool"
  for c by_id where
  step: "in_loop s \<Longrightarrow> dispatch c by_id s = Inr s1 \<Longrightarrow> ss_running s1 \<noteq> [] \<Longrightarrow> wait_returns s1 finished \<Longrightarrow>
     settle by_id s1 finished = Inr s' \<Longrightarrow> scheduler_step c by_id s s'"

text \<open>The two ways out of the loop: nothing is left, or nothing runs after a dispatch.\<close>

definition loop_exit ::
    "task_scheduler \<Rightarrow> (string \<times> task_spec) list \<Rightarrow> 'r scheduler_state \<Rightarrow> 'r scheduler_state option" where
  "loop_exit c by_id s =
     (if \<not> in_loop s then Some s
      else case dispatch c by_id s of
             Inl _ \<Rightarrow> None
           | Inr s1 \<Rightarrow> if ss_running s1 = [] then Some s1 else None)"

definition is_cancelled :: "task_failure \<Rightarrow> bool" where
  "is_cancelled e = (case e of ProcessCancelled _ \<Rightarrow> True | _ \<Rightarrow> False)"

definition primary_failure :: "(string \<times> task_failure) list \<Rightarrow> string" where
  "primary_failure failures =
     (let substantive = filter (\<lambda>(_, e). \<not> is_cancelled e) failures
      in hd (sort (map fst (if substantive = [] then failures else substantive))))"

definition scheduler_result :: "'r scheduler_state \<Rightarrow> 'r scheduler_error + (string \<times> 'r) list" where
  "scheduler_result s =
     (if ss_failures s \<noteq> []
      then Inl (SchedulerError (''task graph failed at '' @ primary_failure (ss_failures s))
                  (ss_failures s) (ss_completed s) (sorted_list_of_set (ss_pending s)))
      else if ss_pending s \<noteq> {}
      then Inl (SchedulerError ''task graph made no progress'' [] (ss_completed s)
                  (sorted_list_of_set (ss_pending s)))
      else Inr (sort_key fst (ss_completed s)))"

text \<open>A complete run for a given list of waits, for evaluation on concrete graphs.\<close>

fun run_waits ::
    "task_scheduler \<Rightarrow> (string \<times> task_spec) list \<Rightarrow> 'r scheduler_state \<Rightarrow>
     (string \<times> 'r task_outcome) list list \<Rightarrow> ('r scheduler_error + (string \<times> 'r) list) option" where
  "run_waits c by_id s [] = map_option scheduler_result (loop_exit c by_id s)"
| "run_waits c by_id s (finished # waits) =
     (case loop_exit c by_id s of
        Some s1 \<Rightarrow> Some (scheduler_result s1)
      | None \<Rightarrow> (case scheduler_round c by_id s finished of
                   Inl _ \<Rightarrow> None | Inr s' \<Rightarrow> run_waits c by_id s' waits))"

definition scheduler_run ::
    "task_scheduler \<Rightarrow> bool \<Rightarrow> task_spec list \<Rightarrow> (string \<times> 'r task_outcome) list list \<Rightarrow>
     ('r scheduler_error + (string \<times> 'r) list) option" where
  "scheduler_run c has_run tasks waits =
     (if has_run then Some (Inl (SchedulerError ''a task scheduler instance is single-use'' [] [] []))
      else case scheduler_validate tasks of
             Inl e \<Rightarrow> Some (Inl e)
           | Inr by_id \<Rightarrow>
               if by_id = [] then Some (Inr [])
               else case scheduler_start by_id of
                      Inl e \<Rightarrow> Some (Inl (UncaughtError e))
                    | Inr s \<Rightarrow> run_waits c by_id s waits)"

section \<open>Loops that end\<close>

text \<open>
  A loop whose every step keeps an invariant and lowers a rank, and that is never stuck
  before it stops, reaches a stop however its steps are chosen.
\<close>

locale terminating_loop =
  fixes loop_step :: "'s \<Rightarrow> 's \<Rightarrow> bool" and inv :: "'s \<Rightarrow> bool" and rank :: "'s \<Rightarrow> nat" and stops :: "'s \<Rightarrow> bool"
  assumes inv_step: "inv s \<Longrightarrow> loop_step s s' \<Longrightarrow> inv s'"
    and rank_step: "inv s \<Longrightarrow> loop_step s s' \<Longrightarrow> rank s' < rank s"
    and not_stuck: "inv s \<Longrightarrow> \<not> stops s \<Longrightarrow> \<exists>s'. loop_step s s'"
begin

lemma reachable_inv: "loop_step\<^sup>*\<^sup>* s s' \<Longrightarrow> inv s \<Longrightarrow> inv s'"
  by (induction rule: rtranclp_induct) (auto intro: inv_step)

lemma steps_bounded: "(loop_step ^^ n) s s' \<Longrightarrow> inv s \<Longrightarrow> n + rank s' \<le> rank s \<and> inv s'"
proof (induction n arbitrary: s')
  case (Suc n)
  then obtain t where t: "(loop_step ^^ n) s t" "loop_step t s'" by auto
  then have "n + rank t \<le> rank s" "inv t" using Suc by auto
  then show ?case using rank_step [OF _ t(2)] inv_step [OF _ t(2)] by auto
qed simp

lemma reaches_stop: "inv s \<Longrightarrow> \<exists>s'. loop_step\<^sup>*\<^sup>* s s' \<and> stops s'"
proof (induction "rank s" arbitrary: s rule: less_induct)
  case less
  show ?case
  proof (cases "stops s")
    case False
    then obtain t where t: "loop_step s t" using not_stuck less.prems by blast
    then have "\<exists>s'. loop_step\<^sup>*\<^sup>* t s' \<and> stops s'"
      using less rank_step inv_step by blast
    then show ?thesis using t by (meson converse_rtranclp_into_rtranclp)
  qed auto
qed

end

section \<open>Invariant\<close>

definition class_of :: "(string \<times> task_spec) list \<Rightarrow> string \<Rightarrow> string" where
  "class_of by_id n = (case map_of by_id n of None \<Rightarrow> [] | Some t \<Rightarrow> task_resource_class t)"

definition class_load :: "(string \<times> task_spec) list \<Rightarrow> string list \<Rightarrow> string \<Rightarrow> int" where
  "class_load by_id running class = len (filter (\<lambda>n. class_of by_id n = class) running)"

definition index_ok :: "(string \<times> task_spec) list \<Rightarrow> bool" where
  "index_ok by_id \<longleftrightarrow> distinct (map fst by_id) \<and> (\<forall>(n, t) \<in> set by_id. task_id t = n)"

definition load_ok ::
    "task_scheduler \<Rightarrow> (string \<times> task_spec) list \<Rightarrow> string list \<Rightarrow> (string \<times> int) list \<Rightarrow> bool" where
  "load_ok c by_id running active \<longleftrightarrow>
     distinct running \<and> len running \<le> sd_max_workers c
     \<and> (\<forall>class. active_count active class = class_load by_id running class
                \<and> class_load by_id running class \<le> class_limit c class)"

abbreviation keys_of :: "('k \<times> 'v) list \<Rightarrow> 'k set" where
  "keys_of d \<equiv> fst ` set d"

definition scheduler_graph :: "(string \<times> task_spec) list \<Rightarrow> dependency_graph" where
  "scheduler_graph by_id = queue_graph (task_graph by_id) []"

definition partitioned :: "(string \<times> task_spec) list \<Rightarrow> 'r scheduler_state \<Rightarrow> bool" where
  "partitioned by_id s \<longleftrightarrow>
     distinct (map fst (ss_completed s)) \<and> distinct (map fst (ss_failures s)) \<and> distinct (ss_running s)
     \<and> ss_pending s \<union> set (ss_running s) \<union> keys_of (ss_completed s) \<union> keys_of (ss_failures s) = keys_of by_id
     \<and> ss_pending s \<inter> set (ss_running s) = {}
     \<and> (ss_pending s \<union> set (ss_running s)) \<inter> keys_of (ss_completed s) = {}
     \<and> (ss_pending s \<union> set (ss_running s) \<union> keys_of (ss_completed s)) \<inter> keys_of (ss_failures s) = {}"

definition taken_tasks :: "'r scheduler_state \<Rightarrow> string set" where
  "taken_tasks s =
     set (ss_ready s) \<union> set (ss_running s) \<union> keys_of (ss_completed s) \<union> keys_of (ss_failures s)"

definition scheduler_inv ::
    "task_scheduler \<Rightarrow> (string \<times> task_spec) list \<Rightarrow> 'r scheduler_state \<Rightarrow> bool" where
  "scheduler_inv c by_id s \<longleftrightarrow>
     scheduler_valid c \<and> index_ok by_id \<and> partitioned by_id s
     \<and> distinct (ss_ready s) \<and> set (ss_ready s) \<subseteq> ss_pending s
     \<and> load_ok c by_id (ss_running s) (ss_active s)
     \<and> queue_represents (scheduler_graph by_id) (ss_queue s) (taken_tasks s) (keys_of (ss_completed s))"

lemma index_lookup:
  "index_ok by_id \<Longrightarrow> n \<in> keys_of by_id \<Longrightarrow> \<exists>t. dict_item by_id n = Inr t \<and> task_id t = n \<and>
     task_resource_class t = class_of by_id n"
  by (auto simp: index_ok_def dict_item_def class_of_def split: option.split)

lemma limit_positive: "scheduler_valid c \<Longrightarrow> 0 < class_limit c class"
  by (auto simp: scheduler_valid_def class_limit_def list_all_iff split: option.split dest: map_of_SomeD)

lemma active_count_set [simp]:
  "active_count (dict_set active k v) class = (if class = k then v else active_count active class)"
  by (simp add: active_count_def)

lemma load_ok_start:
  assumes "load_ok c by_id running active" "len running < sd_max_workers c" "n \<notin> set running"
    "active_count active (class_of by_id n) < class_limit c (class_of by_id n)"
  shows "load_ok c by_id (running @ [n])
    (dict_set active (class_of by_id n) (active_count active (class_of by_id n) + 1))"
  using assms by (auto simp: load_ok_def class_load_def)

lemma class_load_remove:
  "n \<in> set running \<Longrightarrow> distinct running \<Longrightarrow>
     class_load by_id (remove1 n running) class
     = class_load by_id running class - (if class_of by_id n = class then 1 else 0)"
  by (induction running) (auto simp: class_load_def)

lemma load_ok_remove:
  assumes "load_ok c by_id running active" "n \<in> set running"
  shows "load_ok c by_id (remove1 n running)
    (dict_set active (class_of by_id n) (active_count active (class_of by_id n) - 1))"
proof -
  have d: "distinct running" and w: "len running \<le> sd_max_workers c"
    and a: "\<And>class. active_count active class = class_load by_id running class"
      "\<And>class. class_load by_id running class \<le> class_limit c class"
    using assms(1) by (auto simp: load_ok_def)
  have "class_load by_id (remove1 n running) k \<le> class_limit c k" for k
    using a(2) [of k] by (simp add: class_load_remove [OF assms(2) d])
  moreover have "len (remove1 n running) \<le> sd_max_workers c"
    using w by (auto simp: length_remove1)
  ultimately show ?thesis
    using d a by (simp add: load_ok_def class_load_remove [OF assms(2) d])
qed

lemma active_present:
  assumes "load_ok c by_id running active" "n \<in> set running"
  shows "dict_item active (class_of by_id n) = Inr (active_count active (class_of by_id n))"
proof -
  have "filter (\<lambda>m. class_of by_id m = class_of by_id n) running \<noteq> []"
    using assms(2) by (auto simp: filter_empty_conv)
  then have "active_count active (class_of by_id n) \<noteq> 0"
    using assms(1) by (simp add: load_ok_def class_load_def)
  then show ?thesis by (auto simp: active_count_def dict_item_def split: option.splits)
qed

section \<open>Dispatch\<close>

text \<open>
  The effect of the inner loop: the pool of ready tasks splits into the tasks started, the
  rest of the heap and the tasks set aside.
\<close>

definition dispatched ::
    "task_scheduler \<Rightarrow> (string \<times> task_spec) list \<Rightarrow> string set \<Rightarrow> 'r scheduler_state \<Rightarrow> string list \<Rightarrow>
     string list \<Rightarrow> string list \<Rightarrow> 'r scheduler_state \<Rightarrow> bool" where
  "dispatched c by_id pool s started left deferred s' \<longleftrightarrow>
     (\<exists>active. s' = s\<lparr>ss_pending := ss_pending s - set started, ss_active := active,
                     ss_running := ss_running s @ started\<rparr>
               \<and> load_ok c by_id (ss_running s @ started) active)
     \<and> distinct (started @ left @ deferred) \<and> set (started @ left @ deferred) = pool"

lemma dispatched_none:
  "load_ok c by_id (ss_running s) (ss_active s) \<Longrightarrow> distinct (left @ deferred) \<Longrightarrow>
     dispatched c by_id (set (left @ deferred)) s [] left deferred s"
  by (auto simp: dispatched_def intro!: exI [of _ "ss_active s"])

lemma dispatched_first:
  assumes d: "dispatched c by_id pool
      (s\<lparr>ss_pending := ss_pending s - {n}, ss_active := a, ss_running := ss_running s @ [n]\<rparr>)
      started left deferred s'" and n: "n \<notin> pool"
  shows "dispatched c by_id (insert n pool) s (n # started) left deferred s'"
proof -
  have "ss_pending s - {n} - set started = ss_pending s - set (n # started)" by auto
  then show ?thesis using d n by (auto simp: dispatched_def)
qed

lemma start_ready_works:
  assumes "index_ok by_id" "distinct (ready @ deferred)" "set ready \<subseteq> ss_pending s"
    "ss_pending s \<subseteq> keys_of by_id" "ss_pending s \<inter> set (ss_running s) = {}"
    "load_ok c by_id (ss_running s) (ss_active s)"
  shows "\<exists>started left deferred' s'. start_ready c by_id ready deferred s = Inr (left, deferred', s')
    \<and> dispatched c by_id (set (ready @ deferred)) s started left deferred' s'"
  using assms(2-)
proof (induction ready arbitrary: deferred s)
  case Nil
  then show ?case using dispatched_none [of c by_id s "[]" deferred] by auto
next
  case (Cons n ready)
  note prems = Cons.prems
  show ?case
  proof (cases "len (ss_running s) < sd_max_workers c")
    case False
    then show ?thesis using prems dispatched_none [of c by_id s "n # ready" deferred] by auto
  next
    case True
    obtain t where t: "dict_item by_id n = Inr t" "task_id t = n" "task_resource_class t = class_of by_id n"
      using index_lookup [OF assms(1), of n] prems by auto
    show ?thesis
    proof (cases "has_capacity c (ss_active s) t")
      case False
      have d: "distinct (ready @ deferred @ [n])" "set ready \<subseteq> ss_pending s" using prems by auto
      have "set (ready @ deferred @ [n]) = set ((n # ready) @ deferred)" by auto
      then show ?thesis using Cons.IH [OF d prems(3-)] True False t(1) by simp
    next
      case capacity: True
      let ?a = "dict_set (ss_active s) (class_of by_id n) (active_count (ss_active s) (class_of by_id n) + 1)"
      let ?s = "s\<lparr>ss_pending := ss_pending s - {n}, ss_active := ?a, ss_running := ss_running s @ [n]\<rparr>"
      have "load_ok c by_id (ss_running s @ [n]) ?a"
        using prems True capacity t(3) by (intro load_ok_start) (auto simp: has_capacity_def)
      then have "distinct (ready @ deferred)" "set ready \<subseteq> ss_pending ?s" "ss_pending ?s \<subseteq> keys_of by_id"
        "ss_pending ?s \<inter> set (ss_running ?s) = {}" "load_ok c by_id (ss_running ?s) (ss_active ?s)"
        using prems by auto
      from Cons.IH [OF this] obtain started left deferred' s' where r:
        "start_ready c by_id ready deferred ?s = Inr (left, deferred', s')"
        "dispatched c by_id (set (ready @ deferred)) ?s started left deferred' s'" by blast
      have "n \<notin> set (ready @ deferred)" using prems(1) by simp
      then have "dispatched c by_id (set ((n # ready) @ deferred)) s (n # started) left deferred' s'"
        using dispatched_first [OF r(2)] by simp
      moreover have "start_ready c by_id (n # ready) deferred s = Inr (left, deferred', s')"
        using True capacity t prems(2) r(1) by simp
      ultimately show ?thesis by blast
    qed
  qed
qed

lemma start_ready_running:
  "start_ready c by_id ready deferred s = Inr (left, deferred', s') \<Longrightarrow> ss_running s \<noteq> [] \<Longrightarrow> ss_running s' \<noteq> []"
proof (induction c by_id ready deferred s rule: start_ready.induct)
  case (2 c by_id n ready deferred s)
  show ?case
  proof (cases "dict_item by_id n")
    case (Inr t)
    then show ?thesis
      using 2(1) [OF _ _] 2(2-) by (auto split: if_splits)
  qed (use 2 in \<open>auto split: if_splits\<close>)
qed auto

text \<open>With no task running, the first ready task always starts.\<close>

lemma start_ready_progress:
  assumes "scheduler_valid c" "index_ok by_id" "ready \<noteq> []" "set ready \<subseteq> ss_pending s"
    "ss_pending s \<subseteq> keys_of by_id" "ss_running s = []" "load_ok c by_id [] (ss_active s)"
    "start_ready c by_id ready deferred s = Inr (left, deferred', s')"
  shows "ss_running s' \<noteq> []"
proof -
  obtain n rest where r: "ready = n # rest" using assms(3) by (cases ready) auto
  obtain t where t: "dict_item by_id n = Inr t" "task_id t = n" "task_resource_class t = class_of by_id n"
    using index_lookup [OF assms(2), of n] assms(4,5) r by auto
  have "active_count (ss_active s) k = 0" for k
    using assms(7) by (simp add: load_ok_def class_load_def)
  then have "has_capacity c (ss_active s) t" "0 < sd_max_workers c"
    using limit_positive [OF assms(1)] assms(1) by (simp_all add: has_capacity_def scheduler_valid_def)
  then have "start_ready c by_id rest deferred
      (s\<lparr>ss_pending := ss_pending s - {n}, ss_active := dict_set (ss_active s) (class_of by_id n)
           (active_count (ss_active s) (class_of by_id n) + 1), ss_running := ss_running s @ [n]\<rparr>)
    = Inr (left, deferred', s')"
    using assms(4,6,8) t by (simp add: r)
  then show ?thesis by (rule start_ready_running) simp
qed

lemma set_push_all [simp]: "set (push_all h xs) = set h \<union> set xs"
  unfolding push_all_def by (induction xs arbitrary: h) (auto simp: set_insort_key)

lemma distinct_push_all: "distinct (h @ xs) \<Longrightarrow> distinct (push_all h xs)"
  unfolding push_all_def by (induction xs arbitrary: h) (auto simp: set_insort_key distinct_insort)

lemma scheduler_graph_nodes: "index_ok by_id \<Longrightarrow> graph_nodes (scheduler_graph by_id) = keys_of by_id"
  by (force simp: index_ok_def scheduler_graph_def queue_graph_def task_graph_def image_iff)

lemma scheduler_graph_size: "length by_id = length (scheduler_graph by_id)"
  by (simp add: scheduler_graph_def queue_graph_def task_graph_def)

lemma scheduler_graph_card: "card (graph_nodes (scheduler_graph by_id)) \<le> length by_id"
  using card_length [of "map fst (scheduler_graph by_id)"] by (simp add: scheduler_graph_size)

lemma parents_of_task:
  assumes "index_ok by_id" "map_of by_id n = Some t"
  shows "parents_of (scheduler_graph by_id) n = set (task_dependencies t)"
proof -
  have m: "scheduler_graph by_id = map (\<lambda>(n, t). (n, remdups (task_dependencies t))) by_id"
    using assms(1) by (auto simp: index_ok_def scheduler_graph_def queue_graph_def task_graph_def)
  have "map_of (map (\<lambda>(n, t). (n, remdups (task_dependencies t))) by_id) n
      = map_option (\<lambda>t. remdups (task_dependencies t)) (map_of by_id n)"
    by (induction by_id) auto
  then show ?thesis using assms(2) by (simp add: parents_of_def m)
qed

text \<open>Tasks move from pending to running, and from running to completed or failed.\<close>

definition four_parts :: "'a set \<Rightarrow> 'a set \<Rightarrow> 'a set \<Rightarrow> 'a set \<Rightarrow> 'a set \<Rightarrow> bool" where
  "four_parts P R C F K \<longleftrightarrow> P \<union> R \<union> C \<union> F = K \<and> P \<inter> R = {} \<and> (P \<union> R) \<inter> C = {} \<and> (P \<union> R \<union> C) \<inter> F = {}"

lemma partitioned_iff:
  "partitioned by_id s \<longleftrightarrow>
     distinct (map fst (ss_completed s)) \<and> distinct (map fst (ss_failures s)) \<and> distinct (ss_running s)
     \<and> four_parts (ss_pending s) (set (ss_running s)) (keys_of (ss_completed s)) (keys_of (ss_failures s))
         (keys_of by_id)"
  by (simp add: partitioned_def four_parts_def)

lemma four_parts_start: "four_parts P R C F K \<Longrightarrow> S \<subseteq> P \<Longrightarrow> four_parts (P - S) (R \<union> S) C F K"
  unfolding four_parts_def by blast

lemma four_parts_complete: "four_parts P R C F K \<Longrightarrow> n \<in> R \<Longrightarrow> four_parts P (R - {n}) (insert n C) F K"
  unfolding four_parts_def by blast

lemma four_parts_fail: "four_parts P R C F K \<Longrightarrow> n \<in> R \<Longrightarrow> four_parts P (R - {n}) C (insert n F) K"
  unfolding four_parts_def by blast

lemma four_parts_pending: "four_parts P R C F K \<Longrightarrow> P \<noteq> {} \<Longrightarrow> K - C \<noteq> {}"
  unfolding four_parts_def by blast

lemma four_parts_started: "four_parts P R C F K \<Longrightarrow> n \<in> K \<Longrightarrow> n \<notin> P \<Longrightarrow> n \<in> R \<or> n \<in> C \<or> n \<in> F"
  unfolding four_parts_def by blast

lemma moved_count:
  assumes "finite P" "set started \<subseteq> P" "distinct started" "P' = P - set started" "running' = running @ started"
  shows "card P' + length running' = card P + length running"
proof -
  have "card P = card (P - set started) + card (set started)"
    using assms(1,2) by (metis card_Diff_subset card_mono finite_set le_add_diff_inverse2)
  then show ?thesis using assms(3-) by (simp add: distinct_card)
qed

text \<open>With nothing running and tasks pending, the pool of ready tasks is not empty.\<close>

lemma idle_pool:
  assumes i: "scheduler_inv c by_id s" and f: "ss_failures s = []" and r: "ss_running s = []"
    and loop: "in_loop s" and t: "take_ready (ss_queue s) (len by_id) = (nodes, q1)"
  shows "push_all (ss_ready s) nodes \<noteq> []"
proof -
  let ?g = "scheduler_graph by_id" and ?D = "keys_of (ss_completed s)"
  have ix: "index_ok by_id" and q: "queue_represents ?g (ss_queue s) (taken_tasks s) ?D"
    using i by (auto simp: scheduler_inv_def)
  have p: "four_parts (ss_pending s) (set (ss_running s)) ?D (keys_of (ss_failures s)) (keys_of by_id)"
    using i by (simp add: scheduler_inv_def partitioned_iff)
  have "ss_pending s \<noteq> {}" using loop r by (simp add: in_loop_def)
  then have "graph_nodes ?g - ?D \<noteq> {}"
    unfolding scheduler_graph_nodes [OF ix] by (rule four_parts_pending [OF p])
  from dq.progress [OF q this] obtain n where
    n: "n \<in> graph_nodes ?g" "parents_of ?g n \<subseteq> ?D" "n \<notin> ?D" by blast
  have "set nodes = {n \<in> graph_nodes ?g. parents_of ?g n \<subseteq> ?D} - taken_tasks s"
    using dq.take_law [OF q _ t] scheduler_graph_card [of by_id] by auto
  then have "n \<in> set (push_all (ss_ready s) nodes)"
    using n r f by (auto simp: taken_tasks_def)
  then show ?thesis by (metis empty_iff set_empty)
qed

lemma dispatch_works:
  assumes i: "scheduler_inv c by_id s" and f: "ss_failures s = []"
  shows "\<exists>s1. dispatch c by_id s = Inr s1 \<and> scheduler_inv c by_id s1
    \<and> ss_completed s1 = ss_completed s \<and> ss_failures s1 = []
    \<and> card (ss_pending s1) + length (ss_running s1) = card (ss_pending s) + length (ss_running s)
    \<and> (in_loop s \<longrightarrow> ss_running s1 \<noteq> [])"
proof -
  let ?g = "scheduler_graph by_id" and ?D = "keys_of (ss_completed s)"
  have v: "scheduler_valid c" "index_ok by_id" and part: "partitioned by_id s"
    and rd: "distinct (ss_ready s)" "set (ss_ready s) \<subseteq> ss_pending s"
    and l: "load_ok c by_id (ss_running s) (ss_active s)"
    and q: "queue_represents ?g (ss_queue s) (taken_tasks s) ?D"
    using i by (auto simp: scheduler_inv_def)
  have pend: "ss_pending s \<subseteq> keys_of by_id" "ss_pending s \<inter> set (ss_running s) = {}"
    using part by (auto simp: partitioned_def)
  obtain nodes q1 where t: "take_ready (ss_queue s) (len by_id) = (nodes, q1)" by fastforce
  have n: "queue_represents ?g q1 (taken_tasks s \<union> set nodes) ?D" "distinct nodes"
    "set nodes = {n \<in> graph_nodes ?g. parents_of ?g n \<subseteq> ?D} - taken_tasks s"
    using dq.take_law [OF q _ t] scheduler_graph_card [of by_id] by auto
  have np: "set nodes \<subseteq> ss_pending s"
    using n(3) part f by (auto simp: scheduler_graph_nodes [OF v(2)] taken_tasks_def partitioned_def)
  let ?pool = "push_all (ss_ready s) nodes"
  have pool: "distinct (?pool @ [])" "set ?pool \<subseteq> ss_pending s"
    using rd n(2) n(3) np by (auto intro!: distinct_push_all simp: taken_tasks_def)
  obtain started left deferred s' where
    sr: "start_ready c by_id ?pool [] (s\<lparr>ss_queue := q1\<rparr>) = Inr (left, deferred, s')"
    and d: "dispatched c by_id (set (?pool @ [])) (s\<lparr>ss_queue := q1\<rparr>) started left deferred s'"
    using start_ready_works [OF v(2) pool(1), of "s\<lparr>ss_queue := q1\<rparr>" c] pool(2) pend l by auto
  obtain active where s': "s' = s\<lparr>ss_queue := q1, ss_pending := ss_pending s - set started,
      ss_active := active, ss_running := ss_running s @ started\<rparr>"
    and l': "load_ok c by_id (ss_running s @ started) active"
    and st: "distinct (started @ left @ deferred)" "set started \<union> set left \<union> set deferred = set ?pool"
    using d by (auto simp: dispatched_def)
  let ?s1 = "s'\<lparr>ss_ready := push_all left deferred\<rparr>"
  have sp: "set started \<subseteq> ss_pending s" using st(2) pool(2) by blast
  have "taken_tasks ?s1 = taken_tasks s \<union> set nodes"
    using st(2) by (auto simp: taken_tasks_def s')
  moreover have "partitioned by_id ?s1"
    using part four_parts_start [OF _ sp] l' by (simp add: partitioned_iff s' load_ok_def)
  moreover have "set (ss_ready ?s1) \<subseteq> ss_pending ?s1" using st pool(2) by (auto simp: s')
  ultimately have "scheduler_inv c by_id ?s1"
    using v l' n(1) st(1) by (auto simp: scheduler_inv_def s' intro: distinct_push_all)
  moreover have "card (ss_pending ?s1) + length (ss_running ?s1) = card (ss_pending s) + length (ss_running s)"
    using st(1) sp finite_subset [OF pend(1)] by (intro moved_count [of _ started]) (simp_all add: s')
  moreover have "ss_running ?s1 \<noteq> []" if loop: "in_loop s"
  proof (cases "ss_running s = []")
    case True
    have "?pool \<noteq> []" using idle_pool [OF i f True loop t] by simp
    then have "ss_running s' \<noteq> []"
      using start_ready_progress [OF v _ _ _ _ _ sr] pool(2) pend(1) True l by simp
    then show ?thesis by simp
  qed (simp add: s')
  ultimately show ?thesis
    using t sr f by (simp add: dispatch_def s')
qed

section \<open>Waiting\<close>

lemma settle_task_works:
  assumes i: "scheduler_inv c by_id s" and n: "n \<in> set (ss_running s)"
  shows "\<exists>s'. settle_task by_id s (n, what) = Inr s' \<and> scheduler_inv c by_id s'
    \<and> ss_pending s' = ss_pending s \<and> ss_running s' = remove1 n (ss_running s)
    \<and> (ss_failures s' = [] \<longleftrightarrow> ss_failures s = [] \<and> (\<exists>r. what = Returned r))"
proof -
  let ?g = "scheduler_graph by_id" and ?D = "keys_of (ss_completed s)"
  have v: "scheduler_valid c" "index_ok by_id" and l: "load_ok c by_id (ss_running s) (ss_active s)"
    and rd: "distinct (ss_ready s)" "set (ss_ready s) \<subseteq> ss_pending s"
    and q: "queue_represents ?g (ss_queue s) (taken_tasks s) ?D"
    and p: "distinct (map fst (ss_completed s))" "distinct (map fst (ss_failures s))" "distinct (ss_running s)"
      "four_parts (ss_pending s) (set (ss_running s)) ?D (keys_of (ss_failures s)) (keys_of by_id)"
    using i by (auto simp: scheduler_inv_def partitioned_iff)
  have nk: "n \<in> keys_of by_id" "n \<notin> ?D" using p(4) n by (auto simp: four_parts_def)
  obtain t where t: "dict_item by_id n = Inr t" "task_id t = n" "task_resource_class t = class_of by_id n"
    using index_lookup [OF v(2) nk(1)] by auto
  let ?a = "dict_set (ss_active s) (class_of by_id n) (active_count (ss_active s) (class_of by_id n) - 1)"
  let ?s1 = "s\<lparr>ss_running := remove1 n (ss_running s), ss_active := ?a\<rparr>"
  have l': "load_ok c by_id (remove1 n (ss_running s)) ?a" by (rule load_ok_remove [OF l n])
  note a = active_present [OF l n]
  have rem: "set (remove1 n (ss_running s)) = set (ss_running s) - {n}" using p(3) by simp
  show ?thesis
  proof (cases what)
    case (Raised e)
    let ?s = "?s1\<lparr>ss_failures := dict_set (ss_failures s) n e\<rparr>"
    have "taken_tasks ?s = taken_tasks s"
      using n by (auto simp: taken_tasks_def rem dict_set_keys)
    moreover have "partitioned by_id ?s"
      using p four_parts_fail [OF p(4) n] by (simp add: partitioned_iff rem dict_set_keys dict_set_distinct)
    ultimately have "scheduler_inv c by_id ?s"
      using v rd l' q by (simp add: scheduler_inv_def)
    moreover have "dict_set (ss_failures s) n e \<noteq> []" by (cases "ss_failures s") (auto split: if_splits)
    ultimately show ?thesis
      using t a Raised by (simp add: settle_task_def)
  next
    case (Returned r)
    have "n \<in> taken_tasks s" using n by (simp add: taken_tasks_def)
    from dq.report_law [OF q this nk(2)] obtain q' where
      q': "queue_finish (ss_queue s) n = Inr q'" "queue_represents ?g q' (taken_tasks s) (insert n ?D)"
      by blast
    let ?s = "?s1\<lparr>ss_completed := dict_set (ss_completed s) n r, ss_queue := q'\<rparr>"
    have "taken_tasks ?s = taken_tasks s"
      using n by (auto simp: taken_tasks_def rem dict_set_keys)
    moreover have "partitioned by_id ?s"
      using p four_parts_complete [OF p(4) n] by (simp add: partitioned_iff rem dict_set_keys dict_set_distinct)
    ultimately have "scheduler_inv c by_id ?s"
      using v rd l' q'(2) by (simp add: scheduler_inv_def dict_set_keys)
    then show ?thesis
      using t a Returned q'(1) by (simp add: settle_task_def)
  qed
qed

lemma settle_fold:
  assumes "scheduler_inv c by_id s" "distinct (map fst rows)" "fst ` set rows \<subseteq> set (ss_running s)"
  shows "\<exists>s'. rfold (settle_task by_id) s rows = Inr s' \<and> scheduler_inv c by_id s'
    \<and> ss_pending s' = ss_pending s \<and> length (ss_running s') + length rows = length (ss_running s)
    \<and> set (ss_running s') = set (ss_running s) - fst ` set rows
    \<and> (ss_failures s \<noteq> [] \<longrightarrow> ss_failures s' \<noteq> [])"
  using assms
proof (induction rows arbitrary: s)
  case (Cons row rows)
  obtain n what where row: "row = (n, what)" by fastforce
  have n: "n \<in> set (ss_running s)" using Cons.prems(3) row by simp
  obtain s1 where s1: "settle_task by_id s (n, what) = Inr s1" "scheduler_inv c by_id s1"
    "ss_pending s1 = ss_pending s" "ss_running s1 = remove1 n (ss_running s)"
    "ss_failures s1 = [] \<longrightarrow> ss_failures s = []"
    using settle_task_works [OF Cons.prems(1) n, of what] by blast
  have d: "distinct (ss_running s)" using Cons.prems(1) by (simp add: scheduler_inv_def partitioned_def)
  have "fst ` set rows \<subseteq> set (ss_running s1)" "distinct (map fst rows)"
    using Cons.prems(2,3) s1(4) d row by auto
  from Cons.IH [OF s1(2) this(2,1)] obtain s' where s':
    "rfold (settle_task by_id) s1 rows = Inr s'" "scheduler_inv c by_id s'" "ss_pending s' = ss_pending s1"
    "length (ss_running s') + length rows = length (ss_running s1)"
    "set (ss_running s') = set (ss_running s1) - fst ` set rows"
    "ss_failures s1 \<noteq> [] \<longrightarrow> ss_failures s' \<noteq> []" by blast
  moreover have "length (ss_running s1) + 1 = length (ss_running s)"
    using n s1(4) length_pos_if_in_set [OF n] by (simp add: length_remove1)
  ultimately show ?case
    using s1 d row by auto
qed auto

lemma settle_works:
  assumes "scheduler_inv c by_id s" "wait_returns s finished"
  shows "\<exists>s'. settle by_id s finished = Inr s' \<and> scheduler_inv c by_id s' \<and> ss_pending s' = ss_pending s
    \<and> length (ss_running s') < length (ss_running s) \<and> set (ss_running s') \<subseteq> set (ss_running s)
    \<and> (ss_failures s \<noteq> [] \<longrightarrow> ss_failures s' \<noteq> [])"
proof -
  have "distinct (map fst (sort_key fst finished))"
    using assms(2) by (simp add: wait_returns_def distinct_map distinct_sort inj_on_def)
  then obtain s' where s': "rfold (settle_task by_id) s (sort_key fst finished) = Inr s'"
    "scheduler_inv c by_id s'" "ss_pending s' = ss_pending s"
    "length (ss_running s') + length finished = length (ss_running s)"
    "set (ss_running s') = set (ss_running s) - fst ` set finished"
    "ss_failures s \<noteq> [] \<longrightarrow> ss_failures s' \<noteq> []"
    using settle_fold [OF assms(1), of "sort_key fst finished"] assms(2) by (auto simp: wait_returns_def)
  moreover have "length (ss_running s') < length (ss_running s)"
    using s'(4) assms(2) by (cases finished) (simp_all add: wait_returns_def)
  ultimately show ?thesis by (simp add: settle_def)
qed

section \<open>The loop as a terminating machine\<close>

definition work_left :: "'r scheduler_state \<Rightarrow> nat" where
  "work_left s = card (ss_pending s) + length (ss_running s)"

lemma dispatch_cases:
  assumes i: "scheduler_inv c by_id s"
  obtains s1 where "dispatch c by_id s = Inr s1" "scheduler_inv c by_id s1" "work_left s1 = work_left s"
    "ss_completed s1 = ss_completed s" "ss_failures s1 = ss_failures s"
    "ss_failures s \<noteq> [] \<Longrightarrow> s1 = s" "in_loop s \<Longrightarrow> ss_failures s = [] \<Longrightarrow> ss_running s1 \<noteq> []"
proof (cases "ss_failures s = []")
  case True
  then show thesis
    using dispatch_works [OF i True] that by (fastforce simp: work_left_def)
next
  case False
  then have "dispatch c by_id s = Inr s" by (simp add: dispatch_def)
  then show thesis using that [of s] i False by simp
qed

lemma step_effect:
  assumes "scheduler_inv c by_id s" "scheduler_step c by_id s s'"
  shows "scheduler_inv c by_id s' \<and> work_left s' < work_left s
    \<and> (ss_failures s \<noteq> [] \<longrightarrow> ss_failures s' \<noteq> [] \<and> ss_pending s' = ss_pending s
        \<and> set (ss_running s') \<subseteq> set (ss_running s))"
  using assms(2)
proof cases
  case (step s1 finished)
  obtain s2 where d: "dispatch c by_id s = Inr s2" "scheduler_inv c by_id s2" "work_left s2 = work_left s"
    "ss_failures s2 = ss_failures s" "ss_failures s \<noteq> [] \<Longrightarrow> s2 = s"
    using dispatch_cases [OF assms(1)] by metis
  have s2: "s2 = s1" using d(1) step(2) by simp
  obtain s3 where s3: "settle by_id s1 finished = Inr s3" "scheduler_inv c by_id s3"
    "ss_pending s3 = ss_pending s1" "length (ss_running s3) < length (ss_running s1)"
    "set (ss_running s3) \<subseteq> set (ss_running s1)" "ss_failures s1 \<noteq> [] \<longrightarrow> ss_failures s3 \<noteq> []"
    using settle_works [OF d(2) [unfolded s2] step(4)] by blast
  have "s3 = s'" using s3(1) step(5) by simp
  then show ?thesis using s3 d s2 by (auto simp: work_left_def)
qed

text \<open>A state is final when the loop leaves, from its condition or from its break.\<close>

definition loop_left :: "task_scheduler \<Rightarrow> (string \<times> task_spec) list \<Rightarrow> 'r scheduler_state \<Rightarrow> bool" where
  "loop_left c by_id s \<longleftrightarrow> loop_exit c by_id s \<noteq> None"

lemma loop_goes_on:
  assumes i: "scheduler_inv c by_id s" and l: "loop_exit c by_id s = None"
  shows "\<exists>s1. dispatch c by_id s = Inr s1 \<and> ss_running s1 \<noteq> [] \<and> scheduler_inv c by_id s1"
  by (rule dispatch_cases [OF i]) (use l in \<open>auto simp: loop_exit_def split: if_splits\<close>)

lemma wait_possible: "distinct (ss_running s) \<Longrightarrow> ss_running s \<noteq> [] \<Longrightarrow> \<exists>finished. wait_returns s finished"
  by (rule exI [of _ "[(hd (ss_running s), Raised (TaskError []))]"]) (simp add: wait_returns_def)

interpretation scheduling: terminating_loop
  "scheduler_step c by_id" "scheduler_inv c by_id" work_left "loop_left c by_id" for c by_id
proof
  fix s :: "'r scheduler_state"
  assume i: "scheduler_inv c by_id s"
  show "scheduler_inv c by_id s'" if "scheduler_step c by_id s s'" for s'
    using step_effect [OF i that] by simp
  show "work_left s' < work_left s" if "scheduler_step c by_id s s'" for s'
    using step_effect [OF i that] by simp
  show "\<exists>s'. scheduler_step c by_id s s'" if open_loop: "\<not> loop_left c by_id s"
  proof -
    obtain s1 where s1: "dispatch c by_id s = Inr s1" "ss_running s1 \<noteq> []" "scheduler_inv c by_id s1"
      using loop_goes_on [OF i] open_loop unfolding loop_left_def by blast
    obtain finished :: "(string \<times> 'r task_outcome) list" where w: "wait_returns s1 finished"
      using wait_possible [OF _ s1(2)] s1(3) by (auto simp: scheduler_inv_def partitioned_def)
    have "in_loop s" using open_loop by (simp add: loop_left_def loop_exit_def split: if_splits)
    then show ?thesis using scheduler_step.step [OF _ s1(1,2) w] settle_works [OF s1(3) w] by blast
  qed
qed

section \<open>From a task list\<close>

lemma dict_set_fresh: "k \<notin> keys_of d \<Longrightarrow> dict_set d k v = d @ [(k, v)]"
  by (induction d k v rule: dict_set.induct) auto

lemma add_tasks_index:
  assumes "index_tasks by_id tasks = Some by_id'" "index_ok by_id"
  shows "index_ok by_id' \<and> map fst by_id' = map fst by_id @ map task_id tasks"
  using assms
proof (induction by_id tasks rule: index_tasks.induct)
  case (2 by_id t ts)
  then obtain d where d: "add_task by_id t = Some d" "index_tasks d ts = Some by_id'"
    by (auto split: option.splits)
  have n: "task_id t \<notin> keys_of by_id" "d = dict_set by_id (task_id t) t"
    using d(1) by (auto simp: add_task_def split: if_splits)
  then have "d = by_id @ [(task_id t, t)]" by (simp add: dict_set_fresh)
  then have "index_ok d" "map fst d = map fst by_id @ [task_id t]"
    using "2.prems"(2) n(1) by (auto simp: index_ok_def)
  then show ?case using "2.IH" [OF d] by simp
qed simp

lemma validated_tasks:
  assumes v: "scheduler_validate tasks = Inr by_id"
  shows "index_ok by_id \<and> map fst by_id = map task_id tasks \<and> (\<exists>q. dependency_queue_init (task_graph by_id) [] = Inr q)"
proof -
  have i: "index_tasks [] tasks = Some by_id"
    using v by (auto simp: scheduler_validate_def split: option.splits if_splits sum.splits py_error.splits)
  have "\<exists>q. dependency_queue_init (task_graph by_id) [] = Inr q"
    using v i by (cases "dependency_queue_init (task_graph by_id) []")
      (auto simp: scheduler_validate_def split: if_splits py_error.splits)
  moreover have "index_ok []" by (simp add: index_ok_def)
  ultimately show ?thesis using add_tasks_index [OF i] by simp
qed

lemma task_graph_keys: "index_ok by_id \<Longrightarrow> map fst (task_graph by_id) = map fst by_id"
  by (auto simp: index_ok_def task_graph_def)

lemma start_inv:
  assumes v: "scheduler_valid c" "scheduler_validate tasks = Inr by_id" and s: "scheduler_start by_id = Inr s"
  shows "scheduler_inv c by_id s \<and> work_left s = length tasks"
proof -
  have i: "index_ok by_id" "map fst by_id = map task_id tasks" using validated_tasks [OF v(2)] by auto
  obtain q where q: "dependency_queue_init (task_graph by_id) [] = Inr q"
    and s': "s = \<lparr>ss_pending = keys_of by_id, ss_queue = q, ss_ready = [], ss_completed = [],
            ss_failures = [], ss_running = [], ss_active = []\<rparr>"
    using s by (auto simp: scheduler_start_def)
  have "queue_represents (scheduler_graph by_id) q {} {}"
    using queue_init_abs [OF _ q] i(1) task_graph_keys [OF i(1)]
    by (simp add: queue_represents_def scheduler_graph_def index_ok_def)
  moreover have "card (keys_of by_id) = length tasks"
    using i distinct_card [of "map fst by_id"] by (metis index_ok_def length_map list.set_map)
  moreover have "load_ok c by_id [] []"
    using v(1) less_imp_le [OF limit_positive [OF v(1)]]
    by (simp add: load_ok_def active_count_def class_load_def scheduler_valid_def)
  ultimately show ?thesis
    using v(1) i(1) by (simp add: s' scheduler_inv_def partitioned_def taken_tasks_def work_left_def)
qed

lemma exit_state:
  assumes i: "scheduler_inv c by_id s" and e: "loop_exit c by_id s = Some s1"
  shows "scheduler_inv c by_id s1 \<and> ss_running s1 = [] \<and> (ss_failures s1 = [] \<longrightarrow> ss_pending s1 = {})"
proof (cases "in_loop s")
  case True
  obtain s2 where d: "dispatch c by_id s = Inr s2" "scheduler_inv c by_id s2"
    "ss_failures s2 = ss_failures s" "ss_failures s = [] \<Longrightarrow> ss_running s2 \<noteq> []"
    using dispatch_cases [OF i] True by metis
  then show ?thesis using e True by (auto simp: loop_exit_def split: if_splits)
next
  case False
  then show ?thesis using i e by (auto simp: loop_exit_def in_loop_def)
qed

text \<open>The identifiers of the result: everything once, in order.\<close>

lemma sorted_keys:
  fixes d :: "('k :: linorder \<times> 'v) list"
  assumes "distinct (map fst d)" "distinct xs" "keys_of d = set xs"
  shows "map fst (sort_key fst d) = sort xs"
proof -
  have "distinct (map fst (sort_key fst d))"
    using assms(1) by (simp add: distinct_map distinct_sort)
  then show ?thesis
    using assms(2,3) by (intro sorted_distinct_set_unique) (auto simp: distinct_sort)
qed

lemma exit_result:
  assumes ix: "index_ok by_id" "map fst by_id = map task_id tasks"
    and s: "scheduler_inv c by_id s" "loop_exit c by_id s = Some s1"
  shows "if ss_failures s1 = []
      then \<exists>rows. scheduler_result s1 = Inr rows \<and> map fst rows = sort (map task_id tasks)
      else \<exists>message skipped. scheduler_result s1
               = Inl (SchedulerError message (ss_failures s1) (ss_completed s1) skipped)
           \<and> keys_of (ss_failures s1) \<union> keys_of (ss_completed s1) \<union> set skipped = task_id ` set tasks"
proof -
  have keys: "keys_of by_id = task_id ` set tasks" using ix(2) by (metis list.set_map)
  have e: "scheduler_inv c by_id s1" "ss_running s1 = []" "ss_failures s1 = [] \<longrightarrow> ss_pending s1 = {}"
    using exit_state [OF s] by auto
  then have p: "distinct (map fst (ss_completed s1))"
    "ss_pending s1 \<union> keys_of (ss_completed s1) \<union> keys_of (ss_failures s1) = keys_of by_id"
    by (auto simp: scheduler_inv_def partitioned_def)
  have fin: "finite (ss_pending s1)" using p(2) by (metis finite_Un finite_imageI finite_set)
  show ?thesis
  proof (cases "ss_failures s1 = []")
    case True
    have "distinct (map task_id tasks)" using ix by (simp add: index_ok_def)
    then have "map fst (sort_key fst (ss_completed s1)) = sort (map task_id tasks)"
      using p True e(3) keys by (intro sorted_keys) auto
    then show ?thesis using True e(3) by (simp add: scheduler_result_def)
  next
    case False
    then show ?thesis using p(2) fin keys by (auto simp: scheduler_result_def)
  qed
qed

section \<open>Properties\<close>

text \<open>
  C21.  Every run of the scheduler ends with an answer.  Once a task list is accepted and the
  ceilings are positive, the loop makes at most as many rounds as there are tasks whatever
  the workers do; a round that does not leave the loop has a task running and no result of
  the wait makes it raise; and when the loop is left, either no task failed and every task
  of the list is in the result, in the order of its identifier, or the error reports
  failures and accounts for every task as failed, completed or skipped.  The message that
  no progress was made is never produced.
\<close>

theorem scheduler_completes:
  assumes v: "scheduler_valid c" "scheduler_validate tasks = Inr by_id"
  shows "\<exists>s0 :: 'r scheduler_state. scheduler_start by_id = Inr s0
    \<and> (\<forall>n s. (scheduler_step c by_id ^^ n) s0 s \<longrightarrow> n \<le> length tasks)
    \<and> (\<forall>s. (scheduler_step c by_id)\<^sup>*\<^sup>* s0 s \<longrightarrow> loop_exit c by_id s = None \<longrightarrow>
         (\<exists>s1. dispatch c by_id s = Inr s1 \<and> ss_running s1 \<noteq> []
            \<and> (\<forall>finished. wait_returns s1 finished \<longrightarrow> (\<exists>s'. settle by_id s1 finished = Inr s'))))
    \<and> (\<forall>s s1. (scheduler_step c by_id)\<^sup>*\<^sup>* s0 s \<longrightarrow> loop_exit c by_id s = Some s1 \<longrightarrow>
         (if ss_failures s1 = []
          then \<exists>rows. scheduler_result s1 = Inr rows \<and> map fst rows = sort (map task_id tasks)
          else \<exists>message skipped. scheduler_result s1
                   = Inl (SchedulerError message (ss_failures s1) (ss_completed s1) skipped)
               \<and> keys_of (ss_failures s1) \<union> keys_of (ss_completed s1) \<union> set skipped = task_id ` set tasks))"
proof -
  have ix: "index_ok by_id" "map fst by_id = map task_id tasks" and "\<exists>q. dependency_queue_init (task_graph by_id) [] = Inr q"
    using validated_tasks [OF v(2)] by auto
  then obtain s0 :: "'r scheduler_state" where s0: "scheduler_start by_id = Inr s0"
    by (auto simp: scheduler_start_def)
  note i0 = start_inv [OF v s0]
  have reach: "scheduler_inv c by_id s" if "(scheduler_step c by_id)\<^sup>*\<^sup>* s0 s" for s
    using scheduling.reachable_inv [OF that] i0 by simp
  have "if ss_failures s1 = []
      then \<exists>rows. scheduler_result s1 = Inr rows \<and> map fst rows = sort (map task_id tasks)
      else \<exists>message skipped. scheduler_result s1
               = Inl (SchedulerError message (ss_failures s1) (ss_completed s1) skipped)
           \<and> keys_of (ss_failures s1) \<union> keys_of (ss_completed s1) \<union> set skipped = task_id ` set tasks"
    if "(scheduler_step c by_id)\<^sup>*\<^sup>* s0 s" "loop_exit c by_id s = Some s1" for s s1
    using exit_result [OF ix reach [OF that(1)] that(2)] .
  moreover have "n \<le> length tasks" if "(scheduler_step c by_id ^^ n) s0 s" for n s
    using scheduling.steps_bounded [OF that] i0 by simp
  moreover have "\<exists>s1. dispatch c by_id s = Inr s1 \<and> ss_running s1 \<noteq> []
      \<and> (\<forall>finished. wait_returns s1 finished \<longrightarrow> (\<exists>s'. settle by_id s1 finished = Inr s'))"
    if "(scheduler_step c by_id)\<^sup>*\<^sup>* s0 s" "loop_exit c by_id s = None" for s
    using loop_goes_on [OF reach [OF that(1)] that(2)] settle_works by blast
  ultimately show ?thesis using s0 by blast
qed

definition sample_tasks :: "task_spec list" where
  "sample_tasks =
     [\<lparr>task_id = ''app'', task_dependencies = [''lib''], task_resource_class = ''link''\<rparr>,
      \<lparr>task_id = ''lib'', task_dependencies = [], task_resource_class = ''cl''\<rparr>]"

definition sample_scheduler :: task_scheduler where
  "sample_scheduler = \<lparr>sd_max_workers = 2, sd_resource_limits = [(''link'', 1)]\<rparr>"

definition sample_index :: "(string \<times> task_spec) list" where
  "sample_index = map (\<lambda>t. (task_id t, t)) sample_tasks"

lemma sample_valid:
  "scheduler_valid sample_scheduler"
  "scheduler_validate sample_tasks = (Inr sample_index :: nat scheduler_error + (string \<times> task_spec) list)"
  by code_simp+

theorem scheduler_completes_witness:
  "(\<exists>s0 :: nat scheduler_state. scheduler_start sample_index = Inr s0
      \<and> \<not> (\<exists>s. (scheduler_step sample_scheduler sample_index ^^ 3) s0 s))
   \<and> scheduler_run sample_scheduler False sample_tasks
       [[(''lib'', Returned (1 :: nat))], [(''app'', Returned 2)]] = Some (Inr [(''app'', 2), (''lib'', 1)])"
proof
  obtain s0 :: "nat scheduler_state" where s0: "scheduler_start sample_index = Inr s0"
    "\<forall>n s. (scheduler_step sample_scheduler sample_index ^^ n) s0 s \<longrightarrow> n \<le> length sample_tasks"
    using scheduler_completes [OF sample_valid] by blast
  have "length sample_tasks = 2" by (simp add: sample_tasks_def)
  then have "\<not> (\<exists>s. (scheduler_step sample_scheduler sample_index ^^ 3) s0 s)" using s0(2) by fastforce
  then show "\<exists>s0 :: nat scheduler_state. scheduler_start sample_index = Inr s0
      \<and> \<not> (\<exists>s. (scheduler_step sample_scheduler sample_index ^^ 3) s0 s)"
    using s0(1) by blast
  show "scheduler_run sample_scheduler False sample_tasks
       [[(''lib'', Returned (1 :: nat))], [(''app'', Returned 2)]] = Some (Inr [(''app'', 2), (''lib'', 1)])"
    by code_simp
qed

text \<open>
  C22.  What holds in every state the scheduler reaches, whatever the workers do.  No more
  tasks run than there are workers, and no resource class exceeds its limit.  Every task is
  in exactly one of pending, running, completed and failed, so none starts twice.  A task
  that was started has all its dependencies completed.  Once a task has failed, no pending
  task is started any more.
\<close>

theorem scheduler_state_safe:
  assumes v: "scheduler_valid c" "scheduler_validate tasks = Inr by_id" "scheduler_start by_id = Inr s0"
    and r: "(scheduler_step c by_id)\<^sup>*\<^sup>* s0 s"
  shows "len (ss_running s) \<le> sd_max_workers c
    \<and> (\<forall>k. len (filter (\<lambda>n. class_of by_id n = k) (ss_running s)) \<le> class_limit c k)
    \<and> distinct (ss_running s)
    \<and> four_parts (ss_pending s) (set (ss_running s)) (keys_of (ss_completed s)) (keys_of (ss_failures s))
        (task_id ` set tasks)
    \<and> (\<forall>n t. n \<notin> ss_pending s \<longrightarrow> map_of by_id n = Some t \<longrightarrow> set (task_dependencies t) \<subseteq> keys_of (ss_completed s))
    \<and> (\<forall>s'. ss_failures s \<noteq> [] \<longrightarrow> scheduler_step c by_id s s' \<longrightarrow>
         ss_pending s' = ss_pending s \<and> set (ss_running s') \<subseteq> set (ss_running s))"
proof -
  have ix: "index_ok by_id" "map fst by_id = map task_id tasks"
    using validated_tasks [OF v(2)] by auto
  have keys: "keys_of by_id = task_id ` set tasks" using ix(2) by (metis list.set_map)
  have i: "scheduler_inv c by_id s"
    using scheduling.reachable_inv [OF r] start_inv [OF v] by simp
  then have l: "load_ok c by_id (ss_running s) (ss_active s)" and p: "four_parts (ss_pending s)
      (set (ss_running s)) (keys_of (ss_completed s)) (keys_of (ss_failures s)) (keys_of by_id)"
    and q: "queue_represents (scheduler_graph by_id) (ss_queue s) (taken_tasks s) (keys_of (ss_completed s))"
    by (auto simp: scheduler_inv_def partitioned_iff)
  have "set (task_dependencies t) \<subseteq> keys_of (ss_completed s)"
    if n: "n \<notin> ss_pending s" "map_of by_id n = Some t" for n t
  proof -
    have "n \<in> keys_of by_id" using n(2) by (metis domI dom_map_of_conv_image_fst)
    then have "n \<in> taken_tasks s"
      using four_parts_started [OF p _ n(1)] by (simp add: taken_tasks_def disj_ac)
    from dq.taken_nodes [OF q this] show ?thesis using parents_of_task [OF ix(1) n(2)] by simp
  qed
  then show ?thesis
    using l p step_effect [OF i] keys by (simp add: load_ok_def class_load_def)
qed

theorem scheduler_state_safe_witness:
  "\<exists>s0 :: nat scheduler_state. scheduler_start sample_index = Inr s0
     \<and> len (ss_running s0) \<le> 2
     \<and> four_parts (ss_pending s0) (set (ss_running s0)) (keys_of (ss_completed s0))
         (keys_of (ss_failures s0)) {''app'', ''lib''}"
proof -
  obtain s0 :: "nat scheduler_state" where s0: "scheduler_start sample_index = Inr s0"
    using validated_tasks [OF sample_valid(2)] by (auto simp: scheduler_start_def)
  have "sd_max_workers sample_scheduler = 2" "task_id ` set sample_tasks = {''app'', ''lib''}"
    by (simp_all add: sample_scheduler_def sample_tasks_def)
  then show ?thesis
    using scheduler_state_safe [OF sample_valid s0 rtranclp.rtrancl_refl] s0 by metis
qed

end
