(* ===== verification/Register_Bijection.thy ===== *)
theory Register_Bijection
  imports Register_Webs
begin

text \<open>
  The register bijection of \<^verbatim>\<open>src/reprobit/classic/register_bijection.py\<close>: rewriting the
  general-register fields of one region of a function body under a permutation of
  registers, with the liveness proof of its boundary and the checks on the image.

  The mapping is a dictionary of register names that the validator of the certificate has
  typed, so the payload scan at the head of the rewriter is not repeated here.  The
  traversal that collects what a renamed instruction reaches is the stack search of the web
  traversals.
\<close>

section \<open>The mapping\<close>

type_synonym register_mapping = "(string \<times> string) list"

definition register_number :: "string \<Rightarrow> int option" where
  "register_number name = map_of (map (\<lambda>(number, name). (name, number)) (enumerate_int register_names)) name"

text \<open>\<^verbatim>\<open>mapping.get(name, name)\<close>.\<close>

definition renamed :: "register_mapping \<Rightarrow> string \<Rightarrow> string" where
  "renamed mapping name = (case map_of mapping name of None \<Rightarrow> name | Some image_name \<Rightarrow> image_name)"

definition mapping_numbers :: "register_mapping \<Rightarrow> (int \<times> int) list result" where
  "mapping_numbers mapping =
     rmap (\<lambda>(source, destination).
       case (register_number source, register_number destination) of
         (Some s, Some d) \<Rightarrow> Inr (s, d)
       | _ \<Rightarrow> Inl (ByteIdentityError ''mapping names an unknown register'')) mapping"

definition mapping_support :: "register_mapping \<Rightarrow> string set" where
  "mapping_support mapping = fst ` set mapping \<union> snd ` set mapping"

definition require_mapping :: "register_mapping \<Rightarrow> (int \<times> int) list result" where
  "require_mapping mapping =
     rbind (mapping_numbers mapping) (\<lambda>numbers.
     require (card (snd ` set mapping) = length mapping \<and> snd ` set mapping = fst ` set mapping)
       ''mapping is not a bijection of one register set'' (
     require (list_all (\<lambda>(source, destination). source \<noteq> destination) mapping)
       ''mapping fixes a register it names'' (
     require (''esp'' \<notin> mapping_support mapping)
       ''mapping touches ESP, whose encodings carry ModRM/SIB structure'' (
     Inr numbers))))"

section \<open>The region\<close>

definition in_region :: "int \<times> int \<Rightarrow> bijection_instruction \<Rightarrow> bool" where
  "in_region region i = (fst region \<le> bi_offset i \<and> bi_offset i < snd region)"

definition require_region ::
    "bijection_instruction list \<Rightarrow> int \<Rightarrow> int \<times> int \<Rightarrow> int list option \<Rightarrow> unit result" where
  "require_region insns limit region internal_targets =
     (let start = fst region; stop = snd region; boundaries = map bi_offset insns @ [limit]
      in require (stop \<le> limit) ''region reaches past the body's code'' (
         rbind (if list_ex bi_indirect insns
                then (case internal_targets of
                        None \<Rightarrow> Inl (ByteIdentityError ''a computed jump requires the relocated in-body target set'')
                      | Some targets \<Rightarrow>
                          require (list_all (\<lambda>t. \<not> (start < t \<and> t < stop)) targets)
                            ''a relocated in-body target enters the region other than at its first instruction''
                            (Inr ()))
                else Inr ()) (\<lambda>_.
         require (start \<in> set boundaries \<and> stop \<in> set boundaries \<and> start < stop)
           ''region does not span whole instructions'' (Inr ()))))"

definition require_entry ::
    "bijection_instruction list \<Rightarrow> int list list \<Rightarrow> int \<times> int \<Rightarrow> int \<Rightarrow> bool" where
  "require_entry insns successors region entry =
     list_all (\<lambda>(index, i). list_all (\<lambda>edge.
         \<not> in_region region i \<and> in_region region (insns ! nat edge) \<longrightarrow> edge = entry)
       (successors ! nat index)) (enumerate_int insns)"

text \<open>The instructions of the region the renaming may change, other than its exits.\<close>

definition affected_indices ::
    "bijection_instruction list \<Rightarrow> int \<times> int \<Rightarrow> string set \<Rightarrow> int list" where
  "affected_indices insns region support_atoms =
     map fst (filter (\<lambda>(index, i). in_region region i \<and> bi_flow i \<notin> {''ret'', ''exit''}
       \<and> support_atoms \<inter> (bi_read_atoms i \<union> bi_write_atoms i) \<noteq> {}) (enumerate_int insns))"

definition require_exits ::
    "bijection_instruction list \<Rightarrow> string set list \<Rightarrow> int list list \<Rightarrow> int \<times> int \<Rightarrow> string set \<Rightarrow>
     int list \<Rightarrow> unit \<Rightarrow> int \<times> bijection_instruction \<Rightarrow> unit result" where
  "require_exits insns live successors region support_atoms reachable u indexed =
     (case indexed of (index, i) \<Rightarrow>
       if \<not> in_region region i then Inr ()
       else require (list_all (\<lambda>edge. in_region region (insns ! nat edge)
                       \<or> support_atoms \<inter> live ! nat edge = {}) (successors ! nat index))
              ''a mapped register is live on an edge leaving the region'' (
            require (bi_flow i \<in> {''ret'', ''exit''} \<longrightarrow>
                     support_atoms \<inter> bi_read_atoms i = {} \<or> index \<notin> set reachable)
              ''a mapped register is live at the region's return'' (Inr ())))"

definition require_boundary_liveness ::
    "bijection_instruction list \<Rightarrow> string set list \<Rightarrow> int list list \<Rightarrow> int \<times> int \<Rightarrow> int \<Rightarrow> string set \<Rightarrow>
     unit result" where
  "require_boundary_liveness insns live successors region entry support =
     (let support_atoms = register_atoms support
      in require (support_atoms \<inter> live ! nat entry = {}) ''a mapped register is live on entry to the region'' (
         rbind (search (length insns) (item successors)
                  (rev (affected_indices insns region support_atoms)) []) (\<lambda>reachable.
         rfold (require_exits insns live successors region support_atoms reachable) () (enumerate_int insns))))"

section \<open>Rewriting\<close>

text \<open>One register field of one byte.\<close>

definition field_value :: "byte \<Rightarrow> int \<Rightarrow> int" where
  "field_value b shift = drop_bit (nat shift) (byte_int b) AND 7"

definition set_field :: "byte \<Rightarrow> int \<Rightarrow> int \<Rightarrow> byte" where
  "set_field b shift number =
     word_of_int ((byte_int b AND NOT (push_bit (nat shift) 7) OR push_bit (nat shift) number) AND 255)"

definition rewrite_field ::
    "(int \<times> int) list \<Rightarrow> int list \<Rightarrow> bytes \<times> int list \<Rightarrow> int \<times> int \<Rightarrow> (bytes \<times> int list) result" where
  "rewrite_field numbers relocation_offsets s field =
     (case s of (img, rewritten) \<Rightarrow> case field of (at, shift) \<Rightarrow>
       rbind (item img at) (\<lambda>b.
         case map_of numbers (field_value b shift) of
           None \<Rightarrow> Inr (img, rewritten)
         | Some number \<Rightarrow>
             require (at \<notin> set relocation_offsets) ''a rewritten byte overlaps a relocation''
               (Inr (img[nat at := set_field b shift number], rewritten @ [at]))))"

definition opcode_mask :: "bijection_instruction \<Rightarrow> int" where
  "opcode_mask i =
     (case bijection_form_for (bi_opcode i) of
        Some form \<Rightarrow> if bf_opreg form \<noteq> None then 248 else 65535
      | None \<Rightarrow> 65535)"

definition same_operation :: "bijection_instruction \<Rightarrow> bijection_instruction \<Rightarrow> bool" where
  "same_operation left right =
     (let mask = opcode_mask right
      in bi_opcode left AND mask = bi_opcode right AND mask
         \<and> bi_flow left = bi_flow right \<and> bi_target left = bi_target right)"

definition renamed_operands ::
    "register_mapping \<Rightarrow> int \<times> int \<Rightarrow> bijection_instruction \<Rightarrow> bijection_instruction \<Rightarrow> bool" where
  "renamed_operands mapping region left right =
     (let rename = (\<lambda>name. if in_region region right then renamed mapping name else name)
      in bi_reads left = rename ` bi_reads right \<and> bi_writes left = rename ` bi_writes right)"

definition image_changes :: "bytes \<Rightarrow> bytes \<Rightarrow> int list" where
  "image_changes body output = filter (\<lambda>k. body ! nat k \<noteq> output ! nat k) (pyrange 0 (len body))"

definition require_image ::
    "bytes \<Rightarrow> bytes \<Rightarrow> bijection_instruction list \<Rightarrow> bijection_instruction list \<Rightarrow> register_mapping \<Rightarrow>
     int \<times> int \<Rightarrow> int list \<Rightarrow> int list result" where
  "require_image body output insns image_insns mapping region rewritten =
     require (map (\<lambda>i. (bi_offset i, bi_length i)) image_insns = map (\<lambda>i. (bi_offset i, bi_length i)) insns)
       ''the image changed an instruction boundary'' (
     require (list_all2 same_operation image_insns insns) ''the image changed an opcode or a branch'' (
     require (list_all2 (renamed_operands mapping region) image_insns insns)
       ''the image's operand set is not the bijection's image'' (
     require (set (image_changes body output) = set rewritten)
       ''the image changed a byte the bijection did not name''
       (Inr (image_changes body output)))))"

definition apply_register_bijection ::
    "bytes \<Rightarrow> register_mapping \<Rightarrow> int \<times> int \<Rightarrow> int list \<Rightarrow> (int \<Rightarrow> relocation_target option) \<Rightarrow>
     int option \<Rightarrow> int list option \<Rightarrow> (bytes \<times> int list \<times> int \<times> int) result" where
  "apply_register_bijection body mapping region relocation_offsets relocations code_length internal_targets =
     rbind (decode_ia32_bijection_body body relocations code_length) (\<lambda>insns.
     let limit = (case code_length of None \<Rightarrow> len body | Some l \<Rightarrow> l);
         inside = filter (in_region region) insns;
         support = mapping_support mapping
     in rbind (require_region insns limit region internal_targets) (\<lambda>_.
        rbind (require_mapping mapping) (\<lambda>numbers.
        rbind (register_bijection_live_sets insns) (\<lambda>(live, successors).
        require (inside \<noteq> []) ''region contains no instruction'' (
        require (bi_offset (last inside) + bi_length (last inside) = snd region)
          ''region does not end on an instruction boundary'' (
        rbind (case index_of insns (bi_offset (hd inside)) of
                 None \<Rightarrow> Inl (ValueError ''not in list'') | Some entry \<Rightarrow> Inr entry) (\<lambda>entry.
        require (list_all (\<lambda>i. support \<inter> bi_frozen i = {}) inside)
          ''a mapped register is named by a sub-register field'' (
        require (require_entry insns successors region entry)
          ''control enters the region other than at its first instruction'' (
        rbind (require_boundary_liveness insns live successors region entry support) (\<lambda>_.
        rbind (rfold (rewrite_field numbers relocation_offsets) (body, [])
                 (concat (map bi_fields inside))) (\<lambda>(output, rewritten).
        require (rewritten \<noteq> []) ''the bijection rewrites nothing'' (
        rbind (decode_ia32_bijection_body output relocations code_length) (\<lambda>image_insns.
        rbind (require_image body output insns image_insns mapping region rewritten) (\<lambda>changed.
        Inr (output, changed, len inside, len insns)))))))))))))))"

end
