(* ===== verification/Bijection_Soundness.thy ===== *)
theory Bijection_Soundness
  imports Register_Bijection
begin

text \<open>
  Soundness of the register bijection.  The instructions of a body act on a processor state
  through a semantics that is a parameter; what the decoder reports of an instruction bounds
  what the semantics reads and writes.  If \<^verbatim>\<open>apply_register_bijection\<close> accepts a region and
  each instruction of the region acts on the permuted registers as the original acts on the
  original ones, the body and its image run in lock step.
\<close>

section \<open>Lock step\<close>

primrec iterate :: "('a \<Rightarrow> 'a option) \<Rightarrow> nat \<Rightarrow> 'a \<Rightarrow> 'a option" where
  "iterate step 0 x = Some x"
| "iterate step (Suc n) x = Option.bind (iterate step n x) step"

locale lockstep =
  fixes step1 :: "'a \<Rightarrow> 'a option" and step2 :: "'b \<Rightarrow> 'b option" and rel :: "'a \<Rightarrow> 'b \<Rightarrow> bool"
  assumes simulates: "rel x y \<Longrightarrow> rel_option rel (step1 x) (step2 y)"
begin

lemma runs:
  assumes "rel x y"
  shows "rel_option rel (iterate step1 n x) (iterate step2 n y)"
proof (induction n)
  case 0
  then show ?case using assms by simp
next
  case (Suc n)
  then show ?case by (cases rule: option.rel_cases) (simp_all add: simulates)
qed

end

section \<open>States and atoms\<close>

text \<open>General registers by name; \<open>cpu_rest\<close> is everything else an instruction acts on.\<close>

record 'm cpu =
  cpu_regs :: "string \<Rightarrow> 32 word"
  cpu_rest :: 'm

definition atom_mask :: "string \<Rightarrow> 32 word" where
  "atom_mask a = (if last a = CHR ''l'' then 0xFF else if last a = CHR ''h'' then 0xFF00
     else if last a = CHR ''u'' then 0xFFFF0000 else 0xFFFFFFFF)"

definition atom_value :: "'m cpu \<Rightarrow> string \<Rightarrow> 32 word" where
  "atom_value s a = cpu_regs s (take 3 a) AND atom_mask a"

definition agree_on :: "string set \<Rightarrow> 'm cpu \<Rightarrow> 'm cpu \<Rightarrow> bool" where
  "agree_on atoms s t = (cpu_rest s = cpu_rest t \<and> (\<forall>a \<in> atoms. atom_value s a = atom_value t a))"

definition permuted :: "(string \<Rightarrow> string) \<Rightarrow> 'm cpu \<Rightarrow> 'm cpu" where
  "permuted f s = s\<lparr>cpu_regs := cpu_regs s \<circ> f\<rparr>"

lemma agree_mono: "agree_on B s t \<Longrightarrow> A \<subseteq> B \<Longrightarrow> agree_on A s t"
  by (auto simp: agree_on_def)

lemma agree_refl [simp]: "agree_on A s s"
  by (simp add: agree_on_def)

lemma permuted_rest [simp]: "cpu_rest (permuted f s) = cpu_rest s"
  by (simp add: permuted_def)

lemma atom_register:
  assumes "a \<in> all_atoms"
  shows "a \<in> register_atoms_of (take 3 a)"
proof -
  have "\<forall>name \<in> set register_names. \<forall>a \<in> register_atoms_of name. take 3 a = name" by code_simp
  moreover obtain name where "name \<in> set register_names" "a \<in> register_atoms_of name"
    using assms unfolding all_atoms_def register_atoms_def by (elim UN_E)
  ultimately show ?thesis by simp
qed

lemma agree_outside_support:
  assumes "A \<subseteq> all_atoms" "register_atoms (mapping_support mapping) \<inter> A = {}"
  shows "agree_on A s (permuted (renamed mapping) t) \<longleftrightarrow> agree_on A s t"
proof -
  have "atom_value (permuted (renamed mapping) t) a = atom_value t a" if a: "a \<in> A" for a
  proof -
    have "a \<in> register_atoms_of (take 3 a)" using atom_register assms a by blast
    then have "take 3 a \<notin> mapping_support mapping"
      using assms a unfolding register_atoms_def by blast
    then have "map_of mapping (take 3 a) = None"
      by (auto simp: mapping_support_def map_of_eq_None_iff)
    then have "renamed mapping (take 3 a) = take 3 a" by (simp add: renamed_def)
    then show ?thesis by (simp add: atom_value_def permuted_def)
  qed
  then show ?thesis by (simp add: agree_on_def)
qed

section \<open>Machines\<close>

text \<open>
  The semantics maps the offset of an instruction, its bytes and a state to the state after
  it and the offset control continues at, or \<open>None\<close> when it leaves the body.
\<close>

type_synonym 'm semantics = "int \<Rightarrow> bytes \<Rightarrow> 'm cpu \<Rightarrow> 'm cpu \<times> int option"

definition encoded_bytes :: "bytes \<Rightarrow> bijection_instruction \<Rightarrow> bytes" where
  "encoded_bytes body i = pslice body (bi_offset i) (bi_offset i + bi_length i)"

definition executes ::
    "'m semantics \<Rightarrow> bytes \<Rightarrow> bijection_instruction \<Rightarrow> 'm cpu \<Rightarrow> 'm cpu \<times> int option" where
  "executes sem body i = sem (bi_offset i) (encoded_bytes body i)"

definition machine_step ::
    "'m semantics \<Rightarrow> bytes \<Rightarrow> bijection_instruction list \<Rightarrow> nat \<times> 'm cpu \<Rightarrow> (nat \<times> 'm cpu) option" where
  "machine_step sem body insns x =
     (case x of (k, s) \<Rightarrow> case executes sem body (insns ! k) s of
        (s', None) \<Rightarrow> None
      | (s', Some offset) \<Rightarrow> map_option (\<lambda>j. (nat j, s')) (index_of insns offset))"

text \<open>
  What the decoder's report promises of an instruction: atoms it does not name keep their
  value, what it reads determines what it changes and where it goes, and it goes to a
  successor of the control-flow graph or, for a computed jump, to a relocated target.
\<close>

definition keeps_report ::
    "'m semantics \<Rightarrow> bytes \<Rightarrow> bijection_instruction list \<Rightarrow> int list list \<Rightarrow> int list option \<Rightarrow> nat \<Rightarrow> bool" where
  "keeps_report sem body insns successors internal_targets k =
     (let i = insns ! k; named = bi_read_atoms i \<union> bi_write_atoms i
      in (\<forall>s. \<forall>a \<in> all_atoms - named. atom_value (fst (executes sem body i s)) a = atom_value s a)
       \<and> (\<forall>s t. agree_on (bi_read_atoms i) s t \<longrightarrow>
            agree_on named (fst (executes sem body i s)) (fst (executes sem body i t))
            \<and> snd (executes sem body i s) = snd (executes sem body i t))
       \<and> (\<forall>s offset. snd (executes sem body i s) = Some offset \<longrightarrow>
            (\<exists>e \<in> set (successors ! k). offset = bi_offset (insns ! nat e))
            \<or> bi_indirect i \<and> (\<exists>targets. internal_targets = Some targets \<and> offset \<in> set targets)))"

text \<open>An instruction of the image is the permuted instruction of the body.\<close>

definition acts_permuted ::
    "'m semantics \<Rightarrow> bytes \<Rightarrow> bytes \<Rightarrow> (string \<Rightarrow> string) \<Rightarrow> bijection_instruction \<Rightarrow> bool" where
  "acts_permuted sem body output f i =
     (\<forall>t. executes sem body i (permuted f t) = apfst (permuted f) (executes sem output i t))"

section \<open>What an accepted certificate establishes\<close>

record renaming =
  rn_insns :: "bijection_instruction list"
  rn_successors :: "int list list"
  rn_live :: "string set list"
  rn_region :: "int \<times> int"
  rn_entry :: nat
  rn_reach :: "int list"
  rn_mapping :: register_mapping
  rn_targets :: "int list option"

definition inner :: "renaming \<Rightarrow> nat \<Rightarrow> bool" where
  "inner c k = in_region (rn_region c) (rn_insns c ! k)"

definition sup_atoms :: "renaming \<Rightarrow> string set" where
  "sup_atoms c = register_atoms (mapping_support (rn_mapping c))"

text \<open>The liveness equations, as inclusions.\<close>

definition flow_facts :: "renaming \<Rightarrow> nat \<Rightarrow> bool" where
  "flow_facts c k =
     (bi_read_atoms (rn_insns c ! k) \<subseteq> rn_live c ! k \<and> rn_live c ! k \<subseteq> all_atoms
      \<and> (\<forall>e \<in> set (rn_successors c ! k). 0 \<le> e \<and> nat e < length (rn_insns c)
           \<and> rn_live c ! nat e \<subseteq> rn_live c ! k \<union> bi_write_atoms (rn_insns c ! k))
      \<and> index_of (rn_insns c) (bi_offset (rn_insns c ! k)) = Some (int k)
      \<and> (bi_indirect (rn_insns c ! k) \<longrightarrow>
           bi_flow (rn_insns c ! k) = ''exit'' \<and> bi_read_atoms (rn_insns c ! k) = all_atoms))"

text \<open>Where the region may be entered and left, and what the renaming reaches.\<close>

definition border_facts :: "renaming \<Rightarrow> nat \<Rightarrow> bool" where
  "border_facts c k =
     ((\<forall>e \<in> set (rn_successors c ! k).
          (inner c k \<and> \<not> inner c (nat e) \<longrightarrow> sup_atoms c \<inter> rn_live c ! nat e = {})
          \<and> (\<not> inner c k \<and> inner c (nat e) \<longrightarrow> nat e = rn_entry c)
          \<and> (int k \<in> set (rn_reach c) \<longrightarrow> e \<in> set (rn_reach c)))
      \<and> (inner c k \<longrightarrow> bi_flow (rn_insns c ! k) \<in> {''ret'', ''exit''} \<longrightarrow>
           sup_atoms c \<inter> bi_read_atoms (rn_insns c ! k) = {} \<or> int k \<notin> set (rn_reach c))
      \<and> (inner c k \<longrightarrow> bi_flow (rn_insns c ! k) \<notin> {''ret'', ''exit''} \<longrightarrow>
           sup_atoms c \<inter> (bi_read_atoms (rn_insns c ! k) \<union> bi_write_atoms (rn_insns c ! k)) \<noteq> {} \<longrightarrow>
           int k \<in> set (rn_reach c))
      \<and> (\<forall>targets j. bi_indirect (rn_insns c ! k) \<longrightarrow> rn_targets c = Some targets \<longrightarrow>
           j < length (rn_insns c) \<longrightarrow> inner c j \<longrightarrow> bi_offset (rn_insns c ! j) \<in> set targets \<longrightarrow>
           j = rn_entry c))"

definition renaming_ok :: "renaming \<Rightarrow> bool" where
  "renaming_ok c =
     ((\<forall>k < length (rn_insns c). flow_facts c k \<and> border_facts c k)
      \<and> sup_atoms c \<inter> rn_live c ! rn_entry c = {}
      \<and> sup_atoms c \<noteq> {} \<and> sup_atoms c \<subseteq> all_atoms)"

text \<open>
  The states the two runs visit.  Inside the region the image holds the value of a live
  register in its renamed register; once the renaming may have acted, or as long as no mapped
  register is live, the exits of the region are covered.
\<close>

definition safe_inside :: "renaming \<Rightarrow> nat \<Rightarrow> bool" where
  "safe_inside c k = (int k \<in> set (rn_reach c) \<or> sup_atoms c \<inter> rn_live c ! k = {})"

definition view :: "renaming \<Rightarrow> nat \<Rightarrow> 'm cpu \<Rightarrow> 'm cpu" where
  "view c k t = (if inner c k then permuted (renamed (rn_mapping c)) t else t)"

definition matched :: "renaming \<Rightarrow> nat \<times> 'm cpu \<Rightarrow> nat \<times> 'm cpu \<Rightarrow> bool" where
  "matched c x y =
     (fst x = fst y \<and> fst x < length (rn_insns c)
      \<and> agree_on (rn_live c ! fst x) (snd x) (view c (fst x) (snd y))
      \<and> (inner c (fst x) \<longrightarrow> safe_inside c (fst x)))"

lemma index_of_offset:
  assumes "index_of insns offset = Some j"
  shows "nat j < length insns \<and> bi_offset (insns ! nat j) = offset"
  using assms unfolding index_of_def
  by (drule_tac map_of_SomeD) (auto simp: set_enumerate_int)

lemma no_computed_jump_inside:
  assumes ok: "renaming_ok c" and k: "k < length (rn_insns c)"
    and s: "inner c k" "safe_inside c k"
  shows "\<not> bi_indirect (rn_insns c ! k)"
proof
  assume "bi_indirect (rn_insns c ! k)"
  then have "bi_flow (rn_insns c ! k) = ''exit''" "bi_read_atoms (rn_insns c ! k) = all_atoms"
    "rn_live c ! k = all_atoms"
    using ok k by (auto simp: renaming_ok_def flow_facts_def)
  moreover have "sup_atoms c \<noteq> {}" "sup_atoms c \<subseteq> all_atoms" "border_facts c k"
    using ok k by (auto simp: renaming_ok_def)
  ultimately show False
    using s by (auto simp: border_facts_def safe_inside_def)
qed

text \<open>The reported accesses carry agreement over one step.\<close>

lemma agree_step:
  assumes r: "keeps_report sem body insns successors internal_targets k"
    and L: "bi_read_atoms (insns ! k) \<subseteq> L"
      "L' \<subseteq> L \<union> bi_read_atoms (insns ! k) \<union> bi_write_atoms (insns ! k)" "L' \<subseteq> all_atoms"
    and a: "agree_on L s u"
  shows "agree_on L' (fst (executes sem body (insns ! k) s)) (fst (executes sem body (insns ! k) u))"
proof -
  let ?i = "insns ! k"
  let ?named = "bi_read_atoms ?i \<union> bi_write_atoms ?i"
  let ?s = "fst (executes sem body ?i s)" and ?u = "fst (executes sem body ?i u)"
  have "agree_on (bi_read_atoms ?i) s u" using a L(1) by (rule agree_mono)
  then have named: "agree_on ?named ?s ?u"
    using r by (simp add: keeps_report_def Let_def)
  have "atom_value ?s x = atom_value ?u x" if x: "x \<in> L'" for x
  proof (cases "x \<in> ?named")
    case True
    then show ?thesis using named by (simp add: agree_on_def)
  next
    case False
    then have "atom_value ?s x = atom_value s x" "atom_value ?u x = atom_value u x"
      using r x L(3) by (auto simp: keeps_report_def Let_def)
    moreover have "x \<in> L" using False x L(2) by blast
    ultimately show ?thesis using a by (simp add: agree_on_def)
  qed
  then show ?thesis using named by (simp add: agree_on_def)
qed

definition landed :: "renaming \<Rightarrow> nat \<Rightarrow> nat \<Rightarrow> bool" where
  "landed c k j =
     (j < length (rn_insns c)
      \<and> rn_live c ! j \<subseteq> rn_live c ! k \<union> bi_read_atoms (rn_insns c ! k) \<union> bi_write_atoms (rn_insns c ! k)
      \<and> (inner c k \<noteq> inner c j \<longrightarrow> sup_atoms c \<inter> rn_live c ! j = {})
      \<and> (inner c k \<longrightarrow> inner c j \<longrightarrow> safe_inside c j))"

lemma landed_edge:
  assumes ok: "renaming_ok c" and k: "k < length (rn_insns c)"
    and s: "inner c k \<Longrightarrow> safe_inside c k" and e: "e \<in> set (rn_successors c ! k)"
    and flow: "bi_flow (rn_insns c ! k) \<notin> {''ret'', ''exit''}"
  shows "landed c k (nat e)"
proof -
  have f: "flow_facts c k" "border_facts c k" using ok k by (simp_all add: renaming_ok_def)
  have "0 \<le> e" and j: "nat e < length (rn_insns c)"
    and live: "rn_live c ! nat e \<subseteq> rn_live c ! k \<union> bi_write_atoms (rn_insns c ! k)"
    using f(1) e by (auto simp: flow_facts_def)
  have cross: "sup_atoms c \<inter> rn_live c ! nat e = {}" if "inner c k \<noteq> inner c (nat e)"
  proof (cases "inner c k")
    case True
    then show ?thesis using f(2) e that by (simp add: border_facts_def)
  next
    case False
    then have "nat e = rn_entry c" using f(2) e that by (simp add: border_facts_def)
    then show ?thesis using ok by (simp add: renaming_ok_def)
  qed
  have "safe_inside c (nat e)" if i: "inner c k"
  proof (cases "int k \<in> set (rn_reach c)")
    case True
    then have "e \<in> set (rn_reach c)" using f(2) e by (simp add: border_facts_def)
    then show ?thesis using \<open>0 \<le> e\<close> by (simp add: safe_inside_def)
  next
    case False
    then have dead: "sup_atoms c \<inter> rn_live c ! k = {}" using s [OF i] by (simp add: safe_inside_def)
    have "sup_atoms c \<inter> (bi_read_atoms (rn_insns c ! k) \<union> bi_write_atoms (rn_insns c ! k)) = {}"
      using f(2) i False flow by (auto simp: border_facts_def)
    then show ?thesis using dead live unfolding safe_inside_def by blast
  qed
  then show ?thesis using j live cross unfolding landed_def by blast
qed

lemma landed_computed:
  assumes ok: "renaming_ok c" and k: "k < length (rn_insns c)"
    and s: "inner c k \<Longrightarrow> safe_inside c k" and i: "bi_indirect (rn_insns c ! k)"
    and t: "rn_targets c = Some targets" "bi_offset (rn_insns c ! j) \<in> set targets"
    and j: "j < length (rn_insns c)"
  shows "landed c k j"
proof -
  have f: "flow_facts c k" "border_facts c k" "flow_facts c j" using ok k j by (simp_all add: renaming_ok_def)
  have out: "\<not> inner c k" using no_computed_jump_inside [OF ok k] s i by blast
  have "bi_read_atoms (rn_insns c ! k) = all_atoms" "rn_live c ! j \<subseteq> all_atoms"
    using f i by (auto simp: flow_facts_def)
  moreover have "sup_atoms c \<inter> rn_live c ! j = {}" if "inner c j"
  proof -
    have "j = rn_entry c" using f(2) i t j that by (simp add: border_facts_def)
    then show ?thesis using ok by (simp add: renaming_ok_def)
  qed
  ultimately show ?thesis using out j by (auto simp: landed_def)
qed

lemma landed_next:
  assumes ok: "renaming_ok c" and k: "k < length (rn_insns c)"
    and s: "inner c k \<Longrightarrow> safe_inside c k"
    and r: "keeps_report sem body (rn_insns c) (rn_successors c) (rn_targets c) k"
    and flow: "bi_flow (rn_insns c ! k) \<in> {''ret'', ''exit''} \<Longrightarrow> rn_successors c ! k = []"
    and n: "snd (executes sem body (rn_insns c ! k) u) = Some offset" "index_of (rn_insns c) offset = Some j"
  shows "landed c k (nat j)"
proof -
  have j: "nat j < length (rn_insns c)" "bi_offset (rn_insns c ! nat j) = offset"
    using index_of_offset [OF n(2)] by auto
  consider (edge) e where "e \<in> set (rn_successors c ! k)" "offset = bi_offset (rn_insns c ! nat e)"
    | (computed) targets where "bi_indirect (rn_insns c ! k)" "rn_targets c = Some targets"
        "offset \<in> set targets"
    using r n(1) unfolding keeps_report_def Let_def by blast
  then show ?thesis
  proof cases
    case edge
    have "flow_facts c k" using ok k by (simp add: renaming_ok_def)
    then have e: "nat e < length (rn_insns c)" using edge by (auto simp: flow_facts_def)
    then have "flow_facts c (nat e)" using ok by (simp add: renaming_ok_def)
    then have "index_of (rn_insns c) offset = Some (int (nat e))" using edge by (simp add: flow_facts_def)
    then have "nat j = nat e" using n(2) by (metis nat_int option.inject)
    moreover have "bi_flow (rn_insns c ! k) \<notin> {''ret'', ''exit''}" using flow edge(1) by fastforce
    ultimately show ?thesis using landed_edge [OF ok k s edge(1)] by simp
  next
    case computed
    then show ?thesis using landed_computed [OF ok k s computed(1,2)] j by simp
  qed
qed

text \<open>The hypotheses on the semantics, for every instruction of the body.\<close>

definition renames ::
    "'m semantics \<Rightarrow> bytes \<Rightarrow> bytes \<Rightarrow> renaming \<Rightarrow> bool" where
  "renames sem body output c =
     (renaming_ok c
      \<and> (\<forall>k < length (rn_insns c).
           keeps_report sem body (rn_insns c) (rn_successors c) (rn_targets c) k
           \<and> (bi_flow (rn_insns c ! k) \<in> {''ret'', ''exit''} \<longrightarrow> rn_successors c ! k = [])
           \<and> (if inner c k then acts_permuted sem body output (renamed (rn_mapping c)) (rn_insns c ! k)
              else encoded_bytes output (rn_insns c ! k) = encoded_bytes body (rn_insns c ! k))))"

lemma executes_view:
  assumes "renames sem body output c" "k < length (rn_insns c)"
  shows "executes sem body (rn_insns c ! k) (view c k t)
    = apfst (view c k) (executes sem output (rn_insns c ! k) t)"
proof (cases "inner c k")
  case True
  then have "acts_permuted sem body output (renamed (rn_mapping c)) (rn_insns c ! k)"
    using assms by (simp add: renames_def)
  then show ?thesis using True by (simp add: acts_permuted_def view_def [abs_def])
next
  case False
  then have "encoded_bytes output (rn_insns c ! k) = encoded_bytes body (rn_insns c ! k)"
    using assms by (simp add: renames_def)
  then show ?thesis
    using False by (simp add: executes_def view_def [abs_def] apfst_def map_prod_def split_beta)
qed

lemma view_change:
  assumes ok: "renaming_ok c" and l: "landed c k j" and a: "agree_on (rn_live c ! j) s (view c k t)"
  shows "agree_on (rn_live c ! j) s (view c j t)"
proof (cases "inner c k = inner c j")
  case True
  then show ?thesis using a by (simp add: view_def)
next
  case False
  then have "sup_atoms c \<inter> rn_live c ! j = {}" "rn_live c ! j \<subseteq> all_atoms"
    using l ok by (auto simp: landed_def renaming_ok_def flow_facts_def)
  then have "agree_on (rn_live c ! j) s (permuted (renamed (rn_mapping c)) t) \<longleftrightarrow> agree_on (rn_live c ! j) s t"
    by (intro agree_outside_support) (simp_all add: sup_atoms_def)
  then show ?thesis using a by (simp add: view_def split: if_splits)
qed

lemma matched_step:
  assumes r: "renames sem body output c" and m: "matched c x y"
  shows "rel_option (matched c) (machine_step sem body (rn_insns c) x) (machine_step sem output (rn_insns c) y)"
proof -
  obtain k s t where x: "x = (k, s)" "y = (k, t)" using m by (cases x; cases y) (auto simp: matched_def)
  have k: "k < length (rn_insns c)" and a: "agree_on (rn_live c ! k) s (view c k t)"
    and safe: "inner c k \<Longrightarrow> safe_inside c k"
    using m by (auto simp: matched_def x)
  have ok: "renaming_ok c" and rep: "keeps_report sem body (rn_insns c) (rn_successors c) (rn_targets c) k"
    and flow: "bi_flow (rn_insns c ! k) \<in> {''ret'', ''exit''} \<Longrightarrow> rn_successors c ! k = []"
    using r k by (auto simp: renames_def)
  have reads: "bi_read_atoms (rn_insns c ! k) \<subseteq> rn_live c ! k"
    using ok k by (auto simp: renaming_ok_def flow_facts_def)
  obtain s' next1 where s': "executes sem body (rn_insns c ! k) s = (s', next1)" by fastforce
  obtain t' next2 where t': "executes sem output (rn_insns c ! k) t = (t', next2)" by fastforce
  have u: "executes sem body (rn_insns c ! k) (view c k t) = (view c k t', next2)"
    using executes_view [OF r k, of t] t' by simp
  have same: "next1 = next2"
    using rep agree_mono [OF a reads] s' u by (fastforce simp: keeps_report_def Let_def)
  show ?thesis
  proof (cases "Option.bind next1 (index_of (rn_insns c))")
    case None
    then show ?thesis using same
      by (cases next2) (simp_all add: x machine_step_def s' t')
  next
    case (Some j)
    then obtain offset where o: "next1 = Some offset" "index_of (rn_insns c) offset = Some j"
      by (cases next1) auto
    have l: "landed c k (nat j)"
      using landed_next [OF ok k safe rep flow, of s offset j] s' o by simp
    have live: "rn_live c ! nat j \<subseteq> rn_live c ! k \<union> bi_read_atoms (rn_insns c ! k) \<union> bi_write_atoms (rn_insns c ! k)"
      "rn_live c ! nat j \<subseteq> all_atoms"
      using l ok by (auto simp: landed_def renaming_ok_def flow_facts_def)
    have "agree_on (rn_live c ! nat j) s' (view c k t')"
      using agree_step [OF rep reads live a] s' u by simp
    then have "agree_on (rn_live c ! nat j) s' (view c (nat j) t')"
      by (rule view_change [OF ok l])
    moreover have "inner c (nat j) \<longrightarrow> safe_inside c (nat j)"
      using l by (auto simp: landed_def safe_inside_def)
    ultimately have "matched c (nat j, s') (nat j, t')"
      using l by (simp add: matched_def landed_def)
    then show ?thesis
      using o by (simp add: x machine_step_def s' t' same [symmetric])
  qed
qed

interpretation renaming_runs: lockstep "machine_step sem body (rn_insns c)" "machine_step sem img (rn_insns c)"
    "\<lambda>x y. renames sem body img c \<and> matched c x y"
  for sem :: "'m semantics" and body img :: bytes and c :: renaming
proof
  fix x y :: "nat \<times> 'm cpu"
  assume h: "renames sem body img c \<and> matched c x y"
  then show "rel_option (\<lambda>x y. renames sem body img c \<and> matched c x y)
      (machine_step sem body (rn_insns c) x) (machine_step sem img (rn_insns c) y)"
    using matched_step [of sem body img c x y] by (auto intro: option.rel_mono_strong)
qed

section \<open>Acceptance gives the certificate\<close>

lemma flow_successors_range:
  assumes "flow_successors insns (int k, i) = Inr edges" "e \<in> set edges"
  shows "0 \<le> e \<and> e < len insns"
proof -
  have "0 \<le> j \<and> j < len insns" if "Option.bind target (index_of insns) = Some j" for target j
    using that index_of_range by (cases target) auto
  then show ?thesis
    using assms by (fastforce simp: flow_successors_def split: if_splits option.splits)
qed

lemma live_sets_facts:
  assumes b: "decode_ia32_bijection_body body relocations code_length = Inr insns"
    and l: "register_bijection_live_sets insns = Inr (live, successors)"
  shows "length live = length insns" "flow_graph insns successors"
    and "k < length insns \<Longrightarrow> flow_successors insns (int k, insns ! k) = Inr (successors ! k)"
    and "k < length insns \<Longrightarrow> atom \<in> live ! k \<longleftrightarrow> exposed insns successors (\<lambda>_. None) atom k"
proof -
  have s: "rmap (flow_successors insns) (enumerate_int insns) = Inr successors"
    and bl: "ia32_backward_liveness insns successors (\<lambda>_. None) = Inr live"
    using l by (auto simp: register_bijection_live_sets_def)
  have n: "length successors = length insns"
    using rmap_length [OF s] by (simp add: enumerate_int_def)
  have nth: "flow_successors insns (int k, insns ! k) = Inr (successors ! k)" if "k < length insns" for k
    using rmap_nth [OF s, of k] that by (simp add: enumerate_int_def pyrange_nat)
  then show "k < length insns \<Longrightarrow> flow_successors insns (int k, insns ! k) = Inr (successors ! k)" .
  have "\<forall>e \<in> set (successors ! k). 0 \<le> e \<and> e < len insns" if "k < length insns" for k
    using flow_successors_range [OF nth [OF that]] by blast
  then show g: "flow_graph insns successors"
    using n by (simp add: flow_graph_def list_all_length [of _ successors]) (simp add: list_all_iff)
  have r: "bi_read_atoms (insns ! k) \<subseteq> all_atoms" if "k < length insns" for k
    using body_instruction(1) [OF b that] by (simp add: instruction_ok_def)
  have "length live = length insns
      \<and> (\<forall>i < length insns. \<forall>x. x \<in> live ! i \<longleftrightarrow> exposed insns successors (\<lambda>_. None) x i)"
    using backward_liveness_exact [OF g finite_all_atoms r, of "\<lambda>_. None"] bl by auto
  then show "length live = length insns"
    "k < length insns \<Longrightarrow> atom \<in> live ! k \<longleftrightarrow> exposed insns successors (\<lambda>_. None) atom k"
    by blast+
qed

lemma exposed_atom:
  assumes "exposed insns successors blind a k"
    and "\<And>j. j < length insns \<Longrightarrow> bi_read_atoms (insns ! j) \<subseteq> all_atoms"
  shows "a \<in> all_atoms"
  using assms by (induction rule: exposed.induct) auto

lemma body_offsets:
  assumes b: "decode_ia32_bijection_body body relocations code_length = Inr insns"
    and "j < k" "k < length insns"
  shows "bi_offset (insns ! j) + bi_length (insns ! j) \<le> bi_offset (insns ! k)"
  using assms(2,3)
proof (induction k)
  case (Suc k)
  have o: "bi_offset (insns ! Suc k) = bi_offset (insns ! k) + bi_length (insns ! k)"
    using body_instruction(3) [OF b] Suc.prems by (simp add: take_Suc_conv_app_nth)
  moreover have "1 \<le> bi_length (insns ! k)" using body_instruction(2) [OF b] Suc.prems by simp
  ultimately show ?case using Suc by (cases "j = k") auto
qed simp

lemma body_index:
  assumes b: "decode_ia32_bijection_body body relocations code_length = Inr insns"
    and k: "k < length insns"
  shows "index_of insns (bi_offset (insns ! k)) = Some (int k)"
proof -
  have "bi_offset (insns ! k) \<in> bi_offset ` set insns" using k by simp
  then obtain j where j: "index_of insns (bi_offset (insns ! k)) = Some j"
    using index_of_total by blast
  have "0 \<le> j" using index_of_range [OF j] by simp
  have "nat j < length insns" "bi_offset (insns ! nat j) = bi_offset (insns ! k)"
    using index_of_offset [OF j] by auto
  moreover have "1 \<le> bi_length (insns ! k)" "1 \<le> bi_length (insns ! nat j)"
    using body_instruction(2) [OF b] k calculation(1) by auto
  ultimately have "nat j = k"
    using body_offsets [OF b, of "nat j" k] body_offsets [OF b, of k "nat j"] k
    by (cases "nat j" k rule: linorder_cases) auto
  then show ?thesis using j \<open>0 \<le> j\<close> by simp
qed

text \<open>A computed jump reads every register: the table has one form for it.\<close>

definition computed_form_ok :: "int \<Rightarrow> bijection_form \<Rightarrow> bool" where
  "computed_form_ok opcode form =
     ((bf_modrm form \<longrightarrow> bf_flow form \<noteq> ''exit'')
      \<and> list_all (\<lambda>(digit, flow). flow = ''exit'' \<longrightarrow>
           opcode \<notin> {49, 51} \<and>
           (case map_of (bf_ext_implicit form) digit of None \<Rightarrow> False | Some (rds, _) \<Rightarrow> rds = set register_names))
         (bf_ext_flow form))"

lemma computed_forms:
  "list_all (\<lambda>(opcode, form). computed_form_ok opcode form) bijection_forms"
  "list_all (\<lambda>(_, form). bf_flow form \<noteq> ''exit'' \<and> bf_ext_flow form = []) bijection_two_byte_forms"
  "list_all (\<lambda>((prefix, opcode), form). computed_form_ok opcode form) repeated_string_forms"
  by code_simp+

lemma opcode_computed_form:
  assumes "bijection_opcode encoded cursor size16 repeat = Inr (opcode, cursor', form, width)"
  shows "computed_form_ok opcode form"
proof -
  have l: "bijection_lookup opcode size16 repeat = Inr form"
    using assms by (auto simp: bijection_opcode_def)
  consider (string) prefix where "map_of repeated_string_forms (prefix, opcode) = Some form"
    | (two_byte) k where "map_of bijection_two_byte_forms k = Some form"
    | (one_byte) "map_of bijection_forms opcode = Some form"
    using l unfolding bijection_lookup_def bijection_form_for_def
    by (auto split: option.splits if_splits)
  then show ?thesis
  proof cases
    case string
    from computed_forms(3) map_of_SomeD [OF this] show ?thesis by (auto simp: list_all_iff)
  next
    case two_byte
    from computed_forms(2) map_of_SomeD [OF this] show ?thesis
      by (auto simp: list_all_iff computed_form_ok_def)
  next
    case one_byte
    from computed_forms(1) map_of_SomeD [OF this] show ?thesis by (auto simp: list_all_iff)
  qed
qed

text \<open>What a computed jump reads survives the rest of the decoding.\<close>

lemma touch_reads_more: "op_read_atoms ops \<subseteq> op_read_atoms (touch width field is_read is_write ops)"
  by (auto simp: touch_def Let_def)

lemma memory_address_reads_more:
  assumes "memory_address encoded offset cursor at mode rm ops = Inr (ops', rest)"
  shows "op_read_atoms ops \<subseteq> op_read_atoms ops'"
  using assms by (auto simp: memory_address_def address_register_def add_field_def Let_def split: if_splits)

lemma modrm_direct_reads_more:
  "op_read_atoms ops \<subseteq> op_read_atoms (modrm_direct form opcode width at modrm rm rm_write ops)"
proof -
  have "op_read_atoms (add_field c at 0 ops) = op_read_atoms ops" for c by (simp add: add_field_def)
  then have "op_read_atoms ops \<subseteq> op_read_atoms (touch w r rd wr (add_field c at 0 ops))" for w r rd wr c
    using touch_reads_more by metis
  then show ?thesis by (simp add: modrm_direct_def Let_def)
qed

lemma modrm_exit_reads:
  assumes "modrm_register_field form width at digit ops = Inr (ops', w, Some ''exit'')"
    and "computed_form_ok opcode form"
  shows "all_atoms \<subseteq> op_read_atoms ops' \<and> opcode \<notin> {49, 51}"
proof -
  have e: "map_of (bf_ext_flow form) digit = Some ''exit''" and o: "ops' = extension_operands form digit ops"
    using assms(1) by (auto simp: modrm_register_field_def Let_def split: if_splits)
  have "opcode \<notin> {49, 51} \<and> (case map_of (bf_ext_implicit form) digit of None \<Rightarrow> False
      | Some (rds, _) \<Rightarrow> rds = set register_names)"
    using assms(2) map_of_SomeD [OF e] unfolding computed_form_ok_def list_all_iff by fast
  then show ?thesis
    by (auto simp: o extension_operands_def all_atoms_def register_atoms_def split: option.splits)
qed

lemma modrm_computed_reads:
  assumes m: "bijection_modrm form opcode width encoded offset cursor ops
      = Inr (ops', mem, encoding, Some ''exit'', modrm)" and f: "computed_form_ok opcode form"
  shows "all_atoms \<subseteq> op_read_atoms ops' \<and> opcode \<notin> {49, 51}"
proof -
  obtain at digit ops1 w where
    "modrm_register_field form width at digit ops = Inr (ops1, w, Some ''exit'')"
    "op_read_atoms ops1 \<subseteq> op_read_atoms ops'"
    using m modrm_direct_reads_more memory_address_reads_more
    by (clarsimp simp: bijection_modrm_def Let_def split: if_splits) metis+
  then show ?thesis using modrm_exit_reads [OF _ f] by blast
qed

lemma computed_jump_reads:
  assumes "decode_ia32_bijection_instruction body offset relocations = Inr i" and "bi_indirect i"
  shows "bi_flow i = ''exit'' \<and> all_atoms \<subseteq> bi_read_atoms i"
  using assms(1)
proof (rule decode_bijection_cases)
  fix count encoded prefixed size16 repeat opcode cursor form width ops mem encoding
    flow_override modrm ops' flow target
  assume o: "bijection_opcode encoded prefixed size16 repeat = Inr (opcode, cursor, form, width)"
    and e: "bijection_explicit form opcode width encoded offset cursor
       (opcode_register form width (offset + prefixed) opcode (form_operands form))
       = Inr (ops, mem, encoding, flow_override, modrm)"
    and fl: "bijection_flow form flow_override encoded offset count relocations ops
       = Inr (ops', flow, target)"
    and i: "i = bijection_result offset count opcode form mem encoding flow_override
           (zeroing opcode form width modrm ops') flow target"
  note form = opcode_computed_form [OF o]
  have m: "bf_modrm form" and ex: "flow_override = Some ''exit''"
    using assms(2) form by (auto simp: i bijection_result_def computed_form_ok_def split: option.splits)
  then obtain enc where "bijection_modrm form opcode width encoded offset cursor
       (opcode_register form width (offset + prefixed) opcode (form_operands form))
       = Inr (ops, mem, enc, Some ''exit'', modrm)"
    using e by (auto simp: bijection_explicit_def)
  then have "all_atoms \<subseteq> op_read_atoms ops" "opcode \<notin> {49, 51}"
    using modrm_computed_reads [OF _ form] by blast+
  moreover have "ops' = ops" "flow = ''exit''"
    using fl ex by (auto simp: bijection_flow_def Let_def split: if_splits)
  ultimately show ?thesis by (simp add: i bijection_result_def zeroing_def)
qed

text \<open>Everything the rewriter checked before it returned.\<close>

lemma bijection_accepted:
  assumes "apply_register_bijection body mapping region relocation_offsets relocations code_length
      internal_targets = Inr (output, changed, inside_count, count)"
  obtains insns numbers live successors entry reachable rewritten where
    "decode_ia32_bijection_body body relocations code_length = Inr insns"
    "require_region insns (case code_length of None \<Rightarrow> len body | Some l \<Rightarrow> l) region internal_targets = Inr ()"
    "require_mapping mapping = Inr numbers"
    "register_bijection_live_sets insns = Inr (live, successors)"
    "filter (in_region region) insns \<noteq> []"
    "bi_offset (last (filter (in_region region) insns)) + bi_length (last (filter (in_region region) insns))
       = snd region"
    "index_of insns (bi_offset (hd (filter (in_region region) insns))) = Some entry"
    "require_entry insns successors region entry"
    "register_atoms (mapping_support mapping) \<inter> live ! nat entry = {}"
    "search (length insns) (item successors)
       (rev (affected_indices insns region (register_atoms (mapping_support mapping)))) [] = Inr reachable"
    "rfold (require_exits insns live successors region (register_atoms (mapping_support mapping)) reachable)
       () (enumerate_int insns) = Inr ()"
    "rfold (rewrite_field numbers relocation_offsets) (body, [])
       (concat (map bi_fields (filter (in_region region) insns))) = Inr (output, rewritten)"
    "rewritten \<noteq> []"
    "set (image_changes body output) = set rewritten"
  using assms
  by (clarsimp simp: apply_register_bijection_def require_boundary_liveness_def require_image_def Let_def
      split: prod.split_asm option.split_asm)

lemma accepted_flow_facts:
  assumes b: "decode_ia32_bijection_body body relocations code_length = Inr insns"
    and l: "register_bijection_live_sets insns = Inr (live, successors)"
    and c: "rn_insns c = insns" "rn_live c = live" "rn_successors c = successors"
    and k: "k < length insns"
  shows "flow_facts c k"
proof -
  note ls = live_sets_facts [OF b l]
  have reads: "bi_read_atoms (insns ! j) \<subseteq> all_atoms" if "j < length insns" for j
    using body_instruction(1) [OF b that] by (simp add: instruction_ok_def)
  have "bi_read_atoms (insns ! k) \<subseteq> live ! k"
    using ls(4) [OF k] k by (auto intro: exposed.reads)
  moreover have "live ! k \<subseteq> all_atoms"
    using ls(4) [OF k] exposed_atom reads by blast
  moreover have "0 \<le> e \<and> nat e < length insns \<and> live ! nat e \<subseteq> live ! k \<union> bi_write_atoms (insns ! k)"
    if e: "e \<in> set (successors ! k)" for e
  proof -
    have "0 \<le> e \<and> e < len insns" using flow_successors_range [OF ls(3) [OF k] e] .
    then have "0 \<le> e" "nat e < length insns" by auto
    then show ?thesis
      using ls(4) [OF k] ls(4) [of "nat e"] exposed.passes [OF k e] by blast
  qed
  moreover have "bi_flow (insns ! k) = ''exit'' \<and> bi_read_atoms (insns ! k) = all_atoms"
    if "bi_indirect (insns ! k)"
    using body_instruction(5) [OF b k] computed_jump_reads that reads [OF k] by blast
  ultimately show ?thesis
    using body_index [OF b k] by (simp add: flow_facts_def c)
qed

lemma flow_successors_none:
  assumes "flow_successors insns (k, i) = Inr edges" "bi_flow i \<in> {''ret'', ''exit''}"
  shows "edges = []"
  using assms by (auto simp: flow_successors_def)

lemma affected_reached:
  assumes s: "search n (item successors) (rev (affected_indices insns region atoms)) [] = Inr reachable"
    and k: "k < length insns" "in_region region (insns ! k)" "bi_flow (insns ! k) \<notin> {''ret'', ''exit''}"
      "atoms \<inter> (bi_read_atoms (insns ! k) \<union> bi_write_atoms (insns ! k)) \<noteq> {}"
  shows "int k \<in> set reachable"
proof -
  have "(int k, insns ! k) \<in> set (filter (\<lambda>(index, i). in_region region i \<and> bi_flow i \<notin> {''ret'', ''exit''}
       \<and> atoms \<inter> (bi_read_atoms i \<union> bi_write_atoms i) \<noteq> {}) (enumerate_int insns))"
    using k by (auto simp: set_enumerate_int)
  then have "fst (int k, insns ! k) \<in> set (affected_indices insns region atoms)"
    unfolding affected_indices_def set_map by (rule imageI)
  then show ?thesis
    using search_exact(1) [OF s] by (simp add: visited.on_stack)
qed

lemma reach_closed:
  assumes s: "search n (item successors) stack [] = Inr reachable"
    and k: "k < length successors" "int k \<in> set reachable" "e \<in> set (successors ! k)"
  shows "e \<in> set reachable"
proof -
  have "item successors (int k) = Inr (successors ! k)" using k(1) by simp
  then show ?thesis using search_exact(1) [OF s] k by (auto intro: visited.expanded)
qed

lemma region_entry:
  assumes b: "decode_ia32_bijection_body body relocations code_length = Inr insns"
    and e: "index_of insns (bi_offset (hd (filter (in_region region) insns))) = Some entry"
    and r: "require_region insns limit region internal_targets = Inr ()"
    and k: "k < length insns" "in_region region (insns ! k)"
    and i: "bi_indirect i" "i \<in> set insns" and t: "internal_targets = Some targets" "bi_offset (insns ! k) \<in> set targets"
  shows "k = nat entry"
proof -
  have "list_ex bi_indirect insns" using i by (auto simp: list_ex_iff)
  then have "list_all (\<lambda>t. \<not> (fst region < t \<and> t < snd region)) targets"
    using r t by (simp add: require_region_def Let_def)
  then have o: "bi_offset (insns ! k) = fst region"
    using k t by (auto simp: list_all_iff in_region_def)
  define h where "h = hd (filter (in_region region) insns)"
  obtain xs where "filter (in_region region) insns = h # xs"
    using k unfolding h_def by (metis filter_empty_conv list.collapse nth_mem)
  then obtain us vs where insns: "insns = us @ h # vs" and us: "\<forall>u \<in> set us. \<not> in_region region u"
    and h: "in_region region h"
    unfolding filter_eq_Cons_iff by auto
  have "\<not> k < length us" using us k by (auto simp: insns nth_append)
  then have "bi_offset h \<le> bi_offset (insns ! k)"
    using body_offsets [OF b, of "length us" k] body_instruction(2) [OF b, of "length us"] k
    by (cases "k = length us") (auto simp: insns)
  then have "bi_offset h = bi_offset (insns ! k)"
    using h o by (simp add: in_region_def)
  then show ?thesis using e body_index [OF b k(1)] by (simp add: h_def)
qed

lemma accepted_border_facts:
  assumes b: "decode_ia32_bijection_body body relocations code_length = Inr insns"
    and l: "register_bijection_live_sets insns = Inr (live, successors)"
    and r: "require_region insns limit region internal_targets = Inr ()"
    and e: "index_of insns (bi_offset (hd (filter (in_region region) insns))) = Some entry"
    and en: "require_entry insns successors region entry"
    and s: "search (length insns) (item successors)
       (rev (affected_indices insns region (register_atoms (mapping_support mapping)))) [] = Inr reachable"
    and x: "rfold (require_exits insns live successors region (register_atoms (mapping_support mapping)) reachable)
       () (enumerate_int insns) = Inr ()"
    and c: "c = \<lparr>rn_insns = insns, rn_successors = successors, rn_live = live, rn_region = region,
       rn_entry = nat entry, rn_reach = reachable, rn_mapping = mapping, rn_targets = internal_targets\<rparr>"
    and k: "k < length insns"
  shows "border_facts c k"
proof -
  let ?sup = "register_atoms (mapping_support mapping)" and ?i = "insns ! k"
  have n: "length successors = length insns"
    using live_sets_facts(2) [OF b l] by (simp add: flow_graph_def)
  have mem: "(int k, ?i) \<in> set (enumerate_int insns)" using k by (auto simp: set_enumerate_int)
  have ex: "require_exits insns live successors region ?sup reachable () (int k, ?i) = Inr ()"
    using rfold_unit [OF x mem] .
  have leave: "?sup \<inter> live ! nat e = {}"
    if "in_region region ?i" "\<not> in_region region (insns ! nat e)" "e \<in> set (successors ! k)" for e
    using ex that by (auto simp: require_exits_def list_all_iff)
  have ret: "?sup \<inter> bi_read_atoms ?i = {} \<or> int k \<notin> set reachable"
    if "in_region region ?i" "bi_flow ?i \<in> {''ret'', ''exit''}"
    using ex that by (auto simp: require_exits_def)
  have enter: "e = entry"
    if "\<not> in_region region ?i" "in_region region (insns ! nat e)" "e \<in> set (successors ! k)" for e
    using en mem that unfolding require_entry_def list_all_iff by fastforce
  show ?thesis
    unfolding border_facts_def inner_def sup_atoms_def c
    using leave ret enter reach_closed [OF s, of k] affected_reached [OF s k] n k
      region_entry [OF b e r] nth_mem [OF k]
    by (simp del: disj_not1) blast
qed

lemma rewritten_fields:
  assumes "rfold (rewrite_field numbers relocation_offsets) (img, rw) spots = Inr (img', rw')"
  shows "length img' = length img \<and> set rw' \<subseteq> set rw \<union> fst ` set spots \<and> (numbers = [] \<longrightarrow> rw' = rw)"
  using assms
proof (induction spots arbitrary: img rw)
  case (Cons spot spots)
  obtain img1 rw1 where s: "rewrite_field numbers relocation_offsets (img, rw) spot = Inr (img1, rw1)"
    and r: "rfold (rewrite_field numbers relocation_offsets) (img1, rw1) spots = Inr (img', rw')"
    using Cons.prems by auto
  have "length img1 = length img \<and> set rw1 \<subseteq> insert (fst spot) (set rw) \<and> (numbers = [] \<longrightarrow> rw1 = rw)"
    using s by (auto simp: rewrite_field_def split: prod.splits option.splits)
  then show ?case using Cons.IH [OF r] by auto
qed simp

text \<open>Outside the region the image has the bytes of the body.\<close>

lemma bytes_outside_region:
  assumes b: "decode_ia32_bijection_body body relocations code_length = Inr insns"
    and w: "rfold (rewrite_field numbers relocation_offsets) (body, [])
       (concat (map bi_fields (filter (in_region region) insns))) = Inr (output, rewritten)"
    and ch: "set (image_changes body output) = set rewritten"
    and k: "k < length insns" "\<not> in_region region (insns ! k)"
  shows "encoded_bytes output (insns ! k) = encoded_bytes body (insns ! k)"
proof -
  have len: "length output = length body" and rw: "set rewritten \<subseteq> fst ` (\<Union>i \<in> set (filter (in_region region) insns). set (bi_fields i))"
    using rewritten_fields [OF w] by auto
  have nonneg: "0 \<le> bi_offset (insns ! k)" "0 \<le> bi_length (insns ! k)"
  proof -
    obtain code where "decode_ia32_bijection_instruction code (bi_offset (insns ! k)) relocations = Inr (insns ! k)"
      using body_instruction(5) [OF b k(1)] by blast
    from decode_bijection_length [OF this]
    show "0 \<le> bi_offset (insns ! k)" "0 \<le> bi_length (insns ! k)" by simp_all
  qed
  have same: "output ! p = body ! p"
    if p: "nat (bi_offset (insns ! k)) \<le> p" "p < nat (bi_offset (insns ! k) + bi_length (insns ! k))" "p < length body" for p
  proof (rule ccontr)
    assume "output ! p \<noteq> body ! p"
    then have "body ! p \<noteq> output ! p" by (rule not_sym)
    then have "int p \<in> set (image_changes body output)" using p(3) by (simp add: image_changes_def)
    then have "int p \<in> set rewritten" by (simp only: ch)
    then have "int p \<in> fst ` (\<Union>i \<in> set (filter (in_region region) insns). set (bi_fields i))"
      using rw by (rule subsetD [rotated])
    then obtain spot where "spot \<in> (\<Union>i \<in> set (filter (in_region region) insns). set (bi_fields i))" "int p = fst spot"
      by (rule imageE)
    then obtain i shift where i: "i \<in> set insns" "in_region region i" "(int p, shift) \<in> set (bi_fields i)"
      by (cases spot) auto
    then obtain j where j: "j < length insns" "i = insns ! j" by (metis in_set_conv_nth)
    have "bi_offset i \<le> int p" "int p < bi_offset i + bi_length i"
      using body_instruction(1) [OF b j(1)] i(3) j(2) by (auto simp: instruction_ok_def)
    moreover have "bi_offset (insns ! k) \<le> int p" "int p < bi_offset (insns ! k) + bi_length (insns ! k)"
      using p nonneg by auto
    moreover have "j \<noteq> k" using i k j by auto
    ultimately show False
      using body_offsets [OF b, of j k] body_offsets [OF b, of k j] j k
      by (cases j k rule: linorder_cases) auto
  qed
  show ?thesis
    unfolding encoded_bytes_def by (rule pslice_cong) (use nonneg same len in simp_all)
qed

lemma mapping_atoms:
  assumes "require_mapping mapping = Inr numbers" "numbers \<noteq> []"
  shows "register_atoms (mapping_support mapping) \<noteq> {}" "register_atoms (mapping_support mapping) \<subseteq> all_atoms"
proof -
  have m: "mapping_numbers mapping = Inr numbers" using assms by (simp add: require_mapping_def)
  then have "mapping \<noteq> []" using assms(2) by (auto simp: mapping_numbers_def)
  then obtain x where "x \<in> mapping_support mapping" by (cases mapping) (auto simp: mapping_support_def)
  moreover have "register_atoms_of x \<noteq> {}" by (simp add: register_atoms_of_def)
  ultimately show "register_atoms (mapping_support mapping) \<noteq> {}" by (auto simp: register_atoms_def)
  have known: "x \<in> set register_names" if "register_number x \<noteq> None" for x
    using that by (auto simp: register_number_def set_enumerate_int dest!: map_of_SomeD)
  have "source \<in> set register_names \<and> destination \<in> set register_names"
    if "(source, destination) \<in> set mapping" for source destination
    using rmap_member [OF m [unfolded mapping_numbers_def] that] known
    by (auto split: option.splits)
  then have "mapping_support mapping \<subseteq> set register_names" by (auto simp: mapping_support_def)
  then show "register_atoms (mapping_support mapping) \<subseteq> all_atoms" by (rule register_atoms_all)
qed

lemma accepted_renaming:
  assumes a: "apply_register_bijection body mapping region relocation_offsets relocations code_length
      internal_targets = Inr (output, changed, inside_count, count)"
    and b: "decode_ia32_bijection_body body relocations code_length = Inr insns"
    and l: "register_bijection_live_sets insns = Inr (live, successors)"
  obtains c where "renaming_ok c" "rn_insns c = insns" "rn_successors c = successors" "rn_live c = live"
    "rn_region c = region" "rn_mapping c = mapping" "rn_targets c = internal_targets"
    "\<And>k. k < length insns \<Longrightarrow> \<not> in_region region (insns ! k) \<Longrightarrow>
       encoded_bytes output (insns ! k) = encoded_bytes body (insns ! k)"
    "rn_entry c = nat (the (index_of insns (bi_offset (hd (filter (in_region region) insns)))))"
proof (rule bijection_accepted [OF a])
  fix insns' numbers live' successors' entry reachable rewritten
  assume b': "decode_ia32_bijection_body body relocations code_length = Inr insns'"
    and r: "require_region insns' (case code_length of None \<Rightarrow> len body | Some l \<Rightarrow> l) region internal_targets = Inr ()"
    and m: "require_mapping mapping = Inr numbers"
    and l': "register_bijection_live_sets insns' = Inr (live', successors')"
    and e: "index_of insns' (bi_offset (hd (filter (in_region region) insns'))) = Some entry"
    and en: "require_entry insns' successors' region entry"
    and dead: "register_atoms (mapping_support mapping) \<inter> live' ! nat entry = {}"
    and s: "search (length insns') (item successors')
       (rev (affected_indices insns' region (register_atoms (mapping_support mapping)))) [] = Inr reachable"
    and x: "rfold (require_exits insns' live' successors' region (register_atoms (mapping_support mapping)) reachable)
       () (enumerate_int insns') = Inr ()"
    and w: "rfold (rewrite_field numbers relocation_offsets) (body, [])
       (concat (map bi_fields (filter (in_region region) insns'))) = Inr (output, rewritten)"
    and rw: "rewritten \<noteq> []" and ch: "set (image_changes body output) = set rewritten"
  have eq: "insns' = insns" "live' = live" "successors' = successors" using b b' l l' by auto
  define c where "c = \<lparr>rn_insns = insns, rn_successors = successors, rn_live = live, rn_region = region,
       rn_entry = nat entry, rn_reach = reachable, rn_mapping = mapping, rn_targets = internal_targets\<rparr>"
  have "flow_facts c k" if "k < length insns" for k
    using accepted_flow_facts [OF b l _ _ _ that] by (simp add: c_def)
  moreover have "border_facts c k" if "k < length insns" for k
    by (rule accepted_border_facts [OF b l r [unfolded eq] e [unfolded eq] en [unfolded eq]
        s [unfolded eq] x [unfolded eq] c_def that])
  moreover have "numbers \<noteq> []" using rewritten_fields [OF w] rw by auto
  ultimately have "renaming_ok c"
    using mapping_atoms [OF m] dead by (simp add: renaming_ok_def sup_atoms_def c_def eq)
  then show thesis
    using that [of c] bytes_outside_region [OF b w [unfolded eq] ch] e by (simp add: c_def eq)
qed

lemma starts_matched:
  assumes ok: "renaming_ok c" and n: "0 < length (rn_insns c)"
    and e: "inner c 0 \<Longrightarrow> rn_entry c = 0"
  shows "matched c (0, s) (0, s)"
proof (cases "inner c 0")
  case True
  then have dead: "sup_atoms c \<inter> rn_live c ! 0 = {}" using ok e by (simp add: renaming_ok_def)
  moreover have "rn_live c ! 0 \<subseteq> all_atoms" using ok n by (auto simp: renaming_ok_def flow_facts_def)
  ultimately have "agree_on (rn_live c ! 0) s (permuted (renamed (rn_mapping c)) s)"
    using agree_outside_support [of "rn_live c ! 0" "rn_mapping c" s s] by (simp add: sup_atoms_def)
  then show ?thesis using n dead by (simp add: matched_def view_def safe_inside_def)
next
  case False
  then show ?thesis using n by (simp add: matched_def view_def)
qed

text \<open>What a visitor of the two runs sees.\<close>

definition indistinguishable ::
    "bijection_instruction list \<Rightarrow> string set list \<Rightarrow> int \<times> int \<Rightarrow> nat \<times> 'm cpu \<Rightarrow> nat \<times> 'm cpu \<Rightarrow> bool" where
  "indistinguishable insns live region x y =
     (case (x, y) of ((k, s), (k', t)) \<Rightarrow>
       k' = k \<and> k < length insns \<and> cpu_rest s = cpu_rest t
       \<and> (\<not> in_region region (insns ! k) \<longrightarrow> agree_on (live ! k) s t)
       \<and> (bi_flow (insns ! k) \<in> {''ret'', ''exit''} \<longrightarrow> agree_on (bi_read_atoms (insns ! k)) s t))"

lemma matched_indistinguishable:
  assumes ok: "renaming_ok c" and m: "matched c x y"
  shows "indistinguishable (rn_insns c) (rn_live c) (rn_region c) x y"
proof -
  obtain k s t where x: "x = (k, s)" "y = (k, t)" using m by (cases x; cases y) (auto simp: matched_def)
  have k: "k < length (rn_insns c)" and a: "agree_on (rn_live c ! k) s (view c k t)"
    and safe: "inner c k \<Longrightarrow> safe_inside c k"
    using m by (auto simp: matched_def x)
  have f: "flow_facts c k" "border_facts c k" using ok k by (simp_all add: renaming_ok_def)
  have reads: "bi_read_atoms (rn_insns c ! k) \<subseteq> rn_live c ! k" "rn_live c ! k \<subseteq> all_atoms"
    using f by (auto simp: flow_facts_def)
  have "agree_on (bi_read_atoms (rn_insns c ! k)) s t"
    if "bi_flow (rn_insns c ! k) \<in> {''ret'', ''exit''}" "inner c k"
  proof -
    have "sup_atoms c \<inter> bi_read_atoms (rn_insns c ! k) = {}"
      using f(2) safe that reads by (auto simp: border_facts_def safe_inside_def)
    moreover have "agree_on (bi_read_atoms (rn_insns c ! k)) s (permuted (renamed (rn_mapping c)) t)"
      using agree_mono [OF a reads(1)] that by (simp add: view_def)
    ultimately show ?thesis
      using agree_outside_support [of "bi_read_atoms (rn_insns c ! k)" "rn_mapping c" s t] reads
      by (simp add: sup_atoms_def)
  qed
  moreover have "cpu_rest s = cpu_rest t" using a by (simp add: agree_on_def view_def split: if_splits)
  ultimately show ?thesis
    using a agree_mono [OF a reads(1)] k
    by (cases "inner c k") (simp_all add: indistinguishable_def x inner_def view_def)
qed

section \<open>Properties\<close>

text \<open>
  C4.  An accepted register bijection is safe.  Take a body, a permutation and a region that
  \<^verbatim>\<open>apply_register_bijection\<close> accepts, and a semantics of instruction bytes in which every
  instruction reads, writes and branches no further than the decoder reports and every
  instruction of the region acts on the permuted registers as the original one does on the
  original registers.  From every state the body and its image then run in lock step: they
  visit the same instructions, stop together, always agree_on on memory and flags, agree_on on
  every live part of every register whenever control is outside the region, and agree_on on
  everything a return or tail jump reads, wherever it is.
\<close>

theorem register_bijection_sound:
  assumes a: "apply_register_bijection body mapping region relocation_offsets relocations code_length
      internal_targets = Inr (output, changed, inside_count, count)"
    and b: "decode_ia32_bijection_body body relocations code_length = Inr insns"
    and l: "register_bijection_live_sets insns = Inr (live, successors)"
    and r: "\<forall>k < length insns. keeps_report sem body insns successors internal_targets k"
    and p: "\<forall>i \<in> set insns. in_region region i \<longrightarrow> acts_permuted sem body output (renamed mapping) i"
  shows "rel_option (indistinguishable insns live region)
    (iterate (machine_step sem body insns) n (0, s)) (iterate (machine_step sem output insns) n (0, s))"
proof -
  obtain c where ok: "renaming_ok c"
    and c: "rn_insns c = insns" "rn_successors c = successors" "rn_live c = live"
      "rn_region c = region" "rn_mapping c = mapping" "rn_targets c = internal_targets"
    and same: "\<And>k. k < length insns \<Longrightarrow> \<not> in_region region (insns ! k) \<Longrightarrow>
       encoded_bytes output (insns ! k) = encoded_bytes body (insns ! k)"
    and entry: "rn_entry c = nat (the (index_of insns (bi_offset (hd (filter (in_region region) insns)))))"
    using accepted_renaming [OF a b l] by metis
  have ne: "insns \<noteq> []" using bijection_body_cases [OF b] by metis
  have "rn_successors c ! k = []"
    if "k < length insns" "bi_flow (insns ! k) \<in> {''ret'', ''exit''}" for k
    using flow_successors_none [OF live_sets_facts(3) [OF b l that(1)] that(2)] c by simp
  then have ren: "renames sem body output c"
    using ok r p same by (simp add: renames_def c inner_def)
  have "rn_entry c = 0" if "inner c 0"
  proof -
    have "hd (filter (in_region region) insns) = insns ! 0"
      using that ne by (cases insns) (simp_all add: inner_def c)
    then show ?thesis using entry body_index [OF b, of 0] ne by simp
  qed
  then have "matched c (0, s) (0, s)"
    using starts_matched [OF ok] ne by (simp add: c)
  then have "rel_option (\<lambda>x y. renames sem body output c \<and> matched c x y)
      (iterate (machine_step sem body insns) n (0, s)) (iterate (machine_step sem output insns) n (0, s))"
    using renaming_runs.runs [of sem body "output" c "(0, s)" "(0, s)" n] ren by (simp add: c)
  then show ?thesis
    by (rule option.rel_mono_strong) (use matched_indistinguishable [OF ok] in \<open>auto simp: c\<close>)
qed

text \<open>A body without memory accesses: \<^verbatim>\<open>mov ecx, 1; mov eax, ecx; ret\<close>, with ECX and EDX exchanged.\<close>

abbreviation renamed_body :: bytes where
  "renamed_body \<equiv> [0xB9, 1, 0, 0, 0, 0x8B, 0xC1, 0xC3]"

definition move_semantics :: "unit semantics" where
  "move_semantics offset code s =
     (if code = [0xB9, 1, 0, 0, 0] then (s\<lparr>cpu_regs := (cpu_regs s)(''ecx'' := 1)\<rparr>, Some 5)
      else if code = [0xBA, 1, 0, 0, 0] then (s\<lparr>cpu_regs := (cpu_regs s)(''edx'' := 1)\<rparr>, Some 5)
      else if code = [0x8B, 0xC1] then (s\<lparr>cpu_regs := (cpu_regs s)(''eax'' := cpu_regs s ''ecx'')\<rparr>, Some 7)
      else if code = [0x8B, 0xC2] then (s\<lparr>cpu_regs := (cpu_regs s)(''eax'' := cpu_regs s ''edx'')\<rparr>, Some 7)
      else (s, None))"

definition renamed_insns :: "bijection_instruction list" where
  "renamed_insns = projr (decode_ia32_bijection_body renamed_body (\<lambda>_. None) None)"

definition exchange :: register_mapping where
  "exchange = [(''ecx'', ''edx''), (''edx'', ''ecx'')]"

abbreviation renamed_image :: bytes where
  "renamed_image \<equiv> [0xBA, 1, 0, 0, 0, 0x8B, 0xC2, 0xC3]"

lemma renamed_accepted:
  "apply_register_bijection renamed_body exchange (0, 7) [] (\<lambda>_. None) None None
   = Inr (renamed_image, [0, 6], 2, 3)"
  "decode_ia32_bijection_body renamed_body (\<lambda>_. None) None = Inr renamed_insns"
  "register_bijection_live_sets renamed_insns = Inr (map (\<lambda>regs. register_atoms regs)
     [return_live - {''eax''}, return_live - {''eax''} \<union> {''ecx''}, return_live], [[1], [2], []])"
  by code_simp+

lemma renamed_reports:
  "length renamed_insns = 3"
  "map bi_offset renamed_insns = [0, 5, 7]"
  "map bi_read_atoms renamed_insns = [{}, register_atoms {''ecx''}, register_atoms return_live]"
  "map bi_write_atoms renamed_insns = [register_atoms {''ecx''}, register_atoms {''eax''}, {}]"
  "map (in_region (0, 7)) renamed_insns = [True, True, False]"
  "map (encoded_bytes renamed_body) renamed_insns = [[0xB9, 1, 0, 0, 0], [0x8B, 0xC1], [0xC3]]"
  "map (encoded_bytes renamed_image) renamed_insns = [[0xBA, 1, 0, 0, 0], [0x8B, 0xC2], [0xC3]]"
  by code_simp+

lemma map_eq_list3:
  assumes "map f xs = [a, b, c]"
  shows "f (xs ! 0) = a \<and> f (xs ! 1) = b \<and> f (xs ! 2) = c"
  using assms by (auto simp: map_eq_Cons_conv)

lemmas renamed_facts = renamed_reports(2-7) [THEN map_eq_list3, simplified]

lemma atom_value_update:
  "a \<in> all_atoms \<Longrightarrow> a \<notin> register_atoms {r} \<Longrightarrow>
   atom_value (s\<lparr>cpu_regs := (cpu_regs s)(r := v)\<rparr>) a = atom_value s a"
  using atom_register [of a] by (auto simp: atom_value_def register_atoms_def)

lemma renamed_keeps_report:
  assumes "k < 3"
  shows "keeps_report move_semantics renamed_body renamed_insns [[1], [2], []] None k"
proof -
  have regs: "register_atoms {''ecx''} = {''ecx.l'', ''ecx.h'', ''ecx.u''}"
    "register_atoms {''eax''} = {''eax.l'', ''eax.h'', ''eax.u''}"
    by (simp_all add: register_atoms_def register_atoms_of_def byte_addressable_def)
  have "k = 0 \<or> k = 1 \<or> k = 2" using assms by arith
  moreover have "keeps_report move_semantics renamed_body renamed_insns [[1], [2], []] None 0"
    by (simp add: keeps_report_def executes_def move_semantics_def renamed_facts atom_value_update)
       (simp add: agree_on_def regs atom_value_def)
  moreover have "keeps_report move_semantics renamed_body renamed_insns [[1], [2], []] None 1"
    by (simp add: keeps_report_def executes_def move_semantics_def renamed_facts atom_value_update)
       (simp add: agree_on_def regs atom_value_def atom_mask_def)
  moreover have "keeps_report move_semantics renamed_body renamed_insns [[1], [2], []] None 2"
    by (simp add: keeps_report_def executes_def move_semantics_def renamed_facts)
  ultimately show ?thesis by blast
qed

lemma renamed_permuted:
  "acts_permuted move_semantics renamed_body renamed_image (renamed exchange) (renamed_insns ! 0)"
  "acts_permuted move_semantics renamed_body renamed_image (renamed exchange) (renamed_insns ! 1)"
  by (auto simp: acts_permuted_def executes_def move_semantics_def renamed_facts permuted_def
      renamed_def exchange_def fun_eq_iff)

theorem register_bijection_sound_witness:
  "\<forall>n (s :: unit cpu). (iterate (machine_step move_semantics renamed_body renamed_insns) n (0, s) = None)
     = (iterate (machine_step move_semantics renamed_image renamed_insns) n (0, s) = None)"
proof (intro allI)
  fix n and s :: "unit cpu"
  have "acts_permuted move_semantics renamed_body renamed_image (renamed exchange) (renamed_insns ! k)"
    if k: "k < 3" "in_region (0, 7) (renamed_insns ! k)" for k
  proof -
    have "k = 0 \<or> k = 1 \<or> k = 2" using k(1) by arith
    then show ?thesis using k(2) renamed_permuted renamed_facts(4) by auto
  qed
  then have "\<forall>i \<in> set renamed_insns. in_region (0, 7) i \<longrightarrow>
      acts_permuted move_semantics renamed_body renamed_image (renamed exchange) i"
    by (auto simp: in_set_conv_nth renamed_reports(1))
  from register_bijection_sound [OF renamed_accepted _ this]
  have "rel_option (indistinguishable renamed_insns (map (\<lambda>regs. register_atoms regs)
     [return_live - {''eax''}, return_live - {''eax''} \<union> {''ecx''}, return_live]) (0, 7))
     (iterate (machine_step move_semantics renamed_body renamed_insns) n (0, s))
     (iterate (machine_step move_semantics renamed_image renamed_insns) n (0, s))"
    using renamed_keeps_report renamed_reports(1) by simp
  then show "(iterate (machine_step move_semantics renamed_body renamed_insns) n (0, s) = None)
     = (iterate (machine_step move_semantics renamed_image renamed_insns) n (0, s) = None)"
    by (cases rule: option.rel_cases) simp_all
qed

text \<open>
  The operand check compares sets of register names and a call freezes none, so a region may
  exchange the two argument registers of a call: the image of \<^verbatim>\<open>mov ecx, 1; mov edx, 2; call f;
  ret\<close> passes them the other way round.  The permuted action of the call is a hypothesis of
  the soundness theorem that no callee reading both registers satisfies.
\<close>

theorem bijection_exchanges_call_arguments:
  "apply_register_bijection [0xB9, 1, 0, 0, 0, 0xBA, 2, 0, 0, 0, 0xE8, 0, 0, 0, 0, 0xC3]
     exchange (0, 15) [] (\<lambda>_. None) None None
   = Inr ([0xBA, 1, 0, 0, 0, 0xB9, 2, 0, 0, 0, 0xE8, 0, 0, 0, 0, 0xC3], [0, 5], 3, 4)"
  by code_simp

end
