(* ===== verification/Relational_Flow.thy ===== *)
theory Relational_Flow
  imports Register_Webs
begin

text \<open>
  The flow walk of \<^verbatim>\<open>src/reprobit/classic/relational.py\<close>: instruction boundaries, a closed
  classification of control flow, the control-flow graph with its external entries, the flags
  each instruction reads and writes, and backward liveness of the flags.

  A set of offsets that the source takes as an optional frozenset is a set here; the source
  treats \<^verbatim>\<open>None\<close> and the empty set alike.
\<close>

section \<open>Flags and conditions\<close>

definition arithmetic_flags :: "string set" where
  "arithmetic_flags = {''cf'', ''pf'', ''af'', ''zf'', ''sf'', ''of''}"

definition preserved_flags :: "string set" where
  "preserved_flags = {''zf''}"

definition changed_flags :: "string set" where
  "changed_flags = arithmetic_flags - preserved_flags"

text \<open>By the low four bits of a condition opcode.\<close>

definition condition_flags :: "int \<Rightarrow> string set" where
  "condition_flags code = [{''of''}, {''of''}, {''cf''}, {''cf''}, {''zf''}, {''zf''}, {''cf'', ''zf''}, {''cf'', ''zf''},
     {''sf''}, {''sf''}, {''pf''}, {''pf''}, {''sf'', ''of''}, {''sf'', ''of''},
     {''zf'', ''sf'', ''of''}, {''zf'', ''sf'', ''of''}] ! nat code"

definition condition_names :: "string list" where
  "condition_names = [''o'', ''no'', ''b'', ''ae'', ''e'', ''ne'', ''be'', ''a'', ''s'', ''ns'', ''p'', ''np'', ''l'', ''ge'', ''le'', ''g'']"

definition condition_name :: "int \<Rightarrow> string" where
  "condition_name code = condition_names ! nat code"

definition condition_codes :: "(string \<times> int) list" where
  "condition_codes = zip condition_names (pyrange 0 16)"

definition relational_mirror :: "(string \<times> string) list" where
  "relational_mirror = [(''b'', ''a''), (''a'', ''b''), (''ae'', ''be''), (''be'', ''ae''), (''e'', ''e''), (''ne'', ''ne''),
     (''l'', ''g''), (''g'', ''l''), (''ge'', ''le''), (''le'', ''ge'')]"

definition relational_compare_pairs :: "(int \<times> int) list" where
  "relational_compare_pairs = [(56, 58), (58, 56), (57, 59), (59, 57)]"

definition relational_prefixes :: "int list" where
  "relational_prefixes = [38, 46, 54, 62, 100, 101, 102]"

definition repeat_prefixes :: "int list" where
  "repeat_prefixes = [242, 243]"

definition string_quiet :: "int list" where
  "string_quiet = [108, 109, 110, 111, 164, 165, 170, 171, 172, 173]"

definition string_compare :: "int list" where
  "string_compare = [166, 167, 174, 175]"

definition refused_opcodes :: "int list" where
  "refused_opcodes = [154, 234, 204, 205, 206, 207, 240, 241, 244]"

section \<open>Flag effects\<close>

type_synonym flag_effect = "string set \<times> string set"

text \<open>
  The table by opcode, as the assignments that build it in order; a later assignment to the
  same opcode wins.
\<close>

definition flag_table_rows :: "(int \<times> flag_effect) list" where
  "flag_table_rows =
     (let quiet = ({}, {}); assign = (\<lambda>opcodes e. map (\<lambda>opcode. (opcode, e)) opcodes)
      in assign [136, 137, 138, 139, 140, 141, 142, 160, 161, 162, 163, 198, 199, 134, 135, 152, 153,
                 200, 201, 96, 97, 104, 106, 6, 14, 22, 30, 7, 23, 31, 252, 253] quiet
       @ assign (pyrange 176 192) quiet @ assign (pyrange 80 96) quiet
       @ assign (pyrange 144 152) quiet @ assign (pyrange 216 224) quiet
       @ assign string_quiet quiet
       @ assign (concat (map (\<lambda>base. map (\<lambda>step. base + step) (pyrange 0 6)) [0, 8, 32, 40, 48, 56])) ({}, arithmetic_flags)
       @ assign (concat (map (\<lambda>base. map (\<lambda>step. base + step) (pyrange 0 6)) [16, 24])) ({''cf''}, arithmetic_flags)
       @ assign [132, 133, 168, 169] ({}, arithmetic_flags)
       @ assign string_compare ({}, arithmetic_flags)
       @ assign (pyrange 64 80) ({}, arithmetic_flags - {''cf''})
       @ assign [105, 107, 4015] ({}, {''cf'', ''of''})
       @ assign [4022, 4023, 4030, 4031] quiet
       @ assign [4003, 4011, 4019, 4027] ({}, {''cf''})
       @ assign [4028, 4029] ({}, {''zf''})
       @ concat (map (\<lambda>code. [(3984 OR code, (condition_flags code, {})), (3904 OR code, (condition_flags code, {}))]) (pyrange 0 16))
       @ [(156, (arithmetic_flags, {})), (157, ({}, arithmetic_flags)), (158, ({}, arithmetic_flags - {''of''})),
          (159, (arithmetic_flags - {''of''}, {})), (245, ({''cf''}, {''cf''})), (248, ({}, {''cf''})), (249, ({}, {''cf''}))])"

definition flag_effects :: "int \<Rightarrow> flag_effect option" where
  "flag_effects opcode = map_of (rev flag_table_rows) opcode"

text \<open>By opcode and the extension digit of its ModRM byte.\<close>

definition group_flag_effects :: "int \<Rightarrow> int \<Rightarrow> flag_effect option" where
  "group_flag_effects opcode digit =
     (let carry = (if digit = 2 \<or> digit = 3 then {''cf''} else {})
      in if opcode \<in> {128, 129, 131} then Some (carry, arithmetic_flags)
         else if opcode \<in> {246, 247}
         then Some ({}, if digit \<in> {0, 1, 3} then arithmetic_flags else if digit \<in> {4, 5} then {''cf'', ''of''} else {})
         else if opcode \<in> {254, 255} then Some ({}, if digit \<in> {0, 1} then arithmetic_flags - {''cf''} else {})
         else if opcode \<in> {208, 209} then Some (carry, {''cf'', ''of''})
         else if opcode \<in> {192, 193, 210, 211} then Some (carry, {})
         else None)"

section \<open>The walk\<close>

record flow_item =
  it_offset :: int
  it_length :: int
  it_opcode :: int
  it_opcode_at :: int
  it_flow :: string
  it_target :: "int option"
  it_condition :: "int option"
  it_reads :: "string set"
  it_writes :: "string set"

text \<open>The prefixes of the instruction that ends before \<open>stop\<close>.\<close>

function flow_prefixes :: "bytes \<Rightarrow> int \<Rightarrow> int \<Rightarrow> bool \<Rightarrow> (int \<times> bool) result" where
  "flow_prefixes code stop cursor repeated =
     rbind (byte_at code cursor) (\<lambda>b.
     if b \<in> set relational_prefixes \<or> b \<in> set repeat_prefixes
     then rbind (if b \<in> set repeat_prefixes
                 then rbind (if cursor + 1 < stop then rbind (byte_at code (cursor + 1)) (\<lambda>c.
                               Inr (c \<in> set string_quiet \<or> c \<in> set string_compare)) else Inr False) (\<lambda>ok.
                      require ok ''the repeat prefix does not prefix a string opcode'' (Inr True))
                 else Inr repeated) (\<lambda>repeated.
          require (cursor + 1 < stop) ''instruction is only prefixes''
            (flow_prefixes code stop (cursor + 1) repeated))
     else Inr (cursor, repeated))"
  by pat_completeness auto
termination by (relation "measure (\<lambda>(code, stop, cursor, repeated). nat (stop - cursor))") auto

declare flow_prefixes.simps [simp del]

definition relative_target :: "bytes \<Rightarrow> int \<Rightarrow> int \<Rightarrow> int" where
  "relative_target code stop width = stop + from_bytes_signed (pslice code (stop - width) stop)"

definition classify_flow ::
    "bytes \<Rightarrow> int set \<Rightarrow> int \<Rightarrow> int \<Rightarrow> int \<Rightarrow> (string \<times> int option \<times> int option) result" where
  "classify_flow code external_entries stop cursor opcode =
     (if 112 \<le> opcode \<and> opcode \<le> 127 then Inr (''jcc'', Some (relative_target code stop 1), Some (opcode AND 15))
      else if 3968 \<le> opcode \<and> opcode \<le> 3983 then Inr (''jcc'', Some (relative_target code stop 4), Some (opcode AND 15))
      else if opcode = 235 \<or> opcode = 233
      then Inr (''jmp'', Some (relative_target code stop (if opcode = 235 then 1 else 4)), None)
      else if opcode = 232 then Inr (''call'', None, None)
      else if opcode = 194 \<or> opcode = 195 then Inr (''ret'', None, None)
      else if opcode \<in> {224, 225, 226, 227} then Inr (''jcc'', Some (relative_target code stop 1), None)
      else if opcode = 255
      then require (cursor + 1 < stop) ''FF form lacks its ModRM'' (
           rbind (byte_at code (cursor + 1)) (\<lambda>modrm.
           let extension = drop_bit 3 modrm AND 7
           in require (extension \<noteq> 3 \<and> extension \<noteq> 5) ''a far transfer makes the control-flow graph unknowable'' (
              if extension = 2 then Inr (''call'', None, None)
              else if extension = 4
              then require (external_entries \<noteq> {}) ''a computed jump makes the control-flow graph unknowable''
                     (Inr (''computed'', None, None))
              else Inr (''fall'', None, None))))
      else Inr (''fall'', None, None))"

text \<open>A relocated long branch leaves the body.\<close>

definition relocated_exit ::
    "(int \<Rightarrow> relocation_target option) \<Rightarrow> int \<Rightarrow> int \<Rightarrow> string \<times> int option \<times> int option \<Rightarrow> string \<times> int option \<times> int option" where
  "relocated_exit relocations stop opcode f =
     (if fst f \<in> {''jmp'', ''jcc''} \<and> (opcode = 233 \<or> 3968 \<le> opcode \<and> opcode \<le> 3983)
         \<and> Option.bind (relocations (stop - 4)) rr_width = Some 4
      then (''exit'', None, None) else f)"

definition item_flags :: "bytes \<Rightarrow> int \<Rightarrow> int \<Rightarrow> bool \<Rightarrow> string \<Rightarrow> int option \<Rightarrow> flag_effect result" where
  "item_flags code cursor opcode repeated flow condition =
     (if flow = ''jcc'' \<and> condition \<noteq> None then Inr (condition_flags (the condition), {})
      else if flow \<in> {''jcc'', ''jmp'', ''call'', ''ret'', ''exit''}
      then Inr (if opcode = 224 \<or> opcode = 225 then {''zf''} else {}, {})
      else if group_flag_effects opcode 0 \<noteq> None
      then rbind (byte_at code (cursor + 1)) (\<lambda>modrm.
             case group_flag_effects opcode (drop_bit 3 modrm AND 7) of
               Some e \<Rightarrow> Inr e | None \<Rightarrow> Inl KeyError)
      else let (reads, writes) = (case flag_effects opcode of None \<Rightarrow> (arithmetic_flags, {}) | Some e \<Rightarrow> e)
           in Inr (if repeated \<and> opcode \<in> set string_compare then reads \<union> {''zf''} else reads, writes))"

definition relational_item ::
    "bytes \<Rightarrow> (int \<Rightarrow> relocation_target option) \<Rightarrow> int set \<Rightarrow> int \<Rightarrow> flow_item result" where
  "relational_item code relocations external_entries offset =
     rbind (supported_ia32_instruction_length (slice_from code offset)) (\<lambda>n.
     let stop = offset + n
     in rbind (flow_prefixes code stop offset False) (\<lambda>(cursor, repeated).
        rbind (byte_at code cursor) (\<lambda>first.
        require (first \<notin> set refused_opcodes) ''opcode is outside the relational-form flow table'' (
        rbind (if first = 15
               then require (cursor + 1 < stop) ''truncated two-byte opcode''
                      (rbind (byte_at code (cursor + 1)) (\<lambda>second. Inr (3840 OR second)))
               else Inr first) (\<lambda>opcode.
        rbind (classify_flow code external_entries stop cursor opcode) (\<lambda>f.
        let g = relocated_exit relocations stop opcode f; flow = fst g; target = fst (snd g); condition = snd (snd g)
        in rbind (item_flags code cursor opcode repeated flow condition) (\<lambda>(reads, writes).
          Inr \<lparr>it_offset = offset, it_length = n, it_opcode = opcode, it_opcode_at = cursor,
               it_flow = flow, it_target = target, it_condition = condition,
               it_reads = reads, it_writes = writes\<rparr>)))))))"

lemma relational_item_extent:
  assumes "relational_item code relocations external_entries offset = Inr i"
  shows "it_offset i = offset" "supported_ia32_instruction_length (slice_from code offset) = Inr (it_length i)"
    "1 \<le> it_length i"
  using assms supported_length_bounds
  by (auto simp: relational_item_def Let_def split: prod.split_asm)

function relational_items ::
    "bytes \<Rightarrow> (int \<Rightarrow> relocation_target option) \<Rightarrow> int set \<Rightarrow> int \<Rightarrow> flow_item list result" where
  "relational_items code relocations external_entries offset =
     (if offset < len code
      then rbind (relational_item code relocations external_entries offset) (\<lambda>i.
           rbind (relational_items code relocations external_entries (offset + it_length i)) (\<lambda>rest.
             Inr (i # rest)))
      else require (offset = len code) ''body does not decode to exhaustion'' (Inr []))"
  by pat_completeness auto
termination
  by (relation "measure (\<lambda>(code, relocations, external_entries, offset). nat (len code - offset))")
     (auto dest: relational_item_extent(3))

declare relational_items.simps [simp del]

section \<open>The control-flow graph\<close>

definition item_index :: "flow_item list \<Rightarrow> int \<Rightarrow> int option" where
  "item_index items = map_of (rev (map (\<lambda>(index, i). (it_offset i, index)) (enumerate_int items)))"

definition require_item_target :: "flow_item list \<Rightarrow> unit \<Rightarrow> flow_item \<Rightarrow> unit result" where
  "require_item_target items u i =
     (case it_target i of None \<Rightarrow> Inr ()
      | Some target \<Rightarrow> require (target \<in> set (map it_offset items))
          ''the branch does not target an instruction boundary of this body'' (Inr ()))"

definition relational_successors :: "flow_item list \<Rightarrow> int set \<Rightarrow> int \<times> flow_item \<Rightarrow> int list result" where
  "relational_successors items external_entries indexed =
     (case indexed of (index, i) \<Rightarrow>
       rbind (if it_flow i \<in> {''fall'', ''jcc'', ''call''}
              then if index + 1 < len items then Inr [index + 1]
                   else require (it_flow i \<noteq> ''fall'') ''body falls off its end'' (Inr [])
              else Inr []) (\<lambda>edges.
       rbind (if it_flow i \<in> {''jcc'', ''jmp''} \<and> it_target i \<noteq> None
              then (case item_index items (the (it_target i)) of None \<Rightarrow> Inl KeyError | Some j \<Rightarrow> Inr (edges @ [j]))
              else Inr edges) (\<lambda>edges.
       let computed = (if it_flow i = ''computed''
             then List.map_filter (item_index items) (sorted_list_of_set external_entries) else [])
       in Inr (sort (remdups (edges @ computed))))))"

definition external_entry :: "flow_item list \<Rightarrow> int \<Rightarrow> int result" where
  "external_entry items target =
     (case item_index items target of
        None \<Rightarrow> Inl (ByteIdentityError ''the external entry is not an instruction boundary of this body'')
      | Some j \<Rightarrow> Inr j)"

definition ia32_relational_flow_walk ::
    "bytes \<Rightarrow> (int \<Rightarrow> relocation_target option) \<Rightarrow> int option \<Rightarrow> int set \<Rightarrow>
     (flow_item list \<times> int list list \<times> int list) result" where
  "ia32_relational_flow_walk body relocations code_length external_entries =
     require (body \<noteq> []) ''body is empty'' (
     let limit = (case code_length of None \<Rightarrow> len body | Some l \<Rightarrow> l)
     in require (0 < limit \<and> limit \<le> len body) ''code length is out of range'' (
     let code = pslice body 0 limit
     in rbind (relational_items code relocations external_entries 0) (\<lambda>items.
        rbind (rfold (require_item_target items) () items) (\<lambda>_.
        rbind (rmap (relational_successors items external_entries) (enumerate_int items)) (\<lambda>successors.
        let code_end = (if items = [] then 0 else it_offset (last items) + it_length (last items));
            external = filter (\<lambda>target. target < code_end) (sorted_list_of_set external_entries)
        in rbind (rmap (external_entry items) external) (\<lambda>found.
           let entries = 0 # map snd (filter (\<lambda>(target, j). target \<noteq> 0) (zip external found))
           in rbind (search (length items) (item successors) (rev entries) []) (\<lambda>seen.
              require (list_all (\<lambda>index. index \<in> set seen) (pyrange 0 (len items)))
                ''the instruction is reachable neither from the entry nor from a declared external entry''
                (Inr (items, successors, entries)))))))))"

text \<open>
  \<^verbatim>\<open>ia32_relational_flag_liveness\<close>: the iteration of the register certificates, over
  instructions that carry nothing but the flags as their atoms.
\<close>

definition flag_shim :: "flow_item \<Rightarrow> bijection_instruction" where
  "flag_shim i =
     \<lparr>bi_offset = 0, bi_length = 0, bi_opcode = 0, bi_fields = [], bi_reads = {}, bi_writes = {}, bi_flow = [],
      bi_target = None, bi_frozen = {}, bi_memory = None, bi_encoding = None, bi_indirect = False,
      bi_read_atoms = it_reads i, bi_write_atoms = it_writes i\<rparr>"

definition ia32_relational_flag_liveness :: "flow_item list \<Rightarrow> int list list \<Rightarrow> string set list result" where
  "ia32_relational_flag_liveness items successors =
     ia32_backward_liveness (map flag_shim items) successors (\<lambda>_. None)"


section \<open>What the walk establishes\<close>

text \<open>The items tile the code.\<close>

fun tiled_items :: "int \<Rightarrow> flow_item list \<Rightarrow> int \<Rightarrow> bool" where
  "tiled_items off [] stop = (off = stop)"
| "tiled_items off (i # rest) stop = (it_offset i = off \<and> 1 \<le> it_length i \<and> tiled_items (off + it_length i) rest stop)"

lemma relational_items_tiled:
  assumes "relational_items code relocations ext off = Inr items"
  shows "tiled_items off items (len code)
    \<and> (\<forall>i \<in> set items. relational_item code relocations ext (it_offset i) = Inr i)"
  using assms
proof (induction code relocations ext off arbitrary: items rule: relational_items.induct)
  case (1 code relocations ext off)
  show ?case
  proof (cases "off < len code")
    case True
    with "1.prems" obtain i rest where i: "relational_item code relocations ext off = Inr i"
        "relational_items code relocations ext (off + it_length i) = Inr rest" "items = i # rest"
      by (subst (asm) relational_items.simps) auto
    then show ?thesis using "1.IH" [OF True i(1,2)] relational_item_extent [OF i(1)] by auto
  next
    case False
    then show ?thesis using "1.prems" by (subst (asm) relational_items.simps) auto
  qed
qed

lemma tiled_start: "tiled_items off items stop \<Longrightarrow> off \<le> stop"
  by (induction items arbitrary: off) force+

lemma tiled_bounds: "tiled_items off items stop \<Longrightarrow> i \<in> set items \<Longrightarrow> off \<le> it_offset i \<and> it_offset i + it_length i \<le> stop"
proof (induction items arbitrary: off)
  case (Cons a items)
  then show ?case using tiled_start [of "off + it_length a" items stop] by force
qed simp

lemma tiled_ordered:
  "tiled_items off items stop \<Longrightarrow> j < k \<Longrightarrow> k < length items \<Longrightarrow> it_offset (items ! j) + it_length (items ! j) \<le> it_offset (items ! k)"
proof (induction items arbitrary: off j k)
  case (Cons a items)
  show ?case
  proof (cases j)
    case 0
    then obtain k' where k: "k = Suc k'" using Cons.prems by (cases k) auto
    then show ?thesis
      using Cons.prems tiled_bounds [of "off + it_length a" items stop "items ! k'"] 0 by simp
  next
    case (Suc j')
    then obtain k' where "k = Suc k'" using Cons.prems by (cases k) auto
    then show ?thesis using Cons Suc by auto
  qed
qed simp

text \<open>No two items share a byte.\<close>

lemma tiled_items_apart:
  assumes t: "tiled_items off items stop" and k: "j < length items" "k < length items" "j \<noteq> k"
    and p: "it_offset (items ! j) \<le> p" "p < it_offset (items ! j) + it_length (items ! j)"
  shows "\<not> (it_offset (items ! k) \<le> p \<and> p < it_offset (items ! k) + it_length (items ! k))"
  using tiled_ordered [OF t, of j k] tiled_ordered [OF t, of k j] k p by (cases "j < k") auto

lemma item_index_found:
  assumes "item_index items off = Some k"
  shows "0 \<le> k \<and> k < len items \<and> it_offset (items ! nat k) = off"
  using map_of_SomeD [OF assms [unfolded item_index_def]]
  by (auto simp: set_enumerate_int)

lemma condition_code: "condition_flags (opcode AND 15) \<subseteq> arithmetic_flags" "0 \<le> opcode AND 15" "opcode AND 15 < 16"
proof -
  have m: "opcode AND 15 = opcode mod 16" 
    using take_bit_eq_mask [of 4 opcode] by (simp add: mask_eq_exp_minus_1 take_bit_eq_mod)
  show "0 \<le> opcode AND 15" "opcode AND 15 < 16" by (simp_all add: m)
  have "\<forall>k \<in> set [0..<16]. condition_flags (int k) \<subseteq> arithmetic_flags" by code_simp
  moreover have "nat (opcode mod 16) \<in> set [0..<16]" by simp
  ultimately have "condition_flags (int (nat (opcode mod 16))) \<subseteq> arithmetic_flags" by blast
  then show "condition_flags (opcode AND 15) \<subseteq> arithmetic_flags" by (simp add: m)
qed


lemma classified_condition:
  assumes "classify_flow code ext stop cursor opcode = Inr (flow, target, Some c)"
  shows "flow = ''jcc'' \<and> 0 \<le> c \<and> c < 16 \<and> condition_flags c \<subseteq> arithmetic_flags \<and> c = opcode AND 15
    \<and> (112 \<le> opcode \<and> opcode \<le> 127 \<or> 3968 \<le> opcode \<and> opcode \<le> 3983)"
  using assms condition_code [of opcode]
  by (auto simp: classify_flow_def Let_def split: if_splits)

lemma flag_table_arithmetic: "flag_effects opcode = Some (r, w) \<Longrightarrow> r \<subseteq> arithmetic_flags"
proof -
  assume "flag_effects opcode = Some (r, w)"
  then have "(opcode, r, w) \<in> set flag_table_rows" by (auto simp: flag_effects_def dest: map_of_SomeD)
  moreover have "list_all (\<lambda>(opcode, r, w). r \<subseteq> arithmetic_flags) flag_table_rows" by code_simp
  ultimately show ?thesis by (auto simp: list_all_iff)
qed

lemma string_flag: "''zf'' \<in> arithmetic_flags" "{''cf''} \<subseteq> arithmetic_flags"
  by (simp_all add: arithmetic_flags_def)

lemma item_flags_arithmetic:
  assumes "item_flags code cursor opcode repeated flow condition = Inr (r, w)"
    and "\<forall>c. condition = Some c \<longrightarrow> condition_flags c \<subseteq> arithmetic_flags"
  shows "r \<subseteq> arithmetic_flags"
proof -
  have g: "r \<subseteq> arithmetic_flags" if "group_flag_effects opcode d = Some (r, w)" for d r w
    using that string_flag by (auto simp: group_flag_effects_def Let_def split: if_splits)
  show ?thesis
    using assms string_flag flag_table_arithmetic [of opcode]
    by (auto simp: item_flags_def split: if_splits option.splits prod.splits) (metis g subsetD)
qed

lemma relational_item_facts:
  assumes "relational_item code relocations ext off = Inr i"
  shows "it_reads i \<subseteq> arithmetic_flags"
    "it_condition i = Some c \<Longrightarrow> it_flow i = ''jcc'' \<and> 0 \<le> c \<and> c < 16 \<and> c = it_opcode i AND 15
       \<and> (112 \<le> it_opcode i \<and> it_opcode i \<le> 127 \<or> 3968 \<le> it_opcode i \<and> it_opcode i \<le> 3983)"
    "\<exists>rep first. flow_prefixes code (off + it_length i) off False = Inr (it_opcode_at i, rep)
       \<and> byte_at code (it_opcode_at i) = Inr first
       \<and> (if first = 15 then it_opcode_at i + 1 < off + it_length i
            \<and> (\<exists>second. byte_at code (it_opcode_at i + 1) = Inr second \<and> it_opcode i = 3840 OR second)
          else it_opcode i = first)"
proof -
  obtain n cursor rep first opcode f reads writes where
    n: "flow_prefixes code (off + n) off False = Inr (cursor, rep)" "byte_at code cursor = Inr first"
    and op: "(if first = 15 then require (cursor + 1 < off + n) ''truncated two-byte opcode''
        (rbind (byte_at code (cursor + 1)) (\<lambda>second. Inr (3840 OR second))) else Inr first) = Inr opcode"
    and f: "classify_flow code ext (off + n) cursor opcode = Inr f"
    and fl: "item_flags code cursor opcode rep (fst (relocated_exit relocations (off + n) opcode f))
        (snd (snd (relocated_exit relocations (off + n) opcode f))) = Inr (reads, writes)"
    and i: "i = \<lparr>it_offset = off, it_length = n, it_opcode = opcode, it_opcode_at = cursor,
        it_flow = fst (relocated_exit relocations (off + n) opcode f),
        it_target = fst (snd (relocated_exit relocations (off + n) opcode f)),
        it_condition = snd (snd (relocated_exit relocations (off + n) opcode f)), it_reads = reads, it_writes = writes\<rparr>"
    using assms by (auto simp: relational_item_def Let_def split: prod.split_asm)
  let ?g = "relocated_exit relocations (off + n) opcode f"
  have g: "?g = f \<or> ?g = (''exit'', None, None)" by (simp add: relocated_exit_def)
  have c: "fst ?g = ''jcc'' \<and> 0 \<le> c \<and> c < 16 \<and> condition_flags c \<subseteq> arithmetic_flags \<and> c = opcode AND 15
      \<and> (112 \<le> opcode \<and> opcode \<le> 127 \<or> 3968 \<le> opcode \<and> opcode \<le> 3983)" if "snd (snd ?g) = Some c" for c
    using g that classified_condition [of code ext "off + n" cursor opcode "fst f" "fst (snd f)" c] f by (cases f) auto
  show "it_reads i \<subseteq> arithmetic_flags" using item_flags_arithmetic [OF fl] c i by auto
  show "it_condition i = Some c \<Longrightarrow> it_flow i = ''jcc'' \<and> 0 \<le> c \<and> c < 16 \<and> c = it_opcode i AND 15
       \<and> (112 \<le> it_opcode i \<and> it_opcode i \<le> 127 \<or> 3968 \<le> it_opcode i \<and> it_opcode i \<le> 3983)"
    using c [of c] i by simp
  show "\<exists>rep first. flow_prefixes code (off + it_length i) off False = Inr (it_opcode_at i, rep)
       \<and> byte_at code (it_opcode_at i) = Inr first
       \<and> (if first = 15 then it_opcode_at i + 1 < off + it_length i
            \<and> (\<exists>second. byte_at code (it_opcode_at i + 1) = Inr second \<and> it_opcode i = 3840 OR second)
          else it_opcode i = first)"
    using n op i by (intro exI [of _ rep] exI [of _ first]) (auto split: if_splits)
qed


text \<open>The opcode of an item is its first byte that is no prefix.\<close>

definition is_prefix_byte :: "byte \<Rightarrow> bool" where
  "is_prefix_byte b = (byte_int b \<in> set relational_prefixes \<or> byte_int b \<in> set repeat_prefixes)"

lemma byte_at_int: "0 \<le> p \<Longrightarrow> byte_at code p = Inr v \<longleftrightarrow> p < len code \<and> v = byte_int (code ! nat p)"
  by (auto simp: byte_at_def item_def split: if_splits)

lemma flow_prefixes_first:
  assumes "flow_prefixes code stop off rep = Inr (c, r)" "0 \<le> off" "off < stop"
  shows "off \<le> c \<and> c < stop \<and> c < len code \<and> (\<forall>p. off \<le> p \<and> p < c \<longrightarrow> is_prefix_byte (code ! nat p))
    \<and> \<not> is_prefix_byte (code ! nat c)"
  using assms
proof (induction code stop off rep rule: flow_prefixes.induct)
  case (1 code stop off rep)
  obtain b where b: "byte_at code off = Inr b" using "1.prems"(1) by (subst (asm) flow_prefixes.simps) auto
  then have off: "off < len code" "b = byte_int (code ! nat off)" using "1.prems"(2) by (simp_all add: byte_at_int)
  show ?case
  proof (cases "is_prefix_byte (code ! nat off)")
    case True
    obtain r' where r': "(if b \<in> set repeat_prefixes
        then rbind (if off + 1 < stop then rbind (byte_at code (off + 1)) (\<lambda>c.
               Inr (c \<in> set string_quiet \<or> c \<in> set string_compare)) else Inr False) (\<lambda>ok.
             require ok ''the repeat prefix does not prefix a string opcode'' (Inr True))
        else Inr rep) = Inr r'" "off + 1 < stop" "flow_prefixes code stop (off + 1) r' = Inr (c, r)"
      using "1.prems"(1) b True off by (subst (asm) flow_prefixes.simps) (auto simp: is_prefix_byte_def)
    have "b \<in> set relational_prefixes \<or> b \<in> set repeat_prefixes" using True off by (simp add: is_prefix_byte_def)
    from "1.IH" [OF b this r'] "1.prems" r'(2) have ih: "off + 1 \<le> c \<and> c < stop \<and> c < len code
        \<and> (\<forall>p. off + 1 \<le> p \<and> p < c \<longrightarrow> is_prefix_byte (code ! nat p)) \<and> \<not> is_prefix_byte (code ! nat c)" by simp
    moreover have "is_prefix_byte (code ! nat p)" if "off \<le> p" "p < c" for p
      using ih True that by (cases "p = off") auto
    ultimately show ?thesis by auto
  next
    case False
    then have "c = off" using "1.prems"(1) b off by (subst (asm) flow_prefixes.simps) (auto simp: is_prefix_byte_def)
    then show ?thesis using False off "1.prems" by auto
  qed
qed

lemma relational_item_opcode:
  assumes i: "relational_item code relocations ext off = Inr i" and off: "0 \<le> off"
  shows "off \<le> it_opcode_at i" "it_opcode_at i < off + it_length i" "it_opcode_at i < len code"
    "\<And>p. off \<le> p \<Longrightarrow> p < it_opcode_at i \<Longrightarrow> is_prefix_byte (code ! nat p)" "\<not> is_prefix_byte (code ! nat (it_opcode_at i))"
    "it_opcode i < 3840 \<Longrightarrow> it_opcode i = byte_int (code ! nat (it_opcode_at i))"
    "3840 \<le> it_opcode i \<Longrightarrow> it_opcode_at i + 1 < off + it_length i"
proof -
  obtain rep first where p: "flow_prefixes code (off + it_length i) off False = Inr (it_opcode_at i, rep)"
      "byte_at code (it_opcode_at i) = Inr first"
      "if first = 15 then it_opcode_at i + 1 < off + it_length i
            \<and> (\<exists>second. byte_at code (it_opcode_at i + 1) = Inr second \<and> it_opcode i = 3840 OR second)
          else it_opcode i = first"
    using relational_item_facts(3) [OF i] by blast
  have "off < off + it_length i" using relational_item_extent(3) [OF i] by simp
  note f = flow_prefixes_first [OF p(1) off this]
  then show "off \<le> it_opcode_at i" "it_opcode_at i < off + it_length i" "it_opcode_at i < len code"
    "\<And>p. off \<le> p \<Longrightarrow> p < it_opcode_at i \<Longrightarrow> is_prefix_byte (code ! nat p)" "\<not> is_prefix_byte (code ! nat (it_opcode_at i))"
    by auto
  have first: "first = byte_int (code ! nat (it_opcode_at i))" using p(2) f off by (simp add: byte_at_int)
  have big: "3840 \<le> (3840 OR second :: int)" if "byte_at code (it_opcode_at i + 1) = Inr second" for second
  proof -
    have "0 \<le> second" using that f off by (simp add: byte_at_int)
    then show ?thesis by (rule or_greater_eq)
  qed
  show "it_opcode i < 3840 \<Longrightarrow> it_opcode i = byte_int (code ! nat (it_opcode_at i))"
    using p(3) first big by (force split: if_splits)
  have "first < 3840" using first byte_int_less [of "code ! nat (it_opcode_at i)"] by linarith
  then show "3840 \<le> it_opcode i \<Longrightarrow> it_opcode_at i + 1 < off + it_length i" using p(3) by (auto split: if_splits)
qed


text \<open>The code is an initial part of the body.\<close>

definition prefix_code :: "bytes \<Rightarrow> bytes \<Rightarrow> bool" where
  "prefix_code code body = (\<exists>n \<le> length body. code = take n body)"

lemma prefix_code_nth: "prefix_code code body \<Longrightarrow> p < length code \<Longrightarrow> code ! p = body ! p"
  by (auto simp: prefix_code_def)

lemma prefix_code_length: "prefix_code code body \<Longrightarrow> length code \<le> length body"
  by (auto simp: prefix_code_def)

lemma item_index_range: "item_index items off = Some j \<Longrightarrow> 0 \<le> j \<and> j < len items"
  using item_index_found by blast

lemma relational_successors_range:
  assumes "relational_successors items ext (index, i) = Inr edges" "0 \<le> index"
  shows "list_all (\<lambda>e. 0 \<le> e \<and> e < len items) edges"
  using assms item_index_range [of items]
  by (auto simp: relational_successors_def Let_def list_all_iff List.map_filter_def split: if_splits option.splits)

text \<open>What the result of a walk says of the body.\<close>

lemma flow_walk:
  assumes "ia32_relational_flow_walk body relocations code_length ext = Inr (items, successors, entries)"
  obtains code where "prefix_code code body" "tiled_items 0 items (len code)"
    "\<forall>i \<in> set items. relational_item code relocations ext (it_offset i) = Inr i"
    "flow_graph (map flag_shim items) successors"
proof -
  define limit where "limit = (case code_length of None \<Rightarrow> len body | Some l \<Rightarrow> l)"
  have w: "0 < limit" "limit \<le> len body" "relational_items (pslice body 0 limit) relocations ext 0 = Inr items"
      "rmap (relational_successors items ext) (enumerate_int items) = Inr successors"
    using assms by (auto simp: ia32_relational_flow_walk_def Let_def limit_def)
  have "list_all (list_all (\<lambda>e. 0 \<le> e \<and> e < len items)) successors"
    using rmap_in_set [OF w(4)] relational_successors_range
    by (fastforce simp: list_all_iff [of _ successors] set_enumerate_int)
  moreover have "length successors = length items" using rmap_length [OF w(4)] by (simp add: enumerate_int_def)
  ultimately have "flow_graph (map flag_shim items) successors" by (simp add: flow_graph_def)
  moreover have "prefix_code (pslice body 0 limit) body"
    using w(1,2) by (auto simp: prefix_code_def pslice_nonneg intro!: exI [of _ "nat limit"])
  ultimately show ?thesis using that relational_items_tiled [OF w(3)] by blast
qed


lemma flag_liveness_exact:
  assumes w: "ia32_relational_flow_walk body relocations code_length ext = Inr (items, successors, entries)"
    and l: "ia32_relational_flag_liveness items successors = Inr live"
  shows "length live = length items"
    "\<forall>k < length items. \<forall>f. f \<in> live ! k \<longleftrightarrow> exposed (map flag_shim items) successors (\<lambda>_. None) f k"
proof -
  obtain code where r: "\<forall>i \<in> set items. relational_item code relocations ext (it_offset i) = Inr i"
    and g: "flow_graph (map flag_shim items) successors"
    using flow_walk [OF w] by blast
  have "finite arithmetic_flags" "card arithmetic_flags \<le> 20" by (simp_all add: arithmetic_flags_def)
  moreover have "bi_read_atoms (map flag_shim items ! j) \<subseteq> arithmetic_flags" if "j < length (map flag_shim items)" for j
    using relational_item_facts(1) [OF bspec [OF r nth_mem]] that by (simp add: flag_shim_def)
  ultimately obtain live' where "ia32_backward_liveness (map flag_shim items) successors (\<lambda>_. None) = Inr live'"
      "length live' = length items"
      "\<forall>k < length items. \<forall>f. f \<in> live' ! k \<longleftrightarrow> exposed (map flag_shim items) successors (\<lambda>_. None) f k"
    using backward_liveness_exact [OF g, of arithmetic_flags "\<lambda>_. None"] by auto
  then show "length live = length items"
    "\<forall>k < length items. \<forall>f. f \<in> live ! k \<longleftrightarrow> exposed (map flag_shim items) successors (\<lambda>_. None) f k"
    using l by (simp_all add: ia32_relational_flag_liveness_def)
qed

text \<open>Flags that are dead after an item: no path from a successor reads one before writing it.\<close>

definition dead_after :: "flow_item list \<Rightarrow> int list list \<Rightarrow> nat \<Rightarrow> string set \<Rightarrow> bool" where
  "dead_after items successors k flags =
     (\<forall>f \<in> flags. \<forall>e \<in> set (successors ! k). \<not> exposed (map flag_shim items) successors (\<lambda>_. None) f (nat e))"

lemma live_out_dead:
  assumes w: "ia32_relational_flow_walk body relocations code_length ext = Inr (items, successors, entries)"
    and l: "ia32_relational_flag_liveness items successors = Inr live"
    and o: "ia32_live_out live successors (int k) = Inr out" "out \<inter> flags = {}" and k: "k < length items"
  shows "dead_after items successors k flags"
proof -
  note live = flag_liveness_exact [OF w l]
  obtain code where g: "flow_graph (map flag_shim items) successors" using flow_walk [OF w] by blast
  have out: "out = (\<Union>e \<in> set (successors ! k). live ! nat e)"
    using live_out_graph [OF g, of k live] k live(1) o(1) by simp
  have "list_all (\<lambda>e. 0 \<le> e \<and> e < len items) (successors ! k)"
    using g k by (simp add: flow_graph_def list_all_length)
  then have "nat e < length items" if "e \<in> set (successors ! k)" for e using that by (auto simp: list_all_iff)
  then have "f \<in> out" if "e \<in> set (successors ! k)" "exposed (map flag_shim items) successors (\<lambda>_. None) f (nat e)" for e f
    using that out live(2) by blast
  then show ?thesis using o(2) by (auto simp: dead_after_def)
qed

end
