(* ===== verification/Relational_Form.thy ===== *)
theory Relational_Form
  imports Relational_Flow
begin

text \<open>
  The relational form of \<^verbatim>\<open>src/reprobit/classic/relational.py\<close> (\<^verbatim>\<open>apply_relational_form\<close>): the
  operands of a compare are exchanged and the branch after it is mirrored.  The flags the
  exchange changes must be dead after the branch.  Sites are typed, as the certificate
  validator leaves them; the report fields that repeat constants are left out.
\<close>

section \<open>The rewrite\<close>

record relational_site =
  rs_compare_offset :: int
  rs_branch_offset :: int
  rs_seed_condition :: string
  rs_image_condition :: string
  rs_reencode :: bool

record proved_site =
  pv_compare_offset :: int
  pv_branch_offset :: int
  pv_seed_condition :: string
  pv_image_condition :: string
  pv_seed_compare_opcode :: int
  pv_image_compare_opcode :: int
  pv_flags_live_out :: "string set"

text \<open>\<^verbatim>\<open>buffer[at] = value\<close> on a \<^verbatim>\<open>bytearray\<close>, for a value that fits a byte.\<close>

definition store_byte :: "bytes \<Rightarrow> int \<Rightarrow> int \<Rightarrow> bytes result" where
  "store_byte buf at v = rbind (item buf at) (\<lambda>_. Inr (buf[nat at := word_of_int v]))"

definition item_predecessors :: "int list list \<Rightarrow> int \<Rightarrow> int list" where
  "item_predecessors successors k =
     map fst (filter (\<lambda>(index, edges). k \<in> set edges) (enumerate_int successors))"

text \<open>The checks on one site before anything is written.\<close>

definition site_items ::
    "bytes \<Rightarrow> (int \<Rightarrow> relocation_target option) \<Rightarrow> flow_item list \<Rightarrow> int list list \<Rightarrow> relational_site \<Rightarrow>
     (int \<times> flow_item \<times> flow_item) result" where
  "site_items body relocations items successors site =
     (case (item_index items (rs_compare_offset site), item_index items (rs_branch_offset site)) of
        (Some compare_index, Some branch_index) \<Rightarrow>
          rbind (item items compare_index) (\<lambda>compare.
          rbind (item items branch_index) (\<lambda>branch.
          require (branch_index = compare_index + 1) ''the branch does not immediately follow the compare'' (
          require (map_of relational_compare_pairs (it_opcode compare) \<noteq> None)
            ''the instruction is not a two-operand cmp with a reversible encoding'' (
          require (it_flow compare = ''fall'') ''the compare is a control transfer'' (
          require (it_flow branch = ''jcc'' \<and> it_condition branch \<noteq> None)
            ''the instruction is not a conditional branch this table can mirror'' (
          require (item_predecessors successors branch_index = [compare_index])
            ''the branch has a predecessor other than its compare'' (
          rbind (decode_ia32_bijection_instruction body (rs_compare_offset site) relocations) (\<lambda>decoded.
          require (bi_opcode decoded = it_opcode compare \<and> bi_length decoded = it_length compare)
            ''the two decoders disagree about the compare'' (
          rbind (decode_ia32_bijection_instruction body (rs_branch_offset site) relocations) (\<lambda>_.
            Inr (branch_index, compare, branch)))))))))))
      | _ \<Rightarrow> Inl (ByteIdentityError ''an offset is not an instruction boundary''))"

definition branch_byte :: "flow_item \<Rightarrow> int" where
  "branch_byte branch = it_opcode_at branch + (if it_opcode branch \<ge> 3840 then 1 else 0)"

definition mirror_of :: "string \<Rightarrow> string option" where
  "mirror_of name = map_of relational_mirror name"

definition mirror_branch :: "bytes \<Rightarrow> int \<Rightarrow> string \<Rightarrow> bytes result" where
  "mirror_branch buf at image_name =
     rbind (byte_at buf at) (\<lambda>old.
     rbind (dict_item condition_codes image_name) (\<lambda>code.
       store_byte buf at (old AND 240 OR code)))"

text \<open>Writing one site: the compare's opcode, or the two register fields of its ModRM byte.\<close>

definition write_site ::
    "int set \<Rightarrow> relational_site \<Rightarrow> string \<Rightarrow> flow_item \<Rightarrow> flow_item \<Rightarrow> bytes \<Rightarrow> (bytes \<times> int list \<times> int) result" where
  "write_site relocation_offsets site image_name compare branch buf =
     (let compare_at = it_opcode_at compare; branch_at = branch_byte branch
      in require (compare_at \<notin> relocation_offsets \<and> branch_at \<notin> relocation_offsets)
           ''a rewritten byte overlaps a relocation'' (
         if rs_reencode site
         then let modrm_at = compare_at + 1
              in rbind (byte_at buf modrm_at) (\<lambda>modrm.
                 require (drop_bit 6 modrm = 3) ''reencode requires a register-direct compare'' (
                 require (modrm_at \<notin> relocation_offsets) ''a rewritten byte overlaps a relocation'' (
                 rbind (store_byte buf modrm_at (modrm AND 192 OR push_bit 3 (modrm AND 7) OR drop_bit 3 modrm AND 7)) (\<lambda>buf.
                 rbind (mirror_branch buf branch_at image_name) (\<lambda>buf.
                   Inr (buf, [modrm_at, branch_at], it_opcode compare))))))
         else rbind (dict_item relational_compare_pairs (it_opcode compare)) (\<lambda>pair.
              rbind (store_byte buf compare_at pair) (\<lambda>buf.
              rbind (mirror_branch buf branch_at image_name) (\<lambda>buf.
                Inr (buf, [compare_at, branch_at], pair))))))"

definition site_step ::
    "bytes \<Rightarrow> (int \<Rightarrow> relocation_target option) \<Rightarrow> int set \<Rightarrow> flow_item list \<Rightarrow> int list list \<Rightarrow> string set list \<Rightarrow>
     bytes \<times> int list \<times> proved_site list \<Rightarrow> relational_site \<Rightarrow> (bytes \<times> int list \<times> proved_site list) result" where
  "site_step body relocations relocation_offsets items successors live s site =
     (case s of (buf, rewritten, proved) \<Rightarrow>
       rbind (site_items body relocations items successors site) (\<lambda>(branch_index, compare, branch).
       let seed_name = condition_name (the (it_condition branch))
       in case mirror_of seed_name of
            None \<Rightarrow> Inl (ByteIdentityError ''condition has no mirror'')
          | Some image_name \<Rightarrow>
              require (rs_seed_condition site = seed_name \<and> rs_image_condition site = image_name)
                ''the declared condition pair is not the closed table's mirror'' (
              rbind (ia32_live_out live successors branch_index) (\<lambda>out.
              require (out \<inter> changed_flags = {}) ''the reversal changes a flag a successor of the branch reads'' (
              rbind (write_site relocation_offsets site image_name compare branch buf) (\<lambda>(buf, bytes, image_opcode).
                Inr (buf, rewritten @ bytes, proved @
                  [\<lparr>pv_compare_offset = rs_compare_offset site, pv_branch_offset = rs_branch_offset site,
                    pv_seed_condition = seed_name, pv_image_condition = image_name,
                    pv_seed_compare_opcode = it_opcode compare, pv_image_compare_opcode = image_opcode,
                    pv_flags_live_out = out\<rparr>])))))))"

definition require_entry_dead :: "string set list \<Rightarrow> unit \<Rightarrow> int \<Rightarrow> unit result" where
  "require_entry_dead live u entry =
     rbind (item live entry) (\<lambda>flags.
       require (flags \<inter> changed_flags = {}) ''an external entry has a changed flag live'' (Inr ()))"

text \<open>The image compared with its certificate.\<close>

definition image_site_ok :: "flow_item list \<Rightarrow> flow_item list \<Rightarrow> unit \<Rightarrow> proved_site \<Rightarrow> unit result" where
  "image_site_ok items image_items u pv =
     (case (item_index items (pv_compare_offset pv), item_index items (pv_branch_offset pv)) of
        (Some c, Some b) \<Rightarrow>
          rbind (item image_items c) (\<lambda>compare.
          require (it_opcode compare = pv_image_compare_opcode pv) ''the image compare opcode differs from its certificate'' (
          rbind (item image_items b) (\<lambda>branch.
          case it_condition branch of
            None \<Rightarrow> Inl KeyError
          | Some code \<Rightarrow>
              require (condition_name code = pv_image_condition pv) ''the image branch is not the mirrored condition''
                (Inr ()))))
      | _ \<Rightarrow> Inl KeyError)"

definition image_site_dead ::
    "flow_item list \<Rightarrow> int list list \<Rightarrow> string set list \<Rightarrow> unit \<Rightarrow> proved_site \<Rightarrow> unit result" where
  "image_site_dead items image_successors image_live u pv =
     (case item_index items (pv_branch_offset pv) of
        None \<Rightarrow> Inl KeyError
      | Some b \<Rightarrow>
          rbind (ia32_live_out image_live image_successors b) (\<lambda>out.
          require (out \<inter> changed_flags = {}) ''after the rewrite a successor of the branch reads a changed flag''
            (Inr ())))"

definition same_shape :: "flow_item \<Rightarrow> flow_item \<Rightarrow> bool" where
  "same_shape i j = (it_offset i = it_offset j \<and> it_length i = it_length j
     \<and> it_flow i = it_flow j \<and> it_target i = it_target j)"

definition byte_differences :: "bytes \<Rightarrow> bytes \<Rightarrow> int list" where
  "byte_differences xs ys = filter (\<lambda>k. xs ! nat k \<noteq> ys ! nat k) (pyrange 0 (len xs))"

text \<open>The checks of the finished image.\<close>

definition check_relational_image ::
    "bytes \<Rightarrow> bytes \<Rightarrow> (int \<Rightarrow> relocation_target option) \<Rightarrow> int option \<Rightarrow> int set \<Rightarrow>
     flow_item list \<Rightarrow> int list list \<Rightarrow> int list \<Rightarrow> nat \<Rightarrow> int list \<Rightarrow> proved_site list \<Rightarrow> int list result" where
  "check_relational_image body img relocations code_length external_entries items successors entries n rewritten proved =
     require (img \<noteq> body) ''the image does not move the body'' (
     let rewritten = sort (remdups rewritten)
     in require (length rewritten = 2 * n) ''two sites rewrite the same byte'' (
     require (set (byte_differences body img) \<subseteq> set rewritten) ''the image changed a byte no site declares'' (
     rbind (ia32_relational_flow_walk img relocations code_length external_entries) (\<lambda>(image_items, image_successors, image_entries).
     require (length image_items = length items \<and> list_all2 same_shape items image_items
        \<and> image_successors = successors \<and> image_entries = entries)
       ''the image does not re-decode to the same boundaries, flow and branch targets'' (
     rbind (rfold (image_site_ok items image_items) () proved) (\<lambda>_.
     rbind (ia32_relational_flag_liveness image_items image_successors) (\<lambda>image_live.
     rbind (rfold (image_site_dead items image_successors image_live) () proved) (\<lambda>_.
     rbind (rfold (require_entry_dead image_live) () (drop 1 image_entries)) (\<lambda>_.
       Inr rewritten)))))))))"

definition apply_relational_form ::
    "bytes \<Rightarrow> relational_site list \<Rightarrow> int set \<Rightarrow> (int \<Rightarrow> relocation_target option) \<Rightarrow> int option \<Rightarrow> int set \<Rightarrow>
     (bytes \<times> proved_site list \<times> int list) result" where
  "apply_relational_form body sites relocation_offsets relocations code_length external_entries =
     require (body \<noteq> []) ''body is empty'' (
     require (sites \<noteq> []) ''no site is declared'' (
     rbind (ia32_relational_flow_walk body relocations code_length external_entries) (\<lambda>(items, successors, entries).
     rbind (ia32_relational_flag_liveness items successors) (\<lambda>live.
     rbind (rfold (site_step body relocations relocation_offsets items successors live) (body, [], []) sites)
       (\<lambda>(img, rewritten, proved).
     rbind (rfold (require_entry_dead live) () (drop 1 entries)) (\<lambda>_.
     rbind (check_relational_image body img relocations code_length external_entries items successors entries
              (length sites) rewritten proved) (\<lambda>rewritten.
       Inr (img, proved, rewritten))))))))"


section \<open>What a compare and a branch do\<close>

text \<open>The flags \<^verbatim>\<open>cmp a, b\<close> sets, at any width.\<close>

definition compare_flags :: "'w::len word \<Rightarrow> 'w word \<Rightarrow> string \<Rightarrow> bool" where
  "compare_flags a b f =
     (if f = ''zf'' then a = b
      else if f = ''cf'' then a < b
      else if f = ''sf'' then sint (a - b) < 0
      else if f = ''of'' then sint a - sint b \<noteq> sint (a - b)
      else if f = ''pf'' then even (card {i. i < 8 \<and> bit (a - b) i})
      else if f = ''af'' then take_bit 4 a < take_bit 4 b
      else False)"

text \<open>The condition of a branch by its code.\<close>

definition condition_holds :: "int \<Rightarrow> (string \<Rightarrow> bool) \<Rightarrow> bool" where
  "condition_holds code f =
     [f ''of'', \<not> f ''of'', f ''cf'', \<not> f ''cf'', f ''zf'', \<not> f ''zf'', f ''cf'' \<or> f ''zf'', \<not> (f ''cf'' \<or> f ''zf''),
      f ''sf'', \<not> f ''sf'', f ''pf'', \<not> f ''pf'', f ''sf'' \<noteq> f ''of'', f ''sf'' = f ''of'',
      f ''zf'' \<or> f ''sf'' \<noteq> f ''of'', \<not> f ''zf'' \<and> f ''sf'' = f ''of''] ! nat code"

lemma signed_compare:
  fixes a b :: "'w::len word"
  shows "(sint (a - b) < 0) \<noteq> (sint a - sint b \<noteq> sint (a - b)) \<longleftrightarrow> sint a < sint b"
proof -
  define n where "n = LENGTH('w) - 1"
  define H :: int where "H = 2 ^ n"
  let ?d = "sint a - sint b" and ?s = "sint (a - b)"
  have H: "2 * H = 2 ^ Suc n" "0 < H" by (simp_all add: H_def)
  have r: "- H \<le> sint w" "sint w < H" for w :: "'w word"
    using sint_greater_eq [of w] sint_less [of w] by (simp_all add: H_def n_def)
  have "?s = signed_take_bit n ?d" by (simp add: n_def sint_word_ariths(2))
  then have "take_bit (Suc n) ?s = take_bit (Suc n) ?d" by (simp add: take_bit_signed_take_bit)
  then have "?s mod (2 * H) = ?d mod (2 * H)" by (simp add: take_bit_eq_mod H(1))
  then obtain k where k: "?s = ?d + 2 * H * k" by (metis mod_eq_dvd_iff dvd_def add.commute diff_add_cancel)
  have "k = 0 \<or> k = 1 \<or> k = - 1"
  proof (rule ccontr)
    assume "\<not> (k = 0 \<or> k = 1 \<or> k = - 1)"
    then have "2 \<le> k \<or> k \<le> - 2" by linarith
    then have "2 * H * 2 \<le> 2 * H * k \<or> 2 * H * k \<le> 2 * H * (- 2)"
      using H(2) by (metis mult_left_mono less_imp_le mult_pos_pos zero_less_numeral)
    then show False using k r [of a] r [of b] r [of "a - b"] by linarith
  qed
  then show ?thesis using k r [of a] r [of b] r [of "a - b"] H(2) by auto
qed

definition mirror_codes :: "(int \<times> int) list" where
  "mirror_codes = [(2, 7), (7, 2), (3, 6), (6, 3), (4, 4), (5, 5), (12, 15), (15, 12), (13, 14), (14, 13)]"

lemma mirror_code:
  assumes "0 \<le> c" "c < 16" "0 \<le> c'" "c' < 16" "mirror_of (condition_name c) = Some (condition_name c')"
  shows "(c, c') \<in> set mirror_codes"
proof -
  have "\<forall>j \<in> set [0..<16]. \<forall>k \<in> set [0..<16].
      mirror_of (condition_name (int j)) = Some (condition_name (int k)) \<longrightarrow> (int j, int k) \<in> set mirror_codes"
    by code_simp
  moreover have "nat c \<in> set [0..<16]" "nat c' \<in> set [0..<16]" using assms by auto
  ultimately have "mirror_of (condition_name (int (nat c))) = Some (condition_name (int (nat c'))) \<longrightarrow>
      (int (nat c), int (nat c')) \<in> set mirror_codes" by blast
  then show ?thesis using assms by simp
qed

text \<open>What the conditions after a compare say of its operands.\<close>

lemma compare_conditions:
  fixes a b :: "'w::len word"
  shows "condition_holds 2 (compare_flags a b) \<longleftrightarrow> a < b" "condition_holds 3 (compare_flags a b) \<longleftrightarrow> b \<le> a"
    "condition_holds 4 (compare_flags a b) \<longleftrightarrow> a = b" "condition_holds 5 (compare_flags a b) \<longleftrightarrow> a \<noteq> b"
    "condition_holds 6 (compare_flags a b) \<longleftrightarrow> a \<le> b" "condition_holds 7 (compare_flags a b) \<longleftrightarrow> b < a"
  by (auto simp: condition_holds_def compare_flags_def)

lemma signed_conditions:
  fixes a b :: "'w::len word"
  shows "condition_holds 12 (compare_flags a b) \<longleftrightarrow> sint a < sint b" "condition_holds 13 (compare_flags a b) \<longleftrightarrow> sint b \<le> sint a"
    "condition_holds 14 (compare_flags a b) \<longleftrightarrow> sint a \<le> sint b" "condition_holds 15 (compare_flags a b) \<longleftrightarrow> sint b < sint a"
proof -
  have e: "a = b \<longleftrightarrow> sint a = sint b" by (auto intro: signed_word_eqI)
  have c: "condition_holds 12 f \<longleftrightarrow> f ''sf'' \<noteq> f ''of''" "condition_holds 13 f \<longleftrightarrow> f ''sf'' = f ''of''"
    "condition_holds 14 f \<longleftrightarrow> f ''zf'' \<or> f ''sf'' \<noteq> f ''of''" "condition_holds 15 f \<longleftrightarrow> \<not> f ''zf'' \<and> f ''sf'' = f ''of''" for f
    by (simp_all add: condition_holds_def)
  have f: "(compare_flags a b ''sf'' \<noteq> compare_flags a b ''of'') \<longleftrightarrow> sint a < sint b" "compare_flags a b ''zf'' \<longleftrightarrow> a = b"
    using signed_compare [of a b] by (simp_all add: compare_flags_def)
  show "condition_holds 12 (compare_flags a b) \<longleftrightarrow> sint a < sint b" "condition_holds 13 (compare_flags a b) \<longleftrightarrow> sint b \<le> sint a"
    "condition_holds 14 (compare_flags a b) \<longleftrightarrow> sint a \<le> sint b" "condition_holds 15 (compare_flags a b) \<longleftrightarrow> sint b < sint a"
    unfolding c f(2) e using f(1) by linarith+
qed

text \<open>The mirrored condition of the exchanged compare decides as the original.\<close>

lemma mirror_decides:
  fixes a b :: "'w::len word"
  assumes "(c, c') \<in> set mirror_codes"
  shows "condition_holds c' (compare_flags b a) = condition_holds c (compare_flags a b)"
  using assms by (auto simp: mirror_codes_def compare_conditions signed_conditions)


section \<open>The operands of a compare\<close>

text \<open>
  The values a compare subtracts, first minus second, read off the bytes of the instruction:
  registers by width and number, memory by width, prefixes, the ModRM byte without its
  register field and the bytes after it; a memory operand may fault.
\<close>

definition modrm_of :: "bytes \<Rightarrow> flow_item \<Rightarrow> int" where
  "modrm_of code i = byte_int (code ! nat (it_opcode_at i + 1))"

definition compare_width :: "bytes \<Rightarrow> flow_item \<Rightarrow> int" where
  "compare_width code i =
     (if it_opcode i = 56 \<or> it_opcode i = 58 then 8
      else if 102 \<in> byte_int ` set (pslice code (it_offset i) (it_opcode_at i)) then 16 else 32)"

definition compare_values ::
    "(int \<Rightarrow> int \<Rightarrow> int) \<Rightarrow> (int \<Rightarrow> bytes \<Rightarrow> int \<Rightarrow> bytes \<Rightarrow> int option) \<Rightarrow> bytes \<Rightarrow> flow_item \<Rightarrow> (int \<times> int) option" where
  "compare_values rv mv code i =
     (let w = compare_width code i; m = modrm_of code i; r = rv w (drop_bit 3 m AND 7)
      in map_option (\<lambda>v. if it_opcode i = 56 \<or> it_opcode i = 57 then (v, r) else (r, v))
           (if drop_bit 6 m = 3 then Some (rv w (m AND 7))
            else mv w (pslice code (it_offset i) (it_opcode_at i)) (m AND 199)
                   (pslice code (it_opcode_at i + 2) (it_offset i + it_length i))))"

definition width_flags :: "int \<Rightarrow> int \<times> int \<Rightarrow> string \<Rightarrow> bool" where
  "width_flags w v =
     (if w = 8 then compare_flags (word_of_int (fst v) :: 8 word) (word_of_int (snd v))
      else if w = 16 then compare_flags (word_of_int (fst v) :: 16 word) (word_of_int (snd v))
      else compare_flags (word_of_int (fst v) :: 32 word) (word_of_int (snd v)))"

definition branch_taken :: "flow_item \<Rightarrow> (string \<Rightarrow> bool) \<Rightarrow> bool" where
  "branch_taken i f = (case it_condition i of None \<Rightarrow> False | Some c \<Rightarrow> condition_holds c f)"

definition swap_fields :: "int \<Rightarrow> int" where
  "swap_fields m = (m AND 192 OR push_bit 3 (m AND 7) OR drop_bit 3 m AND 7)"

lemma swap_fields_direct:
  assumes "0 \<le> m" "m < 256" "drop_bit 6 m = 3"
  shows "drop_bit 6 (swap_fields m) = 3" "swap_fields m AND 7 = drop_bit 3 m AND 7"
    "drop_bit 3 (swap_fields m) AND 7 = m AND 7" "0 \<le> swap_fields m" "swap_fields m < 256"
proof -
  have "\<forall>k \<in> set [0..<256]. drop_bit 6 (int k) = 3 \<longrightarrow>
      drop_bit 6 (swap_fields (int k)) = 3 \<and> swap_fields (int k) AND 7 = drop_bit 3 (int k) AND 7
      \<and> drop_bit 3 (swap_fields (int k)) AND 7 = int k AND 7 \<and> 0 \<le> swap_fields (int k) \<and> swap_fields (int k) < 256"
    by code_simp
  moreover have "nat m \<in> set [0..<256]" using assms by auto
  ultimately have "drop_bit 6 (int (nat m)) = 3 \<longrightarrow>
      drop_bit 6 (swap_fields (int (nat m))) = 3 \<and> swap_fields (int (nat m)) AND 7 = drop_bit 3 (int (nat m)) AND 7
      \<and> drop_bit 3 (swap_fields (int (nat m))) AND 7 = int (nat m) AND 7 \<and> 0 \<le> swap_fields (int (nat m)) \<and> swap_fields (int (nat m)) < 256"
    by blast
  then show "drop_bit 6 (swap_fields m) = 3" "swap_fields m AND 7 = drop_bit 3 m AND 7"
    "drop_bit 3 (swap_fields m) AND 7 = m AND 7" "0 \<le> swap_fields m" "swap_fields m < 256"
    using assms by simp_all
qed

section \<open>What is written\<close>

text \<open>One write: the index of its compare, the form, and the opcode of the image.\<close>

type_synonym site_write = "nat \<times> bool \<times> int"

definition write_bytes :: "flow_item list \<Rightarrow> site_write \<Rightarrow> int list" where
  "write_bytes items w = (case w of (k, reencode, op) \<Rightarrow>
     [it_opcode_at (items ! k) + (if reencode then 1 else 0), branch_byte (items ! Suc k)])"

text \<open>What the checks of a site establish.\<close>

definition write_ok ::
    "bytes \<Rightarrow> flow_item list \<Rightarrow> int list list \<Rightarrow> site_write \<Rightarrow> proved_site \<Rightarrow> bool" where
  "write_ok body items successors w pv =
     (case w of (k, reencode, op) \<Rightarrow>
        Suc k < length items \<and> it_offset (items ! k) = pv_compare_offset pv \<and> it_offset (items ! Suc k) = pv_branch_offset pv
        \<and> it_opcode (items ! k) \<in> {56, 57, 58, 59} \<and> it_flow (items ! k) = ''fall'' \<and> it_flow (items ! Suc k) = ''jcc''
        \<and> op = pv_image_compare_opcode pv
        \<and> (if reencode then op = it_opcode (items ! k) else map_of relational_compare_pairs (it_opcode (items ! k)) = Some op)
        \<and> (\<exists>c. it_condition (items ! Suc k) = Some c \<and> mirror_of (condition_name c) = Some (pv_image_condition pv))
        \<and> dead_after items successors (Suc k) changed_flags
        \<and> (\<forall>j < length successors. int (Suc k) \<in> set (successors ! j) \<longrightarrow> j = k))"

text \<open>The byte of the compare as it was written.\<close>

definition written :: "bytes \<Rightarrow> flow_item list \<Rightarrow> bytes \<Rightarrow> site_write \<Rightarrow> bool" where
  "written body items buf w =
     (case w of (k, reencode, op) \<Rightarrow>
        if reencode then drop_bit 6 (modrm_of body (items ! k)) = 3
          \<and> modrm_of buf (items ! k) = swap_fields (modrm_of body (items ! k))
        else byte_int (buf ! nat (it_opcode_at (items ! k))) = op)"

definition write_state ::
    "bytes \<Rightarrow> flow_item list \<Rightarrow> int list list \<Rightarrow> bytes \<times> int list \<times> proved_site list \<Rightarrow> site_write list \<Rightarrow> bool" where
  "write_state body items successors s ws =
     (case s of (buf, rewritten, proved) \<Rightarrow>
        length buf = length body \<and> rewritten = concat (map (write_bytes items) ws)
        \<and> list_all2 (write_ok body items successors) ws proved
        \<and> (\<forall>p. int p \<notin> set rewritten \<longrightarrow> buf ! p = body ! p)
        \<and> (distinct rewritten \<longrightarrow> (\<forall>w \<in> set ws. written body items buf w)))"

lemma store_byte_Inr:
  "0 \<le> at \<Longrightarrow> store_byte buf at v = Inr r \<longleftrightarrow> at < len buf \<and> r = buf[nat at := word_of_int v]"
  by (auto simp: store_byte_def item_def split: if_splits)

lemma mirror_branch_Inr:
  "0 \<le> at \<Longrightarrow> mirror_branch buf at name = Inr r \<Longrightarrow> \<exists>v. at < len buf \<and> r = buf[nat at := v]"
  by (auto simp: mirror_branch_def store_byte_Inr)

lemma compare_pairs:
  assumes "map_of relational_compare_pairs op = Some v"
  shows "op \<in> {56, 57, 58, 59}" "v \<in> {56, 57, 58, 59}" "v = 56 \<or> v = 57 \<longleftrightarrow> \<not> (op = 56 \<or> op = 57)"
  using assms by (auto simp: relational_compare_pairs_def split: if_splits)

lemma small_byte: "v \<in> {56, 57, 58, 59} \<Longrightarrow> byte_int (word_of_int v) = v"
  by auto


lemma write_site_effect:
  assumes w: "write_site relocation_offsets site name (items ! k) (items ! Suc k) buf = Inr (buf', bs, op)"
    and at: "0 \<le> it_opcode_at (items ! k)" "0 \<le> branch_byte (items ! Suc k)"
  defines "v \<equiv> (k, rs_reencode site, op)"
  shows "bs = write_bytes items v" "length buf' = length buf" "\<And>p. int p \<notin> set bs \<Longrightarrow> buf' ! p = buf ! p"
    "if rs_reencode site then op = it_opcode (items ! k) else map_of relational_compare_pairs (it_opcode (items ! k)) = Some op"
    "distinct bs \<Longrightarrow> modrm_of buf (items ! k) = modrm_of body (items ! k) \<Longrightarrow> written body items buf' v"
proof -
  let ?c = "it_opcode_at (items ! k)" and ?b = "branch_byte (items ! Suc k)"
  have "bs = write_bytes items v \<and> length buf' = length buf \<and> (\<forall>p. int p \<notin> set bs \<longrightarrow> buf' ! p = buf ! p)
    \<and> (if rs_reencode site then op = it_opcode (items ! k) else map_of relational_compare_pairs (it_opcode (items ! k)) = Some op)
    \<and> (distinct bs \<longrightarrow> modrm_of buf (items ! k) = modrm_of body (items ! k) \<longrightarrow> written body items buf' v)"
  proof (cases "rs_reencode site")
    case True
    obtain m buf1 where m: "byte_at buf (?c + 1) = Inr m" "drop_bit 6 m = 3"
        "store_byte buf (?c + 1) (swap_fields m) = Inr buf1" "mirror_branch buf1 ?b name = Inr buf'"
        "bs = [?c + 1, ?b]" "op = it_opcode (items ! k)"
      using w True by (auto simp: write_site_def Let_def swap_fields_def)
    have mb: "?c + 1 < len buf" "m = byte_int (buf ! nat (?c + 1))" using m(1) at(1) by (simp_all add: byte_at_int)
    have b1: "buf1 = buf[nat (?c + 1) := word_of_int (swap_fields m)]" using m(3) at(1) by (simp add: store_byte_Inr)
    obtain x where x: "buf' = buf1[nat ?b := x]" using mirror_branch_Inr [OF at(2) m(4)] by blast
    have swap: "byte_int (word_of_int (swap_fields m)) = swap_fields m"
      using swap_fields_direct(4,5) [of m] mb(2) m(2) byte_int_less [of "buf ! nat (?c + 1)"]
      by (simp add: uint_word_of_int)
    have "nat ?b \<noteq> nat (?c + 1)" if "distinct bs" using that m(5) at by auto
    then show ?thesis
      using True m at mb b1 x swap
      by (auto simp: v_def write_bytes_def written_def modrm_of_def nth_list_update)
  next
    case False
    obtain buf1 where m: "map_of relational_compare_pairs (it_opcode (items ! k)) = Some op"
        "store_byte buf ?c op = Inr buf1" "mirror_branch buf1 ?b name = Inr buf'" "bs = [?c, ?b]"
      using w False by (auto simp: write_site_def Let_def dict_item_def split: option.splits)
    have b1: "?c < len buf" "buf1 = buf[nat ?c := word_of_int op]" using m(2) at(1) by (simp_all add: store_byte_Inr)
    obtain x where x: "buf' = buf1[nat ?b := x]" using mirror_branch_Inr [OF at(2) m(3)] by blast
    have "nat ?b \<noteq> nat ?c" if "distinct bs" using that m(4) at by auto
    then show ?thesis
      using False m at b1 x small_byte [OF compare_pairs(2) [OF m(1)]]
      by (auto simp: v_def write_bytes_def written_def nth_list_update)
  qed
  then show "bs = write_bytes items v" "length buf' = length buf" "\<And>p. int p \<notin> set bs \<Longrightarrow> buf' ! p = buf ! p"
    "if rs_reencode site then op = it_opcode (items ! k) else map_of relational_compare_pairs (it_opcode (items ! k)) = Some op"
    "distinct bs \<Longrightarrow> modrm_of buf (items ! k) = modrm_of body (items ! k) \<Longrightarrow> written body items buf' v"
    by blast+
qed

lemma sole_predecessor:
  assumes "item_predecessors successors k = [c]" "j < length successors" "k \<in> set (successors ! j)"
  shows "j = nat c"
proof -
  have "int j \<in> set (item_predecessors successors k)"
    using assms(2,3) by (force simp: item_predecessors_def set_enumerate_int)
  then show ?thesis using assms(1) by simp
qed

lemma site_items_Inr:
  assumes "site_items body relocations items successors site = Inr (b, compare, branch)"
  obtains k where "Suc k < length items" "b = int (Suc k)" "compare = items ! k" "branch = items ! Suc k"
    "it_offset (items ! k) = rs_compare_offset site" "it_offset (items ! Suc k) = rs_branch_offset site"
    "it_opcode (items ! k) \<in> {56, 57, 58, 59}" "it_flow (items ! k) = ''fall''"
    "it_flow (items ! Suc k) = ''jcc''" "it_condition (items ! Suc k) \<noteq> None"
    "\<forall>j < length successors. int (Suc k) \<in> set (successors ! j) \<longrightarrow> j = k"
proof -
  obtain c d where s: "item_index items (rs_compare_offset site) = Some c" "item_index items (rs_branch_offset site) = Some b"
      "item items c = Inr compare" "item items b = Inr branch" "b = c + 1"
      "map_of relational_compare_pairs (it_opcode compare) = Some d" "it_flow compare = ''fall''"
      "it_flow branch = ''jcc''" "it_condition branch \<noteq> None" "item_predecessors successors b = [c]"
    using assms by (auto simp: site_items_def split: option.splits)
  have c: "0 \<le> c" "c < len items" "it_offset (items ! nat c) = rs_compare_offset site"
    and b: "b < len items" "it_offset (items ! nat b) = rs_branch_offset site"
    using item_index_found [OF s(1)] item_index_found [OF s(2)] by simp_all
  have n: "nat b = Suc (nat c)" "int (Suc (nat c)) = b" using s(5) c(1) by simp_all
  then have "j = nat c" if "j < length successors" "int (Suc (nat c)) \<in> set (successors ! j)" for j
    using sole_predecessor [OF s(10) that(1)] that(2) by simp
  then show ?thesis
    using that [of "nat c"] s c b n compare_pairs(1) [OF s(6)] by (simp add: item_in_range)
qed

lemma site_step_state:
  assumes step: "site_step body relocations relocation_offsets items successors live s site = Inr t"
    and ok: "write_state body items successors s ws"
    and w: "ia32_relational_flow_walk body relocations code_length ext = Inr (items, successors, entries)"
    and l: "ia32_relational_flag_liveness items successors = Inr live"
  shows "\<exists>v. write_state body items successors t (ws @ [v])"
proof -
  obtain buf rewritten proved where s: "s = (buf, rewritten, proved)" by (cases s)
  obtain b compare branch image_name out buf' bs op where
    si: "site_items body relocations items successors site = Inr (b, compare, branch)"
    and mi: "mirror_of (condition_name (the (it_condition branch))) = Some image_name"
    and out: "ia32_live_out live successors b = Inr out" "out \<inter> changed_flags = {}"
    and wr: "write_site relocation_offsets site image_name compare branch buf = Inr (buf', bs, op)"
    and t: "t = (buf', rewritten @ bs, proved @
      [\<lparr>pv_compare_offset = rs_compare_offset site, pv_branch_offset = rs_branch_offset site,
        pv_seed_condition = condition_name (the (it_condition branch)), pv_image_condition = image_name,
        pv_seed_compare_opcode = it_opcode compare, pv_image_compare_opcode = op, pv_flags_live_out = out\<rparr>])"
    using step unfolding s site_step_def by (auto simp: Let_def split: option.split_asm)
  obtain k where k: "Suc k < length items" "b = int (Suc k)" "compare = items ! k" "branch = items ! Suc k"
    "it_offset (items ! k) = rs_compare_offset site" "it_offset (items ! Suc k) = rs_branch_offset site"
    "it_opcode (items ! k) \<in> {56, 57, 58, 59}" "it_flow (items ! k) = ''fall''"
    "it_flow (items ! Suc k) = ''jcc''" "it_condition (items ! Suc k) \<noteq> None"
    "\<forall>j < length successors. int (Suc k) \<in> set (successors ! j) \<longrightarrow> j = k"
    using site_items_Inr [OF si] by blast
  obtain code where code: "tiled_items 0 items (len code)" "\<forall>i \<in> set items. relational_item code relocations ext (it_offset i) = Inr i"
    using flow_walk [OF w] by blast
  have at: "0 \<le> it_opcode_at (items ! j)" if "j < length items" for j
    using relational_item_opcode(1) [OF bspec [OF code(2) nth_mem [OF that]]] tiled_bounds [OF code(1) nth_mem [OF that]] by linarith
  have a: "0 \<le> it_opcode_at (items ! k)" "0 \<le> branch_byte (items ! Suc k)"
    using at [of k] at [of "Suc k"] k(1) by (simp_all add: branch_byte_def)
  note e = write_site_effect [OF wr [unfolded k(3,4)] a]
  let ?v = "(k, rs_reencode site, op)"
  have dead: "dead_after items successors (Suc k) changed_flags" using live_out_dead [OF w l out(1) [unfolded k(2)] out(2)] k(1) by simp
  have st: "length buf = length body" "rewritten = concat (map (write_bytes items) ws)"
      "list_all2 (write_ok body items successors) ws proved" "\<And>p. int p \<notin> set rewritten \<Longrightarrow> buf ! p = body ! p"
      "distinct rewritten \<Longrightarrow> \<forall>w \<in> set ws. written body items buf w"
    using ok by (auto simp: write_state_def s)
  have keep: "written body items buf' v" if d: "distinct (rewritten @ bs)" and v: "v \<in> set ws" for v
  proof -
    obtain j re o' where vj: "v = (j, re, o')" by (cases v)
    have "hd (write_bytes items v) \<in> set rewritten" using v st(2) by (auto simp: write_bytes_def split: prod.splits)
    then have "hd (write_bytes items v) \<notin> set bs" using d by auto
    then have "it_opcode_at (items ! j) + (if re then 1 else 0) \<notin> set bs" by (simp add: write_bytes_def vj)
    moreover have "j < length items" using v st(3) by (auto simp: list_all2_conv_all_nth in_set_conv_nth write_ok_def vj)
    ultimately have "buf' ! nat (it_opcode_at (items ! j) + (if re then 1 else 0)) = buf ! nat (it_opcode_at (items ! j) + (if re then 1 else 0))"
      using e(3) [of "nat (it_opcode_at (items ! j) + (if re then 1 else 0))"] at by simp
    then show ?thesis using st(5) d v by (auto simp: written_def vj modrm_of_def split: if_splits)
  qed
  have new: "written body items buf' ?v" if d: "distinct (rewritten @ bs)"
  proof (cases "rs_reencode site")
    case True
    then have "it_opcode_at (items ! k) + 1 \<in> set bs" using e(1) by (simp add: write_bytes_def)
    then have "buf ! nat (it_opcode_at (items ! k) + 1) = body ! nat (it_opcode_at (items ! k) + 1)"
      using d a(1) st(4) [of "nat (it_opcode_at (items ! k) + 1)"] by auto
    then show ?thesis using e(5) d by (simp add: modrm_of_def)
  next
    case False
    then show ?thesis
      using write_site_effect(5) [OF wr [unfolded k(3,4)] a, of buf] d by (simp add: written_def)
  qed
  have "write_ok body items successors ?v \<lparr>pv_compare_offset = rs_compare_offset site, pv_branch_offset = rs_branch_offset site,
        pv_seed_condition = condition_name (the (it_condition branch)), pv_image_condition = image_name,
        pv_seed_compare_opcode = it_opcode compare, pv_image_compare_opcode = op, pv_flags_live_out = out\<rparr>"
    using k e(4) mi dead by (auto simp: write_ok_def)
  then have "write_state body items successors t (ws @ [?v])"
    unfolding write_state_def t using st e(1,2,3) keep new by (auto simp: list_all2_appendI)
  then show ?thesis by blast
qed

end
