(* ===== verification/Relational_Soundness.thy ===== *)
theory Relational_Soundness
  imports Relational_Form
begin

text \<open>
  What acceptance of a relational form establishes: the image decodes to the same boundaries,
  flow and targets, differs from the body only in the written bytes, and at every site it holds
  the compare with its operands exchanged and the branch with its condition mirrored.
\<close>

section \<open>A compare holds its ModRM byte\<close>

lemma prefix_loop_first:
  assumes "prefix_loop e c op16 seen = Inr (d, op')" "d < c + len e"
  shows "c \<le> d \<and> (\<forall>p. c \<le> p \<and> p < d \<longrightarrow> byte_int (e ! nat (p - c)) \<in> set prefixes) \<and> byte_int (e ! nat (d - c)) \<notin> set prefixes"
  using assms
proof (induction e c op16 seen rule: prefix_loop.induct)
  case (2 b rest c op16 seen)
  show ?case
  proof (cases "byte_int b \<in> set prefixes")
    case True
    then have "c + 1 \<le> d \<and> (\<forall>p. c + 1 \<le> p \<and> p < d \<longrightarrow> byte_int (rest ! nat (p - (c + 1))) \<in> set prefixes)
        \<and> byte_int (rest ! nat (d - (c + 1))) \<notin> set prefixes"
      using 2 by (simp split: if_splits)
    moreover have "(b # rest) ! nat (p - c) = rest ! nat (p - (c + 1))" if "c + 1 \<le> p" for p
    proof -
      have "nat (p - c) = Suc (nat (p - (c + 1)))" using that by simp
      then show ?thesis by simp
    qed
    moreover have "byte_int ((b # rest) ! nat (p - c)) \<in> set prefixes" if "p = c" for p using True that by simp
    ultimately show ?thesis by (metis add1_zle_eq order_le_less order_less_imp_le)
  next
    case False
    then show ?thesis using 2 by auto
  qed
qed simp

lemma flow_prefix: "is_prefix_byte b \<Longrightarrow> byte_int b \<in> set prefixes"
  by (auto simp: is_prefix_byte_def relational_prefixes_def repeat_prefixes_def prefixes_def)

lemma compare_operands: "v \<in> {56, 57, 58, 59} \<Longrightarrow> one_byte_table v = Some [M]"
proof -
  have "one_byte_table 56 = Some [M]" "one_byte_table 57 = Some [M]" "one_byte_table 58 = Some [M]" "one_byte_table 59 = Some [M]"
    by code_simp+
  then show "v \<in> {56, 57, 58, 59} \<Longrightarrow> one_byte_table v = Some [M]" by auto
qed

lemma compare_modrm_inside:
  assumes i: "relational_item code relocations ext off = Inr i" and off: "0 \<le> off"
    and op: "it_opcode i \<in> {56, 57, 58, 59}"
  shows "it_opcode_at i + 1 < off + it_length i"
proof -
  let ?e = "slice_from code off"
  note o = relational_item_opcode [OF i off]
  have e: "?e ! nat (p - off) = code ! nat p" "len ?e = len code - off" if "off \<le> p" "p < len code" for p
    using off that by (simp_all add: slice_from_def slice_bound_def nat_diff_distrib)
  have b: "byte_int (code ! nat (it_opcode_at i)) = it_opcode i" using o(6) op by auto
  obtain c op16 ops c2 m where c: "prefix_loop ?e 0 False [] = Inr (c, op16)" "0 \<le> c" "c < len ?e"
      "decode_opcode ?e c = Inr (ops, c2)" "rfold (operand_step ?e op16) (c2, 0) ops = Inr (it_length i, m)"
    using supported_length_cases [OF relational_item_extent(2) [OF i]] by metis
  have len: "len ?e = len code - off" using e(2) o(1,3) by blast
  have f: "\<And>p. 0 \<le> p \<Longrightarrow> p < c \<Longrightarrow> byte_int (?e ! nat p) \<in> set prefixes" "byte_int (?e ! nat c) \<notin> set prefixes"
    using prefix_loop_first [OF c(1)] c(3) by simp_all
  have "\<not> c < it_opcode_at i - off"
    using o(4) [of "off + c"] c(2,3) f(2) e(1) [of "off + c"] flow_prefix len by auto
  moreover have "\<not> it_opcode_at i - off < c"
    using f(1) [of "it_opcode_at i - off"] o(1,3) e(1) [of "it_opcode_at i"] b op by (auto simp: prefixes_def)
  ultimately have cat: "c = it_opcode_at i - off" by simp
  have "byte_at ?e c = Inr (it_opcode i)" using c(2,3) cat e(1) [of "it_opcode_at i"] o(1,3) b by (simp add: byte_at_int)
  then have "ops = [M]" "c2 = c + 1" using c(4) op compare_operands [OF op] by (auto simp: decode_opcode_def)
  then have "c + 2 \<le> it_length i" using c(5) by (auto simp: modrm_operand_def Let_def split: if_splits)
  then show ?thesis using cat by simp
qed

section \<open>Where the image differs\<close>

lemma sites_written:
  assumes w: "ia32_relational_flow_walk body relocations code_length ext = Inr (items, successors, entries)"
    and l: "ia32_relational_flag_liveness items successors = Inr live"
    and f: "rfold (site_step body relocations relocation_offsets items successors live) s sites = Inr t"
    and s: "write_state body items successors s ws"
  shows "\<exists>vs. length vs = length sites \<and> write_state body items successors t (ws @ vs)"
  using f s
proof (induction sites arbitrary: s ws)
  case (Cons site sites)
  obtain u where u: "site_step body relocations relocation_offsets items successors live s site = Inr u"
      "rfold (site_step body relocations relocation_offsets items successors live) u sites = Inr t"
    using Cons.prems(1) by auto
  obtain v where "write_state body items successors u (ws @ [v])" using site_step_state [OF u(1) Cons.prems(2) w l] by blast
  from Cons.IH [OF u(2) this] show ?case by (metis append.assoc append_Cons append_Nil length_Cons)
qed simp

lemma writes_length: "length (concat (map (write_bytes items) ws)) = 2 * length ws"
  by (induction ws) (auto simp: write_bytes_def split: prod.splits)

lemma remdups_full: "length (remdups xs) = length xs \<Longrightarrow> distinct xs"
  by (metis distinct_remdups length_remdups_eq remdups_id_iff_distinct)

text \<open>The byte of the compare and of the branch that a write changes.\<close>

definition compare_byte :: "flow_item list \<Rightarrow> site_write \<Rightarrow> int" where
  "compare_byte items w = it_opcode_at (items ! fst w) + (if fst (snd w) then 1 else 0)"

lemma write_bytes_pair: "write_bytes items w = [compare_byte items w, branch_byte (items ! Suc (fst w))]"
  by (simp add: write_bytes_def compare_byte_def split: prod.split)

definition item_bytes :: "flow_item \<Rightarrow> int set" where
  "item_bytes i = {it_offset i..<it_offset i + it_length i}"

lemma write_inside:
  assumes t: "tiled_items 0 items stop" and r: "\<forall>i \<in> set items. relational_item code relocations ext (it_offset i) = Inr i"
    and ok: "write_ok body items successors w pv"
  shows "compare_byte items w \<in> item_bytes (items ! fst w)"
    "branch_byte (items ! Suc (fst w)) \<in> item_bytes (items ! Suc (fst w))"
    "0 \<le> compare_byte items w"
proof -
  obtain k re op where w: "w = (k, re, op)" by (cases w)
  have k: "Suc k < length items" "it_opcode (items ! k) \<in> {56, 57, 58, 59}" using ok by (simp_all add: write_ok_def w)
  have i: "relational_item code relocations ext (it_offset (items ! j)) = Inr (items ! j)" "0 \<le> it_offset (items ! j)"
    if "j < length items" for j
    using that r tiled_bounds [OF t nth_mem [OF that]] by auto
  have k1: "k < length items" using k by simp
  show "compare_byte items w \<in> item_bytes (items ! fst w)"
    using relational_item_opcode(1,2) [OF i [OF k1]] compare_modrm_inside [OF i [OF k1] k(2)]
    by (simp add: compare_byte_def item_bytes_def w)
  show "branch_byte (items ! Suc (fst w)) \<in> item_bytes (items ! Suc (fst w))"
    using relational_item_opcode(1,2,7) [OF i [OF k(1)]] by (auto simp: branch_byte_def item_bytes_def w)
  show "0 \<le> compare_byte items w"
    using relational_item_opcode(1) [OF i [OF k1]] i(2) [OF k1] by (simp add: compare_byte_def w)
qed

lemma items_apart:
  assumes "tiled_items off items stop" "j < length items" "k < length items" "p \<in> item_bytes (items ! j)" "p \<in> item_bytes (items ! k)"
  shows "j = k"
  using tiled_items_apart [OF assms(1-3)] assms(4,5) by (auto simp: item_bytes_def)

text \<open>A byte of an item differs only if a write of this item changed it.\<close>

lemma changed_byte:
  assumes t: "tiled_items 0 items stop" and r: "\<forall>i \<in> set items. relational_item code relocations ext (it_offset i) = Inr i"
    and st: "write_state body items successors (img, rewritten, proved) ws"
    and m: "m < length items" "p \<in> item_bytes (items ! m)" "img ! nat p \<noteq> body ! nat p"
  shows "\<exists>w \<in> set ws. fst w = m \<and> p = compare_byte items w \<or> Suc (fst w) = m \<and> p = branch_byte (items ! m)"
proof -
  have p: "0 \<le> p" using m(2) tiled_bounds [OF t nth_mem [OF m(1)]] by (simp add: item_bytes_def)
  then have "p \<in> set rewritten" using st m(3) by (force simp: write_state_def)
  then obtain w where w: "w \<in> set ws" "p = compare_byte items w \<or> p = branch_byte (items ! Suc (fst w))"
    using st by (auto simp: write_state_def write_bytes_pair)
  obtain pv where ok: "write_ok body items successors w pv"
    using st w(1) by (auto simp: write_state_def list_all2_conv_all_nth in_set_conv_nth)
  then have k: "fst w < length items" "Suc (fst w) < length items" by (auto simp: write_ok_def split: prod.splits)
  show ?thesis
    using w write_inside(1,2) [OF t r ok] items_apart [OF t m(1) k(1) m(2)] items_apart [OF t m(1) k(2) m(2)] by auto
qed

lemma concat_apart:
  assumes "distinct (concat (map f xs))" "x \<in> set xs" "y \<in> set xs" "x \<noteq> y"
  shows "set (f x) \<inter> set (f y) = {}"
  using assms by (induction xs) auto

lemma compare_changed:
  assumes t: "tiled_items 0 items stop" and r: "\<forall>i \<in> set items. relational_item code relocations ext (it_offset i) = Inr i"
    and st: "write_state body items successors (img, rewritten, proved) ws" and d: "distinct rewritten"
    and w: "w \<in> set ws" "write_ok body items successors w pv"
    and p: "p \<in> item_bytes (items ! fst w)" "p \<noteq> compare_byte items w"
  shows "img ! nat p = body ! nat p"
proof (rule ccontr)
  assume n: "img ! nat p \<noteq> body ! nat p"
  have k: "fst w < length items" "it_flow (items ! fst w) = ''fall''" using w(2) by (auto simp: write_ok_def split: prod.splits)
  obtain v where v: "v \<in> set ws" "fst v = fst w \<and> p = compare_byte items v \<or> Suc (fst v) = fst w"
    using changed_byte [OF t r st k(1) p(1) n] by blast
  obtain pv' where "write_ok body items successors v pv'"
    using st v(1) by (auto simp: write_state_def list_all2_conv_all_nth in_set_conv_nth)
  then have "it_flow (items ! Suc (fst v)) = ''jcc''" by (auto simp: write_ok_def split: prod.splits)
  then have v2: "fst v = fst w" "p = compare_byte items v" using v(2) k(2) by auto
  have "branch_byte (items ! Suc (fst w)) \<in> set (write_bytes items v) \<inter> set (write_bytes items w)"
    using v2(1) by (simp add: write_bytes_pair)
  moreover have "distinct (concat (map (write_bytes items) ws))" using st d by (simp add: write_state_def)
  ultimately have "v = w" using concat_apart [of "write_bytes items" ws v w] v(1) w(1) by blast
  then show False using v2 p(2) by simp
qed

section \<open>The exchanged compare\<close>

text \<open>The opcode of two decodings of the same extent stands at the same place if the prefixes agree.\<close>

lemma same_opcode_at:
  assumes i: "relational_item code relocations ext off = Inr i" and j: "relational_item code' relocations ext off = Inr j"
    and off: "0 \<le> off" and len: "it_length i = it_length j"
    and pre: "\<And>p. off \<le> p \<Longrightarrow> p < it_opcode_at i \<Longrightarrow> code' ! nat p = code ! nat p"
    and at: "\<not> is_prefix_byte (code' ! nat (it_opcode_at i))"
  shows "it_opcode_at j = it_opcode_at i"
proof (rule ccontr)
  note a = relational_item_opcode [OF i off] and b = relational_item_opcode [OF j off]
  assume "it_opcode_at j \<noteq> it_opcode_at i"
  then consider "it_opcode_at j < it_opcode_at i" | "it_opcode_at i < it_opcode_at j" by linarith
  then show False
  proof cases
    case 1
    then show ?thesis using a(4) [OF b(1) 1] b(5) pre [OF b(1) 1] by simp
  next
    case 2
    then show ?thesis using b(4) [OF a(1) 2] at by simp
  qed
qed

lemma compare_not_prefix: "byte_int b \<in> {56, 57, 58, 59} \<Longrightarrow> \<not> is_prefix_byte b"
  by (auto simp: is_prefix_byte_def relational_prefixes_def repeat_prefixes_def)

lemma compare_exchanged:
  assumes i: "relational_item code relocations ext off = Inr i" "prefix_code code body"
    and j: "relational_item code' relocations ext off = Inr j" "prefix_code code' img"
    and off: "0 \<le> off" and len: "it_length i = it_length j" and lens: "length img = length body"
    and op: "it_opcode i \<in> {56, 57, 58, 59}"
    and re: "if reencode then it_opcode j = it_opcode i \<and> drop_bit 6 (modrm_of body i) = 3 \<and> modrm_of img i = swap_fields (modrm_of body i)
      else map_of relational_compare_pairs (it_opcode i) = Some (it_opcode j) \<and> byte_int (img ! nat (it_opcode_at i)) = it_opcode j"
    and same: "\<And>p. p \<in> item_bytes i \<Longrightarrow> p \<noteq> it_opcode_at i + (if reencode then 1 else 0) \<Longrightarrow> img ! nat p = body ! nat p"
  shows "compare_values rv mv img j = map_option prod.swap (compare_values rv mv body i)" "it_opcode_at j = it_opcode_at i"
    "compare_width img j = compare_width body i"
proof -
  note a = relational_item_opcode [OF i(1) off] and b = relational_item_opcode [OF j(1) off]
  have inside: "it_opcode_at i + 1 < off + it_length i" by (rule compare_modrm_inside [OF i(1) off op])
  have ext: "it_offset i = off" "it_offset j = off" "off + it_length i \<le> len code" "off + it_length j \<le> len code'"
    using relational_item_extent(1) [OF i(1)] relational_item_extent(1) [OF j(1)]
      supported_length_bounds [OF relational_item_extent(2) [OF i(1)]] supported_length_bounds [OF relational_item_extent(2) [OF j(1)]] off
      a(1,3) b(1,3) by (auto simp: slice_from_def slice_bound_def)
  have code: "code ! nat p = body ! nat p" "code' ! nat p = img ! nat p" if "off \<le> p" "p < off + it_length i" for p
    using prefix_code_nth [OF i(2), of "nat p"] prefix_code_nth [OF j(2), of "nat p"] that ext(3,4) len off by auto
  have "byte_int (img ! nat (it_opcode_at i)) \<in> {56, 57, 58, 59}"
  proof (cases reencode)
    case True
    then have "img ! nat (it_opcode_at i) = code ! nat (it_opcode_at i)"
      using same [of "it_opcode_at i"] code(1) [OF a(1,2)] a(1,2) ext(1) by (simp add: item_bytes_def)
    then show ?thesis using a(6) op by auto
  next
    case False
    then show ?thesis using re compare_pairs(2) by auto
  qed
  then have np: "\<not> is_prefix_byte (code' ! nat (it_opcode_at i))" using compare_not_prefix code(2) [OF a(1,2)] by simp
  have pre: "code' ! nat p = code ! nat p" if "off \<le> p" "p < it_opcode_at i" for p
    using same [of p] code [of p] that a(2) ext(1) by (simp add: item_bytes_def)
  show at: "it_opcode_at j = it_opcode_at i" by (rule same_opcode_at [OF i(1) j(1) off len pre np])
  have m: "modrm_of img j = modrm_of img i" using at by (simp add: modrm_of_def)
  have s: "img ! p = body ! p" if "off \<le> int p" "int p < off + it_length i" "int p \<noteq> it_opcode_at i + (if reencode then 1 else 0)" for p
    using same [of "int p"] that ext(1) by (simp add: item_bytes_def)
  have front: "pslice img off (it_opcode_at i) = pslice body off (it_opcode_at i)"
    using a(1,2) off by (intro pslice_cong) (auto simp: lens intro!: s split: if_splits)
  have "it_opcode j \<in> {56, 58} \<longleftrightarrow> it_opcode i \<in> {56, 58}"
    using re op by (auto simp: relational_compare_pairs_def split: if_splits)
  then show w: "compare_width img j = compare_width body i" using front at ext(1,2) by (simp add: compare_width_def)
  show "compare_values rv mv img j = map_option prod.swap (compare_values rv mv body i)"
  proof (cases reencode)
    case True
    then show ?thesis
      using re m w swap_fields_direct [of "modrm_of body i"] byte_int_less [of "body ! nat (it_opcode_at i + 1)"]
      by (simp add: compare_values_def Let_def modrm_of_def)
  next
    case False
    have "modrm_of img i = modrm_of body i"
      using same [of "it_opcode_at i + 1"] inside a(1) ext(1) False by (simp add: modrm_of_def item_bytes_def)
    moreover have "pslice img (it_opcode_at i + 2) (off + it_length i) = pslice body (it_opcode_at i + 2) (off + it_length i)"
      using a(1,2) off inside False by (intro pslice_cong) (auto simp: lens intro!: s)
    moreover have "it_opcode j = 56 \<or> it_opcode j = 57 \<longleftrightarrow> \<not> (it_opcode i = 56 \<or> it_opcode i = 57)"
      using compare_pairs(3) re False by simp
    ultimately show ?thesis using m at ext(1,2) len w front by (auto simp: compare_values_def Let_def option.map_comp o_def)
  qed
qed

section \<open>Acceptance gives the certificate\<close>

definition item_code :: "bytes \<Rightarrow> flow_item \<Rightarrow> bytes" where
  "item_code code i = pslice code (it_offset i) (it_offset i + it_length i)"

text \<open>The compares that were exchanged, by index.\<close>

definition site_indices :: "flow_item list \<Rightarrow> proved_site list \<Rightarrow> nat set" where
  "site_indices items proved = {k. k < length items \<and> it_offset (items ! k) \<in> pv_compare_offset ` set proved}"

text \<open>What is known of one exchanged compare and the branch after it.\<close>

definition exchanged_site ::
    "bytes \<Rightarrow> bytes \<Rightarrow> flow_item list \<Rightarrow> flow_item list \<Rightarrow> int list list \<Rightarrow> nat \<Rightarrow> bool" where
  "exchanged_site body img items image_items successors k =
     (Suc k < length items \<and> it_flow (items ! k) = ''fall'' \<and> it_flow (items ! Suc k) = ''jcc''
      \<and> item_index items (it_offset (items ! k) + it_length (items ! k)) = Some (int (Suc k))
      \<and> (\<forall>rv mv. compare_values rv mv img (image_items ! k) = map_option prod.swap (compare_values rv mv body (items ! k)))
      \<and> compare_width img (image_items ! k) = compare_width body (items ! k)
      \<and> (\<exists>c c'. it_condition (items ! Suc k) = Some c \<and> it_condition (image_items ! Suc k) = Some c'
            \<and> (c, c') \<in> set mirror_codes \<and> it_reads (items ! Suc k) = condition_flags c)
      \<and> dead_after items successors (Suc k) changed_flags
      \<and> dead_after image_items successors (Suc k) changed_flags
      \<and> (\<forall>j < length successors. int (Suc k) \<in> set (successors ! j) \<longrightarrow> j = k))"

definition entry_quiet :: "flow_item list \<Rightarrow> int list list \<Rightarrow> int \<Rightarrow> bool" where
  "entry_quiet items successors e =
     (0 \<le> e \<and> e < len items \<and> (e = 0 \<or> (\<forall>x \<in> changed_flags. \<not> exposed (map flag_shim items) successors (\<lambda>_. None) x (nat e))))"

definition relational_certificate ::
    "bytes \<Rightarrow> bytes \<Rightarrow> flow_item list \<Rightarrow> flow_item list \<Rightarrow> int list list \<Rightarrow> int list \<Rightarrow> nat set \<Rightarrow> bool" where
  "relational_certificate body img items image_items successors entries ks =
     (list_all2 same_shape items image_items \<and> flow_graph (map flag_shim items) successors
      \<and> (\<forall>i \<in> set items. it_reads i \<subseteq> arithmetic_flags)
      \<and> (\<forall>m < length items. m \<notin> ks \<and> m \<notin> Suc ` ks \<longrightarrow> item_code img (items ! m) = item_code body (items ! m))
      \<and> (\<forall>k \<in> ks. exchanged_site body img items image_items successors k)
      \<and> (\<forall>e \<in> set entries. entry_quiet items successors e))"

lemma condition_reads:
  assumes i: "relational_item code relocations ext off = Inr i" and c: "it_condition i = Some c"
  shows "it_reads i = condition_flags c"
proof -
  obtain n cursor rep opcode g reads writes where
    fl: "item_flags code cursor opcode rep (fst g) (snd (snd g)) = Inr (reads, writes)"
    and i': "it_flow i = fst g" "it_condition i = snd (snd g)" "it_reads i = reads"
    using i by (auto simp: relational_item_def Let_def split: prod.split_asm)
  have "snd (snd g) = Some c" "fst g = ''jcc''" using relational_item_facts(2) [OF i c] c i' by simp_all
  then have "reads = condition_flags c" using fl by (simp add: item_flags_def)
  then show ?thesis using i'(3) by simp
qed

lemma list_all2_left: "list_all2 P xs ys \<Longrightarrow> x \<in> set xs \<Longrightarrow> \<exists>y \<in> set ys. P x y"
  by (metis list_all2_conv_all_nth in_set_conv_nth)

lemma list_all2_right: "list_all2 P xs ys \<Longrightarrow> y \<in> set ys \<Longrightarrow> \<exists>x \<in> set xs. P x y"
  by (metis list_all2_conv_all_nth in_set_conv_nth)

lemma offsets_distinct:
  assumes t: "tiled_items 0 items stop" and r: "\<forall>i \<in> set items. relational_item code relocations ext (it_offset i) = Inr i"
    and k: "j < length items" "k < length items" "it_offset (items ! j) = it_offset (items ! k)"
  shows "j = k"
proof (rule items_apart [OF t k(1,2)])
  show "it_offset (items ! j) \<in> item_bytes (items ! j)" "it_offset (items ! j) \<in> item_bytes (items ! k)"
    using relational_item_extent(3) [OF bspec [OF r nth_mem [OF k(1)]]] relational_item_extent(3) [OF bspec [OF r nth_mem [OF k(2)]]] k(3)
    by (simp_all add: item_bytes_def)
qed

lemma written_indices:
  assumes t: "tiled_items 0 items stop" and r: "\<forall>i \<in> set items. relational_item code relocations ext (it_offset i) = Inr i"
    and ok: "list_all2 (write_ok body items successors) ws proved"
  shows "site_indices items proved = fst ` set ws"
proof -
  have f: "fst w < length items \<and> it_offset (items ! fst w) = pv_compare_offset pv" if "write_ok body items successors w pv" for w pv
    using that by (auto simp: write_ok_def split: prod.splits)
  have "k \<in> fst ` set ws" if k: "k < length items" "pv \<in> set proved" "it_offset (items ! k) = pv_compare_offset pv" for k pv
  proof -
    obtain w where w: "w \<in> set ws" "write_ok body items successors w pv"
      using list_all2_right [OF ok k(2)] by blast
    then have "fst w = k" using offsets_distinct [OF t r, of "fst w" k] f [OF w(2)] k by simp
    then show ?thesis using w(1) by force
  qed
  moreover have "fst w \<in> site_indices items proved" if w: "w \<in> set ws" for w
  proof -
    obtain pv where "pv \<in> set proved" "write_ok body items successors w pv"
      using list_all2_left [OF ok w] by blast
    then show ?thesis using f by (auto simp: site_indices_def)
  qed
  ultimately show ?thesis by (auto simp: site_indices_def)
qed

text \<open>What an accepted form went through.\<close>

lemma accepted_form:
  assumes "apply_relational_form body sites relocation_offsets relocations code_length ext = Inr (img, proved, rewritten)"
    and "ia32_relational_flow_walk body relocations code_length ext = Inr (items, successors, entries)"
  obtains live written_bytes where "ia32_relational_flag_liveness items successors = Inr live"
    "rfold (site_step body relocations relocation_offsets items successors live) (body, [], []) sites = Inr (img, written_bytes, proved)"
    "rfold (require_entry_dead live) () (drop 1 entries) = Inr ()"
    "length (remdups written_bytes) = 2 * length sites" "rewritten = sort (remdups written_bytes)"
  using assms by (auto simp: apply_relational_form_def check_relational_image_def Let_def split: prod.split_asm)

lemma accepted_image:
  assumes "apply_relational_form body sites relocation_offsets relocations code_length ext = Inr (img, proved, rewritten)"
    and "ia32_relational_flow_walk body relocations code_length ext = Inr (items, successors, entries)"
  obtains image_items image_live where "ia32_relational_flow_walk img relocations code_length ext = Inr (image_items, successors, entries)"
    "list_all2 same_shape items image_items"
    "rfold (image_site_ok items image_items) () proved = Inr ()"
    "ia32_relational_flag_liveness image_items successors = Inr image_live"
    "rfold (image_site_dead items successors image_live) () proved = Inr ()"
  using assms by (auto simp: apply_relational_form_def check_relational_image_def Let_def split: prod.split_asm)

lemma item_index_exact:
  assumes t: "tiled_items 0 items stop" and r: "\<forall>i \<in> set items. relational_item code relocations ext (it_offset i) = Inr i"
    and k: "k < length items"
  shows "item_index items (it_offset (items ! k)) = Some (int k)"
proof -
  have "it_offset (items ! k) \<in> fst ` set (rev (map (\<lambda>(index, i). (it_offset i, index)) (enumerate_int items)))"
    using k by (force simp: set_enumerate_int image_iff)
  then have "item_index items (it_offset (items ! k)) \<noteq> None" unfolding item_index_def map_of_eq_None_iff by simp
  then obtain j where j: "item_index items (it_offset (items ! k)) = Some j" by blast
  have f: "0 \<le> j" "j < len items" "it_offset (items ! nat j) = it_offset (items ! k)" using item_index_found [OF j] by simp_all
  then have "nat j = k" using offsets_distinct [OF t r] k by simp
  then show ?thesis using j f(1) by simp
qed

lemma tiled_next:
  "tiled_items off items stop \<Longrightarrow> Suc k < length items \<Longrightarrow> it_offset (items ! Suc k) = it_offset (items ! k) + it_length (items ! k)"
proof (induction items arbitrary: off k)
  case (Cons i items)
  then show ?case by (cases k; cases items) auto
qed simp

lemma accepted_writes:
  assumes a: "apply_relational_form body sites relocation_offsets relocations code_length ext = Inr (img, proved, rewritten)"
    and w: "ia32_relational_flow_walk body relocations code_length ext = Inr (items, successors, entries)"
  obtains ws r where "write_state body items successors (img, r, proved) ws" "distinct r" "set r = set rewritten"
    "length ws = length sites"
proof -
  obtain live r where l: "ia32_relational_flag_liveness items successors = Inr live"
    "rfold (site_step body relocations relocation_offsets items successors live) (body, [], []) sites = Inr (img, r, proved)"
    "length (remdups r) = 2 * length sites" "rewritten = sort (remdups r)"
    using accepted_form [OF a w] by metis
  have "write_state body items successors (body, [], []) []" by (simp add: write_state_def)
  from sites_written [OF w l(1,2) this] obtain ws where ws: "length ws = length sites" "write_state body items successors (img, r, proved) ws"
    by auto
  then have "length r = 2 * length sites" using writes_length by (auto simp: write_state_def)
  then have "distinct r" using remdups_full l(3) by metis
  then show ?thesis using that [OF ws(2)] l(4) ws(1) by simp
qed

lemma accepted_site_image:
  assumes a: "apply_relational_form body sites relocation_offsets relocations code_length ext = Inr (img, proved, rewritten)"
    and w: "ia32_relational_flow_walk body relocations code_length ext = Inr (items, successors, entries)"
    and w': "ia32_relational_flow_walk img relocations code_length ext = Inr (image_items, successors, entries)"
    and pv: "pv \<in> set proved" "write_ok body items successors (k, re, op) pv"
  obtains c where "it_opcode (image_items ! k) = op" "it_condition (image_items ! Suc k) = Some c"
    "condition_name c = pv_image_condition pv" "dead_after image_items successors (Suc k) changed_flags"
proof -
  obtain image_live where s: "list_all2 same_shape items image_items"
    "rfold (image_site_ok items image_items) () proved = Inr ()"
    "ia32_relational_flag_liveness image_items successors = Inr image_live"
    "rfold (image_site_dead items successors image_live) () proved = Inr ()"
    using accepted_image [OF a w] w' by (metis Inr_inject prod.inject)
  obtain code where c: "tiled_items 0 items (len code)" "\<forall>i \<in> set items. relational_item code relocations ext (it_offset i) = Inr i"
    using flow_walk [OF w] by metis
  have ok: "Suc k < length items" "it_offset (items ! k) = pv_compare_offset pv" "it_offset (items ! Suc k) = pv_branch_offset pv"
      "op = pv_image_compare_opcode pv"
    using pv(2) by (simp_all add: write_ok_def)
  have k: "k < length items" "k < length image_items" "Suc k < length image_items" using ok(1) list_all2_lengthD [OF s(1)] by simp_all
  have idx: "item_index items (pv_compare_offset pv) = Some (int k)" "item_index items (pv_branch_offset pv) = Some (int (Suc k))"
    using item_index_exact [OF c k(1)] item_index_exact [OF c ok(1)] ok(2,3) by simp_all
  have "image_site_ok items image_items () pv = Inr ()" by (rule rfold_unit [OF s(2) pv(1)])
  then obtain cc where im: "it_opcode (image_items ! k) = op" "it_condition (image_items ! Suc k) = Some cc"
      "condition_name cc = pv_image_condition pv"
    using idx k ok(4) by (auto simp: image_site_ok_def item_in_range nat_add_distrib split: option.splits)
  have "image_site_dead items successors image_live () pv = Inr ()" by (rule rfold_unit [OF s(4) pv(1)])
  then obtain out where out: "ia32_live_out image_live successors (int (Suc k)) = Inr out" "out \<inter> changed_flags = {}"
    using idx by (auto simp: image_site_dead_def)
  show ?thesis by (rule that [OF im live_out_dead [OF w' s(3) out k(3)]])
qed

lemma accepted_compare:
  assumes w: "ia32_relational_flow_walk body relocations code_length ext = Inr (items, successors, entries)"
    and w': "ia32_relational_flow_walk img relocations code_length ext = Inr (image_items, successors, entries)"
    and s: "list_all2 same_shape items image_items"
    and st: "write_state body items successors (img, r, proved) ws" "distinct r"
    and v: "(k, re, op) \<in> set ws" "write_ok body items successors (k, re, op) pv" and op: "it_opcode (image_items ! k) = op"
  shows "compare_values rv mv img (image_items ! k) = map_option prod.swap (compare_values rv mv body (items ! k))"
    "compare_width img (image_items ! k) = compare_width body (items ! k)"
proof -
  obtain code where c: "prefix_code code body" "tiled_items 0 items (len code)" "\<forall>i \<in> set items. relational_item code relocations ext (it_offset i) = Inr i"
    using flow_walk [OF w] by blast
  obtain code' where c': "prefix_code code' img" "\<forall>i \<in> set image_items. relational_item code' relocations ext (it_offset i) = Inr i"
    using flow_walk [OF w'] by blast
  have ok: "Suc k < length items" "it_opcode (items ! k) \<in> {56, 57, 58, 59}"
      "if re then op = it_opcode (items ! k) else map_of relational_compare_pairs (it_opcode (items ! k)) = Some op"
    using v(2) unfolding write_ok_def prod.case by blast+
  have k: "k < length items" "k < length image_items" using ok(1) list_all2_lengthD [OF s] by simp_all
  have sh: "it_offset (image_items ! k) = it_offset (items ! k)" "it_length (items ! k) = it_length (image_items ! k)"
    using list_all2_nthD [OF s k(1)] by (simp_all add: same_shape_def)
  have ri: "relational_item code relocations ext (it_offset (items ! k)) = Inr (items ! k)"
      "relational_item code' relocations ext (it_offset (items ! k)) = Inr (image_items ! k)"
    using c(3) c'(2) k sh(1) by (metis nth_mem)+
  have off: "0 \<le> it_offset (items ! k)" using tiled_bounds [OF c(2) nth_mem [OF k(1)]] by simp
  have wr: "written body items img (k, re, op)" and len: "length img = length body" using st v(1) by (simp_all add: write_state_def)
  have "if re then it_opcode (image_items ! k) = it_opcode (items ! k) \<and> drop_bit 6 (modrm_of body (items ! k)) = 3
        \<and> modrm_of img (items ! k) = swap_fields (modrm_of body (items ! k))
      else map_of relational_compare_pairs (it_opcode (items ! k)) = Some (it_opcode (image_items ! k))
        \<and> byte_int (img ! nat (it_opcode_at (items ! k))) = it_opcode (image_items ! k)"
    using wr ok(3) op by (simp add: written_def split: if_splits)
  note ex = compare_exchanged [OF ri(1) c(1) ri(2) c'(1) off sh(2) len ok(2) this]
  have "img ! nat p = body ! nat p" if "p \<in> item_bytes (items ! k)" "p \<noteq> it_opcode_at (items ! k) + (if re then 1 else 0)" for p
    using compare_changed [OF c(2,3) st v] that by (simp add: compare_byte_def)
  then show "compare_values rv mv img (image_items ! k) = map_option prod.swap (compare_values rv mv body (items ! k))"
      "compare_width img (image_items ! k) = compare_width body (items ! k)"
    using ex by blast+
qed

lemma accepted_site:
  assumes a: "apply_relational_form body sites relocation_offsets relocations code_length ext = Inr (img, proved, rewritten)"
    and w: "ia32_relational_flow_walk body relocations code_length ext = Inr (items, successors, entries)"
    and w': "ia32_relational_flow_walk img relocations code_length ext = Inr (image_items, successors, entries)"
    and st: "write_state body items successors (img, r, proved) ws" "distinct r"
    and v: "(k, re, op) \<in> set ws"
  shows "exchanged_site body img items image_items successors k"
proof -
  have s: "list_all2 same_shape items image_items" using accepted_image [OF a w] w' by (metis Inr_inject prod.inject)
  obtain pv where pv: "pv \<in> set proved" "write_ok body items successors (k, re, op) pv"
    using list_all2_left [OF _ v, of "write_ok body items successors" proved] st(1) by (auto simp: write_state_def)
  then have ok: "Suc k < length items" "it_flow (items ! k) = ''fall''" "it_flow (items ! Suc k) = ''jcc''"
      "\<exists>c. it_condition (items ! Suc k) = Some c \<and> mirror_of (condition_name c) = Some (pv_image_condition pv)"
      "dead_after items successors (Suc k) changed_flags" "\<forall>j < length successors. int (Suc k) \<in> set (successors ! j) \<longrightarrow> j = k"
    unfolding write_ok_def prod.case by blast+
  obtain c' where im: "it_opcode (image_items ! k) = op" "it_condition (image_items ! Suc k) = Some c'"
      "condition_name c' = pv_image_condition pv" "dead_after image_items successors (Suc k) changed_flags"
    using accepted_site_image [OF a w w' pv] by metis
  obtain cc where cc: "it_condition (items ! Suc k) = Some cc" "mirror_of (condition_name cc) = Some (condition_name c')"
    using ok(4) im(3) by auto
  obtain code where c: "tiled_items 0 items (len code)" "\<forall>i \<in> set items. relational_item code relocations ext (it_offset i) = Inr i"
    using flow_walk [OF w] by metis
  obtain code' where "\<forall>i \<in> set image_items. relational_item code' relocations ext (it_offset i) = Inr i"
    using flow_walk [OF w'] by metis
  then have ri: "relational_item code relocations ext (it_offset (items ! Suc k)) = Inr (items ! Suc k)"
      "relational_item code' relocations ext (it_offset (image_items ! Suc k)) = Inr (image_items ! Suc k)"
    using c(2) ok(1) list_all2_lengthD [OF s] by simp_all
  have "(cc, c') \<in> set mirror_codes"
    using mirror_code [OF _ _ _ _ cc(2)] relational_item_facts(2) [OF ri(1) cc(1)] relational_item_facts(2) [OF ri(2) im(2)] by simp
  moreover have "item_index items (it_offset (items ! k) + it_length (items ! k)) = Some (int (Suc k))"
    using item_index_exact [OF c ok(1)] tiled_next [OF c(1) ok(1)] by simp
  ultimately show ?thesis
    unfolding exchanged_site_def
    using ok im(2,4) cc(1) condition_reads [OF ri(1) cc(1)] accepted_compare [OF w w' s st v pv(2) im(1)] by blast
qed

lemma walk_entries:
  assumes w: "ia32_relational_flow_walk body relocations code_length ext = Inr (items, successors, entries)"
  shows "\<exists>rest. entries = 0 # rest \<and> (\<forall>e \<in> set rest. 0 \<le> e \<and> e < len items)" "items \<noteq> []"
proof -
  define limit where "limit = (case code_length of None \<Rightarrow> len body | Some l \<Rightarrow> l)"
  define external where "external = filter (\<lambda>target. target < (if items = [] then 0 else it_offset (last items) + it_length (last items))) (sorted_list_of_set ext)"
  obtain found where f: "rmap (external_entry items) external = Inr found" "0 < limit" "limit \<le> len body"
      "relational_items (pslice body 0 limit) relocations ext 0 = Inr items"
      "entries = 0 # map snd (filter (\<lambda>(target, j). target \<noteq> 0) (zip external found))"
    using w unfolding ia32_relational_flow_walk_def limit_def external_def Let_def by auto
  have "0 \<le> j \<and> j < len items" if "external_entry items x = Inr j" for x j
    using that item_index_range [of items x j] by (auto simp: external_entry_def split: option.splits)
  then have "0 \<le> j \<and> j < len items" if "j \<in> set found" for j using rmap_in_set [OF f(1) that] by blast
  then show "\<exists>rest. entries = 0 # rest \<and> (\<forall>e \<in> set rest. 0 \<le> e \<and> e < len items)"
    using f(5) by (auto dest: set_zip_rightD)
  have "len (pslice body 0 limit) = limit" using f(2,3) by (simp add: length_pslice)
  then show "items \<noteq> []" using relational_items_tiled [OF f(4)] f(2) by auto
qed

lemma entry_dead:
  assumes "require_entry_dead live () e = Inr ()" "0 \<le> e" "e < len live"
  shows "live ! nat e \<inter> changed_flags = {}"
  using assms by (simp add: require_entry_dead_def item_in_range split: if_splits)

lemma accepted_certificate:
  assumes a: "apply_relational_form body sites relocation_offsets relocations code_length ext = Inr (img, proved, rewritten)"
    and w: "ia32_relational_flow_walk body relocations code_length ext = Inr (items, successors, entries)"
    and w': "ia32_relational_flow_walk img relocations code_length ext = Inr (image_items, successors', entries')"
  shows "relational_certificate body img items image_items successors entries (site_indices items proved)"
    "successors' = successors" "entries' = entries"
proof -
  show e: "successors' = successors" "entries' = entries" using accepted_image [OF a w] w' by (metis Inr_inject prod.inject)+
  have shape: "list_all2 same_shape items image_items" using accepted_image [OF a w] w' by (metis Inr_inject prod.inject)
  obtain ws r where st: "write_state body items successors (img, r, proved) ws" "distinct r"
    using accepted_writes [OF a w] by metis
  obtain code where c: "tiled_items 0 items (len code)" "\<forall>i \<in> set items. relational_item code relocations ext (it_offset i) = Inr i"
      "flow_graph (map flag_shim items) successors"
    using flow_walk [OF w] by metis
  have "list_all2 (write_ok body items successors) ws proved" using st(1) by (simp add: write_state_def)
  from written_indices [OF c(1,2) this] have ks: "site_indices items proved = fst ` set ws" .
  have same: "item_code img (items ! m) = item_code body (items ! m)"
    if m: "m < length items" "m \<notin> fst ` set ws" "m \<notin> Suc ` fst ` set ws" for m
  proof -
    have off: "0 \<le> it_offset (items ! m)" "0 \<le> it_length (items ! m)"
      using tiled_bounds [OF c(1) nth_mem [OF m(1)]] relational_item_extent(3) [OF bspec [OF c(2) nth_mem [OF m(1)]]] by simp_all
    have s: "img ! p = body ! p" if "it_offset (items ! m) \<le> int p" "int p < it_offset (items ! m) + it_length (items ! m)" for p
      using changed_byte [OF c(1,2) st(1) m(1), of "int p"] that m(2,3) by (fastforce simp: item_bytes_def)
    have "length img = length body" using st(1) by (simp add: write_state_def)
    then show ?thesis unfolding item_code_def using off by (intro pslice_cong) (auto intro!: s)
  qed
  obtain live where l: "ia32_relational_flag_liveness items successors = Inr live"
      "rfold (require_entry_dead live) () (drop 1 entries) = Inr ()"
    using accepted_form [OF a w] by metis
  note live = flag_liveness_exact [OF w l(1)]
  obtain rest where rest: "entries = 0 # rest" "\<forall>e \<in> set rest. 0 \<le> e \<and> e < len items" using walk_entries(1) [OF w] by blast
  have "entry_quiet items successors e" if "e \<in> set rest" for e
    using entry_dead [OF rfold_unit [OF l(2)], of e] that rest live unfolding entry_quiet_def by (auto simp: disjoint_iff)
  then have "\<forall>e \<in> set entries. entry_quiet items successors e"
    using rest(1) walk_entries(2) [OF w] by (auto simp: entry_quiet_def)
  moreover have "\<forall>k \<in> fst ` set ws. exchanged_site body img items image_items successors k"
    using accepted_site [OF a w w' [unfolded e] st] by auto
  moreover have "\<forall>i \<in> set items. it_reads i \<subseteq> arithmetic_flags" using relational_item_facts(1) c(2) by blast
  ultimately show "relational_certificate body img items image_items successors entries (site_indices items proved)"
    unfolding relational_certificate_def ks using shape c(3) same by blast
qed

end
