(* ===== verification/Relational_Runs.thy ===== *)
theory Relational_Runs
  imports Relational_Soundness Bijection_Soundness
begin

text \<open>
  Soundness of the relational form: a body and an accepted image run in lock step.  The
  semantics of the instructions is a parameter that acts on the flags as the table of
  \<^verbatim>\<open>relational.py\<close> reports; at the sites it compares and branches.
\<close>

section \<open>The machine\<close>

text \<open>
  The rest of the state is \<open>'d\<close>.  A semantics gives, for an instruction at an offset with its
  bytes, the next offset, the rest of the state and the flags, or stops.
\<close>

type_synonym flags = "string \<Rightarrow> bool"
type_synonym 'd flag_semantics = "int \<Rightarrow> bytes \<Rightarrow> 'd \<Rightarrow> flags \<Rightarrow> (int \<times> 'd \<times> flags) option"

definition relational_step ::
    "'d flag_semantics \<Rightarrow> bytes \<Rightarrow> flow_item list \<Rightarrow> nat \<times> 'd \<times> flags \<Rightarrow> (nat \<times> 'd \<times> flags) option" where
  "relational_step sem code items s =
     (case s of (k, d, f) \<Rightarrow>
       Option.bind (sem (it_offset (items ! k)) (item_code code (items ! k)) d f) (\<lambda>(next, d, f).
         map_option (\<lambda>j. (nat j, d, f)) (item_index items next)))"

text \<open>
  An instruction acts on the flags as the table says: what it does depends on the flags it is
  reported to read, a flag it writes does not depend on the flags before, any other flag
  depends on no flag but itself and the ones it reads; and control goes where the graph says.
\<close>

definition same_outcome :: "string set \<Rightarrow> flags \<Rightarrow> flags \<Rightarrow> int \<times> 'd \<times> flags \<Rightarrow> int \<times> 'd \<times> flags \<Rightarrow> bool" where
  "same_outcome w f g r q =
     (fst r = fst q \<and> fst (snd r) = fst (snd q)
      \<and> (\<forall>x. x \<in> w \<or> f x = g x \<longrightarrow> snd (snd r) x = snd (snd q) x))"

definition keeps_flag_report :: "'d flag_semantics \<Rightarrow> bytes \<Rightarrow> flow_item list \<Rightarrow> int list list \<Rightarrow> nat \<Rightarrow> bool" where
  "keeps_flag_report sem code items successors k =
     (let run = sem (it_offset (items ! k)) (item_code code (items ! k))
      in (\<forall>d f g. (\<forall>x \<in> it_reads (items ! k). f x = g x) \<longrightarrow>
            rel_option (same_outcome (it_writes (items ! k)) f g) (run d f) (run d g))
       \<and> (\<forall>d f r. run d f = Some r \<longrightarrow> (\<forall>j. item_index items (fst r) = Some j \<longrightarrow> j \<in> set (successors ! k))))"

text \<open>A compare sets the flags of its operands; a branch goes to its target if its condition holds.\<close>

definition acts_compare ::
    "'d flag_semantics \<Rightarrow> ('d \<Rightarrow> int \<Rightarrow> int \<Rightarrow> int) \<Rightarrow> ('d \<Rightarrow> int \<Rightarrow> bytes \<Rightarrow> int \<Rightarrow> bytes \<Rightarrow> int option) \<Rightarrow>
     bytes \<Rightarrow> flow_item \<Rightarrow> bool" where
  "acts_compare sem rv mv code i =
     (\<forall>d f. sem (it_offset i) (item_code code i) d f =
        map_option (\<lambda>v. (it_offset i + it_length i, d,
            \<lambda>x. if x \<in> arithmetic_flags then width_flags (compare_width code i) v x else f x))
          (compare_values (rv d) (mv d) code i))"

definition acts_branch :: "'d flag_semantics \<Rightarrow> bytes \<Rightarrow> flow_item \<Rightarrow> bool" where
  "acts_branch sem code i =
     (\<forall>d f. sem (it_offset i) (item_code code i) d f =
        Some (if branch_taken i f then the (it_target i) else it_offset i + it_length i, d, f))"

section \<open>The simulation\<close>

text \<open>
  The two runs stand at the same item with the same state.  The flags agree on what the
  exchange preserves and on what some path still reads, except between a compare and its
  branch, where the two branches decide alike.
\<close>

definition exposed_flags :: "flow_item list \<Rightarrow> int list list \<Rightarrow> nat \<Rightarrow> string set" where
  "exposed_flags items successors k = {x. exposed (map flag_shim items) successors (\<lambda>_. None) x k}"

definition mirrored ::
    "flow_item list \<Rightarrow> flow_item list \<Rightarrow> int list list \<Rightarrow> nat set \<Rightarrow> nat \<times> 'd \<times> flags \<Rightarrow> nat \<times> 'd \<times> flags \<Rightarrow> bool" where
  "mirrored items image_items successors ks s t =
     (case (s, t) of ((k, d, f), (k', d', f')) \<Rightarrow>
        k = k' \<and> d = d' \<and> k < length items \<and> (\<forall>x. x \<notin> changed_flags \<longrightarrow> f x = f' x)
        \<and> (if k \<in> Suc ` ks then branch_taken (items ! k) f = branch_taken (image_items ! k) f'
           else (\<forall>x \<in> exposed_flags items successors k. f x = f' x)))"

text \<open>The hypotheses of a run.\<close>

definition mirrors ::
    "'d flag_semantics \<Rightarrow> ('d \<Rightarrow> int \<Rightarrow> int \<Rightarrow> int) \<Rightarrow> ('d \<Rightarrow> int \<Rightarrow> bytes \<Rightarrow> int \<Rightarrow> bytes \<Rightarrow> int option) \<Rightarrow>
     bytes \<Rightarrow> bytes \<Rightarrow> flow_item list \<Rightarrow> flow_item list \<Rightarrow> int list list \<Rightarrow> int list \<Rightarrow> nat set \<Rightarrow> bool" where
  "mirrors sem rv mv body img items image_items successors entries ks =
     (relational_certificate body img items image_items successors entries ks
      \<and> (\<forall>k < length items. keeps_flag_report sem body items successors k)
      \<and> (\<forall>k \<in> ks. acts_compare sem rv mv body (items ! k) \<and> acts_branch sem body (items ! Suc k)
           \<and> acts_compare sem rv mv img (image_items ! k) \<and> acts_branch sem img (image_items ! Suc k)))"

lemma exchanged_flags:
  fixes a b :: "'w::len word"
  assumes "(c, c') \<in> set mirror_codes"
  shows "compare_flags b a ''zf'' = compare_flags a b ''zf''" "condition_holds c' (compare_flags b a) = condition_holds c (compare_flags a b)"
  using mirror_decides [OF assms] by (auto simp: compare_flags_def)

lemma exchanged_width_flags:
  assumes "(c, c') \<in> set mirror_codes"
  shows "width_flags w (prod.swap v) ''zf'' = width_flags w v ''zf''"
    "condition_holds c' (width_flags w (prod.swap v)) = condition_holds c (width_flags w v)"
  by (simp_all add: width_flags_def exchanged_flags [OF assms])

text \<open>A condition looks at arithmetic flags only.\<close>

lemma condition_holds_cong:
  assumes "0 \<le> c" "c < 16" "\<And>x. x \<in> condition_flags c \<Longrightarrow> f x = g x"
  shows "condition_holds c f = condition_holds c g"
proof -
  have "c = 0 \<or> c = 1 \<or> c = 2 \<or> c = 3 \<or> c = 4 \<or> c = 5 \<or> c = 6 \<or> c = 7 \<or> c = 8 \<or> c = 9 \<or> c = 10 \<or> c = 11
      \<or> c = 12 \<or> c = 13 \<or> c = 14 \<or> c = 15"
    using assms(1,2) by presburger
  then show ?thesis using assms(3) by (auto simp: condition_holds_def condition_flags_def)
qed

lemma same_index: "list_all2 same_shape items image_items \<Longrightarrow> item_index image_items = item_index items"
proof -
  assume s: "list_all2 same_shape items image_items"
  then have "map (\<lambda>(index, i). (it_offset i, index)) (enumerate_int image_items) = map (\<lambda>(index, i). (it_offset i, index)) (enumerate_int items)"
    by (intro nth_equalityI) (auto simp: enumerate_int_def list_all2_conv_all_nth same_shape_def)
  then show ?thesis by (simp add: item_index_def)
qed

lemma exposed_reads:
  assumes "k < length items" "x \<in> it_reads (items ! k)"
  shows "x \<in> exposed_flags items successors k"
  using exposed.reads [of k "map flag_shim items" x "\<lambda>_. None" successors] assms by (simp add: exposed_flags_def flag_shim_def)

lemma exposed_passes:
  assumes "k < length items" "j \<in> set (successors ! k)" "x \<in> exposed_flags items successors (nat j)" "x \<notin> it_writes (items ! k)"
  shows "x \<in> exposed_flags items successors k"
  using exposed.passes [of k "map flag_shim items" j successors "\<lambda>_. None" x] assms by (simp add: exposed_flags_def flag_shim_def)

text \<open>The landing after a step.\<close>

lemma landing:
  assumes c: "relational_certificate body img items image_items successors entries ks"
    and k: "k < length items" "keeps_flag_report sem body items successors k"
    and r: "sem (it_offset (items ! k)) (item_code body (items ! k)) d f = Some r" "item_index items (fst r) = Some j"
  shows "j \<in> set (successors ! k)" "nat j < length items" "k \<notin> ks \<Longrightarrow> nat j \<notin> Suc ` ks"
proof -
  show j: "j \<in> set (successors ! k)" using k(2) r unfolding keeps_flag_report_def Let_def by blast
  have rg: "0 \<le> j" "j < len items" using item_index_range [OF r(2)] by simp_all
  then show "nat j < length items" by simp
  have "m = k" if "m \<in> ks" "nat j = Suc m" for m
  proof -
    have "length successors = length items" using c by (simp add: relational_certificate_def flow_graph_def)
    moreover have "int (Suc m) = j" using that(2) rg(1) by simp
    moreover have "\<forall>i < length successors. int (Suc m) \<in> set (successors ! i) \<longrightarrow> i = m"
      using c that(1) unfolding relational_certificate_def exchanged_site_def by blast
    ultimately show ?thesis using k(1) j by metis
  qed
  then show "k \<notin> ks \<Longrightarrow> nat j \<notin> Suc ` ks" by blast
qed

lemma mirror_code_range: "(c, c') \<in> set mirror_codes \<Longrightarrow> 0 \<le> c \<and> c < 16 \<and> 0 \<le> c' \<and> c' < 16"
  by (auto simp: mirror_codes_def)

lemma mirror_code_flags:
  assumes "(c, c') \<in> set mirror_codes"
  shows "condition_flags c \<subseteq> arithmetic_flags" "condition_flags c' \<subseteq> arithmetic_flags"
    "condition_flags c \<inter> changed_flags = {} \<Longrightarrow> c' = c"
proof -
  have "list_all (\<lambda>(c, c'). condition_flags c \<subseteq> arithmetic_flags \<and> condition_flags c' \<subseteq> arithmetic_flags
      \<and> (condition_flags c \<inter> changed_flags = {} \<longrightarrow> c' = c)) mirror_codes" by code_simp
  then show "condition_flags c \<subseteq> arithmetic_flags" "condition_flags c' \<subseteq> arithmetic_flags"
    "condition_flags c \<inter> changed_flags = {} \<Longrightarrow> c' = c"
    using assms by (auto simp: list_all_iff)
qed

lemma exposed_arithmetic:
  assumes "\<forall>i \<in> set items. it_reads i \<subseteq> arithmetic_flags" "x \<in> exposed_flags items successors k"
  shows "x \<in> arithmetic_flags"
proof -
  have "exposed (map flag_shim items) successors (\<lambda>_. None) x k" using assms(2) by (simp add: exposed_flags_def)
  then show ?thesis by induction (use assms(1) in \<open>auto simp: flag_shim_def\<close>)
qed

lemma step_related:
  assumes "rel_option (\<lambda>r q. fst r = fst q \<and> fst (snd r) = fst (snd q) \<and>
      (\<forall>j. item_index items (fst r) = Some j \<longrightarrow> rel (nat j, fst (snd r), snd (snd r)) (nat j, fst (snd q), snd (snd q))))
      (sem (it_offset (items ! k)) (item_code body (items ! k)) d f)
      (sem (it_offset (image_items ! k)) (item_code img (image_items ! k)) d' f')"
    and "item_index image_items = item_index items"
  shows "rel_option rel (relational_step sem body items (k, d, f)) (relational_step sem img image_items (k, d', f'))"
  using assms(1)
  by (cases rule: option.rel_cases)
    (auto simp: relational_step_def assms(2) rel_option_iff split: option.splits)

lemma arithmetic_split: "x \<in> arithmetic_flags \<Longrightarrow> x \<notin> changed_flags \<Longrightarrow> x = ''zf''"
  by (auto simp: changed_flags_def preserved_flags_def)

lemma compare_step:
  assumes m: "mirrors sem rv mv body img items image_items successors entries ks"
    and k: "k \<in> ks" "k < length items" and f: "\<forall>x. x \<notin> changed_flags \<longrightarrow> f x = f' x"
  shows "rel_option (mirrored items image_items successors ks)
    (relational_step sem body items (k, d, f)) (relational_step sem img image_items (k, d, f'))"
proof (rule step_related)
  have c: "relational_certificate body img items image_items successors entries ks" using m by (simp add: mirrors_def)
  then show "item_index image_items = item_index items" by (simp add: relational_certificate_def same_index)
  have s: "exchanged_site body img items image_items successors k" using c k(1) by (simp add: relational_certificate_def)
  have shape: "same_shape (items ! k) (image_items ! k)" using c k(2) by (simp add: relational_certificate_def list_all2_nthD)
  have law: "acts_compare sem rv mv body (items ! k)" "acts_compare sem rv mv img (image_items ! k)"
    using m k(1) by (simp_all add: mirrors_def)
  obtain cc c' where cc: "it_condition (items ! Suc k) = Some cc" "it_condition (image_items ! Suc k) = Some c'" "(cc, c') \<in> set mirror_codes"
    using s unfolding exchanged_site_def by blast
  define w where "w = compare_width body (items ! k)"
  let ?set = "\<lambda>f v x. if x \<in> arithmetic_flags then width_flags w v x else f x"
  have taken: "condition_holds c (?set f v) = condition_holds c (width_flags w v)"
    if "0 \<le> c" "c < 16" "condition_flags c \<subseteq> arithmetic_flags" for c f v
    using that by (intro condition_holds_cong) auto
  have land: "mirrored items image_items successors ks (Suc k, d, ?set f v) (Suc k, d, ?set f' (prod.swap v))" for v
  proof -
    have "?set f v x = ?set f' (prod.swap v) x" if "x \<notin> changed_flags" for x
      using that f arithmetic_split [of x] exchanged_width_flags(1) [OF cc(3), of w v] by auto
    moreover have "branch_taken (items ! Suc k) (?set f v) = branch_taken (image_items ! Suc k) (?set f' (prod.swap v))"
      using cc(1,2) taken mirror_code_range [OF cc(3)] mirror_code_flags(1,2) [OF cc(3)] exchanged_width_flags(2) [OF cc(3)]
      by (simp add: branch_taken_def)
    moreover have "Suc k < length items" using s by (simp add: exchanged_site_def)
    ultimately show ?thesis unfolding mirrored_def prod.case using k(1) by simp
  qed
  have s2: "item_index items (it_offset (items ! k) + it_length (items ! k)) = Some (int (Suc k))"
    "compare_values (rv d) (mv d) img (image_items ! k) = map_option prod.swap (compare_values (rv d) (mv d) body (items ! k))"
    "compare_width img (image_items ! k) = w"
    using s by (simp_all add: exchanged_site_def w_def)
  have sh: "it_offset (image_items ! k) = it_offset (items ! k)" "it_length (image_items ! k) = it_length (items ! k)"
    using shape by (simp_all add: same_shape_def)
  have run: "sem (it_offset (items ! k)) (item_code body (items ! k)) d f =
      map_option (\<lambda>v. (it_offset (items ! k) + it_length (items ! k), d, ?set f v)) (compare_values (rv d) (mv d) body (items ! k))"
    "sem (it_offset (image_items ! k)) (item_code img (image_items ! k)) d f' =
      map_option (\<lambda>v. (it_offset (items ! k) + it_length (items ! k), d, ?set f' (prod.swap v))) (compare_values (rv d) (mv d) body (items ! k))"
    using law(1) [unfolded acts_compare_def, rule_format, of d f] law(2) [unfolded acts_compare_def, rule_format, of d f']
    unfolding s2(2,3) sh w_def [symmetric] by (simp_all add: option.map_comp o_def)
  show "rel_option (\<lambda>r q. fst r = fst q \<and> fst (snd r) = fst (snd q) \<and>
      (\<forall>j. item_index items (fst r) = Some j \<longrightarrow>
        mirrored items image_items successors ks (nat j, fst (snd r), snd (snd r)) (nat j, fst (snd q), snd (snd q))))
      (sem (it_offset (items ! k)) (item_code body (items ! k)) d f)
      (sem (it_offset (image_items ! k)) (item_code img (image_items ! k)) d f')"
    unfolding run option.rel_map fst_conv snd_conv s2(1) option.inject
    by (rule option.rel_refl) (metis land nat_int)
qed

lemma branch_step:
  assumes m: "mirrors sem rv mv body img items image_items successors entries ks"
    and k: "k \<in> ks" and f: "\<forall>x. x \<notin> changed_flags \<longrightarrow> f x = f' x"
    and b: "branch_taken (items ! Suc k) f = branch_taken (image_items ! Suc k) f'"
  shows "rel_option (mirrored items image_items successors ks)
    (relational_step sem body items (Suc k, d, f)) (relational_step sem img image_items (Suc k, d, f'))"
proof (rule step_related)
  have c: "relational_certificate body img items image_items successors entries ks" using m by (simp add: mirrors_def)
  then show "item_index image_items = item_index items" by (simp add: relational_certificate_def same_index)
  have s: "exchanged_site body img items image_items successors k" using c k by (simp add: relational_certificate_def)
  then have k1: "Suc k < length items" by (simp add: exchanged_site_def)
  have shape: "same_shape (items ! Suc k) (image_items ! Suc k)" using c k1 by (simp add: relational_certificate_def list_all2_nthD)
  have law: "acts_branch sem body (items ! Suc k)" "acts_branch sem img (image_items ! Suc k)" using m k by (simp_all add: mirrors_def)
  define r where "r = (if branch_taken (items ! Suc k) f then the (it_target (items ! Suc k)) else it_offset (items ! Suc k) + it_length (items ! Suc k))"
  have run: "sem (it_offset (items ! Suc k)) (item_code body (items ! Suc k)) d f = Some (r, d, f)"
      "sem (it_offset (image_items ! Suc k)) (item_code img (image_items ! Suc k)) d f' = Some (r, d, f')"
    using law shape b unfolding acts_branch_def same_shape_def r_def by simp_all
  have "Suc k \<notin> ks" using c s unfolding relational_certificate_def exchanged_site_def by fastforce
  have "mirrored items image_items successors ks (nat j, d, f) (nat j, d, f')" if j: "item_index items r = Some j" for j
  proof -
    have rep: "keeps_flag_report sem body items successors (Suc k)" using m k1 by (simp add: mirrors_def)
    note l = landing [OF c k1 rep run(1), unfolded fst_conv, OF j]
    have "x \<notin> changed_flags" if "x \<in> exposed_flags items successors (nat j)" for x
      using s l(1) that unfolding exchanged_site_def dead_after_def exposed_flags_def by blast
    then show ?thesis unfolding mirrored_def prod.case using f l(2,3) \<open>Suc k \<notin> ks\<close> by simp
  qed
  then show "rel_option (\<lambda>r q. fst r = fst q \<and> fst (snd r) = fst (snd q) \<and>
      (\<forall>j. item_index items (fst r) = Some j \<longrightarrow>
        mirrored items image_items successors ks (nat j, fst (snd r), snd (snd r)) (nat j, fst (snd q), snd (snd q))))
      (sem (it_offset (items ! Suc k)) (item_code body (items ! Suc k)) d f)
      (sem (it_offset (image_items ! Suc k)) (item_code img (image_items ! Suc k)) d f')"
    unfolding run by simp
qed

lemma plain_step:
  assumes m: "mirrors sem rv mv body img items image_items successors entries ks"
    and k: "k < length items" "k \<notin> ks" "k \<notin> Suc ` ks" and f: "\<forall>x. x \<notin> changed_flags \<longrightarrow> f x = f' x"
    and e: "\<forall>x \<in> exposed_flags items successors k. f x = f' x"
  shows "rel_option (mirrored items image_items successors ks)
    (relational_step sem body items (k, d, f)) (relational_step sem img image_items (k, d, f'))"
proof (rule step_related)
  have c: "relational_certificate body img items image_items successors entries ks" using m by (simp add: mirrors_def)
  then show "item_index image_items = item_index items" by (simp add: relational_certificate_def same_index)
  have shape: "same_shape (items ! k) (image_items ! k)" using c k by (simp add: relational_certificate_def list_all2_nthD)
  have "item_code img (items ! k) = item_code body (items ! k)" using c k by (simp add: relational_certificate_def)
  then have code: "item_code img (image_items ! k) = item_code body (items ! k)" "it_offset (image_items ! k) = it_offset (items ! k)"
    using shape by (simp_all add: item_code_def same_shape_def)
  have rep: "keeps_flag_report sem body items successors k" using m k(1) by (simp add: mirrors_def)
  let ?run = "sem (it_offset (items ! k)) (item_code body (items ! k)) d"
  have out: "rel_option (same_outcome (it_writes (items ! k)) f f') (?run f) (?run f')"
    using conjunct1 [OF rep [unfolded keeps_flag_report_def Let_def]] e exposed_reads [OF k(1)] by simp
  have "mirrored items image_items successors ks (nat j, fst (snd r), snd (snd r)) (nat j, fst (snd q), snd (snd q))"
    if r: "?run f = Some r" "same_outcome (it_writes (items ! k)) f f' r q" and j: "item_index items (fst r) = Some j" for r q j
  proof -
    note l = landing [OF c k(1) rep r(1) j]
    have "snd (snd r) x = snd (snd q) x" if "x \<in> exposed_flags items successors (nat j)" for x
      using exposed_passes [OF k(1) l(1) that] e r(2) unfolding same_outcome_def by blast
    then show ?thesis unfolding mirrored_def prod.case using f r(2) l(2,3) k(2) by (simp add: same_outcome_def)
  qed
  then have "rel_option (\<lambda>r q. fst r = fst q \<and> fst (snd r) = fst (snd q) \<and>
      (\<forall>j. item_index items (fst r) = Some j \<longrightarrow>
        mirrored items image_items successors ks (nat j, fst (snd r), snd (snd r)) (nat j, fst (snd q), snd (snd q)))) (?run f) (?run f')"
    by (intro option.rel_mono_strong [OF out]) (simp add: same_outcome_def)
  then show "rel_option (\<lambda>r q. fst r = fst q \<and> fst (snd r) = fst (snd q) \<and>
      (\<forall>j. item_index items (fst r) = Some j \<longrightarrow>
        mirrored items image_items successors ks (nat j, fst (snd r), snd (snd r)) (nat j, fst (snd q), snd (snd q))))
      (?run f) (sem (it_offset (image_items ! k)) (item_code img (image_items ! k)) d f')"
    by (simp only: code)
qed

lemma mirrored_step:
  assumes m: "mirrors sem rv mv body img items image_items successors entries ks"
    and s: "mirrored items image_items successors ks s t"
  shows "rel_option (mirrored items image_items successors ks) (relational_step sem body items s) (relational_step sem img image_items t)"
proof -
  obtain k d f f' where st: "s = (k, d, f)" "t = (k, d, f')" "k < length items" "\<forall>x. x \<notin> changed_flags \<longrightarrow> f x = f' x"
      "if k \<in> Suc ` ks then branch_taken (items ! k) f = branch_taken (image_items ! k) f' else (\<forall>x \<in> exposed_flags items successors k. f x = f' x)"
    using s by (cases s; cases t) (auto simp: mirrored_def)
  consider (branch) c where "k = Suc c" "c \<in> ks" | (compare) "k \<in> ks" | (plain) "k \<notin> ks" "k \<notin> Suc ` ks" by blast
  then show ?thesis
  proof cases
    case branch
    then show ?thesis using branch_step [OF m branch(2) st(4)] st(1,2,5) by simp
  next
    case compare
    then show ?thesis using compare_step [OF m compare st(3,4)] st(1,2) by simp
  next
    case plain
    then show ?thesis using plain_step [OF m st(3) plain st(4)] st(1,2,5) by simp
  qed
qed

interpretation relational_runs: lockstep "relational_step sem body items" "relational_step sem img image_items"
    "\<lambda>s t. mirrors sem rv mv body img items image_items successors entries ks \<and> mirrored items image_items successors ks s t"
  for sem :: "'d flag_semantics" and rv mv and body img :: bytes and items image_items successors entries ks
  by unfold_locales (auto intro: option.rel_mono_strong [OF mirrored_step])

lemma starts_mirrored:
  assumes c: "relational_certificate body img items image_items successors entries ks" and e: "e \<in> set entries"
  shows "mirrored items image_items successors ks (nat e, d, f) (nat e, d, f)"
proof -
  have q: "entry_quiet items successors e" using c e by (simp add: relational_certificate_def)
  have "branch_taken (items ! Suc k) f = branch_taken (image_items ! Suc k) f" if k: "k \<in> ks" "nat e = Suc k" for k
  proof -
    have s: "exchanged_site body img items image_items successors k" using c k(1) by (simp add: relational_certificate_def)
    then obtain cc c' where cc: "it_condition (items ! Suc k) = Some cc" "it_condition (image_items ! Suc k) = Some c'"
        "(cc, c') \<in> set mirror_codes" "it_reads (items ! Suc k) = condition_flags cc" "Suc k < length items"
      unfolding exchanged_site_def by blast
    have "x \<notin> changed_flags" if "x \<in> condition_flags cc" for x
      using exposed_reads [OF cc(5), of x successors] q k(2) cc(4) that by (auto simp: entry_quiet_def exposed_flags_def)
    then have "c' = cc" using mirror_code_flags(3) [OF cc(3)] by blast
    then show ?thesis using cc(1,2) by (simp add: branch_taken_def)
  qed
  then show ?thesis unfolding mirrored_def prod.case using q by (auto simp: entry_quiet_def)
qed

text \<open>
  C5. An accepted relational form keeps what the body does.  Take a body and sites that
  \<^verbatim>\<open>apply_relational_form\<close> accepts, and a semantics of instruction bytes that depends on the
  flags no further than the flag table reports, follows the control-flow graph, and at the sites
  of the body and the image compares the operands the bytes name and branches on the condition.
  From the entry and from every declared external entry, the body and its image then run in
  lock step: at every step they stand at the same instruction with the same registers and
  memory, agree on every flag the exchange preserves and, outside the gap between a compare and its branch, on
  every flag some path still reads; and they stop together.
\<close>

theorem relational_form_sound:
  assumes a: "apply_relational_form body sites relocation_offsets relocations code_length ext = Inr (img, proved, rewritten)"
    and w: "ia32_relational_flow_walk body relocations code_length ext = Inr (items, successors, entries)"
    and w': "ia32_relational_flow_walk img relocations code_length ext = Inr (image_items, successors', entries')"
    and r: "\<forall>k < length items. keeps_flag_report sem body items successors k"
    and s: "\<forall>k \<in> site_indices items proved.
        acts_compare sem rv mv body (items ! k) \<and> acts_branch sem body (items ! Suc k)
        \<and> acts_compare sem rv mv img (image_items ! k) \<and> acts_branch sem img (image_items ! Suc k)"
    and e: "e \<in> set entries"
  shows "rel_option (mirrored items image_items successors (site_indices items proved))
    (iterate (relational_step sem body items) n (nat e, d, f))
    (iterate (relational_step sem img image_items) n (nat e, d, f))"
proof -
  let ?ks = "site_indices items proved"
  have c: "relational_certificate body img items image_items successors entries ?ks"
    by (rule accepted_certificate(1) [OF a w w'])
  then have "mirrors sem rv mv body img items image_items successors entries ?ks" using r s by (simp add: mirrors_def)
  then have "rel_option (\<lambda>s t. mirrors sem rv mv body img items image_items successors entries ?ks \<and> mirrored items image_items successors ?ks s t)
      (iterate (relational_step sem body items) n (nat e, d, f)) (iterate (relational_step sem img image_items) n (nat e, d, f))"
    using starts_mirrored [OF c e] by (intro relational_runs.runs) simp
  then show ?thesis by (rule option.rel_mono_strong) simp
qed

text \<open>\<^verbatim>\<open>cmp eax, ecx; jl +1; nop; ret\<close> and its image \<^verbatim>\<open>cmp ecx, eax; jg +1; nop; ret\<close>.\<close>

abbreviation less_body :: bytes where
  "less_body \<equiv> [0x3B, 0xC1, 0x7C, 1, 0x90, 0xC3]"

abbreviation less_image :: bytes where
  "less_image \<equiv> [0x39, 0xC1, 0x7F, 1, 0x90, 0xC3]"

abbreviation less_site :: relational_site where
  "less_site \<equiv> \<lparr>rs_compare_offset = 0, rs_branch_offset = 2, rs_seed_condition = ''l'', rs_image_condition = ''g'', rs_reencode = False\<rparr>"

definition less_proved :: proved_site where
  "less_proved = \<lparr>pv_compare_offset = 0, pv_branch_offset = 2, pv_seed_condition = ''l'', pv_image_condition = ''g'',
     pv_seed_compare_opcode = 59, pv_image_compare_opcode = 57, pv_flags_live_out = {}\<rparr>"

definition less_items :: "int \<Rightarrow> int \<Rightarrow> int \<Rightarrow> string set \<Rightarrow> flow_item list" where
  "less_items op jcc condition flags =
     [\<lparr>it_offset = 0, it_length = 2, it_opcode = op, it_opcode_at = 0, it_flow = ''fall'', it_target = None,
       it_condition = None, it_reads = {}, it_writes = arithmetic_flags\<rparr>,
      \<lparr>it_offset = 2, it_length = 2, it_opcode = jcc, it_opcode_at = 2, it_flow = ''jcc'', it_target = Some 5,
       it_condition = Some condition, it_reads = flags, it_writes = {}\<rparr>,
      \<lparr>it_offset = 4, it_length = 1, it_opcode = 144, it_opcode_at = 4, it_flow = ''fall'', it_target = None,
       it_condition = None, it_reads = {}, it_writes = {}\<rparr>,
      \<lparr>it_offset = 5, it_length = 1, it_opcode = 195, it_opcode_at = 5, it_flow = ''ret'', it_target = None,
       it_condition = None, it_reads = {}, it_writes = {}\<rparr>]"

lemma less_accepted:
  "apply_relational_form less_body [less_site] {} (\<lambda>_. None) None {} = Inr (less_image, [less_proved], [0, 2])"
  "ia32_relational_flow_walk less_body (\<lambda>_. None) None {} = Inr (less_items 59 124 12 {''sf'', ''of''}, [[1], [2, 3], [3], []], [0])"
  "ia32_relational_flow_walk less_image (\<lambda>_. None) None {} = Inr (less_items 57 127 15 {''zf'', ''sf'', ''of''}, [[1], [2, 3], [3], []], [0])"
  by code_simp+

text \<open>A processor with two registers that knows these instructions.\<close>

definition set_flags :: "int \<times> int \<Rightarrow> flags \<Rightarrow> flags" where
  "set_flags v f = (\<lambda>x. if x \<in> arithmetic_flags then width_flags 32 v x else f x)"

definition less_semantics :: "(int \<times> int) flag_semantics" where
  "less_semantics off code d f =
     (if code = [0x3B, 0xC1] then Some (2, d, set_flags d f)
      else if code = [0x39, 0xC1] then Some (2, d, set_flags (prod.swap d) f)
      else if code = [0x7C, 1] then Some (if condition_holds 12 f then 5 else 4, d, f)
      else if code = [0x7F, 1] then Some (if condition_holds 15 f then 5 else 4, d, f)
      else if code = [0x90] then Some (5, d, f) else None)"

definition less_registers :: "int \<times> int \<Rightarrow> int \<Rightarrow> int \<Rightarrow> int" where
  "less_registers d w r = (if r = 0 then fst d else snd d)"

lemma less_code:
  "item_code less_body (less_items o1 j c fl ! 0) = [0x3B, 0xC1]" "item_code less_image (less_items o1 j c fl ! 0) = [0x39, 0xC1]"
  "item_code less_body (less_items o1 j c fl ! 1) = [0x7C, 1]" "item_code less_image (less_items o1 j c fl ! 1) = [0x7F, 1]"
  "item_code less_body (less_items o1 j c fl ! 2) = [0x90]" "item_code less_body (less_items o1 j c fl ! 3) = [0xC3]"
  by (simp_all add: less_items_def item_code_def pslice_def slice_bound_def)

lemma less_index:
  "item_index (less_items o1 j c fl) 2 = Some 1" "item_index (less_items o1 j c fl) 4 = Some 2" "item_index (less_items o1 j c fl) 5 = Some 3"
  by (simp_all add: less_items_def item_index_def enumerate_int_def pyrange_def upto_rec_numeral upto_rec1)

lemma less_fields:
  "it_offset (less_items o1 j c fl ! 0) = 0" "it_length (less_items o1 j c fl ! 0) = 2"
  "it_reads (less_items o1 j c fl ! 0) = {}" "it_writes (less_items o1 j c fl ! 0) = arithmetic_flags"
  "it_offset (less_items o1 j c fl ! 1) = 2" "it_length (less_items o1 j c fl ! 1) = 2" "it_target (less_items o1 j c fl ! 1) = Some 5"
  "it_condition (less_items o1 j c fl ! 1) = Some c" "it_reads (less_items o1 j c fl ! 1) = fl" "it_writes (less_items o1 j c fl ! 1) = {}"
  "it_offset (less_items o1 j c fl ! 2) = 4" "it_reads (less_items o1 j c fl ! 2) = {}" "it_writes (less_items o1 j c fl ! 2) = {}"
  "it_offset (less_items o1 j c fl ! 3) = 5" "length (less_items o1 j c fl) = 4"
  by (simp_all add: less_items_def)

lemma less_reports:
  assumes "k < length (less_items 59 124 12 {''sf'', ''of''})"
  shows "keeps_flag_report less_semantics less_body (less_items 59 124 12 {''sf'', ''of''}) [[1], [2, 3], [3], []] k"
proof -
  let ?r = "keeps_flag_report less_semantics less_body (less_items 59 124 12 {''sf'', ''of''}) [[1], [2, 3], [3], []]"
  have "?r 0" unfolding keeps_flag_report_def Let_def less_code less_fields
    by (simp add: less_semantics_def same_outcome_def set_flags_def less_index)
  moreover have "?r 1" unfolding keeps_flag_report_def Let_def less_code less_fields
    by (simp add: less_semantics_def same_outcome_def less_index condition_holds_def)
  moreover have "?r 2" unfolding keeps_flag_report_def Let_def less_code less_fields
    by (simp add: less_semantics_def same_outcome_def less_index)
  moreover have "?r 3" unfolding keeps_flag_report_def Let_def less_code less_fields
    by (simp add: less_semantics_def)
  moreover have "k = 0 \<or> k = 1 \<or> k = 2 \<or> k = 3" using assms unfolding less_fields by linarith
  ultimately show ?thesis by blast
qed

lemma less_sites: "site_indices (less_items 59 124 12 {''sf'', ''of''}) [less_proved] = {0}"
proof -
  have "k = 0" if "k < 4" "it_offset (less_items 59 124 12 {''sf'', ''of''} ! k) = 0" for k
  proof -
    have "k = 0 \<or> k = 1 \<or> k = 2 \<or> k = 3" using that(1) by linarith
    then show ?thesis using that(2) less_fields(5,11,14) [of 59 124 12] by (elim disjE) simp_all
  qed
  then show ?thesis using less_fields(1) [of 59 124 12] by (auto simp: site_indices_def less_proved_def less_fields(15))
qed

lemma less_laws:
  "acts_compare less_semantics less_registers (\<lambda>_ _ _ _ _. None) less_body (less_items 59 124 12 {''sf'', ''of''} ! 0)"
  "acts_compare less_semantics less_registers (\<lambda>_ _ _ _ _. None) less_image (less_items 57 127 15 {''zf'', ''sf'', ''of''} ! 0)"
  "acts_branch less_semantics less_body (less_items 59 124 12 {''sf'', ''of''} ! 1)"
  "acts_branch less_semantics less_image (less_items 57 127 15 {''zf'', ''sf'', ''of''} ! 1)"
proof -
  have v: "compare_values (less_registers d) (\<lambda>_ _ _ _. None) less_body (less_items 59 124 12 {''sf'', ''of''} ! 0) = Some d"
    "compare_width less_body (less_items 59 124 12 {''sf'', ''of''} ! 0) = 32" for d
    by (simp_all add: compare_values_def Let_def compare_width_def modrm_of_def less_items_def less_registers_def)
  have v': "compare_values (less_registers d) (\<lambda>_ _ _ _. None) less_image (less_items 57 127 15 {''zf'', ''sf'', ''of''} ! 0) = Some (prod.swap d)"
    "compare_width less_image (less_items 57 127 15 {''zf'', ''sf'', ''of''} ! 0) = 32" for d
    by (simp_all add: compare_values_def Let_def compare_width_def modrm_of_def less_items_def less_registers_def prod.swap_def)
  show "acts_compare less_semantics less_registers (\<lambda>_ _ _ _ _. None) less_body (less_items 59 124 12 {''sf'', ''of''} ! 0)"
    "acts_compare less_semantics less_registers (\<lambda>_ _ _ _ _. None) less_image (less_items 57 127 15 {''zf'', ''sf'', ''of''} ! 0)"
    unfolding acts_compare_def v v' less_code less_fields by (simp_all add: less_semantics_def set_flags_def)
  show "acts_branch less_semantics less_body (less_items 59 124 12 {''sf'', ''of''} ! 1)"
    "acts_branch less_semantics less_image (less_items 57 127 15 {''zf'', ''sf'', ''of''} ! 1)"
    unfolding acts_branch_def branch_taken_def less_code less_fields by (simp_all add: less_semantics_def)
qed

theorem relational_form_sound_witness:
  "\<forall>n d f. rel_option (mirrored (less_items 59 124 12 {''sf'', ''of''}) (less_items 57 127 15 {''zf'', ''sf'', ''of''}) [[1], [2, 3], [3], []] {0})
     (iterate (relational_step less_semantics less_body (less_items 59 124 12 {''sf'', ''of''})) n (0, d, f))
     (iterate (relational_step less_semantics less_image (less_items 57 127 15 {''zf'', ''sf'', ''of''})) n (0, d, f))"
proof (intro allI)
  fix n :: nat and d :: "int \<times> int" and f :: flags
  have s: "\<forall>k \<in> site_indices (less_items 59 124 12 {''sf'', ''of''}) [less_proved].
      acts_compare less_semantics less_registers (\<lambda>_ _ _ _ _. None) less_body (less_items 59 124 12 {''sf'', ''of''} ! k)
      \<and> acts_branch less_semantics less_body (less_items 59 124 12 {''sf'', ''of''} ! Suc k)
      \<and> acts_compare less_semantics less_registers (\<lambda>_ _ _ _ _. None) less_image (less_items 57 127 15 {''zf'', ''sf'', ''of''} ! k)
      \<and> acts_branch less_semantics less_image (less_items 57 127 15 {''zf'', ''sf'', ''of''} ! Suc k)"
    unfolding less_sites using less_laws by simp
  have r: "\<forall>k < length (less_items 59 124 12 {''sf'', ''of''}).
      keeps_flag_report less_semantics less_body (less_items 59 124 12 {''sf'', ''of''}) [[1], [2, 3], [3], []] k"
    using less_reports by blast
  show "rel_option (mirrored (less_items 59 124 12 {''sf'', ''of''}) (less_items 57 127 15 {''zf'', ''sf'', ''of''}) [[1], [2, 3], [3], []] {0})
     (iterate (relational_step less_semantics less_body (less_items 59 124 12 {''sf'', ''of''})) n (0, d, f))
     (iterate (relational_step less_semantics less_image (less_items 57 127 15 {''zf'', ''sf'', ''of''})) n (0, d, f))"
    using relational_form_sound [OF less_accepted r s, of 0 n d f] unfolding less_sites by simp
qed

end
