(* ===== verification/Codeview.thy ===== *)
theory Codeview
  imports Register_Bijection Json_Values
begin

text \<open>
  The CodeView symbol records of an object's \<^verbatim>\<open>.debug$S\<close> section, from
  \<^verbatim>\<open>src/reprobit/classic/debug.py\<close>, and the rewrite of their \<^verbatim>\<open>S_REGISTER\<close> fields that
  accompanies a register bijection, from \<^verbatim>\<open>src/reprobit/classic/register_bijection.py\<close>.  The
  mapping and the declared records have been typed by the certificate's validator, so the
  payload scans of the two declarations, with which the code begins, are not repeated here.
\<close>

section \<open>The symbol record stream\<close>

record codeview_record =
  cv_offset :: int
  cv_size :: int
  cv_type :: int
  cv_name :: string

definition codeview_symbol_name_offsets :: "(int \<times> int option) list" where
  "codeview_symbol_name_offsets =
     [(2, Some 4), (6, None), (512, Some 6), (513, Some 8), (516, Some 33), (517, Some 33), (521, Some 7)]"

definition latin1_decode :: "bytes \<Rightarrow> string" where
  "latin1_decode bs = map (\<lambda>b. char_of (unat b)) bs"

text \<open>The name of one record's payload.\<close>

definition codeview_name :: "int option \<Rightarrow> bytes \<Rightarrow> string result" where
  "codeview_name name_offset payload =
     (case name_offset of
        None \<Rightarrow> require (payload = []) ''terminator record carries a payload'' (Inr '''')
      | Some at \<Rightarrow>
          require (at < len payload) ''symbol record has no name field''
           (rbind (byte_at payload at) (\<lambda>count.
            require (len payload = at + 1 + count) ''symbol record name length is inconsistent''
              (Inr (latin1_decode (slice_from payload (at + 1)))))))"

definition codeview_record_at :: "bytes \<Rightarrow> int \<Rightarrow> codeview_record result" where
  "codeview_record_at data offset =
     require (offset + 4 \<le> len data) ''symbol record header is truncated''
      (let count = from_bytes (pslice data offset (offset + 2)); total = count + 2
       in require (2 \<le> count \<and> offset + total \<le> len data) ''symbol record length is out of range''
        (let record_type = from_bytes (pslice data (offset + 2) (offset + 4))
         in case map_of codeview_symbol_name_offsets record_type of
              None \<Rightarrow> Inl (ByteIdentityError ''symbol record type is outside the closed table'')
            | Some name_offset \<Rightarrow>
                rbind (codeview_name name_offset (pslice data (offset + 4) (offset + total))) (\<lambda>name.
                Inr \<lparr>cv_offset = offset, cv_size = total, cv_type = record_type, cv_name = name\<rparr>)))"

lemma codeview_record_at_size:
  "codeview_record_at data offset = Inr r \<Longrightarrow>
   cv_offset r = offset \<and> 4 \<le> cv_size r \<and> offset + cv_size r \<le> len data"
  by (auto simp: codeview_record_at_def Let_def split: option.splits)

function codeview_records_from :: "bytes \<Rightarrow> int \<Rightarrow> codeview_record list result" where
  "codeview_records_from data offset =
     (if offset < len data
      then case codeview_record_at data offset of
             Inl e \<Rightarrow> Inl e
           | Inr r \<Rightarrow> rbind (codeview_records_from data (offset + cv_size r)) (\<lambda>rs. Inr (r # rs))
      else require (offset = len data) ''symbol stream does not parse to exhaustion'' (Inr []))"
  by pat_completeness auto
termination
  by (relation "measure (\<lambda>(data, offset). nat (len data - offset))")
     (auto dest!: codeview_record_at_size)

declare codeview_records_from.simps [simp del]

definition parse_codeview_symbol_stream :: "bytes \<Rightarrow> codeview_record list result" where
  "parse_codeview_symbol_stream data = codeview_records_from data 0"

definition codeview_symbol_identity :: "codeview_record \<Rightarrow> int \<times> string" where
  "codeview_symbol_identity r =
     (cv_type r, case local_symbol_kind (cv_name r) of Some kind \<Rightarrow> CHR ''$'' # kind | None \<Rightarrow> cv_name r)"

section \<open>The rewrite of the register records\<close>

definition register_bijection_delegate :: "string list \<Rightarrow> bool \<Rightarrow> bool \<Rightarrow> string" where
  "register_bijection_delegate expected_closure has_code_renames has_relocation_moves =
     (if has_relocation_moves then ''equal_body_eh_reloc_layout''
      else if expected_closure = [''.debug$F'', ''.debug$S''] \<and> \<not> has_code_renames then ''equal_body_strict''
      else ''equal_body_eh_structural_local'')"

definition codeview_x86_register_numbers :: "(string \<times> int) list" where
  "codeview_x86_register_numbers =
     [(''eax'', 17), (''ecx'', 18), (''edx'', 19), (''ebx'', 20), (''esp'', 21), (''ebp'', 22),
      (''esi'', 23), (''edi'', 24)]"

definition codeview_register_field :: "codeview_record \<Rightarrow> int result" where
  "codeview_register_field r =
     (let field_at = cv_offset r + 4 + 2
      in require (field_at + 2 \<le> cv_offset r + cv_size r) ''S_REGISTER record has no register field''
           (Inr field_at))"

definition codeview_register_name :: "bytes \<Rightarrow> int \<Rightarrow> string result" where
  "codeview_register_name stream field_at =
     (let number = from_bytes (pslice stream field_at (field_at + 2))
      in case find (\<lambda>(_, v). v = number) codeview_x86_register_numbers of
           None \<Rightarrow> Inl (ByteIdentityError ''S_REGISTER names a non-general register'')
         | Some (name, _) \<Rightarrow> Inr name)"

text \<open>\<^verbatim>\<open>image[a:b] = new\<close> on a \<^verbatim>\<open>bytearray\<close>.\<close>

definition slice_assign :: "bytes \<Rightarrow> int \<Rightarrow> int \<Rightarrow> bytes \<Rightarrow> bytes" where
  "slice_assign img a b new =
     (let s = slice_bound (len img) a; e = max s (slice_bound (len img) b)
      in take (nat s) img @ new @ drop (nat e) img)"

definition write_register :: "bytes \<Rightarrow> int \<Rightarrow> string \<Rightarrow> bytes result" where
  "write_register img field_at name =
     rbind (dict_item codeview_x86_register_numbers name) (\<lambda>number.
       Inr (slice_assign img field_at (field_at + 2) (to_bytes 2 number)))"

record declared_register =
  dr_name :: string
  dr_record_offset :: int
  dr_donor_register :: string
  dr_image_register :: string

text \<open>One record of the stream without a donor: \<^verbatim>\<open>continue\<close> is the unchanged state.\<close>

definition map_register_record ::
    "register_mapping \<Rightarrow> bytes \<times> declared_register list \<Rightarrow> codeview_record \<Rightarrow>
     (bytes \<times> declared_register list) result" where
  "map_register_record mapping s r =
     (case s of (img, seen) \<Rightarrow>
       if cv_type r \<noteq> 2 then Inr (img, seen)
       else rbind (codeview_register_field r) (\<lambda>field_at.
         case codeview_register_name img field_at of
           Inl _ \<Rightarrow> Inr (img, seen)
         | Inr name \<Rightarrow>
             (case map_of mapping name of
                None \<Rightarrow> Inr (img, seen)
              | Some image_name \<Rightarrow>
                  rbind (write_register img field_at image_name) (\<lambda>img.
                  Inr (img, seen @ [\<lparr>dr_name = cv_name r, dr_record_offset = cv_offset r,
                                     dr_donor_register = name, dr_image_register = image_name\<rparr>])))))"

text \<open>With a donor: the bytes in which the two streams may differ, and the two passes of writes.\<close>

definition movable_bytes :: "codeview_record \<times> codeview_record \<Rightarrow> int set result" where
  "movable_bytes pair =
     (case pair of (seed, donor) \<Rightarrow>
       if cv_type seed = 2
       then rbind (codeview_register_field seed) (\<lambda>field_at. Inr {field_at, field_at + 1})
       else if cv_name seed = cv_name donor then Inr {}
       else let kind = local_symbol_kind (cv_name seed)
            in require (kind \<noteq> None \<and> kind = local_symbol_kind (cv_name donor)
                        \<and> length (cv_name seed) = length (cv_name donor))
                 ''the donor's debug$S renames a non-local symbol''
                (case map_of codeview_symbol_name_offsets (cv_type seed) of
                   None \<Rightarrow> Inl KeyError
                 | Some None \<Rightarrow> Inl TypeError
                 | Some (Some at) \<Rightarrow>
                     let name_at = cv_offset seed + 4 + at + 1
                     in Inr {name_at..<name_at + len (cv_name seed)}))"

definition take_donor_register :: "bytes \<Rightarrow> bytes \<Rightarrow> codeview_record \<Rightarrow> bytes result" where
  "take_donor_register donor img r =
     (if cv_type r \<noteq> 2 then Inr img
      else rbind (codeview_register_field r) (\<lambda>field_at.
           rbind (codeview_register_name donor field_at) (write_register img field_at)))"

definition map_declared_record ::
    "register_mapping \<Rightarrow> bytes \<Rightarrow> codeview_record list \<Rightarrow> bytes \<Rightarrow> declared_register \<Rightarrow> bytes result" where
  "map_declared_record mapping donor records img d =
     (case map_of (rev (map (\<lambda>r. (cv_offset r, r)) records)) (dr_record_offset d) of
        None \<Rightarrow> Inl (ByteIdentityError ''the S_REGISTER map names no such record'')
      | Some r \<Rightarrow>
          require (cv_type r = 2 \<and> cv_name r = dr_name d) ''the S_REGISTER map names no such record''
           (rbind (codeview_register_field r) (\<lambda>field_at.
            rbind (codeview_register_name donor field_at) (\<lambda>name.
            require (name = dr_donor_register d \<and> map_of mapping name = Some (dr_image_register d))
              ''the S_REGISTER map differs from its declaration''
              (write_register img field_at (dr_image_register d))))))"

definition apply_with_donor ::
    "bytes \<Rightarrow> register_mapping \<Rightarrow> declared_register list \<Rightarrow> codeview_record list \<Rightarrow> bytes \<Rightarrow> bytes result" where
  "apply_with_donor stream mapping declared records donor =
     rbind (parse_codeview_symbol_stream donor) (\<lambda>donor_records.
     require (map (\<lambda>r. (cv_offset r, cv_size r, cv_type r)) donor_records
              = map (\<lambda>r. (cv_offset r, cv_size r, cv_type r)) records)
       ''the donor's debug$S record list differs from the seed's'' (
     rbind (rmap movable_bytes (zip records donor_records)) (\<lambda>movable.
     rbind (rmap (\<lambda>k. rbind (item stream k) (\<lambda>a. rbind (item donor k) (\<lambda>b. Inr (a = b \<or> k \<in> \<Union> (set movable)))))
              (pyrange 0 (len stream))) (\<lambda>same.
     require (list_all id same)
       ''the donor's debug$S differs outside its S_REGISTER fields and object-local names'' (
     rbind (rfold (take_donor_register donor) stream records) (\<lambda>img.
     require (distinct (map dr_record_offset declared)) ''the S_REGISTER map declares a record twice'' (
     rfold (map_declared_record mapping donor records) img declared)))))))"

definition apply_codeview_register_bijection ::
    "bytes \<Rightarrow> register_mapping \<Rightarrow> declared_register list \<Rightarrow> bytes option \<Rightarrow> bytes result" where
  "apply_codeview_register_bijection stream mapping declared donor_stream =
     rbind (parse_codeview_symbol_stream stream) (\<lambda>records.
     rbind (case donor_stream of
              None \<Rightarrow> rbind (rfold (map_register_record mapping) (stream, []) records) (\<lambda>(img, seen).
                        require (seen = declared) ''the S_REGISTER map differs from its declaration'' (Inr img))
            | Some donor \<Rightarrow> apply_with_donor stream mapping declared records donor) (\<lambda>output.
     rbind (parse_codeview_symbol_stream output) (\<lambda>image_records.
     require (image_records = records) ''the mapped stream is not the same record list'' (Inr output))))"

section \<open>Tiling\<close>

lemma codeview_records_tile:
  assumes "codeview_records_from data offset = Inr rs" "0 \<le> offset" "offset \<le> len data"
  shows "(\<forall>r \<in> set rs. offset \<le> cv_offset r \<and> codeview_record_at data (cv_offset r) = Inr r)
    \<and> sorted_wrt (\<lambda>a b. cv_offset a + cv_size a \<le> cv_offset b) rs
    \<and> concat (map (\<lambda>r. pslice data (cv_offset r) (cv_offset r + cv_size r)) rs) = pslice data offset (len data)"
  using assms
proof (induction data offset arbitrary: rs rule: codeview_records_from.induct)
  case (1 data offset)
  show ?case
  proof (cases "offset < len data")
    case False
    have "rs = []"
      using "1.prems"(1) False unfolding codeview_records_from.simps [of data offset] by simp
    then show ?thesis using False "1.prems" by simp
  next
    case True
    then obtain r rs' where r: "codeview_record_at data offset = Inr r"
      and rest: "codeview_records_from data (offset + cv_size r) = Inr rs'" and rs: "rs = r # rs'"
      using "1.prems" by (auto simp: codeview_records_from.simps [of data offset] split: sum.splits)
    note size = codeview_record_at_size [OF r]
    have "(\<forall>q \<in> set rs'. offset + cv_size r \<le> cv_offset q \<and> codeview_record_at data (cv_offset q) = Inr q)
        \<and> sorted_wrt (\<lambda>a b. cv_offset a + cv_size a \<le> cv_offset b) rs'
        \<and> concat (map (\<lambda>r. pslice data (cv_offset r) (cv_offset r + cv_size r)) rs')
          = pslice data (offset + cv_size r) (len data)"
      using "1.IH" [OF True r rest] size "1.prems"(2) by simp
    moreover have "pslice data offset (offset + cv_size r) @ pslice data (offset + cv_size r) (len data)
        = pslice data offset (len data)"
      using size "1.prems"(2) by (intro pslice_append) auto
    ultimately show ?thesis using r size by (auto simp: rs)
  qed
qed

lemma codeview_stream_tile:
  assumes "parse_codeview_symbol_stream data = Inr rs"
  shows "\<forall>r \<in> set rs. 0 \<le> cv_offset r \<and> codeview_record_at data (cv_offset r) = Inr r"
    and "sorted_wrt (\<lambda>a b. cv_offset a + cv_size a \<le> cv_offset b) rs"
    and "concat (map (\<lambda>r. pslice data (cv_offset r) (cv_offset r + cv_size r)) rs) = data"
  using codeview_records_tile [OF assms [unfolded parse_codeview_symbol_stream_def]] by auto

section \<open>Writing one register field\<close>

definition register_field_value :: "bytes \<Rightarrow> codeview_record \<Rightarrow> int" where
  "register_field_value bs r = from_bytes (pslice bs (cv_offset r + 6) (cv_offset r + 6 + 2))"

definition in_register_field :: "codeview_record list \<Rightarrow> nat \<Rightarrow> bool" where
  "in_register_field records p =
     list_ex (\<lambda>r. cv_type r = 2 \<and> cv_offset r + 6 \<le> int p \<and> int p < cv_offset r + 8) records"

lemma slice_assign_inside:
  assumes "0 \<le> f" "f + int (length new) \<le> len img"
  shows "slice_assign img f (f + int (length new)) new
    = take (nat f) img @ new @ drop (nat f + length new) img"
  using assms by (simp add: slice_assign_def slice_bound_def Let_def nat_add_distrib)

lemma slice_assign_nth:
  assumes "0 \<le> f" "f + int (length new) \<le> len img" "p < length img"
  shows "slice_assign img f (f + int (length new)) new ! p
    = (if f \<le> int p \<and> int p < f + int (length new) then new ! (p - nat f) else img ! p)"
  using assms by (auto simp: slice_assign_inside nth_append min_def nat_less_iff not_less le_nat_iff)

lemma slice_assign_length:
  assumes "0 \<le> f" "f + int (length new) \<le> len img"
  shows "length (slice_assign img f (f + int (length new)) new) = length img"
  using assms by (simp add: slice_assign_inside)

lemma slice_assign_read:
  assumes "0 \<le> f" "f + int (length new) \<le> len img"
  shows "pslice (slice_assign img f (f + int (length new)) new) f (f + int (length new)) = new"
  using assms by (simp add: slice_assign_inside pslice_nonneg)

text \<open>
  A rewritten stream: every byte outside the register fields is the seed's, and the field of
  each register record holds the number that \<open>number\<close> gives it.
\<close>

definition stream_with :: "bytes \<Rightarrow> codeview_record list \<Rightarrow> (codeview_record \<Rightarrow> int) \<Rightarrow> bytes \<Rightarrow> bool" where
  "stream_with stream records number img =
     (length img = length stream
      \<and> (\<forall>p < length stream. \<not> in_register_field records p \<longrightarrow> img ! p = stream ! p)
      \<and> (\<forall>r \<in> set records. cv_type r = 2 \<longrightarrow> register_field_value img r = number r))"

lemma stream_with_cong:
  "stream_with stream records number img \<Longrightarrow> (\<And>r. r \<in> set records \<Longrightarrow> cv_type r = 2 \<Longrightarrow> number r = number' r) \<Longrightarrow>
   stream_with stream records number' img"
  by (auto simp: stream_with_def)

definition tiled_records :: "bytes \<Rightarrow> codeview_record list \<Rightarrow> bool" where
  "tiled_records stream records =
     (list_all (\<lambda>r. 0 \<le> cv_offset r \<and> 4 \<le> cv_size r \<and> cv_offset r + cv_size r \<le> len stream
          \<and> (cv_type r = 2 \<longrightarrow> 8 \<le> cv_size r)) records
      \<and> sorted_wrt (\<lambda>a b. cv_offset a + cv_size a \<le> cv_offset b) records)"

lemma register_record_size:
  assumes "codeview_record_at data offset = Inr r" "cv_type r = 2" "0 \<le> offset"
  shows "8 \<le> cv_size r"
proof -
  have "4 < len (pslice data (offset + 4) (offset + cv_size r))"
    using assms by (auto simp: codeview_record_at_def codeview_name_def Let_def
        codeview_symbol_name_offsets_def split: option.splits if_splits)
  moreover have "offset + cv_size r \<le> len data" "4 \<le> cv_size r"
    using codeview_record_at_size [OF assms(1)] by simp_all
  ultimately show ?thesis using assms(3) by (auto simp: length_pslice split: if_splits)
qed

lemma tiled_stream:
  assumes "parse_codeview_symbol_stream stream = Inr records"
  shows "tiled_records stream records"
proof -
  have "0 \<le> cv_offset r \<and> 4 \<le> cv_size r \<and> cv_offset r + cv_size r \<le> len stream
      \<and> (cv_type r = 2 \<longrightarrow> 8 \<le> cv_size r)" if "r \<in> set records" for r
    using codeview_stream_tile(1) [OF assms] that codeview_record_at_size register_record_size by blast
  then show ?thesis
    using codeview_stream_tile(2) [OF assms] by (simp add: tiled_records_def list_all_iff)
qed

lemma tiled_distinct:
  assumes "tiled_records stream records"
  shows "distinct (map cv_offset records)"
proof -
  have "\<forall>r \<in> set records. 4 \<le> cv_size r" "sorted_wrt (\<lambda>a b. cv_offset a + cv_size a \<le> cv_offset b) records"
    using assms by (auto simp: tiled_records_def list_all_iff)
  then show ?thesis by (induction records) force+
qed

lemma tiled_apart:
  assumes t: "tiled_records stream records" and m: "a \<in> set records" "b \<in> set records"
    and n: "cv_offset a \<noteq> cv_offset b"
  shows "cv_offset a + cv_size a \<le> cv_offset b \<or> cv_offset b + cv_size b \<le> cv_offset a"
proof -
  have "sorted_wrt (\<lambda>a b. cv_offset a + cv_size a \<le> cv_offset b) records"
    using t by (simp add: tiled_records_def)
  then show ?thesis using m n by (induction records) auto
qed

lemma codeview_numbers:
  assumes "dict_item codeview_x86_register_numbers name = Inr number"
  shows "0 \<le> number \<and> number < 256 ^ 2"
proof -
  have "(name, number) \<in> set codeview_x86_register_numbers"
    using assms by (auto simp: dict_item_def dest: map_of_SomeD split: option.splits)
  then show ?thesis by (auto simp: codeview_x86_register_numbers_def)
qed

lemma write_register_stream:
  assumes s: "stream_with stream records number img" and t: "tiled_records stream records"
    and r: "r \<in> set records" "cv_type r = 2" "codeview_register_field r = Inr field_at"
    and w: "write_register img field_at name = Inr img'"
  obtains n where "dict_item codeview_x86_register_numbers name = Inr n"
    "stream_with stream records (number(r := n)) img'"
proof -
  obtain n where n: "dict_item codeview_x86_register_numbers name = Inr n"
    and img': "img' = slice_assign img field_at (field_at + 2) (to_bytes 2 n)"
    using w by (auto simp: write_register_def)
  have f: "field_at = cv_offset r + 6" "8 \<le> cv_size r"
    using r(3) by (auto simp: codeview_register_field_def Let_def)
  have len: "length img = length stream" using s by (simp add: stream_with_def)
  have rt: "0 \<le> cv_offset r" "cv_offset r + cv_size r \<le> len stream"
    using t r(1) by (auto simp: tiled_records_def list_all_iff)
  have fit: "0 \<le> field_at" "field_at + int (length (to_bytes 2 n)) \<le> len img"
    using f rt len by auto
  note facts = slice_assign_nth [OF fit] slice_assign_length [OF fit] slice_assign_read [OF fit]
  have len': "length img' = length stream" using facts(2) img' len by simp
  have out: "img' ! p = img ! p" if "p < length stream" "\<not> (field_at \<le> int p \<and> int p < field_at + 2)" for p
    using facts(1) [of p] that img' len by auto
  have own: "register_field_value img' r = n"
    using facts(3) from_to_bytes [of n 2] codeview_numbers [OF n] f(1)
    unfolding register_field_value_def img' by simp
  have other: "register_field_value img' q = register_field_value img q"
    if q: "q \<in> set records" "q \<noteq> r" "cv_type q = 2" for q
  proof -
    have "cv_offset q \<noteq> cv_offset r"
      using tiled_distinct [OF t] q r(1) by (auto simp: distinct_map inj_on_def)
    then have apart: "cv_offset q + cv_size q \<le> cv_offset r \<or> cv_offset r + cv_size r \<le> cv_offset q"
      using tiled_apart [OF t q(1) r(1)] by blast
    moreover have "0 \<le> cv_offset q" "8 \<le> cv_size q"
      using t q by (auto simp: tiled_records_def list_all_iff)
    ultimately have "pslice img' (cv_offset q + 6) (cv_offset q + 6 + 2) = pslice img (cv_offset q + 6) (cv_offset q + 6 + 2)"
      using f len len' by (intro pslice_cong out) auto
    then show ?thesis by (simp add: register_field_value_def)
  qed
  have "\<not> (field_at \<le> int p \<and> int p < field_at + 2)" if "\<not> in_register_field records p" for p
    using that r f by (auto simp: in_register_field_def list_ex_iff)
  then have "stream_with stream records (number(r := n)) img'"
    using s len' out own other unfolding stream_with_def by simp
  then show thesis using that n by blast
qed

section \<open>The loops over the records\<close>

text \<open>The number the mapping gives to the register a number names.\<close>

definition mapped_number :: "register_mapping \<Rightarrow> int \<Rightarrow> int" where
  "mapped_number mapping number =
     (case find (\<lambda>(_, v). v = number) codeview_x86_register_numbers of
        None \<Rightarrow> number
      | Some (name, _) \<Rightarrow>
          (case map_of mapping name of
             None \<Rightarrow> number
           | Some image_name \<Rightarrow>
               (case map_of codeview_x86_register_numbers image_name of None \<Rightarrow> number | Some n \<Rightarrow> n)))"

lemma register_name_number:
  assumes "codeview_register_name bs (cv_offset r + 6) = Inr name" "dict_item codeview_x86_register_numbers name = Inr n"
  shows "n = register_field_value bs r"
proof -
  obtain v where v: "find (\<lambda>(_, v). v = register_field_value bs r) codeview_x86_register_numbers = Some (name, v)"
    using assms(1) unfolding codeview_register_name_def register_field_value_def Let_def
    by (auto split: option.splits)
  then have "(name, v) \<in> set codeview_x86_register_numbers" "v = register_field_value bs r"
    unfolding find_Some_iff by (metis nth_mem, auto)
  moreover have "distinct (map fst codeview_x86_register_numbers)"
    by (simp add: codeview_x86_register_numbers_def)
  ultimately show ?thesis using assms(2) by (auto simp: dict_item_def)
qed

lemma mapped_number_name:
  assumes "codeview_register_name bs (cv_offset r + 6) = Inr name" "map_of mapping name = Some image_name"
    "dict_item codeview_x86_register_numbers image_name = Inr n"
  shows "mapped_number mapping (register_field_value bs r) = n"
  using assms
  unfolding codeview_register_name_def register_field_value_def mapped_number_def dict_item_def Let_def
  by (auto split: option.splits)

lemma map_register_records_stream:
  assumes "rfold (map_register_record mapping) (img, seen) rs = Inr (img', seen')"
    and "stream_with stream records number img" and t: "tiled_records stream records"
    and "set rs \<subseteq> set records" "distinct rs"
  shows "stream_with stream records
    (\<lambda>r. if r \<in> set rs then mapped_number mapping (number r) else number r) img'"
  using assms(1,2,4,5)
proof (induction rs arbitrary: img seen number)
  case Nil
  then show ?case by simp
next
  case (Cons r rs)
  obtain img1 seen1 where s: "map_register_record mapping (img, seen) r = Inr (img1, seen1)"
    and rest: "rfold (map_register_record mapping) (img1, seen1) rs = Inr (img', seen')"
    using Cons.prems(1) by auto
  let ?number = "number(r := mapped_number mapping (number r))"
  have "stream_with stream records ?number img1"
  proof (cases "cv_type r = 2")
    case False
    then have "img1 = img" using s by (simp add: map_register_record_def)
    then show ?thesis using Cons.prems(2) False by (auto elim: stream_with_cong)
  next
    case True
    then have v: "register_field_value img r = number r"
      using Cons.prems(2,3) by (simp add: stream_with_def)
    obtain field_at where f: "codeview_register_field r = Inr field_at"
      using s True by (auto simp: map_register_record_def)
    then have at: "field_at = cv_offset r + 6" by (simp add: codeview_register_field_def Let_def)
    consider (kept) "img1 = img" "mapped_number mapping (number r) = number r"
      | (written) name image_name where "codeview_register_name img field_at = Inr name"
          "map_of mapping name = Some image_name" "write_register img field_at image_name = Inr img1"
      using s True f v at
      by (auto simp: map_register_record_def mapped_number_def codeview_register_name_def
          register_field_value_def Let_def split: option.splits sum.splits)
    then show ?thesis
    proof cases
      case kept
      then show ?thesis using Cons.prems(2) by simp
    next
      case written
      obtain n where "dict_item codeview_x86_register_numbers image_name = Inr n"
        "stream_with stream records (number(r := n)) img1"
        using write_register_stream [OF Cons.prems(2) t _ True f written(3)] Cons.prems(3) by auto
      then show ?thesis using mapped_number_name [of img r name] written at v by simp
    qed
  qed
  from Cons.IH [OF rest this] show ?case
    using Cons.prems(3,4) by (auto elim!: stream_with_cong)
qed

lemma take_donor_registers_stream:
  assumes "rfold (take_donor_register donor) img rs = Inr img'"
    and "stream_with stream records number img" and t: "tiled_records stream records"
    and "set rs \<subseteq> set records" "distinct rs"
  shows "stream_with stream records (\<lambda>r. if r \<in> set rs then register_field_value donor r else number r) img'"
  using assms(1,2,4,5)
proof (induction rs arbitrary: img number)
  case Nil
  then show ?case by simp
next
  case (Cons r rs)
  obtain img1 where s: "take_donor_register donor img r = Inr img1"
    and rest: "rfold (take_donor_register donor) img1 rs = Inr img'"
    using Cons.prems(1) by auto
  have "stream_with stream records (number(r := register_field_value donor r)) img1"
  proof (cases "cv_type r = 2")
    case False
    then have "img1 = img" using s by (simp add: take_donor_register_def)
    then show ?thesis using Cons.prems(2) False by (auto elim: stream_with_cong)
  next
    case True
    then obtain field_at name where f: "codeview_register_field r = Inr field_at"
      and name: "codeview_register_name donor field_at = Inr name"
      and w: "write_register img field_at name = Inr img1"
      using s by (auto simp: take_donor_register_def)
    have at: "field_at = cv_offset r + 6" using f by (simp add: codeview_register_field_def Let_def)
    obtain n where "dict_item codeview_x86_register_numbers name = Inr n"
      "stream_with stream records (number(r := n)) img1"
      using write_register_stream [OF Cons.prems(2) t _ True f w] Cons.prems(3) by auto
    then show ?thesis using register_name_number name at by metis
  qed
  from Cons.IH [OF rest this] show ?case
    using Cons.prems(3,4) by (auto elim!: stream_with_cong)
qed

lemma record_at_offset:
  assumes "map_of (rev (map (\<lambda>r. (cv_offset r, r)) records)) offset = Some r"
  shows "r \<in> set records" "cv_offset r = offset"
  using map_of_SomeD [OF assms] by auto

lemma map_declared_records_stream:
  assumes "rfold (map_declared_record mapping donor records) img ds = Inr img'"
    and "stream_with stream records number img" and t: "tiled_records stream records"
  shows "stream_with stream records
    (\<lambda>r. if cv_offset r \<in> dr_record_offset ` set ds then mapped_number mapping (register_field_value donor r)
         else number r) img'"
  using assms(1,2)
proof (induction ds arbitrary: img number)
  case Nil
  then show ?case by simp
next
  case (Cons d ds)
  obtain img1 where s: "map_declared_record mapping donor records img d = Inr img1"
    and rest: "rfold (map_declared_record mapping donor records) img1 ds = Inr img'"
    using Cons.prems(1) by auto
  obtain r field_at name where r: "map_of (rev (map (\<lambda>r. (cv_offset r, r)) records)) (dr_record_offset d) = Some r"
    and two: "cv_type r = 2" and f: "codeview_register_field r = Inr field_at"
    and name: "codeview_register_name donor field_at = Inr name" "map_of mapping name = Some (dr_image_register d)"
    and w: "write_register img field_at (dr_image_register d) = Inr img1"
    using s by (auto simp: map_declared_record_def split: option.splits)
  have at: "field_at = cv_offset r + 6" using f by (simp add: codeview_register_field_def Let_def)
  note r = record_at_offset [OF r]
  obtain n where "dict_item codeview_x86_register_numbers (dr_image_register d) = Inr n"
    "stream_with stream records (number(r := n)) img1"
    using write_register_stream [OF Cons.prems(2) t r(1) two f w] by auto
  then have "stream_with stream records (number(r := mapped_number mapping (register_field_value donor r))) img1"
    using mapped_number_name [of donor r name] name at by simp
  from Cons.IH [OF rest this] show ?case
  proof (rule stream_with_cong)
    fix q assume q: "q \<in> set records"
    have "cv_offset q = cv_offset r \<longleftrightarrow> q = r"
      using tiled_distinct [OF t] q r(1) by (auto simp: distinct_map inj_on_def)
    then show "(if cv_offset q \<in> dr_record_offset ` set ds then mapped_number mapping (register_field_value donor q)
         else (number(r := mapped_number mapping (register_field_value donor r))) q) =
        (if cv_offset q \<in> dr_record_offset ` set (d # ds) then mapped_number mapping (register_field_value donor q)
         else number q)"
      using r(2) by auto
  qed
qed

lemma stream_with_itself: "stream_with stream records (register_field_value stream) stream"
  by (simp add: stream_with_def)

section \<open>Properties\<close>

text \<open>
  A symbol stream that parses is tiled by its records: they follow one another from the
  first byte to the last, each is the record that stands at its own offset, and putting their
  bytes side by side gives the stream back.
\<close>

theorem codeview_parse_tiles:
  assumes "parse_codeview_symbol_stream data = Inr records"
  shows "concat (map (\<lambda>r. pslice data (cv_offset r) (cv_offset r + cv_size r)) records) = data
    \<and> sorted_wrt (\<lambda>a b. cv_offset a + cv_size a \<le> cv_offset b) records
    \<and> (\<forall>r \<in> set records. codeview_record_at data (cv_offset r) = Inr r)"
  using codeview_stream_tile [OF assms] by auto

text \<open>
  C36.  The CodeView rewrite is exact and confined.  An accepted rewrite keeps the record list
  and every byte outside the two-byte fields of the register records.  Without a donor each
  register record names the mapping's image of the register it named; with one it names the
  donor's register, mapped exactly when the record is declared.
\<close>

theorem codeview_bijection_exact:
  assumes a: "apply_codeview_register_bijection stream mapping declared donor_stream = Inr output"
    and p: "parse_codeview_symbol_stream stream = Inr records"
  shows "parse_codeview_symbol_stream output = Inr records \<and> length output = length stream
    \<and> (\<forall>p < length stream. \<not> in_register_field records p \<longrightarrow> output ! p = stream ! p)
    \<and> (\<forall>r \<in> set records. cv_type r = 2 \<longrightarrow>
         register_field_value output r =
           (case donor_stream of
              None \<Rightarrow> mapped_number mapping (register_field_value stream r)
            | Some donor \<Rightarrow>
                if cv_offset r \<in> dr_record_offset ` set declared
                then mapped_number mapping (register_field_value donor r)
                else register_field_value donor r))"
proof -
  note t = tiled_stream [OF p]
  have d: "distinct records" using tiled_distinct [OF t] by (simp add: distinct_map)
  have image: "parse_codeview_symbol_stream output = Inr records"
    using a p by (auto simp: apply_codeview_register_bijection_def)
  show ?thesis
  proof (cases donor_stream)
    case None
    then obtain seen where "rfold (map_register_record mapping) (stream, []) records = Inr (output, seen)"
      using a p by (auto simp: apply_codeview_register_bijection_def)
    from map_register_records_stream [OF this stream_with_itself t subset_refl d]
    show ?thesis using image None by (simp add: stream_with_def)
  next
    case (Some donor)
    then have "apply_with_donor stream mapping declared records donor = Inr output"
      using a p by (auto simp: apply_codeview_register_bijection_def)
    then obtain img where img: "rfold (take_donor_register donor) stream records = Inr img"
      and out: "rfold (map_declared_record mapping donor records) img declared = Inr output"
      by (auto simp: apply_with_donor_def)
    from map_declared_records_stream [OF out take_donor_registers_stream
        [OF img stream_with_itself t subset_refl d] t]
    show ?thesis using image Some by (simp add: stream_with_def)
  qed
qed

text \<open>One \<^verbatim>\<open>S_REGISTER\<close> record for the local \<^verbatim>\<open>i\<close> in ECX, and a terminator.\<close>


abbreviation sample_symbols :: bytes where
  "sample_symbols \<equiv> [0x08, 0, 2, 0, 0x74, 0, 0x12, 0, 1, 0x69, 2, 0, 6, 0]"

lemma sample_records:
  "parse_codeview_symbol_stream sample_symbols =
     Inr [\<lparr>cv_offset = 0, cv_size = 10, cv_type = 2, cv_name = ''i''\<rparr>,
          \<lparr>cv_offset = 10, cv_size = 4, cv_type = 6, cv_name = ''''\<rparr>]"
  by code_simp

theorem codeview_bijection_exact_witness:
  "mapped_number [(''ecx'', ''edx''), (''edx'', ''ecx'')] 18 = 19"
proof -
  have "apply_codeview_register_bijection sample_symbols [(''ecx'', ''edx''), (''edx'', ''ecx'')]
      [\<lparr>dr_name = ''i'', dr_record_offset = 0, dr_donor_register = ''ecx'', dr_image_register = ''edx''\<rparr>] None
      = Inr [0x08, 0, 2, 0, 0x74, 0, 0x13, 0, 1, 0x69, 2, 0, 6, 0]"
    by code_simp
  from codeview_bijection_exact [OF this sample_records] show ?thesis
    by (simp add: register_field_value_def pslice_nonneg)
qed

end
