(* ===== verification/Equality_Exchange.thy ===== *)
theory Equality_Exchange
  imports Relational_Runs Codeview
begin

text \<open>
  The equality load exchange of \<^verbatim>\<open>src/reprobit/classic/relational.py\<close>
  (\<^verbatim>\<open>apply_equality_load_exchange\<close>): \<^verbatim>\<open>mov r, [ebp+A]; cmp [ebp+B], r; je\<close> becomes
  \<^verbatim>\<open>mov r, [ebp+B]; cmp [ebp+A], r; je\<close> by exchanging the displacement fields.  Exchanges are
  typed, as the certificate validator leaves them; the report fields that repeat constants are
  left out.
\<close>

section \<open>The rewrite\<close>

definition equality_load_opcode :: int where
  "equality_load_opcode = 139"

definition equality_compare_opcode :: int where
  "equality_compare_opcode = 57"

definition equality_conditions :: "string list" where
  "equality_conditions = [''e'', ''ne'']"

definition structural_registers :: "string list" where
  "structural_registers = [''esp'', ''ebp'']"

record equality_exchange =
  ex_load_offset :: int
  ex_compare_offset :: int
  ex_branch_offset :: int

record proved_exchange =
  px_load_offset :: int
  px_compare_offset :: int
  px_branch_offset :: int
  px_register :: string
  px_condition :: string
  px_displacement_size :: int
  px_seed_load_displacement :: int
  px_seed_compare_displacement :: int
  px_rewritten_offsets :: "int list"
  px_flags_live_out :: "string set"

text \<open>The closed \<^verbatim>\<open>[ebp+disp]\<close> form: memory operand, encoding, position of the displacement.\<close>

definition frame_slot :: "bijection_instruction \<Rightarrow> (memory_operand \<times> modrm_encoding \<times> int) result" where
  "frame_slot i =
     (case bi_memory i of
        None \<Rightarrow> Inl (ByteIdentityError ''the instruction does not read one dword frame slot through EBP'')
      | Some mem \<Rightarrow>
          require (\<not> mo_unknown mem \<and> mo_base mem = Some ''ebp'' \<and> mo_index mem = None \<and> \<not> mo_absolute mem
              \<and> mo_width mem = 4 \<and> mo_read mem \<and> \<not> mo_write mem)
            ''the instruction does not read one dword frame slot through EBP'' (
          case bi_encoding i of
            None \<Rightarrow> Inl KeyError
          | Some en \<Rightarrow>
              (case en_displacement_at en of
                 None \<Rightarrow> Inl (ByteIdentityError ''the instruction is not the closed [ebp+disp] form'')
               | Some at \<Rightarrow>
                   require (en_mode en \<in> {1, 2} \<and> en_rm en = 5 \<and> en_sib_at en = None \<and> en_displacement_size en \<in> {1, 4})
                     ''the instruction is not the closed [ebp+disp] form'' (Inr (mem, en, at)))))"

text \<open>The checks on the two instructions: load and compare slots, and the register.\<close>

definition exchange_slots ::
    "bytes \<Rightarrow> (int \<Rightarrow> relocation_target option) \<Rightarrow> equality_exchange \<Rightarrow> flow_item \<Rightarrow> flow_item \<Rightarrow>
     ((memory_operand \<times> modrm_encoding \<times> int) \<times> (memory_operand \<times> modrm_encoding \<times> int) \<times> string) result" where
  "exchange_slots body relocations ex load_item compare_item =
     rbind (decode_ia32_bijection_instruction body (ex_load_offset ex) relocations) (\<lambda>load.
     rbind (decode_ia32_bijection_instruction body (ex_compare_offset ex) relocations) (\<lambda>compare.
     require (bi_opcode load = equality_load_opcode \<and> bi_opcode compare = equality_compare_opcode)
       ''the instructions are not mov r32, r/m32 and cmp r/m32, r32'' (
     require (it_flow load_item = ''fall'' \<and> it_flow compare_item = ''fall'')
       ''the load or compare is a control transfer'' (
     rbind (frame_slot load) (\<lambda>l.
     rbind (frame_slot compare) (\<lambda>c.
     let lm = fst l; le = fst (snd l); cm = fst c; ce = fst (snd c)
     in require (en_reg ce = en_reg le) ''the compare does not read the register the load defines'' (
        let register = register_of_field (en_reg le)
        in require (register \<notin> set structural_registers) ''the exchange would move ESP or EBP'' (
           require (en_displacement_size le = en_displacement_size ce \<and> en_mode le = en_mode ce)
             ''the two displacements have different encoded widths'' (
           require (mo_displacement lm \<noteq> mo_displacement cm) ''the two slots are the same slot''
             (Inr (l, c, register)))))))))))"

text \<open>The checks on the branch and on the paths around it.\<close>

definition exchange_branch ::
    "int list list \<Rightarrow> int \<Rightarrow> flow_item \<Rightarrow> string result" where
  "exchange_branch successors load_index branch =
     require (it_flow branch = ''jcc'' \<and> it_condition branch \<noteq> None) ''the instruction is not a conditional branch'' (
     let condition = condition_name (the (it_condition branch))
     in require (condition \<in> set equality_conditions) ''the condition reads a flag the exchange changes'' (
        require (item_predecessors successors (load_index + 1) = [load_index])
          ''the compare has a predecessor other than its load'' (
        require (item_predecessors successors (load_index + 2) = [load_index + 1])
          ''the branch has a predecessor other than its compare'' (Inr condition))))"

text \<open>The two fields written over each other.\<close>

definition exchange_fields :: "bytes \<Rightarrow> int \<Rightarrow> int \<Rightarrow> int \<Rightarrow> bytes" where
  "exchange_fields buf load_field compare_field width =
     (let load_bytes = pslice buf load_field (load_field + width);
          compare_bytes = pslice buf compare_field (compare_field + width);
          buf = slice_assign buf load_field (load_field + width) compare_bytes
      in slice_assign buf compare_field (compare_field + width) load_bytes)"

definition register_live_at :: "bijection_instruction list \<Rightarrow> string set list \<Rightarrow> int \<Rightarrow> string set result" where
  "register_live_at insns live at = (case index_of insns at of None \<Rightarrow> Inl KeyError | Some j \<Rightarrow> item live j)"

type_synonym exchange_state = "bytes \<times> int list \<times> proved_exchange list \<times> int"

definition exchange_step ::
    "bytes \<Rightarrow> (int \<Rightarrow> relocation_target option) \<Rightarrow> int set \<Rightarrow> flow_item list \<Rightarrow> int list list \<Rightarrow> string set list \<Rightarrow>
     bijection_instruction list \<Rightarrow> string set list \<Rightarrow> exchange_state \<Rightarrow> equality_exchange \<Rightarrow> exchange_state result" where
  "exchange_step body relocations relocation_offsets items successors live insns register_live s ex =
     (case s of (buf, rewritten, proved, previous_branch) \<Rightarrow>
       case (item_index items (ex_load_offset ex), item_index items (ex_compare_offset ex), item_index items (ex_branch_offset ex)) of
         (Some load_index, Some compare_index, Some branch_index) \<Rightarrow>
           require (ex_load_offset ex > previous_branch) ''exchanges are unsorted or overlapping'' (
           require (compare_index = load_index + 1 \<and> branch_index = compare_index + 1)
             ''the load, compare and branch are not consecutive'' (
           rbind (item items load_index) (\<lambda>load_item.
           rbind (item items compare_index) (\<lambda>compare_item.
           rbind (item items branch_index) (\<lambda>branch.
           rbind (exchange_slots body relocations ex load_item compare_item) (\<lambda>(l, c, register).
           rbind (exchange_branch successors load_index branch) (\<lambda>condition.
           let width = en_displacement_size (fst (snd l)); load_field = snd (snd l); compare_field = snd (snd c);
               fields = pyrange load_field (load_field + width) @ pyrange compare_field (compare_field + width)
           in require (\<forall>off \<in> set fields. off \<notin> relocation_offsets) ''an exchanged byte overlaps a relocation'' (
              rbind (register_live_at insns register_live (ex_branch_offset ex)) (\<lambda>atoms.
              require (register_atoms_of register \<inter> atoms = {}) ''the register is live after the branch'' (
              rbind (ia32_live_out live successors branch_index) (\<lambda>out.
              require (out \<inter> changed_flags = {}) ''the exchange changes a flag a successor of the branch reads''
                (Inr (exchange_fields buf load_field compare_field width, rewritten @ fields, proved @
                   [\<lparr>px_load_offset = ex_load_offset ex, px_compare_offset = ex_compare_offset ex,
                     px_branch_offset = ex_branch_offset ex, px_register = register, px_condition = condition,
                     px_displacement_size = width, px_seed_load_displacement = mo_displacement (fst l),
                     px_seed_compare_displacement = mo_displacement (fst c), px_rewritten_offsets = sort fields,
                     px_flags_live_out = out\<rparr>], ex_branch_offset ex)))))))))))))
       | _ \<Rightarrow> Inl (ByteIdentityError ''an offset is not an instruction boundary''))"

definition same_items :: "flow_item \<Rightarrow> flow_item \<Rightarrow> bool" where
  "same_items i j = (same_shape i j \<and> it_opcode i = it_opcode j \<and> it_condition i = it_condition j)"

text \<open>The image addresses the exchanged slots.\<close>

definition image_slots_ok :: "bytes \<Rightarrow> (int \<Rightarrow> relocation_target option) \<Rightarrow> unit \<Rightarrow> proved_exchange \<Rightarrow> unit result" where
  "image_slots_ok img relocations u px =
     rbind (decode_ia32_bijection_instruction img (px_load_offset px) relocations) (\<lambda>load.
     rbind (decode_ia32_bijection_instruction img (px_compare_offset px) relocations) (\<lambda>compare.
     case bi_memory load of None \<Rightarrow> Inl KeyError
     | Some lm \<Rightarrow> require (mo_displacement lm = px_seed_compare_displacement px) ''the image does not address the exchanged slots'' (
     case bi_memory compare of None \<Rightarrow> Inl KeyError
     | Some cm \<Rightarrow> require (mo_displacement cm = px_seed_load_displacement px) ''the image does not address the exchanged slots'' (
     case (bi_encoding load, bi_encoding compare) of
       (Some le, Some ce) \<Rightarrow> require (en_reg le = en_reg ce) ''the image does not address the exchanged slots'' (Inr ())
     | _ \<Rightarrow> Inl KeyError))))"

text \<open>
  The registers are looked up by the position of the branch in the decoded body, the flags by
  its position in the walk.
\<close>

definition image_exchange_dead ::
    "flow_item list \<Rightarrow> int list list \<Rightarrow> string set list \<Rightarrow> bijection_instruction list \<Rightarrow> string set list \<Rightarrow>
     unit \<Rightarrow> proved_exchange \<Rightarrow> unit result" where
  "image_exchange_dead items image_successors image_live insns image_register_live u px =
     (case item_index items (px_branch_offset px) of
        None \<Rightarrow> Inl KeyError
      | Some b \<Rightarrow>
          rbind (ia32_live_out image_live image_successors b) (\<lambda>out.
          require (out \<inter> changed_flags = {}) ''after the exchange a successor of the branch reads a changed flag'' (
          rbind (register_live_at insns image_register_live (px_branch_offset px)) (\<lambda>atoms.
          require (register_atoms_of (px_register px) \<inter> atoms = {}) ''after the exchange the register is live at the branch''
            (Inr ())))))"

definition check_exchange_image ::
    "bytes \<Rightarrow> bytes \<Rightarrow> (int \<Rightarrow> relocation_target option) \<Rightarrow> int option \<Rightarrow> int set \<Rightarrow> flow_item list \<Rightarrow> int list list \<Rightarrow>
     int list \<Rightarrow> bijection_instruction list \<Rightarrow> int list \<Rightarrow> proved_exchange list \<Rightarrow> int list result" where
  "check_exchange_image body img relocations code_length external_entries items successors entries insns rewritten proved =
     require (img \<noteq> body) ''the image does not move the body'' (
     let rewritten = sort (remdups rewritten)
     in require (len rewritten = sum_list (map (\<lambda>px. 2 * px_displacement_size px) proved)) ''two exchanges rewrite the same byte'' (
     require (set (byte_differences body img) \<subseteq> set rewritten) ''the image changed a byte no exchange declares'' (
     rbind (ia32_relational_flow_walk img relocations code_length external_entries) (\<lambda>(image_items, image_successors, image_entries).
     require (length image_items = length items \<and> list_all2 same_items items image_items
        \<and> image_successors = successors \<and> image_entries = entries)
       ''the image does not re-decode to the same boundaries, flow and branch targets'' (
     rbind (rfold (image_slots_ok img relocations) () proved) (\<lambda>_.
     rbind (decode_ia32_bijection_body img relocations code_length) (\<lambda>image_insns.
     rbind (register_bijection_live_sets image_insns) (\<lambda>(image_register_live, _).
     rbind (ia32_relational_flag_liveness image_items image_successors) (\<lambda>image_live.
     rbind (rfold (image_exchange_dead items image_successors image_live insns image_register_live) () proved) (\<lambda>_.
     rbind (rfold (require_entry_dead image_live) () (drop 1 image_entries)) (\<lambda>_.
       Inr rewritten)))))))))))"

definition apply_equality_load_exchange ::
    "bytes \<Rightarrow> equality_exchange list \<Rightarrow> int set \<Rightarrow> (int \<Rightarrow> relocation_target option) \<Rightarrow> int option \<Rightarrow> int set \<Rightarrow>
     (bytes \<times> proved_exchange list \<times> int list) result" where
  "apply_equality_load_exchange body exchanges relocation_offsets relocations code_length external_entries =
     require (body \<noteq> []) ''body is empty'' (
     require (exchanges \<noteq> []) ''no exchange is declared'' (
     rbind (ia32_relational_flow_walk body relocations code_length external_entries) (\<lambda>(items, successors, entries).
     rbind (ia32_relational_flag_liveness items successors) (\<lambda>live.
     rbind (decode_ia32_bijection_body body relocations code_length) (\<lambda>insns.
     rbind (register_bijection_live_sets insns) (\<lambda>(register_live, _).
     rbind (rfold (exchange_step body relocations relocation_offsets items successors live insns register_live)
              (body, [], [], - 1) exchanges) (\<lambda>(img, rewritten, proved, _).
     rbind (rfold (require_entry_dead live) () (drop 1 entries)) (\<lambda>_.
     rbind (check_exchange_image body img relocations code_length external_entries items successors entries insns
              rewritten proved) (\<lambda>rewritten.
       Inr (img, proved, rewritten))))))))))"

section \<open>Where the fields are\<close>

lemma bijection_prefixes_first:
  assumes "bijection_prefixes e cursor segment size16 repeat = Inr (c, s, r)"
  shows "cursor \<le> c \<and> c < cursor + len e \<and> (\<forall>p. cursor \<le> p \<and> p < c \<longrightarrow> is_prefix_byte (e ! nat (p - cursor)))
    \<and> \<not> is_prefix_byte (e ! nat (c - cursor))"
  using assms
proof (induction e arbitrary: cursor segment size16 repeat)
  case (Cons b rest)
  show ?case
  proof (cases "byte_int b \<in> set prefixes")
    case True
    then obtain segment' size16' repeat' where r: "bijection_prefixes rest (cursor + 1) segment' size16' repeat' = Inr (c, s, r)"
        "is_prefix_byte b"
      using Cons.prems by (auto simp: Let_def is_prefix_byte_def relational_prefixes_def repeat_prefixes_def split: if_splits)
    from Cons.IH [OF r(1)] have ih: "cursor + 1 \<le> c \<and> c < cursor + 1 + len rest
        \<and> (\<forall>p. cursor + 1 \<le> p \<and> p < c \<longrightarrow> is_prefix_byte (rest ! nat (p - (cursor + 1))))
        \<and> \<not> is_prefix_byte (rest ! nat (c - (cursor + 1)))" .
    have nth: "(b # rest) ! nat (p - cursor) = rest ! nat (p - (cursor + 1))" if "cursor + 1 \<le> p" for p
    proof -
      have "nat (p - cursor) = Suc (nat (p - (cursor + 1)))" using that by simp
      then show ?thesis by simp
    qed
    have "is_prefix_byte ((b # rest) ! nat (p - cursor))" if p: "cursor \<le> p" "p < c" for p
    proof (cases "p = cursor")
      case False
      then show ?thesis using nth [of p] p ih by simp
    qed (use r(2) in simp)
    then show ?thesis using ih nth [of c] by auto
  next
    case False
    then show ?thesis using Cons.prems flow_prefix by auto
  qed
qed simp

lemma direct_address:
  assumes "memory_address encoded off cursor at mode 5 ops = Inr (ops', base, index, scale, absolute, sib, cursor')"
  shows "cursor' = cursor"
  using assms by (auto simp: memory_address_def split: if_splits)

lemma displacement_position:
  assumes "memory_displacement encoded off cursor mode absolute = Inr (Some at, width, disp)"
  shows "at = off + cursor \<and> at + width \<le> off + len encoded \<and> 1 \<le> width"
  using assms by (auto simp: memory_displacement_def split: if_splits)

text \<open>The displacement of a frame slot stands right behind the ModRM byte, inside the instruction.\<close>

lemma modrm_displacement:
  assumes m: "bijection_modrm form opcode width encoded off cursor ops = Inr (ops', mem, en, flow, modrm)"
    and e: "en_displacement_at en = Some at" "en_rm en = 5"
  shows "at = off + cursor + 1 \<and> at + en_displacement_size en \<le> off + len encoded \<and> 1 \<le> en_displacement_size en"
proof -
  obtain mode ops1 ops2 base index scale absolute sib cursor' disp where
    a: "memory_address encoded off (cursor + 1) (off + cursor) mode 5 ops1 = Inr (ops2, base, index, scale, absolute, sib, cursor')"
    and d: "memory_displacement encoded off cursor' mode absolute = Inr (Some at, en_displacement_size en, disp)"
    using m e by (auto simp: bijection_modrm_def Let_def split: if_splits)
  show ?thesis using displacement_position [OF d] direct_address [OF a] by simp
qed

lemma frame_slot_position:
  assumes d: "decode_ia32_bijection_instruction code off relocations = Inr b" and s: "frame_slot b = Inr (mem, en, at)"
    and op: "bi_opcode b < 3840"
  obtains c where "off \<le> c" "\<forall>p. off \<le> p \<and> p < c \<longrightarrow> is_prefix_byte (code ! nat p)"
    "\<not> is_prefix_byte (code ! nat c)" "at = c + 2" "at + en_displacement_size en \<le> off + bi_length b"
    "1 \<le> en_displacement_size en" "off + bi_length b \<le> len code" "0 \<le> off"
proof -
  obtain count encoded prefixed size16 repeat opcode cursor form width ops mem' encoding flow_override modrm ops' flow target
    where c: "0 \<le> off" "off < len code" "supported_ia32_instruction_length (slice_from code off) = Inr count"
    "encoded = pslice code off (off + count)" "len encoded = count"
    "bijection_prefixes encoded 0 False False None = Inr (prefixed, size16, repeat)"
    "bijection_opcode encoded prefixed size16 repeat = Inr (opcode, cursor, form, width)"
    "bijection_explicit form opcode width encoded off cursor
       (opcode_register form width (off + prefixed) opcode (form_operands form)) = Inr (ops, mem', encoding, flow_override, modrm)"
    "b = bijection_result off count opcode form mem' encoding flow_override (zeroing opcode form width modrm ops') flow target"
    using decode_bijection_cases [OF d] by metis
  have b: "bi_opcode b = opcode" "bi_encoding b = encoding" "bi_length b = count" by (simp_all add: c(9) bijection_result_def)
  note l = decode_bijection_length [OF d, unfolded b(3)]
  have e: "encoded ! nat p = code ! nat (off + p)" if "0 \<le> p" "p < count" for p
    using that c(1,4) l by (auto simp: pslice_nonneg nat_add_distrib)
  note p = bijection_prefixes_first [OF c(6)]
  have big: "3840 \<le> (3840 OR byte_int (encoded ! nat (prefixed + 1)) :: int)" by (rule or_greater_eq) simp
  have cur: "cursor = prefixed + 1"
    using c(7) op b(1) big p by (auto simp: bijection_opcode_def byte_at_int split: if_splits)
  have en: "encoding = Some en" "en_displacement_at en = Some at" "en_mode en \<in> {1, 2}" "en_rm en = 5" "en_sib_at en = None"
    using s b(2) by (auto simp: frame_slot_def split: option.splits)
  have "at = off + (cursor + 1) \<and> at + en_displacement_size en \<le> off + count \<and> 1 \<le> en_displacement_size en"
    using c(8) en(1,2,4) c(5) modrm_displacement [of form opcode width encoded off cursor _ _ _ en]
    by (fastforce simp: bijection_explicit_def split: if_splits)
  moreover have "is_prefix_byte (code ! nat q)" if "off \<le> q" "q < off + prefixed" for q
    using p [THEN conjunct2, THEN conjunct2, THEN conjunct1, THEN spec, of "q - off"] p e [of "q - off"] that c(5) by simp
  moreover have "\<not> is_prefix_byte (code ! nat (off + prefixed))" using p e [of prefixed] c(5) by simp
  ultimately show ?thesis using that [of "off + prefixed"] cur l p b(3) by auto
qed

text \<open>In the walk's own terms: two bytes behind the opcode.\<close>

lemma slot_in_item:
  assumes i: "relational_item code relocations' ext off = Inr i" and c: "prefix_code code body"
    and d: "decode_ia32_bijection_instruction body off relocations = Inr b" and s: "frame_slot b = Inr (mem, en, at)"
    and op: "bi_opcode b < 3840"
  shows "at = it_opcode_at i + 2" "at + en_displacement_size en \<le> off + it_length i" "1 \<le> en_displacement_size en"
proof -
  obtain q where q: "off \<le> q" "\<forall>p. off \<le> p \<and> p < q \<longrightarrow> is_prefix_byte (body ! nat p)" "\<not> is_prefix_byte (body ! nat q)"
      "at = q + 2" "at + en_displacement_size en \<le> off + bi_length b" "1 \<le> en_displacement_size en" "0 \<le> off"
    using frame_slot_position [OF d s op] by metis
  note o = relational_item_opcode [OF i q(7)]
  have same: "code ! nat p = body ! nat p" if "off \<le> p" "p < len code" for p
    using prefix_code_nth [OF c, of "nat p"] that q(7) by simp
  have "\<not> q < it_opcode_at i" using o(3) o(4) [of q] q(1,3) same [of q] by auto
  moreover have "\<not> it_opcode_at i < q" using q(2) o(1,3,5) same [of "it_opcode_at i"] by auto
  ultimately show "at = it_opcode_at i + 2" using q(4) by simp
  obtain rest where r: "body = code @ rest" using c by (auto simp: prefix_code_def) (metis append_take_drop_id)
  have l: "supported_ia32_instruction_length (slice_from code off) = Inr (it_length i)" by (rule relational_item_extent(2) [OF i])
  have "slice_from body off = slice_from code off @ rest"
    using q(7) o(1,3) by (auto simp: r slice_from_def slice_bound_def min_def)
  then have "agree (it_length i) (slice_from code off) (slice_from body off)"
    using supported_length_bounds [OF l] by (auto simp: agree_def)
  from supported_length_local [OF l this] have "bi_length b = it_length i" using decode_bijection_length [OF d] by simp
  then show "at + en_displacement_size en \<le> off + it_length i" "1 \<le> en_displacement_size en" using q(5,6) by simp_all
qed

section \<open>What an exchange establishes\<close>

definition exchange_ok ::
    "bytes \<Rightarrow> (int \<Rightarrow> relocation_target option) \<Rightarrow> flow_item list \<Rightarrow> int list list \<Rightarrow> bijection_instruction list \<Rightarrow> int list list \<Rightarrow>
     nat \<Rightarrow> proved_exchange \<Rightarrow> bool" where
  "exchange_ok body relocations items successors insns register_successors k px =
     (Suc (Suc k) < length items \<and> it_offset (items ! k) = px_load_offset px
      \<and> px_seed_load_displacement px \<noteq> px_seed_compare_displacement px
      \<and> it_offset (items ! Suc k) = px_compare_offset px \<and> it_offset (items ! Suc (Suc k)) = px_branch_offset px
      \<and> (\<exists>load compare l c. decode_ia32_bijection_instruction body (px_load_offset px) relocations = Inr load
           \<and> decode_ia32_bijection_instruction body (px_compare_offset px) relocations = Inr compare
           \<and> bi_opcode load = equality_load_opcode \<and> bi_opcode compare = equality_compare_opcode
           \<and> frame_slot load = Inr l \<and> frame_slot compare = Inr c
           \<and> px_register px = register_of_field (en_reg (fst (snd l))) \<and> en_reg (fst (snd c)) = en_reg (fst (snd l))
           \<and> mo_displacement (fst l) = px_seed_load_displacement px \<and> mo_displacement (fst c) = px_seed_compare_displacement px)
      \<and> (\<exists>c. it_condition (items ! Suc (Suc k)) = Some c \<and> condition_name c \<in> set equality_conditions)
      \<and> item_predecessors successors (int (Suc k)) = [int k] \<and> item_predecessors successors (int (Suc (Suc k))) = [int (Suc k)]
      \<and> dead_after items successors (Suc (Suc k)) changed_flags
      \<and> (\<exists>j < length insns. bi_offset (insns ! j) = px_branch_offset px
           \<and> (\<forall>a \<in> register_atoms_of (px_register px). \<not> exposed insns register_successors (\<lambda>_. None) a j)))"

text \<open>Nothing up to a ModRM byte is written.\<close>

definition behind_modrm :: "flow_item list \<Rightarrow> int \<Rightarrow> bool" where
  "behind_modrm items p = (\<exists>m < length items. it_opcode_at (items ! m) + 2 \<le> p \<and> p < it_offset (items ! m) + it_length (items ! m))"

definition exchange_state_ok ::
    "bytes \<Rightarrow> (int \<Rightarrow> relocation_target option) \<Rightarrow> flow_item list \<Rightarrow> int list list \<Rightarrow> bijection_instruction list \<Rightarrow> int list list \<Rightarrow>
     exchange_state \<Rightarrow> bool" where
  "exchange_state_ok body relocations items successors insns register_successors s =
     (case s of (buf, rewritten, proved, previous) \<Rightarrow>
        length buf = length body \<and> (\<forall>p \<in> set rewritten. behind_modrm items p)
        \<and> (\<forall>p < length body. int p \<notin> set rewritten \<longrightarrow> buf ! p = body ! p)
        \<and> (\<forall>px \<in> set proved. \<exists>k. exchange_ok body relocations items successors insns register_successors k px))"

lemma exchange_fields_local:
  assumes "0 \<le> a" "a + w \<le> len buf" "0 \<le> b" "b + w \<le> len buf" "0 \<le> w"
  shows "length (exchange_fields buf a b w) = length buf"
    "p < length buf \<Longrightarrow> int p \<notin> set (pyrange a (a + w) @ pyrange b (b + w)) \<Longrightarrow> exchange_fields buf a b w ! p = buf ! p"
proof -
  let ?new = "pslice buf b (b + w)" and ?old = "pslice buf a (a + w)"
  have l: "int (length ?new) = w" "int (length ?old) = w" using assms by (simp_all add: length_pslice)
  let ?mid = "slice_assign buf a (a + w) ?new"
  have m: "length ?mid = length buf" using slice_assign_length [of a ?new buf] assms l by simp
  show len: "length (exchange_fields buf a b w) = length buf"
    using slice_assign_length [of b ?old ?mid] assms l m by (simp add: exchange_fields_def Let_def)
  show "exchange_fields buf a b w ! p = buf ! p" if "p < length buf" "int p \<notin> set (pyrange a (a + w) @ pyrange b (b + w))"
    using slice_assign_nth [of b ?old ?mid p] slice_assign_nth [of a ?new buf p] assms l m that
    by (auto simp: exchange_fields_def Let_def)
qed

text \<open>What one accepted step checked.\<close>

lemma exchange_step_Inr:
  assumes "exchange_step body relocations relocation_offsets items successors live insns register_live (buf, rewritten, proved, previous) ex = Inr t"
  obtains k l c register condition atoms out where
    "Suc (Suc k) < length items" "it_offset (items ! k) = ex_load_offset ex" "it_offset (items ! Suc k) = ex_compare_offset ex"
    "it_offset (items ! Suc (Suc k)) = ex_branch_offset ex"
    "exchange_slots body relocations ex (items ! k) (items ! Suc k) = Inr (l, c, register)"
    "exchange_branch successors (int k) (items ! Suc (Suc k)) = Inr condition"
    "register_live_at insns register_live (ex_branch_offset ex) = Inr atoms" "register_atoms_of register \<inter> atoms = {}"
    "ia32_live_out live successors (int (Suc (Suc k))) = Inr out" "out \<inter> changed_flags = {}"
    "t = (exchange_fields buf (snd (snd l)) (snd (snd c)) (en_displacement_size (fst (snd l))),
      rewritten @ pyrange (snd (snd l)) (snd (snd l) + en_displacement_size (fst (snd l)))
        @ pyrange (snd (snd c)) (snd (snd c) + en_displacement_size (fst (snd l))),
      proved @ [\<lparr>px_load_offset = ex_load_offset ex, px_compare_offset = ex_compare_offset ex,
         px_branch_offset = ex_branch_offset ex, px_register = register, px_condition = condition,
         px_displacement_size = en_displacement_size (fst (snd l)), px_seed_load_displacement = mo_displacement (fst l),
         px_seed_compare_displacement = mo_displacement (fst c),
         px_rewritten_offsets = sort (pyrange (snd (snd l)) (snd (snd l) + en_displacement_size (fst (snd l)))
           @ pyrange (snd (snd c)) (snd (snd c) + en_displacement_size (fst (snd l)))),
         px_flags_live_out = out\<rparr>], ex_branch_offset ex)"
proof -
  obtain a b i where x: "item_index items (ex_load_offset ex) = Some a" "item_index items (ex_compare_offset ex) = Some b"
      "item_index items (ex_branch_offset ex) = Some i"
    using assms by (auto simp: exchange_step_def split: option.splits)
  have f: "0 \<le> a" "a < len items" "it_offset (items ! nat a) = ex_load_offset ex" "b < len items" "it_offset (items ! nat b) = ex_compare_offset ex"
      "i < len items" "it_offset (items ! nat i) = ex_branch_offset ex"
    using item_index_found [OF x(1)] item_index_found [OF x(2)] item_index_found [OF x(3)] by simp_all
  have bi: "b = a + 1" "i = b + 1" using assms x by (simp_all add: exchange_step_def)
  define k where "k = nat a"
  have k: "a = int k" "b = int (Suc k)" "i = int (Suc (Suc k))" "Suc (Suc k) < length items" "Suc k < length items" "k < length items"
    using f bi by (simp_all add: k_def)
  have at: "item items a = Inr (items ! k)" "item items b = Inr (items ! Suc k)" "item items i = Inr (items ! Suc (Suc k))"
    using k by (simp_all add: item_in_range nat_add_distrib)
  show ?thesis
    using assms that [of k] f k x at unfolding exchange_step_def
    by (auto simp: Let_def simp del: of_nat_Suc)
qed

lemma exchange_slots_Inr:
  assumes "exchange_slots body relocations ex load_item compare_item = Inr (l, c, register)"
  obtains load compare where "decode_ia32_bijection_instruction body (ex_load_offset ex) relocations = Inr load"
    "decode_ia32_bijection_instruction body (ex_compare_offset ex) relocations = Inr compare"
    "bi_opcode load = equality_load_opcode" "bi_opcode compare = equality_compare_opcode"
    "frame_slot load = Inr l" "frame_slot compare = Inr c" "register = register_of_field (en_reg (fst (snd l)))"
    "en_reg (fst (snd c)) = en_reg (fst (snd l))" "en_displacement_size (fst (snd c)) = en_displacement_size (fst (snd l))"
    "mo_displacement (fst l) \<noteq> mo_displacement (fst c)"
  using assms by (auto simp: exchange_slots_def Let_def)

lemma equality_opcodes_small: "equality_load_opcode < 3840" "equality_compare_opcode < 3840"
  by (simp_all add: equality_load_opcode_def equality_compare_opcode_def)

lemma slot_field:
  assumes w: "ia32_relational_flow_walk body relocations code_length ext = Inr (items, successors, entries)"
    and m: "m < length items" and d: "decode_ia32_bijection_instruction body (it_offset (items ! m)) relocations = Inr b"
    and s: "frame_slot b = Inr l" and op: "bi_opcode b < 3840"
  shows "0 \<le> snd (snd l)" "snd (snd l) + en_displacement_size (fst (snd l)) \<le> len body" "1 \<le> en_displacement_size (fst (snd l))"
    "\<And>p. snd (snd l) \<le> p \<Longrightarrow> p < snd (snd l) + en_displacement_size (fst (snd l)) \<Longrightarrow> behind_modrm items p"
proof -
  obtain mem en at where l: "l = (mem, en, at)" by (cases l)
  obtain code where c: "prefix_code code body" "tiled_items 0 items (len code)"
      "\<forall>i \<in> set items. relational_item code relocations ext (it_offset i) = Inr i"
    using flow_walk [OF w] by metis
  have i: "relational_item code relocations ext (it_offset (items ! m)) = Inr (items ! m)" using c(3) m by simp
  note p = slot_in_item [OF i c(1) d s [unfolded l] op]
  have "0 \<le> it_opcode_at (items ! m)" "it_offset (items ! m) + it_length (items ! m) \<le> len body"
    using relational_item_opcode(1) [OF i] tiled_bounds [OF c(2) nth_mem [OF m]] prefix_code_length [OF c(1)] by auto
  then show "0 \<le> snd (snd l)" "snd (snd l) + en_displacement_size (fst (snd l)) \<le> len body" "1 \<le> en_displacement_size (fst (snd l))"
    using p by (simp_all add: l)
  show "behind_modrm items p" if "snd (snd l) \<le> p" "p < snd (snd l) + en_displacement_size (fst (snd l))" for p
    unfolding behind_modrm_def using that p m by (intro exI [of _ m]) (simp add: l)
qed

lemma register_dead_at:
  assumes b: "decode_ia32_bijection_body body relocations code_length = Inr insns"
    and rl: "register_bijection_live_sets insns = Inr (live, successors)"
    and a: "register_live_at insns live at = Inr atoms" "R \<inter> atoms = {}"
  shows "\<exists>j < length insns. bi_offset (insns ! j) = at \<and> (\<forall>a \<in> R. \<not> exposed insns successors (\<lambda>_. None) a j)"
proof -
  obtain j where j: "index_of insns at = Some j" "item live j = Inr atoms"
    using a(1) by (auto simp: register_live_at_def split: option.splits)
  have jr: "nat j < length insns" "bi_offset (insns ! nat j) = at" "0 \<le> j" "j < len insns"
    using index_of_offset [OF j(1)] index_of_range [OF j(1)] by simp_all
  have "atoms = live ! nat j" using j(2) jr live_sets_facts(1) [OF b rl] by (simp add: item_in_range)
  then show ?thesis using a(2) live_sets_facts(4) [OF b rl jr(1)] jr(1,2) by blast
qed

lemma exchange_step_ok:
  assumes step: "exchange_step body relocations relocation_offsets items successors live insns register_live s ex = Inr t"
    and ok: "exchange_state_ok body relocations items successors insns register_successors s"
    and w: "ia32_relational_flow_walk body relocations code_length ext = Inr (items, successors, entries)"
    and fl: "ia32_relational_flag_liveness items successors = Inr live"
    and b: "decode_ia32_bijection_body body relocations code_length = Inr insns"
    and rl: "register_bijection_live_sets insns = Inr (register_live, register_successors)"
  shows "exchange_state_ok body relocations items successors insns register_successors t"
proof -
  obtain buf rewritten proved previous where s: "s = (buf, rewritten, proved, previous)" by (cases s)
  show ?thesis
    using step [unfolded s]
  proof (cases rule: exchange_step_Inr)
    case (1 k l c register condition atoms out)
    obtain load compare where d: "decode_ia32_bijection_instruction body (ex_load_offset ex) relocations = Inr load"
        "decode_ia32_bijection_instruction body (ex_compare_offset ex) relocations = Inr compare"
        "bi_opcode load = equality_load_opcode" "bi_opcode compare = equality_compare_opcode"
        "frame_slot load = Inr l" "frame_slot compare = Inr c" "register = register_of_field (en_reg (fst (snd l)))"
        "en_reg (fst (snd c)) = en_reg (fst (snd l))" "en_displacement_size (fst (snd c)) = en_displacement_size (fst (snd l))"
        "mo_displacement (fst l) \<noteq> mo_displacement (fst c)"
      using exchange_slots_Inr [OF 1(5)] by metis
    define la ca wd where f: "la = snd (snd l)" "ca = snd (snd c)" "wd = en_displacement_size (fst (snd l))"
    have k: "k < length items" "Suc k < length items" using 1(1) by simp_all
    have la: "0 \<le> la" "la + wd \<le> len body" "1 \<le> wd" "\<And>p. la \<le> p \<Longrightarrow> p < la + wd \<Longrightarrow> behind_modrm items p"
      using slot_field [OF w k(1) d(1) [folded 1(2)] d(5)] d(3) equality_opcodes_small by (simp_all add: f)
    have ca: "0 \<le> ca" "ca + wd \<le> len body" "\<And>p. ca \<le> p \<Longrightarrow> p < ca + wd \<Longrightarrow> behind_modrm items p"
      using slot_field [OF w k(2) d(2) [folded 1(3)] d(6)] d(4,9) equality_opcodes_small by (simp_all add: f)
    have st: "length buf = length body" "\<forall>p \<in> set rewritten. behind_modrm items p" "\<forall>p < length body. int p \<notin> set rewritten \<longrightarrow> buf ! p = body ! p"
        "\<forall>px \<in> set proved. \<exists>k. exchange_ok body relocations items successors insns register_successors k px"
      using ok by (simp_all add: exchange_state_ok_def s)
    have br: "\<exists>cc. it_condition (items ! Suc (Suc k)) = Some cc \<and> condition_name cc \<in> set equality_conditions"
        "item_predecessors successors (int (Suc k)) = [int k]" "item_predecessors successors (int (Suc (Suc k))) = [int (Suc k)]"
      using 1(6) by (auto simp: exchange_branch_def Let_def add.commute)
    have dead: "dead_after items successors (Suc (Suc k)) changed_flags" using live_out_dead [OF w fl 1(9,10)] 1(1) by simp
    note rd = register_dead_at [OF b rl 1(7,8)]
    have slots: "\<exists>load compare l' c'. decode_ia32_bijection_instruction body (ex_load_offset ex) relocations = Inr load
           \<and> decode_ia32_bijection_instruction body (ex_compare_offset ex) relocations = Inr compare
           \<and> bi_opcode load = equality_load_opcode \<and> bi_opcode compare = equality_compare_opcode
           \<and> frame_slot load = Inr l' \<and> frame_slot compare = Inr c'
           \<and> register = register_of_field (en_reg (fst (snd l'))) \<and> en_reg (fst (snd c')) = en_reg (fst (snd l'))
           \<and> mo_displacement (fst l') = mo_displacement (fst l) \<and> mo_displacement (fst c') = mo_displacement (fst c)"
      using d by blast
    define px where "px = last (fst (snd (snd t)))"
    have new: "exchange_ok body relocations items successors insns register_successors k px"
      unfolding exchange_ok_def px_def 1(11) using 1(1-4) slots br dead rd d(10) by (simp del: of_nat_Suc split_paired_Ex)
    have t: "t = (exchange_fields buf la ca wd, rewritten @ pyrange la (la + wd) @ pyrange ca (ca + wd), proved @ [px], ex_branch_offset ex)"
      unfolding px_def 1(11) f by simp
    show ?thesis
      unfolding exchange_state_ok_def t prod.case
      using st new la(4) ca(3) exchange_fields_local [of la wd buf ca] la(1-3) ca(1,2) by auto
  qed
qed

section \<open>The exchanged test\<close>

text \<open>
  A frame slot is read by the prefixes of the instruction, which may name a segment, and the
  displacement from EBP.  The test compares the slot of the compare with the slot the load read.
\<close>

definition item_prefixes :: "bytes \<Rightarrow> flow_item \<Rightarrow> bytes" where
  "item_prefixes code i = pslice code (it_offset i) (it_opcode_at i)"

definition instruction_head :: "bytes \<Rightarrow> flow_item \<Rightarrow> bytes" where
  "instruction_head code i = pslice code (it_offset i) (it_opcode_at i + 2)"

definition slot_displacement :: "bytes \<Rightarrow> (int \<Rightarrow> relocation_target option) \<Rightarrow> int \<Rightarrow> int option" where
  "slot_displacement code relocations off =
     (case decode_ia32_bijection_instruction code off relocations of Inl _ \<Rightarrow> None
      | Inr i \<Rightarrow> map_option mo_displacement (bi_memory i))"

definition slot_value ::
    "(bytes \<Rightarrow> int \<Rightarrow> 32 word) \<Rightarrow> bytes \<Rightarrow> (int \<Rightarrow> relocation_target option) \<Rightarrow> flow_item \<Rightarrow> 32 word" where
  "slot_value rd code relocations i = rd (item_prefixes code i) (the (slot_displacement code relocations (it_offset i)))"

definition equality_test ::
    "(bytes \<Rightarrow> int \<Rightarrow> 32 word) \<Rightarrow> bytes \<Rightarrow> (int \<Rightarrow> relocation_target option) \<Rightarrow> flow_item list \<Rightarrow> nat \<Rightarrow> flags" where
  "equality_test rd code relocations items k =
     compare_flags (slot_value rd code relocations (items ! Suc k)) (slot_value rd code relocations (items ! k))"

lemma accepted_exchange:
  assumes a: "apply_equality_load_exchange body exchanges relocation_offsets relocations code_length ext = Inr (img, proved, rewritten)"
    and w: "ia32_relational_flow_walk body relocations code_length ext = Inr (items, successors, entries)"
    and b: "decode_ia32_bijection_body body relocations code_length = Inr insns"
    and l: "register_bijection_live_sets insns = Inr (register_live, register_successors)"
  obtains live r previous where "ia32_relational_flag_liveness items successors = Inr live"
    "rfold (exchange_step body relocations relocation_offsets items successors live insns register_live) (body, [], [], - 1) exchanges
      = Inr (img, r, proved, previous)" "set rewritten = set r"
  using a w b l
  by (auto simp: apply_equality_load_exchange_def check_exchange_image_def Let_def split: prod.split_asm)

lemma accepted_exchange_image:
  assumes a: "apply_equality_load_exchange body exchanges relocation_offsets relocations code_length ext = Inr (img, proved, rewritten)"
    and w: "ia32_relational_flow_walk body relocations code_length ext = Inr (items, successors, entries)"
    and w': "ia32_relational_flow_walk img relocations code_length ext = Inr (image_items, successors', entries')"
  shows "list_all2 same_items items image_items" "successors' = successors"
    "rfold (image_slots_ok img relocations) () proved = Inr ()"
  using a w w'
  by (auto simp: apply_equality_load_exchange_def check_exchange_image_def Let_def split: prod.split_asm)

lemma exchange_final:
  assumes a: "apply_equality_load_exchange body exchanges relocation_offsets relocations code_length ext = Inr (img, proved, rewritten)"
    and w: "ia32_relational_flow_walk body relocations code_length ext = Inr (items, successors, entries)"
    and b: "decode_ia32_bijection_body body relocations code_length = Inr insns"
    and l: "register_bijection_live_sets insns = Inr (register_live, register_successors)"
  shows "length img = length body" "\<forall>p \<in> set rewritten. behind_modrm items p"
    "\<forall>p < length body. int p \<notin> set rewritten \<longrightarrow> img ! p = body ! p"
    "\<forall>px \<in> set proved. \<exists>k. exchange_ok body relocations items successors insns register_successors k px"
proof -
  obtain live r previous where f: "ia32_relational_flag_liveness items successors = Inr live"
    "rfold (exchange_step body relocations relocation_offsets items successors live insns register_live) (body, [], [], - 1) exchanges
      = Inr (img, r, proved, previous)" "set rewritten = set r"
    using accepted_exchange [OF a w b l] by metis
  have "exchange_state_ok body relocations items successors insns register_successors (body, [], [], - 1)"
    by (simp add: exchange_state_ok_def)
  then have "exchange_state_ok body relocations items successors insns register_successors (img, r, proved, previous)"
    by (rule rfold_invariant [OF f(2)]) (rule exchange_step_ok [OF _ _ w f(1) b l])
  then show "length img = length body" "\<forall>p \<in> set rewritten. behind_modrm items p"
    "\<forall>p < length body. int p \<notin> set rewritten \<longrightarrow> img ! p = body ! p"
    "\<forall>px \<in> set proved. \<exists>k. exchange_ok body relocations items successors insns register_successors k px"
    by (simp_all add: exchange_state_ok_def f(3))
qed

text \<open>Every instruction keeps its prefixes, its opcode and its ModRM byte.\<close>

lemma head_kept:
  assumes w: "ia32_relational_flow_walk body relocations code_length ext = Inr (items, successors, entries)"
    and w': "ia32_relational_flow_walk img relocations code_length ext = Inr (image_items, successors', entries')"
    and s: "list_all2 same_items items image_items" and len: "length img = length body"
    and r: "\<forall>p \<in> set rewritten. behind_modrm items p" "\<forall>p < length body. int p \<notin> set rewritten \<longrightarrow> img ! p = body ! p"
    and m: "m < length items"
  shows "it_opcode_at (image_items ! m) = it_opcode_at (items ! m)" "instruction_head img (image_items ! m) = instruction_head body (items ! m)"
    "item_prefixes img (image_items ! m) = item_prefixes body (items ! m)"
proof -
  let ?i = "items ! m" and ?j = "image_items ! m"
  obtain code where c: "prefix_code code body" "tiled_items 0 items (len code)" "\<forall>i \<in> set items. relational_item code relocations ext (it_offset i) = Inr i"
    using flow_walk [OF w] by metis
  obtain code' where c': "prefix_code code' img" "\<forall>i \<in> set image_items. relational_item code' relocations ext (it_offset i) = Inr i"
    using flow_walk [OF w'] by metis
  have sh: "it_offset ?j = it_offset ?i" "it_length ?i = it_length ?j"
    using list_all2_nthD [OF s m] by (simp_all add: same_items_def same_shape_def)
  have i: "relational_item code relocations ext (it_offset ?i) = Inr ?i" using c(3) m by simp
  have j: "relational_item code' relocations ext (it_offset ?i) = Inr ?j"
    using c'(2) m list_all2_lengthD [OF s] sh(1) by (metis nth_mem)
  have off: "0 \<le> it_offset ?i" using tiled_bounds [OF c(2) nth_mem [OF m]] by simp
  note a = relational_item_opcode [OF i off] and b = relational_item_opcode [OF j off]
  have keep: "img ! nat p = body ! nat p" if p: "it_offset ?i \<le> p" "p < it_opcode_at ?i + 2" "p < len body" for p
  proof (rule ccontr)
    assume n: "img ! nat p \<noteq> body ! nat p"
    have p0: "0 \<le> p" using p(1) off by simp
    then have "p \<in> set rewritten" using r(2) n p(3) by (metis int_nat_eq nat_less_iff)
    then obtain k where k: "k < length items" "it_opcode_at (items ! k) + 2 \<le> p" "p < it_offset (items ! k) + it_length (items ! k)"
      using r(1) by (auto simp: behind_modrm_def)
    have "it_offset (items ! k) \<le> it_opcode_at (items ! k)"
      using relational_item_opcode(1) [OF bspec [OF c(3) nth_mem [OF k(1)]]] tiled_bounds [OF c(2) nth_mem [OF k(1)]] by simp
    moreover have "k \<noteq> m" using k(2) p(2) by auto
    moreover have "k < m \<or> m < k" using \<open>k \<noteq> m\<close> by auto
    ultimately show False
      using tiled_ordered [OF c(2), of k m] tiled_ordered [OF c(2), of m k] k m p(1,2) a(1,2) by auto
  qed
  have len_code: "len code \<le> len body" "len code' \<le> len img" using prefix_code_length c(1) c'(1) by auto
  have cb: "code ! nat p = body ! nat p" if "it_offset ?i \<le> p" "p < len code" for p
    using prefix_code_nth [OF c(1), of "nat p"] that off by simp
  have cb': "code' ! nat p = img ! nat p" if "it_offset ?i \<le> p" "p < len code'" for p
    using prefix_code_nth [OF c'(1), of "nat p"] that off by simp
  have ext: "it_offset ?i + it_length ?i \<le> len code" "it_offset ?i + it_length ?i \<le> len code'"
    using tiled_bounds [OF c(2) nth_mem [OF m]] supported_length_bounds [OF relational_item_extent(2) [OF j]] sh(2) off b(1,3)
    by (auto simp: slice_from_def slice_bound_def)
  have same: "code' ! nat p = code ! nat p" if "it_offset ?i \<le> p" "p \<le> it_opcode_at ?i" for p
    using keep [of p] cb [of p] cb' [of p] that ext a(2) len_code len by auto
  show at: "it_opcode_at ?j = it_opcode_at ?i"
    by (rule same_opcode_at [OF i j off sh(2)]) (use same a(1,5) in auto)
  have head: "img ! p = body ! p" if "nat (it_offset ?i) \<le> p" "p < nat (it_opcode_at ?i + 2)" "p < length img" for p
    using keep [of "int p"] that len by auto
  show "instruction_head img ?j = instruction_head body ?i" "item_prefixes img ?j = item_prefixes body ?i"
    unfolding instruction_head_def item_prefixes_def at sh(1) using off a(1) by (auto intro!: pslice_cong simp: len intro: head)
qed

lemma slot_displacement_body:
  assumes "decode_ia32_bijection_instruction code off relocations = Inr i" "frame_slot i = Inr l"
  shows "slot_displacement code relocations off = Some (mo_displacement (fst l))"
  using assms by (auto simp: slot_displacement_def frame_slot_def split: option.splits)

lemma slot_displacement_image:
  assumes "image_slots_ok img relocations () px = Inr ()"
  shows "slot_displacement img relocations (px_load_offset px) = Some (px_seed_compare_displacement px)"
    "slot_displacement img relocations (px_compare_offset px) = Some (px_seed_load_displacement px)"
  using assms by (auto simp: image_slots_ok_def slot_displacement_def split: option.splits)

lemma compare_zero_flag: "compare_flags a b ''zf'' \<longleftrightarrow> a = b"
  by (simp add: compare_flags_def)

lemma equality_condition_codes:
  assumes "0 \<le> c" "c < 16" "condition_name c \<in> set equality_conditions"
  shows "c = 4 \<or> c = 5"
proof -
  have "\<forall>k \<in> set [0..<16]. condition_name (int k) \<in> set equality_conditions \<longrightarrow> k = 4 \<or> k = 5" by code_simp
  moreover have "nat c \<in> set [0..<16]" using assms by auto
  ultimately have "condition_name (int (nat c)) \<in> set equality_conditions \<longrightarrow> nat c = 4 \<or> nat c = 5" by blast
  then show ?thesis using assms by auto
qed

lemma equality_condition:
  assumes "0 \<le> c" "c < 16" "condition_name c \<in> set equality_conditions"
  shows "condition_holds c (compare_flags a b) = condition_holds c (compare_flags b a)"
  using equality_condition_codes [OF assms] by (auto simp: compare_conditions)

text \<open>
  C6. An accepted equality load exchange keeps the test.  Every proved exchange stands at three
  consecutive instructions: a load and a compare of frame slots through one register and a
  branch on equality, with the register and every changed flag dead after the branch.  The image keeps
  the prefixes, opcodes and ModRM bytes of the load and the compare and addresses the two slots
  the other way round, and differs from the body in no byte that is not reported.  If load and compare have the same
  prefixes, then whatever the slots hold the branch of the image is taken exactly when the
  original is, and the zero flag agrees.
\<close>

theorem equality_exchange_sound:
  assumes a: "apply_equality_load_exchange body exchanges relocation_offsets relocations code_length ext = Inr (img, proved, rewritten)"
    and w: "ia32_relational_flow_walk body relocations code_length ext = Inr (items, successors, entries)"
    and w': "ia32_relational_flow_walk img relocations code_length ext = Inr (image_items, successors', entries')"
    and b: "decode_ia32_bijection_body body relocations code_length = Inr insns"
    and l: "register_bijection_live_sets insns = Inr (register_live, register_successors)"
    and px: "px \<in> set proved"
  shows "length img = length body \<and> (\<forall>p < length body. int p \<notin> set rewritten \<longrightarrow> img ! p = body ! p)
    \<and> (\<exists>k. exchange_ok body relocations items successors insns register_successors k px
       \<and> instruction_head img (image_items ! k) = instruction_head body (items ! k)
       \<and> instruction_head img (image_items ! Suc k) = instruction_head body (items ! Suc k)
       \<and> slot_displacement img relocations (px_load_offset px) = slot_displacement body relocations (px_compare_offset px)
       \<and> slot_displacement img relocations (px_compare_offset px) = slot_displacement body relocations (px_load_offset px)
       \<and> (item_prefixes body (items ! k) = item_prefixes body (items ! Suc k) \<longrightarrow>
           (\<forall>rd. branch_taken (image_items ! Suc (Suc k)) (equality_test rd img relocations image_items k)
                 = branch_taken (items ! Suc (Suc k)) (equality_test rd body relocations items k)
               \<and> equality_test rd img relocations image_items k ''zf'' = equality_test rd body relocations items k ''zf'')))"
proof -
  note im = accepted_exchange_image [OF a w w'] and st = exchange_final [OF a w b l]
  obtain k where k: "exchange_ok body relocations items successors insns register_successors k px" using st(4) px by blast
  have n: "Suc (Suc k) < length items" "Suc k < length items" "k < length items"
    and off: "it_offset (items ! k) = px_load_offset px" "it_offset (items ! Suc k) = px_compare_offset px"
    using k by (simp_all add: exchange_ok_def)
  obtain c where c: "it_condition (items ! Suc (Suc k)) = Some c" "condition_name c \<in> set equality_conditions"
    using k unfolding exchange_ok_def by blast
  have slots: "slot_displacement body relocations (px_load_offset px) = Some (px_seed_load_displacement px)"
    "slot_displacement body relocations (px_compare_offset px) = Some (px_seed_compare_displacement px)"
    using k slot_displacement_body unfolding exchange_ok_def by metis+
  note slots' = slot_displacement_image [OF rfold_unit [OF im(3) px]]
  note h = head_kept [OF w w' im(1) st(1,2,3)]
  have sh: "it_offset (image_items ! m) = it_offset (items ! m)" "it_condition (image_items ! m) = it_condition (items ! m)"
    if "m < length items" for m
    using list_all2_nthD [OF im(1) that] by (simp_all add: same_items_def same_shape_def)
  obtain code where "\<forall>i \<in> set items. relational_item code relocations ext (it_offset i) = Inr i" using flow_walk [OF w] by metis
  then have cr: "0 \<le> c" "c < 16" using relational_item_facts(2) [OF _ c(1)] nth_mem [OF n(1)] by blast+
  have "equality_test rd img relocations image_items k = compare_flags (slot_value rd body relocations (items ! k)) (slot_value rd body relocations (items ! Suc k))"
    if "item_prefixes body (items ! k) = item_prefixes body (items ! Suc k)" for rd
    using that by (simp add: equality_test_def slot_value_def h(3) [OF n(2)] h(3) [OF n(3)] sh(1) [OF n(2)] sh(1) [OF n(3)] off slots slots')
  then have test: "branch_taken (image_items ! Suc (Suc k)) (equality_test rd img relocations image_items k)
        = branch_taken (items ! Suc (Suc k)) (equality_test rd body relocations items k)
      \<and> equality_test rd img relocations image_items k ''zf'' = equality_test rd body relocations items k ''zf''"
    if "item_prefixes body (items ! k) = item_prefixes body (items ! Suc k)" for rd
    using that equality_condition [OF cr c(2)] sh(2) [OF n(1)] c(1)
    by (auto simp: branch_taken_def equality_test_def [of rd body] compare_zero_flag)
  show ?thesis
    using st(1,3) k h(2) [OF n(3)] h(2) [OF n(2)] slots slots' test by auto
qed

abbreviation equal_body :: bytes where
  "equal_body \<equiv> [0x8B, 0x4D, 8, 0x39, 0x4D, 12, 0x74, 1, 0x90, 0xC3]"

abbreviation equal_image :: bytes where
  "equal_image \<equiv> [0x8B, 0x4D, 12, 0x39, 0x4D, 8, 0x74, 1, 0x90, 0xC3]"

definition equal_proved :: "int \<Rightarrow> proved_exchange" where
  "equal_proved d = \<lparr>px_load_offset = 0, px_compare_offset = d + 3, px_branch_offset = d + 6, px_register = ''ecx'', px_condition = ''e'',
     px_displacement_size = 1, px_seed_load_displacement = 8, px_seed_compare_displacement = 12,
     px_rewritten_offsets = [d + 2, d + 5], px_flags_live_out = {}\<rparr>"

lemma equal_accepted:
  "apply_equality_load_exchange equal_body [\<lparr>ex_load_offset = 0, ex_compare_offset = 3, ex_branch_offset = 6\<rparr>] {} (\<lambda>_. None) None {}
     = Inr (equal_image, [equal_proved 0], [2, 5])"
  by code_simp

theorem equality_exchange_sound_witness:
  "slot_displacement equal_image (\<lambda>_. None) 0 = slot_displacement equal_body (\<lambda>_. None) 3
   \<and> slot_displacement equal_image (\<lambda>_. None) 3 = slot_displacement equal_body (\<lambda>_. None) 0
   \<and> equal_image ! 6 = equal_body ! 6"
proof -
  have w: "ia32_relational_flow_walk equal_body (\<lambda>_. None) None {} = Inr (projr (ia32_relational_flow_walk equal_body (\<lambda>_. None) None {}))"
    "ia32_relational_flow_walk equal_image (\<lambda>_. None) None {} = Inr (projr (ia32_relational_flow_walk equal_image (\<lambda>_. None) None {}))"
    by code_simp+
  have b: "decode_ia32_bijection_body equal_body (\<lambda>_. None) None = Inr (projr (decode_ia32_bijection_body equal_body (\<lambda>_. None) None))"
    by code_simp
  have l: "register_bijection_live_sets (projr (decode_ia32_bijection_body equal_body (\<lambda>_. None) None))
      = Inr (projr (register_bijection_live_sets (projr (decode_ia32_bijection_body equal_body (\<lambda>_. None) None))))"
    by code_simp
  obtain items successors entries image_items successors' entries' live register_successors where
    e: "projr (ia32_relational_flow_walk equal_body (\<lambda>_. None) None {}) = (items, successors, entries)"
      "projr (ia32_relational_flow_walk equal_image (\<lambda>_. None) None {}) = (image_items, successors', entries')"
      "projr (register_bijection_live_sets (projr (decode_ia32_bijection_body equal_body (\<lambda>_. None) None))) = (live, register_successors)"
    by (metis prod_cases3 surj_pair)
  show ?thesis
    using equality_exchange_sound [OF equal_accepted w(1) [unfolded e] w(2) [unfolded e] b l [unfolded e], of "equal_proved 0"]
    by (auto simp: equal_proved_def)
qed

text \<open>The same with an FS override on the load.\<close>

abbreviation segment_body :: bytes where
  "segment_body \<equiv> [0x64, 0x8B, 0x4D, 8, 0x39, 0x4D, 12, 0x74, 1, 0x90, 0xC3]"

abbreviation segment_image :: bytes where
  "segment_image \<equiv> [0x64, 0x8B, 0x4D, 12, 0x39, 0x4D, 8, 0x74, 1, 0x90, 0xC3]"

text \<open>The segment a frame slot is read from: the override among the prefixes, or SS.\<close>

definition segment_of :: "bytes \<Rightarrow> int" where
  "segment_of prefix =
     (case filter (\<lambda>b. b \<in> {0x26, 0x2E, 0x36, 0x3E, 0x64, 0x65}) (map byte_int prefix) of
        [] \<Rightarrow> 0x36 | b # _ \<Rightarrow> b)"

definition walked_items :: "bytes \<Rightarrow> flow_item list" where
  "walked_items code = fst (projr (ia32_relational_flow_walk code (\<lambda>_. None) None {}))"

text \<open>What the tests of an accepted exchange compare, before and after.\<close>

lemma exchange_tests:
  assumes a: "apply_equality_load_exchange body exchanges relocation_offsets relocations code_length ext = Inr (img, proved, rewritten)"
    and w: "ia32_relational_flow_walk body relocations code_length ext = Inr (items, successors, entries)"
    and w': "ia32_relational_flow_walk img relocations code_length ext = Inr (image_items, successors', entries')"
    and b: "decode_ia32_bijection_body body relocations code_length = Inr insns"
    and l: "register_bijection_live_sets insns = Inr (register_live, register_successors)"
    and k: "exchange_ok body relocations items successors insns register_successors k px" and px: "px \<in> set proved"
  shows "equality_test rd body relocations items k
      = compare_flags (rd (item_prefixes body (items ! Suc k)) (px_seed_compare_displacement px))
          (rd (item_prefixes body (items ! k)) (px_seed_load_displacement px))"
    "equality_test rd img relocations image_items k
      = compare_flags (rd (item_prefixes body (items ! Suc k)) (px_seed_load_displacement px))
          (rd (item_prefixes body (items ! k)) (px_seed_compare_displacement px))"
    "\<exists>c. (c = 4 \<or> c = 5) \<and> it_condition (items ! Suc (Suc k)) = Some c \<and> it_condition (image_items ! Suc (Suc k)) = Some c"
proof -
  note im = accepted_exchange_image [OF a w w'] and st = exchange_final [OF a w b l]
  have n: "Suc (Suc k) < length items" "Suc k < length items" "k < length items"
    and off: "it_offset (items ! k) = px_load_offset px" "it_offset (items ! Suc k) = px_compare_offset px"
    using k by (simp_all add: exchange_ok_def)
  have slots: "slot_displacement body relocations (px_load_offset px) = Some (px_seed_load_displacement px)"
    "slot_displacement body relocations (px_compare_offset px) = Some (px_seed_compare_displacement px)"
    using k slot_displacement_body unfolding exchange_ok_def by metis+
  note slots' = slot_displacement_image [OF rfold_unit [OF im(3) px]]
  note h = head_kept [OF w w' im(1) st(1,2,3)]
  have sh: "it_offset (image_items ! m) = it_offset (items ! m)" "it_condition (image_items ! m) = it_condition (items ! m)"
    if "m < length items" for m
    using list_all2_nthD [OF im(1) that] by (simp_all add: same_items_def same_shape_def)
  show "equality_test rd body relocations items k
      = compare_flags (rd (item_prefixes body (items ! Suc k)) (px_seed_compare_displacement px))
          (rd (item_prefixes body (items ! k)) (px_seed_load_displacement px))"
    by (simp add: equality_test_def slot_value_def off slots)
  show "equality_test rd img relocations image_items k
      = compare_flags (rd (item_prefixes body (items ! Suc k)) (px_seed_load_displacement px))
          (rd (item_prefixes body (items ! k)) (px_seed_compare_displacement px))"
    by (simp add: equality_test_def slot_value_def h(3) [OF n(2)] h(3) [OF n(3)] sh(1) [OF n(2)] sh(1) [OF n(3)] off slots')
  obtain c where c: "it_condition (items ! Suc (Suc k)) = Some c" "condition_name c \<in> set equality_conditions"
    using k unfolding exchange_ok_def by blast
  obtain code where "\<forall>i \<in> set items. relational_item code relocations ext (it_offset i) = Inr i" using flow_walk [OF w] by metis
  then have "0 \<le> c" "c < 16" using relational_item_facts(2) [OF _ c(1)] nth_mem [OF n(1)] by blast+
  from equality_condition_codes [OF this c(2)]
  show "\<exists>c. (c = 4 \<or> c = 5) \<and> it_condition (items ! Suc (Suc k)) = Some c \<and> it_condition (image_items ! Suc (Suc k)) = Some c"
    using c(1) sh(2) [OF n(1)] by simp
qed

text \<open>
  C39. Segment overrides are not looked at, and an accepted exchange across segments is never
  sound.  Whenever the load and the compare of a proved exchange read different segments (the
  override among their prefixes, SS without one), there are contents of the two segments for
  which the branch of the image goes the other way than the branch of the body.  Such exchanges
  are accepted: \<^verbatim>\<open>mov ecx, fs:[ebp+8]; cmp [ebp+12], ecx; je\<close> is one.
\<close>

theorem exchange_ignores_segment:
  assumes a: "apply_equality_load_exchange body exchanges relocation_offsets relocations code_length ext = Inr (img, proved, rewritten)"
    and w: "ia32_relational_flow_walk body relocations code_length ext = Inr (items, successors, entries)"
    and w': "ia32_relational_flow_walk img relocations code_length ext = Inr (image_items, successors', entries')"
    and b: "decode_ia32_bijection_body body relocations code_length = Inr insns"
    and l: "register_bijection_live_sets insns = Inr (register_live, register_successors)"
    and px: "px \<in> set proved"
  shows "\<exists>k. exchange_ok body relocations items successors insns register_successors k px
    \<and> (segment_of (item_prefixes body (items ! k)) \<noteq> segment_of (item_prefixes body (items ! Suc k)) \<longrightarrow>
        (\<exists>cells. branch_taken (image_items ! Suc (Suc k)) (equality_test (cells \<circ> segment_of) img relocations image_items k)
          \<noteq> branch_taken (items ! Suc (Suc k)) (equality_test (cells \<circ> segment_of) body relocations items k)))"
proof -
  obtain k where k: "exchange_ok body relocations items successors insns register_successors k px"
    using exchange_final(4) [OF a w b l] px by blast
  note test = exchange_tests [OF a w w' b l k px]
  have d: "px_seed_load_displacement px \<noteq> px_seed_compare_displacement px" using k by (simp add: exchange_ok_def)
  obtain c where c: "c = 4 \<or> c = 5" "it_condition (items ! Suc (Suc k)) = Some c"
    "it_condition (image_items ! Suc (Suc k)) = Some c" using test(3) by blast
  define cells where "cells s at = (if s = segment_of (item_prefixes body (items ! k))
      \<and> at = px_seed_compare_displacement px then 1 else 0 :: 32 word)" for s at
  have "branch_taken (image_items ! Suc (Suc k)) (equality_test (cells \<circ> segment_of) img relocations image_items k)
      \<noteq> branch_taken (items ! Suc (Suc k)) (equality_test (cells \<circ> segment_of) body relocations items k)"
    if "segment_of (item_prefixes body (items ! k)) \<noteq> segment_of (item_prefixes body (items ! Suc k))"
    unfolding test(1,2) branch_taken_def c(2,3) using c(1) d that by (auto simp: cells_def compare_conditions)
  then show ?thesis using k by blast
qed

lemma segment_accepted:
  "apply_equality_load_exchange segment_body [\<lparr>ex_load_offset = 0, ex_compare_offset = 4, ex_branch_offset = 7\<rparr>]
     {} (\<lambda>_. None) None {} = Inr (segment_image, [equal_proved 1], [3, 6])"
  by code_simp

theorem exchange_ignores_segment_witness:
  "\<exists>cells. branch_taken (walked_items segment_image ! 2)
      (equality_test (cells \<circ> segment_of) segment_image (\<lambda>_. None) (walked_items segment_image) 0)
    \<noteq> branch_taken (walked_items segment_body ! 2)
      (equality_test (cells \<circ> segment_of) segment_body (\<lambda>_. None) (walked_items segment_body) 0)"
proof -
  let ?walk = "\<lambda>code. ia32_relational_flow_walk code (\<lambda>_. None) None {}"
  have w: "?walk segment_body = Inr (projr (?walk segment_body))" "?walk segment_image = Inr (projr (?walk segment_image))"
    by code_simp+
  have b: "decode_ia32_bijection_body segment_body (\<lambda>_. None) None = Inr (projr (decode_ia32_bijection_body segment_body (\<lambda>_. None) None))"
    by code_simp
  have l: "register_bijection_live_sets (projr (decode_ia32_bijection_body segment_body (\<lambda>_. None) None))
      = Inr (projr (register_bijection_live_sets (projr (decode_ia32_bijection_body segment_body (\<lambda>_. None) None))))"
    by code_simp
  obtain items successors entries image_items successors' entries' live register_successors where
    e: "projr (?walk segment_body) = (items, successors, entries)" "projr (?walk segment_image) = (image_items, successors', entries')"
      "projr (register_bijection_live_sets (projr (decode_ia32_bijection_body segment_body (\<lambda>_. None) None))) = (live, register_successors)"
    by (metis prod_cases3 surj_pair)
  have items: "items = walked_items segment_body" "image_items = walked_items segment_image" by (simp_all add: walked_items_def e)
  have starts: "map it_offset (walked_items segment_body) = [0, 4, 7, 9, 10]" by code_simp
  have segments: "segment_of (item_prefixes segment_body (walked_items segment_body ! 0))
      \<noteq> segment_of (item_prefixes segment_body (walked_items segment_body ! Suc 0))" by code_simp
  obtain k where k: "exchange_ok segment_body (\<lambda>_. None) items successors
      (projr (decode_ia32_bijection_body segment_body (\<lambda>_. None) None)) register_successors k (equal_proved 1)"
    and x: "segment_of (item_prefixes segment_body (items ! k)) \<noteq> segment_of (item_prefixes segment_body (items ! Suc k)) \<longrightarrow>
        (\<exists>cells. branch_taken (image_items ! Suc (Suc k)) (equality_test (cells \<circ> segment_of) segment_image (\<lambda>_. None) image_items k)
          \<noteq> branch_taken (items ! Suc (Suc k)) (equality_test (cells \<circ> segment_of) segment_body (\<lambda>_. None) items k))"
    using exchange_ignores_segment [OF segment_accepted w(1) [unfolded e] w(2) [unfolded e] b l [unfolded e], of "equal_proved 1"]
    by auto
  have "Suc (Suc k) < 5" "map it_offset (walked_items segment_body) ! k = 0"
    using k arg_cong [OF starts, of length] by (auto simp: exchange_ok_def items equal_proved_def)
  then have "k = 0" unfolding starts by (auto simp: less_Suc_eq numeral_eq_Suc)
  then show ?thesis using x segments by (simp add: items numeral_2_eq_2)
qed

end
