(* ===== verification/Transaction_Disk.thy ===== *)
theory Transaction_Disk
  imports Prelude
begin

text \<open>
  The project directory as the journaled transactions of \<^verbatim>\<open>src/reprobit/transactions.py\<close> see
  it, and the handle-relative primitives of \<^verbatim>\<open>src/reprobit/secure_paths_posix.py\<close> and
  \<^verbatim>\<open>src/reprobit/exact_tree.py\<close> they call.

  A procedure maps a disk to its result, the disk it leaves behind and the disks after each of
  its atomic mutations (create, rename, unlink, mkdir): a crash leaves one of them.  Nobody
  else writes while a procedure runs, so the rechecks a primitive makes after its own rename
  find what the rename left and are not repeated here.  There are no symbolic links and one
  device.  Names made from a fresh UUID carry the clock value they were made at; a digest is a
  function of the content, which also fixes the size.
\<close>

section \<open>Names, files and journals\<close>

datatype name = Name string | Index nat | Uuid nat | Temporary name nat | Guard name nat | Final name nat

type_synonym path = "name list"

datatype op_kind = Op_Write | Op_Delete | Op_Check

record publication =
  pb_digest :: string
  pb_inode :: nat
  pb_mtime :: nat
  pb_mode :: int

record journal_entry =
  je_index :: int
  je_kind :: op_kind
  je_path :: path
  je_expected :: "string option"
  je_result :: "string option"
  je_preimage :: "publication option"
  je_staged :: "publication option"
  je_backup :: path
  je_staged_path :: path

datatype tx_state = Prepared | Applying | Committed

record journal =
  jr_schema :: string
  jr_transaction_id :: name
  jr_state :: tx_state
  jr_operations :: "journal_entry list"
  jr_directories :: "(path \<times> nat option) list"
  jr_transaction_directory :: name

text \<open>
  A file holds bytes, or the canonical JSON of a journal, which is kept as the journal it
  encodes.
\<close>

datatype content = Data bytes | Journal journal

record file_entry =
  fe_content :: content
  fe_inode :: nat
  fe_mtime :: nat
  fe_mode :: int
  fe_ctime :: nat

record disk =
  dk_files :: "path \<Rightarrow> file_entry option"
  dk_dirs :: "(path \<times> nat) list"
  dk_clock :: nat

definition dir_at :: "disk \<Rightarrow> path \<Rightarrow> nat option" where
  "dir_at d p = map_of (dk_dirs d) p"

text \<open>\<^verbatim>\<open>os.path.lexists\<close>.\<close>

definition exists_at :: "disk \<Rightarrow> path \<Rightarrow> bool" where
  "exists_at d p = (dk_files d p \<noteq> None \<or> dir_at d p \<noteq> None)"

section \<open>Procedures\<close>

datatype tx_error = TransactionError string | TransactionConflict string | SecurePathError string

type_synonym 'a proc = "disk \<Rightarrow> (tx_error + 'a) \<times> disk \<times> disk list"

definition yields :: "'a \<Rightarrow> 'a proc" where
  "yields x d = (Inr x, d, [])"

definition raises :: "tx_error \<Rightarrow> 'a proc" where
  "raises e d = (Inl e, d, [])"

definition andthen :: "'a proc \<Rightarrow> ('a \<Rightarrow> 'b proc) \<Rightarrow> 'b proc" where
  "andthen p f d =
     (case p d of
        (Inl e, d1, t) \<Rightarrow> (Inl e, d1, t)
      | (Inr x, d1, t) \<Rightarrow> (case f x d1 of (r, d2, u) \<Rightarrow> (r, d2, t @ u)))"

definition on_error :: "'a proc \<Rightarrow> (tx_error \<Rightarrow> 'a proc) \<Rightarrow> 'a proc" where
  "on_error p h d =
     (case p d of
        (Inr x, d1, t) \<Rightarrow> (Inr x, d1, t)
      | (Inl e, d1, t) \<Rightarrow> (case h e d1 of (r, d2, u) \<Rightarrow> (r, d2, t @ u)))"

definition look :: "(disk \<Rightarrow> 'a) \<Rightarrow> 'a proc" where
  "look f d = (Inr (f d), d, [])"

definition demand :: "bool \<Rightarrow> tx_error \<Rightarrow> unit proc" where
  "demand c e = (if c then yields () else raises e)"

primrec each :: "('a \<Rightarrow> unit proc) \<Rightarrow> 'a list \<Rightarrow> unit proc" where
  "each f [] = yields ()"
| "each f (x # xs) = andthen (f x) (\<lambda>_. each f xs)"

primrec collect :: "('a \<Rightarrow> 'b proc) \<Rightarrow> 'a list \<Rightarrow> 'b list proc" where
  "collect f [] = yields []"
| "collect f (x # xs) = andthen (f x) (\<lambda>y. andthen (collect f xs) (\<lambda>ys. yields (y # ys)))"

text \<open>One atomic mutation; the clock orders inode numbers, change times and fresh names.\<close>

definition mutate :: "(disk \<Rightarrow> disk) \<Rightarrow> unit proc" where
  "mutate f d = (let e = (f d)\<lparr>dk_clock := Suc (dk_clock d)\<rparr> in (Inr (), e, [e]))"

definition mkdir :: "path \<Rightarrow> disk \<Rightarrow> disk" where
  "mkdir p d = d\<lparr>dk_dirs := dk_dirs d @ [(p, dk_clock d)]\<rparr>"

definition new_file :: "path \<Rightarrow> content \<Rightarrow> int \<Rightarrow> disk \<Rightarrow> disk" where
  "new_file p c mode d =
     d\<lparr>dk_files := (dk_files d)(p \<mapsto> \<lparr>fe_content = c, fe_inode = dk_clock d, fe_mtime = dk_clock d,
                                    fe_mode = mode, fe_ctime = dk_clock d\<rparr>)\<rparr>"

definition rename_file :: "path \<Rightarrow> path \<Rightarrow> disk \<Rightarrow> disk" where
  "rename_file p q d =
     (case dk_files d p of
        None \<Rightarrow> d
      | Some f \<Rightarrow> d\<lparr>dk_files := (dk_files d)(p := None, q \<mapsto> f\<lparr>fe_ctime := dk_clock d\<rparr>)\<rparr>)"

definition unlink :: "path \<Rightarrow> disk \<Rightarrow> disk" where
  "unlink p d = d\<lparr>dk_files := (dk_files d)(p := None)\<rparr>"

definition is_below :: "path \<Rightarrow> path \<Rightarrow> bool" where
  "is_below root p = (take (length root) p = root)"

text \<open>A directory and everything below it moves, what is below it goes away, or all of it does.\<close>

definition rename_tree :: "path \<Rightarrow> path \<Rightarrow> disk \<Rightarrow> disk" where
  "rename_tree s q d =
     d\<lparr>dk_files := (\<lambda>p. if is_below q p then dk_files d (s @ drop (length q) p)
                       else if is_below s p then None else dk_files d p),
       dk_dirs := map (\<lambda>(p, i). (if is_below s p then q @ drop (length s) p else p, i)) (dk_dirs d)\<rparr>"

definition empty_tree :: "path \<Rightarrow> disk \<Rightarrow> disk" where
  "empty_tree q d =
     d\<lparr>dk_files := (\<lambda>p. if is_below q p \<and> p \<noteq> q then None else dk_files d p),
       dk_dirs := filter (\<lambda>(p, i). \<not> (is_below q p \<and> p \<noteq> q)) (dk_dirs d)\<rparr>"

definition remove_tree :: "path \<Rightarrow> disk \<Rightarrow> disk" where
  "remove_tree q d =
     d\<lparr>dk_files := (\<lambda>p. if is_below q p then None else dk_files d p),
       dk_dirs := filter (\<lambda>(p, i). \<not> is_below q p) (dk_dirs d)\<rparr>"

section \<open>Held ancestors\<close>

type_synonym expectations = "(path \<times> nat) list"

definition ancestors :: "path \<Rightarrow> path list" where
  "ancestors p = map (\<lambda>n. take n p) [1..<length p]"

definition hold_root :: "expectations \<Rightarrow> unit proc" where
  "hold_root expected =
     andthen (look (\<lambda>d. dir_at d [])) (\<lambda>identity.
       demand (identity \<noteq> None \<and> (map_of expected [] \<noteq> None \<longrightarrow> map_of expected [] = identity))
         (SecurePathError ''secure path root changed before use''))"

definition hold_component :: "bool \<Rightarrow> expectations \<Rightarrow> path \<Rightarrow> unit proc" where
  "hold_component create expected p =
     andthen (look (\<lambda>d. create \<and> map_of expected p = None \<and> \<not> exists_at d p)) (\<lambda>missing.
     andthen (if missing then mutate (mkdir p) else yields ()) (\<lambda>_.
     andthen (look (\<lambda>d. dir_at d p)) (\<lambda>identity.
     andthen (demand (identity \<noteq> None) (SecurePathError ''secure path component is absent or redirected'')) (\<lambda>_.
       demand (map_of expected p \<noteq> None \<longrightarrow> map_of expected p = identity)
         (SecurePathError ''secure path directory changed before use'')))))"

definition parent_chain :: "bool \<Rightarrow> expectations \<Rightarrow> path \<Rightarrow> unit proc" where
  "parent_chain create expected p = each (hold_component create expected) (ancestors p)"

section \<open>Reading and publishing\<close>

definition digest_relative_file :: "path \<Rightarrow> expectations \<Rightarrow> file_entry proc" where
  "digest_relative_file p expected =
     andthen (hold_root expected) (\<lambda>_.
     andthen (parent_chain False expected p) (\<lambda>_.
     andthen (look (\<lambda>d. dk_files d p)) (\<lambda>found.
       case found of Some f \<Rightarrow> yields f
       | None \<Rightarrow> raises (SecurePathError ''cannot securely hash source input''))))"

definition temporary_path :: "path \<Rightarrow> nat \<Rightarrow> path" where
  "temporary_path p n = butlast p @ [Temporary (last p) n]"

definition guard_path :: "path \<Rightarrow> nat \<Rightarrow> path" where
  "guard_path p n = butlast p @ [Guard (last p) n]"

text \<open>The installation of a temporary file under its name, as the last step of a publication.\<close>

definition install :: "path \<Rightarrow> path \<Rightarrow> file_entry proc" where
  "install tmp p =
     andthen (mutate (rename_file tmp p)) (\<lambda>_.
     andthen (look (\<lambda>d. dk_files d p)) (\<lambda>found.
       case found of Some f \<Rightarrow> yields f
       | None \<Rightarrow> raises (SecurePathError ''publication target changed during commit'')))"

definition atomic_publish_new_from_stream :: "path \<Rightarrow> content \<Rightarrow> expectations \<Rightarrow> file_entry proc" where
  "atomic_publish_new_from_stream p c expected =
     andthen (hold_root expected) (\<lambda>_.
     andthen (parent_chain True expected p) (\<lambda>_.
     andthen (look (\<lambda>d. exists_at d p)) (\<lambda>occupied.
     andthen (demand (\<not> occupied) (SecurePathError ''secure create-if-absent target already exists'')) (\<lambda>_.
     andthen (look (\<lambda>d. temporary_path p (dk_clock d))) (\<lambda>tmp.
     andthen (mutate (new_file tmp c 420)) (\<lambda>_. install tmp p))))))"

definition atomic_publish_if_current ::
    "path \<Rightarrow> content \<Rightarrow> file_entry option \<Rightarrow> expectations \<Rightarrow> file_entry proc" where
  "atomic_publish_if_current p c expected directories =
     andthen (hold_root directories) (\<lambda>_.
     andthen (parent_chain True directories p) (\<lambda>_.
     andthen (look (\<lambda>d. (dk_files d p, dir_at d p))) (\<lambda>(preimage, dir).
     andthen (demand (dir = None) (SecurePathError ''secure publication refuses a non-regular target'')) (\<lambda>_.
     andthen (demand (preimage = expected) (SecurePathError ''publication preimage changed'')) (\<lambda>_.
     andthen (look (\<lambda>d. temporary_path p (dk_clock d))) (\<lambda>tmp.
     andthen (mutate (new_file tmp c 384)) (\<lambda>_.
     case preimage of
       None \<Rightarrow> install tmp p
     | Some _ \<Rightarrow>
         andthen (look (\<lambda>d. guard_path p (dk_clock d))) (\<lambda>guard.
         andthen (mutate (rename_file p guard)) (\<lambda>_.
         andthen (install tmp p) (\<lambda>published.
         andthen (mutate (unlink guard)) (\<lambda>_. yields published))))))))))) "

definition promote_relative_new ::
    "path \<Rightarrow> path \<Rightarrow> file_entry \<Rightarrow> expectations \<Rightarrow> file_entry proc" where
  "promote_relative_new src dst expected directories =
     andthen (demand (src \<noteq> dst) (SecurePathError ''secure promotion source and destination overlap'')) (\<lambda>_.
     andthen (hold_root directories) (\<lambda>_.
     andthen (parent_chain False directories src) (\<lambda>_.
     andthen (parent_chain True directories dst) (\<lambda>_.
     andthen (look (\<lambda>d. (dk_files d src = Some expected, exists_at d dst))) (\<lambda>(same, occupied).
     andthen (demand same (SecurePathError ''secure promotion source changed'')) (\<lambda>_.
     andthen (demand (\<not> occupied) (SecurePathError ''secure create-if-absent target already exists'')) (\<lambda>_.
       install src dst)))))))"

text \<open>A changed or missing entry is left alone and reported as \<open>False\<close>.\<close>

definition remove_published_relative :: "path \<Rightarrow> file_entry \<Rightarrow> expectations \<Rightarrow> bool proc" where
  "remove_published_relative p expected directories =
     andthen (hold_root directories) (\<lambda>_.
     andthen (parent_chain False directories p) (\<lambda>_.
     andthen (look (\<lambda>d. dk_files d p = Some expected)) (\<lambda>same.
     if \<not> same then yields False
     else andthen (look (\<lambda>d. guard_path p (dk_clock d))) (\<lambda>guard.
          andthen (mutate (rename_file p guard)) (\<lambda>_.
          andthen (mutate (unlink guard)) (\<lambda>_. yields True))))))"

definition create_directory_in_exact_parent :: "path \<Rightarrow> nat \<Rightarrow> nat proc" where
  "create_directory_in_exact_parent p parent =
     andthen (look (\<lambda>d. dir_at d (butlast p) = Some parent \<and> \<not> exists_at d p)) (\<lambda>free.
     andthen (demand free (TransactionError ''cannot securely create private directory'')) (\<lambda>_.
     andthen (mutate (mkdir p)) (\<lambda>_.
     andthen (look (\<lambda>d. dir_at d p)) (\<lambda>identity.
       case identity of Some i \<Rightarrow> yields i
       | None \<Rightarrow> raises (TransactionError ''private directory changed during creation'')))))"

definition move_directory_in_exact_parent :: "path \<Rightarrow> nat \<Rightarrow> path \<Rightarrow> nat \<Rightarrow> unit proc" where
  "move_directory_in_exact_parent src identity dst parent =
     andthen (look (\<lambda>d. dir_at d (butlast src) = Some parent \<and> dir_at d src = Some identity \<and> \<not> exists_at d dst))
       (\<lambda>ok.
     andthen (demand ok (TransactionError ''cannot quarantine transaction seat'')) (\<lambda>_.
       mutate (rename_tree src dst)))"

text \<open>
  Removing a quarantined tree unlinks its members one by one, moves the empty directory to one
  last name and removes it there.  A quarantined seat has no journal, and the invariants below
  say nothing else of its members, so one step stands for all of the unlinks.
\<close>

definition final_path :: "path \<Rightarrow> nat \<Rightarrow> path" where
  "final_path p n = butlast p @ [Final (last p) n]"

definition remove_exact_directory_tree :: "path \<Rightarrow> nat \<Rightarrow> unit proc" where
  "remove_exact_directory_tree p identity =
     andthen (look (\<lambda>d. dir_at d p = Some identity)) (\<lambda>same.
     andthen (demand same (TransactionError ''cannot remove quarantined transaction seat'')) (\<lambda>_.
     andthen (mutate (empty_tree p)) (\<lambda>_.
     andthen (look (\<lambda>d. final_path p (dk_clock d))) (\<lambda>final_name.
     andthen (mutate (rename_tree p final_name)) (\<lambda>_.
       mutate (remove_tree final_name))))))"

end
