(* ===== verification/Transactions.thy ===== *)
theory Transactions
  imports Transaction_Disk "HOL-Library.List_Lexorder" "HOL-Library.Char_ord"
begin

text \<open>
  Journaled compare-and-swap transactions, from \<^verbatim>\<open>src/reprobit/transactions.py\<close>: staging
  operations, committing them under a journal, rolling a journal back and recovering after a
  crash.  The project lock is held throughout a commit or a recovery, and directory membership
  assertions (\<^verbatim>\<open>assert_json_members\<close>) are left out.  A transaction holds its paths as parsed
  names; \<open>sha\<close> is the digest of a file's content.
\<close>

section \<open>Staging operations\<close>

record operation =
  op_kind :: op_kind
  op_path :: path
  op_expected :: "string option"
  op_data :: "bytes option"
  op_result :: "string option"

record cas_transaction =
  ct_id :: name
  ct_operations :: "operation list"
  ct_committed :: bool
  ct_closed :: bool

definition state_root :: path where
  "state_root = [Name ''.reprobit-transactions'']"

definition new_transaction :: "name \<Rightarrow> cas_transaction" where
  "new_transaction transaction_id =
     \<lparr>ct_id = transaction_id, ct_operations = [], ct_committed = False, ct_closed = False\<rparr>"

definition is_hex_digest :: "string \<Rightarrow> bool" where
  "is_hex_digest s = (length s = 64 \<and> list_all (\<lambda>c. c \<in> set ''0123456789abcdef'') s)"

datatype tx_refusal = Already_Closed | Unsafe_Path | Private_Path | Repeated_Path | Bad_Digest

text \<open>
  \<^verbatim>\<open>expected\<close> is the digest the caller gives, or the one observed when the argument was left
  out.
\<close>

definition tx_add ::
    "op_kind \<Rightarrow> path \<Rightarrow> bytes option \<Rightarrow> string option \<Rightarrow> (content \<Rightarrow> string) \<Rightarrow> cas_transaction \<Rightarrow>
     tx_refusal + cas_transaction" where
  "tx_add kind p data expected sha tx =
     (if ct_committed tx \<or> ct_closed tx then Inl Already_Closed
      else if p = [] then Inl Unsafe_Path
      else if hd p = hd state_root then Inl Private_Path
      else if p \<in> op_path ` set (ct_operations tx) then Inl Repeated_Path
      else if \<not> (case expected of None \<Rightarrow> True | Some h \<Rightarrow> is_hex_digest h) then Inl Bad_Digest
      else let result = map_option (\<lambda>bs. sha (Data bs)) data;
               compare_only = (kind = Op_Write \<and> result = expected)
           in Inr (tx\<lparr>ct_operations := ct_operations tx @
                  [\<lparr>op_kind = (if compare_only then Op_Check else kind), op_path = p, op_expected = expected,
                    op_data = (if compare_only then None else data),
                    op_result = (if compare_only then None else result)\<rparr>]\<rparr>))"

definition tx_write where
  "tx_write p data expected sha tx = tx_add Op_Write p (Some data) expected sha tx"

definition tx_delete where
  "tx_delete p expected sha tx = tx_add Op_Delete p None expected sha tx"

definition tx_assert_unchanged where
  "tx_assert_unchanged p expected sha tx = tx_add Op_Check p None expected sha tx"

definition tx_abort :: "cas_transaction \<Rightarrow> tx_error + cas_transaction" where
  "tx_abort tx =
     (if ct_committed tx then Inl (TransactionError ''cannot abort a committed transaction'')
      else Inr (tx\<lparr>ct_closed := True, ct_operations := []\<rparr>))"

section \<open>Snapshots and expectations\<close>

definition publication_record :: "(content \<Rightarrow> string) \<Rightarrow> file_entry \<Rightarrow> publication" where
  "publication_record sha f =
     \<lparr>pb_digest = sha (fe_content f), pb_inode = fe_inode f, pb_mtime = fe_mtime f, pb_mode = fe_mode f\<rparr>"

definition snapshot_matches_record ::
    "(content \<Rightarrow> string) \<Rightarrow> file_entry \<Rightarrow> publication option \<Rightarrow> string option \<Rightarrow> bool" where
  "snapshot_matches_record sha f record expected_sha256 =
     (case record of
        None \<Rightarrow> False
      | Some r \<Rightarrow> (expected_sha256 \<noteq> None \<longrightarrow> Some (sha (fe_content f)) = expected_sha256)
                  \<and> publication_record sha f = r)"

definition require_directory_identity :: "path \<times> nat \<Rightarrow> unit proc" where
  "require_directory_identity pi =
     andthen (look (\<lambda>d. dir_at d (fst pi) = Some (snd pi))) (\<lambda>same.
       demand same (TransactionError ''transaction seat changed''))"

text \<open>A file's entry, or \<open>None\<close> for a stable absence.\<close>

definition optional_snapshot :: "path \<Rightarrow> expectations \<Rightarrow> file_entry option proc" where
  "optional_snapshot p expected =
     on_error (andthen (digest_relative_file p expected) (\<lambda>f. yields (Some f))) (\<lambda>e.
       andthen (each require_directory_identity expected) (\<lambda>_.
       andthen (look (\<lambda>d. exists_at d p)) (\<lambda>present.
         if present then raises e else yields None)))"

definition safe_target :: "path \<Rightarrow> unit proc" where
  "safe_target p =
     andthen (look (\<lambda>d. list_all (\<lambda>q. dk_files d q = None) (ancestors p))) (\<lambda>ok.
       demand ok (TransactionError ''transaction parent is not a directory''))"

definition expectations_for :: "expectations \<Rightarrow> path list \<Rightarrow> expectations" where
  "expectations_for expected relatives =
     filter (\<lambda>(p, i). p \<in> set ([] # concat (map ancestors relatives))) expected"

definition seat_expectations :: "path \<Rightarrow> nat \<Rightarrow> nat \<Rightarrow> expectations" where
  "seat_expectations seat identity state_root_identity =
     [(butlast seat, state_root_identity), (seat, identity)]"

text \<open>\<^verbatim>\<open>{**left, **right}\<close>.\<close>

definition merged :: "expectations \<Rightarrow> expectations \<Rightarrow> expectations" where
  "merged left right = right @ filter (\<lambda>(p, i). p \<notin> fst ` set right) left"

definition journal_paths :: "operation list \<Rightarrow> path list" where
  "journal_paths ops = remdups ([] # concat (map (ancestors \<circ> op_path) ops))"

definition capture_existing_directories :: "operation list \<Rightarrow> expectations proc" where
  "capture_existing_directories ops =
     andthen (look (\<lambda>d. filter (\<lambda>p. p = [] \<or> exists_at d p) (journal_paths ops))) (\<lambda>wanted.
     collect (\<lambda>p. andthen (look (\<lambda>d. dir_at d p)) (\<lambda>identity.
       case identity of Some i \<Rightarrow> yields (p, i)
       | None \<Rightarrow> raises (TransactionConflict ''transaction directory is redirected''))) wanted)"

section \<open>The journal\<close>

definition journal_path :: "path \<Rightarrow> path" where
  "journal_path seat = seat @ [Name ''journal.json'']"

definition backup_path :: "path \<Rightarrow> nat \<Rightarrow> path" where
  "backup_path seat k = seat @ [Name ''backups'', Index k]"

definition staged_path :: "path \<Rightarrow> nat \<Rightarrow> path" where
  "staged_path seat k = seat @ [Name ''staged'', Index k]"

definition journal_schema :: string where
  "journal_schema = ''reprobit.cas-transaction.v2''"

definition journal_record :: "operation list \<Rightarrow> name \<Rightarrow> name \<Rightarrow> tx_state \<Rightarrow> journal" where
  "journal_record ops transaction_id directory state =
     \<lparr>jr_schema = journal_schema, jr_transaction_id = transaction_id, jr_state = state,
      jr_operations = map (\<lambda>(k, op).
        \<lparr>je_index = int k, je_kind = op_kind op, je_path = op_path op, je_expected = op_expected op,
         je_result = op_result op, je_preimage = None, je_staged = None,
         je_backup = backup_path [] k, je_staged_path = staged_path [] k\<rparr>) (enumerate 0 ops),
      jr_directories = [], jr_transaction_directory = directory\<rparr>"

definition write_journal :: "path \<Rightarrow> journal \<Rightarrow> file_entry option \<Rightarrow> expectations \<Rightarrow> file_entry proc" where
  "write_journal seat record expected directories =
     on_error (atomic_publish_if_current (journal_path seat) (Journal record) expected directories) (\<lambda>e.
       raises (case e of SecurePathError _ \<Rightarrow> TransactionError ''transaction journal changed'' | _ \<Rightarrow> e))"

definition read_journal :: "path \<Rightarrow> nat \<Rightarrow> nat \<Rightarrow> (journal \<times> file_entry) option proc" where
  "read_journal seat identity state_root_identity =
     andthen (on_error
       (andthen (digest_relative_file (journal_path seat) (seat_expectations seat identity state_root_identity))
          (\<lambda>f. yields (Some f)))
       (\<lambda>e. andthen (require_directory_identity (seat, identity)) (\<lambda>_.
            andthen (look (\<lambda>d. exists_at d (journal_path seat))) (\<lambda>present.
              if present then raises (TransactionError ''cannot securely read transaction journal'')
              else yields None)))) (\<lambda>found.
     case found of
       None \<Rightarrow> yields None
     | Some f \<Rightarrow> (case fe_content f of
                    Journal record \<Rightarrow> yields (Some (record, f))
                  | Data _ \<Rightarrow> raises (TransactionError ''cannot read transaction journal'')))"

definition journal_entry_ok :: "nat \<times> journal_entry \<Rightarrow> bool" where
  "journal_entry_ok ke =
     (case ke of (k, e) \<Rightarrow>
       je_index e = int k \<and> je_path e \<noteq> [] \<and> hd (je_path e) \<noteq> hd state_root
       \<and> (case je_expected e of None \<Rightarrow> True | Some h \<Rightarrow> is_hex_digest h)
       \<and> (case je_result e of None \<Rightarrow> True | Some h \<Rightarrow> is_hex_digest h)
       \<and> je_backup e = backup_path [] k \<and> je_staged_path e = staged_path [] k
       \<and> (je_kind e = Op_Write) = (je_result e \<noteq> None))"

definition validate_journal_record :: "path \<Rightarrow> journal \<Rightarrow> unit proc" where
  "validate_journal_record seat record =
     (let allowed = [] # concat (map (ancestors \<circ> je_path) (jr_operations record))
      in andthen (demand (jr_transaction_id record = last seat \<and> jr_transaction_directory record = last seat)
           (TransactionError ''transaction journal does not match its seat'')) (\<lambda>_.
         andthen (demand (jr_schema record = journal_schema) (TransactionError ''unsupported transaction journal'')) (\<lambda>_.
         andthen (demand (list_all journal_entry_ok (enumerate 0 (jr_operations record)))
           (TransactionError ''malformed transaction operation'')) (\<lambda>_.
         demand (fst ` set (jr_directories record) \<subseteq> set allowed
             \<and> (jr_state record \<noteq> Prepared \<longrightarrow>
                 fst ` set (jr_directories record) = set allowed
                 \<and> map_of (jr_directories record) [] \<notin> {None, Some None}))
           (TransactionError ''malformed transaction directories'')))))"

definition recorded_directories :: "journal \<Rightarrow> expectations" where
  "recorded_directories record =
     concat (map (\<lambda>(p, identity). case identity of None \<Rightarrow> [] | Some i \<Rightarrow> [(p, i)]) (jr_directories record))"

section \<open>Removing a seat\<close>

definition remove_transaction_directory :: "path \<Rightarrow> nat \<Rightarrow> nat \<Rightarrow> file_entry option \<Rightarrow> unit proc" where
  "remove_transaction_directory seat identity state_root_identity journal =
     andthen (case journal of
       None \<Rightarrow> yields ()
     | Some f \<Rightarrow>
         on_error (andthen (remove_published_relative (journal_path seat) f
                     (seat_expectations seat identity state_root_identity)) (\<lambda>removed.
                   demand removed (TransactionError ''transaction journal changed'')))
           (\<lambda>e. raises (case e of SecurePathError _ \<Rightarrow> TransactionError ''transaction journal changed'' | _ \<Rightarrow> e)))
       (\<lambda>_.
     andthen (require_directory_identity (butlast seat, state_root_identity)) (\<lambda>_.
     andthen (require_directory_identity (seat, identity)) (\<lambda>_.
     andthen (look (\<lambda>d. butlast seat @ [Uuid (dk_clock d)])) (\<lambda>quarantine.
     andthen (move_directory_in_exact_parent seat identity quarantine state_root_identity) (\<lambda>_.
       remove_exact_directory_tree quarantine identity)))))"

section \<open>Rolling back\<close>

definition secure_as :: "tx_error \<Rightarrow> 'a proc \<Rightarrow> 'a proc" where
  "secure_as replacement p =
     on_error p (\<lambda>e. raises (case e of SecurePathError _ \<Rightarrow> replacement | _ \<Rightarrow> e))"

text \<open>Remove what the transaction installed at a target, after checking that it is just that.\<close>

definition remove_installed ::
    "(content \<Rightarrow> string) \<Rightarrow> journal_entry \<Rightarrow> file_entry \<Rightarrow> expectations \<Rightarrow> unit proc" where
  "remove_installed sha e current expected =
     andthen (demand (je_kind e = Op_Write \<and> snapshot_matches_record sha current (je_staged e) (je_result e))
       (TransactionError ''recovery target has unknown contents'')) (\<lambda>_.
     andthen (remove_published_relative (je_path e) current expected) (\<lambda>removed.
       demand removed (TransactionError ''recovery target changed'')))"

definition rollback_entry ::
    "(content \<Rightarrow> string) \<Rightarrow> path \<Rightarrow> expectations \<Rightarrow> expectations \<Rightarrow> journal_entry \<Rightarrow> unit proc" where
  "rollback_entry sha seat project seat_expected e =
     (if je_kind e = Op_Check then yields ()
      else let relative = je_path e; backup = seat @ je_backup e;
               target_expected = expectations_for project [relative];
               private_expected = merged (expectations_for project [backup]) seat_expected;
               promotion_expected = merged (expectations_for project [backup, relative]) seat_expected
      in andthen (safe_target relative) (\<lambda>_.
         andthen (secure_as (TransactionError ''transaction recovery path changed'')
                    (optional_snapshot relative target_expected)) (\<lambda>current.
         andthen (secure_as (TransactionError ''transaction recovery path changed'')
                    (optional_snapshot backup private_expected)) (\<lambda>saved.
         case saved of
           Some s \<Rightarrow>
             andthen (demand (snapshot_matches_record sha s (je_preimage e) (je_expected e))
               (TransactionError ''transaction backup changed'')) (\<lambda>_.
             andthen (case current of None \<Rightarrow> yields ()
                      | Some c \<Rightarrow> remove_installed sha e c target_expected) (\<lambda>_.
             andthen (secure_as (TransactionError ''recovery target changed'')
                        (promote_relative_new backup relative s promotion_expected)) (\<lambda>_. yields ())))
         | None \<Rightarrow>
             if je_expected e \<noteq> None
             then demand (case current of None \<Rightarrow> False
                          | Some c \<Rightarrow> snapshot_matches_record sha c (je_preimage e) (je_expected e))
                    (TransactionError ''recovery target has unknown contents'')
             else (case current of None \<Rightarrow> yields ()
                   | Some c \<Rightarrow> remove_installed sha e c target_expected)))))"

definition rollback_record :: "(content \<Rightarrow> string) \<Rightarrow> path \<Rightarrow> nat \<Rightarrow> nat \<Rightarrow> journal \<Rightarrow> unit proc" where
  "rollback_record sha seat identity state_root_identity record =
     andthen (validate_journal_record seat record) (\<lambda>_.
       if jr_state record = Prepared then yields ()
       else each (rollback_entry sha seat (recorded_directories record)
                    (seat_expectations seat identity state_root_identity))
              (rev (jr_operations record)))"

section \<open>Recovery\<close>

text \<open>\<^verbatim>\<open>_prepare_state_root\<close>.\<close>

definition prepare_state_root :: "nat proc" where
  "prepare_state_root =
     andthen (look (\<lambda>d. (exists_at d state_root, dir_at d state_root, dir_at d []))) (\<lambda>(present, identity, root).
       if present
       then (case identity of Some i \<Rightarrow> yields i
             | None \<Rightarrow> raises (TransactionError ''project transaction state is not a real directory''))
       else (case root of Some r \<Rightarrow> create_directory_in_exact_parent state_root r
             | None \<Rightarrow> raises (TransactionError ''cannot inspect transaction directory'')))"

text \<open>
  How a name is spelled: an index in decimal, an identifier as the 32 hexadecimal digits of a UUID, and the names the primitives make up begin with a dot.
\<close>

primrec numeral_digits :: "nat \<Rightarrow> nat \<Rightarrow> nat \<Rightarrow> string" where
  "numeral_digits radix 0 n = []"
| "numeral_digits radix (Suc k) n = numeral_digits radix k (n div radix) @ [''0123456789abcdef'' ! (n mod radix)]"

definition uuid_hex :: "nat \<Rightarrow> string" where
  "uuid_hex n = numeral_digits 16 32 n"

fun index_width :: "nat \<Rightarrow> nat" where
  "index_width k = (if k < 10 then 1 else Suc (index_width (k div 10)))"

primrec spelled :: "name \<Rightarrow> string" where
  "spelled (Name s) = s"
| "spelled (Index k) = numeral_digits 10 (index_width k) k"
| "spelled (Uuid n) = uuid_hex n"
| "spelled (Temporary x n) = ''.'' @ spelled x @ ''.reprobit-'' @ uuid_hex n"
| "spelled (Guard x n) = ''.'' @ spelled x @ ''.reprobit-guard-'' @ uuid_hex n"
| "spelled (Final x n) = ''.'' @ spelled x @ ''.final-remove-'' @ uuid_hex n"

text \<open>\<^verbatim>\<open>_canonical_transaction_id\<close>: exactly 32 lower-case hexadecimal digits.\<close>

definition is_transaction_id :: "name \<Rightarrow> bool" where
  "is_transaction_id n =
     (length (spelled n) = 32 \<and> list_all (\<lambda>c. c \<in> set ''0123456789abcdef'') (spelled n))"

text \<open>The directories directly below the state root, sorted by name.\<close>

definition seat_names :: "disk \<Rightarrow> name list" where
  "seat_names d =
     sort_key spelled (map last (filter (\<lambda>p. length p = 2 \<and> hd p = hd state_root) (map fst (dk_dirs d))))"

definition recover_seat :: "(content \<Rightarrow> string) \<Rightarrow> nat \<Rightarrow> name \<Rightarrow> name proc" where
  "recover_seat sha state_root_identity n =
     (let seat = state_root @ [n]
      in andthen (demand (is_transaction_id n) (TransactionError ''invalid transaction seat'')) (\<lambda>_.
         andthen (look (\<lambda>d. dir_at d seat)) (\<lambda>found.
         case found of
           None \<Rightarrow> raises (TransactionError ''cannot inspect transaction directory'')
         | Some identity \<Rightarrow>
             andthen (read_journal seat identity state_root_identity) (\<lambda>loaded.
             case loaded of
               None \<Rightarrow>
                 andthen (remove_transaction_directory seat identity state_root_identity None) (\<lambda>_. yields n)
             | Some (record, snapshot) \<Rightarrow>
                 andthen (validate_journal_record seat record) (\<lambda>_.
                 andthen (if jr_state record \<noteq> Committed
                          then rollback_record sha seat identity state_root_identity record
                          else yields ()) (\<lambda>_.
                 andthen (remove_transaction_directory seat identity state_root_identity (Some snapshot)) (\<lambda>_.
                   yields n)))))))"

definition recover_locked :: "(content \<Rightarrow> string) \<Rightarrow> nat \<Rightarrow> name list proc" where
  "recover_locked sha state_root_identity =
     andthen (require_directory_identity (state_root, state_root_identity)) (\<lambda>_.
     andthen (look seat_names) (\<lambda>names. collect (recover_seat sha state_root_identity) names))"

definition recover :: "(content \<Rightarrow> string) \<Rightarrow> name list proc" where
  "recover sha = andthen prepare_state_root (recover_locked sha)"

section \<open>Committing\<close>

definition snapshot_digest :: "(content \<Rightarrow> string) \<Rightarrow> file_entry option \<Rightarrow> string option" where
  "snapshot_digest sha = map_option (\<lambda>f. sha (fe_content f))"

text \<open>The entries found at the operations' targets; a digest that differs is a conflict.\<close>

definition capture_preimages ::
    "(content \<Rightarrow> string) \<Rightarrow> operation list \<Rightarrow> expectations \<Rightarrow> file_entry option list proc" where
  "capture_preimages sha ops expected =
     andthen (collect (\<lambda>op.
       andthen (safe_target (op_path op)) (\<lambda>_.
         secure_as (TransactionConflict ''transaction target is redirected or not a regular file'')
           (optional_snapshot (op_path op) (expectations_for expected [op_path op])))) ops) (\<lambda>found.
     andthen (demand (list_all2 (\<lambda>op f. snapshot_digest sha f = op_expected op) ops found)
       (TransactionConflict ''transaction preimage conflict'')) (\<lambda>_. yields found))"

definition verify_postimages :: "(content \<Rightarrow> string) \<Rightarrow> operation list \<Rightarrow> expectations \<Rightarrow> unit proc" where
  "verify_postimages sha ops expected =
     andthen (collect (\<lambda>op.
       andthen (safe_target (op_path op)) (\<lambda>_.
         secure_as (TransactionError ''transaction target is not a regular file'')
           (optional_snapshot (op_path op) (expectations_for expected [op_path op])))) ops) (\<lambda>found.
     demand (list_all2 (\<lambda>op f. snapshot_digest sha f =
         (if op_kind op = Op_Check then op_expected op else op_result op)) ops found)
       (TransactionConflict ''transaction postimage conflict''))"

definition stage_operation :: "path \<Rightarrow> expectations \<Rightarrow> nat \<times> operation \<Rightarrow> file_entry option proc" where
  "stage_operation seat seat_expected kop =
     (case kop of (k, op) \<Rightarrow> case op_data op of
        None \<Rightarrow> yields None
      | Some data \<Rightarrow>
          andthen (atomic_publish_new_from_stream (staged_path seat k) (Data data) seat_expected) (\<lambda>f.
            yields (Some f)))"


text \<open>
  The body of a commit threads the in-memory record and the last journal snapshot, which the
  exception handler needs: it never raises but returns the error with them.
\<close>

type_synonym outcome = "tx_error option \<times> journal \<times> file_entry option"

definition guarded :: "journal \<Rightarrow> file_entry option \<Rightarrow> 'a proc \<Rightarrow> ('a \<Rightarrow> outcome proc) \<Rightarrow> outcome proc" where
  "guarded record snapshot p f d =
     (case p d of
        (Inl e, d1, t) \<Rightarrow> (Inr (Some e, record, snapshot), d1, t)
      | (Inr x, d1, t) \<Rightarrow> (case f x d1 of (r, d2, u) \<Rightarrow> (r, d2, t @ u)))"

definition mark_check :: "nat \<Rightarrow> journal \<Rightarrow> journal" where
  "mark_check k record =
     record\<lparr>jr_operations := (jr_operations record)[k := (jr_operations record ! k)
       \<lparr>je_kind := Op_Check, je_result := None, je_staged := None\<rparr>]\<rparr>"

text \<open>
  Installing one staged output.  A new file that cannot be installed is journaled as a
  compare-only operation before the conflict is raised.
\<close>

definition install_staged ::
    "(content \<Rightarrow> string) \<Rightarrow> path \<Rightarrow> expectations \<Rightarrow> expectations \<Rightarrow> journal \<Rightarrow> file_entry option \<Rightarrow>
     nat \<Rightarrow> operation \<Rightarrow> file_entry option \<Rightarrow> outcome proc" where
  "install_staged sha seat expected seat_expected record snapshot k op staged d =
     (case (op_result op, staged) of
        (Some result, Some s) \<Rightarrow>
          (case promote_relative_new (staged_path seat k) (op_path op) s expected d of
             (Inr published, d1, t) \<Rightarrow>
               (Inr (if sha (fe_content published) = result then None
                     else Some (TransactionError ''installed output digest differs''), record, snapshot), d1, t)
           | (Inl (SecurePathError _), d1, t) \<Rightarrow>
               let conflict = TransactionConflict ''transaction target changed while applying''
               in if op_expected op = None
                  then (case guarded (mark_check k record) snapshot
                               (write_journal seat (mark_check k record) snapshot seat_expected) (\<lambda>j.
                               yields (Some conflict, mark_check k record, Some j)) d1 of
                          (r, d2, u) \<Rightarrow> (r, d2, t @ u))
                  else (Inr (Some conflict, record, snapshot), d1, t)
           | (Inl e, d1, t) \<Rightarrow> (Inr (Some e, record, snapshot), d1, t))
      | _ \<Rightarrow> (Inr (Some (TransactionError ''transaction staged identity is missing''), record, snapshot), d, []))"

definition back_up :: "path \<Rightarrow> path \<Rightarrow> expectations \<Rightarrow> operation \<Rightarrow> file_entry option \<Rightarrow> unit proc" where
  "back_up p backup expected op preimage =
     (if op_expected op = None then yields ()
      else case preimage of
             None \<Rightarrow> raises (TransactionError ''transaction preimage identity is missing'')
           | Some f \<Rightarrow>
               andthen (secure_as (TransactionConflict ''transaction target changed while applying'')
                          (promote_relative_new p backup f expected)) (\<lambda>_. yields ()))"

definition apply_operation ::
    "(content \<Rightarrow> string) \<Rightarrow> path \<Rightarrow> expectations \<Rightarrow> expectations \<Rightarrow> journal \<Rightarrow> file_entry option \<Rightarrow>
     nat \<times> operation \<times> file_entry option \<times> file_entry option \<Rightarrow> outcome proc" where
  "apply_operation sha seat project seat_expected record snapshot step =
     (case step of (k, op, preimage, staged) \<Rightarrow>
       if op_kind op = Op_Check then yields (None, record, snapshot)
       else let p = op_path op; backup = backup_path seat k;
                expected = merged (expectations_for project [p, backup]) seat_expected
       in guarded record snapshot (andthen (safe_target p) (\<lambda>_. back_up p backup expected op preimage)) (\<lambda>_.
          if op_data op \<noteq> None
          then install_staged sha seat expected seat_expected record snapshot k op staged
          else if op_expected op = None
          then guarded record snapshot
                 (andthen (secure_as (TransactionError ''transaction target is not a regular file'')
                     (optional_snapshot p (expectations_for project [p]))) (\<lambda>found.
                   demand (found = None) (TransactionConflict ''transaction target appeared while applying'')))
                 (\<lambda>_. yields (None, record, snapshot))
          else yields (None, record, snapshot)))"

primrec apply_operations ::
    "(content \<Rightarrow> string) \<Rightarrow> path \<Rightarrow> expectations \<Rightarrow> expectations \<Rightarrow> journal \<Rightarrow> file_entry option \<Rightarrow>
     (nat \<times> operation \<times> file_entry option \<times> file_entry option) list \<Rightarrow> outcome proc" where
  "apply_operations sha seat project seat_expected record snapshot [] = yields (None, record, snapshot)"
| "apply_operations sha seat project seat_expected record snapshot (step # steps) =
     andthen (apply_operation sha seat project seat_expected record snapshot step) (\<lambda>(err, r, j).
       case err of
         None \<Rightarrow> apply_operations sha seat project seat_expected r j steps
       | Some e \<Rightarrow> yields (Some e, r, j))"

definition set_staged :: "(content \<Rightarrow> string) \<Rightarrow> file_entry option list \<Rightarrow> journal \<Rightarrow> journal" where
  "set_staged sha staged record =
     record\<lparr>jr_operations := map2 (\<lambda>e f. case f of None \<Rightarrow> e
       | Some s \<Rightarrow> e\<lparr>je_staged := Some (publication_record sha s)\<rparr>) (jr_operations record) staged\<rparr>"

definition set_preimages :: "(content \<Rightarrow> string) \<Rightarrow> file_entry option list \<Rightarrow> journal \<Rightarrow> journal" where
  "set_preimages sha preimages record =
     record\<lparr>jr_operations := map2 (\<lambda>e f. case f of None \<Rightarrow> e
       | Some s \<Rightarrow> e\<lparr>je_preimage := Some (publication_record sha s)\<rparr>) (jr_operations record) preimages\<rparr>"

definition set_directories :: "operation list \<Rightarrow> expectations \<Rightarrow> journal \<Rightarrow> journal" where
  "set_directories ops project record =
     record\<lparr>jr_directories := map (\<lambda>p. (p, map_of project p)) (journal_paths ops)\<rparr>"

definition publish_backup_marker :: "path \<Rightarrow> expectations \<Rightarrow> operation list \<Rightarrow> unit proc" where
  "publish_backup_marker seat seat_expected ops =
     (if list_ex (\<lambda>op. op_kind op \<noteq> Op_Check \<and> op_expected op \<noteq> None) ops
      then andthen (atomic_publish_new_from_stream (seat @ [Name ''backups'', Name ''.ready'']) (Data []) seat_expected)
             (\<lambda>_. yields ())
      else yields ())"

text \<open>From the applying journal to the committed one.\<close>

definition apply_and_seal ::
    "(content \<Rightarrow> string) \<Rightarrow> path \<Rightarrow> expectations \<Rightarrow> expectations \<Rightarrow> operation list \<Rightarrow>
     file_entry option list \<Rightarrow> file_entry option list \<Rightarrow> journal \<Rightarrow> file_entry option \<Rightarrow> outcome proc" where
  "apply_and_seal sha seat project seat_expected ops preimages staged record snapshot =
     andthen (apply_operations sha seat project seat_expected record snapshot
                (zip [0..<length ops] (zip ops (zip preimages staged)))) (\<lambda>(err, r, j).
     case err of
       Some e \<Rightarrow> yields (Some e, r, j)
     | None \<Rightarrow>
         guarded r j (verify_postimages sha ops project) (\<lambda>_.
         guarded (r\<lparr>jr_state := Committed\<rparr>) j
           (write_journal seat (r\<lparr>jr_state := Committed\<rparr>) j seat_expected) (\<lambda>sealed.
         yields (None, r\<lparr>jr_state := Committed\<rparr>, Some sealed))))"

text \<open>The two journal writes before anything is applied.\<close>

definition journal_and_apply ::
    "(content \<Rightarrow> string) \<Rightarrow> path \<Rightarrow> expectations \<Rightarrow> expectations \<Rightarrow> operation list \<Rightarrow>
     file_entry option list \<Rightarrow> file_entry option list \<Rightarrow> journal \<Rightarrow> file_entry \<Rightarrow> outcome proc" where
  "journal_and_apply sha seat project seat_expected ops preimages staged record snapshot =
     guarded record (Some snapshot) (write_journal seat record (Some snapshot) seat_expected) (\<lambda>captured.
     let r = record\<lparr>jr_state := Applying\<rparr>
     in guarded r (Some captured) (write_journal seat r (Some captured) seat_expected) (\<lambda>j.
        apply_and_seal sha seat project seat_expected ops preimages staged r (Some j)))"

definition capture_and_apply ::
    "(content \<Rightarrow> string) \<Rightarrow> path \<Rightarrow> expectations \<Rightarrow> operation list \<Rightarrow> file_entry option list \<Rightarrow> journal \<Rightarrow>
     file_entry \<Rightarrow> outcome proc" where
  "capture_and_apply sha seat seat_expected ops staged record snapshot =
     guarded record (Some snapshot) (capture_existing_directories ops) (\<lambda>project.
     let r = set_directories ops project record
     in guarded r (Some snapshot) (capture_preimages sha ops project) (\<lambda>preimages.
        journal_and_apply sha seat project seat_expected ops preimages staged (set_preimages sha preimages r) snapshot))"

definition commit_body ::
    "(content \<Rightarrow> string) \<Rightarrow> path \<Rightarrow> expectations \<Rightarrow> operation list \<Rightarrow> name \<Rightarrow> outcome proc" where
  "commit_body sha seat seat_expected ops transaction_id =
     (let r0 = journal_record ops transaction_id (last seat) Prepared
      in guarded r0 None (write_journal seat r0 None seat_expected) (\<lambda>j0.
         guarded r0 (Some j0) (collect (stage_operation seat seat_expected) (enumerate 0 ops)) (\<lambda>staged.
         guarded r0 (Some j0) (publish_backup_marker seat seat_expected ops) (\<lambda>_.
         let r1 = set_staged sha staged r0
         in guarded r1 (Some j0) (write_journal seat r1 (Some j0) seat_expected) (\<lambda>j1.
            capture_and_apply sha seat seat_expected ops staged r1 j1)))))"

record transaction_result =
  tr_id :: name
  tr_changed_paths :: "path list"
  tr_cleanup_warning :: bool

text \<open>The commit of a transaction with operations; the lock is held from here to the end.\<close>

definition commit_locked ::
    "(content \<Rightarrow> string) \<Rightarrow> nat \<Rightarrow> operation list \<Rightarrow> name \<Rightarrow> transaction_result proc" where
  "commit_locked sha state_root_identity ops transaction_id =
     andthen (recover_locked sha state_root_identity) (\<lambda>_.
     if list_all (\<lambda>op. op_kind op = Op_Check) ops
     then andthen (capture_existing_directories ops) (\<lambda>project.
          andthen (capture_preimages sha ops project) (\<lambda>_.
          yields \<lparr>tr_id = transaction_id, tr_changed_paths = [], tr_cleanup_warning = False\<rparr>))
     else let seat = state_root @ [transaction_id]
     in andthen (create_directory_in_exact_parent seat state_root_identity) (\<lambda>identity.
        andthen (commit_body sha seat (seat_expectations seat identity state_root_identity) ops transaction_id)
          (\<lambda>(err, record, snapshot).
        case err of
          Some e \<Rightarrow>
            andthen (on_error
              (andthen (rollback_record sha seat identity state_root_identity record) (\<lambda>_.
                 remove_transaction_directory seat identity state_root_identity snapshot))
              (\<lambda>_. raises e)) (\<lambda>_. raises e)
        | None \<Rightarrow>
            andthen (on_error
              (andthen (remove_transaction_directory seat identity state_root_identity snapshot) (\<lambda>_. yields False))
              (\<lambda>_. yields True)) (\<lambda>warning.
            yields \<lparr>tr_id = transaction_id,
                    tr_changed_paths = map op_path (filter (\<lambda>op. op_kind op \<noteq> Op_Check) ops),
                    tr_cleanup_warning = warning\<rparr>))))"

definition commit ::
    "(content \<Rightarrow> string) \<Rightarrow> cas_transaction \<Rightarrow> transaction_result proc" where
  "commit sha tx =
     andthen (demand (\<not> (ct_committed tx \<or> ct_closed tx)) (TransactionError ''transaction is already closed'')) (\<lambda>_.
     if ct_operations tx = []
     then yields \<lparr>tr_id = ct_id tx, tr_changed_paths = [], tr_cleanup_warning = False\<rparr>
     else andthen prepare_state_root (\<lambda>identity. commit_locked sha identity (ct_operations tx) (ct_id tx)))"

end
