(* ===== verification/Transaction_Logic.thy ===== *)
theory Transaction_Logic
  imports Transactions
begin

text \<open>
  A crash logic for procedures and the invariants of a disk.  \<open>stays I p d Q\<close> says that every
  disk a crash of \<open>p\<close> may leave satisfies \<open>I\<close> and that the result and the final disk satisfy
  \<open>Q\<close>; its equations turn a procedure into verification conditions.
\<close>

section \<open>The crash logic\<close>

definition stays :: "(disk \<Rightarrow> bool) \<Rightarrow> 'a proc \<Rightarrow> disk \<Rightarrow> (tx_error + 'a \<Rightarrow> disk \<Rightarrow> bool) \<Rightarrow> bool" where
  "stays I p d Q = (case p d of (r, d', t) \<Rightarrow> (\<forall>c \<in> set t. I c) \<and> Q r d')"

definition advance :: "(disk \<Rightarrow> disk) \<Rightarrow> disk \<Rightarrow> disk" where
  "advance f d = (f d)\<lparr>dk_clock := Suc (dk_clock d)\<rparr>"

named_theorems stays_simps \<open>verification conditions of the procedure combinators\<close>

lemma stays_yields [stays_simps]: "stays I (yields x) d Q = Q (Inr x) d"
  by (simp add: stays_def yields_def)

lemma stays_raises [stays_simps]: "stays I (raises e) d Q = Q (Inl e) d"
  by (simp add: stays_def raises_def)

lemma stays_look [stays_simps]: "stays I (look f) d Q = Q (Inr (f d)) d"
  by (simp add: stays_def look_def)

lemma stays_demand [stays_simps]: "stays I (demand c e) d Q = (if c then Q (Inr ()) d else Q (Inl e) d)"
  by (simp add: demand_def stays_simps)

lemma stays_mutate [stays_simps]:
  "stays I (mutate f) d Q = (I (advance f d) \<and> Q (Inr ()) (advance f d))"
  by (simp add: stays_def mutate_def advance_def Let_def)

lemma stays_andthen [stays_simps]:
  "stays I (andthen p f) d Q =
     stays I p d (\<lambda>r d'. case r of Inl e \<Rightarrow> Q (Inl e) d' | Inr x \<Rightarrow> stays I (f x) d' Q)"
  by (auto simp: stays_def andthen_def split: prod.splits sum.splits)

lemma stays_on_error [stays_simps]:
  "stays I (on_error p h) d Q =
     stays I p d (\<lambda>r d'. case r of Inr x \<Rightarrow> Q (Inr x) d' | Inl e \<Rightarrow> stays I (h e) d' Q)"
  by (auto simp: stays_def on_error_def split: prod.splits sum.splits)

lemma stays_guarded [stays_simps]:
  "stays I (guarded record snapshot p f) d Q =
     stays I p d (\<lambda>r d'. case r of Inl e \<Rightarrow> Q (Inr (Some e, record, snapshot)) d' | Inr x \<Rightarrow> stays I (f x) d' Q)"
  by (auto simp: stays_def guarded_def split: prod.splits sum.splits)

lemma stays_secure_as [stays_simps]:
  "stays I (secure_as e p) d Q =
     stays I p d (\<lambda>r d'. case r of Inr x \<Rightarrow> Q (Inr x) d'
       | Inl e' \<Rightarrow> Q (Inl (case e' of SecurePathError _ \<Rightarrow> e | _ \<Rightarrow> e')) d')"
  by (auto simp: stays_def secure_as_def on_error_def raises_def split: prod.splits sum.splits)

lemma stays_mono:
  assumes "stays I p d Q" "\<And>c. I c \<Longrightarrow> J c" "\<And>r d'. Q r d' \<Longrightarrow> R r d'"
  shows "stays J p d R"
  using assms by (auto simp: stays_def split: prod.splits)

lemma stays_trace: "stays I p d Q \<Longrightarrow> c \<in> set (snd (snd (p d))) \<Longrightarrow> I c"
  by (auto simp: stays_def split: prod.splits)

lemma stays_result: "stays I p d Q \<Longrightarrow> Q (fst (p d)) (fst (snd (p d)))"
  by (auto simp: stays_def split: prod.splits)

text \<open>A loop whose body keeps an invariant and does not raise.\<close>

lemma stays_each:
  assumes "K [] xs d" and step: "\<And>done x rest d. xs = done @ x # rest \<Longrightarrow> K done (x # rest) d \<Longrightarrow>
      stays I (f x) d (\<lambda>r d'. r = Inr () \<and> K (done @ [x]) rest d')"
  shows "stays I (each f xs) d (\<lambda>r d'. r = Inr () \<and> K xs [] d')"
proof -
  have "stays I (each f rest) d (\<lambda>r d'. r = Inr () \<and> K xs [] d')" if "xs = done @ rest" "K done rest d" for "done" rest d
    using that
  proof (induction rest arbitrary: "done" d)
    case Nil
    then show ?case by (simp add: stays_simps)
  next
    case (Cons x rest)
    have "stays I (f x) d (\<lambda>r d'. r = Inr () \<and> K (done @ [x]) rest d')"
      by (rule step [OF Cons.prems])
    then show ?case
      unfolding each.simps stays_andthen
      by (rule stays_mono) (use Cons.IH [of "done @ [x]"] Cons.prems in auto)
  qed
  from this [of "[]" xs d] assms(1) show ?thesis by simp
qed

section \<open>Healthy disks\<close>

text \<open>A name made from a UUID is older than the clock.\<close>

primrec older :: "nat \<Rightarrow> name \<Rightarrow> bool" where
  "older n (Name s) = True"
| "older n (Index k) = True"
| "older n (Uuid k) = (k < n)"
| "older n (Temporary x k) = (k < n)"
| "older n (Guard x k) = (k < n)"
| "older n (Final x k) = (k < n)"

lemma older_mono: "older n x \<Longrightarrow> n \<le> m \<Longrightarrow> older m x"
  by (cases x) auto

lemma older_list_mono: "list_all (older n) p \<Longrightarrow> n \<le> m \<Longrightarrow> list_all (older m) p"
  by (auto simp: list_all_iff intro: older_mono)

text \<open>A directory of the state root is a seat, and a journal is no directory.\<close>

definition seat_dir :: "path \<Rightarrow> bool" where
  "seat_dir p =
     ((\<forall>x. p = state_root @ [x] \<longrightarrow> (\<exists>k. x = Uuid k)) \<and> (\<forall>x. p \<noteq> journal_path (state_root @ [x])))"

definition healthy :: "disk \<Rightarrow> bool" where
  "healthy d =
     (dir_at d [] \<noteq> None \<and> dk_files d [] = None \<and> dk_files d state_root = None
      \<and> distinct (map fst (dk_dirs d))
      \<and> (\<forall>p. p \<noteq> [] \<longrightarrow> exists_at d p \<longrightarrow> dir_at d (butlast p) \<noteq> None)
      \<and> (\<forall>p. dk_files d p = None \<or> dir_at d p = None)
      \<and> (\<forall>p. exists_at d p \<longrightarrow> list_all (older (dk_clock d)) p)
      \<and> (\<forall>p. dir_at d p \<noteq> None \<longrightarrow> seat_dir p))"

lemma healthyD:
  assumes "healthy d"
  shows healthy_root: "dir_at d [] \<noteq> None"
    and healthy_root_file: "dk_files d [] = None" "dk_files d state_root = None"
    and healthy_distinct: "distinct (map fst (dk_dirs d))"
    and healthy_parent: "p \<noteq> [] \<Longrightarrow> exists_at d p \<Longrightarrow> dir_at d (butlast p) \<noteq> None"
    and healthy_exclusive: "dk_files d p = None \<or> dir_at d p = None"
    and healthy_older: "exists_at d p \<Longrightarrow> list_all (older (dk_clock d)) p"
    and healthy_seat_dir: "dir_at d p \<noteq> None \<Longrightarrow> seat_dir p"
  using assms unfolding healthy_def by metis+

lemma healthy_seat: "healthy d \<Longrightarrow> dir_at d (state_root @ [x]) \<noteq> None \<Longrightarrow> \<exists>k. x = Uuid k"
  using healthy_seat_dir [of d "state_root @ [x]"] by (auto simp: seat_dir_def)

lemma healthy_journal_file: "healthy d \<Longrightarrow> dir_at d (journal_path (state_root @ [x])) = None"
  using healthy_seat_dir [of d "journal_path (state_root @ [x])"]
  by (cases "dir_at d (journal_path (state_root @ [x]))") (auto simp: seat_dir_def)

lemma healthyI:
  assumes "dir_at d [] \<noteq> None" "dk_files d [] = None" "dk_files d state_root = None"
    "distinct (map fst (dk_dirs d))"
    "\<And>p. p \<noteq> [] \<Longrightarrow> exists_at d p \<Longrightarrow> dir_at d (butlast p) \<noteq> None"
    "\<And>p. dk_files d p = None \<or> dir_at d p = None"
    "\<And>p. exists_at d p \<Longrightarrow> list_all (older (dk_clock d)) p"
    "\<And>p. dir_at d p \<noteq> None \<Longrightarrow> seat_dir p"
  shows "healthy d"
  unfolding healthy_def using assms by metis

lemma dir_at_advance [simp]: "dir_at (advance f d) p = dir_at (f d) p"
  by (simp add: advance_def dir_at_def)

lemma files_advance [simp]: "dk_files (advance f d) = dk_files (f d)"
  by (simp add: advance_def)

lemma clock_advance [simp]: "dk_clock (advance f d) = Suc (dk_clock d)"
  by (simp add: advance_def)

lemma exists_advance [simp]: "exists_at (advance f d) p = exists_at (f d) p"
  by (simp add: exists_at_def)

lemma dirs_advance [simp]: "dk_dirs (advance f d) = dk_dirs (f d)"
  by (simp add: advance_def)

lemma files_mkdir [simp]: "dk_files (mkdir p d) = dk_files d"
  by (simp add: mkdir_def)

lemma dir_at_mkdir: "dir_at d p = None \<Longrightarrow> dir_at (mkdir p d) = (dir_at d)(p \<mapsto> dk_clock d)"
  by (rule ext) (auto simp: dir_at_def mkdir_def map_add_def split: option.splits)

lemma dir_at_files_only [simp]:
  "dir_at (new_file p c m d) q = dir_at d q" "dir_at (rename_file p p' d) q = dir_at d q"
  "dir_at (unlink p d) q = dir_at d q"
  by (simp_all add: dir_at_def new_file_def rename_file_def unlink_def split: option.splits)

lemma dirs_files_only [simp]:
  "dk_dirs (new_file p c m d) = dk_dirs d" "dk_dirs (rename_file p p' d) = dk_dirs d"
  "dk_dirs (unlink p d) = dk_dirs d"
  by (simp_all add: new_file_def rename_file_def unlink_def split: option.splits)

lemma files_new_file: "dk_files (new_file p c m d) = (dk_files d)(p \<mapsto>
    \<lparr>fe_content = c, fe_inode = dk_clock d, fe_mtime = dk_clock d, fe_mode = m, fe_ctime = dk_clock d\<rparr>)"
  by (simp add: new_file_def)

lemma files_rename_file: "dk_files d p = Some f \<Longrightarrow>
    dk_files (rename_file p q d) = (dk_files d)(p := None, q \<mapsto> f\<lparr>fe_ctime := dk_clock d\<rparr>)"
  by (simp add: rename_file_def)

lemma files_unlink: "dk_files (unlink p d) = (dk_files d)(p := None)"
  by (simp add: unlink_def)

text \<open>Where a new entry may appear.\<close>

definition placeable :: "disk \<Rightarrow> path \<Rightarrow> bool" where
  "placeable d p =
     (p \<noteq> [] \<and> p \<noteq> state_root \<and> dir_at d (butlast p) \<noteq> None \<and> \<not> exists_at d p
      \<and> list_all (older (Suc (dk_clock d))) p)"

lemma healthy_older_Suc: "healthy d \<Longrightarrow> exists_at d p \<Longrightarrow> list_all (older (Suc (dk_clock d))) p"
  using healthy_older [of d p] older_list_mono [of "dk_clock d" p "Suc (dk_clock d)"] by simp

lemma healthy_mkdir:
  assumes h: "healthy d" and q: "q \<noteq> []" "\<not> exists_at d q" "dir_at d (butlast q) \<noteq> None"
    "list_all (older (Suc (dk_clock d))) q" and s: "seat_dir q"
  shows "healthy (advance (mkdir q) d)"
proof -
  have n: "dir_at d q = None" "dk_files d q = None" using q(2) by (simp_all add: exists_at_def)
  have dirs: "map fst (dk_dirs (mkdir q d)) = map fst (dk_dirs d) @ [q]" by (simp add: mkdir_def)
  have fresh: "q \<notin> fst ` set (dk_dirs d)" using n(1) by (simp add: dir_at_def map_of_eq_None_iff)
  have ex: "exists_at (mkdir q d) p \<longleftrightarrow> p = q \<or> exists_at d p" for p
    using n by (auto simp: exists_at_def dir_at_mkdir)
  have up: "dir_at d p \<noteq> None \<Longrightarrow> dir_at (mkdir q d) p \<noteq> None" for p
    using n by (auto simp: dir_at_mkdir)
  show ?thesis
  proof (rule healthyI)
    show "distinct (map fst (dk_dirs (advance (mkdir q) d)))"
      using healthy_distinct [OF h] fresh by (simp add: dirs)
    show "dir_at (advance (mkdir q) d) (butlast p) \<noteq> None" if "p \<noteq> []" "exists_at (advance (mkdir q) d) p" for p
      using that ex up q(3) healthy_parent [OF h] by (cases "p = q") auto
    show "dk_files (advance (mkdir q) d) p = None \<or> dir_at (advance (mkdir q) d) p = None" for p
      using healthy_exclusive [OF h, of p] n by (cases "p = q") (auto simp: dir_at_mkdir)
    show "list_all (older (dk_clock (advance (mkdir q) d))) p" if "exists_at (advance (mkdir q) d) p" for p
      using that ex q(4) healthy_older_Suc [OF h] by (cases "p = q") auto
    show "seat_dir p" if "dir_at (advance (mkdir q) d) p \<noteq> None" for p
      using that healthy_seat_dir [OF h, of p] s n by (cases "q = p") (auto simp: dir_at_mkdir)
  qed (use healthy_root [OF h] healthy_root_file [OF h] up in auto)
qed

lemma healthy_files:
  assumes h: "healthy d" and dirs: "dk_dirs e = dk_dirs d" and clock: "dk_clock e = Suc (dk_clock d)"
    and new: "\<And>q. dk_files e q \<noteq> None \<Longrightarrow> dk_files d q \<noteq> None \<or> placeable d q"
  shows "healthy e"
proof -
  have dir: "dir_at e q = dir_at d q" for q using dirs by (simp add: dir_at_def)
  have ex: "exists_at d q \<or> placeable d q" if "exists_at e q" for q
    using new [of q] dir that by (auto simp: exists_at_def)
  show ?thesis
  proof (rule healthyI)
    show "dir_at e (butlast p) \<noteq> None" if "p \<noteq> []" "exists_at e p" for p
      using ex [OF that(2)] healthy_parent [OF h that(1)] dir by (auto simp: placeable_def)
    show "dk_files e p = None \<or> dir_at e p = None" for p
      using new [of p] healthy_exclusive [OF h, of p] dir
      by (cases "dk_files e p") (auto simp: placeable_def exists_at_def)
    show "list_all (older (dk_clock e)) p" if "exists_at e p" for p
      using ex [OF that] healthy_older_Suc [OF h] clock by (auto simp: placeable_def)
    show "dk_files e [] = None"
      using new [of "[]"] healthy_root_file [OF h] by (cases "dk_files e []") (auto simp: placeable_def)
    show "dk_files e state_root = None"
      using new [of state_root] healthy_root_file [OF h] by (cases "dk_files e state_root") (auto simp: placeable_def)
    show "seat_dir p" if "dir_at e p \<noteq> None" for p
      using that healthy_seat_dir [OF h] dir by simp
  qed (use healthy_root [OF h] healthy_distinct [OF h] dir dirs in auto)
qed

lemma healthy_new_file: "healthy d \<Longrightarrow> placeable d p \<Longrightarrow> healthy (advance (new_file p c m) d)"
  by (rule healthy_files) (auto simp: files_new_file split: if_splits)

lemma healthy_rename_file:
  "healthy d \<Longrightarrow> placeable d q \<Longrightarrow> healthy (advance (rename_file p q) d)"
  by (rule healthy_files) (auto simp: rename_file_def split: option.splits if_splits)

lemma healthy_unlink: "healthy d \<Longrightarrow> healthy (advance (unlink p) d)"
  by (rule healthy_files) (auto simp: files_unlink split: if_splits)

section \<open>Moving and removing a seat\<close>

lemma is_below_iff: "is_below root p \<longleftrightarrow> (\<exists>r. p = root @ r)"
  unfolding is_below_def by (metis append_eq_conv_conj append_take_drop_id)

lemma is_below_append [simp]: "is_below root (root @ r)"
  by (auto simp: is_below_iff)

lemma not_below_butlast: "\<not> is_below root p \<Longrightarrow> \<not> is_below root (butlast p)"
  unfolding is_below_iff by (metis append_assoc append_butlast_last_id butlast.simps(1))

definition apart :: "path \<Rightarrow> path \<Rightarrow> bool" where
  "apart s q = (length s = length q \<and> s \<noteq> q \<and> s \<noteq> [])"

lemma apart_below: "apart s q \<Longrightarrow> is_below s p \<Longrightarrow> \<not> is_below q p"
  by (auto simp: apart_def is_below_def)

lemma map_of_moved:
  assumes a: "apart s q" and "\<forall>x \<in> fst ` set xs. \<not> is_below q x"
  shows "map_of (map (\<lambda>(p, i). (if is_below s p then q @ drop (length s) p else p, i)) xs) p =
    (if is_below q p then map_of xs (s @ drop (length q) p) else if is_below s p then None else map_of xs p)"
  using assms(2)
proof (induction xs)
  case (Cons xi xs)
  obtain x i where xi: "xi = (x, i)" by fastforce
  have ih: "map_of (map (\<lambda>(p, i). (if is_below s p then q @ drop (length s) p else p, i)) xs) p =
      (if is_below q p then map_of xs (s @ drop (length q) p) else if is_below s p then None else map_of xs p)"
    using Cons by simp
  show ?case
  proof (cases "is_below s x")
    case True
    then obtain r where x: "x = s @ r" by (auto simp: is_below_iff)
    have "p = q @ r \<longleftrightarrow> is_below q p \<and> s @ drop (length q) p = x" by (auto simp: x is_below_iff)
    then show ?thesis using ih True by (auto simp: xi x)
  next
    case False
    then have "s @ drop (length q) p \<noteq> x" by auto
    then show ?thesis using ih False Cons.prems by (auto simp: xi)
  qed
qed simp

lemma dir_at_rename_tree:
  assumes a: "apart s q" and free: "\<And>p. is_below q p \<Longrightarrow> dir_at d p = None"
  shows "dir_at (rename_tree s q d) p =
    (if is_below q p then dir_at d (s @ drop (length q) p) else if is_below s p then None else dir_at d p)"
proof -
  have "\<forall>x \<in> fst ` set (dk_dirs d). \<not> is_below q x"
    using free by (force simp: dir_at_def map_of_eq_None_iff)
  from map_of_moved [OF a this] show ?thesis by (simp add: dir_at_def rename_tree_def)
qed

lemma dir_at_remove_tree: "dir_at (remove_tree q d) p = (if is_below q p then None else dir_at d p)"
proof -
  have "map_of (filter (\<lambda>(p, i). \<not> is_below q p) xs) p = (if is_below q p then None else map_of xs p)" for xs :: "(path \<times> nat) list"
    by (induction xs) auto
  then show ?thesis by (simp add: dir_at_def remove_tree_def)
qed

lemma files_rename_tree: "dk_files (rename_tree s q d) p =
    (if is_below q p then dk_files d (s @ drop (length q) p) else if is_below s p then None else dk_files d p)"
  by (simp add: rename_tree_def)

lemma files_remove_tree: "dk_files (remove_tree q d) p = (if is_below q p then None else dk_files d p)"
  by (simp add: remove_tree_def)

lemma exists_rename_tree:
  assumes a: "apart s q" and free: "\<And>p. is_below q p \<Longrightarrow> dir_at d p = None"
  shows "exists_at (rename_tree s q d) p =
    (if is_below q p then exists_at d (s @ drop (length q) p) else \<not> is_below s p \<and> exists_at d p)"
  using dir_at_rename_tree [OF assms] by (simp add: exists_at_def files_rename_tree)

lemma exists_remove_tree: "exists_at (remove_tree q d) p = (\<not> is_below q p \<and> exists_at d p)"
  using dir_at_remove_tree by (simp add: exists_at_def files_remove_tree)

lemma distinct_moved:
  assumes a: "apart s q" and "distinct (map fst xs)" "\<forall>x \<in> fst ` set xs. \<not> is_below q x"
  shows "distinct (map fst (map (\<lambda>(p, i). (if is_below s p then q @ drop (length s) p else p, i)) xs))"
proof -
  let ?key = "\<lambda>p. if is_below s p then q @ drop (length s) p else p"
  have "inj_on ?key (fst ` set xs)"
  proof (rule inj_onI)
    fix x y assume m: "x \<in> fst ` set xs" "y \<in> fst ` set xs" and e: "?key x = ?key y"
    have nb: "\<not> is_below q x" "\<not> is_below q y" using m assms(3) by auto
    show "x = y"
      using e nb by (auto simp: is_below_iff split: if_splits)
  qed
  moreover have "map fst (map (\<lambda>(p, i). (?key p, i)) xs) = map ?key (map fst xs)" by auto
  ultimately show ?thesis using assms(2) by (simp only: distinct_map set_map)
qed

lemma fresh_seat_free:
  assumes "healthy d" "is_below (state_root @ [Uuid (dk_clock d)]) p"
  shows "\<not> exists_at d p"
  using assms healthy_older [of d p] by (auto simp: is_below_iff)

lemma healthy_rename_seat:
  assumes h: "healthy d" and s: "s = state_root @ [n]" "dir_at d s \<noteq> None"
    and q: "q = state_root @ [Uuid (dk_clock d)]"
  shows "healthy (advance (rename_tree s q) d)"
proof -
  have "exists_at d s" using s by (simp add: exists_at_def)
  then have "n \<noteq> Uuid (dk_clock d)" using healthy_older [OF h] s by fastforce
  then have a: "apart s q" by (simp add: apart_def s q state_root_def)
  have free: "is_below q p \<Longrightarrow> dir_at d p = None" "is_below q p \<Longrightarrow> \<not> exists_at d p" for p
    using fresh_seat_free [OF h, of p] by (auto simp: q exists_at_def)
  note dir = dir_at_rename_tree [OF a free(1)] and ex = exists_rename_tree [OF a free(1)]
  have root: "\<not> is_below q []" "\<not> is_below s []" "\<not> is_below q state_root" "\<not> is_below s state_root"
    by (auto simp: is_below_iff s q)
  have state: "dir_at d state_root \<noteq> None" using healthy_parent [OF h, of s] \<open>exists_at d s\<close> by (simp add: s)
  have sq: "length s = length q" using a by (simp add: apart_def)
  show ?thesis
  proof (rule healthyI)
    show "distinct (map fst (dk_dirs (advance (rename_tree s q) d)))"
      using distinct_moved [OF a healthy_distinct [OF h]] free(1)
      by (force simp: rename_tree_def dir_at_def map_of_eq_None_iff)
    show "dir_at (advance (rename_tree s q) d) (butlast p) \<noteq> None"
      if p: "p \<noteq> []" "exists_at (advance (rename_tree s q) d) p" for p
    proof (cases "is_below q p")
      case True
      then obtain r where r: "p = q @ r" by (auto simp: is_below_iff)
      have "exists_at d (s @ r)" using p True by (simp add: ex r)
      then have "r \<noteq> [] \<Longrightarrow> dir_at d (s @ butlast r) \<noteq> None"
        using healthy_parent [OF h, of "s @ r"] by (simp add: butlast_append)
      moreover have "butlast p = (if r = [] then state_root else q @ butlast r)"
        by (simp add: r q butlast_append)
      ultimately show ?thesis
        using state root sq by (simp add: dir)
    next
      case False
      then have "\<not> is_below s p" "exists_at d p" using p by (simp_all add: ex)
      then show ?thesis
        using healthy_parent [OF h p(1)] False not_below_butlast by (simp add: dir)
    qed
    show "dk_files (advance (rename_tree s q) d) p = None \<or> dir_at (advance (rename_tree s q) d) p = None" for p
      using healthy_exclusive [OF h] by (simp add: dir files_rename_tree)
    show "list_all (older (dk_clock (advance (rename_tree s q) d))) p"
      if "exists_at (advance (rename_tree s q) d) p" for p
    proof (cases "is_below q p")
      case True
      then obtain r where r: "p = q @ r" by (auto simp: is_below_iff)
      then have "list_all (older (Suc (dk_clock d))) (s @ r)"
        using that healthy_older_Suc [OF h, of "s @ r"] by (simp add: ex)
      then show ?thesis by (simp add: r q state_root_def)
    next
      case False
      then show ?thesis using that healthy_older_Suc [OF h, of p] by (simp add: ex)
    qed
    show "seat_dir p" if "dir_at (advance (rename_tree s q) d) p \<noteq> None" for p
    proof (cases "is_below q p")
      case True
      then obtain r where r: "p = q @ r" by (auto simp: is_below_iff)
      then have "seat_dir (s @ r)"
        using that healthy_seat_dir [OF h, of "s @ r"] by (simp add: dir)
      then show ?thesis by (auto simp: r q s seat_dir_def journal_path_def)
    next
      case False
      then show ?thesis using that healthy_seat_dir [OF h, of p] by (simp add: dir split: if_splits)
    qed
  qed (use healthy_root [OF h] healthy_root_file [OF h] root in \<open>auto simp: dir files_rename_tree\<close>)
qed

text \<open>Cutting off a part of the tree that holds neither the root nor the state root.\<close>

lemma map_of_filter_key:
  "map_of (filter (\<lambda>(p, i). \<not> P p) xs) p = (if P p then None else map_of xs p)"
  by (induction xs) auto

lemma healthy_pruned:
  assumes h: "healthy d" and files: "dk_files e = (\<lambda>p. if P p then None else dk_files d p)"
    and dirs: "dk_dirs e = filter (\<lambda>(p, i). \<not> P p) (dk_dirs d)" and clock: "dk_clock d \<le> dk_clock e"
    and root: "\<not> P []" and up: "\<And>p. \<not> P p \<Longrightarrow> \<not> P (butlast p)"
  shows "healthy e"
proof -
  have dir: "dir_at e p = (if P p then None else dir_at d p)" for p
    using dirs by (simp add: dir_at_def map_of_filter_key)
  have ex: "exists_at e p = (\<not> P p \<and> exists_at d p)" for p
    by (simp add: exists_at_def dir files)
  show ?thesis
  proof (rule healthyI)
    show "distinct (map fst (dk_dirs e))"
      using healthy_distinct [OF h] by (simp add: dirs distinct_map inj_on_def)
    show "dir_at e (butlast p) \<noteq> None" if "p \<noteq> []" "exists_at e p" for p
      using that healthy_parent [OF h, of p] up by (simp add: ex dir)
    show "list_all (older (dk_clock e)) p" if "exists_at e p" for p
      using that older_list_mono [OF _ clock] healthy_older [OF h, of p] by (simp add: ex)
    show "seat_dir p" if "dir_at e p \<noteq> None" for p
      using that healthy_seat_dir [OF h, of p] by (simp add: dir split: if_splits)
    show "dk_files e p = None \<or> dir_at e p = None" for p
      using healthy_exclusive [OF h, of p] by (auto simp: dir files)
  qed (use healthy_root [OF h] healthy_root_file [OF h] root in \<open>auto simp: dir files\<close>)
qed

lemma healthy_remove_seat:
  assumes h: "healthy d" and q: "q = state_root @ [n]"
    and e: "dk_files e = dk_files (remove_tree q d)" "dk_dirs e = dk_dirs (remove_tree q d)" "dk_clock d \<le> dk_clock e"
  shows "healthy e"
proof (rule healthy_pruned [OF h, where P = "is_below q"])
  show "\<not> is_below q []" by (auto simp: is_below_iff q)
  show "\<not> is_below q p \<Longrightarrow> \<not> is_below q (butlast p)" for p by (rule not_below_butlast)
qed (use e in \<open>simp_all add: remove_tree_def\<close>)

lemma dir_at_empty_tree: "dir_at (empty_tree q d) p = (if is_below q p \<and> p \<noteq> q then None else dir_at d p)"
  using map_of_filter_key [of "\<lambda>p. is_below q p \<and> p \<noteq> q" "dk_dirs d" p]
  by (simp add: dir_at_def empty_tree_def)

lemma files_empty_tree: "dk_files (empty_tree q d) p = (if is_below q p \<and> p \<noteq> q then None else dk_files d p)"
  by (simp add: empty_tree_def)

lemma healthy_empty_seat:
  assumes h: "healthy d" and q: "q = state_root @ [n]"
  shows "healthy (advance (empty_tree q) d)"
proof (rule healthy_pruned [OF h, where P = "\<lambda>p. is_below q p \<and> p \<noteq> q"])
  fix p assume p: "\<not> (is_below q p \<and> p \<noteq> q)"
  show "\<not> (is_below q (butlast p) \<and> butlast p \<noteq> q)"
  proof
    assume "is_below q (butlast p) \<and> butlast p \<noteq> q"
    moreover from this obtain r where "butlast p = q @ r" by (auto simp: is_below_iff)
    then have "length (butlast p) = length q + length r" by (simp only: length_append)
    then have "p \<noteq> q" by (auto simp: q)
    ultimately show False using p not_below_butlast [of q p] by blast
  qed
qed (auto simp: empty_tree_def is_below_iff q)

text \<open>Moving a directory to a fresh name and removing it there is removing it.\<close>

lemma remove_renamed:
  assumes a: "apart s q" and free: "\<And>p. is_below q p \<Longrightarrow> \<not> exists_at d p"
  shows "remove_tree q (rename_tree s q d) = remove_tree s d"
proof -
  have nb: "\<forall>x \<in> fst ` set (dk_dirs d). \<not> is_below q x"
  proof
    fix x assume "x \<in> fst ` set (dk_dirs d)"
    then have "exists_at d x" by (simp add: exists_at_def dir_at_def map_of_eq_None_iff)
    then show "\<not> is_below q x" using free by blast
  qed
  have "filter (\<lambda>(p, i). \<not> is_below q p)
      (map (\<lambda>(p, i). (if is_below s p then q @ drop (length s) p else p, i)) xs)
      = filter (\<lambda>(p, i). \<not> is_below s p) xs" if "\<forall>x \<in> fst ` set xs. \<not> is_below q x" for xs
    using that by (induction xs) auto
  then have "filter (\<lambda>(p, i). \<not> is_below q p)
      (map (\<lambda>(p, i). (if is_below s p then q @ drop (length s) p else p, i)) (dk_dirs d))
      = filter (\<lambda>(p, i). \<not> is_below s p) (dk_dirs d)"
    using nb by simp
  moreover have "(if is_below q p then None else dk_files (rename_tree s q d) p)
      = (if is_below s p then None else dk_files d p)" for p
    using free [of p] by (auto simp: files_rename_tree exists_at_def)
  ultimately show ?thesis
    by (simp add: remove_tree_def [of q] remove_tree_def [of s])
       (simp add: rename_tree_def)
qed

section \<open>Ancestor chains\<close>

definition holds :: "expectations \<Rightarrow> disk \<Rightarrow> bool" where
  "holds E d = (\<forall>(p, i) \<in> set E. dir_at d p = Some i)"

lemma holds_map_of: "holds E d \<Longrightarrow> map_of E p = Some i \<Longrightarrow> dir_at d p = Some i"
  by (auto simp: holds_def dest: map_of_SomeD)

definition grown :: "path \<Rightarrow> disk \<Rightarrow> disk \<Rightarrow> bool" where
  "grown p d c =
     (healthy c \<and> dk_files c = dk_files d \<and> dk_clock d \<le> dk_clock c
      \<and> (\<forall>q i. dir_at d q = Some i \<longrightarrow> dir_at c q = Some i)
      \<and> (\<forall>q. dir_at c q \<noteq> None \<longrightarrow> dir_at d q \<noteq> None \<or> q \<in> set (ancestors p)))"

lemma grown_refl: "healthy d \<Longrightarrow> grown p d d"
  by (simp add: grown_def)

lemma holds_grown: "holds E d \<Longrightarrow> grown p d c \<Longrightarrow> holds E c"
  by (auto simp: holds_def grown_def)

text \<open>A path below which directories may be made.\<close>

definition growable :: "disk \<Rightarrow> path \<Rightarrow> bool" where
  "growable d p =
     (list_all (older (dk_clock d)) p \<and> (\<forall>q \<in> set (ancestors p). seat_dir q))"

lemma ancestor_take: "q \<in> set (ancestors p) \<longleftrightarrow> (\<exists>m. 1 \<le> m \<and> m < length p \<and> q = take m p)"
  by (auto simp: ancestors_def)

lemma not_own_ancestor: "p \<notin> set (ancestors p)"
proof
  assume "p \<in> set (ancestors p)"
  then obtain m where "m < length p" "p = take m p" by (auto simp: ancestor_take)
  then have "length p = m" by (metis length_take min.absorb4)
  then show False using \<open>m < length p\<close> by simp
qed

lemma mkdir_ancestor_grown:
  assumes g: "grown p d c" and ok: "growable d p" and m: "1 \<le> m" "m < length p"
    and q: "\<not> exists_at c (take m p)" "dir_at c (take (m - 1) p) \<noteq> None"
  shows "grown p d (advance (mkdir (take m p)) c)"
proof -
  let ?q = "take m p"
  have a: "?q \<in> set (ancestors p)" using m by (auto simp: ancestor_take)
  have n: "dir_at c ?q = None" using q by (simp add: exists_at_def)
  have "list_all (older (dk_clock d)) ?q"
    using ok by (auto simp: growable_def list_all_iff dest: in_set_takeD)
  then have "list_all (older (Suc (dk_clock c))) ?q"
    using g older_list_mono [of "dk_clock d" ?q "Suc (dk_clock c)"] by (simp add: grown_def)
  moreover have "butlast ?q = take (m - 1) p" using m by (simp add: butlast_take)
  ultimately have "healthy (advance (mkdir ?q) c)"
    using g q m a ok by (intro healthy_mkdir) (auto simp: grown_def growable_def)
  then show ?thesis
    using g a n by (auto simp: grown_def dir_at_mkdir)
qed

lemma hold_component_grown:
  assumes g: "grown p d c" and ok: "growable d p" and m: "1 \<le> m" "m < length p"
    and q: "dir_at c (take (m - 1) p) \<noteq> None"
  shows "stays (grown p d) (hold_component True E (take m p)) c (\<lambda>r c'.
    grown p d c' \<and> (r = Inr () \<longrightarrow> dir_at c' (take m p) \<noteq> None)
    \<and> (holds E d \<and> dk_files d (take m p) = None \<longrightarrow> r = Inr ()))"
proof -
  have mk: "\<not> exists_at c (take m p) \<Longrightarrow> grown p d (advance (mkdir (take m p)) c)"
    using mkdir_ancestor_grown [OF g ok m _ q] .
  have new: "\<not> exists_at c (take m p) \<Longrightarrow> dir_at (mkdir (take m p) c) (take m p) = Some (dk_clock c)"
    by (simp add: exists_at_def dir_at_mkdir)
  have files: "dk_files c = dk_files d" using g by (simp add: grown_def)
  have E: "holds E d \<Longrightarrow> map_of E (take m p) = Some i \<Longrightarrow> dir_at c (take m p) = Some i" for i
    using holds_map_of holds_grown [OF _ g] by blast
  show ?thesis
    using mk new g E files
    by (auto simp: hold_component_def stays_simps exists_at_def split: if_splits)
qed

definition chained :: "path \<Rightarrow> disk \<Rightarrow> expectations \<Rightarrow> tx_error + unit \<Rightarrow> disk \<Rightarrow> bool" where
  "chained p d E r c =
     (grown p d c \<and> (r = Inr () \<longrightarrow> dir_at c (butlast p) \<noteq> None)
      \<and> (holds E d \<and> (\<forall>q \<in> set (ancestors p). dk_files d q = None) \<longrightarrow> r = Inr ()))"

lemma parent_chain_from:
  assumes "grown p d c" and ok: "growable d p" and "1 \<le> m" "m \<le> length p"
    and "dir_at c (take (m - 1) p) \<noteq> None"
  shows "stays (grown p d) (each (hold_component True E) (map (\<lambda>n. take n p) [m..<length p])) c (chained p d E)"
  using assms(1,3-5)
proof (induction "length p - m" arbitrary: m c)
  case 0
  then have "m = length p" by simp
  then show ?case using 0 by (simp add: stays_simps chained_def butlast_conv_take)
next
  case (Suc k)
  then have m: "m < length p" by simp
  have up: "[m..<length p] = m # [Suc m..<length p]" using m by (rule upt_conv_Cons)
  have a: "take m p \<in> set (ancestors p)" using Suc.prems m by (auto simp: ancestor_take)
  show ?case
    unfolding up list.map each.simps stays_andthen
  proof (rule stays_mono [OF hold_component_grown [OF Suc.prems(1) ok Suc.prems(2) m Suc.prems(4), of E]])
    fix r :: "tx_error + unit" and c'
    assume h: "grown p d c' \<and> (r = Inr () \<longrightarrow> dir_at c' (take m p) \<noteq> None)
      \<and> (holds E d \<and> dk_files d (take m p) = None \<longrightarrow> r = Inr ())"
    show "case r of Inl e \<Rightarrow> chained p d E (Inl e) c'
      | Inr x \<Rightarrow> stays (grown p d) (each (hold_component True E) (map (\<lambda>n. take n p) [Suc m..<length p])) c' (chained p d E)"
    proof (cases r)
      case (Inl e)
      then show ?thesis using h a by (auto simp: chained_def)
    next
      case (Inr x)
      then show ?thesis using h Suc.hyps(1) [of "Suc m" c'] Suc.hyps(2) m by auto
    qed
  qed
qed

lemma parent_chain_create:
  assumes h: "healthy d" and ok: "growable d p" and p: "p \<noteq> []"
  shows "stays (grown p d) (parent_chain True E p) d (chained p d E)"
  using parent_chain_from [OF grown_refl [OF h] ok, of 1 E] healthy_root [OF h] p
  by (simp add: parent_chain_def ancestors_def Suc_le_eq)

lemma ancestor_dirs:
  assumes h: "healthy d" and "dir_at d (butlast p) \<noteq> None" "q \<in> set (ancestors p)"
  shows "dir_at d q \<noteq> None"
  using assms(2,3)
proof (induction "length p" arbitrary: p)
  case (Suc n)
  obtain m where m: "1 \<le> m" "m < length p" "q = take m p" using Suc.prems(2) by (auto simp: ancestor_take)
  show ?case
  proof (cases "m = length p - 1")
    case True
    then show ?thesis using Suc.prems m by (simp add: butlast_conv_take)
  next
    case False
    then have "q \<in> set (ancestors (butlast p))"
      using m by (auto simp: ancestor_take take_butlast intro!: exI [of _ m])
    moreover have "butlast p \<noteq> []" using m by (cases p rule: rev_cases) auto
    then have "dir_at d (butlast (butlast p)) \<noteq> None"
      using healthy_parent [OF h, of "butlast p"] Suc.prems(1) by (simp add: exists_at_def)
    ultimately show ?thesis using Suc.hyps(1) [of "butlast p"] Suc.hyps(2) by simp
  qed
qed (simp add: ancestors_def)

text \<open>A chain that is only held, not made.\<close>

lemma hold_component_present:
  assumes "dir_at d q \<noteq> None" "holds E d"
  shows "stays I (hold_component create E q) d Q = Q (Inr ()) d"
  using assms holds_map_of [of E d q]
  by (auto simp: hold_component_def stays_simps exists_at_def)

lemma parent_chain_present:
  assumes "\<forall>q \<in> set (ancestors p). dir_at d q \<noteq> None" "holds E d"
  shows "stays I (parent_chain create E p) d Q = Q (Inr ()) d"
proof -
  have "\<forall>q \<in> set qs. dir_at d q \<noteq> None \<Longrightarrow> stays I (each (hold_component create E) qs) d Q = Q (Inr ()) d" for qs
    using hold_component_present [OF _ assms(2)] by (induction qs) (simp_all add: stays_simps)
  then show ?thesis using assms(1) by (simp add: parent_chain_def)
qed

lemma parent_chain_held:
  "healthy d \<Longrightarrow> dir_at d (butlast p) \<noteq> None \<Longrightarrow> holds E d \<Longrightarrow>
   stays I (parent_chain create E p) d Q = Q (Inr ()) d"
  using ancestor_dirs [of d p] by (intro parent_chain_present ballI) simp_all

lemma hold_root_held: "healthy d \<Longrightarrow> holds E d \<Longrightarrow> stays I (hold_root E) d Q = Q (Inr ()) d"
  using holds_map_of [of E d "[]"] healthy_root [of d]
  by (auto simp: hold_root_def stays_simps)

text \<open>Whatever holds, a chain that is only held changes nothing and fails with one kind of error.\<close>

definition chain_error :: "expectations \<Rightarrow> disk \<Rightarrow> path \<Rightarrow> tx_error option" where
  "chain_error E d q =
     (if dir_at d q = None then Some (SecurePathError ''secure path component is absent or redirected'')
      else if map_of E q \<noteq> None \<and> map_of E q \<noteq> dir_at d q
      then Some (SecurePathError ''secure path directory changed before use'') else None)"

definition as_result :: "tx_error option \<Rightarrow> tx_error + unit" where
  "as_result e = (case e of None \<Rightarrow> Inr () | Some e \<Rightarrow> Inl e)"

lemma hold_component_pure:
  "stays I (hold_component False E q) d Q = Q (as_result (chain_error E d q)) d"
  by (auto simp: hold_component_def stays_simps chain_error_def as_result_def)

lemma parent_chain_pure:
  obtains r where "r = Inr () \<or> (\<exists>m. r = Inl (SecurePathError m))"
    "\<And>I Q. stays I (parent_chain False E p) d Q = Q r d"
proof -
  have "\<exists>r. (r = Inr () \<or> (\<exists>m. r = Inl (SecurePathError m)))
      \<and> (\<forall>I Q. stays I (each (hold_component False E) qs) d Q = Q r d)" for qs
  proof (induction qs)
    case Nil
    then show ?case by (auto simp: stays_simps)
  next
    case (Cons q qs)
    then obtain r where r: "r = Inr () \<or> (\<exists>m. r = Inl (SecurePathError m))"
      "\<forall>I Q. stays I (each (hold_component False E) qs) d Q = Q r d" by blast
    show ?case
    proof (cases "chain_error E d q")
      case None
      then show ?thesis
        using r by (intro exI [of _ r]) (simp add: stays_andthen hold_component_pure as_result_def)
    next
      case (Some e)
      then have "\<exists>m. e = SecurePathError m" by (auto simp: chain_error_def split: if_splits)
      then show ?thesis
        using Some by (intro exI [of _ "Inl e"]) (simp add: stays_andthen hold_component_pure as_result_def)
    qed
  qed
  from this [of "ancestors p"] show thesis using that unfolding parent_chain_def by blast
qed

section \<open>The primitives\<close>

lemma stays_requires:
  assumes "holds E d"
  shows "stays I (each require_directory_identity E) d Q = Q (Inr ()) d"
  using assms
proof (induction E)
  case (Cons x E)
  then show ?case by (cases x) (simp add: stays_simps require_directory_identity_def holds_def)
qed (simp add: stays_simps)

definition snapshot_result :: "path \<Rightarrow> disk \<Rightarrow> tx_error + file_entry option" where
  "snapshot_result p d =
     (if dir_at d p = None then Inr (dk_files d p)
      else Inl (SecurePathError ''cannot securely hash source input''))"

lemma stays_optional_snapshot:
  assumes h: "healthy d" and E: "holds E d" and p: "p \<noteq> []"
  shows "stays I (optional_snapshot p E) d Q = Q (snapshot_result p d) d"
proof (cases "exists_at d p")
  case True
  then have "dir_at d (butlast p) \<noteq> None" using healthy_parent [OF h p] by simp
  then show ?thesis
    using True healthy_exclusive [OF h, of p]
    by (cases "dk_files d p")
      (auto simp: optional_snapshot_def digest_relative_file_def snapshot_result_def stays_simps
        hold_root_held [OF h E] parent_chain_held [OF h _ E] stays_requires [OF E] exists_at_def)
next
  case False
  then have n: "dir_at d p = None" "dk_files d p = None" by (simp_all add: exists_at_def)
  obtain r where r: "r = Inr () \<or> (\<exists>m. r = Inl (SecurePathError m))"
    "\<And>I Q. stays I (parent_chain False E p) d Q = Q r d"
    using parent_chain_pure [of E p d] by blast
  show ?thesis
    using r(1) n False
    by (auto simp: optional_snapshot_def digest_relative_file_def snapshot_result_def stays_simps
        hold_root_held [OF h E] r(2) stays_requires [OF E])
qed

lemma stays_safe_target:
  "stays I (safe_target p) d Q =
     Q (if \<forall>q \<in> set (ancestors p). dk_files d q = None then Inr ()
        else Inl (TransactionError ''transaction parent is not a directory'')) d"
  by (simp add: safe_target_def stays_simps list_all_iff)

lemma guard_placeable:
  assumes "healthy d" "exists_at d p" "p \<noteq> []"
  shows "placeable d (guard_path p (dk_clock d))"
proof -
  have "butlast (guard_path p (dk_clock d)) = butlast p" by (simp add: guard_path_def)
  moreover have "\<not> exists_at d (guard_path p (dk_clock d))"
    using healthy_older [OF assms(1), of "guard_path p (dk_clock d)"] by (auto simp: guard_path_def)
  moreover have "list_all (older (Suc (dk_clock d))) (butlast p)"
    using healthy_older_Suc [OF assms(1,2)] by (auto simp: list_all_iff dest: in_set_butlastD)
  ultimately show ?thesis
    using healthy_parent [OF assms(1,3,2)] by (auto simp: placeable_def guard_path_def state_root_def)
qed

lemma temporary_placeable:
  assumes "healthy d" "dir_at d (butlast p) \<noteq> None" "p \<noteq> []"
  shows "placeable d (temporary_path p (dk_clock d))"
proof -
  have "butlast (temporary_path p (dk_clock d)) = butlast p" by (simp add: temporary_path_def)
  moreover have "\<not> exists_at d (temporary_path p (dk_clock d))"
    using healthy_older [OF assms(1), of "temporary_path p (dk_clock d)"] by (auto simp: temporary_path_def)
  moreover have "list_all (older (Suc (dk_clock d))) (butlast p)"
    using healthy_older_Suc [OF assms(1), of "butlast p"] assms(2) by (simp add: exists_at_def)
  ultimately show ?thesis
    using assms(2) by (auto simp: placeable_def temporary_path_def state_root_def)
qed

text \<open>A removal renames the entry to a guard and unlinks that.\<close>

definition removed1 :: "path \<Rightarrow> disk \<Rightarrow> disk" where
  "removed1 p d = advance (rename_file p (guard_path p (dk_clock d))) d"

definition removed2 :: "path \<Rightarrow> disk \<Rightarrow> disk" where
  "removed2 p d = advance (unlink (guard_path p (dk_clock d))) (removed1 p d)"

lemma stays_remove_published:
  assumes h: "healthy d" and E: "holds E d" and p: "p \<noteq> []" "dk_files d p = Some f"
  shows "stays I (remove_published_relative p f E) d Q =
    (I (removed1 p d) \<and> I (removed2 p d) \<and> Q (Inr True) (removed2 p d))"
proof -
  have "dir_at d (butlast p) \<noteq> None" using healthy_parent [OF h p(1)] p(2) by (simp add: exists_at_def)
  then show ?thesis
    using p by (simp add: remove_published_relative_def stays_simps hold_root_held [OF h E]
        parent_chain_held [OF h _ E] removed1_def removed2_def)
qed

lemma removed_facts:
  assumes h: "healthy d" and p: "p \<noteq> []" "dk_files d p = Some f"
  shows "healthy (removed1 p d)" "healthy (removed2 p d)"
    and "dk_files (removed1 p d) = (dk_files d)(p := None, guard_path p (dk_clock d) \<mapsto> f\<lparr>fe_ctime := dk_clock d\<rparr>)"
    and "dk_files (removed2 p d) = (dk_files d)(p := None)"
    and "dir_at (removed1 p d) q = dir_at d q" "dir_at (removed2 p d) q = dir_at d q"
proof -
  have g: "placeable d (guard_path p (dk_clock d))"
    using guard_placeable [OF h _ p(1)] p(2) by (simp add: exists_at_def)
  show h1: "healthy (removed1 p d)" unfolding removed1_def by (rule healthy_rename_file [OF h g])
  show "healthy (removed2 p d)" unfolding removed2_def by (rule healthy_unlink [OF h1])
  show f1: "dk_files (removed1 p d) = (dk_files d)(p := None, guard_path p (dk_clock d) \<mapsto> f\<lparr>fe_ctime := dk_clock d\<rparr>)"
    using p by (simp add: removed1_def files_rename_file)
  have "dk_files d (guard_path p (dk_clock d)) = None" using g by (simp add: placeable_def exists_at_def)
  moreover have "guard_path p (dk_clock d) \<noteq> p" using calculation p by auto
  ultimately show "dk_files (removed2 p d) = (dk_files d)(p := None)"
    by (auto simp: removed2_def files_unlink f1 fun_eq_iff)
  show "dir_at (removed1 p d) q = dir_at d q" "dir_at (removed2 p d) q = dir_at d q"
    by (simp_all add: removed1_def removed2_def)
qed

text \<open>A promotion makes the missing ancestors of its destination and then renames.\<close>

lemma stays_promote:
  assumes h: "healthy d" and E: "holds E d" and src: "dk_files d src = Some f" "src \<noteq> []" "src \<noteq> dst"
    and dst: "dst \<noteq> []" "\<not> exists_at d dst" "growable d dst" "\<forall>q \<in> set (ancestors dst). dk_files d q = None"
    and I: "\<And>c. grown dst d c \<Longrightarrow> I c"
    and Q: "\<And>c. grown dst d c \<Longrightarrow> dir_at c (butlast dst) \<noteq> None \<Longrightarrow>
      I (advance (rename_file src dst) c) \<and>
      Q (Inr (f\<lparr>fe_ctime := dk_clock c\<rparr>)) (advance (rename_file src dst) c)"
  shows "stays I (promote_relative_new src dst f E) d Q"
proof -
  have sp: "dir_at d (butlast src) \<noteq> None"
    using healthy_parent [OF h src(2)] src(1) by (simp add: exists_at_def)
  have "stays I (parent_chain True E dst) d (\<lambda>r c. r = Inr () \<and> grown dst d c \<and> dir_at c (butlast dst) \<noteq> None)"
    by (rule stays_mono [OF parent_chain_create [OF h dst(3,1), of E]])
      (use I E dst(4) in \<open>auto simp: chained_def\<close>)
  then have "stays I (parent_chain True E dst) d (\<lambda>r c. case r of Inl e \<Rightarrow> Q (Inl e) c
      | Inr x \<Rightarrow> stays I (andthen (look (\<lambda>d. (dk_files d src = Some f, exists_at d dst))) (\<lambda>(same, occupied).
          andthen (demand same (SecurePathError ''secure promotion source changed'')) (\<lambda>_.
          andthen (demand (\<not> occupied) (SecurePathError ''secure create-if-absent target already exists'')) (\<lambda>_.
            install src dst)))) c Q)"
  proof (rule stays_mono)
    fix r :: "tx_error + unit" and c
    assume c: "r = Inr () \<and> grown dst d c \<and> dir_at c (butlast dst) \<noteq> None"
    then have files: "dk_files c = dk_files d" by (simp add: grown_def)
    have "dir_at c dst = None" using c dst(2) not_own_ancestor [of dst] by (auto simp: grown_def exists_at_def)
    then have "\<not> exists_at c dst" using dst(2) files by (simp add: exists_at_def)
    then show "case r of Inl e \<Rightarrow> Q (Inl e) c
      | Inr x \<Rightarrow> stays I (andthen (look (\<lambda>d. (dk_files d src = Some f, exists_at d dst))) (\<lambda>(same, occupied).
          andthen (demand same (SecurePathError ''secure promotion source changed'')) (\<lambda>_.
          andthen (demand (\<not> occupied) (SecurePathError ''secure create-if-absent target already exists'')) (\<lambda>_.
            install src dst)))) c Q"
      using c Q [of c] src(1) files by (simp add: stays_simps install_def files_rename_file)
  qed simp
  then show ?thesis
    using src(3) unfolding promote_relative_new_def
    by (simp add: stays_andthen stays_demand hold_root_held [OF h E] parent_chain_held [OF h sp E])
qed

text \<open>Writing a journal touches the journal, its temporary and its guard only.\<close>

definition journal_names :: "path \<Rightarrow> path set" where
  "journal_names seat =
     insert (journal_path seat) (range (temporary_path (journal_path seat)) \<union> range (guard_path (journal_path seat)))"

definition journal_step :: "path \<Rightarrow> disk \<Rightarrow> disk \<Rightarrow> bool" where
  "journal_step seat d c =
     (healthy c \<and> (\<forall>q. dir_at c q = dir_at d q) \<and> dk_clock d \<le> dk_clock c
      \<and> (\<forall>q. q \<notin> journal_names seat \<longrightarrow> dk_files c q = dk_files d q))"

lemma journal_stepI:
  assumes "journal_step seat d c" "healthy (advance f c)" "\<And>q. dir_at (f c) q = dir_at c q"
    "\<And>q. q \<notin> journal_names seat \<Longrightarrow> dk_files (f c) q = dk_files c q"
  shows "journal_step seat d (advance f c)"
  using assms by (simp add: journal_step_def)

lemma stays_write_journal:
  fixes seat r
  defines "jp \<equiv> journal_path seat"
  assumes h: "healthy d" and E: "holds E d" and s: "dir_at d seat \<noteq> None"
    and jp: "dk_files d jp = expected" "dir_at d jp = None"
    and I: "\<And>c. journal_step seat d c \<Longrightarrow> dk_files c jp = expected \<or> dk_files c jp = None
        \<or> (\<exists>f. dk_files c jp = Some f \<and> fe_content f = Journal r) \<Longrightarrow> I c"
    and Q: "\<And>c f. journal_step seat d c \<Longrightarrow> dk_files c jp = Some f \<Longrightarrow> fe_content f = Journal r \<Longrightarrow> Q (Inr f) c"
  shows "stays I (write_journal seat r expected E) d Q"
proof -
  let ?tmp = "temporary_path jp (dk_clock d)"
  define c1 where "c1 = advance (new_file ?tmp (Journal r) 384) d"
  have b: "jp \<noteq> []" "butlast jp = seat" by (simp_all add: jp_def journal_path_def)
  have tmp: "placeable d ?tmp" using temporary_placeable [OF h _ b(1)] s b(2) by simp
  have mem: "jp \<in> journal_names seat" "temporary_path jp k \<in> journal_names seat" "guard_path jp k \<in> journal_names seat" for k
    by (simp_all add: journal_names_def jp_def)
  have names: "butlast ?tmp = seat" "?tmp \<noteq> jp" "?tmp \<noteq> []"
    by (simp_all add: temporary_path_def b jp_def journal_path_def)
  have h1: "healthy c1" unfolding c1_def by (rule healthy_new_file [OF h tmp])
  have s1: "journal_step seat d c1"
    using h1 mem by (auto simp: journal_step_def c1_def files_new_file)
  have f1: "dk_files c1 jp = expected" "\<exists>f. dk_files c1 ?tmp = Some f \<and> fe_content f = Journal r"
    using jp names by (auto simp: c1_def files_new_file)
  then obtain f where f: "dk_files c1 ?tmp = Some f" "fe_content f = Journal r" by blast
  note chain = hold_root_held [OF h E] parent_chain_held [OF h, of jp E, unfolded b, OF s E]
  show ?thesis
  proof (cases expected)
    case None
    define c2 where "c2 = advance (rename_file ?tmp jp) c1"
    have "placeable c1 jp"
      using None jp s names h1 healthy_older_Suc [OF h, of seat] b
      by (auto simp: placeable_def c1_def exists_at_def files_new_file jp_def journal_path_def state_root_def
          list_all_iff intro: older_mono)
    then have "healthy c2" unfolding c2_def by (rule healthy_rename_file [OF h1])
    then have s2: "journal_step seat d c2"
      unfolding c2_def by (rule journal_stepI [OF s1]) (use f mem in \<open>auto simp: files_rename_file\<close>)
    have f2: "dk_files c2 jp = Some (f\<lparr>fe_ctime := dk_clock c1\<rparr>)" using f by (simp add: c2_def files_rename_file)
    show ?thesis
      using None jp I [OF s1] I [OF s2] Q [OF s2 f2] f f1 f2 names
      by (simp add: write_journal_def atomic_publish_if_current_def stays_simps chain flip: jp_def)
         (simp add: stays_simps install_def flip: c1_def c2_def)
  next
    case (Some old)
    let ?guard = "guard_path jp (Suc (dk_clock d))"
    have clock: "dk_clock c1 = Suc (dk_clock d)" by (simp add: c1_def)
    define c2 where "c2 = advance (rename_file jp ?guard) c1"
    define c3 where "c3 = advance (rename_file ?tmp jp) c2"
    define c4 where "c4 = advance (unlink ?guard) c3"
    have old: "dk_files c1 jp = Some old" using f1(1) Some by simp
    have guard: "placeable c1 ?guard" using guard_placeable [OF h1 _ b(1)] old by (simp add: exists_at_def clock)
    have gn: "butlast ?guard = seat" "?guard \<noteq> jp" "?guard \<noteq> ?tmp" "?guard \<noteq> []"
      by (simp_all add: guard_path_def temporary_path_def b jp_def journal_path_def)
    have h2: "healthy c2" unfolding c2_def by (rule healthy_rename_file [OF h1 guard])
    have s2: "journal_step seat d c2"
      unfolding c2_def by (rule journal_stepI [OF s1 h2 [unfolded c2_def]]) (use old mem in \<open>auto simp: files_rename_file\<close>)
    have f2: "dk_files c2 jp = None" "dk_files c2 ?tmp = Some f"
      using old f gn names by (auto simp: c2_def files_rename_file)
    have "placeable c2 jp"
      using f2 jp s names h2 healthy_older_Suc [OF h2, of seat] s2 b
      by (auto simp: placeable_def exists_at_def jp_def journal_path_def state_root_def journal_step_def)
    then have h3: "healthy c3" unfolding c3_def by (rule healthy_rename_file [OF h2])
    have s3: "journal_step seat d c3"
      unfolding c3_def by (rule journal_stepI [OF s2 h3 [unfolded c3_def]]) (use f2 mem in \<open>auto simp: files_rename_file\<close>)
    have f3: "dk_files c3 jp = Some (f\<lparr>fe_ctime := dk_clock c2\<rparr>)" using f2 by (simp add: c3_def files_rename_file)
    have h4: "healthy c4" unfolding c4_def by (rule healthy_unlink [OF h3])
    have s4: "journal_step seat d c4"
      unfolding c4_def by (rule journal_stepI [OF s3 h4 [unfolded c4_def]]) (use mem in \<open>auto simp: files_unlink\<close>)
    have f4: "dk_files c4 jp = Some (f\<lparr>fe_ctime := dk_clock c2\<rparr>)" using f3 gn by (simp add: c4_def files_unlink)
    show ?thesis
      using Some jp I [OF s1] I [OF s2] I [OF s3] I [OF s4] Q [OF s4 f4] f f1 f2 f3 f4
      by (simp add: write_journal_def atomic_publish_if_current_def stays_simps chain flip: jp_def)
         (simp add: stays_simps install_def files_rename_file clock flip: c1_def c2_def c3_def c4_def)
  qed
qed

text \<open>Removing a seat touches nothing outside the state root and makes no journal.\<close>

definition dropping :: "disk \<Rightarrow> disk \<Rightarrow> bool" where
  "dropping d c =
     (healthy c \<and> dir_at c state_root = dir_at d state_root
      \<and> (\<forall>q. \<not> is_below state_root q \<longrightarrow> dk_files c q = dk_files d q \<and> dir_at c q = dir_at d q)
      \<and> (\<forall>x. dk_files c (journal_path (state_root @ [x])) \<in> {None, dk_files d (journal_path (state_root @ [x]))}))"

lemma dropping_trans: "dropping d c \<Longrightarrow> dropping c e \<Longrightarrow> dropping d e"
  unfolding dropping_def by simp metis

lemma guard_below: "is_below state_root (guard_path (journal_path (state_root @ [n])) k)"
  by (simp add: guard_path_def journal_path_def is_below_iff butlast_append)

lemma guard_no_journal: "journal_path s \<noteq> guard_path p k"
  by (simp add: guard_path_def journal_path_def)

lemma removed_journal_dropping:
  assumes h: "healthy d" and f: "dk_files d (journal_path (state_root @ [n])) = Some f"
  shows "dropping d (removed1 (journal_path (state_root @ [n])) d)"
    and "dropping d (removed2 (journal_path (state_root @ [n])) d)"
proof -
  have jp: "journal_path (state_root @ [n]) \<noteq> []" "is_below state_root (journal_path (state_root @ [n]))"
    by (simp_all add: journal_path_def is_below_iff)
  note facts = removed_facts [OF h jp(1) f]
  show "dropping d (removed1 (journal_path (state_root @ [n])) d)"
    using facts jp guard_below [of n "dk_clock d"] guard_no_journal
    by (auto simp: dropping_def)
  show "dropping d (removed2 (journal_path (state_root @ [n])) d)"
    using facts jp by (auto simp: dropping_def)
qed

lemma journal_path_below: "is_below (state_root @ [n]) (journal_path (state_root @ [x])) \<longleftrightarrow> x = n"
  by (auto simp: journal_path_def is_below_iff)

lemma below_state_root: "is_below (state_root @ [n]) q \<Longrightarrow> is_below state_root q"
  by (auto simp: is_below_iff)

lemma not_below_seat: "\<not> is_below (state_root @ [n]) state_root"
  by (auto simp: is_below_iff)

lemma moved_seat_dropping:
  assumes h: "healthy d" and s: "dir_at d (state_root @ [n]) \<noteq> None"
    and j: "dk_files d (journal_path (state_root @ [n])) = None"
  defines "q \<equiv> state_root @ [Uuid (dk_clock d)]"
  defines "m \<equiv> advance (rename_tree (state_root @ [n]) q) d"
  shows "dropping d m" "dir_at m q = dir_at d (state_root @ [n])" "dk_files m (journal_path q) = None"
    and "dir_at m (state_root @ [x]) = (if x = n then None else if x = Uuid (dk_clock d)
      then dir_at d (state_root @ [n]) else dir_at d (state_root @ [x]))"
    and "dir_at d q = None"
proof -
  let ?s = "state_root @ [n]"
  have ex: "exists_at d ?s" using s by (simp add: exists_at_def)
  then have ne: "n \<noteq> Uuid (dk_clock d)" using healthy_older [OF h] by fastforce
  then have a: "apart ?s q" by (simp add: apart_def q_def state_root_def)
  have free: "is_below q p \<Longrightarrow> dir_at d p = None" for p
    using fresh_seat_free [OF h, of p] by (auto simp: q_def exists_at_def)
  note dir = dir_at_rename_tree [OF a free]
  have hm: "healthy m" unfolding m_def q_def by (rule healthy_rename_seat [OF h refl s refl])
  show jq: "dk_files m (journal_path q) = None"
    using j by (simp add: m_def q_def files_rename_tree journal_path_below) (simp add: journal_path_def)
  have jm: "dk_files m (journal_path (state_root @ [x])) \<in> {None, dk_files d (journal_path (state_root @ [x]))}" for x
    using jq by (cases "x = Uuid (dk_clock d)") (simp_all add: m_def q_def files_rename_tree journal_path_below)
  have out: "dk_files m p = dk_files d p \<and> dir_at m p = dir_at d p" if "\<not> is_below state_root p" for p
    using that below_state_root [of n p] below_state_root [of "Uuid (dk_clock d)" p] dir [of p]
    unfolding m_def q_def by (auto simp: files_rename_tree)
  have root: "dir_at m state_root = dir_at d state_root"
    using dir [of state_root] not_below_seat by (simp add: m_def q_def)
  show "dropping d m" using hm jm out root by (simp add: dropping_def)
  show "dir_at m q = dir_at d ?s" using dir [of q] by (simp add: m_def) (simp add: is_below_def)
  have below: "is_below q (state_root @ [x]) \<longleftrightarrow> x = Uuid (dk_clock d)" "is_below ?s (state_root @ [x]) \<longleftrightarrow> x = n"
    by (auto simp: q_def is_below_iff)
  show "dir_at d q = None" using free [of q] by (simp add: is_below_def)
  show "dir_at m (state_root @ [x]) = (if x = n then None else if x = Uuid (dk_clock d)
      then dir_at d ?s else dir_at d (state_root @ [x]))"
    using dir [of "state_root @ [x]"] below ne by (auto simp: m_def q_def)
qed

text \<open>
  The quarantined seat is emptied, moved to a name that is no transaction identifier, and
  removed.  Between the last two steps the disk is stranded.
\<close>

definition stranded :: "disk \<Rightarrow> disk \<Rightarrow> bool" where
  "stranded d c =
     ((\<exists>x k. dir_at c (state_root @ [Final x k]) \<noteq> None) \<and> dir_at c state_root = dir_at d state_root
      \<and> (\<forall>q. \<not> is_below state_root q \<longrightarrow> dk_files c q = dk_files d q))"

lemma dropping_stranded: "dropping d c \<Longrightarrow> stranded c e \<Longrightarrow> stranded d e"
  by (simp add: dropping_def stranded_def)

lemma removed_seat_dropping:
  assumes h: "healthy m" and s: "dir_at m (state_root @ [Uuid k]) \<noteq> None"
    and j: "dk_files m (journal_path (state_root @ [Uuid k])) = None"
  defines "q \<equiv> state_root @ [Uuid k]"
  defines "e \<equiv> advance (empty_tree q) m"
  defines "f \<equiv> state_root @ [Final (Uuid k) (dk_clock e)]"
  defines "c \<equiv> advance (rename_tree q f) e"
  shows "dropping m e" "stranded m c" "dropping m (advance (remove_tree f) c)"
    and "dir_at (advance (remove_tree f) c) (state_root @ [x]) = (if x = Uuid k then None else dir_at m (state_root @ [x]))"
proof -
  have he: "healthy e" unfolding e_def q_def by (rule healthy_empty_seat [OF h refl])
  have jp: "is_below q (journal_path (state_root @ [x])) \<longleftrightarrow> x = Uuid k" for x
    by (simp add: q_def journal_path_below)
  have out: "\<not> is_below state_root p \<Longrightarrow> \<not> is_below q p" "\<not> is_below q state_root" for p
    using below_state_root [of "Uuid k" p] not_below_seat by (auto simp: q_def)
  show e: "dropping m e"
    using he out by (simp add: dropping_def e_def files_empty_tree dir_at_empty_tree)
  have a: "apart q f" by (simp add: apart_def q_def f_def)
  have free: "\<not> exists_at e p" if "is_below f p" for p
    using that healthy_older [OF he, of p] by (auto simp: f_def is_below_iff)
  have dfree: "\<And>p. is_below f p \<Longrightarrow> dir_at e p = None" using free by (auto simp: exists_at_def)
  note dir = dir_at_rename_tree [OF a dfree]
  have outf: "\<not> is_below state_root p \<Longrightarrow> \<not> is_below f p" "\<not> is_below f state_root" for p
    using below_state_root [of "Final (Uuid k) (dk_clock e)" p] not_below_seat by (auto simp: f_def)
  have eq: "dir_at e q = dir_at m q" by (simp add: e_def dir_at_empty_tree)
  have "dir_at c f = dir_at m q" using eq by (simp add: c_def dir) (simp add: is_below_def)
  then have "\<exists>x i. dir_at c (state_root @ [Final x i]) \<noteq> None"
    using s unfolding f_def q_def by metis
  then have "stranded e c"
    using out outf by (auto simp: stranded_def c_def dir files_rename_tree)
  then show "stranded m c" using dropping_stranded [OF e] by blast
  have z: "dk_files (remove_tree f c) = dk_files (remove_tree q e)" "dk_dirs (remove_tree f c) = dk_dirs (remove_tree q e)"
    using arg_cong [OF remove_renamed [OF a free], of dk_files] arg_cong [OF remove_renamed [OF a free], of dk_dirs]
    unfolding c_def remove_tree_def by (simp_all cong: if_cong)
  have hz: "healthy (advance (remove_tree f) c)"
    by (rule healthy_remove_seat [OF he refl, of _ "Uuid k", folded q_def])
       (simp_all add: z, simp add: c_def)
  have dz: "dir_at (advance (remove_tree f) c) p = (if is_below q p then None else dir_at m p)" for p
    using z(2) dir_at_remove_tree [of q e p]
    by (simp add: dir_at_def e_def) (simp add: dir_at_empty_tree flip: dir_at_def)
  then show "dropping m (advance (remove_tree f) c)"
    using hz z(1) out by (simp add: dropping_def files_remove_tree) (simp add: e_def files_empty_tree)
  have "is_below q (state_root @ [x]) \<longleftrightarrow> x = Uuid k" by (auto simp: q_def is_below_iff)
  then show "dir_at (advance (remove_tree f) c) (state_root @ [x]) = (if x = Uuid k then None else dir_at m (state_root @ [x]))"
    using dz [of "state_root @ [x]"] by simp
qed

lemma seat_expectations_hold:
  "dir_at d (state_root @ [n]) = Some i \<Longrightarrow> dir_at d state_root = Some r \<Longrightarrow>
   holds (seat_expectations (state_root @ [n]) i r) d"
  by (simp add: holds_def seat_expectations_def)

lemma stays_drop_seat:
  fixes n
  defines "s \<equiv> state_root @ [n]"
  assumes h: "healthy d" and i: "dir_at d s = Some i" "dir_at d state_root = Some r"
    and j: "dk_files d (journal_path s) = None"
    and I: "\<And>c. dropping d c \<Longrightarrow> I c" "\<And>c. stranded d c \<Longrightarrow> I c"
    and Q: "\<And>c. dropping d c \<Longrightarrow> (\<And>x. dir_at c (state_root @ [x]) = (if x = n then None else dir_at d (state_root @ [x])))
      \<Longrightarrow> Q (Inr ()) c"
  shows "stays I (remove_transaction_directory s i r None) d Q"
proof -
  let ?q = "state_root @ [Uuid (dk_clock d)]"
  define m where "m = advance (rename_tree s ?q) d"
  define e where "e = advance (empty_tree ?q) m"
  define f where "f = state_root @ [Final (Uuid (dk_clock d)) (dk_clock e)]"
  define c where "c = advance (rename_tree ?q f) e"
  define z where "z = advance (remove_tree f) c"
  have s: "dir_at d (state_root @ [n]) \<noteq> None" using i by (simp add: s_def)
  note moved = moved_seat_dropping [OF h s j [unfolded s_def], folded s_def, folded m_def]
  have hm: "healthy m" using moved(1) by (simp add: dropping_def)
  have q: "dir_at m ?q = Some i" using moved(2) i by simp
  have mq: "dir_at m ?q \<noteq> None" using q by simp
  note gone = removed_seat_dropping [OF hm mq moved(3), folded e_def, folded f_def, folded c_def, folded z_def]
  have free: "\<not> exists_at d ?q" using fresh_seat_free [OF h, of ?q] by (simp add: is_below_def)
  have ff: "final_path ?q (dk_clock e) = f" by (simp add: final_path_def f_def)
  have z: "dropping d z" using dropping_trans [OF moved(1) gone(3)] .
  have zs: "dir_at z (state_root @ [x]) = (if x = n then None else dir_at d (state_root @ [x]))" for x
    using gone(4) [of x] moved(4) [of x] moved(5) by auto
  have "I m" "I e" "I c" "I z" "Q (Inr ()) z"
    using I(1) [OF moved(1)] I(1) [OF dropping_trans [OF moved(1) gone(1)]] I(1) [OF z]
      I(2) [OF dropping_stranded [OF moved(1) gone(2)]] Q [OF z zs] by blast+
  moreover have "butlast s = state_root" by (simp add: s_def)
  ultimately show ?thesis
    using i free q
    by (simp add: remove_transaction_directory_def require_directory_identity_def
        move_directory_in_exact_parent_def remove_exact_directory_tree_def stays_simps ff
        flip: m_def e_def c_def z_def)
qed

lemma stays_remove_seat:
  fixes n
  defines "s \<equiv> state_root @ [n]"
  assumes h: "healthy d" and i: "dir_at d s = Some i" "dir_at d state_root = Some r"
    and j: "dk_files d (journal_path s) = snapshot"
    and I: "\<And>c. dropping d c \<Longrightarrow> dk_files c (journal_path s) = None \<Longrightarrow> I c" "\<And>c. stranded d c \<Longrightarrow> I c"
    and Q: "\<And>c. dropping d c \<Longrightarrow> (\<And>x. dir_at c (state_root @ [x]) = (if x = n then None else dir_at d (state_root @ [x])))
      \<Longrightarrow> Q (Inr ()) c"
  shows "stays I (remove_transaction_directory s i r snapshot) d Q"
proof (cases snapshot)
  case None
  have "dk_files c (journal_path s) = None" if "dropping d c" for c
    using that j None by (auto simp: dropping_def s_def)
  then show ?thesis
    unfolding None s_def using h i j I Q None
    by (intro stays_drop_seat) (simp_all add: s_def)
next
  case (Some f)
  let ?jp = "journal_path s"
  have jp: "?jp \<noteq> []" by (simp add: journal_path_def)
  have jf: "dk_files d ?jp = Some f" using j Some by simp
  note facts = removed_facts [OF h jp jf] and drop = removed_journal_dropping [OF h jf [unfolded s_def], folded s_def]
  have E: "holds (seat_expectations s i r) d" using seat_expectations_hold i by (simp add: s_def)
  have "guard_path ?jp (dk_clock d) \<noteq> ?jp" using guard_no_journal by metis
  then have I1: "I (removed1 ?jp d)" "I (removed2 ?jp d)"
    using I(1) [OF drop(1)] I(1) [OF drop(2)] facts(3,4) by auto
  have "stays I (remove_transaction_directory s i r None) (removed2 ?jp d) Q"
    unfolding s_def
  proof (rule stays_drop_seat)
    show "healthy (removed2 (journal_path (state_root @ [n])) d)" using facts(2) by (simp add: s_def)
    show "dir_at (removed2 (journal_path (state_root @ [n])) d) (state_root @ [n]) = Some i"
      "dir_at (removed2 (journal_path (state_root @ [n])) d) state_root = Some r"
      using facts(6) i by (simp_all add: s_def)
    show none: "dk_files (removed2 (journal_path (state_root @ [n])) d) (journal_path (state_root @ [n])) = None"
      using facts(4) by (simp add: s_def)
    fix c assume c: "dropping (removed2 (journal_path (state_root @ [n])) d) c"
    have dc: "dropping d c" using dropping_trans [OF drop(2)] c by (simp add: s_def)
    moreover have "dk_files c (journal_path s) = None"
      using c none by (auto simp: dropping_def s_def)
    ultimately show "I c" by (rule I(1))
    assume "\<And>x. dir_at c (state_root @ [x]) = (if x = n then None
        else dir_at (removed2 (journal_path (state_root @ [n])) d) (state_root @ [x]))"
    then show "Q (Inr ()) c" using Q [OF dc] facts(6) by (simp add: s_def)
  next
    fix c assume "stranded (removed2 (journal_path (state_root @ [n])) d) c"
    then show "I c" using I(2) [OF dropping_stranded [OF drop(2)]] by (simp add: s_def)
  qed
  then show ?thesis
    using I1 Some
    by (simp add: remove_transaction_directory_def stays_simps stays_remove_published [OF h E jp jf])
qed

end
