(* ===== verification/Transaction_Recovery.thy ===== *)
theory Transaction_Recovery
  imports Transaction_Logic
begin

text \<open>
  Recovery restores the project.  A disk is settled when no journal asks for a rollback, and
  rolling when one seat holds an applying journal and each of its operations is in one of the
  states a commit or a rollback passes through.
\<close>

section \<open>The project\<close>

definition is_name :: "name \<Rightarrow> bool" where
  "is_name x = (case x of Name _ \<Rightarrow> True | _ \<Rightarrow> False)"

definition project_path :: "path \<Rightarrow> bool" where
  "project_path p = (p \<noteq> [] \<and> list_all is_name p \<and> \<not> is_below state_root p)"

text \<open>What the project holds: the contents of its files, guards and private state apart.\<close>

definition contents :: "disk \<Rightarrow> path \<Rightarrow> content option" where
  "contents d p = (if project_path p then map_option fe_content (dk_files d p) else None)"

lemma project_older: "project_path p \<Longrightarrow> list_all (older n) p"
proof -
  have "older n x" if "is_name x" for x
    using that by (cases x) (simp_all add: is_name_def)
  moreover assume "project_path p"
  ultimately show ?thesis by (simp add: project_path_def list_all_iff)
qed

lemma guard_not_project: "\<not> project_path (guard_path p n)"
  by (simp add: project_path_def guard_path_def is_name_def)

lemma below_not_project: "is_below state_root p \<Longrightarrow> \<not> project_path p"
  by (simp add: project_path_def)

lemma ancestor_project:
  assumes p: "project_path p" and q: "q \<in> set (ancestors p)"
  shows "project_path q"
proof -
  obtain m where m: "1 \<le> m" "m < length p" "q = take m p" using q by (auto simp: ancestor_take)
  have "\<not> is_below state_root q"
  proof
    assume "is_below state_root q"
    then obtain r where "q = state_root @ r" by (auto simp: is_below_iff)
    then have "p = state_root @ r @ drop m p" using m by (metis append_assoc append_take_drop_id)
    then show False using p by (auto simp: project_path_def is_below_iff)
  qed
  moreover have "q \<noteq> []" using m by auto
  moreover have "list_all is_name q"
    using p m by (auto simp: project_path_def list_all_iff dest: in_set_takeD)
  ultimately show ?thesis by (simp add: project_path_def)
qed

lemma project_growable:
  assumes "project_path p"
  shows "growable d p"
  unfolding growable_def seat_dir_def
  using project_older [OF assms] ancestor_project [OF assms] below_not_project
  by (metis is_below_append append_assoc journal_path_def)

lemma private_not_project [simp]:
  "\<not> project_path (state_root @ p)" "\<not> project_path state_root"
  by (auto simp: project_path_def is_below_iff)

definition seat_path :: "nat \<Rightarrow> path" where
  "seat_path n = state_root @ [Uuid n]"

lemma seat_members_private [simp]:
  "\<not> project_path (backup_path (seat_path n) k)" "\<not> project_path (staged_path (seat_path n) k)"
  "\<not> project_path (journal_path (seat_path n))" "\<not> project_path (journal_path (state_root @ [x]))"
  by (simp_all add: backup_path_def staged_path_def journal_path_def seat_path_def)

section \<open>Operations in flight\<close>

text \<open>Nothing there, or what the transaction staged.\<close>

definition absent_or_staged :: "(content \<Rightarrow> string) \<Rightarrow> disk \<Rightarrow> journal_entry \<Rightarrow> bool" where
  "absent_or_staged sha d e =
     (case dk_files d (je_path e) of
        None \<Rightarrow> True
      | Some g \<Rightarrow> je_kind e = Op_Write \<and> snapshot_matches_record sha g (je_staged e) (je_result e))"

definition is_preimage ::
    "(content \<Rightarrow> string) \<Rightarrow> (path \<Rightarrow> content option) \<Rightarrow> journal_entry \<Rightarrow> file_entry \<Rightarrow> bool" where
  "is_preimage sha m e f =
     (snapshot_matches_record sha f (je_preimage e) (je_expected e) \<and> m (je_path e) = Some (fe_content f))"

text \<open>The states of one operation: untouched, backed up, installed, or rolled back.\<close>

definition entry_state ::
    "(content \<Rightarrow> string) \<Rightarrow> path \<Rightarrow> (path \<Rightarrow> content option) \<Rightarrow> disk \<Rightarrow> nat \<Rightarrow> journal_entry \<Rightarrow> bool" where
  "entry_state sha seat m d k e =
     (dir_at d (je_path e) = None \<and> (\<forall>q \<in> set (ancestors (je_path e)). dk_files d q = None)
      \<and> dir_at d (backup_path seat k) = None
      \<and> (case dk_files d (backup_path seat k) of
           Some f \<Rightarrow> je_expected e \<noteq> None \<and> is_preimage sha m e f \<and> absent_or_staged sha d e
         | None \<Rightarrow> if je_expected e \<noteq> None
                   then \<exists>f. dk_files d (je_path e) = Some f \<and> is_preimage sha m e f
                   else m (je_path e) = None \<and> absent_or_staged sha d e))"

definition entries :: "journal \<Rightarrow> (nat \<times> journal_entry) set" where
  "entries J = {(k, e). (k, e) \<in> set (enumerate 0 (jr_operations J)) \<and> je_kind e \<noteq> Op_Check}"

text \<open>The paths of a journal that changes files: no two alike, none inside another.\<close>

definition journal_paths_ok :: "journal \<Rightarrow> bool" where
  "journal_paths_ok J =
     (distinct (map je_path (jr_operations J))
      \<and> (\<forall>(k, e) \<in> entries J. project_path (je_path e) \<and> je_backup e = backup_path [] k
           \<and> (\<forall>(k', e') \<in> entries J. je_path e \<notin> set (ancestors (je_path e')))))"

definition rolling ::
    "(content \<Rightarrow> string) \<Rightarrow> nat \<Rightarrow> journal \<Rightarrow> (path \<Rightarrow> content option) \<Rightarrow> disk \<Rightarrow> bool" where
  "rolling sha n J m d =
     (healthy d \<and> dir_at d (seat_path n) \<noteq> None \<and> holds (recorded_directories J) d
      \<and> (\<forall>(k, e) \<in> entries J. entry_state sha (seat_path n) m d k e)
      \<and> (\<forall>p. p \<notin> je_path ` snd ` entries J \<longrightarrow> contents d p = m p))"

text \<open>What one operation may touch.\<close>

definition entry_scope :: "nat \<Rightarrow> nat \<Rightarrow> journal_entry \<Rightarrow> path set" where
  "entry_scope n k e =
     {je_path e, backup_path (seat_path n) k, staged_path (seat_path n) k} \<union> {guard_path (je_path e) i | i. True}"

definition scope_dirs :: "nat \<Rightarrow> nat \<Rightarrow> journal_entry \<Rightarrow> path set" where
  "scope_dirs n k e = set (ancestors (je_path e)) \<union> set (ancestors (backup_path (seat_path n) k))"

definition touches :: "nat \<Rightarrow> nat \<Rightarrow> journal_entry \<Rightarrow> disk \<Rightarrow> disk \<Rightarrow> bool" where
  "touches n k e d c =
     (healthy c \<and> (\<forall>q. q \<notin> entry_scope n k e \<longrightarrow> dk_files c q = dk_files d q)
      \<and> (\<forall>q i. dir_at d q = Some i \<longrightarrow> dir_at c q = Some i)
      \<and> (\<forall>q. dir_at c q \<noteq> None \<longrightarrow> dir_at d q \<noteq> None \<or> q \<in> scope_dirs n k e))"

lemma entries_same_path:
  assumes "journal_paths_ok J" "(k, e) \<in> entries J" "(k', e') \<in> entries J" "je_path e = je_path e'"
  shows "k = k' \<and> e = e'"
proof -
  have k: "k < length (jr_operations J)" "e = jr_operations J ! k"
    "k' < length (jr_operations J)" "e' = jr_operations J ! k'"
    using assms by (auto simp: entries_def in_set_enumerate_eq)
  then have "map je_path (jr_operations J) ! k = map je_path (jr_operations J) ! k'"
    using assms(4) by simp
  moreover have "distinct (map je_path (jr_operations J))"
    using assms(1) by (simp add: journal_paths_ok_def)
  ultimately have "k = k'"
    using k nth_eq_iff_index_eq [of "map je_path (jr_operations J)" k k'] by simp
  then show ?thesis using k by simp
qed

lemma entries_same_index: "(k, e) \<in> entries J \<Longrightarrow> (k, e') \<in> entries J \<Longrightarrow> e = e'"
  by (auto simp: entries_def in_set_enumerate_eq)

lemma backup_path_inj [simp]: "backup_path s k = backup_path s k' \<longleftrightarrow> k = k'"
  by (simp add: backup_path_def)

lemma member_paths_differ [simp]:
  "backup_path s k \<noteq> staged_path s k'" "staged_path s k' \<noteq> backup_path s k"
  "journal_path s \<noteq> backup_path s' k" "journal_path s \<noteq> staged_path s' k"
  "guard_path p i \<noteq> backup_path s k" "guard_path p i \<noteq> staged_path s k"
  by (auto simp: backup_path_def staged_path_def journal_path_def guard_path_def)

lemma project_not_scope:
  assumes "project_path p" "p \<in> entry_scope n k e"
  shows "p = je_path e"
  using assms guard_not_project by (auto simp: entry_scope_def)

lemma backup_ancestors: "q \<in> set (ancestors (backup_path (seat_path n) k)) \<Longrightarrow> \<not> project_path q"
proof -
  assume "q \<in> set (ancestors (backup_path (seat_path n) k))"
  then obtain m where m: "1 \<le> m" "q = take m (backup_path (seat_path n) k)" by (auto simp: ancestor_take)
  then have "q = state_root @ take (m - 1) (drop 1 (backup_path (seat_path n) k))"
    by (cases m) (auto simp: backup_path_def seat_path_def state_root_def)
  then show ?thesis by (metis private_not_project(1))
qed

lemma entry_state_cong:
  assumes s: "entry_state sha s m d k e" and "dk_files c (je_path e) = dk_files d (je_path e)"
    "dk_files c (backup_path s k) = dk_files d (backup_path s k)"
    "\<forall>q \<in> set (ancestors (je_path e)). dk_files c q = dk_files d q"
    and "dir_at c (je_path e) = None" "dir_at c (backup_path s k) = None"
  shows "entry_state sha s m c k e"
proof -
  have "absent_or_staged sha c e = absent_or_staged sha d e"
    using assms(2) by (simp add: absent_or_staged_def)
  then show ?thesis using assms by (auto simp: entry_state_def split: option.split)
qed

lemma entry_state_frame:
  assumes ok: "journal_paths_ok J" and e: "(k, e) \<in> entries J" "(k', e') \<in> entries J" "(k, e) \<noteq> (k', e')"
    and t: "touches n k e d c" and s: "entry_state sha (seat_path n) m d k' e'"
  shows "entry_state sha (seat_path n) m c k' e'"
proof -
  have p: "project_path (je_path e)" "project_path (je_path e')"
    "je_path e \<notin> set (ancestors (je_path e'))" "je_path e' \<notin> set (ancestors (je_path e))"
    using ok e by (auto simp: journal_paths_ok_def)
  have ne: "je_path e \<noteq> je_path e'" "k \<noteq> k'"
    using entries_same_path [OF ok e(1,2)] entries_same_index [of k e J e'] e by auto
  have target: "je_path e' \<notin> entry_scope n k e"
    using project_not_scope [OF p(2)] ne by auto
  have anc: "q \<notin> entry_scope n k e" if "q \<in> set (ancestors (je_path e'))" for q
    using project_not_scope [OF ancestor_project [OF p(2) that]] p(3) that by auto
  have backup: "backup_path (seat_path n) k' \<notin> entry_scope n k e"
    using ne p(1) seat_members_private(1) [of n k'] member_paths_differ(5) [of "je_path e" _ "seat_path n" k']
    unfolding entry_scope_def by (auto dest: sym)
  have "backup_path (seat_path n) k' \<notin> scope_dirs n k e"
    using ancestor_project [OF p(1)] seat_members_private(1)
    by (auto simp: scope_dirs_def ancestor_take backup_path_def dest: arg_cong [of _ _ length])
  then have "dir_at c (je_path e') = None" "dir_at c (backup_path (seat_path n) k') = None"
    using t s p(2,4) backup_ancestors by (auto simp: touches_def entry_state_def scope_dirs_def)
  then show ?thesis
    using entry_state_cong [OF s, of c] t target backup anc by (simp add: touches_def)
qed

lemma rolling_frame:
  assumes ok: "journal_paths_ok J" and r: "rolling sha n J m d" and e: "(k, e) \<in> entries J"
    and t: "touches n k e d c" and s: "entry_state sha (seat_path n) m c k e"
  shows "rolling sha n J m c"
proof -
  have "entry_state sha (seat_path n) m c k' e'" if "(k', e') \<in> entries J" for k' e'
    using entry_state_frame [OF ok e that _ t] r s that by (cases "(k, e) = (k', e')") (auto simp: rolling_def)
  moreover have "contents c p = contents d p" if "p \<notin> je_path ` snd ` entries J" for p
  proof (cases "project_path p")
    case True
    have "p \<noteq> je_path e" using that e by force
    then have "p \<notin> entry_scope n k e" using project_not_scope [OF True] by blast
    then show ?thesis using t by (simp add: contents_def touches_def)
  qed (simp add: contents_def)
  moreover have "holds (recorded_directories J) c" "dir_at c (seat_path n) \<noteq> None" "healthy c"
    using t r by (auto simp: rolling_def holds_def touches_def)
  ultimately show ?thesis using r by (auto simp: rolling_def)
qed

section \<open>Rolling back one operation\<close>

lemma touches_trans: "touches n k e d c \<Longrightarrow> touches n k e c b \<Longrightarrow> touches n k e d b"
  unfolding touches_def by simp metis

lemma touches_refl: "healthy d \<Longrightarrow> touches n k e d d"
  by (simp add: touches_def)

lemma touches_grown:
  "grown p d c \<Longrightarrow> p \<in> {je_path e, backup_path (seat_path n) k} \<Longrightarrow> touches n k e d c"
  by (auto simp: grown_def touches_def scope_dirs_def)

lemma touches_files:
  assumes "healthy c" "\<And>q. dir_at c q = dir_at d q" "\<And>q. q \<notin> entry_scope n k e \<Longrightarrow> dk_files c q = dk_files d q"
  shows "touches n k e d c"
  using assms by (auto simp: touches_def)

lemma touches_removed:
  assumes h: "healthy d" and p: "je_path e \<noteq> []" "dk_files d (je_path e) = Some f"
  shows "touches n k e d (removed1 (je_path e) d)" "touches n k e d (removed2 (je_path e) d)"
  using removed_facts [OF h p] by (auto intro!: touches_files simp: entry_scope_def)

lemma touches_renamed:
  assumes g: "grown dst d c" and f: "dk_files d src = Some f"
    and m: "src \<in> entry_scope n k e" "dst \<in> {je_path e, backup_path (seat_path n) k}"
    and p: "placeable c dst"
  shows "touches n k e d (advance (rename_file src dst) c)"
proof -
  have c: "touches n k e d c" using touches_grown [OF g m(2)] .
  have "healthy c" "dk_files c src = Some f" using g f by (simp_all add: grown_def)
  moreover have "dst \<in> entry_scope n k e" using m(2) by (auto simp: entry_scope_def)
  ultimately have "touches n k e c (advance (rename_file src dst) c)"
    using healthy_rename_file [OF _ p] m(1) by (intro touches_files) (auto simp: files_rename_file)
  with c show ?thesis by (rule touches_trans)
qed

lemma grown_placeable:
  assumes g: "grown p d c" and d: "dir_at c (butlast p) \<noteq> None" "p \<noteq> []" "p \<noteq> state_root" "\<not> exists_at d p"
    and a: "list_all (older (dk_clock d)) p"
  shows "placeable c p"
proof -
  have "\<not> exists_at c p"
    using g d(4) not_own_ancestor [of p] by (auto simp: grown_def exists_at_def)
  moreover have "list_all (older (Suc (dk_clock c))) p"
    using g older_list_mono [OF a] by (simp add: grown_def)
  ultimately show ?thesis using d by (simp add: placeable_def)
qed

lemma holds_expectations_for: "holds E d \<Longrightarrow> holds (expectations_for E ps) d"
  by (auto simp: holds_def expectations_for_def)

lemma holds_merged: "holds E d \<Longrightarrow> holds F d \<Longrightarrow> holds (merged E F) d"
  by (auto simp: holds_def merged_def)

lemma preimage_ctime: "is_preimage sha m e (f\<lparr>fe_ctime := t\<rparr>) = is_preimage sha m e f"
  by (simp add: is_preimage_def snapshot_matches_record_def publication_record_def cong: option.case_cong)

lemma seat_backup: "seat_path n @ backup_path [] k = backup_path (seat_path n) k"
  by (simp add: backup_path_def)

text \<open>What one operation needs of a rolling disk.\<close>

lemma rolling_entry:
  assumes ok: "journal_paths_ok J" and r: "rolling sha n J m d" and e: "(k, e) \<in> entries J"
  shows "healthy d" "project_path (je_path e)" "je_path e \<noteq> []" "je_path e \<noteq> state_root"
    and "je_backup e = backup_path [] k" "je_kind e \<noteq> Op_Check"
    and "entry_state sha (seat_path n) m d k e" "holds (recorded_directories J) d"
    and "\<forall>q \<in> set (ancestors (je_path e)). dk_files d q = None" "dir_at d (je_path e) = None"
    and "dir_at d (backup_path (seat_path n) k) = None"
proof -
  show p: "project_path (je_path e)" using ok e by (auto simp: journal_paths_ok_def)
  then show "je_path e \<noteq> []" "je_path e \<noteq> state_root" using private_not_project(2) by (auto simp: project_path_def)
  show "entry_state sha (seat_path n) m d k e" using r e by (auto simp: rolling_def)
  then show "\<forall>q \<in> set (ancestors (je_path e)). dk_files d q = None" "dir_at d (je_path e) = None"
    "dir_at d (backup_path (seat_path n) k) = None"
    by (simp_all add: entry_state_def)
qed (use ok r e in \<open>auto simp: journal_paths_ok_def rolling_def entries_def\<close>)

lemma restored_state:
  assumes p: "project_path (je_path e)" and f: "is_preimage sha m e f" "je_expected e \<noteq> None"
    and c: "dk_files c (je_path e) = Some f" "dk_files c (backup_path (seat_path n) k) = None"
    "dir_at c (je_path e) = None" "\<forall>q \<in> set (ancestors (je_path e)). dk_files c q = None"
    "dir_at c (backup_path (seat_path n) k) = None"
  shows "entry_state sha (seat_path n) m c k e" "contents c (je_path e) = m (je_path e)"
  using assms by (auto simp: entry_state_def contents_def is_preimage_def)

lemma stays_restore:
  assumes ok: "journal_paths_ok J" and r: "rolling sha n J m d" and e: "(k, e) \<in> entries J"
    and f: "dk_files d (backup_path (seat_path n) k) = Some f" and free: "dk_files d (je_path e) = None"
    and E: "holds E d"
    and I: "\<And>c. rolling sha n J m c \<Longrightarrow> touches n k e d c \<Longrightarrow> I c"
    and Q: "\<And>c x. rolling sha n J m c \<Longrightarrow> touches n k e d c \<Longrightarrow> contents c (je_path e) = m (je_path e) \<Longrightarrow> Q (Inr x) c"
  shows "stays I (promote_relative_new (backup_path (seat_path n) k) (je_path e) f E) d Q"
proof -
  let ?b = "backup_path (seat_path n) k" and ?p = "je_path e"
  note en = rolling_entry [OF ok r e]
  have pre: "is_preimage sha m e f" "je_expected e \<noteq> None" using en(7) f by (simp_all add: entry_state_def)
  have none: "\<not> exists_at d ?p" using free en(10) by (simp add: exists_at_def)
  have ne: "?b \<noteq> ?p" "?b \<noteq> []" using en(2) seat_members_private(1) by (metis, simp add: backup_path_def)
  have old: "list_all (older (dk_clock d)) ?p" using project_older [OF en(2)] .
  have grow: "rolling sha n J m c" "touches n k e d c" if g: "grown ?p d c" for c
  proof -
    show t: "touches n k e d c" using touches_grown [OF g] by simp
    have "dir_at c ?p = None" "dir_at c ?b = None"
      using g en(10,11) not_own_ancestor [of ?p] ancestor_project [OF en(2), of ?b] seat_members_private(1)
      by (auto simp: grown_def)
    then have "entry_state sha (seat_path n) m c k e"
      using entry_state_cong [OF en(7), of c] g by (simp add: grown_def)
    then show "rolling sha n J m c" using rolling_frame [OF ok r e t] by simp
  qed
  have last: "rolling sha n J m z \<and> touches n k e d z \<and> contents z ?p = m ?p"
    if g: "grown ?p d c" and dir: "dir_at c (butlast ?p) \<noteq> None" and z: "z = advance (rename_file ?b ?p) c" for c z
  proof -
    have pl: "placeable c ?p" using grown_placeable [OF g dir en(3,4) none old] .
    have t: "touches n k e d z"
      unfolding z using touches_renamed [OF g f _ _ pl] by (simp add: entry_scope_def)
    have fb: "dk_files c ?b = Some f" "dk_files c = dk_files d" using g f by (simp_all add: grown_def)
    have files: "dk_files z = (dk_files d)(?b := None, ?p \<mapsto> f\<lparr>fe_ctime := dk_clock c\<rparr>)"
      using fb by (simp add: z files_rename_file)
    have dirs: "dir_at z ?p = None" "dir_at z ?b = None"
      using pl grow(1) [OF g] rolling_entry(11) [OF ok _ e] by (simp_all add: z placeable_def exists_at_def)
    have pre1: "is_preimage sha m e (f\<lparr>fe_ctime := dk_clock c\<rparr>)" using pre(1) by (simp add: preimage_ctime)
    have anc: "\<forall>q \<in> set (ancestors ?p). dk_files z q = None"
      using files en(9) not_own_ancestor [of ?p] by auto
    have st: "entry_state sha (seat_path n) m z k e" "contents z ?p = m ?p"
      using restored_state [OF en(2) pre1 pre(2) _ _ dirs(1) anc dirs(2)] files ne(1) by simp_all
    then show ?thesis using rolling_frame [OF ok r e t] t by simp
  qed
  show ?thesis
    using en(1) E f ne(2,1) en(3) none project_growable [OF en(2)] en(9)
  proof (rule stays_promote)
    show "I c" if "grown ?p d c" for c using I grow [OF that] by blast
    show "I (advance (rename_file ?b ?p) c) \<and> Q (Inr (f\<lparr>fe_ctime := dk_clock c\<rparr>)) (advance (rename_file ?b ?p) c)"
      if "grown ?p d c" "dir_at c (butlast ?p) \<noteq> None" for c
      using last [OF that refl] I Q by blast
  qed
qed

lemma stays_remove_installed:
  assumes ok: "journal_paths_ok J" and r: "rolling sha n J m d" and e: "(k, e) \<in> entries J"
    and g: "dk_files d (je_path e) = Some g" "absent_or_staged sha d e"
    and s: "dk_files d (backup_path (seat_path n) k) \<noteq> None \<or> je_expected e = None" and E: "holds E d"
    and I: "\<And>c. rolling sha n J m c \<Longrightarrow> touches n k e d c \<Longrightarrow> I c"
    and Q: "\<And>c. rolling sha n J m c \<Longrightarrow> touches n k e d c \<Longrightarrow> dk_files c (je_path e) = None \<Longrightarrow>
      dk_files c (backup_path (seat_path n) k) = dk_files d (backup_path (seat_path n) k) \<Longrightarrow>
      (\<And>q. dir_at c q = dir_at d q) \<Longrightarrow> Q (Inr ()) c"
  shows "stays I (remove_installed sha e g E) d Q"
proof -
  let ?b = "backup_path (seat_path n) k" and ?p = "je_path e"
  note en = rolling_entry [OF ok r e] and facts = removed_facts [OF rolling_entry(1) [OF ok r e] rolling_entry(3) [OF ok r e] g(1)]
  note t = touches_removed [OF en(1,3) g(1), of n k]
  have ne: "?b \<noteq> ?p" "?b \<noteq> guard_path ?p i" "q \<in> set (ancestors ?p) \<Longrightarrow> q \<noteq> guard_path ?p i" for i q
    using en(2) seat_members_private(1) member_paths_differ(5) ancestor_project [OF en(2), of q] guard_not_project by metis+
  have st: "entry_state sha (seat_path n) m c k e"
    if "dk_files c ?p = None" "dk_files c ?b = dk_files d ?b" "\<And>q. dir_at c q = dir_at d q"
      "\<And>q. q \<in> set (ancestors ?p) \<Longrightarrow> dk_files c q = dk_files d q" for c
    using that en(7) s by (auto simp: entry_state_def absent_or_staged_def split: option.splits if_splits)
  have "?p \<noteq> guard_path ?p i" for i using en(2) guard_not_project by metis
  then have "entry_state sha (seat_path n) m (removed1 ?p d) k e" "entry_state sha (seat_path n) m (removed2 ?p d) k e"
    using facts(3-6) ne not_own_ancestor [of ?p] by (auto intro!: st)
  then have "rolling sha n J m (removed1 ?p d)" "rolling sha n J m (removed2 ?p d)"
    using rolling_frame [OF ok r e] t by blast+
  moreover have "je_kind e = Op_Write \<and> snapshot_matches_record sha g (je_staged e) (je_result e)"
    using g by (simp add: absent_or_staged_def)
  ultimately show ?thesis
    using I t Q facts(4,6) ne(1)
    by (simp add: remove_installed_def stays_simps stays_remove_published [OF en(1) E en(3) g(1)])
qed

lemma stays_rollback_entry:
  assumes ok: "journal_paths_ok J" and r: "rolling sha n J m d" and e: "(k, e) \<in> entries J"
    and i: "dir_at d (seat_path n) = Some i" "dir_at d state_root = Some root"
    and I: "\<And>c. rolling sha n J m c \<Longrightarrow> touches n k e d c \<Longrightarrow> I c"
    and Q: "\<And>c. rolling sha n J m c \<Longrightarrow> touches n k e d c \<Longrightarrow> contents c (je_path e) = m (je_path e) \<Longrightarrow> Q (Inr ()) c"
  shows "stays I (rollback_entry sha (seat_path n) (recorded_directories J)
    (seat_expectations (seat_path n) i root) e) d Q"
proof -
  let ?b = "backup_path (seat_path n) k" and ?p = "je_path e"
  let ?P = "expectations_for (recorded_directories J) [?p]"
  let ?S = "seat_expectations (seat_path n) i root"
  let ?M = "merged (expectations_for (recorded_directories J) [?b, ?p]) ?S"
  note en = rolling_entry [OF ok r e]
  have S: "holds ?S d" using seat_expectations_hold i by (simp add: seat_path_def)
  note E = holds_expectations_for [OF en(8)] and M = holds_merged [OF holds_expectations_for [OF en(8)] S]
  have b: "?b \<noteq> []" by (simp add: backup_path_def)
  note start = rollback_entry_def Let_def en(5,6) seat_backup stays_simps stays_safe_target en(9)
    stays_optional_snapshot [OF en(1) E en(3)] stays_optional_snapshot [OF en(1) M b] snapshot_result_def en(10,11)
  show ?thesis
  proof (cases "dk_files d ?b")
    case (Some f)
    then have pre: "is_preimage sha m e f" "absent_or_staged sha d e" using en(7) by (simp_all add: entry_state_def)
    have undo: "stays I (promote_relative_new ?b ?p f E') c (\<lambda>r c'. (\<exists>x. r = Inr x) \<and> Q (Inr ()) c')"
      if c: "rolling sha n J m c" "touches n k e d c" "dk_files c ?p = None" "dk_files c ?b = Some f" "holds E' c" for c E'
      using ok c(1) e c(4,3,5)
    proof (rule stays_restore)
      fix c' assume c': "rolling sha n J m c'" "touches n k e c c'"
      then have t: "touches n k e d c'" using touches_trans c(2) by blast
      then show "I c'" using I c' by blast
      assume "contents c' ?p = m ?p"
      then show "(\<exists>y. Inr x = Inr y) \<and> Q (Inr ()) c'" for x :: file_entry
        using Q [OF c'(1) t] by simp
    qed
    show ?thesis
    proof (cases "dk_files d ?p")
      case None
      show ?thesis
        using pre Some None
        by (simp add: start is_preimage_def)
           (rule stays_mono [OF undo [OF r touches_refl [OF en(1)] None Some M]], auto simp: stays_simps)
    next
      case g: (Some g)
      have "stays I (remove_installed sha e g ?P) d (\<lambda>r c. r = Inr () \<and>
          stays I (promote_relative_new ?b ?p f ?M) c (\<lambda>r c'. (\<exists>x. r = Inr x) \<and> Q (Inr ()) c'))"
      proof (rule stays_remove_installed [OF ok r e g pre(2) _ E])
        show "dk_files d ?b \<noteq> None \<or> je_expected e = None" using Some by simp
        fix c assume c: "rolling sha n J m c" "touches n k e d c"
        then show "I c" by (rule I)
        assume "dk_files c ?p = None" "dk_files c ?b = dk_files d ?b" "\<And>q. dir_at c q = dir_at d q"
        then show "(Inr () :: tx_error + unit) = Inr () \<and>
            stays I (promote_relative_new ?b ?p f ?M) c (\<lambda>r c'. (\<exists>x. r = Inr x) \<and> Q (Inr ()) c')"
          using undo [OF c, of ?M] Some M by (simp add: holds_def)
      qed
      then show ?thesis
        using pre Some g
        by (simp add: start is_preimage_def)
           (erule stays_mono, assumption,
             auto simp: stays_simps elim!: stays_mono)
    qed
  next
    case None
    show ?thesis
    proof (cases "je_expected e \<noteq> None")
      case True
      then obtain f where f: "dk_files d ?p = Some f" "is_preimage sha m e f"
        using en(7) None by (auto simp: entry_state_def)
      then have "contents d ?p = m ?p" using en(2) by (simp add: contents_def is_preimage_def)
      then show ?thesis
        using Q [OF r touches_refl [OF en(1)]] None True f by (simp add: start is_preimage_def)
    next
      case False
      then have fresh: "m ?p = None" "absent_or_staged sha d e" using en(7) None by (simp_all add: entry_state_def)
      show ?thesis
      proof (cases "dk_files d ?p")
        case n: None
        have "contents d ?p = m ?p" using fresh n by (simp add: contents_def)
        then show ?thesis
          using Q [OF r touches_refl [OF en(1)]] None False n by (simp add: start)
      next
        case (Some g)
        have "stays I (remove_installed sha e g ?P) d Q"
        proof (rule stays_remove_installed [OF ok r e Some fresh(2) _ E])
          show "dk_files d ?b \<noteq> None \<or> je_expected e = None" using False by simp
          fix c assume c: "rolling sha n J m c" "touches n k e d c"
          then show "I c" by (rule I)
          assume "dk_files c ?p = None"
          then have "contents c ?p = m ?p" using fresh by (simp add: contents_def)
          then show "Q (Inr ()) c" by (rule Q [OF c])
        qed
        then show ?thesis using None False Some by (simp add: start)
      qed
    qed
  qed
qed

section \<open>Rolling back a journal\<close>

text \<open>The journal passes the checks for its seat.\<close>

definition valid_journal :: "nat \<Rightarrow> journal \<Rightarrow> bool" where
  "valid_journal n J =
     (let allowed = [] # concat (map (ancestors \<circ> je_path) (jr_operations J))
      in jr_transaction_id J = Uuid n \<and> jr_transaction_directory J = Uuid n \<and> jr_schema J = journal_schema
       \<and> list_all journal_entry_ok (enumerate 0 (jr_operations J))
       \<and> fst ` set (jr_directories J) \<subseteq> set allowed
       \<and> (jr_state J \<noteq> Prepared \<longrightarrow> fst ` set (jr_directories J) = set allowed
            \<and> map_of (jr_directories J) [] \<notin> {None, Some None}))"

lemma stays_validate:
  assumes "valid_journal n J"
  shows "stays I (validate_journal_record (seat_path n) J) d Q = Q (Inr ()) d"
proof -
  have "last (seat_path n) = Uuid n" by (simp add: seat_path_def)
  then show ?thesis
    using assms unfolding validate_journal_record_def valid_journal_def Let_def by (simp add: stays_simps)
qed

definition same_seats :: "disk \<Rightarrow> disk \<Rightarrow> bool" where
  "same_seats d c =
     (dir_at c state_root = dir_at d state_root
      \<and> (\<forall>x. dir_at c (state_root @ [x]) = dir_at d (state_root @ [x])
             \<and> dk_files c (journal_path (state_root @ [x])) = dk_files d (journal_path (state_root @ [x]))))"

lemma same_seats_trans: "same_seats d c \<Longrightarrow> same_seats c b \<Longrightarrow> same_seats d b"
  by (simp add: same_seats_def)

lemma seat_state_root: "healthy d \<Longrightarrow> dir_at d (state_root @ [x]) \<noteq> None \<Longrightarrow> dir_at d state_root \<noteq> None"
  using healthy_parent [of d "state_root @ [x]"] by (simp add: exists_at_def)

lemma touches_same_seats:
  assumes h: "healthy d" and s: "dir_at d (seat_path n) \<noteq> None" and t: "touches n k e d c" and p: "project_path (je_path e)"
  shows "same_seats d c"
proof -
  have root: "dir_at d state_root \<noteq> None" using seat_state_root [OF h, of "Uuid n"] s by (simp add: seat_path_def)
  have keep: "dir_at d q \<noteq> None \<Longrightarrow> dir_at c q = dir_at d q" for q using t by (auto simp: touches_def)
  have "dir_at c (state_root @ [x]) = dir_at d (state_root @ [x])" for x
  proof (cases "state_root @ [x] \<in> scope_dirs n k e")
    case True
    then have "state_root @ [x] \<in> set (ancestors (backup_path (seat_path n) k))"
      using ancestor_project [OF p, of "state_root @ [x]"] by (auto simp: scope_dirs_def)
    then have "state_root @ [x] = seat_path n"
      by (auto simp: ancestor_take backup_path_def seat_path_def state_root_def take_Cons' split: if_splits)
    then show ?thesis using keep s by simp
  next
    case False
    then show ?thesis using t by (cases "dir_at d (state_root @ [x])") (auto simp: touches_def)
  qed
  moreover have "journal_path (state_root @ [x]) \<notin> entry_scope n k e" for x
    using p seat_members_private(4) [of x] guard_no_journal [of "state_root @ [x]" "je_path e"]
    unfolding entry_scope_def by (auto dest: sym)
  ultimately show ?thesis using t keep root by (simp add: same_seats_def touches_def)
qed

lemma stays_rollback_record:
  assumes ok: "journal_paths_ok J" and v: "valid_journal n J" "jr_state J = Applying" and r: "rolling sha n J m d"
    and i: "dir_at d (seat_path n) = Some i" "dir_at d state_root = Some root"
    and I: "\<And>c. rolling sha n J m c \<Longrightarrow> same_seats d c \<Longrightarrow> I c"
    and Q: "\<And>c. rolling sha n J m c \<Longrightarrow> same_seats d c \<Longrightarrow> contents c = m \<Longrightarrow> Q (Inr ()) c"
  shows "stays I (rollback_record sha (seat_path n) i root J) d Q"
proof -
  let ?f = "rollback_entry sha (seat_path n) (recorded_directories J) (seat_expectations (seat_path n) i root)"
  define K where "K = (\<lambda>(gone :: journal_entry list) (rest :: journal_entry list) c. rolling sha n J m c \<and> same_seats d c
    \<and> (\<forall>(k, e) \<in> entries J. e \<in> set gone \<longrightarrow> contents c (je_path e) = m (je_path e)))"
  have "stays I (each ?f (rev (jr_operations J))) d (\<lambda>r c. r = Inr () \<and> K (rev (jr_operations J)) [] c)"
  proof (rule stays_each)
    show "K [] (rev (jr_operations J)) d" using r by (simp add: K_def same_seats_def)
    fix gone e rest c
    assume l: "rev (jr_operations J) = gone @ e # rest" and k: "K gone (e # rest) c"
    show "stays I (?f e) c (\<lambda>r c'. r = Inr () \<and> K (gone @ [e]) rest c')"
    proof (cases "je_kind e = Op_Check")
      case True
      then show ?thesis using k by (auto simp: rollback_entry_def stays_simps K_def entries_def)
    next
      case False
      have "e \<in> set (jr_operations J)" using arg_cong [OF l, of set] by simp
      then obtain j where "j < length (jr_operations J)" "e = jr_operations J ! j" by (metis in_set_conv_nth)
      then have j: "(j, e) \<in> entries J" using False by (simp add: entries_def in_set_enumerate_eq)
      have rc: "rolling sha n J m c" and sc: "same_seats d c" using k by (auto simp: K_def)
      have ic: "dir_at c (seat_path n) = Some i" "dir_at c state_root = Some root"
        using sc i by (simp_all add: same_seats_def seat_path_def)
      note en = rolling_entry [OF ok rc j]
      have seats: "same_seats d c'" if "touches n j e c c'" for c'
        using same_seats_trans [OF sc touches_same_seats [OF en(1) _ that en(2)]] ic by simp
      show ?thesis
      proof (rule stays_rollback_entry [OF ok rc j ic])
        fix c' assume c': "rolling sha n J m c'" "touches n j e c c'"
        then show "I c'" using I seats by blast
        assume fix_e: "contents c' (je_path e) = m (je_path e)"
        have "contents c' (je_path e') = m (je_path e')" if e': "(k', e') \<in> entries J" "e' \<in> set (gone @ [e])" for k' e'
        proof (cases "je_path e' = je_path e")
          case False
          then have "e' \<in> set gone" using e' by auto
          then have "contents c (je_path e') = m (je_path e')" using k e' by (auto simp: K_def)
          moreover have "je_path e' \<notin> entry_scope n j e"
            using project_not_scope [OF rolling_entry(2) [OF ok rc e'(1)]] False by blast
          then have "contents c' (je_path e') = contents c (je_path e')"
            using c'(2) by (simp add: touches_def contents_def)
          ultimately show ?thesis by simp
        qed (simp add: fix_e)
        then show "(Inr () :: tx_error + unit) = Inr () \<and> K (gone @ [e]) rest c'"
          using c' seats by (auto simp: K_def)
      qed
    qed
  qed
  moreover have "contents c = m" if "K (rev (jr_operations J)) [] c" for c
  proof
    fix p
    show "contents c p = m p"
    proof (cases "p \<in> je_path ` snd ` entries J")
      case True
      then obtain k e where e: "(k, e) \<in> entries J" "p = je_path e" by auto
      then have "e \<in> set (jr_operations J)" by (auto simp: entries_def in_set_enumerate_eq)
      then show ?thesis using that e by (auto simp: K_def)
    next
      case False
      then show ?thesis using that by (simp add: K_def rolling_def)
    qed
  qed
  ultimately have "stays I (each ?f (rev (jr_operations J))) d Q"
    using Q by (elim stays_mono) (auto simp: K_def)
  then show ?thesis using v by (simp add: rollback_record_def stays_simps stays_validate)
qed

section \<open>Recovering the seats\<close>

lemma state_root_pair: "length p = 2 \<and> hd p = hd state_root \<longleftrightarrow> (\<exists>x. p = state_root @ [x])"
  by (cases p; cases "tl p") (auto simp: state_root_def)

lemma seat_names_member: "x \<in> set (seat_names d) \<longleftrightarrow> dir_at d (state_root @ [x]) \<noteq> None"
proof -
  have "x \<in> set (seat_names d) \<longleftrightarrow> (\<exists>p \<in> fst ` set (dk_dirs d). p = state_root @ [x])"
    unfolding seat_names_def state_root_pair set_sort by (auto simp: image_iff) force+
  then show ?thesis by (simp add: dir_at_def map_of_eq_None_iff)
qed

text \<open>No journal asks for a rollback.\<close>

definition quiet_journal :: "name \<Rightarrow> file_entry \<Rightarrow> bool" where
  "quiet_journal x f =
     (case (x, fe_content f) of
        (Uuid n, Journal J) \<Rightarrow> valid_journal n J \<and> jr_state J \<noteq> Applying
      | _ \<Rightarrow> False)"

definition settled :: "(path \<Rightarrow> content option) \<Rightarrow> disk \<Rightarrow> bool" where
  "settled m d =
     (healthy d \<and> contents d = m
      \<and> (\<forall>x f. dk_files d (journal_path (state_root @ [x])) = Some f \<longrightarrow> quiet_journal x f))"

text \<open>The one seat there is asks for a rollback to \<open>m\<close>.\<close>

definition interrupted_at ::
    "(content \<Rightarrow> string) \<Rightarrow> nat \<Rightarrow> journal \<Rightarrow> (path \<Rightarrow> content option) \<Rightarrow> disk \<Rightarrow> bool" where
  "interrupted_at sha n J m d =
     (rolling sha n J m d \<and> journal_paths_ok J \<and> valid_journal n J \<and> jr_state J = Applying
      \<and> (\<exists>f. dk_files d (journal_path (seat_path n)) = Some f \<and> fe_content f = Journal J)
      \<and> (\<forall>x. dir_at d (state_root @ [x]) \<noteq> None \<longrightarrow> x = Uuid n))"

definition recoverable :: "(content \<Rightarrow> string) \<Rightarrow> (path \<Rightarrow> content option) \<Rightarrow> disk \<Rightarrow> bool" where
  "recoverable sha m d = (settled m d \<or> (\<exists>n J. interrupted_at sha n J m d))"

text \<open>The first directory of the state root is one that recovery refuses to look into.\<close>

definition stuck :: "disk \<Rightarrow> bool" where
  "stuck d =
     (dir_at d state_root \<noteq> None
      \<and> (case seat_names d of [] \<Rightarrow> False | x # _ \<Rightarrow> \<not> is_transaction_id x))"

text \<open>A dotted name comes before every identifier, so a dotted directory is enough.\<close>

lemma hex_digits_after_dot: "c \<in> set ''0123456789abcdef'' \<Longrightarrow> CHR ''.'' < c"
  by (auto simp: less_char_def)

lemma numeral_digits_hex:
  assumes "0 < radix" "radix \<le> 16"
  shows "length (numeral_digits radix k n) = k"
    and "list_all (\<lambda>c. c \<in> set ''0123456789abcdef'') (numeral_digits radix k n)"
proof (induction k arbitrary: n)
  case (Suc k)
  have d: "''0123456789abcdef'' ! (j mod radix) \<in> set ''0123456789abcdef''" for j
  proof (rule nth_mem)
    have "j mod radix < 16" using assms mod_less_divisor [of radix j] by linarith
    then show "j mod radix < length ''0123456789abcdef''" by simp
  qed
  case 1 show ?case using Suc by simp
  case 2 show ?case
    using Suc(2) d by (simp only: numeral_digits.simps list_all_append list.pred_inject simp_thms)
qed simp_all

lemma uuid_is_transaction_id [simp]: "is_transaction_id (Uuid n)"
  using numeral_digits_hex [of 16 32 n] by (simp add: is_transaction_id_def uuid_hex_def)

lemma dotted_is_no_id:
  assumes "spelled x = CHR ''.'' # s"
  shows "\<not> is_transaction_id x"
  using assms by (simp add: is_transaction_id_def)

lemma stuck_dotted:
  assumes x: "dir_at d (state_root @ [x]) \<noteq> None" "spelled x = CHR ''.'' # s"
    and r: "dir_at d state_root \<noteq> None"
  shows "stuck d"
proof -
  have m: "x \<in> set (seat_names d)" using x(1) seat_names_member by blast
  then obtain y ys where ys: "seat_names d = y # ys" by (cases "seat_names d") auto
  have "sorted (map spelled (seat_names d))" unfolding seat_names_def by (rule sorted_sort_key)
  then have le: "spelled y \<le> spelled x" using m ys by auto
  have "\<not> is_transaction_id y"
  proof
    assume y: "is_transaction_id y"
    then obtain c cs where c: "spelled y = c # cs" "c \<in> set ''0123456789abcdef''"
      by (cases "spelled y") (auto simp: is_transaction_id_def)
    from hex_digits_after_dot [OF c(2)] le c(1) x(2) show False by auto
  qed
  then show ?thesis using ys r by (simp add: stuck_def)
qed

text \<open>What a crash may leave behind.\<close>

definition survives :: "(content \<Rightarrow> string) \<Rightarrow> (path \<Rightarrow> content option) \<Rightarrow> disk \<Rightarrow> bool" where
  "survives sha m d = (recoverable sha m d \<or> (stuck d \<and> contents d = m))"

lemma contents_outside:
  "(\<And>q. \<not> is_below state_root q \<Longrightarrow> dk_files c q = dk_files d q) \<Longrightarrow> contents c = contents d"
  by (rule ext) (auto simp: contents_def project_path_def)

lemma dropping_contents: "dropping d c \<Longrightarrow> contents c = contents d"
  by (rule contents_outside) (simp add: dropping_def)

lemma dropping_settled:
  assumes s: "settled m d" and c: "dropping d c"
  shows "settled m c"
proof -
  have "dk_files d (journal_path (state_root @ [x])) = Some f" if "dk_files c (journal_path (state_root @ [x])) = Some f" for x f
    using c that by (auto simp: dropping_def dest: spec [of _ x])
  then show ?thesis using s c dropping_contents [OF c] by (simp add: settled_def dropping_def)
qed

lemma stranded_survives:
  assumes "stranded d c" "contents d = m" "dir_at d state_root \<noteq> None"
  shows "survives sha m c"
proof -
  obtain x k where "dir_at c (state_root @ [Final x k]) \<noteq> None" "dir_at c state_root \<noteq> None"
    using assms(1,3) by (auto simp: stranded_def)
  then have "stuck c" using stuck_dotted [of c "Final x k"] by auto
  moreover have "contents c = m" using contents_outside [of c d] assms by (simp add: stranded_def)
  ultimately show ?thesis by (simp add: survives_def)
qed

lemma recoverable_healthy: "recoverable sha m d \<Longrightarrow> healthy d"
  by (auto simp: recoverable_def settled_def interrupted_at_def rolling_def)

lemma journal_digest:
  assumes h: "healthy d" and i: "dir_at d (state_root @ [x]) = Some i" "dir_at d state_root = Some root"
  shows "stays I (read_journal (state_root @ [x]) i root) d Q =
    (case dk_files d (journal_path (state_root @ [x])) of None \<Rightarrow> Q (Inr None) d
     | Some f \<Rightarrow> (case fe_content f of Journal J \<Rightarrow> Q (Inr (Some (J, f))) d
                  | Data _ \<Rightarrow> Q (Inl (TransactionError ''cannot read transaction journal'')) d))"
proof -
  let ?jp = "journal_path (state_root @ [x])"
  have E: "holds (seat_expectations (state_root @ [x]) i root) d" using seat_expectations_hold i by simp
  have b: "butlast ?jp = state_root @ [x]" by (simp add: journal_path_def butlast_append)
  have "dir_at d ?jp = None" using healthy_journal_file [OF h] .
  then show ?thesis
    using i b by (simp add: read_journal_def digest_relative_file_def stays_simps hold_root_held [OF h E]
        parent_chain_held [OF h _ E] require_directory_identity_def exists_at_def split: option.split content.split)
qed

lemma journal_seat:
  assumes h: "healthy d" and f: "dk_files d (journal_path (state_root @ [x])) = Some f"
  shows "dir_at d (state_root @ [x]) \<noteq> None"
proof -
  have "butlast (journal_path (state_root @ [x])) = state_root @ [x]" "journal_path (state_root @ [x]) \<noteq> []"
    by (simp_all add: journal_path_def butlast_append)
  then show ?thesis using healthy_parent [OF h, of "journal_path (state_root @ [x])"] f by (simp add: exists_at_def)
qed

lemma interrupted_same_seats:
  assumes i: "interrupted_at sha n J m d" and r: "rolling sha n J m c" and s: "same_seats d c"
  shows "interrupted_at sha n J m c"
  using assms unfolding interrupted_at_def by (simp add: same_seats_def seat_path_def)

lemma rolled_back_settled:
  assumes i: "interrupted_at sha n J m d" and m: "contents d = m" and c: "dropping d c"
    and j: "dk_files c (journal_path (seat_path n)) = None"
  shows "settled m c"
proof -
  have h: "healthy c" "healthy d" using c i by (simp_all add: dropping_def interrupted_at_def rolling_def)
  have "dk_files c (journal_path (state_root @ [x])) = None" for x
  proof (cases "x = Uuid n")
    case True
    then show ?thesis using j by (simp add: seat_path_def)
  next
    case False
    then have "dk_files d (journal_path (state_root @ [x])) = None"
      using i journal_seat [OF h(2), of x] unfolding interrupted_at_def by (metis option.exhaust)
    then show ?thesis using c unfolding dropping_def by (metis insertE singletonD)
  qed
  then show ?thesis using h m dropping_contents [OF c] by (simp add: settled_def)
qed

lemma stays_recover_seat:
  assumes r: "recoverable sha m d" and i: "dir_at d (state_root @ [Uuid n]) = Some i" "dir_at d state_root = Some root"
    and I: "\<And>c. survives sha m c \<Longrightarrow> I c"
    and Q: "\<And>c. settled m c \<Longrightarrow> dir_at c state_root = Some root \<Longrightarrow>
      (\<And>x. dir_at c (state_root @ [x]) = (if x = Uuid n then None else dir_at d (state_root @ [x]))) \<Longrightarrow> Q (Inr (Uuid n)) c"
  shows "stays I (recover_seat sha root (Uuid n)) d Q"
proof -
  let ?s = "state_root @ [Uuid n]" and ?jp = "journal_path (state_root @ [Uuid n])"
  have h: "healthy d" using recoverable_healthy [OF r] .
  have id: "is_transaction_id (Uuid n)" by simp
  note start = recover_seat_def Let_def id stays_simps i journal_digest [OF h i]
  have root: "dir_at c state_root = Some root" if "dropping d c" for c using that i by (simp add: dropping_def)
  show ?thesis
  proof (cases "settled m d")
    case s: True
    have keep: "survives sha m c" "settled m c" if "dropping d c" for c
      using dropping_settled [OF s that] by (simp_all add: survives_def recoverable_def)
    have lost: "survives sha m c" if "stranded d c" for c
      using stranded_survives [OF that] s i by (simp add: settled_def)
    have drop: "stays I (remove_transaction_directory ?s i root (dk_files d ?jp)) d
        (\<lambda>r c. r = Inr () \<and> Q (Inr (Uuid n)) c)"
      using h i refl by (rule stays_remove_seat) (use I keep lost Q root in \<open>auto simp: i\<close>)
    show ?thesis
    proof (cases "dk_files d ?jp")
      case None
      show ?thesis using drop None by (simp add: start) (elim stays_mono, auto simp: stays_simps)
    next
      case (Some f)
      then have "quiet_journal (Uuid n) f" using s by (simp add: settled_def)
      then obtain J where J: "fe_content f = Journal J" "valid_journal n J" "jr_state J \<noteq> Applying"
        by (auto simp: quiet_journal_def split: content.splits)
      note v = stays_validate [OF J(2), unfolded seat_path_def]
      have "jr_state J = Prepared \<or> jr_state J = Committed" using J(3) by (cases "jr_state J") auto
      then show ?thesis
        using drop Some J(1) by (auto simp: start v rollback_record_def elim!: stays_mono)
    qed
  next
    case False
    then obtain n' J where it: "interrupted_at sha n' J m d" using r by (auto simp: recoverable_def)
    have n: "n' = n" using it i by (auto simp: interrupted_at_def)
    have J: "rolling sha n J m d" "journal_paths_ok J" "valid_journal n J" "jr_state J = Applying"
      using it n by (simp_all add: interrupted_at_def)
    obtain f where f: "dk_files d ?jp = Some f" "fe_content f = Journal J"
      using it n by (auto simp: interrupted_at_def seat_path_def)
    have surv: "survives sha m c" if "rolling sha n J m c" "same_seats d c" for c
      using interrupted_same_seats [OF it [unfolded n] that] by (auto simp: survives_def recoverable_def)
    have "stays I (rollback_record sha (seat_path n) i root J) d (\<lambda>r c. r = Inr () \<and>
        stays I (remove_transaction_directory ?s i root (Some f)) c (\<lambda>r c. r = Inr () \<and> Q (Inr (Uuid n)) c))"
    proof (rule stays_rollback_record [OF J(2-4,1)])
      show "dir_at d (seat_path n) = Some i" "dir_at d state_root = Some root" using i by (simp_all add: seat_path_def)
      fix c assume c: "rolling sha n J m c" "same_seats d c"
      then show "I c" using I surv by blast
      assume m: "contents c = m"
      have hc: "healthy c" using c(1) by (simp add: rolling_def)
      have ic: "interrupted_at sha n J m c" using interrupted_same_seats [OF it [unfolded n] c] .
      have ci: "dir_at c ?s = Some i" "dir_at c state_root = Some root" "dk_files c ?jp = Some f"
        using c(2) i f by (simp_all add: same_seats_def)
      have "stays I (remove_transaction_directory ?s i root (Some f)) c (\<lambda>r c. r = Inr () \<and> Q (Inr (Uuid n)) c)"
        using hc ci
      proof (rule stays_remove_seat)
        fix c' assume d: "dropping c c'" "dk_files c' ?jp = None"
        then have "settled m c'" using rolled_back_settled [OF ic m d(1)] by (simp add: seat_path_def)
        then show "I c'" using I by (simp add: survives_def recoverable_def)
      next
        fix c' assume "stranded c c'"
        then show "I c'" using I stranded_survives m ci by blast
      next
        fix c' assume d: "dropping c c'"
          and x: "\<And>x. dir_at c' (state_root @ [x]) = (if x = Uuid n then None else dir_at c (state_root @ [x]))"
        have "dk_files c' ?jp = None"
          using x [of "Uuid n"] d journal_seat [of c' "Uuid n"] by (cases "dk_files c' ?jp") (auto simp: dropping_def)
        then have "settled m c'" using rolled_back_settled [OF ic m d] by (simp add: seat_path_def)
        moreover have "dir_at c' state_root = Some root" using d ci by (simp add: dropping_def)
        ultimately show "(Inr () :: tx_error + unit) = Inr () \<and> Q (Inr (Uuid n)) c'"
          using Q x c(2) by (simp add: same_seats_def)
      qed
      then show "(Inr () :: tx_error + unit) = Inr () \<and>
        stays I (remove_transaction_directory ?s i root (Some f)) c (\<lambda>r c. r = Inr () \<and> Q (Inr (Uuid n)) c)" by simp
    qed
    then show ?thesis
      using f J(4) by (simp add: start stays_validate [OF J(3), unfolded seat_path_def] seat_path_def)
        (elim stays_mono, auto simp: stays_simps elim!: stays_mono)
  qed
qed

section \<open>The whole recovery\<close>

lemma seat_names_distinct:
  assumes "healthy d"
  shows "distinct (seat_names d)"
proof -
  let ?ps = "filter (\<lambda>p. \<exists>x. p = state_root @ [x]) (map fst (dk_dirs d))"
  have "inj_on last (set ?ps)" by (rule inj_onI) auto
  then have "distinct (map last ?ps)" using healthy_distinct [OF assms] by (simp add: distinct_map)
  then show ?thesis unfolding seat_names_def state_root_pair by simp
qed

lemma stays_recover_seats:
  assumes "recoverable sha m d" "dir_at d state_root = Some root" "distinct xs"
    and "\<forall>x \<in> set xs. dir_at d (state_root @ [x]) \<noteq> None"
    and I: "\<And>c. survives sha m c \<Longrightarrow> I c"
    and Q: "\<And>c. recoverable sha m c \<Longrightarrow> dir_at c state_root = Some root \<Longrightarrow>
      (\<And>x. dir_at c (state_root @ [x]) = (if x \<in> set xs then None else dir_at d (state_root @ [x]))) \<Longrightarrow> Q (Inr xs) c"
  shows "stays I (collect (recover_seat sha root) xs) d Q"
  using assms(1-4) Q
proof (induction xs arbitrary: d Q)
  case Nil
  then show ?case by (simp add: stays_simps)
next
  case (Cons x xs)
  obtain n where x: "x = Uuid n" using healthy_seat [OF recoverable_healthy [OF Cons.prems(1)]] Cons.prems(4) by auto
  obtain i where i: "dir_at d (state_root @ [Uuid n]) = Some i" using Cons.prems(4) x by auto
  have "stays I (recover_seat sha root (Uuid n)) d (\<lambda>r c. r = Inr (Uuid n) \<and>
      stays I (collect (recover_seat sha root) xs) c (\<lambda>r c. r = Inr xs \<and> Q (Inr (x # xs)) c))"
  proof (rule stays_recover_seat [OF Cons.prems(1) i Cons.prems(2)])
    show "I c" if "survives sha m c" for c using I that .
    fix c assume c: "settled m c" "dir_at c state_root = Some root"
      "\<And>y. dir_at c (state_root @ [y]) = (if y = Uuid n then None else dir_at d (state_root @ [y]))"
    have "stays I (collect (recover_seat sha root) xs) c (\<lambda>r c. r = Inr xs \<and> Q (Inr (x # xs)) c)"
    proof (rule Cons.IH)
      show "recoverable sha m c" using c by (simp add: recoverable_def)
      show "\<forall>x \<in> set xs. dir_at c (state_root @ [x]) \<noteq> None" using c(3) Cons.prems(3,4) x by auto
      fix b assume b: "recoverable sha m b" "dir_at b state_root = Some root"
        "\<And>y. dir_at b (state_root @ [y]) = (if y \<in> set xs then None else dir_at c (state_root @ [y]))"
      have "dir_at b (state_root @ [y]) = (if y \<in> set (x # xs) then None else dir_at d (state_root @ [y]))" for y
        using b(3) c(3) x by simp
      then show "(Inr xs :: tx_error + name list) = Inr xs \<and> Q (Inr (x # xs)) b" using Cons.prems(5) [OF b(1,2)] by simp
    qed (use c Cons.prems in simp_all)
    then show "(Inr (Uuid n) :: tx_error + name) = Inr (Uuid n) \<and>
        stays I (collect (recover_seat sha root) xs) c (\<lambda>r c. r = Inr xs \<and> Q (Inr (x # xs)) c)" by simp
  qed
  then show ?case by (simp add: stays_simps x) (elim stays_mono, auto simp: stays_simps x elim!: stays_mono)
qed

definition no_seats :: "disk \<Rightarrow> bool" where
  "no_seats d = (\<forall>x. dir_at d (state_root @ [x]) = None)"

lemma no_seats_settled: "recoverable sha m d \<Longrightarrow> no_seats d \<Longrightarrow> settled m d"
  by (auto simp: recoverable_def interrupted_at_def rolling_def no_seats_def seat_path_def)

lemma stays_recover_locked:
  assumes r: "recoverable sha m d" and root: "dir_at d state_root = Some root"
    and I: "\<And>c. survives sha m c \<Longrightarrow> I c"
    and Q: "\<And>c ns. settled m c \<Longrightarrow> no_seats c \<Longrightarrow> dir_at c state_root = Some root \<Longrightarrow> Q (Inr ns) c"
  shows "stays I (recover_locked sha root) d Q"
proof -
  have "stays I (collect (recover_seat sha root) (seat_names d)) d Q"
  proof (rule stays_recover_seats [OF r root seat_names_distinct [OF recoverable_healthy [OF r]] _ I])
    show "\<forall>x \<in> set (seat_names d). dir_at d (state_root @ [x]) \<noteq> None" using seat_names_member by blast
    fix c assume c: "recoverable sha m c" "dir_at c state_root = Some root"
      "\<And>x. dir_at c (state_root @ [x]) = (if x \<in> set (seat_names d) then None else dir_at d (state_root @ [x]))"
    then have "no_seats c" using seat_names_member [of _ d] by (auto simp: no_seats_def)
    then show "Q (Inr (seat_names d)) c" using Q no_seats_settled c by blast
  qed
  then show ?thesis
    using root by (simp add: recover_locked_def require_directory_identity_def stays_simps)
qed

lemma settled_mkdir_root:
  assumes s: "settled m d" and f: "dir_at d state_root = None"
  shows "settled m (advance (mkdir state_root) d)"
proof -
  have h: "healthy d" using s by (simp add: settled_def)
  have "\<not> exists_at d state_root" using f healthy_root_file [OF h] by (simp add: exists_at_def)
  moreover have "seat_dir state_root" by (simp add: seat_dir_def journal_path_def)
  ultimately have "healthy (advance (mkdir state_root) d)"
    using healthy_root [OF h] by (intro healthy_mkdir [OF h]) (simp_all add: state_root_def)
  moreover have "contents (advance (mkdir state_root) d) = contents d" by (rule contents_outside) simp
  ultimately show ?thesis using s by (simp add: settled_def)
qed

lemma stays_prepare_state_root:
  assumes r: "recoverable sha m d" and I: "\<And>c. survives sha m c \<Longrightarrow> I c"
    and Q: "\<And>c root. recoverable sha m c \<Longrightarrow> dir_at c state_root = Some root \<Longrightarrow> Q (Inr root) c"
  shows "stays I prepare_state_root d Q"
proof (cases "dir_at d state_root")
  case (Some root)
  then show ?thesis using Q [OF r Some] by (simp add: prepare_state_root_def stays_simps exists_at_def)
next
  case None
  have h: "healthy d" using recoverable_healthy [OF r] .
  have "no_seats d" using None seat_state_root [OF h] unfolding no_seats_def by metis
  then have s: "settled m d" using no_seats_settled [OF r] by simp
  let ?c = "advance (mkdir state_root) d"
  have "recoverable sha m ?c" using settled_mkdir_root [OF s None] by (simp add: recoverable_def)
  moreover have "dir_at ?c state_root = Some (dk_clock d)" using None by (simp add: dir_at_mkdir)
  moreover have "\<not> exists_at d state_root" "butlast state_root = []" "dk_files d state_root = None"
    using None healthy_root_file [OF h] by (simp_all add: exists_at_def state_root_def)
  ultimately show ?thesis
    using None I [of ?c] Q [of ?c] healthy_root [OF h]
    by (auto simp: prepare_state_root_def create_directory_in_exact_parent_def stays_simps survives_def)
qed

lemma stays_recover:
  assumes r: "recoverable sha m d"
  shows "stays (survives sha m) (recover sha) d (\<lambda>r c. (\<exists>ns. r = Inr ns) \<and> settled m c \<and> no_seats c)"
  unfolding recover_def stays_simps
  by (rule stays_prepare_state_root [OF r], assumption)
     (auto intro: stays_recover_locked)

text \<open>A stuck disk stays as it is, and recovery fails.\<close>

lemma recover_locked_stuck:
  assumes s: "stuck d" and root: "dir_at d state_root = Some root"
  shows "recover_locked sha root d = (Inl (TransactionError ''invalid transaction seat''), d, [])"
proof -
  obtain y ys where ys: "seat_names d = y # ys" "\<not> is_transaction_id y"
    using s by (auto simp: stuck_def split: list.splits)
  then show ?thesis
    using root by (simp add: recover_locked_def require_directory_identity_def
        recover_seat_def Let_def andthen_def look_def demand_def yields_def raises_def)
qed

lemma recover_stuck:
  assumes "stuck d"
  shows "recover sha d = (Inl (TransactionError ''invalid transaction seat''), d, [])"
proof -
  obtain root where root: "dir_at d state_root = Some root" using assms by (auto simp: stuck_def)
  show ?thesis
    using root recover_locked_stuck [OF assms root, of sha]
    by (simp add: recover_def prepare_state_root_def andthen_def look_def yields_def exists_at_def)
qed

end
