(* ===== verification/Transaction_Commit.thy ===== *)
theory Transaction_Commit
  imports Transaction_Recovery
begin

text \<open>
  A commit is atomic under crashes: each disk it passes through is one from which recovery
  restores the project as it was before the commit or as the commit makes it, unless the crash
  strands the emptied seat under its last name.
\<close>

section \<open>Operations and what they make of a project\<close>

text \<open>What staging promises of an operation.\<close>

definition operation_ok :: "(content \<Rightarrow> string) \<Rightarrow> operation \<Rightarrow> bool" where
  "operation_ok sha op =
     (op_path op \<noteq> [] \<and> hd (op_path op) \<noteq> hd state_root
      \<and> (case op_expected op of None \<Rightarrow> True | Some h \<Rightarrow> is_hex_digest h)
      \<and> op_result op = map_option (\<lambda>bs. sha (Data bs)) (op_data op)
      \<and> (op_kind op = Op_Write) = (op_data op \<noteq> None))"

definition operations_ok :: "(content \<Rightarrow> string) \<Rightarrow> operation list \<Rightarrow> bool" where
  "operations_ok sha ops = (distinct (map op_path ops) \<and> list_all (operation_ok sha) ops)"

text \<open>What it does not promise: plain names, and no path inside another.\<close>

definition plain_paths :: "operation list \<Rightarrow> bool" where
  "plain_paths ops =
     (list_all (\<lambda>op. list_all is_name (op_path op)) ops
      \<and> list_all (\<lambda>op. list_all (\<lambda>op'. op_path op \<notin> set (ancestors (op_path op'))) ops) ops)"

fun apply_to_contents :: "operation \<Rightarrow> (path \<Rightarrow> content option) \<Rightarrow> path \<Rightarrow> content option" where
  "apply_to_contents op m =
     (case op_kind op of Op_Write \<Rightarrow> m(op_path op := map_option Data (op_data op))
      | Op_Delete \<Rightarrow> m(op_path op := None) | Op_Check \<Rightarrow> m)"

definition committed_contents :: "operation list \<Rightarrow> (path \<Rightarrow> content option) \<Rightarrow> path \<Rightarrow> content option" where
  "committed_contents ops m = fold apply_to_contents ops m"

lemma tx_add_ok:
  assumes "operations_ok sha (ct_operations tx)" "tx_add kind p data expected sha tx = Inr tx'"
    and "(kind = Op_Write) = (data \<noteq> None)"
  shows "operations_ok sha (ct_operations tx')"
  using assms
  by (auto simp: tx_add_def Let_def operations_ok_def operation_ok_def split: if_splits option.splits)

section \<open>Loops that return\<close>

lemma stays_collect:
  assumes "K [] [] xs d" and step: "\<And>gone ys x rest c. xs = gone @ x # rest \<Longrightarrow> K gone ys (x # rest) c \<Longrightarrow>
      stays I (f x) c (\<lambda>r c'. \<exists>y. r = Inr y \<and> K (gone @ [x]) (ys @ [y]) rest c')"
  shows "stays I (collect f xs) d (\<lambda>r c. \<exists>ys. r = Inr ys \<and> K xs ys [] c)"
proof -
  have "stays I (collect f rest) c (\<lambda>r c'. \<exists>zs. r = Inr zs \<and> K xs (ys @ zs) [] c')"
    if "xs = gone @ rest" "K gone ys rest c" for gone ys rest c
    using that
  proof (induction rest arbitrary: gone ys c)
    case Nil
    then show ?case by (simp add: stays_simps)
  next
    case (Cons x rest)
    have next_step: "stays I (collect f rest) c' (\<lambda>r c'. \<exists>zs. r = Inr zs \<and> K xs ((ys @ [y]) @ zs) [] c')"
      if "K (gone @ [x]) (ys @ [y]) rest c'" for c' y
      using Cons.IH [OF _ that] Cons.prems(1) by simp
    have "stays I (f x) c (\<lambda>r c'. \<exists>y. r = Inr y \<and>
        stays I (collect f rest) c' (\<lambda>r c'. \<exists>zs. r = Inr zs \<and> K xs ((ys @ [y]) @ zs) [] c'))"
      by (rule stays_mono [OF step [OF Cons.prems]]) (use next_step in blast)+
    then show ?case by (simp add: stays_simps) (elim stays_mono, auto simp: stays_simps elim!: stays_mono)
  qed
  from this [of "[]" xs "[]" d] assms(1) show ?thesis by simp
qed

section \<open>Publishing a new private file\<close>

definition publishes :: "path \<Rightarrow> disk \<Rightarrow> disk \<Rightarrow> bool" where
  "publishes p d c =
     (healthy c \<and> dk_clock d \<le> dk_clock c
      \<and> (\<forall>q. q \<noteq> p \<and> (\<forall>i. q \<noteq> temporary_path p i) \<longrightarrow> dk_files c q = dk_files d q)
      \<and> (\<forall>q i. dir_at d q = Some i \<longrightarrow> dir_at c q = Some i)
      \<and> (\<forall>q. dir_at c q \<noteq> None \<longrightarrow> dir_at d q \<noteq> None \<or> q \<in> set (ancestors p)))"

lemma publishes_grown: "grown p d c \<Longrightarrow> publishes p d c"
  by (simp add: grown_def publishes_def)

lemma publishes_step:
  assumes "publishes p d c" "healthy (advance f c)" "\<And>q. dir_at (f c) q = dir_at c q"
    "\<And>q. q \<noteq> p \<Longrightarrow> (\<forall>i. q \<noteq> temporary_path p i) \<Longrightarrow> dk_files (f c) q = dk_files c q"
  shows "publishes p d (advance f c)"
  using assms by (simp add: publishes_def)

lemma temporary_differs: "temporary_path p i \<noteq> p \<or> p = []"
proof -
  have "Temporary x i \<noteq> x" for x by (induction x) auto
  then show ?thesis unfolding temporary_path_def by (metis append_butlast_last_id last_snoc)
qed

lemma stays_publish_new:
  assumes h: "healthy d" and E: "holds E d" and p: "p \<noteq> []" "p \<noteq> state_root" "\<not> exists_at d p" "growable d p"
    "\<forall>q \<in> set (ancestors p). dk_files d q = None"
    and I: "\<And>c. publishes p d c \<Longrightarrow> I c"
    and Q: "\<And>c f. publishes p d c \<Longrightarrow> dk_files c p = Some f \<Longrightarrow> fe_content f = content \<Longrightarrow> Q (Inr f) c"
  shows "stays I (atomic_publish_new_from_stream p content E) d Q"
proof -
  have rest: "stays I (andthen (look (\<lambda>d. exists_at d p)) (\<lambda>occupied.
      andthen (demand (\<not> occupied) (SecurePathError ''secure create-if-absent target already exists'')) (\<lambda>_.
      andthen (look (\<lambda>d. temporary_path p (dk_clock d))) (\<lambda>tmp.
      andthen (mutate (new_file tmp content 420)) (\<lambda>_. install tmp p))))) c Q"
    if g: "grown p d c" and b: "dir_at c (butlast p) \<noteq> None" for c
  proof -
    let ?t = "temporary_path p (dk_clock c)"
    have hc: "healthy c" using g by (simp add: grown_def)
    have pl: "placeable c p" using grown_placeable [OF g b p(1,2,3)] p(4) by (simp add: growable_def)
    have tp: "placeable c ?t" using temporary_placeable [OF hc b p(1)] .
    define c1 where "c1 = advance (new_file ?t content 420) c"
    have h1: "healthy c1" unfolding c1_def by (rule healthy_new_file [OF hc tp])
    have s1: "publishes p d c1"
      unfolding c1_def by (rule publishes_step [OF publishes_grown [OF g]]) (use h1 in \<open>auto simp: c1_def files_new_file\<close>)
    have f1: "dk_files c1 ?t = Some \<lparr>fe_content = content, fe_inode = dk_clock c, fe_mtime = dk_clock c,
        fe_mode = 420, fe_ctime = dk_clock c\<rparr>"
      by (simp add: c1_def files_new_file)
    have ne: "?t \<noteq> p" using temporary_differs p(1) by metis
    have pl1: "placeable c1 p"
      using pl ne older_list_mono [of _ p] by (auto simp: placeable_def c1_def exists_at_def files_new_file)
    define c2 where "c2 = advance (rename_file ?t p) c1"
    have h2: "healthy c2" unfolding c2_def by (rule healthy_rename_file [OF h1 pl1])
    have s2: "publishes p d c2"
      unfolding c2_def by (rule publishes_step [OF s1]) (use h2 f1 in \<open>auto simp: c2_def files_rename_file\<close>)
    have f2: "\<exists>f. dk_files c2 p = Some f \<and> fe_content f = content"
      using f1 by (simp add: c2_def files_rename_file)
    moreover have "dk_files (rename_file ?t p c1) p = dk_files c2 p" by (simp add: c2_def)
    ultimately show ?thesis
      using pl I [OF s1] I [OF s2] Q [OF s2]
      by (auto simp: stays_simps install_def placeable_def c1_def [symmetric] c2_def [symmetric])
  qed
  have "stays I (parent_chain True E p) d (\<lambda>r c. r = Inr () \<and> grown p d c \<and> dir_at c (butlast p) \<noteq> None)"
    by (rule stays_mono [OF parent_chain_create [OF h p(4,1)]])
       (use I E p(5) in \<open>auto simp: chained_def intro: publishes_grown\<close>)
  then have "stays I (parent_chain True E p) d (\<lambda>r c. case r of Inl e \<Rightarrow> Q (Inl e) c | Inr x \<Rightarrow>
      stays I (andthen (look (\<lambda>d. exists_at d p)) (\<lambda>occupied.
      andthen (demand (\<not> occupied) (SecurePathError ''secure create-if-absent target already exists'')) (\<lambda>_.
      andthen (look (\<lambda>d. temporary_path p (dk_clock d))) (\<lambda>tmp.
      andthen (mutate (new_file tmp content 420)) (\<lambda>_. install tmp p))))) c Q)"
    by (rule stays_mono) (use rest in auto)
  then show ?thesis
    unfolding atomic_publish_new_from_stream_def stays_andthen [of I "hold_root E"] hold_root_held [OF h E]
    by (simp add: stays_andthen [of I "parent_chain True E p"])
qed

section \<open>Looking at the targets\<close>

definition targets_clear :: "disk \<Rightarrow> operation list \<Rightarrow> bool" where
  "targets_clear d ops =
     (\<forall>op \<in> set ops. dir_at d (op_path op) = None \<and> (\<forall>q \<in> set (ancestors (op_path op)). dk_files d q = None))"

text \<open>The loop that reads the entry of every target: it changes nothing.\<close>

definition read_targets :: "tx_error \<Rightarrow> expectations \<Rightarrow> operation list \<Rightarrow> file_entry option list proc" where
  "read_targets err expected ops =
     collect (\<lambda>op. andthen (safe_target (op_path op)) (\<lambda>_.
       secure_as err (optional_snapshot (op_path op) (expectations_for expected [op_path op])))) ops"

lemma stays_read_targets:
  assumes h: "healthy d" and E: "holds E d" and ops: "\<forall>op \<in> set ops. op_path op \<noteq> []"
  shows "stays I (read_targets err E ops) d (\<lambda>r c. c = d \<and>
    (if targets_clear d ops then r = Inr (map (\<lambda>op. dk_files d (op_path op)) ops) else \<exists>e. r = Inl e))"
  using ops
proof (induction ops)
  case Nil
  then show ?case by (simp add: read_targets_def stays_simps targets_clear_def)
next
  case (Cons op ops)
  let ?R = "\<lambda>r c. c = d \<and> (if targets_clear d ops then r = Inr (map (\<lambda>op. dk_files d (op_path op)) ops) else \<exists>e. r = Inl e)"
  have ih: "stays I (read_targets err E ops) d ?R" using Cons by simp
  have p: "op_path op \<noteq> []" using Cons.prems by simp
  note snap = stays_optional_snapshot [OF h holds_expectations_for [OF E] p]
  have split: "targets_clear d (op # ops) \<longleftrightarrow>
      dir_at d (op_path op) = None \<and> (\<forall>q \<in> set (ancestors (op_path op)). dk_files d q = None) \<and> targets_clear d ops"
    by (auto simp: targets_clear_def)
  have unfold: "read_targets err E (op # ops) =
      andthen (andthen (safe_target (op_path op)) (\<lambda>_.
        secure_as err (optional_snapshot (op_path op) (expectations_for E [op_path op])))) (\<lambda>y.
      andthen (read_targets err E ops) (\<lambda>ys. yields (y # ys)))"
    by (simp add: read_targets_def)
  show ?case
  proof (cases "dir_at d (op_path op) = None \<and> (\<forall>q \<in> set (ancestors (op_path op)). dk_files d q = None)")
    case True
    have "stays I (read_targets err E ops) d (\<lambda>r c. case r of Inl e \<Rightarrow> c = d \<and> (if targets_clear d (op # ops)
          then False else \<exists>e'. (Inl e :: tx_error + file_entry option list) = Inl e')
        | Inr ys \<Rightarrow> c = d \<and> (if targets_clear d (op # ops)
          then dk_files d (op_path op) # ys = map (\<lambda>op. dk_files d (op_path op)) (op # ops) else False))"
      by (rule stays_mono [OF ih]) (auto simp: split True split: if_splits)
    then show ?thesis
      unfolding unfold using True
      by (simp add: stays_simps stays_safe_target snap snapshot_result_def)
         (elim stays_mono, auto simp: stays_simps split: sum.splits if_splits)
  next
    case False
    then show ?thesis
      unfolding unfold by (auto simp: stays_simps stays_safe_target snap snapshot_result_def split)
  qed
qed

lemma stays_capture_preimages:
  assumes h: "healthy d" and E: "holds E d" and ops: "\<forall>op \<in> set ops. op_path op \<noteq> []"
  shows "stays I (capture_preimages sha ops E) d (\<lambda>r c. c = d \<and> (\<forall>found. r = Inr found \<longrightarrow>
    targets_clear d ops \<and> found = map (\<lambda>op. dk_files d (op_path op)) ops
    \<and> (\<forall>op \<in> set ops. snapshot_digest sha (dk_files d (op_path op)) = op_expected op)))"
proof -
  have "stays I (read_targets (TransactionConflict ''transaction target is redirected or not a regular file'') E ops) d
      (\<lambda>r c. case r of Inl e \<Rightarrow> c = d | Inr found \<Rightarrow> c = d \<and> targets_clear d ops
        \<and> found = map (\<lambda>op. dk_files d (op_path op)) ops)"
    by (rule stays_mono [OF stays_read_targets [OF assms]]) (auto split: if_splits)
  then show ?thesis
    unfolding capture_preimages_def read_targets_def [symmetric] stays_andthen
    by (elim stays_mono)
       (auto simp: stays_simps list_all2_map2 list_all2_same list.rel_map split: sum.splits)
qed

lemma stays_verify_postimages:
  assumes h: "healthy d" and E: "holds E d" and ops: "\<forall>op \<in> set ops. op_path op \<noteq> []"
    and c: "targets_clear d ops" and ok: "\<forall>op \<in> set ops. snapshot_digest sha (dk_files d (op_path op)) =
      (if op_kind op = Op_Check then op_expected op else op_result op)"
  shows "stays I (verify_postimages sha ops E) d (\<lambda>r c. c = d \<and> r = Inr ())"
proof -
  have "stays I (read_targets (TransactionError ''transaction target is not a regular file'') E ops) d
      (\<lambda>r c. c = d \<and> r = Inr (map (\<lambda>op. dk_files d (op_path op)) ops))"
    by (rule stays_mono [OF stays_read_targets [OF h E ops]]) (use c in auto)
  then show ?thesis
    unfolding verify_postimages_def read_targets_def [symmetric] stays_andthen
    by (elim stays_mono) (use ok in \<open>auto simp: stays_simps list.rel_map list.rel_refl_strong\<close>)
qed

lemma stays_capture_directories:
  shows "stays I (capture_existing_directories ops) d (\<lambda>r c. c = d \<and> (\<forall>E. r = Inr E \<longrightarrow>
    holds E d \<and> map_of E [] \<noteq> None))"
proof -
  let ?f = "\<lambda>p. andthen (look (\<lambda>d. dir_at d p)) (\<lambda>identity. case identity of Some i \<Rightarrow> yields (p, i)
      | None \<Rightarrow> raises (TransactionConflict ''transaction directory is redirected''))"
  have loop: "stays I (collect ?f ps) d (\<lambda>r c. c = d \<and> (\<forall>E. r = Inr E \<longrightarrow> holds E d \<and> map fst E = ps))" for ps
  proof (induction ps)
    case Nil
    then show ?case by (simp add: stays_simps holds_def)
  next
    case (Cons p ps)
    show ?case
    proof (cases "dir_at d p")
      case None
      then show ?thesis by (simp add: stays_simps)
    next
      case (Some i)
      then show ?thesis
        using Cons by (simp add: stays_simps) (elim stays_mono, auto simp: stays_simps holds_def split: sum.splits)
    qed
  qed
  have "[] \<in> set (filter (\<lambda>p. p = [] \<or> exists_at d p) (journal_paths ops))" by (simp add: journal_paths_def)
  then have "map_of E [] \<noteq> None" if "map fst E = filter (\<lambda>p. p = [] \<or> exists_at d p) (journal_paths ops)" for E :: expectations
    using that by (metis map_of_eq_None_iff set_map)
  then show ?thesis
    unfolding capture_existing_directories_def stays_andthen stays_look sum.case
    by (intro stays_mono [OF loop]) auto
qed

section \<open>Inside the seat\<close>

text \<open>Nothing in the seat but its journal and its staged outputs.\<close>

definition only_seat :: "nat \<Rightarrow> disk \<Rightarrow> bool" where
  "only_seat n d = (\<forall>x. dir_at d (state_root @ [x]) \<noteq> None \<longrightarrow> x = Uuid n)"

definition no_backups :: "nat \<Rightarrow> disk \<Rightarrow> bool" where
  "no_backups n d =
     ((\<forall>k. dk_files d (backup_path (seat_path n) k) = None \<and> dir_at d (backup_path (seat_path n) k) = None)
      \<and> dk_files d (seat_path n @ [Name ''backups'']) = None \<and> dk_files d (seat_path n @ [Name ''staged'']) = None)"

text \<open>A commit before it applies anything.\<close>

definition staging ::
    "nat \<Rightarrow> nat \<Rightarrow> nat \<Rightarrow> (path \<Rightarrow> content option) \<Rightarrow> file_entry option \<Rightarrow> disk \<Rightarrow> bool" where
  "staging n i root m j d =
     (settled m d \<and> n < dk_clock d \<and> dir_at d (seat_path n) = Some i \<and> dir_at d state_root = Some root
      \<and> only_seat n d \<and> no_backups n d \<and> dk_files d (journal_path (seat_path n)) = j)"

lemma staging_healthy: "staging n i root m j d \<Longrightarrow> healthy d"
  by (simp add: staging_def settled_def)

lemma staging_survives: "staging n i root m j d \<Longrightarrow> survives sha m d"
  by (simp add: staging_def survives_def recoverable_def)

lemma staging_expectations: "staging n i root m j d \<Longrightarrow> holds (seat_expectations (seat_path n) i root) d"
  using seat_expectations_hold by (simp add: staging_def seat_path_def)

lemma only_seat_journals:
  assumes h: "healthy d" and o: "only_seat n d" and x: "x \<noteq> Uuid n"
  shows "dk_files d (journal_path (state_root @ [x])) = None"
  using journal_seat [OF h, of x] o x unfolding only_seat_def by (metis option.exhaust)

lemma settledI:
  assumes h: "healthy c" and o: "only_seat n c" and m: "contents c = m"
    and j: "\<And>f. dk_files c (journal_path (seat_path n)) = Some f \<Longrightarrow> quiet_journal (Uuid n) f"
  shows "settled m c"
  unfolding settled_def using assms only_seat_journals [OF h o] unfolding seat_path_def
  by (metis option.distinct(1))

text \<open>Names of a seat.\<close>

lemma seat_private: "is_below state_root (seat_path n @ r)"
  by (simp add: seat_path_def is_below_iff)

lemma seat_members:
  "journal_path (seat_path n) \<noteq> staged_path (seat_path n) k" "butlast (journal_path (seat_path n)) = seat_path n"
  "butlast (staged_path (seat_path n) k) = seat_path n @ [Name ''staged'']"
  "butlast (backup_path (seat_path n) k) = seat_path n @ [Name ''backups'']"
  by (simp_all add: journal_path_def staged_path_def backup_path_def butlast_append)

lemma journal_names_private: "q \<in> journal_names (seat_path n) \<Longrightarrow> is_below state_root q"
  using seat_private by (auto simp: journal_names_def journal_path_def temporary_path_def guard_path_def butlast_append)

lemma journal_names_apart:
  "backup_path (seat_path n) k \<notin> journal_names (seat_path n)" "staged_path (seat_path n) k \<notin> journal_names (seat_path n)"
  "seat_path n @ [Name ''backups''] \<notin> journal_names (seat_path n)"
  "seat_path n @ [Name ''staged''] \<notin> journal_names (seat_path n)"
  "q \<in> journal_names (seat_path n) \<Longrightarrow> \<not> project_path q"
  using journal_names_private below_not_project
  by (auto simp: journal_names_def journal_path_def temporary_path_def guard_path_def backup_path_def staged_path_def)

lemma journal_step_staging:
  assumes s: "staging n i root m j d" and c: "journal_step (seat_path n) d c"
    and j: "dk_files c (journal_path (seat_path n)) = j'" "\<And>f. j' = Some f \<Longrightarrow> quiet_journal (Uuid n) f"
  shows "staging n i root m j' c"
proof -
  have same: "dk_files c q = dk_files d q" if "q \<notin> journal_names (seat_path n)" for q
    using c that by (simp add: journal_step_def)
  have dirs: "dir_at c q = dir_at d q" for q using c by (simp add: journal_step_def)
  have h: "healthy c" using c by (simp add: journal_step_def)
  have "contents c = contents d"
  proof (rule contents_outside)
    fix q assume "\<not> is_below state_root q"
    then have "q \<notin> journal_names (seat_path n)"
      using journal_names_private by blast
    then show "dk_files c q = dk_files d q" using same by simp
  qed
  then have "settled m c"
    using s j dirs by (intro settledI [OF h, of n]) (auto simp: staging_def only_seat_def settled_def)
  moreover have "no_backups n c"
    using s dirs same journal_names_apart by (simp add: staging_def no_backups_def)
  ultimately show ?thesis
    using s c j dirs by (auto simp: staging_def journal_step_def only_seat_def)
qed

lemma staging_quiet: "staging n i root m (Some f) d \<Longrightarrow> quiet_journal (Uuid n) f"
  by (simp add: staging_def settled_def seat_path_def)

lemma stays_staging_journal:
  assumes s: "staging n i root m j d" and v: "valid_journal n r" "jr_state r \<noteq> Applying"
    and I: "\<And>c. survives sha m c \<Longrightarrow> I c"
    and Q: "\<And>c f. staging n i root m (Some f) c \<Longrightarrow> journal_step (seat_path n) d c \<Longrightarrow> Q (Inr f) c"
  shows "stays I (write_journal (seat_path n) r j (seat_expectations (seat_path n) i root)) d Q"
proof (rule stays_write_journal)
  have h: "healthy d" using staging_healthy [OF s] .
  show "healthy d" by fact
  show "holds (seat_expectations (seat_path n) i root) d" using staging_expectations [OF s] .
  show "dir_at d (seat_path n) \<noteq> None" "dk_files d (journal_path (seat_path n)) = j"
    using s by (simp_all add: staging_def)
  show "dir_at d (journal_path (seat_path n)) = None" using healthy_journal_file [OF h] by (simp add: seat_path_def)
  have quiet: "quiet_journal (Uuid n) f" if "fe_content f = Journal r" for f
    using that v by (simp add: quiet_journal_def)
  fix c assume c: "journal_step (seat_path n) d c"
  show "I c" if "dk_files c (journal_path (seat_path n)) = j \<or> dk_files c (journal_path (seat_path n)) = None
      \<or> (\<exists>f. dk_files c (journal_path (seat_path n)) = Some f \<and> fe_content f = Journal r)"
  proof -
    have "staging n i root m (dk_files c (journal_path (seat_path n))) c"
      using that staging_quiet s quiet by (intro journal_step_staging [OF s c refl]) auto
    then show ?thesis using I staging_survives by blast
  qed
  show "Q (Inr f) c" if "dk_files c (journal_path (seat_path n)) = Some f" "fe_content f = Journal r" for f
    using Q [OF journal_step_staging [OF s c that(1)] c] quiet that by auto
qed

text \<open>The private files a commit publishes: staged outputs and the marker of the backups.\<close>

definition private_file :: "nat \<Rightarrow> path \<Rightarrow> bool" where
  "private_file n p =
     ((\<exists>k. p = staged_path (seat_path n) k) \<or> p = seat_path n @ [Name ''backups'', Name ''.ready''])"

lemma private_fileD:
  assumes "private_file n p"
  shows "p \<noteq> []" "p \<noteq> state_root" "is_below state_root p" "\<And>i. is_below state_root (temporary_path p i)"
    and "p \<noteq> journal_path (state_root @ [x])" "\<And>i. temporary_path p i \<noteq> journal_path (state_root @ [x])"
    and "p \<noteq> backup_path (seat_path n) k" "\<And>i. temporary_path p i \<noteq> backup_path (seat_path n) k"
    and "\<And>s i. temporary_path p i \<noteq> seat_path n @ [Name s]" "\<And>s. p \<noteq> seat_path n @ [Name s]"
    and "n < c \<Longrightarrow> list_all (older c) p"
    and "q \<in> set (ancestors p) \<Longrightarrow> q = state_root \<or> q = seat_path n \<or> q = seat_path n @ [Name ''staged'']
      \<or> q = seat_path n @ [Name ''backups'']"
proof -
  obtain s y where p: "p = seat_path n @ [Name s, y]" "s = ''staged'' \<or> s = ''backups''"
    "s = ''backups'' \<Longrightarrow> y = Name ''.ready''" "s = ''staged'' \<Longrightarrow> \<exists>k. y = Index k"
    using assms by (auto simp: private_file_def staged_path_def)
  have t: "temporary_path p = (\<lambda>i. [Name ''.reprobit-transactions'', Uuid n, Name s, Temporary y i])"
    "p = [Name ''.reprobit-transactions'', Uuid n, Name s, y]"
    by (auto simp: temporary_path_def p(1) seat_path_def state_root_def)
  note defs = t(1) [unfolded t(2)] t(2) seat_path_def state_root_def
  show "p \<noteq> []" "p \<noteq> state_root" "is_below state_root p" "\<And>i. is_below state_root (temporary_path p i)"
    by (simp_all add: defs is_below_def)
  show "p \<noteq> journal_path (state_root @ [x])" "\<And>i. temporary_path p i \<noteq> journal_path (state_root @ [x])"
    by (simp_all add: defs journal_path_def)
  show "p \<noteq> backup_path (seat_path n) k" "\<And>i. temporary_path p i \<noteq> backup_path (seat_path n) k"
    using p(2-4) by (auto simp: defs backup_path_def)
  show "\<And>s i. temporary_path p i \<noteq> seat_path n @ [Name s]" "\<And>s. p \<noteq> seat_path n @ [Name s]"
    by (simp_all add: defs)
  show "n < c \<Longrightarrow> list_all (older c) p" using p(2-4) by (auto simp: defs)
  show "q = state_root \<or> q = seat_path n \<or> q = seat_path n @ [Name ''staged''] \<or> q = seat_path n @ [Name ''backups'']"
    if "q \<in> set (ancestors p)"
    using that p(2) by (auto simp: ancestors_def defs upt_rec)
qed

lemma publishes_staging:
  assumes s: "staging n i root m j d" and p: "private_file n p" and c: "publishes p d c"
  shows "staging n i root m j c"
proof -
  note names = private_fileD [OF p]
  have h: "healthy c" using c by (simp add: publishes_def)
  have same: "dk_files c q = dk_files d q" if "q \<noteq> p" "\<And>i. q \<noteq> temporary_path p i" for q
    using c that by (simp add: publishes_def)
  have keep: "dir_at c q = dir_at d q" if "dir_at d q \<noteq> None" for q
    using c that by (auto simp: publishes_def)
  have fresh: "dir_at c q = None" if "dir_at d q = None" "q \<notin> set (ancestors p)" for q
    using c that by (auto simp: publishes_def)
  have dirs: "dir_at c (seat_path n) = Some i" "dir_at c state_root = Some root"
    using s keep by (simp_all add: staging_def)
  have only: "only_seat n c"
    unfolding only_seat_def
  proof (intro allI impI)
    fix x assume x: "dir_at c (state_root @ [x]) \<noteq> None"
    show "x = Uuid n"
    proof (cases "dir_at d (state_root @ [x])")
      case None
      have "state_root @ [x] \<in> set (ancestors p)" using fresh [OF None] x by metis
      then show ?thesis using names(12) [of "state_root @ [x]"] by (simp add: seat_path_def state_root_def)
    qed (use s in \<open>simp add: staging_def only_seat_def\<close>)
  qed
  have "dk_files c (journal_path (seat_path n)) = dk_files d (journal_path (seat_path n))"
    unfolding seat_path_def by (rule same) (metis names(5), metis names(6))
  then have j: "dk_files c (journal_path (seat_path n)) = j" using s by (simp add: staging_def)
  have "contents c = contents d"
    by (rule contents_outside) (metis same names(3,4))
  then have "settled m c"
    using s j by (intro settledI [OF h only]) (auto simp: staging_def settled_def seat_path_def)
  moreover have "no_backups n c"
  proof -
    have "dir_at c (backup_path (seat_path n) k) = None" for k
    proof (rule fresh)
      show "backup_path (seat_path n) k \<notin> set (ancestors p)"
        using names(12) [of "backup_path (seat_path n) k"] by (auto simp: backup_path_def seat_path_def state_root_def)
    qed (use s in \<open>simp add: staging_def no_backups_def\<close>)
    moreover have "dk_files c (backup_path (seat_path n) k) = dk_files d (backup_path (seat_path n) k)" for k
      by (rule same) (metis names(7), metis names(8))
    moreover have "dk_files c (seat_path n @ [Name s]) = dk_files d (seat_path n @ [Name s])" for s
      by (rule same) (metis names(10), metis names(9))
    ultimately show ?thesis using s by (simp add: no_backups_def staging_def)
  qed
  ultimately show ?thesis
    using s only j dirs c by (simp add: staging_def publishes_def)
qed

lemma stays_staging_publish:
  assumes s: "staging n i root m j d" and p: "private_file n p" "\<not> exists_at d p"
    and I: "\<And>c. survives sha m c \<Longrightarrow> I c"
    and Q: "\<And>c f. staging n i root m j c \<Longrightarrow> publishes p d c \<Longrightarrow> dk_files c p = Some f \<Longrightarrow> fe_content f = content \<Longrightarrow> Q (Inr f) c"
  shows "stays I (atomic_publish_new_from_stream p content (seat_expectations (seat_path n) i root)) d Q"
proof -
  note names = private_fileD [OF p(1)]
  have h: "healthy d" using staging_healthy [OF s] .
  have anc: "dk_files d q = None \<and> seat_dir q" if "q \<in> set (ancestors p)" for q
  proof -
    have "dk_files d (seat_path n) = None"
      using s healthy_exclusive [OF h, of "seat_path n"] by (simp add: staging_def)
    then have "dk_files d q = None"
      using names(12) [OF that] s healthy_root_file [OF h] by (auto simp: staging_def no_backups_def)
    moreover have "seat_dir q"
      using names(12) [OF that] by (auto simp: seat_dir_def journal_path_def seat_path_def state_root_def)
    ultimately show ?thesis by simp
  qed
  have g: "growable d p" using names(11) s anc by (simp add: growable_def staging_def)
  show ?thesis
  proof (rule stays_publish_new [OF h staging_expectations [OF s] names(1,2) p(2) g])
    show "\<forall>q \<in> set (ancestors p). dk_files d q = None" using anc by simp
    fix c assume c: "publishes p d c"
    have sc: "staging n i root m j c" using publishes_staging [OF s p(1) c] .
    then show "I c" using I staging_survives by blast
    show "dk_files c p = Some f \<Longrightarrow> fe_content f = content \<Longrightarrow> Q (Inr f) c" for f by (rule Q [OF sc c])
  qed
qed

text \<open>Staging all outputs: each is where its snapshot says.\<close>

definition staged_ok :: "nat \<Rightarrow> operation list \<Rightarrow> file_entry option list \<Rightarrow> disk \<Rightarrow> bool" where
  "staged_ok n ops staged d =
     (length staged = length ops \<and> (\<forall>k < length ops.
        dk_files d (staged_path (seat_path n) k) = staged ! k
        \<and> map_option fe_content (staged ! k) = map_option Data (op_data (ops ! k))))"

definition marker_path :: "nat \<Rightarrow> path" where
  "marker_path n = seat_path n @ [Name ''backups'', Name ''.ready'']"

lemma staged_names:
  "staged_path s k = staged_path s k' \<longleftrightarrow> k = k'" "staged_path s k \<noteq> temporary_path (staged_path s k') i"
  "staged_path (seat_path n) k \<noteq> marker_path n" "staged_path (seat_path n) k \<noteq> temporary_path (marker_path n) i"
  "marker_path n \<noteq> temporary_path (staged_path (seat_path n) k) i"
  "marker_path n \<notin> set (ancestors (staged_path (seat_path n) k))"
  "staged_path (seat_path n) k' \<notin> set (ancestors (staged_path (seat_path n) k))"
  by (auto simp: staged_path_def temporary_path_def marker_path_def seat_path_def state_root_def ancestors_def
      butlast_append upt_rec)

lemma publishes_absent:
  assumes "publishes p d c" "\<not> exists_at d q" "q \<noteq> p" "\<And>i. q \<noteq> temporary_path p i" "q \<notin> set (ancestors p)"
  shows "\<not> exists_at c q"
  using assms unfolding publishes_def exists_at_def by metis

lemma stays_stage:
  assumes s: "staging n i root m j d" and none: "\<forall>k. \<not> exists_at d (staged_path (seat_path n) k)" "\<not> exists_at d (marker_path n)"
    and I: "\<And>c. survives sha m c \<Longrightarrow> I c"
    and Q: "\<And>c staged. staging n i root m j c \<Longrightarrow> staged_ok n ops staged c \<Longrightarrow> \<not> exists_at c (marker_path n) \<Longrightarrow> Q (Inr staged) c"
  shows "stays I (collect (stage_operation (seat_path n) (seat_expectations (seat_path n) i root)) (enumerate 0 ops)) d Q"
proof -
  define K where "K = (\<lambda>(gone :: (nat \<times> operation) list) ys (rest :: (nat \<times> operation) list) c.
    staging n i root m j c \<and> \<not> exists_at c (marker_path n) \<and> length ys = length gone
    \<and> (\<forall>k < length gone. dk_files c (staged_path (seat_path n) k) = ys ! k
         \<and> map_option fe_content (ys ! k) = map_option Data (op_data (ops ! k)))
    \<and> (\<forall>k \<ge> length gone. \<not> exists_at c (staged_path (seat_path n) k)))"
  have "stays I (collect (stage_operation (seat_path n) (seat_expectations (seat_path n) i root)) (enumerate 0 ops)) d
      (\<lambda>r c. \<exists>ys. r = Inr ys \<and> K (enumerate 0 ops) ys [] c)"
  proof (rule stays_collect)
    show "K [] [] (enumerate 0 ops) d" using s none by (simp add: K_def)
    fix gone ys x rest c
    assume l: "enumerate 0 ops = gone @ x # rest" and K: "K gone ys (x # rest) c"
    let ?k = "length gone" and ?p = "staged_path (seat_path n) (length gone)"
    have k: "?k < length ops" using arg_cong [OF l, of length] by simp
    have x: "x = (?k, ops ! ?k)" using nth_enumerate_eq [OF k, of 0] l by (simp add: nth_append)
    have sc: "staging n i root m j c" and free: "\<not> exists_at c ?p" and len: "length ys = ?k" using K by (simp_all add: K_def)
    show "stays I (stage_operation (seat_path n) (seat_expectations (seat_path n) i root) x) c
        (\<lambda>r c'. \<exists>y. r = Inr y \<and> K (gone @ [x]) (ys @ [y]) rest c')"
    proof (cases "op_data (ops ! ?k)")
      case None
      have "K (gone @ [x]) (ys @ [None]) rest c"
        using K None free by (auto simp: K_def nth_append less_Suc_eq exists_at_def)
      then show ?thesis using None by (simp add: stage_operation_def x stays_simps)
    next
      case (Some data)
      have "stays I (atomic_publish_new_from_stream ?p (Data data) (seat_expectations (seat_path n) i root)) c
          (\<lambda>r c'. \<exists>f. r = Inr f \<and> K (gone @ [x]) (ys @ [Some f]) rest c')"
      proof (rule stays_staging_publish [OF sc _ free I])
        show "private_file n ?p" by (auto simp: private_file_def)
        fix c' f assume c': "staging n i root m j c'" "publishes ?p c c'" "dk_files c' ?p = Some f" "fe_content f = Data data"
        have old: "dk_files c' (staged_path (seat_path n) k) = dk_files c (staged_path (seat_path n) k)" if "k \<noteq> ?k" for k
          using c'(2) that staged_names(1,2) by (simp add: publishes_def)
        have "\<not> exists_at c' (marker_path n)"
          using publishes_absent [OF c'(2)] K staged_names(3,5,6) by (metis K_def)
        moreover have "\<not> exists_at c' (staged_path (seat_path n) k)" if "k \<ge> Suc ?k" for k
          using publishes_absent [OF c'(2), of "staged_path (seat_path n) k"] K that staged_names by (simp add: K_def)
        ultimately show "\<exists>g. (Inr f :: tx_error + file_entry) = Inr g \<and> K (gone @ [x]) (ys @ [Some g]) rest c'"
          using K c' old Some len by (auto simp: K_def nth_append less_Suc_eq)
      qed
      then show ?thesis using Some by (simp add: stage_operation_def x stays_simps) (elim stays_mono, auto simp: stays_simps)
    qed
  qed
  then show ?thesis by (rule stays_mono) (use Q in \<open>auto simp: K_def staged_ok_def\<close>)
qed

lemma stays_marker:
  assumes s: "staging n i root m j d" and st: "staged_ok n ops staged d" and free: "\<not> exists_at d (marker_path n)"
    and I: "\<And>c. survives sha m c \<Longrightarrow> I c"
    and Q: "\<And>c. staging n i root m j c \<Longrightarrow> staged_ok n ops staged c \<Longrightarrow> Q (Inr ()) c"
  shows "stays I (publish_backup_marker (seat_path n) (seat_expectations (seat_path n) i root) ops') d Q"
proof -
  have "stays I (atomic_publish_new_from_stream (marker_path n) (Data []) (seat_expectations (seat_path n) i root)) d
      (\<lambda>r c. (\<exists>f. r = Inr f) \<and> Q (Inr ()) c)"
  proof (rule stays_staging_publish [OF s _ free I])
    show "private_file n (marker_path n)" by (simp add: private_file_def marker_path_def)
    fix c f assume c: "staging n i root m j c" "publishes (marker_path n) d c"
    then have "staged_ok n ops staged c" using st staged_names(3,4) by (simp add: staged_ok_def publishes_def)
    then show "(\<exists>g. (Inr f :: tx_error + file_entry) = Inr g) \<and> Q (Inr ()) c" using Q c by simp
  qed
  then show ?thesis
    using Q [OF s st] by (auto simp: publish_backup_marker_def stays_simps marker_path_def elim!: stays_mono)
qed

section \<open>The journal of a commit\<close>

definition entry_record :: "operation \<Rightarrow> nat \<Rightarrow> publication option \<Rightarrow> publication option \<Rightarrow> journal_entry" where
  "entry_record op k preimage staged =
     \<lparr>je_index = int k, je_kind = op_kind op, je_path = op_path op, je_expected = op_expected op,
      je_result = op_result op, je_preimage = preimage, je_staged = staged,
      je_backup = backup_path [] k, je_staged_path = staged_path [] k\<rparr>"

definition entry_list ::
    "operation list \<Rightarrow> (nat \<Rightarrow> publication option) \<Rightarrow> (nat \<Rightarrow> publication option) \<Rightarrow> journal_entry list" where
  "entry_list ops preimage staged = map (\<lambda>k. entry_record (ops ! k) k (preimage k) (staged k)) [0..<length ops]"

definition published :: "(content \<Rightarrow> string) \<Rightarrow> file_entry option list \<Rightarrow> nat \<Rightarrow> publication option" where
  "published sha files k = map_option (publication_record sha) (files ! k)"

lemma entry_list_new: "jr_operations (journal_record ops i s st) = entry_list ops (\<lambda>_. None) (\<lambda>_. None)"
  by (rule nth_equalityI) (simp_all add: journal_record_def entry_list_def entry_record_def nth_enumerate_eq)

lemma entry_list_staged:
  assumes "jr_operations r = entry_list ops p (\<lambda>_. None)" "length staged = length ops"
  shows "jr_operations (set_staged sha staged r) = entry_list ops p (published sha staged)"
  by (rule nth_equalityI)
     (use assms in \<open>auto simp: set_staged_def entry_list_def entry_record_def published_def split: option.split\<close>)

lemma entry_list_preimages:
  assumes "jr_operations r = entry_list ops (\<lambda>_. None) s" "length preimages = length ops"
  shows "jr_operations (set_preimages sha preimages r) = entry_list ops (published sha preimages) s"
  by (rule nth_equalityI)
     (use assms in \<open>auto simp: set_preimages_def entry_list_def entry_record_def published_def split: option.split\<close>)

definition hex_digests :: "(content \<Rightarrow> string) \<Rightarrow> bool" where
  "hex_digests sha = (\<forall>c. is_hex_digest (sha c))"

lemma entry_list_ok:
  assumes "operations_ok sha ops" "hex_digests sha"
  shows "list_all journal_entry_ok (enumerate 0 (entry_list ops p s))"
proof -
  have "journal_entry_ok (k, entry_record (ops ! k) k (p k) (s k))" if "k < length ops" for k
  proof -
    have "operation_ok sha (ops ! k)" using assms(1) that by (simp add: operations_ok_def list_all_length)
    then show ?thesis
      using assms(2) by (auto simp: journal_entry_ok_def entry_record_def operation_ok_def hex_digests_def split: option.splits)
  qed
  then show ?thesis by (auto simp: list_all_length entry_list_def nth_enumerate_eq)
qed

lemma entry_list_paths:
  "map (ancestors \<circ> je_path) (entry_list ops p s) = map (ancestors \<circ> op_path) ops"
  by (rule nth_equalityI) (simp_all add: entry_list_def entry_record_def)

lemma valid_entry_list:
  assumes ok: "operations_ok sha ops" "hex_digests sha" and ops: "jr_operations J = entry_list ops p s"
    and i: "jr_transaction_id J = Uuid n" "jr_transaction_directory J = Uuid n" "jr_schema J = journal_schema"
    and d: "jr_directories J = [] \<and> jr_state J = Prepared
      \<or> (\<exists>E. map_of E [] \<noteq> None \<and> jr_directories J = map (\<lambda>p. (p, map_of E p)) (journal_paths ops))"
  shows "valid_journal n J"
proof -
  have paths: "set ([] # concat (map (ancestors \<circ> je_path) (jr_operations J))) = set (journal_paths ops)"
    by (simp only: ops entry_list_paths journal_paths_def set_remdups)
  have "fst ` set (jr_directories J) = set (journal_paths ops) \<and> map_of (jr_directories J) [] \<notin> {None, Some None}"
    if "map_of E [] \<noteq> None" "jr_directories J = map (\<lambda>p. (p, map_of E p)) (journal_paths ops)" for E
  proof -
    have "[] \<in> set (journal_paths ops)" by (simp add: journal_paths_def)
    then have "map_of (jr_directories J) [] = Some (map_of E [])"
      unfolding that(2) by (simp add: map_of_map_restrict restrict_map_def)
    then show ?thesis using that by (auto simp: image_iff)
  qed
  then show ?thesis
    using d i entry_list_ok [OF ok, of p s] unfolding valid_journal_def Let_def paths ops [symmetric] by auto
qed

lemma recorded_holds:
  assumes "holds E d" "jr_directories J = map (\<lambda>p. (p, map_of E p)) ps"
  shows "holds (recorded_directories J) d"
  unfolding holds_def recorded_directories_def assms(2)
  using holds_map_of [OF assms(1)] by (auto split: option.splits dest: sym)

definition commit_record ::
    "(content \<Rightarrow> string) \<Rightarrow> nat \<Rightarrow> operation list \<Rightarrow> expectations \<Rightarrow> file_entry option list \<Rightarrow> file_entry option list \<Rightarrow> journal" where
  "commit_record sha n ops project preimages staged =
     set_preimages sha preimages (set_directories ops project
       (set_staged sha staged (journal_record ops (Uuid n) (Uuid n) Prepared)))"

lemma commit_record_facts:
  fixes sha n project
  assumes l: "length staged = length ops" "length preimages = length ops"
  defines "J \<equiv> commit_record sha n ops project preimages staged"
  shows "jr_operations J = entry_list ops (published sha preimages) (published sha staged)"
    and "jr_directories J = map (\<lambda>p. (p, map_of project p)) (journal_paths ops)"
    and "jr_transaction_id J = Uuid n" "jr_transaction_directory J = Uuid n" "jr_schema J = journal_schema"
    and "jr_state J = Prepared"
proof -
  let ?r1 = "set_staged sha staged (journal_record ops (Uuid n) (Uuid n) Prepared)"
  have "jr_operations (set_directories ops project ?r1) = entry_list ops (\<lambda>_. None) (published sha staged)"
    using entry_list_staged [OF entry_list_new l(1)] by (simp add: set_directories_def)
  then show "jr_operations J = entry_list ops (published sha preimages) (published sha staged)"
    unfolding J_def commit_record_def by (rule entry_list_preimages [OF _ l(2)])
qed (simp_all add: J_def commit_record_def set_preimages_def set_directories_def set_staged_def journal_record_def)

lemma entries_commit:
  assumes "jr_operations J = entry_list ops p s"
  shows "(k, e) \<in> entries J \<longleftrightarrow> k < length ops \<and> op_kind (ops ! k) \<noteq> Op_Check \<and> e = entry_record (ops ! k) k (p k) (s k)"
  by (auto simp: entries_def assms in_set_enumerate_eq entry_list_def entry_record_def)

lemma commit_paths_ok:
  assumes ok: "operations_ok sha ops" "plain_paths ops" and ops: "jr_operations J = entry_list ops p s"
  shows "journal_paths_ok J"
proof -
  have "map je_path (jr_operations J) = map op_path ops"
    by (rule nth_equalityI) (simp_all add: ops entry_list_def entry_record_def)
  then have "distinct (map je_path (jr_operations J))" using ok by (simp add: operations_ok_def)
  moreover have "project_path (op_path (ops ! k))" if "k < length ops" for k
  proof -
    have "operation_ok sha (ops ! k)" "list_all is_name (op_path (ops ! k))"
      using ok that by (simp_all add: operations_ok_def plain_paths_def list_all_length)
    then show ?thesis by (auto simp: project_path_def operation_ok_def is_below_iff state_root_def)
  qed
  moreover have "op_path (ops ! k) \<notin> set (ancestors (op_path (ops ! k')))" if "k < length ops" "k' < length ops" for k k'
    using ok(2) that by (simp add: plain_paths_def list_all_length)
  ultimately show ?thesis
    unfolding journal_paths_ok_def by (auto simp: entries_commit [OF ops]) (auto simp: entry_record_def)
qed

section \<open>Applying one operation\<close>

lemma backup_growable:
  assumes "n < dk_clock d"
  shows "growable d (backup_path (seat_path n) k)"
proof -
  have "seat_dir q" if "q \<in> set (ancestors (backup_path (seat_path n) k))" for q
    using that by (auto simp: ancestors_def backup_path_def seat_path_def state_root_def upt_rec seat_dir_def journal_path_def)
  then show ?thesis
    using assms by (simp add: growable_def backup_path_def seat_path_def state_root_def)
qed

lemma backup_ancestor_files:
  assumes h: "healthy d" and s: "dir_at d (seat_path n) \<noteq> None" "dk_files d (seat_path n @ [Name ''backups'']) = None"
  shows "\<forall>q \<in> set (ancestors (backup_path (seat_path n) k)). dk_files d q = None"
proof -
  have "set (ancestors (backup_path (seat_path n) k)) = {state_root, seat_path n, seat_path n @ [Name ''backups'']}"
    by (auto simp: ancestors_def backup_path_def seat_path_def state_root_def upt_rec)
  then show ?thesis using healthy_root_file(2) [OF h] healthy_exclusive [OF h, of "seat_path n"] s by auto
qed

lemma grown_rolling:
  assumes ok: "journal_paths_ok J" and r: "rolling sha n J m d" and e: "(k, e) \<in> entries J"
    and p: "p \<in> {je_path e, backup_path (seat_path n) k}" and g: "grown p d c"
  shows "rolling sha n J m c" "touches n k e d c"
proof -
  note en = rolling_entry [OF ok r e]
  show t: "touches n k e d c" using touches_grown [OF g p] .
  have "je_path e \<notin> set (ancestors p)" "backup_path (seat_path n) k \<notin> set (ancestors p)"
    using p not_own_ancestor [of "je_path e"] not_own_ancestor [of "backup_path (seat_path n) k"] backup_ancestors [of "je_path e" n k]
      ancestor_project [OF en(2), of "backup_path (seat_path n) k"] en(2) seat_members_private(1) by auto
  then have "dir_at c (je_path e) = None" "dir_at c (backup_path (seat_path n) k) = None"
    using g en(10,11) by (auto simp: grown_def)
  then have "entry_state sha (seat_path n) m c k e"
    using entry_state_cong [OF en(7), of c] g by (simp add: grown_def)
  then show "rolling sha n J m c" using rolling_frame [OF ok r e t] by simp
qed

lemma stays_back_up:
  assumes ok: "journal_paths_ok J" and r: "rolling sha n J m d" and e: "(k, e) \<in> entries J" and n: "n < dk_clock d"
    and b: "dk_files d (backup_path (seat_path n) k) = None" "dk_files d (seat_path n @ [Name ''backups'']) = None"
    and op: "je_path e = op_path op" "je_expected e = op_expected op" "pre = dk_files d (op_path op)"
      "op_expected op = None \<longleftrightarrow> pre = None"
    and E: "holds E d"
    and I: "\<And>c. rolling sha n J m c \<Longrightarrow> touches n k e d c \<Longrightarrow> I c"
    and Q: "\<And>c. rolling sha n J m c \<Longrightarrow> touches n k e d c \<Longrightarrow> dk_files c (op_path op) = None \<Longrightarrow>
      dk_files c (staged_path (seat_path n) k) = dk_files d (staged_path (seat_path n) k) \<Longrightarrow> Q (Inr ()) c"
  shows "stays I (back_up (op_path op) (backup_path (seat_path n) k) E op pre) d Q"
proof (cases "op_expected op")
  case None
  then have "dk_files d (op_path op) = None" using op by simp
  moreover have "healthy d" using r by (simp add: rolling_def)
  ultimately show ?thesis using None Q [OF r touches_refl] by (simp add: back_up_def stays_simps)
next
  case (Some h)
  let ?b = "backup_path (seat_path n) k" and ?p = "op_path op"
  note en = rolling_entry [OF ok r e, unfolded op(1)]
  obtain f where f: "pre = Some f" "dk_files d ?p = Some f" using op(3,4) Some by auto
  have pre: "is_preimage sha m e f" "je_expected e \<noteq> None"
    using en(7) b(1) f op(1,2) Some by (auto simp: entry_state_def)
  have ne: "?p \<noteq> ?b" "?b \<noteq> []" "?b \<noteq> state_root" "staged_path (seat_path n) k \<noteq> ?p" "staged_path (seat_path n) k \<noteq> ?b"
    using en(2) seat_members_private(1,2) by (metis, simp_all add: backup_path_def seat_path_def state_root_def) (metis, simp add: staged_path_def)
  have free: "\<not> exists_at d ?b" using b(1) en(11) by (simp add: exists_at_def)
  have grow: "rolling sha n J m c \<and> touches n k e d c" if "grown ?b d c" for c
    using grown_rolling [OF ok r e _ that] by simp
  have last: "rolling sha n J m z \<and> touches n k e d z \<and> dk_files z ?p = None
      \<and> dk_files z (staged_path (seat_path n) k) = dk_files d (staged_path (seat_path n) k)"
    if g: "grown ?b d c" and dir: "dir_at c (butlast ?b) \<noteq> None" and z: "z = advance (rename_file ?p ?b) c" for c z
  proof -
    have pl: "placeable c ?b"
      using grown_placeable [OF g dir ne(2,3) free] backup_growable [OF n, of k] by (simp add: growable_def)
    have t: "touches n k e d z"
      unfolding z using touches_renamed [OF g f(2) _ _ pl] op(1) by (simp add: entry_scope_def)
    have fb: "dk_files c ?p = Some f" "dk_files c = dk_files d" using g f by (simp_all add: grown_def)
    have files: "dk_files z = (dk_files d)(?p := None, ?b \<mapsto> f\<lparr>fe_ctime := dk_clock c\<rparr>)"
      using fb by (simp add: z files_rename_file)
    have dirs: "dir_at z ?p = None" "dir_at z ?b = None"
      using pl rolling_entry(10) [OF ok conjunct1 [OF grow [OF g]] e, unfolded op(1)]
      by (simp_all add: z placeable_def exists_at_def)
    have anc: "\<forall>q \<in> set (ancestors ?p). dk_files z q = None"
      using files en(9) ancestor_project [OF en(2), of ?b] seat_members_private(1) by auto
    have "entry_state sha (seat_path n) m z k e"
      using files dirs anc pre ne(1) op(1) by (simp add: entry_state_def preimage_ctime absent_or_staged_def)
    then show ?thesis using rolling_frame [OF ok r e t] t files ne(1,4,5) by simp
  qed
  have "stays I (promote_relative_new ?p ?b f E) d (\<lambda>r c. (\<exists>x. r = Inr x) \<and> Q (Inr ()) c)"
    using en(1) E f(2) en(3) ne(1,2) free backup_growable [OF n] backup_ancestor_files [OF en(1) _ b(2)]
  proof (rule stays_promote)
    show "dir_at d (seat_path n) \<noteq> None" using r by (simp add: rolling_def)
    show "I c" if "grown ?b d c" for c using I grow [OF that] by blast
    show "I (advance (rename_file ?p ?b) c) \<and> (\<exists>x. (Inr (f\<lparr>fe_ctime := dk_clock c\<rparr>) :: tx_error + file_entry) = Inr x) \<and>
        Q (Inr ()) (advance (rename_file ?p ?b) c)"
      if "grown ?b d c" "dir_at c (butlast ?b) \<noteq> None" for c
      using last [OF that refl] I Q by blast
  qed
  then show ?thesis
    using Some f by (simp add: back_up_def stays_simps) (elim stays_mono, auto simp: stays_simps)
qed

lemma stays_install_staged:
  assumes "op_result op = Some result" "staged = Some s"
    and "stays I (promote_relative_new (staged_path seat k) (op_path op) s E) d
      (\<lambda>r c. \<exists>g. r = Inr g \<and> sha (fe_content g) = result \<and> Q (Inr (None, record, snapshot)) c)"
  shows "stays I (install_staged sha seat E F record snapshot k op staged) d Q"
  using assms by (auto simp: stays_def install_staged_def split: prod.splits)

lemma stays_install:
  assumes ok: "journal_paths_ok J" and r: "rolling sha n J m d" and e: "(k, e) \<in> entries J"
    and s: "dk_files d (staged_path (seat_path n) k) = Some s" and free: "dk_files d (je_path e) = None"
    and w: "je_kind e = Op_Write" "je_staged e = Some (publication_record sha s)" "je_result e = Some (sha (fe_content s))"
    and E: "holds E d"
    and I: "\<And>c. rolling sha n J m c \<Longrightarrow> touches n k e d c \<Longrightarrow> I c"
    and Q: "\<And>c g. rolling sha n J m c \<Longrightarrow> touches n k e d c \<Longrightarrow> dk_files c (je_path e) = Some g \<Longrightarrow>
      fe_content g = fe_content s \<Longrightarrow> Q (Inr g) c"
  shows "stays I (promote_relative_new (staged_path (seat_path n) k) (je_path e) s E) d Q"
proof -
  let ?b = "backup_path (seat_path n) k" and ?p = "je_path e" and ?s = "staged_path (seat_path n) k"
  note en = rolling_entry [OF ok r e]
  have none: "\<not> exists_at d ?p" using free en(10) by (simp add: exists_at_def)
  have ne: "?s \<noteq> ?p" "?s \<noteq> []" "?s \<noteq> ?b" "?b \<noteq> ?p"
  proof -
    show "?s \<noteq> ?p" "?b \<noteq> ?p" using en(2) seat_members_private(1,2) [of n k] by metis+
    show "?s \<noteq> []" by (simp add: staged_path_def)
    show "?s \<noteq> ?b" by simp
  qed
  have grow: "rolling sha n J m c \<and> touches n k e d c" if "grown ?p d c" for c
    using grown_rolling [OF ok r e _ that] by simp
  have last: "rolling sha n J m z \<and> touches n k e d z \<and> dk_files z ?p = Some (s\<lparr>fe_ctime := dk_clock c\<rparr>)"
    if g: "grown ?p d c" and dir: "dir_at c (butlast ?p) \<noteq> None" and z: "z = advance (rename_file ?s ?p) c" for c z
  proof -
    have pl: "placeable c ?p" using grown_placeable [OF g dir en(3,4) none project_older [OF en(2)]] .
    have t: "touches n k e d z"
      unfolding z using touches_renamed [OF g s _ _ pl] by (simp add: entry_scope_def)
    have "dk_files c ?s = Some s" "dk_files c = dk_files d" using g s by (simp_all add: grown_def)
    then have files: "dk_files z = (dk_files d)(?s := None, ?p \<mapsto> s\<lparr>fe_ctime := dk_clock c\<rparr>)"
      by (simp add: z files_rename_file)
    have dirs: "dir_at z ?p = None" "dir_at z ?b = None"
      using pl rolling_entry(11) [OF ok conjunct1 [OF grow [OF g]] e] by (simp_all add: z placeable_def exists_at_def)
    have "snapshot_matches_record sha (s\<lparr>fe_ctime := dk_clock c\<rparr>) (je_staged e) (je_result e)"
      using w by (simp add: snapshot_matches_record_def publication_record_def)
    then have inst: "absent_or_staged sha z e" using files w(1) by (simp add: absent_or_staged_def)
    have anc: "\<forall>q \<in> set (ancestors ?p). dk_files z q = None"
      using files en(9) ancestor_project [OF en(2), of ?s] seat_members_private(2) not_own_ancestor [of ?p] by auto
    have "entry_state sha (seat_path n) m z k e"
      using en(7) files dirs anc inst free ne by (auto simp: entry_state_def split: option.splits if_splits)
    then show ?thesis using rolling_frame [OF ok r e t] t files by simp
  qed
  show ?thesis
    using en(1) E s ne(2,1) en(3) none project_growable [OF en(2)] en(9)
  proof (rule stays_promote)
    show "I c" if "grown ?p d c" for c using I grow [OF that] by blast
    show "I (advance (rename_file ?s ?p) c) \<and> Q (Inr (s\<lparr>fe_ctime := dk_clock c\<rparr>)) (advance (rename_file ?s ?p) c)"
      if "grown ?p d c" "dir_at c (butlast ?p) \<noteq> None" for c
      using last [OF that refl] I Q [of "advance (rename_file ?s ?p) c" "s\<lparr>fe_ctime := dk_clock c\<rparr>"] by simp
  qed
qed

section \<open>Applying all operations\<close>

definition commit_data ::
    "(content \<Rightarrow> string) \<Rightarrow> journal \<Rightarrow> operation list \<Rightarrow> file_entry option list \<Rightarrow> file_entry option list \<Rightarrow> bool" where
  "commit_data sha J ops pre staged =
     (jr_operations J = entry_list ops (published sha pre) (published sha staged)
      \<and> operations_ok sha ops \<and> plain_paths ops \<and> length pre = length ops \<and> length staged = length ops
      \<and> (\<forall>k < length ops. map_option fe_content (staged ! k) = map_option Data (op_data (ops ! k))
           \<and> snapshot_digest sha (pre ! k) = op_expected (ops ! k)))"

text \<open>What an operation leaves at its target.\<close>

definition left_behind :: "operation \<Rightarrow> file_entry option \<Rightarrow> content option" where
  "left_behind op f = (if op_kind op = Op_Check then map_option fe_content f else map_option Data (op_data op))"

definition progress ::
    "(content \<Rightarrow> string) \<Rightarrow> nat \<Rightarrow> journal \<Rightarrow> operation list \<Rightarrow> file_entry option list \<Rightarrow> file_entry option list \<Rightarrow>
     (path \<Rightarrow> content option) \<Rightarrow> nat \<Rightarrow> disk \<Rightarrow> bool" where
  "progress sha n J ops pre staged m k c =
     (rolling sha n J m c \<and> targets_clear c ops \<and> dk_files c (seat_path n @ [Name ''backups'']) = None
      \<and> (\<forall>l < length ops. if k \<le> l
           then dk_files c (op_path (ops ! l)) = pre ! l \<and> dk_files c (backup_path (seat_path n) l) = None
                \<and> dk_files c (staged_path (seat_path n) l) = staged ! l
           else map_option fe_content (dk_files c (op_path (ops ! l))) = left_behind (ops ! l) (pre ! l)))"

lemma operation_paths:
  assumes "operations_ok sha ops" "plain_paths ops" "k < length ops"
  shows "operation_ok sha (ops ! k)" "project_path (op_path (ops ! k))"
    and "l < length ops \<Longrightarrow> op_path (ops ! k) = op_path (ops ! l) \<longleftrightarrow> k = l"
    and "l < length ops \<Longrightarrow> op_path (ops ! k) \<notin> set (ancestors (op_path (ops ! l)))"
proof -
  show ok: "operation_ok sha (ops ! k)" using assms by (simp add: operations_ok_def list_all_length)
  have "list_all is_name (op_path (ops ! k))" using assms by (simp add: plain_paths_def list_all_length)
  then show "project_path (op_path (ops ! k))"
    using ok by (auto simp: project_path_def operation_ok_def is_below_iff state_root_def)
  show "l < length ops \<Longrightarrow> op_path (ops ! k) = op_path (ops ! l) \<longleftrightarrow> k = l"
    using assms nth_eq_iff_index_eq [of "map op_path ops" k l] by (simp add: operations_ok_def)
  show "l < length ops \<Longrightarrow> op_path (ops ! k) \<notin> set (ancestors (op_path (ops ! l)))"
    using assms by (simp add: plain_paths_def list_all_length)
qed

lemma seat_clock:
  assumes "rolling sha n J m c"
  shows "n < dk_clock c"
  using assms healthy_older [of c "seat_path n"] by (auto simp: rolling_def exists_at_def seat_path_def)

lemma scope_apart:
  assumes p: "project_path (je_path e)"
  shows "l \<noteq> k \<Longrightarrow> backup_path (seat_path n) l \<notin> entry_scope n k e" "l \<noteq> k \<Longrightarrow> staged_path (seat_path n) l \<notin> entry_scope n k e"
    and "seat_path n @ [Name s] \<notin> entry_scope n k e"
proof -
  have hidden: "\<not> project_path (seat_path n @ r)" for r using below_not_project [OF seat_private] .
  show "l \<noteq> k \<Longrightarrow> backup_path (seat_path n) l \<notin> entry_scope n k e" "l \<noteq> k \<Longrightarrow> staged_path (seat_path n) l \<notin> entry_scope n k e"
    "seat_path n @ [Name s] \<notin> entry_scope n k e"
    using p hidden unfolding entry_scope_def
    by (auto simp: backup_path_def staged_path_def guard_path_def, metis+)
qed

lemma progress_step:
  assumes d: "commit_data sha J ops pre staged" and p: "progress sha n J ops pre staged m k c" and k: "k < length ops"
    and e: "je_path e = op_path (ops ! k)" and t: "touches n k e c c'" and r: "rolling sha n J m c'"
    and a: "map_option fe_content (dk_files c' (op_path (ops ! k))) = left_behind (ops ! k) (pre ! k)"
    and clear: "dir_at c' (op_path (ops ! k)) = None"
  shows "progress sha n J ops pre staged m (Suc k) c'"
proof -
  have ok: "operations_ok sha ops" "plain_paths ops" using d by (simp_all add: commit_data_def)
  note paths = operation_paths [OF ok]
  have pe: "project_path (je_path e)" using paths(2) [OF k] e by simp
  have out: "op_path (ops ! l) \<notin> entry_scope n k e" if "l < length ops" "l \<noteq> k" for l
    using project_not_scope [OF paths(2) [OF that(1)], of n k e] paths(3) [OF that(1) k] e that(2) by auto
  have same: "dk_files c' q = dk_files c q" if "q \<notin> entry_scope n k e" for q using t that by (simp add: touches_def)
  have "dir_at c' (op_path (ops ! l)) = None \<and> (\<forall>q \<in> set (ancestors (op_path (ops ! l))). dk_files c' q = None)"
    if l: "l < length ops" for l
  proof -
    have old: "dir_at c (op_path (ops ! l)) = None" "\<forall>q \<in> set (ancestors (op_path (ops ! l))). dk_files c q = None"
      using p nth_mem [OF l] unfolding progress_def targets_clear_def by blast+
    have "op_path (ops ! l) \<notin> scope_dirs n k e"
      using paths(4) [OF l k] e backup_ancestors [of "op_path (ops ! l)" n k] paths(2) [OF l] by (auto simp: scope_dirs_def)
    then have "dir_at c' (op_path (ops ! l)) = None" using t old(1) by (auto simp: touches_def)
    moreover have "q \<notin> entry_scope n k e" if "q \<in> set (ancestors (op_path (ops ! l)))" for q
      using project_not_scope [OF ancestor_project [OF paths(2) [OF l] that]] paths(4) [OF k l] that e by auto
    ultimately show ?thesis using same old(2) by simp
  qed
  then have "targets_clear c' ops" unfolding targets_clear_def by (metis in_set_conv_nth)
  moreover have "dk_files c' (seat_path n @ [Name ''backups'']) = None"
    using same [OF scope_apart(3) [OF pe]] p by (simp add: progress_def)
  moreover have "dk_files c' (op_path (ops ! l)) = pre ! l \<and> dk_files c' (backup_path (seat_path n) l) = None
      \<and> dk_files c' (staged_path (seat_path n) l) = staged ! l" if "l < length ops" "Suc k \<le> l" for l
    using p that same [OF out [OF that(1)]] same [OF scope_apart(1) [OF pe, of l k n]] same [OF scope_apart(2) [OF pe, of l k n]]
    by (auto simp: progress_def)
  moreover have "map_option fe_content (dk_files c' (op_path (ops ! l))) = left_behind (ops ! l) (pre ! l)"
    if "l < length ops" "\<not> Suc k \<le> l" for l
    using p that same [OF out [OF that(1)]] a by (cases "l = k") (auto simp: progress_def)
  ultimately show ?thesis using r unfolding progress_def by simp
qed

lemma progress_skip:
  assumes p: "progress sha n J ops pre staged m k c" and k: "k < length ops" "op_kind (ops ! k) = Op_Check"
  shows "progress sha n J ops pre staged m (Suc k) c"
proof -
  have "map_option fe_content (dk_files c (op_path (ops ! k))) = left_behind (ops ! k) (pre ! k)"
    using p k by (simp add: progress_def left_behind_def)
  moreover have "\<not> Suc k \<le> l \<Longrightarrow> l = k \<or> \<not> k \<le> l" "Suc k \<le> l \<Longrightarrow> k \<le> l" for l by auto
  ultimately show ?thesis using p unfolding progress_def by (metis (full_types))
qed

lemma holds_keeps: "holds E c \<Longrightarrow> touches n k e c c' \<Longrightarrow> holds E c'"
  by (auto simp: holds_def touches_def)

lemma stays_apply_operation:
  assumes cd: "commit_data sha J ops pre staged" and ok: "journal_paths_ok J"
    and p: "progress sha n J ops pre staged m k c" and k: "k < length ops"
    and E: "holds project c" "holds seat c"
    and I: "\<And>c'. rolling sha n J m c' \<Longrightarrow> same_seats c c' \<Longrightarrow> I c'"
    and Q: "\<And>c'. progress sha n J ops pre staged m (Suc k) c' \<Longrightarrow> same_seats c c' \<Longrightarrow> holds project c' \<Longrightarrow> holds seat c' \<Longrightarrow>
      Q (Inr (None, J, snap)) c'"
  shows "stays I (apply_operation sha (seat_path n) project seat J snap (k, ops ! k, pre ! k, staged ! k)) c Q"
proof (cases "op_kind (ops ! k) = Op_Check")
  case True
  then show ?thesis
    using Q [OF progress_skip [OF p k True] _ E] by (simp add: apply_operation_def stays_simps same_seats_def)
next
  case False
  let ?op = "ops ! k" and ?b = "backup_path (seat_path n) k"
  let ?E = "merged (expectations_for project [op_path ?op, ?b]) seat"
  define e where "e = entry_record ?op k (published sha pre k) (published sha staged k)"
  have J: "jr_operations J = entry_list ops (published sha pre) (published sha staged)"
    and data: "map_option fe_content (staged ! k) = map_option Data (op_data ?op)" "snapshot_digest sha (pre ! k) = op_expected ?op"
    and okp: "operations_ok sha ops" "plain_paths ops"
    using cd k by (simp_all add: commit_data_def)
  have op: "operation_ok sha ?op" using operation_paths(1) [OF okp k] .
  have e: "(k, e) \<in> entries J" using entries_commit [OF J] k False by (simp add: e_def)
  have ef: "je_path e = op_path ?op" "je_expected e = op_expected ?op" "je_kind e = op_kind ?op" "je_result e = op_result ?op"
    "je_staged e = published sha staged k" by (simp_all add: e_def entry_record_def)
  have r: "rolling sha n J m c" and now: "dk_files c (op_path ?op) = pre ! k" "dk_files c ?b = None"
    "dk_files c (staged_path (seat_path n) k) = staged ! k" "dk_files c (seat_path n @ [Name ''backups'']) = None"
    using p k by (simp_all add: progress_def)
  note en = rolling_entry [OF ok r e]
  have seats: "same_seats c c'" if "touches n k e c c'" for c'
    using touches_same_seats [OF en(1) _ that en(2)] r by (simp add: rolling_def)
  have stepQ: "Q (Inr (None, J, snap)) c'" if t: "touches n k e c c'" and r': "rolling sha n J m c'"
      and a: "map_option fe_content (dk_files c' (op_path ?op)) = left_behind ?op (pre ! k)" for c'
    using Q [OF progress_step [OF cd p k ef(1) t r' a] seats [OF t] holds_keeps [OF E(1) t] holds_keeps [OF E(2) t]]
      rolling_entry(10) [OF ok r' e] ef(1) by simp
  let ?next = "if op_data ?op \<noteq> None
      then install_staged sha (seat_path n) ?E seat J snap k ?op (staged ! k)
      else if op_expected ?op = None
      then guarded J snap (andthen (secure_as (TransactionError ''transaction target is not a regular file'')
             (optional_snapshot (op_path ?op) (expectations_for project [op_path ?op]))) (\<lambda>found.
           demand (found = None) (TransactionConflict ''transaction target appeared while applying'')))
         (\<lambda>_. yields (None, J, snap))
      else yields (None, J, snap)"
  have later: "stays I ?next c1 Q"
    if c1: "rolling sha n J m c1" "touches n k e c c1" "dk_files c1 (op_path ?op) = None"
      "dk_files c1 (staged_path (seat_path n) k) = staged ! k" for c1
  proof (cases "op_data ?op")
    case None
    note en1 = rolling_entry [OF ok c1(1) e]
    have "left_behind ?op (pre ! k) = None" using None False by (simp add: left_behind_def)
    then have "Q (Inr (None, J, snap)) c1" using stepQ [OF c1(2,1)] c1(3) by simp
    moreover have P: "holds (expectations_for project [op_path ?op]) c1"
      using holds_expectations_for [OF holds_keeps [OF E(1) c1(2)]] .
    ultimately show ?thesis
      using None c1(3) en1(10) ef(1)
      by (simp add: stays_simps stays_optional_snapshot [OF en1(1) P en1(3) [unfolded ef(1)]] snapshot_result_def)
  next
    case (Some bs)
    then obtain s where s: "staged ! k = Some s" "fe_content s = Data bs" using data by auto
    have res: "op_result ?op = Some (sha (fe_content s))" "op_kind ?op = Op_Write"
      using op Some s by (simp_all add: operation_ok_def)
    have M: "holds ?E c1"
      using holds_merged [OF holds_expectations_for [OF holds_keeps [OF E(1) c1(2)]] holds_keeps [OF E(2) c1(2)]] .
    have "stays I (promote_relative_new (staged_path (seat_path n) k) (je_path e) s ?E) c1
        (\<lambda>r c. \<exists>g. r = Inr g \<and> sha (fe_content g) = sha (fe_content s) \<and> Q (Inr (None, J, snap)) c)"
    proof (rule stays_install [OF ok c1(1) e])
      show "dk_files c1 (staged_path (seat_path n) k) = Some s" using c1(4) s by simp
      show "je_staged e = Some (publication_record sha s)" using ef(5) s by (simp add: published_def)
      fix c2 assume c2: "rolling sha n J m c2" "touches n k e c1 c2"
      have t: "touches n k e c c2" using touches_trans [OF c1(2) c2(2)] .
      show "I c2" using I [OF c2(1) seats [OF t]] .
      fix g assume g: "dk_files c2 (je_path e) = Some g" "fe_content g = fe_content s"
      have "map_option fe_content (dk_files c2 (op_path ?op)) = left_behind ?op (pre ! k)"
        using g s Some False by (simp add: left_behind_def ef(1))
      then show "\<exists>g'. (Inr g :: tx_error + file_entry) = Inr g' \<and> sha (fe_content g') = sha (fe_content s) \<and> Q (Inr (None, J, snap)) c2"
        using stepQ [OF t c2(1)] g by simp
    qed (use c1(3) ef res M in simp_all)
    then show ?thesis
      using Some stays_install_staged [OF res(1) s(1), of I "seat_path n" k ?E c1 sha Q J snap seat] ef(1) by simp
  qed
  have "stays I (back_up (op_path ?op) ?b ?E ?op (pre ! k)) c (\<lambda>r c1. r = Inr () \<and> stays I ?next c1 Q)"
  proof (rule stays_back_up [OF ok r e seat_clock [OF r] now(2,4) ef(1,2)])
    show "op_expected ?op = None \<longleftrightarrow> pre ! k = None" using data(2) by (auto simp: snapshot_digest_def)
    show "holds ?E c" using holds_merged [OF holds_expectations_for [OF E(1)] E(2)] .
    show "I c1" if "rolling sha n J m c1" "touches n k e c c1" for c1 using I [OF that(1) seats [OF that(2)]] .
    show "(Inr () :: tx_error + unit) = Inr () \<and> stays I ?next c1 Q" if "rolling sha n J m c1" "touches n k e c c1"
      "dk_files c1 (op_path ?op) = None" "dk_files c1 (staged_path (seat_path n) k) = dk_files c (staged_path (seat_path n) k)" for c1
      using later that now(3) by simp
  qed (use now in simp)
  then have "stays I (back_up (op_path ?op) ?b ?E ?op (pre ! k)) c (\<lambda>r c1. case r of
      Inl x \<Rightarrow> Q (Inr (Some x, J, snap)) c1 | Inr _ \<Rightarrow> stays I ?next c1 Q)"
    by (rule stays_mono) auto
  moreover have "stays I (safe_target (op_path ?op)) c R = R (Inr ()) c" for R
    using en(9) ef(1) by (simp add: stays_safe_target)
  ultimately have "stays I (guarded J snap (andthen (safe_target (op_path ?op)) (\<lambda>_.
      back_up (op_path ?op) ?b ?E ?op (pre ! k))) (\<lambda>_. ?next)) c Q"
    by (simp only: stays_guarded stays_andthen sum.case)
  then show ?thesis using False by (simp only: apply_operation_def Let_def prod.case if_False)
qed

lemma stays_apply_operations:
  assumes cd: "commit_data sha J ops pre staged" and ok: "journal_paths_ok J"
    and "progress sha n J ops pre staged m k c" "k \<le> length ops" "holds project c" "holds seat c"
    and I: "\<And>c'. rolling sha n J m c' \<Longrightarrow> same_seats c c' \<Longrightarrow> I c'"
    and Q: "\<And>c'. progress sha n J ops pre staged m (length ops) c' \<Longrightarrow> same_seats c c' \<Longrightarrow> holds project c' \<Longrightarrow> holds seat c' \<Longrightarrow>
      Q (Inr (None, J, snap)) c'"
  shows "stays I (apply_operations sha (seat_path n) project seat J snap
    (map (\<lambda>k. (k, ops ! k, pre ! k, staged ! k)) [k..<length ops])) c Q"
  using assms(3-6) I Q
proof (induction "length ops - k" arbitrary: k c)
  case 0
  then show ?case by (simp add: stays_simps same_seats_def)
next
  case (Suc j)
  have k: "k < length ops" using Suc.hyps(2) by simp
  let ?tail = "map (\<lambda>k. (k, ops ! k, pre ! k, staged ! k)) [Suc k..<length ops]"
  have "stays I (apply_operation sha (seat_path n) project seat J snap (k, ops ! k, pre ! k, staged ! k)) c
      (\<lambda>r c'. r = Inr (None, J, snap) \<and> stays I (apply_operations sha (seat_path n) project seat J snap ?tail) c' Q)"
  proof (rule stays_apply_operation [OF cd ok Suc.prems(1) k Suc.prems(3,4)])
    show "I c'" if "rolling sha n J m c'" "same_seats c c'" for c' using Suc.prems(5) that .
    fix c' assume c': "progress sha n J ops pre staged m (Suc k) c'" "same_seats c c'" "holds project c'" "holds seat c'"
    have "stays I (apply_operations sha (seat_path n) project seat J snap ?tail) c' Q"
      using Suc.hyps(2) c' k Suc.prems(5,6) same_seats_trans [OF c'(2)]
      by (intro Suc.hyps(1)) auto
    then show "(Inr (None, J, snap) :: tx_error + outcome) = Inr (None, J, snap)
        \<and> stays I (apply_operations sha (seat_path n) project seat J snap ?tail) c' Q" by simp
  qed
  then show ?case
    using k by (simp add: upt_conv_Cons stays_simps) (elim stays_mono, auto)
qed

lemma committed_other:
  assumes "\<forall>op \<in> set ops. op_kind op \<noteq> Op_Check \<longrightarrow> op_path op \<noteq> p"
  shows "committed_contents ops m p = m p"
  using assms unfolding committed_contents_def
  by (induction ops arbitrary: m) (auto split: op_kind.split)

lemma committed_target:
  assumes "distinct (map op_path ops)" "op \<in> set ops" "operation_ok sha op" "op_kind op \<noteq> Op_Check"
  shows "committed_contents ops m (op_path op) = map_option Data (op_data op)"
  using assms(1,2)
proof (induction ops arbitrary: m)
  case (Cons o' ops)
  show ?case
  proof (cases "o' = op")
    case True
    then have "op_path op \<notin> op_path ` set ops" using Cons.prems by simp
    then have "\<forall>op' \<in> set ops. op_kind op' \<noteq> Op_Check \<longrightarrow> op_path op' \<noteq> op_path op" by (metis imageI)
    then have "committed_contents ops (apply_to_contents op m) (op_path op) = apply_to_contents op m (op_path op)"
      by (rule committed_other)
    also have "\<dots> = map_option Data (op_data op)"
      using assms(3,4) by (cases "op_kind op") (auto simp: operation_ok_def)
    finally show ?thesis by (simp add: committed_contents_def True)
  next
    case False
    then show ?thesis using Cons by (simp add: committed_contents_def)
  qed
qed simp

lemma progress_committed:
  assumes cd: "commit_data sha J ops pre staged" and p: "progress sha n J ops pre staged m (length ops) c"
  shows "contents c = committed_contents ops m"
proof
  fix q
  have okp: "operations_ok sha ops" "plain_paths ops" and J: "jr_operations J = entry_list ops (published sha pre) (published sha staged)"
    using cd by (simp_all add: commit_data_def)
  note paths = operation_paths [OF okp]
  show "contents c q = committed_contents ops m q"
  proof (cases "\<exists>k < length ops. op_kind (ops ! k) \<noteq> Op_Check \<and> op_path (ops ! k) = q")
    case True
    then obtain k where k: "k < length ops" "op_kind (ops ! k) \<noteq> Op_Check" "op_path (ops ! k) = q" by blast
    have "map_option fe_content (dk_files c q) = left_behind (ops ! k) (pre ! k)" using p k by (auto simp: progress_def)
    then show ?thesis
      using committed_target [OF _ nth_mem [OF k(1)] paths(1) [OF k(1)] k(2), of m] paths(2) [OF k(1)] k okp(1)
      by (simp add: contents_def left_behind_def operations_ok_def)
  next
    case False
    then have "q \<notin> je_path ` snd ` entries J"
      by (auto simp: entries_commit [OF J] entry_record_def)
    moreover have "committed_contents ops m q = m q"
      using False by (intro committed_other) (metis in_set_conv_nth)
    ultimately show ?thesis using p by (simp add: progress_def rolling_def)
  qed
qed

lemma progress_digests:
  assumes cd: "commit_data sha J ops pre staged" and p: "progress sha n J ops pre staged m (length ops) c"
  shows "\<forall>op \<in> set ops. snapshot_digest sha (dk_files c (op_path op)) =
    (if op_kind op = Op_Check then op_expected op else op_result op)"
proof
  fix op assume "op \<in> set ops"
  then obtain k where k: "k < length ops" "op = ops ! k" by (metis in_set_conv_nth)
  have okp: "operations_ok sha ops" "plain_paths ops" "snapshot_digest sha (pre ! k) = op_expected op"
    using cd k by (simp_all add: commit_data_def)
  have dig: "snapshot_digest sha f = map_option sha (map_option fe_content f)" for f
    by (simp add: snapshot_digest_def option.map_comp comp_def)
  have "map_option fe_content (dk_files c (op_path op)) = left_behind op (pre ! k)" using p k by (auto simp: progress_def)
  then show "snapshot_digest sha (dk_files c (op_path op)) = (if op_kind op = Op_Check then op_expected op else op_result op)"
    using okp(3) operation_paths(1) [OF okp(1,2) k(1)] k(2)
    by (auto simp: dig left_behind_def operation_ok_def option.map_comp comp_def)
qed

lemma journal_step_rolling:
  assumes ok: "journal_paths_ok J" and r: "rolling sha n J m d" and c: "journal_step (seat_path n) d c"
  shows "rolling sha n J m c"
proof -
  have same: "dk_files c q = dk_files d q" if "q \<notin> journal_names (seat_path n)" for q
    using c that by (simp add: journal_step_def)
  have dirs: "dir_at c q = dir_at d q" "healthy c" for q using c by (simp_all add: journal_step_def)
  have project: "dk_files c q = dk_files d q" if "project_path q" for q
    using same journal_names_apart(5) that by blast
  have "entry_state sha (seat_path n) m c k e" if e: "(k, e) \<in> entries J" for k e
  proof -
    note en = rolling_entry [OF ok r e]
    show ?thesis
      using entry_state_cong [OF en(7), of c] en(10,11) project [OF en(2)] project [OF ancestor_project [OF en(2)]]
        same [OF journal_names_apart(1)] dirs(1) by simp
  qed
  moreover have "contents c = contents d" using project by (auto simp: contents_def fun_eq_iff)
  ultimately show ?thesis using r dirs by (auto simp: rolling_def holds_def)
qed

lemma journal_step_progress:
  assumes cd: "commit_data sha J ops pre staged" and ok: "journal_paths_ok J"
    and p: "progress sha n J ops pre staged m k d" and c: "journal_step (seat_path n) d c"
  shows "progress sha n J ops pre staged m k c"
proof -
  have r: "rolling sha n J m c" using journal_step_rolling [OF ok _ c] p by (simp add: progress_def)
  have same: "dk_files c q = dk_files d q" if "q \<notin> journal_names (seat_path n)" for q
    using c that by (simp add: journal_step_def)
  have project: "dk_files c q = dk_files d q" if "project_path q" for q
    using same journal_names_apart(5) that by blast
  have okp: "operations_ok sha ops" "plain_paths ops" using cd by (simp_all add: commit_data_def)
  have path: "project_path (op_path op)" if "op \<in> set ops" for op
    using operation_paths(2) [OF okp] that by (metis in_set_conv_nth)
  have "targets_clear c ops"
    using p project ancestor_project [OF path] c unfolding progress_def targets_clear_def journal_step_def by metis
  then show ?thesis
    using p r same [OF journal_names_apart(1)] same [OF journal_names_apart(2)] same [OF journal_names_apart(3)]
      project [OF path [OF nth_mem]] unfolding progress_def by simp
qed

end
