(* ===== verification/Transaction_Safety.thy ===== *)
theory Transaction_Safety
  imports Transaction_Commit
begin

text \<open>
  The whole commit and its crashes: every disk a commit or a recovery passes through leads
  recovery to the old or the new project, and what a commit returns or raises tells which.
\<close>

section \<open>Sealing\<close>

definition applying :: "(content \<Rightarrow> string) \<Rightarrow> nat \<Rightarrow> nat \<Rightarrow> nat \<Rightarrow> journal \<Rightarrow> (path \<Rightarrow> content option) \<Rightarrow> file_entry \<Rightarrow> disk \<Rightarrow> bool" where
  "applying sha n i root J m j d =
     (rolling sha n J m d \<and> dk_files d (journal_path (seat_path n)) = Some j \<and> fe_content j = Journal J
      \<and> only_seat n d \<and> dir_at d (seat_path n) = Some i \<and> dir_at d state_root = Some root)"

lemma applying_seats:
  assumes a: "applying sha n i root J m j d" and r: "rolling sha n J m c" and s: "same_seats d c"
  shows "applying sha n i root J m j c"
  using assms by (simp add: applying_def same_seats_def only_seat_def seat_path_def)

lemma applying_survives:
  assumes "applying sha n i root J m j d" "journal_paths_ok J" "valid_journal n J" "jr_state J = Applying"
  shows "survives sha m d"
proof -
  have "interrupted_at sha n J m d"
    using assms by (simp add: interrupted_at_def applying_def only_seat_def)
  then show ?thesis by (auto simp: survives_def recoverable_def)
qed

lemma journal_step_applying:
  assumes ok: "journal_paths_ok J" and a: "applying sha n i root J m j d" and c: "journal_step (seat_path n) d c"
    and f: "dk_files c (journal_path (seat_path n)) = Some j'" "fe_content j' = Journal J"
  shows "applying sha n i root J m j' c"
  using journal_step_rolling [OF ok _ c] a c f by (auto simp: applying_def journal_step_def only_seat_def)

definition sealed :: "nat \<Rightarrow> nat \<Rightarrow> nat \<Rightarrow> (path \<Rightarrow> content option) \<Rightarrow> file_entry option \<Rightarrow> disk \<Rightarrow> bool" where
  "sealed n i root m j d =
     (settled m d \<and> only_seat n d \<and> dir_at d (seat_path n) = Some i \<and> dir_at d state_root = Some root
      \<and> dk_files d (journal_path (seat_path n)) = j)"

lemma stays_apply_and_seal:
  assumes cd: "commit_data sha J ops pre staged" and ok: "journal_paths_ok J"
    and v: "valid_journal n J" "jr_state J = Applying"
    and a: "applying sha n i root J m j d" and p: "progress sha n J ops pre staged m 0 d" and E: "holds project d"
    and I: "\<And>c. survives sha m c \<Longrightarrow> I c" "\<And>c. survives sha (committed_contents ops m) c \<Longrightarrow> I c"
    and Q: "\<And>c f. sealed n i root (committed_contents ops m) (Some f) c \<Longrightarrow> Q (Inr (None, J\<lparr>jr_state := Committed\<rparr>, Some f)) c"
  shows "stays I (apply_and_seal sha (seat_path n) project (seat_expectations (seat_path n) i root) ops pre staged J (Some j)) d Q"
proof -
  let ?S = "seat_expectations (seat_path n) i root" and ?post = "committed_contents ops m"
  let ?C = "J\<lparr>jr_state := Committed\<rparr>"
  have S: "holds ?S c" if "applying sha n i root J m j c" for c
    using that seat_expectations_hold by (simp add: applying_def seat_path_def)
  have vC: "valid_journal n ?C" using v by (auto simp: valid_journal_def)
  have steps: "zip [0..<length ops] (zip ops (zip pre staged)) = map (\<lambda>k. (k, ops ! k, pre ! k, staged ! k)) [0..<length ops]"
    using cd by (intro nth_equalityI) (simp_all add: commit_data_def)
  have seal: "stays I (guarded J (Some j) (verify_postimages sha ops project) (\<lambda>_.
      guarded ?C (Some j) (write_journal (seat_path n) ?C (Some j) ?S) (\<lambda>sealed. yields (None, ?C, Some sealed)))) c Q"
    if c: "applying sha n i root J m j c" "progress sha n J ops pre staged m (length ops) c" "holds project c" for c
  proof -
    have h: "healthy c" using c by (simp add: applying_def rolling_def)
    have okp: "operations_ok sha ops" "plain_paths ops" using cd by (simp_all add: commit_data_def)
    have ne: "\<forall>op \<in> set ops. op_path op \<noteq> []"
      using okp(1) by (auto simp: operations_ok_def list_all_iff operation_ok_def)
    have "targets_clear c ops" using c by (simp add: progress_def)
    note verify = stays_verify_postimages [OF h c(3) ne this progress_digests [OF cd c(2)]]
    have con: "contents c = ?post" using progress_committed [OF cd c(2)] .
    have new: "sealed n i root ?post j' c'"
      if c': "journal_step (seat_path n) c c'" "dk_files c' (journal_path (seat_path n)) = j'"
        "\<And>f. j' = Some f \<Longrightarrow> fe_content f = Journal ?C" for c' j'
    proof -
      have "contents c' = contents c"
        by (rule contents_outside) (use c'(1) journal_names_private in \<open>auto simp: journal_step_def\<close>)
      moreover have "quiet_journal (Uuid n) f" if "j' = Some f" for f
        using c'(3) [OF that] vC by (simp add: quiet_journal_def)
      moreover have "only_seat n c'" "healthy c'"
        using c(1) c'(1) by (simp_all add: applying_def only_seat_def journal_step_def)
      ultimately have "settled ?post c'" using con c' by (intro settledI [of _ n]) auto
      then show ?thesis using c(1) c'(1,2) by (simp add: sealed_def applying_def journal_step_def only_seat_def)
    qed
    have mark: "stays I (write_journal (seat_path n) ?C (Some j) ?S) c (\<lambda>r c'. \<exists>f. r = Inr f \<and> Q (Inr (None, ?C, Some f)) c')"
    proof (rule stays_write_journal [OF h S [OF c(1)]])
      show "dir_at c (seat_path n) \<noteq> None" "dk_files c (journal_path (seat_path n)) = Some j"
        using c(1) by (simp_all add: applying_def)
      show "dir_at c (journal_path (seat_path n)) = None" using healthy_journal_file [OF h] by (simp add: seat_path_def)
      fix c' assume c': "journal_step (seat_path n) c c'"
      show "I c'" if "dk_files c' (journal_path (seat_path n)) = Some j \<or> dk_files c' (journal_path (seat_path n)) = None
          \<or> (\<exists>f. dk_files c' (journal_path (seat_path n)) = Some f \<and> fe_content f = Journal ?C)"
      proof (cases "dk_files c' (journal_path (seat_path n)) = Some j")
        case True
        have "applying sha n i root J m j c'"
          using journal_step_applying [OF ok c(1) c' True] c(1) by (simp add: applying_def)
        then show ?thesis using I(1) applying_survives ok v by blast
      next
        case False
        then have "sealed n i root ?post (dk_files c' (journal_path (seat_path n))) c'"
          using that by (intro new [OF c' refl]) auto
        then show ?thesis using I(2) by (simp add: sealed_def survives_def recoverable_def)
      qed
      show "\<exists>g. (Inr f :: tx_error + file_entry) = Inr g \<and> Q (Inr (None, ?C, Some g)) c'"
        if "dk_files c' (journal_path (seat_path n)) = Some f" "fe_content f = Journal ?C" for f
        using Q new [OF c' that(1)] that(2) by simp
    qed
    have "stays I (guarded ?C (Some j) (write_journal (seat_path n) ?C (Some j) ?S) (\<lambda>sealed. yields (None, ?C, Some sealed))) c Q"
      unfolding stays_guarded by (rule stays_mono [OF mark]) (auto simp: stays_simps)
    then show ?thesis
      unfolding stays_guarded [of I J] by (intro stays_mono [OF verify]) auto
  qed
  have "stays I (apply_operations sha (seat_path n) project ?S J (Some j)
      (map (\<lambda>k. (k, ops ! k, pre ! k, staged ! k)) [0..<length ops])) d (\<lambda>r c. r = Inr (None, J, Some j)
      \<and> stays I (guarded J (Some j) (verify_postimages sha ops project) (\<lambda>_.
      guarded ?C (Some j) (write_journal (seat_path n) ?C (Some j) ?S) (\<lambda>sealed. yields (None, ?C, Some sealed)))) c Q)"
  proof (rule stays_apply_operations [OF cd ok p _ E S [OF a]])
    show "I c" if "rolling sha n J m c" "same_seats d c" for c
      using I(1) applying_survives [OF applying_seats [OF a that] ok v] .
    show "(Inr (None, J, Some j) :: tx_error + outcome) = Inr (None, J, Some j)
        \<and> stays I (guarded J (Some j) (verify_postimages sha ops project) (\<lambda>_.
        guarded ?C (Some j) (write_journal (seat_path n) ?C (Some j) ?S) (\<lambda>sealed. yields (None, ?C, Some sealed)))) c Q"
      if "progress sha n J ops pre staged m (length ops) c" "same_seats d c" "holds project c" for c
      using seal [OF applying_seats [OF a _ that(2)] that(1,3)] that(1) by (simp add: progress_def)
  qed simp
  then show ?thesis
    unfolding apply_and_seal_def steps stays_andthen by (rule stays_mono) auto
qed

section \<open>The body of a commit\<close>

text \<open>The targets as they were captured.\<close>

definition captured ::
    "(content \<Rightarrow> string) \<Rightarrow> operation list \<Rightarrow> file_entry option list \<Rightarrow> disk \<Rightarrow> bool" where
  "captured sha ops pre d =
     (targets_clear d ops \<and> pre = map (\<lambda>op. dk_files d (op_path op)) ops
      \<and> (\<forall>op \<in> set ops. snapshot_digest sha (dk_files d (op_path op)) = op_expected op))"

lemma captured_journal_step:
  assumes okp: "operations_ok sha ops" "plain_paths ops" and c: "captured sha ops pre d" and s: "journal_step (seat_path n) d c"
  shows "captured sha ops pre c"
proof -
  have project: "dk_files c q = dk_files d q" if "project_path q" for q
    using s journal_names_apart(5) that by (auto simp: journal_step_def)
  have path: "project_path (op_path op)" if "op \<in> set ops" for op
    using operation_paths(2) [OF okp] that by (metis in_set_conv_nth)
  have "dk_files c q = None" if "op \<in> set ops" "q \<in> set (ancestors (op_path op))" for op q
    using that project [OF ancestor_project [OF path]] c by (auto simp: captured_def targets_clear_def)
  then have "targets_clear c ops" using c s by (simp add: captured_def targets_clear_def journal_step_def)
  then show ?thesis using c project [OF path] by (simp add: captured_def)
qed

lemma staged_journal_step: "staged_ok n ops staged d \<Longrightarrow> journal_step (seat_path n) d c \<Longrightarrow> staged_ok n ops staged c"
  using journal_names_apart(2) by (simp add: staged_ok_def journal_step_def)

lemma start_progress:
  assumes s: "staging n i root m j d" and st: "staged_ok n ops staged d" and cap: "captured sha ops pre d"
    and okp: "operations_ok sha ops" "plain_paths ops"
    and J: "jr_operations J = entry_list ops (published sha pre) (published sha staged)"
      "jr_directories J = map (\<lambda>p. (p, map_of project p)) ps" and E: "holds project d"
  shows "commit_data sha J ops pre staged" "progress sha n J ops pre staged m 0 d"
proof -
  have pre: "pre ! k = dk_files d (op_path (ops ! k))" "snapshot_digest sha (pre ! k) = op_expected (ops ! k)" if "k < length ops" for k
    using cap that by (simp_all add: captured_def)
  show "commit_data sha J ops pre staged"
    using J(1) okp st pre(2) cap by (auto simp: commit_data_def staged_ok_def captured_def)
  have con: "contents d = m" and nb: "no_backups n d" and h: "healthy d"
    using s by (simp_all add: staging_def settled_def)
  have "entry_state sha (seat_path n) m d k e" if e: "(k, e) \<in> entries J" for k e
  proof -
    have k: "k < length ops" and ek: "e = entry_record (ops ! k) k (published sha pre k) (published sha staged k)"
      using e entries_commit [OF J(1)] by auto
    have clear: "dir_at d (op_path (ops ! k)) = None" "\<forall>q \<in> set (ancestors (op_path (ops ! k))). dk_files d q = None"
      using cap nth_mem [OF k] by (auto simp: captured_def targets_clear_def)
    have m: "m (op_path (ops ! k)) = map_option fe_content (pre ! k)"
      using operation_paths(2) [OF okp k] pre(1) [OF k] con by (auto simp: contents_def)
    show ?thesis
    proof (cases "pre ! k")
      case None
      then show ?thesis
        using clear nb m pre [OF k] by (simp add: entry_state_def ek entry_record_def no_backups_def absent_or_staged_def snapshot_digest_def)
    next
      case (Some f)
      then have "op_expected (ops ! k) = Some (sha (fe_content f))" using pre(2) [OF k] by (simp add: snapshot_digest_def)
      then show ?thesis
        using Some clear nb m pre(1) [OF k]
        by (simp add: entry_state_def ek entry_record_def no_backups_def is_preimage_def snapshot_matches_record_def published_def)
    qed
  qed
  then have "rolling sha n J m d"
    using s h con recorded_holds [OF E J(2)] by (auto simp: rolling_def staging_def)
  then show "progress sha n J ops pre staged m 0 d"
    using cap nb st pre(1) by (simp add: progress_def captured_def no_backups_def staged_ok_def)
qed

lemma stays_apply_journal:
  assumes s: "staging n i root m (Some j) d" and st: "staged_ok n ops staged d" and cap: "captured sha ops pre d"
    and okp: "operations_ok sha ops" "plain_paths ops" "hex_digests sha"
    and E: "holds project d" "map_of project [] \<noteq> None"
    and J: "J = (commit_record sha n ops project pre staged)\<lparr>jr_state := Applying\<rparr>"
    and I: "\<And>c. survives sha m c \<Longrightarrow> I c" "\<And>c. survives sha (committed_contents ops m) c \<Longrightarrow> I c"
    and Q: "\<And>c r f. sealed n i root (committed_contents ops m) (Some f) c \<Longrightarrow> Q (Inr (None, r, Some f)) c"
  defines "S \<equiv> seat_expectations (seat_path n) i root"
  shows "stays I (guarded J (Some j) (write_journal (seat_path n) J (Some j) S) (\<lambda>j3.
    apply_and_seal sha (seat_path n) project S ops pre staged J (Some j3))) d Q"
proof -
  have l: "length staged = length ops" "length pre = length ops" using st cap by (auto simp: staged_ok_def captured_def)
  note facts = commit_record_facts [OF l, of sha n project]
  have Jf: "jr_operations J = entry_list ops (published sha pre) (published sha staged)" "jr_state J = Applying"
    "jr_directories J = map (\<lambda>p. (p, map_of project p)) (journal_paths ops)"
    using facts by (simp_all add: J)
  have v: "valid_journal n J"
    by (rule valid_entry_list [OF okp(1,3) Jf(1)]) (use facts E(2) Jf(3) in \<open>auto simp: J\<close>)
  have ok: "journal_paths_ok J" using commit_paths_ok [OF okp(1,2) Jf(1)] .
  note start = start_progress [OF s st cap okp(1,2) Jf(1,3) E(1)]
  have h: "healthy d" using staging_healthy [OF s] .
  have new: "applying sha n i root J m j3 c" if c: "journal_step (seat_path n) d c"
      and f: "dk_files c (journal_path (seat_path n)) = Some j3" "fe_content j3 = Journal J" for c j3
  proof -
    have "rolling sha n J m c" using journal_step_progress [OF start(1) ok start(2) c] by (simp add: progress_def)
    then show ?thesis using s c f by (simp add: applying_def staging_def journal_step_def only_seat_def)
  qed
  have "stays I (write_journal (seat_path n) J (Some j) S) d (\<lambda>r c. \<exists>f. r = Inr f \<and>
      stays I (apply_and_seal sha (seat_path n) project S ops pre staged J (Some f)) c Q)"
  proof (rule stays_write_journal [OF h])
    show "holds S d" unfolding S_def using staging_expectations [OF s] .
    show "dir_at d (seat_path n) \<noteq> None" "dk_files d (journal_path (seat_path n)) = Some j"
      using s by (simp_all add: staging_def)
    show "dir_at d (journal_path (seat_path n)) = None" using healthy_journal_file [OF h] by (simp add: seat_path_def)
    fix c assume c: "journal_step (seat_path n) d c"
    show "I c" if "dk_files c (journal_path (seat_path n)) = Some j \<or> dk_files c (journal_path (seat_path n)) = None
        \<or> (\<exists>f. dk_files c (journal_path (seat_path n)) = Some f \<and> fe_content f = Journal J)"
    proof (cases "dk_files c (journal_path (seat_path n)) \<in> {Some j, None}")
      case True
      then have "staging n i root m (dk_files c (journal_path (seat_path n))) c"
        using staging_quiet [OF s] by (intro journal_step_staging [OF s c refl]) auto
      then show ?thesis using I(1) staging_survives by blast
    next
      case False
      then show ?thesis using that new [OF c] I(1) applying_survives [OF _ ok v Jf(2)] by blast
    qed
    show "\<exists>g. (Inr f :: tx_error + file_entry) = Inr g \<and>
        stays I (apply_and_seal sha (seat_path n) project S ops pre staged J (Some g)) c Q"
      if f: "dk_files c (journal_path (seat_path n)) = Some f" "fe_content f = Journal J" for f
    proof -
      have "holds project c" using E(1) c by (simp add: holds_def journal_step_def)
      then have "stays I (apply_and_seal sha (seat_path n) project S ops pre staged J (Some f)) c Q"
        unfolding S_def
        by (rule stays_apply_and_seal [OF start(1) ok v Jf(2) new [OF c f] journal_step_progress [OF start(1) ok start(2) c]])
           (use I Q in blast)+
      then show ?thesis by simp
    qed
  qed
  then show ?thesis unfolding stays_guarded by (rule stays_mono) auto
qed

text \<open>A step of the body whose failure ends it with a prepared record.\<close>

lemma stays_guarded_step:
  assumes "stays I p d R" "\<And>e c. R (Inl e) c \<Longrightarrow> Q (Inr (Some e, r, j)) c" "\<And>x c. R (Inr x) c \<Longrightarrow> stays I (f x) c Q"
  shows "stays I (guarded r j p f) d Q"
  unfolding stays_guarded by (rule stays_mono [OF assms(1)]) (use assms(2,3) in \<open>auto split: sum.split\<close>)

lemma stays_journal_and_apply:
  assumes s: "staging n i root m (Some j) d" and st: "staged_ok n ops staged d" and cap: "captured sha ops pre d"
    and okp: "operations_ok sha ops" "plain_paths ops" "hex_digests sha"
    and E: "holds project d" "map_of project [] \<noteq> None"
    and I: "\<And>c. survives sha m c \<Longrightarrow> I c" "\<And>c. survives sha (committed_contents ops m) c \<Longrightarrow> I c"
    and Q: "\<And>c r f. sealed n i root (committed_contents ops m) (Some f) c \<Longrightarrow> Q (Inr (None, r, Some f)) c"
  defines "S \<equiv> seat_expectations (seat_path n) i root"
  shows "stays I (journal_and_apply sha (seat_path n) project S ops pre staged
    (commit_record sha n ops project pre staged) j) d Q"
proof -
  let ?r = "commit_record sha n ops project pre staged"
  have l: "length staged = length ops" "length pre = length ops" using st cap by (auto simp: staged_ok_def captured_def)
  note facts = commit_record_facts [OF l, of sha n project]
  have v: "valid_journal n ?r"
    by (rule valid_entry_list [OF okp(1,3) facts(1)]) (use facts E(2) in auto)
  have "stays I (write_journal (seat_path n) ?r (Some j) S) d (\<lambda>r c. \<exists>j2. r = Inr j2 \<and>
      staging n i root m (Some j2) c \<and> staged_ok n ops staged c \<and> captured sha ops pre c \<and> holds project c)"
    unfolding S_def
    by (rule stays_staging_journal [OF s v _ I(1)])
       (use facts(6) st cap E captured_journal_step [OF okp(1,2)] staged_journal_step in
         \<open>auto simp: holds_def journal_step_def\<close>)
  then show ?thesis
    unfolding journal_and_apply_def Let_def
  proof (rule stays_guarded_step)
    fix j2 c assume "\<exists>x. (Inr j2 :: tx_error + file_entry) = Inr x \<and>
        staging n i root m (Some x) c \<and> staged_ok n ops staged c \<and> captured sha ops pre c \<and> holds project c"
    then have c: "staging n i root m (Some j2) c" "staged_ok n ops staged c" "captured sha ops pre c" "holds project c" by auto
    show "stays I (guarded (?r\<lparr>jr_state := Applying\<rparr>) (Some j2) (write_journal (seat_path n) (?r\<lparr>jr_state := Applying\<rparr>) (Some j2) S)
        (\<lambda>j. apply_and_seal sha (seat_path n) project S ops pre staged (?r\<lparr>jr_state := Applying\<rparr>) (Some j))) c Q"
      unfolding S_def by (rule stays_apply_journal [OF c(1-3) okp c(4) E(2) refl]) (use I Q in blast)+
  qed simp
qed

lemma stays_capture_and_apply:
  assumes s: "staging n i root m (Some j) d" and st: "staged_ok n ops staged d"
    and okp: "operations_ok sha ops" "plain_paths ops" "hex_digests sha"
    and r: "r = set_staged sha staged (journal_record ops (Uuid n) (Uuid n) Prepared)"
    and I: "\<And>c. survives sha m c \<Longrightarrow> I c" "\<And>c. survives sha (committed_contents ops m) c \<Longrightarrow> I c"
    and Q: "\<And>c r f. sealed n i root (committed_contents ops m) (Some f) c \<Longrightarrow> Q (Inr (None, r, Some f)) c"
    and F: "\<And>c e r j. staging n i root m j c \<Longrightarrow> valid_journal n r \<Longrightarrow> jr_state r = Prepared \<Longrightarrow> Q (Inr (Some e, r, j)) c"
    and v: "valid_journal n r" "jr_state r = Prepared"
  shows "stays I (capture_and_apply sha (seat_path n) (seat_expectations (seat_path n) i root) ops staged r j) d Q"
proof -
  let ?S = "seat_expectations (seat_path n) i root"
  have l: "length staged = length ops" using st by (simp add: staged_ok_def)
  have h: "healthy d" using staging_healthy [OF s] .
  have ne: "\<forall>op \<in> set ops. op_path op \<noteq> []" using okp(1) by (auto simp: operations_ok_def list_all_iff operation_ok_def)
  have inner: "stays I (guarded (set_directories ops project r) (Some j) (capture_preimages sha ops project) (\<lambda>preimages.
      journal_and_apply sha (seat_path n) project ?S ops preimages staged (set_preimages sha preimages (set_directories ops project r)) j)) d Q"
    if E: "holds project d" "map_of project [] \<noteq> None" for project
  proof -
    have "jr_operations (set_directories ops project r) = entry_list ops (\<lambda>_. None) (published sha staged)"
      using entry_list_staged [OF entry_list_new l, of sha] by (simp add: r set_directories_def)
    then have v2: "valid_journal n (set_directories ops project r)"
      by (rule valid_entry_list [OF okp(1,3)])
         (use E(2) in \<open>auto simp: r set_directories_def set_staged_def journal_record_def\<close>)
    have "jr_state (set_directories ops project r) = Prepared" using v(2) by (simp add: set_directories_def)
    note fail = F [OF s v2 this]
    have "stays I (capture_preimages sha ops project) d (\<lambda>r c. c = d \<and> (\<forall>pre. r = Inr pre \<longrightarrow> captured sha ops pre d))"
      by (rule stays_mono [OF stays_capture_preimages [OF h E(1) ne]]) (auto simp: captured_def)
    then show ?thesis
    proof (rule stays_guarded_step)
      fix pre c assume c: "c = d \<and> (\<forall>found. (Inr pre :: tx_error + file_entry option list) = Inr found \<longrightarrow> captured sha ops found d)"
      then have cap: "captured sha ops pre d" by simp
      have "stays I (journal_and_apply sha (seat_path n) project ?S ops pre staged (commit_record sha n ops project pre staged) j) d Q"
        by (rule stays_journal_and_apply [OF s st cap okp E]) (use I Q in blast)+
      then show "stays I (journal_and_apply sha (seat_path n) project ?S ops pre staged
          (set_preimages sha pre (set_directories ops project r)) j) c Q"
        using c by (simp add: r commit_record_def)
    qed (use fail in simp)
  qed
  show ?thesis
    unfolding capture_and_apply_def Let_def
    using stays_capture_directories
  proof (rule stays_guarded_step)
    fix project c assume "c = d \<and> (\<forall>E. (Inr project :: tx_error + expectations) = Inr E \<longrightarrow> holds E d \<and> map_of E [] \<noteq> None)"
    then show "stays I (guarded (set_directories ops project r) (Some j) (capture_preimages sha ops project) (\<lambda>preimages.
        journal_and_apply sha (seat_path n) project ?S ops preimages staged (set_preimages sha preimages (set_directories ops project r)) j)) c Q"
      using inner by simp
  qed (use F [OF s v] in simp)
qed

lemma stays_commit_body:
  assumes s: "staging n i root m None d" and none: "\<forall>k. \<not> exists_at d (staged_path (seat_path n) k)" "\<not> exists_at d (marker_path n)"
    and okp: "operations_ok sha ops" "plain_paths ops" "hex_digests sha"
    and I: "\<And>c. survives sha m c \<Longrightarrow> I c" "\<And>c. survives sha (committed_contents ops m) c \<Longrightarrow> I c"
    and Q: "\<And>c r f. sealed n i root (committed_contents ops m) (Some f) c \<Longrightarrow> Q (Inr (None, r, Some f)) c"
    and F: "\<And>c e r j. staging n i root m j c \<Longrightarrow> valid_journal n r \<Longrightarrow> jr_state r = Prepared \<Longrightarrow> Q (Inr (Some e, r, j)) c"
  shows "stays I (commit_body sha (seat_path n) (seat_expectations (seat_path n) i root) ops (Uuid n)) d Q"
proof -
  let ?S = "seat_expectations (seat_path n) i root"
  define r0 where "r0 = journal_record ops (Uuid n) (Uuid n) Prepared"
  have v0: "valid_journal n r0" "jr_state r0 = Prepared"
    unfolding r0_def
    by (rule valid_entry_list [OF okp(1,3) entry_list_new]) (simp_all add: journal_record_def)
  have v1: "valid_journal n (set_staged sha staged r0)" "jr_state (set_staged sha staged r0) = Prepared"
    if "length staged = length ops" for staged
    unfolding r0_def
    by (rule valid_entry_list [OF okp(1,3) entry_list_staged [OF entry_list_new that]])
       (simp_all add: journal_record_def set_staged_def)
  let ?third = "\<lambda>staged j0. guarded (set_staged sha staged r0) (Some j0) (write_journal (seat_path n) (set_staged sha staged r0) (Some j0) ?S)
    (capture_and_apply sha (seat_path n) ?S ops staged (set_staged sha staged r0))"
  have third: "stays I (?third staged j0) c Q"
    if c: "staging n i root m (Some j0) c" "staged_ok n ops staged c" for staged j0 c
  proof -
    have l: "length staged = length ops" using c by (simp add: staged_ok_def)
    have "stays I (write_journal (seat_path n) (set_staged sha staged r0) (Some j0) ?S) c (\<lambda>r c'. \<exists>j1. r = Inr j1 \<and>
        staging n i root m (Some j1) c' \<and> staged_ok n ops staged c')"
      by (rule stays_staging_journal [OF c(1) v1(1) [OF l] _ I(1)]) (use v1(2) [OF l] c staged_journal_step in auto)
    then show ?thesis
    proof (rule stays_guarded_step)
      fix j1 c' assume "\<exists>x. (Inr j1 :: tx_error + file_entry) = Inr x \<and> staging n i root m (Some x) c' \<and> staged_ok n ops staged c'"
      then have c': "staging n i root m (Some j1) c'" "staged_ok n ops staged c'" by auto
      show "stays I (capture_and_apply sha (seat_path n) ?S ops staged (set_staged sha staged r0) j1) c' Q"
        by (rule stays_capture_and_apply [OF c' okp _ _ _ _ _ v1 [OF l]]) (use I Q F in \<open>auto simp: r0_def\<close>)
    qed simp
  qed
  have second: "stays I (guarded r0 (Some j0) (collect (stage_operation (seat_path n) ?S) (enumerate 0 ops)) (\<lambda>staged.
      guarded r0 (Some j0) (publish_backup_marker (seat_path n) ?S ops) (\<lambda>_. ?third staged j0))) c Q"
    if c: "staging n i root m (Some j0) c" "\<forall>k. \<not> exists_at c (staged_path (seat_path n) k)" "\<not> exists_at c (marker_path n)" for j0 c
  proof -
    have marker: "stays I (guarded r0 (Some j0) (publish_backup_marker (seat_path n) ?S ops) (\<lambda>_. ?third staged j0)) c' Q"
      if c': "staging n i root m (Some j0) c'" "staged_ok n ops staged c'" "\<not> exists_at c' (marker_path n)" for staged c'
    proof -
      have "stays I (publish_backup_marker (seat_path n) ?S ops) c' (\<lambda>r c''. r = Inr () \<and>
          staging n i root m (Some j0) c'' \<and> staged_ok n ops staged c'')"
        by (rule stays_marker [OF c' I(1)]) auto
      then show ?thesis by (rule stays_guarded_step) (use third in auto)
    qed
    have "stays I (collect (stage_operation (seat_path n) ?S) (enumerate 0 ops)) c (\<lambda>r c'. \<exists>staged. r = Inr staged \<and>
        staging n i root m (Some j0) c' \<and> staged_ok n ops staged c' \<and> \<not> exists_at c' (marker_path n))"
      by (rule stays_stage [OF c I(1)]) auto
    then show ?thesis by (rule stays_guarded_step) (use marker in auto)
  qed
  have "stays I (write_journal (seat_path n) r0 None ?S) d (\<lambda>r c. \<exists>j0. r = Inr j0 \<and> staging n i root m (Some j0) c
      \<and> (\<forall>k. \<not> exists_at c (staged_path (seat_path n) k)) \<and> \<not> exists_at c (marker_path n))"
  proof (rule stays_staging_journal [OF s v0(1) _ I(1)])
    fix c f assume c: "staging n i root m (Some f) c" "journal_step (seat_path n) d c"
    have "marker_path n \<notin> journal_names (seat_path n)"
      by (auto simp: marker_path_def journal_names_def journal_path_def temporary_path_def guard_path_def butlast_append)
    then show "\<exists>j0. (Inr f :: tx_error + file_entry) = Inr j0 \<and> staging n i root m (Some j0) c
        \<and> (\<forall>k. \<not> exists_at c (staged_path (seat_path n) k)) \<and> \<not> exists_at c (marker_path n)"
      using c none journal_names_apart(2) by (simp add: exists_at_def journal_step_def)
  qed (use v0(2) in simp)
  then have "stays I (guarded r0 None (write_journal (seat_path n) r0 None ?S) (\<lambda>j0.
      guarded r0 (Some j0) (collect (stage_operation (seat_path n) ?S) (enumerate 0 ops)) (\<lambda>staged.
      guarded r0 (Some j0) (publish_backup_marker (seat_path n) ?S ops) (\<lambda>_. ?third staged j0)))) d Q"
    by (rule stays_guarded_step) (use second in auto)
  then show ?thesis by (simp add: commit_body_def Let_def r0_def seat_path_def)
qed

section \<open>The clock only advances\<close>

definition forward :: "'a proc \<Rightarrow> bool" where
  "forward p = (\<forall>d. dk_clock d \<le> dk_clock (fst (snd (p d))))"

named_theorems forward_intros \<open>the combinators keep the clock going\<close>

lemma forward_basic [forward_intros]:
  "forward (yields x)" "forward (raises e)" "forward (look f)" "forward (demand c e)" "forward (mutate g)"
  by (simp_all add: forward_def yields_def raises_def look_def demand_def mutate_def Let_def)

lemma forward_andthen [forward_intros]:
  assumes "forward p" "\<And>x. forward (f x)"
  shows "forward (andthen p f)"
  unfolding forward_def
proof
  fix d
  obtain r d1 t where p: "p d = (r, d1, t)" by (metis prod_cases3)
  have d1: "dk_clock d \<le> dk_clock d1" using assms(1) p unfolding forward_def by (metis fst_conv snd_conv)
  show "dk_clock d \<le> dk_clock (fst (snd (andthen p f d)))"
  proof (cases r)
    case (Inr x)
    obtain r' d2 u where f: "f x d1 = (r', d2, u)" by (metis prod_cases3)
    then have "dk_clock d1 \<le> dk_clock d2" using assms(2) [of x] unfolding forward_def by (metis fst_conv snd_conv)
    then show ?thesis using p f d1 Inr by (simp add: andthen_def)
  qed (use p d1 in \<open>simp add: andthen_def\<close>)
qed

lemma forward_on_error [forward_intros]:
  assumes "forward p" "\<And>e. forward (h e)"
  shows "forward (on_error p h)"
  unfolding forward_def
proof
  fix d
  obtain r d1 t where p: "p d = (r, d1, t)" by (metis prod_cases3)
  have d1: "dk_clock d \<le> dk_clock d1" using assms(1) p unfolding forward_def by (metis fst_conv snd_conv)
  show "dk_clock d \<le> dk_clock (fst (snd (on_error p h d)))"
  proof (cases r)
    case (Inl e)
    obtain r' d2 u where f: "h e d1 = (r', d2, u)" by (metis prod_cases3)
    then have "dk_clock d1 \<le> dk_clock d2" using assms(2) [of e] unfolding forward_def by (metis fst_conv snd_conv)
    then show ?thesis using p f d1 Inl by (simp add: on_error_def)
  qed (use p d1 in \<open>simp add: on_error_def\<close>)
qed

lemma forward_loops [forward_intros]:
  "(\<And>x. forward (f x)) \<Longrightarrow> forward (each f xs)" "(\<And>x. forward (g x)) \<Longrightarrow> forward (collect g xs)"
  by (induction xs) (auto intro!: forward_intros)

lemma forward_held [forward_intros]:
  "forward (hold_root E)" "forward (parent_chain b E p)" "forward (require_directory_identity pi)" "forward (safe_target p)"
  by (auto simp: hold_root_def parent_chain_def hold_component_def require_directory_identity_def safe_target_def
      intro!: forward_intros)

lemma forward_read [forward_intros]: "forward (digest_relative_file p E)"
  by (auto simp: digest_relative_file_def intro!: forward_intros split: option.split)

lemma forward_install [forward_intros]: "forward (install p q)"
  by (auto simp: install_def intro!: forward_intros split: option.split)

lemma forward_primitives [forward_intros]:
  "forward (optional_snapshot p E)" "forward (promote_relative_new p q f E)" "forward (remove_published_relative p f E)"
  "forward (secure_as e (optional_snapshot p E))" "forward (secure_as e (promote_relative_new p q f E))"
  by (auto simp: optional_snapshot_def promote_relative_new_def remove_published_relative_def secure_as_def
      intro!: forward_intros split: prod.split)

lemma forward_rollback [forward_intros]:
  "forward (validate_journal_record s J)" "forward (remove_transaction_directory s i r j)"
  "forward (rollback_record sha s i r J)" "forward (read_journal s i r)"
proof -
  have inst: "forward (remove_installed sha e g E)" for sha e g E
    by (auto simp: remove_installed_def intro!: forward_intros)
  show v: "forward (validate_journal_record s J)"
    by (auto simp: validate_journal_record_def Let_def intro!: forward_intros)
  have entry: "forward (rollback_entry sha s P S e)" for P S e
    unfolding rollback_entry_def Let_def by (auto intro!: forward_intros inst split: option.split)
  show "forward (remove_transaction_directory s i r j)"
    unfolding remove_transaction_directory_def move_directory_in_exact_parent_def remove_exact_directory_tree_def
    by (auto intro!: forward_intros split: option.split)
  show "forward (rollback_record sha s i r J)"
    unfolding rollback_record_def by (auto intro!: forward_intros v entry)
  show "forward (read_journal s i r)"
    unfolding read_journal_def by (auto intro!: forward_intros split: option.split content.split)
qed

lemma forward_recover [forward_intros]: "forward (recover_locked sha root)" "forward prepare_state_root"
  unfolding recover_locked_def recover_seat_def Let_def prepare_state_root_def create_directory_in_exact_parent_def
  by (auto intro!: forward_intros split: option.split prod.split)

lemma stays_forward:
  assumes "stays I p d Q" "forward p"
  shows "stays I p d (\<lambda>r c. Q r c \<and> dk_clock d \<le> dk_clock c)"
proof -
  obtain r c t where "p d = (r, c, t)" by (metis prod_cases3)
  then show ?thesis using assms spec [OF assms(2) [unfolded forward_def], of d] by (simp add: stays_def)
qed

section \<open>The whole commit\<close>

lemma fresh_seat_staging:
  assumes s: "settled m d" and ns: "no_seats d" and root: "dir_at d state_root = Some root" and n: "n < dk_clock d"
    and free: "\<not> exists_at d (seat_path n)"
  defines "c \<equiv> advance (mkdir (seat_path n)) d"
  shows "staging n (dk_clock d) root m None c" "\<not> exists_at c (staged_path (seat_path n) k)" "\<not> exists_at c (marker_path n)"
proof -
  have h: "healthy d" using s by (simp add: settled_def)
  have dirs: "dir_at c = (dir_at d)(seat_path n \<mapsto> dk_clock d)"
    using free by (auto simp: c_def fun_eq_iff dir_at_mkdir exists_at_def)
  have files: "dk_files c = dk_files d" by (simp add: c_def)
  have hc: "healthy c"
    unfolding c_def using h root n free
    by (intro healthy_mkdir) (auto simp: seat_path_def state_root_def seat_dir_def journal_path_def)
  have inside: "\<not> exists_at d (seat_path n @ r)" for r
  proof (induction r rule: rev_induct)
    case (snoc x r)
    have "dir_at d (seat_path n @ r) = None" using snoc by (simp add: exists_at_def)
    then show ?case
      using healthy_parent [OF h, of "seat_path n @ r @ [x]"] by (auto simp: butlast_append seat_path_def)
  qed (use free in simp)
  have out: "\<not> exists_at c (seat_path n @ r)" if "r \<noteq> []" for r
    using inside [of r] that files dirs by (simp add: exists_at_def)
  then show "\<not> exists_at c (staged_path (seat_path n) k)" "\<not> exists_at c (marker_path n)"
    by (simp_all add: staged_path_def marker_path_def)
  have only: "only_seat n c" using ns dirs by (auto simp: only_seat_def no_seats_def seat_path_def)
  have j: "dk_files c (journal_path (seat_path n)) = None" using out by (simp add: journal_path_def exists_at_def)
  have "contents c = m" using s contents_outside [of c d] files by (simp add: settled_def)
  then have "settled m c" using j by (intro settledI [OF hc only]) auto
  moreover have "no_backups n c" using out by (simp add: no_backups_def exists_at_def backup_path_def)
  moreover have "dir_at c state_root = Some root" using root dirs by (simp add: seat_path_def)
  ultimately show "staging n (dk_clock d) root m None c"
    using only j n dirs by (simp add: staging_def) (simp add: c_def)
qed

lemma no_seats_dropped:
  assumes "only_seat n d" "\<And>x. dir_at c (state_root @ [x]) = (if x = Uuid n then None else dir_at d (state_root @ [x]))"
  shows "no_seats c"
  using assms unfolding no_seats_def only_seat_def by (metis option.exhaust)

text \<open>Removing a seat that asks for nothing.\<close>

lemma stays_remove_settled:
  assumes s: "sealed n i root m j d"
    and I: "\<And>c. survives sha m c \<Longrightarrow> I c"
  shows "stays I (remove_transaction_directory (seat_path n) i root j) d (\<lambda>r c. r = Inr () \<and> settled m c \<and> no_seats c)"
proof -
  have h: "healthy d" and sm: "settled m d" using s by (simp_all add: sealed_def settled_def)
  have d: "dir_at d (state_root @ [Uuid n]) = Some i" "dir_at d state_root = Some root"
    "dk_files d (journal_path (state_root @ [Uuid n])) = j" using s by (simp_all add: sealed_def seat_path_def)
  show ?thesis
    unfolding seat_path_def using h d
  proof (rule stays_remove_seat)
    fix c assume c: "dropping d c"
    have sc: "settled m c" using dropping_settled [OF sm c] .
    then show "I c" using I by (simp add: survives_def recoverable_def)
    show "(Inr () :: tx_error + unit) = Inr () \<and> settled m c \<and> no_seats c"
      if "\<And>x. dir_at c (state_root @ [x]) = (if x = Uuid n then None else dir_at d (state_root @ [x]))"
      using sc no_seats_dropped [OF _ that] s by (simp add: sealed_def)
  next
    fix c assume "stranded d c"
    then show "I c" using I stranded_survives [of d c m] sm d by (simp add: settled_def)
  qed
qed

definition outcome_ok :: "(path \<Rightarrow> content option) \<Rightarrow> (path \<Rightarrow> content option) \<Rightarrow> tx_error + 'a \<Rightarrow> disk \<Rightarrow> bool" where
  "outcome_ok m post r c = (no_seats c \<and> settled (case r of Inl _ \<Rightarrow> m | Inr _ \<Rightarrow> post) c)"

lemma stays_commit_seat:
  assumes s: "settled m d" and ns: "no_seats d" and root: "dir_at d state_root = Some root" and n: "n < dk_clock d"
    and okp: "operations_ok sha ops" "plain_paths ops" "hex_digests sha" and mixed: "\<not> list_all (\<lambda>op. op_kind op = Op_Check) ops"
    and I: "\<And>c. survives sha m c \<Longrightarrow> I c" "\<And>c. survives sha (committed_contents ops m) c \<Longrightarrow> I c"
    and rest: "\<And>c identity. staging n identity root m None c \<Longrightarrow>
      \<forall>k. \<not> exists_at c (staged_path (seat_path n) k) \<Longrightarrow> \<not> exists_at c (marker_path n) \<Longrightarrow> stays I (f identity) c (outcome_ok m post)"
  shows "stays I (andthen (create_directory_in_exact_parent (state_root @ [Uuid n]) root) f) d (outcome_ok m post)"
proof (cases "exists_at d (seat_path n)")
  case True
  then have "outcome_ok m post (Inl (TransactionError ''cannot securely create private directory'')) d"
    using s ns by (simp add: outcome_ok_def)
  then show ?thesis
    using True by (simp add: create_directory_in_exact_parent_def stays_simps seat_path_def)
next
  case False
  let ?c = "advance (mkdir (seat_path n)) d"
  note fresh = fresh_seat_staging [OF s ns root n False]
  have "I ?c" using I(1) staging_survives [OF fresh(1)] .
  moreover have "stays I (f (dk_clock d)) ?c (outcome_ok m post)" using rest [OF fresh(1)] fresh(2,3) by blast
  moreover have "dir_at (mkdir (seat_path n) d) (seat_path n) = Some (dk_clock d)" using fresh(1) by (simp add: staging_def)
  ultimately show ?thesis
    using False root by (simp add: create_directory_in_exact_parent_def stays_simps seat_path_def)
qed

lemma committed_checks: "list_all (\<lambda>op. op_kind op = Op_Check) ops \<Longrightarrow> committed_contents ops m = m"
  unfolding committed_contents_def by (induction ops arbitrary: m) auto

lemma stays_commit_checks:
  assumes s: "settled m d" and ns: "no_seats d" and okp: "operations_ok sha ops"
  shows "stays I (andthen (capture_existing_directories ops) (\<lambda>project.
    andthen (capture_preimages sha ops project) (\<lambda>_. yields x))) d (outcome_ok m m)"
proof -
  have ne: "\<forall>op \<in> set ops. op_path op \<noteq> []" using okp by (auto simp: operations_ok_def list_all_iff operation_ok_def)
  have h: "healthy d" using s by (simp add: settled_def)
  have same: "outcome_ok m m r d" for r :: "tx_error + 'a" using s ns by (cases r) (simp_all add: outcome_ok_def)
  have "stays I (andthen (capture_preimages sha ops project) (\<lambda>_. yields x)) d (outcome_ok m m)" if "holds project d" for project
    unfolding stays_andthen
    by (rule stays_mono [OF stays_capture_preimages [OF h that ne]]) (use same in \<open>auto simp: stays_simps split: sum.split\<close>)
  then show ?thesis
    unfolding stays_andthen [of I "capture_existing_directories ops"]
    by (intro stays_mono [OF stays_capture_directories]) (use same in \<open>auto split: sum.split\<close>)
qed

lemma stays_commit_locked:
  assumes r: "recoverable sha m d" and root: "dir_at d state_root = Some root" and n: "n < dk_clock d"
    and okp: "operations_ok sha ops" "plain_paths ops" "hex_digests sha"
    and I: "\<And>c. survives sha m c \<Longrightarrow> I c" "\<And>c. survives sha (committed_contents ops m) c \<Longrightarrow> I c"
  shows "stays I (commit_locked sha root ops (Uuid n)) d (outcome_ok m (committed_contents ops m))"
proof -
  let ?post = "committed_contents ops m"
  let ?finish = "\<lambda>identity (err, record, snapshot). case err of
      Some e \<Rightarrow> andthen (on_error (andthen (rollback_record sha (state_root @ [Uuid n]) identity root record) (\<lambda>_.
          remove_transaction_directory (state_root @ [Uuid n]) identity root snapshot)) (\<lambda>_. raises e)) (\<lambda>_. raises e)
    | None \<Rightarrow> andthen (on_error (andthen (remove_transaction_directory (state_root @ [Uuid n]) identity root snapshot) (\<lambda>_. yields False))
          (\<lambda>_. yields True)) (\<lambda>warning. yields \<lparr>tr_id = Uuid n,
            tr_changed_paths = map op_path (filter (\<lambda>op. op_kind op \<noteq> Op_Check) ops), tr_cleanup_warning = warning\<rparr>)"
  have good: "stays I (?finish i (None, rec, Some f)) c (outcome_ok m ?post)" if s: "sealed n i root ?post (Some f) c" for i rec f c
  proof -
    have "stays I (remove_transaction_directory (seat_path n) i root (Some f)) c (\<lambda>r c. r = Inr () \<and> settled ?post c \<and> no_seats c)"
      using stays_remove_settled [OF s] I(2) by blast
    then show ?thesis
      by (simp add: stays_simps seat_path_def) (elim stays_mono, auto simp: stays_simps outcome_ok_def)
  qed
  have bad: "stays I (?finish i (Some e, rec, j)) c (outcome_ok m ?post)"
    if c: "staging n i root m j c" "valid_journal n rec" "jr_state rec = Prepared" for i e rec j c
  proof -
    have "sealed n i root m j c" using c(1) by (simp add: sealed_def staging_def)
    then have "stays I (remove_transaction_directory (seat_path n) i root j) c (\<lambda>r c. r = Inr () \<and> settled m c \<and> no_seats c)"
      using stays_remove_settled I(1) by blast
    then show ?thesis
      using c(3) stays_validate [OF c(2), unfolded seat_path_def]
      by (simp add: stays_simps rollback_record_def seat_path_def) (elim stays_mono, auto simp: stays_simps outcome_ok_def)
  qed
  have body: "stays I (andthen (commit_body sha (state_root @ [Uuid n]) (seat_expectations (state_root @ [Uuid n]) i root) ops (Uuid n))
      (?finish i)) c (outcome_ok m ?post)"
    if c: "staging n i root m None c" "\<forall>k. \<not> exists_at c (staged_path (seat_path n) k)" "\<not> exists_at c (marker_path n)" for i c
    unfolding stays_andthen [of I "commit_body sha (state_root @ [Uuid n]) (seat_expectations (state_root @ [Uuid n]) i root) ops (Uuid n)"]
    by (rule stays_commit_body [OF c okp, unfolded seat_path_def]) (use good bad I in \<open>auto simp: seat_path_def\<close>)
  have main: "stays I (if list_all (\<lambda>op. op_kind op = Op_Check) ops
      then andthen (capture_existing_directories ops) (\<lambda>project.
           andthen (capture_preimages sha ops project) (\<lambda>_.
           yields \<lparr>tr_id = Uuid n, tr_changed_paths = [], tr_cleanup_warning = False\<rparr>))
      else andthen (create_directory_in_exact_parent (state_root @ [Uuid n]) root) (\<lambda>identity.
           andthen (commit_body sha (state_root @ [Uuid n]) (seat_expectations (state_root @ [Uuid n]) identity root) ops (Uuid n))
             (?finish identity))) c (outcome_ok m ?post)"
    if c: "settled m c" "no_seats c" "dir_at c state_root = Some root" "n < dk_clock c" for c
  proof (cases "list_all (\<lambda>op. op_kind op = Op_Check) ops")
    case True
    then show ?thesis using stays_commit_checks [OF c(1,2) okp(1)] committed_checks [of ops m] by simp
  next
    case False
    have "stays I (andthen (create_directory_in_exact_parent (state_root @ [Uuid n]) root) (\<lambda>identity.
        andthen (commit_body sha (state_root @ [Uuid n]) (seat_expectations (state_root @ [Uuid n]) identity root) ops (Uuid n))
          (?finish identity))) c (outcome_ok m ?post)"
      by (rule stays_commit_seat [OF c okp False]) (use I body in blast)+
    then show ?thesis using False by (simp only: if_False)
  qed
  have "stays I (recover_locked sha root) d (\<lambda>r c. \<exists>ns. r = Inr ns \<and> settled m c \<and> no_seats c \<and> dir_at c state_root = Some root)"
    by (rule stays_recover_locked [OF r root]) (use I(1) in auto)
  from stays_forward [OF this forward_recover(1)] show ?thesis
    unfolding commit_locked_def Let_def stays_andthen [of I "recover_locked sha root"]
    by (rule stays_mono) (use main n in auto)
qed

lemma stays_commit:
  assumes r: "recoverable sha m d" and n: "ct_id tx = Uuid n" "n < dk_clock d"
    and okp: "operations_ok sha (ct_operations tx)" "plain_paths (ct_operations tx)" "hex_digests sha"
    and open_tx: "\<not> ct_committed tx" "\<not> ct_closed tx" "ct_operations tx \<noteq> []"
  defines "post \<equiv> committed_contents (ct_operations tx) m"
  shows "stays (\<lambda>c. survives sha m c \<or> survives sha post c) (commit sha tx) d (outcome_ok m post)"
proof -
  let ?I = "\<lambda>c. survives sha m c \<or> survives sha post c"
  have "stays ?I prepare_state_root d (\<lambda>r c. \<exists>root. r = Inr root \<and> recoverable sha m c \<and> dir_at c state_root = Some root)"
    by (rule stays_prepare_state_root [OF r]) auto
  from stays_forward [OF this forward_recover(2)] have "stays ?I prepare_state_root d (\<lambda>r c. case r of
      Inl e \<Rightarrow> outcome_ok m post (Inl e :: tx_error + transaction_result) c
    | Inr root \<Rightarrow> stays ?I (commit_locked sha root (ct_operations tx) (ct_id tx)) c (outcome_ok m post))"
    by (rule stays_mono)
       (use stays_commit_locked [OF _ _ _ okp, of m _ _ n ?I] n in \<open>auto simp: post_def\<close>)
  then show ?thesis
    using open_tx by (simp add: commit_def stays_simps)
qed

lemma commit_stuck:
  assumes s: "stuck d" and o: "\<not> ct_committed tx" "\<not> ct_closed tx" "ct_operations tx \<noteq> []"
  shows "commit sha tx d = (Inl (TransactionError ''invalid transaction seat''), d, [])"
proof -
  obtain root where root: "dir_at d state_root = Some root" using s by (auto simp: stuck_def)
  show ?thesis
    using root o recover_locked_stuck [OF s root, of sha]
    by (simp add: commit_def commit_locked_def prepare_state_root_def andthen_def look_def yields_def demand_def exists_at_def)
qed

section \<open>Crashes during recovery\<close>

text \<open>
  What a procedure promises when every disk it may leave behind satisfies its own
  precondition: so does every disk left by any number of crashed attempts.
\<close>

locale crash_safe =
  fixes trace :: "'d \<Rightarrow> 'd list" and good :: "'d \<Rightarrow> bool"
  assumes trace_good: "good d \<Longrightarrow> c \<in> set (trace d) \<Longrightarrow> good c"
begin

lemma attempts_good:
  assumes "(\<lambda>d c. c \<in> set (trace d))\<^sup>*\<^sup>* d c" "good d"
  shows "good c"
  using assms by (induction rule: rtranclp_induct) (auto intro: trace_good)

end

definition crashed_disks :: "'a proc \<Rightarrow> disk \<Rightarrow> disk list" where
  "crashed_disks p d = snd (snd (p d))"

definition crashed_recoveries :: "(content \<Rightarrow> string) \<Rightarrow> disk \<Rightarrow> disk \<Rightarrow> bool" where
  "crashed_recoveries sha = (\<lambda>d c. c \<in> set (crashed_disks (recover sha) d))\<^sup>*\<^sup>*"

lemma recovery_trace:
  assumes "survives sha m d" "c \<in> set (crashed_disks (recover sha) d)"
  shows "survives sha m c"
  using assms stays_trace [OF stays_recover] recover_stuck [of d sha]
  by (auto simp: survives_def [of sha m d] crashed_disks_def)

interpretation recovering: crash_safe "crashed_disks (recover sha)" "survives sha m" for sha m
  by unfold_locales (rule recovery_trace)

lemma recover_settles:
  assumes s: "survives sha m d" and "\<not> stuck d"
  shows "\<exists>ns c t. recover sha d = (Inr ns, c, t) \<and> contents c = m \<and> no_seats c"
proof -
  have "recoverable sha m d" using assms by (simp add: survives_def)
  from stays_result [OF stays_recover [OF this]] show ?thesis
    by (cases "recover sha d") (auto simp: settled_def)
qed

lemma stuck_not_recoverable: "stuck d \<Longrightarrow> \<not> recoverable sha m d"
proof
  assume "stuck d" "recoverable sha m d"
  then obtain x where x: "x \<in> set (seat_names d)" "\<not> is_transaction_id x"
    by (auto simp: stuck_def split: list.splits)
  then have "dir_at d (state_root @ [x]) \<noteq> None" using seat_names_member by blast
  from healthy_seat [OF recoverable_healthy [OF \<open>recoverable sha m d\<close>] this] x(2) show False
    by auto
qed

lemma crashed_commit_open:
  assumes "c \<in> set (crashed_disks (commit sha tx) d)"
  shows "\<not> ct_committed tx \<and> \<not> ct_closed tx \<and> ct_operations tx \<noteq> []"
  using assms by (simp add: crashed_disks_def commit_def andthen_def demand_def raises_def yields_def split: if_splits)

section \<open>Properties\<close>

text \<open>
  C7. A commit is atomic under crashes.  Start from any disk from which recovery restores the
  contents \<open>m\<close> of the project, and commit a transaction of staged operations with plain paths,
  none inside another.  If the commit crashes after any of its atomic steps, and any number of
  recoveries crash after that, then a recovery that runs to its end succeeds, removes every
  seat and leaves the project as it was or as the operations make it.  The one exception is a
  crash that strands an emptied seat: recovery refuses, but the project already has one of
  these two contents.
\<close>

theorem commit_crash_atomic:
  assumes "recoverable sha m d" "ct_id tx = Uuid n" "n < dk_clock d"
    and "operations_ok sha (ct_operations tx)" "plain_paths (ct_operations tx)" "hex_digests sha"
    and "c \<in> set (crashed_disks (commit sha tx) d)" "crashed_recoveries sha c c'"
  shows "if stuck c' then contents c' \<in> {m, committed_contents (ct_operations tx) m}
    else \<exists>ns d' t. recover sha c' = (Inr ns, d', t) \<and> no_seats d'
           \<and> contents d' \<in> {m, committed_contents (ct_operations tx) m}"
proof -
  let ?post = "committed_contents (ct_operations tx) m"
  have o: "\<not> ct_committed tx" "\<not> ct_closed tx" "ct_operations tx \<noteq> []"
    using crashed_commit_open [OF assms(7)] by simp_all
  from stays_trace [OF stays_commit [OF assms(1-6) o]] obtain k where k: "k \<in> {m, ?post}" "survives sha k c"
    using assms(7) by (auto simp: crashed_disks_def)
  then have s: "survives sha k c'"
    using recovering.attempts_good assms(8) by (simp add: crashed_recoveries_def)
  show ?thesis
  proof (cases "stuck c'")
    case True
    then show ?thesis
      using s k(1) recoverable_healthy [of sha k c'] stuck_not_recoverable [of c' sha k] by (auto simp: survives_def)
  next
    case False
    then show ?thesis using recover_settles [OF s False] k(1) by auto
  qed
qed

text \<open>
  C8. What a commit reports is what happened.  Start from a disk from which recovery restores
  the contents \<open>m\<close> of the project, and commit an open transaction of staged operations, at least
  one of them, with plain paths none of which is inside another, to its end.  When the commit
  returns, the project holds what the operations make of \<open>m\<close>, and when it raises, the project
  holds \<open>m\<close>; either way no seat is left behind.
\<close>

theorem commit_outcome:
  assumes "recoverable sha m d" "ct_id tx = Uuid n" "n < dk_clock d"
    and "operations_ok sha (ct_operations tx)" "plain_paths (ct_operations tx)" "hex_digests sha"
    and "\<not> ct_committed tx" "\<not> ct_closed tx" "ct_operations tx \<noteq> []"
    and "commit sha tx d = (r, c, t)"
  shows "no_seats c \<and> contents c = (case r of Inl _ \<Rightarrow> m | Inr _ \<Rightarrow> committed_contents (ct_operations tx) m)"
  using stays_result [OF stays_commit [OF assms(1-9)]] assms(10)
  by (auto simp: outcome_ok_def settled_def split: sum.splits)

text \<open>
  C37. A stranded seat blocks the project.  While the state root holds a directory whose name
  begins with a dot, as the name does under which an emptied seat awaits its removal, recovery
  and every commit of an open transaction with operations raise \<^verbatim>\<open>invalid transaction seat\<close>
  and leave all files and directories as they are, whichever other seats there are.
\<close>

theorem stranded_seat_blocks:
  assumes "dir_at d state_root \<noteq> None" "dir_at d (state_root @ [x]) \<noteq> None" "spelled x = CHR ''.'' # s"
    and "\<not> ct_committed tx" "\<not> ct_closed tx" "ct_operations tx \<noteq> []"
  shows "recover sha d = (Inl (TransactionError ''invalid transaction seat''), d, [])
    \<and> commit sha tx d = (Inl (TransactionError ''invalid transaction seat''), d, [])"
  using stuck_dotted [OF assms(2,3,1)] recover_stuck commit_stuck assms(4-6) by simp


section \<open>Concrete commits\<close>

text \<open>
  A project with one file \<^verbatim>\<open>a\<close>, a digest that tells the first byte modulo 16, a transaction that
  creates \<^verbatim>\<open>b\<close>, and one whose second path is inside its first.
\<close>

definition sample_sha :: "content \<Rightarrow> string" where
  "sample_sha c = (case c of
     Data [] \<Rightarrow> replicate 64 CHR ''0''
   | Data (b # bs) \<Rightarrow> replicate 63 CHR ''0'' @ [''0123456789abcdef'' ! (unat b mod 16)]
   | Journal j \<Rightarrow> replicate 64 CHR ''f'')"

definition sample_disk :: disk where
  "sample_disk = \<lparr>
     dk_files = [[Name ''a''] \<mapsto> \<lparr>fe_content = Data [1], fe_inode = 1, fe_mtime = 1, fe_mode = 420, fe_ctime = 1\<rparr>],
     dk_dirs = [([], 0)], dk_clock = 100\<rparr>"

definition write_all :: "(path \<times> bytes \<times> string option) list \<Rightarrow> cas_transaction" where
  "write_all ws = foldl (\<lambda>tx (p, data, expected).
     case tx_write p data expected sample_sha tx of Inl _ \<Rightarrow> tx | Inr tx' \<Rightarrow> tx') (new_transaction (Uuid 7)) ws"

definition sample_transaction :: cas_transaction where
  "sample_transaction = write_all [([Name ''b''], [2], None)]"

definition nested_transaction :: cas_transaction where
  "nested_transaction = write_all [([Name ''x''], [2], None), ([Name ''x'', Name ''c''], [3], None)]"

definition seated_disk :: disk where
  "seated_disk = sample_disk\<lparr>dk_dirs := [([], 0), (state_root, 1), (state_root @ [Uuid 7], 2)]\<rparr>"

lemma sample_healthy: "healthy sample_disk"
  by (auto simp: healthy_def sample_disk_def exists_at_def dir_at_def state_root_def seat_dir_def journal_path_def split: if_splits)

lemma sample_recoverable: "recoverable sample_sha (contents sample_disk) sample_disk"
  using sample_healthy
  by (simp add: recoverable_def settled_def) (simp add: sample_disk_def journal_path_def state_root_def)

lemma sample_hex: "hex_digests sample_sha"
proof -
  have "''0123456789abcdef'' ! k \<in> set ''0123456789abcdef''" if "k < 16" for k
    using that by (intro nth_mem) simp
  then show ?thesis
    by (auto simp: hex_digests_def is_hex_digest_def sample_sha_def list_all_iff split: content.split list.split)
qed

lemma sample_operations:
  "ct_id sample_transaction = Uuid 7 \<and> 7 < dk_clock sample_disk
   \<and> operations_ok sample_sha (ct_operations sample_transaction) \<and> plain_paths (ct_operations sample_transaction)
   \<and> \<not> ct_committed sample_transaction \<and> \<not> ct_closed sample_transaction \<and> ct_operations sample_transaction \<noteq> []"
  by code_simp

lemma sample_prepare:
  "prepare_state_root sample_disk = (Inr 100, advance (mkdir state_root) sample_disk, [advance (mkdir state_root) sample_disk])"
  by (simp add: prepare_state_root_def create_directory_in_exact_parent_def andthen_def look_def yields_def demand_def
      exists_at_def dir_at_def mutate_def mkdir_def sample_disk_def Let_def advance_def state_root_def)

lemma sample_crash:
  "advance (mkdir state_root) sample_disk \<in> set (crashed_disks (commit sample_sha sample_transaction) sample_disk)"
  using sample_operations
  by (simp add: crashed_disks_def commit_def andthen_def demand_def yields_def sample_prepare split: prod.split)

lemma sample_commit: "\<not> isl (fst (commit sample_sha sample_transaction sample_disk))"
  by code_simp

lemma seat_strands:
  "list_ex (\<lambda>c. dir_at c state_root \<noteq> None
       \<and> list_ex (\<lambda>x. case spelled x of [] \<Rightarrow> False | ch # _ \<Rightarrow> ch = CHR ''.'') (seat_names c))
     (crashed_disks (remove_transaction_directory (state_root @ [Uuid 7]) 2 1 None) seated_disk)"
  by code_simp

theorem commit_crash_atomic_witness:
  "if stuck (advance (mkdir state_root) sample_disk)
   then contents (advance (mkdir state_root) sample_disk)
     \<in> {contents sample_disk, committed_contents (ct_operations sample_transaction) (contents sample_disk)}
   else \<exists>ns d' t. recover sample_sha (advance (mkdir state_root) sample_disk) = (Inr ns, d', t) \<and> no_seats d'
     \<and> contents d' \<in> {contents sample_disk, committed_contents (ct_operations sample_transaction) (contents sample_disk)}"
  by (rule commit_crash_atomic [where n = 7, OF sample_recoverable _ _ _ _ sample_hex sample_crash])
     (use sample_operations in \<open>auto simp: crashed_recoveries_def\<close>)

theorem commit_outcome_witness:
  "\<not> isl (fst (commit sample_sha sample_transaction sample_disk))
   \<and> (\<exists>c. contents c = committed_contents (ct_operations sample_transaction) (contents sample_disk) \<and> no_seats c)"
proof -
  obtain r c t where e: "commit sample_sha sample_transaction sample_disk = (r, c, t)" by (metis prod_cases3)
  then obtain x where "r = Inr x" using sample_commit by (cases r) auto
  then show ?thesis
    using commit_outcome [OF sample_recoverable _ _ _ _ sample_hex _ _ _ e, of 7] sample_operations sample_commit by auto
qed

theorem stranded_seat_blocks_witness:
  "\<exists>c \<in> set (crashed_disks (remove_transaction_directory (state_root @ [Uuid 7]) 2 1 None) seated_disk).
     commit sample_sha sample_transaction c = (Inl (TransactionError ''invalid transaction seat''), c, [])"
proof -
  obtain c x s where c: "c \<in> set (crashed_disks (remove_transaction_directory (state_root @ [Uuid 7]) 2 1 None) seated_disk)"
    "dir_at c state_root \<noteq> None" "x \<in> set (seat_names c)" "spelled x = CHR ''.'' # s"
    using seat_strands by (auto simp: list_ex_iff neq_Nil_conv split: list.split_asm)
  have "dir_at c (state_root @ [x]) \<noteq> None" using c(3) seat_names_member by blast
  from stranded_seat_blocks [OF c(2) this c(4)] sample_operations c(1) show ?thesis by blast
qed

text \<open>
  One path of a transaction inside another: the commit stops half-way, with the outer file
  installed, and no recovery gets the project back.
\<close>

lemma nested_paths_strand_the_project:
  "case commit sample_sha nested_transaction sample_disk of (r, c, t) \<Rightarrow>
     (r, map_option fe_content (dk_files c [Name ''x'']), fst (recover sample_sha c))
     = (Inl (TransactionError ''transaction parent is not a directory''), Some (Data [2]),
        Inl (TransactionError ''transaction parent is not a directory''))"
  by code_simp

end
