(* ===== verification/Binary_Formats.thy ===== *)
theory Binary_Formats
  imports Coff_Format Pe32
begin

text \<open>
  The general readers of \<^verbatim>\<open>src/reprobit/formats.py\<close>: COFF objects, PE32 images with the
  translation of image addresses, and COFF/GNU archives.  They overlap with the readers of
  \<^verbatim>\<open>coff_format.py\<close> and \<^verbatim>\<open>pe32.py\<close>, and the properties say where the two agree.
\<close>

section \<open>Ranges and ASCII integers\<close>

text \<open>\<^verbatim>\<open>_require\<close>: the bytes of a range that lies inside the file.\<close>

definition format_range :: "bytes \<Rightarrow> int \<Rightarrow> int \<Rightarrow> bytes result" where
  "format_range data off n =
     raise_unless (\<not> (off < 0 \<or> n < 0 \<or> off > len data \<or> n > len data - off))
       (FormatError ''range exceeds file size'') (Inr (pslice data off (off + n)))"

text \<open>\<^verbatim>\<open>bytes.strip()\<close> and \<^verbatim>\<open>bytes.rstrip()\<close> on ASCII whitespace.\<close>

definition is_space_byte :: "byte \<Rightarrow> bool" where
  "is_space_byte b = (b = 32 \<or> 9 \<le> byte_int b \<and> byte_int b \<le> 13)"

definition bytes_rstrip :: "bytes \<Rightarrow> bytes" where
  "bytes_rstrip bs = rev (dropWhile is_space_byte (rev bs))"

definition bytes_strip :: "bytes \<Rightarrow> bytes" where
  "bytes_strip bs = dropWhile is_space_byte (bytes_rstrip bs)"

text \<open>
  \<^verbatim>\<open>int(value, base)\<close> on stripped bytes, for the bases 8 and 10 the reader uses: an optional
  sign, the prefix \<^verbatim>\<open>0o\<close> in base 8, and digits with single underscores between them.
\<close>

fun digits_run :: "int \<Rightarrow> int \<Rightarrow> bool \<Rightarrow> bytes \<Rightarrow> int option" where
  "digits_run base acc underscore [] = (if underscore then None else Some acc)"
| "digits_run base acc underscore (b # bs) =
     (if b = 0x5F then (if underscore then None else digits_run base acc True bs)
      else if 48 \<le> byte_int b \<and> byte_int b < 48 + base
      then digits_run base (base * acc + (byte_int b - 48)) False bs
      else None)"

definition digits_value :: "int \<Rightarrow> bytes \<Rightarrow> int option" where
  "digits_value base bs = (if bs = [] \<or> hd bs = 0x5F then None else digits_run base 0 False bs)"

definition strip_octal_prefix :: "int \<Rightarrow> bytes \<Rightarrow> bytes" where
  "strip_octal_prefix base bs =
     (if base = 8 \<and> (starts_with bs [0x30, 0x6F] \<or> starts_with bs [0x30, 0x4F])
      then (if starts_with (drop 2 bs) [0x5F] then drop 3 bs else drop 2 bs)
      else bs)"

definition py_int :: "int \<Rightarrow> bytes \<Rightarrow> int option" where
  "py_int base bs =
     (if starts_with bs [0x2D] then map_option uminus (digits_value base (strip_octal_prefix base (drop 1 bs)))
      else if starts_with bs [0x2B] then digits_value base (strip_octal_prefix base (drop 1 bs))
      else digits_value base (strip_octal_prefix base bs))"

definition ascii_integer :: "bytes \<Rightarrow> int \<Rightarrow> int result" where
  "ascii_integer raw base =
     (let value = bytes_strip raw
      in if value = [] then Inr 0
         else case py_int base value of
                Some v \<Rightarrow> Inr v
              | None \<Rightarrow> Inl (FormatError ''invalid integer''))"

section \<open>COFF objects\<close>

record fmt_header =
  fh_machine :: int
  fh_section_count :: int
  fh_timestamp :: int
  fh_symbol_table_offset :: int
  fh_symbol_count :: int
  fh_optional_header_size :: int
  fh_characteristics :: int

record fmt_relocation =
  fr_virtual_address :: int
  fr_symbol_index :: int
  fr_type :: int

record fmt_section =
  fs_name :: string
  fs_virtual_size :: int
  fs_virtual_address :: int
  fs_raw_data_offset :: int
  fs_raw_data :: bytes
  fs_relocations :: "fmt_relocation list"
  fs_characteristics :: int

record fmt_object =
  fo_header :: fmt_header
  fo_sections :: "fmt_section list"
  fo_string_table :: bytes

definition fmt_section_named :: "fmt_object \<Rightarrow> string \<Rightarrow> fmt_section result" where
  "fmt_section_named obj name =
     (let matches = filter (\<lambda>s. fs_name s = name) (fo_sections obj)
      in raise_unless (length matches = 1) (FormatError ''expected one section'') (Inr (matches ! 0)))"

definition parse_header :: "bytes \<Rightarrow> int \<Rightarrow> fmt_header result" where
  "parse_header data off =
     rbind (format_range data off 20) (\<lambda>raw.
     let v = unpack_fields [U 2, U 2, U 4, U 4, U 4, U 2, U 2] raw 0
     in Inr \<lparr>fh_machine = v ! 0, fh_section_count = v ! 1, fh_timestamp = v ! 2,
             fh_symbol_table_offset = v ! 3, fh_symbol_count = v ! 4,
             fh_optional_header_size = v ! 5, fh_characteristics = v ! 6\<rparr>)"

definition coff_string_table :: "bytes \<Rightarrow> fmt_header \<Rightarrow> bytes result" where
  "coff_string_table data header =
     (if fh_symbol_table_offset header = 0
      then raise_unless (fh_symbol_count header = 0)
             (FormatError ''COFF symbol count is non-zero but its table offset is zero'') (Inr [])
      else let strings_at = fh_symbol_table_offset header + fh_symbol_count header * 18
           in rbind (format_range data strings_at 4) (\<lambda>raw.
              let n = from_bytes raw
              in raise_unless (4 \<le> n) (FormatError ''COFF string table is shorter than its length field'')
                   (format_range data strings_at n)))"

definition ascii_name :: "bytes \<Rightarrow> string result" where
  "ascii_name bs =
     (case ascii_decode bs of Inr s \<Rightarrow> Inr s
      | Inl e \<Rightarrow> Inl (FormatError ''non-ASCII COFF section name''))"

definition decode_section_name :: "bytes \<Rightarrow> bytes \<Rightarrow> string result" where
  "decode_section_name raw string_table =
     (let short = rstrip_nul raw
      in if starts_with short [0x2F] \<and> bytes_isdigit (drop 1 short)
         then raise_unless (string_table \<noteq> []) (FormatError ''long COFF section name has no string table'') (
              let off = int_of_digits (drop 1 short)
              in raise_unless (\<not> (off < 4 \<or> off \<ge> len string_table))
                   (FormatError ''COFF section-name offset is out of range'') (
                 let stop = bytes_find string_table 0 off (len string_table)
                 in raise_unless (stop \<ge> 0) (FormatError ''unterminated long COFF section name'')
                      (ascii_name (pslice string_table off stop))))
         else ascii_name short)"

definition parse_relocation :: "bytes \<Rightarrow> int \<Rightarrow> int \<Rightarrow> fmt_relocation result" where
  "parse_relocation data relocation_offset k =
     rbind (format_range data (relocation_offset + k * 10) 10) (\<lambda>raw.
     let v = unpack_fields [U 4, U 4, U 2] raw 0
     in Inr \<lparr>fr_virtual_address = v ! 0, fr_symbol_index = v ! 1, fr_type = v ! 2\<rparr>)"

definition parse_fmt_section :: "bytes \<Rightarrow> int \<Rightarrow> bytes \<Rightarrow> int \<Rightarrow> fmt_section result" where
  "parse_fmt_section data table_offset string_table k =
     rbind (format_range data (table_offset + k * 40) 40) (\<lambda>raw.
     let v = unpack_fields [U 4, U 4, U 4, U 4, U 4, U 4, U 2, U 2, U 4] raw 8;
         raw_size = v ! 2; raw_offset = v ! 3; relocation_offset = v ! 4; relocation_count = v ! 6
     in rbind (if raw_size \<noteq> 0 then format_range data raw_offset raw_size else Inr []) (\<lambda>section_data.
        raise_unless (\<not> (relocation_count \<noteq> 0 \<and> relocation_offset = 0))
          (FormatError ''section has relocations but no relocation offset'') (
        rbind (rmap (parse_relocation data relocation_offset) (pyrange 0 relocation_count)) (\<lambda>relocations.
        rbind (decode_section_name (pslice raw 0 8) string_table) (\<lambda>name.
          Inr \<lparr>fs_name = name, fs_virtual_size = v ! 0, fs_virtual_address = v ! 1,
               fs_raw_data_offset = raw_offset, fs_raw_data = section_data,
               fs_relocations = relocations, fs_characteristics = v ! 8\<rparr>)))))"

definition parse_fmt_sections :: "bytes \<Rightarrow> int \<Rightarrow> int \<Rightarrow> bytes \<Rightarrow> fmt_section list result" where
  "parse_fmt_sections data table_offset count string_table =
     rmap (parse_fmt_section data table_offset string_table) (pyrange 0 count)"

definition parse_coff_object :: "bytes \<Rightarrow> bool \<Rightarrow> fmt_object result" where
  "parse_coff_object data require_i386 =
     rbind (parse_header data 0) (\<lambda>header.
     raise_unless (\<not> (require_i386 \<and> fh_machine header \<noteq> 0x14C)) (FormatError ''unsupported COFF machine'') (
     raise_unless (fh_optional_header_size header = 0)
       (FormatError ''an object file cannot contain a PE optional header'') (
     rbind (format_range data 20 (fh_section_count header * 40)) (\<lambda>_.
     rbind (coff_string_table data header) (\<lambda>string_table.
     rbind (parse_fmt_sections data 20 (fh_section_count header) string_table) (\<lambda>sections.
       Inr \<lparr>fo_header = header, fo_sections = sections, fo_string_table = string_table\<rparr>))))))"

section \<open>PE32 images\<close>

record fmt_image =
  fi_header :: fmt_header
  fi_image_base :: int
  fi_section_alignment :: int
  fi_file_alignment :: int
  fi_size_of_image :: int
  fi_checksum :: int
  fi_sections :: "fmt_section list"
  fi_pe_offset :: int

definition section_extent :: "fmt_section \<Rightarrow> int" where
  "section_extent s = max (fs_virtual_size s) (len (fs_raw_data s))"

text \<open>The loop returns at the first section that holds the address.\<close>

primrec rva_in_sections :: "int \<Rightarrow> fmt_section list \<Rightarrow> int result" where
  "rva_in_sections rva [] = Inl (FormatError ''RVA is not mapped by a section'')"
| "rva_in_sections rva (s # ss) =
     (if fs_virtual_address s \<le> rva \<and> rva < fs_virtual_address s + section_extent s
      then let delta = rva - fs_virtual_address s
           in raise_unless (delta < len (fs_raw_data s))
                (FormatError ''RVA belongs to an unbacked section tail'')
                (Inr (fs_raw_data_offset s + delta))
      else rva_in_sections rva ss)"

definition rva_to_file_offset :: "fmt_image \<Rightarrow> int \<Rightarrow> int result" where
  "rva_to_file_offset img rva = rva_in_sections rva (fi_sections img)"

definition require_no_overlap :: "int \<Rightarrow> fmt_section \<Rightarrow> int result" where
  "require_no_overlap previous_end s =
     raise_unless (\<not> fs_virtual_address s < previous_end) (FormatError ''section overlaps its neighbor'')
       (Inr (fs_virtual_address s + section_extent s))"

definition as_format_error :: "'a result \<Rightarrow> 'a result" where
  "as_format_error r = (case r of Inl (ByteIdentityError m) \<Rightarrow> Inl (FormatError m) | _ \<Rightarrow> r)"

definition parse_pe32 :: "bytes \<Rightarrow> bool \<Rightarrow> fmt_image result" where
  "parse_pe32 data require_i386 =
     rbind (format_range data 0 2) (\<lambda>dos.
     raise_unless (dos = [0x4D, 0x5A]) (FormatError ''missing DOS MZ signature'') (
     rbind (format_range data 0x3C 4) (\<lambda>raw.
     let pe_offset = from_bytes raw in
     raise_unless (\<not> pe_offset < 64) (FormatError ''PE offset points into the DOS header'') (
     rbind (as_format_error (parse_pe32_headers data 68 require_i386)) (\<lambda>headers.
     rbind (parse_header data (pe_offset + 4)) (\<lambda>header.
     rbind (parse_fmt_sections data (section_table_offset headers) (fh_section_count header) []) (\<lambda>sections.
     rbind (rfold require_no_overlap 0
              (sort_by (\<lambda>s t. fs_virtual_address s \<le> fs_virtual_address t) sections)) (\<lambda>_.
     rbind (optional_field headers 28) (\<lambda>image_base.
     rbind (optional_field headers 32) (\<lambda>section_alignment.
     rbind (optional_field headers 36) (\<lambda>file_alignment.
     rbind (optional_field headers 56) (\<lambda>size_of_image.
     rbind (optional_field headers 64) (\<lambda>checksum.
       Inr \<lparr>fi_header = header, fi_image_base = image_base, fi_section_alignment = section_alignment,
            fi_file_alignment = file_alignment, fi_size_of_image = size_of_image,
            fi_checksum = checksum, fi_sections = sections, fi_pe_offset = pe_offset\<rparr>)))))))))))))"


section \<open>Reading through a slice\<close>

lemma format_range_Inr:
  "format_range data off n = Inr r \<longleftrightarrow> 0 \<le> off \<and> 0 \<le> n \<and> off + n \<le> len data \<and> r = pslice data off (off + n)"
  by (auto simp: format_range_def)

lemma field_width_nonneg [simp]: "0 \<le> field_width f"
  by (cases f) simp_all

lemma calcsize_Cons [simp]: "calcsize (f # fs) = field_width f + calcsize fs"
  by (simp add: calcsize_def)

lemma calcsize_nonneg: "0 \<le> calcsize fs"
  by (induction fs) (simp_all add: calcsize_def)

lemma unpack_fields_slice:
  assumes "0 \<le> a" "0 \<le> off" "a + off + calcsize fs \<le> b" "b \<le> len data"
  shows "unpack_fields fs (pslice data a b) off = unpack_fields fs data (a + off)"
  using assms
proof (induction fs arbitrary: off)
  case (Cons f fs)
  have "pslice (pslice data a b) off (off + field_width f) = pslice data (a + off) (a + off + field_width f)"
    using Cons.prems calcsize_nonneg [of fs] by (simp add: pslice_pslice add.assoc)
  then show ?case
    using Cons.IH [of "off + field_width f"] Cons.prems by (cases f) (simp_all add: add.assoc)
qed simp

lemma unpack_uint_slice:
  "0 \<le> off \<Longrightarrow> unpack_uint w data off = Inr v \<longleftrightarrow>
     off + int w \<le> len data \<and> v = from_bytes (pslice data off (off + int w))"
  by (auto simp: unpack_uint_def Let_def)

section \<open>The two readers of an image\<close>

text \<open>Where a section lies in the image and in the file.\<close>

definition fmt_place :: "fmt_section \<Rightarrow> int \<times> int \<times> int" where
  "fmt_place s = (fs_virtual_address s, len (fs_raw_data s), fs_raw_data_offset s)"

definition pe_place :: "pe32_section \<Rightarrow> int \<times> int \<times> int" where
  "pe_place s = (ps_virtual_address s, ps_raw_size s, ps_raw_offset s)"

definition place_backs :: "int \<Rightarrow> int \<times> int \<times> int \<Rightarrow> bool" where
  "place_backs rva p = (case p of (va, n, _) \<Rightarrow> va \<le> rva \<and> rva < va + n)"

definition place_offset :: "int \<Rightarrow> int \<times> int \<times> int \<Rightarrow> int" where
  "place_offset rva p = (case p of (va, _, off) \<Rightarrow> off + (rva - va))"

lemma section_places:
  assumes f: "parse_fmt_section data table st k = Inr s" and p: "parse_pe_section data table k = Inr t"
  shows "fmt_place s = pe_place t"
proof -
  let ?h = "table + k * 40"
  have h: "0 \<le> ?h" "?h + 40 \<le> len data" using f by (auto simp: parse_fmt_section_def format_range_Inr)
  let ?raw = "pslice data ?h (?h + 40)"
  have l: "len ?raw = 40" using h by (simp add: length_pslice)
  have t: "ps_virtual_address t = from_bytes (pslice ?raw 12 16)" "ps_raw_size t = from_bytes (pslice ?raw 16 20)"
    "ps_raw_offset t = from_bytes (pslice ?raw 20 24)"
    using p l by (auto simp: parse_pe_section_def Let_def unpack_u32_def unpack_uint_slice)
  have s: "fs_virtual_address s = from_bytes (pslice ?raw 12 16)" "fs_raw_data_offset s = from_bytes (pslice ?raw 20 24)"
    "fs_raw_data s = (if from_bytes (pslice ?raw 16 20) \<noteq> 0
       then pslice data (from_bytes (pslice ?raw 20 24)) (from_bytes (pslice ?raw 20 24) + from_bytes (pslice ?raw 16 20)) else [])"
    "from_bytes (pslice ?raw 16 20) \<noteq> 0 \<longrightarrow> from_bytes (pslice ?raw 20 24) + from_bytes (pslice ?raw 16 20) \<le> len data"
    using f by (auto simp: parse_fmt_section_def Let_def format_range_Inr split: if_splits)
  then show ?thesis using t by (simp add: fmt_place_def pe_place_def length_pslice)
qed

lemma header_sections:
  assumes "parse_header data (pe + 4) = Inr h" "unpack_u16 data (pe + 6) = Inr n" "0 \<le> pe"
  shows "fh_section_count h = n"
  using assms
  by (auto simp: parse_header_def format_range_Inr unpack_u16_def unpack_uint_slice pslice_pslice add.commute)

text \<open>Sections that occupy disjoint ranges of the image.\<close>

definition extent_disjoint :: "fmt_section \<Rightarrow> fmt_section \<Rightarrow> bool" where
  "extent_disjoint s t =
     (fs_virtual_address s + section_extent s \<le> fs_virtual_address t
      \<or> fs_virtual_address t + section_extent t \<le> fs_virtual_address s)"

lemma no_overlap_sorted:
  "rfold require_no_overlap e ss = Inr r \<Longrightarrow>
     (\<forall>s \<in> set ss. e \<le> fs_virtual_address s) \<and> sorted_wrt extent_disjoint ss"
proof (induction ss arbitrary: e)
  case (Cons s ss)
  have e: "e \<le> fs_virtual_address s" "rfold require_no_overlap (fs_virtual_address s + section_extent s) ss = Inr r"
    using Cons.prems by (auto simp: require_no_overlap_def [of e])
  moreover have "0 \<le> section_extent s" by (simp add: section_extent_def)
  ultimately show ?case using Cons.IH [OF e(2)] by (force simp: extent_disjoint_def)
qed simp

lemma place_backs_fmt:
  "place_backs rva (fmt_place s) \<longleftrightarrow> fs_virtual_address s \<le> rva \<and> rva - fs_virtual_address s < len (fs_raw_data s)"
  by (auto simp: place_backs_def fmt_place_def)

lemma rva_in_sections_place:
  assumes "sorted_wrt extent_disjoint ss"
  shows "rva_in_sections rva ss = Inr off \<longleftrightarrow>
    (\<exists>p. filter (place_backs rva) (map fmt_place ss) = [p] \<and> off = place_offset rva p)"
  using assms
proof (induction ss)
  case (Cons s ss)
  have ext: "len (fs_raw_data s) \<le> section_extent s" by (simp add: section_extent_def)
  show ?case
  proof (cases "fs_virtual_address s \<le> rva \<and> rva < fs_virtual_address s + section_extent s")
    case True
    have "\<not> place_backs rva (fmt_place t)" if "t \<in> set ss" for t
      using Cons.prems that True ext by (auto simp: extent_disjoint_def place_backs_fmt section_extent_def)
    then have "filter (place_backs rva) (map fmt_place ss) = []" by (simp add: filter_empty_conv)
    then show ?thesis
      using True by (auto simp: place_backs_fmt) (auto simp: place_offset_def fmt_place_def)
  next
    case False
    then have "\<not> place_backs rva (fmt_place s)" using ext by (auto simp: place_backs_fmt)
    then show ?thesis using Cons False by auto
  qed
qed simp

lemma rva_to_offset_place:
  "rva_to_offset h rva 1 = Inr off \<longleftrightarrow>
    (\<exists>p. filter (place_backs rva) (map pe_place (ph_sections h)) = [p] \<and> off = place_offset rva p)"
proof -
  have b: "backs_rva s rva 1 = place_backs rva (pe_place s)" for s
    by (auto simp: backs_rva_def place_backs_def pe_place_def Let_def)
  have "filter (place_backs rva) (map pe_place ss) = map pe_place (filter (\<lambda>s. backs_rva s rva 1) ss)" for ss
    by (simp add: filter_map o_def b)
  moreover have "length xs = 1 \<longleftrightarrow> (\<exists>x. xs = [x])" for xs :: "pe32_section list"
    by (cases xs) auto
  ultimately show ?thesis
    by (auto simp: rva_to_offset_def section_for_rva_def Let_def place_offset_def pe_place_def)
qed


lemma parsed_header_rows:
  assumes "parse_pe32_headers data m i = Inr h"
  shows "rmap (parse_pe_section data (section_table_offset h)) (pyrange 0 (ph_section_count h)) = Inr (ph_sections h)"
    "unpack_u32 data 0x3C = Inr (ph_pe_offset h)" "unpack_u16 data (ph_pe_offset h + 6) = Inr (ph_section_count h)"
    "0 \<le> ph_pe_offset h"
  using assms by (auto simp: parse_pe32_headers_def Let_def section_table_offset_def)

lemma rmap_same_view:
  assumes "rmap f xs = Inr ys" "rmap g xs = Inr zs" "\<And>x y z. f x = Inr y \<Longrightarrow> g x = Inr z \<Longrightarrow> u y = v z"
  shows "map u ys = map v zs"
  using assms(1,2)
proof (induction xs arbitrary: ys zs)
  case (Cons x xs)
  then show ?case using assms(3) by auto
qed simp

lemma parse_pe32_Inr:
  assumes "parse_pe32 data i = Inr img"
  shows "\<exists>h header. parse_pe32_headers data 68 i = Inr h \<and> parse_header data (ph_pe_offset h + 4) = Inr header
    \<and> parse_fmt_sections data (section_table_offset h) (fh_section_count header) [] = Inr (fi_sections img)
    \<and> sorted_wrt extent_disjoint (fi_sections img)"
proof -
  obtain pe h header sections e where p: "pe = from_bytes (pslice data 0x3C 0x40)"
      "as_format_error (parse_pe32_headers data 68 i) = Inr h" "parse_header data (pe + 4) = Inr header"
      "parse_fmt_sections data (section_table_offset h) (fh_section_count header) [] = Inr sections"
      "rfold require_no_overlap 0 (sort_by (\<lambda>s t. fs_virtual_address s \<le> fs_virtual_address t) sections) = Inr e"
      "fi_sections img = sections"
    using assms by (auto simp: parse_pe32_def Let_def format_range_Inr)
  have h: "parse_pe32_headers data 68 i = Inr h"
    using p(2) by (auto simp: as_format_error_def split: sum.splits py_error.splits)
  have "pe = ph_pe_offset h" using parsed_header_rows(2) [OF h] p(1) by (auto simp: unpack_u32_def unpack_uint_slice)
  moreover have "sorted_wrt extent_disjoint sections"
    using no_overlap_sorted [OF p(5)] sorted_wrt_sort_sym [of extent_disjoint _ sections]
    by (auto simp: extent_disjoint_def)
  ultimately show ?thesis using h p by blast
qed

text \<open>
  C29. Two readers of an image agree on its addresses: whatever image the general reader
  accepts, the header reader accepts too, and both translate exactly the same addresses, to
  the same file offsets.
\<close>

theorem pe32_readers_agree:
  assumes "parse_pe32 data i386 = Inr img"
  shows "\<exists>h. parse_pe32_headers data 68 i386 = Inr h
    \<and> (\<forall>rva off. rva_to_file_offset img rva = Inr off \<longleftrightarrow> rva_to_offset h rva 1 = Inr off)"
proof -
  obtain h header where h: "parse_pe32_headers data 68 i386 = Inr h"
    and p: "parse_header data (ph_pe_offset h + 4) = Inr header"
      "parse_fmt_sections data (section_table_offset h) (fh_section_count header) [] = Inr (fi_sections img)"
      "sorted_wrt extent_disjoint (fi_sections img)"
    using parse_pe32_Inr [OF assms] by blast
  note r = parsed_header_rows [OF h]
  have "fh_section_count header = ph_section_count h" using header_sections [OF p(1) r(3,4)] .
  then have "map fmt_place (fi_sections img) = map pe_place (ph_sections h)"
    using p(2) r(1) section_places unfolding parse_fmt_sections_def by (intro rmap_same_view) auto
  then show ?thesis
    using h rva_in_sections_place [OF p(3)] rva_to_offset_place by (auto simp: rva_to_file_offset_def)
qed


definition sample_pe_image :: "fmt_image result" where
  "sample_pe_image = parse_pe32 sample_pe True"

theorem pe32_readers_agree_witness:
  "\<exists>h. parse_pe32_headers sample_pe 68 True = Inr h \<and> rva_to_offset h 0x1002 1 = Inr 314"
proof -
  have "case sample_pe_image of Inl _ \<Rightarrow> False | Inr img \<Rightarrow> rva_to_file_offset img 0x1002 = Inr 314"
    by code_simp
  then obtain img where img: "parse_pe32 sample_pe True = Inr img" "rva_to_file_offset img 0x1002 = Inr 314"
    by (auto simp: sample_pe_image_def split: sum.splits)
  from pe32_readers_agree [OF img(1)] img(2) show ?thesis by blast
qed

section \<open>The two readers of an object\<close>

lemma find_from_shift:
  "0 \<le> i \<Longrightarrow> 0 \<le> k \<Longrightarrow>
   find_from bs x (i + k) = (if find_from bs x i = - 1 then - 1 else find_from bs x i + k)"
proof (induction bs arbitrary: i)
  case (Cons b bs)
  have "i + k + 1 = (i + 1) + k" by simp
  then show ?case using Cons.IH [of "i + 1"] Cons.prems by (simp only: find_from.simps) auto
qed simp

lemma find_from_range:
  "0 \<le> i \<Longrightarrow> (find_from bs x i = - 1 \<or> i \<le> find_from bs x i) \<and> find_from bs x i < i + len bs"
proof (induction bs arbitrary: i)
  case (Cons b bs)
  then have "0 \<le> i + 1" by simp
  from Cons.IH [OF this] show ?case using Cons.prems by auto
qed simp

text \<open>A name of the string table, found in the table or in the whole file.\<close>

lemma string_table_name:
  assumes "0 \<le> so" "so \<le> se" "se \<le> len data" "4 \<le> rel" "rel < se - so"
  defines "st \<equiv> pslice data so se"
  shows "bytes_find st 0 rel (len st) \<ge> 0 \<longleftrightarrow> bytes_find data 0 (so + rel) se \<ge> 0"
    "bytes_find data 0 (so + rel) se \<ge> 0 \<Longrightarrow>
      pslice st rel (bytes_find st 0 rel (len st)) = pslice data (so + rel) (bytes_find data 0 (so + rel) se)"
proof -
  have l: "len st = se - so" using assms by (simp add: length_pslice)
  have s: "pslice st rel (len st) = pslice data (so + rel) se"
    unfolding l using assms by (simp add: st_def pslice_pslice)
  define f where "f = find_from (pslice data (so + rel) se) 0 rel"
  have b: "bytes_find st 0 rel (len st) = f" by (simp add: bytes_find_def s f_def)
  have d: "bytes_find data 0 (so + rel) se = (if f = - 1 then - 1 else f + so)"
    using find_from_shift [of rel so "pslice data (so + rel) se" 0] assms(1,4)
    by (simp add: bytes_find_def f_def add.commute)
  have r: "f = - 1 \<or> rel \<le> f" "f < rel + (se - (so + rel))"
    using find_from_range [of rel "pslice data (so + rel) se" 0] assms by (auto simp: f_def length_pslice)
  show "bytes_find st 0 rel (len st) \<ge> 0 \<longleftrightarrow> bytes_find data 0 (so + rel) se \<ge> 0" using r assms(1,4) by (auto simp: b d)
  assume "bytes_find data 0 (so + rel) se \<ge> 0"
  then have "f \<noteq> - 1" by (simp add: d split: if_splits)
  then show "pslice st rel (bytes_find st 0 rel (len st)) = pslice data (so + rel) (bytes_find data 0 (so + rel) se)"
    unfolding b d using r assms by (simp add: st_def pslice_pslice add.commute)
qed

lemma rstrip_nul_Cons: "b \<noteq> 0 \<Longrightarrow> rstrip_nul (b # bs) = b # rstrip_nul bs"
  by (simp add: rstrip_nul_def dropWhile_append)

lemma section_names_agree:
  assumes f: "decode_section_name raw st = Inr name" and c: "coff_section_name data so se raw = Inr name'"
    and st: "st = pslice data so se" "0 \<le> so" "so \<le> se" "se \<le> len data"
  shows "name = name'"
proof (cases "starts_with raw [0x2F]")
  case False
  then have "\<not> starts_with (rstrip_nul raw) [0x2F]"
    by (cases raw) (auto simp: rstrip_nul_def dropWhile_append split: if_splits)
  then show ?thesis using f c False by (auto simp: decode_section_name_def coff_section_name_def ascii_name_def split: sum.splits)
next
  case True
  then obtain bs where raw: "raw = 0x2F # bs" by (cases raw) auto
  then have short: "rstrip_nul raw = 0x2F # rstrip_nul bs" by (simp add: rstrip_nul_Cons)
  let ?d = "rstrip_nul bs"
  have d: "bytes_isdigit ?d" and cs: "coff_string data so se (int_of_digits ?d) = Inr name'"
    using c raw by (auto simp: coff_section_name_def Let_def)
  let ?rel = "int_of_digits ?d"
  have rel: "4 \<le> ?rel" "?rel < se - so" "bytes_find data 0 (so + ?rel) se \<ge> 0"
    "ascii_decode (pslice data (so + ?rel) (bytes_find data 0 (so + ?rel) se)) = Inr name'"
    using cs by (auto simp: coff_string_def Let_def)
  have "ascii_name (pslice st ?rel (bytes_find st 0 ?rel (len st))) = Inr name"
    using f d by (simp add: decode_section_name_def short Let_def)
  then show ?thesis
    using string_table_name(2) [OF st(2-4) rel(1,2) rel(3)] rel(4) st(1) by (simp add: ascii_name_def)
qed


text \<open>What the general reader makes of a section, next to what the object reader does.\<close>

definition sections_agree :: "coff_object \<Rightarrow> fmt_section \<Rightarrow> coff_section \<Rightarrow> bool" where
  "sections_agree coff s t =
     (fs_name s = sec_name t \<and> fs_raw_data_offset s = sec_raw_offset t
      \<and> fs_characteristics s = sec_characteristics t \<and> len (fs_relocations s) = sec_relocation_count t
      \<and> fs_raw_data s =
          (if sec_characteristics t AND 0x80 \<noteq> 0 then pslice (co_data coff) 0 (sec_raw_size t)
           else coff_body coff t))"

lemma sections_agree_at:
  assumes f: "parse_fmt_section data 20 st k = Inr s" and c: "parse_section data so se te k = Inr t"
    and st: "st = pslice data so se" "0 \<le> so" "so \<le> se" "se \<le> len data" and coff: "co_data coff = data"
  shows "sections_agree coff s t"
proof -
  let ?h = "20 + k * 40"
  let ?fields = "[U 4, U 4, U 4, U 4, U 4, U 4, U 2, U 2, U 4]"
  define v where "v = unpack_fields ?fields data (?h + 8)"
  have h: "0 \<le> ?h" "?h + 40 \<le> len data" using f by (auto simp: parse_fmt_section_def format_range_Inr)
  have raw: "unpack_fields ?fields (pslice data ?h (?h + 40)) 8 = v" "pslice (pslice data ?h (?h + 40)) 0 8 = pslice data ?h (?h + 8)"
    using h unpack_fields_slice [of ?h 8 ?fields "?h + 40" data] by (simp_all add: v_def calcsize_def pslice_pslice)
  have nonneg: "0 \<le> v ! 2" "0 \<le> v ! 6" by (simp_all add: v_def)
  have s: "decode_section_name (pslice data ?h (?h + 8)) st = Inr (fs_name s)" "fs_raw_data_offset s = v ! 3"
    "fs_characteristics s = v ! 8" "len (fs_relocations s) = v ! 6"
    "fs_raw_data s = (if v ! 2 \<noteq> 0 then pslice data (v ! 3) (v ! 3 + v ! 2) else [])"
    using f nonneg raw by (auto simp: parse_fmt_section_def Let_def format_range_Inr dest: rmap_length split: if_splits)
  have t: "coff_section_name data so se (pslice data ?h (?h + 8)) = Inr (sec_name t)" "sec_raw_size t = v ! 2"
    "sec_raw_offset t = v ! 3" "sec_relocation_count t = v ! 6" "sec_characteristics t = v ! 8"
    "section_header_ok (len data) te v = Inr ()"
    using c by (auto simp: parse_section_def Let_def v_def)
  have "v ! 3 = 0" if "v ! 2 \<noteq> 0" "v ! 8 AND 0x80 \<noteq> 0"
    using t(6) that by (auto simp: section_header_ok_def Let_def)
  then show ?thesis
    using s t section_names_agree [OF s(1) t(1) st] coff by (auto simp: sections_agree_def coff_body_def)
qed

lemma rmap_pairs:
  assumes "rmap f xs = Inr ys" "rmap g xs = Inr zs" "\<And>x y z. f x = Inr y \<Longrightarrow> g x = Inr z \<Longrightarrow> P y z"
  shows "list_all2 P ys zs"
  using assms(1,2)
proof (induction xs arbitrary: ys zs)
  case (Cons x xs)
  then show ?case using assms(3) by auto
qed simp

text \<open>
  C30. Two readers of an object agree: on a file both accept they find the same sections, with
  the same names, flags, data offsets and numbers of relocations, and the same bytes, except in
  an uninitialised section: there the object reader finds no bytes, while the general reader
  hands out as many bytes of the start of the file as the section's size.
\<close>

theorem coff_readers_agree:
  assumes "parse_coff_object data i386 = Inr obj" "coff_parse data = Inr coff"
  shows "fo_string_table obj = pslice data (co_string_offset coff) (co_string_end coff)
    \<and> list_all2 (sections_agree coff) (fo_sections obj) (co_sections coff)"
proof -
  let ?H = "unpack_fields [U 2, U 2, U 4, U 4, U 4, U 2, U 2] data 0"
  define so where "so = ?H ! 3 + ?H ! 4 * 18"
  define n where "n = from_bytes (pslice data so (so + 4))"
  have c: "co_data coff = data" "co_string_offset coff = so" "co_string_end coff = so + n" "so + n = len data" "4 \<le> n"
      "20 + ?H ! 1 * 40 \<le> ?H ! 3" "0 \<le> so" "0 < ?H ! 1"
      "rmap (parse_section data so (so + n) (20 + ?H ! 1 * 40)) (pyrange 0 (?H ! 1)) = Inr (co_sections coff)"
    using assms(2) by (auto simp: coff_parse_def Let_def so_def n_def calcsize_def)
  obtain header where f: "parse_header data 0 = Inr header" "coff_string_table data header = Inr (fo_string_table obj)"
      "rmap (parse_fmt_section data 20 (fo_string_table obj)) (pyrange 0 (fh_section_count header)) = Inr (fo_sections obj)"
    using assms(1) by (auto simp: parse_coff_object_def parse_fmt_sections_def)
  have l: "20 \<le> len data" using f(1) by (auto simp: parse_header_def format_range_Inr)
  have header: "fh_section_count header = ?H ! 1" "fh_symbol_table_offset header = ?H ! 3" "fh_symbol_count header = ?H ! 4"
    using f(1) unpack_fields_slice [of 0 0 "[U 2, U 2, U 4, U 4, U 4, U 2, U 2]" 20 data] l
    by (auto simp: parse_header_def Let_def format_range_Inr calcsize_def)
  have "?H ! 3 \<noteq> 0" using c(6,8) by simp
  then have st: "fo_string_table obj = pslice data so (so + n)"
    using f(2) by (auto simp: coff_string_table_def header Let_def format_range_Inr so_def n_def)
  have "list_all2 (sections_agree coff) (fo_sections obj) (co_sections coff)"
    by (rule rmap_pairs [OF f(3) [unfolded header] c(9)])
       (use c st in \<open>auto intro!: sections_agree_at [of data "fo_string_table obj" _ _ so "so + n"]\<close>)
  then show ?thesis using st c(2,3) by simp
qed


theorem coff_readers_agree_witness:
  "\<exists>obj. parse_coff_object sample_coff True = Inr obj
     \<and> list_all2 (sections_agree sample_object) (fo_sections obj) [sample_text, sample_debug]"
proof -
  have "\<not> isl (parse_coff_object sample_coff True)" by code_simp
  then obtain obj where obj: "parse_coff_object sample_coff True = Inr obj"
    by (cases "parse_coff_object sample_coff True") auto
  from coff_readers_agree [OF obj sample_parse] obj show ?thesis by (simp add: sample_object_def)
qed

end
