(* ===== verification/Coff_Archive.thy ===== *)
theory Coff_Archive
  imports Binary_Formats
begin

text \<open>
  The archive reader of \<^verbatim>\<open>src/reprobit/formats.py\<close>: the walk over the member headers, the
  three ways a member is named, and strict UTF-8.  An archive is consumed to its last byte,
  and reading inverts writing.
\<close>

section \<open>UTF-8\<close>

text \<open>
  \<^verbatim>\<open>bytes.decode("utf-8")\<close> as a list of code points: the shortest form only, no surrogates,
  nothing above U+10FFFF.
\<close>

definition continuation :: "byte \<Rightarrow> bool" where
  "continuation b = (0x80 \<le> byte_int b \<and> byte_int b \<le> 0xBF)"

definition code_point_ok :: "int \<Rightarrow> bool" where
  "code_point_ok c = (0 \<le> c \<and> c \<le> 0x10FFFF \<and> \<not> (0xD800 \<le> c \<and> c \<le> 0xDFFF))"

fun utf8_decode :: "bytes \<Rightarrow> int list option" where
  "utf8_decode [] = Some []"
| "utf8_decode (b # bs) =
     (if byte_int b < 0x80 then map_option (Cons (byte_int b)) (utf8_decode bs)
      else if 0xC2 \<le> byte_int b \<and> byte_int b \<le> 0xDF
      then (case bs of
              c1 # r \<Rightarrow>
                if continuation c1
                then map_option (Cons ((byte_int b - 0xC0) * 64 + (byte_int c1 - 0x80))) (utf8_decode r)
                else None
            | _ \<Rightarrow> None)
      else if 0xE0 \<le> byte_int b \<and> byte_int b \<le> 0xEF
      then (case bs of
              c1 # c2 # r \<Rightarrow>
                let c = (byte_int b - 0xE0) * 4096 + (byte_int c1 - 0x80) * 64 + (byte_int c2 - 0x80)
                in if continuation c1 \<and> continuation c2 \<and> 0x800 \<le> c \<and> code_point_ok c
                   then map_option (Cons c) (utf8_decode r) else None
            | _ \<Rightarrow> None)
      else if 0xF0 \<le> byte_int b \<and> byte_int b \<le> 0xF4
      then (case bs of
              c1 # c2 # c3 # r \<Rightarrow>
                let c = (byte_int b - 0xF0) * 262144 + (byte_int c1 - 0x80) * 4096
                        + (byte_int c2 - 0x80) * 64 + (byte_int c3 - 0x80)
                in if continuation c1 \<and> continuation c2 \<and> continuation c3 \<and> 0x10000 \<le> c \<and> code_point_ok c
                   then map_option (Cons c) (utf8_decode r) else None
            | _ \<Rightarrow> None)
      else None)"

definition utf8_name :: "bytes \<Rightarrow> int list result" where
  "utf8_name bs =
     (case utf8_decode bs of Some s \<Rightarrow> Inr s
      | None \<Rightarrow> Inl (FormatError ''invalid archive member name''))"

section \<open>The archive\<close>

record archive_member =
  am_name :: "int list"
  am_timestamp :: int
  am_user_id :: int
  am_group_id :: int
  am_mode :: int
  am_data :: bytes

text \<open>\<^verbatim>\<open>CoffArchive.named\<close>.\<close>

definition named_members :: "archive_member list \<Rightarrow> int list \<Rightarrow> archive_member list" where
  "named_members members name = filter (\<lambda>m. am_name m = name) members"

text \<open>\<^verbatim>\<open>data.find(pair, start)\<close> for two bytes; -1 when absent.\<close>

fun find_pair :: "bytes \<Rightarrow> byte \<Rightarrow> byte \<Rightarrow> int \<Rightarrow> int" where
  "find_pair (b # c # bs) x y i = (if b = x \<and> c = y then i else find_pair (c # bs) x y (i + 1))"
| "find_pair _ x y i = - 1"

definition gnu_archive_name :: "bytes \<Rightarrow> bytes \<Rightarrow> int list result" where
  "gnu_archive_name raw_name long_names =
     (let value = bytes_rstrip raw_name
      in if starts_with value [0x2F] \<and> bytes_isdigit (drop 1 value)
         then let off = int_of_digits (drop 1 value)
              in raise_unless (\<not> off \<ge> len long_names) (FormatError ''archive long-name offset is out of range'') (
                 let candidates = filter (\<lambda>p. p \<ge> 0)
                       [find_pair (slice_from long_names off) 0x2F 0x0A off,
                        bytes_find long_names 0 off (len long_names)]
                 in raise_unless (candidates \<noteq> []) (FormatError ''unterminated archive long name'')
                      (utf8_name (pslice long_names off (Min (set candidates)))))
         else utf8_name (if value \<noteq> [] \<and> last value = 0x2F \<and> value \<noteq> [0x2F] \<and> value \<noteq> [0x2F, 0x2F]
                         then butlast value else value))"

text \<open>The raw member: its name field, four numbers and its bytes.\<close>

type_synonym raw_member = "bytes \<times> int \<times> int \<times> int \<times> int \<times> bytes"

definition read_member :: "bytes \<Rightarrow> int \<Rightarrow> (int \<times> raw_member) result" where
  "read_member data off =
     rbind (format_range data off 60) (\<lambda>header.
     raise_unless (pslice header 58 60 = [0x60, 0x0A]) (FormatError ''invalid archive member trailer'') (
     rbind (ascii_integer (pslice header 48 58) 10) (\<lambda>n.
     rbind (format_range data (off + 60) n) (\<lambda>member_data.
     rbind (ascii_integer (pslice header 16 28) 10) (\<lambda>timestamp.
     rbind (ascii_integer (pslice header 28 34) 10) (\<lambda>user_id.
     rbind (ascii_integer (pslice header 34 40) 10) (\<lambda>group_id.
     rbind (ascii_integer (pslice header 40 48) 8) (\<lambda>mode.
       Inr (off + 60 + n + (n AND 1), pslice header 0 16, timestamp, user_id, group_id, mode, member_data)))))))))"

lemma read_member_advances:
  assumes "read_member data off = Inr (next, m)"
  shows "off + 60 \<le> next" "0 \<le> off" "off + 60 \<le> len data"
  using assms by (auto simp: read_member_def format_range_def)

function read_members :: "bytes \<Rightarrow> int \<Rightarrow> (int \<times> raw_member list) result" where
  "read_members data off =
     (if off < len data
      then rbind (read_member data off) (\<lambda>(next, m).
           rbind (read_members data next) (\<lambda>(stop, ms). Inr (stop, m # ms)))
      else Inr (off, []))"
  by pat_completeness auto
termination
  by (relation "measure (\<lambda>(data, off). nat (len data - off))") (auto dest: read_member_advances)

declare read_members.simps [simp del]

text \<open>The last member named \<^verbatim>\<open>//\<close> holds the long names.\<close>

definition long_names_of :: "raw_member list \<Rightarrow> bytes" where
  "long_names_of ms = foldl (\<lambda>names (raw_name, _, _, _, _, d).
     if bytes_rstrip raw_name = [0x2F, 0x2F] then d else names) [] ms"

definition name_member :: "bytes \<Rightarrow> raw_member \<Rightarrow> archive_member result" where
  "name_member long_names m =
     (case m of (raw_name, timestamp, user_id, group_id, mode, member_data) \<Rightarrow>
       let value = bytes_rstrip raw_name
       in rbind
            (if starts_with value [0x23, 0x31, 0x2F]
             then rbind (ascii_integer (drop 3 value) 10) (\<lambda>name_length.
                  rbind (format_range member_data 0 name_length) (\<lambda>name_raw.
                  rbind (utf8_name (rstrip_nul name_raw)) (\<lambda>name.
                    Inr (name, slice_from member_data name_length))))
             else rbind (gnu_archive_name raw_name long_names) (\<lambda>name. Inr (name, member_data))) (\<lambda>(name, d).
          Inr \<lparr>am_name = name, am_timestamp = timestamp, am_user_id = user_id,
               am_group_id = group_id, am_mode = mode, am_data = d\<rparr>))"

definition archive_signature :: bytes where
  "archive_signature = [0x21, 0x3C, 0x61, 0x72, 0x63, 0x68, 0x3E, 0x0A]"

definition parse_coff_archive :: "bytes \<Rightarrow> archive_member list result" where
  "parse_coff_archive data =
     raise_unless (starts_with data archive_signature) (FormatError ''missing archive signature'') (
     rbind (read_members data 8) (\<lambda>(stop, raw_members).
     raise_unless (stop = len data) (FormatError ''archive has an incomplete alignment byte'')
       (rmap (name_member (long_names_of raw_members)) raw_members)))"


section \<open>Every byte of an archive\<close>

text \<open>A member as it lies in the file: header, bytes and the padding of an odd length.\<close>

definition member_block :: "bytes \<times> bytes \<times> bytes \<Rightarrow> archive_member \<Rightarrow> bool" where
  "member_block block m =
     (case block of (h, b, p) \<Rightarrow>
        length h = 60 \<and> pslice h 58 60 = [0x60, 0x0A] \<and> length p = length b mod 2
        \<and> ascii_integer (pslice h 48 58) 10 = Inr (len b)
        \<and> ascii_integer (pslice h 16 28) 10 = Inr (am_timestamp m)
        \<and> ascii_integer (pslice h 28 34) 10 = Inr (am_user_id m)
        \<and> ascii_integer (pslice h 34 40) 10 = Inr (am_group_id m)
        \<and> ascii_integer (pslice h 40 48) 8 = Inr (am_mode m)
        \<and> (\<exists>name. b = name @ am_data m \<and> (name = [] \<or> starts_with h [0x23, 0x31, 0x2F])))"

definition block_bytes :: "bytes \<times> bytes \<times> bytes \<Rightarrow> bytes" where
  "block_bytes block = (case block of (h, b, p) \<Rightarrow> h @ b @ p)"

definition block_raw :: "bytes \<times> bytes \<times> bytes \<Rightarrow> raw_member \<Rightarrow> bool" where
  "block_raw block m =
     (case (block, m) of ((h, b, p), (raw_name, timestamp, user_id, group_id, mode, d)) \<Rightarrow>
        length h = 60 \<and> pslice h 58 60 = [0x60, 0x0A] \<and> length p = length b mod 2
        \<and> ascii_integer (pslice h 48 58) 10 = Inr (len b)
        \<and> ascii_integer (pslice h 16 28) 10 = Inr timestamp \<and> ascii_integer (pslice h 28 34) 10 = Inr user_id
        \<and> ascii_integer (pslice h 34 40) 10 = Inr group_id \<and> ascii_integer (pslice h 40 48) 8 = Inr mode
        \<and> raw_name = pslice h 0 16 \<and> d = b)"

lemma slice_from_pslice: "0 \<le> off \<Longrightarrow> off \<le> len data \<Longrightarrow> slice_from data off = pslice data off (len data)"
  by (simp add: slice_from_def slice_bound_def pslice_nonneg nat_diff_distrib)

lemma read_member_block:
  assumes r: "read_member data off = Inr (next, m)" and n: "next \<le> len data"
  shows "\<exists>block. block_raw block m \<and> slice_from data off = block_bytes block @ slice_from data next"
proof -
  obtain k where k: "ascii_integer (pslice (pslice data off (off + 60)) 48 58) 10 = Inr k" "0 \<le> k"
      "off + 60 + k \<le> len data" "next = off + 60 + k + k mod 2"
    and off: "0 \<le> off" "off + 60 \<le> len data"
    using r by (auto simp: read_member_def format_range_Inr and_one_eq)
  let ?block = "(pslice data off (off + 60), pslice data (off + 60) (off + 60 + k), pslice data (off + 60 + k) next)"
  have "block_raw ?block m"
    using r k off n by (auto simp: read_member_def format_range_Inr block_raw_def length_pslice nat_add_distrib nat_mod_distrib)
  moreover have "slice_from data off = block_bytes ?block @ slice_from data next"
    using k off n by (simp add: block_bytes_def slice_from_pslice pslice_append)
  ultimately show ?thesis by blast
qed

lemma read_members_monotone: "read_members data off = Inr (stop, ms) \<Longrightarrow> off \<le> stop"
proof (induction data off arbitrary: stop ms rule: read_members.induct)
  case (1 data off)
  then show ?case
    by (subst (asm) (2) read_members.simps) (fastforce split: if_splits dest: read_member_advances)
qed

lemma read_members_blocks:
  assumes "read_members data off = Inr (len data, ms)" "0 \<le> off"
  shows "\<exists>blocks. list_all2 block_raw blocks ms \<and> slice_from data off = concat (map block_bytes blocks)"
  using assms
proof (induction data off arbitrary: ms rule: read_members.induct)
  case (1 data off)
  show ?case
  proof (cases "off < len data")
    case True
    then obtain m ms' nx where m: "read_member data off = Inr (nx, m)" "read_members data nx = Inr (len data, ms')"
        "ms = m # ms'"
      using "1.prems"(1) by (subst (asm) read_members.simps) auto
    have nx: "nx \<le> len data" "0 \<le> nx"
      using read_members_monotone [OF m(2)] read_member_advances [OF m(1)] by auto
    obtain block where b: "block_raw block m" "slice_from data off = block_bytes block @ slice_from data nx"
      using read_member_block [OF m(1) nx(1)] by blast
    obtain blocks where "list_all2 block_raw blocks ms'" "slice_from data nx = concat (map block_bytes blocks)"
      using "1.IH" [OF True m(1) refl m(2) nx(2)] by blast
    then show ?thesis using b m(3) by (intro exI [of _ "block # blocks"]) simp
  next
    case False
    then have "ms = []" "off = len data" using "1.prems"(1) by (simp_all add: read_members.simps)
    then show ?thesis by (intro exI [of _ "[]"]) (simp add: slice_from_def slice_bound_def)
  qed
qed

lemma starts_with_prefix: "starts_with xs ps \<longleftrightarrow> (\<exists>ys. xs = ps @ ys)"
  by (induction xs ps rule: starts_with.induct) auto

lemma starts_with_longer: "starts_with xs ps \<Longrightarrow> starts_with (xs @ ys) ps"
  by (auto simp: starts_with_prefix)

lemma rstrip_prefix: "\<exists>ys. bs = bytes_rstrip bs @ ys"
proof -
  have "rev bs = takeWhile is_space_byte (rev bs) @ dropWhile is_space_byte (rev bs)" by simp
  then have "bs = rev (dropWhile is_space_byte (rev bs)) @ rev (takeWhile is_space_byte (rev bs))"
    by (metis rev_append rev_rev_ident)
  then show ?thesis unfolding bytes_rstrip_def by blast
qed

lemma name_member_block:
  assumes b: "block_raw block raw" and n: "name_member long_names raw = Inr m"
  shows "member_block block m"
proof -
  obtain h b p where block: "block = (h, b, p)" by (cases block)
  obtain ts us gr mo where raw: "raw = (pslice h 0 16, ts, us, gr, mo, b)"
    using b by (cases raw) (auto simp: block_raw_def block)
  have "\<exists>name. b = name @ am_data m \<and> (name = [] \<or> starts_with h [0x23, 0x31, 0x2F])"
  proof (cases "starts_with (bytes_rstrip (pslice h 0 16)) [0x23, 0x31, 0x2F]")
    case True
    obtain zs where "take 16 h = bytes_rstrip (pslice h 0 16) @ zs"
      using rstrip_prefix [of "pslice h 0 16"] by (auto simp: pslice_nonneg)
    then have "h = bytes_rstrip (pslice h 0 16) @ (zs @ drop 16 h)"
      by (metis append.assoc append_take_drop_id)
    then have "starts_with h [0x23, 0x31, 0x2F]"
      using starts_with_longer [OF True] by metis
    moreover obtain k where k: "0 \<le> k" "k \<le> len b" "am_data m = slice_from b k"
      using n True unfolding raw by (auto simp: name_member_def format_range_Inr)
    have "b = pslice b 0 k @ am_data m"
      using k pslice_append [of 0 k "len b" b] by (simp add: slice_from_pslice)
    ultimately show ?thesis by blast
  next
    case False
    then show ?thesis using n unfolding raw by (auto simp: name_member_def Let_def)
  qed
  then show ?thesis
    using b n unfolding raw block by (auto simp: block_raw_def member_block_def name_member_def Let_def)
qed


lemma list_all2_compose:
  assumes "list_all2 P xs ys" "list_all2 Q ys zs" "\<And>x y z. P x y \<Longrightarrow> Q y z \<Longrightarrow> R x z"
  shows "list_all2 R xs zs"
  using list_all2_trans [of P Q R xs ys zs] assms by blast

section \<open>Writing an archive\<close>

text \<open>
  A writer for the reader to be inverse to.  Plain short names end in a slash, all others
  are put before the data, as BSD archives have them.  The name \<^verbatim>\<open>#1\<close> with its slash would be
  read as the mark of a BSD name.
\<close>

definition octet :: "int \<Rightarrow> byte" where
  "octet k = word_of_int k"

definition digit_byte :: "nat \<Rightarrow> byte" where
  "digit_byte k = octet (48 + int k)"

function digits_of :: "nat \<Rightarrow> nat \<Rightarrow> bytes" where
  "digits_of base n =
     (if n < base \<or> base \<le> 1 then [digit_byte n]
      else digits_of base (n div base) @ [digit_byte (n mod base)])"
  by pat_completeness auto
termination by (relation "measure snd") auto

declare digits_of.simps [simp del]

definition number_field :: "nat \<Rightarrow> nat \<Rightarrow> int \<Rightarrow> bytes" where
  "number_field w base v = (let ds = digits_of base (nat v) in ds @ replicate (w - length ds) 32)"

definition utf8_point :: "int \<Rightarrow> bytes" where
  "utf8_point c =
     (if c < 0x80 then [octet c]
      else if c < 0x800 then [octet (0xC0 + c div 64), octet (0x80 + c mod 64)]
      else if c < 0x10000
      then [octet (0xE0 + c div 4096), octet (0x80 + c div 64 mod 64), octet (0x80 + c mod 64)]
      else [octet (0xF0 + c div 262144), octet (0x80 + c div 4096 mod 64),
            octet (0x80 + c div 64 mod 64), octet (0x80 + c mod 64)])"

definition utf8_encode :: "int list \<Rightarrow> bytes" where
  "utf8_encode s = concat (map utf8_point s)"

definition short_name :: "int list \<Rightarrow> bool" where
  "short_name s = (s \<noteq> [] \<and> length s \<le> 15 \<and> list_all (\<lambda>c. 32 < c \<and> c < 127 \<and> c \<noteq> 0x2F) s \<and> s \<noteq> [0x23, 0x31])"

definition name_field :: "archive_member \<Rightarrow> bytes" where
  "name_field m =
     (if short_name (am_name m)
      then let v = utf8_encode (am_name m) @ [0x2F] in v @ replicate (16 - length v) 32
      else [0x23, 0x31, 0x2F] @ number_field 13 10 (len (utf8_encode (am_name m))))"

definition member_body :: "archive_member \<Rightarrow> bytes" where
  "member_body m = (if short_name (am_name m) then am_data m else utf8_encode (am_name m) @ am_data m)"

definition member_header :: "archive_member \<Rightarrow> bytes" where
  "member_header m =
     name_field m @ number_field 12 10 (am_timestamp m) @ number_field 6 10 (am_user_id m)
     @ number_field 6 10 (am_group_id m) @ number_field 8 8 (am_mode m)
     @ number_field 10 10 (len (member_body m)) @ [0x60, 0x0A]"

definition member_bytes :: "archive_member \<Rightarrow> bytes" where
  "member_bytes m =
     member_header m @ member_body m @ (if odd (length (member_body m)) then [0x0A] else [])"

definition archive_bytes :: "archive_member list \<Rightarrow> bytes" where
  "archive_bytes ms = archive_signature @ concat (map member_bytes ms)"

text \<open>
  The members the fixed fields of a header can hold and whose names survive the reader, which
  strips trailing NULs from a name before the data.
\<close>

definition writable :: "archive_member \<Rightarrow> bool" where
  "writable m =
     (0 \<le> am_timestamp m \<and> am_timestamp m < 10 ^ 12 \<and> 0 \<le> am_user_id m \<and> am_user_id m < 10 ^ 6
      \<and> 0 \<le> am_group_id m \<and> am_group_id m < 10 ^ 6 \<and> 0 \<le> am_mode m \<and> am_mode m < 8 ^ 8
      \<and> len (member_body m) < 10 ^ 10 \<and> list_all code_point_ok (am_name m)
      \<and> (am_name m = [] \<or> last (am_name m) \<noteq> 0))"

subsection \<open>Numbers\<close>

definition all_digits :: "int \<Rightarrow> bytes \<Rightarrow> bool" where
  "all_digits base bs = (bs \<noteq> [] \<and> list_all (\<lambda>b. 48 \<le> byte_int b \<and> byte_int b < 48 + base) bs)"

lemma octet_int [simp]: "0 \<le> k \<Longrightarrow> k < 256 \<Longrightarrow> byte_int (octet k) = k"
  by (simp add: octet_def uint_word_of_int)

lemma digit_byte_int: "k < base \<Longrightarrow> base \<le> 10 \<Longrightarrow> byte_int (digit_byte k) = 48 + int k"
  unfolding digit_byte_def by (rule octet_int) auto

lemma digits_of_all_digits: "2 \<le> base \<Longrightarrow> base \<le> 10 \<Longrightarrow> all_digits (int base) (digits_of base n)"
proof (induction base n rule: digits_of.induct)
  case (1 base n)
  have "byte_int (digit_byte (n mod base)) = 48 + int (n mod base)" using "1.prems" by (simp add: digit_byte_int [of _ base])
  then show ?case
    using 1 by (subst digits_of.simps) (auto simp: all_digits_def digit_byte_int)
qed

lemma digits_run_digits:
  "list_all (\<lambda>b. 48 \<le> byte_int b \<and> byte_int b < 48 + base) bs \<Longrightarrow> base \<le> 10 \<Longrightarrow>
   digits_run base acc False bs = Some (foldl (\<lambda>a b. base * a + (byte_int b - 48)) acc bs)"
  by (induction bs arbitrary: acc) auto

lemma digits_of_value:
  "2 \<le> base \<Longrightarrow> base \<le> 10 \<Longrightarrow>
   foldl (\<lambda>a b. int base * a + (byte_int b - 48)) 0 (digits_of base n) = int n"
proof (induction base n rule: digits_of.induct)
  case (1 base n)
  have "byte_int (digit_byte (n mod base)) = 48 + int (n mod base)" using "1.prems" by (simp add: digit_byte_int [of _ base])
  moreover have "int base * int (n div base) + int (n mod base) = int n"
    by (metis mult_div_mod_eq of_nat_add of_nat_mult)
  ultimately show ?case
    using 1 by (subst digits_of.simps) (auto simp: digit_byte_int)
qed

lemma length_digits_of: "2 \<le> base \<Longrightarrow> n < base ^ w \<Longrightarrow> 0 < w \<Longrightarrow> length (digits_of base n) \<le> w"
proof (induction base n arbitrary: w rule: digits_of.induct)
  case (1 base n)
  show ?case
  proof (cases "n < base")
    case True
    then show ?thesis using "1.prems"(3) by (simp add: digits_of.simps)
  next
    case False
    then obtain v where w: "w = Suc v" "0 < v"
      using "1.prems" by (cases w; cases "w = 1") (auto intro: gr0I)
    then have "n div base < base ^ v" using "1.prems" by (simp add: less_mult_imp_div_less mult.commute)
    then show ?thesis
      using 1 False w by (subst digits_of.simps) simp
  qed
qed


lemma rstrip_padding: "xs \<noteq> [] \<Longrightarrow> \<not> is_space_byte (last xs) \<Longrightarrow> bytes_rstrip (xs @ replicate k 32) = xs"
proof -
  assume a: "xs \<noteq> []" "\<not> is_space_byte (last xs)"
  have "dropWhile is_space_byte (replicate k 32 @ ys) = dropWhile is_space_byte ys" for ys
    by (induction k) (simp_all add: is_space_byte_def)
  moreover have "dropWhile is_space_byte (rev xs) = rev xs"
    using a by (cases xs rule: rev_cases) simp_all
  ultimately show ?thesis by (simp add: bytes_rstrip_def)
qed

lemma digit_not_other:
  assumes "48 \<le> byte_int b" "byte_int b < 58"
  shows "b \<noteq> 0x2D" "b \<noteq> 0x2B" "b \<noteq> 0x5F" "b \<noteq> 0x6F" "b \<noteq> 0x4F" "\<not> is_space_byte b"
  using assms by (auto simp: is_space_byte_def)

lemma py_int_digits:
  assumes d: "all_digits base bs" and base: "base \<le> 10"
  shows "py_int base bs = Some (foldl (\<lambda>a b. base * a + (byte_int b - 48)) 0 bs)"
proof -
  obtain b r where b: "bs = b # r" using d by (cases bs) (auto simp: all_digits_def)
  have *: "48 \<le> byte_int c \<and> byte_int c < 58" if "c \<in> set bs" for c
    using d base that by (force simp: all_digits_def list_all_iff)
  note nb = digit_not_other [of b]
  have "strip_octal_prefix base bs = bs"
  proof (cases r)
    case (Cons c r')
    then show ?thesis using digit_not_other(4,5) [of c] * by (simp add: strip_octal_prefix_def b)
  qed (simp add: strip_octal_prefix_def b)
  moreover have "digits_value base bs = Some (foldl (\<lambda>a b. base * a + (byte_int b - 48)) 0 bs)"
    using digits_run_digits [of base bs 0] d base nb * by (simp add: digits_value_def all_digits_def b)
  ultimately show ?thesis using nb * by (simp add: py_int_def b)
qed

lemma ascii_integer_field:
  assumes "2 \<le> base" "base \<le> 10" "0 \<le> v"
  shows "ascii_integer (number_field w base v) (int base) = Inr v"
proof -
  let ?ds = "digits_of base (nat v)"
  have d: "all_digits (int base) ?ds" using digits_of_all_digits assms by blast
  have sp: "\<not> is_space_byte c" if "c \<in> set ?ds" for c
    using d assms(2) that digit_not_other(6) [of c] by (force simp: all_digits_def list_all_iff)
  have ne: "?ds \<noteq> []" using d by (simp add: all_digits_def)
  have "bytes_strip (number_field w base v) = dropWhile is_space_byte ?ds"
    using rstrip_padding [OF ne] sp ne by (simp add: bytes_strip_def number_field_def Let_def)
  also have "\<dots> = ?ds" using ne sp by (cases ?ds) auto
  finally show ?thesis
    using py_int_digits [OF d] digits_of_value [OF assms(1,2), of "nat v"] ne assms by (simp add: ascii_integer_def Let_def)
qed

lemma length_number_field:
  assumes "2 \<le> base" "0 \<le> v" "v < int base ^ w" "0 < w"
  shows "length (number_field w base v) = w"
proof -
  have "nat v < base ^ w" using assms(2,3) by (simp add: nat_less_iff)
  then show ?thesis using length_digits_of [OF assms(1) _ assms(4)] by (simp add: number_field_def Let_def)
qed

subsection \<open>Text\<close>

lemma base64_digits:
  fixes c :: int
  shows "c = c div 4096 * 4096 + c div 64 mod 64 * 64 + c mod 64"
    "c = c div 262144 * 262144 + c div 4096 mod 64 * 4096 + c div 64 mod 64 * 64 + c mod 64"
proof -
  have d: "c div 64 div 64 = c div 4096" "c div 4096 div 64 = c div 262144"
    using zdiv_zmult2_eq [of 64 c 64] zdiv_zmult2_eq [of 64 c 4096] by simp_all
  show one: "c = c div 4096 * 4096 + c div 64 mod 64 * 64 + c mod 64"
    using div_mult_mod_eq [of c 64] div_mult_mod_eq [of "c div 64" 64] d(1) by linarith
  show "c = c div 262144 * 262144 + c div 4096 mod 64 * 4096 + c div 64 mod 64 * 64 + c mod 64"
    using one div_mult_mod_eq [of "c div 4096" 64] d(2) by linarith
qed

lemma utf8_point_decode:
  assumes "code_point_ok c"
  shows "utf8_decode (utf8_point c @ r) = map_option (Cons c) (utf8_decode r)"
proof -
  have c: "0 \<le> c" "c \<le> 0x10FFFF" using assms by (simp_all add: code_point_ok_def)
  consider "c < 0x80" | "0x80 \<le> c" "c < 0x800" | "0x800 \<le> c" "c < 0x10000" | "0x10000 \<le> c" by linarith
  then show ?thesis
  proof cases
    case 1
    then show ?thesis using c by (simp add: utf8_point_def)
  next
    case 2
    define q where "q = c div 64"
    define t where "t = c mod 64"
    have "c = q * 64 + t" "0 \<le> t" "t < 64" by (simp_all add: q_def t_def)
    moreover from this 2 have "2 \<le> q" "q \<le> 31" by linarith+
    ultimately show ?thesis using 2 by (simp add: utf8_point_def continuation_def flip: q_def t_def)
  next
    case 3
    define p where "p = c div 4096"
    define q where "q = c div 64 mod 64"
    define t where "t = c mod 64"
    have e: "c = p * 4096 + q * 64 + t" "0 \<le> t" "t < 64" "0 \<le> q" "q < 64"
      unfolding p_def q_def t_def by (rule base64_digits(1), simp_all)
    from e 3 have "0 \<le> p" "p \<le> 15" by linarith+
    moreover have "utf8_point c = [octet (0xE0 + p), octet (0x80 + q), octet (0x80 + t)]"
      using 3 by (simp add: utf8_point_def p_def q_def t_def)
    ultimately show ?thesis
      using 3 assms e(2-) e(1) [symmetric] by (simp add: continuation_def Let_def)
  next
    case 4
    define z where "z = c div 262144"
    define p where "p = c div 4096 mod 64"
    define q where "q = c div 64 mod 64"
    define t where "t = c mod 64"
    have e: "c = z * 262144 + p * 4096 + q * 64 + t" "0 \<le> t" "t < 64" "0 \<le> q" "q < 64" "0 \<le> p" "p < 64"
      unfolding z_def p_def q_def t_def by (rule base64_digits(2), simp_all)
    from e 4 c have "0 \<le> z" "z \<le> 4" by linarith+
    moreover have "utf8_point c = [octet (0xF0 + z), octet (0x80 + p), octet (0x80 + q), octet (0x80 + t)]"
      using 4 by (simp add: utf8_point_def z_def p_def q_def t_def)
    ultimately show ?thesis
      using 4 assms e(2-) e(1) [symmetric] by (simp add: continuation_def Let_def add.assoc)
  qed
qed

lemma utf8_round_trip: "list_all code_point_ok s \<Longrightarrow> utf8_decode (utf8_encode s) = Some s"
  by (induction s) (simp_all add: utf8_encode_def utf8_point_decode)


subsection \<open>Members\<close>

lemma utf8_point_plain: "0 \<le> c \<Longrightarrow> c < 128 \<Longrightarrow> utf8_point c = [octet c]"
  by (simp add: utf8_point_def)

lemma utf8_plain: "\<forall>c \<in> set s. 0 \<le> c \<and> c < 128 \<Longrightarrow> utf8_encode s = map octet s"
  unfolding utf8_encode_def by (induction s) (auto simp: utf8_point_plain)

lemma utf8_short: "short_name s \<Longrightarrow> utf8_encode s = map octet s"
  by (rule utf8_plain) (auto simp: short_name_def list_all_iff)

lemma rstrip_nul_id: "bs = [] \<or> last bs \<noteq> 0 \<Longrightarrow> rstrip_nul bs = bs"
  by (cases bs rule: rev_cases) (auto simp: rstrip_nul_def)

lemma utf8_point_last: "code_point_ok c \<Longrightarrow> c \<noteq> 0 \<Longrightarrow> utf8_point c \<noteq> [] \<and> last (utf8_point c) \<noteq> 0"
proof -
  assume c: "code_point_ok c" "c \<noteq> 0"
  have "last (utf8_point c) = octet c \<and> c < 0x80 \<or> last (utf8_point c) = octet (0x80 + c mod 64)"
    by (simp add: utf8_point_def)
  then have "byte_int (last (utf8_point c)) \<noteq> 0"
    using c by (auto simp: code_point_ok_def)
  moreover have "utf8_point c \<noteq> []" by (simp add: utf8_point_def)
  ultimately show ?thesis by auto
qed

lemma rstrip_encoded:
  assumes "list_all code_point_ok s" "s = [] \<or> last s \<noteq> 0"
  shows "rstrip_nul (utf8_encode s) = utf8_encode s"
proof (cases s rule: rev_cases)
  case (snoc t c)
  then have "utf8_point c \<noteq> [] \<and> last (utf8_point c) \<noteq> 0" using assms utf8_point_last by simp
  then show ?thesis by (intro rstrip_nul_id) (simp add: utf8_encode_def snoc)
qed (simp add: utf8_encode_def rstrip_nul_def)

definition raw_of :: "archive_member \<Rightarrow> raw_member" where
  "raw_of m = (name_field m, am_timestamp m, am_user_id m, am_group_id m, am_mode m, member_body m)"

lemma length_name_field: "writable m \<Longrightarrow> length (name_field m) = 16"
proof (cases "short_name (am_name m)")
  case True
  then show ?thesis using utf8_short [OF True] by (simp add: name_field_def Let_def short_name_def)
next
  case False
  assume "writable m"
  then have "len (utf8_encode (am_name m)) < 10 ^ 10" using False by (auto simp: writable_def member_body_def)
  then show ?thesis using False by (simp add: name_field_def length_number_field)
qed

lemma name_member_raw:
  assumes w: "writable m"
  shows "name_member long_names (raw_of m) = Inr m"
proof (cases "short_name (am_name m)")
  case True
  let ?n = "map octet (am_name m)"
  have n: "am_name m \<noteq> []" "\<forall>c \<in> set (am_name m). 32 < c \<and> c < 127 \<and> c \<noteq> 0x2F"
    using True by (auto simp: short_name_def list_all_iff)
  obtain c s where cs: "am_name m = c # s" using n(1) by (cases "am_name m") auto
  have oc: "byte_int (octet d) = d" if "d \<in> set (am_name m)" for d using bspec [OF n(2) that] by simp
  have slash: "octet d \<noteq> 0x2F" if d: "d \<in> set (am_name m)" for d
  proof
    assume "octet d = 0x2F"
    then have "byte_int (octet d) = 0x2F" by simp
    then show False using oc [OF d] bspec [OF n(2) d] by simp
  qed
  have "bytes_rstrip (name_field m) = ?n @ [0x2F]"
    using True utf8_short [OF True] rstrip_padding [of "?n @ [0x2F]"] by (simp add: name_field_def Let_def is_space_byte_def)
  moreover have "\<not> starts_with (?n @ [0x2F]) [0x2F]" "?n \<noteq> [0x2F]" using slash cs by auto
  moreover have "\<not> starts_with (?n @ [0x2F]) [0x23, 0x31, 0x2F]"
  proof (cases s)
    case (Cons d t)
    show ?thesis
    proof (cases t)
      case Nil
      have "\<not> (octet c = 0x23 \<and> octet d = 0x31)"
      proof
        assume a: "octet c = 0x23 \<and> octet d = 0x31"
        then have "c = byte_int 0x23" "d = byte_int 0x31" using oc [of c] oc [of d] cs Cons by auto
        then show False using True cs Cons Nil by (simp add: short_name_def)
      qed
      then show ?thesis using cs Cons Nil by simp
    next
      case (Cons e u)
      then show ?thesis using slash [of e] cs \<open>s = d # t\<close> by simp
    qed
  qed (simp add: cs)
  moreover have "utf8_decode ?n = Some (am_name m)"
    using utf8_round_trip [of "am_name m"] w utf8_short [OF True] by (simp add: writable_def)
  ultimately show ?thesis
    using True n(1)
    by (simp add: name_member_def raw_of_def gnu_archive_name_def utf8_name_def member_body_def Let_def)
next
  case False
  let ?e = "utf8_encode (am_name m)"
  have nf: "name_field m = [0x23, 0x31, 0x2F] @ number_field 13 10 (len ?e)" and body: "member_body m = ?e @ am_data m"
    using False by (simp_all add: name_field_def member_body_def)
  have "\<not> is_space_byte (last (digits_of 10 (length ?e)))"
    using digits_of_all_digits [of 10 "length ?e"] digit_not_other(6)
    by (force simp: all_digits_def list_all_iff)
  then have "bytes_rstrip (name_field m) = [0x23, 0x31, 0x2F] @ digits_of 10 (length ?e)"
    using rstrip_padding [of "[0x23, 0x31, 0x2F] @ digits_of 10 (length ?e)"] digits_of_all_digits [of 10 "length ?e"]
    by (simp add: nf number_field_def Let_def all_digits_def)
  moreover have "ascii_integer (digits_of 10 (length ?e)) 10 = Inr (len ?e)"
    using ascii_integer_field [of 10 "len ?e" 0] by (simp add: number_field_def Let_def)
  moreover have "utf8_name (rstrip_nul ?e) = Inr (am_name m)"
    using w rstrip_encoded utf8_round_trip by (simp add: utf8_name_def writable_def)
  ultimately show ?thesis
    by (simp add: name_member_def raw_of_def body format_range_def pslice_nonneg slice_from_def slice_bound_def)
qed


lemma length_member_header: "writable m \<Longrightarrow> length (member_header m) = 60"
  by (simp add: member_header_def length_name_field length_number_field writable_def)

lemma pslice_middle: "pslice (xs @ ys @ zs) (len xs) (len xs + len ys) = ys"
  by (simp add: pslice_nonneg)

text \<open>Cutting a byte string at the widths of its fields.\<close>

lemma pslice_at:
  assumes "data = xs @ ys @ zs" "a = len xs" "b = a + len ys"
  shows "pslice data a b = ys"
  using assms pslice_middle by metis

lemma member_header_fields:
  assumes w: "writable m"
  defines "h \<equiv> member_header m"
  shows "pslice h 0 16 = name_field m" "pslice h 16 28 = number_field 12 10 (am_timestamp m)"
    "pslice h 28 34 = number_field 6 10 (am_user_id m)" "pslice h 34 40 = number_field 6 10 (am_group_id m)"
    "pslice h 40 48 = number_field 8 8 (am_mode m)" "pslice h 48 58 = number_field 10 10 (len (member_body m))"
    "pslice h 58 60 = [0x60, 0x0A]"
proof -
  define f where "f = [name_field m, number_field 12 10 (am_timestamp m), number_field 6 10 (am_user_id m),
    number_field 6 10 (am_group_id m), number_field 8 8 (am_mode m), number_field 10 10 (len (member_body m)), [0x60, 0x0A]]"
  have h: "h = concat f" by (simp add: h_def member_header_def f_def)
  have l: "length (name_field m) = 16" "length (number_field 12 10 (am_timestamp m)) = 12"
    "length (number_field 6 10 (am_user_id m)) = 6" "length (number_field 6 10 (am_group_id m)) = 6"
    "length (number_field 8 8 (am_mode m)) = 8" "length (number_field 10 10 (len (member_body m))) = 10"
    using w by (simp_all add: length_name_field length_number_field writable_def)
  have cut: "pslice h a b = f ! k" if "k < 7" "a = len (concat (take k f))" "b = a + len (f ! k)" for a b k
  proof (rule pslice_at [OF _ that(2,3)])
    have "f = take k f @ f ! k # drop (Suc k) f" using that(1) by (intro id_take_nth_drop) (simp add: f_def)
    then show "h = concat (take k f) @ f ! k @ concat (drop (Suc k) f)" unfolding h by (metis concat.simps(2) concat_append)
  qed
  show "pslice h 0 16 = name_field m" using cut [of 0 0 16] l by (simp add: f_def)
  show "pslice h 16 28 = number_field 12 10 (am_timestamp m)" using cut [of 1 16 28] l by (simp add: f_def)
  show "pslice h 28 34 = number_field 6 10 (am_user_id m)" using cut [of 2 28 34] l by (simp add: f_def numeral_2_eq_2)
  show "pslice h 34 40 = number_field 6 10 (am_group_id m)" using cut [of 3 34 40] l by (simp add: f_def numeral_3_eq_3)
  show "pslice h 40 48 = number_field 8 8 (am_mode m)" using cut [of 4 40 48] l by (simp add: f_def)
  show "pslice h 48 58 = number_field 10 10 (len (member_body m))" using cut [of 5 48 58] l by (simp add: f_def)
  show "pslice h 58 60 = [0x60, 0x0A]" using cut [of 6 58 60] l by (simp add: f_def)
qed

lemma read_member_bytes:
  assumes w: "writable m"
  shows "read_member (xs @ member_bytes m @ ys) (len xs) = Inr (len xs + len (member_bytes m), raw_of m)"
proof -
  let ?data = "xs @ member_bytes m @ ys" and ?pad = "if odd (length (member_body m)) then [0x0A] else []"
  note f = member_header_fields [OF w]
  have lh: "length (member_header m) = 60" using length_member_header [OF w] .
  have "pslice ?data (len xs) (len xs + 60) = member_header m"
    by (rule pslice_at [of _ xs _ "member_body m @ ?pad @ ys"]) (simp_all add: member_bytes_def lh)
  moreover have "pslice ?data (len xs + 60) (len xs + 60 + len (member_body m)) = member_body m"
    by (rule pslice_at [of _ "xs @ member_header m" _ "?pad @ ys"]) (simp_all add: member_bytes_def lh)
  moreover have "ascii_integer (pslice (member_header m) 48 58) 10 = Inr (len (member_body m))"
      "ascii_integer (pslice (member_header m) 16 28) 10 = Inr (am_timestamp m)"
      "ascii_integer (pslice (member_header m) 28 34) 10 = Inr (am_user_id m)"
      "ascii_integer (pslice (member_header m) 34 40) 10 = Inr (am_group_id m)"
      "ascii_integer (pslice (member_header m) 40 48) 8 = Inr (am_mode m)"
    using w ascii_integer_field [of 10] ascii_integer_field [of 8] unfolding f writable_def by simp_all
  moreover have "len (member_body m) AND 1 = int (length (member_body m) mod 2)" by (simp add: and_one_eq zmod_int)
  then have "len (member_bytes m) = 60 + len (member_body m) + (len (member_body m) AND 1)"
    by (simp add: member_bytes_def lh odd_iff_mod_2_eq_one)
  ultimately show ?thesis
    by (simp add: read_member_def format_range_def raw_of_def f(1,7) lh member_bytes_def)
qed

lemma read_members_bytes:
  assumes "list_all writable ms"
  shows "read_members (xs @ concat (map member_bytes ms)) (len xs)
    = Inr (len (xs @ concat (map member_bytes ms)), map raw_of ms)"
  using assms
proof (induction ms arbitrary: xs)
  case Nil
  then show ?case by (simp add: read_members.simps)
next
  case (Cons m ms)
  have "0 < length (member_bytes m)" using length_member_header Cons.prems by (simp add: member_bytes_def)
  then have "0 < len (member_bytes m) + len (concat (map member_bytes ms))" by linarith
  then show ?case
    using Cons.IH [of "xs @ member_bytes m"] Cons.prems read_member_bytes [of m xs "concat (map member_bytes ms)"]
    by (subst read_members.simps) (simp add: add.assoc)
qed


section \<open>Properties\<close>

text \<open>
  C31. Reading inverts writing.  Take members whose numbers and data fit the header fields and
  whose names are any Unicode scalar values that do not end in NUL, and write plain short names
  into the header and all others before the data: from the bytes of that archive the reader
  returns exactly the members.  (It strips trailing NULs from a name before the data, so a name
  that ends in NUL does not come back.)
\<close>

theorem archive_round_trip:
  assumes "list_all writable ms"
  shows "parse_coff_archive (archive_bytes ms) = Inr ms"
proof -
  have "rmap (name_member long_names) (map raw_of ms) = Inr ms" for long_names
    using assms name_member_raw by (induction ms) auto
  moreover have "len archive_signature = 8" by (simp add: archive_signature_def)
  ultimately show ?thesis
    using read_members_bytes [OF assms, of archive_signature]
    by (simp add: parse_coff_archive_def archive_bytes_def starts_with_prefix)
qed

definition sample_members :: "archive_member list" where
  "sample_members =
     [\<lparr>am_name = [0x61, 0x2E, 0x6F], am_timestamp = 7, am_user_id = 0, am_group_id = 0, am_mode = 0, am_data = [1, 2, 3]\<rparr>,
      \<lparr>am_name = [0x3A9, 0x1F600], am_timestamp = 12, am_user_id = 1, am_group_id = 2, am_mode = 420, am_data = []\<rparr>]"

theorem archive_round_trip_witness: "parse_coff_archive (archive_bytes sample_members) = Inr sample_members"
  by (rule archive_round_trip) code_simp

text \<open>
  C32. An accepted archive is consumed to its last byte: after the signature it is a sequence
  of 60-byte headers, each followed by as many bytes as its size field says and one byte of
  padding when that number is odd; the members carry the numbers of the headers, and their
  data is what follows, after the name where a BSD name comes first.
\<close>

theorem archive_exact:
  assumes "parse_coff_archive data = Inr ms"
  shows "\<exists>blocks. data = archive_signature @ concat (map block_bytes blocks) \<and> list_all2 member_block blocks ms"
proof -
  obtain raws where r: "starts_with data archive_signature" "read_members data 8 = Inr (len data, raws)"
      "rmap (name_member (long_names_of raws)) raws = Inr ms"
    using assms by (auto simp: parse_coff_archive_def)
  obtain blocks where b: "list_all2 block_raw blocks raws" "slice_from data 8 = concat (map block_bytes blocks)"
    using read_members_blocks [OF r(2)] by auto
  obtain rest where rest: "data = archive_signature @ rest" using r(1) by (auto simp: starts_with_prefix)
  then have "slice_from data 8 = rest"
    by (simp add: slice_from_def slice_bound_def archive_signature_def)
  moreover have "list_all2 member_block blocks ms"
    by (rule list_all2_compose [OF b(1) r(3) [unfolded rmap_eq_Inr]]) (rule name_member_block)
  ultimately show ?thesis using b(2) rest by metis
qed

theorem archive_exact_witness:
  "\<exists>blocks. archive_bytes sample_members = archive_signature @ concat (map block_bytes blocks)
     \<and> list_all2 member_block blocks sample_members"
proof (rule archive_exact)
  show "parse_coff_archive (archive_bytes sample_members) = Inr sample_members" by code_simp
qed

end
