(* ===== verification/Spec2Isabelle.thy ===== *)
theory Spec2Isabelle
  imports Ia32_Ranges Classic_Coff Small_Msf Pe32 Cost_Model Schedule_Soundness Schedule_Apply
    Task_Scheduler Bijection_Soundness Relational_Runs Equality_Exchange Transaction_Safety Coff_Archive
begin

text \<open>
  \<^bold>\<open>A verification development for reprobit.\<close>

  reprobit rebuilds historical binaries bit for bit.  It compiles sources with the original
  compiler and, where the compiler's output cannot be reproduced from source alone, applies
  declared \<^emph>\<open>interventions\<close>: small certified rewrites of an object file, each with a
  cost.  What keeps this honest is a layer of fail-closed readers and checkers: decoders
  that refuse every byte sequence they do not fully understand, and validators that accept
  an intervention only when its effect on the code is proved.  This development models that
  layer.  The rest of the program drives compilers, reads and writes files and renders
  reports.

  \<^bold>\<open>Parts and theories\<close> (paths are relative to \<^verbatim>\<open>src/reprobit/\<close>)

  \<^item> \<^verbatim>\<open>Prelude\<close>: exceptions as a sum type with a bind and loop combinators; byte strings;
    Python slicing, indexing, ranges and little-endian integers.
  \<^item> \<^verbatim>\<open>Json_Values\<close> (\<^verbatim>\<open>classic/foundation.py\<close>): untyped declaration documents and the
    checks every validator begins with, the refusal of embedded payloads among them.
  \<^item> \<^verbatim>\<open>Ia32_Decode\<close> (\<^verbatim>\<open>ia32_decode.py\<close>): the instruction-length decoder.  The locale
    \<^verbatim>\<open>length_decoder\<close> states what its clients rely on (bounds and locality) and derives
    unique segmentation of a byte stream.
  \<^item> \<^verbatim>\<open>Ia32_Commute\<close>, \<^verbatim>\<open>Ia32_Ranges\<close> (\<^verbatim>\<open>classic/ia32.py\<close>): the commuting-pair check with
    a machine semantics of the admitted forms; hybrid and mosaic ranges, the self
    permutation and the declared relocations.  The locale \<^verbatim>\<open>footprint_machine\<close> is the
    contract between decoded read and write sets and the steps of the machine.
  \<^item> \<^verbatim>\<open>Register_Semantics\<close>, \<^verbatim>\<open>Register_Liveness\<close> (\<^verbatim>\<open>classic/register_semantics.py\<close>): the
    closed decoder that reports register fields, operands and control flow, the walk over
    a body, and backward liveness.
  \<^item> \<^verbatim>\<open>Register_Webs\<close> (\<^verbatim>\<open>classic/scheduling_webs.py\<close>): control flow, reached uses and
    reaching definitions.
  \<^item> \<^verbatim>\<open>Schedule_Dependence\<close> (\<^verbatim>\<open>classic/scheduling_dependence.py\<close>): dependence facts, the
    alias rule, the dependence graph, stack adjustments and the two stack-frontier
    projections; \<^verbatim>\<open>Schedule_Soundness\<close> proves that an accepted order keeps the machine
    state; \<^verbatim>\<open>Schedule_Apply\<close> (\<^verbatim>\<open>classic/scheduling_apply.py\<close>) rewrites the body.
  \<^item> \<^verbatim>\<open>Register_Bijection\<close> (\<^verbatim>\<open>classic/register_bijection.py\<close>): a declared renaming of registers
    over a region of a body.  \<^verbatim>\<open>Bijection_Soundness\<close> runs the original and the rewritten body
    in lock step: the locale \<^verbatim>\<open>lockstep\<close> lifts a relation kept by corresponding steps to runs
    and is interpreted on the walks of the two bodies.  \<^verbatim>\<open>Codeview\<close> (\<^verbatim>\<open>classic/debug.py\<close>)
    reads symbol records and applies the same renaming to them.
  \<^item> \<^verbatim>\<open>Relational_Flow\<close>, \<^verbatim>\<open>Relational_Form\<close> (\<^verbatim>\<open>classic/relational.py\<close>): the flow walk with the
    flags each instruction reads and writes, and the form that exchanges the operands of a
    compare and mirrors its branch.  \<^verbatim>\<open>Relational_Soundness\<close> shows what acceptance establishes of
    the image, \<^verbatim>\<open>Relational_Runs\<close> runs both in lock step, a second interpretation of \<^verbatim>\<open>lockstep\<close>.
    \<^verbatim>\<open>Equality_Exchange\<close> is the form that exchanges the two frame slots of an equality test.
  \<^item> \<^verbatim>\<open>Coff_Format\<close>, \<^verbatim>\<open>Coff_Index\<close> (\<^verbatim>\<open>coff_format.py\<close>): the object reader, the relocation
    rows and the metadata index.  The locale \<^verbatim>\<open>metadata_source\<close> is what the
    compatibility checks need of an optional index; it is interpreted without an index
    and with the one the constructor builds.
  \<^item> \<^verbatim>\<open>Classic_Coff\<close> (\<^verbatim>\<open>classic/coff.py\<close>, the line walk of \<^verbatim>\<open>classic/ia32.py\<close>): censuses,
    topology gates and line-certified boundaries.
  \<^item> \<^verbatim>\<open>Small_Msf\<close> (\<^verbatim>\<open>small_msf.py\<close>) and \<^verbatim>\<open>Pe32\<close> (\<^verbatim>\<open>pe32.py\<close>): the debug-database container
    and the executable's header geometry.
  \<^item> \<^verbatim>\<open>Binary_Formats\<close>, \<^verbatim>\<open>Coff_Archive\<close> (\<^verbatim>\<open>formats.py\<close>): the general readers of objects, images
    and archives.
  \<^item> \<^verbatim>\<open>Intervention_Metadata\<close>, \<^verbatim>\<open>Cost_Model\<close> (\<^verbatim>\<open>intervention_metadata.py\<close>, \<^verbatim>\<open>costs.py\<close>):
    the recipe catalogue and the cost of a set of interventions.

  \<^item> \<^verbatim>\<open>Dependency_Queue\<close> (\<^verbatim>\<open>dag_queue.py\<close>) and \<^verbatim>\<open>Task_Scheduler\<close> (\<^verbatim>\<open>scheduler.py\<close>): the
    ready queue over the standard library's sorter, and the scheduler as a step relation
    over every interleaving of its workers.  The locale \<^verbatim>\<open>ready_source\<close> is what the
    scheduler needs of the queue, \<^verbatim>\<open>terminating_loop\<close> the argument that its loop ends.
  \<^item> \<^verbatim>\<open>Transaction_Disk\<close> (\<^verbatim>\<open>secure_paths_posix.py\<close>, \<^verbatim>\<open>exact_tree.py\<close>): a disk of files and
    directories, procedures as functions that return their result, the final disk and every
    disk they pass through, and the publication, promotion and removal primitives.
    \<^verbatim>\<open>Transactions\<close> (\<^verbatim>\<open>transactions.py\<close>): staging, journal, commit, rollback and recovery.
    \<^verbatim>\<open>Transaction_Logic\<close> is a logic for crashes (\<^verbatim>\<open>stays I p d Q\<close>: every disk on the way
    satisfies \<open>I\<close>, the result satisfies \<open>Q\<close>); \<^verbatim>\<open>Transaction_Recovery\<close>, \<^verbatim>\<open>Transaction_Commit\<close>
    and \<^verbatim>\<open>Transaction_Safety\<close> carry the invariants through recovery and commit.  The locale
    \<^verbatim>\<open>crash_safe\<close> turns the one-crash result for recovery into one for any number of crashes.

  \<^bold>\<open>How they interact\<close>

  A rewrite starts from bytes.  The COFF reader finds a function body and its relocations;
  the length decoder and the register decoder cut the body into instructions; a certificate
  (permutation, mosaic, schedule) is validated against those instructions; the rewriter
  builds the image and walks it again.  In the model the same calls are made in the same
  order: \<^verbatim>\<open>apply_instruction_schedule\<close> calls the body walk, the decoder, the
  stack adjustments, the dependence graph, a projection and the order check, as the code
  does.  Interventions are then charged by the cost model.  Compilations run as tasks of
  the scheduler, which takes ready tasks from the queue and reports the finished ones back.
  Changes to the project's own files go through a transaction, which begins by recovering
  whatever an earlier one left behind.

  \<^bold>\<open>What the theorems show\<close>

  \<^item> Safety of rewriting: an accepted commuting pair, self permutation or schedule reaches
    the machine state of the source order; stack adjustments keep every ESP-relative
    address, with ESP changed as the bytes of the instructions say; an image differs from its
    body only inside the declared windows, and each window is its own decoded instructions in
    the declared order.
  \<^item> Decoders: bounds, locality, unique segmentation, agreement of the two decoders,
    well-formed register facts and tiling of a body.
  \<^item> Readers: every range an accepted object, container or image names lies inside the
    file; page roles are disjoint and complete; address translation round-trips; a logical
    range and a whole read of a stream agree; an archive is consumed exactly and reading
    inverts writing.
  \<^item> Dataflow: the liveness iteration ends within its budget and is exactly the path
    semantics, on every decoded body that does not fall off its end, which is refused; the uses
    a definition reaches are found exactly, unless the register is redefined in part on the way,
    and only then is the search refused.
  \<^item> Equivalence: indexed and direct compatibility checks agree; the payload worklist
    decides a structural predicate; the two readers of an image translate the same addresses
    and the two readers of an object find the same sections.
  \<^item> Costs: the total is conserved by every view, and every identifier is charged once, on
    the last definition listed for it.
  \<^item> Scheduling: in every reachable state the ceilings hold and started tasks have their
    dependencies completed; every run ends, with all tasks done or with a failure.
  \<^item> Register bijections: the rewritten body runs in lock step with the original, states
    related by the renaming inside the region and equal on the live registers outside it,
    and only declared register fields of the debug records change.
  \<^item> Relational forms: the body and its image take the same branches and agree on everything
    but flags no later instruction reads, for every semantics that the flag table describes;
    an exchanged equality test decides alike, with its register and flags dead afterwards.
  \<^item> Transactions: after a crash at any step of a commit, and any number of crashed
    recoveries, recovery leaves the project as it was or as the operations make it; a commit
    that returns has applied its operations, one that raises has changed nothing.  Both start
    from a disk recovery can restore, with staged operations on plain paths, none inside another.
  \<^item> Nine theorems record behaviour that departs from the stated intent: a
    permutation that moves nothing is accepted, narrow register writes carry no
    dependence, the alias rule ignores address wrap-around, a four-byte rebase that
    keeps some of its bytes is refused, a bijection may exchange the argument registers of a
    call, a crash in the cleanup of a transaction strands a directory that blocks the
    project, a transaction with one path inside another is accepted and strands it too,
    the general object reader gives an uninitialised section bytes of the file header, and an
    equality exchange does not look at segment prefixes, though across segments it is never
    sound.

  \<^bold>\<open>Modelling conventions\<close>

  A Python \<^verbatim>\<open>int\<close> is an \<^typ>\<open>int\<close>, a byte an 8-bit word, machine registers and
  addresses in the semantics 32-bit words.  A raise is a value of the error type with
  the fixed part of its message (and the identifier, where one has conflicting definitions).  Loops are structural recursions or folds that stop at the
  first error.  Two loops carry an explicit bound of the source: liveness runs at most
  \<open>20 * n + 20\<close> rounds, and the theorem shows the bound is never what stops it.  The stack
  searches of the web traversals have a measure and need no fuel.  Digests, the
  equality of the schema's models and the boundary proof of
  \<^verbatim>\<open>classic/stack_frontier_object.py\<close> are parameters.

  \<^bold>\<open>Not modelled\<close>

  Process control, locks, caches on disk, the command line, reports, and source rewriting of
  C++ are outside: they are effects or text processing on top of the modelled layer.  Of the
  transactions, the project lock, the JSON membership assertions, symbolic links, the Windows
  back end and \<^verbatim>\<open>fsync\<close> are left out; a crash stops the program between two atomic
  operations and loses nothing already done, and a temporary file appears with its whole
  contents.  The remaining certificate checkers of \<^verbatim>\<open>classic/\<close> (web recolouring, region
  simulation), the validators and producers around the modelled ones and the link maps are not translated.
\<close>

end
